(* ===== verification/Prelude.thy ===== *)
theory Prelude
  imports Main "HOL-Library.Multiset" "HOL-Library.Char_ord" "HOL-Library.List_Lexorder"
    "HOL-Library.Code_Target_Nat"
begin

text \<open>
  Shared vocabulary of the development: the three-valued comparison result of
  \<^verbatim>\<open>std::cmp::Ordering\<close> with its \<^verbatim>\<open>then_with\<close> chaining, the stable
  \<^verbatim>\<open>sort_by\<close> of Rust slices, saturating 64-bit arithmetic, and the collections of
  rewrite rules the component theories add to.

  Unsigned 64-bit quantities that the source only ever combines with saturating
  operations are modelled as \<^typ>\<open>nat\<close> with the bound written out (\<open>u64_max\<close>);
  counters that the source increments with plain \<open>+=\<close> are machine words in the
  theories that own them.
\<close>

named_theorems u64_simps \<open>evaluation of saturating 64-bit arithmetic\<close>
named_theorems ord_simps \<open>evaluation of comparison chains\<close>

section \<open>Orderings\<close>

datatype ordering = Less | Equal | Greater

fun then_with :: "ordering \<Rightarrow> ordering \<Rightarrow> ordering" where
  "then_with Equal o2 = o2"
| "then_with Less o2 = Less"
| "then_with Greater o2 = Greater"

fun reverse_ord :: "ordering \<Rightarrow> ordering" where
  "reverse_ord Less = Greater"
| "reverse_ord Equal = Equal"
| "reverse_ord Greater = Less"

definition cmp :: "'a::linorder \<Rightarrow> 'a \<Rightarrow> ordering" where
  "cmp x y = (if x < y then Less else if x = y then Equal else Greater)"

fun cmp_option :: "'a::linorder option \<Rightarrow> 'a option \<Rightarrow> ordering" where
  "cmp_option None None = Equal"
| "cmp_option None (Some y) = Less"
| "cmp_option (Some x) None = Greater"
| "cmp_option (Some x) (Some y) = cmp x y"

lemma cmp_iff [simp, ord_simps]:
  "cmp x y = Less \<longleftrightarrow> x < y" "cmp x y = Equal \<longleftrightarrow> x = y" "cmp x y = Greater \<longleftrightarrow> y < x"
  by (auto simp: cmp_def)

lemma cmp_self [simp]: "cmp x x = Equal"
  by simp

lemma cmp_swap: "cmp y x = reverse_ord (cmp x y)"
  by (auto simp: cmp_def)

lemma then_with_iff [ord_simps]:
  "then_with a b = Less \<longleftrightarrow> a = Less \<or> a = Equal \<and> b = Less"
  "then_with a b = Equal \<longleftrightarrow> a = Equal \<and> b = Equal"
  "then_with a b = Greater \<longleftrightarrow> a = Greater \<or> a = Equal \<and> b = Greater"
  by (cases a; simp)+

lemma reverse_ord_iff [simp, ord_simps]:
  "reverse_ord a = Less \<longleftrightarrow> a = Greater"
  "reverse_ord a = Equal \<longleftrightarrow> a = Equal"
  "reverse_ord a = Greater \<longleftrightarrow> a = Less"
  by (cases a; simp)+

lemma reverse_then_with [simp]:
  "reverse_ord (then_with a b) = then_with (reverse_ord a) (reverse_ord b)"
  by (cases a) simp_all

lemma cmp_option_iff [simp]:
  "cmp_option x y = Equal \<longleftrightarrow> x = y"
  by (cases x; cases y) auto

lemma cmp_option_swap: "cmp_option y x = reverse_ord (cmp_option x y)"
proof (cases "(x, y)" rule: cmp_option.cases)
  case (4 a b)
  then show ?thesis using cmp_swap [of b a] by simp
qed simp_all

lemma cmp_option_trans:
  "cmp_option x y \<noteq> Greater \<Longrightarrow> cmp_option y z \<noteq> Greater \<Longrightarrow> cmp_option x z \<noteq> Greater"
  by (cases x; cases y; cases z) auto

lemma then_with_Equal [simp]: "then_with a Equal = a"
  by (cases a) simp_all

lemma then_with_assoc: "then_with (then_with a b) c = then_with a (then_with b c)"
  by (cases a) simp_all

lemma cmp_Cons: "cmp (x # xs) (y # ys) = then_with (cmp x y) (cmp xs ys)" for x y :: "'a::linorder"
  by (auto simp: cmp_def)

section \<open>Saturating arithmetic on u64\<close>

definition u64_max :: nat where
  "u64_max = 2 ^ 64 - 1"

definition sat_add :: "nat \<Rightarrow> nat \<Rightarrow> nat" where
  "sat_add a b = min (a + b) u64_max"

abbreviation sat_sub :: "nat \<Rightarrow> nat \<Rightarrow> nat" where
  "sat_sub a b \<equiv> a - b"

lemma u64_max_eq [u64_simps]: "u64_max = 18446744073709551615"
  by (simp add: u64_max_def)

lemma u64_max_pos [simp]: "0 < u64_max" "1 \<le> u64_max"
  by (simp_all add: u64_max_def)

lemma sat_add_le [simp]: "sat_add a b \<le> u64_max"
  by (simp add: sat_add_def)

lemma sat_add_comm: "sat_add a b = sat_add b a"
  by (simp add: sat_add_def add.commute)

lemma sat_add_assoc: "sat_add (sat_add a b) c = sat_add a (sat_add b c)"
  by (simp add: sat_add_def min_def)

lemma sat_add_left_comm: "sat_add a (sat_add b c) = sat_add b (sat_add a c)"
  by (metis sat_add_assoc sat_add_comm)

lemmas sat_add_ac = sat_add_assoc sat_add_comm sat_add_left_comm

lemma sat_add_0 [simp]: "a \<le> u64_max \<Longrightarrow> sat_add a 0 = a" "a \<le> u64_max \<Longrightarrow> sat_add 0 a = a"
  by (simp_all add: sat_add_def)

lemma sat_add_mono: "a \<le> a' \<Longrightarrow> b \<le> b' \<Longrightarrow> sat_add a b \<le> sat_add a' b'"
  by (auto simp: sat_add_def)

lemma sat_add_ge1: "a \<le> u64_max \<Longrightarrow> a \<le> sat_add a b"
  by (simp add: sat_add_def)

lemma sat_add_exact: "a + b \<le> u64_max \<Longrightarrow> sat_add a b = a + b"
  by (simp add: sat_add_def)

lemma sat_add_min_left: "sat_add (min a u64_max) b = sat_add a b"
  by (simp add: sat_add_def min_def)

lemma sat_add_min_right: "sat_add a (min b u64_max) = sat_add a b"
  by (simp add: sat_add_def min_def)

section \<open>Stable sorting with a comparator\<close>

text \<open>
  \<^verbatim>\<open>slice::sort_by\<close> is stable. For a comparator that is a total preorder the result
  is determined by stability; on slices of at most twenty elements the standard library
  runs exactly this insertion sort, shifting each new element left past the elements it
  is strictly less than. \<open>sift\<close> works on the reversed sorted prefix.
\<close>

fun sift :: "('a \<Rightarrow> 'a \<Rightarrow> ordering) \<Rightarrow> 'a \<Rightarrow> 'a list \<Rightarrow> 'a list" where
  "sift c x [] = [x]"
| "sift c x (y # ys) = (if c x y = Less then y # sift c x ys else x # y # ys)"

definition sort_by :: "('a \<Rightarrow> 'a \<Rightarrow> ordering) \<Rightarrow> 'a list \<Rightarrow> 'a list" where
  "sort_by c xs = rev (foldl (\<lambda>acc x. sift c x acc) [] xs)"

lemma mset_sift [simp]: "mset (sift c x ys) = add_mset x (mset ys)"
  by (induction ys) auto

lemma mset_foldl_sift: "mset (foldl (\<lambda>acc x. sift c x acc) acc xs) = mset acc + mset xs"
  by (induction xs arbitrary: acc) auto

lemma mset_sort_by [simp]: "mset (sort_by c xs) = mset xs"
  by (simp add: sort_by_def mset_foldl_sift)

lemma set_sort_by [simp]: "set (sort_by c xs) = set xs"
  by (metis mset_sort_by set_mset_mset)

lemma length_sort_by [simp]: "length (sort_by c xs) = length xs"
  by (metis mset_sort_by size_mset)

lemma set_sift [simp]: "set (sift c x ys) = insert x (set ys)"
  by (metis mset_sift set_mset_add_mset_insert set_mset_mset)

lemma sort_by_Nil [simp]: "sort_by c [] = []"
  by (simp add: sort_by_def)

lemma sort_by_eq_Nil [simp]: "sort_by c xs = [] \<longleftrightarrow> xs = []"
  by (metis length_0_conv length_sort_by)

text \<open>
  A comparator refines a key on the values of interest when a smaller key always compares
  \<open>Less\<close> and \<open>Less\<close> never increases the key. No transitivity of the comparator
  itself is needed: the sorted result is then ordered by the key.
\<close>

locale refines_key =
  fixes c :: "'a \<Rightarrow> 'a \<Rightarrow> ordering"
    and key :: "'a \<Rightarrow> 'k::linorder"
    and ok :: "'a \<Rightarrow> bool"
  assumes key_less: "ok x \<Longrightarrow> ok y \<Longrightarrow> key x < key y \<Longrightarrow> c x y = Less"
    and less_key: "ok x \<Longrightarrow> ok y \<Longrightarrow> c x y = Less \<Longrightarrow> key x \<le> key y"
begin

lemma sift_key_sorted:
  assumes "ok x" "list_all ok ys" "sorted_wrt (\<lambda>a b. key b \<le> key a) ys"
  shows "sorted_wrt (\<lambda>a b. key b \<le> key a) (sift c x ys)"
  using assms(2,3)
proof (induction ys)
  case Nil
  then show ?case by simp
next
  case (Cons y ys)
  show ?case
  proof (cases "c x y = Less")
    case True
    with Cons assms(1) less_key [of x y] show ?thesis by auto
  next
    case False
    with assms(1) Cons.prems(1) have "key y \<le> key x" using key_less [of x y] by (auto simp: not_le [symmetric])
    with Cons.prems False show ?thesis by auto
  qed
qed

lemma sort_by_key_sorted:
  assumes "list_all ok xs"
  shows "sorted_wrt (\<lambda>a b. key a \<le> key b) (sort_by c xs)"
proof -
  have "list_all ok acc \<Longrightarrow> list_all ok xs \<Longrightarrow> sorted_wrt (\<lambda>a b. key b \<le> key a) acc \<Longrightarrow>
      sorted_wrt (\<lambda>a b. key b \<le> key a) (foldl (\<lambda>acc x. sift c x acc) acc xs)" for acc
    by (induction xs arbitrary: acc) (simp_all add: list_all_iff sift_key_sorted [unfolded list_all_iff])
  from this [of "[]"] assms show ?thesis
    by (simp add: sort_by_def sorted_wrt_rev)
qed

lemma sort_by_hd_least: "list_all ok xs \<Longrightarrow> sort_by c xs = y # ys \<Longrightarrow> x \<in> set xs \<Longrightarrow> key y \<le> key x"
  using sort_by_key_sorted [of xs] set_sort_by [of c xs] by auto

end

text \<open>
  A comparator that is a total preorder (antisymmetric up to reversal, transitive): the
  laws \<^verbatim>\<open>sort_by\<close> demands of its argument. The result is then fully sorted.
\<close>

locale total_comparator =
  fixes c :: "'a \<Rightarrow> 'a \<Rightarrow> ordering"
  assumes swap: "c y x = reverse_ord (c x y)"
    and le_trans: "c x y \<noteq> Greater \<Longrightarrow> c y z \<noteq> Greater \<Longrightarrow> c x z \<noteq> Greater"
begin

lemma refl_Equal: "c x x = Equal"
  using swap [of x x] by (cases "c x x") auto

lemma sift_sorted:
  "sorted_wrt (\<lambda>a b. c b a \<noteq> Greater) ys \<Longrightarrow> sorted_wrt (\<lambda>a b. c b a \<noteq> Greater) (sift c x ys)"
proof (induction ys)
  case Nil
  then show ?case by simp
next
  case (Cons y ys)
  show ?case
  proof (cases "c x y = Less")
    case True
    with Cons show ?thesis by auto
  next
    case False
    then have yx: "c y x \<noteq> Greater" using swap [of y x] by auto
    have "c z x \<noteq> Greater" if "z \<in> set ys" for z
      using Cons.prems that yx le_trans [of z y x] by auto
    with yx Cons.prems False show ?thesis by auto
  qed
qed

lemma sort_by_sorted: "sorted_wrt (\<lambda>a b. c a b \<noteq> Greater) (sort_by c xs)"
proof -
  have "sorted_wrt (\<lambda>a b. c b a \<noteq> Greater) acc \<Longrightarrow>
      sorted_wrt (\<lambda>a b. c b a \<noteq> Greater) (foldl (\<lambda>acc x. sift c x acc) acc xs)" for acc
    by (induction xs arbitrary: acc) (auto intro: sift_sorted)
  from this [of "[]"] show ?thesis
    by (simp add: sort_by_def sorted_wrt_rev)
qed

end

section \<open>Options and lists\<close>

lemma sorted_wrt_all: "(\<And>x y. x \<in> set xs \<Longrightarrow> y \<in> set xs \<Longrightarrow> P x y) \<Longrightarrow> sorted_wrt P xs"
  by (induction xs) auto

lemma map_option_eq_Some_iff:
  "map_option f x = Some y \<longleftrightarrow> (\<exists>z. x = Some z \<and> y = f z)"
  by (cases x) auto

lemma foldl_sat_add: "foldl sat_add a xs = sat_add a (foldl sat_add 0 xs)" if "a \<le> u64_max"
  using that
proof (induction xs arbitrary: a)
  case Nil
  then show ?case by simp
next
  case (Cons x xs)
  have "foldl sat_add a (x # xs) = sat_add (sat_add a x) (foldl sat_add 0 xs)"
    using Cons.IH [of "sat_add a x"] by simp
  also have "\<dots> = sat_add a (sat_add (sat_add 0 x) (foldl sat_add 0 xs))"
    by (simp add: sat_add_def min_def)
  also have "\<dots> = sat_add a (foldl sat_add 0 (x # xs))"
    using Cons.IH [of "sat_add 0 x"] by simp
  finally show ?case .
qed

section \<open>Square roots\<close>

text \<open>Integer square root; the sources round \<^verbatim>\<open>f64::sqrt\<close> down or up, which agrees below \<open>2 ^ 52\<close>.\<close>

fun isqrt :: "nat \<Rightarrow> nat" where
  "isqrt n = (if n = 0 then 0
     else let r = 2 * isqrt (n div 4) in if (r + 1) * (r + 1) \<le> n then r + 1 else r)"

declare isqrt.simps [simp del]

lemma isqrt_bounds: "isqrt n * isqrt n \<le> n \<and> n < Suc (isqrt n) * Suc (isqrt n)"
proof (induction n rule: isqrt.induct)
  case (1 n)
  show ?case
  proof (cases "n = 0")
    case True
    then show ?thesis by (simp add: isqrt.simps [of 0])
  next
    case False
    define q where "q = isqrt (n div 4)"
    have ih: "q * q \<le> n div 4" "n div 4 < (q + 1) * (q + 1)" using 1 [OF False] by (simp_all add: q_def)
    have le: "4 * (q * q) \<le> n" using ih(1) by linarith
    have less: "n < 4 * ((q + 1) * (q + 1))" using ih(2) by linarith
    have e: "isqrt n = (if (2 * q + 1) * (2 * q + 1) \<le> n then 2 * q + 1 else 2 * q)"
      using False by (simp add: isqrt.simps [of n] q_def Let_def)
    have "n < Suc (2 * q + 1) * Suc (2 * q + 1)" using less by (simp add: algebra_simps)
    with le show ?thesis unfolding e by (auto simp: algebra_simps)
  qed
qed

text \<open>\<^verbatim>\<open>(n as f64).sqrt().ceil()\<close>.\<close>

definition ceil_sqrt :: "nat \<Rightarrow> nat" where
  "ceil_sqrt n = (let r = isqrt n in if r * r = n then r else r + 1)"

lemma ceil_sqrt_le: "0 < n \<Longrightarrow> 1 \<le> ceil_sqrt n \<and> ceil_sqrt n \<le> n"
proof -
  assume "0 < n"
  have b: "isqrt n * isqrt n \<le> n" "n < Suc (isqrt n) * Suc (isqrt n)" using isqrt_bounds by blast+
  show ?thesis
  proof (cases "isqrt n")
    case 0
    then show ?thesis using b \<open>0 < n\<close> by (simp add: ceil_sqrt_def)
  next
    case (Suc k)
    then have "isqrt n \<le> isqrt n * isqrt n" by simp
    then show ?thesis using b Suc by (auto simp: ceil_sqrt_def Let_def)
  qed
qed

end
