(* ===== verification/Rust_Str.thy ===== *)
theory Rust_Str
  imports Prelude
begin

text \<open>
  The part of Rust's \<^verbatim>\<open>str\<close> library the sources use. A Rust string is its UTF-8 byte
  sequence, here an Isabelle \<^typ>\<open>string\<close> (a list of 8-bit characters), so byte lengths,
  slicing at ASCII positions and the order of \<^verbatim>\<open>BTreeMap<String, _>\<close> keys
  (lexicographic on bytes) are exact. Trimming removes every Unicode
  \<open>White_Space\<close> character, recognised by its UTF-8 encoding.
\<close>

abbreviation NL :: char where "NL \<equiv> CHR 0x0A"
abbreviation CR :: char where "CR \<equiv> CHR 0x0D"

named_theorems str_simps \<open>evaluation of string operations\<close>

section \<open>Bytes and character classes\<close>

abbreviation byte :: "char \<Rightarrow> nat" where
  "byte c \<equiv> of_char c"

definition is_ascii_digit :: "char \<Rightarrow> bool" where
  "is_ascii_digit c \<longleftrightarrow> 48 \<le> byte c \<and> byte c \<le> 57"

definition is_ascii :: "string \<Rightarrow> bool" where
  "is_ascii s \<longleftrightarrow> (\<forall>c \<in> set s. byte c < 128)"

definition ascii_ws :: "char \<Rightarrow> bool" where
  "ascii_ws c \<longleftrightarrow> byte c = 32 \<or> 9 \<le> byte c \<and> byte c \<le> 13"

definition ws2 :: "char \<Rightarrow> char \<Rightarrow> bool" where
  "ws2 a b \<longleftrightarrow> byte a = 194 \<and> (byte b = 133 \<or> byte b = 160)"

definition ws3 :: "char \<Rightarrow> char \<Rightarrow> char \<Rightarrow> bool" where
  "ws3 a b c \<longleftrightarrow>
     byte a = 225 \<and> byte b = 154 \<and> byte c = 128 \<or>
     byte a = 226 \<and> byte b = 128 \<and> (128 \<le> byte c \<and> byte c \<le> 138 \<or> byte c \<in> {168, 169, 175}) \<or>
     byte a = 226 \<and> byte b = 129 \<and> byte c = 159 \<or>
     byte a = 227 \<and> byte b = 128 \<and> byte c = 128"

text \<open>Length in bytes of the white-space character a string starts with, 0 if there is none.\<close>

definition ws_len :: "string \<Rightarrow> nat" where
  "ws_len s = (case s of [] \<Rightarrow> 0
     | a # t \<Rightarrow> if ascii_ws a then 1 else
        (case t of [] \<Rightarrow> 0
         | b # u \<Rightarrow> if ws2 a b then 2 else
            (case u of [] \<Rightarrow> 0 | c # _ \<Rightarrow> if ws3 a b c then 3 else 0)))"

text \<open>The same at the end, reading the reversed string.\<close>

definition ws_len_rev :: "string \<Rightarrow> nat" where
  "ws_len_rev s = (case s of [] \<Rightarrow> 0
     | c # t \<Rightarrow> if ascii_ws c then 1 else
        (case t of [] \<Rightarrow> 0
         | b # u \<Rightarrow> if ws2 b c then 2 else
            (case u of [] \<Rightarrow> 0 | a # _ \<Rightarrow> if ws3 a b c then 3 else 0)))"

lemma ws_len_le: "ws_len s \<le> length s"
  by (auto simp: ws_len_def split: list.splits)

lemma ws_len_rev_le: "ws_len_rev s \<le> length s"
  by (auto simp: ws_len_rev_def split: list.splits)

function trim_start :: "string \<Rightarrow> string" where
  "trim_start s = (if ws_len s = 0 then s else trim_start (drop (ws_len s) s))"
  by pat_completeness auto
termination
proof (relation "measure length", goal_cases)
  case (2 s)
  then show ?case using ws_len_le [of s] by simp
qed simp

function trim_rev :: "string \<Rightarrow> string" where
  "trim_rev s = (if ws_len_rev s = 0 then s else trim_rev (drop (ws_len_rev s) s))"
  by pat_completeness auto
termination
proof (relation "measure length", goal_cases)
  case (2 s)
  then show ?case using ws_len_rev_le [of s] by simp
qed simp

declare trim_start.simps [simp del] trim_rev.simps [simp del]

definition trim_end :: "string \<Rightarrow> string" where
  "trim_end s = rev (trim_rev (rev s))"

definition trim :: "string \<Rightarrow> string" where
  "trim s = trim_end (trim_start s)"

text \<open>\<^verbatim>\<open>split_whitespace\<close>: the maximal runs of other characters.\<close>

function split_whitespace_from :: "string \<Rightarrow> string \<Rightarrow> string list" where
  "split_whitespace_from word s =
     (if s = [] then (if word = [] then [] else [word])
      else if ws_len s > 0 then (if word = [] then [] else [word]) @ split_whitespace_from [] (drop (ws_len s) s)
      else split_whitespace_from (word @ [hd s]) (List.tl s))"
  by pat_completeness auto
termination
  by (relation "measure (\<lambda>(_, s). length s)") auto

declare split_whitespace_from.simps [simp del]

definition split_whitespace :: "string \<Rightarrow> string list" where
  "split_whitespace s = split_whitespace_from [] s"

definition lower :: "char \<Rightarrow> char" where
  "lower c = (if 65 \<le> byte c \<and> byte c \<le> 90 then char_of (byte c + 32) else c)"

definition to_ascii_lowercase :: "string \<Rightarrow> string" where
  "to_ascii_lowercase s = map lower s"

definition eq_ignore_ascii_case :: "string \<Rightarrow> string \<Rightarrow> bool" where
  "eq_ignore_ascii_case a b \<longleftrightarrow> to_ascii_lowercase a = to_ascii_lowercase b"

section \<open>Splitting and joining\<close>

fun split_char :: "char \<Rightarrow> string \<Rightarrow> string list" where
  "split_char d [] = [[]]"
| "split_char d (c # s) =
     (if c = d then [] # split_char d s
      else (case split_char d s of [] \<Rightarrow> [[c]] | w # ws \<Rightarrow> (c # w) # ws))"

fun split_once :: "char \<Rightarrow> string \<Rightarrow> (string \<times> string) option" where
  "split_once d [] = None"
| "split_once d (c # s) =
     (if c = d then Some ([], s)
      else map_option (\<lambda>(a, b). (c # a, b)) (split_once d s))"

fun join :: "string \<Rightarrow> string list \<Rightarrow> string" where
  "join sep [] = []"
| "join sep [w] = w"
| "join sep (w # ws) = w @ sep @ join sep ws"

fun starts_with :: "string \<Rightarrow> string \<Rightarrow> bool" where
  "starts_with s [] = True"
| "starts_with [] (p # ps) = False"
| "starts_with (c # s) (p # ps) = (c = p \<and> starts_with s ps)"

definition strip_prefix :: "string \<Rightarrow> string \<Rightarrow> string option" where
  "strip_prefix s p = (if starts_with s p then Some (drop (length p) s) else None)"

definition ends_with :: "string \<Rightarrow> string \<Rightarrow> bool" where
  "ends_with s p \<longleftrightarrow> starts_with (rev s) (rev p)"

fun contains_str :: "string \<Rightarrow> string \<Rightarrow> bool" where
  "contains_str [] p = (p = [])"
| "contains_str (c # s) p = (starts_with (c # s) p \<or> contains_str s p)"

definition strip_cr :: "string \<Rightarrow> string" where
  "strip_cr s = (if s \<noteq> [] \<and> last s = CHR 0x0D then butlast s else s)"

text \<open>
  \<^verbatim>\<open>str::lines\<close>: the text between line feeds, one carriage return before a line
  feed dropped, and nothing for an empty rest after the last line feed.
\<close>

definition lines :: "string \<Rightarrow> string list" where
  "lines s = (let ps = split_char (CHR 0x0A) s in
     map strip_cr (butlast ps) @ (if last ps = [] then [] else [last ps]))"

section \<open>Numbers as text\<close>

definition digit_char :: "nat \<Rightarrow> char" where
  "digit_char d = char_of (48 + d)"

definition digit_val :: "char \<Rightarrow> nat" where
  "digit_val c = byte c - 48"

fun nat_str :: "nat \<Rightarrow> string" where
  "nat_str n = (if n < 10 then [digit_char n] else nat_str (n div 10) @ [digit_char (n mod 10)])"

declare nat_str.simps [simp del]

definition digits_val :: "string \<Rightarrow> nat" where
  "digits_val s = foldl (\<lambda>acc c. acc * 10 + digit_val c) 0 s"

text \<open>\<^verbatim>\<open>str::parse::<u64>\<close>: an optional plus sign, at least one digit, no overflow.\<close>

definition parse_u64 :: "string \<Rightarrow> nat option" where
  "parse_u64 s =
     (let t = (case s of [] \<Rightarrow> [] | c # r \<Rightarrow> if c = CHR ''+'' then r else s) in
      if t = [] \<or> \<not> list_all is_ascii_digit t then None
      else if digits_val t \<le> u64_max then Some (digits_val t) else None)"

definition parse_uint :: "nat \<Rightarrow> string \<Rightarrow> nat option" where
  "parse_uint bits s =
     (case parse_u64 s of None \<Rightarrow> None
      | Some n \<Rightarrow> if n < 2 ^ bits then Some n else None)"

text \<open>
  \<^verbatim>\<open>str::chars().count()\<close>: UTF-8 continuation bytes (\<open>10xxxxxx\<close>) do not start a
  character.
\<close>

definition is_continuation :: "char \<Rightarrow> bool" where
  "is_continuation c \<longleftrightarrow> 128 \<le> byte c \<and> byte c < 192"

definition chars_count :: "string \<Rightarrow> nat" where
  "chars_count s = length (filter (\<lambda>c. \<not> is_continuation c) s)"

text \<open>\<^verbatim>\<open>s.chars().take(n).collect()\<close>.\<close>

fun take_chars :: "nat \<Rightarrow> string \<Rightarrow> string" where
  "take_chars n [] = []"
| "take_chars n (c # cs) =
     (if is_continuation c then c # take_chars n cs
      else case n of 0 \<Rightarrow> [] | Suc k \<Rightarrow> c # take_chars k cs)"

section \<open>Lemmas\<close>

subsection \<open>Trimming\<close>

definition trimmed :: "string \<Rightarrow> bool" where
  "trimmed s \<longleftrightarrow> ws_len s = 0 \<and> ws_len_rev (rev s) = 0"

lemma trim_start_fix: "ws_len s = 0 \<Longrightarrow> trim_start s = s"
  by (subst trim_start.simps) simp

lemma trim_rev_fix: "ws_len_rev s = 0 \<Longrightarrow> trim_rev s = s"
  by (subst trim_rev.simps) simp

lemma ws_len_trim_start [simp]: "ws_len (trim_start s) = 0"
proof (induction s rule: trim_start.induct)
  case (1 s)
  then show ?case by (cases "ws_len s = 0") (simp_all add: trim_start.simps [of s])
qed

lemma ws_len_rev_trim_rev [simp]: "ws_len_rev (trim_rev s) = 0"
proof (induction s rule: trim_rev.induct)
  case (1 s)
  then show ?case by (cases "ws_len_rev s = 0") (simp_all add: trim_rev.simps [of s])
qed

lemma trim_start_suffix: "\<exists>n. trim_start s = drop n s"
proof (induction s rule: trim_start.induct)
  case (1 s)
  show ?case
  proof (cases "ws_len s = 0")
    case True
    then have "trim_start s = drop 0 s" by (simp add: trim_start_fix)
    then show ?thesis by blast
  next
    case False
    with 1 obtain n where "trim_start (drop (ws_len s) s) = drop n (drop (ws_len s) s)" by blast
    with False have "trim_start s = drop (n + ws_len s) s" by (simp add: trim_start.simps [of s])
    then show ?thesis by blast
  qed
qed

lemma trim_rev_suffix: "\<exists>n. trim_rev s = drop n s"
proof (induction s rule: trim_rev.induct)
  case (1 s)
  show ?case
  proof (cases "ws_len_rev s = 0")
    case True
    then have "trim_rev s = drop 0 s" by (simp add: trim_rev_fix)
    then show ?thesis by blast
  next
    case False
    with 1 obtain n where "trim_rev (drop (ws_len_rev s) s) = drop n (drop (ws_len_rev s) s)" by blast
    with False have "trim_rev s = drop (n + ws_len_rev s) s" by (simp add: trim_rev.simps [of s])
    then show ?thesis by blast
  qed
qed

lemma trim_end_prefix: "\<exists>n. trim_end s = take n s"
proof -
  obtain n where "trim_rev (rev s) = drop n (rev s)" using trim_rev_suffix by blast
  then have "trim_end s = take (length s - n) s" by (simp add: trim_end_def rev_drop)
  then show ?thesis by blast
qed

lemma ws_len_take: "ws_len s = 0 \<Longrightarrow> ws_len (take n s) = 0"
  by (auto simp: ws_len_def take_Cons split: list.splits if_splits nat.splits)

lemma trimmed_trim [simp]: "trimmed (trim s)"
proof -
  obtain n where n: "trim_end (trim_start s) = take n (trim_start s)" using trim_end_prefix by blast
  have "ws_len (trim s) = 0" by (simp add: trim_def n ws_len_take)
  moreover have "ws_len_rev (rev (trim s)) = 0" by (simp add: trim_def trim_end_def)
  ultimately show ?thesis by (simp add: trimmed_def)
qed

lemma trim_trimmed: "trimmed s \<Longrightarrow> trim s = s"
  by (simp add: trimmed_def trim_def trim_end_def trim_start_fix trim_rev_fix)

lemma trim_idem [simp]: "trim (trim s) = trim s"
  by (simp add: trim_trimmed)

lemma trim_eq_iff: "trim s = s \<longleftrightarrow> trimmed s"
  by (metis trim_trimmed trimmed_trim)

lemma set_trim_subset: "set (trim s) \<subseteq> set s"
proof -
  obtain n m where "trim s = take n (drop m s)"
    using trim_end_prefix trim_start_suffix unfolding trim_def by metis
  then show ?thesis by (metis set_drop_subset set_take_subset subset_trans)
qed

lemma trim_Nil [simp]: "trim [] = []"
  by (simp add: trim_eq_iff trimmed_def ws_len_def ws_len_rev_def)

lemma trimmed_Nil [simp]: "trimmed []"
  by (simp add: trimmed_def ws_len_def ws_len_rev_def)

text \<open>A text whose first and last bytes are printable ASCII needs no trimming.\<close>

definition visible :: "char \<Rightarrow> bool" where
  "visible c \<longleftrightarrow> 33 \<le> byte c \<and> byte c < 128"

lemma trimmed_visible: "s \<noteq> [] \<Longrightarrow> visible (hd s) \<Longrightarrow> visible (last s) \<Longrightarrow> trimmed s"
proof -
  assume ne: "s \<noteq> []" and h: "visible (hd s)" and l: "visible (last s)"
  have "ws_len s = 0" using ne h
    by (cases s) (auto simp: ws_len_def visible_def ascii_ws_def ws2_def ws3_def split: list.splits)
  moreover have "ws_len_rev (rev s) = 0" using ne l
    by (cases "rev s") (auto simp: ws_len_rev_def visible_def ascii_ws_def ws2_def ws3_def
        hd_rev [symmetric] split: list.splits)
  ultimately show ?thesis by (simp add: trimmed_def)
qed

lemma trim_visible: "s \<noteq> [] \<Longrightarrow> list_all visible s \<Longrightarrow> trim s = s"
  by (rule trim_trimmed, rule trimmed_visible) (auto simp: list_all_iff)

lemma last_visible_line_text: "CHR 0x0A \<notin> set s \<Longrightarrow> visible (last s) \<Longrightarrow> last s \<noteq> CHR 0x0D"
  by (auto simp: visible_def)

subsection \<open>Case folding\<close>

lemma byte_lower: "byte (lower c) = (if 65 \<le> byte c \<and> byte c \<le> 90 then byte c + 32 else byte c)"
  by (simp add: lower_def)

lemma lower_lower [simp]: "lower (lower c) = lower c"
  unfolding lower_def by auto

lemma lower_ascii_lowercase_idem [simp]:
  "to_ascii_lowercase (to_ascii_lowercase s) = to_ascii_lowercase s"
  by (simp add: to_ascii_lowercase_def)

lemma length_to_ascii_lowercase [simp]: "length (to_ascii_lowercase s) = length s"
  by (simp add: to_ascii_lowercase_def)

lemma to_ascii_lowercase_append [simp]:
  "to_ascii_lowercase (a @ b) = to_ascii_lowercase a @ to_ascii_lowercase b"
  by (simp add: to_ascii_lowercase_def)

lemma to_ascii_lowercase_eq_Nil [simp]: "to_ascii_lowercase s = [] \<longleftrightarrow> s = []"
  by (simp add: to_ascii_lowercase_def)

lemma ascii_ws_lower [simp]: "ascii_ws (lower c) = ascii_ws c"
  by (auto simp: ascii_ws_def byte_lower)

lemma ws2_lower [simp]: "ws2 (lower a) (lower b) = ws2 a b"
  by (auto simp: ws2_def byte_lower)

lemma ws3_lower [simp]: "ws3 (lower a) (lower b) (lower c) = ws3 a b c"
  by (auto simp: ws3_def byte_lower)

lemma ws_len_lower [simp]: "ws_len (map lower s) = ws_len s"
  by (auto simp: ws_len_def split: list.splits)

lemma ws_len_rev_lower [simp]: "ws_len_rev (map lower s) = ws_len_rev s"
  by (auto simp: ws_len_rev_def split: list.splits)

lemma trimmed_lower [simp]: "trimmed (to_ascii_lowercase s) = trimmed s"
  by (simp add: trimmed_def to_ascii_lowercase_def rev_map)

lemma lower_notin: "byte d \<notin> {65..90} \<Longrightarrow> byte d \<notin> {97..122} \<Longrightarrow>
    d \<in> set (to_ascii_lowercase s) \<longleftrightarrow> d \<in> set s"
proof -
  assume d: "byte d \<notin> {65..90}" "byte d \<notin> {97..122}"
  have "lower c = d \<longleftrightarrow> c = d" for c
  proof
    assume "lower c = d"
    then have "byte (lower c) = byte d" by simp
    with d have "\<not> (65 \<le> byte c \<and> byte c \<le> 90)" by (auto simp: byte_lower split: if_splits)
    with \<open>lower c = d\<close> show "c = d" by (simp add: lower_def split: if_splits)
  next
    assume "c = d"
    with d show "lower c = d" by (auto simp: lower_def)
  qed
  then show ?thesis unfolding to_ascii_lowercase_def by (metis image_iff set_map)
qed

subsection \<open>Splitting and joining\<close>

lemma split_char_ne [simp]: "split_char d s \<noteq> []"
  by (induction s) (auto split: list.splits)

lemma join_Cons: "ws \<noteq> [] \<Longrightarrow> join sep (w # ws) = w @ sep @ join sep ws"
  by (cases ws) auto

lemma join_split_char [simp]: "join [d] (split_char d s) = s"
proof (induction s)
  case Nil
  then show ?case by simp
next
  case (Cons c s)
  obtain w ws where sp: "split_char d s = w # ws" by (cases "split_char d s") auto
  with Cons show ?case by (cases ws) auto
qed

lemma split_char_notin: "d \<notin> set s \<Longrightarrow> split_char d s = [s]"
  by (induction s) auto

lemma split_char_append: "d \<notin> set w \<Longrightarrow> split_char d (w @ d # s) = w # split_char d s"
  by (induction w) auto

lemma split_char_join:
  "ws \<noteq> [] \<Longrightarrow> \<forall>w \<in> set ws. d \<notin> set w \<Longrightarrow> split_char d (join [d] ws) = ws"
proof (induction ws)
  case Nil
  then show ?case by simp
next
  case (Cons w ws)
  then show ?case
    by (cases ws) (auto simp: split_char_notin split_char_append)
qed

lemma set_split_char: "w \<in> set (split_char d s) \<Longrightarrow> d \<notin> set w"
proof (induction s arbitrary: w)
  case Nil
  then show ?case by simp
next
  case (Cons c s)
  then show ?case by (fastforce split: list.splits if_splits)
qed

lemma split_once_None: "split_once d s = None \<longleftrightarrow> d \<notin> set s"
  by (induction s) auto

lemma split_once_Some: "split_once d s = Some (a, b) \<longleftrightarrow> s = a @ d # b \<and> d \<notin> set a"
proof (induction s arbitrary: a)
  case Nil
  then show ?case by simp
next
  case (Cons c s)
  show ?case
  proof (cases "c = d")
    case True
    then show ?thesis by (cases a) auto
  next
    case False
    then show ?thesis using Cons by (cases a) (auto simp: map_option_eq_Some_iff)
  qed
qed

lemma starts_with_iff: "starts_with s p \<longleftrightarrow> (\<exists>t. s = p @ t)"
  by (induction s p rule: starts_with.induct) auto

lemma strip_prefix_Some [simp]: "strip_prefix s p = Some t \<longleftrightarrow> s = p @ t"
  by (auto simp: strip_prefix_def starts_with_iff)

subsection \<open>Lines\<close>

text \<open>A text that is one line: no line feed, and no carriage return at its end.\<close>

definition line_text :: "string \<Rightarrow> bool" where
  "line_text s \<longleftrightarrow> CHR 0x0A \<notin> set s \<and> (s = [] \<or> last s \<noteq> CHR 0x0D)"

lemma strip_cr_fix: "line_text s \<Longrightarrow> strip_cr s = s"
  by (auto simp: line_text_def strip_cr_def)

lemma lines_Nil [simp]: "lines [] = []"
  by (simp add: lines_def)

lemma lines_Cons: "line_text w \<Longrightarrow> lines (w @ CHR 0x0A # s) = w # lines s"
proof -
  assume w: "line_text w"
  have "split_char (CHR 0x0A) (w @ CHR 0x0A # s) = w # split_char (CHR 0x0A) s"
    using w by (simp add: split_char_append line_text_def)
  then show ?thesis using w
    by (simp add: lines_def Let_def strip_cr_fix)
qed

text \<open>A text of complete lines, each ended by a line feed.\<close>

definition unlines :: "string list \<Rightarrow> string" where
  "unlines ws = concat (map (\<lambda>w. w @ [CHR 0x0A]) ws)"

lemma unlines_simps [simp]: "unlines [] = []" "unlines (w # ws) = w @ CHR 0x0A # unlines ws"
  "unlines (xs @ ys) = unlines xs @ unlines ys"
  by (simp_all add: unlines_def)

lemma lines_unlines: "list_all line_text ws \<Longrightarrow> lines (unlines ws) = ws"
  by (induction ws) (auto simp: lines_Cons)

lemma lines_unlines_append: "list_all line_text ws \<Longrightarrow> lines (unlines ws @ s) = ws @ lines s"
  by (induction ws) (auto simp: lines_Cons)

lemma unlines_join: "ws \<noteq> [] \<Longrightarrow> unlines ws = join [CHR 0x0A] ws @ [CHR 0x0A]"
proof (induction ws)
  case Nil
  then show ?case by simp
next
  case (Cons w ws)
  then show ?case by (cases ws) auto
qed

subsection \<open>Decimal numbers\<close>

lemma byte_digit_char [simp]: "d < 10 \<Longrightarrow> byte (digit_char d) = 48 + d"
  by (simp add: digit_char_def)

lemma digit_val_digit_char [simp]: "d < 10 \<Longrightarrow> digit_val (digit_char d) = d"
  by (simp add: digit_val_def)

lemma is_ascii_digit_digit_char [simp]: "d < 10 \<Longrightarrow> is_ascii_digit (digit_char d)"
  by (simp add: is_ascii_digit_def)

lemma digits_val_snoc [simp]: "digits_val (s @ [c]) = digits_val s * 10 + digit_val c"
  by (simp add: digits_val_def)

lemma nat_str_ne [simp]: "nat_str n \<noteq> []"
  by (subst nat_str.simps) simp

lemma nat_str_digits: "list_all is_ascii_digit (nat_str n)"
proof (induction n rule: nat_str.induct)
  case (1 n)
  then show ?case by (subst nat_str.simps) simp
qed

lemma digits_val_nat_str [simp]: "digits_val (nat_str n) = n"
proof (induction n rule: nat_str.induct)
  case (1 n)
  show ?case
  proof (cases "n < 10")
    case True
    then show ?thesis by (subst nat_str.simps) (simp add: digits_val_def)
  next
    case False
    with 1 show ?thesis by (subst nat_str.simps) simp
  qed
qed

lemma nat_str_inj: "nat_str m = nat_str n \<Longrightarrow> m = n"
  by (metis digits_val_nat_str)

lemma is_ascii_digit_visible: "is_ascii_digit c \<Longrightarrow> visible c"
  by (simp add: is_ascii_digit_def visible_def)

lemma nat_str_visible: "list_all visible (nat_str n)"
  using nat_str_digits [of n] by (auto simp: list_all_iff is_ascii_digit_visible)

lemma trim_nat_str [simp]: "trim (nat_str n) = nat_str n"
  by (simp add: trim_visible nat_str_visible)

lemma nat_str_notin: "byte c < 48 \<or> 57 < byte c \<Longrightarrow> c \<notin> set (nat_str n)"
  using nat_str_digits [of n] by (auto simp: list_all_iff is_ascii_digit_def)

lemma line_text_nat_str [simp]: "line_text (nat_str n)"
proof -
  have "byte (last (nat_str n)) \<ge> 48"
    using nat_str_digits [of n] by (auto simp: list_all_iff is_ascii_digit_def)
  then have "last (nat_str n) \<noteq> CHR 0x0D" by auto
  then show ?thesis by (simp add: line_text_def nat_str_notin)
qed

lemma parse_u64_digits:
  "t \<noteq> [] \<Longrightarrow> list_all is_ascii_digit t \<Longrightarrow>
     parse_u64 t = (if digits_val t \<le> u64_max then Some (digits_val t) else None)"
proof -
  assume t: "t \<noteq> []" "list_all is_ascii_digit t"
  then have "hd t \<noteq> CHR ''+''" by (cases t) (auto simp: is_ascii_digit_def)
  with t show ?thesis by (cases t) (auto simp: parse_u64_def)
qed

lemma parse_u64_nat_str [simp]: "n \<le> u64_max \<Longrightarrow> parse_u64 (nat_str n) = Some n"
  by (simp add: parse_u64_digits nat_str_digits)

lemma parse_u64_le: "parse_u64 s = Some n \<Longrightarrow> n \<le> u64_max"
  by (auto simp: parse_u64_def Let_def split: if_splits)

lemma nat_str_ne_dash [simp]: "nat_str n \<noteq> ''-''"
  using nat_str_digits [of n] by (auto simp: list_all_iff is_ascii_digit_def)

section \<open>Lines of a text\<close>

lemma set_join: "w \<in> set ws \<Longrightarrow> set w \<subseteq> set (join sep ws)"
  by (induction sep ws rule: join.induct) auto

lemma piece_subset: "p \<in> set (split_char d s) \<Longrightarrow> set p \<subseteq> set s"
  using set_join [of p "split_char d s" "[d]"] by simp

lemma line_piece: "l \<in> set (lines s) \<Longrightarrow> \<exists>p \<in> set (split_char NL s). l = p \<or> p = l @ [CR]"
proof -
  have "strip_cr p = p \<or> p = strip_cr p @ [CR]" for p
    by (cases p rule: rev_cases) (auto simp: strip_cr_def)
  then show "l \<in> set (lines s) \<Longrightarrow> ?thesis"
    by (auto simp: lines_def Let_def dest: in_set_butlastD split: if_splits)
qed

lemma lines_no_NL: "l \<in> set (lines s) \<Longrightarrow> NL \<notin> set l"
  using line_piece [of l s] set_split_char [of _ NL s] by fastforce

lemma set_line_subset: "l \<in> set (lines s) \<Longrightarrow> set l \<subseteq> set s"
  using line_piece [of l s] piece_subset [of _ NL s] by fastforce

lemma lines_line_text: "CR \<notin> set s \<Longrightarrow> list_all line_text (lines s)"
proof -
  assume "CR \<notin> set s"
  then have "NL \<notin> set l \<and> CR \<notin> set l" if "l \<in> set (lines s)" for l
    using lines_no_NL [OF that] set_line_subset [OF that] by blast
  then show ?thesis unfolding list_all_iff line_text_def by (metis last_in_set)
qed

text \<open>White space only.\<close>

lemma ws_len_append: "0 < ws_len s \<Longrightarrow> ws_len (s @ t) = ws_len s"
  by (auto simp: ws_len_def split: list.splits if_splits)

lemma ws_len_one: "0 < ws_len_rev t \<Longrightarrow> ws_len (rev (take (ws_len_rev t) t)) = ws_len_rev t"
  by (auto simp: ws_len_rev_def ws_len_def ascii_ws_def ws2_def ws3_def split: list.splits if_splits)

lemma trim_rev_all: "trim_rev t = [] \<Longrightarrow> t \<noteq> [] \<Longrightarrow> 0 < ws_len (rev t)"
proof (induction t rule: trim_rev.induct)
  case (1 t)
  then have n: "0 < ws_len_rev t" by (metis gr0I trim_rev.simps)
  with 1(2) have d: "trim_rev (drop (ws_len_rev t) t) = []" by (simp add: trim_rev.simps [of t])
  have split: "rev t = rev (drop (ws_len_rev t) t) @ rev (take (ws_len_rev t) t)"
    by (metis append_take_drop_id rev_append)
  show ?case
  proof (cases "drop (ws_len_rev t) t = []")
    case True
    then have "rev t = rev (take (ws_len_rev t) t)" using split by simp
    then show ?thesis using ws_len_one [OF n] n by simp
  next
    case False
    then have "0 < ws_len (rev (drop (ws_len_rev t) t))" using 1(1) n d by simp
    then show ?thesis unfolding split by (simp add: ws_len_append)
  qed
qed

lemma trim_eq_Nil: "trim s = [] \<longleftrightarrow> trim_start s = []"
proof
  assume "trim s = []"
  then have "trim_rev (rev (trim_start s)) = []" by (simp add: trim_def trim_end_def)
  then show "trim_start s = []" using trim_rev_all [of "rev (trim_start s)"] by fastforce
qed (simp add: trim_def trim_end_def trim_rev.simps [of "[]"] ws_len_rev_def)

lemma ws_len_before_ascii:
  "w \<noteq> [] \<Longrightarrow> byte c < 128 \<Longrightarrow> ws_len (w @ c # r) = ws_len w"
  by (cases w; cases "List.tl w") (auto simp: ws_len_def ws2_def ws3_def split: list.splits)

lemma trim_start_around:
  assumes "ascii_ws c"
  shows "trim_start (w @ c # r) = [] \<longleftrightarrow> trim_start w = [] \<and> trim_start r = []"
proof (induction w rule: trim_start.induct)
  case (1 w)
  have c: "byte c < 128" using assms by (auto simp: ascii_ws_def)
  show ?case
  proof (cases "w = []")
    case True
    with assms show ?thesis
      by (simp add: trim_start.simps [of "c # r"] trim_start.simps [of "[]"] ws_len_def)
  next
    case False
    note l = ws_len_before_ascii [OF False c, of r]
    show ?thesis
    proof (cases "ws_len w = 0")
      case True
      with False l show ?thesis by (simp add: trim_start_fix)
    next
      case pos: False
      with 1 [OF pos] l ws_len_le [of w] show ?thesis
        by (simp add: trim_start.simps [of w] trim_start.simps [of "w @ c # r"])
    qed
  qed
qed

lemma trim_start_snoc: "ascii_ws c \<Longrightarrow> trim_start l \<noteq> [] \<Longrightarrow> trim_start (l @ [c]) = trim_start l @ [c]"
proof (induction l rule: trim_start.induct)
  case (1 l)
  have c: "byte c < 128" using 1(2) by (auto simp: ascii_ws_def)
  have ne: "l \<noteq> []" using 1(3) by (auto simp: trim_start_fix ws_len_def)
  note n = ws_len_before_ascii [OF ne c, of "[]"]
  show ?case
  proof (cases "ws_len l = 0")
    case True
    with n show ?thesis by (simp add: trim_start_fix)
  next
    case pos: False
    then have "trim_start l = trim_start (drop (ws_len l) l)" "trim_start (l @ [c]) = trim_start (drop (ws_len l) l @ [c])"
      using n ws_len_le [of l] by (simp_all add: trim_start.simps [of l] trim_start.simps [of "l @ [c]"])
    with 1(1) [OF pos 1(2)] 1(3) show ?thesis by simp
  qed
qed

lemma trim_end_snoc: "ascii_ws c \<Longrightarrow> trim_end (l @ [c]) = trim_end l"
  by (simp add: trim_end_def trim_rev.simps [of "c # rev l"] ws_len_rev_def)

text \<open>White space at the end does not matter to \<open>trim\<close>.\<close>

lemma trim_snoc: "ascii_ws c \<Longrightarrow> trim (l @ [c]) = trim l"
proof (cases "trim_start l = []")
  case True
  assume "ascii_ws c"
  with True have "trim_start (l @ [c]) = []" using trim_start_around [of c l "[]"] by (simp add: trim_start_fix ws_len_def)
  with True show ?thesis by (metis trim_eq_Nil)
qed (simp add: trim_def trim_start_snoc trim_end_snoc)

lemma blank_pieces: "trim_start s = [] \<Longrightarrow> p \<in> set (split_char NL s) \<Longrightarrow> trim_start p = []"
proof (induction s arbitrary: p rule: length_induct)
  case (1 s)
  show ?case
  proof (cases "NL \<in> set s")
    case False
    with 1(2,3) show ?thesis by (simp add: split_char_notin)
  next
    case True
    then obtain w r where s: "s = w @ NL # r" and w: "NL \<notin> set w" by (meson split_list_first)
    have "trim_start w = []" "trim_start r = []"
      using 1(2) trim_start_around [of NL w r] by (simp_all add: s ascii_ws_def)
    moreover have "length r < length s" by (simp add: s)
    ultimately show ?thesis using 1(1,3) w by (auto simp: s split_char_append simp del: length_append)
  qed
qed

lemma blank_lines: "trim s = [] \<Longrightarrow> l \<in> set (lines s) \<Longrightarrow> trim l = []"
proof -
  assume "trim s = []" and l: "l \<in> set (lines s)"
  then have "trim_start p = []" if "p \<in> set (split_char NL s)" for p
    using blank_pieces that by (simp add: trim_eq_Nil)
  with line_piece [OF l] trim_start_around [of CR l "[]"] show ?thesis
    by (auto simp: trim_eq_Nil ascii_ws_def)
qed


section \<open>Replacing\<close>

text \<open>Pattern texts are written with a backtick for every backslash.\<close>

definition pat :: "string \<Rightarrow> string" where
  "pat s = map (\<lambda>c. if c = CHR ''`'' then CHR 0x5C else c) s"

text \<open>\<^verbatim>\<open>str::replace\<close> of a text that is not empty: its occurrences from left to right.\<close>

function replace_str :: "string \<Rightarrow> string \<Rightarrow> string \<Rightarrow> string" where
  "replace_str p r s = (case s of
     [] \<Rightarrow> []
   | c # t \<Rightarrow> if p \<noteq> [] \<and> starts_with s p then r @ replace_str p r (drop (length p) s) else c # replace_str p r t)"
  by pat_completeness auto
termination
  by (relation "measure (\<lambda>(p, r, s). length s)") auto

declare replace_str.simps [simp del]

lemma replace_str_Nil [simp]: "replace_str p r [] = []"
  by (simp add: replace_str.simps)

lemma replace_str_hit: "p \<noteq> [] \<Longrightarrow> replace_str p r (p @ s) = r @ replace_str p r s"
  using starts_with_iff [of "p @ s" p] by (cases p) (simp_all add: replace_str.simps [of _ _ "_ # _"])

lemma replace_str_miss: "\<not> starts_with (c # s) p \<Longrightarrow> replace_str p r (c # s) = c # replace_str p r s"
  by (simp add: replace_str.simps [of _ _ "_ # _"])

text \<open>Text without the first byte of the needle is copied.\<close>

lemma replace_str_copy: "p \<noteq> [] \<Longrightarrow> hd p \<notin> set s \<Longrightarrow> replace_str p r (s @ t) = s @ replace_str p r t"
proof (induction s)
  case (Cons c s)
  then have "\<not> starts_with (c # s @ t) p" by (cases p) auto
  with Cons show ?case by (simp add: replace_str_miss)
qed simp

end
