(* ===== verification/Btree.thy ===== *)
theory Btree
  imports Rust_Str
begin

text \<open>
  \<^verbatim>\<open>BTreeMap\<close> as an association list with strictly increasing keys: iteration order
  is the list order, lookup is \<^const>\<open>map_of\<close>, insertion keeps the order and replaces an
  existing binding. The locale \<open>keyed_store\<close> states what a client of a map may rely on
  and proves once what folding an \<^verbatim>\<open>entry(k)\<close> update over a list of rows leaves
  under each key; it is interpreted on the ordered map here and on \<^verbatim>\<open>HashMap\<close>.
\<close>

type_synonym ('k, 'v) btree = "('k \<times> 'v) list"

abbreviation bt_get :: "('k, 'v) btree \<Rightarrow> 'k \<Rightarrow> 'v option" where
  "bt_get m k \<equiv> map_of m k"

abbreviation bt_keys :: "('k, 'v) btree \<Rightarrow> 'k list" where
  "bt_keys m \<equiv> map fst m"

definition bt_wf :: "('k::linorder, 'v) btree \<Rightarrow> bool" where
  "bt_wf m \<longleftrightarrow> sorted_wrt (<) (bt_keys m)"

fun bt_insert :: "'k::linorder \<Rightarrow> 'v \<Rightarrow> ('k, 'v) btree \<Rightarrow> ('k, 'v) btree" where
  "bt_insert k v [] = [(k, v)]"
| "bt_insert k v ((k', v') # m) =
     (if k < k' then (k, v) # (k', v') # m
      else if k = k' then (k, v) # m
      else (k', v') # bt_insert k v m)"

definition bt_get_or :: "'v \<Rightarrow> ('k, 'v) btree \<Rightarrow> 'k \<Rightarrow> 'v" where
  "bt_get_or d m k = (case bt_get m k of None \<Rightarrow> d | Some v \<Rightarrow> v)"

text \<open>\<^verbatim>\<open>map.entry(k).or_default()\<close> followed by an in-place update of the value.\<close>

definition bt_entry :: "'v \<Rightarrow> 'k::linorder \<Rightarrow> ('v \<Rightarrow> 'v) \<Rightarrow> ('k, 'v) btree \<Rightarrow> ('k, 'v) btree" where
  "bt_entry d k f m = bt_insert k (f (bt_get_or d m k)) m"

definition bt_of_list :: "('k::linorder \<times> 'v) list \<Rightarrow> ('k, 'v) btree" where
  "bt_of_list xs = foldl (\<lambda>m (k, v). bt_insert k v m) [] xs"

section \<open>Lemmas\<close>

lemma bt_wf_Nil [simp]: "bt_wf []"
  by (simp add: bt_wf_def)

lemma bt_wf_Cons: "bt_wf ((k, v) # m) \<longleftrightarrow> bt_wf m \<and> (\<forall>k' \<in> set (bt_keys m). k < k')"
  by (auto simp: bt_wf_def)

lemma set_bt_insert: "set (bt_keys (bt_insert k v m)) = insert k (set (bt_keys m))"
proof (induction m)
  case Nil
  then show ?case by simp
next
  case (Cons p m)
  then show ?case by (cases p) (simp add: insert_commute)
qed

lemma bt_wf_insert [simp]: "bt_wf m \<Longrightarrow> bt_wf (bt_insert k v m)"
proof (induction m)
  case Nil
  then show ?case by (simp add: bt_wf_Cons)
next
  case (Cons p m)
  obtain k' v' where p: "p = (k', v')" by (cases p)
  have "\<forall>j \<in> set (bt_keys (bt_insert k v m)). k' < j" if "k' < k"
    using Cons.prems that p unfolding set_bt_insert by (simp add: bt_wf_Cons)
  then show ?case using Cons p by (force simp: bt_wf_Cons)
qed

lemma bt_get_None: "k \<notin> set (bt_keys m) \<Longrightarrow> bt_get m k = None"
  by (simp add: map_of_eq_None_iff)

lemma bt_get_insert: "bt_wf m \<Longrightarrow> bt_get (bt_insert k v m) j = (if j = k then Some v else bt_get m j)"
proof (induction m)
  case Nil
  then show ?case by simp
next
  case (Cons p m)
  then show ?case by (cases p) (auto simp: bt_wf_Cons)
qed

lemma bt_wf_distinct: "bt_wf m \<Longrightarrow> distinct (bt_keys m)"
  by (simp add: bt_wf_def strict_sorted_iff)

lemma bt_get_in: "bt_wf m \<Longrightarrow> bt_get m k = Some v \<longleftrightarrow> (k, v) \<in> set m"
  by (simp add: map_of_eq_Some_iff bt_wf_distinct)

lemma bt_keys_get: "k \<in> set (bt_keys m) \<longleftrightarrow> bt_get m k \<noteq> None"
  by (simp add: map_of_eq_None_iff)

lemma bt_wf_eqI:
  assumes "bt_wf m" "bt_wf n" "\<And>k. bt_get m k = bt_get n k"
  shows "m = n"
proof -
  have "set (bt_keys m) = set (bt_keys n)" using assms(3) by (auto simp: bt_keys_get simp del: set_map)
  then have keys: "bt_keys m = bt_keys n"
    using assms(1,2) strict_sorted_equal unfolding bt_wf_def by blast
  have "m = map (\<lambda>k. (k, the (bt_get m k))) (bt_keys m)" if "bt_wf m" for m :: "('a, 'b) btree"
  proof -
    have "map (\<lambda>k. (k, the (bt_get m k))) (bt_keys m) = map id m" unfolding map_map
    proof (rule map_cong [OF refl])
      fix p assume "p \<in> set m"
      then show "((\<lambda>k. (k, the (bt_get m k))) \<circ> fst) p = id p"
        using that bt_get_in [OF that, of "fst p" "snd p"] by simp
    qed
    then show ?thesis by simp
  qed
  from this [OF assms(1)] this [OF assms(2)] show ?thesis
    using keys assms(3) by simp
qed

section \<open>The contract of a map\<close>

locale keyed_store =
  fixes get :: "'m \<Rightarrow> 'k \<Rightarrow> 'v option"
    and put :: "'k \<Rightarrow> 'v \<Rightarrow> 'm \<Rightarrow> 'm"
    and wf :: "'m \<Rightarrow> bool"
  assumes wf_put: "wf m \<Longrightarrow> wf (put k v m)"
    and get_put: "wf m \<Longrightarrow> get (put k v m) j = (if j = k then Some v else get m j)"
begin

lemma wf_accumulate:
  "wf m \<Longrightarrow> wf (foldl (\<lambda>m x. put (kf x) (upd (get m (kf x)) x) m) m xs)"
  by (induction xs arbitrary: m) (auto simp: wf_put)

lemma get_accumulate:
  "wf m \<Longrightarrow> get (foldl (\<lambda>m x. put (kf x) (upd (get m (kf x)) x) m) m xs) j =
     foldl (\<lambda>o' x. Some (upd o' x)) (get m j) (filter (\<lambda>x. kf x = j) xs)"
  by (induction xs arbitrary: m) (auto simp: wf_put get_put)

text \<open>An update that may also leave the map as it is (the binding found wins).\<close>

lemma wf_select:
  "wf m \<Longrightarrow> wf (foldl (\<lambda>m x. case sel (get m (kf x)) x of None \<Rightarrow> m | Some v \<Rightarrow> put (kf x) v m) m xs)"
  by (induction xs arbitrary: m) (auto simp: wf_put split: option.splits)

lemma get_select:
  "wf m \<Longrightarrow>
   get (foldl (\<lambda>m x. case sel (get m (kf x)) x of None \<Rightarrow> m | Some v \<Rightarrow> put (kf x) v m) m xs) j =
     foldl (\<lambda>o' x. case sel o' x of None \<Rightarrow> o' | Some v \<Rightarrow> Some v) (get m j) (filter (\<lambda>x. kf x = j) xs)"
  by (induction xs arbitrary: m) (auto simp: wf_put get_put split: option.splits)

end

interpretation bt: keyed_store map_of bt_insert bt_wf
  by unfold_locales (simp_all add: bt_get_insert)

interpretation hm: keyed_store "\<lambda>m :: 'k \<rightharpoonup> 'v. m" "\<lambda>k v m. m(k \<mapsto> v)" "\<lambda>_. True"
  by unfold_locales simp_all

end
