(* ===== verification/Pool_Key.thy ===== *)
theory Pool_Key
  imports Btree
begin

text \<open>
  \<^verbatim>\<open>crates/rtrt-core/src/pool.rs\<close>: the identity of a quota bucket, a target plus the
  upstream pool named by the prefix of a model string, with its canonical text form. Also
  the \<^verbatim>\<open>[limits]\<close> tables of \<^verbatim>\<open>crates/rtrt-core/src/config.rs\<close> that are
  looked up by these identities.
\<close>

section \<open>Pool keys\<close>

definition POOL_SEPARATOR :: char where
  "POOL_SEPARATOR = CHR ''#''"

definition MODEL_POOL_SEPARATOR :: char where
  "MODEL_POOL_SEPARATOR = CHR ''/''"

datatype pool_key = PoolKey (pk_target: string) (pk_pool: "string option")

definition normalize_target :: "string \<Rightarrow> string" where
  "normalize_target target = to_ascii_lowercase (trim target)"

definition normalize_pool :: "string \<Rightarrow> string option" where
  "normalize_pool pool =
     (let p = trim pool in if p = [] then None else Some (to_ascii_lowercase p))"

definition pool_key_new :: "string \<Rightarrow> string option \<Rightarrow> pool_key" where
  "pool_key_new target pool = PoolKey (normalize_target target) (Option.bind pool normalize_pool)"

definition unpooled :: "string \<Rightarrow> pool_key" where
  "unpooled target = PoolKey (normalize_target target) None"

definition pool_from_model :: "string \<Rightarrow> string option" where
  "pool_from_model model =
     (case split_once MODEL_POOL_SEPARATOR (trim model) of
        None \<Rightarrow> None
      | Some (prefix, rest) \<Rightarrow> normalize_pool prefix)"

definition from_target_model :: "string \<Rightarrow> string option \<Rightarrow> pool_key" where
  "from_target_model target model =
     PoolKey (normalize_target target) (Option.bind model pool_from_model)"

fun canonical :: "pool_key \<Rightarrow> string" where
  "canonical (PoolKey t (Some p)) = t @ POOL_SEPARATOR # p"
| "canonical (PoolKey t None) = t"

abbreviation target_key :: "pool_key \<Rightarrow> string" where
  "target_key \<equiv> pk_target"

definition pool_key_parse :: "string \<Rightarrow> pool_key" where
  "pool_key_parse key =
     (case split_once POOL_SEPARATOR key of
        Some (target, pool) \<Rightarrow> pool_key_new target (Some pool)
      | None \<Rightarrow> unpooled key)"

definition is_pooled :: "pool_key \<Rightarrow> bool" where
  "is_pooled k \<longleftrightarrow> pk_pool k \<noteq> None"

fun pool_key_display :: "pool_key \<Rightarrow> string" where
  "pool_key_display (PoolKey t (Some p)) = t @ [POOL_SEPARATOR] @ p"
| "pool_key_display (PoolKey t None) = t"

text \<open>The derived order: target first, then the pool with \<^verbatim>\<open>None\<close> lowest.\<close>

definition pool_key_cmp :: "pool_key \<Rightarrow> pool_key \<Rightarrow> ordering" where
  "pool_key_cmp a b =
     then_with (cmp (pk_target a) (pk_target b)) (cmp_option (pk_pool a) (pk_pool b))"

section \<open>Limits\<close>

record pool_limit =
  pl_daily_tokens :: "nat option"
  pl_daily_requests :: "nat option"

record target_limit =
  tl_daily_tokens :: "nat option"
  tl_daily_requests :: "nat option"
  tl_pools :: "(string, pool_limit) btree"

type_synonym limits_config = "(string, target_limit) btree"

definition pool_limit_is_set :: "pool_limit \<Rightarrow> bool" where
  "pool_limit_is_set l \<longleftrightarrow> pl_daily_tokens l \<noteq> None \<or> pl_daily_requests l \<noteq> None"

text \<open>Exact match first, then the first key that matches up to ASCII case.\<close>

definition lookup_ignore_case :: "(string, 'v) btree \<Rightarrow> string \<Rightarrow> 'v option" where
  "lookup_ignore_case m name =
     (case bt_get m name of
        Some v \<Rightarrow> Some v
      | None \<Rightarrow> map_option snd (List.find (\<lambda>(k, _). eq_ignore_ascii_case k name) m))"

definition target_limit_pool :: "target_limit \<Rightarrow> string \<Rightarrow> pool_limit option" where
  "target_limit_pool lim name = lookup_ignore_case (tl_pools lim) name"

definition has_pool_limits :: "target_limit \<Rightarrow> bool" where
  "has_pool_limits lim \<longleftrightarrow> list_ex (\<lambda>(_, l). pool_limit_is_set l) (tl_pools lim)"

definition limits_target :: "limits_config \<Rightarrow> string \<Rightarrow> target_limit option" where
  "limits_target cfg name = lookup_ignore_case cfg name"

definition limits_pool :: "limits_config \<Rightarrow> string \<Rightarrow> string \<Rightarrow> pool_limit option" where
  "limits_pool cfg target pool =
     (case limits_target cfg target of None \<Rightarrow> None | Some lim \<Rightarrow> target_limit_pool lim pool)"

definition limits_is_empty :: "limits_config \<Rightarrow> bool" where
  "limits_is_empty cfg \<longleftrightarrow> cfg = []"

section \<open>Well-formed keys\<close>

text \<open>
  A key is well formed when both names are normalised, the pool is not blank and the
  target holds no separator (targets are names of binaries). Such keys are exactly those
  whose canonical text reads back.
\<close>

definition pool_key_wf :: "pool_key \<Rightarrow> bool" where
  "pool_key_wf k \<longleftrightarrow>
     normalize_target (pk_target k) = pk_target k \<and> POOL_SEPARATOR \<notin> set (pk_target k) \<and>
     (case pk_pool k of None \<Rightarrow> True | Some p \<Rightarrow> normalize_pool p = Some p)"

lemma normalize_target_idem [simp]: "normalize_target (normalize_target t) = normalize_target t"
  by (simp add: normalize_target_def trim_trimmed)

lemma normalize_pool_idem: "normalize_pool p = Some q \<Longrightarrow> normalize_pool q = Some q"
  by (auto simp: normalize_pool_def Let_def trim_trimmed split: if_splits)

lemma separator_notin_normalize:
  "POOL_SEPARATOR \<notin> set t \<Longrightarrow> POOL_SEPARATOR \<notin> set (normalize_target t)"
  using set_trim_subset [of t] unfolding normalize_target_def POOL_SEPARATOR_def
  by (subst lower_notin) auto

lemma pool_from_model_normal: "pool_from_model m = Some p \<Longrightarrow> normalize_pool p = Some p"
  by (auto simp: pool_from_model_def normalize_pool_idem split: option.splits)

lemma pool_key_wf_new: "POOL_SEPARATOR \<notin> set t \<Longrightarrow> pool_key_wf (pool_key_new t p)"
  by (auto simp: pool_key_wf_def pool_key_new_def separator_notin_normalize normalize_pool_idem
      bind_eq_Some_conv split: option.splits)

lemma pool_key_wf_from_target_model:
  "POOL_SEPARATOR \<notin> set t \<Longrightarrow> pool_key_wf (from_target_model t m)"
  by (auto simp: pool_key_wf_def from_target_model_def separator_notin_normalize
      bind_eq_Some_conv pool_from_model_normal split: option.splits)

lemma pool_key_wf_parse: "pool_key_wf (pool_key_parse s)"
proof (cases "split_once POOL_SEPARATOR s")
  case None
  then have "POOL_SEPARATOR \<notin> set s" by (simp add: split_once_None)
  with None show ?thesis
    by (simp add: pool_key_parse_def unpooled_def pool_key_wf_def separator_notin_normalize)
next
  case (Some p)
  obtain a b where p: "p = (a, b)" by (cases p)
  with Some have "POOL_SEPARATOR \<notin> set a" by (simp add: split_once_Some)
  with Some p show ?thesis by (simp add: pool_key_parse_def pool_key_wf_new)
qed

lemma parse_canonical:
  assumes "pool_key_wf k"
  shows "pool_key_parse (canonical k) = k"
proof (cases k)
  case (PoolKey t p)
  show ?thesis
  proof (cases p)
    case None
    with assms PoolKey have "split_once POOL_SEPARATOR t = None"
      by (simp add: pool_key_wf_def split_once_None)
    with assms PoolKey None show ?thesis
      by (simp add: pool_key_parse_def unpooled_def pool_key_wf_def)
  next
    case (Some q)
    with assms PoolKey have "split_once POOL_SEPARATOR (t @ POOL_SEPARATOR # q) = Some (t, q)"
      by (simp add: pool_key_wf_def split_once_Some)
    with assms PoolKey Some show ?thesis
      by (simp add: pool_key_parse_def pool_key_new_def pool_key_wf_def)
  qed
qed

lemma canonical_inj: "pool_key_wf a \<Longrightarrow> pool_key_wf b \<Longrightarrow> canonical a = canonical b \<Longrightarrow> a = b"
  by (metis parse_canonical)

lemma canonical_parse_canonical:
  "pool_key_parse (canonical (pool_key_parse s)) = pool_key_parse s"
  by (simp add: parse_canonical pool_key_wf_parse)

lemma display_canonical: "pool_key_display k = canonical k"
  by (cases k rule: canonical.cases) simp_all

interpretation pool_key_order: total_comparator pool_key_cmp
proof
  fix x y z :: pool_key
  show "pool_key_cmp y x = reverse_ord (pool_key_cmp x y)"
    unfolding pool_key_cmp_def
    by (simp add: cmp_swap [of "pk_target y"] cmp_option_swap [of "pk_pool y"])
  assume "pool_key_cmp x y \<noteq> Greater" "pool_key_cmp y z \<noteq> Greater"
  then show "pool_key_cmp x z \<noteq> Greater"
    unfolding pool_key_cmp_def then_with_iff
    using cmp_option_trans [of "pk_pool x" "pk_pool y" "pk_pool z"]
    by (auto simp: not_less)
qed

lemma pool_key_cmp_Equal: "pool_key_cmp a b = Equal \<longleftrightarrow> a = b"
  by (cases a; cases b) (simp add: pool_key_cmp_def then_with_iff)

section \<open>Properties\<close>

text \<open>
  C29 (pool_key_roundtrip): the key of an invocation, built from a target without the pool
  separator and any model string, prints to a text that parses back to the same key, is
  shown as that text, and two such keys with the same text are equal.
\<close>

theorem pool_key_roundtrip:
  assumes "POOL_SEPARATOR \<notin> set target" and "POOL_SEPARATOR \<notin> set target'"
  shows "pool_key_parse (canonical (from_target_model target model)) = from_target_model target model \<and>
    pool_key_display (from_target_model target model) = canonical (from_target_model target model) \<and>
    (canonical (from_target_model target model) = canonical (from_target_model target' model') \<longleftrightarrow>
     from_target_model target model = from_target_model target' model')"
proof -
  note wf = pool_key_wf_from_target_model [OF assms(1), of model]
    pool_key_wf_from_target_model [OF assms(2), of model']
  show ?thesis
    using parse_canonical [OF wf(1)] canonical_inj [OF wf] by (auto simp: display_canonical)
qed

theorem pool_key_roundtrip_witness:
  "pool_key_parse (canonical (from_target_model ''OpenCode'' (Some ''ollama/glm-5.2:cloud''))) =
     PoolKey ''opencode'' (Some ''ollama'')"
proof -
  have "POOL_SEPARATOR \<notin> set ''OpenCode''" by code_simp
  from pool_key_roundtrip [OF this this] have
    "pool_key_parse (canonical (from_target_model ''OpenCode'' (Some ''ollama/glm-5.2:cloud''))) =
       from_target_model ''OpenCode'' (Some ''ollama/glm-5.2:cloud'')" by blast
  also have "\<dots> = PoolKey ''opencode'' (Some ''ollama'')" by code_simp
  finally show ?thesis .
qed

end
