(* ===== verification/F64.thy ===== *)
theory F64
  imports Complex_Main Rust_Str
begin

text \<open>
  IEEE 754 binary64 arithmetic as the sources use it: conversion of a u64
  (\<^verbatim>\<open>n as f64\<close>), division, multiplication and addition of finite values. A finite
  double is the rational it denotes; every operation is the exact rational operation
  followed by \<open>fl\<close>, rounding to 53 significant bits with ties to even. The quantities
  modelled with it (ratios and percentages of u64 counts, prices) stay inside the
  normal range, where this is the IEEE result. \<open>f64_fixed k\<close> is the text of a value
  printed with \<open>k\<close> decimals, as by \<^verbatim>\<open>{:.1}\<close> and \<^verbatim>\<open>{:.4}\<close>.
\<close>

fun bit_length :: "nat \<Rightarrow> nat" where
  "bit_length n = (if n = 0 then 0 else Suc (bit_length (n div 2)))"

declare bit_length.simps [simp del]

definition flog2 :: "rat \<Rightarrow> int" where
  "flog2 x = (let (p, q) = quotient_of x;
                  e = int (bit_length (nat p)) - int (bit_length (nat q))
              in if 2 powi e \<le> x then e else e - 1)"

definition round_even :: "rat \<Rightarrow> int" where
  "round_even y = (let f = \<lfloor>y\<rfloor>; d = y - of_int f in
     if d < 1 / 2 then f else if 1 / 2 < d then f + 1 else if even f then f else f + 1)"

definition fl :: "rat \<Rightarrow> rat" where
  "fl x = (if x = 0 then 0
     else let u = 2 powi (flog2 \<bar>x\<bar> - 52) in sgn x * of_int (round_even (\<bar>x\<bar> / u)) * u)"

definition f64_of_u64 :: "nat \<Rightarrow> rat" where
  "f64_of_u64 n = fl (of_nat n)"

definition f64_div :: "rat \<Rightarrow> rat \<Rightarrow> rat" where
  "f64_div x y = fl (x / y)"

definition f64_mul :: "rat \<Rightarrow> rat \<Rightarrow> rat" where
  "f64_mul x y = fl (x * y)"

definition f64_add :: "rat \<Rightarrow> rat \<Rightarrow> rat" where
  "f64_add x y = fl (x + y)"

definition pad_left :: "nat \<Rightarrow> string \<Rightarrow> string" where
  "pad_left n s = replicate (n - length s) (CHR ''0'') @ s"

definition f64_fixed :: "nat \<Rightarrow> rat \<Rightarrow> string" where
  "f64_fixed k x = (let n = nat (round_even (\<bar>x\<bar> * 10 ^ k)) in
     (if x < 0 then ''-'' else []) @ nat_str (n div 10 ^ k) @ ''.'' @ pad_left k (nat_str (n mod 10 ^ k)))"

text \<open>
  \<^verbatim>\<open>str::parse::<f64>\<close>: an optional sign, then a decimal number with an optional
  exponent, or \<open>inf\<close>, \<open>infinity\<close>, \<open>nan\<close> in any case. The decimal value is rounded
  once.
\<close>

datatype f64_val = NaN | Infinite bool | Fin rat

definition parse_exponent :: "string \<Rightarrow> int option" where
  "parse_exponent s =
     (case s of [] \<Rightarrow> Some 0
      | c # r \<Rightarrow> if c \<noteq> CHR ''e'' \<and> c \<noteq> CHR ''E'' then None else
          (let neg = (r \<noteq> [] \<and> hd r = CHR ''-'');
               t = (if r \<noteq> [] \<and> (hd r = CHR ''-'' \<or> hd r = CHR ''+'') then drop 1 r else r)
           in if t = [] \<or> \<not> list_all is_ascii_digit t then None
              else Some (if neg then - int (digits_val t) else int (digits_val t))))"

definition parse_decimal :: "string \<Rightarrow> rat option" where
  "parse_decimal s =
     (let ip = takeWhile is_ascii_digit s;
          r1 = dropWhile is_ascii_digit s;
          fp = (if r1 \<noteq> [] \<and> hd r1 = CHR ''.'' then takeWhile is_ascii_digit (drop 1 r1) else []);
          r2 = (if r1 \<noteq> [] \<and> hd r1 = CHR ''.'' then dropWhile is_ascii_digit (drop 1 r1) else r1)
      in if ip = [] \<and> fp = [] then None
         else (case parse_exponent r2 of None \<Rightarrow> None
               | Some e \<Rightarrow> Some (of_nat (digits_val (ip @ fp)) * 10 powi (e - int (length fp)))))"

definition parse_f64 :: "string \<Rightarrow> f64_val option" where
  "parse_f64 s =
     (let neg = (s \<noteq> [] \<and> hd s = CHR ''-'');
          t = (if s \<noteq> [] \<and> (hd s = CHR ''-'' \<or> hd s = CHR ''+'') then drop 1 s else s);
          l = to_ascii_lowercase t
      in case parse_decimal t of
           Some v \<Rightarrow> Some (Fin (fl (if neg then - v else v)))
         | None \<Rightarrow> if l = ''nan'' then Some NaN
                   else if l = ''inf'' \<or> l = ''infinity'' then Some (Infinite neg)
                   else None)"

section \<open>Rounding to an integer\<close>

lemma round_even_of_int [simp]: "round_even (of_int n) = n"
  by (simp add: round_even_def)

lemma round_even_bounds: "\<lfloor>y\<rfloor> \<le> round_even y" "round_even y \<le> \<lfloor>y\<rfloor> + 1"
  by (auto simp: round_even_def Let_def)

lemma round_even_mono: "x \<le> y \<Longrightarrow> round_even x \<le> round_even y"
proof -
  assume xy: "x \<le> y"
  then have f: "\<lfloor>x\<rfloor> \<le> \<lfloor>y\<rfloor>" by (rule floor_mono)
  show ?thesis
  proof (cases "\<lfloor>x\<rfloor> = \<lfloor>y\<rfloor>")
    case True
    with xy show ?thesis by (auto simp: round_even_def Let_def)
  next
    case False
    with f show ?thesis using round_even_bounds(2) [of x] round_even_bounds(1) [of y] by linarith
  qed
qed

section \<open>The binary exponent\<close>

lemma bit_length_bounds: "0 < n \<Longrightarrow> 2 ^ (bit_length n - 1) \<le> n \<and> n < 2 ^ bit_length n"
proof (induction n rule: bit_length.induct)
  case (1 n)
  show ?case
  proof (cases "n = 1")
    case True
    then show ?thesis by (simp add: bit_length.simps)
  next
    case False
    with 1 have n: "0 < n div 2" by simp
    with 1 have ih: "2 ^ (bit_length (n div 2) - 1) \<le> n div 2" "n div 2 < 2 ^ bit_length (n div 2)"
      by auto
    have "bit_length (n div 2) \<noteq> 0" using n by (subst bit_length.simps) simp
    then obtain b where b: "bit_length (n div 2) = Suc b" by (cases "bit_length (n div 2)") auto
    have bl: "bit_length n = Suc (Suc b)" using 1(2) b by (subst bit_length.simps) simp
    have "2 ^ b \<le> n div 2" "n div 2 < 2 ^ Suc b" using ih b by auto
    then have "2 * 2 ^ b \<le> n" "n < 2 * 2 ^ Suc b" by linarith+
    with bl show ?thesis by simp
  qed
qed

lemma powi_add: "(2::rat) powi a * 2 powi b = 2 powi (a + b)"
  by (simp add: power_int_add)

lemma bit_length_rat:
  assumes "0 < n"
  shows "(2::rat) powi (int (bit_length n) - 1) \<le> of_nat n" "of_nat n < (2::rat) powi int (bit_length n)"
proof -
  have "bit_length n \<noteq> 0" using assms by (subst bit_length.simps) simp
  then obtain b where b: "bit_length n = Suc b" by (cases "bit_length n") auto
  from bit_length_bounds [OF assms] b have nb: "2 ^ b \<le> n" "n < 2 ^ Suc b" by auto
  from nb(1) have "of_nat (2 ^ b) \<le> (of_nat n :: rat)" by (simp only: of_nat_le_iff)
  then show "(2::rat) powi (int (bit_length n) - 1) \<le> of_nat n" by (simp add: b)
  from nb(2) have "(of_nat n :: rat) < of_nat (2 ^ Suc b)" by (simp only: of_nat_less_iff)
  then show "of_nat n < (2::rat) powi int (bit_length n)"
    unfolding b power_int_of_nat by simp
qed

lemma flog2_bounds:
  assumes "0 < x"
  shows "2 powi (flog2 x) \<le> x" "x < 2 powi (flog2 x + 1)"
proof -
  obtain p q where pq: "quotient_of x = (p, q)" by (cases "quotient_of x")
  have q: "0 < q" using quotient_of_denom_pos [OF pq] .
  have x: "x = of_int p / of_int q" using quotient_of_div [OF pq] .
  have p: "0 < p" using assms q unfolding x by (simp add: zero_less_divide_iff)
  let ?a = "int (bit_length (nat p))" and ?b = "int (bit_length (nat q))"
  have P: "2 powi (?a - 1) \<le> (of_int p :: rat)" "(of_int p :: rat) < 2 powi ?a"
    using bit_length_rat [of "nat p"] p by auto
  have Q: "2 powi (?b - 1) \<le> (of_int q :: rat)" "(of_int q :: rat) < 2 powi ?b"
    using bit_length_rat [of "nat q"] q by auto
  have two: "(2::rat) powi n > 0" for n by simp
  have lo: "2 powi (?a - ?b - 1) \<le> x"
  proof -
    have "2 powi (?a - ?b - 1) * of_int q \<le> 2 powi (?a - ?b - 1) * (2::rat) powi ?b"
      using Q(2) two by (intro mult_left_mono) auto
    also have "\<dots> = 2 powi (?a - 1)" unfolding powi_add by simp
    also have "\<dots> \<le> of_int p" by (rule P(1))
    finally show ?thesis using q by (simp add: x pos_le_divide_eq)
  qed
  have hi: "x < 2 powi (?a - ?b + 1)"
  proof -
    have "of_int p < (2::rat) powi ?a" by (rule P(2))
    also have "\<dots> = 2 powi (?a - ?b + 1) * 2 powi (?b - 1)" unfolding powi_add by simp
    also have "\<dots> \<le> 2 powi (?a - ?b + 1) * of_int q"
      using Q(1) two by (intro mult_left_mono) auto
    finally show ?thesis using q by (simp add: x pos_divide_less_eq)
  qed
  show "2 powi (flog2 x) \<le> x" "x < 2 powi (flog2 x + 1)"
    using lo hi by (auto simp: flog2_def pq Let_def)
qed

lemma flog2_unique:
  assumes "2 powi e \<le> x" "x < 2 powi (e + 1)"
  shows "flog2 x = e"
proof -
  have pos: "0 < x" using assms(1) by (rule less_le_trans [rotated]) simp
  note b = flog2_bounds [OF pos]
  have "\<not> flog2 x < e"
  proof
    assume "flog2 x < e"
    then have "(2::rat) powi (flog2 x + 1) \<le> 2 powi e" by (intro power_int_increasing) auto
    with b assms show False by linarith
  qed
  moreover have "\<not> e < flog2 x"
  proof
    assume "e < flog2 x"
    then have "(2::rat) powi (e + 1) \<le> 2 powi flog2 x" by (intro power_int_increasing) auto
    with b assms show False by linarith
  qed
  ultimately show ?thesis by linarith
qed

lemma flog2_mono: "0 < x \<Longrightarrow> x \<le> y \<Longrightarrow> flog2 x \<le> flog2 y"
proof (rule ccontr)
  assume "0 < x" "x \<le> y" "\<not> flog2 x \<le> flog2 y"
  then have "(2::rat) powi (flog2 y + 1) \<le> 2 powi flog2 x" by (intro power_int_increasing) auto
  with flog2_bounds [of x] flog2_bounds [of y] \<open>0 < x\<close> \<open>x \<le> y\<close> show False by linarith
qed

section \<open>Rounding to a double\<close>

text \<open>Evaluation at a known binade.\<close>

lemma fl_eval:
  assumes "2 powi e \<le> x" "x < 2 powi (e + 1)"
  shows "fl x = of_int (round_even (x / 2 powi (e - 52))) * 2 powi (e - 52)"
proof -
  have "0 < x" using assms(1) by (rule less_le_trans [rotated]) simp
  with flog2_unique [OF assms] show ?thesis by (simp add: fl_def Let_def)
qed

lemma fl_0 [simp]: "fl 0 = 0"
  by (simp add: fl_def)

lemma fl_pos_eq: "0 < x \<Longrightarrow> fl x = of_int (round_even (x / 2 powi (flog2 x - 52))) * 2 powi (flog2 x - 52)"
  by (simp add: fl_def Let_def)

text \<open>A positive rational rounds into the closed binade it lies in.\<close>

lemma fl_binade:
  assumes "0 < x"
  shows "2 powi flog2 x \<le> fl x" "fl x \<le> 2 powi (flog2 x + 1)"
proof -
  let ?u = "(2::rat) powi (flog2 x - 52)"
  have u: "0 < ?u" by simp
  note b = flog2_bounds [OF assms]
  have e1: "2 powi flog2 x = of_int (2 ^ 52) * ?u"
    by (simp add: power_int_diff)
  have e2: "2 powi (flog2 x + 1) = of_int (2 ^ 53) * ?u"
    by (simp add: power_int_add power_int_diff)
  have "of_int (2 ^ 52) \<le> x / ?u" using b(1) u e1 by (simp add: pos_le_divide_eq)
  then have "round_even (of_int (2 ^ 52)) \<le> round_even (x / ?u)" by (rule round_even_mono)
  then have "(2 ^ 52 :: int) \<le> round_even (x / ?u)" unfolding round_even_of_int .
  then have "(of_int (2 ^ 52) :: rat) \<le> of_int (round_even (x / ?u))" unfolding of_int_le_iff .
  then show "2 powi flog2 x \<le> fl x" using u unfolding fl_pos_eq [OF assms] e1
    by (intro mult_right_mono) auto
  have "x / ?u \<le> of_int (2 ^ 53)" using b(2) u e2 by (simp add: pos_divide_le_eq)
  then have "round_even (x / ?u) \<le> round_even (of_int (2 ^ 53))" by (rule round_even_mono)
  then have "round_even (x / ?u) \<le> (2 ^ 53 :: int)" unfolding round_even_of_int .
  then have "(of_int (round_even (x / ?u)) :: rat) \<le> of_int (2 ^ 53)" unfolding of_int_le_iff .
  then show "fl x \<le> 2 powi (flog2 x + 1)" using u unfolding fl_pos_eq [OF assms] e2
    by (intro mult_right_mono) auto
qed

lemma fl_pos: "0 < x \<Longrightarrow> 0 < fl x"
  using fl_binade(1) [of x] by (meson less_le_trans zero_less_numeral zero_less_power_int)

lemma fl_nonneg: "0 \<le> x \<Longrightarrow> 0 \<le> fl x"
  using fl_pos [of x] by (cases "x = 0") auto

lemma fl_mono_pos: "0 < x \<Longrightarrow> x \<le> y \<Longrightarrow> fl x \<le> fl y"
proof -
  assume x: "0 < x" and xy: "x \<le> y"
  then have y: "0 < y" by simp
  show ?thesis
  proof (cases "flog2 x = flog2 y")
    case True
    have "x / 2 powi (flog2 y - 52) \<le> y / 2 powi (flog2 y - 52)"
      using xy by (intro divide_right_mono) auto
    then have "round_even (x / 2 powi (flog2 y - 52)) \<le> round_even (y / 2 powi (flog2 y - 52))"
      by (rule round_even_mono)
    then show ?thesis
      by (auto simp: fl_pos_eq [OF x] fl_pos_eq [OF y] True intro!: mult_right_mono)
  next
    case False
    with flog2_mono [OF x xy] have "flog2 x + 1 \<le> flog2 y" by simp
    then have "(2::rat) powi (flog2 x + 1) \<le> 2 powi flog2 y" by (intro power_int_increasing) auto
    with fl_binade(2) [OF x] fl_binade(1) [OF y] show ?thesis by linarith
  qed
qed

lemma fl_mono: "0 \<le> x \<Longrightarrow> x \<le> y \<Longrightarrow> fl x \<le> fl y"
  using fl_mono_pos [of x y] fl_nonneg [of y] by (cases "x = 0") auto

lemma fl_power [simp]: "fl (2 powi e) = 2 powi e"
proof -
  have "flog2 (2 powi e) = e" by (rule flog2_unique) (auto simp: power_int_strict_increasing)
  moreover have "(2::rat) powi e / 2 powi (e - 52) = of_int (2 ^ 52)"
    by (simp add: power_int_diff)
  ultimately show ?thesis
    by (simp only: fl_pos_eq zero_less_power_int zero_less_numeral round_even_of_int)
       (simp add: power_int_diff)
qed

text \<open>A double is not rounded again.\<close>

lemma fl_minus: "fl (- x) = - fl x"
  by (simp add: fl_def Let_def)

lemma fl_fl_pos:
  assumes "0 < x"
  shows "fl (fl x) = fl x"
proof (cases "fl x = 2 powi (flog2 x + 1)")
  case False
  let ?u = "(2::rat) powi (flog2 x - 52)" and ?r = "of_int (round_even (x / 2 powi (flog2 x - 52))) :: rat"
  have "fl x < 2 powi (flog2 x + 1)" using fl_binade(2) [OF assms] False by simp
  note eval = fl_eval [OF fl_binade(1) [OF assms] this]
  have "fl x / ?u = ?r" unfolding fl_pos_eq [OF assms] by simp
  then show ?thesis unfolding eval by (simp add: fl_pos_eq [OF assms])
qed simp

lemma fl_fl [simp]: "fl (fl x) = fl x"
proof -
  consider "x = 0" | "0 < x" | "0 < - x" by linarith
  then show ?thesis
  proof cases
    case 3
    then have "fl (fl (- x)) = fl (- x)" by (rule fl_fl_pos)
    then show ?thesis by (simp add: fl_minus)
  qed (simp_all add: fl_fl_pos)
qed

lemma fl_1 [simp]: "fl 1 = 1"
  using fl_power [of 0] by simp

lemma fl_le_1: "0 \<le> x \<Longrightarrow> x \<le> 1 \<Longrightarrow> fl x \<le> 1"
  using fl_mono [of x 1] by simp

lemma f64_of_u64_mono: "m \<le> n \<Longrightarrow> f64_of_u64 m \<le> f64_of_u64 n"
  by (simp add: f64_of_u64_def fl_mono)

lemma f64_of_u64_nonneg [simp]: "0 \<le> f64_of_u64 n"
  by (simp add: f64_of_u64_def fl_nonneg)

lemma f64_of_u64_pos: "0 < n \<Longrightarrow> 0 < f64_of_u64 n"
  by (simp add: f64_of_u64_def fl_pos)

lemma f64_of_u64_0 [simp]: "f64_of_u64 0 = 0"
  by (simp add: f64_of_u64_def)

lemma f64_div_nonneg: "0 \<le> x \<Longrightarrow> 0 \<le> y \<Longrightarrow> 0 \<le> f64_div x y"
  by (simp add: f64_div_def fl_nonneg)

text \<open>The fraction of one count in another: a double between 0 and 1, monotone in both counts.\<close>

definition f64_ratio :: "nat \<Rightarrow> nat \<Rightarrow> rat" where
  "f64_ratio a b = f64_div (f64_of_u64 a) (f64_of_u64 b)"

lemma f64_ratio_nonneg [simp]: "0 \<le> f64_ratio a b"
  by (simp add: f64_ratio_def f64_div_nonneg)

lemma f64_ratio_0 [simp]: "f64_ratio 0 b = 0"
  by (simp add: f64_ratio_def f64_div_def)

lemma f64_ratio_le_1: "a \<le> b \<Longrightarrow> f64_ratio a b \<le> 1"
  unfolding f64_ratio_def f64_div_def
  by (intro fl_le_1 divide_nonneg_nonneg f64_of_u64_nonneg divide_le_eq_1 [THEN iffD2])
     (use f64_of_u64_mono [of a b] f64_of_u64_nonneg [of b] in linarith)

lemma f64_ratio_pos: "0 < a \<Longrightarrow> 0 < b \<Longrightarrow> 0 < f64_ratio a b"
  unfolding f64_ratio_def f64_div_def by (intro fl_pos divide_pos_pos f64_of_u64_pos)

lemma f64_ratio_mono: "a \<le> a' \<Longrightarrow> b' \<le> b \<Longrightarrow> 0 < b' \<Longrightarrow> f64_ratio a b \<le> f64_ratio a' b'"
  unfolding f64_ratio_def f64_div_def
  by (intro fl_mono frac_le divide_nonneg_nonneg f64_of_u64_nonneg f64_of_u64_mono f64_of_u64_pos)

end
