(* ===== verification/Ratelimit.thy ===== *)
theory Ratelimit
  imports Pool_Key F64
begin

text \<open>
  The provider-reported rate-limit part of
  \<^verbatim>\<open>crates/rtrt-providers/src/usage_ledger.rs\<close>: the axes and signals, their
  tab-separated row format, the header parsers (counts, durations, RFC 3339 instants) and
  which part of a signal is still current. The header map of the HTTP library is an
  argument: \<open>hdr name\<close> is the header's value when it is present and is text.
\<close>

section \<open>Axes and signals\<close>

definition WINDOW_5H_SECS :: nat where "WINDOW_5H_SECS = 5 * 60 * 60"
definition WINDOW_24H_SECS :: nat where "WINDOW_24H_SECS = 24 * 60 * 60"
definition WINDOW_7D_SECS :: nat where "WINDOW_7D_SECS = 7 * 24 * 60 * 60"
definition MILLIS_PER_SEC :: nat where "MILLIS_PER_SEC = 1000"
definition SECS_PER_DAY :: int where "SECS_PER_DAY = 86400"
definition ABSENT_FIELD :: string where "ABSENT_FIELD = ''-''"

record rate_limit_axis =
  ax_limit :: "nat option"
  ax_remaining :: "nat option"
  ax_reset_at :: "nat option"

definition axis_default :: rate_limit_axis where
  "axis_default = \<lparr>ax_limit = None, ax_remaining = None, ax_reset_at = None\<rparr>"

definition axis_is_empty :: "rate_limit_axis \<Rightarrow> bool" where
  "axis_is_empty a \<longleftrightarrow> ax_limit a = None \<and> ax_remaining a = None \<and> ax_reset_at a = None"

definition axis_is_current :: "rate_limit_axis \<Rightarrow> nat \<Rightarrow> nat \<Rightarrow> bool" where
  "axis_is_current a observed_at now =
     (if axis_is_empty a then False
      else case ax_reset_at a of
             Some reset_at \<Rightarrow> now < reset_at
           | None \<Rightarrow> sat_sub now observed_at < WINDOW_24H_SECS)"

record signal_rec =
  sg_key :: string
  sg_observed_at :: nat
  sg_status :: nat
  sg_requests :: rate_limit_axis
  sg_tokens :: rate_limit_axis
  sg_retry_after_at :: "nat option"

definition signal_default :: signal_rec where
  "signal_default = \<lparr>sg_key = [], sg_observed_at = 0, sg_status = 0,
     sg_requests = axis_default, sg_tokens = axis_default, sg_retry_after_at = None\<rparr>"

definition signal_is_empty :: "signal_rec \<Rightarrow> bool" where
  "signal_is_empty s \<longleftrightarrow>
     axis_is_empty (sg_requests s) \<and> axis_is_empty (sg_tokens s) \<and> sg_retry_after_at s = None"

definition signal_pool_key :: "signal_rec \<Rightarrow> pool_key" where
  "signal_pool_key s = pool_key_parse (sg_key s)"

definition option_filter :: "('a \<Rightarrow> bool) \<Rightarrow> 'a option \<Rightarrow> 'a option" where
  "option_filter P x = (case x of Some v \<Rightarrow> if P v then Some v else None | None \<Rightarrow> None)"

definition current_at :: "signal_rec \<Rightarrow> nat \<Rightarrow> signal_rec option" where
  "current_at s now =
     (let f1 = (if axis_is_current (sg_requests s) (sg_observed_at s) now then s
                else s\<lparr>sg_requests := axis_default\<rparr>);
          f2 = (if axis_is_current (sg_tokens f1) (sg_observed_at s) now then f1
                else f1\<lparr>sg_tokens := axis_default\<rparr>);
          f3 = f2\<lparr>sg_retry_after_at := option_filter (\<lambda>t. now < t) (sg_retry_after_at f2)\<rparr>
      in if signal_is_empty f3 then None else Some f3)"

definition backoff_until :: "signal_rec \<Rightarrow> nat option" where
  "backoff_until s = sg_retry_after_at s"

section \<open>Rows\<close>

abbreviation TAB :: char where
  "TAB \<equiv> CHR 0x09"

definition optional_field :: "nat option \<Rightarrow> string" where
  "optional_field v = (case v of None \<Rightarrow> ABSENT_FIELD | Some n \<Rightarrow> nat_str n)"

definition parse_optional_field :: "string \<Rightarrow> nat option" where
  "parse_optional_field field =
     (let f = trim field in if f = ABSENT_FIELD then None else parse_u64 f)"

definition signal_to_tsv_line :: "signal_rec \<Rightarrow> string" where
  "signal_to_tsv_line s = join [TAB]
     [nat_str (sg_observed_at s), sg_key s, nat_str (sg_status s),
      optional_field (ax_limit (sg_requests s)),
      optional_field (ax_remaining (sg_requests s)),
      optional_field (ax_reset_at (sg_requests s)),
      optional_field (ax_limit (sg_tokens s)),
      optional_field (ax_remaining (sg_tokens s)),
      optional_field (ax_reset_at (sg_tokens s)),
      optional_field (sg_retry_after_at s)]"

definition signal_parse :: "string \<Rightarrow> signal_rec option" where
  "signal_parse line =
     (let f = split_char TAB line in
      if length f < 10 then None
      else case parse_u64 (trim (f ! 0)) of None \<Rightarrow> None
        | Some observed_at \<Rightarrow>
          (case parse_uint 16 (trim (f ! 2)) of None \<Rightarrow> None
           | Some status \<Rightarrow> Some
              \<lparr>sg_key = canonical (pool_key_parse (f ! 1)), sg_observed_at = observed_at,
               sg_status = status,
               sg_requests = \<lparr>ax_limit = parse_optional_field (f ! 3),
                 ax_remaining = parse_optional_field (f ! 4),
                 ax_reset_at = parse_optional_field (f ! 5)\<rparr>,
               sg_tokens = \<lparr>ax_limit = parse_optional_field (f ! 6),
                 ax_remaining = parse_optional_field (f ! 7),
                 ax_reset_at = parse_optional_field (f ! 8)\<rparr>,
               sg_retry_after_at = parse_optional_field (f ! 9)\<rparr>))"

section \<open>Dates\<close>

text \<open>Rust's integer division and remainder truncate towards zero.\<close>

definition tdiv :: "int \<Rightarrow> int \<Rightarrow> int" where
  "tdiv a b = sgn a * sgn b * (\<bar>a\<bar> div \<bar>b\<bar>)"

definition tmod :: "int \<Rightarrow> int \<Rightarrow> int" where
  "tmod a b = a - tdiv a b * b"

definition days_in_month :: "int \<Rightarrow> int \<Rightarrow> int" where
  "days_in_month year month =
     (if month \<in> {1, 3, 5, 7, 8, 10, 12} then 31
      else if month \<in> {4, 6, 9, 11} then 30
      else if month = 2 \<and> tmod year 4 = 0 \<and> (tmod year 100 \<noteq> 0 \<or> tmod year 400 = 0) then 29
      else if month = 2 then 28
      else 0)"

definition days_from_civil :: "int \<Rightarrow> int \<Rightarrow> int \<Rightarrow> int" where
  "days_from_civil year month day =
     (let year' = (if month \<le> 2 then year - 1 else year);
          era = tdiv (if year' \<ge> 0 then year' else year' - 399) 400;
          year_of_era = year' - era * 400;
          day_of_year = tdiv (153 * (if month > 2 then month - 3 else month + 9) + 2) 5 + day - 1;
          day_of_era = year_of_era * 365 + tdiv year_of_era 4 - tdiv year_of_era 100 + day_of_year
      in era * 146097 + day_of_era - 719468)"

definition ascii_number :: "string \<Rightarrow> int option" where
  "ascii_number raw =
     (if raw = [] \<or> \<not> list_all is_ascii_digit raw then None
      else if int (digits_val raw) < 2 ^ 63 then Some (int (digits_val raw)) else None)"

definition slice :: "nat \<Rightarrow> nat \<Rightarrow> string \<Rightarrow> string" where
  "slice i j s = take (j - i) (drop i s)"

definition rfc3339_fraction :: "string \<Rightarrow> string option" where
  "rfc3339_fraction rest =
     (case rest of
        [] \<Rightarrow> Some rest
      | c # fraction \<Rightarrow>
          if c = CHR ''.'' then
            (if takeWhile is_ascii_digit fraction = [] then None
             else Some (dropWhile is_ascii_digit fraction))
          else Some rest)"

definition rfc3339_offset :: "string \<Rightarrow> int option" where
  "rfc3339_offset rest =
     (case rest of
        [] \<Rightarrow> Some 0
      | c # _ \<Rightarrow>
          if (c = CHR ''Z'' \<or> c = CHR ''z'') \<and> length rest = 1 then Some 0
          else if c = CHR ''+'' \<or> c = CHR ''-'' then
            (if length rest \<noteq> 6 \<or> rest ! 3 \<noteq> CHR '':'' then None
             else case ascii_number (slice 1 3 rest) of None \<Rightarrow> None
               | Some offset_hour \<Rightarrow>
                 (case ascii_number (slice 4 6 rest) of None \<Rightarrow> None
                  | Some offset_minute \<Rightarrow>
                     if offset_hour > 23 \<or> offset_minute > 59 then None
                     else let magnitude = offset_hour * 3600 + offset_minute * 60
                          in Some (if c = CHR ''+'' then magnitude else - magnitude)))
          else None)"

definition u64_try_from :: "int \<Rightarrow> nat option" where
  "u64_try_from n = (if 0 \<le> n \<and> n \<le> int u64_max then Some (nat n) else None)"

definition rfc3339_fields :: "string \<Rightarrow> (int \<times> int \<times> int \<times> int \<times> int \<times> int) option" where
  "rfc3339_fields raw =
     Option.bind (ascii_number (slice 0 4 raw)) (\<lambda>year.
     Option.bind (ascii_number (slice 5 7 raw)) (\<lambda>month.
     Option.bind (ascii_number (slice 8 10 raw)) (\<lambda>day.
     Option.bind (ascii_number (slice 11 13 raw)) (\<lambda>hour.
     Option.bind (ascii_number (slice 14 16 raw)) (\<lambda>minute.
     Option.bind (ascii_number (slice 17 19 raw)) (\<lambda>second.
       Some (year, month, day, hour, minute, min second 59)))))))"

definition parse_rfc3339_epoch :: "string \<Rightarrow> nat option" where
  "parse_rfc3339_epoch raw0 =
     (let raw = trim raw0 in
      if length raw < 19 \<or> \<not> is_ascii raw then None
      else if raw ! 4 \<noteq> CHR ''-'' \<or> raw ! 7 \<noteq> CHR ''-'' \<or> raw ! 13 \<noteq> CHR '':'' \<or> raw ! 16 \<noteq> CHR '':''
      then None
      else if raw ! 10 \<notin> {CHR ''T'', CHR ''t'', CHR '' ''} then None
      else case rfc3339_fields raw of None \<Rightarrow> None
        | Some (year, month, day, hour, minute, second) \<Rightarrow>
          if \<not> (1 \<le> month \<and> month \<le> 12) \<or> day < 1 \<or> day > days_in_month year month then None
          else if hour > 23 \<or> minute > 59 then None
          else case rfc3339_fraction (drop 19 raw) of None \<Rightarrow> None
            | Some rest \<Rightarrow>
              (case rfc3339_offset rest of None \<Rightarrow> None
               | Some offset_secs \<Rightarrow>
                   u64_try_from (days_from_civil year month day * SECS_PER_DAY
                     + hour * 3600 + minute * 60 + second - offset_secs)))"

section \<open>Durations\<close>

definition unit_secs :: "string \<Rightarrow> rat option" where
  "unit_secs u =
     (if u = ''ns'' then Some (fl (1 / 10 ^ 9))
      else if u = ''us'' \<or> u = [CHR 0xC2, CHR 0xB5, CHR ''s''] \<or> u = [CHR 0xCE, CHR 0xBC, CHR ''s'']
        then Some (fl (1 / 10 ^ 6))
      else if u = ''ms'' then Some (fl (1 / 10 ^ 3))
      else if u = ''s'' then Some 1
      else if u = ''m'' then Some 60
      else if u = ''h'' then Some 3600
      else None)"

definition millis_from_secs :: "f64_val \<Rightarrow> nat option" where
  "millis_from_secs secs =
     (case secs of NaN \<Rightarrow> None | Infinite _ \<Rightarrow> None
      | Fin x \<Rightarrow> if x < 0 then None
          else let millis = \<lfloor>f64_mul x 1000 + 1 / 2\<rfloor> in
               if millis \<le> 2 ^ 64 then Some (min (nat millis) u64_max) else None)"

function duration_loop :: "rat \<Rightarrow> nat \<Rightarrow> string \<Rightarrow> (rat \<times> nat) option" where
  "duration_loop acc segments rest =
     (if rest = [] then Some (acc, segments)
      else let num = takeWhile (\<lambda>c. is_ascii_digit c \<or> c = CHR ''.'') rest;
               rest1 = dropWhile (\<lambda>c. is_ascii_digit c \<or> c = CHR ''.'') rest
           in if rest1 = [] \<or> num = [] then None
              else case parse_f64 num of
                Some (Fin value) \<Rightarrow>
                  (let unit = takeWhile (\<lambda>c. \<not> is_ascii_digit c) rest1;
                       rest2 = dropWhile (\<lambda>c. \<not> is_ascii_digit c) rest1
                   in case unit_secs unit of None \<Rightarrow> None
                      | Some u \<Rightarrow> duration_loop (f64_add acc (f64_mul value u)) (Suc segments) rest2)
              | _ \<Rightarrow> None)"
  by pat_completeness auto
termination
proof (relation "measure (\<lambda>(t, n, r). length r)", goal_cases)
  case (2 acc segments rest num rest1 y x3 unit' rest2 u)
  then have "length rest1 < length rest"
    by (metis length_append length_greater_0_conv less_add_same_cancel2 takeWhile_dropWhile_id)
  moreover have "length rest2 \<le> length rest1" using 2 by (simp add: length_dropWhile_le)
  ultimately show ?case by simp
qed simp

declare duration_loop.simps [simp del]

definition parse_duration_millis :: "string \<Rightarrow> nat option" where
  "parse_duration_millis raw0 =
     (let raw = trim raw0 in
      if raw = [] then None
      else case parse_f64 raw of
        Some secs \<Rightarrow> millis_from_secs secs
      | None \<Rightarrow> (case duration_loop 0 0 raw of None \<Rightarrow> None
          | Some (acc, segments) \<Rightarrow> if segments > 0 then millis_from_secs (Fin acc) else None))"

definition div_ceil :: "nat \<Rightarrow> nat \<Rightarrow> nat" where
  "div_ceil a b = (if a mod b = 0 then a div b else a div b + 1)"

definition parse_reset_instant :: "string \<Rightarrow> nat \<Rightarrow> nat option" where
  "parse_reset_instant raw0 observed_at =
     (let raw = trim raw0 in
      if raw = [] then None
      else case parse_rfc3339_epoch raw of
        Some epoch \<Rightarrow> Some epoch
      | None \<Rightarrow> (case parse_duration_millis raw of None \<Rightarrow> None
          | Some millis \<Rightarrow> Some (sat_add observed_at (div_ceil millis MILLIS_PER_SEC))))"

definition parse_count :: "string \<Rightarrow> nat option" where
  "parse_count raw0 =
     (let raw = trim raw0 in
      if raw = [] \<or> \<not> list_all is_ascii_digit raw then None else parse_u64 raw)"

section \<open>Headers\<close>

definition REQUEST_LIMIT_HEADERS :: "string list" where
  "REQUEST_LIMIT_HEADERS = [''anthropic-ratelimit-requests-limit'', ''x-ratelimit-limit-requests'']"
definition REQUEST_REMAINING_HEADERS :: "string list" where
  "REQUEST_REMAINING_HEADERS =
     [''anthropic-ratelimit-requests-remaining'', ''x-ratelimit-remaining-requests'']"
definition REQUEST_RESET_HEADERS :: "string list" where
  "REQUEST_RESET_HEADERS = [''anthropic-ratelimit-requests-reset'', ''x-ratelimit-reset-requests'']"
definition TOKEN_LIMIT_HEADERS :: "string list" where
  "TOKEN_LIMIT_HEADERS = [''anthropic-ratelimit-tokens-limit'', ''x-ratelimit-limit-tokens'']"
definition TOKEN_REMAINING_HEADERS :: "string list" where
  "TOKEN_REMAINING_HEADERS =
     [''anthropic-ratelimit-tokens-remaining'', ''x-ratelimit-remaining-tokens'']"
definition TOKEN_RESET_HEADERS :: "string list" where
  "TOKEN_RESET_HEADERS = [''anthropic-ratelimit-tokens-reset'', ''x-ratelimit-reset-tokens'']"
definition RETRY_AFTER_HEADERS :: "string list" where
  "RETRY_AFTER_HEADERS = [''retry-after'']"

type_synonym header_map = "string \<Rightarrow> string option"

fun first_header :: "header_map \<Rightarrow> string list \<Rightarrow> string option" where
  "first_header hdr [] = None"
| "first_header hdr (name # names) =
     (case map_option trim (hdr name) of
        Some v \<Rightarrow> if v \<noteq> [] then Some v else first_header hdr names
      | None \<Rightarrow> first_header hdr names)"

definition axis_from_headers ::
  "header_map \<Rightarrow> nat \<Rightarrow> string list \<Rightarrow> string list \<Rightarrow> string list \<Rightarrow> rate_limit_axis" where
  "axis_from_headers hdr observed_at limit remaining reset =
     \<lparr>ax_limit = Option.bind (first_header hdr limit) parse_count,
      ax_remaining = Option.bind (first_header hdr remaining) parse_count,
      ax_reset_at = Option.bind (first_header hdr reset) (\<lambda>raw. parse_reset_instant raw observed_at)\<rparr>"

definition rate_limit_signal :: "pool_key \<Rightarrow> nat \<Rightarrow> nat \<Rightarrow> header_map \<Rightarrow> signal_rec option" where
  "rate_limit_signal key status observed_at hdr =
     (let signal = \<lparr>sg_key = canonical key, sg_observed_at = observed_at, sg_status = status,
        sg_requests = axis_from_headers hdr observed_at
          REQUEST_LIMIT_HEADERS REQUEST_REMAINING_HEADERS REQUEST_RESET_HEADERS,
        sg_tokens = axis_from_headers hdr observed_at
          TOKEN_LIMIT_HEADERS TOKEN_REMAINING_HEADERS TOKEN_RESET_HEADERS,
        sg_retry_after_at = Option.bind (first_header hdr RETRY_AFTER_HEADERS)
          (\<lambda>raw. parse_reset_instant raw observed_at)\<rparr>
      in if signal_is_empty signal then None else Some signal)"

text \<open>
  The newest observation of each pool; within one second the later row wins.
\<close>

definition latest_signals :: "signal_rec list \<Rightarrow> (string, signal_rec) btree" where
  "latest_signals rows = foldl (\<lambda>out row.
     case (case bt_get out (sg_key row) of
             Some seen \<Rightarrow> if sg_observed_at seen > sg_observed_at row then None else Some row
           | None \<Rightarrow> Some row)
     of None \<Rightarrow> out | Some r \<Rightarrow> bt_insert (sg_key row) r out) [] rows"

definition nonblank_lines :: "string \<Rightarrow> string list" where
  "nonblank_lines raw = filter (\<lambda>line. trim line \<noteq> []) (lines raw)"

text \<open>A file is its contents when it can be read; an unreadable file has no rows.\<close>

definition read_signals :: "string option \<Rightarrow> signal_rec list" where
  "read_signals file =
     (case file of None \<Rightarrow> []
      | Some raw \<Rightarrow> List.map_filter signal_parse (nonblank_lines raw))"

definition rate_limit_signals :: "string option \<Rightarrow> (string, signal_rec) btree" where
  "rate_limit_signals file = latest_signals (read_signals file)"

definition rate_limit_signal_for :: "string option \<Rightarrow> pool_key \<Rightarrow> signal_rec option" where
  "rate_limit_signal_for file key = bt_get (rate_limit_signals file) (canonical key)"

section \<open>Calendar lemmas\<close>

lemma tdiv_pos: "0 \<le> a \<Longrightarrow> 0 < b \<Longrightarrow> tdiv a b = a div b"
  by (cases "a = 0") (auto simp: tdiv_def)

lemma tmod_pos: "0 \<le> a \<Longrightarrow> 0 < b \<Longrightarrow> tmod a b = a mod b"
  by (simp add: tmod_def tdiv_pos minus_div_mult_eq_mod)

lemma tdiv_neg: "a < 0 \<Longrightarrow> 0 < b \<Longrightarrow> tdiv a b = - ((- a) div b)"
  by (simp add: tdiv_def)

lemma era_floor: "tdiv (if y \<ge> 0 then y else y - 399) 400 = y div 400"
proof (cases "0 \<le> y")
  case True
  then show ?thesis by (simp add: tdiv_pos)
next
  case False
  then have "tdiv (y - 399) 400 = - ((399 - y) div 400)" by (simp add: tdiv_neg)
  also have "(399 - y) div 400 = - (y div 400)"
  proof (rule int_div_pos_eq [where r = "399 - y mod 400"])
    show "399 - y = 400 * - (y div 400) + (399 - y mod 400)"
      using mult_div_mod_eq [of 400 y] by linarith
    have "y mod 400 < 400" "0 \<le> y mod 400" by simp_all
    then show "0 \<le> 399 - y mod 400" "399 - y mod 400 < 400" by linarith+
  qed
  finally show ?thesis using False by simp
qed

text \<open>Days before 1 March of year \<open>y\<close>, counted by the leap-year rule.\<close>

definition march_days :: "int \<Rightarrow> int" where
  "march_days y = 365 * y + y div 4 - y div 100 + y div 400"

lemma march_days_era:
  "y div 400 * 146097 + ((y - y div 400 * 400) * 365 + (y - y div 400 * 400) div 4
     - (y - y div 400 * 400) div 100) = march_days y"
proof -
  define q r where "q = y div 400" and "r = y mod 400"
  have y: "y = 400 * q + r" and r: "0 \<le> r" "r < 400" by (simp_all add: q_def r_def)
  have d4: "(400 * q + r) div 4 = 100 * q + r div 4"
    using div_mult_self2 [of 4 r "100 * q"] by (simp add: add.commute)
  have d100: "(400 * q + r) div 100 = 4 * q + r div 100"
    using div_mult_self2 [of 100 r "4 * q"] by (simp add: add.commute)
  have d400: "(400 * q + r) div 400 = q" by (rule int_div_pos_eq [OF refl r])
  have rest: "400 * q + r - q * 400 = r" by simp
  obtain u v where uv: "r div 4 = u" "r div 100 = v" by blast
  show ?thesis unfolding march_days_def y d400 rest d4 d100 uv by simp
qed

lemma div_pred:
  fixes y n :: int
  assumes "0 < n"
  shows "y div n = (y - 1) div n + (if y mod n = 0 then 1 else 0)"
proof (cases "y mod n = 0")
  case True
  have "y - 1 = n * (y div n - 1) + (n - 1)"
    using True mult_div_mod_eq [of n y] by (simp add: algebra_simps)
  then have "(y - 1) div n = y div n - 1" by (rule int_div_pos_eq) (use assms in auto)
  with True show ?thesis by simp
next
  case False
  have m: "0 \<le> y mod n" "y mod n < n" using assms by auto
  have "y - 1 = n * (y div n) + (y mod n - 1)"
    using mult_div_mod_eq [of n y] by (simp add: algebra_simps)
  then have "(y - 1) div n = y div n" by (rule int_div_pos_eq) (use False m in auto)
  with False show ?thesis by simp
qed

lemma leap_count:
  fixes y a b c :: int
  assumes "R \<Longrightarrow> Q" "Q \<Longrightarrow> P"
  shows "365 * y + (a + (if P then 1 else 0)) - (b + (if Q then 1 else 0)) + (c + (if R then 1 else 0))
    = 365 * (y - 1) + a - b + c + 365 + (if P \<and> (\<not> Q \<or> R) then 1 else 0)"
  using assms by (cases P; cases Q; cases R) simp_all

lemma march_days_step:
  "march_days y = march_days (y - 1) + 365
     + (if y mod 4 = 0 \<and> (y mod 100 \<noteq> 0 \<or> y mod 400 = 0) then 1 else 0)"
proof -
  have dvd: "400 dvd y \<Longrightarrow> 100 dvd y" "100 dvd y \<Longrightarrow> 4 dvd y"
    using dvd_trans [of 100 400 y] dvd_trans [of 4 100 y] by simp_all
  obtain a b c where abc: "(y - 1) div 4 = a" "(y - 1) div 100 = b" "(y - 1) div 400 = c" by blast
  have d: "y div 4 = a + (if 4 dvd y then 1 else 0)" "y div 100 = b + (if 100 dvd y then 1 else 0)"
    "y div 400 = c + (if 400 dvd y then 1 else 0)"
    using div_pred [of 4 y] div_pred [of 100 y] div_pred [of 400 y]
    unfolding abc mod_eq_0_iff_dvd by simp_all
  show ?thesis
    unfolding march_days_def d abc mod_eq_0_iff_dvd using dvd by (rule leap_count)
qed

definition month_offset :: "int \<Rightarrow> int" where
  "month_offset month = (153 * (if month > 2 then month - 3 else month + 9) + 2) div 5"

lemma days_from_civil_eq:
  assumes "1 \<le> month"
  shows "days_from_civil year month day =
    march_days (if month \<le> 2 then year - 1 else year) + month_offset month + day - 719469"
proof -
  let ?y = "if month \<le> 2 then year - 1 else year"
  let ?r = "?y - ?y div 400 * 400"
  have r: "0 \<le> ?r" by (simp add: minus_div_mult_eq_mod)
  have m: "tdiv (153 * (if month > 2 then month - 3 else month + 9) + 2) 5 = month_offset month"
    using assms by (simp add: month_offset_def tdiv_pos)
  show ?thesis
    unfolding days_from_civil_def Let_def era_floor m
    using march_days_era [of ?y] r by (simp add: tdiv_pos)
qed

text \<open>The calendar's own successor, from the month lengths.\<close>

definition next_day :: "int \<times> int \<times> int \<Rightarrow> int \<times> int \<times> int" where
  "next_day = (\<lambda>(y, m, d).
     if d < days_in_month y m then (y, m, d + 1)
     else if m < 12 then (y, m + 1, 1) else (y + 1, 1, 1))"

definition valid_date :: "int \<times> int \<times> int \<Rightarrow> bool" where
  "valid_date = (\<lambda>(y, m, d). 0 \<le> y \<and> 1 \<le> m \<and> m \<le> 12 \<and> 1 \<le> d \<and> d \<le> days_in_month y m)"

definition civil :: "int \<times> int \<times> int \<Rightarrow> int" where
  "civil = (\<lambda>(y, m, d). days_from_civil y m d)"

lemma month_cases:
  fixes m :: int
  assumes "1 \<le> m" "m \<le> 12"
  shows "m \<in> {1, 2, 3, 4, 5, 6, 7, 8, 9, 10, 11, 12}"
proof -
  have "m \<in> {1..12}" using assms by simp
  also have "{1..12 :: int} = {1, 2, 3, 4, 5, 6, 7, 8, 9, 10, 11, 12}" by code_simp
  finally show ?thesis .
qed

lemma days_in_month_pos: "1 \<le> m \<Longrightarrow> m \<le> 12 \<Longrightarrow> 28 \<le> days_in_month y m"
  using month_cases [of m] by (auto simp: days_in_month_def)

lemma days_in_month_feb:
  "0 \<le> y \<Longrightarrow> days_in_month y 2 =
     28 + (if y mod 4 = 0 \<and> (y mod 100 \<noteq> 0 \<or> y mod 400 = 0) then 1 else 0)"
  by (simp add: days_in_month_def tmod_pos)

lemma month_step:
  assumes "0 \<le> y" "1 \<le> m" "m < 12"
  shows "days_from_civil y (m + 1) 1 = days_from_civil y m (days_in_month y m) + 1"
proof -
  have "m \<in> {1, 2, 3, 4, 5, 6, 7, 8, 9, 10, 11, 12}" using assms by (intro month_cases) auto
  with assms consider "m = 2" | "m \<in> {1, 3, 4, 5, 6, 7, 8, 9, 10, 11}" by auto
  then show ?thesis
  proof cases
    case 1
    then show ?thesis using march_days_step [of y] assms(1)
      by (simp add: days_from_civil_eq days_in_month_feb month_offset_def)
  next
    case 2
    then show ?thesis by (auto simp: days_from_civil_eq days_in_month_def month_offset_def)
  qed
qed

lemma year_step: "days_from_civil (y + 1) 1 1 = days_from_civil y 12 31 + 1"
  by (simp add: days_from_civil_eq month_offset_def)

lemma civil_next_day:
  assumes "valid_date x"
  shows "civil (next_day x) = civil x + 1 \<and> valid_date (next_day x)"
proof -
  obtain y m d where x: "x = (y, m, d)" by (cases x)
  with assms have v: "0 \<le> y" "1 \<le> m" "m \<le> 12" "1 \<le> d" "d \<le> days_in_month y m"
    by (auto simp: valid_date_def)
  consider "d < days_in_month y m" | "d = days_in_month y m" "m < 12" | "d = days_in_month y m" "m = 12"
    using v by linarith
  then show ?thesis
  proof cases
    case 1
    then show ?thesis using v
      by (simp add: x next_day_def civil_def valid_date_def days_from_civil_eq)
  next
    case 2
    then show ?thesis using v days_in_month_pos [of "m + 1" y]
      by (simp add: x next_day_def civil_def valid_date_def month_step)
  next
    case 3
    then have "d = 31" by (simp add: days_in_month_def)
    then show ?thesis using 3 v year_step [of y]
      by (simp add: x next_day_def civil_def valid_date_def days_in_month_def)
  qed
qed

lemma civil_epoch: "civil (1970, 1, 1) = 0"
  by (simp add: civil_def days_from_civil_eq march_days_def month_offset_def)

lemma valid_epoch: "valid_date (1970, 1, 1)"
  by (simp add: valid_date_def days_in_month_def)

lemma civil_iterate:
  "civil ((next_day ^^ n) (1970, 1, 1)) = int n \<and> valid_date ((next_day ^^ n) (1970, 1, 1))"
proof (induction n)
  case 0
  then show ?case by (simp add: civil_epoch valid_epoch)
next
  case (Suc n)
  then show ?case using civil_next_day [of "(next_day ^^ n) (1970, 1, 1)"] by simp
qed

section \<open>Row lemmas\<close>

definition axis_bounded :: "rate_limit_axis \<Rightarrow> bool" where
  "axis_bounded a \<longleftrightarrow> pred_option (\<lambda>n. n \<le> u64_max) (ax_limit a) \<and>
     pred_option (\<lambda>n. n \<le> u64_max) (ax_remaining a) \<and> pred_option (\<lambda>n. n \<le> u64_max) (ax_reset_at a)"

text \<open>
  The signals the program can write and read back: machine-sized numbers and a canonical
  key that holds neither a tab nor a line feed.
\<close>

definition signal_wf :: "signal_rec \<Rightarrow> bool" where
  "signal_wf s \<longleftrightarrow> sg_observed_at s \<le> u64_max \<and> sg_status s < 2 ^ 16 \<and>
     axis_bounded (sg_requests s) \<and> axis_bounded (sg_tokens s) \<and>
     pred_option (\<lambda>n. n \<le> u64_max) (sg_retry_after_at s) \<and>
     canonical (pool_key_parse (sg_key s)) = sg_key s \<and> TAB \<notin> set (sg_key s) \<and> CHR 0x0A \<notin> set (sg_key s)"

lemma tab_notin_optional_field: "TAB \<notin> set (optional_field v)"
  by (simp add: optional_field_def ABSENT_FIELD_def nat_str_notin split: option.splits)

lemma trim_dash [simp]: "trim ''-'' = ''-''"
  by (simp add: trim_visible visible_def)

lemma parse_optional_field_print:
  "pred_option (\<lambda>n. n \<le> u64_max) v \<Longrightarrow> parse_optional_field (optional_field v) = v"
  by (cases v) (simp_all add: parse_optional_field_def optional_field_def ABSENT_FIELD_def)

lemma parse_uint_nat_str: "n < 2 ^ 16 \<Longrightarrow> parse_uint 16 (nat_str n) = Some n"
  by (simp add: parse_uint_def u64_max_def)

lemma signal_roundtrip_lemma:
  assumes "signal_wf s"
  shows "signal_parse (signal_to_tsv_line s) = Some s"
proof -
  have "split_char TAB (signal_to_tsv_line s) =
    [nat_str (sg_observed_at s), sg_key s, nat_str (sg_status s),
      optional_field (ax_limit (sg_requests s)), optional_field (ax_remaining (sg_requests s)),
      optional_field (ax_reset_at (sg_requests s)), optional_field (ax_limit (sg_tokens s)),
      optional_field (ax_remaining (sg_tokens s)), optional_field (ax_reset_at (sg_tokens s)),
      optional_field (sg_retry_after_at s)]"
    unfolding signal_to_tsv_line_def
    by (rule split_char_join)
      (use assms in \<open>auto simp: signal_wf_def nat_str_notin tab_notin_optional_field\<close>)
  then show ?thesis using assms
    by (simp add: signal_parse_def signal_wf_def axis_bounded_def parse_optional_field_print
        parse_uint_nat_str)
qed

lemma optional_field_visible: "optional_field v \<noteq> [] \<and> list_all visible (optional_field v)"
  by (simp add: optional_field_def ABSENT_FIELD_def nat_str_visible visible_def split: option.splits)

lemma signal_line_ends:
  "signal_to_tsv_line s \<noteq> []" "visible (hd (signal_to_tsv_line s))" "visible (last (signal_to_tsv_line s))"
proof -
  show "signal_to_tsv_line s \<noteq> []" by (simp add: signal_to_tsv_line_def)
  have "hd (signal_to_tsv_line s) = hd (nat_str (sg_observed_at s))"
    by (simp add: signal_to_tsv_line_def hd_append)
  then show "visible (hd (signal_to_tsv_line s))"
    using nat_str_visible [of "sg_observed_at s"] by (simp add: list_all_iff)
  have "last (signal_to_tsv_line s) = last (optional_field (sg_retry_after_at s))"
    using optional_field_visible by (simp add: signal_to_tsv_line_def)
  then show "visible (last (signal_to_tsv_line s))"
    using optional_field_visible [of "sg_retry_after_at s"] by (simp add: list_all_iff)
qed

lemma nl_notin_optional_field: "CHR 0x0A \<notin> set (optional_field v)"
  by (simp add: optional_field_def ABSENT_FIELD_def nat_str_notin split: option.splits)

lemma signal_line_text: "signal_wf s \<Longrightarrow> line_text (signal_to_tsv_line s)"
proof -
  assume "signal_wf s"
  then have "CHR 0x0A \<notin> set (signal_to_tsv_line s)"
    by (auto simp: signal_to_tsv_line_def signal_wf_def nat_str_notin nl_notin_optional_field)
  with signal_line_ends(3) [of s] show ?thesis
    by (auto simp: line_text_def dest: last_visible_line_text)
qed

section \<open>Staleness\<close>

lemma axis_default_empty [simp]: "axis_is_empty axis_default"
  by (simp add: axis_is_empty_def axis_default_def)

lemma axis_is_empty_default: "axis_is_empty a \<longleftrightarrow> a = axis_default"
  by (cases a) (simp add: axis_is_empty_def axis_default_def)

lemma axis_not_current_default [simp]: "\<not> axis_is_current axis_default t now"
  by (simp add: axis_is_current_def)

lemma current_at_fields:
  assumes "current_at s now = Some f"
  shows "sg_key f = sg_key s" "sg_observed_at f = sg_observed_at s" "sg_status f = sg_status s"
    "sg_requests f = (if axis_is_current (sg_requests s) (sg_observed_at s) now then sg_requests s else axis_default)"
    "sg_tokens f = (if axis_is_current (sg_tokens s) (sg_observed_at s) now then sg_tokens s else axis_default)"
    "sg_retry_after_at f = option_filter (\<lambda>t. now < t) (sg_retry_after_at s)"
    "\<not> signal_is_empty f"
  using assms by (auto simp: current_at_def Let_def split: if_splits)

lemma current_at_None:
  "current_at s now = None \<longleftrightarrow>
     \<not> axis_is_current (sg_requests s) (sg_observed_at s) now \<and>
     \<not> axis_is_current (sg_tokens s) (sg_observed_at s) now \<and>
     option_filter (\<lambda>t. now < t) (sg_retry_after_at s) = None"
  by (auto simp: current_at_def Let_def signal_is_empty_def axis_is_current_def)

section \<open>Bounds of the header parsers\<close>

lemma millis_from_secs_le: "millis_from_secs v = Some m \<Longrightarrow> m \<le> u64_max"
  by (auto simp: millis_from_secs_def Let_def split: f64_val.splits if_splits)

lemma parse_duration_millis_le: "parse_duration_millis s = Some m \<Longrightarrow> m \<le> u64_max"
  by (auto simp: parse_duration_millis_def Let_def dest: millis_from_secs_le
      split: if_splits option.splits prod.splits)

lemma parse_rfc3339_epoch_le: "parse_rfc3339_epoch s = Some t \<Longrightarrow> t \<le> u64_max"
  by (auto simp: parse_rfc3339_epoch_def Let_def u64_try_from_def split: if_splits option.splits)

lemma parse_reset_instant_le: "parse_reset_instant s t = Some r \<Longrightarrow> r \<le> u64_max"
  by (auto simp: parse_reset_instant_def Let_def dest: parse_rfc3339_epoch_le
      split: if_splits option.splits)

lemma parse_count_le: "parse_count s = Some n \<Longrightarrow> n \<le> u64_max"
  by (auto simp: parse_count_def Let_def dest: parse_u64_le split: if_splits)

lemma axis_from_headers_bounded: "axis_bounded (axis_from_headers hdr t l r z)"
proof -
  have "pred_option (\<lambda>n. n \<le> u64_max) (Option.bind o' f)"
    if "\<And>x y. f x = Some y \<Longrightarrow> y \<le> u64_max" for o' :: "string option" and f
    using that by (cases "Option.bind o' f") (auto simp: bind_eq_Some_conv)
  then show ?thesis
    by (simp add: axis_bounded_def axis_from_headers_def parse_count_le parse_reset_instant_le)
qed

lemma rate_limit_signal_wf:
  assumes "rate_limit_signal key status t hdr = Some s"
    and "pool_key_wf key" "TAB \<notin> set (canonical key)" "CHR 0x0A \<notin> set (canonical key)" "status < 2 ^ 16" "t \<le> u64_max"
  shows "signal_wf s \<and> \<not> signal_is_empty s"
proof -
  have "pred_option (\<lambda>n. n \<le> u64_max) (Option.bind o' (\<lambda>raw. parse_reset_instant raw t))" for o'
    by (cases "Option.bind o' (\<lambda>raw. parse_reset_instant raw t)")
       (auto simp: bind_eq_Some_conv dest: parse_reset_instant_le)
  with assms show ?thesis
    by (auto simp: rate_limit_signal_def Let_def signal_wf_def axis_from_headers_bounded
        parse_canonical split: if_splits)
qed

section \<open>The newest signal of a pool\<close>

definition newer :: "signal_rec option \<Rightarrow> signal_rec \<Rightarrow> signal_rec option" where
  "newer seen row = (case seen of
     Some s \<Rightarrow> if sg_observed_at s > sg_observed_at row then None else Some row | None \<Rightarrow> Some row)"

definition latest_of :: "signal_rec option \<Rightarrow> signal_rec list \<Rightarrow> signal_rec option" where
  "latest_of o' rows = foldl (\<lambda>o' x. case newer o' x of None \<Rightarrow> o' | Some v \<Rightarrow> Some v) o' rows"

lemma latest_signals_wf [simp]: "bt_wf (latest_signals rows)"
  unfolding latest_signals_def
  using bt.wf_select [where m = "[]" and sel = newer and kf = sg_key and xs = rows]
  by (simp add: newer_def)

lemma latest_signals_get:
  "bt_get (latest_signals rows) key = latest_of None (filter (\<lambda>r. sg_key r = key) rows)"
  unfolding latest_signals_def latest_of_def
  using bt.get_select [where m = "[]" and sel = newer and kf = sg_key and xs = rows and j = key]
  by (simp add: newer_def)

lemma latest_of_snoc:
  "latest_of o' (rows @ [x]) = (case newer (latest_of o' rows) x of None \<Rightarrow> latest_of o' rows | Some v \<Rightarrow> Some v)"
  by (simp add: latest_of_def split: option.split)

lemma latest_of_None: "latest_of None rows = None \<longleftrightarrow> rows = []"
  by (cases rows rule: rev_cases)
     (auto simp: latest_of_snoc newer_def latest_of_def split: option.splits if_splits)

lemma latest_of_last:
  "latest_of None rows = Some s \<Longrightarrow> \<exists>before after. rows = before @ s # after \<and>
     (\<forall>r \<in> set after. sg_observed_at r < sg_observed_at s)"
proof (induction rows arbitrary: s rule: rev_induct)
  case Nil
  then show ?case by (simp add: latest_of_def)
next
  case (snoc x xs)
  show ?case
  proof (cases "s = x \<and> newer (latest_of None xs) x \<noteq> None")
    case True
    then show ?thesis by force
  next
    case False
    with snoc.prems have s: "latest_of None xs = Some s" "sg_observed_at x < sg_observed_at s"
      by (auto simp: latest_of_snoc newer_def split: option.splits if_splits)
    from snoc.IH [OF s(1)] obtain b a where
      "xs = b @ s # a" "\<forall>r \<in> set a. sg_observed_at r < sg_observed_at s" by blast
    with s(2) have "xs @ [x] = b @ s # (a @ [x])"
      "\<forall>r \<in> set (a @ [x]). sg_observed_at r < sg_observed_at s" by auto
    then show ?thesis by blast
  qed
qed

lemma latest_of_max:
  assumes "latest_of None rows = Some s"
  shows "s \<in> set rows \<and> (\<forall>r \<in> set rows. sg_observed_at r \<le> sg_observed_at s)"
  using assms
proof (induction rows arbitrary: s rule: rev_induct)
  case Nil
  then show ?case by (simp add: latest_of_def)
next
  case (snoc x xs)
  show ?case
  proof (cases "latest_of None xs")
    case None
    with snoc.prems show ?thesis by (simp add: latest_of_snoc newer_def latest_of_None)
  next
    case (Some u)
    with snoc.IH [OF Some] snoc.prems show ?thesis
      by (force simp: latest_of_snoc newer_def split: if_splits)
  qed
qed

section \<open>Properties\<close>

text \<open>
  C28 (days_from_civil_counts_days): the hand-written day number is the calendar's: counting
  \<open>n\<close> days forward from 1 January 1970 with the month lengths the code itself uses for
  validation always reaches a valid date whose day number is \<open>n\<close>.
\<close>

theorem days_from_civil_counts_days:
  "(case (next_day ^^ n) (1970, 1, 1) of (y, m, d) \<Rightarrow>
      days_from_civil y m d = int n \<and> 1 \<le> m \<and> m \<le> 12 \<and> 1 \<le> d \<and> d \<le> days_in_month y m)"
  using civil_iterate [of n] by (simp add: civil_def valid_date_def split: prod.splits)

text \<open>
  For every pool the map of latest signals holds the most recent
  observation among the rows of that pool, the later row when two were made in the same
  second, and it holds nothing exactly when the pool has no row.
\<close>

lemma newest_signal_wins:
  "case bt_get (latest_signals rows) key of
     None \<Rightarrow> key \<notin> sg_key ` set rows
   | Some s \<Rightarrow> (\<exists>before after. filter (\<lambda>r. sg_key r = key) rows = before @ s # after \<and>
       list_all (\<lambda>r. sg_observed_at r \<le> sg_observed_at s) before \<and>
       list_all (\<lambda>r. sg_observed_at r < sg_observed_at s) after)"
proof (cases "bt_get (latest_signals rows) key")
  case None
  then have "filter (\<lambda>r. sg_key r = key) rows = []" by (simp add: latest_signals_get latest_of_None)
  with None show ?thesis by (auto simp: filter_empty_conv)
next
  case (Some s)
  then have l: "latest_of None (filter (\<lambda>r. sg_key r = key) rows) = Some s"
    by (simp add: latest_signals_get)
  from latest_of_last [OF l] obtain before after
    where "filter (\<lambda>r. sg_key r = key) rows = before @ s # after"
      "\<forall>r \<in> set after. sg_observed_at r < sg_observed_at s" by blast
  moreover from this latest_of_max [OF l] have "list_all (\<lambda>r. sg_observed_at r \<le> sg_observed_at s) before"
    by (simp add: list_all_iff)
  ultimately show ?thesis unfolding Some by (auto simp: list_all_iff)
qed

end
