(* ===== verification/Ledger.thy ===== *)
theory Ledger
  imports Ratelimit
begin

text \<open>
  The usage ledger of \<^verbatim>\<open>crates/rtrt-providers/src/usage_ledger.rs\<close>: rows and their
  tab-separated form, the rolling 5h / 24h / 7d windows per pool and per target, headroom
  against configured and provider-reported caps, the ranking of pools by room, and the
  best-effort recording path (advisory lock, append, trim). Files are their contents; the
  outcomes of the file system calls are arguments of the recording functions.
\<close>

section \<open>Rows\<close>

definition MAX_LEDGER_ROWS :: nat where "MAX_LEDGER_ROWS = 5000"
definition ESTIMATED_CHARS_PER_TOKEN :: nat where "ESTIMATED_CHARS_PER_TOKEN = 4"
definition LOCK_RETRY_ATTEMPTS :: nat where "LOCK_RETRY_ATTEMPTS = 5"

record ledger_row =
  lr_epoch_ts :: nat
  lr_target :: string
  lr_model :: string
  lr_input_tokens :: nat
  lr_output_tokens :: nat
  lr_estimated :: bool
  lr_ok :: bool

definition total_tokens :: "ledger_row \<Rightarrow> nat" where
  "total_tokens r = sat_add (lr_input_tokens r) (lr_output_tokens r)"

definition row_pool_key :: "ledger_row \<Rightarrow> pool_key" where
  "row_pool_key r = from_target_model (lr_target r) (Some (lr_model r))"

definition bool_str :: "bool \<Rightarrow> string" where
  "bool_str b = (if b then ''1'' else ''0'')"

definition row_to_tsv_line :: "ledger_row \<Rightarrow> string" where
  "row_to_tsv_line r = join [TAB]
     [nat_str (lr_epoch_ts r), lr_target r, lr_model r, nat_str (lr_input_tokens r),
      nat_str (lr_output_tokens r), bool_str (lr_estimated r), bool_str (lr_ok r)]"

definition row_parse :: "string \<Rightarrow> ledger_row option" where
  "row_parse line =
     (let f = split_char TAB line in
      if length f < 7 then None
      else Option.bind (parse_u64 (trim (f ! 0))) (\<lambda>epoch_ts.
           Option.bind (parse_u64 (trim (f ! 3))) (\<lambda>input_tokens.
           Option.bind (parse_u64 (trim (f ! 4))) (\<lambda>output_tokens.
             Some \<lparr>lr_epoch_ts = epoch_ts, lr_target = normalize_target (f ! 1), lr_model = f ! 2,
                   lr_input_tokens = input_tokens, lr_output_tokens = output_tokens,
                   lr_estimated = (trim (f ! 5) \<noteq> ''0''), lr_ok = (trim (f ! 6) \<noteq> ''0'')\<rparr>))))"

definition estimate_tokens :: "string \<Rightarrow> nat" where
  "estimate_tokens text = div_ceil (chars_count text) ESTIMATED_CHARS_PER_TOKEN"

section \<open>Windows\<close>

record window_usage =
  wu_requests :: nat
  wu_tokens :: nat
  wu_estimated_requests :: nat

definition window_default :: window_usage where
  "window_default = \<lparr>wu_requests = 0, wu_tokens = 0, wu_estimated_requests = 0\<rparr>"

definition window_add :: "window_usage \<Rightarrow> ledger_row \<Rightarrow> window_usage" where
  "window_add w r =
     \<lparr>wu_requests = sat_add (wu_requests w) 1,
      wu_tokens = sat_add (wu_tokens w) (total_tokens r),
      wu_estimated_requests = (if lr_estimated r then sat_add (wu_estimated_requests w) 1
                               else wu_estimated_requests w)\<rparr>"

definition window_merge :: "window_usage \<Rightarrow> window_usage \<Rightarrow> window_usage" where
  "window_merge w v =
     \<lparr>wu_requests = sat_add (wu_requests w) (wu_requests v),
      wu_tokens = sat_add (wu_tokens w) (wu_tokens v),
      wu_estimated_requests = sat_add (wu_estimated_requests w) (wu_estimated_requests v)\<rparr>"

definition has_estimates :: "window_usage \<Rightarrow> bool" where
  "has_estimates w \<longleftrightarrow> wu_estimated_requests w > 0"

record target_windows =
  tw_last_5h :: window_usage
  tw_last_24h :: window_usage
  tw_last_7d :: window_usage

definition windows_default :: target_windows where
  "windows_default =
     \<lparr>tw_last_5h = window_default, tw_last_24h = window_default, tw_last_7d = window_default\<rparr>"

definition windows_merge :: "target_windows \<Rightarrow> target_windows \<Rightarrow> target_windows" where
  "windows_merge a b =
     \<lparr>tw_last_5h = window_merge (tw_last_5h a) (tw_last_5h b),
      tw_last_24h = window_merge (tw_last_24h a) (tw_last_24h b),
      tw_last_7d = window_merge (tw_last_7d a) (tw_last_7d b)\<rparr>"

definition windows_add :: "nat \<Rightarrow> ledger_row \<Rightarrow> target_windows \<Rightarrow> target_windows" where
  "windows_add now row e0 =
     (let age = sat_sub now (lr_epoch_ts row);
          e1 = (if age \<le> WINDOW_5H_SECS then e0\<lparr>tw_last_5h := window_add (tw_last_5h e0) row\<rparr> else e0);
          e2 = (if age \<le> WINDOW_24H_SECS then e1\<lparr>tw_last_24h := window_add (tw_last_24h e1) row\<rparr> else e1)
      in if age \<le> WINDOW_7D_SECS then e2\<lparr>tw_last_7d := window_add (tw_last_7d e2) row\<rparr> else e2)"

definition pool_windows_from_rows :: "ledger_row list \<Rightarrow> nat \<Rightarrow> (string, target_windows) btree" where
  "pool_windows_from_rows rows now =
     foldl (\<lambda>out row. bt_entry windows_default (canonical (row_pool_key row)) (windows_add now row) out)
       [] rows"

definition fold_pools_to_targets :: "(string, target_windows) btree \<Rightarrow> (string, target_windows) btree" where
  "fold_pools_to_targets pooled =
     foldl (\<lambda>out (key, w). bt_entry windows_default (pk_target (pool_key_parse key))
              (\<lambda>e. windows_merge e w) out) [] pooled"

definition read_rows :: "string option \<Rightarrow> ledger_row list" where
  "read_rows file =
     (case file of None \<Rightarrow> [] | Some raw \<Rightarrow> List.map_filter row_parse (nonblank_lines raw))"

definition pool_usage_windows :: "string option \<Rightarrow> nat \<Rightarrow> (string, target_windows) btree" where
  "pool_usage_windows file now = pool_windows_from_rows (read_rows file) now"

definition provider_usage_windows :: "string option \<Rightarrow> nat \<Rightarrow> (string, target_windows) btree" where
  "provider_usage_windows file now = fold_pools_to_targets (pool_usage_windows file now)"

section \<open>Target headroom\<close>

record target_headroom_rec =
  th_used_tokens :: nat
  th_limit_tokens :: "nat option"
  th_remaining_tokens :: "nat option"
  th_used_requests :: nat
  th_request_limit :: "nat option"
  th_remaining_requests :: "nat option"
  th_tokens_estimated :: bool

definition th_limits_unknown :: "target_headroom_rec \<Rightarrow> bool" where
  "th_limits_unknown h \<longleftrightarrow> th_limit_tokens h = None \<and> th_request_limit h = None"

definition headroom_for ::
  "string \<Rightarrow> (string, target_windows) btree \<Rightarrow> limits_config \<Rightarrow> target_headroom_rec" where
  "headroom_for target windows config =
     (let window = tw_last_24h (bt_get_or windows_default windows target);
          limit = limits_target config target;
          limit_tokens = Option.bind limit tl_daily_tokens;
          request_limit = Option.bind limit tl_daily_requests
      in \<lparr>th_used_tokens = wu_tokens window, th_limit_tokens = limit_tokens,
          th_remaining_tokens = map_option (\<lambda>l. sat_sub l (wu_tokens window)) limit_tokens,
          th_used_requests = wu_requests window, th_request_limit = request_limit,
          th_remaining_requests = map_option (\<lambda>l. sat_sub l (wu_requests window)) request_limit,
          th_tokens_estimated = has_estimates window\<rparr>)"

definition headroom_for_target :: "string \<Rightarrow> limits_config \<Rightarrow> string option \<Rightarrow> nat \<Rightarrow> target_headroom_rec" where
  "headroom_for_target target config file now =
     headroom_for (normalize_target target) (provider_usage_windows file now) config"

definition target_headroom ::
  "limits_config \<Rightarrow> string option \<Rightarrow> nat \<Rightarrow> (string, target_headroom_rec) btree" where
  "target_headroom config file now =
     (let windows = provider_usage_windows file now;
          targets = remdups_adj (sort (bt_keys windows @ map normalize_target (bt_keys config)))
      in foldl (\<lambda>out t. bt_insert t (headroom_for t windows config) out) [] targets)"

section \<open>Caps\<close>

datatype cap_scope = Reported | Pool | Shared | Unknown_cap

definition is_capped :: "cap_scope \<Rightarrow> bool" where "is_capped s \<longleftrightarrow> s \<noteq> Unknown_cap"
definition is_shared :: "cap_scope \<Rightarrow> bool" where "is_shared s \<longleftrightarrow> s = Shared"
definition is_reported :: "cap_scope \<Rightarrow> bool" where "is_reported s \<longleftrightarrow> s = Reported"

text \<open>The em dash of the labels, in UTF-8.\<close>

definition EM_DASH :: string where
  "EM_DASH = [CHR 0xE2, CHR 0x80, CHR 0x94]"

fun cap_scope_label :: "cap_scope \<Rightarrow> string" where
  "cap_scope_label Reported =
     ''provider-reported (remaining quota from the provider's own rate-limit headers)''"
| "cap_scope_label Pool =
     ''configured (this pool's own [limits] cap '' @ EM_DASH @ '' a set belief, not a measurement)''"
| "cap_scope_label Shared =
     ''configured (the target's [limits] cap, shared with every sibling pool)''"
| "cap_scope_label Unknown_cap =
     ''unknown (nothing reported by the provider, nothing configured)''"

record pool_cap =
  pc_scope :: cap_scope
  pc_limit :: "nat option"
  pc_used :: nat
  pc_remaining :: "nat option"

definition cap_unknown :: "nat \<Rightarrow> pool_cap" where
  "cap_unknown used = \<lparr>pc_scope = Unknown_cap, pc_limit = None, pc_used = used, pc_remaining = None\<rparr>"

definition cap_capped :: "cap_scope \<Rightarrow> nat option \<Rightarrow> nat \<Rightarrow> pool_cap" where
  "cap_capped scope limit used =
     (case limit of
        Some l \<Rightarrow> \<lparr>pc_scope = scope, pc_limit = Some l, pc_used = used, pc_remaining = Some (sat_sub l used)\<rparr>
      | None \<Rightarrow> cap_unknown used)"

definition cap_reported :: "nat option \<Rightarrow> nat \<Rightarrow> nat \<Rightarrow> pool_cap" where
  "cap_reported limit remaining observed_used =
     \<lparr>pc_scope = Reported, pc_limit = limit,
      pc_used = (case limit of None \<Rightarrow> observed_used | Some l \<Rightarrow> sat_sub l remaining),
      pc_remaining = Some remaining\<rparr>"

definition remaining_fraction :: "pool_cap \<Rightarrow> rat option" where
  "remaining_fraction c =
     (case pc_limit c of None \<Rightarrow> None
      | Some limit \<Rightarrow>
          (let remaining = (case pc_remaining c of None \<Rightarrow> 0 | Some r \<Rightarrow> r)
           in if limit = 0 then Some 0 else Some (f64_ratio remaining limit)))"

definition axis_cap :: "nat option \<Rightarrow> nat option \<Rightarrow> nat \<Rightarrow> nat \<Rightarrow> pool_cap" where
  "axis_cap pool_limit target_limit pool_used target_used =
     (case (pool_limit, target_limit) of
        (Some limit, _) \<Rightarrow> cap_capped Pool (Some limit) pool_used
      | (None, Some limit) \<Rightarrow> cap_capped Shared (Some limit) target_used
      | (None, None) \<Rightarrow> cap_unknown pool_used)"

definition axis_cap_with_reported ::
  "rate_limit_axis \<Rightarrow> nat option \<Rightarrow> nat option \<Rightarrow> nat \<Rightarrow> nat \<Rightarrow> pool_cap" where
  "axis_cap_with_reported reported pool_limit target_limit pool_used target_used =
     (case ax_remaining reported of
        Some remaining \<Rightarrow> cap_reported (ax_limit reported) remaining pool_used
      | None \<Rightarrow> axis_cap pool_limit target_limit pool_used target_used)"

section \<open>Pool headroom\<close>

record pool_headroom_rec =
  ph_key :: string
  ph_target :: string
  ph_pool :: "string option"
  ph_used_tokens :: nat
  ph_used_requests :: nat
  ph_tokens_estimated :: bool
  ph_tokens :: pool_cap
  ph_requests :: pool_cap
  ph_sibling_pools :: nat

definition ph_limits_unknown :: "pool_headroom_rec \<Rightarrow> bool" where
  "ph_limits_unknown h \<longleftrightarrow> \<not> is_capped (pc_scope (ph_tokens h)) \<and> \<not> is_capped (pc_scope (ph_requests h))"

definition shares_a_cap :: "pool_headroom_rec \<Rightarrow> bool" where
  "shares_a_cap h \<longleftrightarrow> is_shared (pc_scope (ph_tokens h)) \<or> is_shared (pc_scope (ph_requests h))"

definition room_fraction :: "pool_headroom_rec \<Rightarrow> rat option" where
  "room_fraction h =
     (case (remaining_fraction (ph_tokens h), remaining_fraction (ph_requests h)) of
        (Some tokens, Some requests) \<Rightarrow> Some (min tokens requests)
      | (Some only, None) \<Rightarrow> Some only
      | (None, Some only) \<Rightarrow> Some only
      | (None, None) \<Rightarrow> None)"

definition room_scope :: "pool_headroom_rec \<Rightarrow> cap_scope option" where
  "room_scope h =
     (case (remaining_fraction (ph_tokens h), remaining_fraction (ph_requests h)) of
        (Some tokens, Some requests) \<Rightarrow>
          Some (if tokens \<le> requests then pc_scope (ph_tokens h) else pc_scope (ph_requests h))
      | (Some _, None) \<Rightarrow> Some (pc_scope (ph_tokens h))
      | (None, Some _) \<Rightarrow> Some (pc_scope (ph_requests h))
      | (None, None) \<Rightarrow> None)"

definition has_reported_quota :: "pool_headroom_rec \<Rightarrow> bool" where
  "has_reported_quota h \<longleftrightarrow> is_reported (pc_scope (ph_tokens h)) \<or> is_reported (pc_scope (ph_requests h))"

definition headroom_pool_key :: "pool_headroom_rec \<Rightarrow> pool_key" where
  "headroom_pool_key h = pool_key_new (ph_target h) (ph_pool h)"

definition sibling_pool_count :: "string \<Rightarrow> (string, target_windows) btree \<Rightarrow> nat" where
  "sibling_pool_count target pooled =
     length (filter (\<lambda>key. pk_target (pool_key_parse key) = target) (bt_keys pooled))"

definition headroom_for_pool_in ::
  "pool_key \<Rightarrow> (string, target_windows) btree \<Rightarrow> (string, target_windows) btree \<Rightarrow> limits_config \<Rightarrow>
   (string, signal_rec) btree \<Rightarrow> nat \<Rightarrow> pool_headroom_rec" where
  "headroom_for_pool_in key pooled targets config signals now =
     (let window = tw_last_24h (bt_get_or windows_default pooled (canonical key));
          target_window = tw_last_24h (bt_get_or windows_default targets (target_key key));
          target_limit = limits_target config (target_key key);
          pool_limit = option_filter pool_limit_is_set
            (Option.bind (pk_pool key) (\<lambda>pool.
               Option.bind target_limit (\<lambda>limit. target_limit_pool limit pool)));
          reported = (case Option.bind (bt_get signals (canonical key)) (\<lambda>signal. current_at signal now) of
                        None \<Rightarrow> signal_default | Some s \<Rightarrow> s);
          tokens = axis_cap_with_reported (sg_tokens reported)
            (Option.bind pool_limit pl_daily_tokens) (Option.bind target_limit tl_daily_tokens)
            (wu_tokens window) (wu_tokens target_window);
          requests = axis_cap_with_reported (sg_requests reported)
            (Option.bind pool_limit pl_daily_requests) (Option.bind target_limit tl_daily_requests)
            (wu_requests window) (wu_requests target_window)
      in \<lparr>ph_key = canonical key, ph_target = pk_target key, ph_pool = pk_pool key,
          ph_used_tokens = wu_tokens window, ph_used_requests = wu_requests window,
          ph_tokens_estimated = has_estimates window, ph_tokens = tokens, ph_requests = requests,
          ph_sibling_pools = sibling_pool_count (target_key key) pooled\<rparr>)"

definition limit_pool_keys :: "limits_config \<Rightarrow> pool_key list" where
  "limit_pool_keys config =
     concat (map (\<lambda>(target, limit).
       map (\<lambda>(pool, _). pool_key_new target (Some pool))
         (filter (\<lambda>(_, cap). pool_limit_is_set cap) (tl_pools limit))) config)"

definition pool_headroom_from_parts ::
  "(string, target_windows) btree \<Rightarrow> limits_config \<Rightarrow> (string, signal_rec) btree \<Rightarrow> nat \<Rightarrow>
   (string, pool_headroom_rec) btree" where
  "pool_headroom_from_parts pooled config signals now =
     (let targets = fold_pools_to_targets pooled;
          keys = map pool_key_parse (bt_keys pooled) @ limit_pool_keys config
                 @ map pool_key_parse (bt_keys signals);
          sorted_keys = remdups_adj (sort_by pool_key_cmp keys)
      in bt_of_list (map (\<lambda>key. (canonical key,
           headroom_for_pool_in key pooled targets config signals now)) sorted_keys))"

text \<open>
  The entry points read the ledger, the signal file and the clock once; here they are
  arguments.
\<close>

definition pool_headroom ::
  "limits_config \<Rightarrow> string option \<Rightarrow> string option \<Rightarrow> nat \<Rightarrow> (string, pool_headroom_rec) btree" where
  "pool_headroom config ledger signals now =
     pool_headroom_from_parts (pool_usage_windows ledger now) config (rate_limit_signals signals) now"

definition headroom_for_pool ::
  "pool_key \<Rightarrow> limits_config \<Rightarrow> string option \<Rightarrow> string option \<Rightarrow> nat \<Rightarrow> pool_headroom_rec" where
  "headroom_for_pool key config ledger signals now =
     (let pooled = pool_usage_windows ledger now
      in headroom_for_pool_in key pooled (fold_pools_to_targets pooled) config
           (rate_limit_signals signals) now)"

section \<open>Ranking\<close>

datatype room_basis = Quota | ObservedUsage

fun room_basis_label :: "room_basis \<Rightarrow> string" where
  "room_basis_label Quota = ''quota-derived (remaining fraction of a configured cap)''"
| "room_basis_label ObservedUsage = ''usage-derived (observed 24h usage, not a quota measurement)''"

record room_comparison =
  rc_order :: ordering
  rc_basis :: room_basis

definition compare_room :: "pool_headroom_rec \<Rightarrow> pool_headroom_rec \<Rightarrow> room_comparison" where
  "compare_room left right =
     (case (room_fraction left, room_fraction right) of
        (Some l, Some r) \<Rightarrow> \<lparr>rc_order = cmp l r, rc_basis = Quota\<rparr>
      | _ \<Rightarrow> \<lparr>rc_order = cmp (ph_used_tokens right) (ph_used_tokens left), rc_basis = ObservedUsage\<rparr>)"

record pool_ranking =
  pr_basis :: room_basis
  pr_ranked :: "pool_headroom_rec list"

definition unwrap_or :: "'a \<Rightarrow> 'a option \<Rightarrow> 'a" where
  "unwrap_or d x = (case x of None \<Rightarrow> d | Some v \<Rightarrow> v)"

definition rank_cmp :: "room_basis \<Rightarrow> pool_headroom_rec \<Rightarrow> pool_headroom_rec \<Rightarrow> ordering" where
  "rank_cmp basis left right =
     (case basis of
        Quota \<Rightarrow> then_with
          (cmp (unwrap_or 0 (room_fraction right)) (unwrap_or 0 (room_fraction left)))
          (cmp (ph_key left) (ph_key right))
      | ObservedUsage \<Rightarrow> then_with (cmp (ph_used_tokens left) (ph_used_tokens right))
          (then_with (cmp (ph_used_requests left) (ph_used_requests right))
             (cmp (ph_key left) (ph_key right))))"

definition ranking_basis :: "pool_headroom_rec list \<Rightarrow> room_basis" where
  "ranking_basis pools =
     (if pools \<noteq> [] \<and> list_all (\<lambda>p. room_fraction p \<noteq> None) pools then Quota else ObservedUsage)"

definition rank_pools_by_room :: "pool_headroom_rec list \<Rightarrow> pool_ranking" where
  "rank_pools_by_room pools =
     (let basis = ranking_basis pools
      in \<lparr>pr_basis = basis, pr_ranked = sort_by (rank_cmp basis) pools\<rparr>)"

definition ranking_best :: "pool_ranking \<Rightarrow> pool_headroom_rec option" where
  "ranking_best r = (case pr_ranked r of [] \<Rightarrow> None | h # _ \<Rightarrow> Some h)"

definition ranking_cap_scope :: "pool_ranking \<Rightarrow> cap_scope option" where
  "ranking_cap_scope r =
     (case map room_scope (pr_ranked r) of
        [] \<Rightarrow> None
      | None # _ \<Rightarrow> None
      | Some first # rest \<Rightarrow> if list_all (\<lambda>s. s = Some first) rest then Some first else None)"

definition basis_label :: "pool_ranking \<Rightarrow> string" where
  "basis_label r =
     (case ranking_cap_scope r of
        Some scope \<Rightarrow> if is_capped scope
          then room_basis_label (pr_basis r) @ '' '' @ EM_DASH @ '' '' @ cap_scope_label scope
          else room_basis_label (pr_basis r)
      | None \<Rightarrow> room_basis_label (pr_basis r))"

definition rank_target_pools ::
  "string \<Rightarrow> limits_config \<Rightarrow> string option \<Rightarrow> string option \<Rightarrow> nat \<Rightarrow> pool_ranking" where
  "rank_target_pools target config ledger signals now =
     (let t = normalize_target target
      in rank_pools_by_room (filter (\<lambda>h. ph_target h = t) (map snd (pool_headroom config ledger signals now))))"

section \<open>Recording\<close>

datatype open_result = Created | AlreadyExists bool | OpenFailed

text \<open>
  \<open>try_acquire\<close> sees, at each attempt, what the exclusive create of the lock file
  returned; \<open>AlreadyExists stale\<close> carries whether the existing lock was stale (it is
  then removed and the create retried at once).
\<close>

fun try_acquire_from :: "(nat \<Rightarrow> open_result) \<Rightarrow> nat \<Rightarrow> nat \<Rightarrow> bool" where
  "try_acquire_from outcome attempt 0 = False"
| "try_acquire_from outcome attempt (Suc left) =
     (case outcome attempt of
        Created \<Rightarrow> True
      | AlreadyExists stale \<Rightarrow> try_acquire_from outcome (Suc attempt) left
      | OpenFailed \<Rightarrow> False)"

definition try_acquire :: "(nat \<Rightarrow> open_result) \<Rightarrow> bool" where
  "try_acquire outcome = try_acquire_from outcome 0 LOCK_RETRY_ATTEMPTS"

definition lock_is_stale :: "nat option \<Rightarrow> nat \<Rightarrow> bool" where
  "lock_is_stale age stale_secs = (case age of None \<Rightarrow> False | Some a \<Rightarrow> a \<ge> stale_secs)"


text \<open>
  What happens to one write of a file: all of it, nothing because a directory or the file could
  not be opened (or, for the trim, read), or the first bytes before the device failed. A rewrite
  empties the file when it opens it.
\<close>

datatype write_fate = Written | Unopened | Cut nat

definition append_line :: "write_fate \<Rightarrow> string option \<Rightarrow> string \<Rightarrow> bool \<times> string option" where
  "append_line fate file line =
     (let old = (case file of None \<Rightarrow> [] | Some raw \<Rightarrow> raw) in
      case fate of
        Written \<Rightarrow> (True, Some (old @ line @ [NL]))
      | Unopened \<Rightarrow> (False, file)
      | Cut n \<Rightarrow> (False, Some (old @ take n (line @ [NL]))))"

definition trim_to_cap :: "write_fate \<Rightarrow> string \<Rightarrow> nat \<Rightarrow> string" where
  "trim_to_cap fate raw cap =
     (let ls = nonblank_lines raw in
      if length ls \<le> cap then raw
      else let kept = join [NL] (drop (length ls - cap) ls) @ [NL] in
           case fate of Written \<Rightarrow> kept | Unopened \<Rightarrow> raw | Cut n \<Rightarrow> take n kept)"

record io_env =
  io_now :: nat
  io_lock :: "nat \<Rightarrow> open_result"
  io_append :: write_fate
  io_trim :: write_fate

definition append_and_trim :: "io_env \<Rightarrow> string option \<Rightarrow> string \<Rightarrow> bool \<times> string option" where
  "append_and_trim env file line =
     (let locked = try_acquire (io_lock env) in
      case append_line (io_append env) file line of
        (False, file') \<Rightarrow> (False, file')
      | (True, file') \<Rightarrow>
          (True, if locked then map_option (\<lambda>raw. trim_to_cap (io_trim env) raw MAX_LEDGER_ROWS) file' else file'))"

definition record_invocation ::
  "io_env \<Rightarrow> string option \<Rightarrow> string \<Rightarrow> string \<Rightarrow> nat \<Rightarrow> nat \<Rightarrow> bool \<Rightarrow> bool \<Rightarrow>
   ledger_row option \<times> string option" where
  "record_invocation env file target model input_tokens output_tokens est ok =
     (let row = \<lparr>lr_epoch_ts = io_now env, lr_target = normalize_target target, lr_model = model,
                 lr_input_tokens = input_tokens, lr_output_tokens = output_tokens,
                 lr_estimated = est, lr_ok = ok\<rparr>
      in case append_and_trim env file (row_to_tsv_line row) of
           (False, file') \<Rightarrow> (None, file')
         | (True, file') \<Rightarrow> (Some row, file'))"

definition record_rate_limit_at :: "io_env \<Rightarrow> string option \<Rightarrow> signal_rec \<Rightarrow> bool \<times> string option" where
  "record_rate_limit_at env file signal =
     (if signal_is_empty signal then (False, file)
      else append_and_trim env file (signal_to_tsv_line signal))"

definition record_response_rate_limit ::
  "io_env \<Rightarrow> string option \<Rightarrow> pool_key \<Rightarrow> nat \<Rightarrow> header_map \<Rightarrow>
   signal_rec option \<times> string option" where
  "record_response_rate_limit env file key status hdr =
     (case rate_limit_signal key status (io_now env) hdr of
        None \<Rightarrow> (None, file)
      | Some signal \<Rightarrow>
          (case record_rate_limit_at env file signal of
             (True, file') \<Rightarrow> (Some signal, file')
           | (False, file') \<Rightarrow> (None, file')))"

section \<open>Row lemmas\<close>

text \<open>
  The rows the program can write back and read unchanged: machine-sized numbers, a
  normalised target, and neither a tab nor a line feed inside the two text columns.
\<close>

definition row_wf :: "ledger_row \<Rightarrow> bool" where
  "row_wf r \<longleftrightarrow> lr_epoch_ts r \<le> u64_max \<and> lr_input_tokens r \<le> u64_max \<and>
     lr_output_tokens r \<le> u64_max \<and> normalize_target (lr_target r) = lr_target r \<and>
     TAB \<notin> set (lr_target r) \<and> TAB \<notin> set (lr_model r) \<and>
     NL \<notin> set (lr_target r) \<and> NL \<notin> set (lr_model r)"

lemma trim_bool_str [simp]: "trim (bool_str b) = bool_str b"
  by (simp add: bool_str_def trim_visible visible_def)

lemma row_roundtrip_lemma:
  assumes "row_wf r"
  shows "row_parse (row_to_tsv_line r) = Some r"
proof -
  have "split_char TAB (row_to_tsv_line r) =
    [nat_str (lr_epoch_ts r), lr_target r, lr_model r, nat_str (lr_input_tokens r),
      nat_str (lr_output_tokens r), bool_str (lr_estimated r), bool_str (lr_ok r)]"
    unfolding row_to_tsv_line_def
    by (rule split_char_join) (use assms in \<open>auto simp: row_wf_def nat_str_notin bool_str_def\<close>)
  then show ?thesis using assms by (simp add: row_parse_def row_wf_def) (simp add: bool_str_def)
qed

lemma row_line_ends:
  "row_to_tsv_line r \<noteq> []" "visible (hd (row_to_tsv_line r))" "visible (last (row_to_tsv_line r))"
proof -
  show "row_to_tsv_line r \<noteq> []" by (simp add: row_to_tsv_line_def)
  have "hd (row_to_tsv_line r) = hd (nat_str (lr_epoch_ts r))"
    by (simp add: row_to_tsv_line_def hd_append)
  then show "visible (hd (row_to_tsv_line r))"
    using nat_str_visible [of "lr_epoch_ts r"] by (simp add: list_all_iff)
  have "last (row_to_tsv_line r) = last (bool_str (lr_ok r))"
    by (simp add: row_to_tsv_line_def bool_str_def)
  then show "visible (last (row_to_tsv_line r))" by (simp add: bool_str_def visible_def)
qed

lemma row_line_trim: "trim (row_to_tsv_line r) \<noteq> []"
  using row_line_ends [of r] by (metis trim_trimmed trimmed_visible)

lemma row_line_text: "row_wf r \<Longrightarrow> line_text (row_to_tsv_line r)"
proof -
  assume "row_wf r"
  then have "NL \<notin> set (row_to_tsv_line r)"
    by (auto simp: row_to_tsv_line_def row_wf_def nat_str_notin bool_str_def)
  with row_line_ends(3) [of r] show ?thesis
    by (auto simp: line_text_def dest: last_visible_line_text)
qed

section \<open>Append-only logs\<close>

text \<open>
  What the recording path relies on of a row format: a printed row is one non-blank line
  that reads back. The lemmas hold of any such format; the ledger rows and the rate-limit
  signals are its two instances.
\<close>

definition last_rows :: "nat \<Rightarrow> 'a list \<Rightarrow> 'a list" where
  "last_rows n xs = drop (length xs - n) xs"

definition log_file :: "('r \<Rightarrow> string) \<Rightarrow> 'r list \<Rightarrow> string" where
  "log_file to_line rows = unlines (map to_line rows)"

lemma length_last_rows: "length (last_rows n xs) \<le> n"
  by (simp add: last_rows_def)

lemma last_rows_snoc: "0 < n \<Longrightarrow> \<exists>ys. last_rows n (xs @ [x]) = ys @ [x]"
  by (cases "length xs - n") (auto simp: last_rows_def Suc_diff_le intro: exI)

lemma set_last_rows: "set (last_rows n xs) \<subseteq> set xs"
  by (simp add: last_rows_def set_drop_subset)

lemma map_filter_all_Some: "(\<And>x. x \<in> set xs \<Longrightarrow> f (g x) = Some x) \<Longrightarrow> List.map_filter f (map g xs) = xs"
  by (induction xs) (auto simp: List.map_filter_simps)

lemma last_rows_all: "length xs \<le> n \<Longrightarrow> last_rows n xs = xs"
  by (simp add: last_rows_def)

lemma map_filter_append: "List.map_filter f (xs @ ys) = List.map_filter f xs @ List.map_filter f ys"
  by (simp add: List.map_filter_def)

lemma lines_one: "CHR 0x0A \<notin> set s \<Longrightarrow> length (lines s) \<le> 1"
  by (simp add: lines_def split_char_notin Let_def)

text \<open>The first bytes of some lines: whole lines and a part of one.\<close>

lemma take_unlines:
  "\<forall>w \<in> set ws. CHR 0x0A \<notin> set w \<Longrightarrow> \<exists>k s. take n (unlines ws) = unlines (take k ws) @ s \<and> length (lines s) \<le> 1"
proof (induction ws arbitrary: n)
  case Nil
  show ?case using lines_one [of "[]"] by simp
next
  case (Cons w ws)
  show ?case
  proof (cases "n \<le> length w")
    case True
    have "CHR 0x0A \<notin> set (take n w)" using Cons.prems by (auto dest: in_set_takeD)
    then show ?thesis using True lines_one by (intro exI [of _ 0] exI [of _ "take n w"]) simp
  next
    case False
    then obtain m where m: "n = Suc (length w + m)" by (metis less_imp_Suc_add not_le)
    obtain k s where k: "take m (unlines ws) = unlines (take k ws) @ s" "length (lines s) \<le> 1"
      using Cons.IH [of m] Cons.prems by auto
    show ?thesis by (intro exI [of _ "Suc k"] exI [of _ s]) (use k in \<open>simp add: m\<close>)
  qed
qed

text \<open>Does a recording rewrite a file that then has \<open>n\<close> rows, and do rewrites not break off?\<close>

definition trims_file :: "io_env \<Rightarrow> nat \<Rightarrow> bool" where
  "trims_file env n \<longleftrightarrow> try_acquire (io_lock env) \<and> MAX_LEDGER_ROWS < n"

definition trim_whole :: "io_env \<Rightarrow> bool" where
  "trim_whole env \<longleftrightarrow> (case io_trim env of Cut n \<Rightarrow> \<not> try_acquire (io_lock env) | _ \<Rightarrow> True)"

text \<open>The rows a recording leaves when its rewrite does not break off.\<close>

definition kept_rows :: "io_env \<Rightarrow> 'r list \<Rightarrow> 'r \<Rightarrow> 'r list" where
  "kept_rows env rows row =
     (if try_acquire (io_lock env) \<and> io_trim env = Written then last_rows MAX_LEDGER_ROWS (rows @ [row]) else rows @ [row])"

locale tsv_log =
  fixes to_line :: "'r \<Rightarrow> string"
    and of_line :: "string \<Rightarrow> 'r option"
    and row_ok :: "'r \<Rightarrow> bool"
  assumes read_back: "row_ok r \<Longrightarrow> of_line (to_line r) = Some r"
    and one_line: "row_ok r \<Longrightarrow> line_text (to_line r)"
    and not_blank: "trim (to_line r) \<noteq> []"
begin

lemma nonblank_log_file:
  "list_all row_ok rows \<Longrightarrow> nonblank_lines (log_file to_line rows) = map to_line rows"
  unfolding nonblank_lines_def log_file_def
  by (subst lines_unlines) (auto simp: list_all_iff one_line not_blank filter_map o_def)

lemma read_log_file:
  "list_all row_ok rows \<Longrightarrow> List.map_filter of_line (nonblank_lines (log_file to_line rows)) = rows"
  by (simp add: nonblank_log_file) (rule map_filter_all_Some, simp add: list_all_iff read_back)

text \<open>What a rewrite to the newest \<open>cap\<close> rows leaves, by its fate.\<close>

lemma trim_log_file:
  assumes "list_all row_ok rows" "0 < cap"
  shows "trim_to_cap fate (log_file to_line rows) cap =
    (if length rows \<le> cap then log_file to_line rows
     else case fate of Written \<Rightarrow> log_file to_line (last_rows cap rows) | Unopened \<Rightarrow> log_file to_line rows
       | Cut n \<Rightarrow> take n (log_file to_line (last_rows cap rows)))"
proof (cases "length rows \<le> cap")
  case True
  with assms show ?thesis by (simp add: trim_to_cap_def nonblank_log_file)
next
  case False
  then have ne: "map to_line (drop (length rows - cap) rows) \<noteq> []" using assms(2) by simp
  have "join [NL] (drop (length rows - cap) (map to_line rows)) @ [NL] = log_file to_line (last_rows cap rows)"
    using unlines_join [OF ne] by (simp add: log_file_def last_rows_def drop_map)
  with False assms(1) show ?thesis by (simp add: trim_to_cap_def nonblank_log_file Let_def)
qed

lemma append_log_file:
  "append_line Written (Some (log_file to_line rows)) (to_line r) = (True, Some (log_file to_line (rows @ [r])))"
  by (simp add: append_line_def log_file_def)

text \<open>
  Recording one row: appended, and with the lock held cut to the newest rows when the rewrite
  worked; a rewrite that broke off leaves the first bytes of what it meant to write.
\<close>

lemma append_and_trim_log:
  assumes "list_all row_ok rows" "row_ok r" "io_append env = Written"
  shows "append_and_trim env (Some (log_file to_line rows)) (to_line r) =
    (True, Some (if trims_file env (Suc (length rows))
       then case io_trim env of Written \<Rightarrow> log_file to_line (last_rows MAX_LEDGER_ROWS (rows @ [r]))
         | Unopened \<Rightarrow> log_file to_line (rows @ [r])
         | Cut n \<Rightarrow> take n (log_file to_line (last_rows MAX_LEDGER_ROWS (rows @ [r])))
       else log_file to_line (rows @ [r])))"
proof -
  have "list_all row_ok (rows @ [r])" using assms by simp
  from trim_log_file [OF this, of MAX_LEDGER_ROWS "io_trim env"] show ?thesis using assms(3)
    by (simp add: append_and_trim_def append_log_file MAX_LEDGER_ROWS_def trims_file_def)
qed

lemma append_and_trim_kept:
  assumes "list_all row_ok rows" "row_ok r" "io_append env = Written" "trim_whole env"
  shows "append_and_trim env (Some (log_file to_line rows)) (to_line r) =
    (True, Some (log_file to_line (kept_rows env rows r)))"
  using append_and_trim_log [OF assms(1-3)] assms(4)
  by (simp add: kept_rows_def trims_file_def trim_whole_def last_rows_all split: write_fate.splits)

text \<open>What is left of a broken rewrite reads as the first rows it meant to write and at most one damaged row.\<close>

lemma read_cut_log:
  assumes "list_all row_ok rows"
  shows "\<exists>k bad. List.map_filter of_line (nonblank_lines (take n (log_file to_line rows))) = take k rows @ bad \<and> length bad \<le> 1"
proof -
  obtain k s where s: "take n (unlines (map to_line rows)) = unlines (take k (map to_line rows)) @ s" "length (lines s) \<le> 1"
    using take_unlines [of "map to_line rows" n] one_line assms by (auto simp: list_all_iff line_text_def)
  have ok: "list_all row_ok (take k rows)" using assms by (auto simp: list_all_iff dest: in_set_takeD)
  then have "nonblank_lines (unlines (take k (map to_line rows)) @ s) = map to_line (take k rows) @ nonblank_lines s"
    unfolding nonblank_lines_def
    by (subst lines_unlines_append) (auto simp: list_all_iff one_line not_blank filter_id_conv take_map)
  moreover have "List.map_filter of_line (map to_line (take k rows)) = take k rows"
    by (rule map_filter_all_Some) (use ok in \<open>simp add: list_all_iff read_back\<close>)
  moreover have "length (List.map_filter of_line (nonblank_lines s)) \<le> 1"
    unfolding List.map_filter_def nonblank_lines_def using s(2) by (auto intro!: le_trans [OF length_filter_le])
  ultimately show ?thesis
    by (intro exI [of _ k] exI [of _ "List.map_filter of_line (nonblank_lines s)"]) (simp add: log_file_def s(1) map_filter_append)
qed

lemma row_ok_kept: "list_all row_ok rows \<Longrightarrow> row_ok r \<Longrightarrow> list_all row_ok (kept_rows env rows r)"
  using set_last_rows [of MAX_LEDGER_ROWS "rows @ [r]"] by (auto simp: kept_rows_def list_all_iff)

end

interpretation ledger_log: tsv_log row_to_tsv_line row_parse row_wf
  by unfold_locales (simp_all add: row_roundtrip_lemma row_line_text row_line_trim)

lemma signal_line_trim: "trim (signal_to_tsv_line s) \<noteq> []"
  using signal_line_ends [of s] by (metis trim_trimmed trimmed_visible)

interpretation signal_log: tsv_log signal_to_tsv_line signal_parse signal_wf
  by unfold_locales (simp_all add: signal_roundtrip_lemma signal_line_text signal_line_trim)

abbreviation ledger_file :: "ledger_row list \<Rightarrow> string" where
  "ledger_file \<equiv> log_file row_to_tsv_line"

abbreviation signal_file :: "signal_rec list \<Rightarrow> string" where
  "signal_file \<equiv> log_file signal_to_tsv_line"

lemma read_ledger_file: "list_all row_wf rows \<Longrightarrow> read_rows (Some (ledger_file rows)) = rows"
  by (simp add: read_rows_def ledger_log.read_log_file)

lemma read_signal_file: "list_all signal_wf rows \<Longrightarrow> read_signals (Some (signal_file rows)) = rows"
  by (simp add: read_signals_def signal_log.read_log_file)

section \<open>The lock\<close>

lemma try_acquire_from_iff:
  "try_acquire_from outcome a n \<longleftrightarrow>
     (\<exists>i < n. outcome (a + i) = Created \<and> (\<forall>j < i. \<exists>stale. outcome (a + j) = AlreadyExists stale))"
proof (induction n arbitrary: a)
  case 0
  then show ?case by simp
next
  case (Suc n)
  show ?case
  proof (cases "outcome a")
    case Created
    then show ?thesis by (auto intro: exI [of _ 0])
  next
    case (AlreadyExists stale)
    have "(\<exists>i < Suc n. outcome (a + i) = Created \<and> (\<forall>j < i. \<exists>s. outcome (a + j) = AlreadyExists s)) \<longleftrightarrow>
      (\<exists>i < n. outcome (Suc a + i) = Created \<and> (\<forall>j < i. \<exists>s. outcome (Suc a + j) = AlreadyExists s))"
      (is "?L = ?R")
    proof
      assume ?L
      then obtain i where i: "i < Suc n" "outcome (a + i) = Created"
        "\<And>j. j < i \<Longrightarrow> \<exists>s. outcome (a + j) = AlreadyExists s" by blast
      from i(2) AlreadyExists obtain k where k: "i = Suc k" by (cases i) auto
      then have "\<exists>s. outcome (Suc a + j) = AlreadyExists s" if "j < k" for j
        using i(3) [of "Suc j"] that by simp
      with i k show ?R by auto
    next
      assume ?R
      then obtain i where i: "i < n" "outcome (Suc a + i) = Created"
        "\<And>j. j < i \<Longrightarrow> \<exists>s. outcome (Suc a + j) = AlreadyExists s" by blast
      have "\<exists>s. outcome (a + j) = AlreadyExists s" if "j < Suc i" for j
        using that i(3) AlreadyExists by (cases j) auto
      with i show ?L by (intro exI [of _ "Suc i"]) simp
    qed
    with AlreadyExists Suc show ?thesis by simp
  next
    case OpenFailed
    have "\<not> (\<exists>i < Suc n. outcome (a + i) = Created \<and> (\<forall>j < i. \<exists>s. outcome (a + j) = AlreadyExists s))"
    proof
      assume "\<exists>i < Suc n. outcome (a + i) = Created \<and> (\<forall>j < i. \<exists>s. outcome (a + j) = AlreadyExists s)"
      then obtain i where "outcome (a + i) = Created" "\<forall>j < i. \<exists>s. outcome (a + j) = AlreadyExists s"
        by blast
      with OpenFailed show False by (cases i) auto
    qed
    with OpenFailed show ?thesis by simp
  qed
qed

section \<open>Window lemmas\<close>

text \<open>What a window holds of a list of rows: saturated totals, whatever the order.\<close>

definition window_of :: "ledger_row list \<Rightarrow> window_usage" where
  "window_of rows =
     \<lparr>wu_requests = min (length rows) u64_max,
      wu_tokens = min (sum_list (map total_tokens rows)) u64_max,
      wu_estimated_requests = min (length (filter lr_estimated rows)) u64_max\<rparr>"

lemma window_of_snoc: "window_add (window_of rows) r = window_of (rows @ [r])"
  by (simp add: window_of_def window_add_def sat_add_def min_def)

lemma window_of_Nil: "window_of [] = window_default"
  by (simp add: window_of_def window_default_def)

lemma window_fold: "foldl window_add (window_of xs) rows = window_of (xs @ rows)"
  by (induction rows arbitrary: xs) (simp_all add: window_of_snoc)

lemma window_merge_of: "window_merge (window_of xs) (window_of ys) = window_of (xs @ ys)"
  by (simp add: window_of_def window_merge_def sat_add_def min_def)

lemma window_of_mset:
  assumes "mset xs = mset ys"
  shows "window_of xs = window_of ys"
proof -
  have "length xs = length ys" using assms by (rule mset_eq_length)
  moreover have "sum_list (map total_tokens xs) = sum_list (map total_tokens ys)"
    using assms by (metis mset_map sum_mset_sum_list)
  moreover have "length (filter lr_estimated xs) = length (filter lr_estimated ys)"
    using assms by (metis mset_filter size_mset)
  ultimately show ?thesis by (simp add: window_of_def)
qed

definition recent :: "nat \<Rightarrow> nat \<Rightarrow> ledger_row list \<Rightarrow> ledger_row list" where
  "recent now secs rows = filter (\<lambda>r. sat_sub now (lr_epoch_ts r) \<le> secs) rows"

definition windows_of :: "nat \<Rightarrow> ledger_row list \<Rightarrow> target_windows" where
  "windows_of now rows =
     \<lparr>tw_last_5h = window_of (recent now WINDOW_5H_SECS rows),
      tw_last_24h = window_of (recent now WINDOW_24H_SECS rows),
      tw_last_7d = window_of (recent now WINDOW_7D_SECS rows)\<rparr>"

lemma windows_of_Nil: "windows_of now [] = windows_default"
  by (simp add: windows_of_def recent_def windows_default_def window_of_Nil)

lemma windows_of_snoc: "windows_add now r (windows_of now rows) = windows_of now (rows @ [r])"
  by (simp add: windows_of_def windows_add_def Let_def recent_def window_of_snoc)

lemma windows_merge_of: "windows_merge (windows_of now xs) (windows_of now ys) = windows_of now (xs @ ys)"
  by (simp add: windows_of_def windows_merge_def recent_def window_merge_of)

lemma windows_of_mset: "mset xs = mset ys \<Longrightarrow> windows_of now xs = windows_of now ys"
  unfolding windows_of_def recent_def by (simp cong: window_of_mset) (metis mset_filter window_of_mset)

lemma windows_add_default: "windows_add now r windows_default = windows_of now [r]"
  using windows_of_snoc [of now r "[]"] by (simp add: windows_of_Nil)

lemma windows_fold:
  "foldl (\<lambda>o' r. Some (windows_add now r (case o' of None \<Rightarrow> windows_default | Some v \<Rightarrow> v)))
     (if xs = [] then None else Some (windows_of now xs)) rows =
   (if xs @ rows = [] then None else Some (windows_of now (xs @ rows)))"
proof (induction rows arbitrary: xs)
  case Nil
  then show ?case by simp
next
  case (Cons r rows)
  show ?case using Cons [of "xs @ [r]"]
    by (cases "xs = []") (simp_all add: windows_of_snoc windows_add_default)
qed

lemma bt_entry_alt:
  "bt_entry d k f m = bt_insert k (f (case bt_get m k of None \<Rightarrow> d | Some v \<Rightarrow> v)) m"
  by (simp add: bt_entry_def bt_get_or_def)

lemma pool_windows_wf [simp]: "bt_wf (pool_windows_from_rows rows now)"
  unfolding pool_windows_from_rows_def bt_entry_alt
  by (rule bt.wf_accumulate
      [where upd = "\<lambda>o' r. windows_add now r (case o' of None \<Rightarrow> windows_default | Some v \<Rightarrow> v)"]) simp

lemma pool_windows_get:
  "bt_get (pool_windows_from_rows rows now) key =
     (let mine = filter (\<lambda>r. canonical (row_pool_key r) = key) rows
      in if mine = [] then None else Some (windows_of now mine))"
proof -
  have "bt_get (pool_windows_from_rows rows now) key =
    foldl (\<lambda>o' r. Some (windows_add now r (case o' of None \<Rightarrow> windows_default | Some v \<Rightarrow> v))) None
      (filter (\<lambda>r. canonical (row_pool_key r) = key) rows)"
    unfolding pool_windows_from_rows_def bt_entry_alt
    using bt.get_accumulate
      [where upd = "\<lambda>o' r. windows_add now r (case o' of None \<Rightarrow> windows_default | Some v \<Rightarrow> v)"
         and kf = "\<lambda>r. canonical (row_pool_key r)" and m = "[]" and xs = rows and j = key]
    by simp
  then show ?thesis using windows_fold [where xs = "[]" and now = now] by (simp add: Let_def)
qed

subsection \<open>The target view is the fold of the pool view\<close>

lemma mset_filter_or:
  "(\<And>r. P r \<Longrightarrow> \<not> Q r) \<Longrightarrow>
     mset (filter (\<lambda>r. P r \<or> Q r) rows) = mset (filter P rows) + mset (filter Q rows)"
  by (induction rows) auto

lemma mset_buckets:
  "distinct ks \<Longrightarrow>
     mset (concat (map (\<lambda>k. filter (\<lambda>r. f r = k) rows) ks)) = mset (filter (\<lambda>r. f r \<in> set ks) rows)"
proof (induction ks)
  case Nil
  then show ?case by simp
next
  case (Cons k ks)
  then have "mset (filter (\<lambda>r. f r = k \<or> f r \<in> set ks) rows) =
      mset (filter (\<lambda>r. f r = k) rows) + mset (filter (\<lambda>r. f r \<in> set ks) rows)"
    by (intro mset_filter_or) auto
  with Cons show ?case by simp
qed

lemma windows_merge_fold:
  "foldl (\<lambda>o' (k, w). Some (windows_merge (case o' of None \<Rightarrow> windows_default | Some v \<Rightarrow> v) w))
     (if xs = [] then None else Some (windows_of now xs)) (map (\<lambda>k. (k, windows_of now (g k))) ks) =
   (if xs = [] \<and> ks = [] then None else Some (windows_of now (xs @ concat (map g ks))))"
  if "\<And>k. k \<in> set ks \<Longrightarrow> g k \<noteq> []"
  using that
proof (induction ks arbitrary: xs)
  case Nil
  then show ?case by simp
next
  case (Cons k ks)
  have "windows_merge (windows_of now []) (windows_of now (g k)) = windows_of now (g k)"
    by (simp only: windows_merge_of append_Nil)
  then show ?case using Cons.IH [of "xs @ g k"] Cons.prems
    by (cases "xs = []") (simp_all add: windows_merge_of windows_of_Nil)
qed

lemma bt_map_keys:
  "bt_wf m \<Longrightarrow> (\<And>k. k \<in> set (bt_keys m) \<Longrightarrow> bt_get m k = Some (h k)) \<Longrightarrow> m = map (\<lambda>k. (k, h k)) (bt_keys m)"
proof (induction m)
  case Nil
  then show ?case by simp
next
  case (Cons p m)
  obtain k v where p: "p = (k, v)" by (cases p)
  have "bt_get m j = Some (h j)" if "j \<in> set (bt_keys m)" for j
  proof -
    have "k < j" using Cons.prems(1) that p by (auto simp: bt_wf_Cons)
    with Cons.prems(2) [of j] that p show ?thesis by (auto split: if_splits)
  qed
  moreover have "h k = v" using Cons.prems(2) [of k] p by simp
  ultimately show ?case using Cons p by (simp add: bt_wf_Cons)
qed

lemma concat_map_Nil: "(\<And>k. k \<in> set ks \<Longrightarrow> g k \<noteq> []) \<Longrightarrow> concat (map g ks) = [] \<longleftrightarrow> ks = []"
  by (cases ks) auto

lemma fold_targets_wf [simp]: "bt_wf (fold_pools_to_targets m)"
  unfolding fold_pools_to_targets_def bt_entry_alt case_prod_beta
  by (rule bt.wf_accumulate
      [where kf = "\<lambda>p. pk_target (pool_key_parse (fst p))"
         and upd = "\<lambda>o' p. windows_merge (case o' of None \<Rightarrow> windows_default | Some v \<Rightarrow> v) (snd p)"]) simp

lemma fold_targets_get:
  "bt_get (fold_pools_to_targets m) t =
     foldl (\<lambda>o' (k, w). Some (windows_merge (case o' of None \<Rightarrow> windows_default | Some v \<Rightarrow> v) w)) None
       (filter (\<lambda>p. pk_target (pool_key_parse (fst p)) = t) m)"
  unfolding fold_pools_to_targets_def bt_entry_alt case_prod_beta
  using bt.get_accumulate
    [where kf = "\<lambda>p. pk_target (pool_key_parse (fst p))" and m = "[]" and xs = m and j = t
       and upd = "\<lambda>o' p. windows_merge (case o' of None \<Rightarrow> windows_default | Some v \<Rightarrow> v) (snd p)"]
  by simp

definition plain_targets :: "ledger_row list \<Rightarrow> bool" where
  "plain_targets rows \<longleftrightarrow> list_all (\<lambda>r. POOL_SEPARATOR \<notin> set (lr_target r)) rows"

lemma row_key_target:
  "POOL_SEPARATOR \<notin> set (lr_target r) \<Longrightarrow>
     pk_target (pool_key_parse (canonical (row_pool_key r))) = normalize_target (lr_target r)"
  by (simp add: parse_canonical row_pool_key_def pool_key_wf_from_target_model)
     (simp add: from_target_model_def)

lemma fold_targets_direct:
  assumes "plain_targets rows"
  shows "bt_get (fold_pools_to_targets (pool_windows_from_rows rows now)) t =
     (let mine = filter (\<lambda>r. normalize_target (lr_target r) = t) rows
      in if mine = [] then None else Some (windows_of now mine))"
proof -
  let ?m = "pool_windows_from_rows rows now"
  let ?key = "\<lambda>r. canonical (row_pool_key r)"
  let ?g = "\<lambda>k. filter (\<lambda>r. ?key r = k) rows"
  let ?sel = "\<lambda>k. pk_target (pool_key_parse k) = t"
  let ?ks = "filter ?sel (bt_keys ?m)"
  have keys: "k \<in> set (bt_keys ?m) \<longleftrightarrow> ?g k \<noteq> []" for k
    by (simp only: bt_keys_get pool_windows_get Let_def) (simp del: filter_empty_conv)
  have "?m = map (\<lambda>k. (k, windows_of now (?g k))) (bt_keys ?m)"
    by (rule bt_map_keys) (auto simp: keys pool_windows_get Let_def simp del: set_map filter_empty_conv)
  then have sel: "filter (\<lambda>p. ?sel (fst p)) ?m = map (\<lambda>k. (k, windows_of now (?g k))) ?ks"
    by (metis (no_types, lifting) comp_def filter_cong filter_map fst_conv)
  have fold: "bt_get (fold_pools_to_targets ?m) t =
      (if ?ks = [] then None else Some (windows_of now (concat (map ?g ?ks))))"
    unfolding fold_targets_get sel
    using windows_merge_fold [of ?ks ?g "[]" now] keys by (simp del: set_map filter_empty_conv)
  have dist: "distinct ?ks" using bt_wf_distinct [of ?m] by simp
  have mem: "?key r \<in> set ?ks \<longleftrightarrow> normalize_target (lr_target r) = t" if "r \<in> set rows" for r
  proof -
    have "?g (?key r) \<noteq> []" using that by (auto simp: filter_empty_conv)
    with that assms show ?thesis
      by (simp add: keys row_key_target plain_targets_def list_all_iff del: set_map filter_empty_conv)
  qed
  have "mset (concat (map ?g ?ks)) = mset (filter (\<lambda>r. ?key r \<in> set ?ks) rows)"
    using dist by (rule mset_buckets)
  also have "filter (\<lambda>r. ?key r \<in> set ?ks) rows = filter (\<lambda>r. normalize_target (lr_target r) = t) rows"
    using mem by (rule filter_cong [OF refl])
  finally have ms: "mset (concat (map ?g ?ks)) = mset (filter (\<lambda>r. normalize_target (lr_target r) = t) rows)" .
  have empty: "?ks = [] \<longleftrightarrow> filter (\<lambda>r. normalize_target (lr_target r) = t) rows = []"
  proof -
    have "concat (map ?g ?ks) = [] \<longleftrightarrow> ?ks = []"
      by (rule concat_map_Nil) (use keys in \<open>simp del: set_map filter_empty_conv\<close>)
    with ms show ?thesis by (metis mset_zero_iff)
  qed
  show ?thesis unfolding fold using windows_of_mset [OF ms, of now] empty
    by (simp only: Let_def)
qed

subsection \<open>Nested windows\<close>

definition window_le :: "window_usage \<Rightarrow> window_usage \<Rightarrow> bool" where
  "window_le a b \<longleftrightarrow> wu_requests a \<le> wu_requests b \<and> wu_tokens a \<le> wu_tokens b \<and>
     wu_estimated_requests a \<le> wu_estimated_requests b"

lemma window_of_filter_mono:
  assumes "\<And>r. P r \<Longrightarrow> Q r"
  shows "window_le (window_of (filter P rows)) (window_of (filter Q rows))"
proof -
  have "length (filter P rows) \<le> length (filter Q rows)"
    using assms by (induction rows) auto
  moreover have "sum_list (map total_tokens (filter P rows)) \<le> sum_list (map total_tokens (filter Q rows))"
    using assms by (induction rows) (auto intro: add_le_mono trans_le_add2)
  moreover have "length (filter lr_estimated (filter P rows)) \<le> length (filter lr_estimated (filter Q rows))"
    using assms by (induction rows) auto
  ultimately show ?thesis by (simp add: window_le_def window_of_def min.coboundedI1)
qed

lemma windows_nested:
  "window_le (tw_last_5h (windows_of now rows)) (tw_last_24h (windows_of now rows))"
  "window_le (tw_last_24h (windows_of now rows)) (tw_last_7d (windows_of now rows))"
  unfolding windows_of_def recent_def target_windows.simps
  by (rule window_of_filter_mono;
      simp add: WINDOW_5H_SECS_def WINDOW_24H_SECS_def WINDOW_7D_SECS_def)+

section \<open>Cap lemmas\<close>

lemma axis_cap_scope:
  "pc_scope (axis_cap p t u v) = (if p \<noteq> None then Pool else if t \<noteq> None then Shared else Unknown_cap)"
  by (simp add: axis_cap_def cap_capped_def cap_unknown_def split: option.splits)

lemma axis_cap_limit: "pc_limit (axis_cap p t u v) = (case p of None \<Rightarrow> t | Some l \<Rightarrow> Some l)"
  by (simp add: axis_cap_def cap_capped_def cap_unknown_def split: option.splits)

lemma axis_cap_remaining:
  "pc_remaining (axis_cap p t u v) =
     (case p of Some l \<Rightarrow> Some (l - u) | None \<Rightarrow> map_option (\<lambda>l. l - v) t)"
  by (simp add: axis_cap_def cap_capped_def cap_unknown_def split: option.splits)

lemma axis_cap_used:
  "pc_used (axis_cap p t u v) = (case p of Some _ \<Rightarrow> u | None \<Rightarrow> if t = None then u else v)"
  by (simp add: axis_cap_def cap_capped_def cap_unknown_def split: option.splits)

lemmas axis_cap_simps = axis_cap_scope axis_cap_limit axis_cap_remaining axis_cap_used

lemma axis_cap_shared:
  "pc_scope (axis_cap_with_reported a p t u v) = Shared \<Longrightarrow>
     \<exists>l. t = Some l \<and> axis_cap_with_reported a p t u v =
       \<lparr>pc_scope = Shared, pc_limit = Some l, pc_used = v, pc_remaining = Some (l - v)\<rparr>"
  by (auto simp: axis_cap_with_reported_def cap_reported_def axis_cap_def cap_capped_def
      cap_unknown_def split: option.splits)

lemma axis_cap_fraction:
  assumes "remaining_fraction (axis_cap p t u v) = Some f"
  shows "0 \<le> f \<and> f \<le> 1"
proof -
  from assms have "pc_limit (axis_cap p t u v) \<noteq> None"
    by (auto simp: remaining_fraction_def split: option.splits)
  then obtain l r where l: "pc_limit (axis_cap p t u v) = Some l"
    "pc_remaining (axis_cap p t u v) = Some r" "r \<le> l"
    by (auto simp: axis_cap_simps split: option.splits)
  with assms show ?thesis
    by (auto simp: remaining_fraction_def f64_ratio_le_1 split: if_splits)
qed

lemma reported_axis_current:
  assumes "pc_scope (axis_cap_with_reported a p t u v) = Reported"
  shows "ax_remaining a \<noteq> None"
  using assms by (auto simp: axis_cap_with_reported_def axis_cap_scope split: option.splits if_splits)

section \<open>Ranking lemmas\<close>

lemma then_cmp_swap: "then_with (cmp b a) (cmp d c) = reverse_ord (then_with (cmp a b) (cmp c d))"
  using cmp_swap [of b a] cmp_swap [of d c] by simp

interpretation rank_order: total_comparator "rank_cmp basis"
proof
  fix x y z :: pool_headroom_rec
  show "rank_cmp basis y x = reverse_ord (rank_cmp basis x y)"
    unfolding rank_cmp_def
    by (cases basis)
       (simp_all add: then_cmp_swap [symmetric] flip: cmp_swap)
  assume "rank_cmp basis x y \<noteq> Greater" "rank_cmp basis y z \<noteq> Greater"
  then show "rank_cmp basis x z \<noteq> Greater"
    unfolding rank_cmp_def by (cases basis) (auto simp: then_with_iff not_less)
qed

definition room_before :: "pool_headroom_rec \<Rightarrow> pool_headroom_rec \<Rightarrow> bool" where
  "room_before a b \<longleftrightarrow>
     (let ra = the (room_fraction a); rb = the (room_fraction b)
      in rb < ra \<or> ra = rb \<and> ph_key a \<le> ph_key b)"

definition usage_before :: "pool_headroom_rec \<Rightarrow> pool_headroom_rec \<Rightarrow> bool" where
  "usage_before a b \<longleftrightarrow>
     ph_used_tokens a < ph_used_tokens b \<or> ph_used_tokens a = ph_used_tokens b \<and>
       (ph_used_requests a < ph_used_requests b \<or> ph_used_requests a = ph_used_requests b \<and>
          ph_key a \<le> ph_key b)"

lemma rank_cmp_quota:
  "rank_cmp Quota a b \<noteq> Greater \<Longrightarrow> room_fraction a \<noteq> None \<Longrightarrow> room_fraction b \<noteq> None \<Longrightarrow> room_before a b"
  by (auto simp: rank_cmp_def then_with_iff unwrap_or_def room_before_def Let_def not_less)

lemma rank_cmp_observed: "rank_cmp ObservedUsage a b \<noteq> Greater \<Longrightarrow> usage_before a b"
  by (auto simp: rank_cmp_def then_with_iff usage_before_def not_less)

section \<open>The headroom map\<close>

lemma bt_of_list_wf [simp]: "bt_wf (bt_of_list xs)"
  unfolding bt_of_list_def case_prod_beta
  by (rule bt.wf_accumulate [where upd = "\<lambda>_ p. snd p" and kf = fst]) simp

lemma foldl_const_last: "xs \<noteq> [] \<Longrightarrow> foldl (\<lambda>_ x. Some (f x)) o' xs = Some (f (last xs))"
  by (induction xs rule: rev_induct) auto

lemma bt_of_list_get:
  "bt_get (bt_of_list xs) k =
     (let mine = filter (\<lambda>p. fst p = k) xs in if mine = [] then None else Some (snd (last mine)))"
proof -
  have "bt_get (bt_of_list xs) k = foldl (\<lambda>_ p. Some (snd p)) None (filter (\<lambda>p. fst p = k) xs)"
    unfolding bt_of_list_def case_prod_beta
    using bt.get_accumulate [where upd = "\<lambda>_ p. snd p" and kf = fst and m = "[]" and xs = xs and j = k]
    by simp
  then show ?thesis
    by (cases "filter (\<lambda>p. fst p = k) xs = []")
       (simp_all add: Let_def foldl_const_last del: filter_empty_conv)
qed

lemma bt_of_list_map:
  assumes "inj_on f (set xs)"
  shows "bt_get (bt_of_list (map (\<lambda>x. (f x, g x)) xs)) k =
    (if k \<in> f ` set xs then Some (g (the_inv_into (set xs) f k)) else None)"
proof (cases "k \<in> f ` set xs")
  case True
  then obtain x where x: "x \<in> set xs" "k = f x" by blast
  let ?mine = "filter (\<lambda>p. fst p = k) (map (\<lambda>x. (f x, g x)) xs)"
  have "(f x, g x) \<in> set ?mine" using x by auto
  then have ne: "?mine \<noteq> []" by (metis empty_iff empty_set)
  then have "last ?mine \<in> set ?mine" by (rule last_in_set)
  then obtain y where y: "y \<in> set xs" "f y = k" "last ?mine = (f y, g y)" by auto
  with x assms have "y = x" by (simp add: inj_on_eq_iff)
  with ne y x assms show ?thesis
    by (simp add: bt_of_list_get Let_def the_inv_into_f_f del: filter_empty_conv)
next
  case False
  then have "filter (\<lambda>p. fst p = k) (map (\<lambda>x. (f x, g x)) xs) = []" by (auto simp: filter_empty_conv)
  with False show ?thesis by (simp add: bt_of_list_get)
qed

definition headroom_keys ::
  "(string, target_windows) btree \<Rightarrow> limits_config \<Rightarrow> (string, signal_rec) btree \<Rightarrow> pool_key list" where
  "headroom_keys pooled config signals =
     map pool_key_parse (bt_keys pooled) @ limit_pool_keys config @ map pool_key_parse (bt_keys signals)"

definition plain_config :: "limits_config \<Rightarrow> bool" where
  "plain_config config \<longleftrightarrow> list_all (\<lambda>(target, _). POOL_SEPARATOR \<notin> set target) config"

lemma headroom_keys_wf:
  assumes "plain_config config" "k \<in> set (headroom_keys pooled config signals)"
  shows "pool_key_wf k"
  using assms
  by (auto simp: headroom_keys_def limit_pool_keys_def pool_key_wf_parse plain_config_def list_all_iff
      intro!: pool_key_wf_new)

lemma pool_headroom_get:
  assumes "plain_config config"
  shows "bt_get (pool_headroom_from_parts pooled config signals now) k =
    (if k \<in> canonical ` set (headroom_keys pooled config signals)
     then Some (headroom_for_pool_in (pool_key_parse k) pooled (fold_pools_to_targets pooled) config signals now)
     else None)"
proof -
  let ?ks = "remdups_adj (sort_by pool_key_cmp (headroom_keys pooled config signals))"
  have wf: "pool_key_wf x" if "x \<in> set ?ks" for x
    using headroom_keys_wf [OF assms] that by simp
  then have inj: "inj_on canonical (set ?ks)" by (auto intro!: inj_onI canonical_inj)
  have "the_inv_into (set ?ks) canonical k = pool_key_parse k" if "k \<in> canonical ` set ?ks"
    using that wf by (auto simp: the_inv_into_f_f [OF inj [simplified]] parse_canonical)
  then show ?thesis
    unfolding pool_headroom_from_parts_def Let_def headroom_keys_def [symmetric] bt_of_list_map [OF inj]
    by simp
qed

text \<open>The row an invocation writes.\<close>

definition new_row :: "io_env \<Rightarrow> string \<Rightarrow> string \<Rightarrow> nat \<Rightarrow> nat \<Rightarrow> bool \<Rightarrow> bool \<Rightarrow> ledger_row" where
  "new_row env target model i out est ok =
     \<lparr>lr_epoch_ts = io_now env, lr_target = normalize_target target, lr_model = model,
      lr_input_tokens = i, lr_output_tokens = out, lr_estimated = est, lr_ok = ok\<rparr>"

lemma new_row_wf:
  assumes "io_now env \<le> u64_max" "i \<le> u64_max" "out \<le> u64_max"
    and "TAB \<notin> set target" "NL \<notin> set target" "TAB \<notin> set model" "NL \<notin> set model"
  shows "row_wf (new_row env target model i out est ok)"
proof -
  have "TAB \<notin> set (normalize_target target)" "NL \<notin> set (normalize_target target)"
    using assms(4,5) set_trim_subset [of target] unfolding normalize_target_def
    by (auto simp: lower_notin)
  with assms show ?thesis by (simp add: row_wf_def new_row_def)
qed

lemma record_invocation_log:
  assumes "list_all row_wf rows" and "io_append env = Written" "trim_whole env" and "io_now env \<le> u64_max"
    and "i \<le> u64_max" and "out \<le> u64_max"
    and "TAB \<notin> set target" "NL \<notin> set target" "TAB \<notin> set model" "NL \<notin> set model"
  shows "record_invocation env (Some (ledger_file rows)) target model i out est ok =
      (Some (new_row env target model i out est ok),
       Some (ledger_file (kept_rows env rows (new_row env target model i out est ok)))) \<and>
    read_rows (Some (ledger_file (kept_rows env rows (new_row env target model i out est ok)))) =
      kept_rows env rows (new_row env target model i out est ok) \<and>
    list_all row_wf (kept_rows env rows (new_row env target model i out est ok))"
proof -
  note wf = new_row_wf [OF assms(4-10), of est ok]
  note kept = ledger_log.row_ok_kept [OF assms(1) wf, of env]
  show ?thesis
    using ledger_log.append_and_trim_kept [OF assms(1) wf assms(2,3)] read_ledger_file [OF kept] kept
    unfolding record_invocation_def Let_def new_row_def [symmetric] by simp
qed

section \<open>Properties\<close>

definition sample_row :: ledger_row where
  "sample_row = \<lparr>lr_epoch_ts = 1700000000, lr_target = ''opencode'', lr_model = ''ollama/glm-5.2:cloud'',
     lr_input_tokens = 120, lr_output_tokens = 30, lr_estimated = True, lr_ok = True\<rparr>"

lemma sample_row_wf: "row_wf sample_row"
  unfolding row_wf_def sample_row_def by code_simp



text \<open>An append that fails reports no row and never harms what was there.\<close>

lemma failed_append_keeps:
  assumes "io_append env \<noteq> Written"
  shows "\<exists>extra. record_invocation env (Some old) target model i out est ok = (None, Some (old @ extra))"
  using assms by (cases "io_append env")
    (auto simp: record_invocation_def append_and_trim_def append_line_def Let_def intro: exI [of _ "[]"])

text \<open>With room for no byte of the rewrite, every row is gone.\<close>

lemma broken_rewrite_empties: "0 < cap \<Longrightarrow> cap < length (nonblank_lines raw) \<Longrightarrow> trim_to_cap (Cut 0) raw cap = []"
  by (simp add: trim_to_cap_def Let_def)

lemma latest_of_newest:
  assumes "list_all (\<lambda>r. sg_observed_at r \<le> sg_observed_at s) rows"
  shows "latest_of None (rows @ [s]) = Some s"
proof (cases "latest_of None rows")
  case (Some r)
  from latest_of_max [OF this] assms have "sg_observed_at r \<le> sg_observed_at s"
    by (auto simp: list_all_iff)
  with Some show ?thesis by (simp add: latest_of_snoc newer_def)
qed (simp add: latest_of_snoc newer_def)

lemma kept_snoc: "\<exists>ys. kept_rows env xs x = ys @ [x] \<and> set ys \<subseteq> set xs"
proof (cases "try_acquire (io_lock env) \<and> io_trim env = Written")
  case True
  define n where "n = Suc (length xs) - MAX_LEDGER_ROWS"
  have "n \<le> length xs" by (simp add: n_def MAX_LEDGER_ROWS_def)
  then have "last_rows MAX_LEDGER_ROWS (xs @ [x]) = drop n xs @ [x]"
    by (simp add: last_rows_def n_def [symmetric])
  with True show ?thesis by (auto simp: kept_rows_def dest: in_set_dropD)
qed (auto simp: kept_rows_def)

text \<open>
  When a provider's response carries rate-limit headers,
  recording it into a well-formed signal file that holds no later observation succeeds, and
  the very signal read from the headers is what the pool's lookup then returns, whether or
  not the file was trimmed, unless a rewrite broke off.
\<close>

lemma response_quota_recorded:
  assumes "list_all signal_wf rows" and "list_all (\<lambda>r. sg_observed_at r \<le> io_now env) rows"
    and "io_append env = Written" "trim_whole env" and "io_now env \<le> u64_max" and "status < 2 ^ 16"
    and "pool_key_wf key" "TAB \<notin> set (canonical key)" "NL \<notin> set (canonical key)"
    and "rate_limit_signal key status (io_now env) hdr = Some s"
  shows "\<exists>file. record_response_rate_limit env (Some (signal_file rows)) key status hdr = (Some s, Some file) \<and>
     rate_limit_signal_for (Some file) key = Some s"
proof -
  let ?kept = "kept_rows env rows s"
  have s: "signal_wf s" "\<not> signal_is_empty s"
    using rate_limit_signal_wf [OF assms(10,7-9,6,5)] by simp_all
  have key: "sg_key s = canonical key" "sg_observed_at s = io_now env"
    using assms(10) by (auto simp: rate_limit_signal_def Let_def split: if_splits)
  obtain ys where ys: "?kept = ys @ [s]" "set ys \<subseteq> set rows"
    using kept_snoc [of env rows s] by (elim exE conjE)
  have "list_all (\<lambda>r. sg_observed_at r \<le> sg_observed_at s) (filter (\<lambda>r. sg_key r = canonical key) ys)"
    using ys(2) assms(2) key(2) by (auto simp: list_all_iff)
  then have "bt_get (latest_signals ?kept) (canonical key) = Some s"
    unfolding latest_signals_get ys(1) using key(1) by (simp add: latest_of_newest)
  moreover have "read_signals (Some (signal_file ?kept)) = ?kept"
    by (rule read_signal_file) (rule signal_log.row_ok_kept [OF assms(1) s(1)])
  ultimately show ?thesis
    using signal_log.append_and_trim_kept [OF assms(1) s(1) assms(3,4)] s(2) assms(10)
    by (simp add: record_response_rate_limit_def record_rate_limit_at_def
        rate_limit_signal_for_def rate_limit_signals_def)
qed

text \<open>A model id whose second line is a row of its own.\<close>

definition forging_model :: "ledger_row \<Rightarrow> string" where
  "forging_model forged = join [TAB] [''m'', ''0'', ''0'', ''1'', ''1''] @ [NL] @ row_to_tsv_line forged"

definition carrier_row :: "nat \<Rightarrow> string \<Rightarrow> ledger_row" where
  "carrier_row now target = \<lparr>lr_epoch_ts = now, lr_target = normalize_target target, lr_model = ''m'',
     lr_input_tokens = 0, lr_output_tokens = 0, lr_estimated = True, lr_ok = True\<rparr>"

text \<open>Further columns do not change what a line reads as.\<close>

lemma row_parse_extra:
  assumes "row_wf r" "\<forall>w \<in> set cols. TAB \<notin> set w"
  shows "row_parse (row_to_tsv_line r @ TAB # join [TAB] cols) = Some r"
proof -
  let ?f = "[nat_str (lr_epoch_ts r), lr_target r, lr_model r, nat_str (lr_input_tokens r),
      nat_str (lr_output_tokens r), bool_str (lr_estimated r), bool_str (lr_ok r)]"
  have "row_to_tsv_line r @ TAB # join [TAB] cols = join [TAB] (?f @ (if cols = [] then [[]] else cols))"
    by (cases cols) (simp_all add: row_to_tsv_line_def)
  also have "split_char TAB \<dots> = ?f @ (if cols = [] then [[]] else cols)"
    by (rule split_char_join) (use assms in \<open>auto simp: row_wf_def nat_str_notin bool_str_def\<close>)
  finally show ?thesis using assms(1) by (simp add: row_parse_def row_wf_def) (simp add: bool_str_def)
qed

lemma forging_line:
  "row_to_tsv_line \<lparr>lr_epoch_ts = now, lr_target = t, lr_model = forging_model forged,
     lr_input_tokens = i, lr_output_tokens = out, lr_estimated = est, lr_ok = ok\<rparr> =
   row_to_tsv_line \<lparr>lr_epoch_ts = now, lr_target = t, lr_model = ''m'',
     lr_input_tokens = 0, lr_output_tokens = 0, lr_estimated = True, lr_ok = True\<rparr> @ [NL] @
   row_to_tsv_line forged @ TAB # join [TAB] [nat_str i, nat_str out, bool_str est, bool_str ok]"
proof -
  have "nat_str 0 = ''0''" by code_simp
  then show ?thesis by (simp add: row_to_tsv_line_def forging_model_def bool_str_def)
qed

text \<open>
  C31 (ledger_row_injection): the text columns are written unescaped, so whoever chooses the model id can
  write any row: for every well-formed row there is a model id such that recording one invocation
  of any target, failed or not, with that id into a ledger with room for two more rows
  leaves that row as the last one read back, after one that says the target was used successfully.
\<close>

theorem ledger_row_injection:
  assumes "list_all row_wf rows" "row_wf forged" "io_append env = Written" "Suc (length rows) < MAX_LEDGER_ROWS"
    and "io_now env \<le> u64_max" "TAB \<notin> set target" "NL \<notin> set target"
  shows "read_rows (snd (record_invocation env (Some (ledger_file rows)) target (forging_model forged) i out est ok)) =
    rows @ [carrier_row (io_now env) target, forged]"
proof -
  let ?c = "carrier_row (io_now env) target" and ?cols = "[nat_str i, nat_str out, bool_str est, bool_str ok]"
  let ?l = "row_to_tsv_line forged @ TAB # join [TAB] ?cols"
  have c: "row_wf ?c" using new_row_wf [of env 0 0 target "''m''" True True] assms(5-7)
    by (simp add: carrier_row_def new_row_def)
  have cols: "\<forall>w \<in> set ?cols. TAB \<notin> set w \<and> NL \<notin> set w" by (auto simp: nat_str_notin bool_str_def)
  have "NL \<notin> set (row_to_tsv_line forged)" using row_line_text [OF assms(2)] by (simp add: line_text_def)
  moreover have "NL \<notin> set (join [TAB] ?cols)" using cols by simp
  moreover have "last ?l = last (bool_str ok)" by (simp add: bool_str_def)
  ultimately have text_l: "line_text ?l" by (simp add: line_text_def bool_str_def)
  let ?lines = "map row_to_tsv_line (rows @ [?c]) @ [?l]"
  have lt: "list_all line_text ?lines"
    using assms(1) c text_l row_line_text by (simp add: list_all_iff)
  have "?l \<noteq> []" "visible (hd ?l)" "visible (last ?l)"
    using row_line_ends [of forged] by (simp_all add: bool_str_def visible_def)
  then have "trim ?l \<noteq> []" by (metis trim_trimmed trimmed_visible)
  then have nb: "nonblank_lines (unlines ?lines) = ?lines"
    unfolding nonblank_lines_def lines_unlines [OF lt] by (auto simp: filter_id_conv row_line_trim)
  let ?L = "row_to_tsv_line \<lparr>lr_epoch_ts = io_now env, lr_target = normalize_target target, lr_model = forging_model forged,
     lr_input_tokens = i, lr_output_tokens = out, lr_estimated = est, lr_ok = ok\<rparr>"
  have L: "?L = row_to_tsv_line ?c @ [NL] @ ?l" unfolding forging_line carrier_row_def ..
  have raw: "ledger_file rows @ ?L @ [NL] = unlines ?lines" unfolding L by (simp add: log_file_def)
  have trimmed: "trim_to_cap fate (unlines ?lines) MAX_LEDGER_ROWS = unlines ?lines" for fate
    using assms(4) unfolding trim_to_cap_def nb by simp
  have "snd (record_invocation env (Some (ledger_file rows)) target (forging_model forged) i out est ok) = Some (unlines ?lines)"
    using raw trimmed assms(3) by (simp add: record_invocation_def append_and_trim_def append_line_def Let_def del: unlines_simps)
  moreover have "row_parse ?l = Some forged" by (rule row_parse_extra [OF assms(2)]) (use cols in blast)
  moreover have "List.map_filter row_parse (map row_to_tsv_line (rows @ [?c])) = rows @ [?c]"
    by (rule map_filter_all_Some) (use assms(1) c row_roundtrip_lemma in \<open>auto simp: list_all_iff\<close>)
  ultimately show ?thesis
    unfolding read_rows_def by (simp only: option.case nb map_filter_append) (simp add: map_filter_simps)
qed

theorem ledger_row_injection_witness:
  "read_rows (snd (record_invocation \<lparr>io_now = 5, io_lock = (\<lambda>_. Created), io_append = Written, io_trim = Cut 0\<rparr>
     (Some (ledger_file [])) ''Ollama'' (forging_model sample_row) 1 0 True False)) =
   [carrier_row 5 ''Ollama'', sample_row] \<and> lr_target sample_row = ''opencode''"
proof -
  have "TAB \<notin> set ''Ollama''" "NL \<notin> set ''Ollama''" "lr_target sample_row = ''opencode''"
    by (simp_all add: sample_row_def)
  then show ?thesis
    using ledger_row_injection [of "[]" sample_row "\<lparr>io_now = 5, io_lock = (\<lambda>_. Created), io_append = Written, io_trim = Cut 0\<rparr>"
        "''Ollama''" 1 0 True False]
    by (simp add: sample_row_wf MAX_LEDGER_ROWS_def u64_simps)
qed

text \<open>
  C25 (target_windows_lossless): for any ledger rows whose targets hold no pool separator, the
  target view obtained by folding the per-pool windows is the direct aggregation of the rows
  of that target: for every rolling window the saturated number of requests, tokens and
  estimated requests of the rows not older than the window.
\<close>

theorem target_windows_lossless:
  assumes "plain_targets rows"
  shows "bt_get (fold_pools_to_targets (pool_windows_from_rows rows now)) target =
     (let mine = filter (\<lambda>r. normalize_target (lr_target r) = target) rows
      in if mine = [] then None else Some (windows_of now mine))"
  using assms by (rule fold_targets_direct)

theorem target_windows_lossless_witness:
  "plain_targets [sample_row] \<and>
   map_option (\<lambda>w. wu_tokens (tw_last_24h w))
     (bt_get (fold_pools_to_targets (pool_windows_from_rows [sample_row] 1700000100)) ''opencode'') = Some 150"
proof -
  have p: "plain_targets [sample_row]" by code_simp
  have "map_option (\<lambda>w. wu_tokens (tw_last_24h w))
     (let mine = filter (\<lambda>r. normalize_target (lr_target r) = ''opencode'') [sample_row]
      in if mine = [] then None else Some (windows_of 1700000100 mine)) = Some 150" by code_simp
  with p show ?thesis using target_windows_lossless [OF p, of 1700000100 "''opencode''"] by simp
qed

text \<open>
  Every pool's windows are nested: what the last five hours count,
  the last day counts too, and what the last day counts, the last week does.
\<close>

lemma pool_windows_nested:
  assumes "bt_get (pool_windows_from_rows rows now) key = Some w"
  shows "window_le (tw_last_5h w) (tw_last_24h w) \<and> window_le (tw_last_24h w) (tw_last_7d w)"
  using assms windows_nested [of now] by (auto simp: pool_windows_get Let_def split: if_splits)

text \<open>
  A provider's report whose own reset instant has passed is
  never presented as current quota: the token axis of that pool then rests on configuration
  or on nothing.
\<close>

lemma stale_report_never_counts:
  assumes "bt_get signals (canonical key) = Some s"
    and "ax_reset_at (sg_tokens s) = Some reset" and "reset \<le> now"
  shows "pc_scope (ph_tokens (headroom_for_pool_in key pooled targets config signals now)) \<noteq> Reported"
proof
  assume rep: "pc_scope (ph_tokens (headroom_for_pool_in key pooled targets config signals now)) = Reported"
  have stale: "\<not> axis_is_current (sg_tokens s) (sg_observed_at s) now"
    using assms by (simp add: axis_is_current_def)
  have "ax_remaining (sg_tokens (case current_at s now of None \<Rightarrow> signal_default | Some f \<Rightarrow> f)) = None"
    using stale current_at_fields(5) [of s now]
    by (auto simp: signal_default_def axis_default_def split: option.split)
  with rep assms(1) show False
    by (auto simp: headroom_for_pool_in_def Let_def dest!: reported_axis_current)
qed

text \<open>
  A target-level cap is one pot. Two pools of one target whose
  token axis is measured against it report the same limit, the same use and the same
  remaining room.
\<close>

lemma shared_cap_not_split:
  assumes "target_key k1 = target_key k2"
    and "pc_scope (ph_tokens (headroom_for_pool_in k1 pooled targets config signals now)) = Shared"
    and "pc_scope (ph_tokens (headroom_for_pool_in k2 pooled targets config signals now)) = Shared"
  shows "ph_tokens (headroom_for_pool_in k1 pooled targets config signals now) =
         ph_tokens (headroom_for_pool_in k2 pooled targets config signals now)"
  using assms(2,3) assms(1)
  by (auto simp: headroom_for_pool_in_def Let_def dest!: axis_cap_shared)

text \<open>
  Measured against a configured cap, the fraction of room
  left, computed in double precision, lies between 0 and 1, and it is 0 exactly when nothing
  remains.
\<close>

lemma configured_fraction_bounds:
  assumes "remaining_fraction (axis_cap pool_limit target_limit pool_used target_used) = Some f"
  shows "0 \<le> f \<and> f \<le> 1 \<and>
    (f = 0 \<longleftrightarrow> pc_remaining (axis_cap pool_limit target_limit pool_used target_used) = Some 0)"
proof -
  let ?c = "axis_cap pool_limit target_limit pool_used target_used"
  obtain l r where l: "pc_limit ?c = Some l" "pc_remaining ?c = Some r" "r \<le> l"
    using assms by (auto simp: remaining_fraction_def axis_cap_simps split: option.splits)
  have "f = 0 \<longleftrightarrow> r = 0"
    using assms l f64_ratio_pos [of r l]
    by (cases "r = 0") (auto simp: remaining_fraction_def split: if_splits)
  with l axis_cap_fraction [OF assms] show ?thesis by simp
qed

text \<open>
  Ranking keeps every pool, claims a quota basis exactly when the
  set is non-empty and every pool in it has a known fraction, and orders by that basis: most
  remaining fraction first, or least observed tokens then requests first, ties by key.
\<close>

lemma pool_ranking_sorted:
  "mset (pr_ranked (rank_pools_by_room pools)) = mset pools \<and>
   (pr_basis (rank_pools_by_room pools) = Quota \<longleftrightarrow>
      pools \<noteq> [] \<and> None \<notin> room_fraction ` set pools) \<and>
   sorted_wrt (if pr_basis (rank_pools_by_room pools) = Quota then room_before else usage_before)
     (pr_ranked (rank_pools_by_room pools))"
proof -
  have basis: "ranking_basis pools = Quota \<longleftrightarrow> pools \<noteq> [] \<and> None \<notin> room_fraction ` set pools"
    by (force simp: ranking_basis_def list_all_iff)
  have sorted: "sorted_wrt (\<lambda>a b. rank_cmp b' a b \<noteq> Greater) (sort_by (rank_cmp b') pools)" for b'
    by (rule rank_order.sort_by_sorted)
  have "sorted_wrt (if ranking_basis pools = Quota then room_before else usage_before)
     (sort_by (rank_cmp (ranking_basis pools)) pools)"
  proof (cases "ranking_basis pools")
    case Quota
    with basis have "room_fraction a \<noteq> None" if "a \<in> set pools" for a using that by force
    then show ?thesis unfolding Quota
      by (simp, intro sorted_wrt_mono_rel [OF _ sorted]) (auto intro!: rank_cmp_quota)
  next
    case ObservedUsage
    then show ?thesis
      by (simp, intro sorted_wrt_mono_rel [OF _ sorted]) (auto intro!: rank_cmp_observed)
  qed
  with basis show ?thesis by (simp add: rank_pools_by_room_def Let_def)
qed

text \<open>
  In the headroom map, every pool the ledger has rows for, every
  pool with a configured cap of its own and every pool a provider reported on has an entry
  under its canonical key, computed for that very pool; nothing else has one.
\<close>

lemma known_pools_visible:
  assumes "plain_config config"
  shows "bt_get (pool_headroom_from_parts pooled config signals now) key =
    (if key \<in> canonical ` (pool_key_parse ` (set (bt_keys pooled) \<union> set (bt_keys signals))
             \<union> set (limit_pool_keys config))
     then Some (headroom_for_pool_in (pool_key_parse key) pooled (fold_pools_to_targets pooled)
                  config signals now)
     else None)"
proof -
  have "set (headroom_keys pooled config signals) =
    pool_key_parse ` (set (bt_keys pooled) \<union> set (bt_keys signals)) \<union> set (limit_pool_keys config)"
    unfolding headroom_keys_def by auto
  with pool_headroom_get [OF assms] show ?thesis by simp
qed

end
