(* ===== verification/Usage.thy ===== *)
theory Usage
  imports Ledger "HOL-Library.Word"
begin

text \<open>
  The usage snapshot of \<^verbatim>\<open>crates/rtrt-providers/src/usage.rs\<close>: token-log rows, proxy
  statistics, configured limits and the ledger's rolling 24h window, keyed by target and by
  pool, and the headroom the router reads off it. The files, the configuration and the
  output of the \<^verbatim>\<open>sqlite3\<close> command are arguments. The main result is that the
  snapshot and the ledger agree on what a cap means.
\<close>

section \<open>Token counters\<close>

text \<open>The counters of one response; \<^verbatim>\<open>+=\<close> wraps as in a release build.\<close>

record usage =
  us_input_tokens :: "64 word"
  us_output_tokens :: "64 word"
  us_cache_read_input_tokens :: "64 word"
  us_cache_creation_input_tokens :: "64 word"

definition usage_default :: usage where
  "usage_default = \<lparr>us_input_tokens = 0, us_output_tokens = 0,
     us_cache_read_input_tokens = 0, us_cache_creation_input_tokens = 0\<rparr>"

definition usage_total :: "usage \<Rightarrow> 64 word" where
  "usage_total u = us_input_tokens u + us_output_tokens u"

definition usage_merge :: "usage \<Rightarrow> usage \<Rightarrow> usage" where
  "usage_merge u v =
     \<lparr>us_input_tokens = us_input_tokens u + us_input_tokens v,
      us_output_tokens = us_output_tokens u + us_output_tokens v,
      us_cache_read_input_tokens = us_cache_read_input_tokens u + us_cache_read_input_tokens v,
      us_cache_creation_input_tokens =
        us_cache_creation_input_tokens u + us_cache_creation_input_tokens v\<rparr>"

section \<open>The snapshot\<close>

record proxy_usage =
  px_runs :: nat
  px_input_chars :: nat
  px_output_chars :: nat

type_synonym counters = "(string, nat) btree"

record usage_snapshot =
  sn_usage_by_target :: counters
  sn_limits_by_target :: counters
  sn_requests_by_target :: counters
  sn_request_limits_by_target :: counters
  sn_usage_by_pool :: counters
  sn_limits_by_pool :: counters
  sn_requests_by_pool :: counters
  sn_request_limits_by_pool :: counters
  sn_proxy_runs :: "proxy_usage option"
  sn_sources :: "string list"

definition snapshot_default :: usage_snapshot where
  "snapshot_default = \<lparr>sn_usage_by_target = [], sn_limits_by_target = [], sn_requests_by_target = [],
     sn_request_limits_by_target = [], sn_usage_by_pool = [], sn_limits_by_pool = [],
     sn_requests_by_pool = [], sn_request_limits_by_pool = [], sn_proxy_runs = None, sn_sources = []\<rparr>"

record quota_headroom =
  qh_used :: nat
  qh_limit :: nat
  qh_remaining :: nat
  qh_token_limit_configured :: bool
  qh_request_used :: "nat option"
  qh_request_limit :: "nat option"
  qh_request_remaining :: "nat option"

record pool_quota =
  pq_key :: string
  pq_used :: nat
  pq_request_used :: nat
  pq_tokens :: pool_cap
  pq_requests :: pool_cap

definition push_source :: "string \<Rightarrow> usage_snapshot \<Rightarrow> usage_snapshot" where
  "push_source line s = s\<lparr>sn_sources := sn_sources s @ [line]\<rparr>"

section \<open>Token log\<close>

definition usage_normalize_target :: "string \<Rightarrow> string" where
  "usage_normalize_target target = to_ascii_lowercase target"

definition add_usage :: "string \<Rightarrow> nat \<Rightarrow> counters \<Rightarrow> counters" where
  "add_usage target tokens m =
     bt_insert (to_ascii_lowercase target)
       (case bt_get m (to_ascii_lowercase target) of
          Some used \<Rightarrow> sat_add used tokens | None \<Rightarrow> tokens) m"

definition add_limit :: "string \<Rightarrow> nat option \<Rightarrow> counters \<Rightarrow> counters" where
  "add_limit target limit m =
     (case limit of Some l \<Rightarrow> bt_insert (usage_normalize_target target) l m | None \<Rightarrow> m)"

definition normalize_provider_id :: "string \<Rightarrow> string" where
  "normalize_provider_id provider =
     (let normalized = to_ascii_lowercase (trim provider) in
      if normalized \<in> {''openai-compatible'', ''openai_compatible'', ''openai-compat''} then ''openai-compat''
      else if normalized \<in> {''lmstudio'', ''lm_studio'', ''lms'', ''lm-studio''} then ''lm-studio''
      else if normalized \<in> {''llama'', ''llamacpp'', ''llama_cpp'', ''llama-cpp'', ''llama.cpp''} then ''llama.cpp''
      else normalized)"

definition provider_for_model :: "string \<Rightarrow> string option" where
  "provider_for_model model =
     (let by_prefix =
        (let normalized = to_ascii_lowercase (trim model) in
         if starts_with normalized ''claude'' then Some ''anthropic''
         else if starts_with normalized ''gpt'' \<or> starts_with normalized ''o1'' \<or> starts_with normalized ''o3''
         then Some ''openai'' else None)
      in case split_once (CHR ''/'') (trim model) of
           Some (provider, upstream) \<Rightarrow>
             if provider \<noteq> [] \<and> upstream \<noteq> [] then Some (normalize_provider_id provider) else by_prefix
         | None \<Rightarrow> by_prefix)"

definition token_log_trailing_text_fields :: nat where "token_log_trailing_text_fields = 2"
definition token_log_timestamp_fields :: nat where "token_log_timestamp_fields = 1"
definition token_log_min_fields :: nat where
  "token_log_min_fields = token_log_timestamp_fields + token_log_trailing_text_fields + 1"

text \<open>One line of the token log: the model column and the saturated sum of its numeric columns.\<close>

definition token_log_row :: "string \<Rightarrow> (string \<times> nat) option" where
  "token_log_row line =
     (let fields = split_char TAB line in
      if length fields < token_log_min_fields then None
      else let metric_end = length fields - token_log_trailing_text_fields;
               model = fields ! metric_end;
               amount = foldl sat_add 0 (List.map_filter parse_u64
                 (take (metric_end - token_log_timestamp_fields) (drop token_log_timestamp_fields fields)))
           in if amount = 0 then None else Some (model, amount))"

definition token_log_add :: "usage_snapshot \<Rightarrow> string \<times> nat \<Rightarrow> usage_snapshot" where
  "token_log_add s row =
     (let model = fst row; amount = snd row;
          s1 = s\<lparr>sn_usage_by_target := add_usage model amount (sn_usage_by_target s),
                 sn_requests_by_target := add_usage model 1 (sn_requests_by_target s)\<rparr>
      in case provider_for_model model of
           Some provider \<Rightarrow>
             s1\<lparr>sn_usage_by_target := add_usage provider amount (sn_usage_by_target s1),
                sn_requests_by_target := add_usage provider 1 (sn_requests_by_target s1)\<rparr>
         | None \<Rightarrow> s1)"

definition load_token_log :: "string \<Rightarrow> string option \<Rightarrow> usage_snapshot \<Rightarrow> usage_snapshot" where
  "load_token_log path file s =
     (case file of
        None \<Rightarrow> push_source (''token-log: unavailable ('' @ path @ '')'') s
      | Some raw \<Rightarrow>
          (let rows = List.map_filter token_log_row (nonblank_lines raw)
           in push_source (''token-log: '' @ path @ '' ('' @ nat_str (length rows) @ '' parseable rows)'')
                (foldl token_log_add s rows)))"

section \<open>Proxy statistics\<close>

definition INVALID_DIGIT :: string where "INVALID_DIGIT = ''invalid digit found in string''"
definition POS_OVERFLOW :: string where "POS_OVERFLOW = ''number too large to fit in target type''"
definition EMPTY_INT :: string where "EMPTY_INT = ''cannot parse integer from empty string''"

fun scan_digits :: "nat \<Rightarrow> string \<Rightarrow> string + nat" where
  "scan_digits acc [] = Inr acc"
| "scan_digits acc (c # cs) =
     (if \<not> is_ascii_digit c then Inl INVALID_DIGIT
      else if acc * 10 + digit_val c > u64_max then Inl POS_OVERFLOW
      else scan_digits (acc * 10 + digit_val c) cs)"

definition parse_u64_result :: "string \<Rightarrow> string + nat" where
  "parse_u64_result s =
     (if s = [] then Inl EMPTY_INT
      else if s = ''+'' \<or> s = ''-'' then Inl INVALID_DIGIT
      else scan_digits 0 (if hd s = CHR ''+'' then List.tl s else s))"

definition parse_nonnegative_u64 :: "string option \<Rightarrow> string \<Rightarrow> string + nat" where
  "parse_nonnegative_u64 value field =
     (case value of
        None \<Rightarrow> Inl (''sqlite3 missing '' @ field)
      | Some v \<Rightarrow> (case parse_u64_result v of
            Inl err \<Rightarrow> Inl (''sqlite3 invalid '' @ field @ '': '' @ err) | Inr n \<Rightarrow> Inr n))"

definition nth_field :: "'a list \<Rightarrow> nat \<Rightarrow> 'a option" where
  "nth_field xs n = (if n < length xs then Some (xs ! n) else None)"

definition parse_proxy_usage_row :: "string \<Rightarrow> string + proxy_usage" where
  "parse_proxy_usage_row row =
     (let fields = split_char (CHR ''|'') (trim row) in
      case parse_nonnegative_u64 (nth_field fields 0) ''runs'' of
        Inl e \<Rightarrow> Inl e
      | Inr runs \<Rightarrow>
      (case parse_nonnegative_u64 (nth_field fields 1) ''input_chars'' of
        Inl e \<Rightarrow> Inl e
      | Inr input_chars \<Rightarrow>
      (case parse_nonnegative_u64 (nth_field fields 2) ''output_chars'' of
        Inl e \<Rightarrow> Inl e
      | Inr output_chars \<Rightarrow>
          if length fields > 3 then Inl ''sqlite3 returned too many columns''
          else Inr \<lparr>px_runs = runs, px_input_chars = input_chars, px_output_chars = output_chars\<rparr>)))"

text \<open>What running the command gave: a spawn error, or the exit status and the two streams.\<close>

datatype command_output =
    SpawnFailed string
  | Exited (co_success: bool) (co_status: string) (co_stdout: string) (co_stderr: string)

fun load_proxy_usage :: "command_output \<Rightarrow> string + proxy_usage" where
  "load_proxy_usage (SpawnFailed err) = Inl (''spawn sqlite3: '' @ err)"
| "load_proxy_usage (Exited success status stdout stderr) =
     (if \<not> success
      then Inl (if trim stderr = [] then ''sqlite3 exited with '' @ status else trim stderr)
      else case lines stdout of
             [] \<Rightarrow> Inl ''sqlite3 returned no rows''
           | row # _ \<Rightarrow> parse_proxy_usage_row row)"

definition chars_to_estimated_tokens :: "nat \<Rightarrow> nat" where
  "chars_to_estimated_tokens chars = div_ceil chars ESTIMATED_CHARS_PER_TOKEN"

definition load_proxy_stats :: "string \<Rightarrow> bool \<Rightarrow> command_output \<Rightarrow> usage_snapshot \<Rightarrow> usage_snapshot" where
  "load_proxy_stats path present outcome s =
     (if \<not> present then push_source (''proxy-stats: unavailable ('' @ path @ '' not found)'') s
      else case load_proxy_usage outcome of
        Inr proxy \<Rightarrow>
          (let estimated_tokens = chars_to_estimated_tokens (sat_add (px_input_chars proxy) (px_output_chars proxy));
               s1 = (if estimated_tokens > 0
                     then s\<lparr>sn_usage_by_target := add_usage ''proxy'' estimated_tokens (sn_usage_by_target s)\<rparr> else s);
               s2 = (if px_runs proxy > 0
                     then s1\<lparr>sn_requests_by_target := add_usage ''proxy'' (px_runs proxy) (sn_requests_by_target s1)\<rparr> else s1)
           in push_source (''proxy-stats: '' @ path @ '' ('' @ nat_str (px_runs proxy) @ '' runs, chars/'' @
                nat_str ESTIMATED_CHARS_PER_TOKEN @ '' token estimate)'') (s2\<lparr>sn_proxy_runs := Some proxy\<rparr>))
      | Inl err \<Rightarrow> push_source (''proxy-stats: unavailable ('' @ path @ '': '' @ err @ '')'') s)"

section \<open>Configured limits\<close>

definition load_pool_limit :: "string \<Rightarrow> usage_snapshot \<Rightarrow> string \<times> pool_limit \<Rightarrow> usage_snapshot" where
  "load_pool_limit target s entry =
     (let key = canonical (pool_key_new target (Some (fst entry)));
          s1 = (case pl_daily_tokens (snd entry) of
                  Some tokens \<Rightarrow> s\<lparr>sn_limits_by_pool := bt_insert key tokens (sn_limits_by_pool s)\<rparr> | None \<Rightarrow> s)
      in case pl_daily_requests (snd entry) of
           Some requests \<Rightarrow> s1\<lparr>sn_request_limits_by_pool := bt_insert key requests (sn_request_limits_by_pool s1)\<rparr>
         | None \<Rightarrow> s1)"

definition load_target_limit :: "usage_snapshot \<Rightarrow> string \<times> target_limit \<Rightarrow> usage_snapshot" where
  "load_target_limit s entry =
     (let s1 = s\<lparr>sn_limits_by_target := add_limit (fst entry) (tl_daily_tokens (snd entry)) (sn_limits_by_target s),
                 sn_request_limits_by_target :=
                   add_limit (fst entry) (tl_daily_requests (snd entry)) (sn_request_limits_by_target s)\<rparr>
      in foldl (load_pool_limit (fst entry)) s1 (tl_pools (snd entry)))"

definition load_limits :: "string option \<Rightarrow> string + limits_config \<Rightarrow> usage_snapshot \<Rightarrow> usage_snapshot" where
  "load_limits config_path config s =
     (case config_path of
        None \<Rightarrow> push_source ''limits: unavailable (no config path)'' s
      | Some path \<Rightarrow>
      (case config of
         Inl err \<Rightarrow> push_source (''limits: unavailable ('' @ path @ '': '' @ err @ '')'') s
       | Inr limits \<Rightarrow>
         if limits_is_empty limits
         then push_source (''limits: unavailable ('' @ path @ '' has no [limits.<target>])'') s
         else
           (let s1 = foldl load_target_limit s limits;
                s2 = push_source (''limits: '' @ path @ '' ('' @ nat_str (length (sn_limits_by_target s1)) @
                       '' token limits, '' @ nat_str (length (sn_request_limits_by_target s1)) @ '' request limits)'') s1;
                pool_caps = length (sn_limits_by_pool s1) + length (sn_request_limits_by_pool s1)
            in if pool_caps > 0
               then push_source (''limits: '' @ nat_str pool_caps @ '' pool cap(s) nested under [limits.<target>.pools]'') s2
               else s2)))"

section \<open>The ledger window\<close>

definition overlay_target :: "usage_snapshot \<Rightarrow> string \<times> target_windows \<Rightarrow> usage_snapshot" where
  "overlay_target s entry =
     s\<lparr>sn_usage_by_target := bt_insert (fst entry) (wu_tokens (tw_last_24h (snd entry))) (sn_usage_by_target s),
       sn_requests_by_target := bt_insert (fst entry) (wu_requests (tw_last_24h (snd entry))) (sn_requests_by_target s)\<rparr>"

definition overlay_pool :: "usage_snapshot \<Rightarrow> string \<times> target_windows \<Rightarrow> usage_snapshot" where
  "overlay_pool s entry =
     s\<lparr>sn_usage_by_pool := bt_insert (fst entry) (wu_tokens (tw_last_24h (snd entry))) (sn_usage_by_pool s),
       sn_requests_by_pool := bt_insert (fst entry) (wu_requests (tw_last_24h (snd entry))) (sn_requests_by_pool s)\<rparr>"

definition with_ledger_window :: "(string, target_windows) btree \<Rightarrow> usage_snapshot \<Rightarrow> usage_snapshot" where
  "with_ledger_window pooled s =
     (let s1 = foldl overlay_target s (fold_pools_to_targets pooled);
          s2 = push_source (''provider-usage-ledger: '' @ nat_str (length (sn_usage_by_target s1)) @
                 '' target(s) in the rolling 24h window'') s1;
          s3 = foldl overlay_pool s2 pooled;
          pools = length (filter (\<lambda>key. is_pooled (pool_key_parse key)) (bt_keys pooled))
      in if pools > 0
         then push_source (''provider-usage-ledger: '' @ nat_str pools @ '' pool(s) inside those targets'') s3
         else s3)"

text \<open>Everything the loaders read from outside.\<close>

record usage_env =
  ue_token_log :: "string option"
  ue_proxy_path :: string
  ue_proxy_present :: bool
  ue_proxy_output :: command_output
  ue_config_path :: "string option"
  ue_config :: "string + limits_config"

definition TOKEN_LOG_PATH :: string where
  "TOKEN_LOG_PATH = ''.priv-storage/sessions/token-log.tsv''"

definition load_best_effort :: "usage_env \<Rightarrow> usage_snapshot" where
  "load_best_effort env =
     load_limits (ue_config_path env) (ue_config env)
       (load_proxy_stats (ue_proxy_path env) (ue_proxy_present env) (ue_proxy_output env)
         (load_token_log TOKEN_LOG_PATH (ue_token_log env) snapshot_default))"

definition load_for_routing :: "usage_env \<Rightarrow> string option \<Rightarrow> nat \<Rightarrow> usage_snapshot" where
  "load_for_routing env ledger now =
     with_ledger_window (pool_usage_windows ledger now) (load_best_effort env)"

section \<open>Headroom\<close>

definition snapshot_pool_headroom :: "usage_snapshot \<Rightarrow> pool_key \<Rightarrow> pool_quota option" where
  "snapshot_pool_headroom s key =
     (let ckey = canonical key;
          target = target_key key;
          pool_token_limit = bt_get (sn_limits_by_pool s) ckey;
          pool_request_limit = bt_get (sn_request_limits_by_pool s) ckey;
          target_token_limit = bt_get (sn_limits_by_target s) target;
          target_request_limit = bt_get (sn_request_limits_by_target s) target
      in if pool_token_limit = None \<and> pool_request_limit = None \<and>
            target_token_limit = None \<and> target_request_limit = None then None
         else
           (let used = bt_get_or 0 (sn_usage_by_pool s) ckey;
                request_used = bt_get_or 0 (sn_requests_by_pool s) ckey;
                target_used = bt_get_or 0 (sn_usage_by_target s) target;
                target_requests = bt_get_or 0 (sn_requests_by_target s) target
            in Some \<lparr>pq_key = ckey, pq_used = used, pq_request_used = request_used,
                 pq_tokens = axis_cap pool_token_limit target_token_limit used target_used,
                 pq_requests = axis_cap pool_request_limit target_request_limit request_used target_requests\<rparr>))"

definition snapshot_headroom :: "usage_snapshot \<Rightarrow> string \<Rightarrow> quota_headroom option" where
  "snapshot_headroom s target0 =
     (let target = usage_normalize_target target0;
          limit = bt_get (sn_limits_by_target s) target;
          request_limit = bt_get (sn_request_limits_by_target s) target
      in if limit = None \<and> request_limit = None then None
         else
           (let used = bt_get_or 0 (sn_usage_by_target s) target;
                requests = bt_get_or 0 (sn_requests_by_target s) target
            in Some \<lparr>qh_used = used, qh_limit = (case limit of None \<Rightarrow> 0 | Some l \<Rightarrow> l),
                 qh_remaining = (case limit of None \<Rightarrow> u64_max | Some l \<Rightarrow> sat_sub l used),
                 qh_token_limit_configured = (limit \<noteq> None),
                 qh_request_used = map_option (\<lambda>_. requests) request_limit,
                 qh_request_limit = request_limit,
                 qh_request_remaining = map_option (\<lambda>l. sat_sub l requests) request_limit\<rparr>))"

section \<open>What the loaders leave in the maps\<close>

lemma last_put_fold:
  assumes "\<And>x. x \<in> set xs \<Longrightarrow> val x = v"
  shows "foldl (\<lambda>o' x. case val x of None \<Rightarrow> o' | Some a \<Rightarrow> Some a) o' xs =
    (if xs = [] \<or> v = None then o' else v)"
  using assms by (induction xs arbitrary: o') (auto split: option.splits)

lemma last_put:
  assumes "bt_wf m" "\<And>x. x \<in> set xs \<Longrightarrow> kf x = j \<Longrightarrow> val x = v"
    and "v \<noteq> None \<Longrightarrow> \<exists>x \<in> set xs. kf x = j"
  shows "bt_get (foldl (\<lambda>m x. case val x of None \<Rightarrow> m | Some a \<Rightarrow> bt_insert (kf x) a m) m xs) j =
    (if v = None then bt_get m j else v)"
proof -
  have "filter (\<lambda>x. kf x = j) xs \<noteq> []" if "v \<noteq> None" using assms(3) [OF that] by (auto simp: filter_empty_conv)
  moreover have "\<And>x. x \<in> set (filter (\<lambda>x. kf x = j) xs) \<Longrightarrow> val x = v" using assms(2) by auto
  ultimately show ?thesis
    using bt.get_select [OF assms(1), where sel = "\<lambda>_. val" and kf = kf and xs = xs and j = j]
      last_put_fold [of "filter (\<lambda>x. kf x = j) xs" val v "bt_get m j"] by auto
qed

lemma put_fold_wf:
  "bt_wf m \<Longrightarrow> bt_wf (foldl (\<lambda>m x. case val x of None \<Rightarrow> m | Some a \<Rightarrow> bt_insert (kf x) a m) m xs)"
  using bt.wf_select [where sel = "\<lambda>_. val"] by blast

lemma add_limit_alt:
  "add_limit target limit m = (case limit of None \<Rightarrow> m | Some l \<Rightarrow> bt_insert (to_ascii_lowercase target) l m)"
  by (simp add: add_limit_def usage_normalize_target_def split: option.split)

lemma load_pools_fields:
  "sn_limits_by_target (foldl (load_pool_limit t) s ps) = sn_limits_by_target s"
  "sn_request_limits_by_target (foldl (load_pool_limit t) s ps) = sn_request_limits_by_target s"
  "sn_usage_by_target (foldl (load_pool_limit t) s ps) = sn_usage_by_target s"
  "sn_requests_by_target (foldl (load_pool_limit t) s ps) = sn_requests_by_target s"
  "sn_usage_by_pool (foldl (load_pool_limit t) s ps) = sn_usage_by_pool s"
  "sn_requests_by_pool (foldl (load_pool_limit t) s ps) = sn_requests_by_pool s"
  by (induction ps arbitrary: s) (simp_all add: load_pool_limit_def Let_def split: option.split)

lemma load_targets_keep:
  "sn_usage_by_target (foldl load_target_limit s cfg) = sn_usage_by_target s"
  "sn_requests_by_target (foldl load_target_limit s cfg) = sn_requests_by_target s"
  "sn_usage_by_pool (foldl load_target_limit s cfg) = sn_usage_by_pool s"
  "sn_requests_by_pool (foldl load_target_limit s cfg) = sn_requests_by_pool s"
  by (induction cfg arbitrary: s) (simp_all add: load_target_limit_def Let_def load_pools_fields)

lemma load_targets_limits:
  "sn_limits_by_target (foldl load_target_limit s cfg) =
     foldl (\<lambda>m x. case tl_daily_tokens (snd x) of None \<Rightarrow> m | Some l \<Rightarrow> bt_insert (to_ascii_lowercase (fst x)) l m)
       (sn_limits_by_target s) cfg"
  "sn_request_limits_by_target (foldl load_target_limit s cfg) =
     foldl (\<lambda>m x. case tl_daily_requests (snd x) of None \<Rightarrow> m | Some l \<Rightarrow> bt_insert (to_ascii_lowercase (fst x)) l m)
       (sn_request_limits_by_target s) cfg"
  by (induction cfg arbitrary: s)
     (simp_all add: load_target_limit_def Let_def load_pools_fields add_limit_alt)

text \<open>The configured pools in the order the loader visits them.\<close>

definition pool_entries :: "limits_config \<Rightarrow> (string \<times> pool_limit) list" where
  "pool_entries cfg = concat (map (\<lambda>(t, l).
     map (\<lambda>(p, c). (canonical (pool_key_new t (Some p)), c)) (tl_pools l)) cfg)"

lemma load_pools_limits:
  "sn_limits_by_pool (foldl (load_pool_limit t) s ps) =
     foldl (\<lambda>m x. case pl_daily_tokens (snd x) of None \<Rightarrow> m | Some l \<Rightarrow> bt_insert (fst x) l m)
       (sn_limits_by_pool s) (map (\<lambda>(p, c). (canonical (pool_key_new t (Some p)), c)) ps)"
  "sn_request_limits_by_pool (foldl (load_pool_limit t) s ps) =
     foldl (\<lambda>m x. case pl_daily_requests (snd x) of None \<Rightarrow> m | Some l \<Rightarrow> bt_insert (fst x) l m)
       (sn_request_limits_by_pool s) (map (\<lambda>(p, c). (canonical (pool_key_new t (Some p)), c)) ps)"
  by (induction ps arbitrary: s) (auto simp: load_pool_limit_def Let_def split: option.split)

lemma load_targets_pool_limits:
  "sn_limits_by_pool (foldl load_target_limit s cfg) =
     foldl (\<lambda>m x. case pl_daily_tokens (snd x) of None \<Rightarrow> m | Some l \<Rightarrow> bt_insert (fst x) l m)
       (sn_limits_by_pool s) (pool_entries cfg)"
  "sn_request_limits_by_pool (foldl load_target_limit s cfg) =
     foldl (\<lambda>m x. case pl_daily_requests (snd x) of None \<Rightarrow> m | Some l \<Rightarrow> bt_insert (fst x) l m)
       (sn_request_limits_by_pool s) (pool_entries cfg)"
  by (induction cfg arbitrary: s)
     (auto simp: load_target_limit_def Let_def load_pools_limits pool_entries_def)

text \<open>
  Configurations whose names are already in normal form: lower-case, trimmed, no separator
  in a target, no blank pool. Both surfaces then look names up exactly.
\<close>

definition normal_limits :: "limits_config \<Rightarrow> bool" where
  "normal_limits cfg \<longleftrightarrow> bt_wf cfg \<and> list_all (\<lambda>(t, l).
     normalize_target t = t \<and> POOL_SEPARATOR \<notin> set t \<and> bt_wf (tl_pools l) \<and>
     list_all (\<lambda>(p, _). normalize_pool p = Some p) (tl_pools l)) cfg"

lemma normalize_target_lower: "normalize_target t = t \<Longrightarrow> to_ascii_lowercase t = t"
  unfolding normalize_target_def by (metis lower_ascii_lowercase_idem)

lemma normalize_pool_lower: "normalize_pool p = Some p \<Longrightarrow> to_ascii_lowercase p = p"
  unfolding normalize_pool_def Let_def
  by (metis lower_ascii_lowercase_idem option.distinct(1) option.inject)

lemma lookup_ignore_case_exact:
  assumes "to_ascii_lowercase name = name" "list_all (\<lambda>(k, _). to_ascii_lowercase k = k) m"
  shows "lookup_ignore_case m name = bt_get m name"
proof (cases "bt_get m name")
  case None
  then have "name \<notin> set (bt_keys m)" by (simp add: map_of_eq_None_iff)
  then have "List.find (\<lambda>(k, _). eq_ignore_ascii_case k name) m = None"
    using assms by (force simp: find_None_iff eq_ignore_ascii_case_def list_all_iff)
  with None show ?thesis by (simp add: lookup_ignore_case_def)
qed (simp add: lookup_ignore_case_def)

lemma normal_limits_target:
  assumes "normal_limits cfg" "normalize_target t = t"
  shows "limits_target cfg t = bt_get cfg t"
  unfolding limits_target_def
  by (rule lookup_ignore_case_exact)
     (use assms in \<open>auto simp: normal_limits_def list_all_iff intro: normalize_target_lower\<close>)

lemma normal_limits_pool:
  assumes "normal_limits cfg" "(t, l) \<in> set cfg" "normalize_pool p = Some p"
  shows "target_limit_pool l p = bt_get (tl_pools l) p"
proof -
  have "list_all (\<lambda>(k, _). normalize_pool k = Some k) (tl_pools l)"
    using assms(1,2) by (auto simp: normal_limits_def list_all_iff)
  then have "list_all (\<lambda>(k, _). to_ascii_lowercase k = k) (tl_pools l)"
    by (auto simp: list_all_iff intro: normalize_pool_lower)
  then show ?thesis unfolding target_limit_pool_def
    using assms(3) by (intro lookup_ignore_case_exact normalize_pool_lower)
qed

lemma loaded_target_limit:
  assumes "normal_limits cfg" "normalize_target t = t" "sn_limits_by_target s = []" "sn_request_limits_by_target s = []"
  shows "bt_get (sn_limits_by_target (foldl load_target_limit s cfg)) t =
      Option.bind (limits_target cfg t) tl_daily_tokens"
    "bt_get (sn_request_limits_by_target (foldl load_target_limit s cfg)) t =
      Option.bind (limits_target cfg t) tl_daily_requests"
proof -
  have wf: "bt_wf cfg" using assms(1) by (simp add: normal_limits_def)
  have low: "to_ascii_lowercase (fst x) = t \<longleftrightarrow> fst x = t" if "x \<in> set cfg" for x
    using that assms(1) by (force simp: normal_limits_def list_all_iff dest!: normalize_target_lower)
  have same: "f (snd x) = Option.bind (bt_get cfg t) f"
    if "x \<in> set cfg" "to_ascii_lowercase (fst x) = t" for x and f :: "target_limit \<Rightarrow> nat option"
    using that low bt_get_in [OF wf, of t "snd x"] by (cases x) auto
  have ex: "\<exists>x \<in> set cfg. to_ascii_lowercase (fst x) = t" if some: "Option.bind (bt_get cfg t) f \<noteq> None" for f :: "target_limit \<Rightarrow> nat option"
  proof -
    obtain l where "bt_get cfg t = Some l" using some by (cases "bt_get cfg t") auto
    then have "(t, l) \<in> set cfg" using bt_get_in [OF wf] by simp
    then show ?thesis using low by force
  qed
  show "bt_get (sn_limits_by_target (foldl load_target_limit s cfg)) t =
      Option.bind (limits_target cfg t) tl_daily_tokens"
    unfolding load_targets_limits normal_limits_target [OF assms(1,2)]
    by (subst last_put [where v = "Option.bind (bt_get cfg t) tl_daily_tokens"])
       (use same ex assms in auto)
  show "bt_get (sn_request_limits_by_target (foldl load_target_limit s cfg)) t =
      Option.bind (limits_target cfg t) tl_daily_requests"
    unfolding load_targets_limits normal_limits_target [OF assms(1,2)]
    by (subst last_put [where v = "Option.bind (bt_get cfg t) tl_daily_requests"])
       (use same ex assms in auto)
qed

lemma pool_entries_value:
  assumes "normal_limits cfg" "normalize_target t = t" "POOL_SEPARATOR \<notin> set t" "normalize_pool p = Some p"
    and "x \<in> set (pool_entries cfg)" "fst x = canonical (PoolKey t (Some p))"
  shows "Option.bind (limits_target cfg t) (\<lambda>l. target_limit_pool l p) = Some (snd x)"
proof -
  obtain t' l p' c where x: "x = (canonical (pool_key_new t' (Some p')), c)"
    and l: "(t', l) \<in> set cfg" and c: "(p', c) \<in> set (tl_pools l)"
    using assms(5) by (auto simp: pool_entries_def)
  have n: "normalize_target t' = t'" "POOL_SEPARATOR \<notin> set t'" "bt_wf (tl_pools l)" "normalize_pool p' = Some p'"
    using assms(1) l c by (auto simp: normal_limits_def list_all_iff)
  then have new: "pool_key_new t' (Some p') = PoolKey t' (Some p')" by (simp add: pool_key_new_def)
  have "PoolKey t' (Some p') = PoolKey t (Some p)"
    by (rule canonical_inj) (use n assms x new in \<open>simp_all add: pool_key_wf_def\<close>)
  then have eq: "t' = t" "p' = p" by simp_all
  have "bt_wf cfg" using assms(1) by (simp add: normal_limits_def)
  then have "limits_target cfg t = Some l"
    using normal_limits_target [OF assms(1,2)] l eq bt_get_in by metis
  moreover have "target_limit_pool l p = Some c"
    using normal_limits_pool [OF assms(1) l assms(4)] bt_get_in [OF n(3), of p c] c eq by simp
  ultimately show ?thesis by (simp add: x)
qed

lemma pool_entries_ex:
  assumes "normal_limits cfg" "normalize_target t = t" "normalize_pool p = Some p"
    and "Option.bind (limits_target cfg t) (\<lambda>l. target_limit_pool l p) = Some c"
  shows "(canonical (PoolKey t (Some p)), c) \<in> set (pool_entries cfg)"
proof -
  have wf: "bt_wf cfg" using assms(1) by (simp add: normal_limits_def)
  obtain l where l: "bt_get cfg t = Some l" "target_limit_pool l p = Some c"
    using assms(4) normal_limits_target [OF assms(1,2)] by (auto simp: bind_eq_Some_conv)
  then have l': "(t, l) \<in> set cfg" using bt_get_in [OF wf] by simp
  then have "bt_wf (tl_pools l)" using assms(1) by (auto simp: normal_limits_def list_all_iff)
  then have "(p, c) \<in> set (tl_pools l)"
    using l(2) normal_limits_pool [OF assms(1) l' assms(3)] bt_get_in by metis
  moreover have "pool_key_new t (Some p) = PoolKey t (Some p)" using assms by (simp add: pool_key_new_def)
  ultimately show ?thesis using l' by (force simp: pool_entries_def)
qed

lemma loaded_pool_limit_aux:
  assumes "normal_limits cfg" "normalize_target t = t" "POOL_SEPARATOR \<notin> set t" "normalize_pool p = Some p"
  shows "bt_get (foldl (\<lambda>m x. case f (snd x) of None \<Rightarrow> m | Some l \<Rightarrow> bt_insert (fst x) l m) [] (pool_entries cfg))
       (canonical (PoolKey t (Some p))) =
     Option.bind (Option.bind (limits_target cfg t) (\<lambda>l. target_limit_pool l p)) f"
proof (subst last_put [where v = "Option.bind (Option.bind (limits_target cfg t) (\<lambda>l. target_limit_pool l p)) f"])
  fix x assume "x \<in> set (pool_entries cfg)" "fst x = canonical (PoolKey t (Some p))"
  from pool_entries_value [OF assms this]
  show "f (snd x) = Option.bind (Option.bind (limits_target cfg t) (\<lambda>l. target_limit_pool l p)) f" by simp
next
  assume "Option.bind (Option.bind (limits_target cfg t) (\<lambda>l. target_limit_pool l p)) f \<noteq> None"
  then obtain c where "Option.bind (limits_target cfg t) (\<lambda>l. target_limit_pool l p) = Some c"
    by (cases "Option.bind (limits_target cfg t) (\<lambda>l. target_limit_pool l p)") auto
  from pool_entries_ex [OF assms(1,2,4) this]
  show "\<exists>x \<in> set (pool_entries cfg). fst x = canonical (PoolKey t (Some p))" by force
qed auto

lemma pool_entries_unpooled:
  assumes "normal_limits cfg" "x \<in> set (pool_entries cfg)" "POOL_SEPARATOR \<notin> set t"
  shows "fst x \<noteq> t"
proof -
  obtain t' l p' c where x: "x = (canonical (pool_key_new t' (Some p')), c)"
    and l: "(t', l) \<in> set cfg" and c: "(p', c) \<in> set (tl_pools l)"
    using assms(2) by (auto simp: pool_entries_def)
  then have "normalize_pool p' = Some p'"
    using assms(1) by (auto simp: normal_limits_def list_all_iff)
  with x assms(3) show ?thesis by (auto simp: pool_key_new_def)
qed

lemma loaded_unpooled_limit:
  assumes "normal_limits cfg" "POOL_SEPARATOR \<notin> set t"
  shows "bt_get (foldl (\<lambda>m x. case f (snd x) of None \<Rightarrow> m | Some l \<Rightarrow> bt_insert (fst x) l m) [] (pool_entries cfg)) t = None"
  by (subst last_put [where v = None]) (use pool_entries_unpooled [OF assms(1)] assms(2) in auto)

text \<open>The pool cap the ledger resolves from the configuration is the one the loader stored.\<close>

lemma loaded_pool_limit:
  assumes "normal_limits cfg" "pool_key_wf key" "sn_limits_by_pool s = []" "sn_request_limits_by_pool s = []"
    and "pool_limit = option_filter pool_limit_is_set (Option.bind (pk_pool key)
        (\<lambda>pool. Option.bind (limits_target cfg (pk_target key)) (\<lambda>l. target_limit_pool l pool)))"
  shows "bt_get (sn_limits_by_pool (foldl load_target_limit s cfg)) (canonical key) = Option.bind pool_limit pl_daily_tokens"
    "bt_get (sn_request_limits_by_pool (foldl load_target_limit s cfg)) (canonical key) = Option.bind pool_limit pl_daily_requests"
proof -
  obtain t p where key: "key = PoolKey t p" by (cases key)
  with assms(2) have t: "normalize_target t = t" "POOL_SEPARATOR \<notin> set t" by (simp_all add: pool_key_wf_def)
  have main: "bt_get (foldl (\<lambda>m x. case f (snd x) of None \<Rightarrow> m | Some l \<Rightarrow> bt_insert (fst x) l m) []
      (pool_entries cfg)) (canonical key) = Option.bind pool_limit f"
    if f: "\<And>c. f c \<noteq> None \<Longrightarrow> pool_limit_is_set c" for f :: "pool_limit \<Rightarrow> nat option"
  proof -
    have filt: "Option.bind (option_filter pool_limit_is_set o') f = Option.bind o' f" for o'
      using f by (cases o') (force simp: option_filter_def)+
    show ?thesis
    proof (cases p)
      case None
      then show ?thesis using key loaded_unpooled_limit [OF assms(1) t(2)] by (simp add: assms(5) filt)
    next
      case (Some q)
      then have "normalize_pool q = Some q" using assms(2) key by (simp add: pool_key_wf_def)
      then show ?thesis using Some key loaded_pool_limit_aux [OF assms(1) t] by (simp add: assms(5) filt)
    qed
  qed
  show "bt_get (sn_limits_by_pool (foldl load_target_limit s cfg)) (canonical key) = Option.bind pool_limit pl_daily_tokens"
    "bt_get (sn_request_limits_by_pool (foldl load_target_limit s cfg)) (canonical key) = Option.bind pool_limit pl_daily_requests"
    unfolding load_targets_pool_limits assms(3,4) by (rule main, simp add: pool_limit_is_set_def)+
qed

section \<open>The ledger window over the snapshot\<close>

lemma overlay_targets_fields:
  "sn_usage_by_target (foldl overlay_target s ws) =
     foldl (\<lambda>m x. bt_insert (fst x) (wu_tokens (tw_last_24h (snd x))) m) (sn_usage_by_target s) ws"
  "sn_requests_by_target (foldl overlay_target s ws) =
     foldl (\<lambda>m x. bt_insert (fst x) (wu_requests (tw_last_24h (snd x))) m) (sn_requests_by_target s) ws"
  "sn_limits_by_target (foldl overlay_target s ws) = sn_limits_by_target s"
  "sn_request_limits_by_target (foldl overlay_target s ws) = sn_request_limits_by_target s"
  "sn_usage_by_pool (foldl overlay_target s ws) = sn_usage_by_pool s"
  "sn_requests_by_pool (foldl overlay_target s ws) = sn_requests_by_pool s"
  "sn_limits_by_pool (foldl overlay_target s ws) = sn_limits_by_pool s"
  "sn_request_limits_by_pool (foldl overlay_target s ws) = sn_request_limits_by_pool s"
  by (induction ws arbitrary: s) (simp_all add: overlay_target_def)

lemma overlay_pools_fields:
  "sn_usage_by_pool (foldl overlay_pool s ws) =
     foldl (\<lambda>m x. bt_insert (fst x) (wu_tokens (tw_last_24h (snd x))) m) (sn_usage_by_pool s) ws"
  "sn_requests_by_pool (foldl overlay_pool s ws) =
     foldl (\<lambda>m x. bt_insert (fst x) (wu_requests (tw_last_24h (snd x))) m) (sn_requests_by_pool s) ws"
  "sn_limits_by_target (foldl overlay_pool s ws) = sn_limits_by_target s"
  "sn_request_limits_by_target (foldl overlay_pool s ws) = sn_request_limits_by_target s"
  "sn_usage_by_target (foldl overlay_pool s ws) = sn_usage_by_target s"
  "sn_requests_by_target (foldl overlay_pool s ws) = sn_requests_by_target s"
  "sn_limits_by_pool (foldl overlay_pool s ws) = sn_limits_by_pool s"
  "sn_request_limits_by_pool (foldl overlay_pool s ws) = sn_request_limits_by_pool s"
  by (induction ws arbitrary: s) (simp_all add: overlay_pool_def)

lemma overlay_get:
  assumes "bt_wf m" "bt_wf ws"
  shows "bt_get (foldl (\<lambda>m x. bt_insert (fst x) (f (snd x)) m) m ws) k =
    (case bt_get ws k of None \<Rightarrow> bt_get m k | Some w \<Rightarrow> Some (f w))"
  using assms
proof (induction ws arbitrary: m)
  case Nil
  then show ?case by simp
next
  case (Cons x ws)
  obtain k' w where x: "x = (k', w)" by (cases x)
  have "bt_get ws k' = None" using Cons.prems(2) x by (auto simp: bt_wf_Cons map_of_eq_None_iff)
  then show ?case using Cons x by (auto simp: bt_wf_Cons bt_get_insert split: option.split)
qed

lemma push_source_fields [simp]:
  "sn_usage_by_target (push_source l s) = sn_usage_by_target s"
  "sn_requests_by_target (push_source l s) = sn_requests_by_target s"
  "sn_limits_by_target (push_source l s) = sn_limits_by_target s"
  "sn_request_limits_by_target (push_source l s) = sn_request_limits_by_target s"
  "sn_usage_by_pool (push_source l s) = sn_usage_by_pool s"
  "sn_requests_by_pool (push_source l s) = sn_requests_by_pool s"
  "sn_limits_by_pool (push_source l s) = sn_limits_by_pool s"
  "sn_request_limits_by_pool (push_source l s) = sn_request_limits_by_pool s"
  by (simp_all add: push_source_def)

lemma with_ledger_fields:
  "sn_usage_by_target (with_ledger_window pooled s) = sn_usage_by_target (foldl overlay_target s (fold_pools_to_targets pooled))"
  "sn_requests_by_target (with_ledger_window pooled s) = sn_requests_by_target (foldl overlay_target s (fold_pools_to_targets pooled))"
  "sn_usage_by_pool (with_ledger_window pooled s) = sn_usage_by_pool (foldl overlay_pool s pooled)"
  "sn_requests_by_pool (with_ledger_window pooled s) = sn_requests_by_pool (foldl overlay_pool s pooled)"
  "sn_limits_by_target (with_ledger_window pooled s) = sn_limits_by_target s"
  "sn_request_limits_by_target (with_ledger_window pooled s) = sn_request_limits_by_target s"
  "sn_limits_by_pool (with_ledger_window pooled s) = sn_limits_by_pool s"
  "sn_request_limits_by_pool (with_ledger_window pooled s) = sn_request_limits_by_pool s"
  by (simp_all add: with_ledger_window_def Let_def overlay_pools_fields overlay_targets_fields)

text \<open>The token log and the proxy statistics leave every limit and every pool counter alone.\<close>

lemma token_log_add_fields:
  "sn_limits_by_target (foldl token_log_add s rows) = sn_limits_by_target s"
  "sn_request_limits_by_target (foldl token_log_add s rows) = sn_request_limits_by_target s"
  "sn_usage_by_pool (foldl token_log_add s rows) = sn_usage_by_pool s"
  "sn_requests_by_pool (foldl token_log_add s rows) = sn_requests_by_pool s"
  "sn_limits_by_pool (foldl token_log_add s rows) = sn_limits_by_pool s"
  "sn_request_limits_by_pool (foldl token_log_add s rows) = sn_request_limits_by_pool s"
  by (induction rows arbitrary: s) (simp_all add: token_log_add_def Let_def split: option.split)

lemma token_log_add_wf:
  "bt_wf (sn_usage_by_target s) \<Longrightarrow> bt_wf (sn_requests_by_target s) \<Longrightarrow>
   bt_wf (sn_usage_by_target (foldl token_log_add s rows)) \<and> bt_wf (sn_requests_by_target (foldl token_log_add s rows))"
  by (induction rows arbitrary: s) (auto simp: token_log_add_def Let_def add_usage_def split: option.split)

definition before_limits :: "usage_env \<Rightarrow> usage_snapshot" where
  "before_limits env = load_proxy_stats (ue_proxy_path env) (ue_proxy_present env) (ue_proxy_output env)
     (load_token_log TOKEN_LOG_PATH (ue_token_log env) snapshot_default)"

lemma before_limits_empty:
  "sn_limits_by_target (before_limits env) = []" "sn_request_limits_by_target (before_limits env) = []"
  "sn_limits_by_pool (before_limits env) = []" "sn_request_limits_by_pool (before_limits env) = []"
  "sn_usage_by_pool (before_limits env) = []" "sn_requests_by_pool (before_limits env) = []"
  by (simp_all add: before_limits_def load_proxy_stats_def load_token_log_def Let_def token_log_add_fields
      snapshot_default_def split: option.split sum.split)

lemma before_limits_wf:
  "bt_wf (sn_usage_by_target (before_limits env)) \<and> bt_wf (sn_requests_by_target (before_limits env))"
proof -
  have "bt_wf (sn_usage_by_target (load_token_log p f snapshot_default)) \<and>
      bt_wf (sn_requests_by_target (load_token_log p f snapshot_default))" for p f
    using token_log_add_wf [of snapshot_default]
    by (simp add: load_token_log_def Let_def snapshot_default_def split: option.split)
  then show ?thesis
    by (simp add: before_limits_def load_proxy_stats_def Let_def add_usage_def split: sum.split option.split)
qed

text \<open>What the loaded snapshot holds, field by field, once a configuration was read.\<close>

lemma loaded_fields:
  assumes "ue_config_path env = Some path" "ue_config env = Inr cfg"
  shows "sn_limits_by_target (load_best_effort env) = sn_limits_by_target (foldl load_target_limit (before_limits env) cfg)"
    "sn_request_limits_by_target (load_best_effort env) = sn_request_limits_by_target (foldl load_target_limit (before_limits env) cfg)"
    "sn_limits_by_pool (load_best_effort env) = sn_limits_by_pool (foldl load_target_limit (before_limits env) cfg)"
    "sn_request_limits_by_pool (load_best_effort env) = sn_request_limits_by_pool (foldl load_target_limit (before_limits env) cfg)"
    "sn_usage_by_target (load_best_effort env) = sn_usage_by_target (before_limits env)"
    "sn_requests_by_target (load_best_effort env) = sn_requests_by_target (before_limits env)"
    "sn_usage_by_pool (load_best_effort env) = []"
    "sn_requests_by_pool (load_best_effort env) = []"
  using assms before_limits_empty [of env]
  by (simp_all add: load_best_effort_def before_limits_def [symmetric] load_limits_def Let_def
      limits_is_empty_def load_targets_keep)

lemma routing_usage:
  assumes "ue_config_path env = Some path" "ue_config env = Inr cfg"
    and "bt_get (provider_usage_windows ledger now) t = Some w"
  shows "bt_get (sn_usage_by_target (load_for_routing env ledger now)) t = Some (wu_tokens (tw_last_24h w))"
    "bt_get (sn_requests_by_target (load_for_routing env ledger now)) t = Some (wu_requests (tw_last_24h w))"
proof -
  have wf: "bt_wf (fold_pools_to_targets (pool_usage_windows ledger now))" by (simp add: fold_targets_wf)
  have "bt_get (fold_pools_to_targets (pool_usage_windows ledger now)) t = Some w"
    using assms(3) by (simp add: provider_usage_windows_def)
  then show "bt_get (sn_usage_by_target (load_for_routing env ledger now)) t = Some (wu_tokens (tw_last_24h w))"
    "bt_get (sn_requests_by_target (load_for_routing env ledger now)) t = Some (wu_requests (tw_last_24h w))"
    unfolding load_for_routing_def with_ledger_fields overlay_targets_fields loaded_fields [OF assms(1,2)]
    using before_limits_wf [of env] wf
    by (simp_all add: overlay_get [where f = "\<lambda>w. wu_tokens (tw_last_24h w)"]
        overlay_get [where f = "\<lambda>w. wu_requests (tw_last_24h w)"])
qed

lemma routing_pool_usage:
  assumes "ue_config_path env = Some path" "ue_config env = Inr cfg"
  shows "bt_get_or 0 (sn_usage_by_pool (load_for_routing env ledger now)) k =
      wu_tokens (tw_last_24h (bt_get_or windows_default (pool_usage_windows ledger now) k))"
    "bt_get_or 0 (sn_requests_by_pool (load_for_routing env ledger now)) k =
      wu_requests (tw_last_24h (bt_get_or windows_default (pool_usage_windows ledger now) k))"
proof -
  have "bt_wf (pool_usage_windows ledger now)" by (simp add: pool_usage_windows_def pool_windows_wf)
  then show "bt_get_or 0 (sn_usage_by_pool (load_for_routing env ledger now)) k =
      wu_tokens (tw_last_24h (bt_get_or windows_default (pool_usage_windows ledger now) k))"
    "bt_get_or 0 (sn_requests_by_pool (load_for_routing env ledger now)) k =
      wu_requests (tw_last_24h (bt_get_or windows_default (pool_usage_windows ledger now) k))"
    unfolding load_for_routing_def with_ledger_fields overlay_pools_fields loaded_fields [OF assms] bt_get_or_def
    by (simp_all add: overlay_get [where f = "\<lambda>w. wu_tokens (tw_last_24h w)"]
        overlay_get [where f = "\<lambda>w. wu_requests (tw_last_24h w)"] windows_default_def window_default_def
        split: option.split)
qed

lemma axis_cap_uncapped: "is_capped (pc_scope (axis_cap p t u v)) \<longleftrightarrow> p \<noteq> None \<or> t \<noteq> None"
  by (simp add: axis_cap_def cap_capped_def cap_unknown_def is_capped_def split: option.split)

section \<open>Properties\<close>

definition quota_view :: "pool_headroom_rec \<Rightarrow> pool_quota" where
  "quota_view h = \<lparr>pq_key = ph_key h, pq_used = ph_used_tokens h, pq_request_used = ph_used_requests h,
     pq_tokens = ph_tokens h, pq_requests = ph_requests h\<rparr>"

text \<open>Without provider reports the two surfaces give the same quota.\<close>

lemma snapshot_without_report:
  assumes "ue_config_path env = Some path" "ue_config env = Inr cfg" "normal_limits cfg" "pool_key_wf key"
    and "bt_get (provider_usage_windows ledger now) (target_key key) \<noteq> None"
    and "h = headroom_for_pool key cfg ledger None now"
  shows "snapshot_pool_headroom (load_for_routing env ledger now) key =
    (if ph_limits_unknown h then None else Some (quota_view h))"
proof -
  obtain w where w: "bt_get (provider_usage_windows ledger now) (pk_target key) = Some w" using assms(5) by blast
  note use = routing_usage [OF assms(1,2) w] routing_pool_usage [OF assms(1,2)]
  have t: "normalize_target (pk_target key) = pk_target key" using assms(4) by (simp add: pool_key_wf_def)
  note lim = loaded_target_limit [OF assms(3) t before_limits_empty(1,2)]
    loaded_pool_limit [OF assms(3,4) before_limits_empty(3,4) refl]
  have target: "bt_get_or windows_default (fold_pools_to_targets (pool_usage_windows ledger now)) (pk_target key) = w"
    "bt_get_or 0 (sn_usage_by_target (load_for_routing env ledger now)) (pk_target key) = wu_tokens (tw_last_24h w)"
    "bt_get_or 0 (sn_requests_by_target (load_for_routing env ledger now)) (pk_target key) = wu_requests (tw_last_24h w)"
    using w use(1,2) by (simp_all add: provider_usage_windows_def bt_get_or_def)
  have sig: "rate_limit_signals None = []" by (simp add: rate_limit_signals_def read_signals_def latest_signals_def)
  have h: "h = headroom_for_pool_in key (pool_usage_windows ledger now)
      (fold_pools_to_targets (pool_usage_windows ledger now)) cfg [] now"
    by (simp add: assms(6) headroom_for_pool_def sig Let_def)
  have none: "axis_cap_with_reported axis_default a b c d = axis_cap a b c d" for a b c d
    by (simp add: axis_cap_with_reported_def axis_default_def)
  have limits: "sn_limits_by_target (load_for_routing env ledger now) = sn_limits_by_target (load_best_effort env)"
    "sn_request_limits_by_target (load_for_routing env ledger now) = sn_request_limits_by_target (load_best_effort env)"
    "sn_limits_by_pool (load_for_routing env ledger now) = sn_limits_by_pool (load_best_effort env)"
    "sn_request_limits_by_pool (load_for_routing env ledger now) = sn_request_limits_by_pool (load_best_effort env)"
    by (simp_all add: load_for_routing_def with_ledger_fields)
  show ?thesis
    unfolding snapshot_pool_headroom_def h headroom_for_pool_in_def Let_def limits loaded_fields [OF assms(1,2)] lim
    by (simp add: use(3,4) target signal_default_def none ph_limits_unknown_def
        axis_cap_uncapped quota_view_def)
qed

text \<open>What the provider last said of a pool, as far as it still holds.\<close>

definition reported_now :: "string option \<Rightarrow> pool_key \<Rightarrow> nat \<Rightarrow> signal_rec" where
  "reported_now signals key now =
     (case Option.bind (rate_limit_signal_for signals key) (\<lambda>s. current_at s now) of None \<Rightarrow> signal_default | Some s \<Rightarrow> s)"

text \<open>A report replaces the configured cap of its axis and nothing else.\<close>

lemma headroom_reported:
  "headroom_for_pool key cfg ledger signals now =
    (let h = headroom_for_pool key cfg ledger None now; r = reported_now signals key now in
     h\<lparr>ph_tokens := (case ax_remaining (sg_tokens r) of None \<Rightarrow> ph_tokens h
         | Some remaining \<Rightarrow> cap_reported (ax_limit (sg_tokens r)) remaining (ph_used_tokens h)),
       ph_requests := (case ax_remaining (sg_requests r) of None \<Rightarrow> ph_requests h
         | Some remaining \<Rightarrow> cap_reported (ax_limit (sg_requests r)) remaining (ph_used_requests h))\<rparr>)"
proof -
  have none: "rate_limit_signals None = []" by (simp add: rate_limit_signals_def read_signals_def latest_signals_def)
  show ?thesis
    unfolding headroom_for_pool_def headroom_for_pool_in_def reported_now_def rate_limit_signal_for_def none Let_def
    by (cases "Option.bind (bt_get (rate_limit_signals signals) (canonical key)) (\<lambda>s. current_at s now)")
      (simp_all add: signal_default_def axis_default_def axis_cap_with_reported_def split: option.split)
qed

text \<open>
  C6 (snapshot_agrees_with_ledger): how the snapshot used for routing and the ledger's own computation, which
  alone reads the providers' rate-limit reports, agree about a pool. For a configuration with
  normalised names and a pool whose target has ledger rows, whatever the token log and the proxy
  statistics held: the snapshot knows the pool exactly when a cap is configured for it, with the
  ledger's key and use; an axis on which no current report gives a remaining amount has the same
  cap, scope and remaining room in both, and on a reported axis the ledger takes the report and
  the snapshot still shows the configured cap.
\<close>

theorem snapshot_agrees_with_ledger:
  assumes "ue_config_path env = Some path" "ue_config env = Inr cfg" "normal_limits cfg" "pool_key_wf key"
    and "bt_get (provider_usage_windows ledger now) (target_key key) \<noteq> None"
    and "h = headroom_for_pool key cfg ledger signals now" and "configured = headroom_for_pool key cfg ledger None now"
    and "r = reported_now signals key now"
  shows "case snapshot_pool_headroom (load_for_routing env ledger now) key of
      None \<Rightarrow> ph_limits_unknown configured
    | Some q \<Rightarrow> \<not> ph_limits_unknown configured \<and> pq_key q = ph_key h \<and>
        pq_used q = ph_used_tokens h \<and> pq_request_used q = ph_used_requests h \<and>
        pq_tokens q = ph_tokens configured \<and> pq_requests q = ph_requests configured \<and>
        ph_tokens h = (case ax_remaining (sg_tokens r) of None \<Rightarrow> pq_tokens q
          | Some remaining \<Rightarrow> cap_reported (ax_limit (sg_tokens r)) remaining (pq_used q)) \<and>
        ph_requests h = (case ax_remaining (sg_requests r) of None \<Rightarrow> pq_requests q
          | Some remaining \<Rightarrow> cap_reported (ax_limit (sg_requests r)) remaining (pq_request_used q))"
proof -
  note base = snapshot_without_report [OF assms(1-5) refl, folded assms(7)]
  have h: "h = configured\<lparr>ph_tokens := (case ax_remaining (sg_tokens r) of None \<Rightarrow> ph_tokens configured
         | Some remaining \<Rightarrow> cap_reported (ax_limit (sg_tokens r)) remaining (ph_used_tokens configured)),
       ph_requests := (case ax_remaining (sg_requests r) of None \<Rightarrow> ph_requests configured
         | Some remaining \<Rightarrow> cap_reported (ax_limit (sg_requests r)) remaining (ph_used_requests configured))\<rparr>"
    unfolding assms(6,7,8) by (subst headroom_reported) (simp only: Let_def)
  show ?thesis unfolding base h by (simp add: quota_view_def split: option.split)
qed

definition sample_limits :: limits_config where
  "sample_limits = [(''opencode'', \<lparr>tl_daily_tokens = Some 1000, tl_daily_requests = None,
     tl_pools = [(''go'', \<lparr>pl_daily_tokens = None, pl_daily_requests = Some 20\<rparr>)]\<rparr>)]"

definition sample_env :: usage_env where
  "sample_env = \<lparr>ue_token_log = None, ue_proxy_path = ''p'', ue_proxy_present = False,
     ue_proxy_output = SpawnFailed ''none'', ue_config_path = Some ''c'', ue_config = Inr sample_limits\<rparr>"

text \<open>A report of the provider for the pool: 7 of 50 requests left.\<close>

definition sample_report :: signal_rec where
  "sample_report = \<lparr>sg_key = ''opencode#ollama'', sg_observed_at = 1700000090, sg_status = 200,
     sg_requests = \<lparr>ax_limit = Some 50, ax_remaining = Some 7, ax_reset_at = None\<rparr>, sg_tokens = axis_default,
     sg_retry_after_at = None\<rparr>"

theorem snapshot_agrees_with_ledger_witness:
  "(let file = Some (ledger_file [sample_row]); key = PoolKey ''opencode'' (Some ''ollama'');
        h = headroom_for_pool key sample_limits file (Some (signal_file [sample_report])) 1700000100 in
    case snapshot_pool_headroom (load_for_routing sample_env file 1700000100) key of
      None \<Rightarrow> False
    | Some q \<Rightarrow> ph_tokens h = pq_tokens q \<and> ph_requests h = cap_reported (Some 50) 7 (pq_request_used q))"
proof -
  let ?file = "Some (ledger_file [sample_row])" and ?key = "PoolKey ''opencode'' (Some ''ollama'')"
  let ?signals = "Some (signal_file [sample_report])"
  have path: "ue_config_path sample_env = Some ''c''" "ue_config sample_env = Inr sample_limits"
    by (simp_all add: sample_env_def)
  have wf: "normal_limits sample_limits" "pool_key_wf ?key" by code_simp+
  have row: "bt_get (provider_usage_windows ?file 1700000100) (target_key ?key) \<noteq> None" by code_simp
  have known: "\<not> ph_limits_unknown (headroom_for_pool ?key sample_limits ?file None 1700000100)" by code_simp
  have report: "ax_remaining (sg_tokens (reported_now ?signals ?key 1700000100)) = None"
    "ax_remaining (sg_requests (reported_now ?signals ?key 1700000100)) = Some 7"
    "ax_limit (sg_requests (reported_now ?signals ?key 1700000100)) = Some 50" by code_simp+
  from snapshot_agrees_with_ledger [OF path wf row refl refl refl, of ?signals] known report show ?thesis
    unfolding Let_def by (auto split: option.splits)
qed

end
