(* ===== verification/Core_Error.thy ===== *)
theory Core_Error
  imports Rust_Str
begin

text \<open>
  \<^verbatim>\<open>crates/rtrt-core/src/error.rs\<close>: the error type shared by every crate, and its text. The
  payloads of the I/O and JSON errors are their messages.
\<close>

datatype error =
    Config string
  | Plugin string
  | Provider string
  | Memory string
  | Io string
  | Serde string

fun error_display :: "error \<Rightarrow> string" where
  "error_display (Config m) = ''config error: '' @ m"
| "error_display (Plugin m) = ''plugin error: '' @ m"
| "error_display (Provider m) = ''provider error: '' @ m"
| "error_display (Memory m) = ''memory error: '' @ m"
| "error_display (Io m) = ''io error: '' @ m"
| "error_display (Serde m) = ''serde error: '' @ m"

end
