(* ===== verification/Router.thy ===== *)
theory Router
  imports Usage Core_Error
begin

text \<open>
  \<^verbatim>\<open>crates/rtrt-providers/src/router.rs\<close>: which detected tool, mode and model serve a
  request. Candidates are built per quota bucket, scored against the usage snapshot,
  sorted by a chain of comparisons and turned into a decision with ranked alternatives.
  The tool records are those of \<^verbatim>\<open>crates/rtrt-core/src/detect.rs\<close>.
\<close>

section \<open>Detected tools\<close>

datatype tool_kind = CodingAgent | LocalRuntime | ProviderApi | McpServer

datatype invocation_mode = Cli_invocation | Api_invocation | Mcp_invocation

datatype cost_class = LocalFree | SubscriptionFlat | ApiMetered | Unknown_cost

datatype capability = Reasoning | Code | Vision | Embed | Agentic | CheapBulk

record detected_tool =
  dt_name :: string
  dt_kind :: tool_kind
  dt_installed :: bool
  dt_path :: "string option"
  dt_version :: "string option"
  dt_invocation_modes :: "invocation_mode list"
  dt_cli_invocation :: "string option"
  dt_cost_class :: cost_class
  dt_capabilities :: "capability list"
  dt_config_path :: "string option"
  dt_models :: "string list"
  dt_server_running :: "bool option"
  dt_enabled :: bool

datatype mode = Cli | Api | Auto

definition mode_parse_label :: "string \<Rightarrow> error + mode" where
  "mode_parse_label v =
     (if v = ''cli'' then Inr Cli else if v = ''api'' then Inr Api else if v = ''auto'' then Inr Auto
      else Inl (Provider (''invoke: unknown mode '' @ [CHR 39] @ v @ [CHR 39] @
        '' (expected cli, api, or auto)'')))"

section \<open>Requests and decisions\<close>

datatype preference = Cheapest | Quality | Local_first

record route_request =
  rq_capability :: "capability option"
  rq_prefer :: preference
  rq_target :: "string option"
  rq_model :: "string option"
  rq_mode :: "mode option"
  rq_failover :: bool

definition route_request_default :: route_request where
  "route_request_default = \<lparr>rq_capability = None, rq_prefer = Cheapest, rq_target = None,
     rq_model = None, rq_mode = None, rq_failover = False\<rparr>"

record route_alternative =
  ra_target :: string
  ra_mode :: mode
  ra_model :: "string option"
  ra_cost_class :: cost_class
  ra_capabilities :: "capability list"
  ra_headroom :: string
  ra_reason :: string

record route_decision =
  rd_target :: string
  rd_mode :: mode
  rd_model :: "string option"
  rd_cost_class :: cost_class
  rd_reason :: string
  rd_alternatives :: "route_alternative list"

record ranked_target =
  rt_target :: string
  rt_mode :: mode
  rt_model :: "string option"
  rt_cost_class :: cost_class

definition ranked_targets :: "route_decision \<Rightarrow> ranked_target list" where
  "ranked_targets d =
     \<lparr>rt_target = rd_target d, rt_mode = rd_mode d, rt_model = rd_model d, rt_cost_class = rd_cost_class d\<rparr> #
     map (\<lambda>a. \<lparr>rt_target = ra_target a, rt_mode = ra_mode a, rt_model = ra_model a,
               rt_cost_class = ra_cost_class a\<rparr>) (rd_alternatives d)"

section \<open>Headroom scores\<close>

definition NEAR_LIMIT_FRACTION :: rat where
  "NEAR_LIMIT_FRACTION = fl (15 / 100)"

definition SHARED_CAP_NOTE :: string where
  "SHARED_CAP_NOTE = '' (cap shared with sibling pools)''"

record headroom_dimension =
  hd_remaining :: nat
  hd_limit :: nat

datatype headroom_health = Healthy | Near | Exhausted

datatype headroom_score =
    Known "headroom_dimension option" "headroom_dimension option" bool
  | Observed nat nat
  | Unknown

fun exhausted_rank :: "headroom_health \<Rightarrow> nat" where
  "exhausted_rank Exhausted = 1"
| "exhausted_rank h = 0"

fun near_rank :: "headroom_health \<Rightarrow> nat" where
  "near_rank Near = 1"
| "near_rank h = 0"

definition remaining_percent :: "headroom_dimension \<Rightarrow> rat" where
  "remaining_percent d =
     (if hd_limit d = 0 then 0
      else f64_mul (f64_div (f64_of_u64 (hd_remaining d)) (f64_of_u64 (hd_limit d))) 100)"

text \<open>The cross products are taken in 128 bits, which two 64-bit factors cannot overflow.\<close>

definition remaining_fraction_cmp :: "headroom_dimension \<Rightarrow> headroom_dimension \<Rightarrow> ordering" where
  "remaining_fraction_cmp a b =
     (if hd_limit a = 0 \<or> hd_limit b = 0
      then (case (hd_limit a = 0, hd_limit b = 0) of
              (True, True) \<Rightarrow> Equal | (True, False) \<Rightarrow> Less | (False, True) \<Rightarrow> Greater | (False, False) \<Rightarrow> Equal)
      else cmp (of_nat (hd_remaining a) * of_nat (hd_limit b) :: 128 word)
               (of_nat (hd_remaining b) * of_nat (hd_limit a)))"

definition dimension_from_cap :: "pool_cap \<Rightarrow> headroom_dimension option" where
  "dimension_from_cap cap =
     map_option (\<lambda>limit. \<lparr>hd_remaining = (case pc_remaining cap of None \<Rightarrow> 0 | Some r \<Rightarrow> r), hd_limit = limit\<rparr>)
       (pc_limit cap)"

definition from_usage :: "string \<Rightarrow> usage_snapshot \<Rightarrow> headroom_score" where
  "from_usage target u =
     (case snapshot_headroom u target of
        None \<Rightarrow> Unknown
      | Some quota \<Rightarrow>
          Known (if qh_token_limit_configured quota
                 then Some \<lparr>hd_remaining = qh_remaining quota, hd_limit = qh_limit quota\<rparr> else None)
            (case (qh_request_limit quota, qh_request_remaining quota) of
               (Some limit, Some remaining) \<Rightarrow> Some \<lparr>hd_remaining = remaining, hd_limit = limit\<rparr>
             | _ \<Rightarrow> None) False)"

definition from_pool_usage :: "pool_key \<Rightarrow> usage_snapshot \<Rightarrow> headroom_score" where
  "from_pool_usage key u =
     (if \<not> is_pooled key then from_usage (target_key key) u
      else case snapshot_pool_headroom u key of
        Some quota \<Rightarrow> Known (dimension_from_cap (pq_tokens quota)) (dimension_from_cap (pq_requests quota))
          (is_shared (pc_scope (pq_tokens quota)) \<or> is_shared (pc_scope (pq_requests quota)))
      | None \<Rightarrow> Observed (bt_get_or 0 (sn_usage_by_pool u) (canonical key))
          (bt_get_or 0 (sn_requests_by_pool u) (canonical key)))"

fun score_room_basis :: "headroom_score \<Rightarrow> room_basis option" where
  "score_room_basis (Known t r s) = Some Quota"
| "score_room_basis (Observed t r) = Some ObservedUsage"
| "score_room_basis Unknown = None"

definition dimension_label :: "string \<Rightarrow> headroom_dimension \<Rightarrow> string" where
  "dimension_label unit d = nat_str (hd_remaining d) @ ''/'' @ nat_str (hd_limit d) @ '' '' @ unit @
     '' remaining ('' @ f64_fixed 1 (remaining_percent d) @ ''%)''"

fun score_label :: "headroom_score \<Rightarrow> string" where
  "score_label (Observed t r) = ''no configured cap; '' @ nat_str t @ '' tokens / '' @ nat_str r @
     '' requests observed in the last 24h''"
| "score_label (Known tokens requests shared) =
     (let parts = (case tokens of None \<Rightarrow> [] | Some d \<Rightarrow> [dimension_label ''tokens'' d]) @
                  (case requests of None \<Rightarrow> [] | Some d \<Rightarrow> [dimension_label ''requests'' d])
      in if parts = [] then ''unknown''
         else join '', '' parts @ (if shared then SHARED_CAP_NOTE else []))"
| "score_label Unknown = ''unknown''"

definition dimension_health :: "rat \<Rightarrow> headroom_dimension \<Rightarrow> headroom_health" where
  "dimension_health near_fraction d =
     (if hd_remaining d = 0 then Exhausted
      else if remaining_percent d < f64_mul near_fraction 100 then Near else Healthy)"

fun worse_health :: "headroom_health \<Rightarrow> headroom_health \<Rightarrow> headroom_health" where
  "worse_health Exhausted h = Exhausted"
| "worse_health h Exhausted = Exhausted"
| "worse_health Near h = Near"
| "worse_health h Near = Near"
| "worse_health Healthy Healthy = Healthy"

fun score_health :: "rat \<Rightarrow> headroom_score \<Rightarrow> headroom_health" where
  "score_health near_fraction (Known tokens requests shared) =
     foldl (\<lambda>worst d. worse_health worst (dimension_health near_fraction d)) Healthy
       (List.map_filter id [tokens, requests])"
| "score_health near_fraction s = Healthy"

fun limiting_dimension :: "headroom_score \<Rightarrow> headroom_dimension option" where
  "limiting_dimension (Known (Some tokens) (Some requests) shared) =
     Some (if remaining_fraction_cmp tokens requests = Less then tokens else requests)"
| "limiting_dimension (Known (Some tokens) None shared) = Some tokens"
| "limiting_dimension (Known None (Some requests) shared) = Some requests"
| "limiting_dimension (Known None None shared) = None"
| "limiting_dimension (Observed t r) = None"
| "limiting_dimension Unknown = None"

section \<open>Labels\<close>

definition capability_label :: "capability option \<Rightarrow> string" where
  "capability_label c = (case c of
     Some Reasoning \<Rightarrow> ''reasoning'' | Some Code \<Rightarrow> ''code'' | Some Vision \<Rightarrow> ''vision''
   | Some Embed \<Rightarrow> ''embed'' | Some Agentic \<Rightarrow> ''agentic'' | Some CheapBulk \<Rightarrow> ''cheap-bulk''
   | None \<Rightarrow> ''general'')"

fun capability_debug :: "capability \<Rightarrow> string" where
  "capability_debug Reasoning = ''Reasoning''"
| "capability_debug Code = ''Code''"
| "capability_debug Vision = ''Vision''"
| "capability_debug Embed = ''Embed''"
| "capability_debug Agentic = ''Agentic''"
| "capability_debug CheapBulk = ''CheapBulk''"

definition capability_suffix :: "capability option \<Rightarrow> string" where
  "capability_suffix c = (case c of None \<Rightarrow> [] | Some k \<Rightarrow> '' with '' @ capability_debug k @ '' capability'')"

fun cost_class_label :: "cost_class \<Rightarrow> string" where
  "cost_class_label LocalFree = ''local-free''"
| "cost_class_label SubscriptionFlat = ''subscription-flat''"
| "cost_class_label ApiMetered = ''api-metered''"
| "cost_class_label Unknown_cost = ''unknown-cost''"

fun mode_label :: "mode \<Rightarrow> string" where
  "mode_label Cli = ''cli''"
| "mode_label Api = ''api''"
| "mode_label Auto = ''auto''"

fun health_suffix :: "headroom_health \<Rightarrow> string" where
  "health_suffix Healthy = []"
| "health_suffix Near = '' [near-limit: penalized]''"
| "health_suffix Exhausted = '' [exhausted: demoted to last resort]''"

definition basis_suffix :: "headroom_score \<Rightarrow> string" where
  "basis_suffix s = (if score_room_basis s = Some ObservedUsage
     then '' [pool order: '' @ room_basis_label ObservedUsage @ '']'' else [])"

section \<open>Modes and models\<close>

definition is_ok :: "'e + 'a \<Rightarrow> bool" where
  "is_ok r \<longleftrightarrow> \<not> isl r"

definition quoted :: "string \<Rightarrow> string" where
  "quoted s = [CHR 39] @ s @ [CHR 39]"

definition validate_cli_mode :: "detected_tool \<Rightarrow> error + mode" where
  "validate_cli_mode tool =
     (if Cli_invocation \<in> set (dt_invocation_modes tool) \<and> dt_cli_invocation tool \<noteq> None then Inr Cli
      else Inl (Provider (''route: target '' @ quoted (dt_name tool) @ '' does not support CLI mode'')))"

definition validate_api_mode :: "detected_tool \<Rightarrow> error + mode" where
  "validate_api_mode tool =
     (if Api_invocation \<in> set (dt_invocation_modes tool) then Inr Api
      else Inl (Provider (''route: target '' @ quoted (dt_name tool) @ '' does not support API mode'')))"

definition auto_mode_for_route :: "detected_tool \<Rightarrow> mode option" where
  "auto_mode_for_route tool =
     (if dt_cost_class tool \<in> {LocalFree, SubscriptionFlat}
      then (if is_ok (validate_cli_mode tool) then Some Cli
            else if is_ok (validate_api_mode tool) then Some Api else None)
      else if is_ok (validate_cli_mode tool) then Some Cli
      else if is_ok (validate_api_mode tool) then Some Api
      else None)"

definition resolve_mode :: "route_request \<Rightarrow> detected_tool \<Rightarrow> error + mode" where
  "resolve_mode req tool =
     (case (case rq_mode req of None \<Rightarrow> Auto | Some m \<Rightarrow> m) of
        Auto \<Rightarrow> (case auto_mode_for_route tool of
            Some m \<Rightarrow> Inr m
          | None \<Rightarrow> Inl (Provider (''route: target '' @ quoted (dt_name tool) @
              '' has no usable CLI or API invocation'')))
      | Cli \<Rightarrow> validate_cli_mode tool
      | Api \<Rightarrow> validate_api_mode tool)"

definition choose_model :: "route_request \<Rightarrow> detected_tool \<Rightarrow> mode \<Rightarrow> error + string option" where
  "choose_model req tool m =
     (case rq_model req of
        Some model \<Rightarrow> Inr (Some model)
      | None \<Rightarrow>
          (let model = (case dt_models tool of [] \<Rightarrow> None | x # _ \<Rightarrow> Some x);
               cli_requires_model = (m = Cli \<and>
                 (case dt_cli_invocation tool of None \<Rightarrow> False | Some template \<Rightarrow> contains_str template ''{model}''))
           in if cli_requires_model \<and> model = None \<and> dt_kind tool = LocalRuntime
              then Inl (Provider (''route: target '' @ quoted (dt_name tool) @
                     '' needs --model because no installed model was detected''))
              else Inr model))"

section \<open>Candidates\<close>

record candidate =
  cd_tool :: detected_tool
  cd_mode :: mode
  cd_model :: "string option"
  cd_pool :: pool_key
  cd_capability_fit :: nat
  cd_headroom :: headroom_score
  cd_health :: headroom_health

definition capability_fit :: "capability option \<Rightarrow> detected_tool \<Rightarrow> nat" where
  "capability_fit requested tool =
     (case requested of None \<Rightarrow> 0 | Some c \<Rightarrow> if c \<in> set (dt_capabilities tool) then 1 else 0)
     + length (dt_capabilities tool)"

definition build_candidate ::
  "route_request \<Rightarrow> usage_snapshot \<Rightarrow> detected_tool \<Rightarrow> mode \<Rightarrow> string option \<Rightarrow> candidate" where
  "build_candidate req u tool m model =
     (let pool = from_target_model (dt_name tool) model;
          headroom = from_pool_usage pool u
      in \<lparr>cd_tool = tool, cd_mode = m, cd_model = model, cd_pool = pool,
          cd_capability_fit = capability_fit (rq_capability req) tool, cd_headroom = headroom,
          cd_health = score_health NEAR_LIMIT_FRACTION headroom\<rparr>)"

definition candidate_for :: "route_request \<Rightarrow> usage_snapshot \<Rightarrow> detected_tool \<Rightarrow> error + candidate" where
  "candidate_for req u tool =
     (case resolve_mode req tool of
        Inl e \<Rightarrow> Inl e
      | Inr m \<Rightarrow> (case choose_model req tool m of
          Inl e \<Rightarrow> Inl e
        | Inr model \<Rightarrow> Inr (build_candidate req u tool m model)))"

fun lanes_from :: "string option list \<Rightarrow> string list \<Rightarrow> string list \<Rightarrow> string option list \<times> string list" where
  "lanes_from seen lanes [] = (seen, lanes)"
| "lanes_from seen lanes (model # models) =
     (let pool = pool_from_model model in
      if pool \<in> set seen then lanes_from seen lanes models
      else lanes_from (seen @ [pool]) (lanes @ [model]) models)"

definition pool_lanes :: "route_request \<Rightarrow> detected_tool \<Rightarrow> string list" where
  "pool_lanes req tool =
     (if rq_model req \<noteq> None then []
      else case lanes_from [] [] (dt_models tool) of (seen, lanes) \<Rightarrow>
        if length (List.map_filter id seen) < 2 then [] else lanes)"

definition candidates_for :: "route_request \<Rightarrow> usage_snapshot \<Rightarrow> detected_tool \<Rightarrow> candidate list" where
  "candidates_for req u tool =
     (let lanes = pool_lanes req tool in
      if lanes = [] then (case candidate_for req u tool of Inl _ \<Rightarrow> [] | Inr c \<Rightarrow> [c])
      else case resolve_mode req tool of
             Inl _ \<Rightarrow> []
           | Inr m \<Rightarrow> map (\<lambda>model. build_candidate req u tool m (Some model)) lanes)"

definition viable_candidates :: "route_request \<Rightarrow> detected_tool list \<Rightarrow> usage_snapshot \<Rightarrow> candidate list" where
  "viable_candidates req tools u =
     concat (map (candidates_for req u)
       (filter (\<lambda>tool. case rq_capability req of None \<Rightarrow> True | Some c \<Rightarrow> c \<in> set (dt_capabilities tool))
         (filter (\<lambda>tool. dt_installed tool \<and> dt_enabled tool) tools)))"

section \<open>Comparison\<close>

fun cost_rank :: "cost_class \<Rightarrow> nat" where
  "cost_rank LocalFree = 0"
| "cost_rank SubscriptionFlat = 1"
| "cost_rank ApiMetered = 2"
| "cost_rank Unknown_cost = 3"

fun compare_observed_room :: "headroom_score \<Rightarrow> headroom_score \<Rightarrow> ordering" where
  "compare_observed_room (Observed lt lr) (Observed rt rr) = then_with (cmp lt rt) (cmp lr rr)"
| "compare_observed_room l r = Equal"

definition compare_headroom_desc :: "headroom_score \<Rightarrow> headroom_score \<Rightarrow> ordering" where
  "compare_headroom_desc l r =
     (case (limiting_dimension l, limiting_dimension r) of
        (Some dl, Some dr) \<Rightarrow> then_with (remaining_fraction_cmp dr dl) (cmp (hd_remaining dr) (hd_remaining dl))
      | (Some dl, None) \<Rightarrow> if hd_remaining dl = 0 then Greater else Less
      | (None, Some dr) \<Rightarrow> if hd_remaining dr = 0 then Less else Greater
      | (None, None) \<Rightarrow> Equal)"

definition compare_cost_first :: "candidate \<Rightarrow> candidate \<Rightarrow> ordering" where
  "compare_cost_first l r =
     then_with (cmp (exhausted_rank (cd_health l)) (exhausted_rank (cd_health r)))
    (then_with (cmp (cost_rank (dt_cost_class (cd_tool l))) (cost_rank (dt_cost_class (cd_tool r))))
    (then_with (cmp (near_rank (cd_health l)) (near_rank (cd_health r)))
    (then_with (cmp (cd_capability_fit r) (cd_capability_fit l))
    (then_with (compare_headroom_desc (cd_headroom l) (cd_headroom r))
    (then_with (compare_observed_room (cd_headroom l) (cd_headroom r))
    (then_with (cmp (dt_name (cd_tool l)) (dt_name (cd_tool r)))
      (pool_key_cmp (cd_pool l) (cd_pool r))))))))"

definition compare_quality_first :: "candidate \<Rightarrow> candidate \<Rightarrow> ordering" where
  "compare_quality_first l r =
     then_with (cmp (exhausted_rank (cd_health l)) (exhausted_rank (cd_health r)))
    (then_with (cmp (cd_capability_fit r) (cd_capability_fit l))
    (then_with (cmp (near_rank (cd_health l)) (near_rank (cd_health r)))
    (then_with (compare_headroom_desc (cd_headroom l) (cd_headroom r))
    (then_with (compare_observed_room (cd_headroom l) (cd_headroom r))
    (then_with (cmp (cost_rank (dt_cost_class (cd_tool l))) (cost_rank (dt_cost_class (cd_tool r))))
    (then_with (cmp (dt_name (cd_tool l)) (dt_name (cd_tool r)))
      (pool_key_cmp (cd_pool l) (cd_pool r))))))))"

fun compare_candidates :: "preference \<Rightarrow> candidate \<Rightarrow> candidate \<Rightarrow> ordering" where
  "compare_candidates Quality l r = compare_quality_first l r"
| "compare_candidates p l r = compare_cost_first l r"

section \<open>Decisions\<close>

definition route_reason :: "route_request \<Rightarrow> candidate \<Rightarrow> string" where
  "route_reason req c =
     ''chose '' @ dt_name (cd_tool c) @ '' ('' @ cost_class_label (dt_cost_class (cd_tool c)) @ '', '' @
     capability_label (rq_capability req) @ '') for '' @
     (case rq_prefer req of Cheapest \<Rightarrow> ''cheapest'' | Quality \<Rightarrow> ''quality'' | Local_first \<Rightarrow> ''local'') @
     '' routing; mode='' @ mode_label (cd_mode c) @ '' headroom='' @ score_label (cd_headroom c) @
     health_suffix (cd_health c) @ basis_suffix (cd_headroom c) @ '' - '' @
     (if dt_cost_class (cd_tool c) \<in> {LocalFree, SubscriptionFlat} then ''no API cost'' else ''metered cost'')"

definition alternative_reason :: "candidate \<Rightarrow> string" where
  "alternative_reason c =
     cost_class_label (dt_cost_class (cd_tool c)) @ '' candidate; fit='' @ nat_str (cd_capability_fit c) @
     '' mode='' @ mode_label (cd_mode c) @ '' headroom='' @ score_label (cd_headroom c) @
     health_suffix (cd_health c) @ basis_suffix (cd_headroom c)"

definition route_alternative_from :: "candidate \<Rightarrow> route_alternative" where
  "route_alternative_from c =
     \<lparr>ra_target = dt_name (cd_tool c), ra_mode = cd_mode c, ra_model = cd_model c,
      ra_cost_class = dt_cost_class (cd_tool c), ra_capabilities = dt_capabilities (cd_tool c),
      ra_headroom = score_label (cd_headroom c), ra_reason = alternative_reason c\<rparr>"

definition decision_from_candidate :: "route_request \<Rightarrow> candidate \<Rightarrow> candidate list \<Rightarrow> route_decision" where
  "decision_from_candidate req chosen alternatives =
     \<lparr>rd_target = dt_name (cd_tool chosen), rd_mode = cd_mode chosen, rd_model = cd_model chosen,
      rd_cost_class = dt_cost_class (cd_tool chosen), rd_reason = route_reason req chosen,
      rd_alternatives = map route_alternative_from alternatives\<rparr>"

definition best_lane_for :: "route_request \<Rightarrow> usage_snapshot \<Rightarrow> detected_tool \<Rightarrow> error + candidate" where
  "best_lane_for req u tool =
     (let lanes = candidates_for req u tool in
      if length lanes < 2 then candidate_for req u tool
      else Inr (hd (sort_by (compare_candidates (rq_prefer req)) lanes)))"

definition failover_alternatives ::
  "route_request \<Rightarrow> detected_tool list \<Rightarrow> usage_snapshot \<Rightarrow> candidate \<Rightarrow> candidate list" where
  "failover_alternatives req tools u chosen =
     (let open_req = req\<lparr>rq_target := None, rq_model := None\<rparr>;
          rest = filter (\<lambda>c. cd_pool c \<noteq> cd_pool chosen) (viable_candidates open_req tools u);
          siblings = filter (\<lambda>c. target_key (cd_pool c) = target_key (cd_pool chosen)) rest;
          others = filter (\<lambda>c. target_key (cd_pool c) \<noteq> target_key (cd_pool chosen)) rest
      in sort_by (compare_candidates (rq_prefer req)) siblings @
         sort_by (compare_candidates (rq_prefer req)) others)"

definition failover_suffix :: "candidate list \<Rightarrow> string" where
  "failover_suffix alternatives =
     (if alternatives = [] then []
      else ''; failover requested, '' @ nat_str (length alternatives) @ '' ranked fallback(s) behind it'')"

definition explicit_route ::
  "route_request \<Rightarrow> detected_tool list \<Rightarrow> usage_snapshot \<Rightarrow> string \<Rightarrow> error + route_decision" where
  "explicit_route req tools u target =
     (case List.find (\<lambda>tool. dt_name tool = target \<or> dt_name tool = to_ascii_lowercase target) tools of
        None \<Rightarrow> Inl (Provider (''route: target '' @ quoted target @ '' was not detected''))
      | Some tool \<Rightarrow>
        if \<not> dt_installed tool
        then Inl (Provider (''route: target '' @ quoted (dt_name tool) @ '' is not installed''))
        else if \<not> dt_enabled tool
        then Inl (Provider (''route: target '' @ quoted (dt_name tool) @ '' is disabled''))
        else if (case rq_capability req of None \<Rightarrow> False | Some c \<Rightarrow> c \<notin> set (dt_capabilities tool))
        then Inl (Provider (''route: target '' @ quoted (dt_name tool) @ '' does not provide '' @
               (case rq_capability req of None \<Rightarrow> [] | Some c \<Rightarrow> capability_debug c)))
        else case best_lane_for req u tool of
          Inl e \<Rightarrow> Inl e
        | Inr c \<Rightarrow>
            (let alternatives = (if rq_failover req then failover_alternatives req tools u c else []);
                 reason = ''explicit target '' @ quoted (dt_name (cd_tool c)) @ '' selected; mode='' @
                   mode_label (cd_mode c) @ '' cost='' @ cost_class_label (dt_cost_class (cd_tool c)) @
                   '' headroom='' @ score_label (cd_headroom c) @ basis_suffix (cd_headroom c) @
                   failover_suffix alternatives
             in Inr \<lparr>rd_target = dt_name (cd_tool c), rd_mode = cd_mode c, rd_model = cd_model c,
                  rd_cost_class = dt_cost_class (cd_tool c), rd_reason = reason,
                  rd_alternatives = map route_alternative_from alternatives\<rparr>))"

definition select_route :: "route_request \<Rightarrow> detected_tool list \<Rightarrow> usage_snapshot \<Rightarrow> error + route_decision" where
  "select_route req tools u =
     (case rq_target req of
        Some target \<Rightarrow> explicit_route req tools u target
      | None \<Rightarrow>
        (case sort_by (compare_candidates (rq_prefer req)) (viable_candidates req tools u) of
           [] \<Rightarrow> Inl (Provider (''route: no installed and enabled target'' @ capability_suffix (rq_capability req)))
         | chosen # rest \<Rightarrow> Inr (decision_from_candidate req chosen rest)))"

section \<open>Comparison of remaining fractions\<close>

definition dim_wf :: "headroom_dimension \<Rightarrow> bool" where
  "dim_wf d \<longleftrightarrow> hd_remaining d \<le> hd_limit d \<and> hd_limit d \<le> u64_max"

definition dim_fraction :: "headroom_dimension \<Rightarrow> rat" where
  "dim_fraction d = of_nat (hd_remaining d) / of_nat (hd_limit d)"

lemma u128_product:
  assumes "a \<le> u64_max" "b \<le> u64_max"
  shows "unat (of_nat a * of_nat b :: 128 word) = a * b"
proof -
  have "a * b \<le> u64_max * u64_max" using assms by (rule mult_le_mono)
  also have "\<dots> < 2 ^ 128" by (simp add: u64_max_def)
  finally have "a * b < 2 ^ 128" .
  then have "unat (of_nat (a * b) :: 128 word) = a * b"
    unfolding unat_of_nat by simp
  then show ?thesis by simp
qed

lemma u128_cmp:
  assumes "a \<le> u64_max" "b \<le> u64_max" "c \<le> u64_max" "d \<le> u64_max"
  shows "cmp (of_nat a * of_nat b :: 128 word) (of_nat c * of_nat d) = cmp (a * b) (c * d)"
  using u128_product [OF assms(1,2)] u128_product [OF assms(3,4)]
  unfolding cmp_def by (simp add: word_less_nat_alt word_unat_eq_iff)

lemma fraction_cmp_exact:
  assumes "dim_wf a" "dim_wf b" "0 < hd_limit a" "0 < hd_limit b"
  shows "remaining_fraction_cmp a b = cmp (dim_fraction a) (dim_fraction b)"
proof -
  have "remaining_fraction_cmp a b = cmp (hd_remaining a * hd_limit b) (hd_remaining b * hd_limit a)"
    using assms u128_cmp [of "hd_remaining a" "hd_limit b" "hd_remaining b" "hd_limit a"]
    by (simp add: remaining_fraction_cmp_def dim_wf_def)
  moreover have "dim_fraction a < dim_fraction b \<longleftrightarrow> hd_remaining a * hd_limit b < hd_remaining b * hd_limit a"
    "dim_fraction a = dim_fraction b \<longleftrightarrow> hd_remaining a * hd_limit b = hd_remaining b * hd_limit a"
    using assms(3,4) unfolding dim_fraction_def
    by (simp_all add: divide_less_eq less_divide_eq frac_eq_eq flip: of_nat_mult)
  ultimately show ?thesis by (simp add: cmp_def)
qed

section \<open>The ranking key\<close>

text \<open>
  What the comparison chain orders by before it reaches observed usage and names: a list of
  rationals compared lexicographically, smaller first. The headroom part puts candidates
  with quota left first (largest fraction, then most remaining), then those without a cap,
  then the spent ones.
\<close>

definition score_key :: "headroom_score \<Rightarrow> rat list" where
  "score_key s = (case limiting_dimension s of
     None \<Rightarrow> [1, 0, 0]
   | Some d \<Rightarrow> if hd_remaining d = 0 then [2, if hd_limit d = 0 then 1 else 0, 0]
              else [0, - dim_fraction d, - of_nat (hd_remaining d)])"

definition rank_key :: "preference \<Rightarrow> candidate \<Rightarrow> rat list" where
  "rank_key p c =
     (let exhausted = of_nat (exhausted_rank (cd_health c)); near = of_nat (near_rank (cd_health c));
          cost = of_nat (cost_rank (dt_cost_class (cd_tool c))); fit = - of_nat (cd_capability_fit c)
      in if p = Quality then exhausted # fit # near # score_key (cd_headroom c)
         else exhausted # cost # near # fit # score_key (cd_headroom c))"

definition score_ok :: "headroom_score \<Rightarrow> bool" where
  "score_ok s \<longleftrightarrow> pred_option dim_wf (limiting_dimension s)"

abbreviation candidate_ok :: "candidate \<Rightarrow> bool" where
  "candidate_ok c \<equiv> score_ok (cd_headroom c)"

lemma cmp_of_nat: "cmp (of_nat a :: rat) (of_nat b) = cmp a b"
  by (simp add: cmp_def)

lemma cmp_uminus_of_nat: "cmp (- of_nat a :: rat) (- of_nat b) = cmp b a"
  by (auto simp: cmp_def)

lemma cmp_uminus: "cmp (- a) (- b) = cmp b a" for a b :: rat
  by (auto simp: cmp_def)

lemma fraction_cmp_cases:
  assumes "dim_wf a" "dim_wf b"
  shows "then_with (remaining_fraction_cmp b a) (cmp (hd_remaining b) (hd_remaining a)) =
    cmp (if hd_remaining a = 0 then [2, if hd_limit a = 0 then 1 else 0, 0]
         else [0, - dim_fraction a, - of_nat (hd_remaining a)])
        (if hd_remaining b = 0 then [2, if hd_limit b = 0 then 1 else 0, 0]
         else [0, - dim_fraction b, - of_nat (hd_remaining b) :: rat])"
  (is "_ = ?rhs")
proof (cases "hd_limit a = 0 \<or> hd_limit b = 0")
  case True
  have le: "hd_remaining a \<le> hd_limit a" "hd_remaining b \<le> hd_limit b" using assms by (simp_all add: dim_wf_def)
  have const: "cmp (2 :: rat) 0 = Greater" "cmp (0 :: rat) 2 = Less" "cmp (1 :: rat) 0 = Greater" "cmp (0 :: rat) 1 = Less"
    by (simp_all add: cmp_def)
  from True le show ?thesis
    by (cases "hd_limit a = 0"; cases "hd_limit b = 0"; cases "hd_remaining a = 0"; cases "hd_remaining b = 0")
       (simp_all add: remaining_fraction_cmp_def cmp_Cons const)
next
  case False
  then have lim: "0 < hd_limit a" "0 < hd_limit b" by simp_all
  have zero: "dim_fraction d = 0" if "hd_remaining d = 0" for d using that by (simp add: dim_fraction_def)
  have pos: "0 < dim_fraction d" if "hd_remaining d \<noteq> 0" "0 < hd_limit d" for d
    using that by (simp add: dim_fraction_def)
  have less: "cmp (0 :: rat) x = Less" if "0 < x" for x using that by (simp add: cmp_def)
  have greater: "cmp x (0 :: rat) = Greater" if "0 < x" for x using that by (simp add: cmp_def)
  have const: "cmp (2 :: rat) 0 = Greater" "cmp (0 :: rat) 2 = Less" by (simp_all add: cmp_def)
  show ?thesis
    unfolding fraction_cmp_exact [OF assms(2,1) lim(2,1)]
  proof (cases "hd_remaining a = 0"; cases "hd_remaining b = 0")
    assume "hd_remaining a = 0" "hd_remaining b = 0"
    then show "then_with (cmp (dim_fraction b) (dim_fraction a)) (cmp (hd_remaining b) (hd_remaining a)) = ?rhs"
      using lim by (simp add: zero)
  next
    assume "hd_remaining a = 0" "hd_remaining b \<noteq> 0"
    then show "then_with (cmp (dim_fraction b) (dim_fraction a)) (cmp (hd_remaining b) (hd_remaining a)) = ?rhs"
      using lim by (simp add: zero greater pos cmp_Cons const)
  next
    assume "hd_remaining a \<noteq> 0" "hd_remaining b = 0"
    then show "then_with (cmp (dim_fraction b) (dim_fraction a)) (cmp (hd_remaining b) (hd_remaining a)) = ?rhs"
      using lim by (simp add: zero less pos cmp_Cons const)
  next
    assume "hd_remaining a \<noteq> 0" "hd_remaining b \<noteq> 0"
    then show "then_with (cmp (dim_fraction b) (dim_fraction a)) (cmp (hd_remaining b) (hd_remaining a)) = ?rhs"
      using lim by (simp add: cmp_Cons cmp_uminus cmp_of_nat)
  qed
qed

lemma compare_headroom_key:
  assumes "score_ok l" "score_ok r"
  shows "compare_headroom_desc l r = cmp (score_key l) (score_key r)"
proof (cases "limiting_dimension l"; cases "limiting_dimension r")
  fix a b assume "limiting_dimension l = Some a" "limiting_dimension r = Some b"
  with assms fraction_cmp_cases [of a b] show ?thesis
    by (simp add: compare_headroom_desc_def score_key_def score_ok_def)
qed (simp_all add: compare_headroom_desc_def score_key_def cmp_Cons cmp_def)

lemma compare_candidates_key:
  assumes "candidate_ok l" "candidate_ok r"
  shows "\<exists>rest. compare_candidates p l r = then_with (cmp (rank_key p l) (rank_key p r)) rest"
proof (cases "p = Quality")
  case True
  then show ?thesis
    by (simp add: compare_quality_first_def rank_key_def Let_def cmp_Cons cmp_of_nat cmp_uminus_of_nat
        compare_headroom_key [OF assms] then_with_assoc) blast
next
  case False
  then have "compare_candidates p l r = compare_cost_first l r" by (cases p) simp_all
  with False show ?thesis
    by (simp add: compare_cost_first_def rank_key_def Let_def cmp_Cons cmp_of_nat cmp_uminus_of_nat
        compare_headroom_key [OF assms] then_with_assoc) blast
qed

interpretation ranking: refines_key "compare_candidates p" "rank_key p" candidate_ok
proof
  fix x y assume ok: "candidate_ok x" "candidate_ok y"
  from compare_candidates_key [OF ok, of p] obtain rest
    where c: "compare_candidates p x y = then_with (cmp (rank_key p x) (rank_key p y)) rest" by blast
  show "compare_candidates p x y = Less" if "rank_key p x < rank_key p y"
    using that c by (simp add: then_with_iff)
  show "rank_key p x \<le> rank_key p y" if "compare_candidates p x y = Less"
    using that c by (auto simp: then_with_iff)
qed

section \<open>Candidates and their buckets\<close>

text \<open>The snapshot's limits are 64-bit quantities.\<close>

definition snapshot_bounded :: "usage_snapshot \<Rightarrow> bool" where
  "snapshot_bounded u \<longleftrightarrow> list_all (list_all (\<lambda>(_, n). n \<le> u64_max))
     [sn_limits_by_target u, sn_request_limits_by_target u, sn_limits_by_pool u, sn_request_limits_by_pool u]"

lemma bounded_get:
  assumes "list_all (\<lambda>(_, n). n \<le> u64_max) m" "bt_get m k = Some n"
  shows "n \<le> u64_max"
  using assms map_of_SomeD [of m k n] by (auto simp: list_all_iff)

definition dims_of :: "headroom_score \<Rightarrow> headroom_dimension set" where
  "dims_of s = (case s of Known t r _ \<Rightarrow> set_option t \<union> set_option r | _ \<Rightarrow> {})"

lemma limiting_in_dims: "limiting_dimension s = Some d \<Longrightarrow> d \<in> dims_of s"
  by (cases s rule: limiting_dimension.cases) (auto simp: dims_of_def split: if_splits)

lemma pool_headroom_caps:
  assumes "snapshot_pool_headroom u key = Some q"
  shows "pq_tokens q = axis_cap (bt_get (sn_limits_by_pool u) (canonical key))
      (bt_get (sn_limits_by_target u) (target_key key)) (bt_get_or 0 (sn_usage_by_pool u) (canonical key))
      (bt_get_or 0 (sn_usage_by_target u) (target_key key))"
    "pq_requests q = axis_cap (bt_get (sn_request_limits_by_pool u) (canonical key))
      (bt_get (sn_request_limits_by_target u) (target_key key)) (bt_get_or 0 (sn_requests_by_pool u) (canonical key))
      (bt_get_or 0 (sn_requests_by_target u) (target_key key))"
  using assms by (auto simp: snapshot_pool_headroom_def Let_def simp del: not_None_eq split: if_splits)

lemma pool_headroom_None:
  "snapshot_pool_headroom u key = None \<longleftrightarrow>
     bt_get (sn_limits_by_pool u) (canonical key) = None \<and> bt_get (sn_request_limits_by_pool u) (canonical key) = None \<and>
     bt_get (sn_limits_by_target u) (target_key key) = None \<and> bt_get (sn_request_limits_by_target u) (target_key key) = None"
  by (simp add: snapshot_pool_headroom_def Let_def)

lemma from_usage_dims:
  assumes "snapshot_bounded u"
  shows "Ball (dims_of (from_usage t u)) dim_wf"
proof -
  have "list_all (\<lambda>(_, n). n \<le> u64_max) (sn_limits_by_target u)"
    "list_all (\<lambda>(_, n). n \<le> u64_max) (sn_request_limits_by_target u)"
    using assms by (simp_all add: snapshot_bounded_def)
  note b = bounded_get [OF this(1)] bounded_get [OF this(2)]
  show ?thesis
    by (auto simp: from_usage_def snapshot_headroom_def Let_def dims_of_def dim_wf_def
        intro: b split: option.splits)
qed

lemma axis_cap_dims:
  assumes "pred_option (\<lambda>n. n \<le> u64_max) p" "pred_option (\<lambda>n. n \<le> u64_max) t"
  shows "pred_option dim_wf (dimension_from_cap (axis_cap p t a b))"
  using assms
  by (auto simp: dimension_from_cap_def axis_cap_def cap_capped_def cap_unknown_def dim_wf_def split: option.splits)

lemma from_pool_usage_dims:
  assumes "snapshot_bounded u"
  shows "Ball (dims_of (from_pool_usage key u)) dim_wf"
proof (cases "is_pooled key")
  case True
  have b: "pred_option (\<lambda>n. n \<le> u64_max) (bt_get m k)"
    if "m \<in> {sn_limits_by_target u, sn_request_limits_by_target u, sn_limits_by_pool u, sn_request_limits_by_pool u}" for m k
    using that assms bounded_get [of m k] by (cases "bt_get m k") (auto simp: snapshot_bounded_def)
  show ?thesis
  proof (cases "snapshot_pool_headroom u key")
    case None
    with True show ?thesis by (simp add: from_pool_usage_def dims_of_def)
  next
    case (Some q)
    have "pred_option dim_wf (dimension_from_cap (pq_tokens q))" "pred_option dim_wf (dimension_from_cap (pq_requests q))"
      unfolding pool_headroom_caps [OF Some] by (intro axis_cap_dims b; simp)+
    with True Some show ?thesis by (auto simp: from_pool_usage_def dims_of_def option.pred_set)
  qed
qed (use from_usage_dims [OF assms] in \<open>simp add: from_pool_usage_def\<close>)

lemma build_candidate_ok:
  assumes "snapshot_bounded u"
  shows "candidate_ok (build_candidate req u tool m model)"
  using from_pool_usage_dims [OF assms, of "from_target_model (dt_name tool) model"] limiting_in_dims
  by (fastforce simp: build_candidate_def Let_def score_ok_def pred_option_def)

lemma candidates_built:
  assumes "c \<in> set (candidates_for req u tool)"
  shows "\<exists>m model. c = build_candidate req u tool m model \<and> resolve_mode req tool = Inr m"
  using assms
  by (auto simp: candidates_for_def Let_def candidate_for_def split: if_splits sum.splits)

lemma viable_built:
  assumes "c \<in> set (viable_candidates req tools u)"
  obtains tool m model where "tool \<in> set tools" "dt_installed tool" "dt_enabled tool"
    "pred_option (\<lambda>k. k \<in> set (dt_capabilities tool)) (rq_capability req)"
    "c = build_candidate req u tool m model" "resolve_mode req tool = Inr m"
proof -
  obtain tool where tool: "tool \<in> set tools" "dt_installed tool" "dt_enabled tool"
    "pred_option (\<lambda>k. k \<in> set (dt_capabilities tool)) (rq_capability req)" "c \<in> set (candidates_for req u tool)"
    using assms by (auto simp: viable_candidates_def pred_option_def split: option.splits)
  with candidates_built [OF tool(5)] that show thesis by blast
qed

lemma viable_ok: "snapshot_bounded u \<Longrightarrow> list_all candidate_ok (viable_candidates req tools u)"
  by (auto simp: list_all_iff elim!: viable_built intro: build_candidate_ok)

section \<open>Exhaustion\<close>

text \<open>
  A bucket is spent when one of its axes has a ceiling (the pool's own, otherwise the
  target's) that the corresponding counter has reached.
\<close>

definition axis_spent :: "nat option \<Rightarrow> nat \<Rightarrow> nat option \<Rightarrow> nat \<Rightarrow> bool" where
  "axis_spent pool_limit pool_used target_limit target_used =
     (case pool_limit of Some l \<Rightarrow> l \<le> pool_used
      | None \<Rightarrow> (case target_limit of Some l \<Rightarrow> l \<le> target_used | None \<Rightarrow> False))"

definition bucket_spent :: "usage_snapshot \<Rightarrow> pool_key \<Rightarrow> bool" where
  "bucket_spent u key =
     (let t = target_key key; k = canonical key; own = (\<lambda>m. if is_pooled key then bt_get m k else None) in
      axis_spent (own (sn_limits_by_pool u)) (bt_get_or 0 (sn_usage_by_pool u) k)
        (bt_get (sn_limits_by_target u) t) (bt_get_or 0 (sn_usage_by_target u) t) \<or>
      axis_spent (own (sn_request_limits_by_pool u)) (bt_get_or 0 (sn_requests_by_pool u) k)
        (bt_get (sn_request_limits_by_target u) t) (bt_get_or 0 (sn_requests_by_target u) t))"

lemma worse_health_Exhausted: "worse_health a b = Exhausted \<longleftrightarrow> a = Exhausted \<or> b = Exhausted"
  by (cases a; cases b) simp_all

lemma dimension_health_Exhausted: "dimension_health f d = Exhausted \<longleftrightarrow> hd_remaining d = 0"
  by (simp add: dimension_health_def)

lemma score_health_Exhausted:
  "score_health f s = Exhausted \<longleftrightarrow> (\<exists>d \<in> dims_of s. hd_remaining d = 0)"
proof -
  show ?thesis
  proof (cases s)
    case (Known t r b)
    then show ?thesis
      by (cases t; cases r) (simp_all add: dims_of_def worse_health_Exhausted dimension_health_Exhausted)
  qed (simp_all add: dims_of_def)
qed

lemma axis_cap_spent:
  "(\<exists>d \<in> set_option (dimension_from_cap (axis_cap pl tl' pu tu)). hd_remaining d = 0) \<longleftrightarrow> axis_spent pl pu tl' tu"
  by (auto simp: dimension_from_cap_def axis_cap_def cap_capped_def cap_unknown_def axis_spent_def split: option.splits)

lemma from_pool_usage_spent:
  assumes "to_ascii_lowercase (target_key key) = target_key key"
  shows "score_health f (from_pool_usage key u) = Exhausted \<longleftrightarrow> bucket_spent u key"
proof (cases "is_pooled key")
  case True
  show ?thesis
  proof (cases "snapshot_pool_headroom u key")
    case None
    show ?thesis using True pool_headroom_None [THEN iffD1, OF None]
      unfolding score_health_Exhausted bucket_spent_def Let_def
      by (simp add: from_pool_usage_def None dims_of_def axis_spent_def)
  next
    case (Some q)
    then show ?thesis using True unfolding score_health_Exhausted bucket_spent_def Let_def
      by (simp add: from_pool_usage_def dims_of_def bex_Un axis_cap_spent pool_headroom_caps [OF Some])
  qed
next
  case False
  then show ?thesis
    unfolding score_health_Exhausted bucket_spent_def Let_def
    by (cases "bt_get (sn_limits_by_target u) (target_key key)"; cases "bt_get (sn_request_limits_by_target u) (target_key key)")
       (auto simp: from_pool_usage_def from_usage_def snapshot_headroom_def Let_def dims_of_def
          usage_normalize_target_def assms axis_spent_def)
qed

lemma from_target_model_lower: "to_ascii_lowercase (target_key (from_target_model t m)) = target_key (from_target_model t m)"
  by (simp add: from_target_model_def normalize_target_def)

lemma candidate_exhausted:
  "cd_health (build_candidate req u tool m model) = Exhausted \<longleftrightarrow>
     bucket_spent u (cd_pool (build_candidate req u tool m model))"
  by (simp add: build_candidate_def Let_def from_pool_usage_spent from_target_model_lower)

lemma rank_key_exhausted:
  "rank_key p a \<le> rank_key p b \<Longrightarrow> cd_health a = Exhausted \<Longrightarrow> cd_health b = Exhausted"
  by (cases "cd_health b") (auto simp: rank_key_def Let_def split: if_splits)

section \<open>Lanes\<close>

lemma lanes_from_inv:
  assumes "map pool_from_model lanes = seen" "distinct seen" "lanes_from seen lanes ms = (seen', lanes')"
  shows "map pool_from_model lanes' = seen' \<and> distinct seen' \<and> set seen' = set seen \<union> pool_from_model ` set ms"
  using assms by (induction seen lanes ms rule: lanes_from.induct) (auto simp: Let_def split: if_splits)

lemma length_named:
  assumes "distinct xs"
  shows "length (List.map_filter id xs) = card {p. Some p \<in> set xs}"
  using assms
proof (induction xs)
  case Nil
  then show ?case by simp
next
  case (Cons x xs)
  show ?case
  proof (cases x)
    case None
    with Cons show ?thesis by simp
  next
    case (Some q)
    have "{p. Some p \<in> set (x # xs)} = insert q {p. Some p \<in> set xs}" using Some by auto
    moreover have "finite {p. Some p \<in> set xs}"
      by (rule finite_subset [of _ "the ` set xs"]) (force, simp)
    ultimately show ?thesis using Cons Some by simp
  qed
qed

lemma pool_lanes_spec:
  assumes "rq_model req = None"
  shows "distinct (map pool_from_model (pool_lanes req tool))"
    "2 \<le> card {p. Some p \<in> pool_from_model ` set (dt_models tool)} \<Longrightarrow>
       pool_from_model ` set (pool_lanes req tool) = pool_from_model ` set (dt_models tool) \<and> pool_lanes req tool \<noteq> []"
proof -
  obtain seen lanes where l: "lanes_from [] [] (dt_models tool) = (seen, lanes)" by force
  from lanes_from_inv [OF _ _ l] have i: "map pool_from_model lanes = seen" "distinct seen"
    "set seen = pool_from_model ` set (dt_models tool)" by simp_all
  show "distinct (map pool_from_model (pool_lanes req tool))"
    using i by (simp add: pool_lanes_def assms l)
  show "pool_from_model ` set (pool_lanes req tool) = pool_from_model ` set (dt_models tool) \<and> pool_lanes req tool \<noteq> []"
    if two: "2 \<le> card {p. Some p \<in> pool_from_model ` set (dt_models tool)}"
  proof -
    have "\<not> length (List.map_filter id seen) < 2" using two length_named [OF i(2)] i(3) by simp
    moreover have "lanes \<noteq> []"
    proof
      assume "lanes = []"
      with i have "pool_from_model ` set (dt_models tool) = {}" by auto
      with two show False by simp
    qed
    ultimately show ?thesis using i l assms by (auto simp: pool_lanes_def simp flip: set_map)
  qed
qed

lemma cd_pool_build: "cd_pool (build_candidate req u tool m model) = from_target_model (dt_name tool) model"
  by (simp add: build_candidate_def Let_def)

lemma from_target_model_pool:
  "from_target_model t (Some m) = from_target_model t (Some n) \<longleftrightarrow> pool_from_model m = pool_from_model n"
  by (simp add: from_target_model_def)

lemma NEAR_LIMIT_FRACTION_eval [code]: "NEAR_LIMIT_FRACTION = 5404319552844595 / 36028797018963968"
proof -
  have "fl (15 / 100) = of_int (round_even ((15 / 100) / 2 powi (- 3 - 52))) * 2 powi (- 3 - 52)"
    by (rule fl_eval) (simp_all add: power_int_def power_divide)
  moreover have "round_even (27021597764222976 / 5) = 5404319552844595"
  proof -
    have "\<lfloor>27021597764222976 / 5 :: rat\<rfloor> = 5404319552844595" by (simp add: floor_eq_iff)
    then show ?thesis by (simp add: round_even_def Let_def)
  qed
  ultimately show ?thesis by (simp add: NEAR_LIMIT_FRACTION_def power_int_def power_divide)
qed

lemma explicit_route_Ok:
  assumes "explicit_route req tools u target = Inr d"
  obtains tool c where
    "List.find (\<lambda>t. dt_name t = target \<or> dt_name t = to_ascii_lowercase target) tools = Some tool"
    "dt_installed tool" "dt_enabled tool" "pred_option (\<lambda>k. k \<in> set (dt_capabilities tool)) (rq_capability req)"
    "best_lane_for req u tool = Inr c" "rd_target d = dt_name (cd_tool c)" "rd_model d = cd_model c"
    "rd_alternatives d = map route_alternative_from (if rq_failover req then failover_alternatives req tools u c else [])"
proof -
  obtain tool where tool: "List.find (\<lambda>t. dt_name t = target \<or> dt_name t = to_ascii_lowercase target) tools = Some tool"
    using assms
    by (cases "List.find (\<lambda>t. dt_name t = target \<or> dt_name t = to_ascii_lowercase target) tools")
       (simp_all add: explicit_route_def)
  note ok = assms [unfolded explicit_route_def tool option.case]
  have on: "dt_installed tool" "dt_enabled tool" using ok by (auto split: if_splits)
  have cap: "pred_option (\<lambda>k. k \<in> set (dt_capabilities tool)) (rq_capability req)"
    using ok on by (cases "rq_capability req") (auto split: if_splits)
  then have "\<not> (case rq_capability req of None \<Rightarrow> False | Some c \<Rightarrow> c \<notin> set (dt_capabilities tool))"
    by (cases "rq_capability req") simp_all
  note ok = ok [unfolded if_not_P [OF this] Let_def]
  obtain c where c: "best_lane_for req u tool = Inr c"
    using ok on by (cases "best_lane_for req u tool") simp_all
  show thesis by (rule that [OF tool on cap c]) (use ok on c in auto)
qed

lemma best_lane_built:
  assumes "best_lane_for req u tool = Inr c"
  shows "\<exists>m model. c = build_candidate req u tool m model"
proof (cases "length (candidates_for req u tool) < 2")
  case True
  with assms show ?thesis by (auto simp: best_lane_for_def candidate_for_def split: sum.splits)
next
  case False
  then have "candidates_for req u tool \<noteq> []" by auto
  then have "hd (sort_by (compare_candidates (rq_prefer req)) (candidates_for req u tool)) \<in> set (candidates_for req u tool)"
    by (metis hd_in_set set_sort_by sort_by_eq_Nil)
  with False assms have "c \<in> set (candidates_for req u tool)" by (simp add: best_lane_for_def)
  then show ?thesis using candidates_built by blast
qed

lemma viable_pool:
  "c \<in> set (viable_candidates req tools u) \<Longrightarrow> cd_pool c = from_target_model (dt_name (cd_tool c)) (cd_model c)"
  by (auto elim!: viable_built simp: build_candidate_def Let_def)

lemma failover_alternatives_spec:
  assumes "a \<in> set (failover_alternatives req tools u c)"
  shows "cd_pool a \<noteq> cd_pool c \<and> cd_pool a = from_target_model (dt_name (cd_tool a)) (cd_model a)"
  using assms viable_pool by (auto simp: failover_alternatives_def Let_def)

lemma failover_siblings_first:
  "sorted_wrt (\<lambda>a b. normalize_target (dt_name (cd_tool a)) = target_key (cd_pool c) \<or>
     normalize_target (dt_name (cd_tool b)) \<noteq> target_key (cd_pool c)) (failover_alternatives req tools u c)"
proof -
  have key: "target_key (cd_pool a) = normalize_target (dt_name (cd_tool a))"
    if "a \<in> set (failover_alternatives req tools u c)" for a
    using failover_alternatives_spec [OF that] by (simp add: from_target_model_def)
  have "sorted_wrt (\<lambda>a b. target_key (cd_pool a) = target_key (cd_pool c) \<or>
     target_key (cd_pool b) \<noteq> target_key (cd_pool c)) (failover_alternatives req tools u c)"
    unfolding failover_alternatives_def Let_def sorted_wrt_append
    by (intro conjI ballI sorted_wrt_all) auto
  then show ?thesis by (rule sorted_wrt_mono_rel [rotated]) (auto simp: key)
qed

section \<open>Properties\<close>

definition ranked_of :: "candidate \<Rightarrow> ranked_target" where
  "ranked_of c = \<lparr>rt_target = dt_name (cd_tool c), rt_mode = cd_mode c, rt_model = cd_model c,
     rt_cost_class = dt_cost_class (cd_tool c)\<rparr>"

lemma select_route_open:
  assumes "rq_target req = None" "select_route req tools u = Inr d"
  obtains chosen rest where
    "sort_by (compare_candidates (rq_prefer req)) (viable_candidates req tools u) = chosen # rest"
    "d = decision_from_candidate req chosen rest"
  using assms by (auto simp: select_route_def split: list.splits)

lemma ranked_targets_decision:
  "ranked_targets (decision_from_candidate req c cs) = map ranked_of (c # cs)"
  by (simp add: ranked_targets_def decision_from_candidate_def route_alternative_from_def ranked_of_def o_def)

text \<open>
  C3 (route_ranking): when no target is pinned, the failover walk of the decision lists
  every viable candidate exactly once, ordered by the ranking key of the requested
  preference: exhausted buckets last, then cost tier (or capability fit for quality), then
  near-limit, fit, exact remaining fraction and remaining amount.
\<close>

theorem route_ranking:
  assumes "rq_target req = None" "select_route req tools u = Inr d" "snapshot_bounded u"
  shows "\<exists>cs. mset cs = mset (viable_candidates req tools u) \<and>
     ranked_targets d = map ranked_of cs \<and>
     sorted_wrt (\<lambda>a b. rank_key (rq_prefer req) a \<le> rank_key (rq_prefer req) b) cs"
proof -
  let ?cs = "sort_by (compare_candidates (rq_prefer req)) (viable_candidates req tools u)"
  obtain chosen rest where c: "?cs = chosen # rest" "d = decision_from_candidate req chosen rest"
    using select_route_open [OF assms(1,2)] .
  have "ranked_targets d = map ranked_of ?cs" by (simp add: c ranked_targets_decision)
  with ranking.sort_by_key_sorted [OF viable_ok [OF assms(3)]] show ?thesis
    using mset_sort_by by blast
qed

definition sample_tool :: "string \<Rightarrow> cost_class \<Rightarrow> string list \<Rightarrow> detected_tool" where
  "sample_tool name cost models = \<lparr>dt_name = name, dt_kind = CodingAgent, dt_installed = True, dt_path = None,
     dt_version = None, dt_invocation_modes = [Cli_invocation], dt_cli_invocation = Some ''{prompt}'',
     dt_cost_class = cost, dt_capabilities = [Code], dt_config_path = None, dt_models = models,
     dt_server_running = None, dt_enabled = True\<rparr>"

definition sample_tools :: "detected_tool list" where
  "sample_tools = [sample_tool ''codex'' ApiMetered [], sample_tool ''ollama'' LocalFree []]"

lemma sample_route:
  "\<exists>d. select_route route_request_default sample_tools snapshot_default = Inr d \<and> rd_target d = ''ollama''"
proof -
  have "map_sum id rd_target (select_route route_request_default sample_tools snapshot_default) = Inr ''ollama''"
    by code_simp
  then show ?thesis by (cases "select_route route_request_default sample_tools snapshot_default") auto
qed

theorem route_ranking_witness:
  "\<exists>d cs. select_route route_request_default sample_tools snapshot_default = Inr d \<and>
     ranked_targets d = map ranked_of cs \<and>
     mset cs = mset (viable_candidates route_request_default sample_tools snapshot_default)"
proof -
  obtain d where d: "select_route route_request_default sample_tools snapshot_default = Inr d"
    using sample_route by blast
  have "rq_target route_request_default = None" "snapshot_bounded snapshot_default" by code_simp+
  with route_ranking [OF _ d] d show ?thesis by blast
qed


definition spent_snapshot :: usage_snapshot where
  "spent_snapshot = snapshot_default\<lparr>sn_limits_by_target := [(''ollama'', 100)],
     sn_usage_by_target := [(''ollama'', 100)]\<rparr>"

lemma spent_route:
  "\<exists>d. select_route route_request_default sample_tools spent_snapshot = Inr d \<and> rd_target d = ''codex''"
proof -
  have "map_sum id rd_target (select_route route_request_default sample_tools spent_snapshot) = Inr ''codex''"
    by code_simp
  then show ?thesis by (cases "select_route route_request_default sample_tools spent_snapshot") auto
qed


text \<open>
  A tool whose models name two or more upstream pools yields
  one candidate per quota bucket: no bucket twice, and every bucket some model draws from.
\<close>

lemma one_candidate_per_bucket:
  assumes "rq_model req = None" "resolve_mode req tool = Inr m"
    and "2 \<le> card {p. Some p \<in> pool_from_model ` set (dt_models tool)}"
  shows "distinct (map cd_pool (candidates_for req u tool)) \<and>
    set (map cd_pool (candidates_for req u tool)) =
      (\<lambda>model. from_target_model (dt_name tool) (Some model)) ` set (dt_models tool)"
proof -
  note lanes = pool_lanes_spec(1) [OF assms(1), of tool] pool_lanes_spec(2) [OF assms(1,3)]
  have pools: "map cd_pool (candidates_for req u tool) =
      map (\<lambda>p. PoolKey (normalize_target (dt_name tool)) p) (map pool_from_model (pool_lanes req tool))"
    using lanes(2) assms(2) by (simp add: candidates_for_def Let_def cd_pool_build o_def from_target_model_def)
  have "distinct (map cd_pool (candidates_for req u tool))"
    unfolding pools using lanes(1) by (simp add: distinct_map inj_on_def)
  moreover have "set (map cd_pool (candidates_for req u tool)) =
      PoolKey (normalize_target (dt_name tool)) ` (pool_from_model ` set (dt_models tool))"
    unfolding pools using lanes(2) by (metis image_set list.set_map)
  ultimately show ?thesis by (auto simp: from_target_model_def image_image)
qed

text \<open>
  Comparing two capped axes by cross-multiplication in 128
  bits never overflows and is exactly the comparison of the two remaining fractions.
\<close>

lemma fraction_comparison_exact:
  assumes "hd_remaining a \<le> hd_limit a" "hd_limit a \<le> u64_max" "0 < hd_limit a"
    and "hd_remaining b \<le> hd_limit b" "hd_limit b \<le> u64_max" "0 < hd_limit b"
  shows "remaining_fraction_cmp a b =
    cmp (of_nat (hd_remaining a) / of_nat (hd_limit a) :: rat) (of_nat (hd_remaining b) / of_nat (hd_limit b))"
  using assms fraction_cmp_exact [of a b] by (simp add: dim_wf_def dim_fraction_def)

text \<open>
  C30 (explicit_target_first): an explicit target decides the route: the decision names the
  detected tool that was asked for, which is installed, enabled and capable; without
  failover there are no alternatives, and with it no alternative draws from the chosen
  bucket and the sibling pools of the same target precede every other target.
\<close>

theorem explicit_target_first:
  assumes "rq_target req = Some target" "select_route req tools u = Inr d"
  shows "(\<exists>tool \<in> set tools. dt_name tool = rd_target d \<and> dt_installed tool \<and> dt_enabled tool \<and>
      pred_option (\<lambda>k. k \<in> set (dt_capabilities tool)) (rq_capability req)) \<and>
    (rd_target d = target \<or> rd_target d = to_ascii_lowercase target) \<and>
    (rq_failover req \<or> rd_alternatives d = []) \<and>
    from_target_model (rd_target d) (rd_model d) \<notin>
      (\<lambda>a. from_target_model (ra_target a) (ra_model a)) ` set (rd_alternatives d) \<and>
    sorted_wrt (\<lambda>a b. normalize_target (ra_target a) = normalize_target (rd_target d) \<or>
      normalize_target (ra_target b) \<noteq> normalize_target (rd_target d)) (rd_alternatives d)"
proof -
  have "explicit_route req tools u target = Inr d" using assms by (simp add: select_route_def)
  then obtain tool c where tool: "List.find (\<lambda>t. dt_name t = target \<or> dt_name t = to_ascii_lowercase target) tools = Some tool"
      "dt_installed tool" "dt_enabled tool" "pred_option (\<lambda>k. k \<in> set (dt_capabilities tool)) (rq_capability req)"
      "best_lane_for req u tool = Inr c"
    and d: "rd_target d = dt_name (cd_tool c)" "rd_model d = cd_model c"
      "rd_alternatives d = map route_alternative_from (if rq_failover req then failover_alternatives req tools u c else [])"
    by (rule explicit_route_Ok)
  obtain m model where c: "c = build_candidate req u tool m model" using best_lane_built [OF tool(5)] by blast
  have found: "tool \<in> set tools" "dt_name tool = target \<or> dt_name tool = to_ascii_lowercase target"
    using tool(1) by (auto simp: find_Some_iff)
  have name: "rd_target d = dt_name tool" by (simp add: d c build_candidate_def Let_def)
  have bucket: "from_target_model (rd_target d) (rd_model d) = cd_pool c"
    by (simp add: d c build_candidate_def Let_def)
  note alt = failover_alternatives_spec [of _ req tools u c] failover_siblings_first [where req = req and tools = tools and u = u and c = c]
  have pick: "\<exists>tool \<in> set tools. dt_name tool = rd_target d \<and> dt_installed tool \<and> dt_enabled tool \<and>
      pred_option (\<lambda>k. k \<in> set (dt_capabilities tool)) (rq_capability req)"
    "rd_target d = target \<or> rd_target d = to_ascii_lowercase target" "rq_failover req \<or> rd_alternatives d = []"
    using found tool(2-4) by (auto simp: name d(3))
  have "cd_pool c \<notin> (\<lambda>a. from_target_model (ra_target a) (ra_model a)) ` set (rd_alternatives d)"
    by (auto simp: d(3) route_alternative_from_def split: if_splits dest!: alt(1))
  moreover have "sorted_wrt (\<lambda>a b. normalize_target (ra_target a) = normalize_target (rd_target d) \<or>
      normalize_target (ra_target b) \<noteq> normalize_target (rd_target d)) (rd_alternatives d)"
    using alt(2) by (simp add: d(3) sorted_wrt_map route_alternative_from_def name c cd_pool_build from_target_model_def)
  ultimately show ?thesis unfolding bucket using pick by (intro conjI)
qed

theorem explicit_target_first_witness:
  "\<exists>d. select_route (route_request_default\<lparr>rq_target := Some ''Ollama'', rq_failover := True\<rparr>) sample_tools snapshot_default
       = Inr d \<and> (rd_target d = ''Ollama'' \<or> rd_target d = to_ascii_lowercase ''Ollama'')"
proof -
  let ?req = "route_request_default\<lparr>rq_target := Some ''Ollama'', rq_failover := True\<rparr>"
  have "is_ok (select_route ?req sample_tools snapshot_default)" by code_simp
  then obtain d where d: "select_route ?req sample_tools snapshot_default = Inr d"
    by (cases "select_route ?req sample_tools snapshot_default") (simp_all add: is_ok_def)
  have "rq_target ?req = Some ''Ollama''" by simp
  from explicit_target_first [OF this d] d show ?thesis by blast
qed

definition cyclic_tools :: "detected_tool list" where
  "cyclic_tools = [sample_tool ''a'' ApiMetered [''p/x''], sample_tool ''b'' ApiMetered [''y''],
     sample_tool ''c'' ApiMetered [''q/z'']]"

definition cyclic_usage :: usage_snapshot where
  "cyclic_usage = snapshot_default\<lparr>sn_usage_by_pool := [(''a#p'', 5), (''c#q'', 3)]\<rparr>"

text \<open>
  Observed usage is compared only between two pooled
  candidates, and the tool name otherwise, so the comparison the route is sorted by is not
  an order: three viable candidates of one request form a cycle, each strictly before the
  next.
\<close>

lemma ranking_not_transitive:
  "(case viable_candidates route_request_default cyclic_tools cyclic_usage of
      [a, b, c] \<Rightarrow> map (\<lambda>(x, y). compare_candidates Cheapest x y) [(a, b), (b, c), (c, a)] = [Less, Less, Less]
    | _ \<Rightarrow> False)"
  by code_simp

end
