(* ===== verification/Gateway.thy ===== *)
theory Gateway
  imports Router
begin

text \<open>
  \<^verbatim>\<open>crates/rtrt-providers/src/gateway.rs\<close>: the multi-provider gateway with its response
  cache, budget, retry and fallback policy, per-request metrics and ledger recording. The
  providers' HTTP calls are outside the repository: one chat call is given a function that
  says, for each attempt, what the provider answered, when, and how the ledger's file system
  calls went. Sleeping between retries changes no state and is not modelled; the hash behind
  \<^verbatim>\<open>cache_key\<close> is an argument.
\<close>

section \<open>Requests and responses\<close>

datatype role = System | User | Assistant

record chat_message =
  cm_role :: role
  cm_content :: string

record chat_request =
  cq_model :: string
  cq_messages :: "chat_message list"
  cq_max_tokens :: "32 word option"
  cq_temperature_bits :: "32 word option"

record chat_response =
  cr_provider :: string
  cr_model :: string
  cr_content :: string
  cr_usage :: usage

section \<open>Metrics\<close>

record request_metric =
  rm_id :: nat
  rm_parent_id :: "nat option"
  rm_provider :: string
  rm_model :: string
  rm_started_at :: nat
  rm_latency_ms :: "64 word"
  rm_usage :: usage
  rm_cost_usd :: rat
  rm_ok :: bool
  rm_error :: "string option"

record gateway_summary =
  sm_calls :: "64 word"
  sm_successes :: "64 word"
  sm_failures :: "64 word"
  sm_total_input_tokens :: "64 word"
  sm_total_output_tokens :: "64 word"
  sm_total_latency_ms :: "64 word"
  sm_total_cost_usd :: rat

definition summary_default :: gateway_summary where
  "summary_default = \<lparr>sm_calls = 0, sm_successes = 0, sm_failures = 0, sm_total_input_tokens = 0,
     sm_total_output_tokens = 0, sm_total_latency_ms = 0, sm_total_cost_usd = 0\<rparr>"

definition summary_record :: "gateway_summary \<Rightarrow> request_metric \<Rightarrow> gateway_summary" where
  "summary_record s m =
     \<lparr>sm_calls = sm_calls s + 1,
      sm_successes = (if rm_ok m then sm_successes s + 1 else sm_successes s),
      sm_failures = (if rm_ok m then sm_failures s else sm_failures s + 1),
      sm_total_input_tokens = sm_total_input_tokens s + us_input_tokens (rm_usage m),
      sm_total_output_tokens = sm_total_output_tokens s + us_output_tokens (rm_usage m),
      sm_total_latency_ms = sm_total_latency_ms s + rm_latency_ms m,
      sm_total_cost_usd = f64_add (sm_total_cost_usd s) (rm_cost_usd m)\<rparr>"

definition avg_latency_ms :: "gateway_summary \<Rightarrow> rat" where
  "avg_latency_ms s =
     (if sm_calls s = 0 then 0
      else f64_div (f64_of_u64 (unat (sm_total_latency_ms s))) (f64_of_u64 (unat (sm_calls s))))"

section \<open>Pricing and budget\<close>

record model_pricing =
  mp_input_usd_per_mtok :: rat
  mp_output_usd_per_mtok :: rat

definition pricing :: "rat \<Rightarrow> rat \<Rightarrow> model_pricing" where
  "pricing i out = \<lparr>mp_input_usd_per_mtok = fl i, mp_output_usd_per_mtok = fl out\<rparr>"

definition default_pricing :: "(string, model_pricing) btree" where
  "default_pricing = bt_of_list
     [(''claude-opus-4-7'', pricing 15 75),
      (''claude-sonnet-4-6'', pricing 3 15),
      (''claude-haiku-4-5'', pricing 1 5),
      (''gpt-5.4'', pricing 5 15),
      (''gpt-5.4-mini'', pricing (6 / 10) (24 / 10)),
      (''gpt-5.3-codex-spark'', pricing (5 / 10) 2)]"

record budget =
  bg_cap_usd :: rat
  bg_pricing :: "(string, model_pricing) btree"

definition budget_new :: "rat \<Rightarrow> budget" where
  "budget_new cap_usd = \<lparr>bg_cap_usd = cap_usd, bg_pricing = default_pricing\<rparr>"

definition with_pricing :: "budget \<Rightarrow> (string, model_pricing) btree \<Rightarrow> budget" where
  "with_pricing b p = b\<lparr>bg_pricing := p\<rparr>"

definition upsert_model :: "budget \<Rightarrow> string \<Rightarrow> model_pricing \<Rightarrow> budget" where
  "upsert_model b model p = b\<lparr>bg_pricing := bt_insert model p (bg_pricing b)\<rparr>"

definition cost_for :: "budget \<Rightarrow> string \<Rightarrow> usage \<Rightarrow> rat" where
  "cost_for b model u =
     (let upstream = (case split_once (CHR ''/'') model of Some (_, r) \<Rightarrow> r | None \<Rightarrow> model)
      in case (case bt_get (bg_pricing b) model of Some p \<Rightarrow> Some p | None \<Rightarrow> bt_get (bg_pricing b) upstream) of
           None \<Rightarrow> 0
         | Some p \<Rightarrow>
             f64_add
               (f64_mul (f64_div (f64_of_u64 (unat (us_input_tokens u))) 1000000) (mp_input_usd_per_mtok p))
               (f64_mul (f64_div (f64_of_u64 (unat (us_output_tokens u))) 1000000) (mp_output_usd_per_mtok p)))"

section \<open>Retry policy\<close>

record retry_policy =
  rp_max_attempts :: nat
  rp_backoff_ms :: nat
  rp_backoff_factor :: rat
  rp_fallback_to_default :: bool

definition retry_default :: retry_policy where
  "retry_default = \<lparr>rp_max_attempts = 1, rp_backoff_ms = 0, rp_backoff_factor = 1, rp_fallback_to_default = False\<rparr>"

definition exponential :: "nat \<Rightarrow> nat \<Rightarrow> rat \<Rightarrow> retry_policy" where
  "exponential max_attempts backoff_ms factor =
     \<lparr>rp_max_attempts = max_attempts, rp_backoff_ms = backoff_ms, rp_backoff_factor = max factor 1,
      rp_fallback_to_default = False\<rparr>"

section \<open>Response cache\<close>

record response_cache =
  ca_cap :: nat
  ca_order :: "64 word list"
  ca_entries :: "(64 word, chat_response) btree"

definition cache_new :: "nat \<Rightarrow> response_cache" where
  "cache_new cap = \<lparr>ca_cap = cap, ca_order = [], ca_entries = []\<rparr>"

definition cache_get :: "response_cache \<Rightarrow> 64 word \<Rightarrow> chat_response option" where
  "cache_get c key = bt_get (ca_entries c) key"

definition bt_remove :: "'k \<Rightarrow> ('k, 'v) btree \<Rightarrow> ('k, 'v) btree" where
  "bt_remove k m = filter (\<lambda>(k', _). k' \<noteq> k) m"

fun cache_evict :: "nat \<Rightarrow> 64 word list \<Rightarrow> (64 word, chat_response) btree \<Rightarrow>
    64 word list \<times> (64 word, chat_response) btree" where
  "cache_evict cap [] entries = ([], entries)"
| "cache_evict cap (victim # order) entries =
     (if length entries \<ge> cap then cache_evict cap order (bt_remove victim entries)
      else (victim # order, entries))"

definition cache_insert :: "response_cache \<Rightarrow> 64 word \<Rightarrow> chat_response \<Rightarrow> response_cache" where
  "cache_insert c key resp =
     (if bt_get (ca_entries c) key \<noteq> None then c
      else case cache_evict (ca_cap c) (ca_order c) (ca_entries c) of (order, entries) \<Rightarrow>
        c\<lparr>ca_order := order @ [key], ca_entries := bt_insert key resp entries\<rparr>)"

definition cache_len :: "response_cache \<Rightarrow> nat" where
  "cache_len c = length (ca_entries c)"

text \<open>What is fed to the hasher, in order.\<close>

fun role_code :: "role \<Rightarrow> 8 word" where
  "role_code System = 0"
| "role_code User = 1"
| "role_code Assistant = 2"

type_synonym key_material = "string \<times> (8 word \<times> string) list \<times> 32 word option \<times> 32 word option"

definition cache_key :: "(key_material \<Rightarrow> 64 word) \<Rightarrow> chat_request \<Rightarrow> 64 word" where
  "cache_key hash req =
     hash (cq_model req, map (\<lambda>m. (role_code (cm_role m), cm_content m)) (cq_messages req),
       cq_max_tokens req, cq_temperature_bits req)"

section \<open>The gateway\<close>

text \<open>
  \<open>gateway\<close> is what the builder methods fix; \<open>gateway_state\<close> is what sits behind the
  locks, plus the ledger file.
\<close>

record registration =
  rg_name :: string
  rg_transport :: string
  rg_prefixes :: "string list"
  rg_model_ids :: "string list"

record gateway =
  gw_providers :: "registration list"
  gw_default :: "nat option"
  gw_metric_window :: nat
  gw_budget :: "budget option"
  gw_retry :: retry_policy
  gw_record_usage :: bool

record gateway_state =
  gs_inner :: "request_metric list"
  gs_summary :: gateway_summary
  gs_by_provider :: "(string, gateway_summary) btree"
  gs_next_metric_id :: nat
  gs_cache :: "response_cache option"
  gs_ledger :: "string option"

definition gateway_new :: gateway where
  "gateway_new = \<lparr>gw_providers = [], gw_default = None, gw_metric_window = 1024, gw_budget = None,
     gw_retry = retry_default, gw_record_usage = False\<rparr>"

definition state_new :: "response_cache option \<Rightarrow> string option \<Rightarrow> gateway_state" where
  "state_new cache ledger = \<lparr>gs_inner = [], gs_summary = summary_default, gs_by_provider = [],
     gs_next_metric_id = 1, gs_cache = cache, gs_ledger = ledger\<rparr>"

definition with_cache :: "nat \<Rightarrow> response_cache option" where
  "with_cache cap = (if cap = 0 then None else Some (cache_new cap))"

definition with_usage_recording :: "gateway \<Rightarrow> bool \<Rightarrow> gateway" where
  "with_usage_recording g enabled = g\<lparr>gw_record_usage := enabled\<rparr>"

definition with_budget :: "gateway \<Rightarrow> budget \<Rightarrow> gateway" where
  "with_budget g b = g\<lparr>gw_budget := Some b\<rparr>"

definition with_retry :: "gateway \<Rightarrow> retry_policy \<Rightarrow> gateway" where
  "with_retry g r = g\<lparr>gw_retry := r\<rparr>"

definition register :: "gateway \<Rightarrow> string \<Rightarrow> string \<Rightarrow> string list \<Rightarrow> string list \<Rightarrow> gateway" where
  "register g name transport model_ids prefixes =
     g\<lparr>gw_providers := gw_providers g @
        [\<lparr>rg_name = normalize_provider_id name, rg_transport = transport, rg_prefixes = prefixes,
          rg_model_ids = model_ids\<rparr>]\<rparr>"

definition with_default_last :: "gateway \<Rightarrow> gateway" where
  "with_default_last g =
     g\<lparr>gw_default := (if length (gw_providers g) \<ge> 1 then Some (length (gw_providers g) - 1) else None)\<rparr>"

definition ollama_urls :: "string list" where
  "ollama_urls = [''http://127.0.0.1:11434'', ''http://127.0.0.1:11434/v1'', ''http://localhost:11434'',
     ''http://localhost:11434/v1'', ''http://[::1]:11434'', ''http://[::1]:11434/v1'']"

definition is_default_ollama_compatible_url :: "string \<Rightarrow> bool" where
  "is_default_ollama_compatible_url url \<longleftrightarrow>
     rev (dropWhile (\<lambda>c. c = CHR ''/'') (rev (trim url))) \<in> set ollama_urls"

definition effective_provider :: "string option \<Rightarrow> string option \<Rightarrow> string \<Rightarrow> string" where
  "effective_provider env_provider cfg_provider base_url =
     normalize_provider_id
       (case option_filter (\<lambda>v. trim v \<noteq> []) env_provider of
          Some v \<Rightarrow> v
        | None \<Rightarrow> (case option_filter (\<lambda>v. trim v \<noteq> []) cfg_provider of
            Some v \<Rightarrow> v
          | None \<Rightarrow> if is_default_ollama_compatible_url base_url then ''ollama'' else ''openai-compat''))"

definition compat_with_model :: "string \<Rightarrow> string list \<Rightarrow> string \<Rightarrow> string list" where
  "compat_with_model provider_id models model0 =
     (let model1 = trim model0;
          model = (case split_once (CHR ''/'') model1 of
                     Some (prefix, upstream) \<Rightarrow> if normalize_provider_id prefix = provider_id then upstream else model1
                   | None \<Rightarrow> model1)
      in if model \<noteq> [] \<and> model \<notin> set models then models @ [model] else models)"

definition ANTHROPIC_MODELS :: "string list" where
  "ANTHROPIC_MODELS = [''claude-opus-4-7'', ''claude-sonnet-4-6'', ''claude-haiku-4-5'']"

definition OPENAI_MODELS :: "string list" where
  "OPENAI_MODELS = [''gpt-5.4'', ''gpt-5.4-mini'', ''gpt-5.3-codex-spark'']"

text \<open>The environment variables and configuration fields \<^verbatim>\<open>from_env\<close> reads.\<close>

record gateway_env =
  ge_anthropic_api_key :: "string option"
  ge_openai_api_key :: "string option"
  ge_openai_compat_url :: "string option"
  ge_provider_base_url :: "string option"
  ge_openai_compat_provider :: "string option"
  ge_cfg_base_url :: "string option"
  ge_cfg_provider :: "string option"
  ge_cfg_model :: string

definition or_else :: "'a option \<Rightarrow> 'a option \<Rightarrow> 'a option" where
  "or_else x y = (case x of None \<Rightarrow> y | Some v \<Rightarrow> Some v)"

definition from_env :: "gateway_env \<Rightarrow> gateway" where
  "from_env e =
     (let g0 = with_usage_recording gateway_new True;
          g1 = (if ge_anthropic_api_key e \<noteq> None
                then register g0 ''anthropic'' ''anthropic'' ANTHROPIC_MODELS [''claude-''] else g0);
          g2 = (if ge_openai_api_key e \<noteq> None
                then register g1 ''openai'' ''openai'' OPENAI_MODELS [''gpt-'', ''o1-'', ''o3-'', ''o4-''] else g1)
      in case or_else (or_else (ge_openai_compat_url e) (ge_provider_base_url e)) (ge_cfg_base_url e) of
           None \<Rightarrow> g2
         | Some url \<Rightarrow>
             (let provider_id = effective_provider (ge_openai_compat_provider e) (ge_cfg_provider e) url
              in with_default_last (register g2 provider_id ''openai-compatible''
                   (compat_with_model (normalize_provider_id provider_id) [] (ge_cfg_model e)) [])))"

section \<open>Model resolution\<close>

fun prefix_index :: "nat \<Rightarrow> string \<Rightarrow> registration list \<Rightarrow> nat option" where
  "prefix_index i model [] = None"
| "prefix_index i model (r # rs) =
     (if list_ex (starts_with model) (rg_prefixes r) then Some i else prefix_index (Suc i) model rs)"

definition lookup_index :: "gateway \<Rightarrow> string \<Rightarrow> nat option" where
  "lookup_index g model =
     (case prefix_index 0 model (gw_providers g) of Some i \<Rightarrow> Some i | None \<Rightarrow> gw_default g)"

fun name_index :: "nat \<Rightarrow> string \<Rightarrow> registration list \<Rightarrow> (nat \<times> registration) option" where
  "name_index i name [] = None"
| "name_index i name (r # rs) = (if rg_name r = name then Some (i, r) else name_index (Suc i) name rs)"

definition resolve_model :: "gateway \<Rightarrow> string \<Rightarrow> error + nat \<times> string \<times> bool" where
  "resolve_model g model =
     (case split_once (CHR ''/'') model of
        Some (provider_hint, upstream) \<Rightarrow>
          if provider_hint = [] \<or> upstream = []
          then Inl (Provider (''gateway: invalid canonical model id '' @ quoted model))
          else (case name_index 0 (normalize_provider_id provider_hint) (gw_providers g) of
                  None \<Rightarrow> Inl (Provider (''gateway: no provider registered for canonical model '' @ quoted model))
                | Some (idx, r) \<Rightarrow>
                    if rg_prefixes r \<noteq> [] \<and> \<not> list_ex (starts_with upstream) (rg_prefixes r)
                    then Inl (Provider (''gateway: model '' @ quoted upstream @ '' does not match provider '' @
                           quoted provider_hint))
                    else Inr (idx, upstream, True))
      | None \<Rightarrow>
          (case lookup_index g model of
             Some idx \<Rightarrow> Inr (idx, model, False)
           | None \<Rightarrow> Inl (Provider (''gateway: no provider registered for model '' @ quoted model))))"

definition canonical_id :: "registration \<Rightarrow> string \<Rightarrow> string" where
  "canonical_id r upstream =
     (case split_once (CHR ''/'') upstream of
        Some (prefix, rest) \<Rightarrow>
          if normalize_provider_id prefix = rg_name r then rg_name r @ ''/'' @ rest
          else rg_name r @ ''/'' @ upstream
      | None \<Rightarrow> rg_name r @ ''/'' @ upstream)"

definition canonical_models :: "gateway \<Rightarrow> (string \<times> string \<times> string) list" where
  "canonical_models g =
     foldl (\<lambda>models r. foldl (\<lambda>models upstream.
         if canonical_id r upstream \<in> set (map fst models) then models
         else models @ [(canonical_id r upstream, rg_name r, rg_transport r)]) models (rg_model_ids r))
       [] (gw_providers g)"

section \<open>Dispatch\<close>

definition truncate_chars :: "string \<Rightarrow> nat \<Rightarrow> string" where
  "truncate_chars s n =
     (if chars_count s \<le> n then s else take_chars n s @ [CHR 0xE2, CHR 0x80, CHR 0xA6])"

text \<open>What one provider call gave, and the file system outcomes of its ledger row.\<close>

record call_outcome =
  oc_result :: "error + chat_response"
  oc_started_at :: nat
  oc_latency_ms :: "64 word"
  oc_io :: io_env

definition record_dispatch_to_ledger ::
  "io_env \<Rightarrow> string option \<Rightarrow> string \<Rightarrow> string \<Rightarrow> string \<Rightarrow> error + chat_response \<Rightarrow> string option" where
  "record_dispatch_to_ledger env file target model prompt_chars result =
     (case result of
        Inr resp \<Rightarrow>
          if usage_total (cr_usage resp) > 0
          then snd (record_invocation env file target model (unat (us_input_tokens (cr_usage resp)))
                 (unat (us_output_tokens (cr_usage resp))) False True)
          else snd (record_invocation env file target model (estimate_tokens prompt_chars)
                 (estimate_tokens (cr_content resp)) True True)
      | Inl _ \<Rightarrow> snd (record_invocation env file target model (estimate_tokens prompt_chars) 0 True False))"

definition push_metric :: "gateway \<Rightarrow> request_metric \<Rightarrow> gateway_state \<Rightarrow> gateway_state" where
  "push_metric g m s =
     (let inner = gs_inner s @ [m]
      in s\<lparr>gs_summary := summary_record (gs_summary s) m,
           gs_by_provider := bt_entry summary_default (rm_provider m) (\<lambda>e. summary_record e m) (gs_by_provider s),
           gs_inner := drop (length inner - gw_metric_window g) inner\<rparr>)"

definition dispatch_metric ::
  "gateway \<Rightarrow> call_outcome \<Rightarrow> nat \<Rightarrow> string \<Rightarrow> nat option \<Rightarrow> nat \<Rightarrow> request_metric" where
  "dispatch_metric g oc idx requested_model parent_id id' =
     (let u = (case oc_result oc of Inr resp \<Rightarrow> cr_usage resp | Inl _ \<Rightarrow> usage_default);
          err = (case oc_result oc of Inr _ \<Rightarrow> None | Inl e \<Rightarrow> Some (truncate_chars (error_display e) 256));
          cost = (case gw_budget g of Some b \<Rightarrow> cost_for b requested_model u | None \<Rightarrow> 0)
      in \<lparr>rm_id = id', rm_parent_id = parent_id, rm_provider = rg_name (gw_providers g ! idx),
          rm_model = requested_model, rm_started_at = oc_started_at oc, rm_latency_ms = oc_latency_ms oc,
          rm_usage = u, rm_cost_usd = cost, rm_ok = is_ok (oc_result oc), rm_error = err\<rparr>)"

definition dispatch_once ::
  "gateway \<Rightarrow> call_outcome \<Rightarrow> nat \<Rightarrow> chat_request \<Rightarrow> string \<Rightarrow> nat option \<Rightarrow> gateway_state \<Rightarrow>
   (error + chat_response) \<times> gateway_state" where
  "dispatch_once g oc idx req requested_model parent_id s =
     (let name = rg_name (gw_providers g ! idx);
          prompt_chars = (if gw_record_usage g then concat (map cm_content (cq_messages req)) else []);
          ledger = (if gw_record_usage g
                    then record_dispatch_to_ledger (oc_io oc) (gs_ledger s) name requested_model
                           prompt_chars (oc_result oc) else gs_ledger s);
          id' = gs_next_metric_id s;
          s1 = s\<lparr>gs_ledger := ledger, gs_next_metric_id := sat_add id' 1\<rparr>
      in (oc_result oc, push_metric g (dispatch_metric g oc idx requested_model parent_id id') s1))"

definition cache_store :: "64 word \<Rightarrow> chat_response \<Rightarrow> gateway_state \<Rightarrow> gateway_state" where
  "cache_store key resp s = s\<lparr>gs_cache := map_option (\<lambda>c. cache_insert c key resp) (gs_cache s)\<rparr>"

text \<open>
  The retry loop: \<open>left\<close> attempts remain, the outcome of attempt \<open>a\<close> (from 0) is
  \<open>outcome a\<close>; \<open>Inl\<close> carries the last error when all failed.
\<close>

fun attempt_loop ::
  "gateway \<Rightarrow> (nat \<Rightarrow> call_outcome) \<Rightarrow> nat \<Rightarrow> chat_request \<Rightarrow> string \<Rightarrow> nat option \<Rightarrow> 64 word \<Rightarrow>
   nat \<Rightarrow> nat \<Rightarrow> error option \<Rightarrow> gateway_state \<Rightarrow> (error option + chat_response) \<times> gateway_state" where
  "attempt_loop g outcome idx req requested parent key a 0 last_err s = (Inl last_err, s)"
| "attempt_loop g outcome idx req requested parent key a (Suc left) last_err s =
     (case dispatch_once g (outcome a) idx req requested parent s of
        (Inr resp, s') \<Rightarrow> (Inr resp, cache_store key resp s')
      | (Inl e, s') \<Rightarrow> attempt_loop g outcome idx req requested parent key (Suc a) left (Some e) s')"

definition GE_SIGN :: string where
  "GE_SIGN = [CHR 0xE2, CHR 0x89, CHR 0xA5]"

definition budget_error :: "gateway \<Rightarrow> gateway_state \<Rightarrow> error option" where
  "budget_error g s =
     (case gw_budget g of
        Some b \<Rightarrow>
          (let spent = sm_total_cost_usd (gs_summary s) in
           if spent \<ge> bg_cap_usd b
           then Some (Provider (''gateway: budget exceeded ('' @ f64_fixed 4 spent @ '' '' @ GE_SIGN @ '' cap '' @
                  f64_fixed 4 (bg_cap_usd b) @ '' USD)''))
           else None)
      | None \<Rightarrow> None)"

definition chat_inner ::
  "gateway \<Rightarrow> (key_material \<Rightarrow> 64 word) \<Rightarrow> (nat \<Rightarrow> call_outcome) \<Rightarrow> chat_request \<Rightarrow> nat option \<Rightarrow>
   gateway_state \<Rightarrow> (error + chat_response) \<times> gateway_state" where
  "chat_inner g hash outcome req parent s =
     (let key = cache_key hash req in
      case Option.bind (gs_cache s) (\<lambda>c. cache_get c key) of
        Some hit \<Rightarrow> (Inr hit, s)
      | None \<Rightarrow>
      (case budget_error g s of
         Some e \<Rightarrow> (Inl e, s)
       | None \<Rightarrow>
      (case resolve_model g (cq_model req) of
         Inl e \<Rightarrow> (Inl e, s)
       | Inr (primary_idx, upstream_model, explicitly_routed) \<Rightarrow>
          (let upstream_req = req\<lparr>cq_model := upstream_model\<rparr>;
               attempts = max (rp_max_attempts (gw_retry g)) 1
           in case attempt_loop g outcome primary_idx upstream_req (cq_model req) parent key 0 attempts None s of
                (Inr resp, s') \<Rightarrow> (Inr resp, s')
              | (Inl last_err, s') \<Rightarrow>
                  (case (if \<not> explicitly_routed \<and> rp_fallback_to_default (gw_retry g)
                         then option_filter (\<lambda>d. d \<noteq> primary_idx) (gw_default g) else None) of
                     Some default_idx \<Rightarrow>
                       (case dispatch_once g (outcome attempts) default_idx upstream_req (cq_model req) parent s' of
                          (Inr resp, s'') \<Rightarrow> (Inr resp, cache_store key resp s'')
                        | (Inl e, s'') \<Rightarrow> (Inl e, s''))
                   | None \<Rightarrow>
                       (Inl (case last_err of Some e \<Rightarrow> e | None \<Rightarrow> Provider ''gateway: no attempts ran''), s'))))))"

definition chat :: "gateway \<Rightarrow> (key_material \<Rightarrow> 64 word) \<Rightarrow> (nat \<Rightarrow> call_outcome) \<Rightarrow> chat_request \<Rightarrow>
    gateway_state \<Rightarrow> (error + chat_response) \<times> gateway_state" where
  "chat g hash outcome req s = chat_inner g hash outcome req None s"

definition chat_with_parent :: "gateway \<Rightarrow> (key_material \<Rightarrow> 64 word) \<Rightarrow> (nat \<Rightarrow> call_outcome) \<Rightarrow> chat_request \<Rightarrow>
    nat option \<Rightarrow> gateway_state \<Rightarrow> (error + chat_response) \<times> gateway_state" where
  "chat_with_parent g hash outcome req parent s = chat_inner g hash outcome req parent s"

section \<open>Observation\<close>

definition metrics_recent :: "gateway_state \<Rightarrow> nat \<Rightarrow> request_metric list" where
  "metrics_recent s limit = take limit (rev (gs_inner s))"

definition budget_cap_usd :: "gateway \<Rightarrow> rat option" where
  "budget_cap_usd g = map_option bg_cap_usd (gw_budget g)"

definition budget_spent_usd :: "gateway \<Rightarrow> gateway_state \<Rightarrow> rat" where
  "budget_spent_usd g s =
     (case gw_budget g of
        None \<Rightarrow> 0
      | Some b \<Rightarrow> foldl (\<lambda>acc m. f64_add acc (cost_for b (rm_model m) (rm_usage m))) 0 (gs_inner s))"

section \<open>The cache invariant\<close>

definition cache_wf :: "response_cache \<Rightarrow> bool" where
  "cache_wf c \<longleftrightarrow> 0 < ca_cap c \<and> distinct (ca_order c) \<and> set (ca_order c) = set (bt_keys (ca_entries c)) \<and>
     bt_wf (ca_entries c) \<and> length (ca_entries c) \<le> ca_cap c"

lemma bt_keys_remove: "bt_keys (bt_remove k m) = filter (\<lambda>j. j \<noteq> k) (bt_keys m)"
  by (induction m) (auto simp: bt_remove_def)

lemma bt_wf_remove: "bt_wf m \<Longrightarrow> bt_wf (bt_remove k m)"
  unfolding bt_wf_def bt_keys_remove by (rule sorted_wrt_filter)

lemma bt_get_remove: "bt_get (bt_remove k m) j = (if j = k then None else bt_get m j)"
  by (induction m) (auto simp: bt_remove_def)

lemma length_order:
  assumes "distinct order" "set order = set (bt_keys m)" "bt_wf m"
  shows "length order = length m"
  using assms distinct_card [of order] distinct_card [of "bt_keys m"] bt_wf_distinct by fastforce

lemma length_bt_insert_fresh: "bt_get m k = None \<Longrightarrow> length (bt_insert k v m) = Suc (length m)"
  by (induction m) (auto split: if_splits)

text \<open>Eviction of a full cache drops exactly the oldest key; otherwise nothing happens.\<close>

lemma cache_evict_step:
  assumes "cache_wf c"
  shows "cache_evict (ca_cap c) (ca_order c) (ca_entries c) =
    (if length (ca_entries c) = ca_cap c
     then (List.tl (ca_order c), bt_remove (hd (ca_order c)) (ca_entries c))
     else (ca_order c, ca_entries c))"
proof (cases "length (ca_entries c) = ca_cap c")
  case True
  then have "length (ca_order c) = ca_cap c" "0 < ca_cap c"
    using assms length_order [of "ca_order c" "ca_entries c"] by (simp_all add: cache_wf_def)
  then obtain v rest where o: "ca_order c = v # rest" by (cases "ca_order c") auto
  have keys: "set (bt_keys (ca_entries c)) = insert v (set rest)" and v: "v \<notin> set rest" and d: "distinct rest"
    using assms o by (auto simp: cache_wf_def)
  have wf: "bt_wf (bt_remove v (ca_entries c))" using assms by (simp add: cache_wf_def bt_wf_remove)
  have "set rest = set (bt_keys (bt_remove v (ca_entries c)))"
    unfolding bt_keys_remove using keys v by auto
  then have "length rest = length (bt_remove v (ca_entries c))" by (rule length_order [OF d _ wf])
  then have "length (bt_remove v (ca_entries c)) < ca_cap c" using \<open>length (ca_order c) = ca_cap c\<close> o by simp
  then have "cache_evict (ca_cap c) rest (bt_remove v (ca_entries c)) = (rest, bt_remove v (ca_entries c))"
    by (cases rest) simp_all
  with True o show ?thesis by simp
next
  case False
  with assms have "\<not> ca_cap c \<le> length (ca_entries c)" by (simp add: cache_wf_def)
  with False show ?thesis by (cases "ca_order c") simp_all
qed

lemma cache_insert_get:
  assumes "cache_wf c" "cache_get c key = None"
  shows "cache_get (cache_insert c key resp) k =
    (if k = key then Some resp
     else if length (ca_entries c) = ca_cap c \<and> k = hd (ca_order c) then None
     else cache_get c k)"
proof -
  have "bt_wf (ca_entries c)" using assms(1) by (simp add: cache_wf_def)
  with assms(2) show ?thesis
    by (simp add: cache_insert_def cache_get_def cache_evict_step [OF assms(1)] bt_get_insert bt_wf_remove bt_get_remove)
qed

lemma cache_insert_wf:
  assumes "cache_wf c"
  shows "cache_wf (cache_insert c key resp)"
proof (cases "bt_get (ca_entries c) key")
  case None
  obtain order entries where e: "cache_evict (ca_cap c) (ca_order c) (ca_entries c) = (order, entries)" by force
  have full: "length (ca_order c) = length (ca_entries c)"
    using assms length_order by (auto simp: cache_wf_def)
  have oe: "distinct order \<and> set order = set (bt_keys entries) \<and> bt_wf entries \<and> key \<notin> set order"
  proof (cases "length (ca_entries c) = ca_cap c")
    case True
    then obtain v rest where o: "ca_order c = v # rest" using assms full by (cases "ca_order c") (auto simp: cache_wf_def)
    have "order = rest" "entries = bt_remove v (ca_entries c)"
      using e True o unfolding cache_evict_step [OF assms] by simp_all
    moreover have "key \<notin> set (bt_keys (ca_entries c))" using None by (simp add: map_of_eq_None_iff)
    ultimately show ?thesis using assms o by (auto simp: cache_wf_def bt_keys_remove bt_wf_remove simp del: set_map simp flip: set_map)
  next
    case False
    with e have "order = ca_order c" "entries = ca_entries c" unfolding cache_evict_step [OF assms] by simp_all
    with None assms show ?thesis by (simp add: cache_wf_def map_of_eq_None_iff)
  qed
  have "length entries < ca_cap c"
  proof (cases "length (ca_entries c) = ca_cap c")
    case True
    then have "length order < ca_cap c" using e full assms unfolding cache_evict_step [OF assms]
      by (auto simp: cache_wf_def)
    then show ?thesis using oe length_order [of order entries] by simp
  next
    case False
    then show ?thesis using e assms unfolding cache_evict_step [OF assms] by (auto simp: cache_wf_def)
  qed
  moreover have "bt_get entries key = None" using oe by (auto simp: map_of_eq_None_iff)
  ultimately show ?thesis
    using None assms e oe set_bt_insert [of key resp entries]
    by (auto simp: cache_insert_def cache_wf_def length_bt_insert_fresh)
qed (simp add: cache_insert_def assms)

section \<open>Counters per provider\<close>

text \<open>
  A counter of the summaries that each recorded metric increases by a fixed amount: summed
  over the providers it always equals the overall counter.
\<close>

definition provider_sum :: "(gateway_summary \<Rightarrow> 64 word) \<Rightarrow> (string, gateway_summary) btree \<Rightarrow> 64 word" where
  "provider_sum f m = sum_list (map (\<lambda>(_, v). f v) m)"

lemma provider_sum_insert:
  assumes "bt_wf m"
  shows "provider_sum f (bt_insert k v m) =
    provider_sum f m - (case bt_get m k of None \<Rightarrow> 0 | Some w \<Rightarrow> f w) + f v"
  using assms
proof (induction m)
  case Nil
  then show ?case by (simp add: provider_sum_def)
next
  case (Cons p m)
  obtain k' v' where p: "p = (k', v')" by (cases p)
  have "bt_get m k = None" if "k < k'"
    using Cons.prems that p by (force simp: bt_wf_Cons map_of_eq_None_iff)
  with Cons p show ?case by (auto simp: provider_sum_def bt_wf_Cons split: option.split)
qed

locale additive_counter =
  fixes f :: "gateway_summary \<Rightarrow> 64 word"
    and d :: "request_metric \<Rightarrow> 64 word"
  assumes zero: "f summary_default = 0"
    and step: "f (summary_record s m) = f s + d m"
begin

lemma balanced_push:
  assumes "bt_wf (gs_by_provider s)" "provider_sum f (gs_by_provider s) = f (gs_summary s)"
  shows "provider_sum f (gs_by_provider (push_metric g m s)) = f (gs_summary (push_metric g m s))"
  using assms
  by (simp add: push_metric_def Let_def bt_entry_def provider_sum_insert step bt_get_or_def zero split: option.split)

end

interpretation calls: additive_counter sm_calls "\<lambda>_. 1"
  by unfold_locales (simp_all add: summary_default_def summary_record_def)

interpretation successes: additive_counter sm_successes "\<lambda>m. of_bool (rm_ok m)"
  by unfold_locales (simp_all add: summary_default_def summary_record_def)

interpretation failures: additive_counter sm_failures "\<lambda>m. of_bool (\<not> rm_ok m)"
  by unfold_locales (simp_all add: summary_default_def summary_record_def)

interpretation input_tokens: additive_counter sm_total_input_tokens "\<lambda>m. us_input_tokens (rm_usage m)"
  by unfold_locales (simp_all add: summary_default_def summary_record_def)

interpretation output_tokens: additive_counter sm_total_output_tokens "\<lambda>m. us_output_tokens (rm_usage m)"
  by unfold_locales (simp_all add: summary_default_def summary_record_def)

interpretation latency: additive_counter sm_total_latency_ms rm_latency_ms
  by unfold_locales (simp_all add: summary_default_def summary_record_def)

definition counters :: "(gateway_summary \<Rightarrow> 64 word) list" where
  "counters = [sm_calls, sm_successes, sm_failures, sm_total_input_tokens, sm_total_output_tokens, sm_total_latency_ms]"

section \<open>The gateway invariant\<close>

definition gateway_inv :: "gateway \<Rightarrow> gateway_state \<Rightarrow> bool" where
  "gateway_inv g s \<longleftrightarrow>
     length (gs_inner s) \<le> gw_metric_window g \<and>
     sm_calls (gs_summary s) = sm_successes (gs_summary s) + sm_failures (gs_summary s) \<and>
     bt_wf (gs_by_provider s) \<and>
     list_all (\<lambda>f. provider_sum f (gs_by_provider s) = f (gs_summary s)) counters \<and>
     gs_next_metric_id s \<le> u64_max \<and>
     sorted_wrt (\<lambda>a b. rm_id a < rm_id b \<or> rm_id b = u64_max) (gs_inner s) \<and>
     list_all (\<lambda>m. rm_id m < gs_next_metric_id s \<or> gs_next_metric_id s = u64_max) (gs_inner s) \<and>
     pred_option cache_wf (gs_cache s)"

lemma gateway_inv_init: "gateway_inv g (state_new (with_cache cap) ledger)"
  by (simp add: gateway_inv_def state_new_def summary_default_def provider_sum_def counters_def
      with_cache_def cache_new_def cache_wf_def u64_simps)

lemma push_metric_inv:
  assumes "gateway_inv g s" "rm_id m = gs_next_metric_id s"
  shows "gateway_inv g (push_metric g m (s\<lparr>gs_next_metric_id := sat_add (gs_next_metric_id s) 1\<rparr>))"
proof -
  let ?s = "s\<lparr>gs_next_metric_id := sat_add (gs_next_metric_id s) 1\<rparr>"
  have wf: "bt_wf (gs_by_provider ?s)" using assms(1) by (simp add: gateway_inv_def)
  have bal: "provider_sum f (gs_by_provider ?s) = f (gs_summary ?s)" if "f \<in> set counters" for f
    using assms(1) that by (simp add: gateway_inv_def list_all_iff)
  note push = calls.balanced_push [OF wf, where g = g and m = m] successes.balanced_push [OF wf, where g = g and m = m]
    failures.balanced_push [OF wf, where g = g and m = m] input_tokens.balanced_push [OF wf, where g = g and m = m]
    output_tokens.balanced_push [OF wf, where g = g and m = m] latency.balanced_push [OF wf, where g = g and m = m]
  have counted: "list_all (\<lambda>f. provider_sum f (gs_by_provider (push_metric g m ?s)) = f (gs_summary (push_metric g m ?s))) counters"
    using push bal by (simp add: counters_def)
  have ids: "sorted_wrt (\<lambda>a b. rm_id a < rm_id b \<or> rm_id b = u64_max) (gs_inner s @ [m])"
    "list_all (\<lambda>x. rm_id x < sat_add (gs_next_metric_id s) 1 \<or> sat_add (gs_next_metric_id s) 1 = u64_max) (gs_inner s @ [m])"
    using assms by (auto simp: gateway_inv_def sorted_wrt_append list_all_iff sat_add_def min_def)
  have "sm_calls (gs_summary (push_metric g m ?s)) =
      sm_successes (gs_summary (push_metric g m ?s)) + sm_failures (gs_summary (push_metric g m ?s))"
    using assms(1) by (simp add: push_metric_def Let_def gateway_inv_def summary_record_def)
  moreover have "bt_wf (gs_by_provider (push_metric g m ?s))" using wf by (simp add: push_metric_def Let_def bt_entry_def)
  moreover have "gs_inner (push_metric g m ?s) = last_rows (gw_metric_window g) (gs_inner s @ [m])"
    "gs_cache (push_metric g m ?s) = gs_cache s" "gs_next_metric_id (push_metric g m ?s) = sat_add (gs_next_metric_id s) 1"
    by (simp_all add: push_metric_def Let_def last_rows_def)
  moreover have "list_all P (last_rows n xs)" if "list_all P xs" for P :: "request_metric \<Rightarrow> bool" and n xs
    using that set_last_rows [of n xs] by (auto simp: list_all_iff)
  moreover have "sorted_wrt (\<lambda>a b. rm_id a < rm_id b \<or> rm_id b = u64_max) (last_rows n (gs_inner s @ [m]))" for n
    unfolding last_rows_def by (rule sorted_wrt_drop [OF ids(1)])
  ultimately show ?thesis using counted ids assms(1) unfolding gateway_inv_def
    by (simp only: length_last_rows sat_add_le simp_thms)
qed

lemma dispatch_once_inv:
  assumes "gateway_inv g s"
  shows "gateway_inv g (snd (dispatch_once g oc idx req requested parent s))"
proof -
  define l where "l = (if gw_record_usage g
     then record_dispatch_to_ledger (oc_io oc) (gs_ledger s) (rg_name (gw_providers g ! idx)) requested
            (if gw_record_usage g then concat (map cm_content (cq_messages req)) else []) (oc_result oc) else gs_ledger s)"
  have "gateway_inv g (s\<lparr>gs_ledger := l\<rparr>)" using assms by (simp add: gateway_inv_def)
  from push_metric_inv [OF this, of "dispatch_metric g oc idx requested parent (gs_next_metric_id s)"] show ?thesis
    unfolding dispatch_once_def Let_def l_def [symmetric] by (simp add: dispatch_metric_def Let_def)
qed

lemma cache_store_inv: "gateway_inv g s \<Longrightarrow> gateway_inv g (cache_store key resp s)"
  by (cases "gs_cache s") (simp_all add: gateway_inv_def cache_store_def cache_insert_wf)

lemma attempt_loop_inv:
  "gateway_inv g s \<Longrightarrow> gateway_inv g (snd (attempt_loop g outcome idx req requested parent key a n last_err s))"
proof (induction n arbitrary: a last_err s)
  case (Suc n)
  then show ?case
    using dispatch_once_inv [OF Suc.prems, of "outcome a" idx req requested parent]
    by (cases "dispatch_once g (outcome a) idx req requested parent s")
       (auto simp: cache_store_inv split: sum.split)
qed simp

lemma chat_inner_inv:
  assumes "gateway_inv g s"
  shows "gateway_inv g (snd (chat_inner g hash outcome req parent s))"
proof (cases "Option.bind (gs_cache s) (\<lambda>c. cache_get c (cache_key hash req))";
    cases "budget_error g s"; cases "resolve_model g (cq_model req)")
  fix t assume c: "Option.bind (gs_cache s) (\<lambda>c. cache_get c (cache_key hash req)) = None"
    and b: "budget_error g s = None" and r: "resolve_model g (cq_model req) = Inr t"
  obtain idx up ex where t: "t = (idx, up, ex)" by (cases t)
  let ?loop = "attempt_loop g outcome idx (req\<lparr>cq_model := up\<rparr>) (cq_model req) parent (cache_key hash req) 0
    (max (rp_max_attempts (gw_retry g)) 1) None s"
  have loop: "gateway_inv g (snd ?loop)" by (rule attempt_loop_inv [OF assms])
  show ?thesis
  proof (cases ?loop)
    case (Pair res s')
    with loop have s': "gateway_inv g s'" by simp
    have "gateway_inv g (snd (dispatch_once g oc di rq m p s'))" for oc di rq m p by (rule dispatch_once_inv [OF s'])
    then show ?thesis using Pair s'
      by (auto simp: chat_inner_def Let_def c b r t cache_store_inv split: sum.split option.split prod.split)
         (metis snd_conv cache_store_inv)+
  qed
qed (use assms in \<open>auto simp: chat_inner_def Let_def\<close>)

section \<open>What a call leaves behind\<close>

lemma dispatch_once_result: "fst (dispatch_once g oc idx req requested parent s) = oc_result oc"
  by (simp add: dispatch_once_def Let_def)

lemma dispatch_once_cache: "gs_cache (snd (dispatch_once g oc idx req requested parent s)) = gs_cache s"
  by (simp add: dispatch_once_def Let_def push_metric_def)

lemma dispatch_once_calls:
  "sm_calls (gs_summary (snd (dispatch_once g oc idx req requested parent s))) = sm_calls (gs_summary s) + 1"
  by (simp add: dispatch_once_def Let_def push_metric_def summary_record_def)

lemma dispatch_once_inner:
  assumes "m \<in> set (gs_inner (snd (dispatch_once g oc idx req requested parent s)))"
  shows "m \<in> set (gs_inner s) \<or> rm_provider m = rg_name (gw_providers g ! idx)"
  using assms by (auto simp: dispatch_once_def Let_def push_metric_def dispatch_metric_def dest!: in_set_dropD)

lemma dispatch_once_eq:
  "dispatch_once g oc idx req requested parent s = (oc_result oc, snd (dispatch_once g oc idx req requested parent s))"
  using dispatch_once_result by (metis prod.collapse)

lemma cache_store_inner [simp]: "gs_inner (cache_store key resp s) = gs_inner s"
  by (simp add: cache_store_def)

lemma attempt_loop_inner:
  assumes "m \<in> set (gs_inner (snd (attempt_loop g outcome idx req requested parent key a n last_err s)))"
  shows "m \<in> set (gs_inner s) \<or> rm_provider m = rg_name (gw_providers g ! idx)"
  using assms
proof (induction n arbitrary: a last_err s)
  case (Suc n)
  obtain s1 where d: "dispatch_once g (outcome a) idx req requested parent s = (oc_result (outcome a), s1)"
    using dispatch_once_eq by blast
  have "m \<in> set (gs_inner s1)" if "rm_provider m \<noteq> rg_name (gw_providers g ! idx)"
  proof (cases "oc_result (outcome a)")
    case (Inl e)
    with Suc.prems d have "m \<in> set (gs_inner (snd (attempt_loop g outcome idx req requested parent key (Suc a) n (Some e) s1)))"
      by simp
    from Suc.IH [OF this] that show ?thesis by blast
  next
    case (Inr resp)
    with Suc.prems d show ?thesis by simp
  qed
  then show ?case using dispatch_once_inner [of m g "outcome a" idx req requested parent s] d by auto
qed simp

lemma attempt_loop_failing:
  assumes "\<And>i. i < n \<Longrightarrow> isl (oc_result (outcome (a + i)))"
  shows "\<exists>e s'. attempt_loop g outcome idx req requested parent key a n last_err s = (Inl e, s') \<and>
     sm_calls (gs_summary s') = sm_calls (gs_summary s) + of_nat n \<and> gs_cache s' = gs_cache s \<and>
     (0 < n \<longrightarrow> e \<noteq> None)"
  using assms
proof (induction n arbitrary: a last_err s)
  case 0
  then show ?case by simp
next
  case (Suc n)
  obtain e where e: "oc_result (outcome a) = Inl e" using Suc.prems [of 0] by (auto simp: isl_def)
  have "\<And>i. i < n \<Longrightarrow> isl (oc_result (outcome (Suc a + i)))" using Suc.prems [of "Suc _"] by simp
  note IH = Suc.IH [OF this]
  obtain s1 where d: "dispatch_once g (outcome a) idx req requested parent s = (Inl e, s1)"
    using dispatch_once_eq [of g "outcome a" idx req requested parent s] e by metis
  have s1: "sm_calls (gs_summary s1) = sm_calls (gs_summary s) + 1" "gs_cache s1 = gs_cache s"
    using dispatch_once_calls [of g "outcome a" idx req requested parent s]
      dispatch_once_cache [of g "outcome a" idx req requested parent s] d by simp_all
  from IH [of "Some e" s1] obtain e' s' where
    l: "attempt_loop g outcome idx req requested parent key (Suc a) n (Some e) s1 = (Inl e', s')"
    and s': "sm_calls (gs_summary s') = sm_calls (gs_summary s1) + of_nat n" "gs_cache s' = gs_cache s1"
    and e': "0 < n \<longrightarrow> e' \<noteq> None" by blast
  have "e' \<noteq> None" using e' l by (cases n) auto
  with l s' s1 d show ?case by simp
qed

section \<open>Reachable states\<close>

inductive gateway_reach :: "gateway \<Rightarrow> (key_material \<Rightarrow> 64 word) \<Rightarrow> gateway_state \<Rightarrow> bool"
  for g :: gateway and hash :: "key_material \<Rightarrow> 64 word" where
  start: "gateway_reach g hash (state_new (with_cache cap) ledger)"
| call: "gateway_reach g hash s \<Longrightarrow> gateway_reach g hash (snd (chat_with_parent g hash outcome req parent s))"

lemma reach_inv: "gateway_reach g hash s \<Longrightarrow> gateway_inv g s"
  by (induction rule: gateway_reach.induct)
     (simp_all add: gateway_inv_init chat_with_parent_def chat_inner_inv)

lemma attempt_loop_cache:
  assumes "attempt_loop g outcome idx rq m p key a n last_err s = (res, s')"
  shows "gs_cache s' = (case res of Inl _ \<Rightarrow> gs_cache s | Inr resp \<Rightarrow> gs_cache (cache_store key resp s))"
  using assms
proof (induction n arbitrary: a last_err s)
  case 0
  then show ?case by auto
next
  case (Suc n)
  obtain s1 where d: "dispatch_once g (outcome a) idx rq m p s = (oc_result (outcome a), s1)"
    using dispatch_once_eq by blast
  have s1: "gs_cache s1 = gs_cache s" using dispatch_once_cache [of g "outcome a" idx rq m p s] d by simp
  show ?case
  proof (cases "oc_result (outcome a)")
    case (Inl e)
    with Suc.prems d have "attempt_loop g outcome idx rq m p key (Suc a) n (Some e) s1 = (res, s')" by simp
    from Suc.IH [OF this] s1 show ?thesis by (simp add: cache_store_def split: sum.split)
  next
    case (Inr resp)
    with Suc.prems d s1 show ?thesis by (auto simp: cache_store_def)
  qed
qed

lemma chat_inner_success:
  assumes "chat_inner g hash outcome req parent s = (Inr resp, s')"
    and "gs_cache s = Some c" "cache_wf c"
  shows "Option.bind (gs_cache s') (\<lambda>c. cache_get c (cache_key hash req)) = Some resp"
proof (cases "cache_get c (cache_key hash req)")
  case (Some hit)
  with assms show ?thesis by (simp add: chat_inner_def Let_def)
next
  case None
  have stored: "Option.bind (gs_cache (cache_store (cache_key hash req) resp t)) (\<lambda>c. cache_get c (cache_key hash req)) = Some resp"
    if "gs_cache t = Some c" for t
    using that cache_insert_get [OF assms(3) None] by (simp add: cache_store_def)
  have last: "Option.bind (gs_cache (cache_store (cache_key hash req) resp t1)) (\<lambda>c. cache_get c (cache_key hash req)) = Some resp"
    if "gs_cache t = Some c" "dispatch_once g oc idx rq m p t = (Inr resp, t1)" for oc idx rq m p t t1
    using that dispatch_once_cache [of g oc idx rq m p t] stored [of t1] by simp
  have res: "\<exists>t. resolve_model g (cq_model req) = Inr t" "budget_error g s = None"
    using assms(1,2) None by (auto simp: chat_inner_def Let_def split: option.splits sum.splits)
  then obtain idx up ex where r: "resolve_model g (cq_model req) = Inr (idx, up, ex)" by (metis prod.collapse)
  obtain lres ls where l: "attempt_loop g outcome idx (req\<lparr>cq_model := up\<rparr>) (cq_model req) parent (cache_key hash req) 0
      (max (rp_max_attempts (gw_retry g)) 1) None s = (lres, ls)" by force
  note lc = attempt_loop_cache [OF l]
  show ?thesis
  proof (cases lres)
    case (Inr x)
    then have "x = resp" "s' = ls" using assms(1,2) None r l res(2) by (simp_all add: chat_inner_def Let_def)
    then show ?thesis using lc Inr stored [OF assms(2)] by simp
  next
    case (Inl le)
    then have ls: "gs_cache ls = Some c" using lc assms(2) by simp
    show ?thesis using assms(1,2) None r l Inl res(2)
      by (auto simp: chat_inner_def Let_def split: option.splits prod.splits sum.splits intro: last [OF ls])
  qed
qed

lemma name_index_Some:
  "name_index i name rs = Some (j, r) \<Longrightarrow> i \<le> j \<and> j < i + length rs \<and> rs ! (j - i) = r \<and> rg_name r = name"
proof (induction i name rs rule: name_index.induct)
  case (2 i name r' rs)
  show ?case
  proof (cases "rg_name r' = name")
    case False
    with 2 have IH: "Suc i \<le> j \<and> j < Suc i + length rs \<and> rs ! (j - Suc i) = r \<and> rg_name r = name" by simp
    then have "j - i = Suc (j - Suc i)" by arith
    with IH show ?thesis by simp
  qed (use 2 in auto)
qed simp

section \<open>Properties\<close>

text \<open>
  C24 (gateway_accounting): in every state reachable by any sequence of chat calls with any
  provider outcomes, the books balance: successes and failures add up to the calls, every
  counter summed over the providers equals the overall counter (all modulo \<open>2^64\<close>), the
  retained metrics fit the window and carry increasing ids, and the response cache never
  exceeds its capacity.
\<close>

theorem gateway_accounting:
  assumes "gateway_reach g hash s"
  shows "sm_calls (gs_summary s) = sm_successes (gs_summary s) + sm_failures (gs_summary s) \<and>
    list_all (\<lambda>f. sum_list (map (\<lambda>(_, v). f v) (gs_by_provider s)) = f (gs_summary s))
      [sm_calls, sm_successes, sm_failures, sm_total_input_tokens, sm_total_output_tokens, sm_total_latency_ms] \<and>
    length (gs_inner s) \<le> gw_metric_window g \<and>
    sorted_wrt (\<lambda>a b. rm_id a < rm_id b \<or> rm_id b = u64_max) (gs_inner s) \<and>
    pred_option (\<lambda>c. cache_len c \<le> ca_cap c) (gs_cache s)"
  using reach_inv [OF assms]
  by (cases "gs_cache s") (simp_all add: gateway_inv_def counters_def provider_sum_def cache_wf_def cache_len_def)

text \<open>One provider owning the prefix \<open>m-\<close>, and an answer that succeeds.\<close>

definition sample_gateway :: gateway where
  "sample_gateway = register gateway_new ''acme'' ''acme'' [''m-1''] [''m-'']"

definition sample_request :: "string \<Rightarrow> chat_request" where
  "sample_request model = \<lparr>cq_model = model, cq_messages = [\<lparr>cm_role = User, cm_content = ''hi''\<rparr>],
     cq_max_tokens = None, cq_temperature_bits = None\<rparr>"

definition sample_outcome :: "error + string \<Rightarrow> call_outcome" where
  "sample_outcome r = \<lparr>oc_result = map_sum id (\<lambda>text. \<lparr>cr_provider = ''acme'', cr_model = ''m-1'', cr_content = text,
       cr_usage = \<lparr>us_input_tokens = 3, us_output_tokens = 5, us_cache_read_input_tokens = 0,
         us_cache_creation_input_tokens = 0\<rparr>\<rparr>) r,
     oc_started_at = 10, oc_latency_ms = 20,
     oc_io = \<lparr>io_now = 10, io_lock = (\<lambda>_. Created), io_append = Written, io_trim = Written\<rparr>\<rparr>"

definition sample_hash :: "key_material \<Rightarrow> 64 word" where
  "sample_hash k = of_nat (length (fst k))"

definition sample_reached :: gateway_state where
  "sample_reached = snd (chat_with_parent sample_gateway sample_hash (\<lambda>_. sample_outcome (Inr ''ok''))
     (sample_request ''m-1'') None (state_new (with_cache 2) None))"

lemma sample_reach: "gateway_reach sample_gateway sample_hash sample_reached"
  unfolding sample_reached_def by (rule gateway_reach.call, rule gateway_reach.start)

theorem gateway_accounting_witness:
  "gateway_reach sample_gateway sample_hash sample_reached \<and>
   sm_calls (gs_summary sample_reached) = 1 \<and> length (gs_inner sample_reached) \<le> gw_metric_window sample_gateway"
proof -
  have "sm_calls (gs_summary sample_reached) = 1" by code_simp
  with gateway_accounting [OF sample_reach] sample_reach show ?thesis by blast
qed

text \<open>
  Inserting a fresh key into a well-formed response cache makes that
  key readable; a full cache loses exactly its oldest key and every other entry stays, a
  cache with room loses nothing; the result is well formed again.
\<close>

lemma cache_is_fifo:
  assumes "cache_wf c" "cache_get c key = None"
  shows "cache_get (cache_insert c key resp) k =
      (if k = key then Some resp
       else if cache_len c = ca_cap c \<and> k = hd (ca_order c) then None
       else cache_get c k) \<and> cache_wf (cache_insert c key resp)"
  using cache_insert_get [OF assms] cache_insert_wf [OF assms(1)] by (simp add: cache_len_def)

text \<open>
  Once a gateway with a cache has answered a request, asking
  again at once returns the same answer whatever the providers would now do, and changes
  nothing: no call, no cost, no ledger row.
\<close>

lemma cached_reply_is_stable:
  assumes "gateway_reach g hash s" "gs_cache s \<noteq> None"
    and "chat g hash outcome req s = (Inr resp, s')"
  shows "chat g hash outcome' req s' = (Inr resp, s')"
proof -
  obtain c where c: "gs_cache s = Some c" using assms(2) by blast
  then have "cache_wf c" using reach_inv [OF assms(1)] by (simp add: gateway_inv_def)
  from chat_inner_success [OF assms(3) [unfolded chat_def] c this] show ?thesis
    by (simp add: chat_def chat_inner_def Let_def)
qed

section \<open>Spending\<close>

abbreviation spent_usd :: "gateway_state \<Rightarrow> rat" where
  "spent_usd s \<equiv> sm_total_cost_usd (gs_summary s)"

text \<open>At the cap a request that the cache cannot answer is refused, and nothing changes.\<close>

lemma refused_at_cap:
  assumes "gw_budget g = Some b" "bg_cap_usd b \<le> spent_usd s"
  shows "snd (chat_with_parent g hash outcome req parent s) = s"
  using assms by (simp add: chat_with_parent_def chat_inner_def budget_error_def Let_def split: option.split)

lemma cost_for_nothing [simp]: "cost_for b model usage_default = 0"
  by (simp add: cost_for_def usage_default_def f64_add_def f64_mul_def f64_div_def split: option.split)

lemma dispatch_spent:
  assumes "gw_budget g = Some b"
  shows "spent_usd (snd (dispatch_once g oc idx req requested parent s)) =
    (case oc_result oc of Inr resp \<Rightarrow> f64_add (spent_usd s) (cost_for b requested (cr_usage resp)) | Inl e \<Rightarrow> fl (spent_usd s))"
  using assms by (simp add: dispatch_once_def Let_def push_metric_def summary_record_def dispatch_metric_def f64_add_def
      split: sum.split)

lemma cache_store_spent [simp]: "spent_usd (cache_store key resp s) = spent_usd s"
  by (simp add: cache_store_def)

text \<open>Failed attempts cost nothing, so the retry loop adds the cost of one answer or none.\<close>

lemma attempt_loop_spent:
  assumes "gw_budget g = Some b" "fl (spent_usd s) = spent_usd s"
    and "attempt_loop g outcome idx rq m p key a n last_err s = (res, s')"
  shows "spent_usd s' = (case res of Inr resp \<Rightarrow> f64_add (spent_usd s) (cost_for b m (cr_usage resp)) | Inl e \<Rightarrow> spent_usd s)"
  using assms(2,3)
proof (induction n arbitrary: a last_err s)
  case (Suc n)
  obtain s1 where d: "dispatch_once g (outcome a) idx rq m p s = (oc_result (outcome a), s1)"
    using dispatch_once_eq by blast
  note spent = dispatch_spent [OF assms(1), of "outcome a" idx rq m p s, unfolded d snd_conv]
  show ?case
  proof (cases "oc_result (outcome a)")
    case (Inl e)
    with spent Suc.prems(1) have s1: "spent_usd s1 = spent_usd s" by simp
    from Suc.prems(2) d Inl have "attempt_loop g outcome idx rq m p key (Suc a) n (Some e) s1 = (res, s')" by simp
    from Suc.IH [OF _ this] show ?thesis using s1 Suc.prems(1) by (cases res) simp_all
  next
    case (Inr resp)
    with Suc.prems(2) d have "res = Inr resp" "s' = cache_store key resp s1" by auto
    with spent Inr show ?thesis by simp
  qed
qed auto

text \<open>A request below the cap adds the cost of the answer it returns, and otherwise nothing.\<close>

lemma chat_spent:
  assumes "gw_budget g = Some b" "fl (spent_usd s) = spent_usd s"
    and "chat_with_parent g hash outcome req parent s = (res, s')"
  shows "spent_usd s' = spent_usd s \<or>
    spent_usd s < bg_cap_usd b \<and> (\<exists>resp. res = Inr resp \<and> spent_usd s' = f64_add (spent_usd s) (cost_for b (cq_model req) (cr_usage resp)))"
proof (cases "Option.bind (gs_cache s) (\<lambda>c. cache_get c (cache_key hash req)) = None \<and> budget_error g s = None \<and>
    \<not> isl (resolve_model g (cq_model req))")
  case False
  then have "s' = s" using assms(3)
    by (auto simp: chat_with_parent_def chat_inner_def Let_def split: option.splits sum.splits)
  then show ?thesis by simp
next
  case True
  then obtain idx upstream explicit where r: "resolve_model g (cq_model req) = Inr (idx, upstream, explicit)"
    by (cases "resolve_model g (cq_model req)") auto
  have below: "spent_usd s < bg_cap_usd b" using True assms(1) by (auto simp: budget_error_def Let_def split: if_splits)
  let ?rq = "req\<lparr>cq_model := upstream\<rparr>" and ?n = "max (rp_max_attempts (gw_retry g)) 1"
  obtain res1 s1 where l: "attempt_loop g outcome idx ?rq (cq_model req) parent (cache_key hash req) 0 ?n None s = (res1, s1)"
    by fastforce
  note spent1 = attempt_loop_spent [OF assms(1,2) l]
  show ?thesis
  proof (cases res1)
    case (Inr resp)
    then have "res = Inr resp" "s' = s1" using assms(3) True r l by (simp_all add: chat_with_parent_def chat_inner_def Let_def)
    then show ?thesis using below spent1 Inr by simp
  next
    case (Inl e)
    with spent1 have s1: "spent_usd s1 = spent_usd s" by simp
    let ?fb = "if \<not> explicit \<and> rp_fallback_to_default (gw_retry g) then option_filter (\<lambda>d. d \<noteq> idx) (gw_default g) else None"
    show ?thesis
    proof (cases ?fb)
      case None
      then have "s' = s1" using assms(3) True r l Inl by (simp add: chat_with_parent_def chat_inner_def Let_def)
      then show ?thesis using s1 by simp
    next
      case (Some d)
      note spent2 = dispatch_spent [OF assms(1), of "outcome ?n" d ?rq "cq_model req" parent s1]
      obtain s2 where d2: "dispatch_once g (outcome ?n) d ?rq (cq_model req) parent s1 = (oc_result (outcome ?n), s2)"
        using dispatch_once_eq by blast
      have run: "chat_with_parent g hash outcome req parent s = (case oc_result (outcome ?n) of
          Inr resp \<Rightarrow> (Inr resp, cache_store (cache_key hash req) resp s2) | Inl e2 \<Rightarrow> (Inl e2, s2))"
        using True r l Inl Some d2 by (simp add: chat_with_parent_def chat_inner_def Let_def split: sum.split)
      show ?thesis using run assms(2,3) spent2 below s1 unfolding d2 snd_conv by (cases "oc_result (outcome ?n)") auto
    qed
  qed
qed

text \<open>Requests one after the other, each with its parent and what the providers answer to its attempts.\<close>

definition run_chats :: "gateway \<Rightarrow> (key_material \<Rightarrow> 64 word) \<Rightarrow>
    (chat_request \<times> nat option \<times> (nat \<Rightarrow> call_outcome)) list \<Rightarrow> gateway_state \<Rightarrow> gateway_state" where
  "run_chats g hash calls s = foldl (\<lambda>s (req, parent, outcome). snd (chat_with_parent g hash outcome req parent s)) s calls"

lemma run_chats_at_cap: "gw_budget g = Some b \<Longrightarrow> bg_cap_usd b \<le> spent_usd s \<Longrightarrow> run_chats g hash calls s = s"
  unfolding run_chats_def by (induction calls) (auto simp: refused_at_cap)

lemma run_chats_spent:
  assumes "gw_budget g = Some b" "fl (spent_usd s) = spent_usd s"
  shows "fl (spent_usd (run_chats g hash calls s)) = spent_usd (run_chats g hash calls s) \<and>
    (spent_usd (run_chats g hash calls s) = spent_usd s \<or>
     (\<exists>before req u. before < bg_cap_usd b \<and> req \<in> fst ` set calls \<and>
        spent_usd (run_chats g hash calls s) = f64_add before (cost_for b (cq_model req) u)))"
proof (induction calls rule: rev_induct)
  case Nil
  then show ?case using assms(2) by (simp add: run_chats_def)
next
  case (snoc c calls)
  obtain req parent outcome where c: "c = (req, parent, outcome)" by (cases c)
  let ?s = "run_chats g hash calls s"
  have run: "run_chats g hash (calls @ [c]) s = snd (chat_with_parent g hash outcome req parent ?s)"
    by (simp add: run_chats_def c)
  obtain res s' where r: "chat_with_parent g hash outcome req parent ?s = (res, s')" by fastforce
  have same: "spent_usd (run_chats g hash (calls @ [c]) s) = spent_usd s'" unfolding run r snd_conv ..
  have mem: "req \<in> fst ` set (calls @ [c])" "fst ` set calls \<subseteq> fst ` set (calls @ [c])" by (auto simp: c)
  from snoc.IH have "fl (spent_usd ?s) = spent_usd ?s" by blast
  from chat_spent [OF assms(1) this r] consider "spent_usd s' = spent_usd ?s"
    | u where "spent_usd ?s < bg_cap_usd b" "spent_usd s' = f64_add (spent_usd ?s) (cost_for b (cq_model req) u)" by blast
  then show ?case
  proof cases
    case 1
    with snoc.IH mem(2) show ?thesis unfolding same by auto
  next
    case 2
    then have "fl (spent_usd s') = spent_usd s'" by (simp add: f64_add_def)
    with 2 mem(1) show ?thesis unfolding same by blast
  qed
qed


text \<open>A cap of eight dollars, and a model whose answer of a million tokens costs as much.\<close>

definition costly_gateway :: gateway where
  "costly_gateway = with_budget sample_gateway
     \<lparr>bg_cap_usd = 8, bg_pricing = [(''m-1'', \<lparr>mp_input_usd_per_mtok = 8, mp_output_usd_per_mtok = 8\<rparr>)]\<rparr>"

definition costly_answer :: call_outcome where
  "costly_answer = (sample_outcome (Inr []))\<lparr>oc_result := Inr \<lparr>cr_provider = ''acme'', cr_model = ''m-1'', cr_content = ''ok'',
     cr_usage = usage_default\<lparr>us_input_tokens := 1000000\<rparr>\<rparr>\<rparr>"

definition costly_calls :: "(chat_request \<times> nat option \<times> (nat \<Rightarrow> call_outcome)) list" where
  "costly_calls = [(sample_request ''m-1'', None, \<lambda>_. costly_answer)]"


text \<open>
  A request for \<open>provider/model\<close> is only ever sent to the
  provider it names: every metric it adds carries that provider's name, retries included,
  and the default provider is never tried in its place.
\<close>

lemma explicit_provider_only:
  assumes "cq_model req = hint @ ''/'' @ upstream" "CHR ''/'' \<notin> set hint"
    and "m \<in> set (gs_inner (snd (chat_with_parent g hash outcome req parent s)))"
  shows "m \<in> set (gs_inner s) \<or> rm_provider m = normalize_provider_id hint"
proof -
  have split: "split_once (CHR ''/'') (cq_model req) = Some (hint, upstream)"
    using assms(1,2) by (simp add: split_once_Some)
  show ?thesis
  proof (cases "resolve_model g (cq_model req)")
    case (Inl e)
    then show ?thesis using assms(3)
      by (simp add: chat_with_parent_def chat_inner_def Let_def split: option.splits)
  next
    case (Inr t)
    then obtain idx where t: "t = (idx, upstream, True)" and n: "rg_name (gw_providers g ! idx) = normalize_provider_id hint"
      using split name_index_Some [of 0 "normalize_provider_id hint" "gw_providers g"]
      by (fastforce simp: resolve_model_def split: if_splits option.splits)
    then show ?thesis using Inr assms(3)
      by (auto simp: chat_with_parent_def chat_inner_def Let_def n [symmetric] split: option.splits prod.splits sum.splits
          dest!: arg_cong [of _ _ snd] dest: attempt_loop_inner)
  qed
qed

text \<open>
  C26 (retries_bounded): when every attempt fails, a request that resolves and is neither
  cached nor over budget makes exactly the configured number of attempts (at least one) on
  the resolved provider, plus one on the default when fallback is on, the model was not
  explicitly routed and the default is another provider; it then reports an error and
  stores nothing in the cache.
\<close>

theorem retries_bounded:
  assumes "Option.bind (gs_cache s) (\<lambda>c. cache_get c (cache_key hash req)) = None" "budget_error g s = None"
    and "resolve_model g (cq_model req) = Inr (idx, upstream, explicit)"
    and "list_all (\<lambda>i. isl (oc_result (outcome i))) [0..<Suc (max (rp_max_attempts (gw_retry g)) 1)]"
  shows "\<exists>e s'. chat_with_parent g hash outcome req parent s = (Inl e, s') \<and> gs_cache s' = gs_cache s \<and>
    sm_calls (gs_summary s') = sm_calls (gs_summary s) + of_nat (max (rp_max_attempts (gw_retry g)) 1) +
      (if \<not> explicit \<and> rp_fallback_to_default (gw_retry g) \<and> gw_default g \<notin> {None, Some idx} then 1 else 0)"
proof -
  let ?n = "max (rp_max_attempts (gw_retry g)) 1" and ?rq = "req\<lparr>cq_model := upstream\<rparr>"
  have "\<And>i. i < ?n \<Longrightarrow> isl (oc_result (outcome (0 + i)))" using assms(4) by (simp add: list_all_iff)
  from attempt_loop_failing [where outcome = outcome and a = 0 and n = ?n and g = g and idx = idx and req = ?rq
      and requested = "cq_model req" and parent = parent and key = "cache_key hash req" and last_err = None and s = s,
      OF this] obtain e s1 where
    l: "attempt_loop g outcome idx ?rq (cq_model req) parent (cache_key hash req) 0 ?n None s = (Inl e, s1)"
    and s1: "sm_calls (gs_summary s1) = sm_calls (gs_summary s) + of_nat ?n" "gs_cache s1 = gs_cache s" by blast
  show ?thesis
  proof (cases "if \<not> explicit \<and> rp_fallback_to_default (gw_retry g)
      then option_filter (\<lambda>d. d \<noteq> idx) (gw_default g) else None")
    case None
    then have "\<not> (\<not> explicit \<and> rp_fallback_to_default (gw_retry g) \<and> gw_default g \<notin> {None, Some idx})"
      by (auto simp: option_filter_def split: if_splits option.splits)
    with None show ?thesis using assms(1-3) l s1 by (simp add: chat_with_parent_def chat_inner_def Let_def)
  next
    case (Some d)
    then have fb: "\<not> explicit \<and> rp_fallback_to_default (gw_retry g) \<and> gw_default g \<notin> {None, Some idx}"
      by (auto simp: option_filter_def split: if_splits option.splits)
    obtain e2 where e2: "oc_result (outcome ?n) = Inl e2" using assms(4) by (auto simp: isl_def)
    obtain s2 where d: "dispatch_once g (outcome ?n) d ?rq (cq_model req) parent s1 = (Inl e2, s2)"
      using dispatch_once_eq e2 by metis
    have "sm_calls (gs_summary s2) = sm_calls (gs_summary s1) + 1" "gs_cache s2 = gs_cache s1"
      using dispatch_once_calls [of g "outcome ?n" d ?rq "cq_model req" parent s1]
        dispatch_once_cache [of g "outcome ?n" d ?rq "cq_model req" parent s1] unfolding d by simp_all
    then show ?thesis using Some fb assms(1-3) l s1 d by (simp add: chat_with_parent_def chat_inner_def Let_def)
  qed
qed

theorem retries_bounded_witness:
  "\<exists>e s'. chat_with_parent (with_retry sample_gateway (exponential 3 0 2)) sample_hash
       (\<lambda>_. sample_outcome (Inl (Provider ''down''))) (sample_request ''m-1'') None (state_new None None) = (Inl e, s') \<and>
     sm_calls (gs_summary s') = 3"
proof -
  let ?g = "with_retry sample_gateway (exponential 3 0 2)" and ?s = "state_new None None"
  have h: "Option.bind (gs_cache ?s) (\<lambda>c. cache_get c (cache_key sample_hash (sample_request ''m-1''))) = None"
    "budget_error ?g ?s = None"
    by (simp_all add: state_new_def budget_error_def with_retry_def sample_gateway_def register_def gateway_new_def)
  have r: "resolve_model ?g (cq_model (sample_request ''m-1'')) = Inr (0, ''m-1'', False)" by code_simp
  have f: "list_all (\<lambda>i. isl (oc_result (sample_outcome (Inl (Provider ''down''))))) [0..<Suc (max (rp_max_attempts (gw_retry ?g)) 1)]"
    by (simp add: sample_outcome_def list_all_iff)
  have n: "rp_max_attempts (gw_retry ?g) = 3" "rp_fallback_to_default (gw_retry ?g) = False" "sm_calls (gs_summary ?s) = 0"
    by (simp_all add: with_retry_def exponential_def state_new_def summary_default_def)
  from retries_bounded [OF h r f, of None] n show ?thesis by auto
qed

text \<open>The model id a canonical id leads back to, and the gateways whose ids all do.\<close>

definition upstream_of :: "registration \<Rightarrow> string \<Rightarrow> string" where
  "upstream_of r u = (case split_once (CHR ''/'') u of
     Some (prefix, rest) \<Rightarrow> if normalize_provider_id prefix = rg_name r then rest else u | None \<Rightarrow> u)"

definition routable :: "gateway \<Rightarrow> bool" where
  "routable g \<longleftrightarrow> distinct (map rg_name (gw_providers g)) \<and> list_all (\<lambda>r.
     rg_name r \<noteq> [] \<and> CHR ''/'' \<notin> set (rg_name r) \<and> normalize_provider_id (rg_name r) = rg_name r \<and>
     list_all (\<lambda>u. upstream_of r u \<noteq> [] \<and>
       (rg_prefixes r = [] \<or> list_ex (starts_with (upstream_of r u)) (rg_prefixes r))) (rg_model_ids r)) (gw_providers g)"

lemma canonical_id_eq: "canonical_id r u = rg_name r @ ''/'' @ upstream_of r u"
  by (simp add: canonical_id_def upstream_of_def split: option.split)

lemma canonical_models_from:
  assumes "(cid, name, transport) \<in> set (canonical_models g)"
  shows "\<exists>r \<in> set (gw_providers g). \<exists>u \<in> set (rg_model_ids r).
    cid = canonical_id r u \<and> name = rg_name r \<and> transport = rg_transport r"
proof -
  let ?add = "\<lambda>r models u. if canonical_id r u \<in> set (map fst models) then models
    else models @ [(canonical_id r u, rg_name r, rg_transport r)]"
  have inner: "set (foldl (?add r) models us) \<subseteq>
      set models \<union> (\<lambda>u. (canonical_id r u, rg_name r, rg_transport r)) ` set us" for r models us
  proof (induction us arbitrary: models)
    case (Cons u us)
    have "set (foldl (?add r) (?add r models u) us) \<subseteq>
        set (?add r models u) \<union> (\<lambda>u. (canonical_id r u, rg_name r, rg_transport r)) ` set us" by (rule Cons.IH)
    then show ?case by (auto split: if_splits)
  qed simp
  have "set (foldl (\<lambda>models r. foldl (?add r) models (rg_model_ids r)) models rs) \<subseteq>
      set models \<union> (\<Union>r \<in> set rs. (\<lambda>u. (canonical_id r u, rg_name r, rg_transport r)) ` set (rg_model_ids r))" for models rs
  proof (induction rs arbitrary: models)
    case (Cons r rs)
    from Cons.IH [of "foldl (?add r) models (rg_model_ids r)"] inner [where r = r and models = models and us = "rg_model_ids r"]
    show ?case by auto
  qed simp
  from subsetD [OF this [of "[]" "gw_providers g"] assms [unfolded canonical_models_def]] show ?thesis by auto
qed

lemma name_index_distinct:
  assumes "r \<in> set rs" "distinct (map rg_name rs)"
  shows "\<exists>j. name_index i (rg_name r) rs = Some (j, r)"
  using assms
proof (induction rs arbitrary: i)
  case (Cons r' rs)
  then show ?case by (cases "rg_name r' = rg_name r") (auto simp: rev_image_eqI)
qed simp

text \<open>
  Every id the gateway advertises is accepted by its own
  model resolution and leads back to the provider it was advertised for, as an explicit
  route, provided the provider names are distinct, normalised and free of slashes and the
  advertised models match the provider's own prefixes.
\<close>

lemma canonical_models_route_back:
  assumes "routable g" "(cid, name, transport) \<in> set (canonical_models g)"
  shows "\<exists>idx upstream. resolve_model g cid = Inr (idx, upstream, True) \<and> cid = name @ ''/'' @ upstream \<and>
    idx < length (gw_providers g) \<and> rg_name (gw_providers g ! idx) = name"
proof -
  obtain r u where r: "r \<in> set (gw_providers g)" "u \<in> set (rg_model_ids r)" "cid = canonical_id r u" "name = rg_name r"
    using canonical_models_from [OF assms(2)] by blast
  have ok: "rg_name r \<noteq> []" "CHR ''/'' \<notin> set (rg_name r)" "normalize_provider_id (rg_name r) = rg_name r"
    "upstream_of r u \<noteq> []" "rg_prefixes r = [] \<or> list_ex (starts_with (upstream_of r u)) (rg_prefixes r)"
    "distinct (map rg_name (gw_providers g))"
    using assms(1) r(1,2) by (auto simp: routable_def list_all_iff)
  obtain j where j: "name_index 0 (rg_name r) (gw_providers g) = Some (j, r)"
    using name_index_distinct [OF r(1) ok(6)] by blast
  have "split_once (CHR ''/'') cid = Some (rg_name r, upstream_of r u)"
    using ok(2) by (simp add: r(3) canonical_id_eq split_once_Some)
  then have "resolve_model g cid = Inr (j, upstream_of r u, True)"
    using ok j by (simp add: resolve_model_def)
  with name_index_Some [OF j] r show ?thesis by (auto simp: canonical_id_eq)
qed

definition sample_gateway_env :: gateway_env where
  "sample_gateway_env = \<lparr>ge_anthropic_api_key = Some ''k'', ge_openai_api_key = Some ''k'',
     ge_openai_compat_url = None, ge_provider_base_url = Some ''http://localhost:11434/v1/'',
     ge_openai_compat_provider = None, ge_cfg_base_url = None, ge_cfg_provider = None, ge_cfg_model = ''ollama/qwen3''\<rparr>"

end
