(* ===== verification/Invoke.thy ===== *)
theory Invoke
  imports Gateway
begin

text \<open>
  \<^verbatim>\<open>crates/rtrt-providers/src/invoke.rs\<close>: one invocation of a detected tool by CLI or API
  with its ledger row, the clean-up of CLI output, the classification of failures, and the
  failover walk over ranked targets. What a spawned process did, the JSON parser and the
  providers behind the gateway are arguments.
\<close>

section \<open>Output clean-up\<close>

abbreviation ESC :: char where "ESC \<equiv> CHR 0x1B"

text \<open>After \<^verbatim>\<open>ESC [\<close>: skip up to and including the first byte in \<open>0x40..0x7e\<close>.\<close>

fun skip_csi :: "string \<Rightarrow> string" where
  "skip_csi [] = []"
| "skip_csi (c # cs) = (if 64 \<le> byte c \<and> byte c \<le> 126 then cs else skip_csi cs)"

text \<open>After \<^verbatim>\<open>ESC ]\<close>: skip up to a bell or an \<^verbatim>\<open>ESC\<close> followed by a backslash.\<close>

fun skip_osc :: "bool \<Rightarrow> string \<Rightarrow> string" where
  "skip_osc saw_escape [] = []"
| "skip_osc saw_escape (c # cs) =
     (if byte c = 7 then cs
      else if saw_escape \<and> byte c = 92 then cs
      else skip_osc (c = ESC) cs)"

lemma length_skip: "length (skip_csi s) \<le> length s" "length (skip_osc b s) \<le> length s"
  by (induction s arbitrary: b) (auto simp: le_SucI)

function strip_ansi_escape_sequences :: "string \<Rightarrow> string" where
  "strip_ansi_escape_sequences [] = []"
| "strip_ansi_escape_sequences (c # cs) =
     (if c \<noteq> ESC then c # strip_ansi_escape_sequences cs
      else case cs of
        [] \<Rightarrow> []
      | d # ds \<Rightarrow>
          if d = CHR ''['' then strip_ansi_escape_sequences (skip_csi ds)
          else if d = CHR '']'' then strip_ansi_escape_sequences (skip_osc False ds)
          else if 64 \<le> byte d \<and> byte d \<le> 95 then strip_ansi_escape_sequences ds
          else strip_ansi_escape_sequences cs)"
  by pat_completeness auto
termination
  by (relation "measure length") (auto simp: length_skip le_imp_less_Suc less_SucI)

definition ascii_spinner :: "char \<Rightarrow> bool" where
  "ascii_spinner c \<longleftrightarrow> byte c \<in> {124, 47, 45, 92}"

text \<open>The last bytes of the ten braille spinner characters, all \<open>E2 A0 xx\<close> in UTF-8.\<close>

definition braille_spinner :: "char \<Rightarrow> char \<Rightarrow> char \<Rightarrow> bool" where
  "braille_spinner a b c \<longleftrightarrow> byte a = 226 \<and> byte b = 160 \<and>
     byte c \<in> {139, 153, 185, 184, 188, 180, 166, 167, 135, 143}"

definition spinner_len :: "string \<Rightarrow> nat" where
  "spinner_len s =
     (if ws_len s > 0 then ws_len s
      else case s of
        c # _ \<Rightarrow> if ascii_spinner c then 1
                 else (case s of a # b # d # _ \<Rightarrow> if braille_spinner a b d then 3 else 0 | _ \<Rightarrow> 0)
      | [] \<Rightarrow> 0)"

function all_spinner :: "string \<Rightarrow> bool" where
  "all_spinner s = (if s = [] then True else if spinner_len s = 0 then False
     else all_spinner (drop (spinner_len s) s))"
  by pat_completeness auto
termination
  by (relation "measure length") auto

declare all_spinner.simps [simp del]

definition is_spinner_only_frame :: "string \<Rightarrow> bool" where
  "is_spinner_only_frame frame \<longleftrightarrow> trim frame \<noteq> [] \<and> all_spinner (trim frame)"

definition push_non_spinner_frame :: "string \<Rightarrow> string \<Rightarrow> bool \<Rightarrow> string" where
  "push_non_spinner_frame output frame add_line_break =
     (if is_spinner_only_frame frame then output
      else output @ frame @ (if add_line_break then [NL] else []))"

fun sanitize_loop :: "string \<Rightarrow> string \<Rightarrow> bool \<Rightarrow> string \<Rightarrow> string" where
  "sanitize_loop output frame previous_was_cr [] = push_non_spinner_frame output frame False"
| "sanitize_loop output frame previous_was_cr (c # cs) =
     (if c = CR then sanitize_loop (push_non_spinner_frame output frame True) [] True cs
      else if c = NL then
        (if previous_was_cr then sanitize_loop output frame False cs
         else sanitize_loop (push_non_spinner_frame output frame False @ [NL]) [] False cs)
      else sanitize_loop output (frame @ [c]) False cs)"

definition sanitize_cli_output :: "string \<Rightarrow> string" where
  "sanitize_cli_output input = trim (sanitize_loop [] [] False (strip_ansi_escape_sequences input))"

section \<open>Targets and modes\<close>

definition available_targets :: "detected_tool list \<Rightarrow> string" where
  "available_targets tools =
     (let names = remdups_adj (sort (map dt_name (filter (\<lambda>t. dt_installed t \<and> dt_enabled t) tools)))
      in if names = [] then ''(none)'' else join '', '' names)"

definition target_unavailable_error :: "string \<Rightarrow> detected_tool list \<Rightarrow> string \<Rightarrow> error" where
  "target_unavailable_error target tools reason =
     Provider (''invoke: target '' @ quoted target @ '' is '' @ reason @ ''; available targets: '' @
       available_targets tools)"

definition resolve_target :: "string \<Rightarrow> detected_tool list \<Rightarrow> error + detected_tool" where
  "resolve_target target tools =
     (case List.find (\<lambda>t. dt_name t = target \<or> dt_name t = to_ascii_lowercase target) tools of
        None \<Rightarrow> Inl (target_unavailable_error target tools ''not detected'')
      | Some tool \<Rightarrow>
          if \<not> dt_installed tool then Inl (target_unavailable_error target tools ''not installed'')
          else if \<not> dt_enabled tool then Inl (target_unavailable_error target tools ''disabled'')
          else Inr tool)"

definition auto_mode_for :: "detected_tool \<Rightarrow> mode" where
  "auto_mode_for tool =
     (if dt_cost_class tool \<in> {LocalFree, SubscriptionFlat} \<and>
         Cli_invocation \<in> set (dt_invocation_modes tool) \<and> dt_cli_invocation tool \<noteq> None
      then Cli else Api)"

definition select_mode :: "detected_tool \<Rightarrow> mode \<Rightarrow> error + mode" where
  "select_mode tool requested =
     (case requested of
        Cli \<Rightarrow> if Cli_invocation \<in> set (dt_invocation_modes tool) \<and> dt_cli_invocation tool \<noteq> None then Inr Cli
               else Inl (Provider (''invoke: target '' @ quoted (dt_name tool) @ '' does not support CLI mode''))
      | Api \<Rightarrow> if Api_invocation \<in> set (dt_invocation_modes tool) then Inr Api
               else Inl (Provider (''invoke: target '' @ quoted (dt_name tool) @ '' does not support API mode''))
      | Auto \<Rightarrow> Inr (auto_mode_for tool))"

section \<open>Command lines\<close>

definition PROMPT_PLACEHOLDER :: string where "PROMPT_PLACEHOLDER = ''{prompt}''"
definition MODEL_PLACEHOLDER :: string where "MODEL_PLACEHOLDER = ''{model}''"
definition MODEL_ARGS_PLACEHOLDER :: string where "MODEL_ARGS_PLACEHOLDER = ''{model_args}''"

fun expand_parts :: "string list \<Rightarrow> string \<Rightarrow> string option \<Rightarrow> error + string list" where
  "expand_parts [] prompt model = Inr []"
| "expand_parts (part # parts) prompt model =
     (case (if part = PROMPT_PLACEHOLDER then Inr [prompt]
            else if part = MODEL_PLACEHOLDER then
              (case model of Some m \<Rightarrow> Inr [m]
               | None \<Rightarrow> Inl (Provider ''invoke: CLI template requires --model''))
            else if part = MODEL_ARGS_PLACEHOLDER then
              Inr (case model of Some m \<Rightarrow> [''--model'', m] | None \<Rightarrow> [])
            else Inr [part]) of
        Inl e \<Rightarrow> Inl e
      | Inr args \<Rightarrow> (case expand_parts parts prompt model of Inl e \<Rightarrow> Inl e | Inr rest \<Rightarrow> Inr (args @ rest)))"

definition template_to_argv :: "string \<Rightarrow> string \<Rightarrow> string option \<Rightarrow> error + string list" where
  "template_to_argv template prompt model =
     (case expand_parts (split_whitespace template) prompt model of
        Inl e \<Rightarrow> Inl e
      | Inr argv \<Rightarrow> if argv = [] then Inl (Provider ''invoke: CLI invocation template is empty'') else Inr argv)"

definition CLAUDE_PERMISSION_PROMPT_TOOL :: string where
  "CLAUDE_PERMISSION_PROMPT_TOOL = ''mcp__rtrt__permission_prompt''"

definition claude_argv :: "string \<Rightarrow> string \<Rightarrow> string list" where
  "claude_argv model prompt =
     [''claude'', ''-p'', ''--model'', model, ''--output-format'', ''json'', ''--permission-mode'', ''acceptEdits'',
      ''--permission-prompt-tool'', CLAUDE_PERMISSION_PROMPT_TOOL, prompt]"

fun output_format :: "string list \<Rightarrow> bool option" where
  "output_format [] = None"
| "output_format (arg # args) =
     (if arg = ''--output-format'' then Some (case args of f # _ \<Rightarrow> f = ''json'' | [] \<Rightarrow> False)
      else case strip_prefix arg ''--output-format='' of
        Some f \<Rightarrow> Some (f = ''json'')
      | None \<Rightarrow> output_format args)"

definition prepare_claude_json_output :: "string \<Rightarrow> string list \<Rightarrow> bool \<times> string list" where
  "prepare_claude_json_output target argv =
     (if target \<noteq> ''claude'' then (False, argv)
      else case output_format argv of
        Some b \<Rightarrow> (b, argv)
      | None \<Rightarrow> (True, take 1 argv @ [''--output-format'', ''json''] @ drop 1 argv))"

text \<open>
  The JSON parser is an argument: the \<^verbatim>\<open>result\<close> text and the \<^verbatim>\<open>total_cost_usd\<close>
  number of an object that has a textual result.
\<close>

type_synonym json_reader = "string \<Rightarrow> (string \<times> f64_val option) option"

definition parse_claude_output :: "json_reader \<Rightarrow> string \<Rightarrow> bool \<Rightarrow> string \<times> rat option" where
  "parse_claude_output json output parse_json =
     (if \<not> parse_json then (output, None)
      else case json output of
        None \<Rightarrow> (output, None)
      | Some (result, cost) \<Rightarrow>
          (result, case cost of Some (Fin c) \<Rightarrow> (if c \<ge> 0 then Some c else None) | _ \<Rightarrow> None))"

text \<open>What became of a spawned command.\<close>

datatype process_result =
    Setup_error error
  | Spawn_error string
  | Wait_error error
  | Timed_out nat
  | Reader_error error
  | Finished (pr_stdout: string) (pr_stderr: string) (pr_code: "int option")

definition run_cli_argv :: "(string list \<Rightarrow> process_result) \<Rightarrow> string list \<Rightarrow> error + string \<times> int option" where
  "run_cli_argv spawn argv =
     (case argv of
        [] \<Rightarrow> Inl (Provider ''invoke: cannot spawn an empty CLI invocation'')
      | program # args \<Rightarrow>
        (case spawn argv of
           Setup_error e \<Rightarrow> Inl e
         | Spawn_error e \<Rightarrow> Inl (Provider (''invoke: spawn '' @ quoted program @ '': '' @ e))
         | Wait_error e \<Rightarrow> Inl e
         | Timed_out secs \<Rightarrow> Inl (Provider (''invoke: command '' @ quoted program @ '' timed out after '' @
             nat_str secs @ ''s''))
         | Reader_error e \<Rightarrow> Inl e
         | Finished stdout stderr code \<Rightarrow> Inr (sanitize_cli_output (stdout @ stderr), code)))"

definition int_str :: "int \<Rightarrow> string" where
  "int_str i = (if i < 0 then ''-'' @ nat_str (nat (- i)) else nat_str (nat i))"

definition cli_exit_error :: "string \<Rightarrow> int option \<Rightarrow> string \<Rightarrow> error" where
  "cli_exit_error program exit_code output =
     (let status = (case exit_code of Some code \<Rightarrow> ''exited with status '' @ int_str code
                    | None \<Rightarrow> ''terminated by signal'');
          clean = sanitize_cli_output output;
          detail = (if clean = [] then [] else '': '' @ clean)
      in Provider (''invoke: command '' @ quoted program @ '' '' @ status @ detail))"

section \<open>One invocation\<close>

record invoke_options =
  iv_mode :: "mode option"
  iv_model :: "string option"

record invoke_outcome =
  ov_target :: string
  ov_mode_used :: mode
  ov_model :: "string option"
  ov_output :: string
  ov_cost_usd :: "rat option"
  ov_exit_code :: "int option"
  ov_ms :: nat

text \<open>Everything an invocation meets outside: tools, processes, gateway, clock, ledger files.\<close>

record invoke_env =
  ie_tools :: "detected_tool list"
  ie_spawn :: "string list \<Rightarrow> process_result"
  ie_json :: json_reader
  ie_gateway :: gateway_env
  ie_hash :: "key_material \<Rightarrow> 64 word"
  ie_outcome :: "nat \<Rightarrow> call_outcome"
  ie_api_max_tokens :: "32 word"
  ie_io :: io_env
  ie_ms :: nat

definition DEFAULT_API_MAX_TOKENS :: nat where "DEFAULT_API_MAX_TOKENS = 4096"

definition effective_api_max_tokens :: "string option \<Rightarrow> nat option \<Rightarrow> nat" where
  "effective_api_max_tokens env_raw configured =
     (case option_filter (\<lambda>v. v > 0) (Option.bind env_raw (\<lambda>raw. parse_uint 32 (trim raw))) of
        Some v \<Rightarrow> v
      | None \<Rightarrow> (case option_filter (\<lambda>v. v > 0) configured of Some v \<Rightarrow> v | None \<Rightarrow> DEFAULT_API_MAX_TOKENS))"

definition record_cli :: "io_env \<Rightarrow> string option \<Rightarrow> string \<Rightarrow> string \<Rightarrow> string \<Rightarrow> string \<Rightarrow> bool \<Rightarrow> string option" where
  "record_cli env file target model prompt output ok =
     snd (record_invocation env file target model (estimate_tokens prompt) (estimate_tokens output) True ok)"

definition invoke_cli ::
  "invoke_env \<Rightarrow> detected_tool \<Rightarrow> string \<Rightarrow> string option \<Rightarrow> string option \<Rightarrow>
   (error + string \<times> int option \<times> rat option) \<times> string option" where
  "invoke_cli env tool prompt model file =
     (let lm = (case model of None \<Rightarrow> [] | Some m \<Rightarrow> m);
          note_failure = (\<lambda>e output. (Inl e, record_cli (ie_io env) file (dt_name tool) lm prompt output False))
      in case dt_cli_invocation tool of
        None \<Rightarrow> note_failure (Provider (''invoke: target '' @ quoted (dt_name tool) @ '' has no CLI invocation'')) []
      | Some template \<Rightarrow>
      (case template_to_argv template prompt model of
         Inl e \<Rightarrow> note_failure e []
       | Inr argv0 \<Rightarrow>
      (case (if dt_name tool = ''claude''
             then (case model of None \<Rightarrow> None | Some m \<Rightarrow> Some (claude_argv m prompt)) else Some argv0) of
         None \<Rightarrow> (Inl (Provider ''invoke: strict Claude CLI requires --model opus|sonnet''), file)
       | Some argv1 \<Rightarrow>
      (case prepare_claude_json_output (dt_name tool) argv1 of (parse_json, argv) \<Rightarrow>
       (case run_cli_argv (ie_spawn env) argv of
          Inr (output, code) \<Rightarrow>
            if code = Some 0
            then (case parse_claude_output (ie_json env) output parse_json of (text, cost) \<Rightarrow>
                    (Inr (text, Some 0, cost), record_cli (ie_io env) file (dt_name tool) lm prompt text True))
            else note_failure (cli_exit_error (hd argv) code output) output
        | Inl e \<Rightarrow> note_failure e [])))))"

definition invoke_api ::
  "invoke_env \<Rightarrow> detected_tool \<Rightarrow> string \<Rightarrow> string option \<Rightarrow> string option \<Rightarrow>
   (error + string \<times> int option \<times> rat option) \<times> string option" where
  "invoke_api env tool prompt model file =
     (case model of
        None \<Rightarrow> (Inl (Provider (''invoke: target '' @ quoted (dt_name tool) @ '' API mode requires --model'')),
                 record_cli (ie_io env) file (dt_name tool) [] prompt [] False)
      | Some m \<Rightarrow>
          (let req = \<lparr>cq_model = m, cq_messages = [\<lparr>cm_role = User, cm_content = prompt\<rparr>],
                      cq_max_tokens = Some (ie_api_max_tokens env), cq_temperature_bits = None\<rparr>;
               g = with_usage_recording (from_env (ie_gateway env)) False
           in case fst (chat g (ie_hash env) (ie_outcome env) req (state_new None None)) of
                Inr resp \<Rightarrow> (Inr (cr_content resp, None, None),
                  snd (record_invocation (ie_io env) file (dt_name tool) m
                    (unat (us_input_tokens (cr_usage resp))) (unat (us_output_tokens (cr_usage resp))) False True))
              | Inl e \<Rightarrow> (Inl e, record_cli (ie_io env) file (dt_name tool) m prompt [] False)))"

definition invoke_agent ::
  "invoke_env \<Rightarrow> string \<Rightarrow> string \<Rightarrow> invoke_options \<Rightarrow> string option \<Rightarrow> (error + invoke_outcome) \<times> string option" where
  "invoke_agent env target prompt opts file =
     (case resolve_target target (ie_tools env) of
        Inl e \<Rightarrow> (Inl e, file)
      | Inr tool \<Rightarrow>
      (case select_mode tool (case iv_mode opts of None \<Rightarrow> Auto | Some m \<Rightarrow> m) of
         Inl e \<Rightarrow> (Inl e, file)
       | Inr mode_used \<Rightarrow>
          (let model = (case iv_model opts of Some m \<Rightarrow> Some m
                        | None \<Rightarrow> (case dt_models tool of [] \<Rightarrow> None | m # _ \<Rightarrow> Some m))
           in case (case mode_used of
                      Cli \<Rightarrow> invoke_cli env tool prompt model file
                    | Api \<Rightarrow> invoke_api env tool prompt model file
                    | Auto \<Rightarrow> (Inl (Provider ''invoke: internal error: auto mode was not resolved''), file)) of
                (Inl e, file') \<Rightarrow> (Inl e, file')
              | (Inr (output, exit_code, cost), file') \<Rightarrow>
                  (Inr \<lparr>ov_target = dt_name tool, ov_mode_used = mode_used, ov_model = model, ov_output = output,
                        ov_cost_usd = cost, ov_exit_code = exit_code, ov_ms = ie_ms env\<rparr>, file'))))"

section \<open>Failure classes\<close>

datatype failure_class = Transient | Quota_failure | Fatal

fun class_label :: "failure_class \<Rightarrow> string" where
  "class_label Transient = ''transient''"
| "class_label Quota_failure = ''quota''"
| "class_label Fatal = ''fatal''"

definition is_recoverable :: "failure_class \<Rightarrow> bool" where
  "is_recoverable c \<longleftrightarrow> c \<noteq> Fatal"

definition FATAL_MARKERS :: "string list" where
  "FATAL_MARKERS = [''401'', ''403'', ''unauthorized'', ''forbidden'', ''invalid api key'', ''authentication'',
     ''api key'', ''not detected'', ''model not found'', ''model-not-found'', ''disabled'', ''does not support'',
     ''requires --model'', ''needs --model'', ''no cli invocation'', ''is empty'']"

definition QUOTA_MARKERS :: "string list" where
  "QUOTA_MARKERS = [''429'', ''rate limit'', ''rate-limit'', ''ratelimit'', ''quota'', ''weekly'', ''usage'',
     ''hit your'', ''limit reached'', ''credits exhausted'', ''budget exceeded'', ''too many requests'']"

definition TRANSIENT_MARKERS :: "string list" where
  "TRANSIENT_MARKERS = [''overloaded'', ''capacity'', ''timed out'', ''timeout'', ''spawn'', ''not installed'']"

definition EMPTY_COMPLETION_ERROR :: string where
  "EMPTY_COMPLETION_ERROR = ''provider returned blank successful output''"

definition reject_blank_outcome :: "invoke_outcome \<Rightarrow> error + invoke_outcome" where
  "reject_blank_outcome ov =
     (if trim (ov_output ov) = [] then Inl (Provider EMPTY_COMPLETION_ERROR) else Inr ov)"

record failover_config =
  fc_fatal :: "string list"
  fc_quota :: "string list"
  fc_transient :: "string list"
  fc_transient_retries :: "nat option"
  fc_backoff_divisor :: "nat option"
  fc_backoff_ms :: "nat option"

record failure_policy =
  fp_fatal :: "string list"
  fp_quota :: "string list"
  fp_transient :: "string list"
  fp_transient_retries :: "nat option"
  fp_backoff_divisor :: "nat option"
  fp_backoff_nanos :: "nat option"

definition lowercased_markers :: "string list \<Rightarrow> string list" where
  "lowercased_markers markers = filter (\<lambda>m. m \<noteq> []) (map (\<lambda>m. to_ascii_lowercase (trim m)) markers)"

definition policy_builtin :: failure_policy where
  "policy_builtin = \<lparr>fp_fatal = [], fp_quota = [], fp_transient = [], fp_transient_retries = None,
     fp_backoff_divisor = None, fp_backoff_nanos = None\<rparr>"

definition policy_from_config :: "failover_config \<Rightarrow> failure_policy" where
  "policy_from_config c =
     \<lparr>fp_fatal = lowercased_markers (fc_fatal c), fp_quota = lowercased_markers (fc_quota c),
      fp_transient = lowercased_markers (fc_transient c), fp_transient_retries = fc_transient_retries c,
      fp_backoff_divisor = fc_backoff_divisor c, fp_backoff_nanos = map_option (\<lambda>ms. ms * 1000000) (fc_backoff_ms c)\<rparr>"

definition SERVER_CONTEXT :: "string list" where
  "SERVER_CONTEXT = [''http'', ''server'', ''service unavailable'', ''status'', ''upstream'', ''overload'']"

text \<open>Is there a three-digit number 5xx, not part of a longer number? \<open>before\<close> is the previous byte.\<close>

fun has_5xx :: "char option \<Rightarrow> string \<Rightarrow> bool" where
  "has_5xx before (a # b # c # cs) \<longleftrightarrow>
     a = CHR ''5'' \<and> is_ascii_digit b \<and> is_ascii_digit c \<and>
     (case before of None \<Rightarrow> True | Some d \<Rightarrow> \<not> is_ascii_digit d) \<and>
     (case cs of [] \<Rightarrow> True | d # _ \<Rightarrow> \<not> is_ascii_digit d)
     \<or> has_5xx (Some a) (b # c # cs)"
| "has_5xx before s \<longleftrightarrow> False"

definition contains_server_status :: "string \<Rightarrow> bool" where
  "contains_server_status message \<longleftrightarrow>
     list_ex (contains_str message) SERVER_CONTEXT \<and> has_5xx None message"

fun classify :: "failure_policy \<Rightarrow> error \<Rightarrow> failure_class" where
  "classify p (Provider message) =
     (let low = to_ascii_lowercase message; any_of = list_ex (contains_str low) in
      if any_of (fp_fatal p) then Fatal
      else if any_of (fp_quota p) then Quota_failure
      else if any_of (fp_transient p) then Transient
      else if low = EMPTY_COMPLETION_ERROR then Transient
      else if any_of FATAL_MARKERS then Fatal
      else if any_of QUOTA_MARKERS then Quota_failure
      else if any_of TRANSIENT_MARKERS \<or> contains_server_status low then Transient
      else Fatal)"
| "classify p e = Transient"

definition DEFAULT_TRANSIENT_RETRIES :: nat where "DEFAULT_TRANSIENT_RETRIES = 1"
definition DEFAULT_BACKOFF_DIVISOR :: nat where "DEFAULT_BACKOFF_DIVISOR = 60"
definition CHILD_WAIT_POLL_NANOS :: nat where "CHILD_WAIT_POLL_NANOS = 25 * 1000000"
definition DEFAULT_TIMEOUT_NANOS :: nat where "DEFAULT_TIMEOUT_NANOS = 120 * 1000000000"

definition transient_retries :: "failure_policy \<Rightarrow> nat" where
  "transient_retries p = (case fp_transient_retries p of None \<Rightarrow> DEFAULT_TRANSIENT_RETRIES | Some n \<Rightarrow> n)"

text \<open>Durations are nanoseconds; \<^verbatim>\<open>Duration / u32\<close> rounds down.\<close>

definition policy_backoff :: "failure_policy \<Rightarrow> nat \<Rightarrow> nat" where
  "policy_backoff p timeout =
     (case fp_backoff_nanos p of
        Some fixed \<Rightarrow> fixed
      | None \<Rightarrow>
          (let divisor = max (case fp_backoff_divisor p of None \<Rightarrow> DEFAULT_BACKOFF_DIVISOR | Some d \<Rightarrow> d) 1;
               ceiling' = max (DEFAULT_TIMEOUT_NANOS div divisor) CHILD_WAIT_POLL_NANOS
           in min (max (timeout div divisor) CHILD_WAIT_POLL_NANOS) ceiling'))"

section \<open>The walk\<close>

record policy_attempt =
  pa_target :: string
  pa_model :: "string option"
  pa_class :: failure_class
  pa_retried :: bool
  pa_error :: string

record policy_outcome =
  po_served :: "invoke_outcome option"
  po_attempts :: "policy_attempt list"
  po_halted :: "policy_attempt option"

text \<open>
  The invoker takes and returns a state of its own. \<open>retries\<close> same-target retries are left
  and \<open>tries\<close> invocations of this candidate were made before.
\<close>

fun try_candidate ::
  "failure_policy \<Rightarrow> ('s \<Rightarrow> ranked_target \<Rightarrow> (error + invoke_outcome) \<times> 's) \<Rightarrow> ranked_target \<Rightarrow> nat \<Rightarrow> nat \<Rightarrow> 's \<Rightarrow>
   (policy_attempt + invoke_outcome) \<times> 's" where
  "try_candidate p invoke cand retries tries s =
     (case invoke s cand of (res, s') \<Rightarrow>
      (case (case res of Inl e \<Rightarrow> Inl e | Inr ov \<Rightarrow> reject_blank_outcome ov) of
         Inr ov \<Rightarrow> (Inr ov, s')
       | Inl e \<Rightarrow>
           (let failed = (Inl \<lparr>pa_target = rt_target cand, pa_model = rt_model cand, pa_class = classify p e,
                  pa_retried = (Suc tries > 1), pa_error = error_display e\<rparr>, s')
            in if classify p e = Transient
               then (case retries of Suc left \<Rightarrow> try_candidate p invoke cand left (Suc tries) s' | 0 \<Rightarrow> failed)
               else failed)))"

declare try_candidate.simps [simp del]

definition U32_MAX :: nat where "U32_MAX = 2 ^ 32 - 1"

definition max_tries :: "failure_policy \<Rightarrow> nat" where
  "max_tries p = min (transient_retries p + 1) U32_MAX"

fun walk_candidates ::
  "failure_policy \<Rightarrow> ('s \<Rightarrow> ranked_target \<Rightarrow> (error + invoke_outcome) \<times> 's) \<Rightarrow> ranked_target list \<Rightarrow>
   policy_attempt list \<Rightarrow> 's \<Rightarrow> policy_outcome \<times> 's" where
  "walk_candidates p invoke [] attempts s =
     (\<lparr>po_served = None, po_attempts = attempts, po_halted = None\<rparr>, s)"
| "walk_candidates p invoke (cand # cands) attempts s =
     (case try_candidate p invoke cand (max_tries p - 1) 0 s of
        (Inr ov, s') \<Rightarrow> (\<lparr>po_served = Some ov, po_attempts = attempts, po_halted = None\<rparr>, s')
      | (Inl attempt, s') \<Rightarrow>
          if pa_class attempt = Fatal
          then (\<lparr>po_served = None, po_attempts = attempts @ [attempt], po_halted = Some attempt\<rparr>, s')
          else walk_candidates p invoke cands (attempts @ [attempt]) s')"

definition walk_with_policy ::
  "failure_policy \<Rightarrow> ('s \<Rightarrow> ranked_target \<Rightarrow> (error + invoke_outcome) \<times> 's) \<Rightarrow> ranked_target list \<Rightarrow> 's \<Rightarrow>
   (error + policy_outcome) \<times> 's" where
  "walk_with_policy p invoke targets s =
     (if targets = [] then (Inl (Provider ''invoke: failover received no ranked targets''), s)
      else case walk_candidates p invoke targets [] s of (r, s') \<Rightarrow> (Inr r, s'))"

text \<open>The walk over real invocations: the state is the ledger file and a count of invocations.\<close>

definition invoke_ranked ::
  "(nat \<Rightarrow> invoke_env) \<Rightarrow> string \<Rightarrow> nat \<times> string option \<Rightarrow> ranked_target \<Rightarrow>
   (error + invoke_outcome) \<times> (nat \<times> string option)" where
  "invoke_ranked env prompt st cand =
     (case invoke_agent (env (fst st)) (rt_target cand) prompt
             \<lparr>iv_mode = Some (rt_mode cand), iv_model = rt_model cand\<rparr> (snd st) of
        (r, file') \<Rightarrow> (r, (Suc (fst st), file')))"

definition invoke_with_policy ::
  "failure_policy \<Rightarrow> (nat \<Rightarrow> invoke_env) \<Rightarrow> ranked_target list \<Rightarrow> string \<Rightarrow> string option \<Rightarrow>
   (error + policy_outcome) \<times> (nat \<times> string option)" where
  "invoke_with_policy p env targets prompt file = walk_with_policy p (invoke_ranked env prompt) targets (0, file)"

section \<open>Audit trail\<close>

record failover_attempt =
  fa_target :: string
  fa_model :: "string option"
  fa_retryable :: bool
  fa_error :: string

record failover_outcome =
  fo_outcome :: invoke_outcome
  fo_failed_over :: "failover_attempt list"

definition target_label :: "string \<Rightarrow> string option \<Rightarrow> string" where
  "target_label target model = (case model of Some m \<Rightarrow> target @ ''['' @ m @ '']'' | None \<Rightarrow> target)"

definition classify_label :: "bool \<Rightarrow> string" where
  "classify_label retryable = (if retryable then ''retryable'' else ''terminal'')"

definition failover_attempt_from :: "policy_attempt \<Rightarrow> failover_attempt" where
  "failover_attempt_from a = \<lparr>fa_target = pa_target a, fa_model = pa_model a,
     fa_retryable = is_recoverable (pa_class a), fa_error = pa_error a\<rparr>"

definition aggregated_error :: "failover_attempt list \<Rightarrow> error" where
  "aggregated_error attempts =
     Provider (''invoke: all '' @ nat_str (length attempts) @ '' candidate(s) failed: '' @
       join ''; '' (map (\<lambda>a. target_label (fa_target a) (fa_model a) @ '' ('' @ classify_label (fa_retryable a) @
         ''): '' @ fa_error a) attempts))"

definition into_failover :: "policy_outcome \<Rightarrow> error + failover_outcome" where
  "into_failover o' =
     (let failed_over = map failover_attempt_from (po_attempts o')
      in case po_served o' of
           Some ov \<Rightarrow> Inr \<lparr>fo_outcome = ov, fo_failed_over = failed_over\<rparr>
         | None \<Rightarrow> Inl (aggregated_error failed_over))"

definition invoke_with_failover ::
  "failure_policy \<Rightarrow> (nat \<Rightarrow> invoke_env) \<Rightarrow> ranked_target list \<Rightarrow> string \<Rightarrow> string option \<Rightarrow>
   (error + failover_outcome) \<times> (nat \<times> string option)" where
  "invoke_with_failover p env targets prompt file =
     (case invoke_with_policy p env targets prompt file of
        (Inl e, st) \<Rightarrow> (Inl e, st)
      | (Inr r, st) \<Rightarrow> (into_failover r, st))"

definition trail_entry :: "policy_attempt \<Rightarrow> string" where
  "trail_entry a = target_label (pa_target a) (pa_model a) @ '': '' @ class_label (pa_class a) @
     (if pa_retried a then '', retried'' else [])"

definition policy_fell_over :: "policy_outcome \<Rightarrow> nat" where
  "policy_fell_over o' = length (po_attempts o') - (if po_halted o' \<noteq> None then 1 else 0)"

definition policy_summary :: "policy_outcome \<Rightarrow> string" where
  "policy_summary o' =
     (let trail = join '', '' (map trail_entry (po_attempts o')) in
      case po_halted o' of
        Some h \<Rightarrow> ''halted at '' @ target_label (pa_target h) (pa_model h) @ '' after '' @
          nat_str (policy_fell_over o') @ '' fell over: fatal, no failover ('' @ pa_error h @ '')''
      | None \<Rightarrow>
      (case po_served o' of
         Some ov \<Rightarrow>
           (let served_by = target_label (ov_target ov) (ov_model ov) in
            if po_attempts o' = [] then ''served by '' @ served_by @ '' (no failover)''
            else ''served by '' @ served_by @ '' after '' @ nat_str (length (po_attempts o')) @ '' fell over ('' @ trail @ '')'')
       | None \<Rightarrow> ''all '' @ nat_str (length (po_attempts o')) @ '' candidate(s) failed ('' @ trail @ '')''))"

definition failover_summary :: "failover_outcome \<Rightarrow> string" where
  "failover_summary o' =
     (let served_by = target_label (ov_target (fo_outcome o')) (ov_model (fo_outcome o')) in
      if fo_failed_over o' = [] then ''served by '' @ served_by @ '' (no failover)''
      else ''served by '' @ served_by @ '' after '' @ nat_str (length (fo_failed_over o')) @ '' fell over ('' @
        join '', '' (map (\<lambda>a. target_label (fa_target a) (fa_model a) @ '': '' @ classify_label (fa_retryable a))
          (fo_failed_over o')) @ '')'')"

section \<open>Clean output\<close>

declare strip_ansi_escape_sequences.simps(2) [simp del]

lemma strip_text: "c \<noteq> ESC \<Longrightarrow> strip_ansi_escape_sequences (c # cs) = c # strip_ansi_escape_sequences cs"
  by (simp add: strip_ansi_escape_sequences.simps(2))

lemma strip_escape:
  "strip_ansi_escape_sequences (ESC # cs) =
     (case cs of
        [] \<Rightarrow> []
      | d # ds \<Rightarrow>
          if d = CHR ''['' then strip_ansi_escape_sequences (skip_csi ds)
          else if d = CHR '']'' then strip_ansi_escape_sequences (skip_osc False ds)
          else if 64 \<le> byte d \<and> byte d \<le> 95 then strip_ansi_escape_sequences ds
          else strip_ansi_escape_sequences cs)"
  by (simp add: strip_ansi_escape_sequences.simps(2) [of ESC cs])

lemma ESC_notin_strip: "ESC \<notin> set (strip_ansi_escape_sequences s)"
proof (induction s rule: strip_ansi_escape_sequences.induct)
  case (2 c cs)
  then show ?case by (cases "c = ESC"; cases cs) (simp_all add: strip_text strip_escape)
qed simp

lemma length_strip: "length (strip_ansi_escape_sequences s) \<le> length s"
proof (induction s rule: length_induct)
  case (1 s)
  have shorter: "length (strip_ansi_escape_sequences t) \<le> length t" if "length t < length s" for t
    using 1 that by blast
  show ?case
  proof (cases "\<exists>d ds. s = ESC # d # ds")
    case True
    then obtain d ds where s: "s = ESC # d # ds" by blast
    have "length (strip_ansi_escape_sequences t) \<le> Suc (Suc (length ds))"
      if "t \<in> {skip_csi ds, skip_osc False ds, ds, d # ds}" for t
      using shorter [of t] that length_skip(1) [of ds] length_skip(2) [of False ds] s by fastforce
    then show ?thesis by (simp add: s strip_escape)
  next
    case False
    then consider "s = []" | "s = [ESC]" | c cs where "s = c # cs" "c \<noteq> ESC"
      by (metis list.exhaust)
    then show ?thesis using shorter by cases (simp_all add: strip_text strip_escape)
  qed
qed

lemma set_sanitize_loop:
  "set (sanitize_loop out frame b s) \<subseteq> insert NL (set out \<union> set frame \<union> (set s - {CR}))"
proof (induction s arbitrary: out frame b)
  case Nil
  then show ?case by (auto simp: push_non_spinner_frame_def)
next
  case (Cons c cs)
  show ?case
    using Cons [of "push_non_spinner_frame out frame True" "[]" True] Cons [of out frame False]
      Cons [of "push_non_spinner_frame out frame False @ [NL]" "[]" False] Cons [of out "frame @ [c]" False]
    by (auto simp: push_non_spinner_frame_def split: if_splits)
qed

lemma length_sanitize_loop:
  "length (sanitize_loop out frame b s) \<le> length out + length frame + length s"
proof (induction s arbitrary: out frame b)
  case Nil
  then show ?case by (simp add: push_non_spinner_frame_def)
next
  case (Cons c cs)
  show ?case
    using Cons [of "push_non_spinner_frame out frame True" "[]" True] Cons [of out frame False]
      Cons [of "push_non_spinner_frame out frame False @ [NL]" "[]" False] Cons [of out "frame @ [c]" False]
    by (auto simp: push_non_spinner_frame_def split: if_splits)
qed

lemma length_trim_le: "length (trim s) \<le> length s"
proof -
  obtain n m where "trim s = take n (drop m s)"
    using trim_end_prefix trim_start_suffix unfolding trim_def by metis
  then show ?thesis by simp
qed

lemma length_sanitize: "length (sanitize_cli_output s) \<le> length s"
  using length_trim_le [of "sanitize_loop [] [] False (strip_ansi_escape_sequences s)"]
    length_sanitize_loop [of "[]" "[]" False "strip_ansi_escape_sequences s"] length_strip [of s]
  by (simp add: sanitize_cli_output_def)

text \<open>Text without escapes, carriage returns, line feeds and surrounding blanks passes through.\<close>

lemma strip_plain: "ESC \<notin> set s \<Longrightarrow> strip_ansi_escape_sequences s = s"
  by (induction s) (auto simp: strip_text)

lemma sanitize_loop_plain:
  "CR \<notin> set s \<Longrightarrow> NL \<notin> set s \<Longrightarrow>
     sanitize_loop out frame b s = push_non_spinner_frame out (frame @ s) False"
  by (induction s arbitrary: out frame b) auto

text \<open>
  C35 (sanitised_output_clean): what a tool printed reaches the caller without terminal control:
  no escape byte and no carriage return survives, no surrounding white space, never more bytes
  than were read; a single trimmed line without control bytes that is not a spinner frame is
  returned unchanged.
\<close>

theorem sanitised_output_clean:
  "ESC \<notin> set (sanitize_cli_output s) \<and> CR \<notin> set (sanitize_cli_output s) \<and>
   trimmed (sanitize_cli_output s) \<and> length (sanitize_cli_output s) \<le> length s \<and>
   (trimmed s \<and> ESC \<notin> set s \<and> CR \<notin> set s \<and> NL \<notin> set s \<and> \<not> is_spinner_only_frame s \<longrightarrow>
      sanitize_cli_output s = s)"
proof -
  have sub: "set (sanitize_cli_output s) \<subseteq> insert NL (set (strip_ansi_escape_sequences s) - {CR})"
    using set_trim_subset [of "sanitize_loop [] [] False (strip_ansi_escape_sequences s)"]
      set_sanitize_loop [of "[]" "[]" False "strip_ansi_escape_sequences s"]
    by (auto simp: sanitize_cli_output_def)
  have "ESC \<notin> set (sanitize_cli_output s)" "CR \<notin> set (sanitize_cli_output s)"
    using sub ESC_notin_strip [of s] by auto
  moreover have "trimmed (sanitize_cli_output s)" by (simp add: sanitize_cli_output_def)
  moreover have "sanitize_cli_output s = s"
    if "trimmed s" "ESC \<notin> set s" "CR \<notin> set s" "NL \<notin> set s" "\<not> is_spinner_only_frame s"
    using that by (simp add: sanitize_cli_output_def strip_plain sanitize_loop_plain
        push_non_spinner_frame_def trim_trimmed)
  ultimately show ?thesis using length_sanitize by blast
qed

theorem sanitised_output_clean_witness:
  "sanitize_cli_output ''plain reply'' = ''plain reply'' \<and>
   sanitize_cli_output (ESC # ''[31m|'' @ [CR] @ ''done'' @ [CR, NL]) = ''done'' \<and>
   ESC \<notin> set (sanitize_cli_output (ESC # ''[31m|'' @ [CR] @ ''done'' @ [CR, NL]))"
proof -
  have "trimmed ''plain reply'' \<and> ESC \<notin> set ''plain reply'' \<and> CR \<notin> set ''plain reply'' \<and>
      NL \<notin> set ''plain reply'' \<and> \<not> is_spinner_only_frame ''plain reply''" by code_simp
  then have "sanitize_cli_output ''plain reply'' = ''plain reply''"
    using sanitised_output_clean [of "''plain reply''"] by blast
  moreover have "sanitize_cli_output (ESC # ''[31m|'' @ [CR] @ ''done'' @ [CR, NL]) = ''done''" by code_simp
  moreover have "ESC \<notin> set ''done''" by simp
  ultimately show ?thesis by simp
qed

section \<open>The failover walk\<close>

definition retry_limit_wf :: "failure_policy \<Rightarrow> bool" where
  "retry_limit_wf p \<longleftrightarrow> transient_retries p \<le> U32_MAX"

lemma max_tries_pos [simp]: "0 < max_tries p"
  by (simp add: max_tries_def U32_MAX_def)

text \<open>A candidate either serves a non-blank reply or leaves one attempt under its own name.\<close>

lemma try_candidate_result:
  assumes "try_candidate p invoke cand r t s = (res, s')"
  shows "case res of
      Inr ov \<Rightarrow> trim (ov_output ov) \<noteq> []
    | Inl a \<Rightarrow> pa_target a = rt_target cand \<and> pa_model a = rt_model cand \<and>
        (pa_class a = Transient \<longrightarrow> (pa_retried a \<longleftrightarrow> 0 < r + t))"
  using assms
proof (induction p invoke cand r t s rule: try_candidate.induct)
  case (1 p invoke cand r t s)
  obtain q u where q: "invoke s cand = (q, u)" by (cases "invoke s cand")
  show ?case
  proof (cases "case q of Inl e \<Rightarrow> Inl e | Inr ov \<Rightarrow> reject_blank_outcome ov")
    case (Inr ov)
    with 1(2) q have "res = Inr ov" by (simp add: try_candidate.simps)
    with Inr show ?thesis
      by (auto simp: reject_blank_outcome_def split: sum.splits if_splits)
  next
    case (Inl e)
    show ?thesis
    proof (cases "classify p e = Transient")
      case False
      with 1(2) q Inl show ?thesis by (auto simp: try_candidate.simps)
    next
      case True
      show ?thesis
      proof (cases r)
        case 0
        with 1(2) q Inl True show ?thesis by (auto simp: try_candidate.simps)
      next
        case (Suc left)
        with 1(2) q Inl True have "try_candidate p invoke cand left (Suc t) u = (res, s')"
          by (simp add: try_candidate.simps)
        then show ?thesis using 1(1) [OF q [symmetric] Inl refl True Suc] Suc by (simp split: sum.splits)
      qed
    qed
  qed
qed

text \<open>What a finished walk over \<open>targets\<close> looks like.\<close>

definition walk_wf :: "ranked_target list \<Rightarrow> policy_outcome \<Rightarrow> bool" where
  "walk_wf targets r \<longleftrightarrow>
     length (po_attempts r) \<le> length targets \<and>
     list_all2 (\<lambda>a c. pa_target a = rt_target c \<and> pa_model a = rt_model c)
       (po_attempts r) (take (length (po_attempts r)) targets) \<and>
     (case po_halted r of
        Some h \<Rightarrow> po_served r = None \<and> pa_class h = Fatal \<and> po_attempts r \<noteq> [] \<and> last (po_attempts r) = h \<and>
          (\<forall>a \<in> set (butlast (po_attempts r)). pa_class a \<noteq> Fatal)
      | None \<Rightarrow> (\<forall>a \<in> set (po_attempts r). pa_class a \<noteq> Fatal) \<and>
          (case po_served r of
             Some ov \<Rightarrow> trim (ov_output ov) \<noteq> [] \<and> length (po_attempts r) < length targets
           | None \<Rightarrow> length (po_attempts r) = length targets))"

lemma walk_candidates_wf:
  assumes "walk_candidates p invoke cands done' s = (r, s')"
    and "list_all2 (\<lambda>a c. pa_target a = rt_target c \<and> pa_model a = rt_model c) done' before"
    and "\<forall>a \<in> set done'. pa_class a \<noteq> Fatal"
  shows "walk_wf (before @ cands) r"
  using assms
proof (induction cands arbitrary: done' before s)
  case Nil
  then show ?case by (auto simp: walk_wf_def list_all2_lengthD)
next
  case (Cons cand cands)
  have len: "length done' = length before" using Cons.prems(2) by (rule list_all2_lengthD)
  obtain res u where res: "try_candidate p invoke cand (max_tries p - 1) 0 s = (res, u)"
    by (metis surj_pair)
  note result = try_candidate_result [OF res]
  show ?case
  proof (cases res)
    case (Inr ov)
    with Cons.prems res result len show ?thesis by (auto simp: walk_wf_def)
  next
    case (Inl a)
    with result have same: "pa_target a = rt_target cand" "pa_model a = rt_model cand" by simp_all
    show ?thesis
    proof (cases "pa_class a = Fatal")
      case True
      with Cons.prems res Inl have "r = \<lparr>po_served = None, po_attempts = done' @ [a], po_halted = Some a\<rparr>"
        by simp
      with Cons.prems(2,3) True same len show ?thesis by (simp add: walk_wf_def list_all2_appendI)
    next
      case False
      with Cons.prems res Inl have "walk_candidates p invoke cands (done' @ [a]) u = (r, s')" by simp
      from Cons.IH [OF this, of "before @ [cand]"] Cons.prems(2,3) False same show ?thesis
        by (simp add: list_all2_appendI)
    qed
  qed
qed

text \<open>
  C33 (policy_walk): a failover walk over a non-empty list of ranked targets always ends with a
  record: the failed candidates are an initial part of the list, in order and under their own
  names; a fatal failure halts the walk as its last attempt with nothing served and every earlier
  failure recoverable; otherwise no failure was fatal, and either a candidate after the failed ones
  served a non-blank reply or every candidate failed. An empty list is an error and contacts
  nobody; the flattened form succeeds exactly when something was served.
\<close>

theorem policy_walk:
  "case walk_with_policy p invoke targets s of
     (Inl e, s') \<Rightarrow> targets = [] \<and> s' = s
   | (Inr r, s') \<Rightarrow> targets \<noteq> [] \<and> walk_wf targets r \<and>
       (case into_failover r of
          Inr f \<Rightarrow> po_served r = Some (fo_outcome f) \<and> list_all fa_retryable (fo_failed_over f) \<and>
            length (fo_failed_over f) = policy_fell_over r
        | Inl _ \<Rightarrow> po_served r = None)"
proof (cases "targets = []")
  case True
  then show ?thesis by (simp add: walk_with_policy_def)
next
  case False
  obtain r s' where r: "walk_candidates p invoke targets [] s = (r, s')" by (metis surj_pair)
  from walk_candidates_wf [OF r, of "[]"] have wf: "walk_wf targets r" by simp
  have "case into_failover r of
          Inr f \<Rightarrow> po_served r = Some (fo_outcome f) \<and> list_all fa_retryable (fo_failed_over f) \<and>
            length (fo_failed_over f) = policy_fell_over r
        | Inl _ \<Rightarrow> po_served r = None"
  proof (cases "po_served r")
    case None
    then show ?thesis by (simp add: into_failover_def)
  next
    case (Some ov)
    with wf have "po_halted r = None" "\<forall>a \<in> set (po_attempts r). pa_class a \<noteq> Fatal"
      by (auto simp: walk_wf_def split: option.splits)
    with Some show ?thesis
      by (simp add: into_failover_def policy_fell_over_def failover_attempt_from_def is_recoverable_def list_all_iff)
  qed
  with wf r False show ?thesis by (simp add: walk_with_policy_def)
qed

text \<open>A concrete walk: the first target is out of quota, the second refuses the key.\<close>

definition sample_target :: "string \<Rightarrow> ranked_target" where
  "sample_target name = \<lparr>rt_target = name, rt_mode = Auto, rt_model = None, rt_cost_class = LocalFree\<rparr>"

definition sample_invoker :: "nat \<Rightarrow> ranked_target \<Rightarrow> (error + invoke_outcome) \<times> nat" where
  "sample_invoker n c =
     (if rt_target c = ''a'' then Inl (Provider ''status 429'')
      else if rt_target c = ''b'' then Inl (Provider ''server overloaded'')
      else if rt_target c = ''d'' then Inl (Provider ''unauthorized'')
      else Inr \<lparr>ov_target = rt_target c, ov_mode_used = Api, ov_model = None, ov_output = ''hi'',
                ov_cost_usd = None, ov_exit_code = None, ov_ms = 1\<rparr>, Suc n)"

theorem policy_walk_witness:
  "(case walk_with_policy policy_builtin sample_invoker (map sample_target [''a'', ''b'', ''c'', ''d'']) 0 of
      (Inr r, n) \<Rightarrow> map pa_target (po_attempts r) = [''a'', ''b''] \<and> map pa_retried (po_attempts r) = [False, True] \<and>
        po_halted r = None \<and> map_option ov_target (po_served r) = Some ''c'' \<and> n = 4 \<and>
        walk_wf (map sample_target [''a'', ''b'', ''c'', ''d'']) r
    | _ \<Rightarrow> False) \<and>
   (case walk_with_policy policy_builtin sample_invoker (map sample_target [''a'', ''d'', ''c'']) 0 of
      (Inr r, n) \<Rightarrow> map_option pa_target (po_halted r) = Some ''d'' \<and> po_served r = None \<and> n = 2
    | _ \<Rightarrow> False)"
proof -
  let ?w = "walk_with_policy policy_builtin sample_invoker (map sample_target [''a'', ''b'', ''c'', ''d'']) 0"
  have "case ?w of
      (Inr r, n) \<Rightarrow> map pa_target (po_attempts r) = [''a'', ''b''] \<and> map pa_retried (po_attempts r) = [False, True] \<and>
        po_halted r = None \<and> map_option ov_target (po_served r) = Some ''c'' \<and> n = 4
    | _ \<Rightarrow> False" by code_simp
  moreover have "case walk_with_policy policy_builtin sample_invoker (map sample_target [''a'', ''d'', ''c'']) 0 of
      (Inr r, n) \<Rightarrow> map_option pa_target (po_halted r) = Some ''d'' \<and> po_served r = None \<and> n = 2
    | _ \<Rightarrow> False" by code_simp
  moreover note policy_walk [where p = policy_builtin and invoke = sample_invoker
      and targets = "map sample_target [''a'', ''b'', ''c'', ''d'']" and s = 0]
  ultimately show ?thesis by (simp split: prod.splits sum.splits)
qed

section \<open>Calls and rows\<close>

text \<open>
  A family of invokers whose every call on an eligible target moves a property from \<open>n\<close>
  calls to \<open>Suc n\<close>: what a walk then promises is proved once.
\<close>

locale counted_invoker =
  fixes invoke :: "'s \<Rightarrow> ranked_target \<Rightarrow> (error + invoke_outcome) \<times> 's"
    and eligible :: "ranked_target \<Rightarrow> bool"
    and after :: "nat \<Rightarrow> 's \<Rightarrow> bool"
  assumes call: "eligible c \<Longrightarrow> after n s \<Longrightarrow> after (Suc n) (snd (invoke s c))"
begin

lemma try_calls:
  assumes "eligible cand" and "after n s"
  shows "\<exists>k. 1 \<le> k \<and> k \<le> Suc r \<and> after (n + k) (snd (try_candidate p invoke cand r t s))"
  using assms(2)
proof (induction r arbitrary: n t s)
  case 0
  then have "after (n + 1) (snd (invoke s cand))" using call [OF assms(1)] by simp
  then show ?case
    by (auto simp: try_candidate.simps [of p invoke cand 0] Let_def split: prod.splits sum.splits intro!: exI [of _ 1])
next
  case (Suc r)
  obtain q u where q: "invoke s cand = (q, u)" by (cases "invoke s cand")
  then have one: "after (Suc n) u" using call [OF assms(1) Suc.prems] by simp
  have "snd (try_candidate p invoke cand (Suc r) t s) = u \<or>
      snd (try_candidate p invoke cand (Suc r) t s) = snd (try_candidate p invoke cand r (Suc t) u)"
    by (auto simp: try_candidate.simps [of p invoke cand "Suc r"] q Let_def split: sum.splits)
  then show ?case
  proof
    assume "snd (try_candidate p invoke cand (Suc r) t s) = u"
    with one show ?thesis by (intro exI [of _ 1]) simp
  next
    assume *: "snd (try_candidate p invoke cand (Suc r) t s) = snd (try_candidate p invoke cand r (Suc t) u)"
    from Suc.IH [OF one] obtain k where "1 \<le> k" "k \<le> Suc r"
      "after (Suc n + k) (snd (try_candidate p invoke cand r (Suc t) u))" by blast
    with * show ?thesis by (intro exI [of _ "Suc k"]) simp
  qed
qed

lemma walk_calls:
  assumes "list_all eligible cands" and "after n s"
  shows "\<exists>k. (cands \<noteq> [] \<longrightarrow> 1 \<le> k) \<and> k \<le> max_tries p * length cands \<and>
    after (n + k) (snd (walk_candidates p invoke cands attempts s))"
  using assms
proof (induction cands arbitrary: n attempts s)
  case Nil
  then show ?case by (intro exI [of _ 0]) simp
next
  case (Cons cand cands)
  obtain res u where res: "try_candidate p invoke cand (max_tries p - 1) 0 s = (res, u)"
    by (metis surj_pair)
  from try_calls [of cand n s "max_tries p - 1" p 0] Cons.prems res
  obtain k where k: "1 \<le> k" "k \<le> max_tries p" "after (n + k) u" by auto
  show ?case
  proof (cases "\<exists>a. res = Inl a \<and> pa_class a \<noteq> Fatal")
    case True
    then obtain a where a: "res = Inl a" "pa_class a \<noteq> Fatal" by blast
    from Cons.IH [of "n + k" u "attempts @ [a]"] Cons.prems(1) k(3) obtain j where
      "j \<le> max_tries p * length cands" "after (n + k + j) (snd (walk_candidates p invoke cands (attempts @ [a]) u))"
      by auto
    with a res k show ?thesis by (intro exI [of _ "k + j"]) (simp add: add.assoc)
  next
    case False
    with res have "snd (walk_candidates p invoke (cand # cands) attempts s) = u" by (auto split: sum.splits)
    with k show ?thesis by (intro exI [of _ k]) (simp add: trans_le_add1)
  qed
qed

end

interpretation calls: counted_invoker "invoke_ranked env prompt" "\<lambda>_. True" "\<lambda>n st. fst st = n"
  for env prompt
  by unfold_locales (simp add: invoke_ranked_def split: prod.splits)

text \<open>
  C34 (walk_calls_bounded): a failover walk terminates after at least one and at most
  (transient retries + 1) invocations per ranked target, whatever the tools answer.
\<close>

theorem walk_calls_bounded:
  assumes "targets \<noteq> []" and "transient_retries p < U32_MAX"
  shows "1 \<le> fst (snd (invoke_with_policy p env targets prompt file)) \<and>
    fst (snd (invoke_with_policy p env targets prompt file)) \<le> (transient_retries p + 1) * length targets"
proof -
  have "snd (invoke_with_policy p env targets prompt file) =
      snd (walk_candidates p (invoke_ranked env prompt) targets [] (0, file))"
    using assms(1) by (simp add: invoke_with_policy_def walk_with_policy_def split: prod.splits)
  moreover have "max_tries p = transient_retries p + 1" using assms(2) by (simp add: max_tries_def)
  ultimately show ?thesis
    using calls.walk_calls [where cands = targets and n = 0 and s = "(0, file)" and p = p and env = env and prompt = prompt and attempts = "[]"] assms(1) by (auto simp: list_all_iff)
qed

definition sample_invoke_env :: invoke_env where
  "sample_invoke_env =
     \<lparr>ie_tools = [(sample_tool ''mock'' LocalFree [''m''])\<lparr>dt_invocation_modes := [Cli_invocation],
        dt_cli_invocation := Some ''mock {model_args} {prompt}''\<rparr>],
      ie_spawn = (\<lambda>argv. Finished ''server overloaded'' [] (Some 1)), ie_json = (\<lambda>_. None),
      ie_gateway = sample_gateway_env, ie_hash = sample_hash, ie_outcome = (\<lambda>_. sample_outcome (Inr ''ok'')),
      ie_api_max_tokens = 4096,
      ie_io = \<lparr>io_now = 10, io_lock = (\<lambda>_. Created), io_append = Written, io_trim = Written\<rparr>, ie_ms = 7\<rparr>"

theorem walk_calls_bounded_witness:
  "fst (snd (invoke_with_policy policy_builtin (\<lambda>_. sample_invoke_env) [sample_target ''mock''] ''hi'' None)) \<in> {1, 2}"
proof -
  have "transient_retries policy_builtin = 1" "1 < U32_MAX" by code_simp+
  then show ?thesis
    using walk_calls_bounded [of "[sample_target ''mock'']" policy_builtin "\<lambda>_. sample_invoke_env" "''hi''" None]
    by (auto simp: le_Suc_eq)
qed

text \<open>What a text in memory can hold, and a JSON string never longer than the text it was read from.\<close>

definition texts_fit :: "invoke_env \<Rightarrow> bool" where
  "texts_fit env \<longleftrightarrow>
     (\<forall>argv out err code. ie_spawn env argv = Finished out err code \<longrightarrow> length (out @ err) \<le> u64_max) \<and>
     (\<forall>s r c. ie_json env s = Some (r, c) \<longrightarrow> length r \<le> length s)"

lemma estimate_fits: "length s \<le> u64_max \<Longrightarrow> estimate_tokens s \<le> u64_max"
proof -
  assume "length s \<le> u64_max"
  moreover have "chars_count s \<le> length s" by (simp add: chars_count_def)
  moreover have "div_ceil n ESTIMATED_CHARS_PER_TOKEN \<le> n" for n
    by (auto simp: div_ceil_def ESTIMATED_CHARS_PER_TOKEN_def; presburger)
  ultimately show ?thesis unfolding estimate_tokens_def by (meson le_trans)
qed

abbreviation ledger_model :: "string option \<Rightarrow> string" where
  "ledger_model model \<equiv> (case model of None \<Rightarrow> [] | Some m \<Rightarrow> m)"

text \<open>The file after one row of bounded counts and the given success flag.\<close>

definition row_appended :: "io_env \<Rightarrow> string option \<Rightarrow> string \<Rightarrow> string \<Rightarrow> bool \<Rightarrow> string option \<Rightarrow> bool" where
  "row_appended io file target model ok file' \<longleftrightarrow>
     (\<exists>i out est. i \<le> u64_max \<and> out \<le> u64_max \<and>
        file' = snd (record_invocation io file target model i out est ok))"

lemma record_invocation_row:
  "i \<le> u64_max \<Longrightarrow> out \<le> u64_max \<Longrightarrow>
     row_appended io file target model ok (snd (record_invocation io file target model i out est ok))"
  unfolding row_appended_def by blast

lemma record_cli_row:
  "length prompt \<le> u64_max \<Longrightarrow> length output \<le> u64_max \<Longrightarrow>
     row_appended io file target model ok (record_cli io file target model prompt output ok)"
  unfolding record_cli_def by (intro record_invocation_row estimate_fits)

lemma run_cli_fits:
  "texts_fit env \<Longrightarrow> run_cli_argv (ie_spawn env) argv = Inr (output, code) \<Longrightarrow> length output \<le> u64_max"
  unfolding run_cli_argv_def texts_fit_def
  by (auto split: list.splits process_result.splits) (metis le_trans length_append length_sanitize)

lemma parse_claude_fits:
  "texts_fit env \<Longrightarrow> length output \<le> u64_max \<Longrightarrow>
     length (fst (parse_claude_output (ie_json env) output b)) \<le> u64_max"
  unfolding parse_claude_output_def texts_fit_def
  by (auto split: option.splits) (metis le_trans)

lemma invoke_cli_row:
  assumes fit: "texts_fit env" "length prompt \<le> u64_max" and strict: "dt_name tool = ''claude'' \<longrightarrow> model \<noteq> None"
  shows "row_appended (ie_io env) file (dt_name tool) (ledger_model model)
    (\<not> isl (fst (invoke_cli env tool prompt model file))) (snd (invoke_cli env tool prompt model file))"
proof -
  note row = record_cli_row [OF fit(2)]
  show ?thesis
  proof (cases "dt_cli_invocation tool")
    case None
    with row [of "[]"] show ?thesis by (simp add: invoke_cli_def)
  next
    case (Some template)
    show ?thesis
    proof (cases "template_to_argv template prompt model")
      case (Inl e)
      with Some row [of "[]"] show ?thesis by (simp add: invoke_cli_def)
    next
      case (Inr argv0)
      define argv1 where "argv1 = (if dt_name tool = ''claude'' then claude_argv (the model) prompt else argv0)"
      have argv1: "(if dt_name tool = ''claude''
          then (case model of None \<Rightarrow> None | Some m \<Rightarrow> Some (claude_argv m prompt)) else Some argv0) = Some argv1"
        using strict by (auto simp: argv1_def split: option.splits)
      obtain b argv where argv: "prepare_claude_json_output (dt_name tool) argv1 = (b, argv)" by (metis surj_pair)
      show ?thesis
      proof (cases "run_cli_argv (ie_spawn env) argv")
        case (Inl e)
        with Some Inr argv1 argv row [of "[]"] show ?thesis by (simp add: invoke_cli_def)
      next
        case ran: (Inr oc)
        obtain said code where oc: "oc = (said, code)" by (cases oc)
        obtain reply cost where reply: "parse_claude_output (ie_json env) said b = (reply, cost)" by (metis surj_pair)
        have "length said \<le> u64_max" using run_cli_fits [OF fit(1)] ran oc by blast
        with parse_claude_fits [OF fit(1) this, of b] reply have "length said \<le> u64_max" "length reply \<le> u64_max"
          by simp_all
        with Some Inr argv1 argv ran oc reply row [of said] row [of reply] show ?thesis
          by (simp add: invoke_cli_def Let_def)
      qed
    qed
  qed
qed

lemma invoke_api_row:
  assumes "length prompt \<le> u64_max"
  shows "row_appended (ie_io env) file (dt_name tool) (ledger_model model)
    (\<not> isl (fst (invoke_api env tool prompt model file))) (snd (invoke_api env tool prompt model file))"
proof (cases model)
  case None
  with record_cli_row [OF assms, of "[]"] show ?thesis by (simp add: invoke_api_def)
next
  case (Some m)
  have "unat (w :: 64 word) \<le> u64_max" for w
    proof -
    have "unat w < 2 ^ LENGTH(64)" by (rule unsigned_less)
    then show ?thesis by (simp add: u64_max_def)
  qed
  with Some record_cli_row [OF assms, of "[]"] show ?thesis
    by (simp add: invoke_api_def Let_def record_invocation_row split: sum.splits)
qed

text \<open>Which requests reach an invocation, and with which tool, mode and model.\<close>

definition dispatch_of :: "invoke_env \<Rightarrow> string \<Rightarrow> invoke_options \<Rightarrow> (detected_tool \<times> mode \<times> string option) option" where
  "dispatch_of env target opts =
     (case resolve_target target (ie_tools env) of
        Inl _ \<Rightarrow> None
      | Inr tool \<Rightarrow>
      (case select_mode tool (case iv_mode opts of None \<Rightarrow> Auto | Some m \<Rightarrow> m) of
         Inl _ \<Rightarrow> None
       | Inr mode \<Rightarrow> Some (tool, mode, case iv_model opts of Some m \<Rightarrow> Some m
           | None \<Rightarrow> (case dt_models tool of [] \<Rightarrow> None | m # _ \<Rightarrow> Some m))))"

lemma dispatch_mode: "dispatch_of env target opts = Some (tool, mode, model) \<Longrightarrow> mode \<noteq> Auto"
  by (auto simp: dispatch_of_def select_mode_def auto_mode_for_def split: sum.splits mode.splits if_splits option.splits)

lemma invoke_agent_dispatched:
  assumes "dispatch_of env target opts = Some (tool, mode, model)"
  shows "invoke_agent env target prompt opts file =
    (case (if mode = Cli then invoke_cli env tool prompt model file else invoke_api env tool prompt model file) of
       (Inl e, file') \<Rightarrow> (Inl e, file')
     | (Inr (output, exit_code, cost), file') \<Rightarrow>
         (Inr \<lparr>ov_target = dt_name tool, ov_mode_used = mode, ov_model = model, ov_output = output,
               ov_cost_usd = cost, ov_exit_code = exit_code, ov_ms = ie_ms env\<rparr>, file'))"
  using assms dispatch_mode [OF assms]
  by (cases mode) (auto simp: dispatch_of_def invoke_agent_def Let_def split: sum.splits)

lemma invoke_agent_row:
  assumes d: "dispatch_of env target opts = Some (tool, mode, model)"
    and fit: "texts_fit env" "length prompt \<le> u64_max"
    and strict: "mode = Cli \<and> dt_name tool = ''claude'' \<longrightarrow> model \<noteq> None"
  shows "row_appended (ie_io env) file (dt_name tool) (ledger_model model)
    (\<not> isl (fst (invoke_agent env target prompt opts file))) (snd (invoke_agent env target prompt opts file))"
proof -
  let ?m = "if mode = Cli then invoke_cli env tool prompt model file else invoke_api env tool prompt model file"
  obtain q f where q: "?m = (q, f)" by (metis surj_pair)
  have "row_appended (ie_io env) file (dt_name tool) (ledger_model model) (\<not> isl (fst ?m)) (snd ?m)"
    using invoke_cli_row [OF fit, of tool model] strict invoke_api_row [OF fit(2), of env _ tool model] by simp
  then show ?thesis unfolding invoke_agent_dispatched [OF d] q by (auto split: sum.splits)
qed

text \<open>A request whose tool, mode and model are found, whose names fit a ledger line, with a ledger that can be written and whose rewrite does not break off.\<close>

definition recordable :: "invoke_env \<Rightarrow> string \<Rightarrow> string \<Rightarrow> invoke_options \<Rightarrow> bool" where
  "recordable env target prompt opts \<longleftrightarrow>
     texts_fit env \<and> length prompt \<le> u64_max \<and> io_append (ie_io env) = Written \<and> trim_whole (ie_io env) \<and> io_now (ie_io env) \<le> u64_max \<and>
     (case dispatch_of env target opts of
        None \<Rightarrow> False
      | Some (tool, mode, model) \<Rightarrow>
          (mode = Cli \<and> dt_name tool = ''claude'' \<longrightarrow> model \<noteq> None) \<and>
          TAB \<notin> set (dt_name tool) \<and> NL \<notin> set (dt_name tool) \<and>
          TAB \<notin> set (ledger_model model) \<and> NL \<notin> set (ledger_model model))"

lemma recordable_row:
  assumes r: "recordable env target prompt opts" and wf: "list_all row_wf rows"
  obtains tool mode model row where "dispatch_of env target opts = Some (tool, mode, model)"
    and "lr_target row = normalize_target (dt_name tool)" "lr_model row = ledger_model model"
    and "lr_ok row = (\<not> isl (fst (invoke_agent env target prompt opts (Some (ledger_file rows)))))"
    and "snd (invoke_agent env target prompt opts (Some (ledger_file rows))) =
      Some (ledger_file (kept_rows (ie_io env) rows row))"
    and "read_rows (Some (ledger_file (kept_rows (ie_io env) rows row))) = kept_rows (ie_io env) rows row"
    and "list_all row_wf (kept_rows (ie_io env) rows row)"
proof -
  let ?r = "invoke_agent env target prompt opts (Some (ledger_file rows))"
  from r obtain tool mode model where d: "dispatch_of env target opts = Some (tool, mode, model)"
    and fit: "texts_fit env" "length prompt \<le> u64_max"
    and io: "io_append (ie_io env) = Written" "trim_whole (ie_io env)" "io_now (ie_io env) \<le> u64_max"
    and strict: "mode = Cli \<and> dt_name tool = ''claude'' \<longrightarrow> model \<noteq> None"
    and plain: "TAB \<notin> set (dt_name tool)" "NL \<notin> set (dt_name tool)"
      "TAB \<notin> set (ledger_model model)" "NL \<notin> set (ledger_model model)"
    by (auto simp: recordable_def split: option.splits prod.splits)
  from invoke_agent_row [OF d fit strict, of "Some (ledger_file rows)"]
  obtain i out est where n: "i \<le> u64_max" "out \<le> u64_max"
    and s: "snd ?r = snd (record_invocation (ie_io env) (Some (ledger_file rows)) (dt_name tool)
      (ledger_model model) i out est (\<not> isl (fst ?r)))"
    by (auto simp: row_appended_def)
  define row where "row = new_row (ie_io env) (dt_name tool) (ledger_model model) i out est (\<not> isl (fst ?r))"
  note log = record_invocation_log [OF wf io n plain, of est "\<not> isl (fst ?r)", folded row_def]
  show thesis
    by (rule that [OF d, of row]) (use log s in \<open>simp_all add: row_def new_row_def\<close>)
qed

text \<open>
  Every invocation that reaches a tool leaves exactly one ledger row,
  under the tool's normalised name and the model used, marked successful exactly when the
  invocation succeeded; the rows already there stay, up to the ledger's cap.
\<close>

lemma invocation_recorded:
  assumes "recordable env target prompt opts" and "list_all row_wf rows"
  shows "\<exists>tool mode model row. dispatch_of env target opts = Some (tool, mode, model) \<and>
    lr_target row = normalize_target (dt_name tool) \<and> lr_model row = ledger_model model \<and>
    lr_ok row = (\<not> isl (fst (invoke_agent env target prompt opts (Some (ledger_file rows))))) \<and>
    read_rows (snd (invoke_agent env target prompt opts (Some (ledger_file rows)))) =
      kept_rows (ie_io env) rows row"
  by (rule recordable_row [OF assms]) metis

lemma sample_recordable:
  "recordable sample_invoke_env ''mock'' ''hi'' \<lparr>iv_mode = Some Auto, iv_model = None\<rparr>"
proof -
  have "texts_fit sample_invoke_env" by (simp add: texts_fit_def sample_invoke_env_def u64_max_def)
  moreover have "dispatch_of sample_invoke_env ''mock'' \<lparr>iv_mode = Some Auto, iv_model = None\<rparr> =
      Some (hd (ie_tools sample_invoke_env), Cli, Some ''m'')"
    by code_simp
  moreover have "dt_name (hd (ie_tools sample_invoke_env)) = ''mock''" "io_append (ie_io sample_invoke_env) = Written" "trim_whole (ie_io sample_invoke_env)"
    "io_now (ie_io sample_invoke_env) \<le> u64_max" "length ''hi'' \<le> u64_max"
    by code_simp+
  ultimately show ?thesis by (simp add: recordable_def)
qed

text \<open>The ledger after \<open>n\<close> more rows: at least the newest \<open>MAX_LEDGER_ROWS\<close> of the whole history.\<close>

definition ledger_grew :: "ledger_row list \<Rightarrow> nat \<Rightarrow> string option \<Rightarrow> bool" where
  "ledger_grew hist n file \<longleftrightarrow>
     (\<exists>added k. length added = n \<and> MAX_LEDGER_ROWS \<le> k \<and>
        file = Some (ledger_file (last_rows k (hist @ added))) \<and> list_all row_wf (last_rows k (hist @ added)) \<and>
        read_rows file = last_rows k (hist @ added))"

lemma kept_last_rows:
  fixes row :: ledger_row
  assumes "MAX_LEDGER_ROWS \<le> k"
  shows "\<exists>k'. MAX_LEDGER_ROWS \<le> k' \<and> kept_rows io (last_rows k xs) row = last_rows k' (xs @ [row])"
proof -
  have "last_rows k xs @ [row] = last_rows (Suc k) (xs @ [row])"
    by (simp add: last_rows_def)
  moreover have "last_rows MAX_LEDGER_ROWS (last_rows (Suc k) ys) = last_rows MAX_LEDGER_ROWS ys" for ys :: "ledger_row list"
  proof -
    have "length ys - (length ys - Suc k + MAX_LEDGER_ROWS) + (length ys - Suc k) = length ys - MAX_LEDGER_ROWS"
      using assms by linarith
    then show ?thesis by (simp add: last_rows_def)
  qed
  ultimately show ?thesis
    using assms by (cases "try_acquire (io_lock io) \<and> io_trim io = Written") (auto simp: kept_rows_def intro: le_SucI)
qed

lemma ledger_grew_step:
  assumes "recordable env target prompt opts" and "ledger_grew hist n file"
  shows "ledger_grew hist (Suc n) (snd (invoke_agent env target prompt opts file))"
proof -
  from assms(2) obtain added k where a: "length added = n" "MAX_LEDGER_ROWS \<le> k"
    and f: "file = Some (ledger_file (last_rows k (hist @ added)))"
    and wf: "list_all row_wf (last_rows k (hist @ added))"
    by (auto simp: ledger_grew_def)
  from recordable_row [OF assms(1) wf] obtain row where
    row: "snd (invoke_agent env target prompt opts file) =
        Some (ledger_file (kept_rows (ie_io env) (last_rows k (hist @ added)) row))"
      "read_rows (Some (ledger_file (kept_rows (ie_io env) (last_rows k (hist @ added)) row))) =
        kept_rows (ie_io env) (last_rows k (hist @ added)) row"
      "list_all row_wf (kept_rows (ie_io env) (last_rows k (hist @ added)) row)"
    unfolding f by metis
  from kept_last_rows [OF a(2), of "ie_io env" "hist @ added" row] obtain k' where
    k': "MAX_LEDGER_ROWS \<le> k'" "kept_rows (ie_io env) (last_rows k (hist @ added)) row = last_rows k' (hist @ (added @ [row]))"
    by auto
  show ?thesis unfolding ledger_grew_def
    by (rule exI [of _ "added @ [row]"], rule exI [of _ k']) (use row k' a in simp)
qed

lemma snd_invoke_ranked:
  "snd (snd (invoke_ranked env prompt st c)) = snd (invoke_agent (env (fst st)) (rt_target c) prompt
     \<lparr>iv_mode = Some (rt_mode c), iv_model = rt_model c\<rparr> (snd st))"
  by (simp add: invoke_ranked_def split: prod.splits)

interpretation rows: counted_invoker "invoke_ranked env prompt"
  "\<lambda>c. \<forall>i. recordable (env i) (rt_target c) prompt \<lparr>iv_mode = Some (rt_mode c), iv_model = rt_model c\<rparr>"
  "\<lambda>n st. ledger_grew hist n (snd st)"
  for env prompt hist
  by unfold_locales (simp add: snd_invoke_ranked ledger_grew_step)

lemma ledger_grew_0: "list_all row_wf rows \<Longrightarrow> ledger_grew rows 0 (Some (ledger_file rows))"
  unfolding ledger_grew_def
  by (intro exI [of _ "[]"] exI [of _ "max MAX_LEDGER_ROWS (length rows)"])
    (simp add: last_rows_def read_ledger_file)

text \<open>
  A failover walk leaves one ledger row per invocation it made, retries
  and failures included: between one and (transient retries + 1) rows per target are added to the
  history, of which the ledger still holds at least the newest \<open>MAX_LEDGER_ROWS\<close>.
\<close>

lemma walk_leaves_rows:
  assumes "targets \<noteq> []" and "list_all row_wf rows"
    and "\<forall>i. \<forall>c \<in> set targets. recordable (env i) (rt_target c) prompt \<lparr>iv_mode = Some (rt_mode c), iv_model = rt_model c\<rparr>"
  shows "\<exists>n. 1 \<le> n \<and> n \<le> max_tries p * length targets \<and>
    ledger_grew rows n (snd (snd (invoke_with_policy p env targets prompt (Some (ledger_file rows)))))"
proof -
  have "snd (invoke_with_policy p env targets prompt (Some (ledger_file rows))) =
      snd (walk_candidates p (invoke_ranked env prompt) targets [] (0, Some (ledger_file rows)))"
    using assms(1) by (simp add: invoke_with_policy_def walk_with_policy_def split: prod.splits)
  moreover have "list_all (\<lambda>c. \<forall>i. recordable (env i) (rt_target c) prompt
      \<lparr>iv_mode = Some (rt_mode c), iv_model = rt_model c\<rparr>) targets"
    using assms(3) by (simp add: list_all_iff)
  ultimately show ?thesis
    using rows.walk_calls [where env = env and prompt = prompt and hist = rows and n = 0
        and s = "(0, Some (ledger_file rows))" and p = p and attempts = "[]"] assms(1) ledger_grew_0 [OF assms(2)]
    by auto
qed

section \<open>Classification by substring\<close>

lemma contains_middle: "contains_str (pre @ mid @ post) mid"
proof (induction pre)
  case Nil
  have "starts_with (mid @ post) mid" by (simp add: starts_with_iff)
  then show ?case by (cases "mid @ post") auto
qed simp

text \<open>
  The fatal markers are matched as bare substrings, unlike the 5xx
  statuses whose neighbours are inspected: a provider message with the digits 401 anywhere, also
  inside a longer number, is fatal and halts the walk. A quota refusal that names a delay of 24017
  ms is fatal while the same refusal with 24117 ms is a quota failure, and the gateway's own budget
  refusal is fatal or a quota failure depending on the digits of the amounts in it.
\<close>

lemma status_digits_misread:
  "classify policy_builtin (Provider (pre @ ''401'' @ post)) = Fatal \<and>
   classify policy_builtin (Provider ''status 429: rate limit, retry in 24017 ms'') = Fatal \<and>
   classify policy_builtin (Provider ''status 429: rate limit, retry in 24117 ms'') = Quota_failure \<and>
   (let refusal = (\<lambda>spent. budget_error (with_budget gateway_new (budget_new (1 / 4)))
          ((state_new None None)\<lparr>gs_summary := summary_default\<lparr>sm_total_cost_usd := spent\<rparr>\<rparr>))
    in map_option (classify policy_builtin) (refusal (3290 / 8192)) = Some Fatal \<and>
       map_option (classify policy_builtin) (refusal (1 / 2)) = Some Quota_failure)"
proof -
  have "to_ascii_lowercase (pre @ ''401'' @ post) = to_ascii_lowercase pre @ ''401'' @ to_ascii_lowercase post"
    by (simp add: to_ascii_lowercase_def lower_def)
  moreover have "contains_str (to_ascii_lowercase pre @ ''401'' @ to_ascii_lowercase post) ''401''"
    by (rule contains_middle)
  moreover have "\<not> contains_str EMPTY_COMPLETION_ERROR ''401''" by code_simp
  ultimately have "classify policy_builtin (Provider (pre @ ''401'' @ post)) = Fatal"
    by (auto simp: policy_builtin_def FATAL_MARKERS_def Let_def)
  moreover have "classify policy_builtin (Provider ''status 429: rate limit, retry in 24017 ms'') = Fatal"
    "classify policy_builtin (Provider ''status 429: rate limit, retry in 24117 ms'') = Quota_failure"
    by code_simp+
  moreover have "let refusal = (\<lambda>spent. budget_error (with_budget gateway_new (budget_new (1 / 4)))
          ((state_new None None)\<lparr>gs_summary := summary_default\<lparr>sm_total_cost_usd := spent\<rparr>\<rparr>))
    in map_option (classify policy_builtin) (refusal (3290 / 8192)) = Some Fatal \<and>
       map_option (classify policy_builtin) (refusal (1 / 2)) = Some Quota_failure"
    by code_simp
  ultimately show ?thesis by blast
qed

section \<open>Child processes\<close>

text \<open>
  Draining a pipe: every chunk is consumed, at most \<open>MAX_CLI_PIPE_BYTES\<close> bytes are kept and a
  marker tells when some were dropped. An I/O error ends the loop.
\<close>

definition MAX_CLI_PIPE_BYTES :: nat where "MAX_CLI_PIPE_BYTES = 8 * 1024 * 1024"

definition CLI_TRUNCATION_MARKER :: string where
  "CLI_TRUNCATION_MARKER = NL # ''...[rtrt CLI output truncated at 8388608 bytes]''"

fun read_pipe_loop :: "nat \<Rightarrow> string \<Rightarrow> bool \<Rightarrow> (error + string) list \<Rightarrow> error + string \<times> bool" where
  "read_pipe_loop limit retained truncated [] = Inr (retained, truncated)"
| "read_pipe_loop limit retained truncated (Inl e # chunks) = Inl e"
| "read_pipe_loop limit retained truncated (Inr chunk # chunks) =
     (if chunk = [] then Inr (retained, truncated)
      else let keep = min (limit - length retained) (length chunk)
           in read_pipe_loop limit (retained @ take keep chunk) (truncated \<or> keep < length chunk) chunks)"

definition read_pipe :: "(error + string) list \<Rightarrow> error + string" where
  "read_pipe chunks =
     (case read_pipe_loop MAX_CLI_PIPE_BYTES [] False chunks of
        Inl e \<Rightarrow> Inl e
      | Inr (retained, truncated) \<Rightarrow> Inr (if truncated then retained @ CLI_TRUNCATION_MARKER else retained))"

text \<open>However the bytes arrive in chunks, what is kept depends on the whole output only.\<close>

lemma read_pipe_loop_total:
  assumes "list_all (\<lambda>c. c \<noteq> []) chunks" and "length retained \<le> limit"
  shows "read_pipe_loop limit retained truncated (map Inr chunks) =
    Inr (take limit (retained @ concat chunks), truncated \<or> limit < length retained + length (concat chunks))"
  using assms
proof (induction chunks arbitrary: retained truncated)
  case (Cons c cs)
  let ?keep = "min (limit - length retained) (length c)"
  have "read_pipe_loop limit (retained @ take ?keep c) (truncated \<or> ?keep < length c) (map Inr cs) =
      Inr (take limit ((retained @ take ?keep c) @ concat cs),
        (truncated \<or> ?keep < length c) \<or> limit < length (retained @ take ?keep c) + length (concat cs))"
    using Cons.prems by (intro Cons.IH) simp_all
  moreover have "take limit ((retained @ take ?keep c) @ concat cs) = take limit (retained @ c @ concat cs)"
    by (cases "length c \<le> limit - length retained") (simp_all add: min_def)
  moreover have "(?keep < length c) \<or> limit < length (retained @ take ?keep c) + length (concat cs) \<longleftrightarrow>
      limit < length retained + (length c + length (concat cs))"
    using Cons.prems(2) by (auto simp: min_def)
  ultimately show ?case using Cons.prems by (simp add: Let_def)
qed simp

lemma read_pipe_bounded:
  assumes "list_all (\<lambda>c. c \<noteq> []) chunks"
  shows "read_pipe (map Inr chunks) =
    (let all = concat chunks in
     if length all \<le> MAX_CLI_PIPE_BYTES then Inr all
     else Inr (take MAX_CLI_PIPE_BYTES all @ CLI_TRUNCATION_MARKER))"
  using read_pipe_loop_total [OF assms, of "[]" MAX_CLI_PIPE_BYTES False]
  by (simp add: read_pipe_def Let_def)

record invocation_context =
  ic_invocation_id :: string
  ic_parent_project :: "string option"
  ic_parent_session_id :: "string option"
  ic_parent_call_id :: "string option"
  ic_caller_agent :: "string option"
  ic_parent_cwd :: "string option"
  ic_parent_worktree :: "string option"

text \<open>The environment variables a child is started with, in the order they are set.\<close>

definition provenance_env ::
  "invocation_context option \<Rightarrow> detected_tool \<Rightarrow> string option \<Rightarrow> (string \<times> string) list" where
  "provenance_env provenance tool model =
     (case provenance of
        None \<Rightarrow> []
      | Some p \<Rightarrow>
          (let var = (\<lambda>name value. case value of None \<Rightarrow> [] | Some v \<Rightarrow> [(name, v)])
           in [(''RTRT_INVOCATION_ID'', ic_invocation_id p)] @
              var ''RTRT_PARENT_PROJECT'' (ic_parent_project p) @
              var ''RTRT_PARENT_SESSION_ID'' (ic_parent_session_id p) @
              var ''RTRT_PARENT_CALL_ID'' (ic_parent_call_id p) @
              var ''RTRT_PARENT_AGENT'' (ic_caller_agent p) @
              var ''RTRT_PARENT_CWD'' (ic_parent_cwd p) @
              var ''RTRT_PARENT_WORKTREE'' (ic_parent_worktree p) @
              [(''RTRT_CHILD_TARGET'', dt_name tool)] @
              var ''RTRT_CHILD_MODEL'' model))"

end
