(* ===== verification/Proxy.thy ===== *)
theory Proxy
  imports Rust_Str "HOL-Library.Sublist" "HOL-Library.Word"
begin

text \<open>
  \<^verbatim>\<open>crates/rtrt-proxy\<close> without \<^verbatim>\<open>git.rs\<close>: the filters that shrink a command's output
  before a model reads it (\<^verbatim>\<open>lib.rs\<close>, \<^verbatim>\<open>generic.rs\<close>, \<^verbatim>\<open>cargo.rs\<close>, \<^verbatim>\<open>node.rs\<close>,
  \<^verbatim>\<open>containers.rs\<close>, \<^verbatim>\<open>kubernetes.rs\<close>). The \<^verbatim>\<open>regex\<close> crate is an argument: an
  engine that is asked with the pattern texts of the sources. Loops that push a line and a line
  feed are functions to the list of pushed lines.
\<close>

section \<open>Regular expressions\<close>

record regex_engine =
  rx_is_match :: "string \<Rightarrow> string \<Rightarrow> bool"
  rx_group1 :: "string \<Rightarrow> string \<Rightarrow> string option"
  rx_remove_all :: "string \<Rightarrow> string \<Rightarrow> string"

definition ERROR_PATTERN :: string where
  "ERROR_PATTERN = pat (''(?i)`b(error(`[E`d+`])?:|warning:|panic|fatal|failed|fail`b|traceback|stacktrace|'' @
     ''stack overflow|unhandled|undefined reference|cannot find|not found:|expected .* found|'' @
     ''test result: FAILED|---- .* FAILED)'')"

definition ANSI_ESC :: string where
  "ANSI_ESC = pat ''`x1b`[[0-9;?]*[ -/]*[@-~]''"

definition is_error_or_warning :: "regex_engine \<Rightarrow> string \<Rightarrow> bool" where
  "is_error_or_warning rx line = rx_is_match rx ERROR_PATTERN line"

section \<open>Shared shapes\<close>

fun collapse_blank_lines :: "bool \<Rightarrow> string list \<Rightarrow> string list" where
  "collapse_blank_lines last_blank [] = []"
| "collapse_blank_lines last_blank (line # ls) =
     (let is_blank = (trim line = []) in
      if is_blank \<and> last_blank then collapse_blank_lines last_blank ls
      else line # collapse_blank_lines is_blank ls)"

definition collapse_blanks :: "string \<Rightarrow> string" where
  "collapse_blanks input = unlines (collapse_blank_lines False (lines input))"

text \<open>The loop every noise filter starts with: skip the noise, push the other lines.\<close>

definition keep_lines :: "(string \<Rightarrow> bool) \<Rightarrow> string \<Rightarrow> string" where
  "keep_lines noise input = unlines (filter (\<lambda>line. \<not> noise line) (lines input))"

text \<open>The end most of them share: a non-blank input whose every line was noise becomes \<open>ok\<close>.\<close>

definition ok_if_blank :: "string \<Rightarrow> string \<Rightarrow> string" where
  "ok_if_blank input collapsed = (if trim collapsed = [] \<and> trim input \<noteq> [] then ''ok'' @ [NL] else collapsed)"

definition TIMES_SIGN :: string where "TIMES_SIGN = [CHR 0xC3, CHR 0x97]"
definition CHECK_MARK :: string where "CHECK_MARK = [CHR 0xE2, CHR 0x9C, CHR 0x93]"
definition ELLIPSIS :: string where "ELLIPSIS = [CHR 0xE2, CHR 0x80, CHR 0xA6]"

section \<open>Whole-output passes\<close>

text \<open>
  Mark the lines from \<open>i - context_lines\<close> to \<open>i + context_lines\<close>. The bound is computed on
  64 bits: with overflow checks (a debug build) an overflow panics, without it wraps.
\<close>

definition mark_context :: "bool \<Rightarrow> 64 word \<Rightarrow> nat \<Rightarrow> bool list \<Rightarrow> bool list option" where
  "mark_context checked context_lines i keep =
     (if checked \<and> 2 ^ 64 \<le> i + unat context_lines + 1 then None
      else let lo = i - unat context_lines; hi = min (unat (of_nat i + context_lines + 1)) (length keep)
           in Some (map (\<lambda>j. if lo \<le> j \<and> j < hi then True else keep ! j) [0..<length keep]))"

definition keep_marks :: "regex_engine \<Rightarrow> bool \<Rightarrow> string list \<Rightarrow> 64 word \<Rightarrow> bool list option" where
  "keep_marks rx checked ls context_lines =
     fold (\<lambda>i marks. if rx_is_match rx ERROR_PATTERN (ls ! i) then Option.bind marks (mark_context checked context_lines i) else marks)
       [0..<length ls] (Some (replicate (length ls) False))"

fun emit_kept :: "bool \<Rightarrow> nat \<Rightarrow> (string \<times> bool) list \<Rightarrow> string list" where
  "emit_kept prev_kept i [] = []"
| "emit_kept prev_kept i ((line, kept) # rest) =
     (if kept then (if \<not> prev_kept \<and> i > 0 then [''...''] else []) @ line # emit_kept True (Suc i) rest
      else emit_kept False (Suc i) rest)"

definition errors_only :: "regex_engine \<Rightarrow> bool \<Rightarrow> string \<Rightarrow> 64 word \<Rightarrow> string option" where
  "errors_only rx checked input context_lines =
     (let ls = lines input
      in map_option (\<lambda>marks. unlines (emit_kept False 0 (zip ls marks))) (keep_marks rx checked ls context_lines))"

definition push_repeated_line :: "string \<Rightarrow> string \<Rightarrow> nat \<Rightarrow> string" where
  "push_repeated_line out line run =
     out @ line @ (if run > 1 then '' ('' @ TIMES_SIGN @ nat_str run @ '')'' else []) @ [NL]"

fun repeat_loop :: "string \<Rightarrow> string option \<Rightarrow> nat \<Rightarrow> string list \<Rightarrow> string" where
  "repeat_loop out prev run [] = (case prev of Some p \<Rightarrow> push_repeated_line out p run | None \<Rightarrow> out)"
| "repeat_loop out prev run (line # ls) =
     (case prev of
        Some p \<Rightarrow> if p = line then repeat_loop out prev (Suc run) ls
                  else repeat_loop (push_repeated_line out p run) (Some line) 1 ls
      | None \<Rightarrow> repeat_loop out (Some line) 1 ls)"

definition collapse_repeated_adjacent :: "string \<Rightarrow> string" where
  "collapse_repeated_adjacent input = repeat_loop [] None 0 (lines input)"

definition ultra_compact :: "regex_engine \<Rightarrow> string \<Rightarrow> string" where
  "ultra_compact rx input = repeat_loop [] None 0 (lines (rx_remove_all rx ANSI_ESC input))"

section \<open>Generic filters\<close>

definition CURL_PROGRESS :: string where
  "CURL_PROGRESS = pat ''^`s*(% Total|[0-9]{1,3}`s+[0-9A-Za-z.-]+`s+[0-9A-Za-z.-]+|-=O=-)''"

definition PYTEST_NOISE :: string where
  "PYTEST_NOISE = pat ''^=+ (test session starts|warnings summary|slowest durations) =+$''"

definition passthrough :: "string \<Rightarrow> string" where "passthrough input = input"

definition ls_passthrough :: "string \<Rightarrow> string" where "ls_passthrough input = collapse_blanks input"

definition find_filter :: "string \<Rightarrow> string" where "find_filter input = collapse_blanks input"

record ls_entry =
  le_is_dir :: bool
  le_rendered :: string

definition parse_ls_long_line :: "string \<Rightarrow> ls_entry option" where
  "parse_ls_long_line line =
     (let parts = split_whitespace line in
      if length parts < 9 then None
      else let perms = parts ! 0 in
      if length perms < 10 then None
      else let size' = parts ! 4; name = join '' '' (drop 8 parts);
               prefix = (if hd perms = CHR ''d'' then ''dir '' else if hd perms = CHR ''l'' then ''link '' else [])
           in Some \<lparr>le_is_dir = starts_with perms ''d'', le_rendered = prefix @ size' @ '' '' @ name\<rparr>)"

text \<open>The loop of \<^verbatim>\<open>ls_long\<close>: directories, other lines, and whether any line parsed.\<close>

fun ls_long_loop :: "string list \<Rightarrow> string list \<times> string list \<times> bool" where
  "ls_long_loop [] = ([], [], False)"
| "ls_long_loop (line # ls) =
     (case ls_long_loop ls of (dirs, files, parsed) \<Rightarrow>
      if trim line = [] \<or> starts_with line ''total '' then (dirs, files, parsed)
      else case parse_ls_long_line line of
        Some e \<Rightarrow> if le_is_dir e then (le_rendered e # dirs, files, True) else (dirs, le_rendered e # files, True)
      | None \<Rightarrow> (dirs, line # files, parsed))"

definition ls_long :: "string \<Rightarrow> string" where
  "ls_long input =
     (case ls_long_loop (lines input) of (dirs, files, parsed_any) \<Rightarrow>
      if \<not> parsed_any then input else unlines (dirs @ files))"

definition http_client_filter :: "regex_engine \<Rightarrow> string \<Rightarrow> string" where
  "http_client_filter rx input =
     (let out = keep_lines (\<lambda>line. rx_is_match rx CURL_PROGRESS line \<and> \<not> is_error_or_warning rx line) input
      in if trim out = [] then input else collapse_blanks out)"

definition gh_filter :: "string \<Rightarrow> string" where
  "gh_filter input =
     (let passing = (\<lambda>line. starts_with (trim line) CHECK_MARK);
          passed = length (filter passing (lines input));
          out = keep_lines passing input
      in collapse_blanks (if passed > 0 then out @ CHECK_MARK @ '' '' @ nat_str passed @ '' passed'' @ [NL] else out))"

definition pytest_filter :: "regex_engine \<Rightarrow> string \<Rightarrow> string" where
  "pytest_filter rx input =
     collapse_blanks (keep_lines (\<lambda>line. let trimmed = trim line in
       (rx_is_match rx PYTEST_NOISE trimmed \<or> starts_with trimmed ''collecting '' \<or>
        starts_with trimmed ''collected '') \<and> \<not> is_error_or_warning rx trimmed) input)"

definition go_test_filter :: "regex_engine \<Rightarrow> string \<Rightarrow> string" where
  "go_test_filter rx input =
     ok_if_blank input (collapse_blanks (keep_lines (\<lambda>line. let trimmed = trim line in
       (trimmed = ''PASS'' \<or> starts_with trimmed (''ok  '' @ [CHR 0x09]) \<or> starts_with trimmed (''?   '' @ [CHR 0x09])) \<and>
       \<not> is_error_or_warning rx trimmed) input))"

definition pip_filter :: "regex_engine \<Rightarrow> string \<Rightarrow> string" where
  "pip_filter rx input =
     ok_if_blank input (collapse_blanks (keep_lines (\<lambda>line. let trimmed = trim line in
       (starts_with trimmed ''Collecting '' \<or> starts_with trimmed ''Downloading '' \<or>
        starts_with trimmed ''Installing collected packages'' \<or> starts_with trimmed ''Successfully installed'' \<or>
        starts_with trimmed ''Requirement already satisfied'') \<and> \<not> is_error_or_warning rx trimmed) input))"

section \<open>Search results\<close>

definition MATCH_PREFIX :: string where "MATCH_PREFIX = pat ''^([^:`n]+):`d+:''"
definition HEADING_MATCH :: string where "HEADING_MATCH = pat ''^`d+:''"

record match_group =
  mg_file :: string
  mg_heading :: "string option"
  mg_matches :: "string list"

definition derived_per_file_cap :: "nat \<Rightarrow> nat" where
  "derived_per_file_cap total_matches = max 3 (isqrt total_matches)"

definition push_match :: "string \<Rightarrow> string \<Rightarrow> match_group list \<Rightarrow> match_group list" where
  "push_match f line groups =
     (if groups \<noteq> [] \<and> mg_file (last groups) = f \<and> mg_heading (last groups) = None
      then butlast groups @ [(last groups)\<lparr>mg_matches := mg_matches (last groups) @ [line]\<rparr>]
      else groups @ [\<lparr>mg_file = f, mg_heading = None, mg_matches = [line]\<rparr>])"

fun no_heading_loop :: "regex_engine \<Rightarrow> match_group list \<Rightarrow> string list \<Rightarrow> match_group list option" where
  "no_heading_loop rx groups [] = Some groups"
| "no_heading_loop rx groups (line # ls) =
     (if trim line = [] then no_heading_loop rx groups ls
      else if starts_with line ''Binary file '' \<and> ends_with line '' matches''
      then no_heading_loop rx (groups @ [\<lparr>mg_file = line, mg_heading = None, mg_matches = [line]\<rparr>]) ls
      else case rx_group1 rx MATCH_PREFIX line of
        None \<Rightarrow> None
      | Some f \<Rightarrow> no_heading_loop rx (push_match f line groups) ls)"

definition parse_no_heading_groups :: "regex_engine \<Rightarrow> string \<Rightarrow> match_group list option" where
  "parse_no_heading_groups rx input =
     (case no_heading_loop rx [] (lines input) of
        None \<Rightarrow> None
      | Some groups \<Rightarrow> if groups = [] then None else Some groups)"

fun heading_loop :: "regex_engine \<Rightarrow> bool \<Rightarrow> match_group list \<Rightarrow> string list \<Rightarrow> match_group list option" where
  "heading_loop rx expecting groups [] = Some groups"
| "heading_loop rx expecting groups (line # ls) =
     (if trim line = [] then heading_loop rx True groups ls
      else if rx_is_match rx HEADING_MATCH line
      then (if groups = [] then None
            else heading_loop rx expecting
              (butlast groups @ [(last groups)\<lparr>mg_matches := mg_matches (last groups) @ [line]\<rparr>]) ls)
      else if \<not> expecting then None
      else heading_loop rx False (groups @ [\<lparr>mg_file = line, mg_heading = Some line, mg_matches = []\<rparr>]) ls)"

definition parse_heading_groups :: "regex_engine \<Rightarrow> string \<Rightarrow> match_group list option" where
  "parse_heading_groups rx input =
     (case heading_loop rx True [] (lines input) of
        None \<Rightarrow> None
      | Some groups \<Rightarrow> if groups \<noteq> [] \<and> list_all (\<lambda>g. mg_matches g \<noteq> []) groups then Some groups else None)"

definition render_group :: "nat \<Rightarrow> match_group \<Rightarrow> string list" where
  "render_group cap g =
     (let shown = min (length (mg_matches g)) cap; hidden = length (mg_matches g) - shown
      in (case mg_heading g of Some h \<Rightarrow> [h] | None \<Rightarrow> []) @ take shown (mg_matches g) @
         (if shown < length (mg_matches g) then [ELLIPSIS @ '' +'' @ nat_str hidden @ '' more in '' @ mg_file g] else []) @
         (if mg_heading g \<noteq> None then [[]] else []))"

definition collapse_match_groups :: "regex_engine \<Rightarrow> string \<Rightarrow> string option" where
  "collapse_match_groups rx input =
     (if ''--'' \<in> set (lines input) then None
      else case (case parse_no_heading_groups rx input of Some g \<Rightarrow> Some g | None \<Rightarrow> parse_heading_groups rx input) of
        None \<Rightarrow> None
      | Some groups \<Rightarrow>
          (let cap = derived_per_file_cap (sum_list (map (\<lambda>g. length (mg_matches g)) groups))
           in if list_all (\<lambda>g. length (mg_matches g) \<le> cap) groups then Some input
              else Some (unlines (concat (map (render_group cap) groups)))))"

definition derived_huge_output_threshold :: "string \<Rightarrow> nat" where
  "derived_huge_output_threshold input =
     max (length input) 1 div max (foldr max (map length (lines input)) 0) 1"

definition grep_filter :: "regex_engine \<Rightarrow> string \<Rightarrow> string" where
  "grep_filter rx input =
     (case collapse_match_groups rx input of
        Some out \<Rightarrow> out
      | None \<Rightarrow> if length (lines input) > derived_huge_output_threshold input
                then collapse_repeated_adjacent input else input)"

section \<open>Cargo\<close>

definition CARGO_NOISE :: string where
  "CARGO_NOISE = pat (''(?m)^`s*(Compiling|Checking|Finished|Downloading|Downloaded|Fresh|Blocking|'' @
     ''Waiting for file lock|Updating|Adding) .*$'')"

definition CARGO_PROGRESS :: string where
  "CARGO_PROGRESS = pat ''(?m)^`s*(Running|Doc-tests|Building|Packaging|Verifying) .*$''"

definition TEST_OK_LINE :: string where "TEST_OK_LINE = pat ''^test .+ `.`.`. ok(?: <[^>]+>)?$''"
definition RUNNING_N_TESTS :: string where "RUNNING_N_TESTS = pat ''^running `d+ tests?$''"
definition FAILURE_DUMP_HEADER :: string where "FAILURE_DUMP_HEADER = pat ''^---- .+ (stdout|stderr) ----$''"

definition cargo_noise :: "regex_engine \<Rightarrow> string \<Rightarrow> string" where
  "cargo_noise rx input =
     ok_if_blank input (collapse_blanks (keep_lines (\<lambda>line.
       (rx_is_match rx CARGO_NOISE line \<or> rx_is_match rx CARGO_PROGRESS line) \<and>
       \<not> is_error_or_warning rx line) input))"

definition flush_ok_run :: "nat \<Rightarrow> string list" where
  "flush_ok_run run = (if run > 0 then [CHECK_MARK @ '' '' @ nat_str run @ '' passed''] else [])"

definition cargo_test_noise :: "regex_engine \<Rightarrow> string \<Rightarrow> bool" where
  "cargo_test_noise rx line \<longleftrightarrow>
     (rx_is_match rx CARGO_NOISE line \<or> rx_is_match rx CARGO_PROGRESS line \<or>
      rx_is_match rx RUNNING_N_TESTS (trim line)) \<and> \<not> is_error_or_warning rx line"

definition ends_dump :: "string \<Rightarrow> bool" where
  "ends_dump line \<longleftrightarrow> line = ''failures:'' \<or> starts_with line ''test result:''"

fun cargo_test_loop :: "regex_engine \<Rightarrow> nat \<Rightarrow> bool \<Rightarrow> bool \<Rightarrow> string list \<Rightarrow> string list" where
  "cargo_test_loop rx ok_run in_failure_dump last_blank [] = flush_ok_run ok_run"
| "cargo_test_loop rx ok_run in_failure_dump last_blank (line # ls) =
     (if in_failure_dump \<and> \<not> ends_dump line then line # cargo_test_loop rx ok_run True False ls
      else if rx_is_match rx FAILURE_DUMP_HEADER line
      then flush_ok_run ok_run @ line # cargo_test_loop rx 0 True False ls
      else if rx_is_match rx TEST_OK_LINE line then cargo_test_loop rx (Suc ok_run) False last_blank ls
      else if cargo_test_noise rx line then cargo_test_loop rx ok_run False last_blank ls
      else let is_blank = (trim line = []) in
      if is_blank \<and> last_blank then cargo_test_loop rx ok_run False last_blank ls
      else flush_ok_run ok_run @ line # cargo_test_loop rx 0 False is_blank ls)"

definition cargo_test :: "regex_engine \<Rightarrow> string \<Rightarrow> string" where
  "cargo_test rx input = ok_if_blank input (unlines (cargo_test_loop rx 0 False False (lines input)))"

definition cargo_nextest :: "regex_engine \<Rightarrow> string \<Rightarrow> string" where
  "cargo_nextest rx input =
     ok_if_blank input (collapse_blanks (keep_lines (\<lambda>line. let trimmed = trim_start line in
       (starts_with trimmed ''Starting '' \<or> starts_with trimmed ''PASS '' \<or> starts_with trimmed ''SKIP '' \<or>
        starts_with trimmed ''SLOW '' \<or> starts_with trimmed ''RETRY '' \<or>
        starts_with trimmed ''Cancelling due to test failure'') \<and> \<not> is_error_or_warning rx line) input))"

section \<open>Node, containers, Kubernetes\<close>

definition NODE_PROGRESS :: string where
  "NODE_PROGRESS = pat (''^`s*(added|removed|changed|audited|found 0 vulnerabilities|up to date|Progress:|'' @
     ''Packages:|Done in|Lockfile is up to date)'')"

definition node_filter :: "regex_engine \<Rightarrow> string \<Rightarrow> string" where
  "node_filter rx input =
     ok_if_blank input (collapse_blanks (keep_lines (\<lambda>line. let trimmed = trim line in
       (rx_is_match rx NODE_PROGRESS trimmed \<or> starts_with trimmed ''npm notice'' \<or>
        starts_with trimmed ''pnpm: '' \<or> contains_str trimmed ''WARN deprecated'') \<and>
       \<not> is_error_or_warning rx trimmed) input))"

definition node_diagnostics :: "regex_engine \<Rightarrow> string \<Rightarrow> string" where
  "node_diagnostics rx input =
     ok_if_blank input (collapse_blanks (keep_lines (\<lambda>line. let trimmed = trim line in
       (trimmed = ''Done'' \<or> trimmed = ''All matched files use Prettier code style!'' \<or>
        starts_with trimmed ''Checked '' \<or> starts_with trimmed ''Found 0 errors'') \<and>
       \<not> is_error_or_warning rx trimmed) input))"

definition DOCKER_PROGRESS :: string where
  "DOCKER_PROGRESS = pat (''(?i)^`s*([a-f0-9]{12}: )?(Pulling fs layer|Waiting|Downloading|Verifying Checksum|'' @
     ''Download complete|Extracting|Pull complete|Already exists|Pushed|Preparing|Layer already exists)$'')"

definition docker_filter :: "regex_engine \<Rightarrow> string \<Rightarrow> string" where
  "docker_filter rx input =
     ok_if_blank input (collapse_blanks (keep_lines (\<lambda>line. let trimmed = trim line in
       (rx_is_match rx DOCKER_PROGRESS trimmed \<or>
        starts_with trimmed ''#'' \<and> (contains_str trimmed ''CACHED'' \<or>
          contains_str trimmed ''transferring context'' \<or> contains_str trimmed ''DONE'')) \<and>
       \<not> is_error_or_warning rx trimmed) input))"

definition kubectl_filter :: "regex_engine \<Rightarrow> string \<Rightarrow> string" where
  "kubectl_filter rx input =
     ok_if_blank input (collapse_blanks (keep_lines (\<lambda>line. let trimmed = trim line in
       (starts_with trimmed ''Defaulted container '' \<or> starts_with trimmed ''Waiting for deployment '' \<or>
        trimmed = ''deployment successfully rolled out'') \<and> \<not> is_error_or_warning rx trimmed) input))"

section \<open>Blank lines and kept lines\<close>

lemma set_collapse_blank_lines: "set (collapse_blank_lines b ls) \<subseteq> set ls"
  by (induction b ls rule: collapse_blank_lines.induct) (auto simp: Let_def)

lemma filter_collapse_blank_lines:
  "(\<And>l. P l \<Longrightarrow> trim l \<noteq> []) \<Longrightarrow> filter P (collapse_blank_lines b ls) = filter P ls"
  by (induction b ls rule: collapse_blank_lines.induct) (auto simp: Let_def)

text \<open>A line that reports an error, with or without the white space around it.\<close>

definition error_line :: "regex_engine \<Rightarrow> string \<Rightarrow> bool" where
  "error_line rx l \<longleftrightarrow> is_error_or_warning rx l \<and> is_error_or_warning rx (trim l) \<and> trim l \<noteq> []"

text \<open>The carriage returns at the end of a line, of which every pass over the lines removes one.\<close>

definition strip_crs :: "string \<Rightarrow> string" where
  "strip_crs l = rev (dropWhile (\<lambda>c. c = CR) (rev l))"

text \<open>The texts of the lines that report an error and are not counted as a passed check.\<close>

definition error_texts :: "regex_engine \<Rightarrow> (string \<Rightarrow> bool) \<Rightarrow> string list \<Rightarrow> string list" where
  "error_texts rx passing ls = map strip_crs (filter (\<lambda>l. error_line rx l \<and> \<not> passing (strip_crs l)) ls)"

definition passed_summary :: "nat \<Rightarrow> string" where
  "passed_summary n = CHECK_MARK @ '' '' @ nat_str n @ '' passed''"

text \<open>
  What is relied on of the \<^verbatim>\<open>regex\<close> crate: the error pattern does not match \<open>ok\<close> or the summary
  line that two filters add, a carriage return at the end of a line does not change whether it matches,
  and the pattern of a passing test, which ends in \<^verbatim>\<open>$\<close>, never matches in front of one.
\<close>

definition error_pattern_documented :: "regex_engine \<Rightarrow> bool" where
  "error_pattern_documented rx \<longleftrightarrow> \<not> is_error_or_warning rx ''ok'' \<and> (\<forall>n. \<not> is_error_or_warning rx (passed_summary n)) \<and>
     (\<forall>l. is_error_or_warning rx (l @ [CR]) = is_error_or_warning rx l) \<and> (\<forall>l. \<not> rx_is_match rx TEST_OK_LINE (l @ [CR]))"

lemma strip_cr_cases: "strip_cr l = l \<or> l = strip_cr l @ [CR]"
  by (cases l rule: rev_cases) (auto simp: strip_cr_def)

lemma strip_crs_snoc [simp]: "strip_crs (l @ [CR]) = strip_crs l"
  by (simp add: strip_crs_def)

lemma strip_crs_strip_cr [simp]: "strip_crs (strip_cr l) = strip_crs l"
  using strip_cr_cases [of l] strip_crs_snoc [of "strip_cr l"] by metis

lemma strip_crs_cases: "\<exists>n. l = strip_crs l @ replicate n CR"
proof (induction l rule: rev_induct)
  case (snoc c l)
  then obtain n where n: "l = strip_crs l @ replicate n CR" by blast
  show ?case
  proof (cases "c = CR")
    case True
    have "strip_crs (l @ [c]) @ replicate (Suc n) CR = (strip_crs l @ replicate n CR) @ [CR]"
      using True by (simp add: replicate_append_same)
    with n True show ?thesis by metis
  next
    case False
    then show ?thesis by (intro exI [of _ 0]) (simp add: strip_crs_def)
  qed
qed (simp add: strip_crs_def)

lemma trim_strip_crs [simp]: "trim (strip_crs l) = trim l"
proof -
  have "trim (w @ replicate n CR) = trim w" for w n
  proof (induction n)
    case (Suc n)
    have "trim (w @ replicate (Suc n) CR) = trim ((w @ replicate n CR) @ [CR])" by (simp add: replicate_append_same)
    also have "\<dots> = trim (w @ replicate n CR)" by (rule trim_snoc) (simp add: ascii_ws_def)
    finally show ?case using Suc by simp
  qed simp
  then show ?thesis using strip_crs_cases [of l] by metis
qed

lemma error_line_strip_cr:
  assumes "error_pattern_documented rx"
  shows "error_line rx (strip_cr l) = error_line rx l"
proof -
  have "error_line rx (w @ [CR]) = error_line rx w" for w
    using assms by (simp add: error_line_def error_pattern_documented_def trim_snoc ascii_ws_def)
  then show ?thesis using strip_cr_cases [of l] by metis
qed

lemma lines_unlines_strip: "\<forall>w \<in> set ws. NL \<notin> set w \<Longrightarrow> lines (unlines ws) = map strip_cr ws"
proof (induction ws)
  case Nil
  show ?case by (simp add: lines_def)
next
  case (Cons w ws)
  have ne: "split_char (CHR 0x0A) (unlines ws) \<noteq> []" by simp
  have "split_char (CHR 0x0A) (w @ CHR 0x0A # unlines ws) = w # split_char (CHR 0x0A) (unlines ws)"
    using Cons.prems by (simp add: split_char_append split_char_notin)
  then show ?case using Cons ne by (auto simp: lines_def Let_def split: if_splits)
qed

text \<open>What is pushed line by line is read back up to the carriage returns.\<close>

lemma error_texts_unlines:
  assumes "error_pattern_documented rx" "\<forall>w \<in> set ws. NL \<notin> set w"
  shows "error_texts rx passing (lines (unlines ws)) = error_texts rx passing ws"
  unfolding error_texts_def lines_unlines_strip [OF assms(2)]
  by (simp add: filter_map o_def error_line_strip_cr [OF assms(1)])

text \<open>
  What a noise filter must promise, and what follows for the errors of its output whatever its end
  does with an output that has become blank.
\<close>

locale noise_filter =
  fixes rx :: regex_engine and passing :: "string \<Rightarrow> bool" and noise :: "string \<Rightarrow> bool"
  assumes spares_errors: "error_pattern_documented rx \<Longrightarrow> error_line rx l \<Longrightarrow> noise l \<Longrightarrow> passing (strip_crs l)"
begin

lemma errors_kept: "error_pattern_documented rx \<Longrightarrow> error_texts rx passing (filter (\<lambda>l. \<not> noise l) ls) = error_texts rx passing ls"
  unfolding error_texts_def filter_filter
  by (intro arg_cong [of _ _ "map strip_crs"] filter_cong) (auto dest: spares_errors)

end

lemma error_texts_collapse: "error_texts rx passing (collapse_blank_lines b ls) = error_texts rx passing ls"
  unfolding error_texts_def by (subst filter_collapse_blank_lines) (auto simp: error_line_def)

lemma collapse_no_NL: "\<forall>w \<in> set ls. NL \<notin> set w \<Longrightarrow> \<forall>w \<in> set (collapse_blank_lines b ls). NL \<notin> set w"
  using set_collapse_blank_lines [of b ls] by blast

lemma errors_collapse_blanks:
  assumes "error_pattern_documented rx" "\<forall>w \<in> set ws. NL \<notin> set w"
  shows "error_texts rx passing (lines (collapse_blanks (unlines ws))) = error_texts rx passing ws"
proof -
  have "\<forall>w \<in> set (lines (unlines ws)). NL \<notin> set w" using lines_no_NL by blast
  then show ?thesis
    by (simp add: collapse_blanks_def error_texts_unlines [OF assms(1)] collapse_no_NL error_texts_collapse
        error_texts_unlines [OF assms])
qed

context noise_filter
begin

lemma errors_collapsed:
  assumes "error_pattern_documented rx"
  shows "error_texts rx passing (lines (collapse_blanks (keep_lines noise input))) = error_texts rx passing (lines input)"
proof -
  have "\<forall>w \<in> set (filter (\<lambda>l. \<not> noise l) (lines input)). NL \<notin> set w" using lines_no_NL by auto
  from errors_collapse_blanks [OF assms this] errors_kept [OF assms] show ?thesis by (simp add: keep_lines_def)
qed

end

lemma errors_ok_if_blank:
  assumes "error_pattern_documented rx"
    and "error_texts rx passing (lines out) = error_texts rx passing (lines input)"
  shows "error_texts rx passing (lines (ok_if_blank input out)) = error_texts rx passing (lines input)"
proof (cases "trim out = []")
  case True
  have "\<not> error_line rx l" if "l \<in> set (lines out)" for l using blank_lines [OF True that] by (simp add: error_line_def)
  then have none: "error_texts rx passing (lines out) = []" by (simp add: error_texts_def filter_empty_conv)
  have "lines (''ok'' @ [NL]) = [''ok'']" by code_simp
  then have "error_texts rx passing (lines (''ok'' @ [NL])) = []"
    using assms(1) by (simp add: error_texts_def error_line_def error_pattern_documented_def)
  with none assms(2) show ?thesis by (simp add: ok_if_blank_def)
next
  case False
  with assms(2) show ?thesis by (simp add: ok_if_blank_def)
qed

text \<open>The filters that drop lines as noise, each with the lines it counts as passed checks instead of showing them.\<close>

definition noise_filters :: "regex_engine \<Rightarrow> ((string \<Rightarrow> string) \<times> (string \<Rightarrow> bool)) list" where
  "noise_filters rx =
     map (\<lambda>f. (f, \<lambda>_. False)) [cargo_noise rx, cargo_nextest rx, go_test_filter rx, pip_filter rx, node_filter rx,
       node_diagnostics rx, docker_filter rx, kubectl_filter rx, pytest_filter rx, http_client_filter rx,
       ls_passthrough, find_filter, passthrough] @
     [(gh_filter, \<lambda>l. starts_with (trim l) CHECK_MARK), (cargo_test rx, rx_is_match rx TEST_OK_LINE)]"

text \<open>One interpretation per filter of the registry, on its own notion of noise.\<close>

interpretation cargo: noise_filter rx "\<lambda>_. False"
  "\<lambda>line. (rx_is_match rx CARGO_NOISE line \<or> rx_is_match rx CARGO_PROGRESS line) \<and> \<not> is_error_or_warning rx line"
  for rx by unfold_locales (simp add: error_line_def)

interpretation nextest: noise_filter rx "\<lambda>_. False"
  "\<lambda>line. let trimmed = trim_start line in
     (starts_with trimmed ''Starting '' \<or> starts_with trimmed ''PASS '' \<or> starts_with trimmed ''SKIP '' \<or>
      starts_with trimmed ''SLOW '' \<or> starts_with trimmed ''RETRY '' \<or>
      starts_with trimmed ''Cancelling due to test failure'') \<and> \<not> is_error_or_warning rx line"
  for rx by unfold_locales (simp add: error_line_def Let_def)

interpretation trimmed: noise_filter rx "\<lambda>_. False"
  "\<lambda>line. let trimmed = trim line in quiet trimmed \<and> \<not> is_error_or_warning rx trimmed"
  for rx quiet by unfold_locales (simp add: error_line_def Let_def)

interpretation http: noise_filter rx "\<lambda>_. False"
  "\<lambda>line. rx_is_match rx CURL_PROGRESS line \<and> \<not> is_error_or_warning rx line"
  for rx by unfold_locales (simp add: error_line_def)

interpretation checks: noise_filter rx "\<lambda>l. starts_with (trim l) CHECK_MARK" "\<lambda>line. starts_with (trim line) CHECK_MARK"
  for rx by unfold_locales simp

interpretation silent: noise_filter rx "\<lambda>_. False" "\<lambda>_. False"
  for rx by unfold_locales simp

lemma collapse_blanks_errors:
  assumes "error_pattern_documented rx"
  shows "error_texts rx passing (lines (collapse_blanks input)) = error_texts rx passing (lines input)"
proof -
  have "\<forall>w \<in> set (lines input). NL \<notin> set w" using lines_no_NL by blast
  then show ?thesis
    by (simp add: collapse_blanks_def error_texts_unlines [OF assms] collapse_no_NL error_texts_collapse)
qed

lemma gh_errors:
  assumes "error_pattern_documented rx"
  shows "error_texts rx (\<lambda>l. starts_with (trim l) CHECK_MARK) (lines (gh_filter input)) =
    error_texts rx (\<lambda>l. starts_with (trim l) CHECK_MARK) (lines input)"
proof -
  let ?kept = "filter (\<lambda>l. \<not> starts_with (trim l) CHECK_MARK) (lines input)"
  let ?n = "length (filter (\<lambda>l. starts_with (trim l) CHECK_MARK) (lines input))"
  let ?ws = "?kept @ (if ?n > 0 then [passed_summary ?n] else [])"
  have out: "gh_filter input = collapse_blanks (unlines ?ws)"
    by (simp add: gh_filter_def keep_lines_def Let_def passed_summary_def)
  have "NL \<notin> set (passed_summary ?n)" by (auto simp: passed_summary_def CHECK_MARK_def nat_str_notin)
  then have nl: "\<forall>w \<in> set ?ws. NL \<notin> set w" using lines_no_NL by auto
  have "error_texts rx p (xs @ ys) = error_texts rx p xs @ error_texts rx p ys" "error_texts rx p [] = []" for p xs ys
    by (simp_all add: error_texts_def)
  moreover have "error_texts rx p [passed_summary ?n] = []" for p
    using assms by (simp add: error_texts_def error_line_def error_pattern_documented_def)
  ultimately show ?thesis
    unfolding out errors_collapse_blanks [OF assms nl] using checks.errors_kept [OF assms] by simp
qed

lemma test_ok_stripped:
  assumes "error_pattern_documented rx" "rx_is_match rx TEST_OK_LINE l"
  shows "strip_crs l = l"
proof -
  obtain n where n: "l = strip_crs l @ replicate n CR" using strip_crs_cases by blast
  show ?thesis
  proof (cases n)
    case (Suc m)
    then have "l = (strip_crs l @ replicate m CR) @ [CR]" using n by (simp add: replicate_append_same)
    then have "\<not> rx_is_match rx TEST_OK_LINE l" using assms(1) unfolding error_pattern_documented_def by metis
    with assms(2) show ?thesis by blast
  qed (use n in simp)
qed

lemma cargo_test_errors:
  assumes "error_pattern_documented rx"
  shows "error_texts rx (rx_is_match rx TEST_OK_LINE) (cargo_test_loop rx n d b ls) = error_texts rx (rx_is_match rx TEST_OK_LINE) ls"
proof (induction ls arbitrary: n d b)
  let ?E = "error_texts rx (rx_is_match rx TEST_OK_LINE)"
  have app: "?E (xs @ ys) = ?E xs @ ?E ys" for xs ys by (simp add: error_texts_def)
  have "flush_ok_run n = (if n > 0 then [passed_summary n] else [])" for n by (simp add: flush_ok_run_def passed_summary_def)
  then have flush: "?E (flush_ok_run n) = []" for n
    using assms by (simp add: error_texts_def error_line_def error_pattern_documented_def)
  {
    case Nil
    show ?case using flush by (simp add: error_texts_def)
  next
    case (Cons l ls)
    have one: "?E (l # xs) = ?E [l] @ ?E xs" for xs by (simp add: error_texts_def)
    have ok: "?E [l] = []" if "rx_is_match rx TEST_OK_LINE l"
      using test_ok_stripped [OF assms that] that by (simp add: error_texts_def)
    have noise: "?E [l] = []" if "cargo_test_noise rx l"
      using that by (simp add: error_texts_def error_line_def cargo_test_noise_def)
    have blank: "?E [l] = []" if "trim l = []"
      using that by (simp add: error_texts_def error_line_def)
    show ?case
      by (simp add: one [of ls] one [of "cargo_test_loop rx n' d' b' ls" for n' d' b'] app flush Cons.IH ok noise blank Let_def)
  }
qed

lemma cargo_test_no_NL: "\<forall>w \<in> set ls. NL \<notin> set w \<Longrightarrow> \<forall>w \<in> set (cargo_test_loop rx n d b ls). NL \<notin> set w"
  by (induction ls arbitrary: n d b) (auto simp: flush_ok_run_def CHECK_MARK_def nat_str_notin Let_def)

text \<open>
  C36 (error_lines_survive): none of the fifteen filters that drop noise (the registry but for \<^verbatim>\<open>git\<close>, the long
  listings and the search results) loses an error, whatever the line ends of the input: up to carriage
  returns at their end, the lines of the output that report an error or a warning are exactly those
  of the input, in the same order. Two filters count passed checks instead of showing them, and those
  lines are left out on both sides even if they look like errors: for \<^verbatim>\<open>gh\<close> the lines that start with a
  check mark, for \<^verbatim>\<open>cargo test\<close> the lines \<open>test ... ok\<close>.
\<close>

theorem error_lines_survive:
  assumes "error_pattern_documented rx" and "(f, passing) \<in> set (noise_filters rx)"
  shows "error_texts rx passing (lines (f input)) = error_texts rx passing (lines input)"
proof -
  note doc = assms(1) and ok = errors_ok_if_blank [OF assms(1)]
  consider "f = gh_filter" "passing = (\<lambda>l. starts_with (trim l) CHECK_MARK)" | "f = cargo_test rx" "passing = rx_is_match rx TEST_OK_LINE"
    | "f = passthrough" | "f \<in> {ls_passthrough, find_filter}" | "f = http_client_filter rx" "passing = (\<lambda>_. False)"
    | "f = pytest_filter rx" "passing = (\<lambda>_. False)" | "f = cargo_noise rx" "passing = (\<lambda>_. False)"
    | "f = cargo_nextest rx" "passing = (\<lambda>_. False)"
    | "f \<in> {go_test_filter rx, pip_filter rx, node_filter rx, node_diagnostics rx, docker_filter rx, kubectl_filter rx}"
      "passing = (\<lambda>_. False)"
    using assms(2) unfolding noise_filters_def by auto
  then show ?thesis
  proof cases
    case 1
    then show ?thesis using gh_errors [OF doc] by simp
  next
    case 2
    have "\<forall>w \<in> set (lines input). NL \<notin> set w" using lines_no_NL by blast
    then show ?thesis unfolding 2 cargo_test_def
      by (intro ok) (simp add: error_texts_unlines [OF doc] cargo_test_no_NL cargo_test_errors [OF doc])
  next
    case 3
    then show ?thesis by (simp add: passthrough_def)
  next
    case 4
    then show ?thesis using collapse_blanks_errors [OF doc] by (auto simp: ls_passthrough_def find_filter_def)
  next
    case 5
    then show ?thesis using http.errors_collapsed [OF doc] by (simp add: http_client_filter_def Let_def)
  next
    case 6
    then show ?thesis using trimmed.errors_collapsed [OF doc] by (simp add: pytest_filter_def)
  next
    case 7
    then show ?thesis using ok [OF cargo.errors_collapsed [OF doc]] by (simp add: cargo_noise_def)
  next
    case 8
    then show ?thesis using ok [OF nextest.errors_collapsed [OF doc]] by (simp add: cargo_nextest_def)
  next
    case 9
    then show ?thesis using ok [OF trimmed.errors_collapsed [OF doc]]
      by (auto simp: go_test_filter_def pip_filter_def node_filter_def node_diagnostics_def docker_filter_def
          kubectl_filter_def)
  qed
qed

definition sample_regex :: regex_engine where
  "sample_regex = \<lparr>rx_is_match = (\<lambda>p s. if p = ERROR_PATTERN then contains_str s ''error''
       else if p = CARGO_NOISE then contains_str s ''Compiling '' else if p = FAILURE_DUMP_HEADER then starts_with s ''---- ''
       else if p = TEST_OK_LINE then ends_with s ''... ok'' else False),
     rx_group1 = (\<lambda>p s. map_option fst (split_once (CHR '':'') s)), rx_remove_all = (\<lambda>p s. s)\<rparr>"

text \<open>An engine whose only error text is one line.\<close>

definition line_regex :: regex_engine where
  "line_regex = sample_regex\<lparr>rx_is_match := (\<lambda>p s. if p = ERROR_PATTERN then trim s = ''error: b'' else rx_is_match sample_regex p s)\<rparr>"

lemma line_regex_documented: "error_pattern_documented line_regex"
proof -
  have ends: "\<not> ends_with (l @ [CR]) ''... ok''" for l by (simp add: ends_with_def)
  have pats: "TEST_OK_LINE \<noteq> ERROR_PATTERN" "TEST_OK_LINE \<noteq> CARGO_NOISE" "TEST_OK_LINE \<noteq> FAILURE_DUMP_HEADER" by code_simp+
  have "trim ''ok'' \<noteq> ''error: b''" by code_simp
  moreover have "trim (passed_summary n) \<noteq> ''error: b''" for n
  proof -
    have "CHR '':'' \<notin> set (trim (passed_summary n))"
      using set_trim_subset [of "passed_summary n"] by (auto simp: passed_summary_def CHECK_MARK_def nat_str_notin)
    then show ?thesis by auto
  qed
  ultimately show ?thesis
    by (simp add: error_pattern_documented_def is_error_or_warning_def line_regex_def sample_regex_def trim_snoc ascii_ws_def
        pats ends)
qed

theorem error_lines_survive_witness:
  "error_pattern_documented line_regex \<and>
   lines (cargo_noise line_regex (''  Compiling a'' @ [CR, NL] @ ''error: b'' @ [CR, CR, NL, NL, NL] @ ''  Compiling c'' @ [NL])) =
     [''error: b'', []] \<and>
   error_texts line_regex (\<lambda>_. False)
     (lines (cargo_noise line_regex (''  Compiling a'' @ [CR, NL] @ ''error: b'' @ [CR, CR, NL, NL, NL] @ ''  Compiling c'' @ [NL]))) =
     [''error: b'']"
proof -
  let ?in = "''  Compiling a'' @ [CR, NL] @ ''error: b'' @ [CR, CR, NL, NL, NL] @ ''  Compiling c'' @ [NL]"
  have "error_texts line_regex (\<lambda>_. False) (lines ?in) = [''error: b'']"
    "lines (cargo_noise line_regex ?in) = [''error: b'', []]" by code_simp+
  moreover have "(cargo_noise line_regex, \<lambda>_. False) \<in> set (noise_filters line_regex)" by (simp add: noise_filters_def)
  ultimately show ?thesis using error_lines_survive [OF line_regex_documented, of _ _ ?in] line_regex_documented by metis
qed

section \<open>Errors with context\<close>

lemma mark_context_room:
  assumes "length keep + unat c < 2 ^ 64" "i < length keep"
  shows "\<exists>marks. mark_context checked c i keep = Some marks \<and> length marks = length keep \<and>
    (\<forall>j < length keep. marks ! j \<longleftrightarrow> keep ! j \<or> j \<le> i + unat c \<and> i \<le> j + unat c)"
proof -
  have "i + unat c + 1 < 2 ^ 64" using assms by linarith
  then have "unat (of_nat i + c + 1) = i + unat c + 1" by (simp add: unat_word_ariths unat_of_nat)
  moreover have "\<not> 2 ^ 64 \<le> i + unat c + 1" using assms by linarith
  ultimately have m: "mark_context checked c i keep = Some (map (\<lambda>j. if i - unat c \<le> j \<and> j < min (i + unat c + 1) (length keep)
      then True else keep ! j) [0..<length keep])"
    unfolding mark_context_def Let_def by (simp only: if_False simp_thms)
  show ?thesis unfolding m by auto
qed

text \<open>Is line \<open>j\<close> within \<open>c\<close> lines of a line that matches?\<close>

definition near_error :: "regex_engine \<Rightarrow> string list \<Rightarrow> nat \<Rightarrow> nat \<Rightarrow> bool" where
  "near_error rx ls c j \<longleftrightarrow> (\<exists>i<length ls. rx_is_match rx ERROR_PATTERN (ls ! i) \<and> j \<le> i + c \<and> i \<le> j + c)"

lemma near_error_code [code]:
  "near_error rx ls c j \<longleftrightarrow> list_ex (\<lambda>i. rx_is_match rx ERROR_PATTERN (ls ! i) \<and> j \<le> i + c \<and> i \<le> j + c) [0..<length ls]"
  by (auto simp: near_error_def list_ex_iff)

lemma keep_marks_fold:
  assumes "length keep + unat c < 2 ^ 64" "\<forall>i \<in> set is. i < length keep"
  shows "\<exists>marks. fold (\<lambda>i marks. if rx_is_match rx ERROR_PATTERN (ls ! i) then Option.bind marks (mark_context checked c i) else marks)
      is (Some keep) = Some marks \<and> length marks = length keep \<and>
    (\<forall>j < length keep. marks ! j \<longleftrightarrow>
      keep ! j \<or> (\<exists>i \<in> set is. rx_is_match rx ERROR_PATTERN (ls ! i) \<and> j \<le> i + unat c \<and> i \<le> j + unat c))"
  using assms
proof (induction "is" arbitrary: keep)
  case (Cons i "is")
  show ?case
  proof (cases "rx_is_match rx ERROR_PATTERN (ls ! i)")
    case True
    obtain marks where m: "mark_context checked c i keep = Some marks" "length marks = length keep"
      "\<forall>j < length keep. marks ! j \<longleftrightarrow> keep ! j \<or> j \<le> i + unat c \<and> i \<le> j + unat c"
      using mark_context_room [OF Cons.prems(1), of i checked] Cons.prems(2) by auto
    have "length marks + unat c < 2 ^ 64" "\<forall>k \<in> set is. k < length marks" using Cons.prems m(2) by simp_all
    from Cons.IH [OF this] obtain out where o: "fold (\<lambda>i marks. if rx_is_match rx ERROR_PATTERN (ls ! i)
        then Option.bind marks (mark_context checked c i) else marks) is (Some marks) = Some out" "length out = length marks"
      "\<forall>j < length marks. out ! j \<longleftrightarrow>
        marks ! j \<or> (\<exists>i \<in> set is. rx_is_match rx ERROR_PATTERN (ls ! i) \<and> j \<le> i + unat c \<and> i \<le> j + unat c)" by blast
    show ?thesis
      by (rule exI [of _ out]) (use True m o in auto)
  next
    case False
    with Cons.IH [of keep] Cons.prems show ?thesis by auto
  qed
qed simp

lemma keep_marks_room:
  assumes "length ls + unat c < 2 ^ 64"
  shows "\<exists>marks. keep_marks rx checked ls c = Some marks \<and> length marks = length ls \<and>
    (\<forall>j < length ls. marks ! j \<longleftrightarrow> near_error rx ls (unat c) j)"
proof -
  have "length (replicate (length ls) False) + unat c < 2 ^ 64" "\<forall>i \<in> set [0..<length ls]. i < length (replicate (length ls) False)"
    using assms by simp_all
  from keep_marks_fold [OF this, of rx ls checked] show ?thesis
    unfolding keep_marks_def near_error_def by (simp add: Bex_def conj_assoc)
qed

lemma emit_kept_indexed:
  assumes "j + length ls = length marks" and "prev = (j > 0 \<and> marks ! (j - 1))"
  shows "emit_kept prev j (zip ls (drop j marks)) =
    concat (map (\<lambda>i. if marks ! i then (if i > 0 \<and> \<not> marks ! (i - 1) then [''...''] else []) @ [ls ! (i - j)] else [])
      [j..<length marks])"
  using assms
proof (induction ls arbitrary: j prev)
  case (Cons l ls)
  have j: "j < length marks" using Cons.prems by simp
  have d: "drop j marks = marks ! j # drop (Suc j) marks" using j by (simp add: Cons_nth_drop_Suc)
  have tail: "map (\<lambda>i. if marks ! i then (if i > 0 \<and> \<not> marks ! (i - 1) then [''...''] else []) @ [(l # ls) ! (i - j)] else [])
        [Suc j..<length marks] =
      map (\<lambda>i. if marks ! i then (if i > 0 \<and> \<not> marks ! (i - 1) then [''...''] else []) @ [ls ! (i - Suc j)] else [])
        [Suc j..<length marks]"
    by (intro map_cong) (auto simp: nth_Cons' Suc_diff_Suc)
  have u: "[j..<length marks] = j # [Suc j..<length marks]" using j by (rule upt_conv_Cons)
  have ih: "emit_kept (marks ! j) (Suc j) (zip ls (drop (Suc j) marks)) =
      concat (map (\<lambda>i. if marks ! i then (if i > 0 \<and> \<not> marks ! (i - 1) then [''...''] else []) @ [ls ! (i - Suc j)] else [])
        [Suc j..<length marks])"
    by (rule Cons.IH) (use Cons.prems in simp_all)
  show ?case
  proof (cases "marks ! j")
    case True
    with ih show ?thesis unfolding d u by (auto simp: tail Cons.prems(2))
  next
    case False
    with ih show ?thesis unfolding d u by (auto simp: tail Cons.prems(2))
  qed
qed simp

text \<open>
  C37 (errors_only_exact): as long as the number of lines and the number \<open>c\<close> of context lines stay
  below \<open>2 ^ 64\<close> together, the errors-only pass returns, with overflow checks or without, and shows
  exactly the lines at most \<open>c\<close> lines away from a line that matches the error pattern, in order and
  unchanged, with one \<open>...\<close> line in front of every run of shown lines that follows a hidden one.
\<close>

theorem errors_only_exact:
  assumes "length (lines input) + unat c < 2 ^ 64"
  shows "errors_only rx checked input c = Some (let ls = lines input; shown = near_error rx ls (unat c)
      in unlines (concat (map (\<lambda>i. if shown i
           then (if i > 0 \<and> \<not> shown (i - 1) then [''...''] else []) @ [ls ! i] else []) [0..<length ls])))"
proof -
  let ?ls = "lines input"
  obtain marks where m: "keep_marks rx checked ?ls c = Some marks" "length marks = length ?ls"
    "\<forall>j < length ?ls. marks ! j \<longleftrightarrow> near_error rx ?ls (unat c) j" using keep_marks_room [OF assms] by blast
  have "map (\<lambda>i. if marks ! i then (if i > 0 \<and> \<not> marks ! (i - 1) then [''...''] else []) @ [?ls ! (i - 0)] else []) [0..<length ?ls] =
      map (\<lambda>i. if near_error rx ?ls (unat c) i then (if i > 0 \<and> \<not> near_error rx ?ls (unat c) (i - 1) then [''...''] else []) @
        [?ls ! i] else []) [0..<length ?ls]"
    by (intro map_cong) (auto simp: m(3))
  with emit_kept_indexed [of 0 ?ls marks False] m(1,2) show ?thesis
    by (simp add: errors_only_def Let_def)
qed

theorem errors_only_exact_witness:
  "length (lines (''a'' @ [NL] @ ''b'' @ [NL] @ ''error c'' @ [NL])) + unat (1 :: 64 word) < 2 ^ 64 \<and>
   errors_only sample_regex True (''a'' @ [NL] @ ''b'' @ [NL] @ ''error c'' @ [NL]) 1 =
     Some (''...'' @ [NL] @ ''b'' @ [NL] @ ''error c'' @ [NL])"
proof -
  let ?in = "''a'' @ [NL] @ ''b'' @ [NL] @ ''error c'' @ [NL]"
  have room: "length (lines ?in) + unat (1 :: 64 word) < 2 ^ 64" by code_simp
  have ls: "lines ?in = [''a'', ''b'', ''error c'']" by code_simp
  have near: "\<not> near_error sample_regex [''a'', ''b'', ''error c''] (unat (1 :: 64 word)) 0"
    "near_error sample_regex [''a'', ''b'', ''error c''] (unat (1 :: 64 word)) (Suc 0)"
    "near_error sample_regex [''a'', ''b'', ''error c''] (unat (1 :: 64 word)) 2" by code_simp+
  show ?thesis using errors_only_exact [OF room, of sample_regex True] room near
    unfolding ls by (simp add: upt_rec numeral_2_eq_2)
qed

text \<open>
  A larger context wraps: without overflow checks, as in a release build, the greatest context hides the
  very line that matches; with them the pass panics.
\<close>

lemma errors_only_wraps:
  "errors_only sample_regex False (''a'' @ [NL] @ ''error c'' @ [NL] @ ''b'' @ [NL]) (- 1) = Some (''a'' @ [NL])"
  "errors_only sample_regex True (''a'' @ [NL] @ ''error c'' @ [NL] @ ''b'' @ [NL]) (- 1) = None"
  by code_simp+

section \<open>Repeated lines\<close>

text \<open>Maximal runs of equal adjacent lines.\<close>

fun runs :: "string list \<Rightarrow> (string \<times> nat) list" where
  "runs [] = []"
| "runs (l # ls) = (case runs ls of (l', n) # rest \<Rightarrow> if l = l' then (l, Suc n) # rest else (l, 1) # (l', n) # rest
     | [] \<Rightarrow> [(l, 1)])"

lemma runs_expand: "concat (map (\<lambda>(l, n). replicate n l) (runs ls)) = ls"
  by (induction ls) (auto split: list.splits prod.splits if_splits)

lemma runs_distinct_adj: "distinct_adj (map fst (runs ls))"
  by (induction ls) (auto split: list.splits prod.splits if_splits)

lemma runs_pos: "(l, n) \<in> set (runs ls) \<Longrightarrow> 0 < n"
  by (induction ls arbitrary: l n) (auto split: list.splits prod.splits if_splits)

fun add_run :: "string \<Rightarrow> nat \<Rightarrow> (string \<times> nat) list \<Rightarrow> (string \<times> nat) list" where
  "add_run p k ((l, n) # rest) = (if p = l then (l, k + n) # rest else (p, k) # (l, n) # rest)"
| "add_run p k [] = [(p, k)]"

lemma runs_Cons: "runs (l # ls) = add_run l 1 (runs ls)"
  by (cases "runs ls") auto

lemma add_run_add: "add_run p k (add_run p m rs) = add_run p (k + m) rs"
  by (cases "(p, m, rs)" rule: add_run.cases) auto

lemma add_run_other: "p \<noteq> l \<Longrightarrow> add_run p k (add_run l m rs) = (p, k) # add_run l m rs"
  by (cases "(l, m, rs)" rule: add_run.cases) auto

lemma push_runs: "push_repeated_line out l n = out @ push_repeated_line [] l n"
  by (simp add: push_repeated_line_def)

lemma repeat_loop_runs:
  "repeat_loop out (Some p) k ls = out @ concat (map (\<lambda>(l, n). push_repeated_line [] l n) (add_run p k (runs ls)))"
proof (induction ls arbitrary: out p k)
  case Nil
  then show ?case using push_runs [of out p k] by simp
next
  case (Cons l ls)
  show ?case
  proof (cases "p = l")
    case True
    then show ?thesis using Cons [of out l "Suc k"] by (simp add: runs_Cons add_run_add del: runs.simps)
  next
    case False
    then show ?thesis using Cons [of "push_repeated_line out p k" l 1] push_runs [of out p k]
      by (simp add: runs_Cons add_run_other del: runs.simps)
  qed
qed

lemma repeat_loop_eq:
  "repeat_loop [] None 0 ls = concat (map (\<lambda>(l, n). push_repeated_line [] l n) (runs ls))"
  by (cases ls) (simp_all add: repeat_loop_runs runs_Cons del: runs.simps(2))

text \<open>
  Collapsing repeated lines writes one line per maximal run of equal
  adjacent lines, with the length of the run when it is longer than one; expanding the runs gives the
  input lines back.
\<close>

lemma repeats_collapsed:
  "\<exists>rs. collapse_repeated_adjacent input = concat (map (\<lambda>(l, n). push_repeated_line [] l n) rs) \<and>
     concat (map (\<lambda>(l, n). replicate n l) rs) = lines input \<and> distinct_adj (map fst rs) \<and> list_all (\<lambda>(l, n). 0 < n) rs"
  by (rule exI [of _ "runs (lines input)"])
    (use runs_pos [of _ _ "lines input"] in
      \<open>auto simp: list_all_iff collapse_repeated_adjacent_def repeat_loop_eq runs_expand runs_distinct_adj\<close>)

section \<open>Test failures\<close>

lemma cargo_test_loop_dump:
  "list_all (\<lambda>l. \<not> ends_dump l) body \<Longrightarrow>
     cargo_test_loop rx r True b (body @ post) = body @ cargo_test_loop rx r True (if body = [] then b else False) post"
  by (induction body arbitrary: b) auto

lemma cargo_test_loop_prefix:
  "\<exists>out r d b. cargo_test_loop rx r0 d0 b0 (pre @ rest) = out @ cargo_test_loop rx r d b rest"
proof (induction pre arbitrary: r0 d0 b0)
  case Nil
  then show ?case by (metis append_Nil)
next
  case (Cons l ls)
  let ?dump = "d0 \<and> \<not> ends_dump l" and ?hdr = "rx_is_match rx FAILURE_DUMP_HEADER l"
    and ?ok = "rx_is_match rx TEST_OK_LINE l" and ?skip = "cargo_test_noise rx l \<or> trim l = [] \<and> b0"
  have "\<exists>o1 r d b. cargo_test_loop rx r0 d0 b0 (l # (ls @ rest)) = o1 @ cargo_test_loop rx r d b (ls @ rest)"
    by (rule exI [of _ "if ?dump then [l] else if ?hdr then flush_ok_run r0 @ [l] else if ?ok \<or> ?skip then []
          else flush_ok_run r0 @ [l]"],
        rule exI [of _ "if ?dump then r0 else if ?hdr then 0 else if ?ok then Suc r0 else if ?skip then r0 else 0"],
        rule exI [of _ "if ?dump then True else if ?hdr then True else False"],
        rule exI [of _ "if ?dump \<or> ?hdr then False else if ?ok \<or> ?skip then b0 else trim l = []"])
      (simp add: Let_def)
  then obtain o1 r d b where *: "cargo_test_loop rx r0 d0 b0 (l # (ls @ rest)) = o1 @ cargo_test_loop rx r d b (ls @ rest)"
    by blast
  from Cons [of r d b] obtain o2 r' d' b' where "cargo_test_loop rx r d b (ls @ rest) = o2 @ cargo_test_loop rx r' d' b' rest"
    by blast
  with * show ?case by (metis append.assoc append_Cons)
qed

lemma flush_text: "list_all line_text (flush_ok_run n)"
  using line_text_nat_str [of n] by (simp add: flush_ok_run_def line_text_def CHECK_MARK_def)

lemma cargo_test_loop_text:
  "list_all line_text ls \<Longrightarrow> list_all line_text (cargo_test_loop rx n d b ls)"
  by (induction ls arbitrary: n d b) (simp_all add: flush_text Let_def)

text \<open>
  The captured output of a failing test passes through \<^verbatim>\<open>cargo test\<close>
  filtering verbatim: after a header line, every line up to the closing \<open>failures:\<close> or
  \<open>test result:\<close> line appears in the output unchanged and together, whatever it looks like.
\<close>

lemma failure_dump_verbatim:
  assumes "CR \<notin> set input" and "lines input = pre @ header # body @ post"
    and "rx_is_match rx FAILURE_DUMP_HEADER header" and "list_all (\<lambda>l. \<not> ends_dump l) body"
    and "trim header \<noteq> []"
  shows "\<exists>before after. lines (cargo_test rx input) = before @ header # body @ after"
proof -
  obtain out r d b where p: "cargo_test_loop rx 0 False False (lines input) = out @ cargo_test_loop rx r d b (header # body @ post)"
    unfolding assms(2) using cargo_test_loop_prefix by metis
  have "\<exists>o2 r'. cargo_test_loop rx r d b (header # body @ post) = o2 @ header # cargo_test_loop rx r' True False (body @ post)"
    using assms(3) by (auto intro: exI [of _ "[]"])
  then obtain o2 r' where "cargo_test_loop rx r d b (header # body @ post) = o2 @ header # cargo_test_loop rx r' True False (body @ post)"
    by blast
  with p cargo_test_loop_dump [OF assms(4)] obtain after where
    l: "cargo_test_loop rx 0 False False (lines input) = (out @ o2) @ header # body @ after" by auto
  have "lines (unlines (cargo_test_loop rx 0 False False (lines input))) = (out @ o2) @ header # body @ after"
    using lines_unlines [OF cargo_test_loop_text [OF lines_line_text [OF assms(1)]]] l by metis
  moreover have "trim (unlines (cargo_test_loop rx 0 False False (lines input))) \<noteq> []"
    using calculation blank_lines assms(5) by (metis in_set_conv_decomp)
  ultimately have "lines (cargo_test rx input) = (out @ o2) @ header # body @ after"
    by (simp add: cargo_test_def ok_if_blank_def)
  then show ?thesis by blast
qed

section \<open>Search results in groups\<close>

definition group_lines :: "match_group \<Rightarrow> string list" where
  "group_lines g = (case mg_heading g of Some h \<Rightarrow> [h] | None \<Rightarrow> []) @ mg_matches g"

lemma push_match_lines:
  "concat (map group_lines (push_match f l gs)) = concat (map group_lines gs) @ [l]"
  "list_all (\<lambda>g. mg_matches g \<noteq> []) gs \<Longrightarrow> list_all (\<lambda>g. mg_matches g \<noteq> []) (push_match f l gs)"
  by (cases gs rule: rev_cases; auto simp: push_match_def group_lines_def)+

lemma no_heading_loop_lines:
  "no_heading_loop rx gs ls = Some gs' \<Longrightarrow> list_all (\<lambda>g. mg_matches g \<noteq> []) gs \<Longrightarrow>
     concat (map group_lines gs') = concat (map group_lines gs) @ filter (\<lambda>l. trim l \<noteq> []) ls \<and>
     list_all (\<lambda>g. mg_matches g \<noteq> []) gs'"
proof (induction ls arbitrary: gs)
  case (Cons l ls)
  consider "trim l = []" | "trim l \<noteq> []" "starts_with l ''Binary file '' \<and> ends_with l '' matches''"
    | f where "trim l \<noteq> []" "\<not> (starts_with l ''Binary file '' \<and> ends_with l '' matches'')" "rx_group1 rx MATCH_PREFIX l = Some f"
    using Cons.prems(1) by (force split: if_splits option.splits)
  then show ?case
  proof cases
    case 1
    with Cons show ?thesis by simp
  next
    case 2
    with Cons.prems show ?thesis
      using Cons.IH [of "gs @ [\<lparr>mg_file = l, mg_heading = None, mg_matches = [l]\<rparr>]"] by (simp add: group_lines_def)
  next
    case (3 f)
    with Cons.prems show ?thesis
      using Cons.IH [of "push_match f l gs"] push_match_lines by auto
  qed
qed simp

lemma add_to_last_lines:
  "gs \<noteq> [] \<Longrightarrow> concat (map group_lines (butlast gs @ [(last gs)\<lparr>mg_matches := mg_matches (last gs) @ [l]\<rparr>])) =
     concat (map group_lines gs) @ [l]"
  by (cases gs rule: rev_cases) (auto simp: group_lines_def)

lemma heading_loop_lines:
  "heading_loop rx e gs ls = Some gs' \<Longrightarrow>
     concat (map group_lines gs') = concat (map group_lines gs) @ filter (\<lambda>l. trim l \<noteq> []) ls"
proof (induction ls arbitrary: e gs)
  case (Cons l ls)
  show ?case
  proof (cases "trim l = []")
    case True
    with Cons show ?thesis by simp
  next
    case blank: False
    show ?thesis
    proof (cases "rx_is_match rx HEADING_MATCH l")
      case True
      with blank Cons.prems have "gs \<noteq> []" by (auto split: if_splits)
      with True blank Cons.prems Cons.IH add_to_last_lines [of gs l] show ?thesis by fastforce
    next
      case False
      with blank Cons.prems have e: "e" by (auto split: if_splits)
      with False blank Cons.prems
      have "heading_loop rx False (gs @ [\<lparr>mg_file = l, mg_heading = Some l, mg_matches = []\<rparr>]) ls = Some gs'" by simp
      from Cons.IH [OF this] blank show ?thesis by (simp add: group_lines_def)
    qed
  qed
qed simp

lemma parsed_groups:
  assumes "(case parse_no_heading_groups rx input of Some g \<Rightarrow> Some g | None \<Rightarrow> parse_heading_groups rx input) = Some gs"
  shows "concat (map group_lines gs) = filter (\<lambda>l. trim l \<noteq> []) (lines input) \<and> list_all (\<lambda>g. mg_matches g \<noteq> []) gs"
proof -
  have "no_heading_loop rx [] (lines input) = Some gs \<or>
      heading_loop rx True [] (lines input) = Some gs \<and> list_all (\<lambda>g. mg_matches g \<noteq> []) gs"
    using assms by (auto simp: parse_no_heading_groups_def parse_heading_groups_def split: option.splits if_splits)
  then show ?thesis using no_heading_loop_lines [of rx "[]"] heading_loop_lines [of rx True "[]"] by fastforce
qed

text \<open>
  A search result that is collapsed lists every file that had a match:
  the non-blank input lines are exactly the headings and matches of the groups, each group has a
  match, and each keeps its heading and its first \<open>cap\<close> matches unchanged, followed by a line
  with the number of hidden ones when there are any; the cap is the integer square root of
  the number of matches, at least 3.
\<close>

lemma search_matches_accounted:
  assumes "collapse_match_groups rx input = Some out" and "out \<noteq> input"
  shows "\<exists>gs cap. concat (map group_lines gs) = filter (\<lambda>l. trim l \<noteq> []) (lines input) \<and>
    list_all (\<lambda>g. mg_matches g \<noteq> []) gs \<and>
    (let n = sum_list (map (\<lambda>g. length (mg_matches g)) gs)
     in 3 \<le> cap \<and> (3 < cap \<longrightarrow> cap * cap \<le> n) \<and> n < (cap + 1) * (cap + 1)) \<and>
    out = unlines (concat (map (\<lambda>g. group_lines (g\<lparr>mg_matches := take cap (mg_matches g)\<rparr>) @
      (if cap < length (mg_matches g)
       then [ELLIPSIS @ '' +'' @ nat_str (length (mg_matches g) - cap) @ '' more in '' @ mg_file g] else []) @
      (if mg_heading g \<noteq> None then [[]] else [])) gs))"
proof -
  from assms obtain gs where
    g: "(case parse_no_heading_groups rx input of Some g \<Rightarrow> Some g | None \<Rightarrow> parse_heading_groups rx input) = Some gs"
    and out: "out = unlines (concat (map (render_group (derived_per_file_cap (sum_list (map (\<lambda>g. length (mg_matches g)) gs)))) gs))"
    by (auto simp: collapse_match_groups_def Let_def split: if_splits option.splits)
  let ?n = "sum_list (map (\<lambda>g. length (mg_matches g)) gs)"
  let ?cap = "derived_per_file_cap ?n"
  have render: "render_group c = (\<lambda>g. group_lines (g\<lparr>mg_matches := take c (mg_matches g)\<rparr>) @
      (if c < length (mg_matches g)
       then [ELLIPSIS @ '' +'' @ nat_str (length (mg_matches g) - c) @ '' more in '' @ mg_file g] else []) @
      (if mg_heading g \<noteq> None then [[]] else []))" for c
    by (auto simp: fun_eq_iff render_group_def group_lines_def Let_def min_def)
  have cap: "3 \<le> ?cap \<and> (3 < ?cap \<longrightarrow> ?cap * ?cap \<le> ?n) \<and> ?n < (?cap + 1) * (?cap + 1)"
    using isqrt_bounds [of ?n] mult_le_mono [of "Suc (isqrt ?n)" "Suc ?cap" "Suc (isqrt ?n)" "Suc ?cap"]
    by (auto simp: derived_per_file_cap_def max_def split: if_splits)
  show ?thesis
    using parsed_groups [OF g] cap out [unfolded render] unfolding Let_def by blast
qed

end
