(* ===== verification/Proxy_Git.thy ===== *)
theory Proxy_Git
  imports Proxy
begin

text \<open>
  \<^verbatim>\<open>crates/rtrt-proxy/src/git.rs\<close> and the filter table of \<^verbatim>\<open>lib.rs\<close>: the summaries of
  \<^verbatim>\<open>git status\<close>, \<^verbatim>\<open>git branch\<close> and \<^verbatim>\<open>git log\<close>, the condensed unified diff, and which
  filter a command gets. A Rust panic is \<^const>\<open>None\<close> in the result of the functions that can
  panic; the loop of the diff keeps the pushed lines as a list.
\<close>

section \<open>Slices and searches\<close>

text \<open>\<^verbatim>\<open>&s[..n]\<close> panics inside a multi-byte character and past the end.\<close>

definition is_char_boundary :: "string \<Rightarrow> nat \<Rightarrow> bool" where
  "is_char_boundary s n \<longleftrightarrow> n = 0 \<or> n = length s \<or> n < length s \<and> \<not> is_continuation (s ! n)"

definition slice_to :: "string \<Rightarrow> nat \<Rightarrow> string option" where
  "slice_to s n = (if is_char_boundary s n then Some (take n s) else None)"

definition is_ascii_whitespace :: "char \<Rightarrow> bool" where
  "is_ascii_whitespace c \<longleftrightarrow> byte c \<in> {9, 10, 12, 13, 32}"

text \<open>\<^verbatim>\<open>split_once\<close> at the first occurrence of a text.\<close>

fun split_once_str :: "string \<Rightarrow> string \<Rightarrow> (string \<times> string) option" where
  "split_once_str [] p = (if p = [] then Some ([], []) else None)"
| "split_once_str (c # s) p =
     (if starts_with (c # s) p then Some ([], drop (length p) (c # s))
      else map_option (\<lambda>(a, b). (c # a, b)) (split_once_str s p))"

text \<open>\<^verbatim>\<open>split_inclusive\<close> at line feeds with the line feed removed: carriage returns stay.\<close>

definition raw_lines :: "string \<Rightarrow> string list" where
  "raw_lines s = (let ps = split_char NL s in if last ps = [] then butlast ps else ps)"

section \<open>Status\<close>

definition GIT_STATUS_NOISE :: string where
  "GIT_STATUS_NOISE = pat (''(?m)^(`s*`(use .*`)|nothing to commit.*|no changes added to commit.*|'' @
     ''Untracked files:|Changes to be committed:|Changes not staged for commit:)$'')"

definition GIT_LOG_FMT :: string where
  "GIT_LOG_FMT = pat ''(?m)^(Author: .*|Date: .*)`n''"

definition parse_tracking :: "string \<Rightarrow> string option" where
  "parse_tracking line = (case split_char (CHR 0x27) line of _ # t # _ \<Rightarrow> Some t | _ \<Rightarrow> None)"

definition SHORT_CODES :: "string list" where
  "SHORT_CODES = ['' M'', ''M '', ''MM'', '' A'', ''A '', '' D'', ''D '', ''R '', '' R'', ''C '', '' C'', ''??'', ''!!'',
     ''UU'', ''UD'', ''DU'', ''AA'', ''DD'']"

fun all_short :: "string list \<Rightarrow> bool option" where
  "all_short [] = Some True"
| "all_short (line # ls) =
     (let trimmed = trim_end line in
      if trimmed = [] \<or> starts_with trimmed ''##'' then all_short ls
      else if \<not> length trimmed > 3 then Some False
      else case slice_to trimmed 2 of
        None \<Rightarrow> None
      | Some code \<Rightarrow> if code \<in> set SHORT_CODES \<and> is_ascii_whitespace (trimmed ! 2) then all_short ls else Some False)"

definition looks_like_short_status :: "string \<Rightarrow> bool option" where
  "looks_like_short_status input = all_short (lines input)"

text \<open>The loop of \<^verbatim>\<open>short_status\<close>: the branch lines and the change lines.\<close>

definition short_status :: "string \<Rightarrow> string" where
  "short_status input =
     (let ls = lines input;
          out = concat (map (\<lambda>l. case strip_prefix l ''## '' of Some b \<Rightarrow> [''* '' @ b] | None \<Rightarrow> []) ls);
          changes = filter (\<lambda>l. strip_prefix l ''## '' = None \<and> trim l \<noteq> []) ls
      in if changes = [] then (if out = [] then ''ok'' @ [NL] else unlines (out @ [''clean'']))
         else unlines (out @ (''dirty: '' @ nat_str (length changes) @ '' files'') # changes))"

definition looks_like_untracked_file :: "string \<Rightarrow> bool" where
  "looks_like_untracked_file line \<longleftrightarrow>
     CHR '':'' \<notin> set line \<and> \<not> starts_with line ''On branch '' \<and> \<not> starts_with line ''Your branch '' \<and>
     \<not> starts_with line ''Changes '' \<and> \<not> starts_with line ''Untracked '' \<and> \<not> starts_with line ''no changes ''"

definition is_status_change :: "string \<Rightarrow> bool" where
  "is_status_change line \<longleftrightarrow>
     list_ex (starts_with line) [''modified:'', ''new file:'', ''deleted:'', ''renamed:'', ''copied:'', ''both modified:'',
       ''both added:'', ''both deleted:'', ''added by us:'', ''deleted by them:'', ''deleted by us:'', ''added by them:'',
       ''typechange:''] \<or> looks_like_untracked_file line"

fun status_loop ::
  "regex_engine \<Rightarrow> string option \<Rightarrow> string option \<Rightarrow> string list \<Rightarrow> string list \<Rightarrow>
   string option \<times> string option \<times> string list" where
  "status_loop rx branch tracking changes [] = (branch, tracking, changes)"
| "status_loop rx branch tracking changes (line # ls) =
     (let trimmed = trim line in
      case strip_prefix trimmed ''On branch '' of
        Some name \<Rightarrow> status_loop rx (Some name) tracking changes ls
      | None \<Rightarrow>
          if starts_with trimmed ''Your branch is'' then status_loop rx branch (parse_tracking trimmed) changes ls
          else if rx_is_match rx GIT_STATUS_NOISE trimmed \<or> trimmed = [] \<or> starts_with trimmed ''use '' \<or>
            starts_with trimmed ''(use '' then status_loop rx branch tracking changes ls
          else if is_status_change trimmed then status_loop rx branch tracking (changes @ [trimmed]) ls
          else status_loop rx branch tracking changes ls)"

definition git_status :: "regex_engine \<Rightarrow> string \<Rightarrow> string option" where
  "git_status rx input =
     (if trim input = [] then Some (''ok'' @ [NL])
      else case (if list_ex (\<lambda>l. starts_with l ''##'') (lines input) then Some True else looks_like_short_status input) of
        None \<Rightarrow> None
      | Some True \<Rightarrow> Some (short_status input)
      | Some False \<Rightarrow>
          (case status_loop rx None None [] (lines input) of (branch, tracking, changes) \<Rightarrow>
           Some (unlines ((case branch of
                 None \<Rightarrow> []
               | Some b \<Rightarrow> [''* '' @ b @ (case tracking of None \<Rightarrow> [] | Some t \<Rightarrow> ''...'' @ t)]) @
             (if changes = [] then [''clean'']
              else (''dirty: '' @ nat_str (length changes) @ '' files'') # changes)))))"

section \<open>Diff\<close>

record hunk_budget =
  hb_old :: nat
  hb_new :: nat
  hb_seen_change :: bool

datatype context_position = Leading | Interior | Trailing

definition hb_exhausted :: "hunk_budget \<Rightarrow> bool" where
  "hb_exhausted b \<longleftrightarrow> hb_old b = 0 \<and> hb_new b = 0"

definition parse_range_count :: "string \<Rightarrow> nat option" where
  "parse_range_count rng =
     (case split_once (CHR '','') rng of
        Some (start, cnt) \<Rightarrow> (case parse_u64 start of None \<Rightarrow> None | Some _ \<Rightarrow> parse_u64 cnt)
      | None \<Rightarrow> (case parse_u64 rng of None \<Rightarrow> None | Some _ \<Rightarrow> Some 1))"

definition parse_hunk_budget :: "string \<Rightarrow> hunk_budget option" where
  "parse_hunk_budget header =
     Option.bind (strip_prefix header ''@@ -'') (\<lambda>rest.
     Option.bind (split_once_str rest '' +'') (\<lambda>(old_range, rest).
     Option.bind (split_once_str rest '' @@'') (\<lambda>(new_range, _).
     Option.bind (parse_range_count old_range) (\<lambda>old'.
     Option.bind (parse_range_count new_range) (\<lambda>new'.
       Some \<lparr>hb_old = old', hb_new = new', hb_seen_change = False\<rparr>)))))"

definition unchanged_marker :: "nat \<Rightarrow> string" where
  "unchanged_marker hidden = ELLIPSIS @ '' '' @ nat_str hidden @ '' lines unchanged''"

definition flush_context_run :: "string list \<Rightarrow> context_position \<Rightarrow> string list" where
  "flush_context_run run position =
     (let kept_edges = (case position of Interior \<Rightarrow> 2 | _ \<Rightarrow> 1); hidden = length run - kept_edges
      in if hidden \<ge> 2
         then (case position of
                 Leading \<Rightarrow> [unchanged_marker hidden, last run]
               | Interior \<Rightarrow> [hd run, unchanged_marker hidden, last run]
               | Trailing \<Rightarrow> [hd run, unchanged_marker hidden])
         else run)"

record diff_state =
  ds_body :: "string list"
  ds_git_headers :: nat
  ds_plus_headers :: nat
  ds_added :: nat
  ds_removed :: nat
  ds_hunk :: "hunk_budget option"
  ds_context :: "string list"

definition diff_init :: diff_state where
  "diff_init = \<lparr>ds_body = [], ds_git_headers = 0, ds_plus_headers = 0, ds_added = 0, ds_removed = 0,
     ds_hunk = None, ds_context = []\<rparr>"

definition checked_sub1 :: "nat \<Rightarrow> nat option" where
  "checked_sub1 n = (if n = 0 then None else Some (n - 1))"

definition is_change :: "string \<Rightarrow> bool" where
  "is_change line \<longleftrightarrow> starts_with line ''+'' \<or> starts_with line ''-'' \<or> starts_with line [CHR 0x5C]"

definition is_context :: "string \<Rightarrow> bool" where
  "is_context line \<longleftrightarrow> starts_with line '' '' \<or> line = [] \<or> line = [CR]"

text \<open>A changed line inside a hunk: what it takes from the budget; \<open>None\<close> when the budget has no room.\<close>

definition spend_change :: "hunk_budget \<Rightarrow> string \<Rightarrow> hunk_budget option" where
  "spend_change b line =
     map_option (\<lambda>b. b\<lparr>hb_seen_change := True\<rparr>)
       (if starts_with line ''+'' then map_option (\<lambda>n. b\<lparr>hb_new := n\<rparr>) (checked_sub1 (hb_new b))
        else if starts_with line ''-'' then map_option (\<lambda>n. b\<lparr>hb_old := n\<rparr>) (checked_sub1 (hb_old b))
        else Some b)"

definition spend_context :: "hunk_budget \<Rightarrow> hunk_budget option" where
  "spend_context b =
     Option.bind (checked_sub1 (hb_old b)) (\<lambda>o'. Option.bind (checked_sub1 (hb_new b)) (\<lambda>n'.
       Some (b\<lparr>hb_old := o', hb_new := n'\<rparr>)))"

definition step_in_hunk :: "hunk_budget \<Rightarrow> diff_state \<Rightarrow> string \<Rightarrow> diff_state option" where
  "step_in_hunk b s line =
     (if is_change line
      then map_option (\<lambda>b'. s\<lparr>ds_hunk := Some b',
             ds_added := ds_added s + (if starts_with line ''+'' then 1 else 0),
             ds_removed := ds_removed s + (if starts_with line ''-'' then 1 else 0),
             ds_body := ds_body s @ flush_context_run (ds_context s) (if hb_seen_change b then Interior else Leading) @ [line],
             ds_context := []\<rparr>) (spend_change b line)
      else if is_context line
      then map_option (\<lambda>b'. s\<lparr>ds_hunk := Some b', ds_context := ds_context s @ [line]\<rparr>) (spend_context b)
      else None)"

definition is_metadata :: "string \<Rightarrow> bool" where
  "is_metadata line \<longleftrightarrow> starts_with line ''index '' \<or> starts_with line ''similarity index '' \<or>
     starts_with line ''dissimilarity index ''"

definition step_outside :: "diff_state \<Rightarrow> string \<Rightarrow> diff_state option" where
  "step_outside s line =
     (let s = s\<lparr>ds_hunk := None, ds_body := ds_body s @ flush_context_run (ds_context s) Trailing, ds_context := []\<rparr>;
          push = (\<lambda>s. s\<lparr>ds_body := ds_body s @ [line]\<rparr>)
      in if starts_with line ''@@''
         then map_option (\<lambda>b. push (s\<lparr>ds_hunk := Some b\<rparr>)) (parse_hunk_budget line)
         else if starts_with line ''diff --git '' then Some (push (s\<lparr>ds_git_headers := Suc (ds_git_headers s)\<rparr>))
         else if is_metadata line then Some s
         else Some (push (s\<lparr>ds_plus_headers := ds_plus_headers s + (if starts_with line ''+++ '' then 1 else 0)\<rparr>)))"

definition diff_step :: "diff_state \<Rightarrow> string \<Rightarrow> diff_state option" where
  "diff_step s line =
     (case ds_hunk s of
        None \<Rightarrow> step_outside s line
      | Some b \<Rightarrow>
          if \<not> hb_exhausted b then step_in_hunk b s line
          else if \<not> hb_seen_change b then None
          else step_outside s line)"

fun diff_loop :: "diff_state \<Rightarrow> string list \<Rightarrow> diff_state option" where
  "diff_loop s [] = Some s"
| "diff_loop s (line # ls) = (case diff_step s line of None \<Rightarrow> None | Some s' \<Rightarrow> diff_loop s' ls)"

definition condense_unified_diff :: "string \<Rightarrow> string option" where
  "condense_unified_diff input =
     (case diff_loop diff_init (raw_lines input) of
        None \<Rightarrow> None
      | Some s \<Rightarrow>
          if (case ds_hunk s of Some b \<Rightarrow> \<not> hb_seen_change b | None \<Rightarrow> False) then None
          else (let body = ds_body s @ flush_context_run (ds_context s) Trailing;
                    files = (if ds_git_headers s > 0 then ds_git_headers s else ds_plus_headers s);
                    plural = (if files = 1 then [] else ''s'')
                in Some (nat_str files @ '' file'' @ plural @ '', +'' @ nat_str (ds_added s) @ '' -'' @
                     nat_str (ds_removed s) @ [NL] @ unlines body)))"

definition git_diff :: "string \<Rightarrow> string" where
  "git_diff input =
     (if \<not> list_ex (\<lambda>l. starts_with l ''@@'') (lines input) then input
      else case condense_unified_diff input of None \<Rightarrow> input | Some out \<Rightarrow> out)"

section \<open>Show, stash, log, branch\<close>

definition git_show :: "string \<Rightarrow> string" where "git_show input = collapse_blanks input"
definition git_stash :: "string \<Rightarrow> string" where "git_stash input = collapse_blanks input"

definition git_log :: "regex_engine \<Rightarrow> string \<Rightarrow> string" where
  "git_log rx input =
     (if \<not> list_ex (\<lambda>l. starts_with l ''Author: '' \<or> starts_with l ''Date: '' \<or> trim l = []) (lines input) then input
      else collapse_blanks (rx_remove_all rx GIT_LOG_FMT input))"

definition normalize_remote_branch :: "string \<Rightarrow> string option" where
  "normalize_remote_branch name =
     (case strip_prefix name ''remotes/origin/'' of Some r \<Rightarrow> Some r | None \<Rightarrow> strip_prefix name ''origin/'')"

definition derived_display_cap :: "nat \<Rightarrow> nat" where
  "derived_display_cap n = max 3 (isqrt n * 2)"

text \<open>A set of names is kept as its sorted list.\<close>

fun branch_loop :: "string option \<Rightarrow> string list \<Rightarrow> string list \<Rightarrow> string list \<Rightarrow> string option \<times> string list \<times> string list" where
  "branch_loop current locals remotes [] = (current, locals, remotes)"
| "branch_loop current locals remotes (line # ls) =
     (let trimmed = trim line in
      if trimmed = [] \<or> contains_str trimmed ''HEAD ->'' then branch_loop current locals remotes ls
      else let name = trim (dropWhile (\<lambda>c. c = CHR ''*'') trimmed) in
      case normalize_remote_branch name of
        Some remote \<Rightarrow> branch_loop current locals (insort_insert remote remotes) ls
      | None \<Rightarrow> if starts_with trimmed ''*'' then branch_loop (Some name) locals remotes ls
                else branch_loop current (insort_insert name locals) remotes ls)"

definition git_branch :: "string \<Rightarrow> string" where
  "git_branch input =
     (case branch_loop None [] [] (lines input) of (current, locals0, remotes) \<Rightarrow>
      let locals = (case current of Some c \<Rightarrow> filter (\<lambda>l. l \<noteq> c) locals0 | None \<Rightarrow> locals0);
          local_names = (case current of Some c \<Rightarrow> insort_insert c locals | None \<Rightarrow> locals);
          remote_only = filter (\<lambda>r. r \<notin> set local_names) remotes;
          n = length local_names + length remote_only;
          cap = derived_display_cap n;
          show_count = (if n \<le> cap then length remote_only else min (cap - length local_names) (length remote_only));
          out = (case current of Some c \<Rightarrow> [''* '' @ c] | None \<Rightarrow> []) @ map (\<lambda>l. ''  '' @ l) locals @
            (if remote_only = [] then []
             else ''remote-only:'' # map (\<lambda>r. ''  '' @ r) (take show_count remote_only) @
               (if show_count < length remote_only
                then [''... +'' @ nat_str (length remote_only - show_count) @ '' more''] else []))
      in if out = [] then input else unlines out)"

section \<open>Which filter a command gets\<close>

definition total_filter :: "(string \<Rightarrow> string) \<Rightarrow> string \<Rightarrow> string option" where
  "total_filter f input = Some (f input)"

definition FILTERS :: "regex_engine \<Rightarrow> (string \<times> (string \<Rightarrow> string option)) list" where
  "FILTERS rx =
     [(''git status'', git_status rx), (''git diff'', total_filter git_diff), (''git show'', total_filter git_show),
      (''git branch'', total_filter git_branch), (''git stash'', total_filter git_stash),
      (''git log'', total_filter (git_log rx)),
      (''cargo nextest'', total_filter (cargo_nextest rx)), (''cargo check'', total_filter (cargo_noise rx)),
      (''cargo clippy'', total_filter (cargo_noise rx)), (''cargo build'', total_filter (cargo_noise rx)),
      (''cargo test'', total_filter (cargo_test rx)),
      (''ls -la'', total_filter ls_long), (''ls -al'', total_filter ls_long), (''ls'', total_filter ls_passthrough),
      (''grep -rn'', total_filter (grep_filter rx)), (''grep'', total_filter (grep_filter rx)),
      (''rg'', total_filter (grep_filter rx)), (''find'', total_filter find_filter),
      (''cat'', total_filter passthrough), (''read'', total_filter passthrough),
      (''curl'', total_filter (http_client_filter rx)), (''wget'', total_filter (http_client_filter rx)),
      (''gh'', total_filter gh_filter), (''docker'', total_filter (docker_filter rx)),
      (''kubectl'', total_filter (kubectl_filter rx)), (''pytest'', total_filter (pytest_filter rx)),
      (''go test'', total_filter (go_test_filter rx)),
      (''npm'', total_filter (node_filter rx)), (''npx'', total_filter (node_filter rx)),
      (''pnpm'', total_filter (node_filter rx)), (''pip'', total_filter (pip_filter rx)),
      (''tsc'', total_filter (node_diagnostics rx)), (''eslint'', total_filter (node_diagnostics rx)),
      (''prettier'', total_filter (node_diagnostics rx))]"

definition command_matches :: "string \<Rightarrow> string \<Rightarrow> bool" where
  "command_matches command pre \<longleftrightarrow>
     command = pre \<or>
     (case strip_prefix command pre of None \<Rightarrow> False | Some rest \<Rightarrow> ws_len rest > 0 \<or> starts_with rest ''-'')"

definition filter_for :: "regex_engine \<Rightarrow> string \<Rightarrow> (string \<times> (string \<Rightarrow> string option)) option" where
  "filter_for rx command = List.find (\<lambda>f. command_matches command (fst f)) (FILTERS rx)"

section \<open>A diff as it is meant to be read\<close>

text \<open>
  The four kinds of lines of a unified diff. \<open>diff_kinds\<close> reads them off the hunk headers: inside a
  hunk, as long as its header announces more lines, a line is a change or context; outside, it is a
  header or metadata.
\<close>

datatype line_kind = Change | Context | Header | Metadata

fun diff_kinds :: "hunk_budget option \<Rightarrow> string list \<Rightarrow> (line_kind \<times> string) list option" where
  "diff_kinds h [] = Some []"
| "diff_kinds h (l # ls) =
     (case h of
        Some b \<Rightarrow>
          if \<not> hb_exhausted b
          then (if is_change l then Option.bind (spend_change b l) (\<lambda>b'. map_option ((#) (Change, l)) (diff_kinds (Some b') ls))
                else if is_context l then Option.bind (spend_context b) (\<lambda>b'. map_option ((#) (Context, l)) (diff_kinds (Some b') ls))
                else None)
          else if starts_with l ''@@'' then Option.bind (parse_hunk_budget l) (\<lambda>b'. map_option ((#) (Header, l)) (diff_kinds (Some b') ls))
          else map_option ((#) (if is_metadata l then Metadata else Header, l)) (diff_kinds None ls)
      | None \<Rightarrow>
          if starts_with l ''@@'' then Option.bind (parse_hunk_budget l) (\<lambda>b'. map_option ((#) (Header, l)) (diff_kinds (Some b') ls))
          else map_option ((#) (if is_metadata l then Metadata else Header, l)) (diff_kinds None ls))"

lemma diff_kinds_lines: "diff_kinds h ls = Some ks \<Longrightarrow> map snd ks = ls"
  by (induction h ls arbitrary: ks rule: diff_kinds.induct)
    (auto split: option.splits if_splits simp: Option.bind_eq_Some_conv)

text \<open>
  What may happen to the lines: changes and headers stay, metadata may go, and a run of at least
  two context lines may be replaced by one line that says how many there were.
\<close>

inductive condensed :: "(line_kind \<times> string) list \<Rightarrow> string list \<Rightarrow> bool" where
  nil: "condensed [] []"
| keep: "condensed ks b \<Longrightarrow> k \<noteq> Metadata \<Longrightarrow> condensed ((k, l) # ks) (l # b)"
| hide: "condensed ks b \<Longrightarrow> length run \<ge> 2 \<Longrightarrow>
    condensed (map (Pair Context) run @ ks) (unchanged_marker (length run) # b)"
| drop: "condensed ks b \<Longrightarrow> condensed ((Metadata, l) # ks) b"

inductive_cases condensed_NilE: "condensed [] b"

lemma condensed_append: "condensed ks b \<Longrightarrow> condensed ks' b' \<Longrightarrow> condensed (ks @ ks') (b @ b')"
  by (induction rule: condensed.induct) (auto intro: condensed.intros)

lemma condensed_keep_all: "list_all (\<lambda>(k, _). k \<noteq> Metadata) ks \<Longrightarrow> condensed ks (map snd ks)"
  by (induction ks) (auto intro!: condensed.nil condensed.keep)

lemma condensed_single: "k \<noteq> Metadata \<Longrightarrow> condensed [(k, l)] [l]"
  by (intro condensed.keep condensed.nil)

lemma condensed_hide: "length run \<ge> 2 \<Longrightarrow> condensed (map (Pair Context) run) [unchanged_marker (length run)]"
  using condensed.hide [OF condensed.nil] by simp

lemma condensed_flush: "condensed (map (Pair Context) run) (flush_context_run run position)"
proof (cases "length run - (case position of Interior \<Rightarrow> 2 | _ \<Rightarrow> 1) \<ge> 2")
  case False
  have "condensed (map (Pair Context) run) (map snd (map (Pair Context) run))"
    by (rule condensed_keep_all) (simp add: list_all_iff)
  with False show ?thesis by (simp add: flush_context_run_def Let_def comp_def)
next
  case True
  show ?thesis
  proof (cases position)
    case Leading
    with True obtain xs l where r: "run = xs @ [l]" "length xs \<ge> 2" by (cases run rule: rev_cases) auto
    with condensed_append [OF condensed_hide [OF r(2)] condensed_single [of Context l]] Leading show ?thesis
      by (simp add: flush_context_run_def Let_def)
  next
    case Trailing
    with True obtain f xs where r: "run = f # xs" "length xs \<ge> 2" by (cases run) auto
    with condensed_append [OF condensed_single [of Context f] condensed_hide [OF r(2)]] Trailing show ?thesis
      by (simp add: flush_context_run_def Let_def)
  next
    case Interior
    with True obtain f ys where f: "run = f # ys" by (cases run) auto
    with True Interior obtain xs l where r: "run = f # xs @ [l]" "length xs \<ge> 2" by (cases ys rule: rev_cases) auto
    with condensed_append [OF condensed_single [of Context f]
        condensed_append [OF condensed_hide [OF r(2)] condensed_single [of Context l]]] Interior
    show ?thesis by (simp add: flush_context_run_def Let_def)
  qed
qed

text \<open>What the loop has done after the lines of kinds \<open>ks\<close>.\<close>

definition plus_count :: "(line_kind \<times> string) list \<Rightarrow> nat" where
  "plus_count ks = length (filter (\<lambda>(k, l). k = Change \<and> starts_with l ''+'') ks)"

definition minus_count :: "(line_kind \<times> string) list \<Rightarrow> nat" where
  "minus_count ks = length (filter (\<lambda>(k, l). k = Change \<and> starts_with l ''-'') ks)"

definition diff_inv :: "(line_kind \<times> string) list \<Rightarrow> diff_state \<Rightarrow> bool" where
  "diff_inv ks s \<longleftrightarrow>
     (\<exists>ks0. ks = ks0 @ map (Pair Context) (ds_context s) \<and> condensed ks0 (ds_body s)) \<and>
     ds_added s = plus_count ks \<and> ds_removed s = minus_count ks"

lemma counts_append:
  "plus_count (ks @ ks') = plus_count ks + plus_count ks'" "minus_count (ks @ ks') = minus_count ks + minus_count ks'"
  by (simp_all add: plus_count_def minus_count_def)

lemma diff_inv_push:
  assumes "diff_inv ks s" and "k \<noteq> Metadata" and "ds_body s' = ds_body s @ flush_context_run (ds_context s) p @ [l]"
    and "ds_context s' = []" and "ds_added s' = ds_added s + plus_count [(k, l)]"
    and "ds_removed s' = ds_removed s + minus_count [(k, l)]"
  shows "diff_inv (ks @ [(k, l)]) s'"
proof -
  from assms(1) obtain ks0 where ks: "ks = ks0 @ map (Pair Context) (ds_context s)" and c: "condensed ks0 (ds_body s)"
    by (auto simp: diff_inv_def)
  have "condensed (ks0 @ map (Pair Context) (ds_context s) @ [(k, l)]) (ds_body s @ flush_context_run (ds_context s) p @ [l])"
    by (intro condensed_append c condensed_flush condensed_single assms(2))
  with assms ks show ?thesis by (auto simp: diff_inv_def counts_append)
qed

lemma diff_inv_hold:
  assumes "diff_inv ks s" and "ds_body s' = ds_body s" and "ds_context s' = ds_context s @ [l]"
    and "ds_added s' = ds_added s" and "ds_removed s' = ds_removed s"
  shows "diff_inv (ks @ [(Context, l)]) s'"
  using assms by (auto simp: diff_inv_def counts_append plus_count_def minus_count_def)

lemma diff_inv_drop:
  assumes "diff_inv ks s" and "ds_body s' = ds_body s @ flush_context_run (ds_context s) p" and "ds_context s' = []"
    and "ds_added s' = ds_added s" and "ds_removed s' = ds_removed s"
  shows "diff_inv (ks @ [(Metadata, l)]) s'"
proof -
  from assms(1) obtain ks0 where ks: "ks = ks0 @ map (Pair Context) (ds_context s)" and c: "condensed ks0 (ds_body s)"
    by (auto simp: diff_inv_def)
  have "condensed (ks0 @ map (Pair Context) (ds_context s) @ [(Metadata, l)]) (ds_body s @ flush_context_run (ds_context s) p @ [])"
    by (intro condensed_append c condensed_flush condensed.drop condensed.nil)
  with assms ks show ?thesis by (auto simp: diff_inv_def counts_append plus_count_def minus_count_def)
qed

lemma step_in_hunk_inv:
  assumes "diff_inv ks s" and "step_in_hunk b s l = Some s'"
  obtains k b' where "diff_inv (ks @ [(k, l)]) s'" "ds_hunk s' = Some b'"
    "is_change l \<and> k = Change \<and> spend_change b l = Some b' \<or>
     \<not> is_change l \<and> is_context l \<and> k = Context \<and> spend_context b = Some b'"
proof (cases "is_change l")
  case True
  with assms(2) obtain b' where b': "spend_change b l = Some b'" and
    s': "s' = s\<lparr>ds_hunk := Some b', ds_added := ds_added s + (if starts_with l ''+'' then 1 else 0),
      ds_removed := ds_removed s + (if starts_with l ''-'' then 1 else 0),
      ds_body := ds_body s @ flush_context_run (ds_context s) (if hb_seen_change b then Interior else Leading) @ [l],
      ds_context := []\<rparr>"
    by (auto simp: step_in_hunk_def)
  have "diff_inv (ks @ [(Change, l)]) s'"
    by (rule diff_inv_push [OF assms(1), where p = "if hb_seen_change b then Interior else Leading"])
      (auto simp: s' plus_count_def minus_count_def)
  with True b' s' that show ?thesis by simp
next
  case False
  with assms(2) obtain b' where ctx: "is_context l" and b': "spend_context b = Some b'" and
    s': "s' = s\<lparr>ds_hunk := Some b', ds_context := ds_context s @ [l]\<rparr>"
    by (auto simp: step_in_hunk_def split: if_splits)
  have "diff_inv (ks @ [(Context, l)]) s'" by (rule diff_inv_hold [OF assms(1)]) (simp_all add: s')
  with False ctx b' s' that show ?thesis by simp
qed

lemma step_outside_inv:
  assumes "diff_inv ks s" and "step_outside s l = Some s'"
  obtains k where "diff_inv (ks @ [(k, l)]) s'"
    "starts_with l ''@@'' \<and> k = Header \<and> ds_hunk s' \<noteq> None \<and> ds_hunk s' = parse_hunk_budget l \<or>
     \<not> starts_with l ''@@'' \<and> k = (if is_metadata l then Metadata else Header) \<and> ds_hunk s' = None"
proof -
  have push: "diff_inv (ks @ [(Header, l)]) s'"
    if "ds_body s' = ds_body s @ flush_context_run (ds_context s) Trailing @ [l]" "ds_context s' = []"
      "ds_added s' = ds_added s" "ds_removed s' = ds_removed s"
    by (rule diff_inv_push [OF assms(1), where p = Trailing]) (use that in \<open>simp_all add: plus_count_def minus_count_def\<close>)
  show ?thesis
  proof (cases "starts_with l ''@@''")
    case True
    with assms(2) push that [of Header] show ?thesis by (auto simp: step_outside_def Let_def)
  next
    case at: False
    show ?thesis
    proof (cases "is_metadata l \<and> \<not> starts_with l ''diff --git ''")
      case True
      with at assms(2) have s': "s' = s\<lparr>ds_hunk := None, ds_body := ds_body s @ flush_context_run (ds_context s) Trailing,
          ds_context := []\<rparr>" by (simp add: step_outside_def Let_def)
      have "diff_inv (ks @ [(Metadata, l)]) s'"
        by (rule diff_inv_drop [OF assms(1), where p = Trailing]) (simp_all add: s')
      with at True s' that [of Metadata] show ?thesis by simp
    next
      case False
      moreover have "\<not> is_metadata l" if "starts_with l ''diff --git ''"
        using that by (auto simp: is_metadata_def starts_with_iff)
      ultimately have nm: "\<not> is_metadata l" by blast
      with at assms(2) push that [of Header] show ?thesis
        by (auto simp: step_outside_def Let_def split: if_splits)
    qed
  qed
qed

lemma diff_loop_inv:
  assumes "diff_inv ks s" and "diff_loop s ls = Some s'"
  shows "\<exists>ks'. diff_kinds (ds_hunk s) ls = Some ks' \<and> diff_inv (ks @ ks') s'"
  using assms
proof (induction ls arbitrary: ks s)
  case Nil
  then show ?case by simp
next
  case (Cons l ls)
  from Cons.prems(2) obtain t where t: "diff_step s l = Some t" and rest: "diff_loop t ls = Some s'"
    by (auto split: option.splits)
  show ?case
  proof (cases "\<exists>b. ds_hunk s = Some b \<and> \<not> hb_exhausted b")
    case True
    then obtain b where b: "ds_hunk s = Some b" "\<not> hb_exhausted b" by blast
    with t have "step_in_hunk b s l = Some t" by (simp add: diff_step_def)
    from step_in_hunk_inv [OF Cons.prems(1) this] obtain k b' where
      k: "diff_inv (ks @ [(k, l)]) t" "ds_hunk t = Some b'"
        "is_change l \<and> k = Change \<and> spend_change b l = Some b' \<or>
         \<not> is_change l \<and> is_context l \<and> k = Context \<and> spend_context b = Some b'" by metis
    from Cons.IH [OF k(1) rest] obtain ks' where "diff_kinds (Some b') ls = Some ks'" "diff_inv (ks @ [(k, l)] @ ks') s'"
      using k(2) by auto
    with k(3) b show ?thesis by auto
  next
    case False
    with t have out: "step_outside s l = Some t"
      by (auto simp: diff_step_def split: option.splits if_splits)
    from step_outside_inv [OF Cons.prems(1) out] obtain k where
      k: "diff_inv (ks @ [(k, l)]) t"
        "starts_with l ''@@'' \<and> k = Header \<and> ds_hunk t \<noteq> None \<and> ds_hunk t = parse_hunk_budget l \<or>
         \<not> starts_with l ''@@'' \<and> k = (if is_metadata l then Metadata else Header) \<and> ds_hunk t = None" by metis
    from Cons.IH [OF k(1) rest] obtain ks' where ks': "diff_kinds (ds_hunk t) ls = Some ks'" "diff_inv (ks @ [(k, l)] @ ks') s'"
      by auto
    have "diff_kinds (ds_hunk s) (l # ls) = Some ((k, l) # ks')"
      using False k(2) ks'(1) by (cases "ds_hunk s"; cases "parse_hunk_budget l") auto
    with ks'(2) show ?thesis by auto
  qed
qed

text \<open>
  C5 (git_diff_lossless): the diff filter returns its input, or a condensed form: the input read by
  its hunk headers into changes, context, headers and metadata, with every changed and every header
  line byte for byte and in order, metadata dropped, and a run of context lines only ever replaced
  by a line with its length; the first line counts exactly the added and removed lines.
\<close>

theorem git_diff_lossless:
  "git_diff input = input \<or>
   (\<exists>ks body files plural. diff_kinds None (raw_lines input) = Some ks \<and> map snd ks = raw_lines input \<and>
      condensed ks body \<and>
      git_diff input = nat_str files @ '' file'' @ plural @ '', +'' @ nat_str (plus_count ks) @ '' -'' @
        nat_str (minus_count ks) @ [NL] @ unlines body)"
proof (cases "\<exists>out. condense_unified_diff input = Some out \<and> git_diff input = out")
  case False
  then show ?thesis by (auto simp: git_diff_def split: option.splits)
next
  case True
  then obtain s where s: "diff_loop diff_init (raw_lines input) = Some s" and
    out: "git_diff input = (let body = ds_body s @ flush_context_run (ds_context s) Trailing;
                    files = (if ds_git_headers s > 0 then ds_git_headers s else ds_plus_headers s);
                    plural = (if files = 1 then [] else ''s'')
                in nat_str files @ '' file'' @ plural @ '', +'' @ nat_str (ds_added s) @ '' -'' @
                     nat_str (ds_removed s) @ [NL] @ unlines body)"
    by (auto simp: condense_unified_diff_def Let_def split: option.splits if_splits)
  have "diff_inv [] diff_init"
    by (auto simp: diff_inv_def diff_init_def plus_count_def minus_count_def intro: condensed.nil)
  from diff_loop_inv [OF this s] obtain ks where ks: "diff_kinds None (raw_lines input) = Some ks" "diff_inv ks s"
    by (auto simp: diff_init_def)
  from ks(2) obtain ks0 where k0: "ks = ks0 @ map (Pair Context) (ds_context s)" "condensed ks0 (ds_body s)"
    and n: "ds_added s = plus_count ks" "ds_removed s = minus_count ks" by (auto simp: diff_inv_def)
  have "condensed ks (ds_body s @ flush_context_run (ds_context s) Trailing)"
    unfolding k0(1) by (intro condensed_append k0(2) condensed_flush)
  with ks(1) diff_kinds_lines [OF ks(1)] out n show ?thesis unfolding Let_def by metis
qed

text \<open>The changed and the header lines of a condensed diff, in order.\<close>

lemma condensed_subseq: "condensed ks b \<Longrightarrow> subseq (map snd (filter (\<lambda>(k, _). k \<in> {Change, Header}) ks)) b"
proof (induction rule: condensed.induct)
  case (hide ks b run)
  have "filter (\<lambda>(k, _). k \<in> {Change, Header}) (map (Pair Context) run) = []" by (induction run) auto
  with hide show ?case by (auto intro: list_emb_Cons)
qed (auto intro: list_emb_Cons)

text \<open>
  Summarising \<^verbatim>\<open>git status\<close> slices the first two bytes off every
  line longer than three: output whose first line starts with a character of three bytes, as
  localised versions of git print it, makes the filter panic, and so does any line whose third byte
  continues a character.
\<close>

lemma status_panics_on_wide_text:
  "git_status rx ([CHR 0xED, CHR 0x98, CHR 0x84] @ '' main'' @ [NL]) = None \<and>
   git_status rx (''x'' @ [CHR 0xC3, CHR 0xA9] @ ''y'' @ [NL]) = None"
proof -
  have a: "all_short (lines ([CHR 0xED, CHR 0x98, CHR 0x84] @ '' main'' @ [NL])) = None"
    "all_short (lines (''x'' @ [CHR 0xC3, CHR 0xA9] @ ''y'' @ [NL])) = None" by code_simp+
  have b: "\<not> list_ex (\<lambda>l. starts_with l ''##'') (lines ([CHR 0xED, CHR 0x98, CHR 0x84] @ '' main'' @ [NL]))"
    "\<not> list_ex (\<lambda>l. starts_with l ''##'') (lines (''x'' @ [CHR 0xC3, CHR 0xA9] @ ''y'' @ [NL]))" by code_simp+
  have c: "trim ([CHR 0xED, CHR 0x98, CHR 0x84] @ '' main'' @ [NL]) \<noteq> []" "trim (''x'' @ [CHR 0xC3, CHR 0xA9] @ ''y'' @ [NL]) \<noteq> []"
    by code_simp+
  show ?thesis unfolding git_status_def looks_like_short_status_def by (simp only: a b c if_False option.case refl simp_thms)
qed

text \<open>On ASCII output it never panics.\<close>

lemma all_short_ascii: "list_all is_ascii ls \<Longrightarrow> all_short ls \<noteq> None"
proof (induction ls)
  case (Cons l ls)
  have "is_ascii (trim_end l)" using Cons.prems trim_end_prefix [of l] set_take_subset
    by (fastforce simp: is_ascii_def list_all_iff)
  then have "slice_to (trim_end l) 2 \<noteq> None" if "length (trim_end l) > 3"
  proof -
    have "trim_end l ! 2 \<in> set (trim_end l)" using that by (intro nth_mem) linarith
    with \<open>is_ascii (trim_end l)\<close> have "byte (trim_end l ! 2) < 128" by (simp add: is_ascii_def)
    with that show ?thesis by (simp add: slice_to_def is_char_boundary_def is_continuation_def)
  qed
  with Cons show ?case by (auto simp: Let_def split: option.splits)
qed simp

end
