(* ===== verification/Memory_Sql.thy ===== *)
theory Memory_Sql
  imports Core_Error Btree "HOL-Library.Word"
begin

text \<open>
  The database under \<^verbatim>\<open>crates/rtrt-memory/src/lib.rs\<close>: the tables the migrations create,
  the SQL statements the store issues, and computations that issue them one after another. A
  table is the list of its rows in rowid order. Every statement is atomic and may fail for
  reasons outside the program (a full disk, a lock): the connection carries a schedule of such
  failures, one entry per statement. An operation that issues several statements outside a
  transaction can therefore stop between any two of them.

  The index of the \<^verbatim>\<open>fts5\<close> table with external content is the list of the documents it was
  given; its delete command has to be handed the text that was indexed. JSON columns hold the
  map they encode, blobs their bytes.
\<close>

named_theorems db_simps \<open>evaluation of statements and computations\<close>
named_theorems db_intros \<open>pre- and postconditions of computations\<close>

section \<open>Tables\<close>

datatype memory_scope = User_scope | Agent_scope | Session_scope | Project_scope

fun scope_as_str :: "memory_scope \<Rightarrow> string" where
  "scope_as_str User_scope = ''user''"
| "scope_as_str Agent_scope = ''agent''"
| "scope_as_str Session_scope = ''session''"
| "scope_as_str Project_scope = ''project''"

definition scope_parse :: "string \<Rightarrow> memory_scope" where
  "scope_parse s = (if s = ''user'' then User_scope else if s = ''agent'' then Agent_scope
     else if s = ''session'' then Session_scope else Project_scope)"

lemma scope_roundtrip [simp]: "scope_parse (scope_as_str sc) = sc"
  by (cases sc) (simp_all add: scope_parse_def)

type_synonym metadata = "(string, string) btree"

record memory_row =
  mr_id :: int
  mr_project :: string
  mr_kind :: string
  mr_body :: string
  mr_created_at :: int
  mr_scope :: string
  mr_metadata :: metadata
  mr_session_id :: "string option"
  mr_body_sha :: "string option"
  mr_body_full :: "string option"

type_synonym blob = "8 word list"

record embedding_row =
  er_memory_id :: int
  er_model :: string
  er_vector :: blob

record edge =
  ed_src_id :: int
  ed_dst_id :: int
  ed_relation :: string

record entity =
  en_id :: int
  en_project :: string
  en_name :: string

record receipt =
  rc_event_id :: string
  rc_source_guest :: string
  rc_source_project :: string
  rc_memory_id :: int
  rc_received_at :: int

record invocation_provenance =
  ip_child_session_id :: string
  ip_invocation_id :: string
  ip_parent_project :: string
  ip_parent_session_id :: "string option"
  ip_parent_call_id :: "string option"
  ip_caller_agent :: "string option"
  ip_parent_cwd :: "string option"
  ip_parent_worktree :: "string option"
  ip_target :: "string option"
  ip_model :: "string option"
  ip_created_at :: int

text \<open>\<open>tb_seq\<close> is the \<^verbatim>\<open>AUTOINCREMENT\<close> counter of \<^verbatim>\<open>memories\<close>.\<close>

record tables =
  tb_memories :: "memory_row list"
  tb_seq :: int
  tb_fts :: "(int \<times> string) list"
  tb_embeddings :: "embedding_row list"
  tb_embedding_models :: "(string \<times> int) list"
  tb_edges :: "edge list"
  tb_entities :: "entity list"
  tb_memory_entities :: "(int \<times> int) list"
  tb_provenance :: "invocation_provenance list"
  tb_receipts :: "receipt list"

definition empty_tables :: tables where
  "empty_tables = \<lparr>tb_memories = [], tb_seq = 0, tb_fts = [], tb_embeddings = [], tb_embedding_models = [],
     tb_edges = [], tb_entities = [], tb_memory_entities = [], tb_provenance = [], tb_receipts = []\<rparr>"

abbreviation memory_ids :: "tables \<Rightarrow> int list" where
  "memory_ids t \<equiv> map mr_id (tb_memories t)"

definition find_row :: "tables \<Rightarrow> int \<Rightarrow> memory_row option" where
  "find_row t i = List.find (\<lambda>r. mr_id r = i) (tb_memories t)"

section \<open>Statements\<close>

definition I64_MAX :: int where "I64_MAX = 9223372036854775807"

definition FK_FAILED :: string where "FK_FAILED = ''FOREIGN KEY constraint failed''"
definition NO_ROWS :: string where "NO_ROWS = ''Query returned no rows''"
definition DB_FULL :: string where "DB_FULL = ''database or disk is full''"

text \<open>
  \<^verbatim>\<open>INSERT INTO memories\<close>: the row gets the next id, which the caller reads with
  \<^verbatim>\<open>last_insert_rowid\<close>.
\<close>

definition insert_memory :: "(int \<Rightarrow> memory_row) \<Rightarrow> tables \<Rightarrow> string + (int \<times> tables)" where
  "insert_memory mk t = (if I64_MAX \<le> tb_seq t then Inl DB_FULL
     else let i = tb_seq t + 1 in
       Inr (i, t\<lparr>tb_memories := tb_memories t @ [(mk i)\<lparr>mr_id := i\<rparr>], tb_seq := i\<rparr>))"

text \<open>\<^verbatim>\<open>UPDATE memories SET ... WHERE p\<close>, returning the number of rows.\<close>

definition update_memories ::
  "(memory_row \<Rightarrow> bool) \<Rightarrow> (memory_row \<Rightarrow> memory_row) \<Rightarrow> tables \<Rightarrow> string + (nat \<times> tables)" where
  "update_memories p f t =
     Inr (length (filter p (tb_memories t)),
       t\<lparr>tb_memories := map (\<lambda>r. if p r then (f r)\<lparr>mr_id := mr_id r\<rparr> else r) (tb_memories t)\<rparr>)"

text \<open>\<^verbatim>\<open>DELETE FROM memories WHERE p\<close> with the cascades of the schema.\<close>

definition delete_memories :: "(memory_row \<Rightarrow> bool) \<Rightarrow> tables \<Rightarrow> string + (nat \<times> tables)" where
  "delete_memories p t =
     (let gone = map mr_id (filter p (tb_memories t)) in
      Inr (length gone, t\<lparr>tb_memories := filter (\<lambda>r. \<not> p r) (tb_memories t),
        tb_embeddings := filter (\<lambda>e. er_memory_id e \<notin> set gone) (tb_embeddings t),
        tb_edges := filter (\<lambda>e. ed_src_id e \<notin> set gone \<and> ed_dst_id e \<notin> set gone) (tb_edges t),
        tb_receipts := filter (\<lambda>r. rc_memory_id r \<notin> set gone) (tb_receipts t)\<rparr>))"

definition fts_insert :: "int \<Rightarrow> string \<Rightarrow> tables \<Rightarrow> string + (unit \<times> tables)" where
  "fts_insert i body t = Inr ((), t\<lparr>tb_fts := tb_fts t @ [(i, body)]\<rparr>)"

definition fts_delete :: "int \<Rightarrow> string \<Rightarrow> tables \<Rightarrow> string + (unit \<times> tables)" where
  "fts_delete i body t = Inr ((), t\<lparr>tb_fts := remove1 (i, body) (tb_fts t)\<rparr>)"

text \<open>\<^verbatim>\<open>INSERT OR IGNORE\<close> skips a duplicate key and still enforces the foreign keys.\<close>

definition insert_or_ignore_edge :: "edge \<Rightarrow> tables \<Rightarrow> string + (nat \<times> tables)" where
  "insert_or_ignore_edge e t =
     (if e \<in> set (tb_edges t) then Inr (0, t)
      else if ed_src_id e \<in> set (memory_ids t) \<and> ed_dst_id e \<in> set (memory_ids t)
      then Inr (1, t\<lparr>tb_edges := tb_edges t @ [e]\<rparr>) else Inl FK_FAILED)"

definition delete_edges :: "edge \<Rightarrow> tables \<Rightarrow> string + (unit \<times> tables)" where
  "delete_edges e t = Inr ((), t\<lparr>tb_edges := filter (\<lambda>e'. e' \<noteq> e) (tb_edges t)\<rparr>)"

definition insert_or_ignore_embedding :: "embedding_row \<Rightarrow> tables \<Rightarrow> string + (unit \<times> tables)" where
  "insert_or_ignore_embedding e t =
     (if er_memory_id e \<in> set (map er_memory_id (tb_embeddings t)) then Inr ((), t)
      else if er_memory_id e \<in> set (memory_ids t) then Inr ((), t\<lparr>tb_embeddings := tb_embeddings t @ [e]\<rparr>)
      else Inl FK_FAILED)"

definition insert_or_replace_embedding :: "embedding_row \<Rightarrow> tables \<Rightarrow> string + (unit \<times> tables)" where
  "insert_or_replace_embedding e t =
     (if er_memory_id e \<in> set (memory_ids t)
      then Inr ((), t\<lparr>tb_embeddings := filter (\<lambda>e'. er_memory_id e' \<noteq> er_memory_id e) (tb_embeddings t) @ [e]\<rparr>)
      else Inl FK_FAILED)"

text \<open>A duplicate model and a violated \<^verbatim>\<open>CHECK (dimension > 0)\<close> are both ignored.\<close>

definition insert_or_ignore_model :: "string \<Rightarrow> int \<Rightarrow> tables \<Rightarrow> string + (unit \<times> tables)" where
  "insert_or_ignore_model model dimension t =
     (if map_of (tb_embedding_models t) model \<noteq> None \<or> dimension \<le> 0 then Inr ((), t)
      else Inr ((), t\<lparr>tb_embedding_models := tb_embedding_models t @ [(model, dimension)]\<rparr>))"

text \<open>An \<^verbatim>\<open>INTEGER PRIMARY KEY\<close> without \<^verbatim>\<open>AUTOINCREMENT\<close> takes the largest id plus one.\<close>

definition next_entity_id :: "tables \<Rightarrow> int" where
  "next_entity_id t = foldr max (map en_id (tb_entities t)) 0 + 1"

definition insert_or_ignore_entity :: "string \<Rightarrow> string \<Rightarrow> tables \<Rightarrow> string + (unit \<times> tables)" where
  "insert_or_ignore_entity project name t =
     (if list_ex (\<lambda>e. en_project e = project \<and> en_name e = name) (tb_entities t) then Inr ((), t)
      else Inr ((), t\<lparr>tb_entities := tb_entities t @
        [\<lparr>en_id = next_entity_id t, en_project = project, en_name = name\<rparr>]\<rparr>))"

definition insert_or_ignore_memory_entity :: "int \<Rightarrow> int \<Rightarrow> tables \<Rightarrow> string + (nat \<times> tables)" where
  "insert_or_ignore_memory_entity m e t =
     (if (m, e) \<in> set (tb_memory_entities t) then Inr (0, t)
      else Inr (1, t\<lparr>tb_memory_entities := tb_memory_entities t @ [(m, e)]\<rparr>))"

definition insert_provenance :: "invocation_provenance \<Rightarrow> tables \<Rightarrow> string + (unit \<times> tables)" where
  "insert_provenance v t =
     (if list_ex (\<lambda>w. ip_child_session_id w = ip_child_session_id v) (tb_provenance t) then Inr ((), t)
      else Inr ((), t\<lparr>tb_provenance := tb_provenance t @ [v]\<rparr>))"

definition receipt_key :: "receipt \<Rightarrow> string \<times> string \<times> string" where
  "receipt_key r = (rc_event_id r, rc_source_guest r, rc_source_project r)"

definition UNIQUE_FAILED :: string where "UNIQUE_FAILED = 
  ''UNIQUE constraint failed: forwarded_event_receipts.event_id, forwarded_event_receipts.source_guest, '' @
  ''forwarded_event_receipts.source_project''"

definition insert_receipt :: "receipt \<Rightarrow> tables \<Rightarrow> string + (unit \<times> tables)" where
  "insert_receipt r t =
     (if receipt_key r \<in> set (map receipt_key (tb_receipts t)) then Inl UNIQUE_FAILED
      else if rc_memory_id r \<in> set (memory_ids t) then Inr ((), t\<lparr>tb_receipts := tb_receipts t @ [r]\<rparr>)
      else Inl FK_FAILED)"

lemmas statement_defs = insert_memory_def update_memories_def delete_memories_def fts_insert_def fts_delete_def
  insert_or_ignore_edge_def delete_edges_def insert_or_ignore_embedding_def insert_or_replace_embedding_def
  insert_or_ignore_model_def insert_or_ignore_entity_def insert_or_ignore_memory_entity_def
  insert_provenance_def insert_receipt_def

section \<open>Integrity of the tables\<close>

definition memories_ok :: "tables \<Rightarrow> bool" where
  "memories_ok t \<longleftrightarrow> distinct (memory_ids t) \<and> list_all (\<lambda>i. 1 \<le> i \<and> i \<le> tb_seq t) (memory_ids t) \<and> 0 \<le> tb_seq t"

definition embeddings_ok :: "tables \<Rightarrow> bool" where
  "embeddings_ok t \<longleftrightarrow> distinct (map er_memory_id (tb_embeddings t)) \<and>
     list_all (\<lambda>e. er_memory_id e \<in> set (memory_ids t)) (tb_embeddings t)"

definition dimensions_ok :: "tables \<Rightarrow> bool" where
  "dimensions_ok t \<longleftrightarrow> distinct (map fst (tb_embedding_models t)) \<and>
     list_all (\<lambda>(_, d). 0 < d) (tb_embedding_models t) \<and>
     list_all (\<lambda>e. map_of (tb_embedding_models t) (er_model e) = Some (int (length (er_vector e) div 4)) \<and>
       4 dvd length (er_vector e)) (tb_embeddings t)"

definition edges_ok :: "tables \<Rightarrow> bool" where
  "edges_ok t \<longleftrightarrow> distinct (tb_edges t) \<and>
     list_all (\<lambda>e. ed_src_id e \<in> set (memory_ids t) \<and> ed_dst_id e \<in> set (memory_ids t)) (tb_edges t)"

definition receipts_ok :: "tables \<Rightarrow> bool" where
  "receipts_ok t \<longleftrightarrow> distinct (map receipt_key (tb_receipts t)) \<and>
     list_all (\<lambda>r. rc_memory_id r \<in> set (memory_ids t)) (tb_receipts t)"

definition entities_ok :: "tables \<Rightarrow> bool" where
  "entities_ok t \<longleftrightarrow> distinct (map en_id (tb_entities t)) \<and>
     distinct (map (\<lambda>e. (en_project e, en_name e)) (tb_entities t)) \<and> distinct (tb_memory_entities t)"

definition provenance_ok :: "tables \<Rightarrow> bool" where
  "provenance_ok t \<longleftrightarrow> distinct (map ip_child_session_id (tb_provenance t))"

definition integrity :: "tables \<Rightarrow> bool" where
  "integrity t \<longleftrightarrow> memories_ok t \<and> embeddings_ok t \<and> dimensions_ok t \<and> edges_ok t \<and> receipts_ok t \<and>
     entities_ok t \<and> provenance_ok t"

lemmas integrity_defs = integrity_def memories_ok_def embeddings_ok_def dimensions_ok_def edges_ok_def
  receipts_ok_def entities_ok_def provenance_ok_def

lemma integrity_empty: "integrity empty_tables"
  by (simp add: integrity_defs empty_tables_def)
section \<open>Computations\<close>

text \<open>\<^verbatim>\<open>crates/rtrt-memory/src/embed.rs\<close>: an embedder names its model and maps text to a vector.\<close>

type_synonym f32_bits = "32 word"

record embedder =
  em_model_name :: string
  em_embed :: "string list \<Rightarrow> error + f32_bits list list"

record memory_store =
  ms_db :: tables
  ms_faults :: "string option list"
  ms_embedder :: "embedder option"
  ms_project_pin :: "string option"

type_synonym 'a db = "memory_store \<Rightarrow> (error + 'a) \<times> memory_store"

definition ret :: "'a \<Rightarrow> 'a db" where
  "ret x s = (Inr x, s)"

definition err :: "error \<Rightarrow> 'a db" where
  "err e s = (Inl e, s)"

definition lift_result :: "error + 'a \<Rightarrow> 'a db" where
  "lift_result r s = (r, s)"

text \<open>The \<^verbatim>\<open>?\<close> operator: an error ends the computation, what was written stays.\<close>

definition andThen :: "'a db \<Rightarrow> ('a \<Rightarrow> 'b db) \<Rightarrow> 'b db" where
  "andThen m f s = (case m s of (Inl e, s') \<Rightarrow> (Inl e, s') | (Inr x, s') \<Rightarrow> f x s')"

definition attempt :: "'a db \<Rightarrow> (error + 'a) db" where
  "attempt m s = (case m s of (r, s') \<Rightarrow> (Inr r, s'))"

definition sql :: "(tables \<Rightarrow> string + ('a \<times> tables)) \<Rightarrow> 'a db" where
  "sql f s = (let s' = s\<lparr>ms_faults := tl (ms_faults s)\<rparr> in
     case ms_faults s of
       Some msg # _ \<Rightarrow> (Inl (Memory msg), s')
     | _ \<Rightarrow> (case f (ms_db s) of
         Inl msg \<Rightarrow> (Inl (Memory msg), s')
       | Inr (x, t) \<Rightarrow> (Inr x, s'\<lparr>ms_db := t\<rparr>)))"

definition query :: "(tables \<Rightarrow> 'a) \<Rightarrow> 'a db" where
  "query q = sql (\<lambda>t. Inr (q t, t))"

text \<open>\<^verbatim>\<open>query_row\<close> is an error when there is no row.\<close>

definition query_row :: "(tables \<Rightarrow> 'a option) \<Rightarrow> 'a db" where
  "query_row q = sql (\<lambda>t. case q t of None \<Rightarrow> Inl NO_ROWS | Some x \<Rightarrow> Inr (x, t))"

text \<open>\<^verbatim>\<open>BEGIN\<close> and \<^verbatim>\<open>COMMIT\<close> are statements that write nothing and may fail.\<close>

definition tx_control :: "unit db" where
  "tx_control = sql (\<lambda>t. Inr ((), t))"

text \<open>The statements of a transaction: on any error, also of the commit, they are rolled back.\<close>

definition transaction :: "'a db \<Rightarrow> 'a db" where
  "transaction m s =
     (case m s of
        (Inl e, s') \<Rightarrow> (Inl e, s'\<lparr>ms_db := ms_db s\<rparr>)
      | (Inr x, s') \<Rightarrow> (case tx_control s' of
          (Inl e, s'') \<Rightarrow> (Inl e, s''\<lparr>ms_db := ms_db s\<rparr>)
        | (Inr _, s'') \<Rightarrow> (Inr x, s'')))"

text \<open>What other connections to the same file commit in the meantime.\<close>

definition others_commit :: "(tables \<Rightarrow> tables) \<Rightarrow> unit db" where
  "others_commit f s = (Inr (), s\<lparr>ms_db := f (ms_db s)\<rparr>)"

fun for_each :: "('a \<Rightarrow> unit db) \<Rightarrow> 'a list \<Rightarrow> unit db" where
  "for_each f [] = ret ()"
| "for_each f (x # xs) = andThen (f x) (\<lambda>_. for_each f xs)"

text \<open>A loop with an accumulator.\<close>

fun for_fold :: "('a \<Rightarrow> 'b \<Rightarrow> 'b db) \<Rightarrow> 'a list \<Rightarrow> 'b \<Rightarrow> 'b db" where
  "for_fold f [] acc = ret acc"
| "for_fold f (x # xs) acc = andThen (f x acc) (for_fold f xs)"

section \<open>Reasoning about computations\<close>

text \<open>
  \<open>runs R P m Q E\<close>: started on a connection with \<open>R\<close> from tables with \<open>P\<close>, the computation leaves
  a connection with \<open>R\<close>; when it succeeds its tables satisfy \<open>Q\<close> of the result, when it fails
  \<open>E\<close>.
\<close>

definition runs ::
  "(memory_store \<Rightarrow> bool) \<Rightarrow> (tables \<Rightarrow> bool) \<Rightarrow> 'a db \<Rightarrow> ('a \<Rightarrow> tables \<Rightarrow> bool) \<Rightarrow> (tables \<Rightarrow> bool) \<Rightarrow> bool" where
  "runs R P m Q E \<longleftrightarrow> (\<forall>s. R s \<longrightarrow> P (ms_db s) \<longrightarrow> R (snd (m s)) \<and>
     (case fst (m s) of Inl e \<Rightarrow> E (ms_db (snd (m s))) | Inr x \<Rightarrow> Q x (ms_db (snd (m s)))))"

abbreviation keeps_on :: "(memory_store \<Rightarrow> bool) \<Rightarrow> (tables \<Rightarrow> bool) \<Rightarrow> 'a db \<Rightarrow> bool" where
  "keeps_on R P m \<equiv> runs R P m (\<lambda>_. P) P"

abbreviation holds :: "(tables \<Rightarrow> bool) \<Rightarrow> 'a db \<Rightarrow> ('a \<Rightarrow> tables \<Rightarrow> bool) \<Rightarrow> (tables \<Rightarrow> bool) \<Rightarrow> bool" where
  "holds \<equiv> runs (\<lambda>_. True)"

abbreviation keeps :: "(tables \<Rightarrow> bool) \<Rightarrow> 'a db \<Rightarrow> bool" where
  "keeps P m \<equiv> holds P m (\<lambda>_. P) P"

lemma keeps_on_iff: "keeps_on R P m \<longleftrightarrow> (\<forall>s. R s \<longrightarrow> P (ms_db s) \<longrightarrow> R (snd (m s)) \<and> P (ms_db (snd (m s))))"
  by (simp add: runs_def case_sum_if)

lemma keepsD: "keeps P m \<Longrightarrow> P (ms_db s) \<Longrightarrow> P (ms_db (snd (m s)))"
  by (simp add: keeps_on_iff)

lemma tx_control_db [simp]: "ms_db (snd (tx_control s)) = ms_db s"
  by (auto simp: tx_control_def sql_def Let_def split: list.splits option.splits)

lemma transaction_atomic: "transaction m s = (Inl e, s') \<Longrightarrow> ms_db s' = ms_db s"
  by (auto simp: transaction_def split: prod.splits sum.splits)

lemma transaction_commits:
  "transaction m s = (Inr x, s') \<Longrightarrow> \<exists>s1. m s = (Inr x, s1) \<and> ms_db s' = ms_db s1"
proof -
  assume t: "transaction m s = (Inr x, s')"
  obtain r s1 where r: "m s = (r, s1)" by fastforce
  obtain r2 s2 where r2: "tx_control s1 = (r2, s2)" by fastforce
  then have "ms_db s2 = ms_db s1" using tx_control_db [of s1] by simp
  then show ?thesis using t r r2 by (cases r; cases r2) (auto simp: transaction_def)
qed

text \<open>
  The rules hold for every condition on the connection that statements maintain; they are used for
  arbitrary connections and for those on which no statement fails.
\<close>

locale run_logic =
  fixes R :: "memory_store \<Rightarrow> bool"
  assumes faults: "R s \<Longrightarrow> R (s\<lparr>ms_faults := tl (ms_faults s)\<rparr>)"
    and written: "R s \<Longrightarrow> R (s\<lparr>ms_db := t\<rparr>)"
begin

lemma holds_ret [db_intros]: "(\<And>t. P t \<Longrightarrow> Q x t) \<Longrightarrow> runs R P (ret x) Q E"
  by (simp add: runs_def ret_def)

lemma holds_err [db_intros]: "(\<And>t. P t \<Longrightarrow> E t) \<Longrightarrow> runs R P (err e) Q E"
  by (simp add: runs_def err_def)

lemma holds_lift [db_intros]:
  "(\<And>t x. P t \<Longrightarrow> Q x t) \<Longrightarrow> (\<And>t. P t \<Longrightarrow> E t) \<Longrightarrow> runs R P (lift_result r) Q E"
  by (cases r) (simp_all add: runs_def lift_result_def)

lemma holds_bind:
  assumes "runs R P m Q E" "\<And>x. runs R (Q x) (f x) T E"
  shows "runs R P (andThen m f) T E"
  unfolding runs_def
proof (intro allI impI)
  fix s assume a: "R s" "P (ms_db s)"
  obtain r s1 where m: "m s = (r, s1)" by fastforce
  show "R (snd (andThen m f s)) \<and> (case fst (andThen m f s) of Inl e \<Rightarrow> E (ms_db (snd (andThen m f s)))
      | Inr x \<Rightarrow> T x (ms_db (snd (andThen m f s))))"
  proof (cases r)
    case (Inl e)
    then show ?thesis using assms(1) [unfolded runs_def, rule_format, OF a] m by (simp add: andThen_def)
  next
    case (Inr x)
    then have e: "andThen m f s = f x s1" using m by (simp add: andThen_def)
    have "R s1" "Q x (ms_db s1)" using assms(1) [unfolded runs_def, rule_format, OF a] m Inr by simp_all
    then show ?thesis unfolding e by (rule assms(2) [of x, unfolded runs_def, rule_format, of s1])
  qed
qed

lemma keeps_bind [db_intros]: "keeps_on R P m \<Longrightarrow> (\<And>x. runs R P (f x) T P) \<Longrightarrow> runs R P (andThen m f) T P"
  by (rule holds_bind)

lemma holds_sql:
  "(\<And>t. P t \<Longrightarrow> E t) \<Longrightarrow> (\<And>t x t'. P t \<Longrightarrow> f t = Inr (x, t') \<Longrightarrow> Q x t') \<Longrightarrow> runs R P (sql f) Q E"
  unfolding runs_def
proof (intro allI impI conjI)
  assume e: "\<And>t. P t \<Longrightarrow> E t" and q: "\<And>t x t'. P t \<Longrightarrow> f t = Inr (x, t') \<Longrightarrow> Q x t'"
  fix s assume a: "R s" "P (ms_db s)"
  from faults [OF a(1)] show "R (snd (sql f s))"
    by (auto simp: sql_def Let_def intro: written split: list.splits option.splits sum.splits)
  show "case fst (sql f s) of Inl x \<Rightarrow> E (ms_db (snd (sql f s))) | Inr x \<Rightarrow> Q x (ms_db (snd (sql f s)))"
    using a e q by (auto simp: sql_def Let_def split: list.splits option.splits sum.splits)
qed

lemma holds_query: "(\<And>t. P t \<Longrightarrow> E t) \<Longrightarrow> (\<And>t. P t \<Longrightarrow> Q (q t) t) \<Longrightarrow> runs R P (query q) Q E"
  unfolding query_def by (rule holds_sql) auto

lemma keeps_query [db_intros]: "keeps_on R P (query q)"
  by (rule holds_query)

lemma keeps_query_row [db_intros]: "keeps_on R P (query_row q)"
  unfolding query_row_def by (rule holds_sql) (auto split: option.splits)

lemma keeps_attempt [db_intros]: "keeps_on R P m \<Longrightarrow> keeps_on R P (attempt m)"
  by (auto simp: keeps_on_iff attempt_def split: prod.splits)

lemma keeps_tx_control [db_intros]: "keeps_on R P tx_control"
  unfolding tx_control_def by (rule holds_sql) auto

lemma keeps_others [db_intros]: "(\<And>t. P t \<Longrightarrow> P (f t)) \<Longrightarrow> keeps_on R P (others_commit f)"
  by (simp add: keeps_on_iff others_commit_def written)

lemma keeps_transaction [db_intros]: "keeps_on R P m \<Longrightarrow> keeps_on R P (transaction m)"
proof -
  assume k: "keeps_on R P m"
  show ?thesis unfolding keeps_on_iff
  proof (intro allI impI)
    fix s assume p: "R s" "P (ms_db s)"
    obtain r s' where r: "m s = (r, s')" by fastforce
    obtain r2 s2 where r2: "tx_control s' = (r2, s2)" by fastforce
    have "R s'" "P (ms_db s')" using k p r unfolding keeps_on_iff by auto
    moreover from this have "R s2" "P (ms_db s2)" using keeps_tx_control [of P] r2 tx_control_db [of s'] unfolding keeps_on_iff by auto
    ultimately show "R (snd (transaction m s)) \<and> P (ms_db (snd (transaction m s)))"
      using p r r2 by (cases r; cases r2) (simp_all add: transaction_def written)
  qed
qed

lemma keeps_for_each [db_intros]: "(\<And>x. keeps_on R P (f x)) \<Longrightarrow> keeps_on R P (for_each f xs)"
  by (induction xs) (simp_all add: holds_ret keeps_bind)

lemma keeps_for_fold [db_intros]: "(\<And>x acc. keeps_on R P (f x acc)) \<Longrightarrow> keeps_on R P (for_fold f xs acc)"
proof (induction xs arbitrary: acc)
  case (Cons x xs)
  then show ?case by (simp add: keeps_bind)
qed (simp add: holds_ret)

lemma keeps_statement: "(\<And>t x t'. P t \<Longrightarrow> f t = Inr (x, t') \<Longrightarrow> P t') \<Longrightarrow> keeps_on R P (sql f)"
  by (rule holds_sql) auto

end

lemma runs_if [db_intros]: "(b \<Longrightarrow> runs R P m Q E) \<Longrightarrow> (\<not> b \<Longrightarrow> runs R P n Q E) \<Longrightarrow> runs R P (if b then m else n) Q E"
  by simp

lemma runs_option [db_intros]:
  "(x = None \<Longrightarrow> runs R P m Q E) \<Longrightarrow> (\<And>y. x = Some y \<Longrightarrow> runs R P (n y) Q E) \<Longrightarrow>
     runs R P (case x of None \<Rightarrow> m | Some y \<Rightarrow> n y) Q E"
  by (cases x) simp_all

lemma runs_sum [db_intros]:
  "(\<And>y. x = Inl y \<Longrightarrow> runs R P (m y) Q E) \<Longrightarrow> (\<And>y. x = Inr y \<Longrightarrow> runs R P (n y) Q E) \<Longrightarrow>
     runs R P (case x of Inl y \<Rightarrow> m y | Inr y \<Rightarrow> n y) Q E"
  by (cases x) simp_all

lemma runs_prod [db_intros]: "(\<And>y z. x = (y, z) \<Longrightarrow> runs R P (m y z) Q E) \<Longrightarrow> runs R P (case x of (y, z) \<Rightarrow> m y z) Q E"
  by (cases x) simp

lemma runs_pre: "runs R P m Q E \<Longrightarrow> (\<And>t. P' t \<Longrightarrow> P t) \<Longrightarrow> runs R P' m Q E"
  by (simp add: runs_def)

lemma runs_post: "runs R P m Q E \<Longrightarrow> (\<And>x t. Q x t \<Longrightarrow> Q' x t) \<Longrightarrow> runs R P m Q' E"
  by (auto simp: runs_def split: sum.splits)

abbreviation calm :: "memory_store \<Rightarrow> bool" where
  "calm s \<equiv> ms_faults s = []"

interpretation any: run_logic "\<lambda>_. True"
  by unfold_locales simp_all

interpretation undisturbed: run_logic calm
  by unfold_locales simp_all

text \<open>Without failures a statement can only be refused by the tables themselves.\<close>

lemma undisturbed_sql:
  "(\<And>t msg. P t \<Longrightarrow> f t = Inl msg \<Longrightarrow> E t) \<Longrightarrow> (\<And>t x t'. P t \<Longrightarrow> f t = Inr (x, t') \<Longrightarrow> Q x t') \<Longrightarrow> runs calm P (sql f) Q E"
  by (auto simp: runs_def sql_def Let_def split: list.splits option.splits sum.splits)

text \<open>Evaluation of a run in which no statement fails.\<close>

lemma sql_calm [db_simps]:
  "calm s \<Longrightarrow> sql f s = (case f (ms_db s) of Inl msg \<Rightarrow> (Inl (Memory msg), s) | Inr (x, t) \<Rightarrow> (Inr x, s\<lparr>ms_db := t\<rparr>))"
  by (cases s) (auto simp: sql_def Let_def split: sum.splits)

lemma query_calm [db_simps]: "calm s \<Longrightarrow> query q s = (Inr (q (ms_db s)), s)"
  by (cases s) (simp add: query_def sql_calm)

lemma query_row_calm [db_simps]:
  "calm s \<Longrightarrow> query_row q s = (case q (ms_db s) of None \<Rightarrow> (Inl (Memory NO_ROWS), s) | Some x \<Rightarrow> (Inr x, s))"
  by (cases s) (auto simp: query_row_def sql_calm split: option.splits)

lemma andThen_eval [db_simps]:
  "m s = (Inr x, s') \<Longrightarrow> andThen m f s = f x s'"
  "m s = (Inl e, s') \<Longrightarrow> andThen m f s = (Inl e, s')"
  by (simp_all add: andThen_def)

lemma ret_eval [db_simps]: "ret x s = (Inr x, s)" and err_eval [db_simps]: "err e s = (Inl e, s)"
  and lift_result_eval [db_simps]: "lift_result r s = (r, s)"
  by (simp_all add: ret_def err_def lift_result_def)

lemma tx_control_calm [db_simps]: "calm s \<Longrightarrow> tx_control s = (Inr (), s)"
  by (simp add: tx_control_def sql_calm)

lemma transaction_calm:
  "m s = (r, s') \<Longrightarrow> calm s' \<Longrightarrow>
     transaction m s = (case r of Inl e \<Rightarrow> (Inl e, s'\<lparr>ms_db := ms_db s\<rparr>) | Inr x \<Rightarrow> (Inr x, s'))"
  by (cases r) (simp_all add: transaction_def tx_control_calm)

section \<open>Every statement keeps the integrity of the tables\<close>

lemma delete_memories_ids:
  "delete_memories p t = Inr (n, t') \<Longrightarrow> i \<in> set (memory_ids t) \<Longrightarrow>
     i \<notin> set (map mr_id (filter p (tb_memories t))) \<Longrightarrow> i \<in> set (memory_ids t')"
proof -
  assume d: "delete_memories p t = Inr (n, t')" and "i \<in> set (memory_ids t)"
    and out: "i \<notin> set (map mr_id (filter p (tb_memories t)))"
  then obtain r where "r \<in> set (tb_memories t)" "mr_id r = i" by auto
  moreover with out have "\<not> p r" by auto
  moreover have "tb_memories t' = filter (\<lambda>r. \<not> p r) (tb_memories t)" using d by (auto simp: delete_memories_def Let_def)
  ultimately show ?thesis by auto
qed

lemma cascade_ok:
  assumes "integrity t" and d: "delete_memories p t = Inr (n, t')"
  shows "integrity t'"
proof -
  note keep = delete_memories_ids [OF d]
  have "memories_ok t'" "dimensions_ok t'" "entities_ok t'" "provenance_ok t'"
    using assms by (auto simp: delete_memories_def Let_def integrity_defs list_all_iff distinct_map_filter)
  moreover have "embeddings_ok t'"
  proof -
    have "tb_embeddings t' = filter (\<lambda>e. er_memory_id e \<notin> set (map mr_id (filter p (tb_memories t)))) (tb_embeddings t)"
      using d by (auto simp: delete_memories_def Let_def)
    then show ?thesis using assms(1) keep by (simp add: integrity_def embeddings_ok_def list_all_iff distinct_map_filter)
  qed
  moreover have "edges_ok t'"
  proof -
    have "tb_edges t' = filter (\<lambda>e. ed_src_id e \<notin> set (map mr_id (filter p (tb_memories t))) \<and>
        ed_dst_id e \<notin> set (map mr_id (filter p (tb_memories t)))) (tb_edges t)"
      using d by (auto simp: delete_memories_def Let_def)
    then show ?thesis using assms(1) keep by (simp add: integrity_def edges_ok_def list_all_iff)
  qed
  moreover have "receipts_ok t'"
  proof -
    have "tb_receipts t' = filter (\<lambda>e. rc_memory_id e \<notin> set (map mr_id (filter p (tb_memories t)))) (tb_receipts t)"
      using d by (auto simp: delete_memories_def Let_def)
    then show ?thesis using assms(1) keep by (simp add: integrity_def receipts_ok_def list_all_iff distinct_map_filter)
  qed
  ultimately show ?thesis by (simp add: integrity_def)
qed

text \<open>The other statements change one table; the rest of the tables and the ids only grow.\<close>

lemma integrity_grow:
  assumes "integrity t" "set (memory_ids t) \<subseteq> set (memory_ids t')" "memories_ok t'"
    and "tb_embeddings t' = tb_embeddings t" "tb_embedding_models t' = tb_embedding_models t" "tb_edges t' = tb_edges t"
    and "tb_receipts t' = tb_receipts t" "tb_entities t' = tb_entities t" "tb_provenance t' = tb_provenance t"
    and "tb_memory_entities t' = tb_memory_entities t"
  shows "integrity t'"
  using assms by (auto simp: integrity_def embeddings_ok_def dimensions_ok_def edges_ok_def receipts_ok_def
      entities_ok_def provenance_ok_def list_all_iff subset_iff)

lemma insert_memory_ok: "integrity t \<Longrightarrow> insert_memory mk t = Inr (i, t') \<Longrightarrow> integrity t'"
  by (rule integrity_grow [of t])
    (fastforce simp: insert_memory_def Let_def integrity_def memories_ok_def list_all_iff split: if_splits)+

lemma update_memories_ids: "update_memories p f t = Inr (n, t') \<Longrightarrow> memory_ids t' = memory_ids t"
  by (auto simp: update_memories_def)

lemma update_memories_ok: "integrity t \<Longrightarrow> update_memories p f t = Inr (n, t') \<Longrightarrow> integrity t'"
  by (rule integrity_grow [of t], simp_all add: update_memories_ids integrity_def memories_ok_def)
    (auto simp: update_memories_def)

lemma fts_insert_ok: "integrity t \<Longrightarrow> fts_insert i b t = Inr (x, t') \<Longrightarrow> integrity t'"
  and fts_delete_ok: "integrity t \<Longrightarrow> fts_delete i b t = Inr (x, t') \<Longrightarrow> integrity t'"
  by (auto simp: fts_insert_def fts_delete_def integrity_defs)

lemma insert_or_ignore_edge_ok: "integrity t \<Longrightarrow> insert_or_ignore_edge e t = Inr (n, t') \<Longrightarrow> integrity t'"
  by (auto simp: insert_or_ignore_edge_def integrity_defs split: if_splits)

lemma delete_edges_ok: "integrity t \<Longrightarrow> delete_edges e t = Inr (n, t') \<Longrightarrow> integrity t'"
  by (auto simp: delete_edges_def integrity_defs list_all_iff)

lemma insert_or_ignore_entity_ok: "integrity t \<Longrightarrow> insert_or_ignore_entity p n t = Inr (x, t') \<Longrightarrow> integrity t'"
proof -
  have "e \<in> set es \<Longrightarrow> en_id e \<le> foldr max (map en_id es) 0" for e :: entity and es
    by (induction es) auto
  then have "next_entity_id t \<notin> en_id ` set (tb_entities t)" unfolding next_entity_id_def by force
  then show "integrity t \<Longrightarrow> insert_or_ignore_entity p n t = Inr (x, t') \<Longrightarrow> integrity t'"
    by (auto simp: insert_or_ignore_entity_def integrity_defs list_ex_iff split: if_splits)
qed

lemma insert_or_ignore_memory_entity_ok:
  "integrity t \<Longrightarrow> insert_or_ignore_memory_entity m e t = Inr (n, t') \<Longrightarrow> integrity t'"
  by (auto simp: insert_or_ignore_memory_entity_def integrity_defs split: if_splits)

lemma insert_provenance_ok: "integrity t \<Longrightarrow> insert_provenance v t = Inr (n, t') \<Longrightarrow> integrity t'"
  by (fastforce simp: insert_provenance_def integrity_defs list_ex_iff split: if_splits)

lemma insert_receipt_ok: "integrity t \<Longrightarrow> insert_receipt r t = Inr (n, t') \<Longrightarrow> integrity t'"
  by (auto simp: insert_receipt_def integrity_defs split: if_splits)

text \<open>A model enters the registry before its first vector; the registry never changes an entry.\<close>

lemma insert_or_ignore_model_ok: "integrity t \<Longrightarrow> insert_or_ignore_model m d t = Inr (n, t') \<Longrightarrow> integrity t'"
proof -
  assume i: "integrity t" and s: "insert_or_ignore_model m d t = Inr (n, t')"
  show "integrity t'"
  proof (cases "map_of (tb_embedding_models t) m \<noteq> None \<or> d \<le> 0")
    case True
    then show ?thesis using i s by (auto simp: insert_or_ignore_model_def)
  next
    case False
    then have t': "t' = t\<lparr>tb_embedding_models := tb_embedding_models t @ [(m, d)]\<rparr>" and new: "m \<notin> fst ` set (tb_embedding_models t)"
      using s by (auto simp: insert_or_ignore_model_def map_of_eq_None_iff)
    have "dimensions_ok t'" using i False new unfolding t' integrity_def dimensions_ok_def
      by (auto simp: list_all_iff map_add_def split: option.splits)
    then show ?thesis using i unfolding t' integrity_def
      by (simp add: memories_ok_def embeddings_ok_def edges_ok_def receipts_ok_def entities_ok_def provenance_ok_def)
  qed
qed

definition vector_fits :: "string \<Rightarrow> blob \<Rightarrow> tables \<Rightarrow> bool" where
  "vector_fits model v t \<longleftrightarrow> 4 dvd length v \<and> map_of (tb_embedding_models t) model = Some (int (length v div 4))"

lemma insert_or_ignore_embedding_ok:
  "integrity t \<Longrightarrow> vector_fits (er_model e) (er_vector e) t \<Longrightarrow> insert_or_ignore_embedding e t = Inr (n, t') \<Longrightarrow> integrity t'"
  by (auto simp: insert_or_ignore_embedding_def integrity_defs vector_fits_def split: if_splits)

lemma insert_or_replace_embedding_ok:
  "integrity t \<Longrightarrow> vector_fits (er_model e) (er_vector e) t \<Longrightarrow> insert_or_replace_embedding e t = Inr (n, t') \<Longrightarrow> integrity t'"
  by (auto simp: insert_or_replace_embedding_def integrity_defs vector_fits_def list_all_iff distinct_map_filter split: if_splits)

lemmas statement_ok = cascade_ok insert_memory_ok update_memories_ok fts_insert_ok fts_delete_ok insert_or_ignore_edge_ok
  delete_edges_ok insert_or_ignore_entity_ok insert_or_ignore_memory_entity_ok insert_provenance_ok insert_receipt_ok
  insert_or_ignore_model_ok

lemma keeps_integrity [db_intros]:
  "keeps integrity (sql (insert_memory mk))" "keeps integrity (sql (update_memories p f))"
  "keeps integrity (sql (delete_memories p))" "keeps integrity (sql (fts_insert i b))"
  "keeps integrity (sql (fts_delete i b))" "keeps integrity (sql (insert_or_ignore_edge e))"
  "keeps integrity (sql (delete_edges e))" "keeps integrity (sql (insert_or_ignore_entity pr nm))"
  "keeps integrity (sql (insert_or_ignore_memory_entity mi ei))" "keeps integrity (sql (insert_provenance v))"
  "keeps integrity (sql (insert_receipt r))" "keeps integrity (sql (insert_or_ignore_model m d))"
  by (rule any.keeps_statement, erule (1) statement_ok)+
text \<open>What a finished run says about its parts.\<close>

lemma sql_InrE:
  assumes "sql f s = (Inr x, s')"
  obtains "f (ms_db s) = Inr (x, ms_db s')" "ms_project_pin s' = ms_project_pin s" "ms_embedder s' = ms_embedder s"
  using assms by (auto simp: sql_def Let_def split: list.splits option.splits sum.splits)

lemma sql_InlE:
  assumes "sql f s = (Inl e, s')"
  obtains "ms_db s' = ms_db s"
  using assms by (auto simp: sql_def Let_def split: list.splits option.splits sum.splits)

lemma andThen_InrE:
  assumes "andThen m f s = (Inr y, s')"
  obtains x s1 where "m s = (Inr x, s1)" "f x s1 = (Inr y, s')"
  using assms by (auto simp: andThen_def split: prod.splits sum.splits)

lemma andThen_InlE:
  assumes "andThen m f s = (Inl e, s')"
  obtains "m s = (Inl e, s')" | x s1 where "m s = (Inr x, s1)" "f x s1 = (Inl e, s')"
  using assms by (auto simp: andThen_def split: prod.splits sum.splits)

end
