(* ===== verification/Memory_Store.thy ===== *)
theory Memory_Store
  imports Memory_Sql
begin

text \<open>
  \<^verbatim>\<open>crates/rtrt-memory/src/lib.rs\<close> (with \<^verbatim>\<open>role.rs\<close>, \<^verbatim>\<open>payload.rs\<close> and the vector
  encoding of \<^verbatim>\<open>embed.rs\<close>): the operations of \<^verbatim>\<open>MemoryStore\<close> as computations over the
  tables. The clock, the SHA-256 of a body, the full-text matcher, the summariser, the regex
  engine and the embedder are arguments. The results: every operation keeps the tables
  consistent wherever it stops, forwarded events are ingested exactly once, compression keeps
  the original, the search index mirrors the rows for all operations but two, and the two that
  break it.
\<close>

section \<open>Encodings\<close>

unbundle bit_operations_syntax

definition to_le_bytes :: "f32_bits \<Rightarrow> blob" where
  "to_le_bytes w = map (\<lambda>k. ucast (drop_bit (8 * k) w)) [0, 1, 2, 3]"

definition vector_to_blob :: "f32_bits list \<Rightarrow> blob" where
  "vector_to_blob v = concat (map to_le_bytes v)"

definition from_le_bytes :: "8 word \<Rightarrow> 8 word \<Rightarrow> 8 word \<Rightarrow> 8 word \<Rightarrow> f32_bits" where
  "from_le_bytes a b c d = ucast a OR push_bit 8 (ucast b) OR push_bit 16 (ucast c) OR push_bit 24 (ucast d)"

fun le_chunks :: "blob \<Rightarrow> f32_bits list" where
  "le_chunks (a # b # c # d # rest) = from_le_bytes a b c d # le_chunks rest"
| "le_chunks _ = []"

definition vector_from_blob :: "blob \<Rightarrow> error + f32_bits list" where
  "vector_from_blob blob =
     (if length blob mod 4 \<noteq> 0
      then Inl (Memory (''vector blob length '' @ nat_str (length blob) @ '' is not 4-aligned''))
      else Inr (le_chunks blob))"

section \<open>Records and roles\<close>

record memory_record =
  rec_id :: int
  rec_project :: string
  rec_kind :: string
  rec_body :: string
  rec_created_at :: int
  rec_scope :: memory_scope

text \<open>\<^verbatim>\<open>SELECT id, project, kind, body, created_at, scope\<close>.\<close>

definition to_record :: "memory_row \<Rightarrow> memory_record" where
  "to_record r = \<lparr>rec_id = mr_id r, rec_project = mr_project r, rec_kind = mr_kind r, rec_body = mr_body r,
     rec_created_at = mr_created_at r, rec_scope = scope_parse (mr_scope r)\<rparr>"

definition INPUT_KINDS :: "string list" where
  "INPUT_KINDS = [''user-prompt-submit'', ''user-prompt-expansion'']"

definition is_input_kind :: "string \<Rightarrow> bool" where
  "is_input_kind kind \<longleftrightarrow> kind \<in> set INPUT_KINDS"

definition normalize_role :: "string option \<Rightarrow> string option" where
  "normalize_role r = (case map_option trim r of
     None \<Rightarrow> None
   | Some s \<Rightarrow> if s = ''input'' then Some ''input'' else if s = ''output'' then Some ''output'' else None)"

definition role_matches :: "string option \<Rightarrow> string \<Rightarrow> bool" where
  "role_matches r kind = (case normalize_role r of
     None \<Rightarrow> True
   | Some s \<Rightarrow> if s = ''input'' then is_input_kind kind else if s = ''output'' then \<not> is_input_kind kind else True)"

text \<open>The predicate the \<^verbatim>\<open>WHERE\<close> fragment of \<^verbatim>\<open>role_sql_clause\<close> denotes.\<close>

definition role_sql_clause :: "string option \<Rightarrow> memory_row \<Rightarrow> bool" where
  "role_sql_clause r row = (case normalize_role r of
     None \<Rightarrow> True
   | Some s \<Rightarrow> if s = ''input'' then mr_kind row \<in> set INPUT_KINDS
       else if s = ''output'' then mr_kind row \<notin> set INPUT_KINDS else True)"

section \<open>Payload filters\<close>

datatype payload_predicate = Eq_payload string string | Neq_payload string string | Regex_payload string string

text \<open>A compiled regex is its pattern; \<open>is_match\<close> and \<open>compiles\<close> are those of the \<^verbatim>\<open>regex\<close> crate.\<close>

fun predicate_matches :: "(string \<Rightarrow> string \<Rightarrow> bool) \<Rightarrow> metadata \<Rightarrow> payload_predicate \<Rightarrow> bool" where
  "predicate_matches is_match payload (Eq_payload k v) = (bt_get payload k = Some v)"
| "predicate_matches is_match payload (Neq_payload k v) = (bt_get payload k \<noteq> Some v)"
| "predicate_matches is_match payload (Regex_payload k p) =
     (case bt_get payload k of None \<Rightarrow> False | Some v \<Rightarrow> is_match p v)"

definition filter_matches :: "(string \<Rightarrow> string \<Rightarrow> bool) \<Rightarrow> payload_predicate list \<Rightarrow> metadata \<Rightarrow> bool" where
  "filter_matches is_match ps payload = list_all (predicate_matches is_match payload) ps"

definition is_key_char :: "char \<Rightarrow> bool" where
  "is_key_char c \<longleftrightarrow> is_ascii_digit c \<or> 65 \<le> byte c \<and> byte c \<le> 90 \<or> 97 \<le> byte c \<and> byte c \<le> 122 \<or>
     c \<in> {CHR ''_'', CHR ''-'', CHR ''.''}"

definition validate_key :: "string \<Rightarrow> error + string" where
  "validate_key key = (let k = trim key in
     if k = [] then Inl (Memory ''payload predicate has empty key'')
     else if \<not> list_all is_key_char k
     then Inl (Memory (''payload key `'' @ k @ ''` may only contain [A-Za-z0-9_.-]''))
     else Inr k)"

fun split_once2 :: "char \<Rightarrow> char \<Rightarrow> string \<Rightarrow> (string \<times> string) option" where
  "split_once2 a b (x # y # s) =
     (if x = a \<and> y = b then Some ([], s) else map_option (\<lambda>(l, r). (x # l, r)) (split_once2 a b (y # s)))"
| "split_once2 a b _ = None"

definition parse_predicate :: "(string \<Rightarrow> string option) \<Rightarrow> string \<Rightarrow> error + payload_predicate" where
  "parse_predicate regex_error raw =
     (case split_once2 CHR ''!'' CHR ''='' raw of
        Some (k, v) \<Rightarrow> map_sum id (\<lambda>k. Neq_payload k v) (validate_key k)
      | None \<Rightarrow> (case split_once CHR ''~'' raw of
          Some (k, p) \<Rightarrow> (case regex_error p of
              Some e \<Rightarrow> Inl (Memory (''invalid regex `'' @ p @ ''`: '' @ e))
            | None \<Rightarrow> map_sum id (\<lambda>k. Regex_payload k p) (validate_key k))
        | None \<Rightarrow> (case split_once CHR ''='' raw of
            Some (k, v) \<Rightarrow> map_sum id (\<lambda>k. Eq_payload k v) (validate_key k)
          | None \<Rightarrow> Inl (Memory (''unrecognised payload predicate: `'' @ raw @
              ''` (expected key=val, key!=val, key~regex)'')))))"

fun parse_predicates :: "(string \<Rightarrow> string option) \<Rightarrow> string list \<Rightarrow> error + payload_predicate list" where
  "parse_predicates re [] = Inr []"
| "parse_predicates re (r # rs) = (case parse_predicate re r of
     Inl e \<Rightarrow> Inl e | Inr p \<Rightarrow> map_sum id (\<lambda>ps. p # ps) (parse_predicates re rs))"

definition filter_parse :: "(string \<Rightarrow> string option) \<Rightarrow> string \<Rightarrow> error + payload_predicate list" where
  "filter_parse re input =
     parse_predicates re (filter (\<lambda>s. s \<noteq> []) (map trim (concat (map split_whitespace (split_char CHR '','' input)))))"

section \<open>Reading rows\<close>

text \<open>\<^verbatim>\<open>ORDER BY created_at ASC, id ASC\<close>; the descending order is its reverse.\<close>

definition oldest_first :: "memory_row list \<Rightarrow> memory_row list" where
  "oldest_first rs = sort_key mr_created_at (sort_key mr_id rs)"

definition rows_where :: "(memory_row \<Rightarrow> bool) \<Rightarrow> tables \<Rightarrow> memory_row list" where
  "rows_where p t = filter p (tb_memories t)"

definition body_seen_at :: "string \<Rightarrow> string \<Rightarrow> int option db" where
  "body_seen_at project sha = query (\<lambda>t.
     case rev (oldest_first (rows_where (\<lambda>r. mr_project r = project \<and> mr_body_sha r = Some sha) t)) of
       [] \<Rightarrow> None | r # _ \<Rightarrow> Some (mr_created_at r))"

definition source_kind_is :: "string option \<Rightarrow> memory_row \<Rightarrow> bool" where
  "source_kind_is sk r \<longleftrightarrow> sk = None \<or> bt_get (mr_metadata r) ''source_kind'' = sk"

definition recent_paged_filtered ::
  "string \<Rightarrow> nat \<Rightarrow> nat \<Rightarrow> string option \<Rightarrow> string option \<Rightarrow> memory_record list db" where
  "recent_paged_filtered project limit offset source_kind r = query (\<lambda>t. map to_record (take limit (drop offset
     (rev (oldest_first (rows_where (\<lambda>row. mr_project row = project \<and> source_kind_is source_kind row \<and>
       role_sql_clause r row) t))))))"

definition recent_paged :: "string \<Rightarrow> nat \<Rightarrow> nat \<Rightarrow> memory_record list db" where
  "recent_paged project limit offset = recent_paged_filtered project limit offset None None"

definition recent :: "string \<Rightarrow> nat \<Rightarrow> memory_record list db" where
  "recent project limit = recent_paged project limit 0"

definition count_by_project_filtered :: "string \<Rightarrow> string option \<Rightarrow> string option \<Rightarrow> nat db" where
  "count_by_project_filtered project source_kind r = query (\<lambda>t. length (rows_where
     (\<lambda>row. mr_project row = project \<and> source_kind_is source_kind row \<and> role_sql_clause r row) t))"

definition count_by_project :: "string \<Rightarrow> nat db" where
  "count_by_project project = count_by_project_filtered project None None"

text \<open>\<^verbatim>\<open>LENGTH\<close> of a text counts its characters before the first NUL.\<close>

definition sql_length :: "string \<Rightarrow> nat" where
  "sql_length s = chars_count (takeWhile (\<lambda>c. c \<noteq> CHR 0x00) s)"

definition storage_reduction :: "string \<Rightarrow> (nat \<times> nat) db" where
  "storage_reduction project = query (\<lambda>t. let rs = rows_where (\<lambda>r. mr_project r = project) t in
     (sum_list (map (\<lambda>r. sql_length (case mr_body_full r of Some b \<Rightarrow> b | None \<Rightarrow> mr_body r)) rs),
      sum_list (map (\<lambda>r. sql_length (mr_body r)) rs)))"

text \<open>
  Groups come out in the order of their key; \<^verbatim>\<open>ORDER BY\<close> on the newest row then sorts them,
  the order of equal ones being the engine's choice.
\<close>

definition group_keys :: "('a \<Rightarrow> 'k::linorder) \<Rightarrow> 'a list \<Rightarrow> 'k list" where
  "group_keys f rs = sort (remdups (map f rs))"

definition max_created :: "memory_row list \<Rightarrow> int" where
  "max_created rs = (case rev (oldest_first rs) of [] \<Rightarrow> 0 | r # _ \<Rightarrow> mr_created_at r)"

definition min_created :: "memory_row list \<Rightarrow> int" where
  "min_created rs = (case oldest_first rs of [] \<Rightarrow> 0 | r # _ \<Rightarrow> mr_created_at r)"

definition projects :: "(string \<times> nat \<times> int) list db" where
  "projects = query (\<lambda>t. sort_key (\<lambda>(_, _, latest). - latest) (map (\<lambda>p.
     let rs = rows_where (\<lambda>r. mr_project r = p) t in (p, length rs, max_created rs))
       (group_keys mr_project (tb_memories t))))"

definition session_key :: "memory_row \<Rightarrow> string" where
  "session_key r = (case mr_session_id r of None \<Rightarrow> [] | Some s \<Rightarrow> s)"

definition sessions :: "string \<Rightarrow> (string \<times> nat \<times> int \<times> int) list db" where
  "sessions project = query (\<lambda>t. let rs = rows_where (\<lambda>r. mr_project r = project) t in
     sort_key (\<lambda>(_, _, _, latest). - latest) (map (\<lambda>sid.
       let g = filter (\<lambda>r. session_key r = sid) rs in (sid, length g, min_created g, max_created g))
         (group_keys session_key rs)))"

definition session_records :: "string \<Rightarrow> string \<Rightarrow> nat \<Rightarrow> memory_record list db" where
  "session_records project session_id limit = query (\<lambda>t. map to_record (take limit (rev (oldest_first
     (rows_where (\<lambda>r. mr_project r = project \<and> session_key r = session_id) t)))))"

definition list_by_project :: "string \<Rightarrow> nat \<Rightarrow> memory_record list db" where
  "list_by_project project limit = query (\<lambda>t. map to_record (take limit
     (oldest_first (rows_where (\<lambda>r. mr_project r = project) t))))"

definition project_edges :: "string \<Rightarrow> (int \<times> int \<times> string) list db" where
  "project_edges project = query (\<lambda>t. map (\<lambda>e. (ed_src_id e, ed_dst_id e, ed_relation e)) (filter (\<lambda>e.
     list_ex (\<lambda>r. mr_id r = ed_src_id e \<and> mr_project r = project) (tb_memories t) \<and>
     list_ex (\<lambda>r. mr_id r = ed_dst_id e \<and> mr_project r = project) (tb_memories t)) (tb_edges t)))"

definition get_metadata :: "int \<Rightarrow> metadata db" where
  "get_metadata i = query_row (\<lambda>t. map_option mr_metadata (find_row t i))"

definition full_body :: "int \<Rightarrow> string option db" where
  "full_body i = query_row (\<lambda>t. map_option mr_body_full (find_row t i))"

text \<open>
  \<^verbatim>\<open>LIKE\<close> ignores the case of ASCII letters; \<open>to_json\<close> prints the metadata the way the column
  stores it.
\<close>

definition compress_candidates :: "(metadata \<Rightarrow> string) \<Rightarrow> string \<Rightarrow> int \<Rightarrow> nat \<Rightarrow> nat \<Rightarrow> (int \<times> string) list db" where
  "compress_candidates to_json project older_than_ts min_chars limit = query (\<lambda>t.
     map (\<lambda>r. (mr_id r, mr_body r)) (take limit (oldest_first (rows_where (\<lambda>r. mr_project r = project \<and>
       mr_created_at r < older_than_ts \<and> min_chars \<le> sql_length (mr_body r) \<and>
       \<not> contains_str (to_ascii_lowercase (to_json (mr_metadata r))) ''compressed_at'') t))))"

definition embedded_ids :: "tables \<Rightarrow> int list" where
  "embedded_ids t = map er_memory_id (tb_embeddings t)"

definition unembedded_count :: "nat db" where
  "unembedded_count = query (\<lambda>t. length (rows_where (\<lambda>r. mr_id r \<notin> set (embedded_ids t)) t))"

definition unembedded_batch :: "nat \<Rightarrow> (int \<times> string \<times> string) list db" where
  "unembedded_batch limit = query (\<lambda>t. map (\<lambda>r. (mr_id r, mr_project r, mr_body r)) (take limit
     (rev (sort_key mr_id (rows_where (\<lambda>r. mr_id r \<notin> set (embedded_ids t)) t)))))"

definition needs_reembed :: "string \<Rightarrow> string option \<Rightarrow> tables \<Rightarrow> memory_row \<Rightarrow> bool" where
  "needs_reembed target_model project t r \<longleftrightarrow> (project = None \<or> Some (mr_project r) = project) \<and>
     \<not> list_ex (\<lambda>e. er_memory_id e = mr_id r \<and> er_model e = target_model) (tb_embeddings t)"

definition reembed_batch :: "string \<Rightarrow> string option \<Rightarrow> nat \<Rightarrow> (int \<times> string \<times> string) list db" where
  "reembed_batch target_model project limit = query (\<lambda>t. map (\<lambda>r. (mr_id r, mr_project r, mr_body r)) (take limit
     (sort_key mr_id (rows_where (needs_reembed target_model project t) t))))"

definition reembed_pending_count :: "string \<Rightarrow> string option \<Rightarrow> nat db" where
  "reembed_pending_count target_model project = query (\<lambda>t. length (rows_where (needs_reembed target_model project t) t))"

definition count_project_embeddings :: "string \<Rightarrow> (embedding_row \<Rightarrow> bool) \<Rightarrow> nat db" where
  "count_project_embeddings project p = query (\<lambda>t. length (filter (\<lambda>e. p e \<and>
     list_ex (\<lambda>r. mr_id r = er_memory_id e \<and> mr_project r = project) (tb_memories t)) (tb_embeddings t)))"

definition embedding_coverage :: "string \<Rightarrow> (nat \<times> nat) db" where
  "embedding_coverage project =
     andThen (query (\<lambda>t. length (rows_where (\<lambda>r. mr_project r = project) t))) (\<lambda>n.
     andThen (count_project_embeddings project (\<lambda>_. True)) (\<lambda>embedded. ret (embedded, n)))"

definition embedding_coverage_for_model :: "string \<Rightarrow> string \<Rightarrow> (nat \<times> nat) db" where
  "embedding_coverage_for_model project model =
     andThen (query (\<lambda>t. length (rows_where (\<lambda>r. mr_project r = project) t))) (\<lambda>n.
     andThen (count_project_embeddings project (\<lambda>e. er_model e = model)) (\<lambda>embedded. ret (embedded, n)))"

definition invocation_provenance_of :: "string \<Rightarrow> invocation_provenance option db" where
  "invocation_provenance_of child = query (\<lambda>t. List.find (\<lambda>v. ip_child_session_id v = child) (tb_provenance t))"
section \<open>Vectors and their dimensions\<close>

definition embed_one :: "embedder \<Rightarrow> string \<Rightarrow> error + f32_bits list" where
  "embed_one e body = (case em_embed e [body] of
     Inl er \<Rightarrow> Inl er
   | Inr out \<Rightarrow> if out = [] then Inl (Memory ''embedder returned no vector'') else Inr (last out))"

definition mismatch :: "nat \<Rightarrow> string \<Rightarrow> nat \<Rightarrow> error" where
  "mismatch dimension model registered = Memory (''embedding dimension '' @ nat_str dimension @
     '' does not match `'' @ model @ ''` dimension '' @ nat_str registered)"

fun common_dimension :: "string \<Rightarrow> nat option \<Rightarrow> nat list \<Rightarrow> error + nat option" where
  "common_dimension model d [] = Inr d"
| "common_dimension model d (n # ns) =
     (if n mod 4 \<noteq> 0
      then Inl (Memory (''stored `'' @ model @ ''` vector has invalid byte length '' @ nat_str n))
      else if d \<noteq> None \<and> d \<noteq> Some (n div 4)
      then Inl (Memory (''stored `'' @ model @ ''` vectors have mixed dimensions '' @ nat_str (the d) @
        '' and '' @ nat_str (n div 4)))
      else common_dimension model (Some (n div 4)) ns)"

definition embedding_dimension_for_model :: "string \<Rightarrow> nat option db" where
  "embedding_dimension_for_model model =
     andThen (query (\<lambda>t. remdups (map (\<lambda>e. length (er_vector e)) (filter (\<lambda>e. er_model e = model) (tb_embeddings t)))))
       (\<lambda>ns. lift_result (common_dimension model None ns))"

definition registered_dimension :: "string \<Rightarrow> tables \<Rightarrow> int option" where
  "registered_dimension model t = map_of (tb_embedding_models t) model"

definition check_registered :: "string \<Rightarrow> nat \<Rightarrow> int \<Rightarrow> unit db" where
  "check_registered model dimension registered =
     (if registered < 0 then err (Memory ''registered embedding dimension overflow'')
      else if nat registered \<noteq> dimension then err (mismatch dimension model (nat registered))
      else ret ())"

text \<open>The second half of \<^verbatim>\<open>ensure_embedding_model_dimension\<close>: a model without a registry entry.\<close>

definition claim_model_dimension :: "string \<Rightarrow> nat \<Rightarrow> unit db" where
  "claim_model_dimension model dimension =
     andThen (embedding_dimension_for_model model) (\<lambda>existing.
       if existing \<noteq> None \<and> existing \<noteq> Some dimension
       then err (Memory (''embedding dimension '' @ nat_str dimension @ '' does not match stored `'' @ model @
         ''` dimension '' @ nat_str (the existing)))
       else andThen (sql (insert_or_ignore_model model (min (int dimension) I64_MAX))) (\<lambda>_.
         andThen (query_row (registered_dimension model)) (check_registered model dimension)))"

definition ensure_embedding_model_dimension :: "string \<Rightarrow> nat \<Rightarrow> unit db" where
  "ensure_embedding_model_dimension model dimension =
     (if dimension = 0 then err (Memory ''embedding vector must not be empty'')
      else andThen (query (registered_dimension model)) (\<lambda>registered. case registered of
        Some r \<Rightarrow> check_registered model dimension r
      | None \<Rightarrow> claim_model_dimension model dimension))"

definition store_embedding :: "int \<Rightarrow> string \<Rightarrow> f32_bits list \<Rightarrow> unit db" where
  "store_embedding memory_id model vector =
     andThen (ensure_embedding_model_dimension model (length vector)) (\<lambda>_.
       sql (insert_or_ignore_embedding \<lparr>er_memory_id = memory_id, er_model = model, er_vector = vector_to_blob vector\<rparr>))"

definition store_embedding_replace :: "int \<Rightarrow> string \<Rightarrow> f32_bits list \<Rightarrow> unit db" where
  "store_embedding_replace memory_id model vector =
     andThen (ensure_embedding_model_dimension model (length vector)) (\<lambda>_.
       sql (insert_or_replace_embedding \<lparr>er_memory_id = memory_id, er_model = model, er_vector = vector_to_blob vector\<rparr>))"

definition store_embedding_replace_checked :: "int \<Rightarrow> string \<Rightarrow> f32_bits list \<Rightarrow> nat \<Rightarrow> unit db" where
  "store_embedding_replace_checked memory_id model vector expected_dimension =
     (if length vector \<noteq> expected_dimension then err (mismatch (length vector) model expected_dimension)
      else store_embedding_replace memory_id model vector)"

section \<open>Writing rows\<close>

text \<open>The system clock in seconds since the epoch; a clock before it is an error.\<close>

definition now_secs :: "int \<Rightarrow> error + int" where
  "now_secs clock = (if clock < 0 then Inl (Memory ''second time provided was later than self'') else Inr clock)"

definition new_row :: "string \<Rightarrow> string \<Rightarrow> string \<Rightarrow> int \<Rightarrow> memory_scope \<Rightarrow> int \<Rightarrow> memory_row" where
  "new_row project kind body now scope i = \<lparr>mr_id = i, mr_project = project, mr_kind = kind, mr_body = body,
     mr_created_at = now, mr_scope = scope_as_str scope, mr_metadata = [], mr_session_id = None,
     mr_body_sha = None, mr_body_full = None\<rparr>"

definition auto_embed :: "int \<Rightarrow> string \<Rightarrow> unit db" where
  "auto_embed i body s = (case ms_embedder s of
     None \<Rightarrow> ret () s
   | Some e \<Rightarrow> andThen (lift_result (embed_one e body)) (store_embedding i (em_model_name e)) s)"

definition save_scoped :: "int \<Rightarrow> string \<Rightarrow> string \<Rightarrow> string \<Rightarrow> memory_scope \<Rightarrow> int db" where
  "save_scoped clock project kind body scope =
     andThen (lift_result (now_secs clock)) (\<lambda>now.
     andThen (sql (insert_memory (new_row project kind body now scope))) (\<lambda>i.
     andThen (sql (fts_insert i body)) (\<lambda>_.
     andThen (auto_embed i body) (\<lambda>_. ret i))))"

definition save :: "int \<Rightarrow> string \<Rightarrow> string \<Rightarrow> string \<Rightarrow> int db" where
  "save clock project kind body = save_scoped clock project kind body Project_scope"

definition save_embedded :: "int \<Rightarrow> string \<Rightarrow> string \<Rightarrow> string \<Rightarrow> embedder \<Rightarrow> int db" where
  "save_embedded clock project kind body e =
     andThen (save clock project kind body) (\<lambda>i.
     andThen (lift_result (embed_one e body)) (\<lambda>vector.
     andThen (store_embedding i (em_model_name e) vector) (\<lambda>_. ret i)))"

abbreviation with_id :: "int \<Rightarrow> memory_row \<Rightarrow> bool" where
  "with_id i r \<equiv> mr_id r = i"

definition set_metadata :: "int \<Rightarrow> metadata \<Rightarrow> unit db" where
  "set_metadata i m = andThen (sql (update_memories (with_id i) (\<lambda>r. r\<lparr>mr_metadata := m\<rparr>))) (\<lambda>_. ret ())"

definition save_with_metadata :: "int \<Rightarrow> string \<Rightarrow> string \<Rightarrow> string \<Rightarrow> metadata \<Rightarrow> int db" where
  "save_with_metadata clock project kind body m =
     andThen (save clock project kind body) (\<lambda>i. andThen (set_metadata i m) (\<lambda>_. ret i))"

definition coalesce :: "'a option \<Rightarrow> 'a option \<Rightarrow> 'a option" where
  "coalesce a b = (case a of Some x \<Rightarrow> Some x | None \<Rightarrow> b)"

definition tag_row :: "int \<Rightarrow> string option \<Rightarrow> string option \<Rightarrow> unit db" where
  "tag_row i session_id sha = andThen (sql (update_memories (with_id i) (\<lambda>r.
     r\<lparr>mr_session_id := coalesce session_id (mr_session_id r), mr_body_sha := coalesce sha (mr_body_sha r)\<rparr>))) (\<lambda>_. ret ())"

definition provenance_patch :: "string \<Rightarrow> invocation_provenance option \<Rightarrow> (string \<times> string) list" where
  "provenance_patch source_kind provenance = (''source_kind'', source_kind) #
     (case provenance of None \<Rightarrow> [] | Some v \<Rightarrow>
        (''invocation_id'', ip_invocation_id v) # concat (map (\<lambda>(k, x). case x of None \<Rightarrow> [] | Some y \<Rightarrow> [(k, y)])
          [(''parent_session_id'', ip_parent_session_id v), (''parent_call_id'', ip_parent_call_id v),
           (''caller_agent'', ip_caller_agent v), (''child_target'', ip_target v), (''child_model'', ip_model v)]))"

text \<open>\<^verbatim>\<open>json_patch\<close> with string values overrides the keys it names.\<close>

definition json_patch :: "metadata \<Rightarrow> (string \<times> string) list \<Rightarrow> metadata" where
  "json_patch m patch = foldl (\<lambda>m (k, v). bt_insert k v m) m patch"

definition reattribute_with_provenance ::
  "int \<Rightarrow> string \<Rightarrow> string option \<Rightarrow> invocation_provenance option \<Rightarrow> unit db" where
  "reattribute_with_provenance i source_kind project provenance =
     andThen (sql (update_memories (with_id i) (\<lambda>r. r\<lparr>
       mr_project := (case project of Some p \<Rightarrow> p | None \<Rightarrow> mr_project r),
       mr_metadata := json_patch (mr_metadata r) (provenance_patch source_kind provenance)\<rparr>))) (\<lambda>_. ret ())"

definition reattribute :: "int \<Rightarrow> string \<Rightarrow> string option \<Rightarrow> unit db" where
  "reattribute i source_kind project = reattribute_with_provenance i source_kind project None"

definition reassign_project :: "string \<Rightarrow> string \<Rightarrow> nat db" where
  "reassign_project old new = sql (update_memories (\<lambda>r. mr_project r = old) (\<lambda>r. r\<lparr>mr_project := new\<rparr>))"

definition upsert_invocation_provenance :: "invocation_provenance \<Rightarrow> unit db" where
  "upsert_invocation_provenance v = sql (insert_provenance v)"

definition set_body :: "int \<Rightarrow> string \<Rightarrow> unit db" where
  "set_body i new_body =
     andThen (query_row (\<lambda>t. map_option mr_body (find_row t i))) (\<lambda>old_body.
     andThen (sql (update_memories (with_id i) (\<lambda>r. r\<lparr>mr_body := new_body\<rparr>))) (\<lambda>_.
     andThen (sql (fts_delete i old_body)) (\<lambda>_.
     sql (fts_insert i new_body))))"

definition compress_in_place :: "int \<Rightarrow> string \<Rightarrow> unit db" where
  "compress_in_place i compressed =
     andThen (query_row (\<lambda>t. map_option (\<lambda>r. mr_body_full r \<noteq> None) (find_row t i))) (\<lambda>has_full.
     andThen (if has_full then ret ()
       else andThen (sql (update_memories (with_id i) (\<lambda>r. r\<lparr>mr_body_full := Some (mr_body r)\<rparr>))) (\<lambda>_. ret ())) (\<lambda>_.
     set_body i compressed))"

section \<open>Deleting\<close>

text \<open>\<^verbatim>\<open>INSERT INTO memories_fts ... SELECT 'delete', id, body FROM memories WHERE id = ?1\<close>.\<close>

definition fts_delete_row :: "int \<Rightarrow> tables \<Rightarrow> string + (unit \<times> tables)" where
  "fts_delete_row i t = (case find_row t i of None \<Rightarrow> Inr ((), t) | Some r \<Rightarrow> fts_delete i (mr_body r) t)"

definition delete_memory :: "int \<Rightarrow> unit db" where
  "delete_memory i =
     andThen (sql (fts_delete_row i)) (\<lambda>_.
     andThen (sql (delete_memories (with_id i))) (\<lambda>_. ret ()))"

definition delete_row :: "int \<Rightarrow> bool db" where
  "delete_row i =
     andThen (query (\<lambda>t. map_option mr_body (find_row t i))) (\<lambda>body. case body of
       None \<Rightarrow> ret False
     | Some old_body \<Rightarrow> andThen (sql (fts_delete i old_body)) (\<lambda>_.
         andThen (sql (delete_memories (with_id i))) (\<lambda>_. ret True)))"

text \<open>
  \<open>bind_error n k\<close> is the answer of the database library to \<open>k\<close> values for a statement with
  \<open>n\<close> placeholders.
\<close>

definition delete_rows :: "(nat \<Rightarrow> nat \<Rightarrow> string option) \<Rightarrow> int list \<Rightarrow> nat db" where
  "delete_rows bind_error ids =
     (if ids = [] then ret 0
      else andThen (query (\<lambda>t. map (\<lambda>r. (mr_id r, mr_body r)) (rows_where (\<lambda>r. mr_id r \<in> set ids) t))) (\<lambda>found.
        if found = [] then ret 0
        else andThen (for_each (\<lambda>(i, old_body). sql (fts_delete i old_body)) found) (\<lambda>_.
          andThen (case bind_error (length ids) (length found) of
              Some msg \<Rightarrow> err (Memory msg)
            | None \<Rightarrow> sql (delete_memories (\<lambda>r. mr_id r \<in> set (map fst found)))) (\<lambda>_.
          ret (length found)))))"

section \<open>Forwarded events\<close>

record forwarded_event =
  fe_event_id :: string
  fe_source_guest :: string
  fe_source_project :: string
  fe_kind :: string
  fe_body :: string
  fe_metadata :: metadata
  fe_session_id :: "string option"

record ingest_outcome =
  io_memory_id :: int
  io_inserted :: bool

definition event_key :: "forwarded_event \<Rightarrow> string \<times> string \<times> string" where
  "event_key ev = (fe_event_id ev, fe_source_guest ev, fe_source_project ev)"

definition receipt_of :: "forwarded_event \<Rightarrow> tables \<Rightarrow> int option" where
  "receipt_of ev t = map_option rc_memory_id (List.find (\<lambda>r. receipt_key r = event_key ev) (tb_receipts t))"

definition forwarded_receipt_memory_id :: "forwarded_event \<Rightarrow> int option db" where
  "forwarded_receipt_memory_id ev = query (receipt_of ev)"

definition insert_forwarded_rows :: "forwarded_event \<Rightarrow> string \<Rightarrow> metadata \<Rightarrow> string \<Rightarrow> int \<Rightarrow> int db" where
  "insert_forwarded_rows ev project m sha created_at =
     andThen (sql (insert_memory (\<lambda>i. (new_row project (fe_kind ev) (fe_body ev) created_at Project_scope i)
       \<lparr>mr_metadata := m, mr_session_id := fe_session_id ev, mr_body_sha := Some sha\<rparr>))) (\<lambda>memory_id.
     andThen (sql (fts_insert memory_id (fe_body ev))) (\<lambda>_.
     andThen (sql (insert_receipt \<lparr>rc_event_id = fe_event_id ev, rc_source_guest = fe_source_guest ev,
       rc_source_project = fe_source_project ev, rc_memory_id = memory_id, rc_received_at = created_at\<rparr>)) (\<lambda>_.
     ret memory_id)))"

definition forwarded_metadata :: "forwarded_event \<Rightarrow> metadata" where
  "forwarded_metadata ev = bt_insert ''source_project'' (fe_source_project ev)
     (bt_insert ''source_guest'' (fe_source_guest ev) (fe_metadata ev))"

definition EMPTY_IDENTITY :: string where
  "EMPTY_IDENTITY = ''forwarded event requires a non-empty event_id, source_guest, and source_project''"

text \<open>
  The event has no receipt: insert its rows in the transaction. \<open>others\<close> is what other connections
  commit between a transaction that failed and the read that follows it.
\<close>

definition ingest_fallback ::
  "(tables \<Rightarrow> tables) \<Rightarrow> forwarded_event \<Rightarrow> error \<Rightarrow> ingest_outcome db" where
  "ingest_fallback others ev e =
     andThen (others_commit others) (\<lambda>_.
     andThen (forwarded_receipt_memory_id ev) (\<lambda>winner. case winner of
       Some memory_id \<Rightarrow> ret \<lparr>io_memory_id = memory_id, io_inserted = False\<rparr>
     | None \<Rightarrow> err e))"

definition ingest_new ::
  "int \<Rightarrow> (string \<Rightarrow> string) \<Rightarrow> (tables \<Rightarrow> tables) \<Rightarrow> forwarded_event \<Rightarrow> string \<Rightarrow> ingest_outcome db" where
  "ingest_new clock body_sha others ev project =
     andThen (lift_result (now_secs clock)) (\<lambda>now.
     andThen (attempt (transaction
       (insert_forwarded_rows ev project (forwarded_metadata ev) (body_sha (fe_body ev)) now))) (\<lambda>outcome.
     case outcome of
       Inr memory_id \<Rightarrow> ret \<lparr>io_memory_id = memory_id, io_inserted = True\<rparr>
     | Inl e \<Rightarrow> ingest_fallback others ev e))"

text \<open>A transaction dropped after the gate has written nothing.\<close>

definition ingest_forwarded ::
  "int \<Rightarrow> (string \<Rightarrow> string) \<Rightarrow> (tables \<Rightarrow> tables) \<Rightarrow> forwarded_event \<Rightarrow> ingest_outcome db" where
  "ingest_forwarded clock body_sha others ev s =
     (if fe_event_id ev = [] \<or> fe_source_guest ev = [] \<or> fe_source_project ev = [] then err (Memory EMPTY_IDENTITY) s
      else let project = (case ms_project_pin s of Some slug \<Rightarrow> slug | None \<Rightarrow> fe_source_project ev) in
        andThen tx_control (\<lambda>_.
        andThen (forwarded_receipt_memory_id ev) (\<lambda>known. case known of
          Some memory_id \<Rightarrow> ret \<lparr>io_memory_id = memory_id, io_inserted = False\<rparr>
        | None \<Rightarrow> ingest_new clock body_sha others ev project)) s)"

section \<open>Graph and entities\<close>

definition add_edge :: "int \<Rightarrow> int \<Rightarrow> string \<Rightarrow> bool db" where
  "add_edge src dst relation =
     andThen (sql (insert_or_ignore_edge \<lparr>ed_src_id = src, ed_dst_id = dst, ed_relation = relation\<rparr>)) (\<lambda>affected.
     ret (0 < affected))"

definition delete_edge :: "int \<Rightarrow> int \<Rightarrow> string \<Rightarrow> unit db" where
  "delete_edge src dst relation = sql (delete_edges \<lparr>ed_src_id = src, ed_dst_id = dst, ed_relation = relation\<rparr>)"

definition upsert_entity :: "string \<Rightarrow> string \<Rightarrow> int db" where
  "upsert_entity project name =
     andThen (sql (insert_or_ignore_entity project name)) (\<lambda>_.
     query_row (\<lambda>t. map_option en_id (List.find (\<lambda>e. en_project e = project \<and> en_name e = name) (tb_entities t))))"

definition link_memory_entity :: "int \<Rightarrow> int \<Rightarrow> bool db" where
  "link_memory_entity memory_id entity_id =
     andThen (sql (insert_or_ignore_memory_entity memory_id entity_id)) (\<lambda>changed. ret (0 < changed))"

definition without_quotes :: "string \<Rightarrow> string" where
  "without_quotes s = filter (\<lambda>c. c \<noteq> CHR 34) s"

definition link_extracted_bipartite :: "string \<Rightarrow> (int \<times> string list) list \<Rightarrow> nat db" where
  "link_extracted_bipartite project extracted =
     for_fold (\<lambda>source. for_fold (\<lambda>name new_links.
       let cleaned = trim (without_quotes (trim name)) in
       if cleaned = [] then ret new_links
       else andThen (upsert_entity project cleaned) (\<lambda>entity_id.
         andThen (link_memory_entity (fst source) entity_id) (\<lambda>created.
         ret (if created then new_links + 1 else new_links)))) (snd source)) extracted 0"

section \<open>Blocks\<close>

definition BLOCK_KIND_PREFIX :: string where "BLOCK_KIND_PREFIX = ''block:''"

definition block_kind :: "string \<Rightarrow> string" where
  "block_kind name = BLOCK_KIND_PREFIX @ name"

definition set_block :: "int \<Rightarrow> string \<Rightarrow> string \<Rightarrow> string \<Rightarrow> int db" where
  "set_block clock project name body =
     andThen (sql (delete_memories (\<lambda>r. mr_project r = project \<and> mr_kind r = block_kind name))) (\<lambda>_.
     save clock project (block_kind name) body)"

definition get_block :: "string \<Rightarrow> string \<Rightarrow> memory_record option db" where
  "get_block project name = query (\<lambda>t.
     case sort_key (\<lambda>r. - mr_created_at r) (rows_where (\<lambda>r. mr_project r = project \<and> mr_kind r = block_kind name) t) of
       [] \<Rightarrow> None | r # _ \<Rightarrow> Some (to_record r))"

text \<open>\<^verbatim>\<open>LIKE 'block:%'\<close> also accepts other capitalisations of the prefix.\<close>

definition list_blocks :: "string \<Rightarrow> memory_record list db" where
  "list_blocks project = query (\<lambda>t. map to_record (sort_key mr_kind (sort_key (\<lambda>r. - mr_created_at r)
     (rows_where (\<lambda>r. mr_project r = project \<and> starts_with (to_ascii_lowercase (mr_kind r)) BLOCK_KIND_PREFIX) t))))"

section \<open>Ingestion and consolidation\<close>

record unique_ingest =
  ui_added_ids :: "int list"
  ui_skipped :: nat

text \<open>The summariser's answers (\<open>facts\<close>, \<open>summary\<close>) are arguments.\<close>

definition extract_and_save :: "int \<Rightarrow> string \<Rightarrow> string \<Rightarrow> error + string list \<Rightarrow> int list db" where
  "extract_and_save clock project kind facts =
     andThen (lift_result facts) (\<lambda>fs. for_fold (\<lambda>fact ids.
       andThen (save clock project kind fact) (\<lambda>i. ret (ids @ [i]))) fs [])"

definition extract_and_save_unique :: "int \<Rightarrow> string \<Rightarrow> string \<Rightarrow> error + string list \<Rightarrow> unique_ingest db" where
  "extract_and_save_unique clock project kind facts =
     andThen (lift_result facts) (\<lambda>fs.
     andThen (list_by_project project 10000) (\<lambda>existing.
     andThen (for_fold (\<lambda>fact (seen, out).
       if fact \<in> set seen then ret (seen, out\<lparr>ui_skipped := ui_skipped out + 1\<rparr>)
       else andThen (save clock project kind fact) (\<lambda>i.
         ret (fact # seen, out\<lparr>ui_added_ids := ui_added_ids out @ [i]\<rparr>)))
       fs (map rec_body existing, \<lparr>ui_added_ids = [], ui_skipped = 0\<rparr>)) (\<lambda>(seen, out). ret out)))"

definition ARCHIVAL_KIND :: string where "ARCHIVAL_KIND = ''archival''"
definition ARCHIVE_PREVIEW_BASE :: nat where "ARCHIVE_PREVIEW_BASE = 480"
definition ARCHIVE_PREVIEW_FLOOR :: nat where "ARCHIVE_PREVIEW_FLOOR = 48"

text \<open>
  \<^verbatim>\<open>(480.0 / (n as f64).sqrt()).ceil()\<close> is the least \<open>k\<close> with \<open>480 \<le> k * \<surd>n\<close>, that is, with
  \<open>480\<^sup>2 \<le> k\<^sup>2 * n\<close>.
\<close>

definition preview_budget :: "nat \<Rightarrow> nat" where
  "preview_budget n = max ARCHIVE_PREVIEW_FLOOR
     (ceil_sqrt ((ARCHIVE_PREVIEW_BASE * ARCHIVE_PREVIEW_BASE + n - 1) div n))"

definition preview_line :: "nat \<Rightarrow> memory_record \<Rightarrow> string" where
  "preview_line per_row m = (let first_line = (case lines (rec_body m) of [] \<Rightarrow> [] | l # _ \<Rightarrow> l) in
     ''- ['' @ rec_kind m @ ''] '' @ take_chars per_row first_line)"

definition TIMES :: string where "TIMES = [CHR 0xC3, CHR 0x97]"

definition archive_overflow_no_llm :: "int \<Rightarrow> string \<Rightarrow> nat \<Rightarrow> (nat \<times> int option) db" where
  "archive_overflow_no_llm clock project keep_recent =
     andThen (list_by_project project 100000) (\<lambda>every.
       let candidates = filter (\<lambda>m. rec_kind m \<noteq> ARCHIVAL_KIND) every in
       if length candidates \<le> keep_recent then ret (0, None)
       else let to_remove = take (length candidates - keep_recent) candidates;
                n = length to_remove;
                previews = join [NL] (map (preview_line (preview_budget n)) to_remove) in
         andThen (save_with_metadata clock project ARCHIVAL_KIND
           (''[archived '' @ TIMES @ '' '' @ nat_str n @ '']'' @ [NL] @ previews) [(''archive'', ''true'')]) (\<lambda>digest_id.
         andThen (for_each (\<lambda>m. delete_memory (rec_id m)) to_remove) (\<lambda>_.
         ret (n, Some digest_id))))"

definition compress_project :: "int \<Rightarrow> string \<Rightarrow> (string \<Rightarrow> error + string) \<Rightarrow> nat \<Rightarrow> int option db" where
  "compress_project clock project summarise keep_recent =
     andThen (list_by_project project 10000) (\<lambda>every.
       if length every \<le> keep_recent then ret None
       else let to_summarise = take (length every - keep_recent) every;
                joined = join [NL] (map (\<lambda>m. ''- ['' @ rec_kind m @ ''] '' @ rec_body m) to_summarise) in
         andThen (lift_result (summarise joined)) (\<lambda>summary.
         andThen (save clock project ARCHIVAL_KIND
           (''[compressed '' @ TIMES @ '' '' @ nat_str (length to_summarise) @ '']'' @ [NL] @ summary)) (\<lambda>archival_id.
         andThen (for_each (\<lambda>m. delete_memory (rec_id m)) to_summarise) (\<lambda>_.
         ret (Some archival_id)))))"

definition archive_overflow :: "int \<Rightarrow> string \<Rightarrow> nat \<Rightarrow> (string \<Rightarrow> error + string) \<Rightarrow> int option db" where
  "archive_overflow clock project hot_limit summarise = compress_project clock project summarise hot_limit"

section \<open>Embedding sweeps\<close>

definition backfill_embeddings :: "string \<Rightarrow> embedder \<Rightarrow> nat db" where
  "backfill_embeddings project e =
     andThen (list_by_project project 100000) (\<lambda>every. for_fold (\<lambda>r embedded.
       andThen (attempt (query (\<lambda>t. rec_id r \<in> set (embedded_ids t)))) (\<lambda>already.
         if already = Inr True then ret embedded
         else case embed_one e (rec_body r) of
           Inl _ \<Rightarrow> ret embedded
         | Inr vector \<Rightarrow> andThen (store_embedding (rec_id r) (em_model_name e) vector) (\<lambda>_. ret (embedded + 1))))
       every 0)"

definition opportunistic_embed_batch_size :: "nat \<Rightarrow> nat" where
  "opportunistic_embed_batch_size backlog = (if backlog = 0 then 0 else min backlog (max 1 (ceil_sqrt backlog)))"

definition sweep_row :: "embedder \<Rightarrow> int \<times> string \<times> string \<Rightarrow> nat \<Rightarrow> nat db" where
  "sweep_row e row finished = (case row of (i, _, body) \<Rightarrow>
     case embed_one e body of
       Inl _ \<Rightarrow> ret finished
     | Inr vector \<Rightarrow> andThen (attempt (store_embedding i (em_model_name e) vector)) (\<lambda>r.
         ret (case r of Inl _ \<Rightarrow> finished | Inr _ \<Rightarrow> finished + 1)))"

definition opportunistic_embed_sweep :: "embedder \<Rightarrow> nat db" where
  "opportunistic_embed_sweep e =
     andThen (attempt unembedded_count) (\<lambda>backlog. case backlog of
       Inl _ \<Rightarrow> ret 0
     | Inr n \<Rightarrow> let batch = opportunistic_embed_batch_size n in
         if batch = 0 then ret 0
         else andThen (attempt (unembedded_batch batch)) (\<lambda>rows. case rows of
           Inl _ \<Rightarrow> ret 0
         | Inr rs \<Rightarrow> for_fold (sweep_row e) rs 0))"

section \<open>Project binding\<close>

definition assert_project_alias :: "string \<Rightarrow> unit db" where
  "assert_project_alias requested s = (case ms_project_pin s of
     Some bound \<Rightarrow> if bound = requested then ret () s
       else err (Memory (''project alias mismatch: requested '' @ requested @ '', store is bound to '' @ bound)) s
   | None \<Rightarrow> err (Memory ''project alias assertion requires a project-bound store'') s)"

definition open_in_memory :: "string option list \<Rightarrow> memory_store" where
  "open_in_memory faults = \<lparr>ms_db = empty_tables, ms_faults = faults, ms_embedder = None, ms_project_pin = None\<rparr>"

definition with_embedder :: "embedder \<Rightarrow> memory_store \<Rightarrow> memory_store" where
  "with_embedder e s = s\<lparr>ms_embedder := Some e\<rparr>"
section \<open>Every operation keeps the tables consistent\<close>

lemma length_to_le_bytes [simp]: "length (to_le_bytes w) = 4"
  by (simp add: to_le_bytes_def)

lemma length_vector_to_blob [simp]: "length (vector_to_blob v) = 4 * length v"
  by (induction v) (simp_all add: vector_to_blob_def)

lemma check_registered_holds:
  "(\<And>t. P t \<Longrightarrow> E t) \<Longrightarrow> (\<And>t. P t \<Longrightarrow> r = int d \<Longrightarrow> Q () t) \<Longrightarrow> holds P (check_registered model d r) Q E"
  unfolding check_registered_def by (intro runs_if any.holds_err any.holds_ret) auto

abbreviation registered_as :: "string \<Rightarrow> nat \<Rightarrow> tables \<Rightarrow> bool" where
  "registered_as model d t \<equiv> integrity t \<and> registered_dimension model t = Some (int d)"

lemma check_registered_as:
  "holds (\<lambda>t. integrity t \<and> registered_dimension model t = Some r) (check_registered model d r)
     (\<lambda>_. registered_as model d) integrity"
  by (rule check_registered_holds) auto

lemma claim_dimension_holds: "holds integrity (claim_model_dimension model d) (\<lambda>_. registered_as model d) integrity"
proof -
  have reread: "holds integrity (query_row (registered_dimension model))
      (\<lambda>r t. integrity t \<and> registered_dimension model t = Some r) integrity"
    unfolding query_row_def by (rule any.holds_sql) (auto split: option.splits)
  show ?thesis unfolding claim_model_dimension_def embedding_dimension_for_model_def
    by (intro db_intros any.holds_bind [OF reread] check_registered_as | assumption)+
qed

lemma ensure_dimension_holds:
  "holds integrity (ensure_embedding_model_dimension model d) (\<lambda>_. registered_as model d) integrity"
  unfolding ensure_embedding_model_dimension_def
proof (intro runs_if any.holds_err any.holds_bind)
  show "holds integrity (query (registered_dimension model)) (\<lambda>r t. integrity t \<and> registered_dimension model t = r) integrity"
    by (rule any.holds_query) auto
  show "holds (\<lambda>t. integrity t \<and> registered_dimension model t = r)
      (case r of None \<Rightarrow> claim_model_dimension model d | Some x \<Rightarrow> check_registered model d x)
      (\<lambda>_. registered_as model d) integrity" for r
    by (cases r) (auto intro: check_registered_as runs_pre [OF claim_dimension_holds])
qed

lemma keeps_store_embedding [db_intros]: "keeps integrity (store_embedding i model v)"
  unfolding store_embedding_def
  by (rule any.holds_bind [OF ensure_dimension_holds], rule any.holds_sql)
    (auto elim!: insert_or_ignore_embedding_ok [rotated 2] simp: vector_fits_def registered_dimension_def)

lemma keeps_store_embedding_replace [db_intros]: "keeps integrity (store_embedding_replace i model v)"
  unfolding store_embedding_replace_def
  by (rule any.holds_bind [OF ensure_dimension_holds], rule any.holds_sql)
    (auto elim!: insert_or_replace_embedding_ok [rotated 2] simp: vector_fits_def registered_dimension_def)

lemma keeps_apply: "(\<And>s. \<exists>n. keeps P n \<and> m s = n s) \<Longrightarrow> keeps P m"
  by (metis keeps_on_iff)

lemma keeps_auto_embed [db_intros]: "keeps integrity (auto_embed i body)"
proof (rule keeps_apply)
  fix s
  show "\<exists>n. keeps integrity n \<and> auto_embed i body s = n s"
  proof (cases "ms_embedder s")
    case None
    then show ?thesis by (intro exI [of _ "ret ()"]) (simp add: auto_embed_def db_intros)
  next
    case (Some e)
    then show ?thesis
      by (intro exI [of _ "andThen (lift_result (embed_one e body)) (store_embedding i (em_model_name e))"])
        (simp add: auto_embed_def db_intros)
  qed
qed

lemma keeps_save_scoped [db_intros]: "keeps integrity (save_scoped clock project kind body scope)"
  unfolding save_scoped_def by (intro db_intros)

lemma keeps_save [db_intros]: "keeps integrity (save clock project kind body)"
  unfolding save_def by (rule keeps_save_scoped)

lemma keeps_save_with_metadata [db_intros]: "keeps integrity (save_with_metadata clock project kind body m)"
  unfolding save_with_metadata_def set_metadata_def by (intro db_intros)

lemma keeps_set_body [db_intros]: "keeps integrity (set_body i b)"
  unfolding set_body_def by (intro db_intros)

lemma keeps_delete_memory [db_intros]: "keeps integrity (delete_memory i)"
proof -
  have "keeps integrity (sql (fts_delete_row i))"
    by (rule any.keeps_statement) (auto simp: fts_delete_row_def split: option.splits dest: fts_delete_ok)
  then show ?thesis unfolding delete_memory_def by (intro db_intros)
qed

lemma keeps_list_by_project [db_intros]: "keeps P (list_by_project project n)"
  unfolding list_by_project_def by (rule any.keeps_query)

lemma keeps_insert_forwarded_rows [db_intros]: "keeps integrity (insert_forwarded_rows ev p m sha now)"
  unfolding insert_forwarded_rows_def by (intro db_intros)

lemma keeps_ingest_forwarded:
  assumes "\<And>t. integrity t \<Longrightarrow> integrity (others t)"
  shows "keeps integrity (ingest_forwarded clock sha others ev)"
proof (rule keeps_apply)
  fix s
  have gate: "keeps P (forwarded_receipt_memory_id ev)" for P unfolding forwarded_receipt_memory_id_def by (rule any.keeps_query)
  show "\<exists>n. keeps integrity n \<and> ingest_forwarded clock sha others ev s = n s"
    unfolding ingest_forwarded_def ingest_new_def ingest_fallback_def Let_def
    by (cases "fe_event_id ev = [] \<or> fe_source_guest ev = [] \<or> fe_source_project ev = []"; simp only: if_True if_False)
      (rule exI, rule conjI [OF _ refl], intro db_intros gate assms; assumption?)+
qed

lemma keeps_delete_row [db_intros]: "keeps integrity (delete_row i)"
  unfolding delete_row_def by (intro db_intros)

lemma keeps_delete_rows: "keeps integrity (delete_rows be ids)"
proof -
  have "keeps integrity (for_each (\<lambda>(i, b). sql (fts_delete i b)) found)" for found
    by (rule any.keeps_for_each) (auto intro: db_intros)
  then show ?thesis unfolding delete_rows_def by (intro db_intros)
qed

lemma keeps_upsert_entity [db_intros]: "keeps integrity (upsert_entity p n)"
  unfolding upsert_entity_def by (intro db_intros)

lemma keeps_link_memory_entity [db_intros]: "keeps integrity (link_memory_entity m e)"
  unfolding link_memory_entity_def by (intro db_intros)

lemma keeps_link_extracted_bipartite: "keeps integrity (link_extracted_bipartite p extracted)"
  unfolding link_extracted_bipartite_def Let_def by (intro db_intros)

lemma keeps_sweep_row [db_intros]: "keeps integrity (sweep_row e row n)"
  unfolding sweep_row_def by (intro db_intros)

section \<open>Reachable stores\<close>

datatype mem_op =
    Save_op int string string string memory_scope
  | Save_meta_op int string string string metadata
  | Save_embedded_op int string string string embedder
  | Set_metadata_op int metadata
  | Tag_op int "string option" "string option"
  | Reattribute_op int string "string option" "invocation_provenance option"
  | Reassign_op string string
  | Provenance_op invocation_provenance
  | Set_body_op int string
  | Compress_op int string
  | Delete_op int
  | Delete_row_op int
  | Delete_rows_op "nat \<Rightarrow> nat \<Rightarrow> string option" "int list"
  | Ingest_op int "string \<Rightarrow> string" forwarded_event
  | Add_edge_op int int string
  | Delete_edge_op int int string
  | Link_op string "(int \<times> string list) list"
  | Set_block_op int string string string
  | Extract_op int string string "error + string list"
  | Archive_op int string nat
  | Compress_project_op int string "string \<Rightarrow> error + string" nat
  | Embed_op int string "f32_bits list"
  | Reembed_op int string "f32_bits list" nat
  | Backfill_op string embedder
  | Sweep_op embedder

definition discard :: "'a db \<Rightarrow> unit db" where
  "discard m = andThen m (\<lambda>_. ret ())"

fun run_op :: "mem_op \<Rightarrow> unit db" where
  "run_op (Save_op c p k b sc) = discard (save_scoped c p k b sc)"
| "run_op (Save_meta_op c p k b m) = discard (save_with_metadata c p k b m)"
| "run_op (Save_embedded_op c p k b e) = discard (save_embedded c p k b e)"
| "run_op (Set_metadata_op i m) = set_metadata i m"
| "run_op (Tag_op i sid sha) = tag_row i sid sha"
| "run_op (Reattribute_op i sk p v) = reattribute_with_provenance i sk p v"
| "run_op (Reassign_op old new) = discard (reassign_project old new)"
| "run_op (Provenance_op v) = upsert_invocation_provenance v"
| "run_op (Set_body_op i b) = set_body i b"
| "run_op (Compress_op i b) = compress_in_place i b"
| "run_op (Delete_op i) = delete_memory i"
| "run_op (Delete_row_op i) = discard (delete_row i)"
| "run_op (Delete_rows_op be ids) = discard (delete_rows be ids)"
| "run_op (Ingest_op c sha ev) = discard (ingest_forwarded c sha id ev)"
| "run_op (Add_edge_op a b r) = discard (add_edge a b r)"
| "run_op (Delete_edge_op a b r) = delete_edge a b r"
| "run_op (Link_op p ex) = discard (link_extracted_bipartite p ex)"
| "run_op (Set_block_op c p n b) = discard (set_block c p n b)"
| "run_op (Extract_op c p k fs) = discard (extract_and_save_unique c p k fs)"
| "run_op (Archive_op c p n) = discard (archive_overflow_no_llm c p n)"
| "run_op (Compress_project_op c p f n) = discard (compress_project c p f n)"
| "run_op (Embed_op i m v) = store_embedding i m v"
| "run_op (Reembed_op i m v d) = store_embedding_replace_checked i m v d"
| "run_op (Backfill_op p e) = discard (backfill_embeddings p e)"
| "run_op (Sweep_op e) = discard (opportunistic_embed_sweep e)"

lemma keeps_discard [db_intros]: "keeps P m \<Longrightarrow> keeps P (discard m)"
  unfolding discard_def by (intro db_intros)

lemmas op_defs = save_embedded_def set_metadata_def tag_row_def reattribute_with_provenance_def reassign_project_def
  upsert_invocation_provenance_def compress_in_place_def add_edge_def delete_edge_def set_block_def
  extract_and_save_unique_def archive_overflow_no_llm_def compress_project_def store_embedding_replace_checked_def
  backfill_embeddings_def opportunistic_embed_sweep_def unembedded_count_def unembedded_batch_def Let_def

lemma keeps_run_op: "keeps integrity (run_op op)"
  by (cases op; simp only: run_op.simps op_defs;
      (intro db_intros keeps_delete_rows keeps_ingest_forwarded keeps_link_extracted_bipartite)?; simp only: id_apply)

text \<open>
  A store starts empty; operations run one after the other (on this or another connection to the
  file), each under any schedule of failing statements, and an embedder may be attached at any
  time.
\<close>

inductive store_reach :: "memory_store \<Rightarrow> bool" where
  Opened: "ms_db s = empty_tables \<Longrightarrow> store_reach s"
| Step: "store_reach s \<Longrightarrow> store_reach ((snd (run_op op s))\<lparr>ms_faults := faults\<rparr>)"
| Attach: "store_reach s \<Longrightarrow> store_reach (with_embedder e s)"

text \<open>
  C8 (store_integrity): in every state the store can reach, wherever operations were interrupted by failing
  statements, row ids are distinct and below the counter, every embedding, edge and receipt
  refers to an existing row, one model has one vector dimension, and each forwarded event has at
  most one receipt.
\<close>

theorem store_integrity: "store_reach s \<Longrightarrow> integrity (ms_db s)"
  by (induction rule: store_reach.induct)
    (simp_all add: integrity_empty keepsD [OF keeps_run_op] with_embedder_def)

theorem store_integrity_witness:
  "integrity (ms_db ((snd (run_op (Save_op 7 ''p'' ''note'' ''hello'' Project_scope) (open_in_memory [None, Some ''disk full''])))
     \<lparr>ms_faults := []\<rparr>))"
  by (rule store_integrity, rule store_reach.Step, rule store_reach.Opened) (simp add: open_in_memory_def)
section \<open>Forwarded events are ingested once\<close>

text \<open>What one ingestion adds to the tables.\<close>

definition forwarded_tables :: "forwarded_event \<Rightarrow> string \<Rightarrow> string \<Rightarrow> int \<Rightarrow> tables \<Rightarrow> tables" where
  "forwarded_tables ev project sha now t = (let i = tb_seq t + 1 in
     t\<lparr>tb_memories := tb_memories t @ [\<lparr>mr_id = i, mr_project = project, mr_kind = fe_kind ev, mr_body = fe_body ev,
         mr_created_at = now, mr_scope = ''project'', mr_metadata = forwarded_metadata ev,
         mr_session_id = fe_session_id ev, mr_body_sha = Some sha, mr_body_full = None\<rparr>],
       tb_seq := i, tb_fts := tb_fts t @ [(i, fe_body ev)],
       tb_receipts := tb_receipts t @ [\<lparr>rc_event_id = fe_event_id ev, rc_source_guest = fe_source_guest ev,
         rc_source_project = fe_source_project ev, rc_memory_id = i, rc_received_at = now\<rparr>]\<rparr>)"

lemma insert_forwarded_rows_result:
  assumes "insert_forwarded_rows ev project (forwarded_metadata ev) sha now s = (Inr i, s')"
  shows "i = tb_seq (ms_db s) + 1 \<and> ms_db s' = forwarded_tables ev project sha now (ms_db s)"
proof -
  let ?rc = "\<lparr>rc_event_id = fe_event_id ev, rc_source_guest = fe_source_guest ev,
    rc_source_project = fe_source_project ev, rc_memory_id = i, rc_received_at = now\<rparr>"
  obtain t1 t2 where a:
    "insert_memory (\<lambda>i. (new_row project (fe_kind ev) (fe_body ev) now Project_scope i)
       \<lparr>mr_metadata := forwarded_metadata ev, mr_session_id := fe_session_id ev, mr_body_sha := Some sha\<rparr>) (ms_db s) = Inr (i, t1)"
    "fts_insert i (fe_body ev) t1 = Inr ((), t2)" "insert_receipt ?rc t2 = Inr ((), ms_db s')"
    using assms unfolding insert_forwarded_rows_def by (auto elim!: andThen_InrE sql_InrE simp: ret_eval)
  have i: "i = tb_seq (ms_db s) + 1"
    and t1: "t1 = (ms_db s)\<lparr>tb_memories := tb_memories (ms_db s) @ [\<lparr>mr_id = i, mr_project = project,
      mr_kind = fe_kind ev, mr_body = fe_body ev, mr_created_at = now, mr_scope = ''project'',
      mr_metadata = forwarded_metadata ev, mr_session_id = fe_session_id ev, mr_body_sha = Some sha,
      mr_body_full = None\<rparr>], tb_seq := i\<rparr>"
    using a(1) by (auto simp: insert_memory_def new_row_def Let_def split: if_splits)
  have t2: "t2 = t1\<lparr>tb_fts := tb_fts t1 @ [(i, fe_body ev)]\<rparr>" using a(2) by (simp add: fts_insert_def)
  have "ms_db s' = t2\<lparr>tb_receipts := tb_receipts t2 @ [?rc]\<rparr>"
    using a(3) by (simp add: insert_receipt_def split: if_splits)
  then show ?thesis unfolding t2 t1 i by (simp add: forwarded_tables_def Let_def)
qed

lemma find_append: "List.find p (xs @ ys) = (case List.find p xs of None \<Rightarrow> List.find p ys | Some x \<Rightarrow> Some x)"
  by (induction xs) simp_all

lemma receipt_of_forwarded:
  "receipt_of ev t = None \<Longrightarrow> receipt_of ev (forwarded_tables ev project sha now t) = Some (tb_seq t + 1)"
  by (auto simp: receipt_of_def forwarded_tables_def Let_def receipt_key_def event_key_def find_append)

lemma receipt_of_cong: "event_key ev' = event_key ev \<Longrightarrow> receipt_of ev' = receipt_of ev"
  by (simp add: receipt_of_def fun_eq_iff)

lemma forwarded_receipt_result:
  "forwarded_receipt_memory_id ev s = (Inr k, s') \<Longrightarrow> k = receipt_of ev (ms_db s) \<and> ms_db s' = ms_db s"
  unfolding forwarded_receipt_memory_id_def query_def by (auto elim!: sql_InrE)

text \<open>The outcomes of an ingestion, statement failures included.\<close>

inductive ingest_result ::
  "int \<Rightarrow> (string \<Rightarrow> string) \<Rightarrow> (tables \<Rightarrow> tables) \<Rightarrow> forwarded_event \<Rightarrow> memory_store \<Rightarrow>
     error + ingest_outcome \<Rightarrow> tables \<Rightarrow> bool" for clock sha others ev s where
  Refused: "t' = ms_db s \<or> t' = others (ms_db s) \<Longrightarrow> ingest_result clock sha others ev s (Inl e) t'"
| Known: "t' = ms_db s \<or> t' = others (ms_db s) \<Longrightarrow> receipt_of ev t' = Some i \<Longrightarrow>
    ingest_result clock sha others ev s (Inr \<lparr>io_memory_id = i, io_inserted = False\<rparr>) t'"
| Inserted: "receipt_of ev (ms_db s) = None \<Longrightarrow> 0 \<le> clock \<Longrightarrow>
    t' = forwarded_tables ev (case ms_project_pin s of Some slug \<Rightarrow> slug | None \<Rightarrow> fe_source_project ev)
      (sha (fe_body ev)) clock (ms_db s) \<Longrightarrow>
    ingest_result clock sha others ev s (Inr \<lparr>io_memory_id = tb_seq (ms_db s) + 1, io_inserted = True\<rparr>) t'"

inductive_cases ingest_InsertedE: "ingest_result clock sha others ev s (Inr out) t'"

lemma gate_db: "forwarded_receipt_memory_id ev s = (k, s') \<Longrightarrow> ms_db s' = ms_db s"
  unfolding forwarded_receipt_memory_id_def query_def by (cases k) (auto elim: sql_InlE sql_InrE)

lemma ingest_fallback_result:
  assumes "ms_db s1 = ms_db s" and "ingest_fallback others ev e s1 = (r, s')"
  shows "ingest_result clock sha others ev s r (ms_db s')"
proof -
  let ?s2 = "s1\<lparr>ms_db := others (ms_db s)\<rparr>"
  obtain k s3 where k: "forwarded_receipt_memory_id ev ?s2 = (k, s3)" by fastforce
  then have db: "ms_db s3 = others (ms_db s)" using gate_db by fastforce
  note run = assms [unfolded ingest_fallback_def]
  show ?thesis
  proof (cases k)
    case (Inl e')
    then show ?thesis using run k db by (auto simp: andThen_def others_commit_def intro: ingest_result.Refused)
  next
    case (Inr w)
    with k have "w = receipt_of ev (others (ms_db s))" using forwarded_receipt_result [of ev ?s2 w s3] by simp
    then show ?thesis using run k db Inr
      by (cases "receipt_of ev (others (ms_db s))")
        (auto simp: andThen_def others_commit_def ret_eval err_eval intro: ingest_result.intros)
  qed
qed

lemma ingest_new_result:
  assumes run: "ingest_new clock sha others ev project s2 = (r, s')" and s2: "ms_db s2 = ms_db s"
    and new: "receipt_of ev (ms_db s) = None"
    and project: "project = (case ms_project_pin s of Some slug \<Rightarrow> slug | None \<Rightarrow> fe_source_project ev)"
  shows "ingest_result clock sha others ev s r (ms_db s')"
proof (cases "clock < 0")
  case True
  then show ?thesis using run s2
    by (auto simp: ingest_new_def now_secs_def andThen_eval lift_result_eval intro: ingest_result.Refused)
next
  case pos: False
  obtain x s3 where x: "transaction (insert_forwarded_rows ev project (forwarded_metadata ev) (sha (fe_body ev)) clock) s2 = (x, s3)"
    by fastforce
  have run: "(case x of Inr i \<Rightarrow> ret \<lparr>io_memory_id = i, io_inserted = True\<rparr> | Inl e \<Rightarrow> ingest_fallback others ev e) s3 = (r, s')"
    using run pos x by (simp add: ingest_new_def now_secs_def andThen_def lift_result_eval attempt_def)
  show ?thesis
  proof (cases x)
    case (Inl e)
    then have "ms_db s3 = ms_db s" using transaction_atomic x s2 by metis
    then show ?thesis by (rule ingest_fallback_result) (use run Inl in simp)
  next
    case (Inr i)
    then obtain s4 where "insert_forwarded_rows ev project (forwarded_metadata ev) (sha (fe_body ev)) clock s2 = (Inr i, s4)"
      "ms_db s3 = ms_db s4" using transaction_commits x by metis
    from insert_forwarded_rows_result [OF this(1)] this(2)
    have i: "i = tb_seq (ms_db s) + 1" and db: "ms_db s3 = forwarded_tables ev project (sha (fe_body ev)) clock (ms_db s)"
      using s2 by simp_all
    from run Inr i have r: "r = Inr \<lparr>io_memory_id = tb_seq (ms_db s) + 1, io_inserted = True\<rparr>" "s' = s3"
      by (simp_all add: ret_eval)
    show ?thesis unfolding r by (rule ingest_result.Inserted) (use pos new db project in auto)
  qed
qed

lemma ingest_forwarded_result:
  assumes "ingest_forwarded clock sha others ev s = (r, s')"
  shows "ingest_result clock sha others ev s r (ms_db s')"
proof (cases "fe_event_id ev = [] \<or> fe_source_guest ev = [] \<or> fe_source_project ev = []")
  case True
  then show ?thesis using assms by (auto simp: ingest_forwarded_def err_eval intro: ingest_result.Refused)
next
  case False
  let ?project = "case ms_project_pin s of Some slug \<Rightarrow> slug | None \<Rightarrow> fe_source_project ev"
  obtain b s1 where b: "tx_control s = (b, s1)" by fastforce
  have s1: "ms_db s1 = ms_db s" using b tx_control_db [of s] by simp
  obtain k s2 where k: "forwarded_receipt_memory_id ev s1 = (k, s2)" by fastforce
  then have s2: "ms_db s2 = ms_db s" using gate_db s1 by metis
  show ?thesis
  proof (cases b)
    case (Inl e)
    then show ?thesis using assms False b s1 by (auto simp: ingest_forwarded_def andThen_def intro: ingest_result.Refused)
  next
    case u: (Inr u)
    show ?thesis
    proof (cases k)
      case (Inl e)
      then show ?thesis using assms False b k u s2
        by (auto simp: ingest_forwarded_def andThen_def Let_def intro: ingest_result.Refused)
    next
      case (Inr known)
      then have known: "known = receipt_of ev (ms_db s)" using forwarded_receipt_result [of ev s1 known s2] k s1 by simp
      have run: "(case known of Some i \<Rightarrow> ret \<lparr>io_memory_id = i, io_inserted = False\<rparr>
          | None \<Rightarrow> ingest_new clock sha others ev ?project) s2 = (r, s')"
        using assms False b k u Inr by (simp add: ingest_forwarded_def andThen_def Let_def)
      then show ?thesis using known s2
        by (cases "receipt_of ev (ms_db s)") (auto simp: ret_eval intro: ingest_result.Known ingest_new_result)
    qed
  qed
qed

lemma redelivery_is_known:
  assumes "receipt_of ev (ms_db s) = Some i" "event_key ev' = event_key ev" "calm s"
    and "fe_event_id ev \<noteq> []" "fe_source_guest ev \<noteq> []" "fe_source_project ev \<noteq> []"
  shows "ingest_forwarded clock sha others ev' s = (Inr \<lparr>io_memory_id = i, io_inserted = False\<rparr>, s)"
proof -
  have "forwarded_receipt_memory_id ev' s = (Inr (Some i), s)"
    using assms receipt_of_cong [OF assms(2)] by (simp add: forwarded_receipt_memory_id_def query_calm)
  then show ?thesis using assms
    by (simp add: ingest_forwarded_def event_key_def Let_def tx_control_calm andThen_eval ret_eval)
qed

text \<open>
  C9 (forwarded_once): whichever statements fail and whatever other connections commit, ingesting a forwarded event
  either writes the memory row, its index entry and its receipt together, or writes nothing of its
  own; and once it reported a memory id, delivering the same event again, also with another body, at another time,
  answers that id without writing.
\<close>

theorem forwarded_once:
  assumes "ingest_forwarded clock sha others ev s = (r, s')"
  shows "ingest_result clock sha others ev s r (ms_db s') \<and>
    (\<forall>out clock' sha' others' ev'. r = Inr out \<longrightarrow> event_key ev' = event_key ev \<longrightarrow>
       ingest_forwarded clock' sha' others' ev' (s'\<lparr>ms_faults := []\<rparr>) =
         (Inr \<lparr>io_memory_id = io_memory_id out, io_inserted = False\<rparr>, s'\<lparr>ms_faults := []\<rparr>))"
proof (intro conjI allI impI)
  show res: "ingest_result clock sha others ev s r (ms_db s')" using assms by (rule ingest_forwarded_result)
  fix out clock' sha' others' ev'
  assume out: "r = Inr out" and key: "event_key ev' = event_key ev"
  have named: "fe_event_id ev \<noteq> []" "fe_source_guest ev \<noteq> []" "fe_source_project ev \<noteq> []"
    using assms out by (auto simp: ingest_forwarded_def err_eval split: if_splits)
  have "receipt_of ev (ms_db s') = Some (io_memory_id out)"
    using res unfolding out by (auto elim!: ingest_InsertedE simp: receipt_of_forwarded)
  then show "ingest_forwarded clock' sha' others' ev' (s'\<lparr>ms_faults := []\<rparr>) =
      (Inr \<lparr>io_memory_id = io_memory_id out, io_inserted = False\<rparr>, s'\<lparr>ms_faults := []\<rparr>)"
    using key named by (intro redelivery_is_known [of ev]) simp_all
qed

definition sample_event :: "string \<Rightarrow> forwarded_event" where
  "sample_event body = \<lparr>fe_event_id = ''e1'', fe_source_guest = ''vm'', fe_source_project = ''rtrt'', fe_kind = ''note'',
     fe_body = body, fe_metadata = [], fe_session_id = None\<rparr>"

definition first_delivery :: "(error + ingest_outcome) \<times> memory_store" where
  "first_delivery = ingest_forwarded 7 rev id (sample_event ''hi'') (open_in_memory [])"

theorem forwarded_once_witness:
  "fst first_delivery = Inr \<lparr>io_memory_id = 1, io_inserted = True\<rparr> \<and>
   ingest_forwarded 9 rev id (sample_event ''changed'') ((snd first_delivery)\<lparr>ms_faults := []\<rparr>) =
     (Inr \<lparr>io_memory_id = 1, io_inserted = False\<rparr>, (snd first_delivery)\<lparr>ms_faults := []\<rparr>)"
proof -
  have e: "fst first_delivery = Inr \<lparr>io_memory_id = 1, io_inserted = True\<rparr>" by code_simp
  have "ingest_forwarded 7 rev id (sample_event ''hi'') (open_in_memory []) = (fst first_delivery, snd first_delivery)"
    by (simp add: first_delivery_def)
  from forwarded_once [OF this] e show ?thesis by (simp add: event_key_def sample_event_def)
qed
section \<open>Compression keeps the original\<close>

lemma find_row_Some: "find_row t i = Some r \<Longrightarrow> r \<in> set (tb_memories t) \<and> mr_id r = i"
  by (auto simp: find_row_def find_Some_iff)

lemma find_row_update:
  assumes "update_memories (with_id i) f t = Inr (n, t')"
  shows "find_row t' j = (if j = i then map_option (\<lambda>r. (f r)\<lparr>mr_id := mr_id r\<rparr>) (find_row t i) else find_row t j)"
proof -
  have "List.find (with_id j) (map (\<lambda>r. if mr_id r = i then (f r)\<lparr>mr_id := mr_id r\<rparr> else r) rs) =
      (if j = i then map_option (\<lambda>r. (f r)\<lparr>mr_id := mr_id r\<rparr>) (List.find (with_id i) rs) else List.find (with_id j) rs)"
    for rs :: "memory_row list"
    by (induction rs) auto
  then show ?thesis using assms by (auto simp: update_memories_def find_row_def)
qed

lemma find_row_fts [simp]: "find_row (t\<lparr>tb_fts := f\<rparr>) i = find_row t i"
  by (simp add: find_row_def)

definition updated :: "int \<Rightarrow> (memory_row \<Rightarrow> memory_row) \<Rightarrow> tables \<Rightarrow> tables" where
  "updated i f t = snd (projr (update_memories (with_id i) f t))"

lemma update_memories_updated: "\<exists>n. update_memories (with_id i) f t = Inr (n, updated i f t)"
  by (simp add: updated_def update_memories_def)

lemma update_calm: "calm s \<Longrightarrow> \<exists>n. sql (update_memories (with_id i) f) s = (Inr n, s\<lparr>ms_db := updated i f (ms_db s)\<rparr>)"
  using update_memories_updated [of i f "ms_db s"] by (auto simp: sql_calm)

lemma andThen_update:
  "calm s \<Longrightarrow> andThen (sql (update_memories (with_id i) f)) (\<lambda>_. g) s = g (s\<lparr>ms_db := updated i f (ms_db s)\<rparr>)"
  using update_calm [of s i f] by (auto simp: andThen_def)

lemma find_row_updated:
  "find_row (updated i f t) j = (if j = i then map_option (\<lambda>r. (f r)\<lparr>mr_id := mr_id r\<rparr>) (find_row t i) else find_row t j)"
  using update_memories_updated [of i f t] find_row_update by blast

lemma updated_fts [simp]: "tb_fts (updated i f t) = tb_fts t"
  by (simp add: updated_def update_memories_def)

lemma set_body_calm:
  assumes "calm s" "find_row (ms_db s) i = Some r"
  shows "set_body i b s = (Inr (), s\<lparr>ms_db := (updated i (\<lambda>r. r\<lparr>mr_body := b\<rparr>) (ms_db s))
    \<lparr>tb_fts := remove1 (i, mr_body r) (tb_fts (ms_db s)) @ [(i, b)]\<rparr>\<rparr>)"
  using assms
  by (simp add: set_body_def query_row_calm andThen_update andThen_eval sql_calm fts_delete_def fts_insert_def)

lemma set_body_missing: "calm s \<Longrightarrow> find_row (ms_db s) i = None \<Longrightarrow> set_body i b s = (Inl (Memory NO_ROWS), s)"
  by (simp add: set_body_def query_row_calm andThen_eval)

definition original :: "memory_row \<Rightarrow> string" where
  "original r = (case mr_body_full r of Some b \<Rightarrow> b | None \<Rightarrow> mr_body r)"

lemma compress_in_place_calm:
  assumes "calm s" "find_row (ms_db s) i = Some r"
  shows "\<exists>s'. compress_in_place i b s = (Inr (), s') \<and> calm s' \<and>
    find_row (ms_db s') i = Some (r\<lparr>mr_body := b, mr_body_full := Some (original r)\<rparr>) \<and>
    (\<forall>j. j \<noteq> i \<longrightarrow> find_row (ms_db s') j = find_row (ms_db s) j)"
proof (cases "mr_body_full r")
  case None
  let ?s = "s\<lparr>ms_db := updated i (\<lambda>r. r\<lparr>mr_body_full := Some (mr_body r)\<rparr>) (ms_db s)\<rparr>"
  have "find_row (ms_db ?s) i = Some (r\<lparr>mr_body_full := Some (mr_body r)\<rparr>)" using assms by (simp add: find_row_updated)
  moreover have "compress_in_place i b s = set_body i b ?s"
    using None assms by (simp add: compress_in_place_def query_row_calm andThen_def [of "query_row _"]
        andThen_def [of "andThen _ _"] andThen_update ret_eval)
  ultimately show ?thesis using None assms set_body_calm [of ?s i "r\<lparr>mr_body_full := Some (mr_body r)\<rparr>" b]
    by (simp add: find_row_updated original_def)
next
  case (Some full)
  then show ?thesis using assms set_body_calm [of s i r b]
    by (simp add: compress_in_place_def query_row_calm andThen_eval ret_eval find_row_updated original_def)
qed

text \<open>
  C23 (original_kept): however often a row is compressed, every step succeeds, the stored body is the latest compressed
  text, and the preserved text is the body the row had before the first compression; no other row changes.
\<close>

theorem original_kept:
  assumes "calm s" "find_row (ms_db s) i = Some r" "bs \<noteq> []"
  shows "\<exists>s'. for_each (compress_in_place i) bs s = (Inr (), s') \<and>
    full_body i s' = (Inr (Some (original r)), s') \<and> map_option mr_body (find_row (ms_db s') i) = Some (last bs) \<and>
    (\<forall>j. j \<noteq> i \<longrightarrow> find_row (ms_db s') j = find_row (ms_db s) j)"
  using assms
proof (induction bs arbitrary: s r)
  case (Cons b bs)
  obtain s1 where s1: "compress_in_place i b s = (Inr (), s1)" "calm s1"
    "find_row (ms_db s1) i = Some (r\<lparr>mr_body := b, mr_body_full := Some (original r)\<rparr>)"
    "\<forall>j. j \<noteq> i \<longrightarrow> find_row (ms_db s1) j = find_row (ms_db s) j"
    using compress_in_place_calm [OF Cons.prems(1,2)] by blast
  show ?case
  proof (cases "bs = []")
    case True
    then show ?thesis using s1 by (simp add: andThen_eval ret_eval full_body_def query_row_calm)
  next
    case False
    have "original (r\<lparr>mr_body := b, mr_body_full := Some (original r)\<rparr>) = original r" by (simp add: original_def)
    then show ?thesis using Cons.IH [OF s1(2,3) False] s1 False by (simp add: andThen_eval)
  qed
qed simp

section \<open>Blocks\<close>

lemma rows_where_delete: "delete_memories p t = Inr (n, t') \<Longrightarrow> rows_where q t' = rows_where (\<lambda>r. q r \<and> \<not> p r) t"
  by (auto simp: delete_memories_def Let_def rows_where_def conj_commute)

lemma save_calm:
  assumes "calm s" "ms_embedder s = None" "0 \<le> clock" "tb_seq (ms_db s) < I64_MAX"
  shows "save clock project kind body s = (Inr (tb_seq (ms_db s) + 1),
    s\<lparr>ms_db := (ms_db s)\<lparr>tb_memories := tb_memories (ms_db s) @ [new_row project kind body clock Project_scope (tb_seq (ms_db s) + 1)],
      tb_seq := tb_seq (ms_db s) + 1, tb_fts := tb_fts (ms_db s) @ [(tb_seq (ms_db s) + 1, body)]\<rparr>\<rparr>)"
  using assms
  by (simp add: save_def save_scoped_def now_secs_def lift_result_eval andThen_eval sql_calm insert_memory_def Let_def
      fts_insert_def auto_embed_def ret_eval new_row_def)

text \<open>
  Setting a block replaces whatever rows its name had, so reading it gives the text written last,
  and the blocks of other names or projects are unchanged.
\<close>

lemma block_last_write:
  assumes "calm s" "ms_embedder s = None" "0 \<le> clock" "tb_seq (ms_db s) < I64_MAX"
  shows "\<exists>i s' r. set_block clock project name body s = (Inr i, s') \<and> get_block project name s' = (Inr (Some r), s') \<and>
    rec_id r = i \<and> rec_body r = body \<and> rec_project r = project \<and>
    (\<forall>project' name'. (project', name') \<noteq> (project, name) \<longrightarrow>
       fst (get_block project' name' s') = fst (get_block project' name' s))"
proof -
  let ?p = "\<lambda>r. mr_project r = project \<and> mr_kind r = block_kind name"
  obtain n t where d: "delete_memories ?p (ms_db s) = Inr (n, t)" by (auto simp: delete_memories_def Let_def)
  then have seq: "tb_seq t = tb_seq (ms_db s)" by (auto simp: delete_memories_def Let_def)
  let ?i = "tb_seq t + 1" and ?r = "new_row project (block_kind name) body clock Project_scope (tb_seq t + 1)"
  let ?s = "s\<lparr>ms_db := t\<lparr>tb_memories := tb_memories t @ [?r], tb_seq := ?i, tb_fts := tb_fts t @ [(?i, body)]\<rparr>\<rparr>"
  have run: "set_block clock project name body s = (Inr ?i, ?s)"
    using assms d seq save_calm [of "s\<lparr>ms_db := t\<rparr>"] by (simp add: set_block_def andThen_eval sql_calm)
  have rows: "rows_where q (ms_db ?s) = rows_where (\<lambda>r. q r \<and> \<not> ?p r) (ms_db s) @ (if q ?r then [?r] else [])" for q
    using rows_where_delete [OF d, of q] by (simp add: rows_where_def)
  have "fst (get_block project' name' ?s) = fst (get_block project' name' s)" if "(project', name') \<noteq> (project, name)" for project' name'
  proof -
    have "rows_where (\<lambda>r. mr_project r = project' \<and> mr_kind r = block_kind name') (ms_db ?s) =
        rows_where (\<lambda>r. mr_project r = project' \<and> mr_kind r = block_kind name') (ms_db s)"
      unfolding rows using that by (auto simp: rows_where_def new_row_def block_kind_def intro!: filter_cong)
    then show ?thesis using assms(1) by (simp add: get_block_def query_calm)
  qed
  moreover have "get_block project name ?s = (Inr (Some (to_record ?r)), ?s)"
    using assms(1) rows [of ?p] by (simp add: get_block_def query_calm new_row_def rows_where_def)
  ultimately show ?thesis using run by (intro exI [of _ ?i] exI [of _ ?s] exI [of _ "to_record ?r"])
    (simp add: to_record_def new_row_def)
qed
section \<open>The search index mirrors the rows\<close>

definition docs :: "tables \<Rightarrow> (int \<times> string) list" where
  "docs t = map (\<lambda>r. (mr_id r, mr_body r)) (tb_memories t)"

text \<open>\<open>lacking A\<close>: the index holds every document but those of \<open>A\<close>.\<close>

definition lacking :: "(int \<times> string) list \<Rightarrow> tables \<Rightarrow> bool" where
  "lacking A t \<longleftrightarrow> mset (tb_fts t) + mset A = mset (docs t)"

abbreviation indexed :: "tables \<Rightarrow> bool" where
  "indexed \<equiv> lacking []"

definition mirrored :: "tables \<Rightarrow> bool" where
  "mirrored t \<longleftrightarrow> integrity t \<and> indexed t"

lemma mirroredI: "keeps integrity m \<Longrightarrow> runs calm mirrored m (\<lambda>_. indexed) indexed \<Longrightarrow> keeps_on calm mirrored m"
  by (auto simp: runs_def mirrored_def split: sum.splits)

text \<open>Statements on other tables touch neither side.\<close>

definition same_docs :: "tables \<Rightarrow> tables \<Rightarrow> bool" where
  "same_docs t t' \<longleftrightarrow> tb_fts t' = tb_fts t \<and> docs t' = docs t"

lemma lacking_same: "same_docs t t' \<Longrightarrow> lacking A t \<Longrightarrow> lacking A t'"
  by (simp add: same_docs_def lacking_def)

lemma same_docs_statements:
  "insert_or_ignore_edge e t = Inr (n, t') \<Longrightarrow> same_docs t t'"
  "delete_edges e t = Inr (u, t') \<Longrightarrow> same_docs t t'"
  "insert_or_ignore_entity pr nm t = Inr (u, t') \<Longrightarrow> same_docs t t'"
  "insert_or_ignore_memory_entity mi ei t = Inr (n, t') \<Longrightarrow> same_docs t t'"
  "insert_provenance v t = Inr (u, t') \<Longrightarrow> same_docs t t'"
  "insert_or_ignore_model m d t = Inr (u, t') \<Longrightarrow> same_docs t t'"
  "insert_or_ignore_embedding er t = Inr (u, t') \<Longrightarrow> same_docs t t'"
  "insert_or_replace_embedding er t = Inr (u, t') \<Longrightarrow> same_docs t t'"
  by (auto simp: same_docs_def docs_def statement_defs split: if_splits)

lemma same_docs_update:
  "(\<And>r. mr_body (f r) = mr_body r) \<Longrightarrow> update_memories p f t = Inr (n, t') \<Longrightarrow> same_docs t t'"
  by (auto simp: same_docs_def docs_def update_memories_def)

lemma keeps_lacking [db_intros]:
  "keeps_on calm (lacking A) (sql (insert_or_ignore_edge e))" "keeps_on calm (lacking A) (sql (delete_edges e))"
  "keeps_on calm (lacking A) (sql (insert_or_ignore_entity pr nm))"
  "keeps_on calm (lacking A) (sql (insert_or_ignore_memory_entity mi ei))"
  "keeps_on calm (lacking A) (sql (insert_provenance v))" "keeps_on calm (lacking A) (sql (insert_or_ignore_model m d))"
  "keeps_on calm (lacking A) (sql (insert_or_ignore_embedding er))"
  "keeps_on calm (lacking A) (sql (insert_or_replace_embedding er))"
  by (rule undisturbed.keeps_statement, erule (1) lacking_same [OF same_docs_statements(1)]
      lacking_same [OF same_docs_statements(2)] lacking_same [OF same_docs_statements(3)]
      lacking_same [OF same_docs_statements(4)] lacking_same [OF same_docs_statements(5)]
      lacking_same [OF same_docs_statements(6)] lacking_same [OF same_docs_statements(7)]
      lacking_same [OF same_docs_statements(8)])+

lemma keeps_lacking_update [db_intros]:
  "(\<And>r. mr_body (f r) = mr_body r) \<Longrightarrow> keeps_on calm (lacking A) (sql (update_memories p f))"
  by (rule undisturbed.keeps_statement) (auto intro: lacking_same same_docs_update)

lemma keeps_lacking_store [db_intros]:
  "keeps_on calm (lacking A) (store_embedding i model v)" "keeps_on calm (lacking A) (store_embedding_replace i model v)"
  unfolding store_embedding_def store_embedding_replace_def ensure_embedding_model_dimension_def claim_model_dimension_def
    check_registered_def embedding_dimension_for_model_def
  by (intro db_intros; assumption?)+

lemma keeps_lacking_auto_embed [db_intros]: "keeps_on calm (lacking A) (auto_embed i body)"
  unfolding keeps_on_iff
proof (intro allI impI)
  fix s assume a: "calm s" "lacking A (ms_db s)"
  show "calm (snd (auto_embed i body s)) \<and> lacking A (ms_db (snd (auto_embed i body s)))"
  proof (cases "ms_embedder s")
    case None
    then show ?thesis using a by (simp add: auto_embed_def ret_eval)
  next
    case (Some e)
    have "keeps_on calm (lacking A) (andThen (lift_result (embed_one e body)) (store_embedding i (em_model_name e)))"
      by (intro db_intros; assumption?)
    then show ?thesis using a Some unfolding keeps_on_iff by (simp add: auto_embed_def)
  qed
qed

text \<open>A new row is missing from the index until it is inserted there.\<close>

lemma indexed_save_scoped: "keeps_on calm indexed (save_scoped clock project kind body scope)"
proof -
  have ins: "runs calm indexed (sql (insert_memory (new_row project kind body now scope))) (\<lambda>i. lacking [(i, body)]) indexed" for now
    by (rule undisturbed.holds_sql) (auto simp: lacking_def docs_def insert_memory_def new_row_def Let_def split: if_splits)
  have fts: "runs calm (lacking [(i, body)]) (sql (fts_insert i body)) (\<lambda>_. indexed) indexed" for i
    by (rule undisturbed_sql) (auto simp: lacking_def docs_def fts_insert_def)
  show ?thesis unfolding save_scoped_def
    by (intro undisturbed.keeps_bind undisturbed.holds_lift undisturbed.holds_bind [OF ins] undisturbed.holds_bind [OF fts]
        undisturbed.holds_ret keeps_lacking_auto_embed)
qed
text \<open>With distinct ids, one row is one document.\<close>

lemma mset_docs_row:
  assumes "distinct (map mr_id rs)" "List.find (with_id i) rs = Some r"
  shows "mset (map (\<lambda>r. (mr_id r, mr_body r)) (filter (\<lambda>r. mr_id r \<noteq> i) rs)) =
      mset (map (\<lambda>r. (mr_id r, mr_body r)) rs) - {#(i, mr_body r)#}"
    and "mset (map (\<lambda>x. (mr_id x, mr_body (if mr_id x = i then f x else x))) rs) =
      add_mset (i, mr_body (f r)) (mset (map (\<lambda>r. (mr_id r, mr_body r)) rs) - {#(i, mr_body r)#})"
proof (atomize (full), use assms in \<open>induction rs\<close>)
  case (Cons x rs)
  show ?case
  proof (cases "mr_id x = i")
    case True
    then have same: "mr_id y \<noteq> i" if "y \<in> set rs" for y using Cons.prems(1) that by (force simp: image_iff)
    then have "filter (\<lambda>r. mr_id r \<noteq> i) rs = rs" by (simp add: filter_id_conv)
    moreover have "{#(mr_id x, mr_body (if mr_id x = i then f x else x)). x \<in># mset rs#} = {#(mr_id r, mr_body r). r \<in># mset rs#}"
      using same by (intro image_mset_cong) simp
    ultimately show ?thesis using True Cons.prems by simp
  next
    case False
    then have "(i, mr_body r) \<in># mset (map (\<lambda>r. (mr_id r, mr_body r)) rs)"
      using Cons.prems by (auto simp: find_Some_iff)
    then show ?thesis using False Cons by (simp add: multiset_diff_union_assoc [symmetric] diff_union_swap2)
  qed
qed simp

lemma find_row_docs: "find_row t i = Some r \<Longrightarrow> (i, mr_body r) \<in> set (docs t)"
  by (auto simp: docs_def dest!: find_row_Some)

lemma docs_updated:
  assumes "integrity t" "find_row t i = Some r"
  shows "mset (docs (updated i f t)) = add_mset (i, mr_body (f r)) (mset (docs t) - {#(i, mr_body r)#})"
proof -
  have "docs (updated i f t) = map (\<lambda>x. (mr_id x, mr_body (if mr_id x = i then f x else x))) (tb_memories t)"
    by (simp add: docs_def updated_def update_memories_def)
  then show ?thesis using mset_docs_row(2) [of "tb_memories t" i r f] assms
    by (simp add: docs_def find_row_def integrity_def memories_ok_def)
qed

lemma docs_deleted:
  assumes "integrity t" "delete_memories (with_id i) t = Inr (n, t')"
  shows "mset (docs t') = (case find_row t i of None \<Rightarrow> mset (docs t) | Some r \<Rightarrow> mset (docs t) - {#(i, mr_body r)#})"
proof -
  have d: "docs t' = map (\<lambda>r. (mr_id r, mr_body r)) (filter (\<lambda>r. mr_id r \<noteq> i) (tb_memories t))"
    using assms(2) by (auto simp: docs_def delete_memories_def Let_def)
  show ?thesis
  proof (cases "find_row t i")
    case None
    then have "filter (\<lambda>r. mr_id r \<noteq> i) (tb_memories t) = tb_memories t"
      by (simp add: find_row_def find_None_iff filter_id_conv)
    then show ?thesis using None d by (simp add: docs_def)
  next
    case (Some r)
    then show ?thesis using mset_docs_row(1) [of "tb_memories t" i r] assms(1) d
      by (simp add: docs_def find_row_def integrity_def memories_ok_def)
  qed
qed

lemma mirrored_set_body [db_intros]: "keeps_on calm mirrored (set_body i b)"
proof (rule mirroredI [OF keeps_set_body], unfold runs_def, intro allI impI)
  fix s assume c: "calm s" and m: "mirrored (ms_db s)"
  show "calm (snd (set_body i b s)) \<and> (case fst (set_body i b s) of Inl e \<Rightarrow> indexed (ms_db (snd (set_body i b s)))
      | Inr x \<Rightarrow> indexed (ms_db (snd (set_body i b s))))"
  proof (cases "find_row (ms_db s) i")
    case None
    then show ?thesis using c m by (simp add: set_body_missing mirrored_def)
  next
    case (Some r)
    have "mset (tb_fts (ms_db s)) = mset (docs (ms_db s))" using m by (simp add: mirrored_def lacking_def)
    moreover have "mset (docs (updated i (\<lambda>r. r\<lparr>mr_body := b\<rparr>) (ms_db s))) =
        add_mset (i, b) (mset (docs (ms_db s)) - {#(i, mr_body r)#})"
      using docs_updated [OF _ Some, of "\<lambda>r. r\<lparr>mr_body := b\<rparr>"] m by (simp add: mirrored_def)
    ultimately show ?thesis using set_body_calm [OF c Some] c by (simp add: lacking_def docs_def)
  qed
qed

lemma mirrored_delete_steps:
  assumes "integrity t" "indexed t" "find_row t i = Some r"
  shows "delete_memories (with_id i) (t\<lparr>tb_fts := remove1 (i, mr_body r) (tb_fts t)\<rparr>) = Inr (n, t') \<Longrightarrow> indexed t'"
proof -
  let ?t = "t\<lparr>tb_fts := remove1 (i, mr_body r) (tb_fts t)\<rparr>"
  assume d: "delete_memories (with_id i) ?t = Inr (n, t')"
  then have f: "tb_fts t' = remove1 (i, mr_body r) (tb_fts t)" by (auto simp: delete_memories_def Let_def)
  have "integrity ?t" using assms(1) by (auto simp: integrity_defs)
  from docs_deleted [OF this d] show ?thesis using assms f by (simp add: lacking_def docs_def)
qed

lemma mirrored_delete_memory [db_intros]: "keeps_on calm mirrored (delete_memory i)"
proof (rule mirroredI [OF keeps_delete_memory], unfold runs_def, intro allI impI)
  fix s assume c: "calm s" and m: "mirrored (ms_db s)"
  obtain n t where d: "delete_memories (with_id i) (case find_row (ms_db s) i of None \<Rightarrow> ms_db s
      | Some r \<Rightarrow> (ms_db s)\<lparr>tb_fts := remove1 (i, mr_body r) (tb_fts (ms_db s))\<rparr>) = Inr (n, t)"
    by (auto simp: delete_memories_def Let_def)
  have "delete_memory i s = (Inr (), s\<lparr>ms_db := t\<rparr>)"
    using c d by (cases "find_row (ms_db s) i")
      (simp_all add: delete_memory_def fts_delete_row_def andThen_def sql_calm fts_delete_def ret_eval)
  moreover have "indexed t"
  proof (cases "find_row (ms_db s) i")
    case None
    then show ?thesis using docs_deleted [of "ms_db s" i n t] d m
      by (simp add: mirrored_def lacking_def) (auto simp: delete_memories_def Let_def)
  next
    case (Some r)
    then show ?thesis using mirrored_delete_steps [of "ms_db s" i r n t] d m by (simp add: mirrored_def)
  qed
  ultimately show "calm (snd (delete_memory i s)) \<and> (case fst (delete_memory i s) of
      Inl e \<Rightarrow> indexed (ms_db (snd (delete_memory i s))) | Inr x \<Rightarrow> indexed (ms_db (snd (delete_memory i s))))"
    using c by simp
qed

lemma mirrored_delete_row [db_intros]: "keeps_on calm mirrored (delete_row i)"
  unfolding keeps_on_iff
proof (intro allI impI)
  fix s assume c: "calm s" and m: "mirrored (ms_db s)"
  have "snd (delete_row i s) = (if find_row (ms_db s) i = None then s else snd (delete_memory i s))"
    using c by (cases "find_row (ms_db s) i")
      (simp_all add: delete_row_def delete_memory_def fts_delete_row_def andThen_def query_calm sql_calm fts_delete_def
        ret_eval delete_memories_def Let_def)
  then show "calm (snd (delete_row i s)) \<and> mirrored (ms_db (snd (delete_row i s)))"
    using c m mirrored_delete_memory [of i] unfolding keeps_on_iff by auto
qed

text \<open>Operations whose effect on rows and index balances without knowing the ids.\<close>

lemma mirrored_of_indexed: "keeps integrity m \<Longrightarrow> keeps_on calm indexed m \<Longrightarrow> keeps_on calm mirrored m"
  by (rule mirroredI) (auto intro: runs_pre simp: mirrored_def)

lemma mirrored_save [db_intros]: "keeps_on calm mirrored (save_scoped clock project kind body scope)"
  "keeps_on calm mirrored (save clock project kind body)"
  unfolding save_def by (intro mirrored_of_indexed keeps_save_scoped indexed_save_scoped)+

lemma mirrored_statement: "keeps integrity (sql f) \<Longrightarrow> keeps_on calm indexed (sql f) \<Longrightarrow> keeps_on calm mirrored (sql f)"
  by (rule mirrored_of_indexed)

lemma mirrored_statements [db_intros]:
  "keeps_on calm mirrored (sql (insert_or_ignore_edge e))" "keeps_on calm mirrored (sql (delete_edges e))"
  "keeps_on calm mirrored (sql (insert_or_ignore_entity pr nm))"
  "keeps_on calm mirrored (sql (insert_or_ignore_memory_entity mi ei))" "keeps_on calm mirrored (sql (insert_provenance v))"
  "keeps_on calm mirrored (store_embedding i model vec)" "keeps_on calm mirrored (store_embedding_replace i model vec)"
  by (intro mirrored_of_indexed keeps_integrity keeps_lacking keeps_store_embedding keeps_store_embedding_replace
      keeps_lacking_store)+

lemma mirrored_update [db_intros]:
  "(\<And>r. mr_body (f r) = mr_body r) \<Longrightarrow> keeps_on calm mirrored (sql (update_memories p f))"
  by (intro mirrored_of_indexed keeps_integrity keeps_lacking_update)

lemma indexed_forwarded: "indexed t \<Longrightarrow> indexed (forwarded_tables ev project sha now t)"
  by (simp add: lacking_def docs_def forwarded_tables_def Let_def)

lemma mirrored_ingest [db_intros]: "keeps_on calm mirrored (ingest_forwarded clock sha id ev)"
proof (rule mirroredI)
  show "keeps integrity (ingest_forwarded clock sha id ev)" by (rule keeps_ingest_forwarded) simp
  show "runs calm mirrored (ingest_forwarded clock sha id ev) (\<lambda>_. indexed) indexed"
    unfolding runs_def
  proof (intro allI impI)
    fix s assume c: "calm s" and m: "mirrored (ms_db s)"
    obtain r s' where r: "ingest_forwarded clock sha id ev s = (r, s')" by fastforce
    have "ms_db s' = ms_db s \<or> ms_db s' = forwarded_tables ev
        (case ms_project_pin s of Some slug \<Rightarrow> slug | None \<Rightarrow> fe_source_project ev) (sha (fe_body ev)) clock (ms_db s)"
      using ingest_forwarded_result [OF r] by (cases rule: ingest_result.cases) auto
    then have "indexed (ms_db s')" using m by (auto simp: mirrored_def indexed_forwarded)
    moreover have "keeps_on calm (\<lambda>_. True) (insert_forwarded_rows ev p md h now)" for p md h now
      unfolding insert_forwarded_rows_def by (intro db_intros undisturbed.keeps_statement; simp)
    then have "keeps_on calm (\<lambda>_. True) (andThen tx_control (\<lambda>_. andThen (forwarded_receipt_memory_id ev) (\<lambda>known. case known of
        Some memory_id \<Rightarrow> ret \<lparr>io_memory_id = memory_id, io_inserted = False\<rparr> | None \<Rightarrow> ingest_new clock sha id ev p)))" for p
      unfolding ingest_new_def ingest_fallback_def forwarded_receipt_memory_id_def by (intro db_intros; simp)
    then have "calm s'" using c r unfolding keeps_on_iff ingest_forwarded_def Let_def
      by (auto simp: err_eval split: if_splits dest!: spec [of _ s]) (metis snd_conv)?
    ultimately show "calm (snd (ingest_forwarded clock sha id ev s)) \<and> (case fst (ingest_forwarded clock sha id ev s) of
        Inl e \<Rightarrow> indexed (ms_db (snd (ingest_forwarded clock sha id ev s)))
      | Inr x \<Rightarrow> indexed (ms_db (snd (ingest_forwarded clock sha id ev s))))" using r by (simp split: sum.splits)
  qed
qed

text \<open>\<^verbatim>\<open>set_block\<close> and \<^verbatim>\<open>delete_rows\<close> are the operations that can lose the mirror.\<close>

fun maintains_index :: "mem_op \<Rightarrow> bool" where
  "maintains_index (Set_block_op _ _ _ _) = False"
| "maintains_index (Delete_rows_op _ _) = False"
| "maintains_index _ = True"

lemma mirrored_discard [db_intros]: "keeps_on calm P m \<Longrightarrow> keeps_on calm P (discard m)"
  unfolding discard_def by (intro db_intros)

lemma mirrored_list [db_intros]: "keeps_on calm P (list_by_project project n)"
  unfolding list_by_project_def by (rule undisturbed.keeps_query)

lemma mirrored_sweep_row [db_intros]: "keeps_on calm mirrored (sweep_row e row n)"
  unfolding sweep_row_def by (intro db_intros)

lemmas composed_defs = save_with_metadata_def set_metadata_def link_extracted_bipartite_def upsert_entity_def link_memory_entity_def

lemma mirrored_run_op: "maintains_index op \<Longrightarrow> keeps_on calm mirrored (run_op op)"
  by (cases op; simp only: run_op.simps op_defs composed_defs maintains_index.simps;
      (intro db_intros)?; simp)

fun run_ops :: "mem_op list \<Rightarrow> memory_store \<Rightarrow> memory_store" where
  "run_ops [] s = s"
| "run_ops (op # ops) s = run_ops ops (snd (run_op op s))"

lemma run_ops_mirrored: "calm s \<Longrightarrow> mirrored (ms_db s) \<Longrightarrow> list_all maintains_index ops \<Longrightarrow> mirrored (ms_db (run_ops ops s))"
proof (induction ops arbitrary: s)
  case (Cons op ops)
  then have "calm (snd (run_op op s)) \<and> mirrored (ms_db (snd (run_op op s)))"
    using mirrored_run_op [of op] unfolding keeps_on_iff by auto
  then show ?case using Cons by simp
qed simp

text \<open>
  C10 (index_mirrors_rows): without failing statements, any sequence of operations other than setting blocks and
  batch deletion, started on a fresh store, leaves a search index that holds exactly the id and current body of every
  row, also when operations were refused or an embedder failed.
\<close>

theorem index_mirrors_rows:
  assumes "list_all maintains_index ops"
  shows "mset (tb_fts (ms_db (run_ops ops (open_in_memory [])))) =
    mset (map (\<lambda>r. (mr_id r, mr_body r)) (tb_memories (ms_db (run_ops ops (open_in_memory [])))))"
proof -
  have "mirrored (ms_db (open_in_memory []))"
    by (simp add: mirrored_def lacking_def docs_def open_in_memory_def integrity_empty) (simp add: empty_tables_def)
  then show ?thesis using run_ops_mirrored [OF _ _ assms] unfolding mirrored_def lacking_def docs_def
    by (simp add: open_in_memory_def)
qed

definition sample_ops :: "mem_op list" where
  "sample_ops = [Save_op 5 ''p'' ''note'' ''a long text'' Project_scope, Compress_op 1 ''short'', Ingest_op 6 rev (sample_event ''hi''),
     Add_edge_op 1 2 ''rel'', Delete_op 1]"

theorem index_mirrors_rows_witness:
  "list_all maintains_index sample_ops \<and>
   mset (tb_fts (ms_db (run_ops sample_ops (open_in_memory [])))) =
    mset (map (\<lambda>r. (mr_id r, mr_body r)) (tb_memories (ms_db (run_ops sample_ops (open_in_memory [])))))"
proof -
  have "list_all maintains_index sample_ops" by code_simp
  then show ?thesis using index_mirrors_rows by blast
qed

section \<open>Two operations that break the index\<close>

lemma indexed_set: "indexed t \<Longrightarrow> set (tb_fts t) = set (docs t)"
  by (auto simp: lacking_def dest: mset_eq_setD)

text \<open>
  Replacing a block removes the old row but not its document, so the index keeps an entry for a
  row that no longer exists; the comment on \<^verbatim>\<open>set_block\<close> says it rolls off.
\<close>

lemma block_leaves_stale_entry:
  assumes "calm s" "ms_embedder s = None" "0 \<le> clock" "tb_seq (ms_db s) < I64_MAX" "integrity (ms_db s)" "indexed (ms_db s)"
    and "r \<in> set (tb_memories (ms_db s))" "mr_project r = project" "mr_kind r = block_kind name"
  shows "\<exists>i s'. set_block clock project name body s = (Inr i, s') \<and> (mr_id r, mr_body r) \<in> set (tb_fts (ms_db s')) \<and>
    mr_id r \<notin> set (memory_ids (ms_db s')) \<and> \<not> indexed (ms_db s')"
proof -
  let ?p = "\<lambda>r. mr_project r = project \<and> mr_kind r = block_kind name"
  obtain n t where d: "delete_memories ?p (ms_db s) = Inr (n, t)" by (auto simp: delete_memories_def Let_def)
  then have t: "tb_seq t = tb_seq (ms_db s)" "tb_fts t = tb_fts (ms_db s)" "tb_memories t = filter (\<lambda>r. \<not> ?p r) (tb_memories (ms_db s))"
    by (auto simp: delete_memories_def Let_def)
  let ?t = "t\<lparr>tb_memories := tb_memories t @ [new_row project (block_kind name) body clock Project_scope (tb_seq t + 1)],
      tb_seq := tb_seq t + 1, tb_fts := tb_fts t @ [(tb_seq t + 1, body)]\<rparr>"
  have run: "set_block clock project name body s = (Inr (tb_seq t + 1), s\<lparr>ms_db := ?t\<rparr>)"
    using assms d t(1) save_calm [of "s\<lparr>ms_db := t\<rparr>"] by (simp add: set_block_def andThen_eval sql_calm)
  have "(mr_id r, mr_body r) \<in> set (docs (ms_db s))" using assms(7) by (auto simp: docs_def)
  then have stale: "(mr_id r, mr_body r) \<in> set (tb_fts ?t)" using indexed_set [OF assms(6)] t(2) by simp
  have ids: "distinct (memory_ids (ms_db s))" "mr_id r \<le> tb_seq (ms_db s)"
    using assms(5,7) by (auto simp: integrity_def memories_ok_def list_all_iff)
  have "mr_id r \<notin> set (map mr_id (tb_memories t))"
    using ids(1) assms(7-9) unfolding t(3) by (auto simp: distinct_map inj_on_def)
  then have gone: "mr_id r \<notin> set (memory_ids ?t)" using ids(2) t(1) by (simp add: new_row_def)
  moreover have "\<not> indexed ?t"
  proof
    assume "indexed ?t"
    then have "(mr_id r, mr_body r) \<in> set (docs ?t)" using stale indexed_set by blast
    then show False using gone by (auto simp: docs_def)
  qed
  ultimately show ?thesis using run stale by auto
qed

definition block_store :: memory_store where
  "block_store = snd (set_block 5 ''p'' ''persona'' ''old'' (open_in_memory []))"

lemma for_each_fts_delete:
  "calm s \<Longrightarrow> for_each (\<lambda>(i, b). sql (fts_delete i b)) xs s =
     (Inr (), s\<lparr>ms_db := (ms_db s)\<lparr>tb_fts := foldl (\<lambda>f x. remove1 x f) (tb_fts (ms_db s)) xs\<rparr>\<rparr>)"
proof (induction xs arbitrary: s)
  case (Cons x xs)
  then show ?case by (cases x) (simp add: andThen_eval sql_calm fts_delete_def)
qed (simp add: ret_eval)

lemma mset_foldl_remove1: "mset (foldl (\<lambda>f x. remove1 x f) ys xs) = mset ys - mset xs"
  by (induction xs arbitrary: ys) simp_all

definition found_docs :: "int list \<Rightarrow> tables \<Rightarrow> (int \<times> string) list" where
  "found_docs ids t = map (\<lambda>r. (mr_id r, mr_body r)) (rows_where (\<lambda>r. mr_id r \<in> set ids) t)"

lemma mset_partition: "mset xs = mset (filter P xs) + mset (filter (\<lambda>x. \<not> P x) xs)"
  by (induction xs) simp_all

lemma indexed_minus_found:
  assumes "indexed t"
  shows "mset (tb_fts t) - mset (found_docs ids t) = mset (filter (\<lambda>(i, _). i \<notin> set ids) (docs t))"
proof -
  have f: "found_docs ids t = filter (\<lambda>(i, _). i \<in> set ids) (docs t)"
    by (simp add: found_docs_def docs_def rows_where_def filter_map comp_def split_def)
  have "mset (tb_fts t) = mset (docs t)" using assms by (simp add: lacking_def)
  also have "\<dots> = mset (filter (\<lambda>(i, _). i \<in> set ids) (docs t)) + mset (filter (\<lambda>(i, _). i \<notin> set ids) (docs t))"
    using mset_partition [of "docs t" "\<lambda>(i, _). i \<in> set ids"] by (simp only: split_def)
  finally show ?thesis unfolding f by (simp only: add_diff_cancel_left')
qed

text \<open>
  C38 (batch_delete_unindexes): the database library refuses a statement when the number of values differs from the number of
  placeholders. Batch deletion with an id that has no row (or is given twice) binds fewer values than its statement has
  placeholders: it fails after the documents of the existing rows were removed from the index, and the rows stay. The
  comment says missing ids are skipped and the batch is one transaction.
\<close>

theorem batch_delete_unindexes:
  assumes "calm s" "indexed (ms_db s)"
    and refuses: "\<And>n k. n \<noteq> k \<Longrightarrow> bind_error n k \<noteq> None"
    and "i \<in> set ids" "i \<in> set (memory_ids (ms_db s))"
    and "length (found_docs ids (ms_db s)) \<noteq> length ids"
  shows "\<exists>e s'. delete_rows bind_error ids s = (Inl e, s') \<and> tb_memories (ms_db s') = tb_memories (ms_db s) \<and>
    mset (tb_fts (ms_db s')) = mset (filter (\<lambda>(j, _). j \<notin> set ids) (docs (ms_db s))) \<and> \<not> indexed (ms_db s')"
proof -
  let ?found = "found_docs ids (ms_db s)"
  let ?s = "s\<lparr>ms_db := (ms_db s)\<lparr>tb_fts := foldl (\<lambda>f x. remove1 x f) (tb_fts (ms_db s)) ?found\<rparr>\<rparr>"
  obtain msg where msg: "bind_error (length ids) (length ?found) = Some msg" using refuses assms(6) by force
  obtain r where r: "r \<in> set (tb_memories (ms_db s))" "mr_id r = i" using assms(5) by auto
  then have some: "(i, mr_body r) \<in> set ?found" using assms(4) by (force simp: found_docs_def rows_where_def)
  then have ne: "ids \<noteq> []" "?found \<noteq> []" using assms(4) by auto
  have run: "delete_rows bind_error ids s = (Inl (Memory msg), ?s)"
    using ne msg for_each_fts_delete [OF assms(1), of ?found] assms(1)
    by (simp add: delete_rows_def found_docs_def query_calm andThen_def err_eval)
  have m: "mset (tb_fts (ms_db ?s)) = mset (filter (\<lambda>(j, _). j \<notin> set ids) (docs (ms_db s)))"
    using indexed_minus_found [OF assms(2), of ids] by (simp add: mset_foldl_remove1)
  have "\<not> indexed (ms_db ?s)"
  proof
    assume "indexed (ms_db ?s)"
    then have "set (tb_fts (ms_db ?s)) = set (docs (ms_db s))" using indexed_set [of "ms_db ?s"] by (simp add: docs_def)
    moreover have "(i, mr_body r) \<in> set (docs (ms_db s))" using r by (auto simp: docs_def)
    ultimately have "(i, mr_body r) \<in> set (filter (\<lambda>(j, _). j \<notin> set ids) (docs (ms_db s)))" using mset_eq_setD [OF m] by blast
    then show False using assms(4) by simp
  qed
  then show ?thesis using run m by (intro exI [of _ "Memory msg"] exI [of _ ?s]) simp
qed

definition two_rows :: memory_store where
  "two_rows = snd (save 6 ''p'' ''note'' ''b'' (snd (save 5 ''p'' ''note'' ''a'' (open_in_memory []))))"

definition invalid_parameter_count :: "nat \<Rightarrow> nat \<Rightarrow> string option" where
  "invalid_parameter_count n k = (if n = k then None else Some ''Wrong number of parameters passed to query'')"

theorem batch_delete_unindexes_witness:
  "\<exists>e s'. delete_rows invalid_parameter_count [1, 7] two_rows = (Inl e, s') \<and>
    tb_memories (ms_db s') = tb_memories (ms_db two_rows) \<and>
    mset (tb_fts (ms_db s')) = mset (filter (\<lambda>(j, _). j \<notin> set [1, 7]) (docs (ms_db two_rows))) \<and> \<not> indexed (ms_db s')"
proof (rule batch_delete_unindexes [of _ _ 1])
  show "calm two_rows" "1 \<in> set (memory_ids (ms_db two_rows))"
    "length (found_docs [1, 7] (ms_db two_rows)) \<noteq> length [1, 7 :: int]" by code_simp+
  show "indexed (ms_db two_rows)"
    by (simp add: two_rows_def open_in_memory_def empty_tables_def save_calm I64_MAX_def lacking_def docs_def new_row_def)
  show "invalid_parameter_count n k \<noteq> None" if "n \<noteq> k" for n k using that by (simp add: invalid_parameter_count_def)
qed simp

theorem original_kept_witness:
  "\<exists>s'. for_each (compress_in_place 1) [''x'', ''y''] two_rows = (Inr (), s') \<and> full_body 1 s' = (Inr (Some ''a''), s') \<and>
    map_option mr_body (find_row (ms_db s') 1) = Some ''y'' \<and> (\<forall>j. j \<noteq> 1 \<longrightarrow> find_row (ms_db s') j = find_row (ms_db two_rows) j)"
proof -
  let ?r = "new_row ''p'' ''note'' ''a'' 5 Project_scope 1"
  have "calm two_rows" "find_row (ms_db two_rows) 1 = Some ?r"
    by (simp_all add: two_rows_def open_in_memory_def empty_tables_def save_calm I64_MAX_def find_row_def new_row_def)
  from original_kept [OF this, of "[''x'', ''y'']"] show ?thesis by (simp add: original_def new_row_def)
qed

section \<open>Vectors survive storage\<close>

lemma from_to_le_bytes:
  "from_le_bytes (ucast w) (ucast (drop_bit 8 w)) (ucast (drop_bit 16 w)) (ucast (drop_bit 24 w)) = (w :: f32_bits)"
proof (rule bit_word_eqI)
  fix n assume "n < LENGTH(32)"
  then show "bit (from_le_bytes (ucast w) (ucast (drop_bit 8 w)) (ucast (drop_bit 16 w)) (ucast (drop_bit 24 w))) n = bit w n"
    unfolding from_le_bytes_def by (cases "n < 16"; cases "n < 24") (auto simp: bit_simps)
qed

lemma vector_roundtrip: "vector_from_blob (vector_to_blob v) = Inr v"
proof -
  have "le_chunks (vector_to_blob v) = v"
    by (induction v) (simp_all add: vector_to_blob_def to_le_bytes_def from_to_le_bytes)
  then show ?thesis by (simp add: vector_from_blob_def)
qed

end
