(* ===== verification/Memory_Graph.thy ===== *)
theory Memory_Graph
  imports Memory_Store
begin

text \<open>
  The graph side of \<^verbatim>\<open>crates/rtrt-memory/src/lib.rs\<close>: the breadth-first walk of
  \<^verbatim>\<open>recall_via_graph_scoped\<close> and the disjoint sets behind the cluster views. The reads of one
  walk see one snapshot of the tables. The walk is bounded, stays in its project, returns only
  rows within the requested number of edges, and all of them when the cap is not reached. The
  disjoint sets implement the finest partition that joins the united pairs; \<^verbatim>\<open>find\<close> ends and
  the ranks never leave their byte.
\<close>

section \<open>Breadth-first recall\<close>

definition GRAPH_VISIT_FLOOR :: nat where "GRAPH_VISIT_FLOOR = 64"

text \<open>\<^verbatim>\<open>id = ? AND (? IS NULL OR project = ?)\<close> selects a row.\<close>

definition in_project :: "string option \<Rightarrow> tables \<Rightarrow> int \<Rightarrow> bool" where
  "in_project project t i \<longleftrightarrow> list_ex (\<lambda>r. mr_id r = i \<and> (project = None \<or> project = Some (mr_project r))) (tb_memories t)"

definition visit_cap :: "string option \<Rightarrow> tables \<Rightarrow> int list \<Rightarrow> nat" where
  "visit_cap project t seed_ids = (let in_scope = length (rows_where (\<lambda>r. project = None \<or> project = Some (mr_project r)) t) in
     max (max (ceil_sqrt in_scope) GRAPH_VISIT_FLOOR) (length seed_ids))"

text \<open>\<^verbatim>\<open>UNION\<close> removes duplicates and delivers the ids in ascending order.\<close>

definition neighbours :: "string option \<Rightarrow> tables \<Rightarrow> int \<Rightarrow> int list" where
  "neighbours project t i = sort (remdups (filter (in_project project t)
     (map ed_dst_id (filter (\<lambda>e. ed_src_id e = i) (tb_edges t)) @ map ed_src_id (filter (\<lambda>e. ed_dst_id e = i) (tb_edges t)))))"

record graph_walk_state =
  wk_visited :: "int list"
  wk_queue :: "(int \<times> nat) list"
  wk_order :: "int list"

fun seed_walk :: "(int \<Rightarrow> bool) \<Rightarrow> nat \<Rightarrow> int list \<Rightarrow> graph_walk_state \<Rightarrow> graph_walk_state" where
  "seed_walk ok cap [] w = w"
| "seed_walk ok cap (i # ids) w = seed_walk ok cap ids
     (if ok i \<and> i \<notin> set (wk_visited w)
      then (if length (wk_order w) < cap
            then w\<lparr>wk_visited := i # wk_visited w, wk_queue := wk_queue w @ [(i, 0)], wk_order := wk_order w @ [i]\<rparr>
            else w\<lparr>wk_visited := i # wk_visited w\<rparr>)
      else w)"

text \<open>The rows of one node; \<^const>\<open>True\<close> is \<^verbatim>\<open>break 'walk\<close>.\<close>

fun visit_rows :: "nat \<Rightarrow> nat \<Rightarrow> int list \<Rightarrow> graph_walk_state \<Rightarrow> bool \<times> graph_walk_state" where
  "visit_rows cap hop [] w = (False, w)"
| "visit_rows cap hop (next # rows) w =
     (if cap \<le> length (wk_order w) then (True, w)
      else visit_rows cap hop rows
        (if next \<in> set (wk_visited w) then w
         else w\<lparr>wk_visited := next # wk_visited w, wk_queue := wk_queue w @ [(next, hop + 1)], wk_order := wk_order w @ [next]\<rparr>))"

definition walk_measure :: "nat \<Rightarrow> graph_walk_state \<Rightarrow> nat" where
  "walk_measure cap w = 2 * (cap - length (wk_order w)) + length (wk_queue w)"

lemma visit_rows_measure:
  "visit_rows cap hop rows w = (b, w') \<Longrightarrow> walk_measure cap w' \<le> walk_measure cap w"
proof (induction rows arbitrary: w)
  case (Cons x rows)
  show ?case
  proof (cases "cap \<le> length (wk_order w)")
    case True
    then show ?thesis using Cons.prems by simp
  next
    case False
    let ?w = "if x \<in> set (wk_visited w) then w
      else w\<lparr>wk_visited := x # wk_visited w, wk_queue := wk_queue w @ [(x, hop + 1)], wk_order := wk_order w @ [x]\<rparr>"
    have "walk_measure cap w' \<le> walk_measure cap ?w" using Cons False by simp
    also have "\<dots> \<le> walk_measure cap w" using False by (simp add: walk_measure_def) arith
    finally show ?thesis .
  qed
qed simp

function graph_walk :: "(int \<Rightarrow> int list) \<Rightarrow> nat \<Rightarrow> nat \<Rightarrow> graph_walk_state \<Rightarrow> int list" where
  "graph_walk nb cap depth w = (case wk_queue w of
     [] \<Rightarrow> wk_order w
   | (i, hop) # q \<Rightarrow> let w' = w\<lparr>wk_queue := q\<rparr> in
       if depth \<le> hop then graph_walk nb cap depth w'
       else (case visit_rows cap hop (nb i) w' of
         (True, w'') \<Rightarrow> wk_order w''
       | (False, w'') \<Rightarrow> graph_walk nb cap depth w''))"
  by pat_completeness auto
termination
  by (relation "measure (\<lambda>(nb, cap, depth, w). walk_measure cap w)")
    (auto dest!: visit_rows_measure [OF sym] simp: walk_measure_def)

declare graph_walk.simps [simp del]

definition walk_from :: "string option \<Rightarrow> tables \<Rightarrow> int list \<Rightarrow> nat \<Rightarrow> int list" where
  "walk_from project t seed_ids depth = (let cap = visit_cap project t seed_ids in
     graph_walk (neighbours project t) cap depth
       (seed_walk (in_project project t) cap seed_ids \<lparr>wk_visited = [], wk_queue = [], wk_order = []\<rparr>))"

definition recall_via_graph_scoped :: "int list \<Rightarrow> nat \<Rightarrow> string option \<Rightarrow> memory_record list db" where
  "recall_via_graph_scoped seed_ids depth project = query (\<lambda>t.
     map to_record (List.map_filter (find_row t) (walk_from project t seed_ids depth)))"

definition recall_via_graph :: "int list \<Rightarrow> nat \<Rightarrow> memory_record list db" where
  "recall_via_graph seed_ids depth = recall_via_graph_scoped seed_ids depth None"

section \<open>What the walk visits\<close>

inductive linked :: "tables \<Rightarrow> string option \<Rightarrow> int list \<Rightarrow> nat \<Rightarrow> int \<Rightarrow> bool" for t project seeds where
  Seed: "i \<in> set seeds \<Longrightarrow> in_project project t i \<Longrightarrow> linked t project seeds 0 i"
| Hop: "linked t project seeds n i \<Longrightarrow> e \<in> set (tb_edges t) \<Longrightarrow>
    ed_src_id e = i \<and> ed_dst_id e = j \<or> ed_dst_id e = i \<and> ed_src_id e = j \<Longrightarrow> in_project project t j \<Longrightarrow>
    linked t project seeds (Suc n) j"

lemma linked_neighbour: "linked t project seeds n i \<Longrightarrow> j \<in> set (neighbours project t i) \<Longrightarrow> linked t project seeds (Suc n) j"
  by (auto simp: neighbours_def intro: linked.Hop)

lemma linked_induct_neighbours:
  assumes "linked t project seeds n j"
    and "\<And>i. i \<in> set seeds \<Longrightarrow> in_project project t i \<Longrightarrow> P 0 i"
    and "\<And>n i j. P n i \<Longrightarrow> j \<in> set (neighbours project t i) \<Longrightarrow> P (Suc n) j"
  shows "P n j"
  using assms(1)
proof induction
  case (Hop n i e j)
  then have "j \<in> set (neighbours project t i)" by (auto simp: neighbours_def)
  with Hop show ?case using assms(3) by blast
qed (rule assms(2))

lemma linked_in_project: "linked t project seeds n i \<Longrightarrow> in_project project t i"
  by (cases rule: linked.cases) auto

text \<open>
  The invariant of the walk: the queue is the rest of the list \<open>E\<close> of everything ever queued, hops
  never decrease along it and exceed the current one by at most one, and the neighbours of every
  finished node above the depth limit are in it.
\<close>

definition queued_ok ::
  "(nat \<Rightarrow> int \<Rightarrow> bool) \<Rightarrow> nat \<Rightarrow> nat \<Rightarrow> (int \<times> nat) list \<Rightarrow> graph_walk_state \<Rightarrow> bool" where
  "queued_ok reach cap depth E w \<longleftrightarrow>
     wk_order w = map fst E \<and> set (wk_visited w) = set (map fst E) \<and> distinct (map fst E) \<and> length E \<le> cap \<and>
     sorted (map snd E) \<and> (\<forall>(x, l) \<in> set E. reach l x \<and> l \<le> depth)"

definition expanded :: "(int \<Rightarrow> int list) \<Rightarrow> nat \<Rightarrow> (int \<times> nat) list \<Rightarrow> (int \<times> nat) list \<Rightarrow> bool" where
  "expanded nb depth P E \<longleftrightarrow> (\<forall>(x, l) \<in> set P. l < depth \<longrightarrow> (\<forall>y \<in> set (nb x). \<exists>l' \<le> l + 1. (y, l') \<in> set E))"

definition walk_inv ::
  "(int \<Rightarrow> int list) \<Rightarrow> (nat \<Rightarrow> int \<Rightarrow> bool) \<Rightarrow> nat \<Rightarrow> nat \<Rightarrow> (int \<times> nat) list \<Rightarrow> graph_walk_state \<Rightarrow> bool" where
  "walk_inv nb reach cap depth P w \<longleftrightarrow> queued_ok reach cap depth (P @ wk_queue w) w \<and>
     expanded nb depth P (P @ wk_queue w) \<and>
     (\<forall>q \<in> set (take 1 (wk_queue w)). \<forall>p \<in> set (P @ wk_queue w). snd p \<le> snd q + 1)"

lemma expanded_mono: "expanded nb depth P E \<Longrightarrow> set E \<subseteq> set E' \<Longrightarrow> expanded nb depth P E'"
  unfolding expanded_def by fast

lemma visit_rows_inv:
  assumes "visit_rows cap hop rows w = (b, w')" "queued_ok reach cap depth (P @ wk_queue w) w" "hop < depth"
    and "\<forall>p \<in> set (P @ wk_queue w). snd p \<le> hop + 1" "\<forall>y \<in> set rows. reach (Suc hop) y"
  shows "\<exists>F. wk_queue w' = wk_queue w @ F \<and> queued_ok reach cap depth (P @ wk_queue w') w' \<and>
    (\<forall>p \<in> set F. snd p = hop + 1) \<and>
    (if b then cap \<le> length (wk_order w') else \<forall>y \<in> set rows. \<exists>l' \<le> hop + 1. (y, l') \<in> set (P @ wk_queue w'))"
  using assms
proof (induction rows arbitrary: w)
  case Nil
  then show ?case by (intro exI [of _ "[]"]) auto
next
  case (Cons x rows)
  let ?E = "P @ wk_queue w"
  show ?case
  proof (cases "cap \<le> length (wk_order w)")
    case True
    then show ?thesis using Cons.prems by (intro exI [of _ "[]"]) auto
  next
    case room: False
    show ?thesis
    proof (cases "x \<in> set (wk_visited w)")
      case True
      then obtain p where "p \<in> set ?E" "fst p = x" using Cons.prems(2) unfolding queued_ok_def by auto
      then obtain l where l: "(x, l) \<in> set ?E" by (metis prod.collapse)
      obtain F where F: "wk_queue w' = wk_queue w @ F" "queued_ok reach cap depth (P @ wk_queue w') w'"
        "\<forall>p \<in> set F. snd p = hop + 1"
        "if b then cap \<le> length (wk_order w') else \<forall>y \<in> set rows. \<exists>l' \<le> hop + 1. (y, l') \<in> set (P @ wk_queue w')"
        using Cons.IH [of w] Cons.prems room True by auto
      moreover have "l \<le> hop + 1" using bspec [OF Cons.prems(4) l] by simp
      ultimately show ?thesis using l by (intro exI [of _ F]) auto
    next
      case False
      let ?w = "w\<lparr>wk_visited := x # wk_visited w, wk_queue := wk_queue w @ [(x, hop + 1)], wk_order := wk_order w @ [x]\<rparr>"
      have run: "visit_rows cap hop rows ?w = (b, w')" using Cons.prems(1) room False by simp
      have "queued_ok reach cap depth (P @ wk_queue ?w) ?w"
        using Cons.prems(2-5) room False by (auto simp: queued_ok_def sorted_append)
      with Cons.IH [OF run] Cons.prems obtain F where F: "wk_queue w' = wk_queue ?w @ F"
        "queued_ok reach cap depth (P @ wk_queue w') w'" "\<forall>p \<in> set F. snd p = hop + 1"
        "if b then cap \<le> length (wk_order w') else \<forall>y \<in> set rows. \<exists>l' \<le> hop + 1. (y, l') \<in> set (P @ wk_queue w')"
        by auto
      then show ?thesis by (intro exI [of _ "(x, hop + 1) # F"]) auto
    qed
  qed
qed

text \<open>The final list: everything queued, and with room left also everything within reach.\<close>

definition walk_result ::
  "(int \<Rightarrow> int list) \<Rightarrow> (nat \<Rightarrow> int \<Rightarrow> bool) \<Rightarrow> nat \<Rightarrow> nat \<Rightarrow> (int \<times> nat) list \<Rightarrow> int list \<Rightarrow> bool" where
  "walk_result nb reach cap depth E0 out \<longleftrightarrow> (\<exists>E w. queued_ok reach cap depth E w \<and> out = map fst E \<and> set E0 \<subseteq> set E \<and>
     (length out < cap \<longrightarrow> expanded nb depth E E))"

lemma walk_result_mono: "walk_result nb reach cap depth E out \<Longrightarrow> set E' \<subseteq> set E \<Longrightarrow> walk_result nb reach cap depth E' out"
proof -
  assume "walk_result nb reach cap depth E out" and sub: "set E' \<subseteq> set E"
  then obtain E1 w where "queued_ok reach cap depth E1 w" "out = map fst E1" "set E \<subseteq> set E1"
    "length out < cap \<longrightarrow> expanded nb depth E1 E1" unfolding walk_result_def by blast
  then show ?thesis unfolding walk_result_def using sub by (intro exI [of _ E1] exI [of _ w]) simp
qed

lemma take1_bound:
  assumes "sorted (map snd (P @ (i, hop) # q))" "\<forall>p \<in> set E. snd p \<le> hop + 1" "\<forall>p \<in> set F. snd p = hop + 1"
  shows "\<forall>x \<in> set (take 1 (q @ F)). \<forall>p \<in> set E. snd p \<le> snd x + (1 :: nat)"
  using assms by (cases q; cases F) (auto simp: sorted_append dest!: bspec)

lemma walk_inv_skip:
  assumes "walk_inv nb reach cap depth P w" "wk_queue w = (i, hop) # q" "depth \<le> hop"
  shows "walk_inv nb reach cap depth (P @ [(i, hop)]) (w\<lparr>wk_queue := q\<rparr>)"
  using assms take1_bound [of P i hop q "P @ (i, hop) # q" "[]"]
  by (auto simp: walk_inv_def queued_ok_def expanded_def)

lemma walk_inv_visit:
  assumes inv: "walk_inv nb reach cap depth P w" and q: "wk_queue w = (i, hop) # q" and hop: "hop < depth"
    and reach: "\<And>n x y. reach n x \<Longrightarrow> y \<in> set (nb x) \<Longrightarrow> reach (Suc n) y"
    and run: "visit_rows cap hop (nb i) (w\<lparr>wk_queue := q\<rparr>) = (b, w')"
  shows "set (P @ wk_queue w) \<subseteq> set (P @ [(i, hop)] @ wk_queue w') \<and>
    queued_ok reach cap depth (P @ [(i, hop)] @ wk_queue w') w' \<and>
    (if b then cap \<le> length (wk_order w') else walk_inv nb reach cap depth (P @ [(i, hop)]) w')"
proof -
  let ?E = "P @ (i, hop) # q"
  have ok: "queued_ok reach cap depth ((P @ [(i, hop)]) @ wk_queue (w\<lparr>wk_queue := q\<rparr>)) (w\<lparr>wk_queue := q\<rparr>)"
    and old: "expanded nb depth P ?E" and le: "\<forall>p \<in> set ?E. snd p \<le> hop + 1" and srt: "sorted (map snd ?E)"
    and r: "reach hop i"
    using inv q by (auto simp: walk_inv_def queued_ok_def)
  obtain F where F: "wk_queue w' = q @ F" "queued_ok reach cap depth ((P @ [(i, hop)]) @ wk_queue w') w'"
    "\<forall>p \<in> set F. snd p = hop + 1"
    "if b then cap \<le> length (wk_order w') else \<forall>y \<in> set (nb i). \<exists>l' \<le> hop + 1. (y, l') \<in> set ((P @ [(i, hop)]) @ wk_queue w')"
    using visit_rows_inv [OF run ok hop] le reach [OF r] by auto
  have sub: "set ?E \<subseteq> set ((P @ [(i, hop)]) @ wk_queue w')" using F(1) by auto
  have "walk_inv nb reach cap depth (P @ [(i, hop)]) w'" if "\<not> b"
    unfolding walk_inv_def
  proof (intro conjI)
    show "queued_ok reach cap depth ((P @ [(i, hop)]) @ wk_queue w') w'" by (rule F(2))
    have "expanded nb depth [(i, hop)] ((P @ [(i, hop)]) @ wk_queue w')" using F(4) that by (simp add: expanded_def)
    with expanded_mono [OF old sub] show "expanded nb depth (P @ [(i, hop)]) ((P @ [(i, hop)]) @ wk_queue w')"
      unfolding expanded_def by auto
    show "\<forall>x \<in> set (take 1 (wk_queue w')). \<forall>p \<in> set ((P @ [(i, hop)]) @ wk_queue w'). snd p \<le> snd x + 1"
      unfolding F(1) by (rule take1_bound [OF srt _ F(3)]) (use le F(3) in auto)
  qed
  then show ?thesis using F sub q by auto
qed

lemma graph_walk_result:
  assumes "walk_inv nb reach cap depth P w" and "\<And>n x y. reach n x \<Longrightarrow> y \<in> set (nb x) \<Longrightarrow> reach (Suc n) y"
  shows "walk_result nb reach cap depth (P @ wk_queue w) (graph_walk nb cap depth w)"
  using assms
proof (induction nb cap depth w arbitrary: P rule: graph_walk.induct)
  case (1 nb cap depth w)
  note reach = 1(4)
  show ?case
  proof (cases "wk_queue w")
    case Nil
    then show ?thesis using 1(3) by (subst graph_walk.simps) (auto simp: walk_result_def walk_inv_def queued_ok_def)
  next
    case (Cons p q)
    obtain i hop where p: "p = (i, hop)" by fastforce
    note q = Cons [unfolded p]
    show ?thesis
    proof (cases "depth \<le> hop")
      case True
      have "walk_result nb reach cap depth ((P @ [(i, hop)]) @ wk_queue (w\<lparr>wk_queue := q\<rparr>)) (graph_walk nb cap depth (w\<lparr>wk_queue := q\<rparr>))"
        by (rule 1(1) [OF Cons p [symmetric] refl True walk_inv_skip [OF 1(3) q True]]) (rule reach)
      then show ?thesis using True q by (subst graph_walk.simps) simp
    next
      case False
      obtain b w' where run: "visit_rows cap hop (nb i) (w\<lparr>wk_queue := q\<rparr>) = (b, w')" by fastforce
      have v: "set (P @ wk_queue w) \<subseteq> set (P @ [(i, hop)] @ wk_queue w')" "queued_ok reach cap depth (P @ [(i, hop)] @ wk_queue w') w'"
        "if b then cap \<le> length (wk_order w') else walk_inv nb reach cap depth (P @ [(i, hop)]) w'"
        using walk_inv_visit [OF 1(3) q _ _ run] False reach by auto
      show ?thesis
      proof (cases b)
        case True
        then have "graph_walk nb cap depth w = wk_order w'" using False q run by (subst graph_walk.simps) simp
        moreover have "wk_order w' = map fst (P @ [(i, hop)] @ wk_queue w')" using v(2) by (simp add: queued_ok_def)
        ultimately show ?thesis unfolding walk_result_def using v True
          by (intro exI [of _ "P @ [(i, hop)] @ wk_queue w'"] exI [of _ w']) simp
      next
        case b: False
        then have "walk_result nb reach cap depth ((P @ [(i, hop)]) @ wk_queue w') (graph_walk nb cap depth w')"
          by (intro 1(2) [OF Cons p [symmetric] refl False run [symmetric] _ _ reach]) (use v False b in auto)
        moreover have "graph_walk nb cap depth w = graph_walk nb cap depth w'"
          using False q run b by (subst graph_walk.simps) simp
        ultimately show ?thesis using v(1) walk_result_mono [of nb reach cap depth "(P @ [(i, hop)]) @ wk_queue w'"] by simp
      qed
    qed
  qed
qed

lemma seed_walk_inv:
  assumes "queued_ok reach cap depth (wk_queue w) w" "length (wk_queue w) + length ids \<le> cap"
    and "\<forall>p \<in> set (wk_queue w). snd p = 0" "\<And>i. i \<in> set ids \<Longrightarrow> ok i \<Longrightarrow> reach 0 i"
  shows "queued_ok reach cap depth (wk_queue (seed_walk ok cap ids w)) (seed_walk ok cap ids w) \<and>
    (\<forall>p \<in> set (wk_queue (seed_walk ok cap ids w)). snd p = 0) \<and>
    fst ` set (wk_queue (seed_walk ok cap ids w)) = fst ` set (wk_queue w) \<union> {i \<in> set ids. ok i}"
  using assms
proof (induction ids arbitrary: w)
  case (Cons i ids)
  show ?case
  proof (cases "ok i \<and> i \<notin> set (wk_visited w)")
    case True
    let ?w = "w\<lparr>wk_visited := i # wk_visited w, wk_queue := wk_queue w @ [(i, 0)], wk_order := wk_order w @ [i]\<rparr>"
    have "length (wk_order w) = length (wk_queue w)" using Cons.prems(1) by (simp add: queued_ok_def)
    then have e: "seed_walk ok cap (i # ids) w = seed_walk ok cap ids ?w" using True Cons.prems(2) by simp
    have "queued_ok reach cap depth (wk_queue ?w) ?w"
      using Cons.prems True by (auto simp: queued_ok_def sorted_append)
    moreover have "\<forall>p \<in> set (wk_queue ?w). snd p = 0" using Cons.prems(3) by auto
    ultimately have "queued_ok reach cap depth (wk_queue (seed_walk ok cap ids ?w)) (seed_walk ok cap ids ?w) \<and>
        (\<forall>p \<in> set (wk_queue (seed_walk ok cap ids ?w)). snd p = 0) \<and>
        fst ` set (wk_queue (seed_walk ok cap ids ?w)) = fst ` set (wk_queue ?w) \<union> {i \<in> set ids. ok i}"
      using Cons.prems(2,4) by (intro Cons.IH) simp_all
    moreover have "fst ` set (wk_queue ?w) \<union> {j \<in> set ids. ok j} = fst ` set (wk_queue w) \<union> {j \<in> set (i # ids). ok j}"
      using True by auto
    ultimately show ?thesis unfolding e by simp
  next
    case False
    then have e: "seed_walk ok cap (i # ids) w = seed_walk ok cap ids w" by auto
    have "set (wk_visited w) = fst ` set (wk_queue w)" using Cons.prems(1) by (simp add: queued_ok_def)
    then have "fst ` set (wk_queue w) \<union> {j \<in> set ids. ok j} = fst ` set (wk_queue w) \<union> {j \<in> set (i # ids). ok j}"
      using False by auto
    moreover have "queued_ok reach cap depth (wk_queue (seed_walk ok cap ids w)) (seed_walk ok cap ids w) \<and>
        (\<forall>p \<in> set (wk_queue (seed_walk ok cap ids w)). snd p = 0) \<and>
        fst ` set (wk_queue (seed_walk ok cap ids w)) = fst ` set (wk_queue w) \<union> {i \<in> set ids. ok i}"
      using Cons.prems by (intro Cons.IH) simp_all
    ultimately show ?thesis unfolding e by simp
  qed
qed simp

lemma walk_from_result:
  "walk_result (neighbours project t) (linked t project seeds) (visit_cap project t seeds) depth
     (map (\<lambda>i. (i, 0)) (filter (in_project project t) seeds)) (walk_from project t seeds depth)"
proof -
  let ?cap = "visit_cap project t seeds" and ?reach = "linked t project seeds" and ?nb = "neighbours project t"
  let ?w = "seed_walk (in_project project t) ?cap seeds \<lparr>wk_visited = [], wk_queue = [], wk_order = []\<rparr>"
  have s: "queued_ok ?reach ?cap depth (wk_queue ?w) ?w" "\<forall>p \<in> set (wk_queue ?w). snd p = 0"
    "fst ` set (wk_queue ?w) = {i \<in> set seeds. in_project project t i}"
    using seed_walk_inv [of ?reach ?cap depth "\<lparr>wk_visited = [], wk_queue = [], wk_order = []\<rparr>" seeds "in_project project t"]
    by (simp_all add: queued_ok_def visit_cap_def Let_def linked.Seed)
  then have "walk_inv ?nb ?reach ?cap depth [] ?w" by (auto simp: walk_inv_def expanded_def dest: in_set_takeD)
  then have r: "walk_result ?nb ?reach ?cap depth (wk_queue ?w) (graph_walk ?nb ?cap depth ?w)"
    using graph_walk_result [of ?nb ?reach ?cap depth "[]" ?w] linked_neighbour by fastforce
  have "set (map (\<lambda>i. (i, 0)) (filter (in_project project t) seeds)) \<subseteq> set (wk_queue ?w)"
  proof
    fix p assume "p \<in> set (map (\<lambda>i. (i, 0 :: nat)) (filter (in_project project t) seeds))"
    then have "fst p \<in> fst ` set (wk_queue ?w)" "snd p = 0" using s(3) by auto
    then show "p \<in> set (wk_queue ?w)" using s(2) by (metis (no_types, lifting) imageE prod.collapse)
  qed
  with r show ?thesis unfolding walk_from_def Let_def by (rule walk_result_mono)
qed

lemma in_project_find: "in_project project t i \<Longrightarrow> \<exists>r. find_row t i = Some r"
  by (auto simp: in_project_def list_ex_iff find_row_def find_None_iff not_None_eq [symmetric] simp del: not_None_eq)

lemma map_filter_ids:
  "list_all (\<lambda>i. find_row t i \<noteq> None) ids \<Longrightarrow> map rec_id (map to_record (List.map_filter (find_row t) ids)) = ids"
  by (induction ids) (auto simp: map_filter_simps to_record_def dest: find_row_Some)

text \<open>
  C11 (graph_recall): recall over the edge graph returns distinct rows of the requested project, at most the visit cap of
  them, each within the requested number of edges (in either direction, through rows of the project) of a seed of that
  project; and when fewer rows than the cap come back, none within that distance is missing.
\<close>

theorem graph_recall:
  assumes "recall_via_graph_scoped seeds depth project s = (Inr rs, s')"
  defines "t \<equiv> ms_db s" and "cap \<equiv> visit_cap project (ms_db s) seeds"
  shows "distinct (map rec_id rs) \<and> length rs \<le> cap \<and>
    (\<forall>i \<in> set (map rec_id rs). in_project project t i \<and> (\<exists>n \<le> depth. linked t project seeds n i)) \<and>
    (length rs < cap \<longrightarrow> (\<forall>n i. n \<le> depth \<longrightarrow> linked t project seeds n i \<longrightarrow> i \<in> set (map rec_id rs)))"
proof -
  let ?out = "walk_from project t seeds depth"
  obtain E w where E: "queued_ok (linked t project seeds) cap depth E w" "?out = map fst E"
    "set (map (\<lambda>i. (i, 0)) (filter (in_project project t) seeds)) \<subseteq> set E"
    "length ?out < cap \<longrightarrow> expanded (neighbours project t) depth E E"
    using walk_from_result [of project t seeds depth] unfolding walk_result_def t_def cap_def by blast
  have near: "in_project project t i \<and> (\<exists>n \<le> depth. linked t project seeds n i)" if i: "i \<in> set ?out" for i
  proof -
    obtain l where "(i, l) \<in> set E" using i E(2) by auto
    then have "linked t project seeds l i" "l \<le> depth" using E(1) unfolding queued_ok_def by (auto dest!: bspec)
    then show ?thesis by (auto intro: linked_in_project)
  qed
  have "rs = map to_record (List.map_filter (find_row t) ?out)"
    using assms(1) unfolding recall_via_graph_scoped_def query_def t_def by (auto elim: sql_InrE)
  then have ids: "map rec_id rs = ?out"
    using map_filter_ids [of t ?out] near in_project_find by (fastforce simp: list_all_iff)
  have len: "length rs = length ?out" using ids by (metis length_map)
  have "i \<in> set ?out" if room: "length ?out < cap" and "linked t project seeds n i" "n \<le> depth" for n i
  proof -
    have "n \<le> depth \<longrightarrow> (\<exists>l \<le> n. (i, l) \<in> set E)"
      using that(2)
    proof (rule linked_induct_neighbours)
      show "0 \<le> depth \<longrightarrow> (\<exists>l \<le> 0. (j, l) \<in> set E)" if "j \<in> set seeds" "in_project project t j" for j
        using E(3) that by auto
      show "Suc m \<le> depth \<longrightarrow> (\<exists>l \<le> Suc m. (k, l) \<in> set E)"
        if ih: "m \<le> depth \<longrightarrow> (\<exists>l \<le> m. (j, l) \<in> set E)" and k: "k \<in> set (neighbours project t j)" for m j k
      proof
        assume m: "Suc m \<le> depth"
        with ih obtain l where l: "l \<le> m" "(j, l) \<in> set E" by auto
        have "\<forall>y \<in> set (neighbours project t j). \<exists>l' \<le> l + 1. (y, l') \<in> set E"
          using E(4) room l m unfolding expanded_def by (auto dest!: bspec [OF _ l(2)])
        then obtain l' where "l' \<le> l + 1" "(k, l') \<in> set E" using k by blast
        then show "\<exists>l \<le> Suc m. (k, l) \<in> set E" using l(1) by (intro exI [of _ l']) simp
      qed
    qed
    then show ?thesis using that(3) E(2) by force
  qed
  moreover have "distinct ?out" "length ?out \<le> cap" using E(1,2) by (simp_all add: queued_ok_def)
  ultimately show ?thesis unfolding ids len using near by blast
qed

definition linked_store :: memory_store where
  "linked_store = run_ops [Save_op 5 ''p'' ''note'' ''a'' Project_scope, Save_op 6 ''p'' ''note'' ''b'' Project_scope,
     Save_op 7 ''q'' ''note'' ''c'' Project_scope, Add_edge_op 1 2 ''rel'', Add_edge_op 2 3 ''rel''] (open_in_memory [])"

theorem graph_recall_witness:
  "\<exists>rs s'. recall_via_graph_scoped [1] 2 (Some ''p'') linked_store = (Inr rs, s') \<and> map rec_id rs = [1, 2] \<and>
    (\<forall>i \<in> set (map rec_id rs). in_project (Some ''p'') (ms_db linked_store) i)"
proof -
  let ?r = "recall_via_graph_scoped [1] 2 (Some ''p'') linked_store"
  have "map_sum id (map rec_id) (fst ?r) = Inr [1, 2]" by code_simp
  then obtain rs where rs: "fst ?r = Inr rs" "map rec_id rs = [1, 2]" by (cases "fst ?r") simp_all
  then have run: "?r = (Inr rs, snd ?r)" by (metis prod.collapse)
  have "\<forall>i \<in> set (map rec_id rs). in_project (Some ''p'') (ms_db linked_store) i" using graph_recall [OF run] by simp
  with run rs(2) show ?thesis by (intro exI [of _ rs] exI [of _ "snd ?r"] conjI)
qed
section \<open>Disjoint sets\<close>

record union_find =
  uf_parent :: "nat list"
  uf_rank :: "8 word list"

definition uf_new :: "nat \<Rightarrow> union_find" where
  "uf_new n = \<lparr>uf_parent = [0..<n], uf_rank = replicate n 0\<rparr>"

text \<open>
  The loop of \<^verbatim>\<open>find\<close> with path halving: the representative and the changed parents.
  \<^const>\<open>None\<close> is an index out of bounds or a loop that does not end.
\<close>

partial_function (option) find_loop :: "nat list \<Rightarrow> nat \<Rightarrow> (nat \<times> nat list) option" where
  "find_loop p x =
     (if x < length p
      then if p ! x = x then Some (x, p)
        else if p ! x < length p then let p' = p[x := p ! (p ! x)] in find_loop p' (p' ! x) else None
      else None)"

definition uf_find :: "union_find \<Rightarrow> nat \<Rightarrow> (nat \<times> union_find) option" where
  "uf_find u x = map_option (\<lambda>(r, p). (r, u\<lparr>uf_parent := p\<rparr>)) (find_loop (uf_parent u) x)"

definition uf_link :: "union_find \<Rightarrow> nat \<Rightarrow> nat \<Rightarrow> union_find" where
  "uf_link u ra rb =
     (if uf_rank u ! ra < uf_rank u ! rb then u\<lparr>uf_parent := (uf_parent u)[ra := rb]\<rparr>
      else if uf_rank u ! rb < uf_rank u ! ra then u\<lparr>uf_parent := (uf_parent u)[rb := ra]\<rparr>
      else u\<lparr>uf_parent := (uf_parent u)[rb := ra], uf_rank := (uf_rank u)[ra := uf_rank u ! ra + 1]\<rparr>)"

definition uf_union :: "union_find \<Rightarrow> nat \<Rightarrow> nat \<Rightarrow> union_find option" where
  "uf_union u a b = (case uf_find u a of
     None \<Rightarrow> None
   | Some (ra, u1) \<Rightarrow> (case uf_find u1 b of
       None \<Rightarrow> None
     | Some (rb, u2) \<Rightarrow> Some (if ra = rb then u2 else uf_link u2 ra rb)))"

fun uf_unions :: "union_find \<Rightarrow> (nat \<times> nat) list \<Rightarrow> union_find option" where
  "uf_unions u [] = Some u"
| "uf_unions u ((a, b) # es) = (case uf_union u a b of None \<Rightarrow> None | Some u' \<Rightarrow> uf_unions u' es)"

section \<open>Representatives\<close>

inductive root :: "nat list \<Rightarrow> nat \<Rightarrow> nat \<Rightarrow> bool" for p where
  Here: "p ! x = x \<Longrightarrow> root p x x"
| Up: "p ! x \<noteq> x \<Longrightarrow> root p (p ! x) r \<Longrightarrow> root p x r"

inductive_cases rootE: "root p x r"

lemma root_det: "root p x r \<Longrightarrow> root p x s \<Longrightarrow> r = s"
  by (induction rule: root.induct) (auto elim: rootE)

lemma root_fixed: "root p x r \<Longrightarrow> p ! r = r"
  by (induction rule: root.induct) auto

text \<open>Ranks grow strictly along parents and fit their byte.\<close>

definition ranked :: "nat list \<Rightarrow> (nat \<Rightarrow> nat) \<Rightarrow> bool" where
  "ranked p rk \<longleftrightarrow> (\<forall>i < length p. p ! i < length p \<and> (p ! i \<noteq> i \<longrightarrow> rk i < rk (p ! i)) \<and> rk i < 256)"

lemma ranked_root:
  assumes "ranked p rk" "x < length p"
  shows "\<exists>r < length p. root p x r"
  using assms(2)
proof (induction "256 - rk x" arbitrary: x rule: less_induct)
  case less
  show ?case
  proof (cases "p ! x = x")
    case True
    then show ?thesis using less.prems by (auto intro: root.Here)
  next
    case False
    with less.prems assms(1) have "p ! x < length p" "rk x < rk (p ! x)" "rk (p ! x) < 256" by (auto simp: ranked_def)
    moreover from this have "256 - rk (p ! x) < 256 - rk x" by simp
    ultimately obtain r where "r < length p" "root p (p ! x) r" using less.hyps [of "p ! x"] by blast
    then show ?thesis using False by (auto intro: root.Up)
  qed
qed

lemma halving:
  assumes "ranked p rk" "x < length p" "p ! x \<noteq> x"
  defines "p' \<equiv> p[x := p ! (p ! x)]"
  shows "ranked p' rk" "y < length p \<Longrightarrow> root p' y s = root p y s"
proof -
  have up: "p ! x < length p" "rk x < rk (p ! x)" using assms by (auto simp: ranked_def)
  then have g: "p ! (p ! x) < length p" "rk x < rk (p ! (p ! x))" using assms(1) unfolding ranked_def by (metis order.strict_trans)+
  have nth: "p' ! i = (if i = x then p ! (p ! x) else p ! i)" if "i < length p" for i
    using that by (simp add: p'_def nth_list_update)
  show r': "ranked p' rk" unfolding ranked_def
  proof (intro allI impI)
    fix i assume "i < length p'"
    then have i: "i < length p" by (simp add: p'_def)
    show "p' ! i < length p' \<and> (p' ! i \<noteq> i \<longrightarrow> rk i < rk (p' ! i)) \<and> rk i < 256"
      using nth [OF i] assms(1) i g by (auto simp: ranked_def p'_def)
  qed
  have fwd: "root p' y s" if "root p y s" "y < length p" for y s
    using that
  proof (induction rule: root.induct)
    case (Here y)
    then show ?case using nth [of y] assms(3) by (auto intro: root.Here)
  next
    case (Up y s)
    have py: "p ! y < length p" using assms(1) Up.prems by (auto simp: ranked_def)
    show ?case
    proof (cases "y = x")
      case False
      then show ?thesis using Up py nth [OF Up.prems] by (auto intro: root.Up)
    next
      case True
      have "p' ! x = p ! (p ! x)" "p ! (p ! x) \<noteq> x" using nth [OF assms(2)] g by auto
      moreover have "root p' (p ! (p ! x)) s"
      proof (cases "p ! (p ! x) = p ! x")
        case True
        then show ?thesis using Up.IH py \<open>y = x\<close> by simp
      next
        case False
        have "root p' (p ! x) s" using Up.IH py \<open>y = x\<close> by simp
        then show ?thesis using False nth [of "p ! x"] up assms(3) by (cases rule: rootE) auto
      qed
      ultimately show ?thesis using True by (auto intro: root.Up)
    qed
  qed
  show "root p' y s = root p y s" if y: "y < length p"
  proof
    assume "root p' y s"
    moreover obtain s' where "root p y s'" using ranked_root [OF assms(1) y] by blast
    ultimately show "root p y s" using fwd [OF _ y] root_det by metis
  qed (rule fwd [OF _ y])
qed

lemma find_loop_result:
  assumes "ranked p rk" "x < length p"
  shows "\<exists>r p'. find_loop p x = Some (r, p') \<and> root p x r \<and> length p' = length p \<and> ranked p' rk \<and>
    (\<forall>y s. y < length p \<longrightarrow> root p' y s = root p y s)"
  using assms
proof (induction "256 - rk x" arbitrary: x p rule: less_induct)
  case less
  show ?case
  proof (cases "p ! x = x")
    case True
    then show ?thesis using less.prems by (subst find_loop.simps) (auto intro: root.Here)
  next
    case False
    let ?p = "p[x := p ! (p ! x)]"
    note h = halving [OF less.prems False]
    have up: "p ! x < length p" "rk x < rk (p ! x)" "p ! (p ! x) < length p" using less.prems False by (auto simp: ranked_def)
    have g: "rk x < rk (p ! (p ! x))" "rk (p ! (p ! x)) < 256"
      using less.prems(1) up unfolding ranked_def by (metis order.strict_trans)+
    have e: "find_loop p x = find_loop ?p (p ! (p ! x))"
      using less.prems(2) False up by (subst find_loop.simps) simp
    have "256 - rk (p ! (p ! x)) < 256 - rk x" using g by simp
    from less.hyps [OF this h(1), unfolded length_list_update, OF up(3)] obtain r p'
      where r: "find_loop ?p (p ! (p ! x)) = Some (r, p')" "root ?p (p ! (p ! x)) r" "length p' = length p"
        "ranked p' rk" "\<forall>y s. y < length p \<longrightarrow> root p' y s = root ?p y s" by blast
    have "p ! (p ! x) \<noteq> x" using g(1) by (metis less_irrefl)
    moreover have "?p ! x = p ! (p ! x)" using less.prems(2) by simp
    ultimately have "root ?p x r" using r(2) by (metis root.Up)
    then have "root p x r" using h(2) [OF less.prems(2)] by simp
    moreover have "\<forall>y s. y < length p \<longrightarrow> root p' y s = root p y s" using r(5) h(2) by metis
    moreover have "find_loop p x = Some (r, p')" by (rule trans [OF e r(1)])
    ultimately show ?thesis using r(3,4) by blast
  qed
qed


section \<open>Union joins two classes\<close>

definition uf_class :: "nat list \<Rightarrow> nat \<Rightarrow> nat set" where
  "uf_class p r = {i. i < length p \<and> root p i r}"

text \<open>
  The invariant: ranks grow along parents, and a representative of rank $k$ has $2^k$ members, so
  that with an address space of 64 bits no rank passes 63.
\<close>

definition uf_ok :: "union_find \<Rightarrow> bool" where
  "uf_ok u \<longleftrightarrow> length (uf_rank u) = length (uf_parent u) \<and> length (uf_parent u) < 2 ^ 64 \<and>
     ranked (uf_parent u) (\<lambda>i. unat (uf_rank u ! i)) \<and>
     (\<forall>r < length (uf_parent u). uf_parent u ! r = r \<longrightarrow> 2 ^ unat (uf_rank u ! r) \<le> card (uf_class (uf_parent u) r))"

lemma byte_below [simp]: "unat (w :: 8 word) < 256"
  using unsigned_less [of w] by simp

lemma uf_class_finite [simp]: "finite (uf_class p r)"
  by (simp add: uf_class_def)

lemma uf_class_card: "card (uf_class p r) \<le> length p"
  using card_mono [of "{..<length p}" "uf_class p r"] by (auto simp: uf_class_def)

lemma uf_ok_new:
  assumes "n < 2 ^ 64"
  shows "uf_ok (uf_new n)"
proof -
  have "r \<in> uf_class [0..<n] r" if "r < n" for r using that by (auto simp: uf_class_def intro: root.Here)
  then have "1 \<le> card (uf_class [0..<n] r)" if "r < n" for r
    using that card_gt_0_iff [of "uf_class [0..<n] r"] by (fastforce simp: Suc_le_eq)
  then show ?thesis using assms by (simp add: uf_ok_def uf_new_def ranked_def)
qed

lemma root_new: "x < n \<Longrightarrow> root (uf_parent (uf_new n)) x r \<longleftrightarrow> r = x"
  by (auto simp: uf_new_def intro: root.Here elim: rootE)

lemma uf_find_result:
  assumes "uf_ok u" "x < length (uf_parent u)"
  obtains r u' where "uf_find u x = Some (r, u')" "root (uf_parent u) x r" "uf_ok u'" "uf_rank u' = uf_rank u"
    "length (uf_parent u') = length (uf_parent u)"
    "\<And>y s. y < length (uf_parent u) \<Longrightarrow> root (uf_parent u') y s = root (uf_parent u) y s"
proof -
  let ?p = "uf_parent u"
  from assms have rk: "ranked ?p (\<lambda>i. unat (uf_rank u ! i))" by (simp add: uf_ok_def)
  from find_loop_result [OF this assms(2)] obtain r p' where f: "find_loop ?p x = Some (r, p')" "root ?p x r"
    "length p' = length ?p" "ranked p' (\<lambda>i. unat (uf_rank u ! i))"
    "\<forall>y s. y < length ?p \<longrightarrow> root p' y s = root ?p y s" by blast
  have c: "uf_class p' s = uf_class ?p s" for s using f(3,5) by (auto simp: uf_class_def)
  have "?p ! s = s" if "s < length ?p" "p' ! s = s" for s
    using f(5) that root_fixed [of ?p s s] root.Here [of p' s] by auto
  then have "uf_ok (u\<lparr>uf_parent := p'\<rparr>)" using assms(1) f(3,4) by (simp add: uf_ok_def c)
  then show ?thesis using that [of r "u\<lparr>uf_parent := p'\<rparr>"] f by (simp add: uf_find_def)
qed

text \<open>Hanging one representative under another moves its class there.\<close>

lemma root_hang:
  assumes "ranked p rk" "ranked (p[a := b]) rk'" "p ! a = a" "p ! b = b" "a \<noteq> b" "a < length p" "b < length p" "y < length p"
  shows "root (p[a := b]) y s \<longleftrightarrow> (\<exists>s0. root p y s0 \<and> s = (if s0 = a then b else s0))"
proof -
  have nth: "p[a := b] ! i = (if i = a then b else p ! i)" if "i < length p" for i
    using that by (simp add: nth_list_update)
  have bb: "root (p[a := b]) b b" using assms nth [of b] by (auto intro: root.Here)
  have fwd: "root (p[a := b]) y (if s0 = a then b else s0)" if "root p y s0" "y < length p" for y s0
    using that
  proof (induction rule: root.induct)
    case (Here y)
    show ?case
    proof (cases "y = a")
      case True
      then show ?thesis using nth [of a] assms bb by (auto intro: root.Up)
    next
      case False
      then show ?thesis using Here nth [of y] by (auto intro: root.Here)
    qed
  next
    case (Up y s0)
    then have "y \<noteq> a" "p ! y < length p" using assms(1,3) by (auto simp: ranked_def)
    then show ?case using Up nth [of y] by (auto intro: root.Up)
  qed
  obtain s1 where "root p y s1" using ranked_root [OF assms(1,8)] by blast
  note this [THEN fwd [OF _ assms(8)]] this
  then show ?thesis using root_det [of "p[a := b]" y] root_det [of p y] by blast
qed

lemma root_link_same:
  assumes "ranked p rk" "root p y s" "y < length p"
  shows "s < length p"
  using assms(2,3)
proof (induction rule: root.induct)
  case (Up y s)
  then show ?case using assms(1) by (simp add: ranked_def)
qed

lemma uf_class_hang:
  assumes "ranked p rk" "ranked (p[a := b]) rk'" "p ! a = a" "p ! b = b" "a \<noteq> b" "a < length p" "b < length p"
  shows "uf_class (p[a := b]) b = uf_class p a \<union> uf_class p b"
    "s \<noteq> a \<Longrightarrow> s \<noteq> b \<Longrightarrow> uf_class (p[a := b]) s = uf_class p s"
proof -
  have "root (p[a := b]) y b \<longleftrightarrow> root p y a \<or> root p y b" if "y < length p" for y
    using root_hang [OF assms that, of b] assms(5) by metis
  then show "uf_class (p[a := b]) b = uf_class p a \<union> uf_class p b" by (auto simp: uf_class_def)
  have "root (p[a := b]) y s \<longleftrightarrow> root p y s" if "y < length p" "s \<noteq> a" "s \<noteq> b" for y
    using root_hang [OF assms that(1), of s] that(2,3) by metis
  then show "s \<noteq> a \<Longrightarrow> s \<noteq> b \<Longrightarrow> uf_class (p[a := b]) s = uf_class p s" by (auto simp: uf_class_def)
qed

lemma uf_class_disjoint: "a \<noteq> b \<Longrightarrow> uf_class p a \<inter> uf_class p b = {}"
  by (auto simp: uf_class_def dest: root_det)

lemma card_hang:
  assumes "ranked p rk" "ranked (p[a := b]) rk'" "p ! a = a" "p ! b = b" "a \<noteq> b" "a < length p" "b < length p"
  shows "card (uf_class (p[a := b]) b) = card (uf_class p a) + card (uf_class p b)"
  by (simp add: uf_class_hang(1) [OF assms] card_Un_disjoint uf_class_disjoint [OF assms(5)])

lemma ranked_hang:
  assumes "ranked p rk" "a < length p" "b < length p" "rk a < rk b"
  shows "ranked (p[a := b]) rk"
  using assms by (auto simp: ranked_def nth_list_update)

lemma hang_fixed:
  assumes "a \<noteq> b" "s < length p" "a < length p" "p[a := b] ! s = s"
  shows "s \<noteq> a" "p ! s = s"
  using assms by (auto simp: nth_list_update split: if_splits)

text \<open>What one link changes: the members of one representative move to the other.\<close>

definition merged :: "nat list \<Rightarrow> nat \<Rightarrow> nat \<Rightarrow> nat list \<Rightarrow> bool" where
  "merged p a b q \<longleftrightarrow> length q = length p \<and>
     (\<forall>y s. y < length p \<longrightarrow> root q y s \<longleftrightarrow> (\<exists>s0. root p y s0 \<and> s = (if s0 = a then b else s0)))"

lemma hang_below:
  assumes "uf_ok u" "uf_parent u ! a = a" "uf_parent u ! b = b" "a < length (uf_parent u)" "b < length (uf_parent u)"
    "uf_rank u ! a < uf_rank u ! b"
  shows "uf_ok (u\<lparr>uf_parent := (uf_parent u)[a := b]\<rparr>)" "merged (uf_parent u) a b ((uf_parent u)[a := b])"
proof -
  let ?p = "uf_parent u"
  have ab: "a \<noteq> b" using assms(6) by auto
  have rk: "ranked ?p (\<lambda>i. unat (uf_rank u ! i))" using assms(1) by (simp add: uf_ok_def)
  have rk': "ranked (?p[a := b]) (\<lambda>i. unat (uf_rank u ! i))"
    by (rule ranked_hang [OF rk assms(4,5)]) (use assms(6) in \<open>simp add: word_less_nat_alt\<close>)
  note h = rk rk' assms(2,3) ab assms(4,5)
  show "merged ?p a b (?p[a := b])" using root_hang [OF h] by (simp add: merged_def)
  have "2 ^ unat (uf_rank u ! r) \<le> card (uf_class (?p[a := b]) r)" if "r < length ?p" "?p[a := b] ! r = r" for r
  proof -
    from hang_fixed [OF ab that(1) assms(4) that(2)] have r: "r \<noteq> a" "?p ! r = r" .
    with assms(1) that(1) have "2 ^ unat (uf_rank u ! r) \<le> card (uf_class ?p r)" by (simp add: uf_ok_def)
    then show ?thesis using card_hang [OF h] uf_class_hang(2) [OF h r(1)] by (cases "r = b") simp_all
  qed
  then show "uf_ok (u\<lparr>uf_parent := ?p[a := b]\<rparr>)" using assms(1) rk' by (simp add: uf_ok_def)
qed

lemma hang_level:
  assumes "uf_ok u" "uf_parent u ! a = a" "uf_parent u ! b = b" "a < length (uf_parent u)" "b < length (uf_parent u)"
    "uf_rank u ! a = uf_rank u ! b" "a \<noteq> b"
  shows "uf_ok (u\<lparr>uf_parent := (uf_parent u)[a := b], uf_rank := (uf_rank u)[b := uf_rank u ! b + 1]\<rparr>)"
    "merged (uf_parent u) a b ((uf_parent u)[a := b])"
    "unat (uf_rank u ! b + 1) = unat (uf_rank u ! b) + 1"
proof -
  let ?p = "uf_parent u" and ?k = "unat (uf_rank u ! b)"
  let ?q = "?p[a := b]" and ?rk = "\<lambda>i. unat (((uf_rank u)[b := uf_rank u ! b + 1]) ! i)"
  have ok: "length (uf_rank u) = length ?p" "length ?p < 2 ^ 64" "ranked ?p (\<lambda>i. unat (uf_rank u ! i))"
    and big: "\<And>r. r < length ?p \<Longrightarrow> ?p ! r = r \<Longrightarrow> 2 ^ unat (uf_rank u ! r) \<le> card (uf_class ?p r)"
    using assms(1) by (simp_all add: uf_ok_def)
  have "(2 :: nat) ^ ?k < 2 ^ 64" using big [OF assms(5,3)] uf_class_card [of ?p b] ok(2) by linarith
  then have k: "?k < 64" by (rule power_less_imp_less_exp [rotated]) simp
  then show s: "unat (uf_rank u ! b + 1) = ?k + 1" by (simp add: unat_word_ariths)
  have nth: "?rk i = (if i = b then ?k + 1 else unat (uf_rank u ! i))" if "i < length ?p" for i
    using that ok(1) s by (simp add: nth_list_update)
  have rk': "ranked ?q ?rk" unfolding ranked_def
  proof (intro allI impI)
    fix i assume "i < length ?q"
    then have i: "i < length ?p" by simp
    then have pi: "?p ! i < length ?p" "?p ! i \<noteq> i \<Longrightarrow> unat (uf_rank u ! i) < unat (uf_rank u ! (?p ! i))"
      using ok(3) by (simp_all add: ranked_def)
    have "?q ! i < length ?q" using i pi(1) assms(5) by (cases "i = a") simp_all
    moreover have "?rk i < ?rk (?q ! i)" if "?q ! i \<noteq> i"
    proof (cases "i = a")
      case True
      then show ?thesis using nth [OF assms(4)] nth [OF assms(5)] assms(4,6,7) by simp
    next
      case False
      then have "?q ! i = ?p ! i" "?p ! i \<noteq> i" "i \<noteq> b" using that i assms(3) by auto
      then show ?thesis using nth [OF i] nth [OF pi(1)] pi(2) by auto
    qed
    ultimately show "?q ! i < length ?q \<and> (?q ! i \<noteq> i \<longrightarrow> ?rk i < ?rk (?q ! i)) \<and> ?rk i < 256" by simp
  qed
  note h = ok(3) rk' assms(2,3,7,4,5)
  show "merged ?p a b ?q" using root_hang [OF h] by (simp add: merged_def)
  have "2 ^ ?rk r \<le> card (uf_class ?q r)" if "r < length ?p" "?q ! r = r" for r
  proof (cases "r = b")
    case True
    have "2 ^ ?k \<le> card (uf_class ?p a)" using big [OF assms(4,2)] assms(6) by simp
    with big [OF assms(5,3)] show ?thesis using True nth [OF that(1)] card_hang [OF h] by simp
  next
    case False
    from hang_fixed [OF assms(7) that(1) assms(4) that(2)] have r: "r \<noteq> a" "?p ! r = r" .
    then show ?thesis using False nth [OF that(1)] big [OF that(1) r(2)] uf_class_hang(2) [OF h r(1) False] by simp
  qed
  then show "uf_ok (u\<lparr>uf_parent := ?q, uf_rank := (uf_rank u)[b := uf_rank u ! b + 1]\<rparr>)"
    using ok rk' by (simp add: uf_ok_def)
qed

section \<open>The partition of a sequence of unions\<close>

definition same :: "nat list \<Rightarrow> nat \<Rightarrow> nat \<Rightarrow> bool" where
  "same p x y \<longleftrightarrow> (\<exists>r. root p x r \<and> root p y r)"

definition either_way :: "(nat \<times> nat) list \<Rightarrow> (nat \<times> nat) set" where
  "either_way es = set es \<union> (set es)\<inverse>"

lemma same_merged:
  assumes "merged p a b q" "x < length p" "y < length p" "ranked p rk"
  shows "same q x y \<longleftrightarrow> same p x y \<or> root p x a \<and> root p y b \<or> root p x b \<and> root p y a"
proof -
  obtain r s where r: "root p x r" "root p y s" using ranked_root [OF assms(4)] assms(2,3) by blast
  have u: "root p x t \<longleftrightarrow> t = r" "root p y t \<longleftrightarrow> t = s" for t using r root_det by blast+
  have "root q x t \<longleftrightarrow> t = (if r = a then b else r)" "root q y t \<longleftrightarrow> t = (if s = a then b else s)" for t
    using assms(1-3) by (auto simp: merged_def u)
  then show ?thesis by (auto simp: same_def u)
qed

lemma same_root: "root p a r \<Longrightarrow> same p x a \<longleftrightarrow> root p x r" "root p a r \<Longrightarrow> same p a x \<longleftrightarrow> root p x r"
  by (auto simp: same_def dest: root_det)

text \<open>One union joins the classes of its two arguments and no others.\<close>

lemma uf_union_result:
  assumes "uf_ok u" "a < length (uf_parent u)" "b < length (uf_parent u)"
  obtains u' where "uf_union u a b = Some u'" "uf_ok u'" "length (uf_parent u') = length (uf_parent u)"
    "\<And>x y. x < length (uf_parent u) \<Longrightarrow> y < length (uf_parent u) \<Longrightarrow>
       same (uf_parent u') x y \<longleftrightarrow> same (uf_parent u) x y \<or> same (uf_parent u) x a \<and> same (uf_parent u) b y \<or>
         same (uf_parent u) x b \<and> same (uf_parent u) a y"
proof -
  let ?n = "length (uf_parent u)" and ?p = "uf_parent u"
  from uf_find_result [OF assms(1,2)] obtain ra u1 where f1: "uf_find u a = Some (ra, u1)" "root ?p a ra" "uf_ok u1"
    "length (uf_parent u1) = ?n" and k1: "\<And>y s. y < ?n \<Longrightarrow> root (uf_parent u1) y s = root ?p y s" by metis
  from uf_find_result [OF f1(3), of b] assms(3) f1(4) obtain rb u2 where f2: "uf_find u1 b = Some (rb, u2)"
    "root (uf_parent u1) b rb" "uf_ok u2" "length (uf_parent u2) = ?n"
    and k2: "\<And>y s. y < ?n \<Longrightarrow> root (uf_parent u2) y s = root (uf_parent u1) y s" by metis
  let ?q = "uf_parent u2"
  have k: "root ?q y s = root ?p y s" if "y < ?n" for y s using k1 [OF that] k2 [OF that] by simp
  then have same: "same ?q x y = same ?p x y" if "x < ?n" "y < ?n" for x y using that by (simp add: same_def)
  have rk: "ranked ?q (\<lambda>i. unat (uf_rank u2 ! i))" using f2(3) by (simp add: uf_ok_def)
  have ra: "root ?q a ra" "root ?q b rb" using f1(2) f2(2) k1 k2 assms(2,3) by auto
  then have fix2: "?q ! ra = ra" "?q ! rb = rb" "ra < length ?q" "rb < length ?q"
    using root_fixed root_link_same [OF rk] assms(2,3) f2(4) by auto
  have goal: "same (uf_parent u') x y \<longleftrightarrow> same ?p x y \<or> same ?p x a \<and> same ?p b y \<or> same ?p x b \<and> same ?p a y"
    if "merged ?q ra rb (uf_parent u') \<or> merged ?q rb ra (uf_parent u') \<or> ra = rb \<and> u' = u2" "x < ?n" "y < ?n" for u' x y
  proof -
    have s: "same ?p x a = root ?q x ra" "same ?p b y = root ?q y rb" "same ?p x b = root ?q x rb" "same ?p a y = root ?q y ra"
      using same_root [OF ra(1)] same_root [OF ra(2)] same that(2,3) assms(2,3) by metis+
    have "same ?q x y" if "root ?q x ra" "root ?q y ra" using that by (auto simp: same_def)
    then show ?thesis using that(1) same_merged [OF _ _ _ rk, of _ _ _ x y] f2(4) that(2,3) same [OF that(2,3)] unfolding s by metis
  qed
  have res: "uf_union u a b = Some (if ra = rb then u2 else uf_link u2 ra rb)" using f1 f2 by (simp add: uf_union_def)
  show ?thesis
  proof (cases "ra = rb")
    case True
    then show ?thesis using that [OF res] f2(3,4) goal [of u2] by simp
  next
    case False
    have l: "uf_ok (uf_link u2 ra rb)" "merged ?q ra rb (uf_parent (uf_link u2 ra rb)) \<or> merged ?q rb ra (uf_parent (uf_link u2 ra rb))"
      using hang_below [OF f2(3) fix2] hang_below [OF f2(3) fix2(2,1,4,3)] hang_level [OF f2(3) fix2(2,1,4,3)] False
      by (auto simp: uf_link_def)
    then have "length (uf_parent (uf_link u2 ra rb)) = ?n" using f2(4) by (auto simp: merged_def)
    then show ?thesis using that [OF res] False l goal [of "uf_link u2 ra rb"] by simp
  qed
qed

lemma either_way_snoc:
  "(x, y) \<in> (either_way (es @ [(a, b)]))\<^sup>* \<longleftrightarrow> (x, y) \<in> (either_way es)\<^sup>* \<or>
     (x, a) \<in> (either_way es)\<^sup>* \<and> (b, y) \<in> (either_way es)\<^sup>* \<or> (x, b) \<in> (either_way es)\<^sup>* \<and> (a, y) \<in> (either_way es)\<^sup>*"
proof -
  have e: "either_way (es @ [(a, b)]) = insert (a, b) (insert (b, a) (either_way es))" by (auto simp: either_way_def)
  have "sym (either_way es)" by (auto simp: either_way_def sym_def)
  then have "sym ((either_way es)\<^sup>*)" by (rule sym_rtrancl)
  then show ?thesis unfolding e rtrancl_insert by (auto dest: symD intro: rtrancl_trans)
qed

lemma uf_unions_snoc:
  "uf_unions u (es @ [(a, b)]) = (case uf_unions u es of None \<Rightarrow> None | Some u' \<Rightarrow> uf_union u' a b)"
  by (induction u es rule: uf_unions.induct) (auto split: option.splits)

lemma uf_unions_result:
  assumes "n < 2 ^ 64" "list_all (\<lambda>(a, b). a < n \<and> b < n) es"
  shows "\<exists>u. uf_unions (uf_new n) es = Some u \<and> uf_ok u \<and> length (uf_parent u) = n \<and>
    (\<forall>x y. x < n \<longrightarrow> y < n \<longrightarrow> same (uf_parent u) x y = ((x, y) \<in> (either_way es)\<^sup>*))"
  using assms(2)
proof (induction es rule: rev_induct)
  case Nil
  have "same (uf_parent (uf_new n)) x y = (x = y)" if "x < n" "y < n" for x y using that by (auto simp: same_def root_new)
  then show ?case using uf_ok_new [OF assms(1)] by (simp add: either_way_def) (simp add: uf_new_def)
next
  case (snoc e es)
  obtain a b where e: "e = (a, b)" by fastforce
  with snoc obtain u where u: "uf_unions (uf_new n) es = Some u" "uf_ok u" "length (uf_parent u) = n"
    "\<forall>x y. x < n \<longrightarrow> y < n \<longrightarrow> same (uf_parent u) x y = ((x, y) \<in> (either_way es)\<^sup>*)" by auto
  have ab: "a < n" "b < n" using snoc.prems e by auto
  from uf_union_result [OF u(2), of a b] u(3) ab obtain u' where "uf_union u a b = Some u'" "uf_ok u'" "length (uf_parent u') = n"
    "\<And>x y. x < n \<Longrightarrow> y < n \<Longrightarrow> same (uf_parent u') x y \<longleftrightarrow> same (uf_parent u) x y \<or>
       same (uf_parent u) x a \<and> same (uf_parent u) b y \<or> same (uf_parent u) x b \<and> same (uf_parent u) a y" by metis
  then show ?case using u ab by (simp add: e uf_unions_snoc either_way_snoc)
qed

lemma uf_ok_rank: "uf_ok u \<Longrightarrow> i < length (uf_parent u) \<Longrightarrow> uf_parent u ! i = i \<Longrightarrow> unat (uf_rank u ! i) < 64"
  using uf_class_card [of "uf_parent u" i] power_less_imp_less_exp [of "2 :: nat" "unat (uf_rank u ! i)" 64]
  by (fastforce simp: uf_ok_def)

text \<open>
  C22 (union_find_partition): the disjoint sets of the cluster views compute the connected
  components. After any sequence of unions over indices of the structure, none of which fails or
  fails to end, two finds (each of which rewrites the parents on its way) return the same
  representative exactly for two indices that the united pairs connect; and a representative's
  8-bit rank is below 64, so that the increment of a rank never wraps.
\<close>

theorem union_find_partition:
  assumes "n < 2 ^ 64" "list_all (\<lambda>(a, b). a < n \<and> b < n) es" "x < n" "y < n"
  shows "\<exists>u rx u1 ry u2. uf_unions (uf_new n) es = Some u \<and> uf_find u x = Some (rx, u1) \<and> uf_find u1 y = Some (ry, u2) \<and>
    (rx = ry \<longleftrightarrow> (x, y) \<in> (set es \<union> (set es)\<inverse>)\<^sup>*) \<and> unat (uf_rank u2 ! rx) < 64"
proof -
  from uf_unions_result [OF assms(1,2)] obtain u where u: "uf_unions (uf_new n) es = Some u" "uf_ok u" "length (uf_parent u) = n"
    "\<forall>x y. x < n \<longrightarrow> y < n \<longrightarrow> same (uf_parent u) x y = ((x, y) \<in> (either_way es)\<^sup>*)" by blast
  from uf_find_result [OF u(2), of x] assms(3) u(3) obtain rx u1 where f1: "uf_find u x = Some (rx, u1)" "root (uf_parent u) x rx"
    "uf_ok u1" "uf_rank u1 = uf_rank u" "length (uf_parent u1) = n"
    and k1: "\<And>y s. y < n \<Longrightarrow> root (uf_parent u1) y s = root (uf_parent u) y s" by metis
  from uf_find_result [OF f1(3), of y] assms(4) f1(5) obtain ry u2 where f2: "uf_find u1 y = Some (ry, u2)"
    "root (uf_parent u1) y ry" "uf_rank u2 = uf_rank u1" by metis
  have "rx = ry \<longleftrightarrow> same (uf_parent u) x y"
    using f1(2) f2(2) k1 [OF assms(4)] unfolding same_def by (metis root_det)
  moreover have "rx < length (uf_parent u)" using root_link_same f1(2) u(2,3) assms(3) by (auto simp: uf_ok_def)
  then have "unat (uf_rank u ! rx) < 64" using uf_ok_rank [OF u(2)] root_fixed [OF f1(2)] by simp
  ultimately show ?thesis using u f1 f2 assms(3,4) by (simp add: either_way_def)
qed

theorem union_find_partition_witness:
  "\<exists>u rx u1 ry u2. uf_unions (uf_new 5) [(0, 1), (3, 4), (1, 3)] = Some u \<and> uf_find u 0 = Some (rx, u1) \<and> uf_find u1 4 = Some (ry, u2) \<and>
    (rx = ry \<longleftrightarrow> (0 :: nat, 4 :: nat) \<in> (set [(0, 1), (3, 4), (1, 3)] \<union> (set [(0, 1), (3, 4), (1, 3)])\<inverse>)\<^sup>*) \<and> unat (uf_rank u2 ! rx) < 64"
  by (rule union_find_partition) simp_all

end
