(* ===== verification/Regex.thy ===== *)
theory Regex
  imports Rust_Str
begin

text \<open>
  Regular expressions as the \<^verbatim>\<open>regex\<close> crate documents them, for the syntax the pattern texts of
  the sources use. The crate itself is an argument of the models that call it: \<open>find_iter\<close> takes a
  pattern text and a subject and lists the matches. This theory says what the documentation
  promises of it: \<open>follows_docs\<close> states that for every pattern that \<open>parse_re\<close> reads, the matches
  are the leftmost ones, each chosen by the preference order of its alternatives and repetitions.
  Texts are UTF-8; the Unicode word characters outside ASCII are an argument too.
\<close>

section \<open>Characters\<close>

definition utf8_len :: "char \<Rightarrow> nat" where
  "utf8_len c = (if byte c < 192 then 1 else if byte c < 224 then 2 else if byte c < 240 then 3 else 4)"

definition first_char :: "string \<Rightarrow> string" where
  "first_char s = (case s of [] \<Rightarrow> [] | c # _ \<Rightarrow> take (utf8_len c) s)"

definition last_char :: "string \<Rightarrow> string" where
  "last_char s = (let r = rev s in rev (take (length (takeWhile is_continuation r) + 1) r))"

lemma utf8_len_pos [simp]: "0 < utf8_len c"
  by (simp add: utf8_len_def)

lemma first_char_Nil [simp]: "first_char [] = []"
  by (simp add: first_char_def)

lemma length_first_char: "s \<noteq> [] \<Longrightarrow> 0 < length (first_char s)" "length (first_char s) \<le> length s"
  by (auto simp: first_char_def split: list.splits)

lemma take_first_char: "take (length (first_char s)) s = first_char s"
  by (cases s) (simp_all add: first_char_def min_def)

text \<open>\<^verbatim>\<open>str::chars\<close>, each character as its bytes.\<close>

function chars :: "string \<Rightarrow> string list" where
  "chars s = (if s = [] then [] else first_char s # chars (drop (length (first_char s)) s))"
  by pat_completeness auto
termination
  by (relation "measure length") (use length_first_char(1) in \<open>auto intro!: diff_less\<close>)

declare chars.simps [simp del]

lemma concat_chars [simp]: "concat (chars s) = s"
proof (induction s rule: chars.induct)
  case (1 s)
  show ?case
  proof (cases "s = []")
    case False
    then have "concat (chars s) = first_char s @ drop (length (first_char s)) s" using 1 by (subst chars.simps) simp
    then show ?thesis by (metis append_take_drop_id take_first_char)
  qed (simp add: chars.simps)
qed

definition is_ascii_alpha :: "char \<Rightarrow> bool" where
  "is_ascii_alpha c \<longleftrightarrow> 65 \<le> byte c \<and> byte c \<le> 90 \<or> 97 \<le> byte c \<and> byte c \<le> 122"

definition upper :: "char \<Rightarrow> char" where
  "upper c = (if 97 \<le> byte c \<and> byte c \<le> 122 then char_of (byte c - 32) else c)"

text \<open>The two characters outside ASCII that fold to an ASCII letter.\<close>

definition LONG_S :: string where "LONG_S = [CHR 0xC5, CHR 0xBF]"
definition KELVIN :: string where "KELVIN = [CHR 0xE2, CHR 0x84, CHR 0xAA]"

section \<open>Patterns\<close>

datatype cls = One char | Between char char | Space | NotSpace | WordCh

datatype re = Eps
  | Cls bool bool "cls list"       \<comment> \<open>negated, case-insensitive, items\<close>
  | Dot bool                       \<comment> \<open>also a line feed\<close>
  | WordB
  | Start bool                     \<comment> \<open>also after a line feed\<close>
  | End bool                       \<comment> \<open>also before a line feed\<close>
  | Seq re re | Alt re re
  | Rep bool nat "nat option" re   \<comment> \<open>greedy, least, most\<close>
  | Group nat re

fun ascii_item :: "char \<Rightarrow> cls \<Rightarrow> bool" where
  "ascii_item c (One d) = (c = d)"
| "ascii_item c (Between a b) = (byte a \<le> byte c \<and> byte c \<le> byte b)"
| "ascii_item c Space = ascii_ws c"
| "ascii_item c NotSpace = (\<not> ascii_ws c)"
| "ascii_item c WordCh = (is_ascii_alpha c \<or> is_ascii_digit c \<or> c = CHR ''_'')"

fun wide_item :: "(string \<Rightarrow> bool) \<Rightarrow> string \<Rightarrow> cls \<Rightarrow> bool" where
  "wide_item uw ch Space = (0 < ws_len ch)"
| "wide_item uw ch NotSpace = (ws_len ch = 0)"
| "wide_item uw ch WordCh = uw ch"
| "wide_item uw ch _ = False"

definition item_matches :: "(string \<Rightarrow> bool) \<Rightarrow> bool \<Rightarrow> string \<Rightarrow> cls \<Rightarrow> bool" where
  "item_matches uw ci ch it = (case ch of
     [c] \<Rightarrow> ascii_item c it \<or> ci \<and> (ascii_item (lower c) it \<or> ascii_item (upper c) it)
   | _ \<Rightarrow> wide_item uw ch it \<or>
       ci \<and> (ch = LONG_S \<and> (ascii_item (CHR ''s'') it \<or> ascii_item (CHR ''S'') it) \<or>
             ch = KELVIN \<and> (ascii_item (CHR ''k'') it \<or> ascii_item (CHR ''K'') it)))"

definition class_matches :: "(string \<Rightarrow> bool) \<Rightarrow> bool \<Rightarrow> bool \<Rightarrow> cls list \<Rightarrow> string \<Rightarrow> bool" where
  "class_matches uw neg ci items ch = (list_ex (item_matches uw ci ch) items \<noteq> neg)"

definition is_word :: "(string \<Rightarrow> bool) \<Rightarrow> string \<Rightarrow> bool" where
  "is_word uw ch \<longleftrightarrow> ch \<noteq> [] \<and> item_matches uw False ch WordCh"

section \<open>Matching\<close>

text \<open>A state is a position and the captured groups, the latest first.\<close>

type_synonym captures = "(nat \<times> nat \<times> nat) list"
type_synonym match_state = "nat \<times> captures"

text \<open>All ways to repeat, in the order of preference; an optional repetition must advance.\<close>

fun repeats :: "(match_state \<Rightarrow> match_state list) \<Rightarrow> bool \<Rightarrow> nat \<Rightarrow> nat option \<Rightarrow> nat \<Rightarrow> match_state \<Rightarrow> match_state list" where
  "repeats f greedy 0 hi 0 st = [st]"
| "repeats f greedy (Suc lo) hi 0 st = []"
| "repeats f greedy (Suc lo) hi (Suc n) st =
     concat (map (repeats f greedy lo (map_option (\<lambda>h. h - 1) hi) n) (f st))"
| "repeats f greedy 0 hi (Suc n) st =
     (let more = (if hi = Some 0 then []
        else concat (map (repeats f greedy 0 (map_option (\<lambda>h. h - 1) hi) n) (filter (\<lambda>x. fst st < fst x) (f st))))
      in if greedy then more @ [st] else st # more)"

lemma repeats_code [code]:
  "repeats f greedy lo hi n st =
     (if n = 0 then (if lo = 0 then [st] else [])
      else let hi' = map_option (\<lambda>h. h - 1) hi in
        if 0 < lo then concat (map (repeats f greedy (lo - 1) hi' (n - 1)) (f st))
        else let more = (if hi = Some 0 then []
               else concat (map (repeats f greedy 0 hi' (n - 1)) (filter (\<lambda>x. fst st < fst x) (f st))))
             in if greedy then more @ [st] else st # more)"
  by (cases lo; cases n) (simp_all add: Let_def)

fun runs :: "(string \<Rightarrow> bool) \<Rightarrow> string \<Rightarrow> re \<Rightarrow> match_state \<Rightarrow> match_state list" where
  "runs uw t Eps st = [st]"
| "runs uw t (Cls neg ci items) (i, cs) = (let ch = first_char (drop i t) in
     if ch \<noteq> [] \<and> class_matches uw neg ci items ch then [(i + length ch, cs)] else [])"
| "runs uw t (Dot nl) (i, cs) = (let ch = first_char (drop i t) in
     if ch \<noteq> [] \<and> (nl \<or> ch \<noteq> [NL]) then [(i + length ch, cs)] else [])"
| "runs uw t WordB (i, cs) =
     (if is_word uw (last_char (take i t)) \<noteq> is_word uw (first_char (drop i t)) then [(i, cs)] else [])"
| "runs uw t (Start multi) (i, cs) = (if i = 0 \<or> multi \<and> t ! (i - 1) = NL then [(i, cs)] else [])"
| "runs uw t (End multi) (i, cs) = (if i = length t \<or> multi \<and> t ! i = NL then [(i, cs)] else [])"
| "runs uw t (Seq a b) st = concat (map (runs uw t b) (runs uw t a st))"
| "runs uw t (Alt a b) st = runs uw t a st @ runs uw t b st"
| "runs uw t (Rep greedy lo hi r) st = repeats (runs uw t r) greedy lo hi (lo + (length t - fst st) + 1) st"
| "runs uw t (Group k r) (i, cs) = map (\<lambda>(j, cs'). (j, (k, i, j) # cs')) (runs uw t r (i, cs))"

record rmatch =
  m_start :: nat
  m_end :: nat
  m_groups :: captures

text \<open>The first position, among the next \<open>n\<close>, where the pattern matches.\<close>

fun search :: "(string \<Rightarrow> bool) \<Rightarrow> re \<Rightarrow> string \<Rightarrow> nat \<Rightarrow> nat \<Rightarrow> rmatch option" where
  "search uw r t 0 i = None"
| "search uw r t (Suc n) i =
     (case (if i < length t \<and> is_continuation (t ! i) then [] else runs uw t r (i, [])) of
        [] \<Rightarrow> search uw r t n (i + 1)
      | (j, cs) # _ \<Rightarrow> Some \<lparr>m_start = i, m_end = j, m_groups = cs\<rparr>)"

lemma search_code [code]:
  "search uw r t n i = (if n = 0 then None
     else (case (if i < length t \<and> is_continuation (t ! i) then [] else runs uw t r (i, [])) of
        [] \<Rightarrow> search uw r t (n - 1) (i + 1)
      | (j, cs) # _ \<Rightarrow> Some \<lparr>m_start = i, m_end = j, m_groups = cs\<rparr>))"
  by (cases n) (simp_all cong: list.case_cong option.case_cong prod.case_cong)

lemma repeats_chain:
  "x \<in> set (repeats f greedy lo hi n st) \<Longrightarrow> \<exists>k \<ge> lo. (st, x) \<in> {(a, b). b \<in> set (f a)} ^^ k"
proof (induction n arbitrary: lo hi st)
  case 0
  then show ?case by (cases lo) (auto intro: exI [of _ 0])
next
  case (Suc n)
  let ?R = "{(a, b). b \<in> set (f a)}"
  have step: "x = st \<and> lo = 0 \<or> (\<exists>y hi'. y \<in> set (f st) \<and> x \<in> set (repeats f greedy (lo - 1) hi' n y))"
  proof (cases lo)
    case 0
    then show ?thesis using Suc.prems by (auto simp: Let_def split: if_splits)
  next
    case (Suc m)
    then show ?thesis using Suc.prems by auto
  qed
  then show ?case
  proof
    assume "\<exists>y hi'. y \<in> set (f st) \<and> x \<in> set (repeats f greedy (lo - 1) hi' n y)"
    then obtain y hi' where y: "y \<in> set (f st)" "x \<in> set (repeats f greedy (lo - 1) hi' n y)" by blast
    from Suc.IH [OF y(2)] obtain k where "lo - 1 \<le> k" "(y, x) \<in> ?R ^^ k" by blast
    moreover from this have "(st, x) \<in> ?R ^^ Suc k" by (intro relpow_Suc_I2 [of _ y]) (use y(1) in auto)
    ultimately show ?case by (intro exI [of _ "Suc k"]) simp
  qed (auto intro: exI [of _ 0])
qed

section \<open>The language of a pattern\<close>

text \<open>The texts a pattern can match when its assertions are ignored.\<close>

fun lang :: "(string \<Rightarrow> bool) \<Rightarrow> re \<Rightarrow> string set" where
  "lang uw Eps = {[]}"
| "lang uw (Cls neg ci items) = {ch. ch \<noteq> [] \<and> first_char ch = ch \<and> class_matches uw neg ci items ch}"
| "lang uw (Dot nl) = {ch. ch \<noteq> [] \<and> first_char ch = ch \<and> (nl \<or> ch \<noteq> [NL])}"
| "lang uw WordB = {[]}"
| "lang uw (Start multi) = {[]}"
| "lang uw (End multi) = {[]}"
| "lang uw (Seq a b) = {v @ w |v w. v \<in> lang uw a \<and> w \<in> lang uw b}"
| "lang uw (Alt a b) = lang uw a \<union> lang uw b"
| "lang uw (Rep greedy lo hi r) = {concat ws |ws. lo \<le> length ws \<and> set ws \<subseteq> lang uw r}"
| "lang uw (Group k r) = lang uw r"

definition between :: "string \<Rightarrow> nat \<Rightarrow> nat \<Rightarrow> string" where
  "between t i j = take (j - i) (drop i t)"

lemma between_self [simp]: "between t i i = []"
  by (simp add: between_def)

lemma between_append: "i \<le> j \<Longrightarrow> j \<le> k \<Longrightarrow> between t i j @ between t j k = between t i k"
proof -
  assume ij: "i \<le> j" "j \<le> k"
  have "take (j - i) (drop i t) @ take (k - j) (drop (j - i) (drop i t)) = take (j - i + (k - j)) (drop i t)"
    by (simp only: take_add)
  moreover have "j - i + (k - j) = k - i" "drop (j - i) (drop i t) = drop j t" using ij by simp_all
  ultimately show ?thesis by (simp only: between_def)
qed

lemma first_char_idem [simp]: "first_char (first_char s) = first_char s"
  by (cases s) (auto simp: first_char_def take_Cons' split: list.splits)

text \<open>
  A run moves forward inside the text, over a member of the language, and every group it
  captures lies in what it moved over.
\<close>

definition moves :: "string \<Rightarrow> match_state \<Rightarrow> match_state \<Rightarrow> bool" where
  "moves t st st' \<longleftrightarrow> fst st \<le> fst st' \<and> fst st' \<le> length t \<and>
     (\<forall>(k, a, b) \<in> set (snd st'). (k, a, b) \<in> set (snd st) \<or> fst st \<le> a \<and> a \<le> b \<and> b \<le> fst st')"

lemma moves_refl: "fst st \<le> length t \<Longrightarrow> moves t st st"
  by (auto simp: moves_def)

lemma moves_trans: "moves t a b \<Longrightarrow> moves t b c \<Longrightarrow> moves t a c"
  unfolding moves_def by fastforce

lemma relpow_lang:
  assumes "\<And>a b. fst a \<le> length t \<Longrightarrow> b \<in> set (f a) \<Longrightarrow> moves t a b \<and> between t (fst a) (fst b) \<in> L"
    "(st, x) \<in> {(a, b). b \<in> set (f a)} ^^ k" "fst st \<le> length t"
  shows "moves t st x \<and> (\<exists>ws. length ws = k \<and> set ws \<subseteq> L \<and> between t (fst st) (fst x) = concat ws)"
  using assms(2,3)
proof (induction k arbitrary: st)
  case 0
  then show ?case by (auto intro: moves_refl)
next
  case (Suc k)
  from relpow_Suc_D2 [OF Suc.prems(1)] obtain y where y: "y \<in> set (f st)" "(y, x) \<in> {(a, b). b \<in> set (f a)} ^^ k" by auto
  note s = assms(1) [OF Suc.prems(2) y(1)]
  then have "fst y \<le> length t" by (simp add: moves_def)
  from Suc.IH [OF y(2) this] obtain ws where r: "moves t y x" "length ws = k" "set ws \<subseteq> L" "between t (fst y) (fst x) = concat ws" by blast
  have "between t (fst st) (fst x) = between t (fst st) (fst y) @ between t (fst y) (fst x)"
    using s r(1) by (simp add: between_append moves_def)
  then show ?case using s r moves_trans [of t st y x]
    by (intro conjI exI [of _ "between t (fst st) (fst y) # ws"]) auto
qed

lemma runs_lang:
  "st' \<in> set (runs uw t r st) \<Longrightarrow> fst st \<le> length t \<Longrightarrow> moves t st st' \<and> between t (fst st) (fst st') \<in> lang uw r"
proof (induction r arbitrary: st st')
  case (Seq a b)
  then obtain y where y: "y \<in> set (runs uw t a st)" "st' \<in> set (runs uw t b y)" by auto
  note 1 = Seq.IH(1) [OF y(1) Seq.prems(2)]
  then have "fst y \<le> length t" by (simp add: moves_def)
  note 2 = Seq.IH(2) [OF y(2) this]
  have "between t (fst st) (fst st') = between t (fst st) (fst y) @ between t (fst y) (fst st')"
    using 1 2 by (simp add: between_append moves_def)
  then show ?case using 1 2 moves_trans [of t st y st'] by auto
next
  case (Rep greedy lo hi r)
  then have "st' \<in> set (repeats (runs uw t r) greedy lo hi (lo + (length t - fst st) + 1) st)" by simp
  from repeats_chain [OF this] obtain k where k: "lo \<le> k" "(st, st') \<in> {(a, b). b \<in> set (runs uw t r a)} ^^ k" by blast
  from relpow_lang [OF _ k(2) Rep.prems(2), of "lang uw r"] Rep.IH obtain ws where "moves t st st'"
    "length ws = k" "set ws \<subseteq> lang uw r" "between t (fst st) (fst st') = concat ws" by blast
  then show ?case using k(1) unfolding lang.simps by blast
next
  case (Cls neg ci items)
  obtain i cs where st: "st = (i, cs)" by fastforce
  let ?ch = "first_char (drop i t)"
  have ne: "?ch \<noteq> []" "class_matches uw neg ci items ?ch" "st' = (i + length ?ch, cs)"
    using Cls.prems(1) by (auto simp: st Let_def split: if_splits)
  have "between t i (i + length ?ch) = ?ch" by (simp add: between_def take_first_char)
  moreover have "moves t st st'" using length_first_char(2) [of "drop i t"] Cls.prems(2) by (auto simp: moves_def st ne(3))
  ultimately show ?case using ne by (simp add: st)
next
  case (Dot nl)
  obtain i cs where st: "st = (i, cs)" by fastforce
  let ?ch = "first_char (drop i t)"
  have ne: "?ch \<noteq> []" "nl \<or> ?ch \<noteq> [NL]" "st' = (i + length ?ch, cs)"
    using Dot.prems(1) by (auto simp: st Let_def split: if_splits)
  have "between t i (i + length ?ch) = ?ch" by (simp add: between_def take_first_char)
  moreover have "moves t st st'" using length_first_char(2) [of "drop i t"] Dot.prems(2) by (auto simp: moves_def st ne(3))
  ultimately show ?case using ne by (simp add: st)
next
  case (Group k r)
  obtain i cs where st: "st = (i, cs)" by fastforce
  obtain j cs' where r: "(j, cs') \<in> set (runs uw t r (i, cs))" "st' = (j, (k, i, j) # cs')" using Group.prems(1) by (auto simp: st)
  from Group.IH [OF r(1)] Group.prems(2) have m: "moves t (i, cs) (j, cs')" "between t i j \<in> lang uw r" by (auto simp: st)
  then have "moves t st st'" by (auto simp: moves_def st r(2))
  then show ?case using m(2) by (simp add: st r(2))
next
  case WordB
  then show ?case by (cases st) (auto simp: moves_def split: if_splits)
next
  case (Start multi)
  then show ?case by (cases st) (auto simp: moves_def split: if_splits)
next
  case (End multi)
  then show ?case by (cases st) (auto simp: moves_def split: if_splits)
next
  case (Alt a b)
  then show ?case unfolding runs.simps lang.simps by (metis Un_iff set_append)
next
  case Eps
  then show ?case by (simp add: moves_refl)
qed

lemma search_result:
  assumes "search uw r t n i = Some m" "i + n \<le> length t + 1"
  shows "i \<le> m_start m \<and> m_start m \<le> m_end m \<and> m_end m \<le> length t \<and> between t (m_start m) (m_end m) \<in> lang uw r \<and>
    (\<forall>(k, a, b) \<in> set (m_groups m). m_start m \<le> a \<and> a \<le> b \<and> b \<le> m_end m)"
  using assms
proof (induction n arbitrary: i)
  case (Suc n)
  show ?case
  proof (cases "if i < length t \<and> is_continuation (t ! i) then [] else runs uw t r (i, [])")
    case Nil
    then show ?thesis using Suc.IH [of "i + 1"] Suc.prems by simp
  next
    case (Cons x xs)
    obtain j cs where x: "x = (j, cs)" by fastforce
    have "(j, cs) \<in> set (runs uw t r (i, []))" using Cons x by (auto split: if_splits)
    from runs_lang [OF this] Suc.prems Cons x show ?thesis by (auto simp: moves_def)
  qed
qed simp

text \<open>
  All matches from a position on. After an empty match, and instead of an empty match where the
  previous one ended, the search goes on one character later.
\<close>

function find_from :: "(string \<Rightarrow> bool) \<Rightarrow> re \<Rightarrow> string \<Rightarrow> nat \<Rightarrow> nat option \<Rightarrow> rmatch list" where
  "find_from uw r t i last_end =
     (if length t < i then []
      else (case search uw r t (length t + 1 - i) i of
        None \<Rightarrow> []
      | Some m \<Rightarrow>
          if m_start m < m_end m then m # find_from uw r t (m_end m) (Some (m_end m))
          else (if last_end = Some (m_end m) then [] else [m]) @
            find_from uw r t (m_end m + max 1 (length (first_char (drop (m_end m) t)))) (Some (m_end m))))"
  by pat_completeness auto
termination
  by (relation "measure (\<lambda>(uw, r, t, i, last_end). length t + 1 - i)") (auto dest!: search_result)

declare find_from.simps [simp del]

definition find_all :: "(string \<Rightarrow> bool) \<Rightarrow> re \<Rightarrow> string \<Rightarrow> rmatch list" where
  "find_all uw r t = find_from uw r t 0 None"

text \<open>The matches come in order, do not overlap, and each is a member of the language.\<close>

fun in_order :: "string \<Rightarrow> nat \<Rightarrow> rmatch list \<Rightarrow> bool" where
  "in_order t i [] = (i \<le> length t)"
| "in_order t i (m # ms) = (i \<le> m_start m \<and> m_start m \<le> m_end m \<and>
     list_all (\<lambda>(k, a, b). m_start m \<le> a \<and> a \<le> b \<and> b \<le> m_end m) (m_groups m) \<and> in_order t (m_end m) ms)"

lemma in_order_end: "in_order t i ms \<Longrightarrow> i \<le> length t"
  by (induction ms arbitrary: i) fastforce+

lemma in_order_weaken: "in_order t j ms \<Longrightarrow> i \<le> j \<Longrightarrow> in_order t i ms"
  by (cases ms) auto

lemma find_from_in_order:
  "i \<le> length t \<Longrightarrow> in_order t i (find_from uw r t i l) \<and> (\<forall>m \<in> set (find_from uw r t i l). between t (m_start m) (m_end m) \<in> lang uw r)"
proof (induction uw r t i l rule: find_from.induct)
  case (1 uw r t i l)
  show ?case
  proof (cases "search uw r t (length t + 1 - i) i")
    case None
    then show ?thesis using 1(3) by (subst (1 2) find_from.simps) simp
  next
    case (Some m)
    have m: "i \<le> m_start m" "m_start m \<le> m_end m" "m_end m \<le> length t" "between t (m_start m) (m_end m) \<in> lang uw r"
      "list_all (\<lambda>(k, a, b). m_start m \<le> a \<and> a \<le> b \<and> b \<le> m_end m) (m_groups m)"
      using search_result [OF Some] 1(3) by (auto simp: list_all_iff)
    show ?thesis
    proof (cases "m_start m < m_end m")
      case True
      with 1(1) [OF _ Some True] 1(3) m have "in_order t (m_end m) (find_from uw r t (m_end m) (Some (m_end m))) \<and>
        (\<forall>m' \<in> set (find_from uw r t (m_end m) (Some (m_end m))). between t (m_start m') (m_end m') \<in> lang uw r)" by simp
      then show ?thesis using Some True m 1(3) by (subst (1 2) find_from.simps) simp
    next
      case False
      let ?j = "m_end m + max 1 (length (first_char (drop (m_end m) t)))"
      let ?rest = "find_from uw r t ?j (Some (m_end m))"
      have "in_order t (m_end m) ?rest \<and> (\<forall>m' \<in> set ?rest. between t (m_start m') (m_end m') \<in> lang uw r)"
      proof (cases "?j \<le> length t")
        case True
        with 1(2) [OF _ Some False] 1(3) show ?thesis by (auto intro: in_order_weaken [where j = ?j])
      next
        case False
        then have "?rest = []" by (subst find_from.simps) simp
        then show ?thesis using m(3) by simp
      qed
      then have "in_order t i ((if l = Some (m_end m) then [] else [m]) @ ?rest) \<and>
        (\<forall>m' \<in> set ((if l = Some (m_end m) then [] else [m]) @ ?rest). between t (m_start m') (m_end m') \<in> lang uw r)"
        using m in_order_weaken [of t "m_end m" ?rest i] by auto
      then show ?thesis using Some False 1(3) by (subst (1 2) find_from.simps) simp
    qed
  qed
qed

lemma find_all_in_order:
  "in_order t 0 (find_all uw r t)" "m \<in> set (find_all uw r t) \<Longrightarrow> between t (m_start m) (m_end m) \<in> lang uw r"
  using find_from_in_order [of 0 t uw r None] by (simp_all add: find_all_def)

section \<open>Syntax\<close>

text \<open>
  A recursive descent over the pattern text; \<open>k\<close> is the number of the next group. The flags are
  \<^verbatim>\<open>i\<close>, \<^verbatim>\<open>m\<close>, \<^verbatim>\<open>s\<close>, \<^verbatim>\<open>x\<close>; under \<^verbatim>\<open>x\<close> white space and comments outside classes are
  skipped.
\<close>

record re_flags =
  fl_i :: bool
  fl_m :: bool
  fl_s :: bool
  fl_x :: bool

abbreviation BSLASH :: char where "BSLASH \<equiv> CHR 0x5C"

fun skip_line :: "string \<Rightarrow> string" where
  "skip_line [] = []"
| "skip_line (c # s) = (if c = NL then s else skip_line s)"

fun skip_verbose :: "nat \<Rightarrow> string \<Rightarrow> string" where
  "skip_verbose 0 s = s"
| "skip_verbose (Suc n) [] = []"
| "skip_verbose (Suc n) (c # s) =
     (if ascii_ws c then skip_verbose n s
      else if c = CHR ''#'' then skip_verbose n (skip_line s)
      else c # s)"

lemma skip_verbose_code [code]:
  "skip_verbose n s = (if n = 0 then s else (case s of [] \<Rightarrow> []
     | c # s1 \<Rightarrow> if ascii_ws c then skip_verbose (n - 1) s1
         else if c = CHR ''#'' then skip_verbose (n - 1) (skip_line s1) else s))"
  by (cases n; cases s) simp_all

definition class_escape :: "char \<Rightarrow> cls option" where
  "class_escape c =
     (if c = CHR ''s'' then Some Space else if c = CHR ''S'' then Some NotSpace else if c = CHR ''w'' then Some WordCh
      else if c = CHR ''n'' then Some (One NL) else if c = CHR ''t'' then Some (One (CHR 0x09))
      else if is_ascii_alpha c \<or> is_ascii_digit c then None else Some (One c))"

text \<open>The items of a class up to its closing bracket.\<close>

fun p_class :: "nat \<Rightarrow> string \<Rightarrow> (cls list \<times> string) option" where
  "p_class 0 s = None"
| "p_class (Suc n) s = (case s of
     [] \<Rightarrow> None
   | c # s1 \<Rightarrow>
       if c = CHR '']'' then Some ([], s1)
       else if c = BSLASH then (case s1 of
           [] \<Rightarrow> None
         | d # s2 \<Rightarrow> (case class_escape d of
             None \<Rightarrow> None
           | Some it \<Rightarrow> map_option (\<lambda>(its, s3). (it # its, s3)) (p_class n s2)))
       else (case s1 of
           d # e # s2 \<Rightarrow>
             if d = CHR ''-'' \<and> e \<noteq> CHR '']'' then map_option (\<lambda>(its, s3). (Between c e # its, s3)) (p_class n s2)
             else map_option (\<lambda>(its, s3). (One c # its, s3)) (p_class n s1)
         | _ \<Rightarrow> map_option (\<lambda>(its, s3). (One c # its, s3)) (p_class n s1)))"

lemma p_class_code [code]:
  "p_class n s = (if n = 0 then None else (case s of
     [] \<Rightarrow> None
   | c # s1 \<Rightarrow>
       if c = CHR '']'' then Some ([], s1)
       else if c = BSLASH then (case s1 of
           [] \<Rightarrow> None
         | d # s2 \<Rightarrow> (case class_escape d of
             None \<Rightarrow> None
           | Some it \<Rightarrow> map_option (\<lambda>(its, s3). (it # its, s3)) (p_class (n - 1) s2)))
       else (case s1 of
           d # e # s2 \<Rightarrow>
             if d = CHR ''-'' \<and> e \<noteq> CHR '']'' then map_option (\<lambda>(its, s3). (Between c e # its, s3)) (p_class (n - 1) s2)
             else map_option (\<lambda>(its, s3). (One c # its, s3)) (p_class (n - 1) s1)
         | _ \<Rightarrow> map_option (\<lambda>(its, s3). (One c # its, s3)) (p_class (n - 1) s1))))"
  by (cases n; hypsubst; simp only: p_class.simps diff_Suc_1 if_True if_False nat.distinct simp_thms)

definition p_number :: "string \<Rightarrow> (nat \<times> string) option" where
  "p_number s = (let ds = takeWhile is_ascii_digit s in if ds = [] then None else Some (digits_val ds, drop (length ds) s))"

text \<open>\<open>*\<close>, \<open>+\<close>, \<open>?\<close>, \<open>{n}\<close>, \<open>{n,}\<close>, \<open>{n,m}\<close>, each lazy before a question mark.\<close>

definition p_bounds :: "string \<Rightarrow> (nat \<times> nat option \<times> string) option" where
  "p_bounds s = (case p_number s of
     None \<Rightarrow> None
   | Some (lo, s1) \<Rightarrow>
       if starts_with s1 ''}'' then Some (lo, Some lo, drop 1 s1)
       else if starts_with s1 '',}'' then Some (lo, None, drop 2 s1)
       else if starts_with s1 '','' then (case p_number (drop 1 s1) of
           None \<Rightarrow> None
         | Some (hi, s2) \<Rightarrow> if starts_with s2 ''}'' then Some (lo, Some hi, drop 1 s2) else None)
       else None)"

definition p_repeat :: "re \<Rightarrow> string \<Rightarrow> (re \<times> string) option" where
  "p_repeat r s = (let lazy_at = (\<lambda>lo hi s1.
       if starts_with s1 ''?'' then Some (Rep False lo hi r, drop 1 s1) else Some (Rep True lo hi r, s1)) in
     (case s of
       [] \<Rightarrow> Some (r, s)
     | c # s1 \<Rightarrow>
         if c = CHR ''*'' then lazy_at 0 None s1
         else if c = CHR ''+'' then lazy_at 1 None s1
         else if c = CHR ''?'' then lazy_at 0 (Some 1) s1
         else if c = CHR ''{'' then (case p_bounds s1 of None \<Rightarrow> None | Some (lo, hi, s2) \<Rightarrow> lazy_at lo hi s2)
         else Some (r, s)))"

fun p_alt :: "nat \<Rightarrow> re_flags \<Rightarrow> nat \<Rightarrow> string \<Rightarrow> (re \<times> nat \<times> string) option"
  and p_seq :: "nat \<Rightarrow> re_flags \<Rightarrow> nat \<Rightarrow> string \<Rightarrow> (re \<times> nat \<times> string) option"
  and p_atom :: "nat \<Rightarrow> re_flags \<Rightarrow> nat \<Rightarrow> string \<Rightarrow> (re \<times> nat \<times> string) option" where
  "p_alt 0 f k s = None"
| "p_alt (Suc n) f k s = (case p_seq n f k s of
     None \<Rightarrow> None
   | Some (a, k1, s1) \<Rightarrow>
       if starts_with s1 ''|'' then map_option (\<lambda>(b, k2, s2). (Alt a b, k2, s2)) (p_alt n f k1 (drop 1 s1))
       else Some (a, k1, s1))"
| "p_seq 0 f k s = None"
| "p_seq (Suc n) f k s = (let s0 = (if fl_x f then skip_verbose (length s) s else s) in
     if (case s0 of [] \<Rightarrow> True | c # _ \<Rightarrow> c = CHR ''|'' \<or> c = CHR '')'') then Some (Eps, k, s0)
     else (case p_atom n f k s0 of
       None \<Rightarrow> None
     | Some (a, k1, s1) \<Rightarrow> (case p_repeat a s1 of
         None \<Rightarrow> None
       | Some (q, s2) \<Rightarrow> map_option (\<lambda>(b, k2, s3). (if b = Eps then q else Seq q b, k2, s3)) (p_seq n f k1 s2))))"
| "p_atom 0 f k s = None"
| "p_atom (Suc n) f k s = (case s of
     [] \<Rightarrow> None
   | c # s1 \<Rightarrow>
       if c = CHR ''('' then
         (if starts_with s1 ''?:'' then (case p_alt n f k (drop 2 s1) of
              None \<Rightarrow> None
            | Some (r, k1, s2) \<Rightarrow> if starts_with s2 '')'' then Some (r, k1, drop 1 s2) else None)
          else (case p_alt n f (k + 1) s1 of
              None \<Rightarrow> None
            | Some (r, k1, s2) \<Rightarrow> if starts_with s2 '')'' then Some (Group k r, k1, drop 1 s2) else None))
       else if c = CHR ''['' then
         (let neg = starts_with s1 ''^'' in
          map_option (\<lambda>(its, s2). (Cls neg (fl_i f) its, k, s2)) (p_class (length s) (if neg then drop 1 s1 else s1)))
       else if c = CHR ''.'' then Some (Dot (fl_s f), k, s1)
       else if c = CHR ''^'' then Some (Start (fl_m f), k, s1)
       else if c = CHR ''$'' then Some (End (fl_m f), k, s1)
       else if c = BSLASH then (case s1 of
           [] \<Rightarrow> None
         | d # s2 \<Rightarrow> if d = CHR ''b'' then Some (WordB, k, s2)
             else map_option (\<lambda>it. (Cls False (fl_i f) [it], k, s2)) (class_escape d))
       else if list_ex (\<lambda>d. c = d) ''*+?{}'' \<or> 128 \<le> byte c then None
       else Some (Cls False (fl_i f) [One c], k, s1))"

lemma p_alt_code [code]:
  "p_alt n f k s = (if n = 0 then None else (case p_seq (n - 1) f k s of
     None \<Rightarrow> None
   | Some (a, k1, s1) \<Rightarrow>
       if starts_with s1 ''|'' then map_option (\<lambda>(b, k2, s2). (Alt a b, k2, s2)) (p_alt (n - 1) f k1 (drop 1 s1))
       else Some (a, k1, s1)))"
  by (cases n; hypsubst; simp only: p_alt.simps diff_Suc_1 if_True if_False nat.distinct simp_thms)

lemma p_seq_code [code]:
  "p_seq n f k s = (if n = 0 then None else (let s0 = (if fl_x f then skip_verbose (length s) s else s) in
     if (case s0 of [] \<Rightarrow> True | c # _ \<Rightarrow> c = CHR ''|'' \<or> c = CHR '')'') then Some (Eps, k, s0)
     else (case p_atom (n - 1) f k s0 of
       None \<Rightarrow> None
     | Some (a, k1, s1) \<Rightarrow> (case p_repeat a s1 of
         None \<Rightarrow> None
       | Some (q, s2) \<Rightarrow> map_option (\<lambda>(b, k2, s3). (if b = Eps then q else Seq q b, k2, s3)) (p_seq (n - 1) f k1 s2)))))"
  by (cases n; hypsubst; simp only: p_seq.simps diff_Suc_1 if_True if_False nat.distinct simp_thms)

lemma p_atom_code [code]:
  "p_atom n f k s = (if n = 0 then None else (case s of
     [] \<Rightarrow> None
   | c # s1 \<Rightarrow>
       if c = CHR ''('' then
         (if starts_with s1 ''?:'' then (case p_alt (n - 1) f k (drop 2 s1) of
              None \<Rightarrow> None
            | Some (r, k1, s2) \<Rightarrow> if starts_with s2 '')'' then Some (r, k1, drop 1 s2) else None)
          else (case p_alt (n - 1) f (k + 1) s1 of
              None \<Rightarrow> None
            | Some (r, k1, s2) \<Rightarrow> if starts_with s2 '')'' then Some (Group k r, k1, drop 1 s2) else None))
       else if c = CHR ''['' then
         (let neg = starts_with s1 ''^'' in
          map_option (\<lambda>(its, s2). (Cls neg (fl_i f) its, k, s2)) (p_class (length s) (if neg then drop 1 s1 else s1)))
       else if c = CHR ''.'' then Some (Dot (fl_s f), k, s1)
       else if c = CHR ''^'' then Some (Start (fl_m f), k, s1)
       else if c = CHR ''$'' then Some (End (fl_m f), k, s1)
       else if c = BSLASH then (case s1 of
           [] \<Rightarrow> None
         | d # s2 \<Rightarrow> if d = CHR ''b'' then Some (WordB, k, s2)
             else map_option (\<lambda>it. (Cls False (fl_i f) [it], k, s2)) (class_escape d))
       else if list_ex (\<lambda>d. c = d) ''*+?{}'' \<or> 128 \<le> byte c then None
       else Some (Cls False (fl_i f) [One c], k, s1)))"
  by (cases n; hypsubst; simp only: p_atom.simps diff_Suc_1 if_True if_False nat.distinct simp_thms)

definition p_flags :: "string \<Rightarrow> re_flags \<times> string" where
  "p_flags s = (let fs = takeWhile (\<lambda>c. list_ex (\<lambda>d. c = d) ''imsx'') (drop 2 s) in
     if starts_with s ''(?'' \<and> fs \<noteq> [] \<and> starts_with (drop (2 + length fs) s) '')''
     then (\<lparr>fl_i = CHR ''i'' \<in> set fs, fl_m = CHR ''m'' \<in> set fs, fl_s = CHR ''s'' \<in> set fs, fl_x = CHR ''x'' \<in> set fs\<rparr>,
           drop (3 + length fs) s)
     else (\<lparr>fl_i = False, fl_m = False, fl_s = False, fl_x = False\<rparr>, s))"

definition parse_re :: "string \<Rightarrow> re option" where
  "parse_re s = (let (f, s1) = p_flags s in
     case p_alt (3 * length s + 3) f 1 s1 of Some (r, _, []) \<Rightarrow> Some r | _ \<Rightarrow> None)"

section \<open>The engine and replacing\<close>

text \<open>An engine lists the matches of a pattern text in a subject.\<close>

type_synonym find_iter = "string \<Rightarrow> string \<Rightarrow> rmatch list"

definition follows_docs :: "(string \<Rightarrow> bool) \<Rightarrow> find_iter \<Rightarrow> bool" where
  "follows_docs uw rx \<longleftrightarrow> (\<forall>p r. parse_re p = Some r \<longrightarrow> (\<forall>t. rx p t = find_all uw r t))"

definition documented :: "(string \<Rightarrow> bool) \<Rightarrow> find_iter" where
  "documented uw p t = (case parse_re p of None \<Rightarrow> [] | Some r \<Rightarrow> find_all uw r t)"

lemma documented_follows [simp]: "follows_docs uw (documented uw)"
  by (simp add: follows_docs_def documented_def)

definition group_text :: "string \<Rightarrow> rmatch \<Rightarrow> nat \<Rightarrow> string" where
  "group_text t m k = (if k = 0 then between t (m_start m) (m_end m)
     else (case map_of (m_groups m) k of None \<Rightarrow> [] | Some (a, b) \<Rightarrow> between t a b))"

text \<open>\<^verbatim>\<open>$1\<close> in a replacement text stands for the first group; names do not occur.\<close>

fun expand :: "nat \<Rightarrow> string \<Rightarrow> rmatch \<Rightarrow> string \<Rightarrow> string" where
  "expand 0 t m s = []"
| "expand (Suc n) t m [] = []"
| "expand (Suc n) t m (c # s) =
     (if c = CHR ''$'' then (case p_number s of
         None \<Rightarrow> c # expand n t m s
       | Some (k, s1) \<Rightarrow> group_text t m k @ expand n t m s1)
      else c # expand n t m s)"

lemma expand_code [code]:
  "expand n t m s = (if n = 0 then [] else (case s of [] \<Rightarrow> []
     | c # s1 \<Rightarrow> if c = CHR ''$'' then (case p_number s1 of
           None \<Rightarrow> c # expand (n - 1) t m s1
         | Some (k, s2) \<Rightarrow> group_text t m k @ expand (n - 1) t m s2)
         else c # expand (n - 1) t m s1))"
  by (cases n; cases s) (simp_all split: option.split)

text \<open>\<^verbatim>\<open>Regex::replace_all\<close> with what a match is replaced by as a function of the match.\<close>

fun replace_matches :: "string \<Rightarrow> (rmatch \<Rightarrow> string) \<Rightarrow> nat \<Rightarrow> rmatch list \<Rightarrow> string" where
  "replace_matches t f i [] = drop i t"
| "replace_matches t f i (m # ms) = between t i (m_start m) @ f m @ replace_matches t f (m_end m) ms"

definition replace_all :: "find_iter \<Rightarrow> string \<Rightarrow> string \<Rightarrow> string \<Rightarrow> string" where
  "replace_all rx p t repl = replace_matches t (\<lambda>m. expand (length repl + 1) t m repl) 0 (rx p t)"

section \<open>What the members of a language are made of\<close>

text \<open>
  Sufficient tests on a pattern: \<open>stays_in A\<close>, every byte of a match satisfies \<open>A\<close>; \<open>hits C\<close>, some
  byte satisfies \<open>C\<close>; \<open>min_len\<close>, a least length. They read classes of single characters and
  white space, and take bytes outside ASCII to satisfy the predicate.
\<close>

definition ASCII_WS :: string where
  "ASCII_WS = [CHR 0x20, CHR 0x09, CHR 0x0A, CHR 0x0B, CHR 0x0C, CHR 0x0D]"

fun item_stays :: "(char \<Rightarrow> bool) \<Rightarrow> cls \<Rightarrow> bool" where
  "item_stays A (One c) = (A c \<and> A (lower c) \<and> A (upper c))"
| "item_stays A Space = list_all A ASCII_WS"
| "item_stays A _ = False"

fun stays_in :: "(char \<Rightarrow> bool) \<Rightarrow> re \<Rightarrow> bool" where
  "stays_in A (Cls neg ci items) = (\<not> neg \<and> list_all (item_stays A) items)"
| "stays_in A (Dot nl) = False"
| "stays_in A (Seq a b) = (stays_in A a \<and> stays_in A b)"
| "stays_in A (Alt a b) = (stays_in A a \<and> stays_in A b)"
| "stays_in A (Rep g lo hi r) = stays_in A r"
| "stays_in A (Group k r) = stays_in A r"
| "stays_in A _ = True"

fun hits :: "(char \<Rightarrow> bool) \<Rightarrow> re \<Rightarrow> bool" where
  "hits C (Cls neg ci items) = stays_in C (Cls neg ci items)"
| "hits C (Seq a b) = (hits C a \<or> hits C b)"
| "hits C (Alt a b) = (hits C a \<and> hits C b)"
| "hits C (Rep g lo hi r) = (0 < lo \<and> hits C r)"
| "hits C (Group k r) = hits C r"
| "hits C _ = False"

fun min_len :: "re \<Rightarrow> nat" where
  "min_len (Cls neg ci items) = 1"
| "min_len (Dot nl) = 1"
| "min_len (Seq a b) = min_len a + min_len b"
| "min_len (Alt a b) = min (min_len a) (min_len b)"
| "min_len (Rep g lo hi r) = lo * min_len r"
| "min_len (Group k r) = min_len r"
| "min_len _ = 0"

lemma lower_upper_cases: "c = lower c \<or> c = upper (lower c)" "c = upper c \<or> c = lower (upper c)"
  by (auto simp: lower_def upper_def)

lemma ascii_ws_set:
  assumes "ascii_ws c"
  shows "c \<in> set ASCII_WS"
proof -
  have "byte c \<in> set (map byte ASCII_WS)" using assms by (auto simp: ascii_ws_def ASCII_WS_def)
  then obtain d where "d \<in> set ASCII_WS" "byte c = byte d" by auto
  then show ?thesis by (metis char_of_char)
qed

lemma first_char_utf8:
  assumes "first_char (c # s) = c # s"
  shows "length s < utf8_len c"
proof -
  have "length (first_char (c # s)) \<le> utf8_len c" by (simp add: first_char_def)
  then show ?thesis by (simp only: assms length_Cons Suc_le_eq)
qed

lemma wide_space:
  assumes "first_char ch = ch" "0 < ws_len ch" "length ch \<noteq> 1" "x \<in> set ch"
  shows "128 \<le> byte x"
proof -
  obtain a t where ch: "ch = a # t" using assms(2) by (cases ch) (auto simp: ws_len_def)
  have l: "length t < utf8_len a" using assms(1) ch first_char_utf8 by simp
  have "\<not> ascii_ws a" using l assms(3) ch by (auto simp: ascii_ws_def utf8_len_def)
  then consider b u where "t = b # u" "ws2 a b" | b c u where "t = b # c # u" "ws3 a b c"
    using assms(2) by (auto simp: ws_len_def ch split: list.splits if_splits)
  then show ?thesis
  proof cases
    case 1
    then show ?thesis using l assms(4) by (auto simp: ch ws2_def utf8_len_def)
  next
    case 2
    then show ?thesis using l assms(4) by (auto simp: ch ws3_def utf8_len_def)
  qed
qed

lemma item_stays_sound:
  assumes wide: "\<And>c. 128 \<le> byte c \<Longrightarrow> A c"
    and "item_stays A it" "item_matches uw ci ch it" "first_char ch = ch" "x \<in> set ch"
  shows "A x"
proof (cases "length ch = 1")
  case True
  then have ch: "ch = [x]" using assms(5) by (cases ch) auto
  then have "ascii_item x it \<or> ascii_item (lower x) it \<or> ascii_item (upper x) it" using assms(3) by (auto simp: item_matches_def)
  then show ?thesis using assms(2)
  proof (cases it)
    case Space
    moreover have "ascii_ws (upper x) = ascii_ws x" by (auto simp: upper_def ascii_ws_def)
    ultimately show ?thesis using assms(2) \<open>ascii_item x it \<or> _\<close> ascii_ws_set [of x] by (auto simp: list_all_iff)
  next
    case (One d)
    then show ?thesis using assms(2) \<open>ascii_item x it \<or> _\<close> lower_upper_cases [of x] by auto
  qed auto
next
  case False
  have "ch \<noteq> []" using assms(5) by auto
  with False assms(3) have "wide_item uw ch it \<or> ch = LONG_S \<or> ch = KELVIN"
    by (auto simp: item_matches_def split: list.splits)
  moreover have "wide_item uw ch it \<Longrightarrow> 128 \<le> byte x"
    using assms(2) wide_space [OF assms(4) _ False assms(5)] by (cases it) auto
  ultimately have "128 \<le> byte x" using assms(5) by (auto simp: LONG_S_def KELVIN_def)
  then show ?thesis by (rule wide)
qed

lemma stays_in_sound:
  assumes wide: "\<And>c. 128 \<le> byte c \<Longrightarrow> A c"
  shows "stays_in A r \<Longrightarrow> w \<in> lang uw r \<Longrightarrow> x \<in> set w \<Longrightarrow> A x"
proof (induction r arbitrary: w)
  case (Cls neg ci items)
  then show ?case
    using item_stays_sound [of A _ uw ci w x, OF wide] by (auto simp: class_matches_def list_ex_iff list_all_iff)
next
  case (Rep g lo hi r)
  then show ?case by fastforce
qed auto

lemma hits_sound:
  assumes wide: "\<And>c. 128 \<le> byte c \<Longrightarrow> C c"
  shows "hits C r \<Longrightarrow> w \<in> lang uw r \<Longrightarrow> \<exists>x \<in> set w. C x"
proof (induction r arbitrary: w)
  case (Cls neg ci items)
  then have "w \<noteq> []" by simp
  then have "hd w \<in> set w" by simp
  with stays_in_sound [of C "Cls neg ci items" w uw "hd w", OF wide] Cls show ?case by auto
next
  case (Rep g lo hi r)
  then obtain ws where ws: "w = concat ws" "lo \<le> length ws" "set ws \<subseteq> lang uw r" by auto
  with Rep.prems(1) obtain v vs where "ws = v # vs" by (cases ws) auto
  with ws Rep show ?case by fastforce
next
  case (Seq a b)
  then show ?case by (auto simp: bex_Un)
qed auto

lemma min_len_sound: "w \<in> lang uw r \<Longrightarrow> min_len r \<le> length w"
proof (induction r arbitrary: w)
  case (Rep g lo hi r)
  then obtain ws where ws: "w = concat ws" "lo \<le> length ws" "set ws \<subseteq> lang uw r" by auto
  have "length vs * min_len r \<le> length (concat vs)" if "set vs \<subseteq> lang uw r" for vs
    using that by (induction vs) (auto dest: Rep.IH intro: add_mono)
  then have "length ws * min_len r \<le> length w" using ws by simp
  moreover have "lo * min_len r \<le> length ws * min_len r" using ws(2) by (rule mult_le_mono1)
  ultimately show ?case unfolding min_len.simps by (rule order_trans [rotated])
qed (fastforce simp: Suc_le_eq)+
end
