(* ===== verification/Compress.thy ===== *)
theory Compress
  imports Regex F64
begin

text \<open>
  \<^verbatim>\<open>crates/rtrt-compress/src/lib.rs\<close> and \<^verbatim>\<open>secrets.rs\<close>: the rule-based rewriter for model
  output. Secret-shaped text is redacted, protected spans are stashed behind placeholders, the
  rules of the level, the filler words of the language and the universal passes rewrite the rest,
  and the spans are put back. Arguments are the regex engine, the language detector, and the
  Unicode tables behind \<^verbatim>\<open>is_alphanumeric\<close> (outside ASCII) and \<^verbatim>\<open>to_lowercase\<close>.
\<close>

datatype lang = Eng | Kor | Jpn | Cmn | Spa | Fra | Deu | Other_lang nat

datatype compression_level = Lite | Full | Ultra | Extreme

record text_env =
  te_regex :: find_iter
  te_detect :: "string \<Rightarrow> (lang \<times> rat) option"
  te_alphanumeric :: "string \<Rightarrow> bool"
  te_lowercase :: "string \<Rightarrow> string"

section \<open>Secrets\<close>

definition AWS_ACCESS_KEY :: string where
  "AWS_ACCESS_KEY = pat ''`b(AKIA|ASIA)[0-9A-Z]{16}`b''"
definition AWS_SECRET :: string where
  "AWS_SECRET = (pat ''(?i)`baws[_-]?secret[_-]?access[_-]?key`s*[:=]`s*['' @
     [CHR 0x27, CHR 0x22] @ pat '']?([A-Za-z0-9+/=]{40})['' @
     [CHR 0x27, CHR 0x22] @ pat '']?'')"
definition GITHUB_TOKEN :: string where
  "GITHUB_TOKEN = pat ''`bgh[opsur]_[A-Za-z0-9_]{30,}`b''"
definition GITHUB_PAT_CLASSIC :: string where
  "GITHUB_PAT_CLASSIC = pat ''`bghp_[A-Za-z0-9]{36}`b''"
definition OPENAI_KEY :: string where
  "OPENAI_KEY = pat ''`bsk-(proj-)?[A-Za-z0-9_`-]{20,}`b''"
definition ANTHROPIC_KEY :: string where
  "ANTHROPIC_KEY = pat ''`bsk-ant-[A-Za-z0-9_`-]{20,}`b''"
definition SLACK_TOKEN :: string where
  "SLACK_TOKEN = pat ''`bxox[abprs]-[A-Za-z0-9`-]{10,}`b''"
definition PRIVATE_KEY_BLOCK :: string where
  "PRIVATE_KEY_BLOCK = pat ''-----BEGIN [A-Z ]+PRIVATE KEY-----[`s`S]*?-----END [A-Z ]+PRIVATE KEY-----''"
definition BEARER_TOKEN :: string where
  "BEARER_TOKEN = pat ''`bBearer`s+([A-Za-z0-9_`-]{16,})`b''"
definition GENERIC_API_KEY :: string where
  "GENERIC_API_KEY = (pat ''(?i)`bapi[_-]?key`s*[:=]`s*['' @
     [CHR 0x27, CHR 0x22] @ pat '']?([A-Za-z0-9_`-]{20,})['' @
     [CHR 0x27, CHR 0x22] @ pat '']?'')"

definition PATTERNS :: "(string \<times> string) list" where
  "PATTERNS =
    [(''aws-access-key'', AWS_ACCESS_KEY),
     (''aws-secret'', AWS_SECRET),
     (''github-pat'', GITHUB_PAT_CLASSIC),
     (''github-token'', GITHUB_TOKEN),
     (''anthropic-key'', ANTHROPIC_KEY),
     (''openai-key'', OPENAI_KEY),
     (''slack-token'', SLACK_TOKEN),
     (''private-key'', PRIVATE_KEY_BLOCK),
     (''bearer-token'', BEARER_TOKEN),
     (''generic-api-key'', GENERIC_API_KEY)]"

definition redact_secrets :: "find_iter \<Rightarrow> string \<Rightarrow> string" where
  "redact_secrets rx input =
     foldl (\<lambda>out (kind, regex). replace_all rx regex out (''<REDACTED:'' @ kind @ ''>'')) input PATTERNS"

section \<open>Rules\<close>

definition FILLERS :: string where
  "FILLERS = pat ''(?i)`b(just|really|basically|actually|simply|literally|honestly|frankly|truly|essentially|kind o'' @
     pat ''f|sort of)`s+''"
definition PLEASANTRIES :: string where
  "PLEASANTRIES = pat ''(?im)(^|[.!?]`s+)(sure|certainly|of course|happy to|let me|i'll|i can|i would|i'd be happy to)`b'' @
     pat ''[,!`.]?`s*''"
definition HEDGES :: string where
  "HEDGES = pat ''(?i)`b(i (think|believe|suspect|guess|imagine|suppose)( that)?|in my opinion|to my mind|if you a'' @
     pat ''sk me|perhaps|maybe|probably|possibly|likely|it (seems|appears) (that|to be)|i('m| am) (pretty |'' @
     pat ''fairly |reasonably )?(sure|confident)( that)?|if i('m| am) not mistaken|if i recall correctly)[,'' @
     pat ''!`.]?`s*''"
definition DISCOURSE :: string where
  "DISCOURSE = pat ''(?i)`b(moreover|furthermore|additionally|besides|however|nevertheless|nonetheless|as (you|we) ca'' @
     pat ''n see|as a matter of fact|needless to say|it('s| is) worth (noting|mentioning) that|of course|na'' @
     pat ''turally|obviously|clearly)`b[,!`.]?`s*''"
definition ARTICLES :: string where
  "ARTICLES = pat ''(?i)`b(a|an|the)`s+''"
definition MULTI_SPACE :: string where
  "MULTI_SPACE = pat ''[ `t]{2,}''"
definition MULTI_NEWLINE :: string where
  "MULTI_NEWLINE = pat ''`n{3,}''"
definition QUALIFIERS :: string where
  "QUALIFIERS = pat ''(?i)`b(very|extremely|quite|rather|fairly|somewhat|extremely|highly)`s+''"
definition META_PHRASES :: string where
  "META_PHRASES = pat ''(?i)(it is important to (note|remember|understand|mention) that |it should be noted that |it is '' @
     pat ''worth (mentioning|noting|pointing out) that |as we (mentioned|noted|discussed) (earlier|above|pr'' @
     pat ''eviously),? )''"
definition PHRASE_DUE_TO :: string where
  "PHRASE_DUE_TO = pat ''(?i)`bdue to the fact that`b''"
definition PHRASE_IN_ORDER_TO :: string where
  "PHRASE_IN_ORDER_TO = pat ''(?i)`bin order to`b''"
definition PHRASE_AT_THIS_POINT :: string where
  "PHRASE_AT_THIS_POINT = pat ''(?i)`bat this point in time`b''"
definition PHRASE_FOR_THE_PURPOSE :: string where
  "PHRASE_FOR_THE_PURPOSE = pat ''(?i)`bfor the purpose of`b''"
definition PHRASE_IN_THE_EVENT :: string where
  "PHRASE_IN_THE_EVENT = pat ''(?i)`bin the event that`b''"
definition PHRASE_WITH_THE_EXCEPTION :: string where
  "PHRASE_WITH_THE_EXCEPTION = pat ''(?i)`bwith the exception of`b''"
definition PHRASE_A_NUMBER_OF :: string where
  "PHRASE_A_NUMBER_OF = pat ''(?i)`ba number of`b''"
definition PHRASE_THE_MAJORITY_OF :: string where
  "PHRASE_THE_MAJORITY_OF = pat ''(?i)`bthe majority of`b''"
definition PHRASE_IN_SPITE_OF :: string where
  "PHRASE_IN_SPITE_OF = pat ''(?i)`bin spite of( the fact that)?`b''"
definition PHRASE_ON_THE_BASIS :: string where
  "PHRASE_ON_THE_BASIS = pat ''(?i)`bon the basis of`b''"
definition PHRASE_FOR_INSTANCE :: string where
  "PHRASE_FOR_INSTANCE = pat ''(?i)`bfor (instance|example)`b''"
definition CAUSAL_CONNECTORS :: string where
  "CAUSAL_CONNECTORS = pat ''(?i)`s*,?`s+`b(because(?:`s+of)?|therefore|thus|leads`s+to)`b`s+''"
definition CAUSAL_SO :: string where
  "CAUSAL_SO = pat ''(?i)(^|[.;,])`s*`bso`b`s+''"
definition COORDINATING_CONJUNCTIONS :: string where
  "COORDINATING_CONJUNCTIONS = pat ''(?i)`s+`b(and|but|yet)`b`s+''"

definition word_pattern :: "string \<Rightarrow> string" where
  "word_pattern w = pat ''(?i)`b'' @ w @ pat ''`b''"

definition ABBR_AUTHENTICATION :: string where "ABBR_AUTHENTICATION = word_pattern ''authentication''"
definition ABBR_AUTHORIZATION :: string where "ABBR_AUTHORIZATION = word_pattern ''authorization''"
definition ABBR_CONFIGURATION :: string where "ABBR_CONFIGURATION = word_pattern ''configuration''"
definition ABBR_IMPLEMENTATION :: string where "ABBR_IMPLEMENTATION = word_pattern ''implementation''"
definition ABBR_REPOSITORY :: string where "ABBR_REPOSITORY = word_pattern ''repository''"
definition ABBR_DIRECTORY :: string where "ABBR_DIRECTORY = word_pattern ''directory''"
definition ABBR_FUNCTION :: string where "ABBR_FUNCTION = word_pattern ''function''"
definition ABBR_REQUEST :: string where "ABBR_REQUEST = word_pattern ''request''"
definition ABBR_RESPONSE :: string where "ABBR_RESPONSE = word_pattern ''response''"
definition ABBR_DATABASE :: string where "ABBR_DATABASE = word_pattern ''database''"
definition ABBR_OBJECT :: string where "ABBR_OBJECT = word_pattern ''object''"
definition ABBR_REFERENCE :: string where "ABBR_REFERENCE = word_pattern ''reference''"
definition ABBR_CONNECTION :: string where "ABBR_CONNECTION = word_pattern ''connection''"
definition ABBR_COMMAND :: string where "ABBR_COMMAND = word_pattern ''command''"
definition ABBR_APPLICATION :: string where "ABBR_APPLICATION = word_pattern ''application''"
definition ABBR_DEPENDENCY :: string where "ABBR_DEPENDENCY = word_pattern ''dependency''"
definition ABBR_DEPENDENCIES :: string where "ABBR_DEPENDENCIES = word_pattern ''dependencies''"
definition ABBR_PARAMETER :: string where "ABBR_PARAMETER = word_pattern ''parameter''"
definition ABBR_PARAMETERS :: string where "ABBR_PARAMETERS = word_pattern ''parameters''"
definition ABBR_ARGUMENT :: string where "ABBR_ARGUMENT = word_pattern ''argument''"
definition ABBR_ARGUMENTS :: string where "ABBR_ARGUMENTS = word_pattern ''arguments''"
definition ABBR_ENVIRONMENT :: string where "ABBR_ENVIRONMENT = word_pattern ''environment''"
definition ABBR_VARIABLE :: string where "ABBR_VARIABLE = word_pattern ''variable''"
definition ABBR_VARIABLES :: string where "ABBR_VARIABLES = word_pattern ''variables''"
definition ABBR_MESSAGE :: string where "ABBR_MESSAGE = word_pattern ''message''"
definition ABBR_ERROR :: string where "ABBR_ERROR = word_pattern ''error''"
definition ABBR_DOCUMENTATION :: string where "ABBR_DOCUMENTATION = word_pattern ''documentation''"
definition ABBR_DOCUMENT :: string where "ABBR_DOCUMENT = word_pattern ''document''"
definition ABBR_PACKAGE :: string where "ABBR_PACKAGE = word_pattern ''package''"
definition ABBR_SOURCE :: string where "ABBR_SOURCE = word_pattern ''source''"
definition ABBR_DESTINATION :: string where "ABBR_DESTINATION = word_pattern ''destination''"
definition ABBR_TEMPORARY :: string where "ABBR_TEMPORARY = word_pattern ''temporary''"

definition LITE_RULES :: "(string \<times> string) list" where
  "LITE_RULES =
    [(FILLERS, []),
     (MULTI_SPACE, '' ''),
     (MULTI_NEWLINE, [NL, NL])]"

definition FULL_RULES :: "(string \<times> string) list" where
  "FULL_RULES =
    [(FILLERS, []),
     (PLEASANTRIES, ''$1''),
     (HEDGES, []),
     (DISCOURSE, []),
     (META_PHRASES, []),
     (ARTICLES, []),
     (MULTI_SPACE, '' ''),
     (MULTI_NEWLINE, [NL, NL])]"

definition ULTRA_RULES :: "(string \<times> string) list" where
  "ULTRA_RULES =
    [(FILLERS, []),
     (PLEASANTRIES, ''$1''),
     (HEDGES, []),
     (DISCOURSE, []),
     (META_PHRASES, []),
     (ARTICLES, []),
     (CAUSAL_CONNECTORS, '' -> ''),
     (CAUSAL_SO, ''$1 -> ''),
     (COORDINATING_CONJUNCTIONS, '' ''),
     (PHRASE_DUE_TO, ''because''),
     (PHRASE_IN_ORDER_TO, ''to''),
     (PHRASE_AT_THIS_POINT, ''now''),
     (PHRASE_FOR_THE_PURPOSE, ''for''),
     (PHRASE_IN_THE_EVENT, ''if''),
     (PHRASE_WITH_THE_EXCEPTION, ''except''),
     (PHRASE_A_NUMBER_OF, ''several''),
     (PHRASE_THE_MAJORITY_OF, ''most''),
     (PHRASE_IN_SPITE_OF, ''despite''),
     (PHRASE_ON_THE_BASIS, ''based on''),
     (PHRASE_FOR_INSTANCE, ''e.g.''),
     (ABBR_AUTHENTICATION, ''auth''),
     (ABBR_AUTHORIZATION, ''authz''),
     (ABBR_CONFIGURATION, ''config''),
     (ABBR_IMPLEMENTATION, ''impl''),
     (ABBR_REPOSITORY, ''repo''),
     (ABBR_DIRECTORY, ''dir''),
     (ABBR_FUNCTION, ''fn''),
     (ABBR_REQUEST, ''req''),
     (ABBR_RESPONSE, ''res''),
     (ABBR_DATABASE, ''DB''),
     (ABBR_OBJECT, ''obj''),
     (ABBR_REFERENCE, ''ref''),
     (ABBR_CONNECTION, ''conn''),
     (ABBR_COMMAND, ''cmd''),
     (ABBR_APPLICATION, ''app''),
     (ABBR_DEPENDENCIES, ''deps''),
     (ABBR_DEPENDENCY, ''dep''),
     (ABBR_PARAMETERS, ''params''),
     (ABBR_PARAMETER, ''param''),
     (ABBR_ARGUMENTS, ''args''),
     (ABBR_ARGUMENT, ''arg''),
     (ABBR_ENVIRONMENT, ''env''),
     (ABBR_VARIABLES, ''vars''),
     (ABBR_VARIABLE, ''var''),
     (ABBR_MESSAGE, ''msg''),
     (ABBR_ERROR, ''err''),
     (ABBR_DOCUMENTATION, ''docs''),
     (ABBR_DOCUMENT, ''doc''),
     (ABBR_PACKAGE, ''pkg''),
     (ABBR_SOURCE, ''src''),
     (ABBR_DESTINATION, ''dst''),
     (ABBR_TEMPORARY, ''temp''),
     (MULTI_SPACE, '' ''),
     (MULTI_NEWLINE, [NL, NL])]"

definition EXTREME_RULES :: "(string \<times> string) list" where
  "EXTREME_RULES =
    [(FILLERS, []),
     (PLEASANTRIES, ''$1''),
     (HEDGES, []),
     (DISCOURSE, []),
     (META_PHRASES, []),
     (QUALIFIERS, []),
     (ARTICLES, []),
     (CAUSAL_CONNECTORS, '' -> ''),
     (CAUSAL_SO, ''$1 -> ''),
     (COORDINATING_CONJUNCTIONS, '' ''),
     (PHRASE_DUE_TO, ''because''),
     (PHRASE_IN_ORDER_TO, ''to''),
     (PHRASE_AT_THIS_POINT, ''now''),
     (PHRASE_FOR_THE_PURPOSE, ''for''),
     (PHRASE_IN_THE_EVENT, ''if''),
     (PHRASE_WITH_THE_EXCEPTION, ''except''),
     (PHRASE_A_NUMBER_OF, ''several''),
     (PHRASE_THE_MAJORITY_OF, ''most''),
     (PHRASE_IN_SPITE_OF, ''despite''),
     (PHRASE_ON_THE_BASIS, ''based on''),
     (PHRASE_FOR_INSTANCE, ''e.g.''),
     (ABBR_AUTHENTICATION, ''auth''),
     (ABBR_AUTHORIZATION, ''authz''),
     (ABBR_CONFIGURATION, ''config''),
     (ABBR_IMPLEMENTATION, ''impl''),
     (ABBR_REPOSITORY, ''repo''),
     (ABBR_DIRECTORY, ''dir''),
     (ABBR_FUNCTION, ''fn''),
     (ABBR_REQUEST, ''req''),
     (ABBR_RESPONSE, ''res''),
     (ABBR_DATABASE, ''DB''),
     (ABBR_OBJECT, ''obj''),
     (ABBR_REFERENCE, ''ref''),
     (ABBR_CONNECTION, ''conn''),
     (ABBR_COMMAND, ''cmd''),
     (ABBR_APPLICATION, ''app''),
     (ABBR_DEPENDENCIES, ''deps''),
     (ABBR_DEPENDENCY, ''dep''),
     (ABBR_PARAMETERS, ''params''),
     (ABBR_PARAMETER, ''param''),
     (ABBR_ARGUMENTS, ''args''),
     (ABBR_ARGUMENT, ''arg''),
     (ABBR_ENVIRONMENT, ''env''),
     (ABBR_VARIABLES, ''vars''),
     (ABBR_VARIABLE, ''var''),
     (ABBR_MESSAGE, ''msg''),
     (ABBR_ERROR, ''err''),
     (ABBR_DOCUMENTATION, ''docs''),
     (ABBR_DOCUMENT, ''doc''),
     (ABBR_PACKAGE, ''pkg''),
     (ABBR_SOURCE, ''src''),
     (ABBR_DESTINATION, ''dst''),
     (ABBR_TEMPORARY, ''temp''),
     (MULTI_SPACE, '' ''),
     (MULTI_NEWLINE, [NL, NL])]"

fun english_rules_for :: "compression_level \<Rightarrow> (string \<times> string) list" where
  "english_rules_for Lite = LITE_RULES"
| "english_rules_for Full = FULL_RULES"
| "english_rules_for Ultra = ULTRA_RULES"
| "english_rules_for Extreme = EXTREME_RULES"

definition apply_rules :: "find_iter \<Rightarrow> (string \<times> string) list \<Rightarrow> string \<Rightarrow> string" where
  "apply_rules rx rules input = foldl (\<lambda>out (regex, replacement). replace_all rx regex out replacement) input rules"

section \<open>Language\<close>

text \<open>The share is compared as a double with \<^verbatim>\<open>0.9\<close>.\<close>

definition should_apply_english_rules :: "lang option \<Rightarrow> string \<Rightarrow> bool" where
  "should_apply_english_rules detected text' =
     (if detected = Some Eng then True
      else let total_chars = chars_count text' in
        if total_chars = 0 then False
        else let ascii = length (filter (\<lambda>c. byte c < 128) text') in
          fl (9 / 10) \<le> f64_ratio ascii total_chars)"

definition is_whitespace :: "string \<Rightarrow> bool" where
  "is_whitespace ch \<longleftrightarrow> 0 < ws_len ch"

definition minimum_detection_confidence :: "string \<Rightarrow> f64_val" where
  "minimum_detection_confidence text' =
     (let signal_chars = length (filter (\<lambda>ch. \<not> is_whitespace ch) (chars text')) in
      if signal_chars = 0 then Infinite False else Fin (f64_ratio 1 signal_chars))"

definition detect_language :: "text_env \<Rightarrow> string \<Rightarrow> lang option" where
  "detect_language te text' = (case te_detect te text' of
     None \<Rightarrow> None
   | Some (l, confidence) \<Rightarrow> (case minimum_detection_confidence text' of
       Fin least \<Rightarrow> if least \<le> confidence then Some l else None
     | _ \<Rightarrow> None))"

fun applies_language_pack :: "compression_level \<Rightarrow> bool" where
  "applies_language_pack Lite = False"
| "applies_language_pack _ = True"

record language_pack =
  lp_fillers :: "string list"
  lp_discourse_markers :: "string list"

definition LANGUAGE_PACKS :: "(lang \<times> language_pack) list" where
  "LANGUAGE_PACKS =
    [(Kor, \<lparr>lp_fillers = [[CHR 0xEC, CHR 0x9D, CHR 0x8C],
          [CHR 0xEA, CHR 0xB7, CHR 0xB8],
          [CHR 0xEB, CHR 0xAD, CHR 0x90, CHR 0xEB, CHR 0x9E, CHR 0x84, CHR 0xEA, CHR 0xB9, CHR 0x8C],
          [CHR 0xEC, CHR 0x82, CHR 0xAC, CHR 0xEC, CHR 0x8B, CHR 0xA4, CHR 0xEC, CHR 0x83, CHR 0x81],
          [CHR 0xEA, CHR 0xB8, CHR 0xB0, CHR 0xEB, CHR 0xB3, CHR 0xB8, CHR 0xEC, CHR 0xA0, CHR 0x81, CHR 0xEC, CHR 0x9C, CHR 0xBC, CHR 0xEB, CHR 0xA1, CHR 0x9C],
          [CHR 0xEC, CHR 0xA0, CHR 0x9C, CHR 0x20, CHR 0xEC, CHR 0x83, CHR 0x9D, CHR 0xEA, CHR 0xB0, CHR 0x81, CHR 0xEC, CHR 0x97, CHR 0x90, CHR 0xEB, CHR 0x8A, CHR 0x94],
          [CHR 0xEC, CHR 0x96, CHR 0xB4],
          [CHR 0xEC, CHR 0x97, CHR 0x90]],
        lp_discourse_markers = []\<rparr>),
     (Jpn, \<lparr>lp_fillers = [[CHR 0xE3, CHR 0x81, CHR 0x88, CHR 0xE3, CHR 0x83, CHR 0xBC, CHR 0xE3, CHR 0x81, CHR 0xA8],
          [CHR 0xE3, CHR 0x81, CHR 0xBE, CHR 0xE3, CHR 0x81, CHR 0x82],
          [CHR 0xE3, CHR 0x81, CHR 0xAA, CHR 0xE3, CHR 0x82, CHR 0x93, CHR 0xE3, CHR 0x81, CHR 0x8B],
          [CHR 0xE3, CHR 0x81, CHR 0xA1, CHR 0xE3, CHR 0x82, CHR 0x87, CHR 0xE3, CHR 0x81, CHR 0xA3, CHR 0xE3, CHR 0x81, CHR 0xA8],
          [CHR 0xE4, CHR 0xB8, CHR 0x80, CHR 0xE5, CHR 0xBF, CHR 0x9C],
          [CHR 0xE5, CHR 0x9F, CHR 0xBA, CHR 0xE6, CHR 0x9C, CHR 0xAC, CHR 0xE7, CHR 0x9A, CHR 0x84, CHR 0xE3, CHR 0x81, CHR 0xAB],
          [CHR 0xE5, CHR 0xAE, CHR 0x9F, CHR 0xE3, CHR 0x81, CHR 0xAF]],
        lp_discourse_markers = []\<rparr>),
     (Cmn, \<lparr>lp_fillers = [[CHR 0xE5, CHR 0x85, CHR 0xB6, CHR 0xE5, CHR 0xAE, CHR 0x9E],
          [CHR 0xE5, CHR 0x9F, CHR 0xBA, CHR 0xE6, CHR 0x9C, CHR 0xAC, CHR 0xE4, CHR 0xB8, CHR 0x8A],
          [CHR 0xE8, CHR 0xAF, CHR 0xB4, CHR 0xE5, CHR 0xAE, CHR 0x9E, CHR 0xE8, CHR 0xAF, CHR 0x9D],
          [CHR 0xE5, CHR 0x97, CHR 0xAF],
          [CHR 0xE9, CHR 0x82, CHR 0xA3, CHR 0xE4, CHR 0xB8, CHR 0xAA],
          [CHR 0xE5, CHR 0xB0, CHR 0xB1, CHR 0xE6, CHR 0x98, CHR 0xAF, CHR 0xE8, CHR 0xAF, CHR 0xB4]],
        lp_discourse_markers = []\<rparr>),
     (Spa, \<lparr>lp_fillers = [''bueno'',
          ''o sea'',
          ''en realidad'',
          ''pues'',
          ''mira'',
          ''claro que''],
        lp_discourse_markers = []\<rparr>),
     (Fra, \<lparr>lp_fillers = [''enfin'',
          ''bref'',
          ''tu vois'',
          ''genre'',
          ''quoi'',
          ''franchement''],
        lp_discourse_markers = []\<rparr>),
     (Deu, \<lparr>lp_fillers = [''also'',
          ''eigentlich'',
          ''sozusagen'',
          ''irgendwie'',
          ''naja'',
          ''halt''],
        lp_discourse_markers = []\<rparr>)]"

definition language_pack_for :: "lang \<Rightarrow> language_pack option" where
  "language_pack_for l = map_of LANGUAGE_PACKS l"

definition is_word_char :: "text_env \<Rightarrow> string \<Rightarrow> bool" where
  "is_word_char te ch \<longleftrightarrow> ch = ''_'' \<or> (case ch of
     [c] \<Rightarrow> is_ascii_alpha c \<or> is_ascii_digit c
   | _ \<Rightarrow> ch \<noteq> [] \<and> list_all (\<lambda>c. 128 \<le> byte c) ch \<and> te_alphanumeric te ch)"

text \<open>The text is \<open>seen @ rest\<close> and the index between them; a match is its length in bytes.\<close>

definition char_boundary :: "string \<Rightarrow> nat \<Rightarrow> bool" where
  "char_boundary s n \<longleftrightarrow> n = length s \<or> n < length s \<and> \<not> is_continuation (s ! n)"

definition matched_term_end :: "string \<Rightarrow> string \<Rightarrow> nat option" where
  "matched_term_end rest term' =
     (if is_ascii term'
      then (if char_boundary rest (length term') \<and> eq_ignore_ascii_case (take (length term') rest) term'
            then Some (length term') else None)
      else if starts_with rest term' then Some (length term') else None)"

definition has_term_boundaries :: "text_env \<Rightarrow> string \<Rightarrow> string \<Rightarrow> nat \<Rightarrow> bool" where
  "has_term_boundaries te seen rest n \<longleftrightarrow>
     \<not> is_word_char te (last_char (seen)) \<and> \<not> is_word_char te (first_char (drop n rest))"

text \<open>\<^verbatim>\<open>max_by_key\<close> returns the last of several longest terms.\<close>

definition matching_pack_term :: "text_env \<Rightarrow> string \<Rightarrow> string \<Rightarrow> language_pack \<Rightarrow> nat option" where
  "matching_pack_term te seen rest pack =
     foldl (\<lambda>best n. case best of
         None \<Rightarrow> Some n
       | Some b \<Rightarrow> if chars_count (take b rest) \<le> chars_count (take n rest) then Some n else Some b) None
       (filter (has_term_boundaries te seen rest)
         (List.map_filter (matched_term_end rest) (lp_fillers pack @ lp_discourse_markers pack)))"

definition GAP_PUNCTUATION :: "string list" where
  "GAP_PUNCTUATION = ['','', ''.'', ''!'', ''?'', [CHR 0xE3, CHR 0x80, CHR 0x81], [CHR 0xE3, CHR 0x80, CHR 0x82]]"

definition skip_trailing_filler_gap :: "string \<Rightarrow> string" where
  "skip_trailing_filler_gap rest =
     trim_start (if first_char rest \<in> set GAP_PUNCTUATION then drop (length (first_char rest)) rest else rest)"

text \<open>Every round consumes at least a byte, as no term of a pack is empty; \<open>n\<close> counts rounds.\<close>

fun pack_loop :: "text_env \<Rightarrow> language_pack \<Rightarrow> nat \<Rightarrow> string \<Rightarrow> string \<Rightarrow> string" where
  "pack_loop te pack 0 seen rest = []"
| "pack_loop te pack (Suc n) seen rest =
     (if rest = [] then []
      else (case matching_pack_term te seen rest pack of
        Some e \<Rightarrow> (let rest' = skip_trailing_filler_gap (drop e rest) in
          pack_loop te pack n (seen @ take (length rest - length rest') rest) rest')
      | None \<Rightarrow> (let ch = first_char rest in
          ch @ pack_loop te pack n (seen @ ch) (drop (length ch) rest))))"

lemma pack_loop_code [code]:
  "pack_loop te pack n seen rest = (if n = 0 \<or> rest = [] then []
     else (case matching_pack_term te seen rest pack of
        Some e \<Rightarrow> (let rest' = skip_trailing_filler_gap (drop e rest) in
          pack_loop te pack (n - 1) (seen @ take (length rest - length rest') rest) rest')
      | None \<Rightarrow> (let ch = first_char rest in
          ch @ pack_loop te pack (n - 1) (seen @ ch) (drop (length ch) rest))))"
  by (cases n) (simp_all add: Let_def split: option.split)

definition apply_language_pack :: "text_env \<Rightarrow> string \<Rightarrow> language_pack \<Rightarrow> string" where
  "apply_language_pack te input pack = pack_loop te pack (length input) [] input"

section \<open>Universal passes\<close>

datatype token_kind = Word_token | Whitespace_token | Other_token

definition kind_of :: "text_env \<Rightarrow> string \<Rightarrow> token_kind" where
  "kind_of te ch = (if is_word_char te ch then Word_token else if is_whitespace ch then Whitespace_token else Other_token)"

text \<open>The maximal runs of characters of one kind that \<^verbatim>\<open>next_token\<close> walks over.\<close>

fun group_chars :: "text_env \<Rightarrow> string list \<Rightarrow> (token_kind \<times> string) list" where
  "group_chars te [] = []"
| "group_chars te (ch # cs) = (case group_chars te cs of
     [] \<Rightarrow> [(kind_of te ch, ch)]
   | (k, t) # ts \<Rightarrow> if k = kind_of te ch then (k, ch @ t) # ts else (kind_of te ch, ch) # (k, t) # ts)"

definition pushed :: "string option \<Rightarrow> string" where
  "pushed pending = (case pending of None \<Rightarrow> [] | Some whitespace \<Rightarrow> whitespace)"

fun dedup_loop :: "text_env \<Rightarrow> string option \<Rightarrow> string option \<Rightarrow> (token_kind \<times> string) list \<Rightarrow> string" where
  "dedup_loop te pending previous [] = pushed pending"
| "dedup_loop te pending previous ((kind, token) # ts) = (case kind of
     Word_token \<Rightarrow>
       (let token_key = te_lowercase te token; numeric = list_all is_ascii_digit token in
        if \<not> numeric \<and> pending \<noteq> None \<and> previous = Some token_key then dedup_loop te None previous ts
        else pushed pending @ token @ dedup_loop te None (Some token_key) ts)
   | Whitespace_token \<Rightarrow> pushed pending @ dedup_loop te (Some token) previous ts
   | Other_token \<Rightarrow> pushed pending @ token @ dedup_loop te None None ts)"

definition dedup_immediate_words :: "text_env \<Rightarrow> string \<Rightarrow> string" where
  "dedup_immediate_words te input = dedup_loop te None None (group_chars te (chars input))"

definition EXTRA_PERIODS :: string where
  "EXTRA_PERIODS = pat ''`.{4,}''"
definition EXTRA_EXCLAMATION :: string where
  "EXTRA_EXCLAMATION = pat ''!{2,}''"
definition EXTRA_QUESTION :: string where
  "EXTRA_QUESTION = pat ''`?{2,}''"

definition trim_redundant_punctuation :: "find_iter \<Rightarrow> string \<Rightarrow> string" where
  "trim_redundant_punctuation rx input =
     (let out1 = replace_all rx EXTRA_PERIODS input ''...''; out2 = replace_all rx EXTRA_EXCLAMATION out1 ''!'' in
      replace_all rx EXTRA_QUESTION out2 ''?'')"

definition apply_universal_passes :: "text_env \<Rightarrow> string \<Rightarrow> string" where
  "apply_universal_passes te input =
     (let out1 = replace_all (te_regex te) MULTI_SPACE input '' ''; out2 = replace_all (te_regex te) MULTI_NEWLINE out1 [NL, NL] in
      trim_redundant_punctuation (te_regex te) (dedup_immediate_words te out2))"

section \<open>Protected spans\<close>

definition PROTECT :: string where
  "PROTECT = pat ''(?sx)'' @ [NL] @
     pat ''        '' @ [CHR 0x60] @ [CHR 0x60] @ [CHR 0x60] @
     pat ''.*?'' @ [CHR 0x60] @ [CHR 0x60] @ [CHR 0x60] @
     pat ''               # fenced code blocks'' @ [NL] @
     pat ''        | '' @ [CHR 0x60] @
     pat ''[^'' @ [CHR 0x60] @
     pat '']*'' @ [CHR 0x60] @
     pat ''               # inline code'' @ [NL] @
     pat ''        | https?://`S+          # URLs'' @ [NL] @
     pat ''        | '' @ [CHR 0x22] @
     pat ''[^'' @ [CHR 0x22] @
     pat '']*'' @ [CHR 0x22] @
     pat ''               # quoted strings'' @ [NL] @
     pat ''        | `S+/`S+               # bare path-shaped tokens'' @ [NL] @
     pat ''        | `w[`w.-]*`.`w{1,4}    # filename/version-shaped tokens'' @ [NL] @
     pat ''        ''"

definition placeholder :: "nat \<Rightarrow> string" where
  "placeholder i = [CHR 0x01] @ ''RTRT_PROTECT_'' @ nat_str i @ [CHR 0x02]"

text \<open>The closure of \<^verbatim>\<open>replace_all\<close> numbers the matches in their order.\<close>

fun stash_matches :: "string \<Rightarrow> nat \<Rightarrow> nat \<Rightarrow> rmatch list \<Rightarrow> string" where
  "stash_matches t i k [] = drop i t"
| "stash_matches t i k (m # ms) = between t i (m_start m) @ placeholder k @ stash_matches t (m_end m) (Suc k) ms"

definition stash_protected :: "find_iter \<Rightarrow> string \<Rightarrow> string \<times> string list" where
  "stash_protected rx input = (let ms = rx PROTECT input in
     (stash_matches input 0 0 ms, map (\<lambda>m. between input (m_start m) (m_end m)) ms))"

fun restore_from :: "nat \<Rightarrow> string list \<Rightarrow> string \<Rightarrow> string" where
  "restore_from i [] out = out"
| "restore_from i (original # slots) out = restore_from (Suc i) slots (replace_str (placeholder i) original out)"

definition restore_protected :: "string \<Rightarrow> string list \<Rightarrow> string" where
  "restore_protected input slots = restore_from 0 slots input"

definition compress :: "text_env \<Rightarrow> compression_level \<Rightarrow> string \<Rightarrow> string" where
  "compress te level input =
     (let redacted = redact_secrets (te_regex te) input;
          detected_lang = detect_language te redacted;
          (placeheld, slots) = stash_protected (te_regex te) redacted;
          out1 = (if should_apply_english_rules detected_lang redacted
            then apply_rules (te_regex te) (english_rules_for level) placeheld else placeheld);
          out2 = (case (if applies_language_pack level then Option.bind detected_lang language_pack_for else None) of
              Some pack \<Rightarrow> apply_language_pack te out1 pack
            | None \<Rightarrow> out1);
          out3 = apply_universal_passes te out2
      in restore_protected out3 slots)"

section \<open>Output formats\<close>

datatype output_format = Plain | Markdown | Xml | Json

definition output_format_parse :: "string \<Rightarrow> output_format option" where
  "output_format_parse name = (let n = to_ascii_lowercase name in
     if n = ''plain'' \<or> n = ''text'' \<or> n = ''txt'' then Some Plain
     else if n = ''md'' \<or> n = ''markdown'' then Some Markdown
     else if n = ''xml'' then Some Xml
     else if n = ''json'' then Some Json
     else None)"

fun level_slug :: "compression_level \<Rightarrow> string" where
  "level_slug Lite = ''lite''"
| "level_slug Full = ''full''"
| "level_slug Ultra = ''ultra''"
| "level_slug Extreme = ''extreme''"

definition xml_escape :: "string \<Rightarrow> string" where
  "xml_escape input = replace_str '']]>'' '']]]]><![CDATA[>'' input"

fun trim_newlines_end :: "string \<Rightarrow> string" where
  "trim_newlines_end s = rev (dropWhile (\<lambda>c. c = NL) (rev s))"

text \<open>\<open>to_json\<close> prints an object of the given members.\<close>

definition compress_to :: "((string \<times> string) list \<Rightarrow> string) \<Rightarrow> text_env \<Rightarrow> compression_level \<Rightarrow> string \<Rightarrow> output_format \<Rightarrow> string" where
  "compress_to to_json te level input format = (let body = compress te level input in (case format of
     Plain \<Rightarrow> body
   | Markdown \<Rightarrow> replicate 3 (CHR 0x60) @ ''text rtrt-level='' @ level_slug level @ [NL] @ trim_newlines_end body @ [NL] @
       replicate 3 (CHR 0x60) @ [NL]
   | Xml \<Rightarrow> ''<rtrt level='' @ [CHR 0x22] @ level_slug level @ [CHR 0x22] @ ''><![CDATA['' @ xml_escape body @ '']]></rtrt>''
   | Json \<Rightarrow> to_json [(''level'', level_slug level), (''content'', body)]))"

end
