(* ===== verification/Compress_Safe.thy ===== *)
theory Compress_Safe
  imports Compress "HOL-Library.Sublist"
begin

text \<open>
  What the rewriter of \<^verbatim>\<open>Compress\<close> never touches. Every pass only replaces stretches of text that
  no placeholder contains (relation \<open>rewritten\<close>), so the placeholders survive all of them and each
  protected span is put back where it stood, in order.
\<close>

section \<open>Text that is no part of a placeholder\<close>

abbreviation SOH :: char where "SOH \<equiv> CHR 0x01"
abbreviation STX :: char where "STX \<equiv> CHR 0x02"

definition plain :: "char \<Rightarrow> bool" where
  "plain c \<longleftrightarrow> c \<noteq> SOH \<and> c \<noteq> STX"

definition DIGITS :: string where "DIGITS = ''0123456789''"
definition MARK_CHARS :: string where "MARK_CHARS = ''RTPOEC_'' @ DIGITS"

definition foreign :: "char \<Rightarrow> bool" where
  "foreign c \<longleftrightarrow> plain c \<and> c \<notin> set MARK_CHARS"

definition interior :: "nat \<Rightarrow> string" where
  "interior i = ''RTRT_PROTECT_'' @ nat_str i"

definition untouchable :: "string \<Rightarrow> bool" where
  "untouchable w \<longleftrightarrow> w \<noteq> [] \<and> list_all plain w \<and> (\<forall>i. \<not> sublist w (interior i))"

lemma placeholder_parts: "placeholder i = SOH # interior i @ [STX]"
  by (simp add: placeholder_def interior_def)

lemma digit_cases:
  assumes "is_ascii_digit c"
  shows "c \<in> set DIGITS"
proof -
  have "byte c \<in> set (map byte DIGITS)" using assms by (simp add: is_ascii_digit_def DIGITS_def) presburger
  then obtain d where "d \<in> set DIGITS" "byte c = byte d" by auto
  then show ?thesis by (metis char_of_char)
qed

lemma set_nat_str: "set (nat_str i) \<subseteq> set DIGITS"
  using digit_cases nat_str_digits [of i] by (auto simp only: list_all_iff)

lemma set_interior: "set (interior i) \<subseteq> set MARK_CHARS"
proof -
  have "set ''RTRT_PROTECT_'' \<subseteq> set MARK_CHARS" by (simp add: MARK_CHARS_def)
  then show ?thesis using set_nat_str [of i] unfolding interior_def MARK_CHARS_def set_append by blast
qed

lemma plain_marks: "list_all plain MARK_CHARS"
  by code_simp

lemma interior_plain: "SOH \<notin> set (interior i)" "STX \<notin> set (interior i)"
  using set_interior [of i] plain_marks by (auto simp: plain_def list_all_iff)

lemma untouchable_foreign:
  assumes "list_all plain w" "list_ex foreign w"
  shows "untouchable w"
proof -
  obtain c where c: "c \<in> set w" "foreign c" using assms(2) by (auto simp: list_ex_iff)
  have "\<not> sublist w (interior i)" for i
    using set_mono_sublist [of w "interior i"] c set_interior [of i] by (auto simp: foreign_def)
  then show ?thesis using assms c by (auto simp: untouchable_def)
qed

text \<open>The words whose letters may all occur in a placeholder are too long to fit between its \<open>T\<close>s.\<close>

definition apart :: "char \<Rightarrow> bool" where
  "apart c \<longleftrightarrow> plain c \<and> c \<notin> set (''T_'' @ DIGITS)"

lemma interior_windows: "\<forall>k \<in> {0..<13}. \<exists>j \<in> {0..<4}. k + j < 13 \<and> \<not> apart (''RTRT_PROTECT_'' ! (k + j))"
  unfolding atLeastLessThan_upt by code_simp

lemma untouchable_apart:
  assumes "list_all apart w" "4 \<le> length w"
  shows "untouchable w"
proof -
  have "\<not> sublist w (interior i)" for i
  proof
    assume "sublist w (interior i)"
    then obtain u v where uv: "interior i = u @ w @ v" by (auto simp: sublist_def)
    have nth: "w ! j = interior i ! (length u + j)" if "j < length w" for j using that uv by (simp add: nth_append)
    show False
    proof (cases "length u < 13")
      case True
      then obtain j where j: "j < 4" "length u + j < 13" "\<not> apart (''RTRT_PROTECT_'' ! (length u + j))"
        using interior_windows [THEN bspec, of "length u"] by auto
      then have "interior i ! (length u + j) = ''RTRT_PROTECT_'' ! (length u + j)"
        by (subst interior_def, subst nth_append) simp
      then show False using j nth [of j] assms nth_mem [of j w] by (auto simp: list_all_iff)
    next
      case False
      have l: "length u < length (interior i)" using uv assms(2) by (cases w) simp_all
      then have "(''RTRT_PROTECT_'' @ nat_str i) ! length u = nat_str i ! (length u - length ''RTRT_PROTECT_'')"
        "length u - 13 < length (nat_str i)"
        using False by (simp only: nth_append, simp, simp add: interior_def)
      then have "interior i ! length u = nat_str i ! (length u - 13)" "length u - 13 < length (nat_str i)"
        by (simp_all add: interior_def eval_nat_numeral del: append_Cons)
      then have "interior i ! length u \<in> set DIGITS" using set_nat_str [of i] nth_mem by (metis subsetD)
      moreover have "0 < length w" using assms(2) by linarith
      then have "apart (interior i ! length u)" using nth [of 0] assms(1) nth_mem [of 0 w] by (auto simp: list_all_iff)
      ultimately show False by (auto simp: apart_def)
    qed
  qed
  then show ?thesis using assms by (auto simp: untouchable_def apart_def list_all_iff)
qed

section \<open>Passes that leave placeholders alone\<close>

inductive rewritten :: "string \<Rightarrow> string \<Rightarrow> bool" where
  Done: "rewritten [] []"
| Keep: "rewritten s s' \<Longrightarrow> rewritten (c # s) (c # s')"
| Swap: "untouchable w \<Longrightarrow> SOH \<notin> set v \<Longrightarrow> rewritten s s' \<Longrightarrow> rewritten (w @ s) (v @ s')"

lemma rewritten_keep: "rewritten s s' \<Longrightarrow> rewritten (u @ s) (u @ s')"
  by (induction u) (auto intro: rewritten.Keep)

lemma rewritten_refl: "rewritten s s"
  using rewritten_keep [OF rewritten.Done, of s] by simp

fun weave :: "nat \<Rightarrow> string list \<Rightarrow> string" where
  "weave i [] = []"
| "weave i [t] = t"
| "weave i (t # ts) = t @ placeholder i @ weave (Suc i) ts"

fun interleave :: "string list \<Rightarrow> string list \<Rightarrow> string" where
  "interleave (t # ts) (s # ss) = t @ s @ interleave ts ss"
| "interleave ts ss = concat ts"

definition unmarked :: "string list \<Rightarrow> bool" where
  "unmarked ts \<longleftrightarrow> list_all (\<lambda>t. SOH \<notin> set t) ts"

lemma untouchable_prefix:
  assumes "untouchable w" "w @ s = v @ STX # x" "sublist v (interior m)"
  shows False
proof -
  have w: "w \<noteq> []" "STX \<notin> set w" "\<not> sublist w (interior m)"
    using assms(1) by (auto simp: untouchable_def plain_def list_all_iff)
  from assms(2) obtain us where "w = v @ us \<and> us @ s = STX # x \<or> v = w @ us" by (auto simp: append_eq_append_conv2)
  then show False
  proof
    assume a: "w = v @ us \<and> us @ s = STX # x"
    show False using a w assms(3) by (cases us) auto
  next
    assume "v = w @ us"
    then show False using w(3) assms(3) by (metis sublist_append_rightI sublist_order.order_trans)
  qed
qed

lemma untouchable_in_gap:
  assumes "untouchable w" "w @ s = t @ SOH # x"
  obtains t' where "t = w @ t'" "s = t' @ SOH # x"
proof -
  have "SOH \<notin> set w" using assms(1) by (auto simp: untouchable_def plain_def list_all_iff)
  moreover obtain us where "w = t @ us \<and> us @ s = SOH # x \<or> t = w @ us \<and> s = us @ SOH # x"
    using assms(2) by (auto simp: append_eq_append_conv2)
  ultimately show ?thesis using that by (cases us) auto
qed

lemma weave_Cons: "ts \<noteq> [] \<Longrightarrow> weave i (t # ts) = t @ SOH # interior i @ STX # weave (Suc i) ts"
  by (cases ts) (simp_all add: placeholder_parts)

lemma weave_push: "weave i ((c # t) # ts) = c # weave i (t # ts)" "weave i ((v @ t) # ts) = v @ weave i (t # ts)"
  by (cases ts; simp)+

text \<open>The rest of a placeholder after its first \<open>n\<close> bytes, or nothing.\<close>

definition tail_of_mark :: "string \<Rightarrow> bool" where
  "tail_of_mark u \<longleftrightarrow> u = [] \<or> (\<exists>v m. u = v @ [STX] \<and> sublist v (interior m))"

lemma tail_of_mark_Cons: "tail_of_mark (c # u) \<Longrightarrow> tail_of_mark u"
proof -
  assume "tail_of_mark (c # u)"
  then obtain v m where v: "c # u = v @ [STX]" "sublist v (interior m)" by (auto simp: tail_of_mark_def)
  show ?thesis
  proof (cases v)
    case Nil
    then show ?thesis using v by (simp add: tail_of_mark_def)
  next
    case (Cons d v')
    then have "u = v' @ [STX]" "sublist v' (interior m)" using v sublist_order.order_trans [of v' v "interior m"] Cons
      by (auto intro: sublist_appendI [of v' "[d]" "[]", simplified])
    then show ?thesis by (auto simp: tail_of_mark_def)
  qed
qed

lemma rewritten_weave:
  assumes "rewritten s s'" "s = u @ weave i ts" "tail_of_mark u" "ts \<noteq> []" "unmarked ts"
  shows "\<exists>ts'. length ts' = length ts \<and> unmarked ts' \<and> s' = u @ weave i ts'"
  using assms
proof (induction arbitrary: u i ts rule: rewritten.induct)
  case Done
  then show ?case by (intro exI [of _ ts]) simp
next
  case (Keep s s' c)
  obtain t ts1 where ts: "ts = t # ts1" using Keep.prems(3) by (cases ts) auto
  consider (mark) u' where "u = c # u'" | (gap) t' where "u = []" "t = c # t'" | (next_mark) "u = []" "t = []" "ts1 \<noteq> []"
    using Keep.prems(1) by (cases u; cases t; cases ts1) (auto simp: ts)
  then show ?case
  proof cases
    case mark
    with Keep.prems Keep.IH [of u' i ts] tail_of_mark_Cons show ?thesis by auto
  next
    case gap
    with Keep.prems ts have "s = [] @ weave i (t' # ts1)" "unmarked (t' # ts1)" by (auto simp: weave_push unmarked_def)
    with Keep.IH [of "[]" i "t' # ts1"] obtain ts' where ts': "length ts' = Suc (length ts1)" "unmarked ts'" "s' = weave i ts'"
      by (auto simp: tail_of_mark_def)
    then obtain a as where a: "ts' = a # as" by (cases ts') auto
    have "c \<noteq> SOH" using Keep.prems(4) gap ts by (auto simp: unmarked_def)
    then show ?thesis using ts' a gap ts by (intro exI [of _ "(c # a) # as"]) (auto simp: weave_push unmarked_def)
  next
    case next_mark
    let ?u = "interior i @ [STX]"
    from next_mark Keep.prems(1) ts have "c = SOH" "s = ?u @ weave (Suc i) ts1" by (auto simp: weave_Cons)
    moreover have "tail_of_mark ?u" by (auto simp: tail_of_mark_def)
    moreover have "unmarked ts1" using Keep.prems(4) ts by (simp add: unmarked_def)
    ultimately obtain ts' where ts': "length ts' = length ts1" "unmarked ts'" "s' = ?u @ weave (Suc i) ts'"
      using Keep.IH [of ?u "Suc i" ts1] next_mark(3) by blast
    then have "ts' \<noteq> []" using next_mark(3) by auto
    then show ?thesis using ts' next_mark ts \<open>c = SOH\<close>
      by (intro exI [of _ "[] # ts'"]) (auto simp: weave_Cons unmarked_def)
  qed
next
  case (Swap w v s s')
  obtain t ts1 where ts: "ts = t # ts1" using Swap.prems(3) by (cases ts) auto
  have "u = []"
  proof (rule ccontr)
    assume "u \<noteq> []"
    then obtain x m where "u = x @ [STX]" "sublist x (interior m)" using Swap.prems(2) by (auto simp: tail_of_mark_def)
    then show False using untouchable_prefix [OF Swap.hyps(1), of s x "weave i ts" m] Swap.prems(1) by simp
  qed
  have "\<exists>t'. t = w @ t' \<and> s = weave i (t' # ts1)"
  proof (cases "ts1 = []")
    case True
    then show ?thesis using Swap.prems(1) \<open>u = []\<close> ts by auto
  next
    case False
    then have "w @ s = t @ SOH # interior i @ STX # weave (Suc i) ts1" using Swap.prems(1) \<open>u = []\<close> ts by (simp add: weave_Cons)
    from untouchable_in_gap [OF Swap.hyps(1) this] show ?thesis using False by (auto simp: weave_Cons)
  qed
  then obtain t' where t': "t = w @ t'" "s = weave i (t' # ts1)" by blast
  moreover have "unmarked (t' # ts1)" using Swap.prems(4) t' ts by (auto simp: unmarked_def)
  ultimately obtain ts' where ts': "length ts' = Suc (length ts1)" "unmarked ts'" "s' = weave i ts'"
    using Swap.IH [of "[]" i "t' # ts1"] by (auto simp: tail_of_mark_def)
  then obtain a as where a: "ts' = a # as" by (cases ts') auto
  then show ?case using ts' Swap.hyps(2) ts \<open>u = []\<close>
    by (intro exI [of _ "(v @ a) # as"]) (auto simp: weave_push unmarked_def)
qed

section \<open>Every pass rewrites\<close>

text \<open>A pattern whose matches fit into no placeholder.\<close>

definition spares_marks :: "re \<Rightarrow> bool" where
  "spares_marks r \<longleftrightarrow> stays_in plain r \<and> (hits foreign r \<or> stays_in apart r \<and> 4 \<le> min_len r)"

definition spares_rule :: "string \<times> string \<Rightarrow> bool" where
  "spares_rule rule \<longleftrightarrow> (case parse_re (fst rule) of None \<Rightarrow> False | Some r \<Rightarrow> spares_marks r) \<and> SOH \<notin> set (snd rule)"

lemma wide_classes: "128 \<le> byte c \<Longrightarrow> plain c" "128 \<le> byte c \<Longrightarrow> foreign c" "128 \<le> byte c \<Longrightarrow> apart c"
proof -
  have m: "list_all (\<lambda>c. byte c < 128) (SOH # STX # MARK_CHARS)" "list_all (\<lambda>c. byte c < 128) (''T_'' @ DIGITS)" by code_simp+
  then have "128 \<le> byte c \<Longrightarrow> c \<notin> set (SOH # STX # MARK_CHARS)" "128 \<le> byte c \<Longrightarrow> c \<notin> set (''T_'' @ DIGITS)"
    unfolding list_all_iff by fastforce+
  then show "128 \<le> byte c \<Longrightarrow> plain c" "128 \<le> byte c \<Longrightarrow> foreign c" "128 \<le> byte c \<Longrightarrow> apart c"
    by (auto simp: plain_def foreign_def apart_def)
qed

lemma spares_marks_sound: "spares_marks r \<Longrightarrow> w \<in> lang uw r \<Longrightarrow> untouchable w"
  unfolding spares_marks_def
  using stays_in_sound [of plain r w uw, OF wide_classes(1)] stays_in_sound [of apart r w uw, OF wide_classes(3)]
    hits_sound [of foreign r w uw, OF wide_classes(2)] min_len_sound [of w uw r]
    untouchable_foreign [of w] untouchable_apart [of w]
  by (auto simp: list_all_iff list_ex_iff)

lemma between_drop: "i \<le> j \<Longrightarrow> j \<le> length t \<Longrightarrow> between t i j @ drop j t = drop i t"
  using between_append [of i j "length t" t] by (simp add: between_def)

lemma replace_matches_rewritten:
  assumes "in_order t i ms" "list_all (\<lambda>m. untouchable (between t (m_start m) (m_end m)) \<and> SOH \<notin> set (f m)) ms"
  shows "rewritten (drop i t) (replace_matches t f i ms)"
  using assms
proof (induction ms arbitrary: i)
  case Nil
  show ?case by (simp add: rewritten_refl)
next
  case (Cons m ms)
  from Cons have ih: "rewritten (drop (m_end m) t) (replace_matches t f (m_end m) ms)" by simp
  have b: "i \<le> m_start m" "m_start m \<le> m_end m" "m_end m \<le> length t" using Cons.prems(1) in_order_end by auto
  have "rewritten (between t (m_start m) (m_end m) @ drop (m_end m) t) (f m @ replace_matches t f (m_end m) ms)"
    using Cons.prems(2) ih by (intro rewritten.Swap) simp_all
  then have "rewritten (drop (m_start m) t) (f m @ replace_matches t f (m_end m) ms)" using b by (simp add: between_drop)
  then have "rewritten (between t i (m_start m) @ drop (m_start m) t) (between t i (m_start m) @ f m @ replace_matches t f (m_end m) ms)"
    by (rule rewritten_keep)
  then show ?case using b by (simp add: between_drop)
qed

lemma set_between: "set (between t i j) \<subseteq> set t"
  unfolding between_def using set_take_subset set_drop_subset by (metis subset_trans)

lemma set_between_mono:
  assumes "i \<le> a" "b \<le> j"
  shows "set (between t a b) \<subseteq> set (between t i j)"
proof (cases "a \<le> b")
  case True
  then have "between t i j = between t i a @ between t a b @ between t b j" using assms by (simp add: between_append)
  then show ?thesis by auto
qed (simp add: between_def)

lemma set_expand: "set (expand n t m s) \<subseteq> set s \<union> (\<Union>k. set (group_text t m k))"
proof (induction n t m s rule: expand.induct)
  case (3 n t m c s)
  have "set s1 \<subseteq> set s" if "p_number s = Some (k, s1)" for k s1
    using that by (auto simp: p_number_def Let_def split: if_splits dest: in_set_dropD)
  note s1 = this
  show ?case
  proof (cases "c = CHR ''$''")
    case True
    show ?thesis
    proof (cases "p_number s")
      case None
      then show ?thesis using 3(1) True by auto
    next
      case (Some p)
      then obtain k s1 where "p_number s = Some (k, s1)" by (cases p) auto
      note k = this
      with 3(2) True have "set (expand n t m s1) \<subseteq> set s1 \<union> (\<Union>k. set (group_text t m k))" by auto
      then show ?thesis using True k s1 [OF k] by auto
    qed
  next
    case False
    then show ?thesis using 3(3) by auto
  qed
qed auto

lemma set_group_text:
  assumes "in_order t i ms" "m \<in> set ms"
  shows "set (group_text t m k) \<subseteq> set (between t (m_start m) (m_end m))"
proof -
  have "list_all (\<lambda>(k, a, b). m_start m \<le> a \<and> a \<le> b \<and> b \<le> m_end m) (m_groups m)"
    using assms by (induction ms arbitrary: i) auto
  then have "set (between t a b) \<subseteq> set (between t (m_start m) (m_end m))" if "map_of (m_groups m) k = Some (a, b)" for a b
    using map_of_SomeD [OF that] by (intro set_between_mono) (auto simp: list_all_iff)
  then show ?thesis by (cases "map_of (m_groups m) k") (auto simp: group_text_def)
qed

lemma replace_all_rewritten:
  assumes "follows_docs uw rx" "spares_rule (p, repl)"
  shows "rewritten t (replace_all rx p t repl)"
proof -
  obtain r where r: "parse_re p = Some r" "spares_marks r" "SOH \<notin> set repl" using assms(2) by (auto simp: spares_rule_def split: option.splits)
  then have ms: "rx p t = find_all uw r t" using assms(1) by (simp add: follows_docs_def)
  have "untouchable (between t (m_start m) (m_end m)) \<and> SOH \<notin> set (expand (length repl + 1) t m repl)" if m: "m \<in> set (rx p t)" for m
  proof
    show u: "untouchable (between t (m_start m) (m_end m))"
      using find_all_in_order(2) [of m uw r t] m ms r(2) by (auto intro: spares_marks_sound)
    have "SOH \<notin> set (group_text t m k)" for k
      using set_group_text [OF find_all_in_order(1), of m uw r t k] m ms u
      by (auto simp: untouchable_def plain_def list_all_iff)
    then show "SOH \<notin> set (expand (length repl + 1) t m repl)" using set_expand [of "length repl + 1" t m repl] r(3) by auto
  qed
  then have "rewritten (drop 0 t) (replace_matches t (\<lambda>m. expand (length repl + 1) t m repl) 0 (rx p t))"
    by (intro replace_matches_rewritten) (use find_all_in_order(1) ms in \<open>auto simp: list_all_iff\<close>)
  then show ?thesis by (simp add: replace_all_def)
qed

lemma spares_fillers: "spares_rule (FILLERS, [])"
  by code_simp

lemma spares_pleasantries: "spares_rule (PLEASANTRIES, ''$1'')"
  by code_simp

lemma spares_hedges: "spares_rule (HEDGES, [])"
  by code_simp

lemma spares_discourse: "spares_rule (DISCOURSE, [])"
  by code_simp

lemma spares_meta_phrases: "spares_rule (META_PHRASES, [])"
  by code_simp

lemma spares_qualifiers: "spares_rule (QUALIFIERS, [])"
  by code_simp

lemma spares_rules_1:
  "list_all spares_rule [(ARTICLES, []),
     (CAUSAL_CONNECTORS, '' -> ''),
     (CAUSAL_SO, ''$1 -> ''),
     (COORDINATING_CONJUNCTIONS, '' ''),
     (PHRASE_DUE_TO, ''because''),
     (PHRASE_IN_ORDER_TO, ''to''),
     (PHRASE_AT_THIS_POINT, ''now''),
     (PHRASE_FOR_THE_PURPOSE, ''for''),
     (PHRASE_IN_THE_EVENT, ''if''),
     (PHRASE_WITH_THE_EXCEPTION, ''except''),
     (PHRASE_A_NUMBER_OF, ''several''),
     (PHRASE_THE_MAJORITY_OF, ''most'')]"
  by code_simp

lemma spares_rules_2:
  "list_all spares_rule [(PHRASE_IN_SPITE_OF, ''despite''),
     (PHRASE_ON_THE_BASIS, ''based on''),
     (PHRASE_FOR_INSTANCE, ''e.g.''),
     (ABBR_AUTHENTICATION, ''auth''),
     (ABBR_AUTHORIZATION, ''authz''),
     (ABBR_CONFIGURATION, ''config''),
     (ABBR_IMPLEMENTATION, ''impl''),
     (ABBR_REPOSITORY, ''repo''),
     (ABBR_DIRECTORY, ''dir''),
     (ABBR_FUNCTION, ''fn''),
     (ABBR_REQUEST, ''req''),
     (ABBR_RESPONSE, ''res'')]"
  by code_simp

lemma spares_rules_3:
  "list_all spares_rule [(ABBR_DATABASE, ''DB''),
     (ABBR_OBJECT, ''obj''),
     (ABBR_REFERENCE, ''ref''),
     (ABBR_CONNECTION, ''conn''),
     (ABBR_COMMAND, ''cmd''),
     (ABBR_APPLICATION, ''app''),
     (ABBR_DEPENDENCIES, ''deps''),
     (ABBR_DEPENDENCY, ''dep''),
     (ABBR_PARAMETERS, ''params''),
     (ABBR_PARAMETER, ''param''),
     (ABBR_ARGUMENTS, ''args''),
     (ABBR_ARGUMENT, ''arg'')]"
  by code_simp

lemma spares_rules_4:
  "list_all spares_rule [(ABBR_ENVIRONMENT, ''env''),
     (ABBR_VARIABLES, ''vars''),
     (ABBR_VARIABLE, ''var''),
     (ABBR_MESSAGE, ''msg''),
     (ABBR_ERROR, ''err''),
     (ABBR_DOCUMENTATION, ''docs''),
     (ABBR_DOCUMENT, ''doc''),
     (ABBR_PACKAGE, ''pkg''),
     (ABBR_SOURCE, ''src''),
     (ABBR_DESTINATION, ''dst''),
     (ABBR_TEMPORARY, ''temp''),
     (MULTI_SPACE, '' '')]"
  by code_simp

lemma spares_rules_5:
  "list_all spares_rule [(MULTI_NEWLINE, [NL, NL])]"
  by code_simp

lemmas spares_rules = spares_fillers spares_pleasantries spares_hedges spares_discourse spares_meta_phrases spares_qualifiers spares_rules_1 spares_rules_2 spares_rules_3 spares_rules_4 spares_rules_5

lemma english_rules_spare: "list_all spares_rule (english_rules_for level)"
  using spares_rules by (cases level) (simp_all only: english_rules_for.simps LITE_RULES_def FULL_RULES_def
    ULTRA_RULES_def EXTREME_RULES_def list.pred_inject simp_thms)


lemma apply_rules_rewritten:
  assumes "follows_docs uw rx" "list_all spares_rule rules"
  shows "unmarked ts \<Longrightarrow> ts \<noteq> [] \<Longrightarrow> t = weave i ts \<Longrightarrow>
    \<exists>ts'. length ts' = length ts \<and> unmarked ts' \<and> apply_rules rx rules t = weave i ts'"
  using assms(2)
proof (induction rules arbitrary: t ts)
  case Nil
  then show ?case by (auto simp: apply_rules_def)
next
  case (Cons r rules)
  obtain p repl where r: "r = (p, repl)" by fastforce
  have "rewritten t (replace_all rx p t repl)" by (rule replace_all_rewritten [OF assms(1)]) (use Cons.prems(4) r in simp)
  from rewritten_weave [OF this, of "[]" i ts] Cons.prems obtain ts1 where
    ts1: "length ts1 = length ts" "unmarked ts1" "replace_all rx p t repl = weave i ts1" by (auto simp: tail_of_mark_def)
  have "ts1 \<noteq> []" using ts1(1) Cons.prems(2) by auto
  with ts1 Cons.IH [of ts1 "replace_all rx p t repl"] Cons.prems show ?case by (simp add: apply_rules_def r)
qed

subsection \<open>Filler words and stutters\<close>

lemma ws_len_plain: "list_all foreign (take (ws_len s) s)"
proof -
  have ws: "list_all foreign ASCII_WS" by code_simp
  have "foreign a" if "ascii_ws a" for a using ascii_ws_set [OF that] ws by (simp add: list_all_iff)
  moreover have "foreign a \<and> foreign b" if "ws2 a b" for a b using that by (auto simp: ws2_def intro!: wide_classes(2))
  moreover have "foreign a \<and> foreign b \<and> foreign c" if "ws3 a b c" for a b c
    using that by (auto simp: ws3_def intro!: wide_classes(2))
  ultimately show ?thesis by (auto simp: ws_len_def numeral_2_eq_2 numeral_3_eq_3 split: list.splits)
qed

lemma trim_start_plain: "\<exists>w. s = w @ trim_start s \<and> list_all foreign w"
proof (induction s rule: trim_start.induct)
  case (1 s)
  show ?case
  proof (cases "ws_len s = 0")
    case True
    then show ?thesis by (simp add: trim_start_fix)
  next
    case False
    with 1 obtain w where w: "drop (ws_len s) s = w @ trim_start (drop (ws_len s) s)" "list_all foreign w" by blast
    have "trim_start s = trim_start (drop (ws_len s) s)" using False by (subst trim_start.simps) simp
    then have "s = (take (ws_len s) s @ w) @ trim_start s" using w(1) by (metis append.assoc append_take_drop_id)
    moreover have "list_all foreign (take (ws_len s) s @ w)" using w(2) ws_len_plain by simp
    ultimately show ?thesis by blast
  qed
qed

lemma foreign_plain: "list_all foreign w \<Longrightarrow> list_all plain w" "foreign c \<Longrightarrow> plain c"
  by (auto simp: list_all_iff foreign_def)

lemma gap_plain: "\<exists>w. rest = w @ skip_trailing_filler_gap rest \<and> list_all plain w"
proof -
  have g: "list_all (list_all plain) GAP_PUNCTUATION" by code_simp
  have fp: "list_all foreign w \<Longrightarrow> list_all plain w" for w by (auto simp: list_all_iff foreign_def)
  show ?thesis
  proof (cases "first_char rest \<in> set GAP_PUNCTUATION")
    case True
    let ?r = "drop (length (first_char rest)) rest"
    obtain w where w: "?r = w @ trim_start ?r" "list_all foreign w" using trim_start_plain by blast
    have "rest = (first_char rest @ w) @ skip_trailing_filler_gap rest"
      using True w(1) take_first_char [of rest] by (simp add: skip_trailing_filler_gap_def) (metis append_take_drop_id)
    moreover have "list_all plain (first_char rest @ w)" using g True fp [OF w(2)] by (auto simp: list_all_iff)
    ultimately show ?thesis by blast
  next
    case False
    then show ?thesis using trim_start_plain [of rest] fp by (auto simp: skip_trailing_filler_gap_def)
  qed
qed

text \<open>A term of a pack: no control bytes, and a letter that no placeholder has in either case.\<close>

definition spares_term :: "string \<Rightarrow> bool" where
  "spares_term t \<longleftrightarrow> list_all (\<lambda>c. plain (lower c)) t \<and> list_ex (\<lambda>c. foreign c \<and> foreign (lower c) \<and> foreign (upper (lower c))) t"

definition spares_pack :: "language_pack \<Rightarrow> bool" where
  "spares_pack pack \<longleftrightarrow> list_all spares_term (lp_fillers pack @ lp_discourse_markers pack)"

lemma packs_spare: "list_all (\<lambda>(l, pack). spares_pack pack) LANGUAGE_PACKS"
  by code_simp

lemma language_pack_spares: "language_pack_for l = Some pack \<Longrightarrow> spares_pack pack"
  using packs_spare by (auto simp: language_pack_for_def list_all_iff dest!: map_of_SomeD)

lemma plain_byte: "plain c \<longleftrightarrow> byte c \<noteq> 1 \<and> byte c \<noteq> 2"
proof -
  have "c = SOH \<longleftrightarrow> byte c = byte SOH" "c = STX \<longleftrightarrow> byte c = byte STX" by (metis char_of_char)+
  then show ?thesis by (simp add: plain_def numeral_2_eq_2)
qed

lemma plain_lower [simp]: "plain (lower c) = plain c"
  by (simp add: plain_byte byte_lower)

lemma foreign_case_variant: "lower d = lower c \<Longrightarrow> foreign (lower c) \<Longrightarrow> foreign (upper (lower c)) \<Longrightarrow> foreign d"
  using lower_upper_cases(1) [of d] by auto

lemma term_untouchable:
  assumes "matched_term_end rest t = Some e" "spares_term t"
  shows "list_all plain (take e rest)" "list_ex foreign (take e rest)"
proof -
  have e: "e = length t" and m: "map lower (take e rest) = map lower t"
    using assms(1) by (auto simp: matched_term_end_def eq_ignore_ascii_case_def to_ascii_lowercase_def starts_with_iff split: if_splits)
  have "list_all (\<lambda>c. plain (lower c)) t" using assms(2) by (simp add: spares_term_def)
  then have "list_all plain (map lower t)" by (simp add: list_all_iff)
  then have "list_all plain (map lower (take e rest))" by (simp add: m)
  then show "list_all plain (take e rest)" by (simp add: list_all_iff)
  from assms(2) obtain k where k: "k < length t" "foreign (lower (t ! k))" "foreign (upper (lower (t ! k)))"
    by (auto simp: spares_term_def list_ex_iff in_set_conv_nth)
  have l: "length (take e rest) = length t" using m by (metis length_map)
  then have "lower (take e rest ! k) = lower (t ! k)" using m k(1) by (metis nth_map)
  then have "foreign (take e rest ! k)" using k foreign_case_variant by metis
  then show "list_ex foreign (take e rest)" using k(1) l by (metis list_ex_iff nth_mem)
qed

lemma foldl_best: "foldl (\<lambda>best n. case best of None \<Rightarrow> Some n | Some b \<Rightarrow> if P b n then Some n else Some b) b0 xs = Some e \<Longrightarrow>
    e \<in> set xs \<or> b0 = Some e"
  by (induction xs arbitrary: b0) (force split: option.splits if_splits)+

lemma matching_pack_term_plain:
  assumes "matching_pack_term te seen rest pack = Some e" "spares_pack pack"
  shows "list_all plain (take e rest) \<and> list_ex foreign (take e rest)"
proof -
  from foldl_best [OF assms(1) [unfolded matching_pack_term_def]]
  have "\<exists>t \<in> set (lp_fillers pack @ lp_discourse_markers pack). matched_term_end rest t = Some e"
    by (auto simp: map_filter_def image_iff)
  then show ?thesis using assms(2) term_untouchable by (auto simp: spares_pack_def list_all_iff)
qed

lemma pack_loop_rewritten: "spares_pack pack \<Longrightarrow> length rest \<le> n \<Longrightarrow> rewritten rest (pack_loop te pack n seen rest)"
proof (induction te pack n seen rest rule: pack_loop.induct)
  case (2 te pack n seen rest)
  show ?case
  proof (cases "rest = []")
    case False
    show ?thesis
    proof (cases "matching_pack_term te seen rest pack")
      case None
      have "length (drop (length (first_char rest)) rest) \<le> n"
        using length_first_char(1) [OF False] 2(4) unfolding length_drop by arith
      with 2(1) [OF False None refl 2(3)] have
        "rewritten (first_char rest @ drop (length (first_char rest)) rest)
          (first_char rest @ pack_loop te pack n (seen @ first_char rest) (drop (length (first_char rest)) rest))"
        by (intro rewritten_keep)
      then show ?thesis using False None by (metis (no_types, lifting) append_take_drop_id take_first_char pack_loop.simps(2) option.simps(4))
    next
      case (Some e)
      note p = matching_pack_term_plain [OF Some 2(3)]
      then have "take e rest \<noteq> []" by (cases "take e rest") auto
      obtain w where w: "drop e rest = w @ skip_trailing_filler_gap (drop e rest)" "list_all plain w" using gap_plain by blast
      let ?r = "skip_trailing_filler_gap (drop e rest)"
      have s: "rest = (take e rest @ w) @ ?r" using w(1) by (metis append.assoc append_take_drop_id)
      have "untouchable (take e rest @ w)" using p w(2) by (intro untouchable_foreign) auto
      moreover have "length rest = length (take e rest @ w) + length ?r" using arg_cong [OF s, of length] by (simp only: length_append)
      then have "length ?r < length rest" using \<open>take e rest \<noteq> []\<close> by (cases "take e rest") simp_all
      ultimately have "rewritten ((take e rest @ w) @ ?r) ([] @ pack_loop te pack n (seen @ take (length rest - length ?r) rest) ?r)"
        using 2(2) [OF False Some refl 2(3)] 2(4) by (intro rewritten.Swap) simp_all
      then show ?thesis using False Some s by (simp add: Let_def)
    qed
  qed (simp add: rewritten.Done)
qed (simp add: rewritten.Done)

lemma apply_language_pack_rewritten: "spares_pack pack \<Longrightarrow> rewritten t (apply_language_pack te t pack)"
  by (simp add: apply_language_pack_def pack_loop_rewritten)


lemma concat_group_chars: "concat (map snd (group_chars te cs)) = concat cs"
  by (induction cs) (auto split: list.splits prod.splits)

lemma kind_of_word: "kind_of te ch = Word_token \<Longrightarrow> list_all plain ch"
proof -
  assume "kind_of te ch = Word_token"
  then have "is_word_char te ch" by (auto simp: kind_of_def split: if_splits)
  then consider "ch = ''_''" | c where "ch = [c]" "is_ascii_alpha c \<or> is_ascii_digit c" | "list_all (\<lambda>c. 128 \<le> byte c) ch"
    by (auto simp: is_word_char_def split: list.splits)
  then show ?thesis
    by cases (auto simp: plain_byte is_ascii_alpha_def is_ascii_digit_def list_all_iff)
qed

lemma kind_of_whitespace: "kind_of te ch = Whitespace_token \<Longrightarrow> first_char ch = ch \<Longrightarrow> ch \<noteq> [] \<and> list_all foreign ch"
proof -
  assume k: "kind_of te ch = Whitespace_token" "first_char ch = ch"
  then have w: "0 < ws_len ch" by (auto simp: kind_of_def is_whitespace_def split: if_splits)
  show ?thesis
  proof (cases "length ch = 1")
    case True
    then show ?thesis using w ws_len_plain [of ch] ws_len_le [of ch] by (cases ch) auto
  next
    case False
    have "foreign x" if "x \<in> set ch" for x using wide_space [OF k(2) w False that] by (rule wide_classes)
    then show ?thesis using w by (auto simp: list_all_iff ws_len_def)
  qed
qed

lemma chars_single: "ch \<in> set (chars s) \<Longrightarrow> first_char ch = ch"
proof (induction s rule: chars.induct)
  case (1 s)
  then show ?case by (cases "s = []") (auto simp: chars.simps [of s] chars.simps [of "[]"])
qed

lemma group_chars_tokens:
  assumes "list_all (\<lambda>ch. first_char ch = ch) cs" "(k, t) \<in> set (group_chars te cs)"
  shows "(k = Word_token \<longrightarrow> list_all plain t) \<and> (k = Whitespace_token \<longrightarrow> t \<noteq> [] \<and> list_all foreign t)"
  using assms
proof (induction cs arbitrary: k t)
  case (Cons ch cs)
  note ch = kind_of_word [of te ch] kind_of_whitespace [of te ch]
  show ?case
  proof (cases "group_chars te cs")
    case Nil
    then show ?thesis using Cons.prems ch by auto
  next
    case (Cons p ts)
    obtain k1 t1 where p: "p = (k1, t1)" by fastforce
    have ih: "(k1 = Word_token \<longrightarrow> list_all plain t1) \<and> (k1 = Whitespace_token \<longrightarrow> t1 \<noteq> [] \<and> list_all foreign t1)"
      using Cons.IH [of k1 t1] Cons.prems(1) local.Cons p by simp
    from Cons.prems(2) local.Cons p consider "k1 = kind_of te ch" "(k, t) = (k1, ch @ t1)" | "(k, t) = (kind_of te ch, ch)"
      | "(k, t) \<in> set (group_chars te cs)" by (auto split: if_splits)
    then show ?thesis
      using ch Cons.prems(1) ih Cons.IH [of k t] by cases auto
  qed
qed simp

lemma dedup_loop_rewritten:
  assumes "list_all (\<lambda>(k, t). (k = Word_token \<longrightarrow> list_all plain t) \<and> (k = Whitespace_token \<longrightarrow> t \<noteq> [] \<and> list_all foreign t)) ts"
    "\<forall>w. pending = Some w \<longrightarrow> w \<noteq> [] \<and> list_all foreign w"
  shows "rewritten (pushed pending @ concat (map snd ts)) (dedup_loop te pending previous ts)"
  using assms
proof (induction te pending previous ts rule: dedup_loop.induct)
  case (1 te pending previous)
  show ?case by (simp add: rewritten_refl)
next
  case (2 te pending previous kind token ts)
  show ?case
  proof (cases kind)
    case Word_token
    let ?dup = "\<not> list_all is_ascii_digit token \<and> pending \<noteq> None \<and> previous = Some (te_lowercase te token)"
    show ?thesis
    proof (cases ?dup)
      case True
      then obtain w where w: "pending = Some w" by blast
      have f: "list_all foreign w" "list_all plain token" and "w \<noteq> []" using 2(5,6) w Word_token by simp_all
      then obtain x xs where "w = x # xs" by (cases w) auto
      then have "list_all plain (w @ token)" "list_ex foreign (w @ token)"
        using f by (simp_all add: foreign_plain)
      then have "untouchable (w @ token)" by (rule untouchable_foreign)
      moreover have "rewritten (concat (map snd ts)) (dedup_loop te None previous ts)"
        using 2(1) [OF Word_token refl refl True] 2(5) by (simp add: pushed_def)
      ultimately have "rewritten ((w @ token) @ concat (map snd ts)) ([] @ dedup_loop te None previous ts)"
        by (intro rewritten.Swap) simp_all
      then show ?thesis using True w Word_token by (simp add: pushed_def Let_def)
    next
      case False
      have "rewritten (concat (map snd ts)) (dedup_loop te None (Some (te_lowercase te token)) ts)"
        using 2(2) [OF Word_token refl refl False] 2(5) by (simp add: pushed_def)
      then have "rewritten ((pushed pending @ token) @ concat (map snd ts))
        ((pushed pending @ token) @ dedup_loop te None (Some (te_lowercase te token)) ts)" by (rule rewritten_keep)
      then show ?thesis using False Word_token by (auto simp: Let_def)
    qed
  next
    case Whitespace_token
    have "rewritten (pushed (Some token) @ concat (map snd ts)) (dedup_loop te (Some token) previous ts)"
      using 2(3) [OF Whitespace_token] 2(5) Whitespace_token by simp
    then show ?thesis using Whitespace_token rewritten_keep by (simp add: pushed_def)
  next
    case Other_token
    have "rewritten (concat (map snd ts)) (dedup_loop te None None ts)"
      using 2(4) [OF Other_token] 2(5) by (simp add: pushed_def)
    then have "rewritten ((pushed pending @ token) @ concat (map snd ts)) ((pushed pending @ token) @ dedup_loop te None None ts)"
      by (rule rewritten_keep)
    then show ?thesis using Other_token by simp
  qed
qed

lemma dedup_immediate_words_rewritten: "rewritten t (dedup_immediate_words te t)"
proof -
  have "list_all (\<lambda>ch. first_char ch = ch) (chars t)" using chars_single by (auto simp: list_all_iff)
  from group_chars_tokens [OF this] have "rewritten (pushed None @ concat (map snd (group_chars te (chars t))))
      (dedup_loop te None None (group_chars te (chars t)))"
    by (intro dedup_loop_rewritten) (auto simp: list_all_iff)
  then show ?thesis by (simp add: dedup_immediate_words_def concat_group_chars pushed_def)
qed


section \<open>Stash and restore\<close>

fun gaps :: "string \<Rightarrow> nat \<Rightarrow> rmatch list \<Rightarrow> string list" where
  "gaps t i [] = [drop i t]"
| "gaps t i (m # ms) = between t i (m_start m) # gaps t (m_end m) ms"

lemma gaps_shape: "gaps t i ms \<noteq> []" "length (gaps t i ms) = Suc (length ms)"
  by (induction ms arbitrary: i) auto

lemma stash_weave: "stash_matches t i k ms = weave k (gaps t i ms)"
  by (induction ms arbitrary: i k) (simp_all add: weave_Cons gaps_shape placeholder_parts)

lemma interleave_Nil [simp]: "interleave ts [] = concat ts"
  by (cases ts) simp_all

lemma interleave_gaps:
  "in_order t i ms \<Longrightarrow> interleave (gaps t i ms) (map (\<lambda>m. between t (m_start m) (m_end m)) ms) = drop i t"
proof (induction ms arbitrary: i)
  case (Cons m ms)
  then have b: "i \<le> m_start m" "m_start m \<le> m_end m" "m_end m \<le> length t" using in_order_end by auto
  have "between t i (m_start m) @ between t (m_start m) (m_end m) @ drop (m_end m) t = drop i t"
    using b by (simp add: between_drop)
  then show ?case using Cons by simp
qed simp

lemma unmarked_gaps: "SOH \<notin> set t \<Longrightarrow> unmarked (gaps t i ms)"
proof (induction ms arbitrary: i)
  case (Cons m ms)
  then show ?case using set_between [of t i "m_start m"] by (auto simp: unmarked_def)
qed (auto simp: unmarked_def dest: in_set_dropD)

lemma placeholder_other:
  assumes "starts_with (placeholder j @ x) (placeholder i)"
  shows "i = j"
proof -
  obtain y where y: "placeholder j @ x = placeholder i @ y" using assms by (auto simp: starts_with_iff)
  then have "nat_str j @ STX # x = nat_str i @ STX # y" by (simp add: placeholder_def)
  moreover have "takeWhile (\<lambda>c. c \<noteq> STX) (nat_str k @ STX # z) = nat_str k" for k z
    using nat_str_notin [of STX k] by (subst takeWhile_append2) auto
  ultimately have "nat_str i = nat_str j" by metis
  then show ?thesis by (rule nat_str_inj)
qed

lemma replace_other_marks:
  "unmarked ts \<Longrightarrow> i < j \<Longrightarrow> replace_str (placeholder i) s (weave j ts) = weave j ts"
proof (induction j ts rule: weave.induct)
  case (2 j t)
  then show ?case using replace_str_copy [of "placeholder i" t s "[]"] by (simp add: unmarked_def placeholder_parts)
next
  case (3 j t t' ts)
  let ?p = "placeholder i" and ?rest = "weave (Suc j) (t' # ts)"
  have p: "?p \<noteq> []" "hd ?p = SOH" by (simp_all add: placeholder_parts)
  have "replace_str ?p s (t @ placeholder j @ ?rest) = t @ replace_str ?p s (placeholder j @ ?rest)"
    using 3 p by (intro replace_str_copy) (simp_all add: unmarked_def)
  also have "placeholder j @ ?rest = SOH # (interior j @ [STX]) @ ?rest" by (simp add: placeholder_parts)
  also have "replace_str ?p s \<dots> = SOH # replace_str ?p s ((interior j @ [STX]) @ ?rest)"
    using placeholder_other [of j ?rest i] 3(3) by (intro replace_str_miss) (auto simp: placeholder_parts)
  also have "replace_str ?p s ((interior j @ [STX]) @ ?rest) = (interior j @ [STX]) @ replace_str ?p s ?rest"
    using p interior_plain [of j] by (intro replace_str_copy) simp_all
  also have "replace_str ?p s ?rest = ?rest" using 3 by (simp add: unmarked_def)
  finally show ?case by (simp add: placeholder_parts)
qed simp

lemma restore_weave:
  assumes "length ts = Suc (length slots)" "unmarked ts" "unmarked slots" "SOH \<notin> set pre"
  shows "restore_from i slots (pre @ weave i ts) = pre @ interleave ts slots"
  using assms
proof (induction slots arbitrary: i ts pre)
  case Nil
  then obtain t where "ts = [t]" by (cases ts) auto
  then show ?case by simp
next
  case (Cons s slots)
  then obtain t ts1 where ts: "ts = t # ts1" "length ts1 = Suc (length slots)" by (cases ts) auto
  let ?p = "placeholder i"
  have p: "?p \<noteq> []" "hd ?p = SOH" by (simp_all add: placeholder_parts)
  have "ts1 \<noteq> []" using ts(2) by auto
  then have w: "pre @ weave i ts = (pre @ t) @ ?p @ weave (Suc i) ts1" by (simp add: ts weave_Cons placeholder_parts)
  have "replace_str ?p s ((pre @ t) @ ?p @ weave (Suc i) ts1) = (pre @ t) @ s @ weave (Suc i) ts1"
    using Cons.prems ts p by (subst replace_str_copy) (simp_all add: replace_str_hit replace_other_marks unmarked_def)
  then have "restore_from i (s # slots) (pre @ weave i ts) = restore_from (Suc i) slots ((pre @ t @ s) @ weave (Suc i) ts1)"
    unfolding w by simp
  also have "\<dots> = (pre @ t @ s) @ interleave ts1 slots"
    using Cons.prems ts by (intro Cons.IH) (simp_all add: unmarked_def)
  finally show ?case by (simp add: ts)
qed

lemma protect_parses: "\<exists>r. parse_re PROTECT = Some r"
  unfolding not_None_eq [symmetric] by code_simp

section \<open>The whole pipeline\<close>

text \<open>A pass keeps the number of gaps between the placeholders.\<close>

lemma pass_weave:
  assumes "rewritten s s'" "s = weave i ts" "ts \<noteq> []" "unmarked ts"
  obtains ts' where "length ts' = length ts" "unmarked ts'" "s' = weave i ts'" "ts' \<noteq> []"
proof -
  from rewritten_weave [OF assms(1), of "[]" i ts] assms(2-4) obtain ts' where
    "length ts' = length ts" "unmarked ts'" "s' = weave i ts'" by (auto simp: tail_of_mark_def)
  moreover from this(1) assms(3) have "ts' \<noteq> []" by auto
  ultimately show ?thesis using that by blast
qed

lemma spares_punctuation:
  "spares_rule (EXTRA_PERIODS, ''...'')" "spares_rule (EXTRA_EXCLAMATION, ''!'')" "spares_rule (EXTRA_QUESTION, ''?'')"
  "spares_rule (MULTI_SPACE, '' '')" "spares_rule (MULTI_NEWLINE, [NL, NL])"
  by code_simp+

lemma universal_passes_weave:
  assumes "follows_docs uw (te_regex te)" "s = weave i ts" "ts \<noteq> []" "unmarked ts"
  obtains ts' where "length ts' = length ts" "unmarked ts'" "apply_universal_passes te s = weave i ts'"
proof -
  note R = replace_all_rewritten [OF assms(1)]
  obtain t1 where 1: "length t1 = length ts" "unmarked t1" "replace_all (te_regex te) MULTI_SPACE s '' '' = weave i t1" "t1 \<noteq> []"
    using pass_weave [OF R [OF spares_punctuation(4)] assms(2-4)] by blast
  obtain t2 where 2: "length t2 = length ts" "unmarked t2" "replace_all (te_regex te) MULTI_NEWLINE (weave i t1) [NL, NL] = weave i t2" "t2 \<noteq> []"
    using pass_weave [OF R [OF spares_punctuation(5)] refl 1(4,2)] 1(1) by metis
  obtain t3 where 3: "length t3 = length ts" "unmarked t3" "dedup_immediate_words te (weave i t2) = weave i t3" "t3 \<noteq> []"
    using pass_weave [OF dedup_immediate_words_rewritten refl 2(4,2)] 2(1) by metis
  obtain t4 where 4: "length t4 = length ts" "unmarked t4" "replace_all (te_regex te) EXTRA_PERIODS (weave i t3) ''...'' = weave i t4" "t4 \<noteq> []"
    using pass_weave [OF R [OF spares_punctuation(1)] refl 3(4,2)] 3(1) by metis
  obtain t5 where 5: "length t5 = length ts" "unmarked t5" "replace_all (te_regex te) EXTRA_EXCLAMATION (weave i t4) ''!'' = weave i t5" "t5 \<noteq> []"
    using pass_weave [OF R [OF spares_punctuation(2)] refl 4(4,2)] 4(1) by metis
  obtain t6 where 6: "length t6 = length ts" "unmarked t6" "replace_all (te_regex te) EXTRA_QUESTION (weave i t5) ''?'' = weave i t6"
    using pass_weave [OF R [OF spares_punctuation(3)] refl 5(4,2)] 5(1) by metis
  show ?thesis
    by (rule that [of t6]) (simp_all add: 6 apply_universal_passes_def trim_redundant_punctuation_def 1(3) 2(3) 3(3) 4(3) 5(3))
qed

lemma set_replace_all: "set (replace_all rx p t repl) \<subseteq> set t \<union> set repl"
proof -
  have "set (group_text t m k) \<subseteq> set t" for m k using set_between by (auto simp: group_text_def split: option.splits)
  then have "set (expand (length repl + 1) t m repl) \<subseteq> set t \<union> set repl" for m using set_expand by fastforce
  then have "set (replace_matches t (\<lambda>m. expand (length repl + 1) t m repl) i ms) \<subseteq> set t \<union> set repl" for i ms
    by (induction ms arbitrary: i) (auto dest: set_between [THEN subsetD] in_set_dropD)
  then show ?thesis by (simp add: replace_all_def)
qed

lemma redacted_unmarked: "SOH \<notin> set input \<Longrightarrow> SOH \<notin> set (redact_secrets rx input)"
proof -
  have *: "list_all (\<lambda>(kind, p). SOH \<notin> set kind) ps \<Longrightarrow> SOH \<notin> set s \<Longrightarrow>
    SOH \<notin> set (foldl (\<lambda>out (kind, regex). replace_all rx regex out (''<REDACTED:'' @ kind @ ''>'')) s ps)" for ps s
  proof (induction ps arbitrary: s)
    case (Cons q ps)
    obtain kind p where q: "q = (kind, p)" by fastforce
    have "SOH \<notin> set (replace_all rx p s (''<REDACTED:'' @ kind @ ''>''))"
      using set_replace_all [of rx p s "''<REDACTED:'' @ kind @ ''>''"] Cons.prems q by auto
    then show ?case using Cons q by simp
  qed simp
  have "list_all (\<lambda>(kind, p). SOH \<notin> set kind) PATTERNS" by (simp add: PATTERNS_def)
  then show "SOH \<notin> set input \<Longrightarrow> SOH \<notin> set (redact_secrets rx input)" unfolding redact_secrets_def by (rule *)
qed

text \<open>
  C4 (protected_spans_survive): code, URLs, quoted strings, paths and file names pass through the
  rewriter unchanged. With an engine that does what its documentation says, at every level, for every
  language detected, and on any input without the control character the placeholders start with, the
  redacted text is a sequence of protected spans with text between them, and the result is the same
  spans, verbatim and in the same order, with rewritten text between them.
\<close>

theorem protected_spans_survive:
  assumes "follows_docs uw (te_regex te)" "SOH \<notin> set input"
  defines "redacted \<equiv> redact_secrets (te_regex te) input"
  defines "spans \<equiv> snd (stash_protected (te_regex te) redacted)"
  shows "\<exists>outside outside'. length outside = length spans + 1 \<and> length outside' = length spans + 1 \<and>
    redacted = interleave outside spans \<and> compress te level input = interleave outside' spans"
proof -
  obtain r where "parse_re PROTECT = Some r" using protect_parses by blast
  then have ms: "te_regex te PROTECT redacted = find_all uw r redacted" using assms(1) by (simp add: follows_docs_def)
  let ?ms = "find_all uw r redacted"
  have spans: "spans = map (\<lambda>m. between redacted (m_start m) (m_end m)) ?ms"
    by (simp add: spans_def stash_protected_def ms Let_def)
  have st: "stash_protected (te_regex te) redacted = (weave 0 (gaps redacted 0 ?ms), spans)"
    by (simp add: stash_protected_def ms Let_def stash_weave spans)
  have clean: "SOH \<notin> set redacted" using redacted_unmarked [OF assms(2)] by (simp add: redacted_def)
  then have g: "unmarked (gaps redacted 0 ?ms)" "gaps redacted 0 ?ms \<noteq> []" by (simp_all add: unmarked_gaps gaps_shape)
  have "unmarked spans" using clean set_between [of redacted] by (auto simp: spans unmarked_def list_all_iff)
  let ?lang = "detect_language te redacted"
  let ?out1 = "if should_apply_english_rules ?lang redacted
    then apply_rules (te_regex te) (english_rules_for level) (weave 0 (gaps redacted 0 ?ms)) else weave 0 (gaps redacted 0 ?ms)"
  obtain t1 where 1: "length t1 = length (gaps redacted 0 ?ms)" "unmarked t1" "?out1 = weave 0 t1"
    using apply_rules_rewritten [OF assms(1) english_rules_spare g refl, of level] g by (cases "should_apply_english_rules ?lang redacted") auto
  then have ne: "t1 \<noteq> []" using g(2) by auto
  let ?pack = "if applies_language_pack level then Option.bind ?lang language_pack_for else None"
  let ?out2 = "case ?pack of Some pack \<Rightarrow> apply_language_pack te ?out1 pack | None \<Rightarrow> ?out1"
  obtain t2 where 2: "length t2 = length t1" "unmarked t2" "?out2 = weave 0 t2" "t2 \<noteq> []"
  proof (cases ?pack)
    case None
    then show ?thesis using that [of t1] 1 ne by simp
  next
    case (Some pack)
    then have "spares_pack pack" by (auto simp: bind_eq_Some_conv dest: language_pack_spares split: if_splits)
    from pass_weave [OF apply_language_pack_rewritten [OF this] 1(3) ne 1(2)] show ?thesis using that Some by auto
  qed
  obtain t3 where 3: "length t3 = length t2" "unmarked t3" "apply_universal_passes te ?out2 = weave 0 t3"
    using universal_passes_weave [OF assms(1) 2(3,4,2)] by blast
  have c: "compress te level input = restore_protected (apply_universal_passes te ?out2) spans"
    by (simp add: compress_def Let_def redacted_def [symmetric] st)
  have l: "length t3 = Suc (length spans)" using 1(1) 2(1) 3(1) by (simp add: spans gaps_shape)
  have "compress te level input = interleave t3 spans"
    using restore_weave [OF l 3(2) \<open>unmarked spans\<close>, of "[]" 0] by (simp add: c 3(3) restore_protected_def)
  moreover have "redacted = interleave (gaps redacted 0 ?ms) spans"
    using interleave_gaps [OF find_all_in_order(1)] by (simp add: spans)
  ultimately show ?thesis using l by (intro exI [of _ "gaps redacted 0 ?ms"] exI [of _ t3]) (simp add: gaps_shape spans)
qed

definition sample_env :: text_env where
  "sample_env = \<lparr>te_regex = documented (\<lambda>_. False), te_detect = (\<lambda>_. None), te_alphanumeric = (\<lambda>_. False),
     te_lowercase = to_ascii_lowercase\<rparr>"

definition sample_text :: string where
  "sample_text = ''just see `the the error` now''"

theorem protected_spans_survive_witness:
  "let spans = snd (stash_protected (te_regex sample_env) (redact_secrets (te_regex sample_env) sample_text)) in
     \<exists>outside outside'. length outside = length spans + 1 \<and> length outside' = length spans + 1 \<and>
       redact_secrets (te_regex sample_env) sample_text = interleave outside spans \<and>
       compress sample_env Lite sample_text = interleave outside' spans"
  unfolding Let_def
proof (rule protected_spans_survive)
  show "follows_docs (\<lambda>_. False) (te_regex sample_env)" by (simp add: sample_env_def)
  show "SOH \<notin> set sample_text" by code_simp
qed

text \<open>
  The guarantee needs that condition. On a text that holds the bytes of a
  placeholder, stashing and restoring alone is not the identity: the forged placeholder becomes a
  second copy of a span that stood elsewhere.
\<close>

lemma placeholder_forged:
  "let input = placeholder 0 @ '' = `x`''; (held, slots) = stash_protected (documented (\<lambda>_. False)) input in
     slots = [''`x`''] \<and> restore_protected held slots = ''`x` = `x`''"
  by code_simp

section \<open>The XML framing\<close>

text \<open>A reader of consecutive CDATA sections, inside the first one.\<close>

function cdata_text :: "string \<Rightarrow> string option" where
  "cdata_text s = (case s of
     [] \<Rightarrow> None
   | c # t \<Rightarrow>
       if starts_with s '']]>'' then
         (if drop 3 s = [] then Some []
          else if starts_with (drop 3 s) ''<![CDATA['' then cdata_text (drop 12 s) else None)
       else map_option (Cons c) (cdata_text t))"
  by pat_completeness auto
termination
  by (relation "measure length") auto

declare cdata_text.simps [simp del]

lemma cdata_text_char: "\<not> starts_with (c # t) '']]>'' \<Longrightarrow> cdata_text (c # t) = map_option (Cons c) (cdata_text t)"
  by (subst cdata_text.simps) (simp only: list.case if_False)

lemma replace_str_start:
  assumes "replace_str p r s = x # y" "r = d # r'" "d \<noteq> x"
  shows "\<exists>t. s = x # t"
proof (cases s)
  case (Cons a l)
  have "replace_str p r (a # l) = (if p \<noteq> [] \<and> starts_with (a # l) p then r @ replace_str p r (drop (length p) (a # l))
      else a # replace_str p r l)" by (subst replace_str.simps) simp
  then show ?thesis using assms Cons by (auto split: if_splits)
qed (use assms in simp)

lemma cdata_escape: "cdata_text (xml_escape s @ '']]>'') = Some s"
  unfolding xml_escape_def
proof (induction "'']]>''" "'']]]]><![CDATA[>''" s rule: replace_str.induct)
  case (1 s)
  let ?r = "replace_str '']]>'' '']]]]><![CDATA[>''"
  show ?case
  proof (cases "starts_with s '']]>''")
    case True
    then obtain t where t: "s = '']]>'' @ t" by (auto simp: starts_with_iff)
    have "?r s = '']]]]><![CDATA[>'' @ ?r t" unfolding t by (rule replace_str_hit) simp
    moreover have "cdata_text (?r t @ '']]>'') = Some t" using 1(1) [of "CHR '']''" "'']>'' @ t"] t by simp
    ultimately show ?thesis using t by (simp add: cdata_text.simps [of "_ # _"])
  next
    case False
    show ?thesis
    proof (cases s)
      case Nil
      then show ?thesis by (simp add: cdata_text.simps)
    next
      case (Cons c t)
      have r: "?r s = c # ?r t" using False Cons by (simp add: replace_str_miss)
      have "\<not> starts_with (c # ?r t @ '']]>'') '']]>''"
      proof
        assume "starts_with (c # ?r t @ '']]>'') '']]>''"
        then have c: "c = CHR '']''" and h: "starts_with (?r t @ '']]>'') '']>''" by simp_all
        have nt: "\<not> starts_with t '']]>''"
        proof
          assume "starts_with t '']]>''"
          then obtain v where "t = '']]>'' @ v" by (auto simp: starts_with_iff)
          then have "?r t = '']]]]><![CDATA[>'' @ ?r v"
            using replace_str_hit [of "'']]>''" "'']]]]><![CDATA[>''" v] by simp
          then show False using h by simp
        qed
        obtain u where u: "t = CHR '']'' # u" "?r t = CHR '']'' # ?r u"
          using nt h by (cases t) (auto simp: replace_str_miss)
        then have "starts_with (?r u @ '']]>'') ''>''" using h by simp
        then obtain y where "?r u = CHR ''>'' # y" by (cases "?r u") auto
        from replace_str_start [OF this refl] obtain w where "u = CHR ''>'' # w" by auto
        then show False using False Cons c u by simp
      qed
      moreover have "cdata_text (?r t @ '']]>'') = Some t" using 1(2) [OF Cons] False by simp
      ultimately have "cdata_text (c # ?r t @ '']]>'') = Some (c # t)"
        by (metis cdata_text_char option.map(2))
      then show ?thesis unfolding r append_Cons by (simp only: Cons)
    qed
  qed
qed

text \<open>
  Whatever the rewriter produced, a reader of the XML framing gets exactly that
  text back; a section terminator inside it does not end the framing early.
\<close>

lemma xml_framing_roundtrip:
  "\<exists>section_text. compress_to to_json te level input Xml =
       ''<rtrt level='' @ [CHR 0x22] @ level_slug level @ [CHR 0x22] @ ''><![CDATA['' @ section_text @ ''</rtrt>'' \<and>
     cdata_text section_text = Some (compress te level input)"
  by (intro exI [of _ "xml_escape (compress te level input) @ '']]>''"]) (simp add: compress_to_def Let_def cdata_escape)

end
