(* ===== verification/Compress_Ml.thy ===== *)
theory Compress_Ml
  imports Compress Core_Error "HOL-Library.Sublist"
begin

text \<open>
  \<^verbatim>\<open>crates/rtrt-compress/src/ml.rs\<close>: token-dropping compression. A scorer rates the words of a
  text and the lowest-rated ones are dropped until the requested share is left. Single-precision
  floats are rationals rounded to 24 bits. Facts (negations, numbers, error codes) outrank every
  other word, so none is dropped while a word without facts is kept.
\<close>

section \<open>Single precision\<close>

definition fl32 :: "rat \<Rightarrow> rat" where
  "fl32 x = (if x = 0 then 0
     else let u = 2 powi (flog2 \<bar>x\<bar> - 23) in sgn x * of_int (round_even (\<bar>x\<bar> / u)) * u)"

lemma fl32_bound:
  assumes "0 \<le> x"
  shows "0 \<le> fl32 x" "x < 2 \<Longrightarrow> fl32 x \<le> x + 1 / 2 ^ 23"
proof -
  let ?u = "(2 :: rat) powi (flog2 x - 23)"
  have u: "0 < ?u" by simp
  have "0 \<le> round_even (x / ?u)" using round_even_bounds(1) [of "x / ?u"] assms u by (simp add: order_trans [of 0 "\<lfloor>x / ?u\<rfloor>"])
  then show "0 \<le> fl32 x" using assms by (simp add: fl32_def Let_def)
  assume x: "x < 2"
  show "fl32 x \<le> x + 1 / 2 ^ 23"
  proof (cases "x = 0")
    case False
    with assms have pos: "0 < x" by simp
    have "flog2 x < 1"
    proof (rule ccontr)
      assume "\<not> flog2 x < 1"
      then have "(2 :: rat) powi 1 \<le> 2 powi flog2 x" by (intro power_int_increasing) auto
      then show False using flog2_bounds(1) [OF pos] x by simp
    qed
    then have "?u \<le> 2 powi (- 23)" by (intro power_int_increasing) auto
    moreover have "(2 :: rat) powi (- 23) = 1 / 2 ^ 23" by (simp add: power_int_def power_divide)
    ultimately have le: "?u \<le> 1 / 2 ^ 23" by (simp only:)
    have "of_int (round_even (x / ?u)) \<le> of_int \<lfloor>x / ?u\<rfloor> + (1 :: rat)" using round_even_bounds(2) [of "x / ?u"] by linarith
    also have "\<dots> \<le> x / ?u + 1" by simp
    finally have "of_int (round_even (x / ?u)) * ?u \<le> (x / ?u + 1) * ?u" using u by (intro mult_right_mono) auto
    also have "\<dots> = x + ?u" using u by (simp add: field_simps)
    finally show ?thesis using pos le by (simp add: fl32_def Let_def)
  qed (simp add: fl32_def)
qed

section \<open>The target\<close>

text \<open>\<open>show_f32\<close> prints a float. A target is the ratio it holds.\<close>

definition compression_target_new :: "(f64_val \<Rightarrow> string) \<Rightarrow> f64_val \<Rightarrow> error + rat" where
  "compression_target_new show_f32 ratio = (case ratio of
     Fin r \<Rightarrow> if fl32 (5 / 100) \<le> r \<and> r \<le> 1 then Inr r
       else Inl (Config (''compression ratio must be in (0.05, 1.0], got '' @ show_f32 ratio))
   | _ \<Rightarrow> Inl (Config (''compression ratio must be in (0.05, 1.0], got '' @ show_f32 ratio)))"

section \<open>Scores\<close>

definition NEGATIONS :: "string list" where
  "NEGATIONS = [''not'', ''no'', ''never'', ''don't'', ''doesn't'', ''didn't'', ''won't'', ''can't'', ''cannot'', ''shouldn't'',
     ''mustn't'', ''isn't'', ''aren't'', ''wasn't'', ''weren't'', ''without'', ''unless'', ''nor'', ''neither'']"

definition HARD_KEEP_SCORE :: rat where "HARD_KEEP_SCORE = 2"

definition trim_to_word :: "string \<Rightarrow> string" where
  "trim_to_word s = (let outer = (\<lambda>c. \<not> (is_ascii_alpha c \<or> is_ascii_digit c \<or> c = CHR 0x27)) in
     rev (dropWhile outer (rev (dropWhile outer s))))"

definition is_hard_keep :: "string \<Rightarrow> bool" where
  "is_hard_keep token =
     (if list_ex is_ascii_digit token then True
      else let lower' = replace_str [CHR 0xE2, CHR 0x80, CHR 0x99] [CHR 0x27] (to_ascii_lowercase token) in
        trim_to_word lower' \<in> set NEGATIONS)"

definition is_alphanumeric :: "(string \<Rightarrow> bool) \<Rightarrow> string \<Rightarrow> bool" where
  "is_alphanumeric alnum ch = (case ch of
     [c] \<Rightarrow> is_ascii_alpha c \<or> is_ascii_digit c
   | _ \<Rightarrow> ch \<noteq> [] \<and> list_all (\<lambda>c. 128 \<le> byte c) ch \<and> alnum ch)"

definition heuristic_token_score :: "(string \<Rightarrow> bool) \<Rightarrow> string \<Rightarrow> rat" where
  "heuristic_token_score alnum t =
     (if is_hard_keep t then HARD_KEEP_SCORE
      else let len = fl32 (of_nat (chars_count t));
               has_upper = (if list_ex (\<lambda>c. 65 \<le> byte c \<and> byte c \<le> 90) t then 1 else 0);
               punct_only = (if list_all (\<lambda>ch. \<not> is_alphanumeric alnum ch) (chars t) then 1 else 0)
           in fl32 (fl32 (min 1 (max 0 (fl32 (len / 10))) + fl32 (has_upper * fl32 (2 / 10))) * (1 - punct_only)))"

type_synonym token_importance = "string list \<Rightarrow> rat list"

definition heuristic_importance :: "(string \<Rightarrow> bool) \<Rightarrow> token_importance" where
  "heuristic_importance alnum = map (heuristic_token_score alnum)"

section \<open>Dropping tokens\<close>

definition target_count_of :: "nat \<Rightarrow> rat \<Rightarrow> nat" where
  "target_count_of n ratio = max 1 (nat \<lceil>fl32 (fl32 (of_nat n) * ratio)\<rceil>)"

text \<open>The indices \<^verbatim>\<open>0..\<close> with their scores, the highest first, ties in order.\<close>

definition ranked_scores :: "rat list \<Rightarrow> (nat \<times> rat) list" where
  "ranked_scores scores = sort_by (\<lambda>a b. cmp (snd b) (snd a)) (zip [0..<length scores] scores)"

text \<open>\<^const>\<open>None\<close> is the panic of a scorer that rates more tokens than it was given.\<close>

definition ml_compress :: "token_importance \<Rightarrow> string \<Rightarrow> rat \<Rightarrow> string option" where
  "ml_compress score input ratio = (let tokens = split_whitespace input in
     if tokens = [] then Some []
     else let target_count = target_count_of (length tokens) ratio in
       if length tokens \<le> target_count then Some input
       else let picked = map fst (take target_count (ranked_scores (score tokens))) in
         if list_ex (\<lambda>i. length tokens \<le> i) picked then None
         else Some (join '' '' (map ((!) tokens) (filter (\<lambda>i. i \<in> set picked) [0..<length tokens]))))"

section \<open>What is kept\<close>

lemma score_below:
  assumes "0 \<le> a" "a \<le> 1" "h = 0 \<or> h = 1" "p = 0 \<or> p = 1"
  shows "fl32 (fl32 (a + fl32 (h * fl32 (2 / 10))) * (1 - p)) < 2"
proof -
  have "fl32 (2 / 10) \<le> 1 / 4" "0 \<le> fl32 (2 / 10)" using fl32_bound [of "2 / 10"] by simp_all
  then have "0 \<le> h * fl32 (2 / 10)" "h * fl32 (2 / 10) \<le> 1 / 4" using assms(3) by auto
  then have b: "0 \<le> fl32 (h * fl32 (2 / 10))" "fl32 (h * fl32 (2 / 10)) \<le> 1 / 2" using fl32_bound [of "h * fl32 (2 / 10)"] by auto
  then have "0 \<le> a + fl32 (h * fl32 (2 / 10))" "a + fl32 (h * fl32 (2 / 10)) \<le> 3 / 2" using assms(1,2) by auto
  then have "0 \<le> fl32 (a + fl32 (h * fl32 (2 / 10)))" "fl32 (a + fl32 (h * fl32 (2 / 10))) \<le> 7 / 4"
    using fl32_bound [of "a + fl32 (h * fl32 (2 / 10))"] by auto
  then have "0 \<le> fl32 (a + fl32 (h * fl32 (2 / 10))) * (1 - p)" "fl32 (a + fl32 (h * fl32 (2 / 10))) * (1 - p) \<le> 7 / 4"
    using assms(4) by auto
  then show ?thesis using fl32_bound(2) [of "fl32 (a + fl32 (h * fl32 (2 / 10))) * (1 - p)"] by auto
qed

lemma heuristic_score_below: "\<not> is_hard_keep t \<Longrightarrow> heuristic_token_score alnum t < 2"
  unfolding heuristic_token_score_def Let_def by (simp only: if_False, rule score_below) auto

lemma heuristic_score_hard: "is_hard_keep t \<longleftrightarrow> heuristic_token_score alnum t = 2"
  using heuristic_score_below [of t alnum] by (cases "is_hard_keep t") (simp_all add: heuristic_token_score_def HARD_KEEP_SCORE_def)

interpretation by_score: refines_key "\<lambda>(a :: nat \<times> rat) b. cmp (snd b) (snd a)" "\<lambda>a. - snd a" "\<lambda>_. True"
  by unfold_locales (auto simp: cmp_def split: if_splits)

lemma picked_dominate:
  assumes "i \<in> set (map fst (take k (ranked_scores sc)))" "j < length sc" "j \<notin> set (map fst (take k (ranked_scores sc)))"
  shows "sc ! j \<le> sc ! i"
proof -
  let ?r = "ranked_scores sc"
  have s: "set ?r = set (zip [0..<length sc] sc)" by (simp add: ranked_scores_def)
  have val: "b = sc ! a" if "(a, b) \<in> set ?r" for a b using that unfolding s by (auto simp: in_set_zip)
  have "sorted_wrt (\<lambda>a b. - snd a \<le> - snd b) ?r"
    unfolding ranked_scores_def by (rule by_score.sort_by_key_sorted) (simp add: list_all_iff)
  then have srt: "sorted_wrt (\<lambda>a b. - snd a \<le> - snd b) (take k ?r @ drop k ?r)" by simp
  have "(j, sc ! j) \<in> set ?r" unfolding s using assms(2) by (auto simp: in_set_zip intro!: exI [of _ j])
  then have "(j, sc ! j) \<in> set (take k ?r) \<union> set (drop k ?r)" by (metis append_take_drop_id set_append)
  with assms(3) have j: "(j, sc ! j) \<in> set (drop k ?r)" by (auto simp: image_iff)
  from assms(1) obtain b where b: "(i, b) \<in> set (take k ?r)" by auto
  then have "b = sc ! i" using val in_set_takeD by metis
  moreover have "- b \<le> - (sc ! j)" using srt b j unfolding sorted_wrt_append by fastforce
  ultimately show ?thesis by simp
qed

lemma card_picked: "k \<le> length sc \<Longrightarrow> card (set (map fst (take k (ranked_scores sc)))) = k"
proof -
  assume k: "k \<le> length sc"
  have "mset (map fst (ranked_scores sc)) = mset (map fst (zip [0..<length sc] sc))"
    by (simp only: mset_map ranked_scores_def mset_sort_by)
  also have "map fst (zip [0..<length sc] sc) = [0..<length sc]" by simp
  finally have "distinct (map fst (ranked_scores sc))" by (metis distinct_upt mset_eq_imp_distinct_iff)
  then have "distinct (map fst (take k (ranked_scores sc)))" by (simp add: take_map [symmetric])
  moreover have "length (ranked_scores sc) = length sc" by (simp add: ranked_scores_def)
  ultimately show ?thesis using k distinct_card [of "map fst (take k (ranked_scores sc))"] by simp
qed

lemma picked_below: "set (map fst (take k (ranked_scores sc))) \<subseteq> {..<length sc}"
  by (auto simp: ranked_scores_def in_set_zip dest!: in_set_takeD)

lemma length_filter_nth: "length (filter P xs) = card {i. i < length xs \<and> P (xs ! i)}"
  by (rule length_filter_conv_card)

lemma filter_picked:
  assumes "S \<subseteq> {..<n}"
  shows "length (filter (\<lambda>i. i \<in> S) [0..<n]) = card S"
proof -
  have "{i. i < length [0..<n] \<and> [0..<n] ! i \<in> S} = S" using assms by auto
  then show ?thesis by (simp only: length_filter_nth)
qed

lemma filter_nth_all:
  assumes "\<And>i. i < length xs \<Longrightarrow> P (xs ! i) \<Longrightarrow> Q i"
  shows "filter P (map ((!) xs) (filter Q [0..<length xs])) = filter P xs"
proof -
  have "filter P (map ((!) xs) (filter Q [0..<length xs])) = map ((!) xs) (filter (\<lambda>i. P (xs ! i) \<and> Q i) [0..<length xs])"
    by (simp add: filter_map comp_def conj_commute)
  also have "filter (\<lambda>i. P (xs ! i) \<and> Q i) [0..<length xs] = filter (\<lambda>i. P (xs ! i)) [0..<length xs]"
    using assms by (intro filter_cong) auto
  also have "map ((!) xs) \<dots> = filter P (map ((!) xs) [0..<length xs])" by (simp add: filter_map comp_def)
  finally show ?thesis by (simp add: map_nth)
qed

lemma subseq_nth_filter: "subseq (map ((!) xs) (filter Q [0..<length xs])) xs"
  using subseq_map [OF subseq_filter_left, of "(!) xs" Q "[0..<length xs]"] by (simp add: map_nth)

text \<open>
  C7 (facts_outlast_prose): dropping tokens keeps the order of the rest and exactly the number of tokens
  the ratio asks for; facts (negations, numbers, error codes) all survive when they fit into that number, and
  otherwise nothing but facts survives, so a fact is never dropped in favour of prose.
\<close>

theorem facts_outlast_prose:
  assumes "split_whitespace input = tokens" "target_count_of (length tokens) ratio = k" "k < length tokens"
  shows "\<exists>kept. ml_compress (heuristic_importance alnum) input ratio = Some (join '' '' kept) \<and> subseq kept tokens \<and> length kept = k \<and>
    (if length (filter is_hard_keep tokens) \<le> k then filter is_hard_keep kept = filter is_hard_keep tokens
     else list_all is_hard_keep kept)"
proof -
  let ?sc = "heuristic_importance alnum tokens"
  let ?S = "set (map fst (take k (ranked_scores ?sc)))"
  let ?kept = "map ((!) tokens) (filter (\<lambda>i. i \<in> ?S) [0..<length tokens])"
  let ?H = "{i. i < length tokens \<and> is_hard_keep (tokens ! i)}"
  have n: "length ?sc = length tokens" by (simp add: heuristic_importance_def)
  have sc: "?sc ! i = heuristic_token_score alnum (tokens ! i)" if "i < length tokens" for i using that by (simp add: heuristic_importance_def)
  have S: "?S \<subseteq> {..<length tokens}" "card ?S = k" using picked_below [of k ?sc] card_picked [of k ?sc] assms(3) by (simp_all only: n less_imp_le)
  have "\<not> list_ex (\<lambda>i. length tokens \<le> i) (map fst (take k (ranked_scores ?sc)))" using S(1) by (auto simp: list_ex_iff)
  then have run: "ml_compress (heuristic_importance alnum) input ratio = Some (join '' '' ?kept)"
    using assms by (auto simp: ml_compress_def Let_def)
  have len: "length ?kept = k" using filter_picked [OF S(1)] S(2) by simp
  have hard: "is_hard_keep (tokens ! j) \<Longrightarrow> is_hard_keep (tokens ! i)" if "i \<in> ?S" "j < length tokens" "j \<notin> ?S" for i j
  proof -
    assume "is_hard_keep (tokens ! j)"
    then have "2 \<le> heuristic_token_score alnum (tokens ! i)"
      using picked_dominate [of i k ?sc j] that n sc S(1) heuristic_score_hard [of "tokens ! j" alnum] by (auto simp: subset_iff)
    then show ?thesis using heuristic_score_below [of "tokens ! i" alnum] by linarith
  qed
  have cH: "length (filter is_hard_keep tokens) = card ?H" by (rule length_filter_nth)
  have fin: "finite ?S" "finite ?H" by simp_all
  have "if length (filter is_hard_keep tokens) \<le> k then filter is_hard_keep ?kept = filter is_hard_keep tokens else list_all is_hard_keep ?kept"
  proof (cases "card ?H \<le> k")
    case True
    have "?H \<subseteq> ?S"
    proof
      fix j assume j: "j \<in> ?H"
      show "j \<in> ?S"
      proof (rule ccontr)
        assume nj: "j \<notin> ?S"
        then have "insert j ?S \<subseteq> ?H" using j hard [of _ j] S(1) by auto
        then have "card (insert j ?S) \<le> card ?H" by (intro card_mono fin(2))
        moreover have "card (insert j ?S) = Suc k" unfolding card_insert_disjoint [OF fin(1) nj] S(2) ..
        ultimately show False using True by simp
      qed
    qed
    then have "filter is_hard_keep ?kept = filter is_hard_keep tokens" by (intro filter_nth_all) auto
    then show ?thesis using True cH by simp
  next
    case False
    have "?S \<subseteq> ?H"
    proof
      fix i assume i: "i \<in> ?S"
      show "i \<in> ?H"
      proof (rule ccontr)
        assume ni: "i \<notin> ?H"
        then have "?H \<subseteq> ?S - {i}" using hard [OF i] i S(1) by auto
        then have "card ?H \<le> card (?S - {i})" by (intro card_mono finite_Diff fin(1))
        also have "\<dots> \<le> card ?S" by (rule card_Diff1_le)
        finally show False using False S(2) by simp
      qed
    qed
    then have "list_all is_hard_keep ?kept" by (auto simp: list_all_iff)
    then show ?thesis using False cH by simp
  qed
  then show ?thesis using run len subseq_nth_filter [of tokens] by (intro exI [of _ ?kept]) blast
qed

theorem facts_outlast_prose_witness:
  "\<exists>kept. ml_compress (heuristic_importance (\<lambda>_. False)) ''please do not delete the database'' (1 / 2) = Some (join '' '' kept) \<and>
    subseq kept [''please'', ''do'', ''not'', ''delete'', ''the'', ''database''] \<and> length kept = 3 \<and>
    filter is_hard_keep kept = [''not'']"
proof -
  let ?t = "[''please'', ''do'', ''not'', ''delete'', ''the'', ''database'']"
  have 1: "split_whitespace ''please do not delete the database'' = ?t" by code_simp
  have 2: "target_count_of (length ?t) (1 / 2) = 3" by code_simp
  have 3: "filter is_hard_keep ?t = [''not'']" by code_simp
  show ?thesis using facts_outlast_prose [OF 1 2, of "\<lambda>_. False"] unfolding 3 by simp
qed

end
