(* ===== verification/Spool.thy ===== *)
theory Spool
  imports Core_Error Btree "HOL-Library.Word"
begin

text \<open>
  The sending side of event forwarding (\<^verbatim>\<open>crates/rtrt-cli/src/forward.rs\<close> and
  \<^verbatim>\<open>forward/spool.rs\<close>): a guest queues events in a private SQLite file, posts them to the
  collector and removes a row only for a proper acknowledgement. The table is the list of its rows
  in rowid order; like the memory store, the connection carries a schedule of failures, one entry
  per statement. JSON is an argument (\<open>serde\<close>), and so is the endpoint: a function from a request
  and a world to an answer and a world.
\<close>

section \<open>Wire events\<close>

record wire_event =
  we_event_id :: string
  we_guest_id :: string
  we_project :: string
  we_kind :: string
  we_body :: string
  we_session_id :: "string option"
  we_metadata :: "(string, string) btree option"

record guest_project =
  gp_guest_id :: string
  gp_project :: string

definition pair_of :: "wire_event \<Rightarrow> guest_project" where
  "pair_of e = \<lparr>gp_guest_id = we_guest_id e, gp_project = we_project e\<rparr>"

text \<open>
  What the code uses of \<^verbatim>\<open>serde_json\<close>: the value and the text of an event, reading a value, an
  event, an acknowledgement and a metadata map, whether a text that is no event fails as data rather
  than as syntax; and the reason phrase of a status code.
\<close>

record 'v serde =
  sd_to_value :: "wire_event \<Rightarrow> 'v"
  sd_to_string :: "wire_event \<Rightarrow> string"
  sd_value_of :: "string \<Rightarrow> 'v option"
  sd_event_of :: "string \<Rightarrow> wire_event option"
  sd_ack_string :: "int \<Rightarrow> bool \<Rightarrow> string"
  sd_ack_of :: "string \<Rightarrow> (int \<times> bool) option"
  sd_data_error :: "string \<Rightarrow> bool"
  sd_metadata_of :: "string \<Rightarrow> string + (string, string) btree"
  sd_status_text :: "nat \<Rightarrow> string"

text \<open>The documented behaviour: reading back what was written gives the same thing.\<close>

definition serde_documented :: "'v serde \<Rightarrow> bool" where
  "serde_documented sd \<longleftrightarrow>
     (\<forall>e. sd_event_of sd (sd_to_string sd e) = Some e) \<and>
     (\<forall>e. sd_value_of sd (sd_to_string sd e) = Some (sd_to_value sd e)) \<and>
     (\<forall>i b. sd_ack_of sd (sd_ack_string sd i b) = Some (i, b))"

text \<open>\<^verbatim>\<open>char::is_control\<close>: the C0 and C1 controls and DEL, on UTF-8 bytes.\<close>

fun any_control :: "string \<Rightarrow> bool" where
  "any_control [] = False"
| "any_control [c] = (byte c < 32 \<or> byte c = 127)"
| "any_control (c # d # s) =
     (byte c < 32 \<or> byte c = 127 \<or> (byte c = 194 \<and> 128 \<le> byte d \<and> byte d < 160) \<or> any_control (d # s))"

definition valid_identifier :: "string \<Rightarrow> bool" where
  "valid_identifier v \<longleftrightarrow> trim v \<noteq> [] \<and> \<not> any_control v"

definition MAX_BODY_BYTES :: nat where "MAX_BODY_BYTES = 1024 * 1024"

definition validate :: "'v serde \<Rightarrow> wire_event \<Rightarrow> string + unit" where
  "validate sd e =
     (if \<not> valid_identifier (we_event_id e) \<or> \<not> valid_identifier (we_guest_id e) \<or>
        \<not> valid_identifier (we_project e) \<or> \<not> valid_identifier (we_kind e) \<or>
        (case we_session_id e of None \<Rightarrow> False | Some v \<Rightarrow> \<not> valid_identifier v)
      then Inl ''event identifiers must be non-empty and contain no controls''
      else if we_body e = [] \<or> MAX_BODY_BYTES < length (sd_to_string sd e)
      then Inl ''serialized event must be non-empty and at most 1 MiB''
      else Inr ())"

definition validate_token :: "string \<Rightarrow> string + unit" where
  "validate_token t = (if \<not> valid_identifier t \<or> trim t \<noteq> t
     then Inl ''collector token must be non-empty and contain no control characters'' else Inr ())"

text \<open>In seconds.\<close>

definition retry_delay :: "nat \<Rightarrow> nat" where
  "retry_delay attempts = (if 9 \<le> attempts then 300 else 2 ^ attempts)"

section \<open>The endpoint\<close>

text \<open>The parts of a parsed URL the code looks at; parsing is an argument.\<close>

record url_parts =
  up_scheme :: string
  up_host :: "string option"
  up_username :: string
  up_password :: "string option"
  up_query :: "string option"
  up_fragment :: "string option"

definition trim_end_slashes :: "string \<Rightarrow> string" where
  "trim_end_slashes s = rev (dropWhile (\<lambda>c. c = CHR ''/'') (rev s))"

definition collector_url :: "(string \<Rightarrow> url_parts option) \<Rightarrow> string \<Rightarrow> string + string" where
  "collector_url parse_url endpoint =
     (case parse_url endpoint of
        None \<Rightarrow> Inl ''invalid collector endpoint''
      | Some u \<Rightarrow>
          if up_scheme u \<notin> {''http'', ''https''} \<or> up_host u = None \<or> up_username u \<noteq> [] \<or>
             up_password u \<noteq> None \<or> up_query u \<noteq> None \<or> up_fragment u \<noteq> None
          then Inl ''collector endpoint must be HTTP(S) without credentials, query or fragment''
          else Inr (if ends_with (trim_end_slashes endpoint) ''/v1/events'' then trim_end_slashes endpoint
            else trim_end_slashes endpoint @ ''/v1/events''))"

text \<open>
  \<^verbatim>\<open>client.post(url).bearer_auth(token).json(event)\<close>: a transport error, or a status and a body.
  Redirects are not followed.
\<close>

type_synonym 'w post = "string \<Rightarrow> string \<Rightarrow> string \<Rightarrow> 'w \<Rightarrow> (string + nat \<times> string) \<times> 'w"

definition ack_result :: "'v serde \<Rightarrow> string \<Rightarrow> nat \<times> string \<Rightarrow> string + int \<times> bool" where
  "ack_result sd event_id reply = (case reply of (status, body) \<Rightarrow>
     if \<not> (200 \<le> status \<and> status < 300)
     then Inl (''collector rejected event '' @ event_id @ '' with HTTP '' @ sd_status_text sd status)
     else case sd_ack_of sd body of
       None \<Rightarrow> Inl (''event '' @ event_id @ '' acknowledged with invalid JSON'')
     | Some (memory_id, inserted) \<Rightarrow>
         if memory_id \<le> 0 then Inl (''event '' @ event_id @ '' acknowledged without a positive memory_id'')
         else Inr (memory_id, inserted))"

definition send_one ::
  "'v serde \<Rightarrow> 'w post \<Rightarrow> string \<Rightarrow> string \<Rightarrow> wire_event \<Rightarrow> 'w \<Rightarrow> (string + int \<times> bool) \<times> 'w" where
  "send_one sd post url token e w =
     (case post url token (sd_to_string sd e) w of
        (Inl _, w') \<Rightarrow> (Inl (''post event '' @ we_event_id e @ '' to collector''), w')
      | (Inr reply, w') \<Rightarrow> (ack_result sd (we_event_id e) reply, w'))"

section \<open>The spool\<close>

record spool_row =
  sr_event_id :: string
  sr_payload :: string
  sr_attempts :: nat
  sr_next_attempt_ms :: int

record spool =
  sp_rows :: "spool_row list"
  sp_faults :: "string option list"

text \<open>One statement; \<open>context\<close> is the message that replaces the library's.\<close>

definition on_spool ::
  "string option \<Rightarrow> (spool_row list \<Rightarrow> string + 'a \<times> spool_row list) \<Rightarrow> spool \<Rightarrow> (string + 'a) \<times> spool" where
  "on_spool ctx f s = (let s' = s\<lparr>sp_faults := tl (sp_faults s)\<rparr> in
     case sp_faults s of
       Some msg # _ \<Rightarrow> (Inl (case ctx of None \<Rightarrow> msg | Some c \<Rightarrow> c), s')
     | _ \<Rightarrow> (case f (sp_rows s) of
         Inl msg \<Rightarrow> (Inl msg, s')
       | Inr (x, rows) \<Rightarrow> (Inr x, s'\<lparr>sp_rows := rows\<rparr>)))"

definition spool_then ::
  "(spool \<Rightarrow> (string + 'a) \<times> spool) \<Rightarrow> ('a \<Rightarrow> spool \<Rightarrow> (string + 'b) \<times> spool) \<Rightarrow> spool \<Rightarrow> (string + 'b) \<times> spool" where
  "spool_then m f s = (case m s of (Inl e, s') \<Rightarrow> (Inl e, s') | (Inr x, s') \<Rightarrow> f x s')"

text \<open>Opening the file creates an empty table when there is none; it may fail as a whole.\<close>

definition open_spool :: "spool \<Rightarrow> (string + unit) \<times> spool" where
  "open_spool = on_spool None (\<lambda>rows. Inr ((), rows))"

definition insert_row :: "wire_event \<Rightarrow> string \<Rightarrow> spool_row list \<Rightarrow> string + unit \<times> spool_row list" where
  "insert_row e payload rows =
     (if we_event_id e \<in> set (map sr_event_id rows) then Inl ''enqueue forward event''
      else Inr ((), rows @ [\<lparr>sr_event_id = we_event_id e, sr_payload = payload, sr_attempts = 0, sr_next_attempt_ms = 0\<rparr>]))"

definition find_spooled :: "string \<Rightarrow> spool_row list \<Rightarrow> spool_row option" where
  "find_spooled event_id rows = List.find (\<lambda>r. sr_event_id r = event_id) rows"

definition enqueue :: "'v serde \<Rightarrow> wire_event \<Rightarrow> spool \<Rightarrow> (string + unit) \<times> spool" where
  "enqueue sd e = spool_then
     (on_spool (Some ''inspect queued forward event'')
       (\<lambda>rows. Inr (map_option sr_payload (find_spooled (we_event_id e) rows), rows)))
     (\<lambda>stored s. case stored of
        Some payload \<Rightarrow> (case sd_value_of sd payload of
            None \<Rightarrow> (Inl ''invalid stored forward event'', s)
          | Some v \<Rightarrow> (if v \<noteq> sd_to_value sd e
              then (Inl (''event id '' @ we_event_id e @ '' is already queued with a different payload''), s)
              else (Inr (), s)))
      | None \<Rightarrow> on_spool (Some ''enqueue forward event'') (insert_row e (sd_to_string sd e)) s)"

record pending_event =
  pe_event :: wire_event
  pe_attempts :: nat

datatype selection =
    Due "guest_project option" nat bool
  | Event_id string

text \<open>A stored payload has to decode to a valid event that carries the key of its row.\<close>

definition stored_event :: "'v serde \<Rightarrow> string \<Rightarrow> string \<Rightarrow> string + wire_event" where
  "stored_event sd key payload =
     (case sd_event_of sd payload of
        None \<Rightarrow> Inl ''invalid stored forward event''
      | Some e \<Rightarrow> (case validate sd e of
          Inl msg \<Rightarrow> Inl msg
        | Inr _ \<Rightarrow> if we_event_id e \<noteq> key then Inl ''stored event id differs from spool key'' else Inr e))"

fun select_due ::
  "'v serde \<Rightarrow> guest_project option \<Rightarrow> nat \<Rightarrow> bool \<Rightarrow> int \<Rightarrow> spool_row list \<Rightarrow> pending_event list \<Rightarrow>
     guest_project option \<Rightarrow> string + pending_event list" where
  "select_due sd pair limit force now [] batch first_pair = Inr batch"
| "select_due sd pair limit force now (r # rows) batch first_pair =
     (case stored_event sd (sr_event_id r) (sr_payload r) of
        Inl msg \<Rightarrow> Inl msg
      | Inr e \<Rightarrow>
          if pair = None \<and> (case first_pair of None \<Rightarrow> False | Some p \<Rightarrow> p \<noteq> pair_of e)
          then Inl ''mixed spool requires --guest-id and --project''
          else select_due sd pair limit force now rows
            (if (force \<or> sr_next_attempt_ms r \<le> now) \<and> (case pair of None \<Rightarrow> True | Some p \<Rightarrow> p = pair_of e) \<and>
                length batch < limit
             then batch @ [\<lparr>pe_event = e, pe_attempts = sr_attempts r\<rparr>] else batch)
            (if pair = None \<and> first_pair = None then Some (pair_of e) else first_pair))"

definition I64_LIMIT :: int where "I64_LIMIT = 9223372036854775807"
definition U32_LIMIT :: nat where "U32_LIMIT = 4294967295"

text \<open>The wall clock in milliseconds since 1970.\<close>

definition now_millis :: "int \<Rightarrow> string + int" where
  "now_millis wall = (if wall < 0 then Inl ''second time provided was later than self''
     else if I64_LIMIT < wall then Inl ''out of range integral type conversion attempted'' else Inr wall)"

definition select :: "'v serde \<Rightarrow> int \<Rightarrow> selection \<Rightarrow> spool \<Rightarrow> (string + pending_event list) \<times> spool" where
  "select sd wall selection = (case selection of
     Event_id event_id \<Rightarrow> on_spool None (\<lambda>rows. case find_spooled event_id rows of
         None \<Rightarrow> Inr ([], rows)
       | Some r \<Rightarrow> (case stored_event sd event_id (sr_payload r) of
           Inl msg \<Rightarrow> Inl msg
         | Inr e \<Rightarrow> Inr ([\<lparr>pe_event = e, pe_attempts = sr_attempts r\<rparr>], rows)))
   | Due pair limit force \<Rightarrow> (\<lambda>s. case now_millis wall of
         Inl msg \<Rightarrow> (Inl msg, s)
       | Inr now \<Rightarrow> on_spool None (\<lambda>rows. case select_due sd pair limit force now rows [] None of
           Inl msg \<Rightarrow> Inl msg | Inr batch \<Rightarrow> Inr (batch, rows)) s))"

definition delivered :: "string \<Rightarrow> spool \<Rightarrow> (string + unit) \<times> spool" where
  "delivered event_id = on_spool None (\<lambda>rows. Inr ((), filter (\<lambda>r. sr_event_id r \<noteq> event_id) rows))"

definition retry :: "int \<Rightarrow> string \<Rightarrow> nat \<Rightarrow> spool \<Rightarrow> (string + unit) \<times> spool" where
  "retry wall event_id attempts s = (case now_millis wall of
     Inl msg \<Rightarrow> (Inl msg, s)
   | Inr now \<Rightarrow> let due = min I64_LIMIT (now + int (retry_delay attempts * 1000)) in
       on_spool None (\<lambda>rows. Inr ((), map (\<lambda>r. if sr_event_id r = event_id
         then r\<lparr>sr_attempts := attempts, sr_next_attempt_ms := due\<rparr> else r) rows)) s)"

section \<open>Flushing\<close>

text \<open>What follows a delivery: the row goes, or waits for its next attempt.\<close>

definition settle :: "int \<Rightarrow> bool \<Rightarrow> pending_event \<Rightarrow> spool \<Rightarrow> (string + unit) \<times> spool" where
  "settle wall success item = spool_then open_spool (\<lambda>_.
     if success then delivered (we_event_id (pe_event item))
     else retry wall (we_event_id (pe_event item)) (min U32_LIMIT (pe_attempts item + 1)))"

fun deliver_batch ::
  "'v serde \<Rightarrow> 'w post \<Rightarrow> string \<Rightarrow> string \<Rightarrow> int \<Rightarrow> pending_event list \<Rightarrow> nat \<Rightarrow> nat \<Rightarrow> string option \<Rightarrow>
     spool \<Rightarrow> 'w \<Rightarrow> (string + nat \<times> nat \<times> string option) \<times> spool \<times> 'w" where
  "deliver_batch sd post url token wall [] sent failures last_error s w = (Inr (sent, failures, last_error), s, w)"
| "deliver_batch sd post url token wall (item # batch) sent failures last_error s w =
     (case send_one sd post url token (pe_event item) w of (outcome, w') \<Rightarrow>
      case settle wall (\<not> isl outcome) item s of
        (Inl msg, s') \<Rightarrow> (Inl msg, s', w')
      | (Inr _, s') \<Rightarrow> (case outcome of
          Inr _ \<Rightarrow> deliver_batch sd post url token wall batch (sent + 1) failures last_error s' w'
        | Inl e \<Rightarrow> deliver_batch sd post url token wall batch sent (failures + 1) (Some e) s' w'))"

definition flush_to_url ::
  "'v serde \<Rightarrow> 'w post \<Rightarrow> string \<Rightarrow> string \<Rightarrow> int \<Rightarrow> selection \<Rightarrow> spool \<Rightarrow> 'w \<Rightarrow> (string + nat) \<times> spool \<times> 'w" where
  "flush_to_url sd post url token wall selection s w =
     (case spool_then open_spool (\<lambda>_. select sd wall selection) s of
        (Inl msg, s') \<Rightarrow> (Inl msg, s', w)
      | (Inr batch, s') \<Rightarrow> (case deliver_batch sd post url token wall batch 0 0 None s' w of
          (Inl msg, s'', w') \<Rightarrow> (Inl msg, s'', w')
        | (Inr (sent, failures, last_error), s'', w') \<Rightarrow>
            ((if 0 < failures then Inl (nat_str failures @ '' event(s) remain queued after failed delivery; '' @
                nat_str sent @ '' delivered'' @ (case last_error of Some reason \<Rightarrow> ''; last error: '' @ reason | None \<Rightarrow> []))
              else Inr sent), s'', w')))"

definition flush ::
  "'v serde \<Rightarrow> (string \<Rightarrow> url_parts option) \<Rightarrow> 'w post \<Rightarrow> string \<Rightarrow> string \<Rightarrow> int \<Rightarrow> bool \<Rightarrow> spool \<Rightarrow> 'w \<Rightarrow>
     (string + nat) \<times> spool \<times> 'w" where
  "flush sd parse_url post endpoint token wall force s w =
     (case validate_token token of
        Inl msg \<Rightarrow> (Inl msg, s, w)
      | Inr _ \<Rightarrow> (case collector_url parse_url endpoint of
          Inl msg \<Rightarrow> (Inl msg, s, w)
        | Inr url \<Rightarrow> flush_to_url sd post url token wall (Due None (if force then 1 else 100) force) s w))"

definition flush_pair ::
  "'v serde \<Rightarrow> (string \<Rightarrow> url_parts option) \<Rightarrow> 'w post \<Rightarrow> string \<Rightarrow> string \<Rightarrow> int \<Rightarrow> guest_project \<Rightarrow> spool \<Rightarrow> 'w \<Rightarrow>
     (string + nat) \<times> spool \<times> 'w" where
  "flush_pair sd parse_url post endpoint token wall pair s w =
     (case validate_token token of
        Inl msg \<Rightarrow> (Inl msg, s, w)
      | Inr _ \<Rightarrow>
          if \<not> valid_identifier (gp_guest_id pair) \<or> \<not> valid_identifier (gp_project pair)
          then (Inl ''forward filter requires valid guest and project identifiers'', s, w)
          else (case collector_url parse_url endpoint of
            Inl msg \<Rightarrow> (Inl msg, s, w)
          | Inr url \<Rightarrow> flush_to_url sd post url token wall (Due (Some pair) 100 False) s w))"

record enqueue_args =
  ea_endpoint :: string
  ea_token :: string
  ea_guest_id :: string
  ea_project :: string
  ea_kind :: string
  ea_body :: string
  ea_event_id :: "string option"
  ea_session_id :: "string option"
  ea_metadata :: "string option"

definition event_of_args :: "'v serde \<Rightarrow> string \<Rightarrow> enqueue_args \<Rightarrow> string + wire_event" where
  "event_of_args sd uuid args =
     (let build = (\<lambda>metadata. \<lparr>we_event_id = (case ea_event_id args of Some i \<Rightarrow> i | None \<Rightarrow> uuid),
          we_guest_id = ea_guest_id args, we_project = ea_project args, we_kind = ea_kind args,
          we_body = ea_body args, we_session_id = ea_session_id args, we_metadata = metadata\<rparr>) in
      case ea_metadata args of
        None \<Rightarrow> Inr (build None)
      | Some raw \<Rightarrow> (case sd_metadata_of sd raw of Inl msg \<Rightarrow> Inl msg | Inr m \<Rightarrow> Inr (build (Some m))))"

text \<open>
  \<open>client\<close> is the outcome of building the HTTP client, \<open>uuid\<close> the fresh identifier. The error of an
  immediate delivery is printed, not returned.
\<close>

definition enqueue_and_deliver ::
  "'v serde \<Rightarrow> (string \<Rightarrow> url_parts option) \<Rightarrow> 'w post \<Rightarrow> string + unit \<Rightarrow> string \<Rightarrow> int \<Rightarrow> enqueue_args \<Rightarrow>
     spool \<Rightarrow> 'w \<Rightarrow> (string + string) \<times> spool \<times> 'w" where
  "enqueue_and_deliver sd parse_url post client uuid wall args s w =
     (case validate_token (ea_token args) of Inl msg \<Rightarrow> (Inl msg, s, w) | Inr _ \<Rightarrow>
     (case collector_url parse_url (ea_endpoint args) of Inl msg \<Rightarrow> (Inl msg, s, w) | Inr url \<Rightarrow>
     (case event_of_args sd uuid args of Inl msg \<Rightarrow> (Inl msg, s, w) | Inr e \<Rightarrow>
     (case validate sd e of Inl msg \<Rightarrow> (Inl msg, s, w) | Inr _ \<Rightarrow>
     (case spool_then open_spool (\<lambda>_. enqueue sd e) s of (Inl msg, s') \<Rightarrow> (Inl msg, s', w) | (Inr _, s') \<Rightarrow>
     (case client of Inl msg \<Rightarrow> (Inl msg, s', w) | Inr _ \<Rightarrow>
     (case flush_to_url sd post url (ea_token args) wall (Event_id (we_event_id e)) s' w of
        (_, s'', w') \<Rightarrow> (Inr (we_event_id e), s'', w'))))))))"
section \<open>What the operations do to the rows\<close>

lemma on_spool_result:
  assumes "on_spool ctx f s = (r, s')"
  shows "(\<exists>msg. r = Inl msg) \<and> sp_rows s' = sp_rows s \<or> (\<exists>x. r = Inr x \<and> f (sp_rows s) = Inr (x, sp_rows s'))"
  using assms by (auto simp: on_spool_def Let_def split: list.splits option.splits sum.splits)

lemma open_spool_rows: "open_spool s = (r, s') \<Longrightarrow> sp_rows s' = sp_rows s"
  using on_spool_result [of None "\<lambda>rows. Inr ((), rows)" s r s'] by (auto simp: open_spool_def)

definition spooled :: "'v serde \<Rightarrow> spool_row \<Rightarrow> wire_event \<Rightarrow> bool" where
  "spooled sd r e \<longleftrightarrow> sr_payload r = sd_to_string sd e \<and> sr_event_id r = we_event_id e \<and> validate sd e = Inr ()"

definition queued :: "'v serde \<Rightarrow> spool \<Rightarrow> wire_event \<Rightarrow> bool" where
  "queued sd s e \<longleftrightarrow> (\<exists>r \<in> set (sp_rows s). spooled sd r e)"

text \<open>
  The well-formedness of a spool: keys are distinct, every payload is the text of a valid event
  with the key of its row, and no attempt is due later than five minutes after the latest clock
  reading.
\<close>

definition row_ok :: "'v serde \<Rightarrow> int \<Rightarrow> spool_row \<Rightarrow> bool" where
  "row_ok sd latest r \<longleftrightarrow> (\<exists>e. spooled sd r e) \<and> sr_attempts r \<le> U32_LIMIT \<and> sr_next_attempt_ms r \<le> max 0 (latest + 300000)"

definition spool_ok :: "'v serde \<Rightarrow> int \<Rightarrow> spool \<Rightarrow> bool" where
  "spool_ok sd latest s \<longleftrightarrow> distinct (map sr_event_id (sp_rows s)) \<and> list_all (row_ok sd latest) (sp_rows s)"

lemma retry_delay_le: "retry_delay a \<le> 300"
proof (cases "9 \<le> a")
  case False
  then have "(2::nat) ^ a \<le> 2 ^ 8" by (intro power_increasing) simp_all
  then show ?thesis using False by (simp add: retry_delay_def)
qed (simp add: retry_delay_def)

lemma settle_rows:
  assumes "settle wall success item s = (r, s')"
  shows "sp_rows s' = sp_rows s \<or>
    success \<and> sp_rows s' = filter (\<lambda>q. sr_event_id q \<noteq> we_event_id (pe_event item)) (sp_rows s) \<or>
    (\<exists>a due. a \<le> U32_LIMIT \<and> due \<le> wall + 300000 \<and> sp_rows s' = map (\<lambda>q. if sr_event_id q = we_event_id (pe_event item)
       then q\<lparr>sr_attempts := a, sr_next_attempt_ms := due\<rparr> else q) (sp_rows s))"
proof -
  obtain b s1 where b: "open_spool s = (b, s1)" by fastforce
  have s1: "sp_rows s1 = sp_rows s" using open_spool_rows [OF b] .
  show ?thesis
  proof (cases b)
    case (Inl msg)
    then show ?thesis using assms b s1 by (simp add: settle_def spool_then_def)
  next
    case (Inr u)
    show ?thesis
    proof (cases success)
      case True
      then have "delivered (we_event_id (pe_event item)) s1 = (r, s')"
        using assms b Inr by (simp add: settle_def spool_then_def)
      from on_spool_result [OF this [unfolded delivered_def]] s1 True show ?thesis by auto
    next
      case False
      let ?a = "min U32_LIMIT (pe_attempts item + 1)"
      have run: "retry wall (we_event_id (pe_event item)) ?a s1 = (r, s')"
        using assms b Inr False by (simp add: settle_def spool_then_def)
      show ?thesis
      proof (cases "now_millis wall")
        case (Inl msg)
        then show ?thesis using run s1 by (simp add: retry_def)
      next
        case now: (Inr now)
        then have "now = wall" by (simp add: now_millis_def split: if_splits)
        moreover have "int (retry_delay ?a * 1000) \<le> 300000" using retry_delay_le [of ?a] by linarith
        ultimately have due: "min I64_LIMIT (now + int (retry_delay ?a * 1000)) \<le> wall + 300000"
          by (simp add: min_def)
        have a: "?a \<le> U32_LIMIT" by simp
        from on_spool_result [OF run [unfolded retry_def now sum.case Let_def]] s1
        have "sp_rows s' = sp_rows s \<or> sp_rows s' = map (\<lambda>q. if sr_event_id q = we_event_id (pe_event item)
           then q\<lparr>sr_attempts := ?a, sr_next_attempt_ms := min I64_LIMIT (now + int (retry_delay ?a * 1000))\<rparr> else q) (sp_rows s)"
          by auto
        with a due show ?thesis by blast
      qed
    qed
  qed
qed

lemma spooled_inj:
  "serde_documented sd \<Longrightarrow> spooled sd r e \<Longrightarrow> spooled sd r e' \<Longrightarrow> e = e'"
  unfolding spooled_def serde_documented_def by (metis option.inject)

lemma same_key_same_row:
  "distinct (map sr_event_id rows) \<Longrightarrow> r \<in> set rows \<Longrightarrow> q \<in> set rows \<Longrightarrow> sr_event_id r = sr_event_id q \<Longrightarrow> r = q"
  by (metis distinct_map inj_onD)

lemma stored_event_spooled:
  assumes "serde_documented sd" "spooled sd r e"
  shows "stored_event sd (sr_event_id r) (sr_payload r) = Inr e"
  using assms by (simp add: stored_event_def spooled_def serde_documented_def)

text \<open>What settling one delivery preserves, whether or not its statements succeed.\<close>

lemma settle_keeps_ok:
  assumes ok: "spool_ok sd latest s" and run: "settle wall success item s = (r, s')" and wall: "wall \<le> latest"
  shows "spool_ok sd latest s'"
proof -
  have keys: "map sr_event_id (map (\<lambda>q. if sr_event_id q = i then q\<lparr>sr_attempts := a, sr_next_attempt_ms := due\<rparr> else q) rows)
      = map sr_event_id rows" for i a due and rows :: "spool_row list"
    by (induction rows) simp_all
  have upd: "row_ok sd latest q \<Longrightarrow> a \<le> U32_LIMIT \<Longrightarrow> due \<le> wall + 300000 \<Longrightarrow>
      row_ok sd latest (q\<lparr>sr_attempts := a, sr_next_attempt_ms := due\<rparr>)" for q a due
    using wall by (auto simp: row_ok_def spooled_def)
  from settle_rows [OF run] ok show ?thesis
    unfolding spool_ok_def by (auto simp: list_all_iff distinct_map_filter keys upd simp del: map_map)
qed

text \<open>The rows that carry the key of an item carry its event.\<close>

definition coherent :: "'v serde \<Rightarrow> spool \<Rightarrow> pending_event \<Rightarrow> bool" where
  "coherent sd s item \<longleftrightarrow>
     list_all (\<lambda>q. sr_event_id q = we_event_id (pe_event item) \<longrightarrow> spooled sd q (pe_event item)) (sp_rows s)"

lemma spooled_update [simp]:
  "spooled sd (q\<lparr>sr_attempts := a, sr_next_attempt_ms := due\<rparr>) e = spooled sd q e"
  by (simp add: spooled_def)

lemma settle_keeps_coherent:
  assumes "coherent sd s item'" "settle wall success item s = (r, s')"
  shows "coherent sd s' item'"
  using settle_rows [OF assms(2)] assms(1) unfolding coherent_def
  by (elim disjE exE conjE) (auto simp: list_all_iff)

lemma settle_keeps_queued:
  assumes doc: "serde_documented sd" and run: "settle wall success item s = (r, s')"
    and q: "queued sd s e" and item: "coherent sd s item"
  shows "queued sd s' e \<or> success \<and> e = pe_event item"
proof -
  obtain q where q: "q \<in> set (sp_rows s)" "spooled sd q e" using q by (auto simp: queued_def)
  have same: "sr_event_id q = we_event_id (pe_event item) \<Longrightarrow> e = pe_event item"
    using item q spooled_inj [OF doc] by (auto simp: coherent_def list_all_iff)
  from settle_rows [OF run] show ?thesis
  proof (elim disjE exE conjE)
    assume "sp_rows s' = sp_rows s"
    then show ?thesis using q by (auto simp: queued_def)
  next
    assume "success" "sp_rows s' = filter (\<lambda>q. sr_event_id q \<noteq> we_event_id (pe_event item)) (sp_rows s)"
    then show ?thesis using q same by (cases "sr_event_id q = we_event_id (pe_event item)") (auto simp: queued_def)
  next
    fix a due
    assume s': "sp_rows s' = map (\<lambda>q. if sr_event_id q = we_event_id (pe_event item)
       then q\<lparr>sr_attempts := a, sr_next_attempt_ms := due\<rparr> else q) (sp_rows s)"
    let ?q = "if sr_event_id q = we_event_id (pe_event item) then q\<lparr>sr_attempts := a, sr_next_attempt_ms := due\<rparr> else q"
    have "?q \<in> set (sp_rows s')" unfolding s' set_map using q(1) by (rule imageI)
    moreover have "spooled sd ?q e" using q(2) by simp
    ultimately show ?thesis unfolding queued_def by blast
  qed
qed

section \<open>What a selection returns\<close>

text \<open>Selecting is taking the first due rows of the pair, in rowid order.\<close>

definition due_events :: "'v serde \<Rightarrow> guest_project option \<Rightarrow> bool \<Rightarrow> int \<Rightarrow> spool_row list \<Rightarrow> pending_event list" where
  "due_events sd pair force now rows =
     map (\<lambda>r. \<lparr>pe_event = the (sd_event_of sd (sr_payload r)), pe_attempts = sr_attempts r\<rparr>)
       (filter (\<lambda>r. (force \<or> sr_next_attempt_ms r \<le> now) \<and>
          (case pair of None \<Rightarrow> True | Some p \<Rightarrow> p = pair_of (the (sd_event_of sd (sr_payload r))))) rows)"

lemma select_due_result:
  assumes "select_due sd pair limit force now rows batch first = Inr out" "length batch \<le> limit"
  shows "out = batch @ take (limit - length batch) (due_events sd pair force now rows)"
  using assms
proof (induction rows arbitrary: batch first)
  case (Cons r rows)
  then obtain e where e: "stored_event sd (sr_event_id r) (sr_payload r) = Inr e"
    by (auto split: sum.splits)
  then have dec: "sd_event_of sd (sr_payload r) = Some e"
    by (auto simp: stored_event_def split: option.splits sum.splits if_splits)
  let ?batch = "if (force \<or> sr_next_attempt_ms r \<le> now) \<and> (case pair of None \<Rightarrow> True | Some p \<Rightarrow> p = pair_of e) \<and>
                length batch < limit
             then batch @ [\<lparr>pe_event = e, pe_attempts = sr_attempts r\<rparr>] else batch"
  from Cons.prems e obtain first' where "select_due sd pair limit force now rows ?batch first' = Inr out"
    by (auto split: if_splits)
  from Cons.IH [OF this] Cons.prems(2)
  have "out = ?batch @ take (limit - length ?batch) (due_events sd pair force now rows)" by (auto split: if_splits)
  then show ?case using Cons.prems(2) dec
    by (cases "length batch < limit"; cases pair) (auto simp: due_events_def take_Cons' split: if_splits)
qed (simp add: due_events_def)

lemma select_result:
  assumes "select sd wall selection s = (Inr batch, s')"
  shows "sp_rows s' = sp_rows s \<and> list_all (\<lambda>item. \<exists>r \<in> set (sp_rows s).
    sd_event_of sd (sr_payload r) = Some (pe_event item) \<and> sr_event_id r = we_event_id (pe_event item)) batch"
proof (cases selection)
  case (Event_id i)
  let ?f = "\<lambda>rows. case find_spooled i rows of None \<Rightarrow> Inr ([], rows) | Some r \<Rightarrow>
    (case stored_event sd i (sr_payload r) of Inl msg \<Rightarrow> Inl msg
     | Inr e \<Rightarrow> Inr ([\<lparr>pe_event = e, pe_attempts = sr_attempts r\<rparr>], rows))"
  have "on_spool None ?f s = (Inr batch, s')" using assms Event_id by (simp add: select_def)
  from on_spool_result [OF this] have f: "?f (sp_rows s) = Inr (batch, sp_rows s')" by auto
  show ?thesis
  proof (cases "find_spooled i (sp_rows s)")
    case (Some r)
    then have "r \<in> set (sp_rows s)" "sr_event_id r = i" by (auto simp: find_spooled_def find_Some_iff)
    then show ?thesis using f Some
      by (auto simp: stored_event_def split: sum.splits option.splits if_splits)
  qed (use f in simp)
next
  case (Due pair limit force)
  obtain now where now: "now_millis wall = Inr now" using assms Due by (auto simp: select_def split: sum.splits)
  let ?f = "\<lambda>rows. case select_due sd pair limit force now rows [] None of Inl msg \<Rightarrow> Inl msg | Inr batch \<Rightarrow> Inr (batch, rows)"
  have "on_spool None ?f s = (Inr batch, s')" using assms Due now by (simp add: select_def)
  from on_spool_result [OF this] have "?f (sp_rows s) = Inr (batch, sp_rows s')" by auto
  then have run: "select_due sd pair limit force now (sp_rows s) [] None = Inr batch" and s': "sp_rows s' = sp_rows s"
    by (auto split: sum.splits)
  have out: "batch = take limit (due_events sd pair force now (sp_rows s))" using select_due_result [OF run] by simp
  have stored: "select_due sd pair limit force now rows b f = Inr out \<Longrightarrow>
      list_all (\<lambda>r. \<exists>e. stored_event sd (sr_event_id r) (sr_payload r) = Inr e) rows" for rows b f out
    by (induction rows arbitrary: b f) (auto split: sum.splits if_splits)
  have "list_all (\<lambda>r. \<exists>e. sd_event_of sd (sr_payload r) = Some e \<and> we_event_id e = sr_event_id r) (sp_rows s)"
  proof -
    have key: "stored_event sd k p = Inr e \<Longrightarrow> sd_event_of sd p = Some e \<and> we_event_id e = k" for k p e
      by (auto simp: stored_event_def split: option.splits sum.splits if_splits)
    show ?thesis using stored [OF run] key unfolding list_all_iff by blast
  qed
  then show ?thesis using s' unfolding out
    by (fastforce simp: list_all_iff due_events_def dest: in_set_takeD)
qed

section \<open>Nothing is lost on the way\<close>

lemma spooled_decodes: "serde_documented sd \<Longrightarrow> spooled sd r e \<Longrightarrow> sd_event_of sd (sr_payload r) = Some e"
  by (simp add: spooled_def serde_documented_def)

lemma select_rows: "select sd wall selection s = (r, s') \<Longrightarrow> sp_rows s' = sp_rows s"
proof (cases r)
  case (Inl msg)
  moreover assume "select sd wall selection s = (r, s')"
  ultimately show ?thesis
    by (cases selection) (auto simp: select_def on_spool_def Let_def split: list.splits option.splits sum.splits)
qed (simp add: select_result)

lemma select_coherent:
  assumes doc: "serde_documented sd" and ok: "spool_ok sd latest s" and run: "select sd wall selection s = (Inr batch, s')"
  shows "list_all (coherent sd s') batch"
  unfolding list_all_iff
proof
  fix item assume "item \<in> set batch"
  then obtain r where r: "r \<in> set (sp_rows s)" "sd_event_of sd (sr_payload r) = Some (pe_event item)"
      "sr_event_id r = we_event_id (pe_event item)"
    using select_result [OF run] by (auto simp: list_all_iff)
  obtain e where e: "spooled sd r e" using ok r(1) by (auto simp: spool_ok_def list_all_iff row_ok_def)
  then have "spooled sd r (pe_event item)" using spooled_decodes [OF doc e] r(2) by simp
  then show "coherent sd s' item"
    using ok r select_result [OF run] same_key_same_row [of "sp_rows s" _ r]
    unfolding coherent_def list_all_iff spool_ok_def by metis
qed

lemma spool_ok_rows: "sp_rows s' = sp_rows s \<Longrightarrow> spool_ok sd latest s' = spool_ok sd latest s"
  by (simp add: spool_ok_def)

lemma queued_rows: "sp_rows s' = sp_rows s \<Longrightarrow> queued sd s' e = queued sd s e"
  by (simp add: queued_def)

lemma spool_then_result:
  "spool_then m f s = (r, s') \<Longrightarrow>
     (\<exists>msg. m s = (Inl msg, s') \<and> r = Inl msg) \<or> (\<exists>x s1. m s = (Inr x, s1) \<and> f x s1 = (r, s'))"
  by (auto simp: spool_then_def split: prod.splits sum.splits)

lemma enqueue_keeps:
  assumes doc: "serde_documented sd" "inj (sd_to_value sd)" and ok: "spool_ok sd latest s" and v: "validate sd e = Inr ()"
    and run: "enqueue sd e s = (r, s')"
  shows "spool_ok sd latest s' \<and> (queued sd s q \<longrightarrow> queued sd s' q) \<and> (r = Inr () \<longrightarrow> queued sd s' e)"
proof -
  let ?look = "on_spool (Some ''inspect queued forward event'')
    (\<lambda>rows. Inr (map_option sr_payload (find_spooled (we_event_id e) rows), rows))"
  obtain b s1 where b: "?look s = (b, s1)" by fastforce
  have s1: "sp_rows s1 = sp_rows s" using on_spool_result [OF b] by auto
  show ?thesis
  proof (cases b)
    case (Inl msg)
    then have "r = Inl msg" "s' = s1" using run b by (simp_all add: enqueue_def spool_then_def)
    then have "sp_rows s' = sp_rows s" "r \<noteq> Inr ()" using s1 by simp_all
    then show ?thesis using ok spool_ok_rows queued_rows by metis
  next
    case (Inr stored)
    then have stored: "stored = map_option sr_payload (find_spooled (we_event_id e) (sp_rows s))"
      using on_spool_result [OF b] by auto
    show ?thesis
    proof (cases "find_spooled (we_event_id e) (sp_rows s)")
      case None
      then have run: "on_spool (Some ''enqueue forward event'') (insert_row e (sd_to_string sd e)) s1 = (r, s')"
        using run b Inr stored by (simp add: enqueue_def spool_then_def)
      from on_spool_result [OF this] show ?thesis
      proof (elim disjE conjE exE)
        fix msg assume "r = Inl msg" "sp_rows s' = sp_rows s1"
        then have "sp_rows s' = sp_rows s" "r \<noteq> Inr ()" using s1 by simp_all
        then show ?thesis using ok spool_ok_rows queued_rows by metis
      next
        fix x assume "r = Inr x" and ins: "insert_row e (sd_to_string sd e) (sp_rows s1) = Inr (x, sp_rows s')"
        let ?new = "\<lparr>sr_event_id = we_event_id e, sr_payload = sd_to_string sd e, sr_attempts = 0, sr_next_attempt_ms = 0\<rparr>"
        have s': "sp_rows s' = sp_rows s @ [?new]" "we_event_id e \<notin> sr_event_id ` set (sp_rows s)"
          using ins s1 by (auto simp: insert_row_def split: if_splits)
        have sp: "spooled sd ?new e" using v by (simp add: spooled_def)
        then have "row_ok sd latest ?new" by (auto simp: row_ok_def)
        then have "spool_ok sd latest s'" using ok s' by (simp add: spool_ok_def)
        moreover have "queued sd s' e" using sp unfolding queued_def s' by simp
        moreover have "queued sd s q \<Longrightarrow> queued sd s' q" unfolding queued_def s' by auto
        ultimately show ?thesis by blast
      qed
    next
      case (Some q)
      then have q: "q \<in> set (sp_rows s)" by (auto simp: find_spooled_def find_Some_iff)
      then obtain e' where e': "spooled sd q e'" using ok by (auto simp: spool_ok_def list_all_iff row_ok_def)
      then have val: "sd_value_of sd (sr_payload q) = Some (sd_to_value sd e')"
        using doc by (simp add: spooled_def serde_documented_def)
      have s': "s' = s1" and same: "r = Inr () \<Longrightarrow> sd_to_value sd e' = sd_to_value sd e"
        using run b Inr stored Some val by (auto simp: enqueue_def spool_then_def split: if_splits)
      have "r = Inr () \<Longrightarrow> e' = e" using same doc(2) by (auto dest: injD)
      moreover have "spool_ok sd latest s'" using ok s1 s' spool_ok_rows by metis
      moreover have "queued sd s' p = queued sd s p" for p using s1 s' by (simp add: queued_def)
      moreover have "queued sd s e'" using q e' by (auto simp: queued_def)
      ultimately show ?thesis by blast
    qed
  qed
qed

text \<open>
  What a sender relies on: an endpoint that acknowledges an event has recorded it, and does not
  forget it while it serves other requests.
\<close>

abbreviation held :: "'v serde \<Rightarrow> ('w \<Rightarrow> wire_event \<Rightarrow> bool) \<Rightarrow> spool \<Rightarrow> 'w \<Rightarrow> wire_event \<Rightarrow> bool" where
  "held sd recorded s w e \<equiv> queued sd s e \<or> recorded w e"

locale recording_endpoint =
  fixes sd :: "'v serde" and post :: "'w post" and recorded :: "'w \<Rightarrow> wire_event \<Rightarrow> bool"
  assumes acked: "post url token body w = (Inr reply, w') \<Longrightarrow> sd_event_of sd body = Some e \<Longrightarrow>
      ack_result sd i reply = Inr a \<Longrightarrow> recorded w' e"
    and kept: "post url token body w = (r, w') \<Longrightarrow> recorded w e \<Longrightarrow> recorded w' e"
begin

lemma send_one_records:
  assumes "serde_documented sd" "send_one sd post url token e w = (Inr a, w')"
  shows "recorded w' e"
  using assms acked [of url token "sd_to_string sd e" w _ w' e "we_event_id e" a]
  by (auto simp: send_one_def serde_documented_def split: prod.splits sum.splits)

lemma send_one_keeps: "send_one sd post url token e w = (r, w') \<Longrightarrow> recorded w q \<Longrightarrow> recorded w' q"
  by (auto simp: send_one_def split: prod.splits sum.splits dest: kept)

lemma deliver_batch_keeps:
  assumes "serde_documented sd" "wall \<le> latest"
    "deliver_batch sd post url token wall batch sent failures last_error s w = (r, s', w')"
    "spool_ok sd latest s" "list_all (coherent sd s) batch"
  shows "spool_ok sd latest s' \<and> (held sd recorded s w q \<longrightarrow> held sd recorded s' w' q)"
  using assms(3-)
proof (induction batch arbitrary: sent failures last_error s w)
  case (Cons item batch)
  obtain outcome w1 where send: "send_one sd post url token (pe_event item) w = (outcome, w1)" by fastforce
  obtain u s1 where st: "settle wall (\<not> isl outcome) item s = (u, s1)" by fastforce
  have ok: "spool_ok sd latest s1" using settle_keeps_ok [OF Cons.prems(2) st assms(2)] .
  have coh: "list_all (coherent sd s1) batch"
    using Cons.prems(3) settle_keeps_coherent [OF _ st] by (auto simp: list_all_iff)
  have held: "held sd recorded s1 w1 q" if "held sd recorded s w q"
  proof (cases "recorded w q")
    case True
    then show ?thesis using send_one_keeps [OF send] by simp
  next
    case False
    then have "queued sd s1 q \<or> \<not> isl outcome \<and> q = pe_event item"
      using settle_keeps_queued [OF assms(1) st, of q] that Cons.prems(3) by simp
    then show ?thesis using send_one_records [OF assms(1)] send by (cases outcome) auto
  qed
  show ?case
  proof (cases u)
    case (Inl msg)
    then show ?thesis using Cons.prems(1) send st ok held by auto
  next
    case (Inr v)
    then obtain sent' failures' last' where
      "deliver_batch sd post url token wall batch sent' failures' last' s1 w1 = (r, s', w')"
      using Cons.prems(1) send st by (auto split: sum.splits)
    from Cons.IH [OF this ok coh] held show ?thesis by blast
  qed
qed simp

lemma flush_to_url_keeps:
  assumes "serde_documented sd" "wall \<le> latest" "flush_to_url sd post url token wall selection s w = (r, s', w')"
    "spool_ok sd latest s"
  shows "spool_ok sd latest s' \<and> (held sd recorded s w q \<longrightarrow> held sd recorded s' w' q)"
proof -
  obtain b s1 where b: "spool_then open_spool (\<lambda>_. select sd wall selection) s = (b, s1)" by fastforce
  have sel: "sp_rows s1 = sp_rows s \<and> (\<forall>batch. b = Inr batch \<longrightarrow> list_all (coherent sd s1) batch)"
  proof -
    from spool_then_result [OF b] show ?thesis
    proof (elim disjE exE conjE)
      fix msg assume "open_spool s = (Inl msg, s1)" "b = Inl msg"
      then show ?thesis using open_spool_rows by auto
    next
      fix x s0 assume op: "open_spool s = (Inr x, s0)" and run: "select sd wall selection s0 = (b, s1)"
      have s0: "sp_rows s0 = sp_rows s" using open_spool_rows [OF op] .
      have s1: "sp_rows s1 = sp_rows s" using select_rows [OF run] s0 by simp
      have "spool_ok sd latest s0" using assms(4) s0 by (simp add: spool_ok_rows [of s0 s])
      then have "list_all (coherent sd s1) batch" if "b = Inr batch" for batch
        using select_coherent [OF assms(1)] run that by blast
      with s1 show ?thesis by simp
    qed
  qed
  have ok: "spool_ok sd latest s1" and q: "held sd recorded s w q \<longrightarrow> held sd recorded s1 w q"
    using sel assms(4) by (simp_all add: spool_ok_rows [of s1 s] queued_rows [of s1 s])
  show ?thesis
  proof (cases b)
    case (Inl msg)
    then show ?thesis using assms(3) b ok q by (simp add: flush_to_url_def)
  next
    case (Inr batch)
    obtain x s2 w2 where d: "deliver_batch sd post url token wall batch 0 0 None s1 w = (x, s2, w2)" by (metis prod_cases3)
    then have "s' = s2" "w' = w2" using assms(3) b Inr
      by (auto simp: flush_to_url_def split: sum.splits prod.splits)
    then show ?thesis using deliver_batch_keeps [OF assms(1,2) d ok] sel Inr q by blast
  qed
qed

end

text \<open>A flush posts queued events only, and queues none.\<close>

lemma settle_queued: "settle wall success item s = (r, s') \<Longrightarrow> queued sd s' e \<Longrightarrow> queued sd s e"
proof -
  assume "settle wall success item s = (r, s')" and q: "queued sd s' e"
  from settle_rows [OF this(1)] show ?thesis
  proof (elim disjE exE conjE)
    fix a due
    assume "sp_rows s' = map (\<lambda>q. if sr_event_id q = we_event_id (pe_event item)
       then q\<lparr>sr_attempts := a, sr_next_attempt_ms := due\<rparr> else q) (sp_rows s)"
    then obtain x where "x \<in> set (sp_rows s)" "spooled sd (if sr_event_id x = we_event_id (pe_event item)
       then x\<lparr>sr_attempts := a, sr_next_attempt_ms := due\<rparr> else x) e" using q by (auto simp: queued_def)
    moreover from this(2) have "spooled sd x e" by (cases "sr_event_id x = we_event_id (pe_event item)") simp_all
    ultimately show ?thesis unfolding queued_def by blast
  qed (use q in \<open>auto simp: queued_def\<close>)
qed

lemma deliver_batch_world:
  assumes "deliver_batch sd post url token wall batch sent failures last_error s w = (r, s', w')"
    "\<And>item w. item \<in> set batch \<Longrightarrow> P w \<Longrightarrow> P (snd (post url token (sd_to_string sd (pe_event item)) w))" "P w"
  shows "P w' \<and> (queued sd s' e \<longrightarrow> queued sd s e)"
  using assms
proof (induction batch arbitrary: sent failures last_error s w)
  case (Cons item batch)
  obtain outcome w1 where send: "send_one sd post url token (pe_event item) w = (outcome, w1)" by fastforce
  have "w1 = snd (post url token (sd_to_string sd (pe_event item)) w)"
    using send by (auto simp: send_one_def split: prod.splits sum.splits)
  then have w1: "P w1" using Cons.prems(2,3) by simp
  obtain u s1 where st: "settle wall (\<not> isl outcome) item s = (u, s1)" by fastforce
  show ?case
  proof (cases u)
    case (Inl msg)
    then show ?thesis using Cons.prems(1) send st w1 settle_queued by auto
  next
    case (Inr v)
    then obtain sent' failures' last' where
      "deliver_batch sd post url token wall batch sent' failures' last' s1 w1 = (r, s', w')"
      using Cons.prems(1) send st by (auto split: sum.splits)
    from Cons.IH [OF this _ w1] Cons.prems(2) show ?thesis using settle_queued [OF st] by auto
  qed
qed simp

lemma spool_then_open: "spool_then open_spool (\<lambda>_. m) s = (r, s') \<Longrightarrow>
    (\<exists>msg. r = Inl msg \<and> sp_rows s' = sp_rows s) \<or> (\<exists>s0. sp_rows s0 = sp_rows s \<and> m s0 = (r, s'))"
  by (auto dest!: spool_then_result dest: open_spool_rows)

lemma flush_to_url_world:
  assumes doc: "serde_documented sd" and run: "flush_to_url sd post url token wall selection s w = (r, s', w')"
    and ok: "spool_ok sd latest s" and P: "P w"
    and step: "\<And>e w. queued sd s e \<Longrightarrow> P w \<Longrightarrow> P (snd (post url token (sd_to_string sd e) w))"
  shows "P w' \<and> (queued sd s' e \<longrightarrow> queued sd s e)"
proof -
  obtain b s1 where b: "spool_then open_spool (\<lambda>_. select sd wall selection) s = (b, s1)" by fastforce
  from spool_then_open [OF b] have s1: "sp_rows s1 = sp_rows s" by (auto dest: select_rows)
  show ?thesis
  proof (cases b)
    case (Inl msg)
    then have "s' = s1" "w' = w" using run b by (simp_all add: flush_to_url_def)
    then show ?thesis using P queued_rows [OF s1, of sd e] by simp
  next
    case (Inr batch)
    then obtain s0 where s0: "sp_rows s0 = sp_rows s" and sel: "select sd wall selection s0 = (Inr batch, s1)"
      using spool_then_open [OF b] by auto
    have queued: "queued sd s (pe_event item)" if item: "item \<in> set batch" for item
    proof -
      obtain r where r: "r \<in> set (sp_rows s)" "sd_event_of sd (sr_payload r) = Some (pe_event item)"
        using select_result [OF sel] item s0 by (auto simp: list_all_iff)
      obtain e where e: "spooled sd r e" using ok r(1) by (auto simp: spool_ok_def list_all_iff row_ok_def)
      then have "e = pe_event item" using spooled_decodes [OF doc e] r(2) by simp
      with e r(1) show ?thesis by (auto simp: queued_def)
    qed
    obtain x s2 w2 where d: "deliver_batch sd post url token wall batch 0 0 None s1 w = (x, s2, w2)" by (metis prod_cases3)
    then have s': "s' = s2" "w' = w2" using run b Inr by (auto simp: flush_to_url_def split: sum.splits prod.splits)
    show ?thesis using deliver_batch_world [OF d, of P e] step queued P s' queued_rows [OF s1, of sd e] by simp
  qed
qed

lemma enqueue_queued:
  assumes "enqueue sd e s = (r, s')" "queued sd s' q" "serde_documented sd"
  shows "queued sd s q \<or> q = e"
proof -
  let ?new = "\<lparr>sr_event_id = we_event_id e, sr_payload = sd_to_string sd e, sr_attempts = 0, sr_next_attempt_ms = 0\<rparr>"
  have "sp_rows s' = sp_rows s \<or> sp_rows s' = sp_rows s @ [?new]"
    using assms(1) by (auto simp: enqueue_def spool_then_def insert_row_def dest!: on_spool_result
        split: prod.splits sum.splits option.splits if_splits)
  moreover have "spooled sd ?new q \<Longrightarrow> q = e"
    using assms(3) unfolding spooled_def serde_documented_def by (metis option.inject spool_row.select_convs(2))
  ultimately show ?thesis using assms(2) by (auto simp: queued_def)
qed

lemma enqueue_and_deliver_cases:
  assumes "enqueue_and_deliver sd parse_url post client uuid wall args s w = (r, s', w')"
  obtains (Refused) msg where "r = Inl msg" "s' = s" "w' = w"
  | (Not_queued) e b s0 msg where "event_of_args sd uuid args = Inr e" "validate sd e = Inr ()"
      "sp_rows s0 = sp_rows s" "s' = s0 \<or> enqueue sd e s0 = (b, s')" "r = Inl msg" "w' = w"
  | (Queued) e url s0 s1 x where "event_of_args sd uuid args = Inr e" "validate sd e = Inr ()" "sp_rows s0 = sp_rows s"
      "enqueue sd e s0 = (Inr (), s1)" "r = Inr (we_event_id e)"
      "flush_to_url sd post url (ea_token args) wall (Event_id (we_event_id e)) s1 w = (x, s', w')"
proof (cases "\<exists>url e. validate_token (ea_token args) = Inr () \<and> collector_url parse_url (ea_endpoint args) = Inr url \<and>
    event_of_args sd uuid args = Inr e \<and> validate sd e = Inr ()")
  case False
  then have "isl r \<and> s' = s \<and> w' = w"
    using assms by (cases "validate_token (ea_token args)"; cases "collector_url parse_url (ea_endpoint args)";
      cases "event_of_args sd uuid args") (auto simp: enqueue_and_deliver_def split: sum.splits)
  then show ?thesis using Refused by (cases r) simp_all
next
  case True
  then obtain url e where pre: "validate_token (ea_token args) = Inr ()" "collector_url parse_url (ea_endpoint args) = Inr url"
    "event_of_args sd uuid args = Inr e" "validate sd e = Inr ()" by blast
  obtain b s1 where b: "spool_then open_spool (\<lambda>_. enqueue sd e) s = (b, s1)" by fastforce
  note run = assms [unfolded enqueue_and_deliver_def pre sum.case b prod.case]
  from spool_then_open [OF b] obtain s0 where s0: "sp_rows s0 = sp_rows s"
    and m: "(\<exists>msg. b = Inl msg) \<and> s1 = s0 \<or> enqueue sd e s0 = (b, s1)" by auto
  show ?thesis
  proof (cases b)
    case (Inl msg)
    then have "r = Inl msg" "s' = s1" "w' = w" using run by simp_all
    then show ?thesis using m pre s0 by (intro Not_queued [of e s0 b]) auto
  next
    case (Inr u)
    then have q: "enqueue sd e s0 = (Inr (), s1)" using m by simp
    show ?thesis
    proof (cases client)
      case (Inl msg)
      then have "r = Inl msg" "s' = s1" "w' = w" using run Inr by simp_all
      then show ?thesis using q pre s0 by (intro Not_queued [of e s0 "Inr ()"]) auto
    next
      case c: (Inr v)
      obtain x where "flush_to_url sd post url (ea_token args) wall (Event_id (we_event_id e)) s1 w = (x, s', w')"
        "r = Inr (we_event_id e)" using run Inr c by (auto split: prod.splits)
      then show ?thesis using q pre s0 by (intro Queued [of e s0 s1 url x])
    qed
  qed
qed

lemma flush_cases:
  assumes "flush sd parse_url post endpoint token wall force s w = (r, s', w')"
  obtains "s' = s" "w' = w" | url x where "flush_to_url sd post url token wall (Due None (if force then 1 else 100) force) s w = (x, s', w')"
  using assms by (auto simp: flush_def split: sum.splits)

lemma flush_pair_cases:
  assumes "flush_pair sd parse_url post endpoint token wall pair s w = (r, s', w')"
  obtains "s' = s" "w' = w" | url x where "flush_to_url sd post url token wall (Due (Some pair) 100 False) s w = (x, s', w')"
  using assms by (auto simp: flush_pair_def split: sum.splits if_splits)

end
