(* ===== verification/Collector.thy ===== *)
theory Collector
  imports Spool Memory_Store
begin

unbundle bit_operations_syntax

text \<open>
  The receiving side of event forwarding (\<^verbatim>\<open>crates/rtrt-cli/src/collector.rs\<close>): which
  token may write to which project, the gate in front of the handler and the handler itself, which
  ingests the event into the store of the bound project. The file system (is it a directory, the
  identity of a project, the credentials file) is an argument. A network carries requests to the
  collector and answers back as its schedule says.
\<close>

section \<open>Bindings\<close>

record project_identity =
  pi_checkout_root :: string
  pi_memory_root :: string
  pi_label :: string
  pi_fingerprint :: string
  pi_slug :: string

record binding =
  bd_pair :: guest_project
  bd_identity :: project_identity
  bd_token :: string

record credential_record =
  cr_guest_id :: string
  cr_project :: string
  cr_token :: string

definition MAPPING_SYNTAX :: string where
  "MAPPING_SYNTAX = ''mapping must have syntax guest:remote_project=HOST_PROJECT_PATH''"

definition parse_mapping ::
  "(string \<Rightarrow> bool) \<Rightarrow> (string \<Rightarrow> project_identity option) \<Rightarrow> string \<Rightarrow> string + guest_project \<times> project_identity" where
  "parse_mapping is_dir derive value =
     (case split_once (CHR '':'') value of
        None \<Rightarrow> Inl MAPPING_SYNTAX
      | Some (guest, rest) \<Rightarrow> (case split_once (CHR ''='') rest of
          None \<Rightarrow> Inl MAPPING_SYNTAX
        | Some (remote, path) \<Rightarrow>
            if \<not> valid_identifier guest \<or> \<not> valid_identifier remote \<or> path = []
            then Inl ''mapping requires non-empty, control-free guest and remote project and a host path''
            else if \<not> is_dir path then Inl ''mapped host project must be an existing directory''
            else (case derive path of
                None \<Rightarrow> Inl ''derive mapped host project identity''
              | Some identity \<Rightarrow> Inr (\<lparr>gp_guest_id = guest, gp_project = remote\<rparr>, identity))))"

text \<open>The hash map of the mappings, as an association list; a repeated key is an error.\<close>

fun collect_mappings ::
  "(string \<Rightarrow> string + guest_project \<times> project_identity) \<Rightarrow> string list \<Rightarrow> (guest_project \<times> project_identity) list \<Rightarrow>
     string + (guest_project \<times> project_identity) list" where
  "collect_mappings parse [] mapped = Inr mapped"
| "collect_mappings parse (m # ms) mapped = (case parse m of
     Inl msg \<Rightarrow> Inl msg
   | Inr (key, project) \<Rightarrow>
       if key \<in> set (map fst mapped) then Inl ''duplicate guest and remote project mapping''
       else collect_mappings parse ms (mapped @ [(key, project)]))"

text \<open>
  \<^verbatim>\<open>constant_time_equal\<close> folds the differences of all bytes into one word; no step of it can
  overflow.
\<close>

definition constant_time_equal :: "string \<Rightarrow> string \<Rightarrow> bool" where
  "constant_time_equal left right =
     (fold (\<lambda>(i, b) difference. difference OR ((if i < length left then byte (left ! i) else 0) XOR byte b))
        (enumerate 0 right) (length left XOR length right) = 0)"

fun bind_credentials ::
  "credential_record list \<Rightarrow> (guest_project \<times> project_identity) list \<Rightarrow> binding list \<Rightarrow> string + binding list" where
  "bind_credentials [] mapped bindings = Inr bindings"
| "bind_credentials (c # cs) mapped bindings = (case validate_token (cr_token c) of
     Inl msg \<Rightarrow> Inl msg
   | Inr _ \<Rightarrow> (let pair = \<lparr>gp_guest_id = cr_guest_id c, gp_project = cr_project c\<rparr> in
       case map_of mapped pair of
         None \<Rightarrow> Inl ''credentials must match mappings one-to-one''
       | Some identity \<Rightarrow>
           if list_ex (\<lambda>b. constant_time_equal (bd_token b) (cr_token c)) bindings
           then Inl ''duplicate credentials token''
           else bind_credentials cs (filter (\<lambda>(p, _). p \<noteq> pair) mapped)
             (bindings @ [\<lparr>bd_pair = pair, bd_identity = identity, bd_token = cr_token c\<rparr>])))"

text \<open>\<open>credentials\<close>: the outcome of reading the credentials file, when one is configured.\<close>

definition router_bindings ::
  "(string \<Rightarrow> string + guest_project \<times> project_identity) \<Rightarrow> string option \<Rightarrow> (string + credential_record list) option \<Rightarrow>
     string list \<Rightarrow> string + binding list" where
  "router_bindings parse token credentials mappings =
     (case collect_mappings parse mappings [] of Inl msg \<Rightarrow> Inl msg | Inr mapped \<Rightarrow>
       if mapped = [] then Inl ''collector requires at least one explicit --map mapping''
       else if token \<noteq> None \<and> credentials \<noteq> None then Inl ''--token and --credentials cannot be combined''
       else (case credentials of
         Some outcome \<Rightarrow> (case outcome of Inl msg \<Rightarrow> Inl msg | Inr records \<Rightarrow>
           if length records \<noteq> length mapped then Inl ''credentials must match mappings one-to-one''
           else bind_credentials records mapped [])
       | None \<Rightarrow> (case token of None \<Rightarrow> Inl ''collector requires --token or --credentials'' | Some t \<Rightarrow>
           case validate_token t of Inl msg \<Rightarrow> Inl msg | Inr _ \<Rightarrow>
             if length mapped \<noteq> 1 then Inl ''multiple mappings require --credentials with unique per-pair tokens''
             else Inr (map (\<lambda>(pair, identity). \<lparr>bd_pair = pair, bd_identity = identity, bd_token = t\<rparr>) mapped))))"

section \<open>The handler\<close>

record http_request =
  rq_origin :: bool
  rq_authorization :: "string option"
  rq_body :: string

text \<open>\<^verbatim>\<open>HeaderValue::to_str\<close> succeeds on visible ASCII, blanks and tabs.\<close>

definition header_to_str :: "string \<Rightarrow> string option" where
  "header_to_str v = (if list_all (\<lambda>c. 32 \<le> byte c \<and> byte c < 127 \<or> byte c = 9) v then Some v else None)"

definition bearer_of :: "http_request \<Rightarrow> string" where
  "bearer_of rq = (case Option.bind (rq_authorization rq) (\<lambda>h. Option.bind (header_to_str h) (\<lambda>v. strip_prefix v ''Bearer ''))
     of None \<Rightarrow> [] | Some b \<Rightarrow> b)"

definition authorize :: "binding list \<Rightarrow> http_request \<Rightarrow> nat + binding" where
  "authorize bindings rq =
     (if rq_origin rq then Inl 403
      else case fold (\<lambda>b matched. if constant_time_equal (bearer_of rq) (bd_token b) then Some b else matched) bindings None of
        None \<Rightarrow> Inl 401
      | Some b \<Rightarrow> Inr b)"

definition forwarded_of :: "wire_event \<Rightarrow> forwarded_event" where
  "forwarded_of e = \<lparr>fe_event_id = we_event_id e, fe_source_guest = we_guest_id e, fe_source_project = we_project e,
     fe_kind = we_kind e, fe_body = we_body e,
     fe_metadata = (case we_metadata e of None \<Rightarrow> [] | Some m \<Rightarrow> m), fe_session_id = we_session_id e\<rparr>"

text \<open>
  How the machine treats a request: does the store open, which statements fail, what does the clock
  show, is the answer ready within the ten seconds the handler waits. The work goes on when it is
  not.
\<close>

record arrival =
  ar_opens :: bool
  ar_faults :: "string option list"
  ar_clock :: int
  ar_in_time :: bool

definition store_on :: "arrival \<Rightarrow> project_identity \<Rightarrow> tables \<Rightarrow> memory_store" where
  "store_on a identity t = \<lparr>ms_db = t, ms_faults = ar_faults a, ms_embedder = None, ms_project_pin = Some (pi_slug identity)\<rparr>"

text \<open>The stores of the host, one per slug.\<close>

type_synonym stores = "string \<Rightarrow> tables"

definition ingest_into ::
  "(string \<Rightarrow> string) \<Rightarrow> arrival \<Rightarrow> project_identity \<Rightarrow> wire_event \<Rightarrow> stores \<Rightarrow> (nat + ingest_outcome) \<times> stores" where
  "ingest_into sha a identity e stores =
     (let (r, stores') =
        (if \<not> ar_opens a then (Inl 500, stores)
         else case ingest_forwarded (ar_clock a) sha id (forwarded_of e) (store_on a identity (stores (pi_slug identity))) of
           (r, s') \<Rightarrow> ((case r of Inl _ \<Rightarrow> Inl 500 | Inr out \<Rightarrow> Inr out), stores(pi_slug identity := ms_db s')))
      in (if ar_in_time a then r else Inl 504, stores'))"

text \<open>
  A body that is not JSON is answered 400, one that is not an event 422, one over the limit 413.
\<close>

definition ingest ::
  "'v serde \<Rightarrow> (string \<Rightarrow> string) \<Rightarrow> arrival \<Rightarrow> binding \<Rightarrow> string \<Rightarrow> stores \<Rightarrow> (nat + ingest_outcome) \<times> stores" where
  "ingest sd sha a b body stores =
     (if MAX_BODY_BYTES < length body then (Inl 413, stores)
      else case sd_event_of sd body of
        None \<Rightarrow> (Inl (if sd_data_error sd body then 422 else 400), stores)
      | Some e \<Rightarrow> (case validate sd e of
          Inl _ \<Rightarrow> (Inl 400, stores)
        | Inr _ \<Rightarrow>
            if we_guest_id e \<noteq> gp_guest_id (bd_pair b) \<or> we_project e \<noteq> gp_project (bd_pair b) then (Inl 403, stores)
            else ingest_into sha a (bd_identity b) e stores))"

definition respond :: "'v serde \<Rightarrow> nat + ingest_outcome \<Rightarrow> nat \<times> string" where
  "respond sd r = (case r of Inl status \<Rightarrow> (status, []) | Inr out \<Rightarrow> (200, sd_ack_string sd (io_memory_id out) (io_inserted out)))"

definition handle ::
  "'v serde \<Rightarrow> (string \<Rightarrow> string) \<Rightarrow> binding list \<Rightarrow> arrival \<Rightarrow> http_request \<Rightarrow> stores \<Rightarrow> (nat \<times> string) \<times> stores" where
  "handle sd sha bindings a rq stores =
     (case authorize bindings rq of
        Inl status \<Rightarrow> ((status, []), stores)
      | Inr b \<Rightarrow> (case ingest sd sha a b (rq_body rq) stores of (r, stores') \<Rightarrow> (respond sd r, stores')))"

section \<open>The network\<close>

text \<open>A request may be lost before it arrives, its answer afterwards.\<close>

datatype fate =
    Request_lost string
  | Reply_lost arrival string
  | Answered arrival

record net =
  nt_fates :: "fate list"
  nt_clock :: int
  nt_stores :: stores

text \<open>When the schedule is over, everything works.\<close>

definition next_fate :: "net \<Rightarrow> fate" where
  "next_fate w = (case nt_fates w of f # _ \<Rightarrow> f
     | [] \<Rightarrow> Answered \<lparr>ar_opens = True, ar_faults = [], ar_clock = nt_clock w, ar_in_time = True\<rparr>)"

definition collector_post :: "'v serde \<Rightarrow> (string \<Rightarrow> string) \<Rightarrow> binding list \<Rightarrow> net post" where
  "collector_post sd sha bindings url token body w =
     (let rq = \<lparr>rq_origin = False, rq_authorization = Some (''Bearer '' @ token), rq_body = body\<rparr>;
          w' = w\<lparr>nt_fates := tl (nt_fates w)\<rparr> in
      case next_fate w of
        Request_lost msg \<Rightarrow> (Inl msg, w')
      | Reply_lost a msg \<Rightarrow> (Inl msg, w'\<lparr>nt_stores := snd (handle sd sha bindings a rq (nt_stores w))\<rparr>)
      | Answered a \<Rightarrow> (case handle sd sha bindings a rq (nt_stores w) of
          (reply, stores') \<Rightarrow> (Inr reply, w'\<lparr>nt_stores := stores'\<rparr>)))"
section \<open>Authorization\<close>

lemma xor_nat_eq_0: "(a :: nat) XOR b = 0 \<longleftrightarrow> a = b"
proof
  assume z: "a XOR b = 0"
  have "bit a n = bit b n" for n using bit_xor_iff [of a b n] unfolding z by simp
  then show "a = b" by (rule bit_eqI)
qed simp

lemma fold_or_eq_0:
  "fold (\<lambda>(i, b) d. d OR f i b) xs (d :: nat) = 0 \<longleftrightarrow> d = 0 \<and> list_all (\<lambda>(i, b). f i b = 0) xs"
proof (induction xs arbitrary: d)
  case (Cons x xs)
  obtain i b where x: "x = (i, b)" by (cases x)
  show ?case unfolding x fold_Cons o_apply prod.case Cons.IH list.pred_inject prod.case or_eq_0_iff conj_assoc ..
qed simp

lemma constant_time_equal_iff: "constant_time_equal l r \<longleftrightarrow> l = r"
proof -
  have set: "set (enumerate 0 r) = (\<lambda>i. (i, r ! i)) ` {..<length r}"
    by (auto simp: in_set_enumerate_eq image_iff)
  let ?d = "\<lambda>i b. (if i < length l then byte (l ! i) else 0) XOR byte b"
  have "list_all (\<lambda>(i, b). ?d i b = 0) (enumerate 0 r) \<longleftrightarrow> (\<forall>i < length r. ?d i (r ! i) = 0)"
    unfolding list_all_iff set by (simp only: ball_simps prod.case lessThan_iff) blast
  then have "constant_time_equal l r \<longleftrightarrow> length l = length r \<and> (\<forall>i < length r. ?d i (r ! i) = 0)"
    unfolding constant_time_equal_def fold_or_eq_0 by (simp only: xor_nat_eq_0)
  also have "\<dots> \<longleftrightarrow> length l = length r \<and> (\<forall>i < length r. l ! i = r ! i)"
    by (intro conj_cong refl all_cong imp_cong) (simp add: xor_nat_eq_0)
  also have "\<dots> \<longleftrightarrow> l = r" unfolding list_eq_iff_nth_eq by auto
  finally show ?thesis .
qed

lemma bind_credentials_tokens:
  assumes "bind_credentials cs mapped bs = Inr out" "distinct (map bd_token bs)"
    "list_all (\<lambda>b. validate_token (bd_token b) = Inr ()) bs"
  shows "distinct (map bd_token out) \<and> list_all (\<lambda>b. validate_token (bd_token b) = Inr ()) out"
  using assms
proof (induction cs arbitrary: mapped bs)
  case (Cons c cs)
  let ?pair = "\<lparr>gp_guest_id = cr_guest_id c, gp_project = cr_project c\<rparr>"
  from Cons.prems(1) obtain identity where
    ok: "validate_token (cr_token c) = Inr ()" "\<not> list_ex (\<lambda>b. bd_token b = cr_token c) bs" and
    run: "bind_credentials cs (filter (\<lambda>(p, _). p \<noteq> ?pair) mapped)
       (bs @ [\<lparr>bd_pair = ?pair, bd_identity = identity, bd_token = cr_token c\<rparr>]) = Inr out"
    by (auto simp: Let_def constant_time_equal_iff split: sum.splits option.splits if_splits)
  show ?case by (rule Cons.IH [OF run]) (use Cons.prems ok in \<open>auto simp: list_ex_iff\<close>)
qed simp

lemma router_tokens:
  assumes "router_bindings parse token credentials mappings = Inr bs"
  shows "distinct (map bd_token bs) \<and> list_all (\<lambda>b. validate_token (bd_token b) = Inr ()) bs"
proof -
  obtain mapped where "collect_mappings parse mappings [] = Inr mapped"
    using assms by (auto simp: router_bindings_def split: sum.splits)
  note run = assms [unfolded router_bindings_def this sum.case]
  show ?thesis
  proof (cases credentials)
    case None
    then show ?thesis using run by (cases mapped) (auto split: if_splits option.splits sum.splits)
  next
    case (Some outcome)
    then obtain records where "bind_credentials records mapped [] = Inr bs"
      using run by (auto split: if_splits sum.splits)
    then show ?thesis by (rule bind_credentials_tokens) simp_all
  qed
qed

lemma last_match:
  "fold (\<lambda>b m. if P b then Some b else m) bs m = (case List.find P (rev bs) of Some b \<Rightarrow> Some b | None \<Rightarrow> m)"
  by (induction bs arbitrary: m) (simp_all add: find_append split: option.splits)

lemma authorize_bound: "authorize bs rq = Inr b \<Longrightarrow> b \<in> set bs \<and> bd_token b = bearer_of rq"
  by (auto simp: authorize_def constant_time_equal_iff last_match find_Some_iff rev_nth
      split: if_splits option.splits)

lemma authorize_iff:
  assumes "distinct (map bd_token bs)" "\<not> rq_origin rq"
  shows "authorize bs rq = Inr b \<longleftrightarrow> b \<in> set bs \<and> bd_token b = bearer_of rq"
proof
  assume b: "b \<in> set bs \<and> bd_token b = bearer_of rq"
  then have "List.find (\<lambda>b. bearer_of rq = bd_token b) (rev bs) \<noteq> None"
    by (auto simp: find_None_iff)
  then obtain b' where b': "authorize bs rq = Inr b'"
    using assms(2) by (auto simp: authorize_def constant_time_equal_iff last_match)
  then have "b' = b" using authorize_bound [OF b'] b assms(1) by (metis distinct_map inj_onD)
  with b' show "authorize bs rq = Inr b" by simp
qed (rule authorize_bound)

lemma sent_bearer:
  "header_to_str token = Some token \<Longrightarrow>
    bearer_of \<lparr>rq_origin = orig, rq_authorization = Some (''Bearer '' @ token), rq_body = body\<rparr> = token"
proof -
  assume "header_to_str token = Some token"
  then have "list_all (\<lambda>c. 32 \<le> byte c \<and> byte c < 127 \<or> byte c = 9) token" by (auto simp: header_to_str_def split: if_splits)
  moreover have "list_all (\<lambda>c. 32 \<le> byte c \<and> byte c < 127 \<or> byte c = 9) ''Bearer ''" by code_simp
  ultimately have "header_to_str (''Bearer '' @ token) = Some (''Bearer '' @ token)"
    unfolding header_to_str_def list_all_append by (simp only: simp_thms if_True)
  moreover have "strip_prefix (''Bearer '' @ token) ''Bearer '' = Some token" by (simp add: strip_prefix_def)
  ultimately show ?thesis by (simp only: bearer_of_def http_request.select_convs option.case bind.bind_lunit)
qed

section \<open>What a request does to the stores\<close>

lemma receipt_kept:
  assumes "ingest_result clock sha id ev s r t'" "receipt_of ev0 (ms_db s) = Some i"
  shows "receipt_of ev0 t' = Some i"
  using assms by cases (auto simp: receipt_of_def forwarded_tables_def Let_def find_append split: option.splits)

lemma ingest_into_stores:
  assumes "ingest_into sha a identity e stores = (r, stores')"
  obtains (Unchanged) "stores' = stores" "\<And>out. r \<noteq> Inr out"
  | (Ingested) r' where "ingest_result (ar_clock a) sha id (forwarded_of e) (store_on a identity (stores (pi_slug identity))) r'
       (stores' (pi_slug identity))" "stores' = stores(pi_slug identity := stores' (pi_slug identity))"
     "\<And>out. r = Inr out \<Longrightarrow> r' = Inr out"
proof (cases "ar_opens a")
  case False
  then show ?thesis using assms Unchanged by (auto simp: ingest_into_def)
next
  case True
  obtain r' s' where i: "ingest_forwarded (ar_clock a) sha id (forwarded_of e) (store_on a identity (stores (pi_slug identity)))
      = (r', s')" by fastforce
  from ingest_forwarded_result [OF i] True assms i show ?thesis
    by (intro Ingested [of r']) (auto simp: ingest_into_def split: sum.splits if_splits)
qed

lemma ingest_result_receipt:
  "ingest_result clock sha id ev s (Inr out) t' \<Longrightarrow> receipt_of ev t' = Some (io_memory_id out)"
  by (auto elim!: ingest_InsertedE simp: receipt_of_forwarded)

text \<open>The collector has accounted for an event: the store of its project holds a receipt.\<close>

definition accounted :: "binding list \<Rightarrow> net \<Rightarrow> wire_event \<Rightarrow> bool" where
  "accounted bindings w e \<longleftrightarrow> (\<exists>b \<in> set bindings. bd_pair b = pair_of e \<and>
     receipt_of (forwarded_of e) (nt_stores w (pi_slug (bd_identity b))) \<noteq> None)"

lemma handle_cases:
  assumes "handle sd sha bindings a rq stores = (reply, stores')"
  obtains (Refused) "stores' = stores" "\<not> (200 \<le> fst reply \<and> fst reply < 300)"
  | (Handled) b e r where "b \<in> set bindings" "bd_token b = bearer_of rq" "sd_event_of sd (rq_body rq) = Some e"
      "bd_pair b = pair_of e" "validate sd e = Inr ()"
      "ingest_into sha a (bd_identity b) e stores = (r, stores')" "reply = respond sd r"
proof (cases "authorize bindings rq")
  case (Inl status)
  then have "status \<in> {401, 403}" by (auto simp: authorize_def split: if_splits option.splits)
  then show ?thesis using Inl assms by (intro Refused) (auto simp: handle_def)
next
  case b: (Inr b)
  obtain r where r: "ingest sd sha a b (rq_body rq) stores = (r, stores')" "reply = respond sd r"
    using assms b by (auto simp: handle_def split: prod.splits)
  have pair: "we_guest_id e = gp_guest_id (bd_pair b) \<Longrightarrow> we_project e = gp_project (bd_pair b) \<Longrightarrow> bd_pair b = pair_of e" for e
    by (simp add: pair_of_def)
  show ?thesis
  proof (cases "\<exists>e. sd_event_of sd (rq_body rq) = Some e \<and> validate sd e = Inr () \<and> bd_pair b = pair_of e \<and>
      ingest_into sha a (bd_identity b) e stores = (r, stores')")
    case True
    then show ?thesis using Handled authorize_bound [OF b] r by blast
  next
    case False
    then have "stores' = stores \<and> (\<exists>status \<in> {400, 403, 413, 422}. r = Inl status)"
      using r(1) pair by (auto simp: ingest_def split: if_splits option.splits sum.splits)
    then show ?thesis using r(2) by (intro Refused) (auto simp: respond_def)
  qed
qed

lemma collector_post_cases:
  assumes "collector_post sd sha bindings url token body w = (r, w')"
  obtains (Lost) msg where "r = Inl msg" "nt_stores w' = nt_stores w"
  | (Unheard) a msg reply where "r = Inl msg" "handle sd sha bindings a \<lparr>rq_origin = False,
        rq_authorization = Some (''Bearer '' @ token), rq_body = body\<rparr> (nt_stores w) = (reply, nt_stores w')"
  | (Heard) a reply where "r = Inr reply" "handle sd sha bindings a \<lparr>rq_origin = False,
        rq_authorization = Some (''Bearer '' @ token), rq_body = body\<rparr> (nt_stores w) = (reply, nt_stores w')"
proof (cases "next_fate w")
  case (Request_lost msg)
  then show ?thesis using assms Lost by (auto simp: collector_post_def Let_def)
next
  case (Reply_lost a msg)
  then show ?thesis using assms Unheard by (cases "handle sd sha bindings a \<lparr>rq_origin = False,
    rq_authorization = Some (''Bearer '' @ token), rq_body = body\<rparr> (nt_stores w)") (auto simp: collector_post_def Let_def)
next
  case (Answered a)
  then show ?thesis using assms Heard by (cases "handle sd sha bindings a \<lparr>rq_origin = False,
    rq_authorization = Some (''Bearer '' @ token), rq_body = body\<rparr> (nt_stores w)") (auto simp: collector_post_def Let_def)
qed

lemma handle_keeps_receipt:
  assumes "handle sd sha bindings a rq stores = (reply, stores')" "receipt_of ev (stores slug) = Some i"
  shows "receipt_of ev (stores' slug) = Some i"
  using assms(1)
proof (cases rule: handle_cases)
  case (Handled b e r)
  from Handled(6) show ?thesis
  proof (cases rule: ingest_into_stores)
    case (Ingested r')
    show ?thesis
    proof (cases "slug = pi_slug (bd_identity b)")
      case True
      then show ?thesis using receipt_kept [OF Ingested(1)] assms(2) by (simp add: store_on_def)
    next
      case False
      then show ?thesis using Ingested(2) assms(2) by (metis fun_upd_other)
    qed
  qed (use assms(2) in simp)
qed (use assms(2) in simp)

lemma handle_acked:
  assumes "handle sd sha bindings a rq stores = (reply, stores')" "ack_result sd i reply = Inr x"
    "sd_event_of sd (rq_body rq) = Some e"
  shows "\<exists>b \<in> set bindings. bd_pair b = pair_of e \<and> receipt_of (forwarded_of e) (stores' (pi_slug (bd_identity b))) \<noteq> None"
  using assms(1)
proof (cases rule: handle_cases)
  case Refused
  then show ?thesis using assms(2) by (auto simp: ack_result_def split: prod.splits)
next
  case (Handled b e' r)
  then have e: "e' = e" using assms(3) by simp
  from Handled(6) show ?thesis
  proof (cases rule: ingest_into_stores)
    case Unchanged
    then obtain status where r: "r = Inl status" by (cases r) auto
    have "status \<in> {500, 504}" using Handled(6) unfolding r
      by (auto simp: ingest_into_def split: if_splits sum.splits prod.splits)
    then show ?thesis using assms(2) Handled(7) r by (auto simp: ack_result_def respond_def)
  next
    case (Ingested r')
    show ?thesis
    proof (cases r)
      case (Inl status)
      have "status \<in> {500, 504}" using Handled(6) unfolding Inl
        by (auto simp: ingest_into_def split: if_splits sum.splits prod.splits)
      then show ?thesis using assms(2) Handled(7) Inl by (auto simp: ack_result_def respond_def)
    next
      case (Inr out)
      then show ?thesis using ingest_result_receipt Ingested(1,3) Handled(1,4) e by fastforce
    qed
  qed
qed

interpretation endpoint: recording_endpoint sd "collector_post sd sha bindings" "accounted bindings"
  for sd sha bindings
proof
  fix url token body w reply w' e i a
  assume p: "collector_post sd sha bindings url token body w = (Inr reply, w')" and e: "sd_event_of sd body = Some e"
    "ack_result sd i reply = Inr a"
  from p show "accounted bindings w' e"
  proof (cases rule: collector_post_cases)
    case (Heard ar reply')
    then have "handle sd sha bindings ar \<lparr>rq_origin = False, rq_authorization = Some (''Bearer '' @ token), rq_body = body\<rparr>
      (nt_stores w) = (reply, nt_stores w')" by simp
    from handle_acked [OF this e(2)] e(1) show ?thesis unfolding accounted_def by simp
  qed simp_all
next
  fix url token body w r w' e
  assume p: "collector_post sd sha bindings url token body w = (r, w')" and acc: "accounted bindings w e"
  from p have "receipt_of ev (nt_stores w slug) = Some j \<Longrightarrow> receipt_of ev (nt_stores w' slug) = Some j" for ev slug j
    by (cases rule: collector_post_cases) (auto dest: handle_keeps_receipt)
  with acc show "accounted bindings w' e" unfolding accounted_def by blast
qed
text \<open>A token the gate cannot read as text authorizes nobody, although it passed validation.\<close>

lemma unreadable_token:
  assumes "header_to_str (''Bearer '' @ token) = None" "list_all (\<lambda>b. validate_token (bd_token b) = Inr ()) bindings"
  shows "authorize bindings \<lparr>rq_origin = False, rq_authorization = Some (''Bearer '' @ token), rq_body = body\<rparr> = Inl 401"
proof -
  let ?rq = "\<lparr>rq_origin = False, rq_authorization = Some (''Bearer '' @ token), rq_body = body\<rparr>"
  have empty: "validate_token [] \<noteq> Inr ()" by code_simp
  have "bearer_of ?rq = []" using assms(1) by (simp add: bearer_of_def)
  then have "authorize bindings ?rq \<noteq> Inr b" for b
    using authorize_bound [of bindings ?rq b] assms(2) empty unfolding list_all_iff by metis
  moreover have "authorize bindings ?rq = Inl 401 \<or> (\<exists>b. authorize bindings ?rq = Inr b)"
    by (auto simp: authorize_def split: option.split)
  ultimately show ?thesis by blast
qed

lemma accented_token: "validate_token [CHR 0xC3, CHR 0xA9] = Inr ()"
  "header_to_str (''Bearer '' @ [CHR 0xC3, CHR 0xA9]) = None"
  by code_simp+

end
