(* ===== verification/Forwarding.thy ===== *)
theory Forwarding
  imports Collector
begin

text \<open>
  Event forwarding end to end: a guest with its spool, the network, the collector and the stores of
  the host. Every statement on either side may fail, requests and answers may be lost, and the
  clocks may show anything. Whatever happens, an event whose queueing was reported is in the spool
  or recorded, and the host has recorded each event at most once; when the failures stop, the spool
  drains.
\<close>

section \<open>The system\<close>

text \<open>
  Besides the two machines the state keeps the events handed in, those whose queueing was reported,
  and the latest clock reading.
\<close>

record fwd =
  fw_spool :: spool
  fw_net :: net
  fw_offered :: "wire_event list"
  fw_accepted :: "wire_event list"
  fw_latest :: int

datatype fwd_op =
    Enqueue_op "string + unit" string int enqueue_args
  | Flush_op string string int bool
  | Flush_pair_op string string int guest_project
  | Weather "string option list" "fate list" int

fun fwd_step ::
  "'v serde \<Rightarrow> (string \<Rightarrow> url_parts option) \<Rightarrow> (string \<Rightarrow> string) \<Rightarrow> binding list \<Rightarrow> fwd_op \<Rightarrow> fwd \<Rightarrow> fwd" where
  "fwd_step sd parse_url sha bindings (Enqueue_op client uuid wall args) st =
     (case event_of_args sd uuid args of
        Inl _ \<Rightarrow> st
      | Inr e \<Rightarrow> (case enqueue_and_deliver sd parse_url (collector_post sd sha bindings) client uuid wall args
            (fw_spool st) (fw_net st) of
          (r, s', w') \<Rightarrow> st\<lparr>fw_spool := s', fw_net := w', fw_offered := e # fw_offered st,
            fw_accepted := (if isl r then fw_accepted st else e # fw_accepted st),
            fw_latest := max wall (fw_latest st)\<rparr>))"
| "fwd_step sd parse_url sha bindings (Flush_op endpoint token wall force) st =
     (case flush sd parse_url (collector_post sd sha bindings) endpoint token wall force (fw_spool st) (fw_net st) of
        (r, s', w') \<Rightarrow> st\<lparr>fw_spool := s', fw_net := w', fw_latest := max wall (fw_latest st)\<rparr>)"
| "fwd_step sd parse_url sha bindings (Flush_pair_op endpoint token wall pair) st =
     (case flush_pair sd parse_url (collector_post sd sha bindings) endpoint token wall pair (fw_spool st) (fw_net st) of
        (r, s', w') \<Rightarrow> st\<lparr>fw_spool := s', fw_net := w', fw_latest := max wall (fw_latest st)\<rparr>)"
| "fwd_step sd parse_url sha bindings (Weather faults fates clock) st =
     st\<lparr>fw_spool := (fw_spool st)\<lparr>sp_faults := faults\<rparr>, fw_net := (fw_net st)\<lparr>nt_fates := fates, nt_clock := clock\<rparr>\<rparr>"

definition fwd_start :: "stores \<Rightarrow> fwd" where
  "fwd_start stores = \<lparr>fw_spool = \<lparr>sp_rows = [], sp_faults = []\<rparr>, fw_net = \<lparr>nt_fates = [], nt_clock = 0, nt_stores = stores\<rparr>,
     fw_offered = [], fw_accepted = [], fw_latest = 0\<rparr>"

definition fwd_run ::
  "'v serde \<Rightarrow> (string \<Rightarrow> url_parts option) \<Rightarrow> (string \<Rightarrow> string) \<Rightarrow> binding list \<Rightarrow> stores \<Rightarrow> fwd_op list \<Rightarrow> fwd" where
  "fwd_run sd parse_url sha bindings stores ops = fold (fwd_step sd parse_url sha bindings) ops (fwd_start stores)"

section \<open>What the collector adds to a store\<close>

text \<open>
  The specification of a store: what it held before, and one insertion for each event of a log in
  which no key occurs twice.
\<close>

definition replay :: "(string \<Rightarrow> string) \<Rightarrow> string \<Rightarrow> tables \<Rightarrow> (wire_event \<times> int) list \<Rightarrow> tables" where
  "replay sha slug t0 log =
     foldl (\<lambda>t (e, now). forwarded_tables (forwarded_of e) slug (sha (we_body e)) now t) t0 log"

definition bound_to :: "binding list \<Rightarrow> string \<Rightarrow> wire_event \<Rightarrow> bool" where
  "bound_to bindings slug e \<longleftrightarrow> list_ex (\<lambda>b. bd_pair b = pair_of e \<and> pi_slug (bd_identity b) = slug) bindings"

definition logs ::
  "binding list \<Rightarrow> wire_event list \<Rightarrow> string \<Rightarrow> tables \<Rightarrow> (wire_event \<times> int) list \<Rightarrow> bool" where
  "logs bindings offered slug t0 log \<longleftrightarrow>
     distinct (map (\<lambda>(e, _). event_key (forwarded_of e)) log) \<and>
     list_all (\<lambda>(e, now). e \<in> set offered \<and> bound_to bindings slug e \<and> receipt_of (forwarded_of e) t0 = None) log"

lemma receipt_of_forwarded_tables:
  "receipt_of ev (forwarded_tables ev' slug sha now t) = None \<longleftrightarrow> receipt_of ev t = None \<and> event_key ev \<noteq> event_key ev'"
  by (auto simp: receipt_of_def forwarded_tables_def Let_def find_append receipt_key_def event_key_def split: option.splits)

lemma replay_snoc: "replay sha slug t0 (log @ [(e, now)]) =
    forwarded_tables (forwarded_of e) slug (sha (we_body e)) now (replay sha slug t0 log)"
  by (simp add: replay_def)

lemma receipt_of_replay:
  "receipt_of ev (replay sha slug t0 log) = None \<longleftrightarrow>
     receipt_of ev t0 = None \<and> event_key ev \<notin> set (map (\<lambda>(e, _). event_key (forwarded_of e)) log)"
proof (induction log rule: rev_induct)
  case (snoc x log)
  obtain e now where x: "x = (e, now)" by (cases x)
  show ?case unfolding x replay_snoc receipt_of_forwarded_tables snoc.IH by auto
qed (simp add: replay_def)

lemma logs_snoc:
  assumes "logs bindings offered slug t0 log" "e \<in> set offered" "bound_to bindings slug e"
    "receipt_of (forwarded_of e) (replay sha slug t0 log) = None"
  shows "logs bindings offered slug t0 (log @ [(e, now)])"
  using assms unfolding receipt_of_replay by (simp add: logs_def)

lemma logs_mono: "logs bindings offered slug t0 log \<Longrightarrow> set offered \<subseteq> set offered' \<Longrightarrow> logs bindings offered' slug t0 log"
  by (auto simp: logs_def list_all_iff)

lemma handle_stores:
  assumes "handle sd sha bindings a rq stores = (reply, stores')" "sd_event_of sd (rq_body rq) = Some e"
  shows "stores' slug = stores slug \<or> bound_to bindings slug e \<and> receipt_of (forwarded_of e) (stores slug) = None \<and>
    (\<exists>now. stores' slug = forwarded_tables (forwarded_of e) slug (sha (we_body e)) now (stores slug))"
  using assms(1)
proof (cases rule: handle_cases)
  case (Handled b e' r)
  then have e: "e' = e" using assms(2) by simp
  from Handled(6) show ?thesis
  proof (cases rule: ingest_into_stores)
    case (Ingested r')
    show ?thesis
    proof (cases "slug = pi_slug (bd_identity b)")
      case True
      have "bound_to bindings slug e" using Handled(1,4) True e by (auto simp: bound_to_def list_ex_iff)
      with Ingested(1) show ?thesis unfolding True [symmetric] e
        by cases (auto simp: store_on_def forwarded_of_def True)
    next
      case False
      then show ?thesis using Ingested(2) by (metis fun_upd_other)
    qed
  qed simp
qed simp

text \<open>The claim about every store that each request with an offered event preserves.\<close>

definition accounts ::
  "(string \<Rightarrow> string) \<Rightarrow> binding list \<Rightarrow> wire_event list \<Rightarrow> stores \<Rightarrow> net \<Rightarrow> bool" where
  "accounts sha bindings offered stores0 w \<longleftrightarrow>
     (\<forall>slug. \<exists>log. nt_stores w slug = replay sha slug (stores0 slug) log \<and> logs bindings offered slug (stores0 slug) log)"

lemma collector_post_accounts:
  assumes post: "collector_post sd sha bindings url token body w = (r, w')" and acc: "accounts sha bindings offered stores0 w"
    and e: "sd_event_of sd body = Some e" "e \<in> set offered"
  shows "accounts sha bindings offered stores0 w'"
proof -
  have step: "nt_stores w' slug = nt_stores w slug \<or> bound_to bindings slug e \<and>
      receipt_of (forwarded_of e) (nt_stores w slug) = None \<and>
      (\<exists>now. nt_stores w' slug = forwarded_tables (forwarded_of e) slug (sha (we_body e)) now (nt_stores w slug))" for slug
    using post
  proof (cases rule: collector_post_cases)
    case (Unheard a msg reply)
    from handle_stores [OF Unheard(2)] e show ?thesis by simp
  next
    case (Heard a reply)
    from handle_stores [OF Heard(2)] e show ?thesis by simp
  qed simp
  show ?thesis unfolding accounts_def
  proof
    fix slug
    obtain log where log: "nt_stores w slug = replay sha slug (stores0 slug) log" "logs bindings offered slug (stores0 slug) log"
      using acc by (auto simp: accounts_def)
    from step [of slug] show "\<exists>log. nt_stores w' slug = replay sha slug (stores0 slug) log \<and> logs bindings offered slug (stores0 slug) log"
    proof (elim disjE conjE exE)
      fix now assume "bound_to bindings slug e" "receipt_of (forwarded_of e) (nt_stores w slug) = None"
        "nt_stores w' slug = forwarded_tables (forwarded_of e) slug (sha (we_body e)) now (nt_stores w slug)"
      then show ?thesis using log logs_snoc [OF log(2) e(2)]
        by (intro exI [of _ "log @ [(e, now)]"]) (simp add: replay_snoc)
    qed (use log in auto)
  qed
qed
section \<open>The invariant of the system\<close>

definition fwd_ok ::
  "'v serde \<Rightarrow> (string \<Rightarrow> string) \<Rightarrow> binding list \<Rightarrow> stores \<Rightarrow> fwd \<Rightarrow> bool" where
  "fwd_ok sd sha bindings stores0 st \<longleftrightarrow>
     spool_ok sd (fw_latest st) (fw_spool st) \<and>
     (\<forall>e. e \<in> set (fw_accepted st) \<longrightarrow> held sd (accounted bindings) (fw_spool st) (fw_net st) e) \<and>
     (\<forall>e. queued sd (fw_spool st) e \<longrightarrow> e \<in> set (fw_offered st)) \<and>
     accounts sha bindings (fw_offered st) stores0 (fw_net st)"

lemma spool_ok_later: "spool_ok sd latest s \<Longrightarrow> latest \<le> latest' \<Longrightarrow> spool_ok sd latest' s"
  by (auto simp: spool_ok_def list_all_iff row_ok_def)

lemma accounts_more: "accounts sha bindings offered stores0 w \<Longrightarrow> accounts sha bindings (e # offered) stores0 w"
  unfolding accounts_def by (meson logs_mono set_subset_Cons)

lemma flush_keeps_fwd:
  assumes doc: "serde_documented sd" and wall: "wall \<le> latest"
    and run: "flush_to_url sd (collector_post sd sha bindings) url token wall selection s w = (x, s', w')"
    and ok: "spool_ok sd latest s" and q: "\<And>e. queued sd s e \<Longrightarrow> e \<in> set offered"
    and acc: "accounts sha bindings offered stores0 w"
  shows "spool_ok sd latest s'" "held sd (accounted bindings) s w e \<Longrightarrow> held sd (accounted bindings) s' w' e"
    "queued sd s' e \<Longrightarrow> e \<in> set offered" "accounts sha bindings offered stores0 w'"
proof -
  have step: "accounts sha bindings offered stores0 (snd (collector_post sd sha bindings url token (sd_to_string sd e) w))"
    if "queued sd s e" "accounts sha bindings offered stores0 w" for e w
  proof -
    obtain r w' where post: "collector_post sd sha bindings url token (sd_to_string sd e) w = (r, w')" by fastforce
    have "sd_event_of sd (sd_to_string sd e) = Some e" using doc by (simp add: serde_documented_def)
    from collector_post_accounts [OF post that(2) this q [OF that(1)]] post show ?thesis by simp
  qed
  show "spool_ok sd latest s'" "held sd (accounted bindings) s w e \<Longrightarrow> held sd (accounted bindings) s' w' e"
    using endpoint.flush_to_url_keeps [OF doc wall run ok] by blast+
  show "queued sd s' e \<Longrightarrow> e \<in> set offered" "accounts sha bindings offered stores0 w'"
    using flush_to_url_world [OF doc run ok, of "accounts sha bindings offered stores0"] acc step q by blast+
qed

lemma fwd_ok_flush:
  assumes "serde_documented sd" "fwd_ok sd sha bindings stores0 st"
    "flush_to_url sd (collector_post sd sha bindings) url token wall selection (fw_spool st) (fw_net st) = (x, s', w')"
  shows "fwd_ok sd sha bindings stores0 (st\<lparr>fw_spool := s', fw_net := w', fw_latest := max wall (fw_latest st)\<rparr>)"
proof -
  let ?latest = "max wall (fw_latest st)"
  have pre: "wall \<le> ?latest" "spool_ok sd ?latest (fw_spool st)"
    "\<And>e. queued sd (fw_spool st) e \<Longrightarrow> e \<in> set (fw_offered st)" "accounts sha bindings (fw_offered st) stores0 (fw_net st)"
    using assms(2) by (auto simp: fwd_ok_def intro: spool_ok_later)
  note keeps = flush_keeps_fwd [OF assms(1) pre(1) assms(3) pre(2-4)]
  show ?thesis using assms(2) keeps by (simp add: fwd_ok_def)
qed

lemma fwd_ok_time: "fwd_ok sd sha bindings stores0 st \<Longrightarrow>
    fwd_ok sd sha bindings stores0 (st\<lparr>fw_latest := max wall (fw_latest st)\<rparr>)"
  by (auto simp: fwd_ok_def intro: spool_ok_later)

lemma fwd_ok_rows: "fwd_ok sd sha bindings stores0 st \<Longrightarrow> sp_rows s' = sp_rows (fw_spool st) \<Longrightarrow>
    fwd_ok sd sha bindings stores0 (st\<lparr>fw_spool := s'\<rparr>)"
  using spool_ok_rows [of s' "fw_spool st" sd] queued_rows [of s' "fw_spool st" sd] by (simp add: fwd_ok_def)

lemma fwd_ok_enqueue:
  assumes "serde_documented sd" "inj (sd_to_value sd)" "fwd_ok sd sha bindings stores0 st" "validate sd e = Inr ()"
    "sp_rows s0 = sp_rows (fw_spool st)" "enqueue sd e s0 = (b, s1)"
  shows "fwd_ok sd sha bindings stores0 (st\<lparr>fw_spool := s1, fw_offered := e # fw_offered st,
    fw_accepted := (if isl b then fw_accepted st else e # fw_accepted st)\<rparr>)"
proof -
  have s0: "fwd_ok sd sha bindings stores0 (st\<lparr>fw_spool := s0\<rparr>)" using fwd_ok_rows assms(3,5) .
  have ok: "spool_ok sd (fw_latest st) s0" using s0 by (simp add: fwd_ok_def)
  have keeps: "spool_ok sd (fw_latest st) s1" "queued sd s0 q \<Longrightarrow> queued sd s1 q" "\<not> isl b \<Longrightarrow> queued sd s1 e"
    "queued sd s1 q \<Longrightarrow> queued sd s0 q \<or> q = e" for q
    using enqueue_keeps [OF assms(1,2) ok assms(4,6)] enqueue_queued [OF assms(6) _ assms(1)] by (cases b; auto)+
  have "queued sd s1 q \<Longrightarrow> q \<in> set (e # fw_offered st)" for q
    using keeps(4) [of q] s0 by (auto simp: fwd_ok_def)
  then show ?thesis using s0 keeps(1-3) accounts_more by (auto simp: fwd_ok_def)
qed

lemma fwd_ok_step:
  assumes doc: "serde_documented sd" "inj (sd_to_value sd)" and ok: "fwd_ok sd sha bindings stores0 st"
  shows "fwd_ok sd sha bindings stores0 (fwd_step sd parse_url sha bindings op st)"
proof (cases op)
  case (Flush_op endpoint token wall force)
  obtain r s' w' where run: "flush sd parse_url (collector_post sd sha bindings) endpoint token wall force
      (fw_spool st) (fw_net st) = (r, s', w')" by (metis prod_cases3)
  then have e: "fwd_step sd parse_url sha bindings op st = st\<lparr>fw_spool := s', fw_net := w', fw_latest := max wall (fw_latest st)\<rparr>"
    unfolding Flush_op by simp
  from run show ?thesis unfolding e
    by (cases rule: flush_cases) (use fwd_ok_flush [OF doc(1) ok] fwd_ok_time [OF ok] in auto)
next
  case (Flush_pair_op endpoint token wall pair)
  obtain r s' w' where run: "flush_pair sd parse_url (collector_post sd sha bindings) endpoint token wall pair
      (fw_spool st) (fw_net st) = (r, s', w')" by (metis prod_cases3)
  then have e: "fwd_step sd parse_url sha bindings op st = st\<lparr>fw_spool := s', fw_net := w', fw_latest := max wall (fw_latest st)\<rparr>"
    unfolding Flush_pair_op by simp
  from run show ?thesis unfolding e
    by (cases rule: flush_pair_cases) (use fwd_ok_flush [OF doc(1) ok] fwd_ok_time [OF ok] in auto)
next
  case (Weather faults fates clock)
  have "fwd_ok sd sha bindings stores0 (st\<lparr>fw_spool := (fw_spool st)\<lparr>sp_faults := faults\<rparr>\<rparr>)"
    using ok by (rule fwd_ok_rows) simp
  then show ?thesis unfolding Weather by (simp add: fwd_ok_def accounts_def accounted_def)
next
  case (Enqueue_op client uuid wall args)
  show ?thesis
  proof (cases "event_of_args sd uuid args")
    case (Inl msg)
    then show ?thesis using ok by (simp add: Enqueue_op)
  next
    case (Inr e)
    obtain r s' w' where run: "enqueue_and_deliver sd parse_url (collector_post sd sha bindings) client uuid wall args
      (fw_spool st) (fw_net st) = (r, s', w')" by (metis prod_cases3)
    let ?st = "st\<lparr>fw_spool := s', fw_net := w', fw_offered := e # fw_offered st,
      fw_accepted := (if isl r then fw_accepted st else e # fw_accepted st), fw_latest := max wall (fw_latest st)\<rparr>"
    have "fwd_step sd parse_url sha bindings op st = ?st" unfolding Enqueue_op using Inr run by simp
    moreover from run have "fwd_ok sd sha bindings stores0 ?st"
    proof (cases rule: enqueue_and_deliver_cases)
      case (Refused msg)
      then show ?thesis using fwd_ok_time [OF ok, of wall] accounts_more by (auto simp: fwd_ok_def)
    next
      case (Not_queued e' b s0 msg)
      then have e': "e' = e" using Inr by simp
      from Not_queued(4) show ?thesis
      proof
        assume "s' = s0"
        then show ?thesis using fwd_ok_time [OF fwd_ok_rows [OF ok Not_queued(3)], of wall] accounts_more Not_queued(5,6)
          by (auto simp: fwd_ok_def)
      next
        assume "enqueue sd e' s0 = (b, s')"
        from fwd_ok_time [OF fwd_ok_enqueue [OF doc ok Not_queued(2,3) this], of wall] Not_queued(5,6) e'
        show ?thesis by (auto simp: fwd_ok_def split: if_splits)
      qed
    next
      case (Queued e' url s0 s1 x)
      then have e': "e' = e" using Inr by simp
      let ?st1 = "st\<lparr>fw_spool := s1, fw_offered := e # fw_offered st, fw_accepted := e # fw_accepted st\<rparr>"
      have "fwd_ok sd sha bindings stores0 ?st1"
        using fwd_ok_enqueue [OF doc ok Queued(2,3,4)] e' by simp
      from fwd_ok_flush [OF doc(1) this, of url "ea_token args" wall "Event_id (we_event_id e')" x s' w'] Queued(5,6)
      show ?thesis by (simp add: fwd_ok_def)
    qed
    ultimately show ?thesis by simp
  qed
qed

lemma fwd_run_ok:
  assumes "serde_documented sd" "inj (sd_to_value sd)"
  shows "fwd_ok sd sha bindings stores (fwd_run sd parse_url sha bindings stores ops)"
proof -
  have start: "fwd_ok sd sha bindings stores (fwd_start stores)"
    by (auto simp: fwd_ok_def fwd_start_def spool_ok_def queued_def accounts_def logs_def replay_def
        intro: exI [of _ "[]"])
  have "fwd_ok sd sha bindings stores (fold (fwd_step sd parse_url sha bindings) ops s)"
    if "fwd_ok sd sha bindings stores s" for s
    using that by (induction ops arbitrary: s) (simp_all add: fwd_ok_step [OF assms])
  from this [OF start] show ?thesis unfolding fwd_run_def .
qed

text \<open>
  C39 (forwarding_exactly_once): after any sequence of queueing and flushing, through any failures of statements, lost requests
  and lost answers, the spool is well-formed, every event whose queueing was reported is still in
  it or has its receipt in a store of the project it is bound to, and each store is what it was
  plus one insertion for each event of a log without repeated keys, all of them events that were handed in
  for that store.
\<close>

theorem forwarding_exactly_once:
  assumes "serde_documented sd" "inj (sd_to_value sd)"
    and "st = fwd_run sd parse_url sha bindings stores ops"
  shows "spool_ok sd (fw_latest st) (fw_spool st) \<and>
    list_all (\<lambda>e. queued sd (fw_spool st) e \<or> accounted bindings (fw_net st) e) (fw_accepted st) \<and>
    (\<forall>slug. \<exists>log. nt_stores (fw_net st) slug = replay sha slug (stores slug) log \<and>
       logs bindings (fw_offered st) slug (stores slug) log)"
  using fwd_run_ok [OF assms(1,2), of sha bindings stores parse_url ops] unfolding assms(3)
  by (simp add: fwd_ok_def accounts_def list_all_iff)
section \<open>When the failures stop\<close>

lemma sql_undisturbed: "ms_faults s = [] \<Longrightarrow> f (ms_db s) = Inr (x, t) \<Longrightarrow> sql f s = (Inr x, s\<lparr>ms_db := t\<rparr>)"
  by (simp add: sql_def)

lemma insert_forwarded_calm:
  assumes "ms_faults s = []" "tb_seq (ms_db s) < I64_MAX" "receipt_of ev (ms_db s) = None"
  shows "insert_forwarded_rows ev project (forwarded_metadata ev) sha now s =
    (Inr (tb_seq (ms_db s) + 1), s\<lparr>ms_db := forwarded_tables ev project sha now (ms_db s)\<rparr>)"
proof -
  have key: "event_key ev \<notin> receipt_key ` set (tb_receipts (ms_db s))"
    using assms(3) by (auto simp: receipt_of_def find_None_iff)
  show ?thesis
    using assms(1,2) key
    by (simp add: insert_forwarded_rows_def andThen_eval ret_eval sql_undisturbed
      sql_def insert_memory_def fts_insert_def insert_receipt_def new_row_def Let_def forwarded_tables_def
      receipt_key_def event_key_def)
qed

lemma ingest_calm:
  assumes "ms_faults s = []" "tb_seq (ms_db s) < I64_MAX" "0 \<le> clock" "ms_project_pin s = Some slug"
    "fe_event_id ev \<noteq> []" "fe_source_guest ev \<noteq> []" "fe_source_project ev \<noteq> []" "receipt_of ev (ms_db s) = None"
  shows "ingest_forwarded clock sha id ev s =
    (Inr \<lparr>io_memory_id = tb_seq (ms_db s) + 1, io_inserted = True\<rparr>,
     s\<lparr>ms_db := forwarded_tables ev slug (sha (fe_body ev)) clock (ms_db s)\<rparr>)"
proof -
  have "forwarded_receipt_memory_id ev s = (Inr None, s)"
    using assms(1,8) by (simp add: forwarded_receipt_memory_id_def query_calm)
  moreover have "tx_control s = (Inr (), s)" using assms(1) by (simp add: tx_control_calm)
  moreover have "transaction (insert_forwarded_rows ev slug (forwarded_metadata ev) (sha (fe_body ev)) clock) s =
      (Inr (tb_seq (ms_db s) + 1), s\<lparr>ms_db := forwarded_tables ev slug (sha (fe_body ev)) clock (ms_db s)\<rparr>)"
    using insert_forwarded_calm [OF assms(1,2,8)] assms(1) by (simp add: transaction_def tx_control_calm)
  ultimately show ?thesis using assms
    by (simp add: ingest_forwarded_def ingest_new_def now_secs_def andThen_eval lift_result_eval attempt_def ret_eval Let_def)
qed

text \<open>
  What the drain needs of the network: nothing fails, the stores are consistent and the one that is
  written has room for \<open>n\<close> more rows.
\<close>

definition quiet :: "string \<Rightarrow> nat \<Rightarrow> net \<Rightarrow> bool" where
  "quiet slug n w \<longleftrightarrow> nt_fates w = [] \<and> 0 \<le> nt_clock w \<and> integrity (nt_stores w slug) \<and>
     tb_seq (nt_stores w slug) + int n < I64_MAX"

lemma receipt_positive: "integrity t \<Longrightarrow> receipt_of ev t = Some i \<Longrightarrow> 1 \<le> i"
proof -
  assume ok: "integrity t" and "receipt_of ev t = Some i"
  then obtain r where r: "List.find (\<lambda>r. receipt_key r = event_key ev) (tb_receipts t) = Some r" "i = rc_memory_id r"
    by (auto simp: receipt_of_def)
  then have "r \<in> set (tb_receipts t)" by (auto simp: find_Some_iff)
  then have "i \<in> set (memory_ids t)" using ok r(2) unfolding integrity_def receipts_ok_def list_all_iff by blast
  then show ?thesis using ok unfolding integrity_def memories_ok_def list_all_iff by blast
qed

lemma valid_named:
  assumes "validate sd e = Inr ()"
  shows "we_event_id e \<noteq> []" "we_guest_id e \<noteq> []" "we_project e \<noteq> []"
    "valid_identifier (we_guest_id e)" "valid_identifier (we_project e)" "length (sd_to_string sd e) \<le> MAX_BODY_BYTES"
proof -
  have "trim [] = []" by (simp add: trim_def trim_end_def trim_start.simps trim_rev.simps ws_len_def ws_len_rev_def)
  then show "we_event_id e \<noteq> []" "we_guest_id e \<noteq> []" "we_project e \<noteq> []"
    using assms by (auto simp: validate_def valid_identifier_def split: if_splits)
  show "valid_identifier (we_guest_id e)" "valid_identifier (we_project e)" "length (sd_to_string sd e) \<le> MAX_BODY_BYTES"
    using assms by (auto simp: validate_def split: if_splits)
qed

lemma ingest_integrity:
  assumes "integrity (ms_db s)" "ingest_forwarded clock sha id ev s = (r, s')"
  shows "integrity (ms_db s')"
  using keepsD [OF keeps_ingest_forwarded [of id clock sha ev] assms(1)] assms(2) by simp

lemma post_quiet:
  assumes doc: "serde_documented sd" and dist: "distinct (map bd_token bindings)" and b: "b \<in> set bindings"
    and vis: "header_to_str (bd_token b) = Some (bd_token b)" and e: "validate sd e = Inr ()" "pair_of e = bd_pair b"
    and w: "quiet (pi_slug (bd_identity b)) (Suc n) w"
  obtains w' i flag where "collector_post sd sha bindings url (bd_token b) (sd_to_string sd e) w =
      (Inr (200, sd_ack_string sd i flag), w')" "1 \<le> i" "quiet (pi_slug (bd_identity b)) n w'"
proof -
  let ?slug = "pi_slug (bd_identity b)"
  let ?a = "\<lparr>ar_opens = True, ar_faults = [], ar_clock = nt_clock w, ar_in_time = True\<rparr>"
  let ?rq = "\<lparr>rq_origin = False, rq_authorization = Some (''Bearer '' @ bd_token b), rq_body = sd_to_string sd e\<rparr>"
  let ?s = "store_on ?a (bd_identity b) (nt_stores w ?slug)"
  let ?ev = "forwarded_of e"
  have s: "ms_db ?s = nt_stores w ?slug" "ms_faults ?s = []" "ms_project_pin ?s = Some ?slug"
    by (simp_all add: store_on_def)
  have named: "fe_event_id ?ev \<noteq> []" "fe_source_guest ?ev \<noteq> []" "fe_source_project ?ev \<noteq> []"
    using valid_named [OF e(1)] by (simp_all add: forwarded_of_def)
  have room: "tb_seq (ms_db ?s) < I64_MAX" "0 \<le> nt_clock w" "integrity (ms_db ?s)"
    "tb_seq (nt_stores w ?slug) + int (Suc n) < I64_MAX" using w s by (simp_all add: quiet_def)
  obtain i flag s' where ing: "ingest_forwarded (nt_clock w) sha id ?ev ?s = (Inr \<lparr>io_memory_id = i, io_inserted = flag\<rparr>, s')"
    "1 \<le> i" "tb_seq (ms_db s') \<le> tb_seq (nt_stores w ?slug) + 1"
  proof (cases "receipt_of ?ev (ms_db ?s)")
    case None
    have "0 \<le> tb_seq (nt_stores w ?slug)" using room(3) s by (simp add: integrity_defs)
    then show ?thesis using s(1)
      by (intro that [OF ingest_calm [OF s(2) room(1,2) s(3) named None]]) (simp_all add: forwarded_tables_def Let_def)
  next
    case (Some i)
    have "ingest_forwarded (nt_clock w) sha id ?ev ?s = (Inr \<lparr>io_memory_id = i, io_inserted = False\<rparr>, ?s)"
      using Some s(2) named by (intro redelivery_is_known [of ?ev]) simp_all
    then show ?thesis by (rule that) (use receipt_positive [OF room(3) Some] s(1) in simp_all)
  qed
  have auth: "authorize bindings ?rq = Inr b"
    using authorize_iff [OF dist, of ?rq b] sent_bearer [OF vis] b by simp
  have "ingest sd sha ?a b (sd_to_string sd e) (nt_stores w) =
      (Inr \<lparr>io_memory_id = i, io_inserted = flag\<rparr>, (nt_stores w)(?slug := ms_db s'))"
    using doc e valid_named(6) [OF e(1)] ing(1)
    by (simp add: ingest_def ingest_into_def serde_documented_def pair_of_def flip: e(2))
  then have "handle sd sha bindings ?a ?rq (nt_stores w) = ((200, sd_ack_string sd i flag), (nt_stores w)(?slug := ms_db s'))"
    using auth by (simp add: handle_def respond_def)
  then have "collector_post sd sha bindings url (bd_token b) (sd_to_string sd e) w =
      (Inr (200, sd_ack_string sd i flag), w\<lparr>nt_fates := tl (nt_fates w), nt_stores := (nt_stores w)(?slug := ms_db s')\<rparr>)"
    using w by (simp add: collector_post_def next_fate_def quiet_def)
  moreover have "quiet ?slug n (w\<lparr>nt_fates := tl (nt_fates w), nt_stores := (nt_stores w)(?slug := ms_db s')\<rparr>)"
    using w ing(3) ingest_integrity [OF room(3) ing(1)] by (simp add: quiet_def)
  ultimately show ?thesis using ing(2) that by blast
qed

lemma settle_delivered:
  assumes "sp_faults s = []"
  shows "settle wall True item s = (Inr (), s\<lparr>sp_rows := filter (\<lambda>r. sr_event_id r \<noteq> we_event_id (pe_event item)) (sp_rows s)\<rparr>)"
  using assms by (cases s) (simp add: settle_def spool_then_def open_spool_def delivered_def on_spool_def)

lemma deliver_batch_quiet:
  assumes doc: "serde_documented sd" and dist: "distinct (map bd_token bindings)" and b: "b \<in> set bindings"
    and vis: "header_to_str (bd_token b) = Some (bd_token b)"
    and batch: "list_all (\<lambda>item. validate sd (pe_event item) = Inr () \<and> pair_of (pe_event item) = bd_pair b) batch"
    and s: "sp_faults s = []" and w: "quiet (pi_slug (bd_identity b)) (length batch + n) w"
  shows "\<exists>w'. deliver_batch sd (collector_post sd sha bindings) url (bd_token b) wall batch sent 0 None s w =
    (Inr (sent + length batch, 0, None),
     s\<lparr>sp_rows := filter (\<lambda>r. sr_event_id r \<notin> set (map (we_event_id \<circ> pe_event) batch)) (sp_rows s)\<rparr>, w') \<and>
    quiet (pi_slug (bd_identity b)) n w'"
  using batch s w
proof (induction batch arbitrary: sent s w)
  case Nil
  then show ?case by (cases s) simp
next
  case (Cons item batch)
  obtain w1 i flag where post: "collector_post sd sha bindings url (bd_token b) (sd_to_string sd (pe_event item)) w =
      (Inr (200, sd_ack_string sd i flag), w1)" "1 \<le> i" "quiet (pi_slug (bd_identity b)) (length batch + n) w1"
    by (rule post_quiet [OF doc dist b vis, of "pe_event item" "length batch + n" w sha url]) (use Cons.prems in simp_all)
  have send: "send_one sd (collector_post sd sha bindings) url (bd_token b) (pe_event item) w = (Inr (i, flag), w1)"
    using post doc by (simp add: send_one_def ack_result_def serde_documented_def)
  let ?s1 = "s\<lparr>sp_rows := filter (\<lambda>r. sr_event_id r \<noteq> we_event_id (pe_event item)) (sp_rows s)\<rparr>"
  from Cons.IH [of ?s1 w1 "sent + 1"] Cons.prems post(3) obtain w' where
    "deliver_batch sd (collector_post sd sha bindings) url (bd_token b) wall batch (sent + 1) 0 None ?s1 w1 =
      (Inr (sent + 1 + length batch, 0, None),
       ?s1\<lparr>sp_rows := filter (\<lambda>r. sr_event_id r \<notin> set (map (we_event_id \<circ> pe_event) batch)) (sp_rows ?s1)\<rparr>, w')"
    "quiet (pi_slug (bd_identity b)) n w'" by auto
  moreover have "filter (\<lambda>r. sr_event_id r \<notin> I) (filter (\<lambda>r. sr_event_id r \<noteq> j) rows) =
      filter (\<lambda>r. sr_event_id r \<notin> insert j I) rows" for I j and rows :: "spool_row list" by (simp add: conj_commute)
  ultimately show ?case using send settle_delivered [OF Cons.prems(2), of wall item] by simp
qed

text \<open>The rows of one pair, in rowid order.\<close>

definition rows_of :: "'v serde \<Rightarrow> guest_project \<Rightarrow> spool_row list \<Rightarrow> spool_row list" where
  "rows_of sd pair rows = filter (\<lambda>r. pair_of (the (sd_event_of sd (sr_payload r))) = pair) rows"

lemma select_due_pair:
  assumes "serde_documented sd" "list_all (\<lambda>r. \<exists>e. spooled sd r e) rows" "length batch \<le> limit"
  shows "select_due sd (Some pair) limit force now rows batch first =
    Inr (batch @ take (limit - length batch) (due_events sd (Some pair) force now rows))"
proof -
  have "\<exists>out. select_due sd (Some pair) limit force now rows batch first = Inr out"
    using assms(2) stored_event_spooled [OF assms(1)]
    by (induction rows arbitrary: batch first) auto
  then show ?thesis using select_due_result assms(3) by blast
qed

lemma drop_first_rows:
  assumes "distinct (map sr_event_id rows)"
  shows "filter P (filter (\<lambda>r. sr_event_id r \<notin> set (map sr_event_id (take k (filter P rows)))) rows) = drop k (filter P rows)"
    and "filter (\<lambda>r. \<not> P r) (filter (\<lambda>r. sr_event_id r \<notin> set (map sr_event_id (take k (filter P rows)))) rows) =
      filter (\<lambda>r. \<not> P r) rows"
proof -
  let ?xs = "filter P rows"
  have xs: "distinct (map sr_event_id ?xs)" using assms by (rule distinct_map_filter)
  have "filter (\<lambda>r. sr_event_id r \<notin> set (map sr_event_id (take k ?xs))) ?xs =
      filter (\<lambda>r. sr_event_id r \<notin> set (map sr_event_id (take k ?xs))) (take k ?xs @ drop k ?xs)" by simp
  also have "\<dots> = drop k ?xs"
  proof -
    have "distinct (map sr_event_id (take k ?xs @ drop k ?xs))" using xs by simp
    then have "set (map sr_event_id (take k ?xs)) \<inter> set (map sr_event_id (drop k ?xs)) = {}"
      unfolding map_append distinct_append by blast
    then have "\<forall>r \<in> set (drop k ?xs). sr_event_id r \<notin> set (map sr_event_id (take k ?xs))" by auto
    then show ?thesis unfolding filter_append by (simp add: filter_empty_conv filter_id_conv)
  qed
  finally show "filter P (filter (\<lambda>r. sr_event_id r \<notin> set (map sr_event_id (take k ?xs))) rows) = drop k ?xs"
    by (simp add: conj_commute)
  have "sr_event_id r \<notin> set (map sr_event_id (take k ?xs))" if "r \<in> set rows" "\<not> P r" for r
  proof
    assume "sr_event_id r \<in> set (map sr_event_id (take k ?xs))"
    then obtain q where "q \<in> set ?xs" "sr_event_id q = sr_event_id r" by (auto dest: in_set_takeD)
    then show False using same_key_same_row [OF assms, of q r] that by auto
  qed
  then show "filter (\<lambda>r. \<not> P r) (filter (\<lambda>r. sr_event_id r \<notin> set (map sr_event_id (take k ?xs))) rows) =
      filter (\<lambda>r. \<not> P r) rows" by (auto intro: filter_cong)
qed

lemma due_events_rows:
  assumes "serde_documented sd" "list_all (\<lambda>r. sr_next_attempt_ms r \<le> now) rows" "list_all (\<lambda>r. \<exists>e. spooled sd r e) rows"
  shows "map (we_event_id \<circ> pe_event) (due_events sd (Some pair) force now rows) = map sr_event_id (rows_of sd pair rows)"
    "length (due_events sd (Some pair) force now rows) = length (rows_of sd pair rows)"
    "list_all (\<lambda>item. validate sd (pe_event item) = Inr () \<and> pair_of (pe_event item) = pair) (due_events sd (Some pair) force now rows)"
proof -
  have f: "filter (\<lambda>r. (force \<or> sr_next_attempt_ms r \<le> now) \<and> (case Some pair of None \<Rightarrow> True
      | Some p \<Rightarrow> p = pair_of (the (sd_event_of sd (sr_payload r))))) rows = rows_of sd pair rows"
    unfolding rows_of_def using assms(2) by (auto simp: list_all_iff intro!: filter_cong)
  have key: "\<exists>e. spooled sd r e \<and> the (sd_event_of sd (sr_payload r)) = e" if "r \<in> set (rows_of sd pair rows)" for r
    using that assms(3) spooled_decodes [OF assms(1)] by (fastforce simp: rows_of_def list_all_iff)
  show "map (we_event_id \<circ> pe_event) (due_events sd (Some pair) force now rows) = map sr_event_id (rows_of sd pair rows)"
    unfolding due_events_def f using key by (auto simp: spooled_def)
  show "length (due_events sd (Some pair) force now rows) = length (rows_of sd pair rows)"
    unfolding due_events_def f by simp
  show "list_all (\<lambda>item. validate sd (pe_event item) = Inr () \<and> pair_of (pe_event item) = pair) (due_events sd (Some pair) force now rows)"
    unfolding due_events_def f using key by (fastforce simp: list_all_iff spooled_def rows_of_def)
qed

text \<open>One flush of the pair: the first hundred of its rows are delivered.\<close>

lemma flush_round:
  assumes doc: "serde_documented sd" and dist: "distinct (map bd_token bindings)" and b: "b \<in> set bindings"
    and vis: "header_to_str (bd_token b) = Some (bd_token b)" and tok: "validate_token (bd_token b) = Inr ()"
    and pair: "valid_identifier (gp_guest_id (bd_pair b))" "valid_identifier (gp_project (bd_pair b))"
    and url: "collector_url parse_url endpoint = Inr url" and wall: "0 \<le> wall" "wall \<le> I64_LIMIT"
    and rows: "list_all (\<lambda>r. sr_next_attempt_ms r \<le> wall) (sp_rows s)" "spool_ok sd latest s" and s: "sp_faults s = []"
    and w: "quiet (pi_slug (bd_identity b)) (length (rows_of sd (bd_pair b) (sp_rows s))) w"
  shows "\<exists>w'. flush_pair sd parse_url (collector_post sd sha bindings) endpoint (bd_token b) wall (bd_pair b) s w =
    (Inr (min 100 (length (rows_of sd (bd_pair b) (sp_rows s)))),
     s\<lparr>sp_rows := filter (\<lambda>r. sr_event_id r \<notin> set (map sr_event_id (take 100 (rows_of sd (bd_pair b) (sp_rows s))))) (sp_rows s)\<rparr>, w') \<and>
    quiet (pi_slug (bd_identity b)) (length (rows_of sd (bd_pair b) (sp_rows s)) - 100) w'"
proof -
  have sp: "list_all (\<lambda>r. \<exists>e. spooled sd r e) (sp_rows s)" using rows(2) by (auto simp: spool_ok_def list_all_iff row_ok_def)
  let ?batch = "take 100 (due_events sd (Some (bd_pair b)) False wall (sp_rows s))"
  note due = due_events_rows [OF doc rows(1) sp, of "bd_pair b" False]
  have now: "now_millis wall = Inr wall" using wall by (simp add: now_millis_def)
  have sel: "spool_then open_spool (\<lambda>_. select sd wall (Due (Some (bd_pair b)) 100 False)) s = (Inr ?batch, s)"
    using s select_due_pair [OF doc sp, of "[]" 100 "bd_pair b" False wall None] now
    by (cases s) (simp add: spool_then_def open_spool_def on_spool_def select_def)
  have len: "length ?batch = min 100 (length (rows_of sd (bd_pair b) (sp_rows s)))" using due(2) by simp
  have ids: "map (we_event_id \<circ> pe_event) ?batch = map sr_event_id (take 100 (rows_of sd (bd_pair b) (sp_rows s)))"
    using due(1) by (simp flip: take_map)
  have batch: "list_all (\<lambda>item. validate sd (pe_event item) = Inr () \<and> pair_of (pe_event item) = bd_pair b) ?batch"
    using due(3) by (auto simp: list_all_iff dest: in_set_takeD)
  have "length ?batch + (length (rows_of sd (bd_pair b) (sp_rows s)) - 100) = length (rows_of sd (bd_pair b) (sp_rows s))"
    unfolding len by simp
  then have "quiet (pi_slug (bd_identity b)) (length ?batch + (length (rows_of sd (bd_pair b) (sp_rows s)) - 100)) w"
    using w by simp
  from deliver_batch_quiet [OF doc dist b vis batch s this, of sha url wall 0] obtain w' where
    d: "deliver_batch sd (collector_post sd sha bindings) url (bd_token b) wall ?batch 0 0 None s w =
      (Inr (length ?batch, 0, None), s\<lparr>sp_rows := filter (\<lambda>r. sr_event_id r \<notin> set (map (we_event_id \<circ> pe_event) ?batch)) (sp_rows s)\<rparr>, w')"
    and q: "quiet (pi_slug (bd_identity b)) (length (rows_of sd (bd_pair b) (sp_rows s)) - 100) w'"
    by auto
  have "flush_to_url sd (collector_post sd sha bindings) url (bd_token b) wall (Due (Some (bd_pair b)) 100 False) s w =
      (Inr (length ?batch), s\<lparr>sp_rows := filter (\<lambda>r. sr_event_id r \<notin> set (map (we_event_id \<circ> pe_event) ?batch)) (sp_rows s)\<rparr>, w')"
    unfolding flush_to_url_def sel prod.case sum.case d by simp
  then show ?thesis using tok pair url q unfolding ids len by (simp add: flush_pair_def)
qed

lemma rounds_drain:
  assumes doc: "serde_documented sd" "inj (sd_to_value sd)" and dist: "distinct (map bd_token bindings)" and b: "b \<in> set bindings"
    and vis: "header_to_str (bd_token b) = Some (bd_token b)" and tok: "validate_token (bd_token b) = Inr ()"
    and pair: "valid_identifier (gp_guest_id (bd_pair b))" "valid_identifier (gp_project (bd_pair b))"
    and url: "collector_url parse_url endpoint = Inr url" and wall: "0 \<le> wall" "wall \<le> I64_LIMIT"
    and st: "fwd_ok sd sha bindings stores st" "list_all (\<lambda>r. sr_next_attempt_ms r \<le> wall) (sp_rows (fw_spool st))"
      "sp_faults (fw_spool st) = []"
      "quiet (pi_slug (bd_identity b)) (length (rows_of sd (bd_pair b) (sp_rows (fw_spool st)))) (fw_net st)"
    and n: "length (rows_of sd (bd_pair b) (sp_rows (fw_spool st))) \<le> 100 * n"
    and out: "st' = fold (fwd_step sd parse_url sha bindings) (replicate n (Flush_pair_op endpoint (bd_token b) wall (bd_pair b))) st"
  shows "fwd_ok sd sha bindings stores st' \<and> rows_of sd (bd_pair b) (sp_rows (fw_spool st')) = [] \<and>
    filter (\<lambda>r. pair_of (the (sd_event_of sd (sr_payload r))) \<noteq> bd_pair b) (sp_rows (fw_spool st')) =
      filter (\<lambda>r. pair_of (the (sd_event_of sd (sr_payload r))) \<noteq> bd_pair b) (sp_rows (fw_spool st)) \<and>
    fw_accepted st' = fw_accepted st"
  using st n out
proof (induction n arbitrary: st)
  case (Suc n)
  let ?op = "Flush_pair_op endpoint (bd_token b) wall (bd_pair b)"
  let ?P = "\<lambda>r. pair_of (the (sd_event_of sd (sr_payload r))) = bd_pair b"
  let ?rows = "sp_rows (fw_spool st)"
  let ?new = "filter (\<lambda>r. sr_event_id r \<notin> set (map sr_event_id (take 100 (rows_of sd (bd_pair b) ?rows)))) ?rows"
  have ok: "spool_ok sd (fw_latest st) (fw_spool st)" using Suc.prems(1) by (simp add: fwd_ok_def)
  obtain w' where run: "flush_pair sd parse_url (collector_post sd sha bindings) endpoint (bd_token b) wall (bd_pair b)
      (fw_spool st) (fw_net st) = (Inr (min 100 (length (rows_of sd (bd_pair b) ?rows))), (fw_spool st)\<lparr>sp_rows := ?new\<rparr>, w')"
    and q: "quiet (pi_slug (bd_identity b)) (length (rows_of sd (bd_pair b) ?rows) - 100) w'"
    using flush_round [OF doc(1) dist b vis tok pair url wall Suc.prems(2) ok Suc.prems(3,4), of sha] by blast
  let ?st1 = "fwd_step sd parse_url sha bindings ?op st"
  have st1: "fw_spool ?st1 = (fw_spool st)\<lparr>sp_rows := ?new\<rparr>" "fw_net ?st1 = w'" "fw_accepted ?st1 = fw_accepted st"
    using run by simp_all
  have dist_rows: "distinct (map sr_event_id ?rows)" using ok by (simp add: spool_ok_def)
  have left: "rows_of sd (bd_pair b) ?new = drop 100 (rows_of sd (bd_pair b) ?rows)"
    and rest: "filter (\<lambda>r. \<not> ?P r) ?new = filter (\<lambda>r. \<not> ?P r) ?rows"
    using drop_first_rows [OF dist_rows, of ?P 100] unfolding rows_of_def by blast+
  have "fwd_ok sd sha bindings stores ?st1" using fwd_ok_step [OF doc Suc.prems(1)] .
  moreover have "list_all (\<lambda>r. sr_next_attempt_ms r \<le> wall) (sp_rows (fw_spool ?st1))"
    using Suc.prems(2) unfolding st1 by (auto simp: list_all_iff)
  moreover have "quiet (pi_slug (bd_identity b)) (length (rows_of sd (bd_pair b) (sp_rows (fw_spool ?st1)))) (fw_net ?st1)"
    unfolding st1 using q left by simp
  moreover have "length (rows_of sd (bd_pair b) (sp_rows (fw_spool ?st1))) \<le> 100 * n"
    unfolding st1 using left Suc.prems(5) by simp
  moreover have "st' = fold (fwd_step sd parse_url sha bindings) (replicate n ?op) ?st1"
    using Suc.prems(6) by (simp del: fwd_step.simps)
  moreover have "sp_faults (fw_spool ?st1) = []" unfolding st1 using Suc.prems(3) by simp
  ultimately have "fwd_ok sd sha bindings stores st' \<and> rows_of sd (bd_pair b) (sp_rows (fw_spool st')) = [] \<and>
    filter (\<lambda>r. \<not> ?P r) (sp_rows (fw_spool st')) = filter (\<lambda>r. \<not> ?P r) (sp_rows (fw_spool ?st1)) \<and>
    fw_accepted st' = fw_accepted ?st1" by (rule_tac Suc.IH)
  then show ?case unfolding st1 using rest by simp
qed simp

text \<open>
  C40 (spool_drains): after any history, once nothing fails any more and five minutes have passed since the latest clock reading,
  flushing a bound pair as often as its queue holds hundreds leaves none of its events in the
  spool, every accepted event of the pair has its receipt, and the rows of other pairs are as they were. The collector was
  configured by its own start-up checks; the token must be visible ASCII, and the store must have
  room for the rows.
\<close>

theorem spool_drains:
  assumes doc: "serde_documented sd" "inj (sd_to_value sd)"
    and router: "router_bindings parse tok creds mappings = Inr bindings" "b \<in> set bindings"
    and names: "valid_identifier (gp_guest_id (bd_pair b))" "valid_identifier (gp_project (bd_pair b))"
    and visible_token: "header_to_str (bd_token b) = Some (bd_token b)"
    and url: "collector_url parse_url endpoint = Inr url"
    and st: "st = fwd_run sd parse_url sha bindings stores ops"
    and calm_now: "sp_faults (fw_spool st) = []" "nt_fates (fw_net st) = []" "0 \<le> nt_clock (fw_net st)"
    and wall: "0 \<le> wall" "fw_latest st + 300000 \<le> wall" "wall \<le> I64_LIMIT"
    and store: "integrity (nt_stores (fw_net st) (pi_slug (bd_identity b)))"
      "tb_seq (nt_stores (fw_net st) (pi_slug (bd_identity b))) + int (length (sp_rows (fw_spool st))) < I64_MAX"
    and n: "length (sp_rows (fw_spool st)) \<le> 100 * n"
    and out: "st' = fold (fwd_step sd parse_url sha bindings) (replicate n (Flush_pair_op endpoint (bd_token b) wall (bd_pair b))) st"
  shows "(\<nexists>e. queued sd (fw_spool st') e \<and> pair_of e = bd_pair b) \<and>
    list_all (\<lambda>e. pair_of e \<noteq> bd_pair b \<or> accounted bindings (fw_net st') e) (fw_accepted st) \<and>
    filter (\<lambda>r. pair_of (the (sd_event_of sd (sr_payload r))) \<noteq> bd_pair b) (sp_rows (fw_spool st')) =
      filter (\<lambda>r. pair_of (the (sd_event_of sd (sr_payload r))) \<noteq> bd_pair b) (sp_rows (fw_spool st))"
proof -
  have dist: "distinct (map bd_token bindings)" and token: "validate_token (bd_token b) = Inr ()"
    using router_tokens [OF router(1)] router(2) by (auto simp: list_all_iff)
  have ok: "fwd_ok sd sha bindings stores st" unfolding st by (rule fwd_run_ok [OF doc])
  have due: "list_all (\<lambda>r. sr_next_attempt_ms r \<le> wall) (sp_rows (fw_spool st))"
    using ok wall by (force simp: fwd_ok_def spool_ok_def row_ok_def list_all_iff)
  have le: "length (rows_of sd (bd_pair b) (sp_rows (fw_spool st))) \<le> length (sp_rows (fw_spool st))" by (simp add: rows_of_def)
  have quiet: "quiet (pi_slug (bd_identity b)) (length (rows_of sd (bd_pair b) (sp_rows (fw_spool st)))) (fw_net st)"
    using calm_now store le by (simp add: quiet_def)
  have "fwd_ok sd sha bindings stores st'" and none: "rows_of sd (bd_pair b) (sp_rows (fw_spool st')) = []"
    and rest: "filter (\<lambda>r. pair_of (the (sd_event_of sd (sr_payload r))) \<noteq> bd_pair b) (sp_rows (fw_spool st')) =
      filter (\<lambda>r. pair_of (the (sd_event_of sd (sr_payload r))) \<noteq> bd_pair b) (sp_rows (fw_spool st))"
    and acc: "fw_accepted st' = fw_accepted st"
    using rounds_drain [OF doc dist router(2) visible_token token names url wall(1,3) ok due calm_now(1) quiet _ out] le n by auto
  moreover have gone: "\<nexists>e. queued sd (fw_spool st') e \<and> pair_of e = bd_pair b"
    using none spooled_decodes [OF doc(1)] by (fastforce simp: queued_def rows_of_def filter_empty_conv)
  ultimately show ?thesis unfolding fwd_ok_def acc list_all_iff by blast
qed
section \<open>A sample format\<close>

text \<open>
  A text format with the properties the code relies on, for the examples: strings are written
  character by character behind a plus sign and closed with a minus sign.
\<close>

fun enc_text :: "string \<Rightarrow> string" where
  "enc_text [] = ''-''"
| "enc_text (c # s) = CHR ''+'' # c # enc_text s"

fun dec_text :: "string \<Rightarrow> (string \<times> string) option" where
  "dec_text (m # c # s) = (if m = CHR ''+'' then map_option (\<lambda>(t, r). (c # t, r)) (dec_text s)
     else if m = CHR ''-'' then Some ([], c # s) else None)"
| "dec_text [m] = (if m = CHR ''-'' then Some ([], []) else None)"
| "dec_text [] = None"

fun enc_option :: "string option \<Rightarrow> string" where
  "enc_option None = ''0''"
| "enc_option (Some t) = CHR ''1'' # enc_text t"

definition dec_option :: "string \<Rightarrow> (string option \<times> string) option" where
  "dec_option s = (case s of [] \<Rightarrow> None
     | m # r \<Rightarrow> if m = CHR ''0'' then Some (None, r) else map_option (\<lambda>(t, r'). (Some t, r')) (dec_text r))"

fun enc_pairs :: "(string \<times> string) list \<Rightarrow> string" where
  "enc_pairs [] = ''0''"
| "enc_pairs ((k, v) # m) = CHR ''1'' # enc_text k @ enc_text v @ enc_pairs m"

fun dec_pairs :: "nat \<Rightarrow> string \<Rightarrow> ((string \<times> string) list \<times> string) option" where
  "dec_pairs n [] = None"
| "dec_pairs n (m # r) = (if m = CHR ''0'' then Some ([], r) else if n = 0 then None
     else Option.bind (dec_text r) (\<lambda>(k, r1). Option.bind (dec_text r1) (\<lambda>(v, r2).
       map_option (\<lambda>(m, r3). ((k, v) # m, r3)) (dec_pairs (n - 1) r2))))"

lemma dec_enc_text [simp]: "dec_text (enc_text t @ r) = Some (t, r)"
proof (induction t)
  case Nil
  then show ?case by (cases r) simp_all
qed simp

lemma dec_enc_option [simp]: "dec_option (enc_option x @ r) = Some (x, r)"
  by (cases x) (simp_all add: dec_option_def)

lemma dec_enc_pairs: "length m \<le> n \<Longrightarrow> dec_pairs n (enc_pairs m @ r) = Some (m, r)"
  by (induction m arbitrary: n) (auto simp: neq_Nil_conv)

definition enc_event :: "wire_event \<Rightarrow> string" where
  "enc_event e = enc_text (we_event_id e) @ enc_text (we_guest_id e) @ enc_text (we_project e) @ enc_text (we_kind e) @
     enc_text (we_body e) @ enc_option (we_session_id e) @
     (case we_metadata e of None \<Rightarrow> ''n'' | Some m \<Rightarrow> CHR ''s'' # enc_pairs m)"

definition dec_metadata :: "string \<Rightarrow> (string \<times> string) list option option" where
  "dec_metadata s = (case s of [] \<Rightarrow> None
     | c # r \<Rightarrow> if c = CHR ''n'' then Some None
       else (case dec_pairs (length r) r of Some (m, _) \<Rightarrow> Some (Some m) | None \<Rightarrow> None))"

definition dec_event :: "string \<Rightarrow> wire_event option" where
  "dec_event s = Option.bind (dec_text s) (\<lambda>(i, s). Option.bind (dec_text s) (\<lambda>(g, s).
     Option.bind (dec_text s) (\<lambda>(p, s). Option.bind (dec_text s) (\<lambda>(k, s). Option.bind (dec_text s) (\<lambda>(b, s).
     Option.bind (dec_option s) (\<lambda>(sid, s). Option.bind (dec_metadata s) (\<lambda>m.
       Some \<lparr>we_event_id = i, we_guest_id = g, we_project = p, we_kind = k, we_body = b, we_session_id = sid,
         we_metadata = m\<rparr>)))))))"

lemma length_enc_pairs: "length m \<le> length (enc_pairs m)"
proof (induction m)
  case (Cons p m)
  then show ?case by (cases p) simp
qed simp

lemma dec_enc_event [simp]: "dec_event (enc_event e) = Some e"
proof -
  have "dec_metadata (case we_metadata e of None \<Rightarrow> ''n'' | Some m \<Rightarrow> CHR ''s'' # enc_pairs m) = Some (we_metadata e)"
    using dec_enc_pairs [OF length_enc_pairs, where r = "[]"]
    by (cases "we_metadata e") (simp_all add: dec_metadata_def)
  then show ?thesis by (simp add: dec_event_def enc_event_def)
qed

definition enc_ack :: "int \<Rightarrow> bool \<Rightarrow> string" where
  "enc_ack i b = (if b then CHR ''t'' else CHR ''f'') # (if i < 0 then CHR ''m'' else CHR ''p'') # replicate (nat \<bar>i\<bar>) (CHR ''1'')"

definition dec_ack :: "string \<Rightarrow> (int \<times> bool) option" where
  "dec_ack s = (case s of b # sg # ds \<Rightarrow> Some (if sg = CHR ''m'' then - int (length ds) else int (length ds), b = CHR ''t'')
     | _ \<Rightarrow> None)"

definition sample_serde :: "string serde" where
  "sample_serde = \<lparr>sd_to_value = enc_event, sd_to_string = enc_event, sd_value_of = Some, sd_event_of = dec_event,
     sd_ack_string = enc_ack, sd_ack_of = dec_ack, sd_data_error = (\<lambda>_. False), sd_metadata_of = (\<lambda>_. Inr []),
     sd_status_text = (\<lambda>n. nat_str n)\<rparr>"

lemma sample_documented: "serde_documented sample_serde"
  by (simp add: serde_documented_def sample_serde_def enc_ack_def dec_ack_def)

lemma sample_inj: "inj (sd_to_value sample_serde)"
  by (rule injI) (metis dec_enc_event option.inject sample_serde_def serde.select_convs(1))

definition sample_url :: "string \<Rightarrow> url_parts option" where
  "sample_url s = Some \<lparr>up_scheme = ''http'', up_host = Some ''h'', up_username = [], up_password = None, up_query = None,
     up_fragment = None\<rparr>"

definition sample_binding :: binding where
  "sample_binding = \<lparr>bd_pair = \<lparr>gp_guest_id = ''vm'', gp_project = ''p''\<rparr>,
     bd_identity = \<lparr>pi_checkout_root = ''/w'', pi_memory_root = ''/w'', pi_label = ''w'', pi_fingerprint = ''f'', pi_slug = ''w-f''\<rparr>,
     bd_token = ''tk''\<rparr>"

definition sample_args :: "string \<Rightarrow> enqueue_args" where
  "sample_args i = \<lparr>ea_endpoint = ''u'', ea_token = ''tk'', ea_guest_id = ''vm'', ea_project = ''p'', ea_kind = ''n'', ea_body = ''b'',
     ea_event_id = Some i, ea_session_id = None, ea_metadata = None\<rparr>"

text \<open>The answer to the first delivery is lost; the second event never reaches the collector.\<close>

definition sample_ops :: "fwd_op list" where
  "sample_ops =
     [Weather [] [Reply_lost \<lparr>ar_opens = True, ar_faults = [], ar_clock = 3, ar_in_time = True\<rparr> ''reset''] 4,
      Enqueue_op (Inr ()) ''x'' 1000 (sample_args ''e1''),
      Weather [] [Request_lost ''refused''] 5,
      Enqueue_op (Inr ()) ''x'' 2000 (sample_args ''e2''),
      Weather [] [] 6]"

definition sample_run :: fwd where
  "sample_run = fwd_run sample_serde sample_url id [sample_binding] (\<lambda>_. empty_tables) sample_ops"

lemma sample_run_state:
  "map sr_event_id (sp_rows (fw_spool sample_run)) = [''e1'', ''e2''] \<and> sp_faults (fw_spool sample_run) = [] \<and>
   nt_fates (fw_net sample_run) = [] \<and> nt_clock (fw_net sample_run) = 6 \<and> fw_latest sample_run = 2000 \<and>
   map we_event_id (fw_accepted sample_run) = [''e2'', ''e1''] \<and>
   memory_ids (nt_stores (fw_net sample_run) ''w-f'') = [1] \<and> tb_seq (nt_stores (fw_net sample_run) ''w-f'') = 1"
  by code_simp

theorem forwarding_exactly_once_witness:
  "list_all (\<lambda>e. queued sample_serde (fw_spool sample_run) e \<or> accounted [sample_binding] (fw_net sample_run) e)
     (fw_accepted sample_run) \<and>
   map we_event_id (fw_accepted sample_run) = [''e2'', ''e1''] \<and>
   (\<exists>log. nt_stores (fw_net sample_run) ''w-f'' = replay id ''w-f'' empty_tables log \<and>
     logs [sample_binding] (fw_offered sample_run) ''w-f'' empty_tables log)"
  using forwarding_exactly_once [OF sample_documented sample_inj sample_run_def] sample_run_state by blast

theorem spool_drains_witness:
  "(\<nexists>e. queued sample_serde (fw_spool (fold (fwd_step sample_serde sample_url id [sample_binding])
       (replicate 1 (Flush_pair_op ''u'' ''tk'' 302000 (bd_pair sample_binding))) sample_run)) e \<and>
     pair_of e = bd_pair sample_binding) \<and>
   list_all (accounted [sample_binding] (fw_net (fold (fwd_step sample_serde sample_url id [sample_binding])
       (replicate 1 (Flush_pair_op ''u'' ''tk'' 302000 (bd_pair sample_binding))) sample_run))) (fw_accepted sample_run)"
proof -
  have router: "router_bindings (\<lambda>_. Inr (bd_pair sample_binding, bd_identity sample_binding)) (Some ''tk'') None [''m''] =
      Inr [sample_binding]" by code_simp
  have names: "valid_identifier (gp_guest_id (bd_pair sample_binding))" "valid_identifier (gp_project (bd_pair sample_binding))"
    by code_simp+
  have token: "bd_token sample_binding = ''tk''" "pi_slug (bd_identity sample_binding) = ''w-f''"
    by (simp_all add: sample_binding_def)
  have vis: "header_to_str (bd_token sample_binding) = Some (bd_token sample_binding)" by code_simp
  have url: "collector_url sample_url ''u'' = Inr ''u/v1/events''" by code_simp
  have wall: "(0 :: int) \<le> 302000" "fw_latest sample_run + 300000 \<le> 302000" "(302000 :: int) \<le> I64_LIMIT"
    using sample_run_state by (simp_all add: I64_LIMIT_def)
  have rows: "length (sp_rows (fw_spool sample_run)) = 2"
    using sample_run_state length_map [of sr_event_id "sp_rows (fw_spool sample_run)"] by simp
  have intg: "integrity (nt_stores (fw_net sample_run) (pi_slug (bd_identity sample_binding)))"
    unfolding token by code_simp
  have pairs: "list_all (\<lambda>e. pair_of e = bd_pair sample_binding) (fw_accepted sample_run)" by code_simp
  note drains = spool_drains [OF sample_documented sample_inj router _ names vis url sample_run_def _ _ _ wall intg _ _ refl,
    where n = 1, unfolded token]
  show ?thesis using drains pairs sample_run_state rows by (auto simp: I64_MAX_def list_all_iff)
qed

end
