(* ===== verification/Scan_Core.thy ===== *)
theory Scan_Core
  imports Btree Regex
begin

text \<open>
  The frame of the security scanner (\<^verbatim>\<open>crates/rtrt-security\<close>): severities, findings,
  rules and profiles (\<^verbatim>\<open>finding.rs\<close>, \<^verbatim>\<open>profile.rs\<close>), the context an engine sees
  (\<^verbatim>\<open>engine.rs\<close>) and the runner (\<^verbatim>\<open>runner.rs\<close>). The tree that is scanned is a value: the
  files below the root in the order the directory walk delivers them, and what reading a path gives.
  TOML and JSON documents are values of one type; parsing them is an argument.
\<close>

section \<open>Findings\<close>

datatype severity = Info | Low | Medium | High | Critical

fun severity_rank :: "severity \<Rightarrow> nat" where
  "severity_rank Info = 0"
| "severity_rank Low = 1"
| "severity_rank Medium = 2"
| "severity_rank High = 3"
| "severity_rank Critical = 4"

lemma severity_rank_inj: "severity_rank a = severity_rank b \<Longrightarrow> a = b"
  by (cases a; cases b) simp_all

instantiation severity :: linorder
begin

definition less_eq_severity :: "severity \<Rightarrow> severity \<Rightarrow> bool" where
  "less_eq_severity a b \<longleftrightarrow> severity_rank a \<le> severity_rank b"

definition less_severity :: "severity \<Rightarrow> severity \<Rightarrow> bool" where
  "less_severity a b \<longleftrightarrow> severity_rank a < severity_rank b"

instance
  by standard (auto simp: less_eq_severity_def less_severity_def severity_rank_inj)

end

fun severity_as_str :: "severity \<Rightarrow> string" where
  "severity_as_str Info = ''info''"
| "severity_as_str Low = ''low''"
| "severity_as_str Medium = ''medium''"
| "severity_as_str High = ''high''"
| "severity_as_str Critical = ''critical''"

record standards =
  st_cwe :: "string list"
  st_owasp :: "string list"
  st_asvs :: "string list"
  st_nist :: "string list"
  st_cis :: "string list"
  st_slsa :: "string list"
  st_eu_ai_act :: "string list"
  st_other :: "string list"

definition no_standards :: standards where
  "no_standards = \<lparr>st_cwe = [], st_owasp = [], st_asvs = [], st_nist = [], st_cis = [], st_slsa = [],
     st_eu_ai_act = [], st_other = []\<rparr>"

definition standards_is_empty :: "standards \<Rightarrow> bool" where
  "standards_is_empty s \<longleftrightarrow> st_cwe s = [] \<and> st_owasp s = [] \<and> st_asvs s = [] \<and> st_nist s = [] \<and> st_cis s = [] \<and>
     st_slsa s = [] \<and> st_eu_ai_act s = [] \<and> st_other s = []"

record scan_finding =
  fi_rule_id :: string
  fi_engine :: string
  fi_severity :: severity
  fi_title :: string
  fi_file :: string
  fi_line :: "nat option"
  fi_excerpt :: string
  fi_fix_hint :: string
  fi_standards :: standards

record severity_counts =
  ct_critical :: nat
  ct_high :: nat
  ct_medium :: nat
  ct_low :: nat
  ct_info :: nat

definition zero_counts :: severity_counts where
  "zero_counts = \<lparr>ct_critical = 0, ct_high = 0, ct_medium = 0, ct_low = 0, ct_info = 0\<rparr>"

fun counts_add :: "severity \<Rightarrow> severity_counts \<Rightarrow> severity_counts" where
  "counts_add Critical c = c\<lparr>ct_critical := ct_critical c + 1\<rparr>"
| "counts_add High c = c\<lparr>ct_high := ct_high c + 1\<rparr>"
| "counts_add Medium c = c\<lparr>ct_medium := ct_medium c + 1\<rparr>"
| "counts_add Low c = c\<lparr>ct_low := ct_low c + 1\<rparr>"
| "counts_add Info c = c\<lparr>ct_info := ct_info c + 1\<rparr>"

definition counts_total :: "severity_counts \<Rightarrow> nat" where
  "counts_total c = ct_critical c + ct_high c + ct_medium c + ct_low c + ct_info c"

record scan_report =
  rp_profile :: string
  rp_root :: string
  rp_findings :: "scan_finding list"
  rp_counts :: severity_counts
  rp_engines_run :: "string list"
  rp_engines_skipped :: "string list"

definition fails_gate :: "scan_report \<Rightarrow> severity \<Rightarrow> bool" where
  "fails_gate r threshold \<longleftrightarrow> list_ex (\<lambda>f. threshold \<le> fi_severity f) (rp_findings r)"

section \<open>Documents\<close>

text \<open>What the engines read of \<^verbatim>\<open>toml::Value\<close> and \<^verbatim>\<open>serde_json::Value\<close>.\<close>

datatype doc_value =
    Doc_str string
  | Doc_bool bool
  | Doc_array "doc_value list"
  | Doc_table "(string \<times> doc_value) list"
  | Doc_other

fun as_str :: "doc_value \<Rightarrow> string option" where
  "as_str (Doc_str s) = Some s"
| "as_str _ = None"

fun as_bool :: "doc_value \<Rightarrow> bool option" where
  "as_bool (Doc_bool b) = Some b"
| "as_bool _ = None"

fun as_array :: "doc_value \<Rightarrow> doc_value list option" where
  "as_array (Doc_array vs) = Some vs"
| "as_array _ = None"

fun as_table :: "doc_value \<Rightarrow> (string \<times> doc_value) list option" where
  "as_table (Doc_table t) = Some t"
| "as_table _ = None"

definition doc_get :: "string \<Rightarrow> doc_value \<Rightarrow> doc_value option" where
  "doc_get key v = Option.bind (as_table v) (\<lambda>t. map_of t key)"

section \<open>Rules and profiles\<close>

record scan_rule =
  ru_id :: string
  ru_engine :: string
  ru_severity :: severity
  ru_description :: string
  ru_enabled :: bool
  ru_standards :: standards
  ru_params :: "(string \<times> doc_value) list"

definition param_str :: "string \<Rightarrow> scan_rule \<Rightarrow> string option" where
  "param_str key r = Option.bind (map_of (ru_params r) key) as_str"

definition param_str_list :: "string \<Rightarrow> scan_rule \<Rightarrow> string list" where
  "param_str_list key r = (case Option.bind (map_of (ru_params r) key) as_array of
     None \<Rightarrow> [] | Some vs \<Rightarrow> List.map_filter as_str vs)"

definition param_bool :: "string \<Rightarrow> bool \<Rightarrow> scan_rule \<Rightarrow> bool" where
  "param_bool key default_value r = (case Option.bind (map_of (ru_params r) key) as_bool of
     None \<Rightarrow> default_value | Some b \<Rightarrow> b)"

record scan_profile =
  pf_name :: string
  pf_description :: string
  pf_severity_threshold :: severity
  pf_exclude :: "string list"
  pf_rules :: "scan_rule list"

definition rules_by_engine :: "scan_profile \<Rightarrow> (string, scan_rule list) btree" where
  "rules_by_engine p = foldl (\<lambda>m r. bt_entry [] (ru_engine r) (\<lambda>rs. rs @ [r]) m) [] (filter ru_enabled (pf_rules p))"

text \<open>
  \<open>user\<close>: the text of a file of the user's profile directory, \<open>builtin\<close> the embedded texts,
  \<open>parse\<close> the reading of a profile from TOML.
\<close>

definition load_profile ::
  "(string \<Rightarrow> (string + string) option) \<Rightarrow> (string \<times> string) list \<Rightarrow> (string \<Rightarrow> string + scan_profile) \<Rightarrow> string \<Rightarrow>
     string + scan_profile" where
  "load_profile user builtin parse name =
     (case user (name @ ''.toml'') of
        Some (Inl msg) \<Rightarrow> Inl msg
      | Some (Inr text) \<Rightarrow> parse text
      | None \<Rightarrow> (case map_of builtin name of
          Some text \<Rightarrow> parse text
        | None \<Rightarrow> Inl (''unknown security profile: '' @ name)))"

text \<open>\<open>stems\<close>: the file stems of the user's profile directory.\<close>

definition list_profiles :: "string list \<Rightarrow> string list \<Rightarrow> string list" where
  "list_profiles builtin_names stems = remdups_adj (sort (builtin_names @ stems))"

section \<open>The context\<close>

text \<open>
  A file of the walk: its path relative to the root, its bytes unless it cannot be read.
\<close>

record scan_entry =
  se_rel :: string
  se_bytes :: "string option"

record scan_context =
  sc_root :: string
  sc_walk :: "scan_entry list"
  sc_is_file :: "string \<Rightarrow> bool"
  sc_read :: "string \<Rightarrow> string option"
  sc_exclude :: "string list"

text \<open>\<^verbatim>\<open>String::from_utf8\<close> accepts well-formed UTF-8.\<close>

fun cont :: "nat \<Rightarrow> nat \<Rightarrow> string \<Rightarrow> string option" where
  "cont lo hi [] = None"
| "cont lo hi (c # s) = (if lo \<le> byte c \<and> byte c \<le> hi then Some s else None)"

definition utf8_tail :: "string \<Rightarrow> string option" where
  "utf8_tail s = (case s of [] \<Rightarrow> None | c # r \<Rightarrow> let b = byte c in
     if b < 128 then Some r
     else if 194 \<le> b \<and> b \<le> 223 then cont 128 191 r
     else if b = 224 then Option.bind (cont 160 191 r) (cont 128 191)
     else if 225 \<le> b \<and> b \<le> 236 \<or> b = 238 \<or> b = 239 then Option.bind (cont 128 191 r) (cont 128 191)
     else if b = 237 then Option.bind (cont 128 159 r) (cont 128 191)
     else if b = 240 then Option.bind (Option.bind (cont 144 191 r) (cont 128 191)) (cont 128 191)
     else if 241 \<le> b \<and> b \<le> 243 then Option.bind (Option.bind (cont 128 191 r) (cont 128 191)) (cont 128 191)
     else if b = 244 then Option.bind (Option.bind (cont 128 143 r) (cont 128 191)) (cont 128 191)
     else None)"

lemma cont_length: "cont lo hi s = Some r \<Longrightarrow> length r < length s"
  by (cases s) (auto split: if_splits)

lemma utf8_tail_length: "utf8_tail s = Some r \<Longrightarrow> length r < length s"
  by (auto simp: utf8_tail_def Let_def Option.bind_eq_Some_conv split: list.splits if_splits dest!: cont_length)

function utf8_valid :: "string \<Rightarrow> bool" where
  "utf8_valid s = (if s = [] then True else case utf8_tail s of None \<Rightarrow> False | Some r \<Rightarrow> utf8_valid r)"
  by pat_completeness auto
termination by (relation "measure length") (auto dest: utf8_tail_length)

declare utf8_valid.simps [simp del]

text \<open>\<^verbatim>\<open>read_to_string\<close> of a walked file.\<close>

definition entry_text :: "scan_entry \<Rightarrow> string option" where
  "entry_text e = (case se_bytes e of None \<Rightarrow> None | Some b \<Rightarrow> if utf8_valid b then Some b else None)"

definition ALWAYS_EXCLUDED :: "string list" where
  "ALWAYS_EXCLUDED = [''/.git/'', ''/target/'', ''/node_modules/'', ''/.venv/'', ''/dist/'', ''/build/'', ''/.next/'', ''/vendor/'']"

definition always_excluded :: "string \<Rightarrow> bool" where
  "always_excluded rel \<longleftrightarrow> list_ex (\<lambda>a. contains_str (''/'' @ rel @ ''/'') a) ALWAYS_EXCLUDED"

definition is_excluded :: "scan_context \<Rightarrow> string \<Rightarrow> bool" where
  "is_excluded ctx rel \<longleftrightarrow> always_excluded rel \<or> list_ex (\<lambda>e. contains_str rel e) (sc_exclude ctx)"

text \<open>The last component of a relative path, its extension, its directory.\<close>

definition file_name :: "string \<Rightarrow> string" where
  "file_name rel = last (split_char (CHR ''/'') rel)"

definition path_extension :: "string \<Rightarrow> string option" where
  "path_extension rel = (let parts = split_char (CHR ''.'') (file_name rel) in
     if length parts \<le> 1 \<or> length parts = 2 \<and> hd parts = [] then None else Some (last parts))"

definition path_parent :: "string \<Rightarrow> string option" where
  "path_parent rel = (if rel = [] then None else Some (join ''/'' (butlast (split_char (CHR ''/'') rel))))"

definition path_join :: "string \<Rightarrow> string \<Rightarrow> string" where
  "path_join dir name = (if dir = [] then name else dir @ ''/'' @ name)"

definition unix_slashes :: "string \<Rightarrow> string" where
  "unix_slashes rel = map (\<lambda>c. if c = CHR 0x5C then CHR ''/'' else c) rel"

section \<open>Engines and the runner\<close>

datatype engine_outcome =
    Ran "scan_finding list"
  | Skipped string

record engine =
  eg_name :: string
  eg_scan :: "scan_context \<Rightarrow> scan_rule list \<Rightarrow> engine_outcome"

section \<open>What the runner relies on\<close>

text \<open>
  The contract of an engine: its findings carry its name, and the severity and the standards of a
  rule that was routed to it.
\<close>

locale scan_engine =
  fixes name :: string and scan :: "scan_context \<Rightarrow> scan_rule list \<Rightarrow> engine_outcome"
  assumes named: "scan ctx rules = Ran fs \<Longrightarrow> f \<in> set fs \<Longrightarrow> fi_engine f = name"
    and routed: "scan ctx rules = Ran fs \<Longrightarrow> f \<in> set fs \<Longrightarrow>
      \<exists>r \<in> set rules. fi_severity f = ru_severity r \<and> fi_standards f = ru_standards r"
begin

lemma traced:
  assumes "scan ctx (filter (\<lambda>r. ru_engine r = name \<and> ru_enabled r) rs) = Ran fs" "f \<in> set fs"
  shows "\<exists>r \<in> set rs. ru_enabled r \<and> ru_engine r = fi_engine f \<and> fi_severity f = ru_severity r \<and>
    fi_standards f = ru_standards r"
  using named [OF assms] routed [OF assms] by auto

end

text \<open>Engines that make every finding from one of the rules they are given.\<close>

lemma mem_map_filter: "x \<in> set (List.map_filter f xs) \<longleftrightarrow> (\<exists>y \<in> set xs. f y = Some x)"
  by (induction xs) (auto simp: List.map_filter_simps split: option.splits)

definition of_rule :: "string \<Rightarrow> scan_rule \<Rightarrow> scan_finding \<Rightarrow> bool" where
  "of_rule name r f \<longleftrightarrow> fi_engine f = name \<and> fi_severity f = ru_severity r \<and> fi_standards f = ru_standards r"

lemma scan_engineI:
  assumes "\<And>ctx rules fs f. scan ctx rules = Ran fs \<Longrightarrow> f \<in> set fs \<Longrightarrow> \<exists>r \<in> set rules. of_rule name r f"
  shows "scan_engine name scan"
  by unfold_locales (use assms in \<open>unfold of_rule_def, blast\<close>)+

fun run_engine :: "engine list \<Rightarrow> scan_context \<Rightarrow> string \<times> scan_rule list \<Rightarrow> scan_report \<Rightarrow> scan_report" where
  "run_engine engines ctx (name, rules) report =
     (case List.find (\<lambda>e. eg_name e = name) engines of
        None \<Rightarrow> report\<lparr>rp_engines_skipped := rp_engines_skipped report @ [name @ '': no such engine'']\<rparr>
      | Some e \<Rightarrow> (case eg_scan e ctx rules of
          Ran findings \<Rightarrow> report\<lparr>rp_engines_run := rp_engines_run report @ [name],
            rp_findings := rp_findings report @ findings\<rparr>
        | Skipped reason \<Rightarrow> report\<lparr>rp_engines_skipped := rp_engines_skipped report @ [name @ '': '' @ reason]\<rparr>))"

definition finding_order :: "scan_finding \<Rightarrow> scan_finding \<Rightarrow> ordering" where
  "finding_order a b = then_with (cmp (fi_severity b) (fi_severity a)) (cmp (fi_file a) (fi_file b))"

definition run_scan :: "engine list \<Rightarrow> scan_profile \<Rightarrow> scan_context \<Rightarrow> scan_report" where
  "run_scan engines profile tree =
     (let ctx = tree\<lparr>sc_exclude := pf_exclude profile\<rparr>;
          report = foldl (\<lambda>rp er. run_engine engines ctx er rp)
            \<lparr>rp_profile = pf_name profile, rp_root = sc_root tree, rp_findings = [], rp_counts = zero_counts,
             rp_engines_run = [], rp_engines_skipped = []\<rparr> (rules_by_engine profile);
          findings = sort_by finding_order (rp_findings report)
      in report\<lparr>rp_findings := findings, rp_counts := foldl (\<lambda>c f. counts_add (fi_severity f) c) zero_counts findings\<rparr>)"

end
