(* ===== verification/Scan_Deps.thy ===== *)
theory Scan_Deps
  imports Scan_Core
begin

text \<open>
  The dependency engine of the security scanner (\<^verbatim>\<open>engines/deps.rs\<close>): lockfile and manifest
  hygiene, and the comparison of the locked versions with the advisories of a RustSec database.
  Reading TOML and JSON, the environment and the files of the database are arguments.
\<close>

section \<open>Texts\<close>

text \<open>\<^verbatim>\<open>str::find\<close>: what stands before the first occurrence and what follows it.\<close>

fun cut_at :: "string \<Rightarrow> string \<Rightarrow> (string \<times> string) option" where
  "cut_at p [] = (if p = [] then Some ([], []) else None)"
| "cut_at p (c # s) = (if starts_with (c # s) p then Some ([], drop (length p) (c # s))
     else map_option (\<lambda>(a, b). (c # a, b)) (cut_at p s))"

lemma cut_at_parts: "cut_at p s = Some (a, b) \<Longrightarrow> s = a @ p @ b"
  by (induction s arbitrary: a) (auto simp: starts_with_iff split: if_splits)

text \<open>\<^verbatim>\<open>s.rsplit(p).next()\<close>.\<close>

function after_last :: "string \<Rightarrow> string \<Rightarrow> string" where
  "after_last p s = (if p = [] then s else case cut_at p s of None \<Rightarrow> s | Some (a, b) \<Rightarrow> after_last p b)"
  by pat_completeness auto
termination by (relation "measure (\<lambda>(p, s). length s)") (auto dest: cut_at_parts)

declare after_last.simps [simp del]

definition trim160 :: "string \<Rightarrow> string" where
  "trim160 s = (if length (chars s) \<le> 160 then s else concat (take 157 (chars s)) @ ''...'')"

definition str_or_empty :: "string \<Rightarrow> doc_value \<Rightarrow> string" where
  "str_or_empty key v = (case Option.bind (doc_get key v) as_str of None \<Rightarrow> [] | Some s \<Rightarrow> s)"

section \<open>Lockfiles\<close>

record lock_pkg =
  lp_name :: string
  lp_version :: string
  lp_source :: "string option"
  lp_yanked :: bool

definition parse_cargo_lock :: "(string \<Rightarrow> doc_value option) \<Rightarrow> string \<Rightarrow> lock_pkg list option" where
  "parse_cargo_lock toml body = Option.bind (toml body) (\<lambda>doc. Option.bind (doc_get ''package'' doc) (\<lambda>v.
     map_option (List.map_filter (\<lambda>p.
       if str_or_empty ''name'' p = [] then None
       else Some \<lparr>lp_name = str_or_empty ''name'' p, lp_version = str_or_empty ''version'' p,
         lp_source = Option.bind (doc_get ''source'' p) as_str,
         lp_yanked = (case doc_get ''yanked'' p of None \<Rightarrow> False
           | Some y \<Rightarrow> as_bool y = Some True \<or> as_str y = Some ''true'')\<rparr>)) (as_array v)))"

definition npm_source :: "string option \<Rightarrow> string option" where
  "npm_source resolved = (case resolved of
     Some r \<Rightarrow> if starts_with r ''git+'' \<or> contains_str r ''git+ssh'' then Some (''git+'' @ r) else resolved
   | None \<Rightarrow> None)"

definition parse_npm_lock :: "(string \<Rightarrow> doc_value option) \<Rightarrow> string \<Rightarrow> lock_pkg list option" where
  "parse_npm_lock json body = map_option (\<lambda>doc.
     case Option.bind (doc_get ''packages'' doc) as_table of
       Some entries \<Rightarrow> map (\<lambda>(key, meta). \<lparr>lp_name = after_last ''node_modules/'' key,
           lp_version = str_or_empty ''version'' meta,
           lp_source = npm_source (Option.bind (doc_get ''resolved'' meta) as_str), lp_yanked = False\<rparr>)
         (filter (\<lambda>(key, meta). key \<noteq> []) entries)
     | None \<Rightarrow> (case Option.bind (doc_get ''dependencies'' doc) as_table of
         Some entries \<Rightarrow> map (\<lambda>(name, meta). \<lparr>lp_name = name, lp_version = str_or_empty ''version'' meta,
           lp_source = None, lp_yanked = False\<rparr>) entries
       | None \<Rightarrow> [])) (json body)"

section \<open>Manifests\<close>

definition walk_manifests :: "scan_context \<Rightarrow> string \<Rightarrow> scan_entry list" where
  "walk_manifests ctx name =
     filter (\<lambda>e. file_name (se_rel e) = name \<and> se_rel e \<noteq> [] \<and> \<not> always_excluded (se_rel e)) (sc_walk ctx)"

text \<open>The entries of the named tables of a document, with the file they stand in.\<close>

definition manifest_entries ::
  "(string \<Rightarrow> doc_value option) \<Rightarrow> scan_context \<Rightarrow> string \<Rightarrow> string list \<Rightarrow> (string \<times> string \<times> doc_value) list" where
  "manifest_entries parse ctx name sections = concat (map (\<lambda>e.
     case Option.bind (entry_text e) parse of None \<Rightarrow> []
     | Some doc \<Rightarrow> concat (map (\<lambda>section.
         case Option.bind (doc_get section doc) as_table of None \<Rightarrow> []
         | Some deps \<Rightarrow> map (\<lambda>(dep, spec). (se_rel e, dep, spec)) deps) sections)) (walk_manifests ctx name))"

definition CARGO_SECTIONS :: "string list" where
  "CARGO_SECTIONS = [''dependencies'', ''dev-dependencies'', ''build-dependencies'']"

definition scan_manifest_sources ::
  "(string \<Rightarrow> doc_value option) \<Rightarrow> scan_context \<Rightarrow> (string \<times> string \<times> string) list" where
  "scan_manifest_sources toml ctx = List.map_filter (\<lambda>(rel, dep, spec).
     case as_table spec of None \<Rightarrow> None
     | Some t \<Rightarrow> if map_of t ''git'' \<noteq> None then Some (rel, dep, ''git'')
         else if map_of t ''path'' \<noteq> None then Some (rel, dep, ''path'') else None)
     (manifest_entries toml ctx ''Cargo.toml'' CARGO_SECTIONS)"

fun is_wildcard :: "doc_value \<Rightarrow> bool" where
  "is_wildcard (Doc_str s) = (s = ''*'')"
| "is_wildcard (Doc_table t) = (Option.bind (map_of t ''version'') as_str = Some ''*'')"
| "is_wildcard _ = False"

definition scan_manifest_wildcards ::
  "(string \<Rightarrow> doc_value option) \<Rightarrow> (string \<Rightarrow> doc_value option) \<Rightarrow> scan_context \<Rightarrow> (string \<times> string) list" where
  "scan_manifest_wildcards toml json ctx =
     map (\<lambda>(rel, dep, spec). (rel, dep))
       (filter (\<lambda>(rel, dep, spec). is_wildcard spec) (manifest_entries toml ctx ''Cargo.toml'' CARGO_SECTIONS)) @
     map (\<lambda>(rel, dep, spec). (rel, dep))
       (filter (\<lambda>(rel, dep, spec). as_str spec = Some ''*'')
         (manifest_entries json ctx ''package.json'' [''dependencies'', ''devDependencies'']))"

section \<open>Advisories\<close>

definition version_char :: "char \<Rightarrow> bool" where
  "version_char c \<longleftrightarrow> is_ascii_digit c \<or> c = CHR ''.''"

definition parse_ver :: "string \<Rightarrow> nat list" where
  "parse_ver v = (let parts = map (\<lambda>p. case parse_u64 p of None \<Rightarrow> 0 | Some n \<Rightarrow> n)
       (split_char (CHR ''.'') (takeWhile version_char v))
     in parts @ replicate (3 - length parts) 0)"

definition version_lt :: "string \<Rightarrow> string \<Rightarrow> bool" where
  "version_lt a b \<longleftrightarrow> parse_ver a < parse_ver b"

definition extract_version_core :: "string \<Rightarrow> string option" where
  "extract_version_core req = (let core = takeWhile version_char (dropWhile (\<lambda>c. \<not> is_ascii_digit c) req) in
     if core = [] then None else Some core)"

record advisory =
  ad_id :: string
  ad_package :: string
  ad_title :: string
  ad_patched :: "string list"

definition affects :: "advisory \<Rightarrow> string \<Rightarrow> bool" where
  "affects adv ver \<longleftrightarrow> (if ad_patched adv = [] then True else list_all (version_lt ver) (ad_patched adv))"

definition FENCE :: string where "FENCE = ''```''"

definition extract_front_matter :: "string \<Rightarrow> string option" where
  "extract_front_matter body = Option.bind (cut_at FENCE body) (\<lambda>(_, after). Option.bind (cut_at [NL] after) (\<lambda>(_, rest).
     map_option fst (cut_at FENCE rest)))"

definition version_bounds :: "doc_value \<Rightarrow> string list" where
  "version_bounds doc = (case doc_get ''versions'' doc of None \<Rightarrow> []
     | Some versions \<Rightarrow> concat (map (\<lambda>key. case Option.bind (doc_get key versions) as_array of None \<Rightarrow> []
         | Some reqs \<Rightarrow> List.map_filter (\<lambda>r. Option.bind (as_str r) extract_version_core) reqs) [''patched'', ''unaffected'']))"

definition parse_advisory :: "(string \<Rightarrow> doc_value option) \<Rightarrow> string \<Rightarrow> advisory option" where
  "parse_advisory toml body = Option.bind (extract_front_matter body) (\<lambda>front. Option.bind (toml front) (\<lambda>doc.
     Option.bind (doc_get ''advisory'' doc) (\<lambda>adv.
     Option.bind (Option.bind (doc_get ''id'' adv) as_str) (\<lambda>i.
     Option.bind (Option.bind (doc_get ''package'' adv) as_str) (\<lambda>package.
     Some \<lparr>ad_id = i, ad_package = package, ad_title = str_or_empty ''title'' adv, ad_patched = version_bounds doc\<rparr>)))))"

definition load_advisories :: "(string \<Rightarrow> doc_value option) \<Rightarrow> scan_entry list \<Rightarrow> advisory list" where
  "load_advisories toml db = List.map_filter (\<lambda>e. let name = file_name (se_rel e) in
     if \<not> (starts_with name ''RUSTSEC-'' \<and> ends_with name ''.md'') then None
     else Option.bind (entry_text e) (parse_advisory toml)) db"

text \<open>\<open>env\<close>: the variable \<^verbatim>\<open>RTRT_ADVISORY_DB\<close>; \<open>home\<close>: the home directory.\<close>

definition advisory_db_dir :: "string option \<Rightarrow> string option \<Rightarrow> (string \<Rightarrow> bool) \<Rightarrow> string option" where
  "advisory_db_dir env home is_dir = (case env of
     Some d \<Rightarrow> if is_dir d then Some d else None
   | None \<Rightarrow> (case home of None \<Rightarrow> None
     | Some h \<Rightarrow> let p = path_join (path_join h ''.cargo'') ''advisory-db'' in if is_dir p then Some p else None))"

section \<open>The engine\<close>

record deps_env =
  de_toml :: "string \<Rightarrow> doc_value option"
  de_json :: "string \<Rightarrow> doc_value option"
  de_db_env :: "string option"
  de_home :: "string option"
  de_is_dir :: "string \<Rightarrow> bool"
  de_walk :: "string \<Rightarrow> scan_entry list"

definition deps_finding :: "scan_rule \<Rightarrow> string \<Rightarrow> string \<Rightarrow> string \<Rightarrow> string \<Rightarrow> scan_finding" where
  "deps_finding rule rel title excerpt hint = \<lparr>fi_rule_id = ru_id rule, fi_engine = ''deps'',
     fi_severity = ru_severity rule, fi_title = title, fi_file = rel, fi_line = None,
     fi_excerpt = trim160 excerpt, fi_fix_hint = hint, fi_standards = ru_standards rule\<rparr>"

fun git_lock_finding :: "scan_rule \<Rightarrow> lock_pkg \<times> string \<Rightarrow> scan_finding option" where
  "git_lock_finding rule (p, lockfile) = (case lp_source p of None \<Rightarrow> None
     | Some src \<Rightarrow> if starts_with src ''git+'' then
         Some (deps_finding rule lockfile (''git dependency `'' @ lp_name p @ ''` ('' @ src @ '') bypasses registry review'')
           (lp_name p @ '' '' @ lp_version p @ '' = '' @ src) ''Pin to a published release instead of a git source.'')
       else None)"

definition git_findings :: "deps_env \<Rightarrow> scan_context \<Rightarrow> lock_pkg list \<Rightarrow> lock_pkg list \<Rightarrow> scan_rule \<Rightarrow> scan_finding list" where
  "git_findings env ctx cargo npm rule =
     List.map_filter (git_lock_finding rule)
       (map (\<lambda>p. (p, ''Cargo.lock'')) cargo @ map (\<lambda>p. (p, ''package-lock.json'')) npm) @
     map (\<lambda>(rel, dep, kind). deps_finding rule rel (kind @ '' dependency `'' @ dep @ ''` bypasses registry review'')
       (dep @ '' ('' @ kind @ '' source)'') ''Pin to a published release instead of a git/path source.'')
       (scan_manifest_sources (de_toml env) ctx)"

definition wildcard_findings :: "deps_env \<Rightarrow> scan_context \<Rightarrow> scan_rule \<Rightarrow> scan_finding list" where
  "wildcard_findings env ctx rule =
     map (\<lambda>(rel, dep). deps_finding rule rel (''wildcard version requirement for `'' @ dep @ ''`'')
       (dep @ '' = '' @ [CHR 0x22, CHR ''*'', CHR 0x22])
       ''Pin a concrete or caret version range; `*` accepts any future breaking release.'')
       (scan_manifest_wildcards (de_toml env) (de_json env) ctx)"

definition yanked_findings :: "lock_pkg list \<Rightarrow> scan_rule \<Rightarrow> scan_finding list" where
  "yanked_findings cargo rule =
     map (\<lambda>p. deps_finding rule ''Cargo.lock'' (''yanked dependency `'' @ lp_name p @ ''` '' @ lp_version p)
       (lp_name p @ '' '' @ lp_version p @ '' (yanked)'') ''Upgrade off the yanked version; it was pulled for a reason.'')
       (filter lp_yanked cargo)"

definition advisory_findings :: "advisory list \<Rightarrow> lock_pkg list \<Rightarrow> scan_rule \<Rightarrow> scan_finding list" where
  "advisory_findings advisories cargo rule = concat (map (\<lambda>p.
     map (\<lambda>adv. deps_finding rule ''Cargo.lock''
         (lp_name p @ '' '' @ lp_version p @ '' affected by '' @ ad_id adv @ '': '' @ ad_title adv)
         (lp_name p @ '' '' @ lp_version p @ '' <= '' @ ad_id adv) ''Upgrade to a patched release listed in the advisory.'')
       (filter (\<lambda>adv. ad_package adv = lp_name p \<and> affects adv (lp_version p)) advisories)) cargo)"

definition deps_rule :: "deps_env \<Rightarrow> scan_context \<Rightarrow> lock_pkg list \<Rightarrow> lock_pkg list \<Rightarrow> scan_rule \<Rightarrow> scan_finding list" where
  "deps_rule env ctx cargo npm rule =
     (if param_bool ''forbid_git'' False rule then git_findings env ctx cargo npm rule else []) @
     (if param_bool ''forbid_wildcard'' False rule then wildcard_findings env ctx rule else []) @
     (if param_bool ''forbid_yanked'' False rule then yanked_findings cargo rule else []) @
     (if param_str ''db'' rule = Some ''rustsec'' then
        (case advisory_db_dir (de_db_env env) (de_home env) (de_is_dir env) of None \<Rightarrow> []
         | Some dir \<Rightarrow> advisory_findings (load_advisories (de_toml env) (de_walk env dir)) cargo rule)
      else [])"

text \<open>The packages of a lockfile; none where it is missing, unreadable or no lockfile.\<close>

definition locked :: "scan_context \<Rightarrow> string \<Rightarrow> (string \<Rightarrow> lock_pkg list option) \<Rightarrow> lock_pkg list" where
  "locked ctx name parse = (if sc_is_file ctx name then
     (case Option.bind (sc_read ctx name) parse of None \<Rightarrow> [] | Some ps \<Rightarrow> ps) else [])"

definition scan_deps :: "deps_env \<Rightarrow> scan_context \<Rightarrow> scan_rule list \<Rightarrow> engine_outcome" where
  "scan_deps env ctx rules =
     (if \<not> sc_is_file ctx ''Cargo.lock'' \<and> \<not> sc_is_file ctx ''package-lock.json'' then Skipped ''no lockfile''
      else Ran (concat (map (deps_rule env ctx
        (locked ctx ''Cargo.lock'' (parse_cargo_lock (de_toml env)))
        (locked ctx ''package-lock.json'' (parse_npm_lock (de_json env)))) rules)))"
section \<open>The contract of the engine\<close>

lemma deps_finding_of_rule [simp]: "of_rule ''deps'' r (deps_finding r rel title excerpt hint)"
  by (simp add: of_rule_def deps_finding_def)

lemma git_lock_of_rule: "git_lock_finding r pl = Some f \<Longrightarrow> of_rule ''deps'' r f"
proof (cases pl)
  case (Pair p lockfile)
  then show "git_lock_finding r pl = Some f \<Longrightarrow> of_rule ''deps'' r f"
    by (cases "lp_source p") (auto simp only: git_lock_finding.simps option.case option.inject option.distinct
        deps_finding_of_rule split: if_splits)
qed

lemma deps_parts_of_rule:
  "list_all (of_rule ''deps'' r) (git_findings env ctx cargo npm r)"
  "list_all (of_rule ''deps'' r) (wildcard_findings env ctx r)"
  "list_all (of_rule ''deps'' r) (yanked_findings cargo r)"
  "list_all (of_rule ''deps'' r) (advisory_findings advisories cargo r)"
proof -
  show "list_all (of_rule ''deps'' r) (git_findings env ctx cargo npm r)"
    by (auto simp only: git_findings_def list_all_iff set_append mem_map_filter set_map Un_iff git_lock_of_rule
        deps_finding_of_rule split_beta image_iff)
  show "list_all (of_rule ''deps'' r) (wildcard_findings env ctx r)"
    by (auto simp only: wildcard_findings_def list_all_iff set_map deps_finding_of_rule split_beta image_iff)
  show "list_all (of_rule ''deps'' r) (yanked_findings cargo r)"
    by (auto simp only: yanked_findings_def list_all_iff set_map deps_finding_of_rule image_iff)
  show "list_all (of_rule ''deps'' r) (advisory_findings advisories cargo r)"
    by (auto simp only: advisory_findings_def list_all_iff set_map set_concat deps_finding_of_rule image_iff)
qed

lemma deps_rule_of_rule: "list_all (of_rule ''deps'' r) (deps_rule env ctx cargo npm r)"
  by (simp add: deps_rule_def deps_parts_of_rule split: option.split)

interpretation deps: scan_engine "''deps''" "scan_deps env" for env
proof (rule scan_engineI)
  fix ctx rules fs f assume "scan_deps env ctx rules = Ran fs" "f \<in> set fs"
  then obtain r cargo npm where "r \<in> set rules" "f \<in> set (deps_rule env ctx cargo npm r)"
    by (auto simp: scan_deps_def split: if_splits)
  moreover from this have "of_rule ''deps'' r f" using deps_rule_of_rule by (auto simp: list_all_iff)
  ultimately show "\<exists>r \<in> set rules. of_rule ''deps'' r f" by blast
qed

section \<open>Which versions an advisory is reported for\<close>

definition version_number :: "string \<Rightarrow> bool" where
  "version_number v \<longleftrightarrow> v \<noteq> [] \<and> is_ascii_digit (hd v) \<and> list_all version_char v"

lemma extract_requirement:
  assumes "version_number v" "list_all (\<lambda>c. \<not> is_ascii_digit c) op"
  shows "extract_version_core (op @ v) = Some v"
proof -
  have "dropWhile (\<lambda>c. \<not> is_ascii_digit c) (op @ v) = v"
    using assms by (cases v) (simp_all add: version_number_def list_all_iff dropWhile_append1)
  moreover have "takeWhile version_char v = v" using assms(1) by (simp add: version_number_def list_all_iff)
  moreover have "v \<noteq> []" using assms(1) by (simp add: version_number_def)
  ultimately show ?thesis by (simp only: extract_version_core_def Let_def if_False)
qed

lemma bounds_of_versions:
  assumes "doc_get ''versions'' doc = Some (Doc_table t)"
  shows "version_bounds doc = concat (map (\<lambda>key. case Option.bind (map_of t key) as_array of None \<Rightarrow> []
    | Some reqs \<Rightarrow> List.map_filter (\<lambda>r. Option.bind (as_str r) extract_version_core) reqs) [''patched'', ''unaffected''])"
  unfolding version_bounds_def assms by (simp only: option.case) (simp add: doc_get_def)

lemma parse_advisory_bounds:
  assumes "parse_advisory toml body = Some adv"
  obtains front doc where "extract_front_matter body = Some front" "toml front = Some doc" "ad_patched adv = version_bounds doc"
  using assms by (auto simp: parse_advisory_def Option.bind_eq_Some_conv)

text \<open>One patched release line and nothing else: the comparison with its first release is exact.\<close>

lemma one_patched_line:
  assumes "parse_advisory (\<lambda>_. Some doc) body = Some adv" "version_number p"
    and "doc_get ''versions'' doc = Some (Doc_table [(''patched'', Doc_array [Doc_str (''>= '' @ p)])])"
  shows "affects adv v \<longleftrightarrow> version_lt v p"
proof -
  have "ad_patched adv = version_bounds doc" using parse_advisory_bounds [OF assms(1)] by auto
  also have "\<dots> = [p]" using extract_requirement [OF assms(2), of "''>= ''"]
    by (simp add: bounds_of_versions [OF assms(3)] List.map_filter_simps is_ascii_digit_def)
  finally show ?thesis by (simp add: affects_def)
qed

text \<open>
  C32 (unaffected_versions_reported): an advisory that declares the versions below \<open>u\<close> unaffected and those
  from \<open>p\<close> on patched is reported for exactly the versions below \<open>u\<close>: for those it declares
  unaffected, and for none of the vulnerable ones in between. The comparison asks for a version
  below every bound, whatever the operator in front of it.
\<close>

theorem unaffected_versions_reported:
  assumes "parse_advisory toml body = Some adv" "extract_front_matter body = Some front" "toml front = Some doc"
    and "doc_get ''versions'' doc = Some (Doc_table [(''patched'', Doc_array [Doc_str (''>= '' @ p)]),
      (''unaffected'', Doc_array [Doc_str (''< '' @ u)])])"
    and "version_number p" "version_number u" "\<not> version_lt p u"
  shows "affects adv v \<longleftrightarrow> version_lt v u"
proof -
  obtain front' doc' where "extract_front_matter body = Some front'" "toml front' = Some doc'" "ad_patched adv = version_bounds doc'"
    by (rule parse_advisory_bounds [OF assms(1)])
  then have "ad_patched adv = version_bounds doc" using assms(2,3) by simp
  also have "\<dots> = [p, u]"
    using extract_requirement [OF assms(5), of "''>= ''"] extract_requirement [OF assms(6), of "''< ''"]
    by (simp add: bounds_of_versions [OF assms(4)] List.map_filter_simps is_ascii_digit_def)
  finally show ?thesis using assms(7) by (auto simp: affects_def version_lt_def)
qed

definition sample_advisory :: doc_value where
  "sample_advisory = Doc_table
     [(''advisory'', Doc_table [(''id'', Doc_str ''R''), (''package'', Doc_str ''k'')]),
      (''versions'', Doc_table [(''patched'', Doc_array [Doc_str ''>= 1.2.0'']),
        (''unaffected'', Doc_array [Doc_str ''< 1.0.0''])])]"

lemma sample_parsed:
  "parse_advisory (\<lambda>_. Some sample_advisory) (FENCE @ [NL] @ FENCE) =
     Some \<lparr>ad_id = ''R'', ad_package = ''k'', ad_title = [], ad_patched = [''1.2.0'', ''1.0.0'']\<rparr>"
  "extract_front_matter (FENCE @ [NL] @ FENCE) = Some []"
  by code_simp+

lemma unaffected_versions_reported_witness:
  "\<not> affects \<lparr>ad_id = ''R'', ad_package = ''k'', ad_title = [], ad_patched = [''1.2.0'', ''1.0.0'']\<rparr> ''1.1.0'' \<and>
   version_lt ''1.1.0'' ''1.2.0''"
proof
  have "doc_get ''versions'' sample_advisory = Some (Doc_table [(''patched'', Doc_array [Doc_str (''>= '' @ ''1.2.0'')]),
      (''unaffected'', Doc_array [Doc_str (''< '' @ ''1.0.0'')])])" by code_simp
  moreover have "version_number ''1.2.0''" "version_number ''1.0.0''" "\<not> version_lt ''1.2.0'' ''1.0.0''" by code_simp+
  moreover have "\<not> version_lt ''1.1.0'' ''1.0.0''" by code_simp
  ultimately show "\<not> affects \<lparr>ad_id = ''R'', ad_package = ''k'', ad_title = [], ad_patched = [''1.2.0'', ''1.0.0'']\<rparr> ''1.1.0''"
    using unaffected_versions_reported [OF sample_parsed refl] by blast
  show "version_lt ''1.1.0'' ''1.2.0''" by code_simp
qed

end
