(* ===== verification/Scan_Licenses.thy ===== *)
theory Scan_Licenses
  imports Scan_Deps
begin

text \<open>
  The license engine of the security scanner (\<^verbatim>\<open>engines/licenses.rs\<close>): the license of every
  manifest against the lists of a rule, with the inheritance from the workspace, and the SPDX
  headers of source files. Reading a manifest into its typed form is an argument.
\<close>

section \<open>Manifests\<close>

datatype manifest_kind = Cargo | Npm

fun missing_hint :: "manifest_kind \<Rightarrow> string" where
  "missing_hint Cargo = ''add `license = '' @ [CHR 0x22] @ ''MIT'' @ [CHR 0x22] @
     ''` (or your SPDX id) under [package] in Cargo.toml''"
| "missing_hint Npm = ''add a top-level '' @ [CHR 0x22] @ ''license'' @ [CHR 0x22] @ '' field to package.json''"

record manifest_license =
  ml_rel_path :: string
  ml_kind :: manifest_kind
  ml_license :: "string option"

datatype cargo_license_field = License_str string | License_inherited bool

text \<open>\<open>ct_package\<close>: the license field of the package table; \<open>ct_workspace\<close>: that of the workspace's
  package table.\<close>

record cargo_toml =
  ct_package :: "cargo_license_field option option"
  ct_workspace :: "string option option option"

datatype npm_license = Npm_str string | Npm_obj "string option"

fun into_string :: "npm_license \<Rightarrow> string option" where
  "into_string (Npm_str s) = Some s"
| "into_string (Npm_obj t) = t"

record license_env =
  le_cargo :: "string \<Rightarrow> cargo_toml option"
  le_npm :: "string \<Rightarrow> npm_license option option"

definition not_blank :: "string option \<Rightarrow> string option" where
  "not_blank s = (case s of None \<Rightarrow> None | Some t \<Rightarrow> if trim t = [] then None else Some t)"

definition workspace_license :: "cargo_toml \<Rightarrow> string option" where
  "workspace_license c = not_blank (Option.bind (Option.bind (ct_workspace c) id) id)"

text \<open>The directory of a path below the root; the root's own is the empty path.\<close>

definition parent_dir :: "string \<Rightarrow> string" where
  "parent_dir p = join ''/'' (butlast (split_char (CHR ''/'') p))"

lemma length_join_butlast: "xs \<noteq> [] \<Longrightarrow> length (join [d] xs) = length (join [d] (butlast xs)) + length (last xs) + (if length xs = 1 then 0 else 1)"
proof (induction xs)
  case (Cons x xs)
  then show ?case by (cases xs; cases "tl xs") (simp_all split: if_splits)
qed simp

lemma parent_dir_shorter: "p \<noteq> [] \<Longrightarrow> length (parent_dir p) < length p"
proof -
  assume p: "p \<noteq> []"
  have "length p = length (join ''/'' (split_char (CHR ''/'') p))" by simp
  also have "\<dots> = length (parent_dir p) + length (last (split_char (CHR ''/'') p)) +
      (if length (split_char (CHR ''/'') p) = 1 then 0 else 1)"
    unfolding parent_dir_def by (rule length_join_butlast) simp
  finally have len: "length p = \<dots>" .
  show ?thesis
  proof (cases "length (split_char (CHR ''/'') p) = 1")
    case True
    then obtain x where "split_char (CHR ''/'') p = [x]" by (auto simp: length_Suc_conv)
    then show ?thesis using p by (simp add: parent_dir_def)
  next
    case False
    then show ?thesis using len by simp
  qed
qed

text \<open>The directories from one up to the root.\<close>

function dirs_up :: "string \<Rightarrow> string list" where
  "dirs_up d = d # (if d = [] then [] else dirs_up (parent_dir d))"
  by pat_completeness auto
termination by (relation "measure length") (auto dest: parent_dir_shorter)

declare dirs_up.simps [simp del]

fun first_some :: "('a \<Rightarrow> 'b option) \<Rightarrow> 'a list \<Rightarrow> 'b option" where
  "first_some f [] = None"
| "first_some f (x # xs) = (case f x of Some y \<Rightarrow> Some y | None \<Rightarrow> first_some f xs)"

definition find_workspace_license :: "license_env \<Rightarrow> scan_context \<Rightarrow> string \<Rightarrow> string option" where
  "find_workspace_license env ctx rel = first_some (\<lambda>d.
     Option.bind (Option.bind (sc_read ctx (path_join d ''Cargo.toml'')) (le_cargo env)) workspace_license)
     (dirs_up (parent_dir rel))"

definition resolve_cargo_license :: "license_env \<Rightarrow> scan_context \<Rightarrow> string \<Rightarrow> string \<Rightarrow> string option" where
  "resolve_cargo_license env ctx body rel =
     (let package_license = Option.bind (le_cargo env body) (\<lambda>c. Option.bind (ct_package c) (\<lambda>p. case p of
            Some (License_str s) \<Rightarrow> Some s | Some (License_inherited w) \<Rightarrow> None | None \<Rightarrow> None))
      in case not_blank package_license of
        Some s \<Rightarrow> Some s
      | None \<Rightarrow> find_workspace_license env ctx rel)"

definition manifest_of :: "license_env \<Rightarrow> scan_context \<Rightarrow> scan_entry \<Rightarrow> manifest_license option" where
  "manifest_of env ctx e =
     (if is_excluded ctx (se_rel e) then None
      else if file_name (se_rel e) = ''Cargo.toml'' then
        map_option (\<lambda>body. \<lparr>ml_rel_path = unix_slashes (se_rel e), ml_kind = Cargo,
          ml_license = resolve_cargo_license env ctx body (se_rel e)\<rparr>) (entry_text e)
      else if file_name (se_rel e) = ''package.json'' then
        map_option (\<lambda>body. \<lparr>ml_rel_path = unix_slashes (se_rel e), ml_kind = Npm,
          ml_license = not_blank (Option.bind (Option.bind (le_npm env body) id) into_string)\<rparr>) (entry_text e)
      else None)"

definition discover_manifests :: "license_env \<Rightarrow> scan_context \<Rightarrow> manifest_license list" where
  "discover_manifests env ctx =
     sort_by (\<lambda>a b. cmp (ml_rel_path a) (ml_rel_path b)) (List.map_filter (manifest_of env ctx) (sc_walk ctx))"

section \<open>Headers\<close>

definition SPDX :: string where "SPDX = ''SPDX-License-Identifier:''"

text \<open>\<^verbatim>\<open>trim_end_matches\<close> of a text.\<close>

function trim_end_matches :: "string \<Rightarrow> string \<Rightarrow> string" where
  "trim_end_matches p s = (if p \<noteq> [] \<and> ends_with s p then trim_end_matches p (take (length s - length p) s) else s)"
  by pat_completeness auto
termination
proof (relation "measure (\<lambda>(p, s). length s)")
  fix p s :: string assume "p \<noteq> [] \<and> ends_with s p"
  then have "p \<noteq> []" "length p \<le> length s" by (auto simp: ends_with_def starts_with_iff dest: arg_cong [of _ _ length])
  then have "length s - length p < length s" by (intro diff_less) auto
  then show "((p, take (length s - length p) s), (p, s)) \<in> measure (\<lambda>(p, s). length s)"
    unfolding in_measure by simp
qed simp

declare trim_end_matches.simps [simp del]

definition spdx_of_line :: "string \<Rightarrow> string option" where
  "spdx_of_line line = (case cut_at SPDX line of None \<Rightarrow> None
     | Some (_, rest) \<Rightarrow> let i = trim (trim_end_matches ''-->'' (trim_end_matches ''*/'' (trim rest))) in
         if i = [] then None else Some i)"

definition first_lines_spdx :: "string \<Rightarrow> nat \<Rightarrow> string option" where
  "first_lines_spdx body n = first_some spdx_of_line (take n (lines body))"

definition HEADER_EXTS :: "string list" where
  "HEADER_EXTS = [''rs'', ''py'', ''js'', ''jsx'', ''mjs'', ''ts'', ''tsx'', ''go'', ''java'', ''c'', ''h'']"

section \<open>The engine\<close>

definition license_finding :: "scan_rule \<Rightarrow> string \<Rightarrow> nat option \<Rightarrow> string \<Rightarrow> string \<Rightarrow> string \<Rightarrow> scan_finding" where
  "license_finding rule rel line title hint excerpt = \<lparr>fi_rule_id = ru_id rule, fi_engine = ''licenses'',
     fi_severity = ru_severity rule, fi_title = title, fi_file = rel, fi_line = line,
     fi_excerpt = excerpt, fi_fix_hint = hint, fi_standards = ru_standards rule\<rparr>"

fun check_manifest :: "scan_rule \<Rightarrow> string list \<Rightarrow> string list \<Rightarrow> manifest_license \<Rightarrow> scan_finding option" where
  "check_manifest rule forbidden allowed m = (case ml_license m of
     None \<Rightarrow> Some (license_finding rule (ml_rel_path m) None
       (''manifest `'' @ ml_rel_path m @ ''` declares no license field'') (missing_hint (ml_kind m)) ''<missing license field>'')
   | Some license \<Rightarrow>
       if to_ascii_lowercase license \<in> set forbidden then
         Some (license_finding rule (ml_rel_path m) None
           (''forbidden license `'' @ license @ ''` in `'' @ ml_rel_path m @ ''`'')
           (''remove or replace the `'' @ license @ ''` license; it is on the forbidden list'') license)
       else if allowed \<noteq> [] \<and> to_ascii_lowercase license \<notin> set allowed then
         Some (license_finding rule (ml_rel_path m) None
           (''license `'' @ license @ ''` in `'' @ ml_rel_path m @ ''` is not on the allowlist'')
           (''use one of the allowed licenses: '' @ join '', '' allowed) license)
       else None)"

fun check_header :: "scan_rule \<Rightarrow> string list \<Rightarrow> string list \<Rightarrow> string \<Rightarrow> string option \<Rightarrow> scan_finding option" where
  "check_header rule forbidden allowed rel spdx = (case spdx of
     None \<Rightarrow> Some (license_finding rule rel (Some 1)
       (''source file `'' @ rel @ ''` missing SPDX-License-Identifier header'')
       ''add a `// SPDX-License-Identifier: MIT` comment to the file header'' ''<no SPDX header>'')
   | Some i \<Rightarrow>
       if to_ascii_lowercase i \<in> set forbidden then
         Some (license_finding rule rel (Some 1) (''forbidden SPDX header `'' @ i @ ''` in `'' @ rel @ ''`'')
           (''the `'' @ i @ ''` license is on the forbidden list'') i)
       else if allowed \<noteq> [] \<and> to_ascii_lowercase i \<notin> set allowed then
         Some (license_finding rule rel (Some 1) (''SPDX header `'' @ i @ ''` in `'' @ rel @ ''` not on the allowlist'')
           (''use one of the allowed licenses: '' @ join '', '' allowed) i)
       else None)"

definition scan_header_file :: "scan_context \<Rightarrow> scan_rule \<Rightarrow> string list \<Rightarrow> string list \<Rightarrow> scan_entry \<Rightarrow> scan_finding option" where
  "scan_header_file ctx rule forbidden allowed e =
     (if is_excluded ctx (se_rel e) then None
      else case path_extension (se_rel e) of None \<Rightarrow> None
      | Some x \<Rightarrow> if x \<notin> set HEADER_EXTS then None
          else case entry_text e of None \<Rightarrow> None
          | Some body \<Rightarrow> check_header rule forbidden allowed (unix_slashes (se_rel e)) (first_lines_spdx body 5))"

definition scan_headers :: "scan_context \<Rightarrow> scan_rule \<Rightarrow> string list \<Rightarrow> string list \<Rightarrow> scan_finding list" where
  "scan_headers ctx rule forbidden allowed = List.map_filter (scan_header_file ctx rule forbidden allowed) (sc_walk ctx)"

definition lower_all :: "string list \<Rightarrow> string list" where
  "lower_all v = map to_ascii_lowercase v"

definition license_rule :: "scan_context \<Rightarrow> manifest_license list \<Rightarrow> scan_rule \<Rightarrow> scan_finding list" where
  "license_rule ctx manifests rule =
     (let forbidden = lower_all (param_str_list ''forbidden'' rule);
          allowed = lower_all (param_str_list ''allowed'' rule)
      in List.map_filter (check_manifest rule forbidden allowed) manifests @
         (if param_bool ''require_header'' False rule then scan_headers ctx rule forbidden allowed else []))"

definition scan_licenses :: "license_env \<Rightarrow> scan_context \<Rightarrow> scan_rule list \<Rightarrow> engine_outcome" where
  "scan_licenses env ctx rules =
     (if rules = [] then Skipped ''no licenses rules routed''
      else let manifests = discover_manifests env ctx in
        if manifests = [] then Skipped ''no Cargo.toml or package.json found''
        else Ran (concat (map (license_rule ctx manifests) rules)))"

section \<open>The contract of the engine\<close>

lemma license_finding_of_rule: "of_rule ''licenses'' r (license_finding r rel line title hint excerpt)"
  by (simp add: of_rule_def license_finding_def)

lemma check_manifest_of_rule: "check_manifest r forbidden allowed m = Some f \<Longrightarrow> of_rule ''licenses'' r f"
  by (cases "ml_license m") (auto simp only: check_manifest.simps option.case option.inject option.distinct
      license_finding_of_rule split: if_splits)

lemma check_header_of_rule: "check_header r forbidden allowed rel spdx = Some f \<Longrightarrow> of_rule ''licenses'' r f"
  by (cases spdx) (auto simp only: check_header.simps option.case option.inject option.distinct
      license_finding_of_rule split: if_splits)

lemma scan_header_file_of_rule: "scan_header_file ctx r forbidden allowed e = Some f \<Longrightarrow> of_rule ''licenses'' r f"
  unfolding scan_header_file_def
  by (auto simp del: check_header.simps split: if_splits option.splits intro: check_header_of_rule)

interpretation licenses: scan_engine "''licenses''" "scan_licenses env" for env
proof (rule scan_engineI)
  fix ctx rules fs f assume "scan_licenses env ctx rules = Ran fs" "f \<in> set fs"
  then obtain r where r: "r \<in> set rules" "f \<in> set (license_rule ctx (discover_manifests env ctx) r)"
    by (auto simp: scan_licenses_def Let_def split: if_splits)
  from r(2) have "of_rule ''licenses'' r f"
    unfolding license_rule_def scan_headers_def Let_def
    by (auto simp only: set_append Un_iff mem_map_filter check_manifest_of_rule scan_header_file_of_rule
        list.set empty_iff split: if_splits)
  then show "\<exists>r \<in> set rules. of_rule ''licenses'' r f" using r(1) by blast
qed

text \<open>
  When a routed rule has no finding, every manifest of the walk that is not excluded has a
  license, its own or that of the nearest workspace above it, that is not on the rule's forbidden
  list and, when the rule has an allowlist, is on it, whatever the case of its letters.
\<close>

lemma licenses_clean:
  assumes "scan_licenses env ctx rules = Ran fs" "r \<in> set rules" "list_all (\<lambda>f. fi_rule_id f \<noteq> ru_id r) fs"
    and "e \<in> set (sc_walk ctx)" "manifest_of env ctx e = Some m"
  shows "\<exists>license. ml_license m = Some license \<and>
    to_ascii_lowercase license \<notin> set (lower_all (param_str_list ''forbidden'' r)) \<and>
    (param_str_list ''allowed'' r = [] \<or> to_ascii_lowercase license \<in> set (lower_all (param_str_list ''allowed'' r)))"
proof -
  let ?forbidden = "lower_all (param_str_list ''forbidden'' r)" and ?allowed = "lower_all (param_str_list ''allowed'' r)"
  have m: "m \<in> set (discover_manifests env ctx)"
    using assms(4,5) by (auto simp: discover_manifests_def mem_map_filter)
  have none: "check_manifest r ?forbidden ?allowed m = None"
  proof (rule ccontr)
    assume "check_manifest r ?forbidden ?allowed m \<noteq> None"
    then obtain f where f: "check_manifest r ?forbidden ?allowed m = Some f" by blast
    then have "f \<in> set (license_rule ctx (discover_manifests env ctx) r)"
      using m by (auto simp only: license_rule_def Let_def set_append mem_map_filter)
    then have "f \<in> set fs" using assms(1,2) by (auto simp: scan_licenses_def Let_def split: if_splits)
    moreover have "fi_rule_id f = ru_id r"
      using f by (cases "ml_license m") (auto simp add: license_finding_def split: if_splits)
    ultimately show False using assms(3) by (auto simp: list_all_iff)
  qed
  then show ?thesis by (cases "ml_license m") (auto simp: lower_all_def split: if_splits)
qed

definition licensed_tree :: scan_context where
  "licensed_tree = \<lparr>sc_root = ''r'', sc_walk = [\<lparr>se_rel = ''a/Cargo.toml'', se_bytes = Some ''m''\<rparr>], sc_is_file = (\<lambda>_. False),
     sc_read = (\<lambda>p. if p = ''Cargo.toml'' then Some ''w'' else if p = ''a/Cargo.toml'' then Some ''m'' else None), sc_exclude = []\<rparr>"

definition licensed_env :: license_env where
  "licensed_env = \<lparr>le_cargo = (\<lambda>body. if body = ''w'' then Some \<lparr>ct_package = None, ct_workspace = Some (Some (Some ''MIT''))\<rparr>
       else Some \<lparr>ct_package = Some (Some (License_inherited True)), ct_workspace = None\<rparr>),
     le_npm = (\<lambda>_. None)\<rparr>"

definition licensed_rule :: scan_rule where
  "licensed_rule = \<lparr>ru_id = ''l'', ru_engine = ''licenses'', ru_severity = Low, ru_description = [], ru_enabled = True,
     ru_standards = no_standards, ru_params = [(''allowed'', Doc_array [Doc_str ''mit''])]\<rparr>"

lemma licensed_scan: "scan_licenses licensed_env licensed_tree [licensed_rule] = Ran []"
  "manifest_of licensed_env licensed_tree (hd (sc_walk licensed_tree)) =
     Some \<lparr>ml_rel_path = ''a/Cargo.toml'', ml_kind = Cargo, ml_license = Some ''MIT''\<rparr>"
  "hd (sc_walk licensed_tree) \<in> set (sc_walk licensed_tree)"
  by code_simp+

lemma licensed_sample_clean:
  "\<exists>license. ml_license \<lparr>ml_rel_path = ''a/Cargo.toml'', ml_kind = Cargo, ml_license = Some ''MIT''\<rparr> = Some license \<and>
    to_ascii_lowercase license \<notin> set (lower_all (param_str_list ''forbidden'' licensed_rule)) \<and>
    (param_str_list ''allowed'' licensed_rule = [] \<or>
      to_ascii_lowercase license \<in> set (lower_all (param_str_list ''allowed'' licensed_rule)))"
  by (rule licenses_clean [OF licensed_scan(1) _ _ licensed_scan(3,2)]) simp_all

end
