(* ===== verification/Scan_Ai.thy ===== *)
theory Scan_Ai
  imports Scan_Licenses
begin

text \<open>
  The engine for artifacts of generated code (\<^verbatim>\<open>engines/ai.rs\<close>): imports of undeclared packages,
  long base64 literals, dynamic evaluation, unresolved security notes and \<^verbatim>\<open>unsafe\<close> items. The
  regex engine, the reading of TOML and JSON and the manifests above the root are arguments.
\<close>

section \<open>Shared helpers\<close>

definition collect_files :: "scan_context \<Rightarrow> string list \<Rightarrow> (string \<times> string) list" where
  "collect_files ctx exts = List.map_filter (\<lambda>e.
     if is_excluded ctx (se_rel e) then None
     else case path_extension (se_rel e) of None \<Rightarrow> None
     | Some x \<Rightarrow> if \<not> list_ex (\<lambda>y. eq_ignore_ascii_case y x) exts then None
         else map_option (\<lambda>body. (se_rel e, body)) (entry_text e)) (sc_walk ctx)"

definition trim_excerpt :: "string \<Rightarrow> string" where
  "trim_excerpt s = concat (take 160 (chars (trim s)))"

definition ai_finding :: "scan_rule \<Rightarrow> string \<Rightarrow> nat \<Rightarrow> string \<Rightarrow> string \<Rightarrow> string \<Rightarrow> scan_finding" where
  "ai_finding rule rel i title excerpt hint = \<lparr>fi_rule_id = ru_id rule, fi_engine = ''ai'',
     fi_severity = ru_severity rule, fi_title = title, fi_file = rel, fi_line = Some (i + 1),
     fi_excerpt = trim_excerpt excerpt, fi_fix_hint = hint, fi_standards = ru_standards rule\<rparr>"

text \<open>The lines of every file that a check makes something of.\<close>

definition on_lines :: "(string \<Rightarrow> nat \<Rightarrow> string \<Rightarrow> 'a list) \<Rightarrow> (string \<times> string) list \<Rightarrow> 'a list" where
  "on_lines f files = concat (map (\<lambda>(rel, body). concat (map (\<lambda>(i, line). f rel i line) (enumerate 0 (lines body)))) files)"

definition is_match :: "find_iter \<Rightarrow> string \<Rightarrow> string \<Rightarrow> bool" where
  "is_match rx p line \<longleftrightarrow> rx p line \<noteq> []"

text \<open>The first group of the first match.\<close>

definition capture1 :: "find_iter \<Rightarrow> string \<Rightarrow> string \<Rightarrow> string option" where
  "capture1 rx p line = (case rx p line of [] \<Rightarrow> None | m # _ \<Rightarrow> Some (group_text line m 1))"

section \<open>Undeclared imports\<close>

definition RUST_USE :: string where "RUST_USE = pat ''^`s*use`s+([A-Za-z_][A-Za-z0-9_]*)''"
definition RUST_EXTERN :: string where "RUST_EXTERN = pat ''^`s*extern`s+crate`s+([A-Za-z_][A-Za-z0-9_]*)''"

definition quotes_class :: string where "quotes_class = [CHR ''['', CHR 0x27, CHR 0x22, CHR '']'']"
definition quoted_group :: string where
  "quoted_group = quotes_class @ ''([^'' @ [CHR 0x27, CHR 0x22] @ '']+)'' @ quotes_class"

definition JS_IMPORT_FROM :: string where "JS_IMPORT_FROM = pat ''`bfrom`s+'' @ quoted_group"
definition JS_IMPORT_BARE :: string where "JS_IMPORT_BARE = pat ''^`s*import`s+'' @ quoted_group"
definition JS_REQUIRE :: string where "JS_REQUIRE = pat ''`brequire`s*`(`s*'' @ quoted_group @ pat ''`s*`)''"

definition RUST_BUILTINS :: "string list" where
  "RUST_BUILTINS = [''std'', ''core'', ''alloc'', ''self'', ''crate'', ''super'']"

definition NODE_BUILTINS :: "string list" where
  "NODE_BUILTINS = [''assert'', ''buffer'', ''child_process'', ''cluster'', ''console'', ''crypto'', ''dgram'', ''dns'',
     ''events'', ''fs'', ''http'', ''http2'', ''https'', ''net'', ''os'', ''path'', ''process'', ''querystring'', ''readline'',
     ''stream'', ''string_decoder'', ''timers'', ''tls'', ''tty'', ''url'', ''util'', ''v8'', ''vm'', ''worker_threads'', ''zlib'']"

definition normalise_rust_crate :: "string \<Rightarrow> string" where
  "normalise_rust_crate name = map (\<lambda>c. if c = CHR ''-'' then CHR ''_'' else c) name"

definition nearest_manifest_dir :: "scan_context \<Rightarrow> string \<Rightarrow> string option" where
  "nearest_manifest_dir ctx rel = List.find (\<lambda>d. sc_is_file ctx (path_join d ''Cargo.toml'')) (dirs_up (parent_dir rel))"

text \<open>The names a table of dependencies declares, with the packages they rename.\<close>

definition table_names :: "(string \<times> doc_value) list \<Rightarrow> string set" where
  "table_names t = set (map (\<lambda>(name, spec). normalise_rust_crate name) t) \<union>
     set (List.map_filter (\<lambda>(name, spec). map_option normalise_rust_crate (Option.bind (doc_get ''package'' spec) as_str)) t)"

definition section_names :: "doc_value \<Rightarrow> string \<Rightarrow> string set" where
  "section_names v key = (case Option.bind (doc_get key v) as_table of None \<Rightarrow> {} | Some t \<Rightarrow> table_names t)"

definition collect_member_deps :: "doc_value \<Rightarrow> string set" where
  "collect_member_deps v = \<Union> (set (map (section_names v) CARGO_SECTIONS)) \<union>
     (case Option.bind (Option.bind (doc_get ''package'' v) (doc_get ''name'')) as_str of None \<Rightarrow> {}
      | Some name \<Rightarrow> {normalise_rust_crate name})"

definition collect_workspace_deps :: "doc_value \<Rightarrow> string set" where
  "collect_workspace_deps v = (case doc_get ''workspace'' v of None \<Rightarrow> {} | Some w \<Rightarrow> section_names w ''dependencies'')"

record ai_env =
  ae_regex :: find_iter
  ae_toml :: "string \<Rightarrow> doc_value option"
  ae_json :: "string \<Rightarrow> doc_value option"
  ae_above :: "string option list"

text \<open>
  \<open>ae_above\<close>: the manifests of the directories above the root, nearest first. The walk up stops at the
  first manifest that has a workspace table.
\<close>

definition workspace_root_deps :: "ai_env \<Rightarrow> scan_context \<Rightarrow> string set" where
  "workspace_root_deps env ctx = (case first_some (\<lambda>body. Option.bind (Option.bind body (ae_toml env)) (\<lambda>v.
       if doc_get ''workspace'' v \<noteq> None then Some v else None)) (sc_read ctx ''Cargo.toml'' # ae_above env) of
     None \<Rightarrow> {} | Some v \<Rightarrow> collect_workspace_deps v)"

definition declared_rust_deps :: "ai_env \<Rightarrow> scan_context \<Rightarrow> string \<Rightarrow> string set" where
  "declared_rust_deps env ctx dir = workspace_root_deps env ctx \<union>
     (case Option.bind (sc_read ctx (path_join dir ''Cargo.toml'')) (ae_toml env) of None \<Rightarrow> {}
      | Some v \<Rightarrow> collect_member_deps v \<union> collect_workspace_deps v)"

definition is_local_module :: "scan_context \<Rightarrow> string \<Rightarrow> string \<Rightarrow> string \<Rightarrow> bool" where
  "is_local_module ctx seg rel crate_dir \<longleftrightarrow> list_ex (\<lambda>base.
     sc_is_file ctx (path_join base (seg @ ''.rs'')) \<or> sc_is_file ctx (path_join (path_join base seg) ''mod.rs''))
     [path_join crate_dir ''src'', parent_dir rel]"

definition comment_line :: "string list \<Rightarrow> string \<Rightarrow> bool" where
  "comment_line marks line \<longleftrightarrow> list_ex (starts_with (trim_start line)) marks"

definition rust_import_line ::
  "ai_env \<Rightarrow> scan_context \<Rightarrow> scan_rule \<Rightarrow> string set \<Rightarrow> string \<Rightarrow> string \<Rightarrow> nat \<Rightarrow> string \<Rightarrow> scan_finding list" where
  "rust_import_line env ctx rule declared crate_dir rel i line =
     (if comment_line [''//'', ''*''] line then []
      else case (case capture1 (ae_regex env) RUST_USE line of Some s \<Rightarrow> Some s
                 | None \<Rightarrow> capture1 (ae_regex env) RUST_EXTERN line) of
        None \<Rightarrow> []
      | Some seg \<Rightarrow> let krate = normalise_rust_crate seg in
          if krate \<in> set RUST_BUILTINS \<or> krate \<in> declared \<or> is_local_module ctx seg rel crate_dir then []
          else [ai_finding rule rel i (''import of undeclared crate `'' @ krate @ ''` (possible AI hallucination)'') line
            ''Verify the crate exists and add it to Cargo.toml, or remove the import.''])"

definition rust_imports :: "ai_env \<Rightarrow> scan_context \<Rightarrow> scan_rule \<Rightarrow> (string \<times> string) list \<Rightarrow> scan_finding list" where
  "rust_imports env ctx rule rust_files = concat (map (\<lambda>(rel, body).
     case nearest_manifest_dir ctx rel of None \<Rightarrow> []
     | Some crate_dir \<Rightarrow> let declared = declared_rust_deps env ctx crate_dir in
         if declared = {} then []
         else on_lines (rust_import_line env ctx rule declared crate_dir) [(rel, body)]) rust_files)"

definition js_package_root :: "string \<Rightarrow> string" where
  "js_package_root spec0 = (let spec = (case strip_prefix spec0 ''node:'' of Some s \<Rightarrow> s | None \<Rightarrow> spec0) in
     case strip_prefix spec ''@'' of
       Some rest \<Rightarrow> (let parts = split_char (CHR ''/'') rest; name = (if length parts < 2 then [] else parts ! 1) in
         if name = [] then ''@'' @ hd parts else ''@'' @ hd parts @ ''/'' @ name)
     | None \<Rightarrow> hd (split_char (CHR ''/'') spec))"

definition declared_js_deps :: "ai_env \<Rightarrow> scan_context \<Rightarrow> string set" where
  "declared_js_deps env ctx = (case Option.bind (sc_read ctx ''package.json'') (ae_json env) of None \<Rightarrow> {}
     | Some v \<Rightarrow> set (concat (map (\<lambda>key. case Option.bind (doc_get key v) as_table of None \<Rightarrow> [] | Some t \<Rightarrow> map fst t)
         [''dependencies'', ''devDependencies'', ''peerDependencies'', ''optionalDependencies''])))"

definition js_import_line :: "ai_env \<Rightarrow> scan_rule \<Rightarrow> string set \<Rightarrow> string \<Rightarrow> nat \<Rightarrow> string \<Rightarrow> scan_finding list" where
  "js_import_line env rule declared rel i line =
     (if comment_line [''//'', ''*''] line then []
      else concat (map (\<lambda>spec.
        if starts_with spec ''.'' \<or> starts_with spec ''/'' then []
        else let pkg = js_package_root spec in
          if pkg \<in> set NODE_BUILTINS \<or> pkg \<in> declared then []
          else [ai_finding rule rel i (''import of undeclared package `'' @ pkg @ ''` (possible AI hallucination)'') line
            (''Verify the package exists on the registry and add it to package.json, '' @ ''or remove the import.'')])
        (List.map_filter (\<lambda>p. capture1 (ae_regex env) p line) [JS_IMPORT_FROM, JS_IMPORT_BARE, JS_REQUIRE])))"

definition js_imports :: "ai_env \<Rightarrow> scan_context \<Rightarrow> scan_rule \<Rightarrow> (string \<times> string) list \<Rightarrow> scan_finding list" where
  "js_imports env ctx rule js_files = (let declared = declared_js_deps env ctx in
     if declared = {} then [] else on_lines (js_import_line env rule declared) js_files)"

definition check_hallucinated_imports ::
  "ai_env \<Rightarrow> scan_context \<Rightarrow> scan_rule \<Rightarrow> (string \<times> string) list \<Rightarrow> (string \<times> string) list \<Rightarrow> scan_finding list" where
  "check_hallucinated_imports env ctx rule rust_files js_files =
     rust_imports env ctx rule rust_files @ js_imports env ctx rule js_files"

section \<open>Suspicious lines\<close>

definition BASE64_BLOB :: string where "BASE64_BLOB = ''[A-Za-z0-9+/]{120,}={0,2}''"

definition base64_line :: "ai_env \<Rightarrow> scan_rule \<Rightarrow> string \<Rightarrow> nat \<Rightarrow> string \<Rightarrow> scan_finding list" where
  "base64_line env rule rel i line = (case ae_regex env BASE64_BLOB line of [] \<Rightarrow> []
     | m # _ \<Rightarrow> let blob = between line (m_start m) (m_end m) in
         [ai_finding rule rel i (''suspicious base64 blob ('' @ nat_str (length blob) @ '' chars) in source'')
           (take 24 blob @ [CHR 0xE2, CHR 0x80, CHR 0xA6] @ ''(+'' @ nat_str (length blob) @ '' chars)'')
           (''Inspect this literal; large embedded base64 can smuggle a payload. '' @
            ''Load such data from a vetted external resource instead.'')])"

definition check_base64_blob ::
  "ai_env \<Rightarrow> scan_context \<Rightarrow> scan_rule \<Rightarrow> (string \<times> string) list \<Rightarrow> (string \<times> string) list \<Rightarrow> scan_finding list" where
  "check_base64_blob env ctx rule rust_files js_files =
     on_lines (base64_line env rule) (rust_files @ js_files @ collect_files ctx [''py''])"

definition EVAL_PATTERNS :: "(string \<times> string) list" where
  "EVAL_PATTERNS =
    [(pat ''`beval`s*`('', ''dynamic eval() of untrusted input''),
     (pat ''`bexec`s*`('', ''dynamic exec() of untrusted input''),
     (pat ''`bnew`s+Function`s*`('', ''new Function() builds code from a string''),
     (pat ''`bFunction`s*`('', ''Function() constructor builds code from a string''),
     (''child_process'', ''child_process invocation''),
     (pat ''pickle`.loads`s*`('', ''pickle.loads() deserialises arbitrary objects'')]"

definition eval_line :: "ai_env \<Rightarrow> scan_rule \<Rightarrow> string \<Rightarrow> nat \<Rightarrow> string \<Rightarrow> scan_finding list" where
  "eval_line env rule rel i line =
     (if comment_line [''//'', ''#'', ''*''] line then []
      else case List.find (\<lambda>(re, desc). is_match (ae_regex env) re line) EVAL_PATTERNS of None \<Rightarrow> []
      | Some (re, desc) \<Rightarrow> [ai_finding rule rel i (desc @ '' without validation'') line
          ''Avoid dynamic code execution; validate/allowlist inputs or use a safe parser.''])"

definition check_eval_usage :: "ai_env \<Rightarrow> scan_context \<Rightarrow> scan_rule \<Rightarrow> scan_finding list" where
  "check_eval_usage env ctx rule = on_lines (eval_line env rule)
     (collect_files ctx [''rs'', ''py'', ''js'', ''jsx'', ''mjs'', ''cjs'', ''ts'', ''tsx''])"

definition TODO_SECRET :: string where
  "TODO_SECRET = pat (''(?i)`b(TODO|FIXME|XXX)`b.*'' @ ''`b(auth|secret|password|passwd|token|credential|api[_-]?key)`b'')"

definition todo_line :: "ai_env \<Rightarrow> scan_rule \<Rightarrow> string \<Rightarrow> nat \<Rightarrow> string \<Rightarrow> scan_finding list" where
  "todo_line env rule rel i line =
     (if is_match (ae_regex env) TODO_SECRET line then
        [ai_finding rule rel i ''security TODO/FIXME left near auth/secret handling'' line
          (''Resolve the security stub before shipping; '' @ ''AI-generated code often leaves auth gaps marked as TODO.'')]
      else [])"

definition check_todo_secret :: "ai_env \<Rightarrow> scan_context \<Rightarrow> scan_rule \<Rightarrow> scan_finding list" where
  "check_todo_secret env ctx rule = on_lines (todo_line env rule)
     (collect_files ctx [''rs'', ''py'', ''js'', ''jsx'', ''mjs'', ''cjs'', ''ts'', ''tsx'', ''go'', ''java'', ''rb'', ''php''])"

definition UNSAFE_BLOCK :: string where "UNSAFE_BLOCK = pat ''`bunsafe`s*(`{|fn`b|impl`b|trait`b)''"

definition unsafe_line :: "ai_env \<Rightarrow> scan_rule \<Rightarrow> string \<Rightarrow> nat \<Rightarrow> string \<Rightarrow> scan_finding list" where
  "unsafe_line env rule rel i line =
     (if comment_line [''//''] line then []
      else if is_match (ae_regex env) UNSAFE_BLOCK line then
        [ai_finding rule rel i ''Rust `unsafe` block/item'' line
          (''Confirm the unsafe is necessary and sound; '' @ ''AI often emits unneeded unsafe. Prefer safe abstractions.'')]
      else [])"

definition check_unsafe_block :: "ai_env \<Rightarrow> scan_rule \<Rightarrow> (string \<times> string) list \<Rightarrow> scan_finding list" where
  "check_unsafe_block env rule rust_files = on_lines (unsafe_line env rule) rust_files"

section \<open>The engine\<close>

definition ai_rule :: "ai_env \<Rightarrow> scan_context \<Rightarrow> (string \<times> string) list \<Rightarrow> (string \<times> string) list \<Rightarrow> scan_rule \<Rightarrow> scan_finding list" where
  "ai_rule env ctx rust_files js_files rule =
     (let chk = (case param_str ''check'' rule of Some c \<Rightarrow> c | None \<Rightarrow> []) in
      if chk = ''hallucinated-import'' then check_hallucinated_imports env ctx rule rust_files js_files
      else if chk = ''base64-blob'' then check_base64_blob env ctx rule rust_files js_files
      else if chk = ''eval-usage'' then check_eval_usage env ctx rule
      else if chk = ''todo-secret'' then check_todo_secret env ctx rule
      else if chk = ''unsafe-block'' then check_unsafe_block env rule rust_files
      else [])"

definition scan_ai :: "ai_env \<Rightarrow> scan_context \<Rightarrow> scan_rule list \<Rightarrow> engine_outcome" where
  "scan_ai env ctx rules = Ran (concat (map (ai_rule env ctx (collect_files ctx [''rs''])
     (collect_files ctx [''js'', ''jsx'', ''mjs'', ''cjs'', ''ts'', ''tsx''])) rules))"
section \<open>The contract of the engine\<close>

lemma ai_finding_of_rule [simp]: "of_rule ''ai'' r (ai_finding r rel i title excerpt hint)"
  by (simp add: of_rule_def ai_finding_def)

lemma on_lines_all: "(\<And>rel i line. list_all P (f rel i line)) \<Longrightarrow> list_all P (on_lines f files)"
  by (auto simp: on_lines_def list_all_iff split: prod.splits)

lemma list_all_concat: "(\<And>x. x \<in> set xs \<Longrightarrow> list_all P (f x)) \<Longrightarrow> list_all P (concat (map f xs))"
  by (auto simp: list_all_iff)

lemma ai_lines_of_rule:
  "list_all (of_rule ''ai'' r) (rust_import_line env ctx r declared dir rel i line)"
  "list_all (of_rule ''ai'' r) (js_import_line env r declared rel i line)"
  "list_all (of_rule ''ai'' r) (base64_line env r rel i line)"
  "list_all (of_rule ''ai'' r) (eval_line env r rel i line)"
  "list_all (of_rule ''ai'' r) (todo_line env r rel i line)"
  "list_all (of_rule ''ai'' r) (unsafe_line env r rel i line)"
proof -
  show "list_all (of_rule ''ai'' r) (rust_import_line env ctx r declared dir rel i line)"
    by (simp add: rust_import_line_def Let_def split: option.split)
  show "list_all (of_rule ''ai'' r) (js_import_line env r declared rel i line)"
    unfolding js_import_line_def Let_def
    by (cases "comment_line [''//'', ''*''] line") (simp_all add: list_all_concat)
  show "list_all (of_rule ''ai'' r) (base64_line env r rel i line)"
    by (cases "ae_regex env BASE64_BLOB line") (simp_all add: base64_line_def Let_def)
  show "list_all (of_rule ''ai'' r) (eval_line env r rel i line)"
    by (simp add: eval_line_def split: option.split)
  show "list_all (of_rule ''ai'' r) (todo_line env r rel i line)" by (simp add: todo_line_def)
  show "list_all (of_rule ''ai'' r) (unsafe_line env r rel i line)" by (simp add: unsafe_line_def)
qed

lemma rust_imports_of_rule: "list_all (of_rule ''ai'' r) (rust_imports env ctx r files)"
  unfolding rust_imports_def
  by (rule list_all_concat) (auto simp: Let_def intro!: on_lines_all ai_lines_of_rule split: option.split)

lemma ai_rule_of_rule: "list_all (of_rule ''ai'' r) (ai_rule env ctx rust js r)"
  unfolding ai_rule_def check_hallucinated_imports_def js_imports_def check_base64_blob_def check_eval_usage_def
    check_todo_secret_def check_unsafe_block_def Let_def
  by (simp add: rust_imports_of_rule on_lines_all ai_lines_of_rule)

interpretation ai: scan_engine "''ai''" "scan_ai env" for env
proof (rule scan_engineI)
  fix ctx rules fs f assume "scan_ai env ctx rules = Ran fs" "f \<in> set fs"
  then obtain r where r: "r \<in> set rules" "f \<in> set (ai_rule env ctx (collect_files ctx [''rs''])
      (collect_files ctx [''js'', ''jsx'', ''mjs'', ''cjs'', ''ts'', ''tsx'']) r)"
    unfolding scan_ai_def by auto
  then have "of_rule ''ai'' r f" using ai_rule_of_rule unfolding list_all_iff by blast
  then show "\<exists>r \<in> set rules. of_rule ''ai'' r f" using r(1) by blast
qed

end
