(* ===== verification/Scan.thy ===== *)
theory Scan
  imports Scan_Text Scan_Ai
begin

text \<open>
  The security scanner as a whole: the registry of engines (\<^verbatim>\<open>engines/mod.rs\<close>) and what a report
  says of the scan it comes from.
\<close>

record scan_env =
  sv_compiles :: "string \<Rightarrow> bool"
  sv_low_entropy :: "string \<Rightarrow> bool"
  sv_licenses :: license_env
  sv_deps :: deps_env
  sv_ai :: ai_env

definition registry :: "scan_env \<Rightarrow> engine list" where
  "registry env =
    [\<lparr>eg_name = ''secrets'', eg_scan = scan_secrets (ae_regex (sv_ai env)) (sv_low_entropy env)\<rparr>,
     \<lparr>eg_name = ''licenses'', eg_scan = scan_licenses (sv_licenses env)\<rparr>,
     \<lparr>eg_name = ''deps'', eg_scan = scan_deps (sv_deps env)\<rparr>,
     \<lparr>eg_name = ''patterns'', eg_scan = scan_patterns (sv_compiles env) (ae_regex (sv_ai env))\<rparr>,
     \<lparr>eg_name = ''ai'', eg_scan = scan_ai (sv_ai env)\<rparr>]"

section \<open>Routing\<close>

text \<open>The rules filed under an engine are the enabled rules that name it, in the order of the profile.\<close>

lemma rules_filed:
  "bt_wf (rules_by_engine p) \<and>
   bt_get (rules_by_engine p) name = (let rs = filter (\<lambda>r. ru_engine r = name \<and> ru_enabled r) (pf_rules p) in
     if rs = [] then None else Some rs)"
proof -
  have "bt_wf m \<Longrightarrow> bt_wf (foldl (\<lambda>m r. bt_entry [] (ru_engine r) (\<lambda>rs. rs @ [r]) m) m xs) \<and>
      bt_get (foldl (\<lambda>m r. bt_entry [] (ru_engine r) (\<lambda>rs. rs @ [r]) m) m xs) name =
        (let rs = filter (\<lambda>r. ru_engine r = name) xs in
         if rs = [] then bt_get m name else Some (bt_get_or [] m name @ rs))" for m xs
  proof (induction xs arbitrary: m)
    case (Cons x xs)
    then show ?case by (auto simp: bt_entry_def bt_get_insert bt_get_or_def Let_def split: option.splits)
  qed simp
  from this [of "[]" "filter ru_enabled (pf_rules p)"] show ?thesis
    by (simp add: rules_by_engine_def bt_get_or_def Let_def conj_commute)
qed

text \<open>Which engines a profile asks for, with which rules: written without the map that the code builds.\<close>

definition asked :: "scan_profile \<Rightarrow> (string \<times> scan_rule list) list" where
  "asked p = (let rules = filter ru_enabled (pf_rules p)
     in map (\<lambda>name. (name, filter (\<lambda>r. ru_engine r = name) rules)) (sorted_list_of_set (ru_engine ` set rules)))"

lemma rules_by_engine_asked: "rules_by_engine p = asked p"
proof (rule bt_wf_eqI)
  let ?names = "ru_engine ` set (filter ru_enabled (pf_rules p))"
  show "bt_wf (rules_by_engine p)" using rules_filed by blast
  show "bt_wf (asked p)" by (simp add: bt_wf_def asked_def comp_def strict_sorted_iff Let_def)
  fix name
  have "bt_get (asked p) name = (if name \<in> ?names then Some (filter (\<lambda>r. ru_engine r = name) (filter ru_enabled (pf_rules p))) else None)"
    unfolding asked_def Let_def by (simp add: map_of_map_restrict del: set_filter)
  then show "bt_get (rules_by_engine p) name = bt_get (asked p) name"
    using rules_filed [of p name] by (auto simp: Let_def filter_empty_conv image_iff conj_commute)
qed

lemma rules_filed_in:
  assumes "(name, rules) \<in> set (rules_by_engine p)"
  shows "rules = filter (\<lambda>r. ru_engine r = name \<and> ru_enabled r) (pf_rules p)"
  using rules_filed [of p name] bt_get_in [of "rules_by_engine p" name rules] assms by (auto simp: Let_def split: if_splits)

text \<open>The runs of the engines, in order: what each found, or why it did not run.\<close>

definition outcome_of :: "engine list \<Rightarrow> scan_context \<Rightarrow> string \<times> scan_rule list \<Rightarrow> engine_outcome" where
  "outcome_of engines ctx nr = (case List.find (\<lambda>e. eg_name e = fst nr) engines of
     None \<Rightarrow> Skipped ''no such engine'' | Some e \<Rightarrow> eg_scan e ctx (snd nr))"

fun found :: "engine_outcome \<Rightarrow> scan_finding list" where
  "found (Ran fs) = fs"
| "found (Skipped reason) = []"

fun ran :: "engine_outcome \<Rightarrow> bool" where
  "ran (Ran fs) = True"
| "ran (Skipped reason) = False"

text \<open>The line that tells of an engine that did not run.\<close>

fun skip_notice :: "string \<Rightarrow> engine_outcome \<Rightarrow> string list" where
  "skip_notice name (Ran fs) = []"
| "skip_notice name (Skipped reason) = [name @ '': '' @ reason]"

lemma run_engines:
  "rp_findings (foldl (\<lambda>rp er. run_engine engines ctx er rp) rp nrs) =
     rp_findings rp @ concat (map (found \<circ> outcome_of engines ctx) nrs)"
  "rp_engines_run (foldl (\<lambda>rp er. run_engine engines ctx er rp) rp nrs) =
     rp_engines_run rp @ map fst (filter (ran \<circ> outcome_of engines ctx) nrs)"
  "rp_engines_skipped (foldl (\<lambda>rp er. run_engine engines ctx er rp) rp nrs) =
     rp_engines_skipped rp @ concat (map (\<lambda>nr. skip_notice (fst nr) (outcome_of engines ctx nr)) nrs)"
proof (induction nrs arbitrary: rp)
  case (Cons nr nrs)
  obtain name rules where nr: "nr = (name, rules)" by fastforce
  {
    case 1
    then show ?case using Cons(1) unfolding nr by (simp add: outcome_of_def split: option.splits engine_outcome.splits)
  next
    case 2
    then show ?case using Cons(2) unfolding nr by (simp add: outcome_of_def split: option.splits engine_outcome.splits)
  next
    case 3
    then show ?case using Cons(3) unfolding nr by (simp add: outcome_of_def split: option.splits engine_outcome.splits)
  }
qed simp_all

text \<open>The counts of a list of findings.\<close>

definition counted :: "severity \<Rightarrow> scan_finding list \<Rightarrow> nat" where
  "counted s fs = length (filter (\<lambda>f. fi_severity f = s) fs)"

lemma counts_folded:
  "foldl (\<lambda>c f. counts_add (fi_severity f) c) c fs =
     \<lparr>ct_critical = ct_critical c + counted Critical fs, ct_high = ct_high c + counted High fs,
      ct_medium = ct_medium c + counted Medium fs, ct_low = ct_low c + counted Low fs, ct_info = ct_info c + counted Info fs\<rparr>"
proof (induction fs arbitrary: c)
  case (Cons f fs)
  then show ?case by (cases "fi_severity f") (simp_all add: counted_def)
qed (simp add: counted_def)

lemma counted_total: "counted Critical fs + counted High fs + counted Medium fs + counted Low fs + counted Info fs = length fs"
proof (induction fs)
  case (Cons f fs)
  then show ?case by (cases "fi_severity f") (simp_all add: counted_def)
qed (simp add: counted_def)

lemma counted_pos: "0 < counted s fs \<longleftrightarrow> list_ex (\<lambda>f. fi_severity f = s) fs"
  by (auto simp: counted_def list_ex_iff filter_empty_conv)

section \<open>The order of the findings\<close>

definition in_rank :: "scan_finding \<Rightarrow> scan_finding \<Rightarrow> bool" where
  "in_rank a b \<longleftrightarrow> fi_severity b < fi_severity a \<or> fi_severity a = fi_severity b \<and> fi_file a \<le> fi_file b"

lemma finding_order_rank: "finding_order a b \<noteq> Greater \<longleftrightarrow> in_rank a b"
  by (auto simp: finding_order_def in_rank_def cmp_def)

lemma in_rank_trans: "in_rank a b \<Longrightarrow> in_rank b c \<Longrightarrow> in_rank a c"
  by (auto simp: in_rank_def)

interpretation findings: total_comparator finding_order
proof
  fix x y z
  show "finding_order y x = reverse_ord (finding_order x y)"
    by (auto simp: finding_order_def cmp_def)
  show "finding_order x y \<noteq> Greater \<Longrightarrow> finding_order y z \<noteq> Greater \<Longrightarrow> finding_order x z \<noteq> Greater"
    unfolding finding_order_rank by (rule in_rank_trans)
qed

fun counts_of :: "severity \<Rightarrow> severity_counts \<Rightarrow> nat" where
  "counts_of Critical c = ct_critical c"
| "counts_of High c = ct_high c"
| "counts_of Medium c = ct_medium c"
| "counts_of Low c = ct_low c"
| "counts_of Info c = ct_info c"

definition outcomes :: "engine list \<Rightarrow> scan_profile \<Rightarrow> scan_context \<Rightarrow> engine_outcome list" where
  "outcomes engines profile tree =
     map (outcome_of engines (tree\<lparr>sc_exclude := pf_exclude profile\<rparr>)) (rules_by_engine profile)"

lemma report_parts:
  "rp_findings (run_scan engines profile tree) = sort_by finding_order (concat (map found (outcomes engines profile tree)))"
  "rp_counts (run_scan engines profile tree) =
     foldl (\<lambda>c f. counts_add (fi_severity f) c) zero_counts (rp_findings (run_scan engines profile tree))"
  "rp_engines_run (run_scan engines profile tree) =
     map fst (filter (ran \<circ> outcome_of engines (tree\<lparr>sc_exclude := pf_exclude profile\<rparr>)) (rules_by_engine profile))"
  "rp_engines_skipped (run_scan engines profile tree) =
     concat (map (\<lambda>nr. skip_notice (fst nr) (outcome_of engines (tree\<lparr>sc_exclude := pf_exclude profile\<rparr>) nr)) (rules_by_engine profile))"
  by (simp_all add: run_scan_def Let_def run_engines outcomes_def)

lemma counts_of_report:
  "counts_of s (rp_counts (run_scan engines profile tree)) = counted s (rp_findings (run_scan engines profile tree))"
  unfolding report_parts(2) counts_folded by (cases s) (simp_all add: zero_counts_def)

text \<open>
  C13 (report_accounts): a report accounts for the whole scan. The engines asked are those that an enabled
  rule of the profile names, each once, in the order of their names and with exactly its enabled
  rules in the order of the profile. The report names, in that order, the engines that ran, and
  for every other one a line with its name and the reason. It lists exactly what the
  engines that ran found, each finding as often as it was found, most severe first and by file
  within a severity; the counts are those of the listed findings and add up to their number; and
  the gate fails at a threshold exactly when a severity from there on has a count.
\<close>

theorem report_accounts:
  "let report = run_scan engines profile tree;
       outcome = outcome_of engines (tree\<lparr>sc_exclude := pf_exclude profile\<rparr>);
       asked_engines = asked profile in
     mset (rp_findings report) = mset (concat (map (\<lambda>nr. found (outcome nr)) asked_engines)) \<and>
     sorted_wrt in_rank (rp_findings report) \<and>
     rp_engines_run report = map fst (filter (\<lambda>nr. ran (outcome nr)) asked_engines) \<and>
     rp_engines_skipped report = concat (map (\<lambda>nr. skip_notice (fst nr) (outcome nr)) asked_engines) \<and>
     counts_of s (rp_counts report) = counted s (rp_findings report) \<and>
     counts_total (rp_counts report) = length (rp_findings report) \<and>
     (fails_gate report threshold \<longleftrightarrow> (\<exists>v. threshold \<le> v \<and> 0 < counts_of v (rp_counts report)))"
proof -
  let ?r = "run_scan engines profile tree" and ?o = "outcome_of engines (tree\<lparr>sc_exclude := pf_exclude profile\<rparr>)"
  have 1: "mset (rp_findings ?r) = mset (concat (map (\<lambda>nr. found (?o nr)) (asked profile)))"
    unfolding report_parts(1) mset_sort_by outcomes_def rules_by_engine_asked by (simp add: comp_def)
  have 2: "sorted_wrt in_rank (rp_findings ?r)"
    using findings.sort_by_sorted unfolding report_parts(1) finding_order_rank .
  have 3: "counts_total (rp_counts ?r) = length (rp_findings ?r)"
    unfolding report_parts(2) counts_folded using counted_total [of "rp_findings ?r"]
    by (simp add: counts_total_def zero_counts_def)
  have 4: "rp_engines_run ?r = map fst (filter (\<lambda>nr. ran (?o nr)) (asked profile))"
    unfolding report_parts(3) rules_by_engine_asked by (simp add: comp_def)
  have 5: "fails_gate ?r threshold \<longleftrightarrow> (\<exists>v. threshold \<le> v \<and> 0 < counts_of v (rp_counts ?r))"
    unfolding fails_gate_def counts_of_report counted_pos list_ex_iff by auto
  have 6: "rp_engines_skipped ?r = concat (map (\<lambda>nr. skip_notice (fst nr) (?o nr)) (asked profile))"
    unfolding report_parts(4) rules_by_engine_asked ..
  show ?thesis unfolding Let_def using 1 2 3 4 5 6 counts_of_report by blast
qed

text \<open>Every engine of the registry keeps the contract.\<close>

lemma registry_contract: "e \<in> set (registry env) \<Longrightarrow> scan_engine (eg_name e) (eg_scan e)"
  unfolding registry_def
  using secrets.scan_engine_axioms licenses.scan_engine_axioms deps.scan_engine_axioms patterns.scan_engine_axioms
    ai.scan_engine_axioms by auto

lemma find_named: "List.find (\<lambda>e. eg_name e = name) es = Some e \<Longrightarrow> e \<in> set es \<and> eg_name e = name"
  by (auto simp: find_Some_iff)

text \<open>
  C12 (report_traced): every finding of a report comes from an enabled rule of the profile: the finding names
  that rule's engine, which the report lists as run, and carries the rule's severity and standards.
\<close>

theorem report_traced:
  assumes "f \<in> set (rp_findings (run_scan (registry env) profile tree))"
  shows "\<exists>r. r \<in> set (pf_rules profile) \<and> ru_enabled r \<and> ru_engine r = fi_engine f \<and> fi_severity f = ru_severity r \<and>
    fi_standards f = ru_standards r \<and> fi_engine f \<in> set (rp_engines_run (run_scan (registry env) profile tree))"
proof -
  let ?ctx = "tree\<lparr>sc_exclude := pf_exclude profile\<rparr>"
  obtain name rules where nr: "(name, rules) \<in> set (rules_by_engine profile)"
    and f: "f \<in> set (found (outcome_of (registry env) ?ctx (name, rules)))"
    using assms unfolding report_parts(1) outcomes_def by auto
  then obtain fs where fs: "outcome_of (registry env) ?ctx (name, rules) = Ran fs" "f \<in> set fs"
    by (cases "outcome_of (registry env) ?ctx (name, rules)") auto
  then obtain e where "List.find (\<lambda>e. eg_name e = name) (registry env) = Some e" and scan: "eg_scan e ?ctx rules = Ran fs"
    by (auto simp: outcome_of_def split: option.splits)
  then have e: "e \<in> set (registry env)" "eg_name e = name" using find_named by blast+
  have "scan_engine name (eg_scan e)" using registry_contract [OF e(1)] e(2) by simp
  from scan_engine.traced [OF this scan [unfolded rules_filed_in [OF nr]] fs(2)] scan_engine.named [OF this scan fs(2)]
  have r: "\<exists>r \<in> set (pf_rules profile). ru_enabled r \<and> ru_engine r = fi_engine f \<and> fi_severity f = ru_severity r \<and>
    fi_standards f = ru_standards r" and n: "fi_engine f = name" by blast+
  have "name \<in> set (rp_engines_run (run_scan (registry env) profile tree))"
    unfolding report_parts(3) using nr fs(1) by force
  then show ?thesis using r n by blast
qed

definition leaky_env :: scan_env where
  "leaky_env = \<lparr>sv_compiles = (\<lambda>_. False), sv_low_entropy = (\<lambda>_. False),
     sv_licenses = \<lparr>le_cargo = (\<lambda>_. None), le_npm = (\<lambda>_. None)\<rparr>,
     sv_deps = \<lparr>de_toml = (\<lambda>_. None), de_json = (\<lambda>_. None), de_db_env = None, de_home = None, de_is_dir = (\<lambda>_. False), de_walk = (\<lambda>_. [])\<rparr>,
     sv_ai = \<lparr>ae_regex = documented (\<lambda>_. False), ae_toml = (\<lambda>_. None), ae_json = (\<lambda>_. None), ae_above = []\<rparr>\<rparr>"

definition leaky_profile :: scan_profile where
  "leaky_profile = \<lparr>pf_name = ''p'', pf_description = [], pf_severity_threshold = High, pf_exclude = [], pf_rules = [leaky_rule]\<rparr>"

lemma leaky_report: "leaky_finding \<in> set (rp_findings (run_scan (registry leaky_env) leaky_profile leaky_tree))"
proof -
  have "rules_by_engine leaky_profile = [(''secrets'', [leaky_rule])]" by code_simp
  moreover have "leaky_tree\<lparr>sc_exclude := []\<rparr> = leaky_tree" by (simp add: leaky_tree_def)
  ultimately show ?thesis unfolding report_parts(1) outcomes_def
    using leaky_scan leaky_found by (simp add: outcome_of_def registry_def leaky_env_def leaky_profile_def)
qed

lemma report_traced_witness:
  "\<exists>r. r \<in> set (pf_rules leaky_profile) \<and> ru_enabled r \<and> ru_engine r = fi_engine leaky_finding \<and>
    fi_severity leaky_finding = ru_severity r \<and> fi_standards leaky_finding = ru_standards r \<and>
    fi_engine leaky_finding \<in> set (rp_engines_run (run_scan (registry leaky_env) leaky_profile leaky_tree))"
  by (rule report_traced [OF leaky_report])

end
