(* ===== verification/Rust_Path.thy ===== *)
theory Rust_Path
  imports Rust_Str
begin

text \<open>
  The part of \<^verbatim>\<open>std::path\<close> that is used: a path is a text, compared by its components. Repeated
  slashes and \<^verbatim>\<open>.\<close> components are dropped.
\<close>

text \<open>\<^verbatim>\<open>Path::file_name\<close>, \<^verbatim>\<open>Path::starts_with\<close> and \<^verbatim>\<open>Path::join\<close> of a text.\<close>

definition path_parts :: "string \<Rightarrow> string list" where
  "path_parts p = filter (\<lambda>c. c \<noteq> [] \<and> c \<noteq> ''.'') (split_char (CHR ''/'') p)"

definition path_name :: "string \<Rightarrow> string option" where
  "path_name p = (if path_parts p = [] \<or> last (path_parts p) = ''..'' then None else Some (last (path_parts p)))"

definition is_absolute :: "string \<Rightarrow> bool" where
  "is_absolute p \<longleftrightarrow> starts_with p ''/''"

fun is_prefix :: "string list \<Rightarrow> string list \<Rightarrow> bool" where
  "is_prefix [] ys = True"
| "is_prefix (x # xs) [] = False"
| "is_prefix (x # xs) (y # ys) = (x = y \<and> is_prefix xs ys)"

definition path_below :: "string \<Rightarrow> string \<Rightarrow> bool" where
  "path_below p base \<longleftrightarrow> is_absolute p = is_absolute base \<and> is_prefix (path_parts base) (path_parts p)"

definition join_path :: "string \<Rightarrow> string \<Rightarrow> string" where
  "join_path base rel = (if is_absolute rel then rel
     else if base = [] \<or> ends_with base ''/'' then base @ rel else base @ ''/'' @ rel)"

lemma path_parts_relative: "p \<in> set (path_parts s) \<Longrightarrow> p \<noteq> [] \<and> CHR ''/'' \<notin> set p"
  unfolding path_parts_def using set_split_char by auto

end
