(* ===== verification/Sandbox.thy ===== *)
theory Sandbox
  imports Scan_Core Rust_Path
begin

text \<open>
  The strict shell wrapper (\<^verbatim>\<open>crates/rtrt-cli/src/sandbox.rs\<close>): the screen of the command line, the
  direct start of Claude (\<^verbatim>\<open>crates/rtrt-core/src/detect.rs\<close>) and the arguments of the bubblewrap
  process. What the host holds (files, links, environment) is an argument, and so is bubblewrap
  itself: what is relied on of it is the predicate \<open>bwrap_documented\<close>, which states what its manual
  page says of the options that are used.
\<close>

section \<open>The command line\<close>

definition ascii_space :: "char \<Rightarrow> bool" where
  "ascii_space c \<longleftrightarrow> byte c \<in> {32, 9, 10, 12, 13}"

definition SHELL_OPERATORS :: string where
  "SHELL_OPERATORS = '';|&()<>`'' @ [CHR 0x0A, CHR 0x0D, CHR 0x5C]"

datatype quoting = Bare | Single_quoted | Double_quoted

text \<open>
  The words of the command, with the word at hand and whether one was started. \<open>Inr None\<close>: the
  command is not for Claude.
\<close>

fun claude_words :: "quoting \<Rightarrow> string list \<Rightarrow> string \<Rightarrow> bool \<Rightarrow> string \<Rightarrow> string + string list option" where
  "claude_words Bare words word started [] = Inr (Some (if started then words @ [word] else words))"
| "claude_words Single_quoted words word started [] = Inl ''unterminated single quote in direct Claude command''"
| "claude_words Double_quoted words word started [] = Inl ''unterminated double quote in direct Claude command''"
| "claude_words Bare words word started (c # s) =
     (if ascii_space c then
        if started then claude_words Bare (words @ [word]) [] False s else claude_words Bare words word False s
      else if c = CHR 0x27 then claude_words Single_quoted words word True s
      else if c = CHR 0x22 then claude_words Double_quoted words word True s
      else if c \<in> set SHELL_OPERATORS then
        if words \<noteq> [] \<and> hd words = ''claude'' \<or> word = ''claude'' then
          Inl (''direct Claude command rejects shell operator or expansion: '' @ [c])
        else Inr None
      else claude_words Bare words (word @ [c]) True s)"
| "claude_words Single_quoted words word started (c # s) =
     (if c = CHR 0x27 then claude_words Bare words word started s
      else claude_words Single_quoted words (word @ [c]) started s)"
| "claude_words Double_quoted words word started (c # s) =
     (if c = CHR 0x22 then claude_words Bare words word started s
      else if c = CHR ''$'' \<or> c = CHR ''`'' \<or> c = CHR 0x5C then
        Inl (''direct Claude command rejects expansion-capable double quote: '' @ [c])
      else claude_words Double_quoted words (word @ [c]) started s)"

definition PERMISSION_TOOL :: string where "PERMISSION_TOOL = ''mcp__rtrt__permission_prompt''"

record claude_invocation =
  ci_model :: string
  ci_permission_mode :: string
  ci_prompt :: string

definition parse_invocation :: "string list \<Rightarrow> claude_invocation option" where
  "parse_invocation argv =
     (if length argv \<noteq> 11 \<or> path_name (argv ! 0) \<noteq> Some ''claude'' \<or> argv ! 1 \<noteq> ''-p'' \<or> argv ! 2 \<noteq> ''--model'' \<or>
        argv ! 3 \<notin> {''opus'', ''sonnet''} \<or> argv ! 4 \<noteq> ''--output-format'' \<or> argv ! 5 \<noteq> ''json'' \<or>
        argv ! 6 \<noteq> ''--permission-mode'' \<or> argv ! 7 \<notin> {''plan'', ''acceptEdits''} \<or>
        argv ! 8 \<noteq> ''--permission-prompt-tool'' \<or> argv ! 9 \<noteq> PERMISSION_TOOL \<or> argv ! 10 = [] \<or>
        CHR 0x00 \<in> set (argv ! 10)
      then None
      else Some \<lparr>ci_model = argv ! 3, ci_permission_mode = argv ! 7, ci_prompt = argv ! 10\<rparr>)"

definition INVOCATION_ERROR :: string where
  "INVOCATION_ERROR = ''direct Claude requires exact RTRT argv: claude -p --model opus|sonnet --output-format json '' @
     ''--permission-mode plan|acceptEdits --permission-prompt-tool mcp__rtrt__permission_prompt <prompt>''"

definition direct_claude_argv :: "string \<Rightarrow> string + string list option" where
  "direct_claude_argv input =
     (case strip_prefix (trim_start input) ''claude'' of
        None \<Rightarrow> Inr None
      | Some after \<Rightarrow>
          if ws_len after = 0 then Inr None
          else case claude_words Bare [] [] False input of
            Inl e \<Rightarrow> Inl e
          | Inr None \<Rightarrow> Inr None
          | Inr (Some words) \<Rightarrow>
              if words = [] \<or> hd words \<noteq> ''claude'' then Inr None
              else if parse_invocation words = None then Inl INVOCATION_ERROR
              else Inr (Some words))"

text \<open>\<^verbatim>\<open>str::split\<close> at every character of a set.\<close>

fun split_on :: "(char \<Rightarrow> bool) \<Rightarrow> string \<Rightarrow> string list" where
  "split_on d [] = [[]]"
| "split_on d (c # s) = (case split_on d s of [] \<Rightarrow> [[c]]
     | w # ws \<Rightarrow> if d c then [] # w # ws else (c # w) # ws)"

definition word_break :: "char \<Rightarrow> bool" where
  "word_break c \<longleftrightarrow> ascii_space c \<or> c \<in> set '';|&()<>`''"

definition dequote_shell_word :: "string \<Rightarrow> string" where
  "dequote_shell_word word = filter (\<lambda>c. c \<noteq> CHR 0x27 \<and> c \<noteq> CHR 0x22 \<and> c \<noteq> CHR 0x5C) word"

definition command_segments :: "string \<Rightarrow> string list" where
  "command_segments command = split_on (\<lambda>c. c \<in> set '';|&()'' \<or> c = CHR 0x0A \<or> c = CHR 0x0D) command"

definition expansion_in_command_word :: "string \<Rightarrow> bool" where
  "expansion_in_command_word segment =
     (let words = filter (\<lambda>w. w \<noteq> []) (split_on ascii_space (trim_start segment));
          word = (case words of [] \<Rightarrow> None
            | w # ws \<Rightarrow> if w \<in> {''env'', ''command'', ''exec'', ''nohup''} then
                List.find (\<lambda>v. \<not> starts_with v ''-'' \<and> CHR ''='' \<notin> set v) ws else Some w)
      in case word of None \<Rightarrow> False | Some w \<Rightarrow> CHR ''$'' \<in> set w \<or> CHR ''`'' \<in> set w)"

definition validate_command :: "string \<Rightarrow> string + unit" where
  "validate_command command =
     (if CHR 0x00 \<in> set command then Inl ''sandbox command contains NUL''
      else if trim command = [] then Inl ''sandbox command is empty''
      else if list_ex (\<lambda>w. path_name (dequote_shell_word w) = Some ''claude'') (split_on word_break command) \<or>
        list_ex expansion_in_command_word (command_segments command) then
        Inl (''direct Claude CLI command refused: only canonical, unwrapped strict Claude invocation is accepted'')
      else Inr ())"

text \<open>What the wrapper does with its arguments.\<close>

datatype dispatch = Not_a_shell | Direct "string list" | Sandboxed string

definition dispatch_from_env :: "string list \<Rightarrow> string + dispatch" where
  "dispatch_from_env args =
     (if length args < 2 \<or> args ! 1 \<noteq> ''-c'' then Inr Not_a_shell
      else if length args \<noteq> 3 then Inl ''sandbox shell wrapper expects exactly: rtrt -c <command>''
      else if \<not> utf8_valid (args ! 2) then Inl ''sandbox command is not valid UTF-8''
      else case direct_claude_argv (args ! 2) of
        Inl e \<Rightarrow> Inl e
      | Inr (Some argv) \<Rightarrow> Inr (Direct argv)
      | Inr None \<Rightarrow> (case validate_command (args ! 2) of Inl e \<Rightarrow> Inl e | Inr _ \<Rightarrow> Inr (Sandboxed (args ! 2))))"

text \<open>
  The process that is started for Claude; \<open>settings\<close> and \<open>mcp_config\<close> are the printed JSON, which do not
  depend on the prompt.
\<close>

definition strict_claude_args :: "claude_invocation \<Rightarrow> string \<Rightarrow> string \<Rightarrow> string list" where
  "strict_claude_args iv settings mcp_config =
     [''-p'', ''--model'', ci_model iv, ''--output-format'', ''json'', ''--permission-mode'', ci_permission_mode iv,
      ''--permission-prompt-tool'', PERMISSION_TOOL, ''--setting-sources'', [], ''--settings'', settings,
      ''--strict-mcp-config'', ''--mcp-config'', mcp_config, ''--'', ci_prompt iv]"

section \<open>The arguments of the sandbox\<close>

definition PRIVATE_SCRATCH :: string where "PRIVATE_SCRATCH = ''/rtrt-tmp''"
definition PRIVATE_CARGO_HOME :: string where "PRIVATE_CARGO_HOME = ''/rtrt-tmp/cargo-home''"
definition PRIVATE_RUSTUP_HOME :: string where "PRIVATE_RUSTUP_HOME = ''/rtrt-tmp/rustup-home''"

record project_boundary =
  pb_root :: string
  pb_cwd :: string
  pb_git_writable :: "string list"

text \<open>
  The host: which paths exist (links followed), which are links, the check of a registry child, the
  home directory and the environment.
\<close>

record sandbox_host =
  sh_exists :: "string \<Rightarrow> bool"
  sh_is_symlink :: "string \<Rightarrow> bool"
  sh_registry_child :: "string \<Rightarrow> string + bool"
  sh_home :: string
  sh_env :: "(string \<times> string) list"

text \<open>The directories on the way to a path, outermost first, without the root and the path itself.\<close>

definition proper_ancestors :: "string \<Rightarrow> string list" where
  "proper_ancestors p = (let parts = path_parts p in
     map (\<lambda>n. ''/'' @ join ''/'' (take n parts)) [1..<length parts])"

definition destination_parents :: "string \<Rightarrow> string list" where
  "destination_parents p = concat (map (\<lambda>d. [''--dir'', d]) (proper_ancestors p))"

definition bind_if_exists :: "sandbox_host \<Rightarrow> string \<Rightarrow> string list" where
  "bind_if_exists h p = (if sh_exists h p then [''--ro-bind'', p, p] else [])"

definition deterministic_path :: "sandbox_host \<Rightarrow> string list \<Rightarrow> string" where
  "deterministic_path h tools = join '':'' ([''/usr/local/bin'', ''/usr/bin'', ''/bin''] @
     filter (\<lambda>c. c \<in> set tools) [join_path (sh_home h) ''.cargo/bin'', join_path (sh_home h) ''.local/bin''])"

definition validated_scratch_mount :: "project_boundary \<Rightarrow> string + string" where
  "validated_scratch_mount b =
     (if list_ex (\<lambda>d. path_below d PRIVATE_SCRATCH \<or> path_below PRIVATE_SCRATCH d) (pb_root b # pb_git_writable b)
      then Inl (''private sandbox scratch mount collides with an authorized project destination: '' @ PRIVATE_SCRATCH)
      else Inr PRIVATE_SCRATCH)"

text \<open>The path below a base, as \<^verbatim>\<open>Path::strip_prefix\<close> gives it.\<close>

definition strip_path :: "string \<Rightarrow> string \<Rightarrow> string list option" where
  "strip_path p base = (if path_below p base then Some (drop (length (path_parts base)) (path_parts p)) else None)"

definition tool_destination :: "sandbox_host \<Rightarrow> string \<Rightarrow> string" where
  "tool_destination h tool =
     (case (case strip_path tool (join_path (sh_home h) ''.cargo'') of
              Some rel \<Rightarrow> if rel \<noteq> [] \<and> (hd rel = ''registry'' \<or> hd rel = ''git'') then Some rel else None
            | None \<Rightarrow> None) of
        Some rel \<Rightarrow> join_path PRIVATE_CARGO_HOME (join ''/'' rel)
      | None \<Rightarrow> (case strip_path tool (join_path (sh_home h) ''.rustup'') of
          Some rel \<Rightarrow> join_path PRIVATE_RUSTUP_HOME (join ''/'' rel)
        | None \<Rightarrow> tool))"

fun registry_children :: "sandbox_host \<Rightarrow> string \<Rightarrow> string list \<Rightarrow> string + string list" where
  "registry_children h tool [] = Inr []"
| "registry_children h tool (child # cs) =
     (case sh_registry_child h (join_path tool child) of
        Inl e \<Rightarrow> Inl e
      | Inr present \<Rightarrow> (case registry_children h tool cs of Inl e \<Rightarrow> Inl e
          | Inr rest \<Rightarrow> Inr ((if present then
              [''--ro-bind'', join_path tool child, join_path PRIVATE_CARGO_HOME (''registry/'' @ child)] else []) @ rest)))"

definition tool_args :: "sandbox_host \<Rightarrow> string \<Rightarrow> string + string list" where
  "tool_args h tool =
     (if path_parts tool = path_parts (join_path (sh_home h) ''.cargo/registry'') then
        (case registry_children h tool [''cache'', ''index''] of Inl e \<Rightarrow> Inl e
         | Inr children \<Rightarrow> Inr ([''--dir'', PRIVATE_CARGO_HOME @ ''/registry'', ''--dir'', PRIVATE_CARGO_HOME @ ''/registry/src''] @ children))
      else Inr (destination_parents (tool_destination h tool) @ [''--ro-bind'', tool, tool_destination h tool]))"

fun tools_args :: "sandbox_host \<Rightarrow> string list \<Rightarrow> string + string list" where
  "tools_args h [] = Inr []"
| "tools_args h (t # ts) = (case tool_args h t of Inl e \<Rightarrow> Inl e
     | Inr a \<Rightarrow> (case tools_args h ts of Inl e \<Rightarrow> Inl e | Inr rest \<Rightarrow> Inr (a @ rest)))"

definition BASE_ARGS :: "string list" where
  "BASE_ARGS = [''--die-with-parent'', ''--new-session'', ''--unshare-user'', ''--disable-userns'', ''--assert-userns-disabled'',
     ''--unshare-pid'', ''--unshare-ipc'', ''--unshare-uts'', ''--unshare-net'', ''--cap-drop'', ''ALL'', ''--tmpfs'', ''/'',
     ''--proc'', ''/proc'', ''--dev'', ''/dev'', ''--tmpfs'', ''/tmp'']"

definition RUNTIME_FILES :: "string list" where
  "RUNTIME_FILES = [''/etc/ld.so.cache'', ''/etc/nsswitch.conf'', ''/etc/passwd'', ''/etc/group'', ''/etc/hosts'', ''/etc/localtime'',
     ''/etc/ssl/certs'']"

definition USR_LINKS :: "(string \<times> string) list" where
  "USR_LINKS = [(''/bin'', ''usr/bin''), (''/sbin'', ''usr/sbin''), (''/lib'', ''usr/lib''), (''/lib64'', ''usr/lib64'')]"

definition system_args :: "sandbox_host \<Rightarrow> string list" where
  "system_args h = bind_if_exists h ''/usr'' @ [''--dir'', ''/etc''] @
     concat (map (\<lambda>f. destination_parents f @ bind_if_exists h f) RUNTIME_FILES) @
     concat (map (\<lambda>(link, target). if sh_is_symlink h link then [''--symlink'', target, link] else bind_if_exists h link) USR_LINKS)"

definition project_args :: "project_boundary \<Rightarrow> string list" where
  "project_args b = concat (map (\<lambda>d. destination_parents d @ [''--bind'', d, d]) (pb_root b # pb_git_writable b)) @
     [''--dir'', PRIVATE_CARGO_HOME, ''--dir'', PRIVATE_RUSTUP_HOME]"

definition KEPT_ENV :: "string list" where
  "KEPT_ENV = [''LANG'', ''TERM'', ''COLORTERM'', ''NO_COLOR'']"

definition env_args :: "sandbox_host \<Rightarrow> string list \<Rightarrow> string list" where
  "env_args h tools =
     concat (map (\<lambda>k. case map_of (sh_env h) k of None \<Rightarrow> [] | Some v \<Rightarrow> [''--setenv'', k, v]) KEPT_ENV) @
     concat (map (\<lambda>(k, v). if starts_with k ''LC_'' then [''--setenv'', k, v] else []) (sh_env h)) @
     [''--setenv'', ''PATH'', deterministic_path h tools, ''--setenv'', ''HOME'', ''/nonexistent'',
      ''--setenv'', ''TMPDIR'', PRIVATE_SCRATCH, ''--setenv'', ''CARGO_HOME'', PRIVATE_CARGO_HOME,
      ''--setenv'', ''RUSTUP_HOME'', PRIVATE_RUSTUP_HOME, ''--setenv'', ''CARGO_NET_OFFLINE'', ''true'']"

definition sandbox_args :: "sandbox_host \<Rightarrow> project_boundary \<Rightarrow> string list \<Rightarrow> string \<Rightarrow> string + string list" where
  "sandbox_args h b tools original =
     (case validated_scratch_mount b of Inl e \<Rightarrow> Inl e
      | Inr scratch \<Rightarrow> (case tools_args h tools of Inl e \<Rightarrow> Inl e
        | Inr tool_binds \<Rightarrow>
            Inr (BASE_ARGS @ [''--tmpfs'', scratch] @ system_args h @ project_args b @ tool_binds @
              [''--remount-ro'', ''/tmp'', ''--remount-ro'', ''/'', ''--chdir'', pb_cwd b, ''--clearenv''] @
              env_args h tools @ [''--'', ''/bin/bash'', ''--noprofile'', ''--norc'', ''-c'', original])))"

section \<open>Bubblewrap\<close>

text \<open>
  Bubblewrap is an argument: a function from the container built so far and the arguments that are
  left to the container in which the command is started, and the command, or to nothing when it
  stops with an error.
\<close>

datatype source = Host string | Memory | Kernel

record mount =
  mt_at :: string
  mt_source :: source
  mt_writable :: bool

record bw_state =
  bw_mounts :: "mount list"          \<comment> \<open>the latest first\<close>
  bw_env :: "(string \<times> string) list" \<comment> \<open>the latest first\<close>
  bw_dropped :: "string list"
  bw_flags :: "string list"
  bw_cwd :: string

type_synonym bubblewrap = "bw_state \<Rightarrow> string list \<Rightarrow> (bw_state \<times> string list) option"

fun remount :: "string \<Rightarrow> mount list \<Rightarrow> mount list" where
  "remount d [] = []"
| "remount d (m # ms) = (if mt_at m = d then m\<lparr>mt_writable := False\<rparr> # ms else m # remount d ms)"

definition add_mount :: "string \<Rightarrow> source \<Rightarrow> bool \<Rightarrow> bw_state \<Rightarrow> bw_state" where
  "add_mount p src writable c = c\<lparr>bw_mounts := \<lparr>mt_at = p, mt_source = src, mt_writable = writable\<rparr> # bw_mounts c\<rparr>"

definition BW_FLAGS :: "string list" where
  "BW_FLAGS = [''--die-with-parent'', ''--new-session'', ''--unshare-user'', ''--disable-userns'', ''--assert-userns-disabled'',
     ''--unshare-pid'', ''--unshare-ipc'', ''--unshare-uts'', ''--unshare-net'']"

text \<open>Such arguments, in front of any others, do this or stop bubblewrap.\<close>

definition does :: "bubblewrap \<Rightarrow> string list \<Rightarrow> (bw_state \<Rightarrow> bw_state) \<Rightarrow> bool" where
  "does bwrap xs f \<longleftrightarrow> (\<forall>c rest. bwrap c (xs @ rest) = None \<or> bwrap c (xs @ rest) = bwrap (f c) rest)"

definition only_pwd :: "(string \<times> string) list \<Rightarrow> bool" where
  "only_pwd env \<longleftrightarrow> list_all (\<lambda>(k, v). k = ''PWD'') env"

text \<open>
  What the manual page \<^verbatim>\<open>bwrap(1)\<close> says of the options that the code uses: they are processed in order; an option
  that cannot be carried out ends the run; \<^verbatim>\<open>--clearenv\<close> unsets every variable except \<^verbatim>\<open>PWD\<close> and those set
  later, \<^verbatim>\<open>PWD\<close> may also be set when the command starts; \<^verbatim>\<open>--remount-ro\<close> affects one mount point only;
  what follows \<^verbatim>\<open>--\<close> is the command.
\<close>

definition bwrap_documented :: "bubblewrap \<Rightarrow> bool" where
  "bwrap_documented bwrap \<longleftrightarrow>
     (\<forall>f \<in> set BW_FLAGS. does bwrap [f] (\<lambda>c. c\<lparr>bw_flags := f # bw_flags c\<rparr>)) \<and>
     (\<forall>x. does bwrap [''--cap-drop'', x] (\<lambda>c. c\<lparr>bw_dropped := x # bw_dropped c\<rparr>)) \<and>
     (\<forall>x. does bwrap [''--tmpfs'', x] (add_mount x Memory True)) \<and>
     (\<forall>x. does bwrap [''--proc'', x] (add_mount x Kernel True)) \<and>
     (\<forall>x. does bwrap [''--dev'', x] (add_mount x Kernel True)) \<and>
     (\<forall>x. does bwrap [''--dir'', x] (\<lambda>c. c)) \<and>
     (\<forall>x. does bwrap [''--remount-ro'', x] (\<lambda>c. c\<lparr>bw_mounts := remount x (bw_mounts c)\<rparr>)) \<and>
     (\<forall>x. does bwrap [''--chdir'', x] (\<lambda>c. c\<lparr>bw_cwd := x\<rparr>)) \<and>
     (\<forall>x y. does bwrap [''--ro-bind'', x, y] (add_mount y (Host x) False)) \<and>
     (\<forall>x y. does bwrap [''--bind'', x, y] (add_mount y (Host x) True)) \<and>
     (\<forall>x y. does bwrap [''--symlink'', x, y] (\<lambda>c. c)) \<and>
     (\<forall>x y. does bwrap [''--setenv'', x, y] (\<lambda>c. c\<lparr>bw_env := (x, y) # bw_env c\<rparr>)) \<and>
     (\<forall>c rest. bwrap c (''--clearenv'' # rest) = None \<or>
        (\<exists>env. only_pwd env \<and> bwrap c (''--clearenv'' # rest) = bwrap (c\<lparr>bw_env := env\<rparr>) rest)) \<and>
     (\<forall>c command. bwrap c (''--'' # command) = None \<or>
        (\<exists>env. only_pwd env \<and> bwrap c (''--'' # command) = Some (c\<lparr>bw_env := env @ bw_env c\<rparr>, command)))"

definition bw_start :: "(string \<times> string) list \<Rightarrow> bw_state" where
  "bw_start env = \<lparr>bw_mounts = [], bw_env = env, bw_dropped = [], bw_flags = [], bw_cwd = ''/''\<rparr>"

lemma does_append: "does bwrap xs f \<Longrightarrow> does bwrap ys g \<Longrightarrow> does bwrap (xs @ ys) (\<lambda>c. g (f c))"
  unfolding does_def by (metis append.assoc)

lemma does_run: "does bwrap xs f \<Longrightarrow> bwrap c (xs @ rest) = Some r \<Longrightarrow> bwrap (f c) rest = Some r"
  unfolding does_def by (metis option.distinct(1))

lemma does_flags: "bwrap_documented bwrap \<Longrightarrow> set fs \<subseteq> set BW_FLAGS \<Longrightarrow> does bwrap fs (\<lambda>c. c\<lparr>bw_flags := rev fs @ bw_flags c\<rparr>)"
proof (induction fs)
  case (Cons f fs)
  have "does bwrap [f] (\<lambda>c. c\<lparr>bw_flags := f # bw_flags c\<rparr>)" using Cons.prems by (simp add: bwrap_documented_def)
  from does_append [OF this Cons.IH] Cons.prems show ?case by simp
qed (simp add: does_def)

section \<open>What the sandbox may write\<close>

definition clean_mount :: "string list \<Rightarrow> mount \<Rightarrow> bool" where
  "clean_mount R m \<longleftrightarrow> mt_at m \<noteq> ''/'' \<and> mt_at m \<noteq> ''/tmp'' \<and>
     (\<exists>x. mt_source m = Host x \<and> (mt_writable m \<longrightarrow> mt_at m = x \<and> x \<in> set R))"

text \<open>Arguments that only add read-only binds and binds of the directories of a list in their own place.\<close>

definition clean_args :: "bubblewrap \<Rightarrow> string list \<Rightarrow> string list \<Rightarrow> bool" where
  "clean_args bwrap R xs \<longleftrightarrow> (\<forall>c rest r. bwrap c (xs @ rest) = Some r \<longrightarrow>
     (\<exists>new. list_all (clean_mount R) new \<and> bwrap (c\<lparr>bw_mounts := new @ bw_mounts c\<rparr>) rest = Some r))"

lemma clean_run:
  assumes "clean_args bwrap R xs" "bwrap c (xs @ rest) = Some r"
  obtains new where "list_all (clean_mount R) new" "bwrap (c\<lparr>bw_mounts := new @ bw_mounts c\<rparr>) rest = Some r"
  using assms unfolding clean_args_def by blast

lemma clean_args_none: "does bwrap xs (\<lambda>c. c) \<Longrightarrow> clean_args bwrap R xs"
  unfolding clean_args_def by (intro allI impI exI [of _ "[]"]) (auto dest: does_run)

lemma clean_args_Nil [simp]: "clean_args bwrap R []"
  by (rule clean_args_none) (simp add: does_def)

lemma clean_args_append:
  assumes "clean_args bwrap R xs" "clean_args bwrap R ys"
  shows "clean_args bwrap R (xs @ ys)"
  unfolding clean_args_def
proof (intro allI impI)
  fix c rest r assume "bwrap c ((xs @ ys) @ rest) = Some r"
  then have "bwrap c (xs @ ys @ rest) = Some r" by simp
  then obtain one where one: "list_all (clean_mount R) one" "bwrap (c\<lparr>bw_mounts := one @ bw_mounts c\<rparr>) (ys @ rest) = Some r"
    by (rule clean_run [OF assms(1)])
  obtain two where two: "list_all (clean_mount R) two"
    "bwrap (c\<lparr>bw_mounts := one @ bw_mounts c, bw_mounts := two @ bw_mounts (c\<lparr>bw_mounts := one @ bw_mounts c\<rparr>)\<rparr>) rest = Some r"
    by (rule clean_run [OF assms(2) one(2)])
  show "\<exists>new. list_all (clean_mount R) new \<and> bwrap (c\<lparr>bw_mounts := new @ bw_mounts c\<rparr>) rest = Some r"
    using one(1) two by (intro exI [of _ "two @ one"]) simp
qed

lemma clean_args_concat: "(\<And>x. x \<in> set xs \<Longrightarrow> clean_args bwrap R (f x)) \<Longrightarrow> clean_args bwrap R (concat (map f xs))"
  by (induction xs) (simp_all add: clean_args_append)

lemma clean_dir: "bwrap_documented bwrap \<Longrightarrow> clean_args bwrap R [''--dir'', x]"
  by (rule clean_args_none) (simp add: bwrap_documented_def)

lemma clean_symlink: "bwrap_documented bwrap \<Longrightarrow> clean_args bwrap R [''--symlink'', x, y]"
  by (rule clean_args_none) (simp add: bwrap_documented_def)

lemma clean_mounted:
  assumes "does bwrap xs (add_mount y (Host x) w)" "y \<noteq> ''/''" "y \<noteq> ''/tmp''" "w \<Longrightarrow> y = x \<and> x \<in> set R"
  shows "clean_args bwrap R xs"
  unfolding clean_args_def
proof (intro allI impI)
  fix c rest r assume "bwrap c (xs @ rest) = Some r"
  from does_run [OF assms(1) this] have run: "bwrap (add_mount y (Host x) w c) rest = Some r" .
  show "\<exists>new. list_all (clean_mount R) new \<and> bwrap (c\<lparr>bw_mounts := new @ bw_mounts c\<rparr>) rest = Some r"
    by (rule exI [of _ "[\<lparr>mt_at = y, mt_source = Host x, mt_writable = w\<rparr>]"])
      (use run assms(2-4) in \<open>simp add: add_mount_def clean_mount_def\<close>)
qed

lemma does_ro: "bwrap_documented bwrap \<Longrightarrow> does bwrap [''--ro-bind'', x, y] (add_mount y (Host x) False)"
  by (simp add: bwrap_documented_def)

lemma does_bind: "bwrap_documented bwrap \<Longrightarrow> does bwrap [''--bind'', x, y] (add_mount y (Host x) True)"
  by (simp add: bwrap_documented_def)

lemma clean_ro: "bwrap_documented bwrap \<Longrightarrow> y \<noteq> ''/'' \<Longrightarrow> y \<noteq> ''/tmp'' \<Longrightarrow> clean_args bwrap R [''--ro-bind'', x, y]"
  by (rule clean_mounted [OF does_ro]) simp_all

lemma clean_bind:
  "bwrap_documented bwrap \<Longrightarrow> x \<in> set R \<Longrightarrow> x \<noteq> ''/'' \<Longrightarrow> x \<noteq> ''/tmp'' \<Longrightarrow> clean_args bwrap R [''--bind'', x, x]"
  by (rule clean_mounted [OF does_bind]) simp_all

lemma clean_parents: "bwrap_documented bwrap \<Longrightarrow> clean_args bwrap R (destination_parents p)"
  unfolding destination_parents_def by (rule clean_args_concat) (rule clean_dir)

lemma clean_bind_if: "bwrap_documented bwrap \<Longrightarrow> p \<noteq> ''/'' \<Longrightarrow> p \<noteq> ''/tmp'' \<Longrightarrow> clean_args bwrap R (bind_if_exists h p)"
  by (simp add: bind_if_exists_def clean_ro)

lemma clean_two_dirs: "bwrap_documented bwrap \<Longrightarrow> clean_args bwrap R [''--dir'', x, ''--dir'', y]"
  using clean_args_append [OF clean_dir clean_dir, of bwrap R x y] by simp

lemma clean_system: "bwrap_documented bwrap \<Longrightarrow> clean_args bwrap R (system_args h)"
  unfolding system_args_def RUNTIME_FILES_def USR_LINKS_def
  by (intro clean_args_append clean_args_concat)
    (auto intro!: clean_args_append clean_bind_if clean_parents clean_symlink clean_dir)

lemma private_destination: "join_path PRIVATE_CARGO_HOME rel \<noteq> ''/''" "join_path PRIVATE_CARGO_HOME rel \<noteq> ''/tmp''" if "\<not> is_absolute rel"
  using that by (auto simp: join_path_def PRIVATE_CARGO_HOME_def ends_with_def)

lemma relative_join: "\<forall>p \<in> set ps. p \<noteq> [] \<and> CHR ''/'' \<notin> set p \<Longrightarrow> \<not> is_absolute (join ''/'' ps)"
  by (cases ps rule: remdups_adj.cases) (auto simp: is_absolute_def starts_with_iff neq_Nil_conv)

lemma strip_path_relative: "strip_path p base = Some rel \<Longrightarrow> \<not> is_absolute (join ''/'' rel)"
  unfolding strip_path_def
  by (rule relative_join) (auto split: if_splits dest!: in_set_dropD path_parts_relative)

lemma rustup_destination: "\<not> is_absolute rel \<Longrightarrow> join_path PRIVATE_RUSTUP_HOME rel \<noteq> ''/'' \<and> join_path PRIVATE_RUSTUP_HOME rel \<noteq> ''/tmp''"
  by (auto simp: join_path_def PRIVATE_RUSTUP_HOME_def ends_with_def)

lemma tool_destination_clean:
  assumes "tool \<noteq> ''/''" "tool \<noteq> ''/tmp''"
  shows "tool_destination h tool \<noteq> ''/'' \<and> tool_destination h tool \<noteq> ''/tmp''"
  unfolding tool_destination_def
  using assms by (auto split: option.split dest!: strip_path_relative simp: private_destination rustup_destination)

lemma clean_children:
  "bwrap_documented bwrap \<Longrightarrow> registry_children h tool cs = Inr xs \<Longrightarrow> list_all (\<lambda>c. \<not> is_absolute (''registry/'' @ c)) cs \<Longrightarrow>
    clean_args bwrap R xs"
proof (induction cs arbitrary: xs)
  case (Cons c cs)
  then obtain present rest where "sh_registry_child h (join_path tool c) = Inr present" "registry_children h tool cs = Inr rest"
    and xs: "xs = (if present then [''--ro-bind'', join_path tool c, join_path PRIVATE_CARGO_HOME (''registry/'' @ c)] else []) @ rest"
    by (auto split: sum.splits)
  moreover from this Cons have "clean_args bwrap R rest" by simp
  ultimately show ?case unfolding xs using Cons.prems(1,3)
    by (auto intro!: clean_args_append clean_ro simp: private_destination simp del: append.simps)
qed simp

lemma clean_tool:
  assumes "bwrap_documented bwrap" "tool_args h t = Inr xs" "t \<noteq> ''/''" "t \<noteq> ''/tmp''"
  shows "clean_args bwrap R xs"
proof (cases "path_parts t = path_parts (join_path (sh_home h) ''.cargo/registry'')")
  case True
  then obtain cs where cs: "registry_children h t [''cache'', ''index''] = Inr cs"
    and xs: "xs = [''--dir'', PRIVATE_CARGO_HOME @ ''/registry'', ''--dir'', PRIVATE_CARGO_HOME @ ''/registry/src''] @ cs"
    using assms(2) by (auto simp: tool_args_def split: sum.splits)
  have "clean_args bwrap R cs" by (rule clean_children [OF assms(1) cs]) (simp add: is_absolute_def)
  then show ?thesis unfolding xs by (rule clean_args_append [OF clean_two_dirs [OF assms(1)]])
next
  case False
  then have "xs = destination_parents (tool_destination h t) @ [''--ro-bind'', t, tool_destination h t]"
    using assms(2) by (simp add: tool_args_def)
  then show ?thesis using tool_destination_clean [OF assms(3,4)] assms(1) by (auto intro!: clean_args_append clean_parents clean_ro)
qed

lemma clean_tools:
  "bwrap_documented bwrap \<Longrightarrow> tools_args h ts = Inr xs \<Longrightarrow> list_all (\<lambda>d. d \<noteq> ''/'' \<and> d \<noteq> ''/tmp'') ts \<Longrightarrow> clean_args bwrap R xs"
proof (induction ts arbitrary: xs)
  case (Cons t ts)
  then obtain a rest where "tool_args h t = Inr a" "tools_args h ts = Inr rest" "xs = a @ rest" by (auto split: sum.splits)
  then show ?case using Cons clean_tool [of bwrap h t a] by (auto intro: clean_args_append)
qed simp

text \<open>The arguments of the project also mount it.\<close>

lemma project_run:
  assumes "bwrap_documented bwrap" "list_all (\<lambda>d. d \<noteq> ''/'' \<and> d \<noteq> ''/tmp'') (pb_root b # pb_git_writable b)"
    and "bwrap c (project_args b @ rest) = Some r"
  obtains new where "list_all (clean_mount (pb_root b # pb_git_writable b)) new"
    "list_ex (\<lambda>m. mt_at m = pb_root b \<and> mt_source m = Host (pb_root b) \<and> mt_writable m) new"
    "bwrap (c\<lparr>bw_mounts := new @ bw_mounts c\<rparr>) rest = Some r"
proof -
  let ?R = "pb_root b # pb_git_writable b" and ?r = "pb_root b"
  let ?git = "concat (map (\<lambda>d. destination_parents d @ [''--bind'', d, d]) (pb_git_writable b)) @
      [''--dir'', PRIVATE_CARGO_HOME, ''--dir'', PRIVATE_RUSTUP_HOME]"
  have "bwrap c (destination_parents ?r @ [''--bind'', ?r, ?r] @ ?git @ rest) = Some r" using assms(3) by (simp add: project_args_def)
  then obtain one where one: "list_all (clean_mount ?R) one"
    "bwrap (c\<lparr>bw_mounts := one @ bw_mounts c\<rparr>) ([''--bind'', ?r, ?r] @ ?git @ rest) = Some r"
    by (rule clean_run [OF clean_parents [OF assms(1)]])
  let ?m = "\<lparr>mt_at = ?r, mt_source = Host ?r, mt_writable = True\<rparr>"
  have two: "bwrap (c\<lparr>bw_mounts := ?m # one @ bw_mounts c\<rparr>) (?git @ rest) = Some r"
    using does_run [OF does_bind [OF assms(1)] one(2)] by (simp add: add_mount_def)
  have "clean_args bwrap ?R ?git"
  proof (intro clean_args_append clean_args_concat clean_two_dirs [OF assms(1)])
    fix d assume "d \<in> set (pb_git_writable b)"
    then show "clean_args bwrap ?R (destination_parents d)" and "clean_args bwrap ?R [''--bind'', d, d]"
      using assms(1,2) by (auto simp: list_all_iff intro: clean_parents clean_bind)
  qed
  from clean_run [OF this two] obtain three where three: "list_all (clean_mount ?R) three"
    "bwrap (c\<lparr>bw_mounts := three @ ?m # one @ bw_mounts c\<rparr>) rest = Some r" by auto
  have "clean_mount ?R ?m" using assms(2) by (simp add: clean_mount_def)
  then show thesis using one(1) three by (intro that [of "three @ ?m # one"]) simp_all
qed

lemma clean_remount: "list_all (clean_mount R) new \<Longrightarrow> d \<in> {''/'', ''/tmp''} \<Longrightarrow> remount d (new @ ms) = new @ remount d ms"
  by (induction new) (auto simp: clean_mount_def)

text \<open>The start of the arguments, and their end.\<close>

definition base_state :: "(string \<times> string) list \<Rightarrow> bw_state" where
  "base_state env = \<lparr>bw_mounts = [\<lparr>mt_at = PRIVATE_SCRATCH, mt_source = Memory, mt_writable = True\<rparr>,
       \<lparr>mt_at = ''/tmp'', mt_source = Memory, mt_writable = True\<rparr>, \<lparr>mt_at = ''/dev'', mt_source = Kernel, mt_writable = True\<rparr>,
       \<lparr>mt_at = ''/proc'', mt_source = Kernel, mt_writable = True\<rparr>, \<lparr>mt_at = ''/'', mt_source = Memory, mt_writable = True\<rparr>],
     bw_env = env, bw_dropped = [''ALL''], bw_flags = rev BW_FLAGS, bw_cwd = ''/''\<rparr>"

lemma base_run:
  assumes "bwrap_documented bwrap" "bwrap (bw_start env) (BASE_ARGS @ [''--tmpfs'', PRIVATE_SCRATCH] @ rest) = Some r"
  shows "bwrap (base_state env) rest = Some r"
proof -
  have one: "does bwrap [''--cap-drop'', x] (\<lambda>c. c\<lparr>bw_dropped := x # bw_dropped c\<rparr>)" "does bwrap [''--tmpfs'', x] (add_mount x Memory True)"
    "does bwrap [''--proc'', x] (add_mount x Kernel True)" "does bwrap [''--dev'', x] (add_mount x Kernel True)" for x
    using assms(1) by (simp_all add: bwrap_documented_def)
  have eq: "BASE_ARGS @ [''--tmpfs'', PRIVATE_SCRATCH] @ rest = BW_FLAGS @ [''--cap-drop'', ''ALL''] @ [''--tmpfs'', ''/''] @
      [''--proc'', ''/proc''] @ [''--dev'', ''/dev''] @ [''--tmpfs'', ''/tmp''] @ [''--tmpfs'', PRIVATE_SCRATCH] @ rest"
    by (simp add: BASE_ARGS_def BW_FLAGS_def)
  note start = assms(2) [unfolded eq]
  from does_run [OF one(2) does_run [OF one(2) does_run [OF one(4) does_run [OF one(3) does_run [OF one(2)
      does_run [OF one(1) does_run [OF does_flags [OF assms(1) subset_refl] start]]]]]]]
  show ?thesis by (simp add: base_state_def bw_start_def add_mount_def)
qed

fun set_args :: "(string \<times> string) list \<Rightarrow> string list" where
  "set_args [] = []"
| "set_args ((k, v) # ps) = [''--setenv'', k, v] @ set_args ps"

lemma set_args_append: "set_args (ps @ qs) = set_args ps @ set_args qs"
  by (induction ps rule: set_args.induct) simp_all

lemma does_setenv: "bwrap_documented bwrap \<Longrightarrow> does bwrap (set_args ps) (\<lambda>c. c\<lparr>bw_env := rev ps @ bw_env c\<rparr>)"
proof (induction ps)
  case (Cons p ps)
  obtain k v where p: "p = (k, v)" by fastforce
  have "does bwrap [''--setenv'', k, v] (\<lambda>c. c\<lparr>bw_env := (k, v) # bw_env c\<rparr>)" using Cons.prems by (simp add: bwrap_documented_def)
  from does_append [OF this Cons.IH [OF Cons.prems]] show ?case by (simp add: p)
qed (simp add: does_def)

definition env_pairs :: "sandbox_host \<Rightarrow> string list \<Rightarrow> (string \<times> string) list" where
  "env_pairs h tools =
     List.map_filter (\<lambda>k. map_option (\<lambda>v. (k, v)) (map_of (sh_env h) k)) KEPT_ENV @
     filter (\<lambda>(k, v). starts_with k ''LC_'') (sh_env h) @
     [(''PATH'', deterministic_path h tools), (''HOME'', ''/nonexistent''), (''TMPDIR'', PRIVATE_SCRATCH),
      (''CARGO_HOME'', PRIVATE_CARGO_HOME), (''RUSTUP_HOME'', PRIVATE_RUSTUP_HOME), (''CARGO_NET_OFFLINE'', ''true'')]"

lemma env_args_pairs: "env_args h tools = set_args (env_pairs h tools)"
proof -
  have 1: "concat (map (\<lambda>k. case map_of (sh_env h) k of None \<Rightarrow> [] | Some v \<Rightarrow> [''--setenv'', k, v]) ks) =
      set_args (List.map_filter (\<lambda>k. map_option (\<lambda>v. (k, v)) (map_of (sh_env h) k)) ks)" for ks
    by (induction ks) (simp_all add: List.map_filter_simps split: option.split)
  have 2: "concat (map (\<lambda>(k, v). if starts_with k ''LC_'' then [''--setenv'', k, v] else []) env) =
      set_args (filter (\<lambda>(k, v). starts_with k ''LC_'') env)" for env
    by (induction env) auto
  show ?thesis unfolding env_args_def env_pairs_def 1 2 set_args_append set_args.simps append.simps append_Nil2 ..
qed

lemma seal_run:
  assumes doc: "bwrap_documented bwrap"
    and "bwrap c ([''--remount-ro'', ''/tmp'', ''--remount-ro'', ''/'', ''--chdir'', d, ''--clearenv''] @ env_args h tools @ ''--'' # cmd) =
      Some (c', command)"
  obtains env pwd where "only_pwd env" "only_pwd pwd" "command = cmd"
    "c' = c\<lparr>bw_mounts := remount ''/'' (remount ''/tmp'' (bw_mounts c)), bw_cwd := d, bw_env := pwd @ rev (env_pairs h tools) @ env\<rparr>"
proof -
  have one: "does bwrap [''--remount-ro'', x] (\<lambda>c. c\<lparr>bw_mounts := remount x (bw_mounts c)\<rparr>)" "does bwrap [''--chdir'', x] (\<lambda>c. c\<lparr>bw_cwd := x\<rparr>)" for x
    using doc by (simp_all add: bwrap_documented_def)
  let ?rest = "env_args h tools @ ''--'' # cmd"
  have "bwrap c ([''--remount-ro'', ''/tmp''] @ [''--remount-ro'', ''/''] @ [''--chdir'', d] @ ''--clearenv'' # ?rest) = Some (c', command)"
    using assms(2) by simp
  from does_run [OF one(2) does_run [OF one(1) does_run [OF one(1) this]]]
  have 1: "bwrap (c\<lparr>bw_mounts := remount ''/'' (remount ''/tmp'' (bw_mounts c)), bw_cwd := d\<rparr>) (''--clearenv'' # ?rest) = Some (c', command)"
    by simp
  have clear: "\<forall>c rest. bwrap c (''--clearenv'' # rest) = None \<or>
        (\<exists>env. only_pwd env \<and> bwrap c (''--clearenv'' # rest) = bwrap (c\<lparr>bw_env := env\<rparr>) rest)"
    and start: "\<forall>c command. bwrap c (''--'' # command) = None \<or>
        (\<exists>env. only_pwd env \<and> bwrap c (''--'' # command) = Some (c\<lparr>bw_env := env @ bw_env c\<rparr>, command))"
    using doc unfolding bwrap_documented_def by blast+
  obtain env where env: "only_pwd env"
    "bwrap (c\<lparr>bw_mounts := remount ''/'' (remount ''/tmp'' (bw_mounts c)), bw_cwd := d, bw_env := env\<rparr>) ?rest = Some (c', command)"
    using clear [rule_format, of "c\<lparr>bw_mounts := remount ''/'' (remount ''/tmp'' (bw_mounts c)), bw_cwd := d\<rparr>" ?rest] 1 by auto
  let ?c = "c\<lparr>bw_mounts := remount ''/'' (remount ''/tmp'' (bw_mounts c)), bw_cwd := d, bw_env := rev (env_pairs h tools) @ env\<rparr>"
  have 2: "bwrap ?c (''--'' # cmd) = Some (c', command)"
    using does_run [OF does_setenv [OF doc] env(2) [unfolded env_args_pairs]] by simp
  obtain pwd where "only_pwd pwd" "bwrap ?c (''--'' # cmd) = Some (?c\<lparr>bw_env := pwd @ bw_env ?c\<rparr>, cmd)"
    using start [rule_format, of ?c cmd] 2 by auto
  with 2 env(1) show thesis by (intro that [of env pwd]) simp_all
qed

definition ENV_NAMES :: "string list" where
  "ENV_NAMES = KEPT_ENV @ [''PATH'', ''HOME'', ''TMPDIR'', ''CARGO_HOME'', ''RUSTUP_HOME'', ''CARGO_NET_OFFLINE'']"

lemma env_pairs_names: "list_all (\<lambda>(k, v). if starts_with k ''LC_'' then True else k \<in> set ENV_NAMES) (env_pairs h tools)"
  by (auto simp: env_pairs_def ENV_NAMES_def list_all_iff mem_map_filter)

text \<open>A mount that may be written is a bind of the project in its own place, the private scratch, or the
  kernel's own file systems.\<close>

fun confined :: "project_boundary \<Rightarrow> source \<Rightarrow> string \<Rightarrow> bool" where
  "confined b (Host x) p = (x = p \<and> x \<in> set (pb_root b # pb_git_writable b))"
| "confined b Memory p = (p = PRIVATE_SCRATCH)"
| "confined b Kernel p = (p = ''/proc'' \<or> p = ''/dev'')"

lemma clean_confined: "clean_mount (pb_root b # pb_git_writable b) m \<Longrightarrow>
    if mt_writable m then confined b (mt_source m) (mt_at m) else True"
  by (auto simp: clean_mount_def)

lemma scratch_apart: "validated_scratch_mount b = Inr s \<Longrightarrow> ''/'' \<notin> set (pb_root b # pb_git_writable b)"
proof -
  have "path_below PRIVATE_SCRATCH ''/''" by code_simp
  then show "validated_scratch_mount b = Inr s \<Longrightarrow> ?thesis" by (auto simp: validated_scratch_mount_def list_ex_iff split: if_splits)
qed

text \<open>
  C15 (sandbox_confines): for any bubblewrap that behaves as its manual page says, and as long as neither the project, one of
  its Git directories nor a tool is \<^verbatim>\<open>/tmp\<close> and no tool is \<^verbatim>\<open>/\<close>: if a container is started from the
  generated arguments, what runs in it is a shell that gets the command as one word. The only mounts that
  may be written are the project and its validated Git directories in their own place, a private scratch
  directory and the kernel's file systems; the project is mounted; the user, process, IPC, host name and
  network namespaces are unshared, no further user namespace can be made, the session is new and ends
  with its parent, and every capability is dropped; of the environment nothing is left but the listed
  variables and the working directory, with no home directory; and the shell starts in the directory
  of the caller.
\<close>

theorem sandbox_confines:
  assumes "bwrap_documented bwrap" "sandbox_args h b tools original = Inr args" "bwrap (bw_start env) args = Some (c, command)"
    and "''/tmp'' \<notin> set (pb_root b # pb_git_writable b @ tools)" "''/'' \<notin> set tools"
  shows "command = [''/bin/bash'', ''--noprofile'', ''--norc'', ''-c'', original] \<and>
    list_all (\<lambda>m. if mt_writable m then confined b (mt_source m) (mt_at m) else True) (bw_mounts c) \<and>
    list_ex (\<lambda>m. mt_at m = pb_root b \<and> mt_source m = Host (pb_root b) \<and> mt_writable m) (bw_mounts c) \<and>
    list_all (\<lambda>f. f \<in> set (bw_flags c)) [''--unshare-user'', ''--unshare-pid'', ''--unshare-ipc'', ''--unshare-uts'', ''--unshare-net'',
      ''--disable-userns'', ''--assert-userns-disabled'', ''--new-session'', ''--die-with-parent''] \<and>
    bw_dropped c = [''ALL''] \<and>
    list_all (\<lambda>(k, v). if starts_with k ''LC_'' then True else k \<in> set (''PWD'' # ENV_NAMES)) (bw_env c) \<and>
    map_of (bw_env c) ''HOME'' = Some ''/nonexistent'' \<and> bw_cwd c = pb_cwd b"
proof -
  let ?R = "pb_root b # pb_git_writable b" and ?sh = "[''/bin/bash'', ''--noprofile'', ''--norc'', ''-c'', original]"
  obtain tool_binds where tools: "tools_args h tools = Inr tool_binds" and scratch: "validated_scratch_mount b = Inr PRIVATE_SCRATCH"
    and args: "args = BASE_ARGS @ [''--tmpfs'', PRIVATE_SCRATCH] @ system_args h @ project_args b @ tool_binds @
      [''--remount-ro'', ''/tmp'', ''--remount-ro'', ''/'', ''--chdir'', pb_cwd b, ''--clearenv''] @ env_args h tools @ ''--'' # ?sh"
    using assms(2) by (auto simp: sandbox_args_def validated_scratch_mount_def split: sum.splits if_splits)
  have ok: "list_all (\<lambda>d. d \<noteq> ''/'' \<and> d \<noteq> ''/tmp'') ?R" "list_all (\<lambda>d. d \<noteq> ''/'' \<and> d \<noteq> ''/tmp'') tools"
    using assms(4,5) scratch_apart [OF scratch] by (auto simp: list_all_iff)
  have 0: "bwrap (base_state env) (system_args h @ project_args b @ tool_binds @
      [''--remount-ro'', ''/tmp'', ''--remount-ro'', ''/'', ''--chdir'', pb_cwd b, ''--clearenv''] @ env_args h tools @ ''--'' # ?sh) = Some (c, command)"
    by (rule base_run [OF assms(1) assms(3) [unfolded args]])
  obtain n1 where n1: "list_all (clean_mount ?R) n1" "bwrap ((base_state env)\<lparr>bw_mounts := n1 @ bw_mounts (base_state env)\<rparr>) (project_args b @ tool_binds @
      [''--remount-ro'', ''/tmp'', ''--remount-ro'', ''/'', ''--chdir'', pb_cwd b, ''--clearenv''] @ env_args h tools @ ''--'' # ?sh) = Some (c, command)"
    by (rule clean_run [OF clean_system [OF assms(1)] 0])
  obtain n2 where n2: "list_all (clean_mount ?R) n2" "list_ex (\<lambda>m. mt_at m = pb_root b \<and> mt_source m = Host (pb_root b) \<and> mt_writable m) n2"
    "bwrap ((base_state env)\<lparr>bw_mounts := n2 @ n1 @ bw_mounts (base_state env)\<rparr>) (tool_binds @
      [''--remount-ro'', ''/tmp'', ''--remount-ro'', ''/'', ''--chdir'', pb_cwd b, ''--clearenv''] @ env_args h tools @ ''--'' # ?sh) = Some (c, command)"
    using project_run [OF assms(1) ok(1) n1(2)] by auto
  obtain n3 where n3: "list_all (clean_mount ?R) n3" "bwrap ((base_state env)\<lparr>bw_mounts := n3 @ n2 @ n1 @ bw_mounts (base_state env)\<rparr>)
      ([''--remount-ro'', ''/tmp'', ''--remount-ro'', ''/'', ''--chdir'', pb_cwd b, ''--clearenv''] @ env_args h tools @ ''--'' # ?sh) = Some (c, command)"
    using clean_run [OF clean_tools [OF assms(1) tools ok(2)] n2(3)] by auto
  let ?n = "n3 @ n2 @ n1"
  have new: "list_all (clean_mount ?R) ?n" using n1(1) n2(1) n3(1) by simp
  obtain left pwd where e: "only_pwd left" "only_pwd pwd" and command: "command = ?sh" and c: "c = (base_state env)
      \<lparr>bw_mounts := remount ''/'' (remount ''/tmp'' (?n @ bw_mounts (base_state env))), bw_cwd := pb_cwd b,
       bw_env := pwd @ rev (env_pairs h tools) @ left\<rparr>"
    using seal_run [OF assms(1) n3(2)] by auto
  have mounts: "bw_mounts c = ?n @ [\<lparr>mt_at = PRIVATE_SCRATCH, mt_source = Memory, mt_writable = True\<rparr>,
       \<lparr>mt_at = ''/tmp'', mt_source = Memory, mt_writable = False\<rparr>, \<lparr>mt_at = ''/dev'', mt_source = Kernel, mt_writable = True\<rparr>,
       \<lparr>mt_at = ''/proc'', mt_source = Kernel, mt_writable = True\<rparr>, \<lparr>mt_at = ''/'', mt_source = Memory, mt_writable = False\<rparr>]"
    unfolding c by (simp add: clean_remount [OF new, simplified] base_state_def PRIVATE_SCRATCH_def)
  have "map_of pwd ''HOME'' = None" using e(2) by (auto simp: only_pwd_def list_all_iff map_of_eq_None_iff)
  moreover have "map_of (rev (env_pairs h tools)) ''HOME'' = Some ''/nonexistent''"
    by (simp add: env_pairs_def map_of_append)
  ultimately have home: "map_of (bw_env c) ''HOME'' = Some ''/nonexistent''" by (simp add: c map_of_append map_add_def)
  have names: "list_all (\<lambda>(k, v). if starts_with k ''LC_'' then True else k \<in> set (''PWD'' # ENV_NAMES)) (bw_env c)"
    using env_pairs_names [of h tools] e by (auto simp: c list_all_iff only_pwd_def)
  have writable: "list_all (\<lambda>m. if mt_writable m then confined b (mt_source m) (mt_at m) else True) (bw_mounts c)"
    unfolding mounts using new clean_confined [of b] by (simp add: list_all_iff)
  have bound: "list_ex (\<lambda>m. mt_at m = pb_root b \<and> mt_source m = Host (pb_root b) \<and> mt_writable m) (bw_mounts c)"
    unfolding mounts using n2(2) by simp
  have rest: "bw_flags c = rev BW_FLAGS" "bw_dropped c = [''ALL'']" "bw_cwd c = pb_cwd b" unfolding c by (simp_all add: base_state_def)
  show ?thesis using command writable bound rest names home by (simp add: BW_FLAGS_def)
qed

text \<open>A bubblewrap that can do everything it is asked to.\<close>

fun sample_bwrap :: bubblewrap where
  "sample_bwrap c [] = None"
| "sample_bwrap c (a # as) =
     (if a = ''--'' then Some (c, as)
      else if a \<in> set BW_FLAGS then sample_bwrap (c\<lparr>bw_flags := a # bw_flags c\<rparr>) as
      else if a = ''--clearenv'' then sample_bwrap (c\<lparr>bw_env := filter (\<lambda>(k, v). k = ''PWD'') (bw_env c)\<rparr>) as
      else case as of [] \<Rightarrow> None | x # bs \<Rightarrow>
       (if a = ''--cap-drop'' then sample_bwrap (c\<lparr>bw_dropped := x # bw_dropped c\<rparr>) bs
        else if a = ''--tmpfs'' then sample_bwrap (add_mount x Memory True c) bs
        else if a = ''--proc'' \<or> a = ''--dev'' then sample_bwrap (add_mount x Kernel True c) bs
        else if a = ''--dir'' then sample_bwrap c bs
        else if a = ''--remount-ro'' then sample_bwrap (c\<lparr>bw_mounts := remount x (bw_mounts c)\<rparr>) bs
        else if a = ''--chdir'' then sample_bwrap (c\<lparr>bw_cwd := x\<rparr>) bs
        else case bs of [] \<Rightarrow> None | y # ds \<Rightarrow>
         (if a = ''--ro-bind'' then sample_bwrap (add_mount y (Host x) False c) ds
          else if a = ''--bind'' then sample_bwrap (add_mount y (Host x) True c) ds
          else if a = ''--symlink'' then sample_bwrap c ds
          else if a = ''--setenv'' then sample_bwrap (c\<lparr>bw_env := (x, y) # bw_env c\<rparr>) ds
          else None)))"

lemma sample_bwrap_documented: "bwrap_documented sample_bwrap"
proof -
  have flag: "does sample_bwrap [f] (\<lambda>c. c\<lparr>bw_flags := f # bw_flags c\<rparr>)" if "f \<in> set BW_FLAGS" for f
  proof -
    have "f \<noteq> ''--''" using that by (auto simp: BW_FLAGS_def)
    with that show ?thesis by (simp add: does_def)
  qed
  have clear: "sample_bwrap c (''--clearenv'' # rest) = sample_bwrap (c\<lparr>bw_env := filter (\<lambda>(k, v). k = ''PWD'') (bw_env c)\<rparr>) rest" for c rest
    by (simp add: BW_FLAGS_def)
  have pwd: "only_pwd (filter (\<lambda>(k, v). k = ''PWD'') env)" for env by (auto simp: only_pwd_def list_all_iff)
  have "\<exists>env. only_pwd env \<and> sample_bwrap c (''--clearenv'' # rest) = sample_bwrap (c\<lparr>bw_env := env\<rparr>) rest" for c rest
    by (rule exI [of _ "filter (\<lambda>(k, v). k = ''PWD'') (bw_env c)"]) (use pwd clear in blast)
  moreover have "\<exists>env. only_pwd env \<and> sample_bwrap c (''--'' # command) = Some (c\<lparr>bw_env := env @ bw_env c\<rparr>, command)" for c command
    by (rule exI [of _ "[]"]) (simp add: only_pwd_def)
  moreover have "does sample_bwrap [''--cap-drop'', x] (\<lambda>c. c\<lparr>bw_dropped := x # bw_dropped c\<rparr>)"
    "does sample_bwrap [''--tmpfs'', x] (add_mount x Memory True)" "does sample_bwrap [''--proc'', x] (add_mount x Kernel True)"
    "does sample_bwrap [''--dev'', x] (add_mount x Kernel True)" "does sample_bwrap [''--dir'', x] (\<lambda>c. c)"
    "does sample_bwrap [''--remount-ro'', x] (\<lambda>c. c\<lparr>bw_mounts := remount x (bw_mounts c)\<rparr>)"
    "does sample_bwrap [''--chdir'', x] (\<lambda>c. c\<lparr>bw_cwd := x\<rparr>)" "does sample_bwrap [''--ro-bind'', x, y] (add_mount y (Host x) False)"
    "does sample_bwrap [''--bind'', x, y] (add_mount y (Host x) True)" "does sample_bwrap [''--symlink'', x, y] (\<lambda>c. c)"
    "does sample_bwrap [''--setenv'', x, y] (\<lambda>c. c\<lparr>bw_env := (x, y) # bw_env c\<rparr>)" for x y
    by (simp_all add: does_def BW_FLAGS_def)
  ultimately show ?thesis unfolding bwrap_documented_def using flag by blast
qed

definition sample_boundary :: project_boundary where
  "sample_boundary = \<lparr>pb_root = ''/home/u/p'', pb_cwd = ''/home/u/p'', pb_git_writable = []\<rparr>"

definition sample_host :: sandbox_host where
  "sample_host = \<lparr>sh_exists = (\<lambda>p. p = ''/usr''), sh_is_symlink = (\<lambda>_. True), sh_registry_child = (\<lambda>_. Inr False),
     sh_home = ''/home/u'', sh_env = [(''LANG'', ''C''), (''LC_ALL'', ''C''), (''TOKEN'', ''secret'')]\<rparr>"

lemma sample_args: "sandbox_args sample_host sample_boundary [] ''ls'' =
    Inr (projr (sandbox_args sample_host sample_boundary [] ''ls''))"
  by (simp add: sandbox_args_def validated_scratch_mount_def sample_boundary_def path_below_def path_parts_def
      PRIVATE_SCRATCH_def is_absolute_def)

theorem sandbox_confines_witness:
  "\<exists>c. sample_bwrap (bw_start (sh_env sample_host)) (projr (sandbox_args sample_host sample_boundary [] ''ls'')) =
      Some (c, [''/bin/bash'', ''--noprofile'', ''--norc'', ''-c'', ''ls'']) \<and>
    list_all (\<lambda>m. if mt_writable m then confined sample_boundary (mt_source m) (mt_at m) else True) (bw_mounts c) \<and>
    list_ex (\<lambda>m. mt_at m = pb_root sample_boundary \<and> mt_source m = Host (pb_root sample_boundary) \<and> mt_writable m) (bw_mounts c) \<and>
    ''--unshare-net'' \<in> set (bw_flags c) \<and> bw_dropped c = [''ALL''] \<and>
    list_all (\<lambda>(k, v). if starts_with k ''LC_'' then True else k \<in> set (''PWD'' # ENV_NAMES)) (bw_env c) \<and>
    bw_cwd c = pb_cwd sample_boundary"
proof -
  let ?args = "projr (sandbox_args sample_host sample_boundary [] ''ls'')"
  have "sample_bwrap (bw_start (sh_env sample_host)) ?args \<noteq> None" by code_simp
  then obtain c command where run: "sample_bwrap (bw_start (sh_env sample_host)) ?args = Some (c, command)" by auto
  have apart: "''/tmp'' \<notin> set (pb_root sample_boundary # pb_git_writable sample_boundary @ [])" "''/'' \<notin> set []"
    by (simp_all add: sample_boundary_def)
  show ?thesis using sandbox_confines [OF sample_bwrap_documented sample_args run apart] run by auto
qed

section \<open>The direct start of Claude\<close>

lemma single_quoted: "CHR 0x27 \<notin> set p \<Longrightarrow>
    claude_words Single_quoted words word started (p @ CHR 0x27 # s) = claude_words Bare words (word @ p) started s"
  by (induction p arbitrary: word) auto

definition plain_char :: "char \<Rightarrow> bool" where
  "plain_char c \<longleftrightarrow> \<not> ascii_space c \<and> c \<noteq> CHR 0x27 \<and> c \<noteq> CHR 0x22 \<and> c \<notin> set SHELL_OPERATORS"

lemma plain_word: "list_all plain_char w \<Longrightarrow> w \<noteq> [] \<Longrightarrow>
    claude_words Bare words word started (w @ s) = claude_words Bare words (word @ w) True s"
proof (induction w arbitrary: word started)
  case (Cons c w)
  then show ?case by (cases "w = []") (simp_all add: plain_char_def)
qed simp

fun spaced :: "string list \<Rightarrow> string" where
  "spaced [] = []"
| "spaced (w # ws) = w @ CHR '' '' # spaced ws"

lemma spaced_words: "list_all (\<lambda>w. w \<noteq> [] \<and> list_all plain_char w) ws \<Longrightarrow>
    claude_words Bare words [] False (spaced ws @ s) = claude_words Bare (words @ ws) [] False s"
proof (induction ws arbitrary: words)
  case (Cons w ws)
  then show ?case using plain_word [of w words "[]" False "CHR '' '' # spaced ws @ s"] by (simp add: ascii_space_def)
qed simp

definition invocation_words :: "string \<Rightarrow> string \<Rightarrow> string list" where
  "invocation_words model mode = [''claude'', ''-p'', ''--model'', model, ''--output-format'', ''json'',
     ''--permission-mode'', mode, ''--permission-prompt-tool'', PERMISSION_TOOL]"

definition claude_command :: "string \<Rightarrow> string \<Rightarrow> string \<Rightarrow> string" where
  "claude_command model mode prompt = spaced (invocation_words model mode) @ CHR 0x27 # prompt @ [CHR 0x27]"

text \<open>
  C16 (claude_prompt_verbatim): a prompt in single quotes reaches Claude byte for byte as one argument behind the
  double dash, whatever shell syntax it contains: the wrapper starts Claude directly, with the
  model and the permission mode of the command line.
\<close>

theorem claude_prompt_verbatim:
  assumes "model \<in> {''opus'', ''sonnet''}" "mode \<in> {''plan'', ''acceptEdits''}" "prompt \<noteq> []"
    and "CHR 0x27 \<notin> set prompt" "CHR 0x00 \<notin> set prompt" "utf8_valid (claude_command model mode prompt)"
  shows "\<exists>iv. dispatch_from_env [exe, ''-c'', claude_command model mode prompt] = Inr (Direct (invocation_words model mode @ [prompt])) \<and>
    parse_invocation (invocation_words model mode @ [prompt]) = Some iv \<and>
    drop (length (strict_claude_args iv settings mcp_config) - 2) (strict_claude_args iv settings mcp_config) = [''--'', prompt] \<and>
    ci_model iv = model \<and> ci_permission_mode iv = mode"
proof -
  have plain: "list_all (\<lambda>w. w \<noteq> [] \<and> list_all plain_char w) (invocation_words model mode)"
    using assms(1,2) by (auto simp: invocation_words_def PERMISSION_TOOL_def plain_char_def ascii_space_def SHELL_OPERATORS_def)
  have words: "claude_words Bare [] [] False (claude_command model mode prompt) = Inr (Some (invocation_words model mode @ [prompt]))"
    using spaced_words [OF plain, of "[]" "CHR 0x27 # prompt @ [CHR 0x27]"]
      single_quoted [OF assms(4), of "invocation_words model mode" "[]" True "[]"]
    by (simp add: claude_command_def ascii_space_def)
  have parsed: "parse_invocation (invocation_words model mode @ [prompt]) =
      Some \<lparr>ci_model = model, ci_permission_mode = mode, ci_prompt = prompt\<rparr>"
    using assms(1-3,5) by (auto simp: parse_invocation_def invocation_words_def path_name_def path_parts_def)
  have start: "trim_start (claude_command model mode prompt) = claude_command model mode prompt"
    by (rule trim_start_fix) (simp add: claude_command_def invocation_words_def ws_len_def ascii_ws_def ws2_def ws3_def split: list.split)
  have after: "strip_prefix (claude_command model mode prompt) ''claude'' = Some (drop 6 (claude_command model mode prompt))"
    by (simp add: strip_prefix_def claude_command_def invocation_words_def)
  have space: "ws_len (drop 6 (claude_command model mode prompt)) \<noteq> 0"
    by (simp add: claude_command_def invocation_words_def ws_len_def ascii_ws_def)
  have "direct_claude_argv (claude_command model mode prompt) = Inr (Some (invocation_words model mode @ [prompt]))"
    unfolding direct_claude_argv_def start after option.case words sum.case parsed using space by (simp add: invocation_words_def)
  then show ?thesis using assms(6) parsed by (simp add: dispatch_from_env_def strict_claude_args_def)
qed

lemma sample_prompt: "utf8_valid (claude_command ''opus'' ''plan'' ''a; $(rm x)'')"
  by code_simp

lemma claude_prompt_verbatim_witness:
  "\<exists>iv. dispatch_from_env [''rtrt'', ''-c'', claude_command ''opus'' ''plan'' ''a; $(rm x)''] =
      Inr (Direct (invocation_words ''opus'' ''plan'' @ [''a; $(rm x)''])) \<and>
    parse_invocation (invocation_words ''opus'' ''plan'' @ [''a; $(rm x)'']) = Some iv \<and>
    drop (length (strict_claude_args iv ''{}'' ''{}'') - 2) (strict_claude_args iv ''{}'' ''{}'') = [''--'', ''a; $(rm x)''] \<and>
    ci_model iv = ''opus'' \<and> ci_permission_mode iv = ''plan''"
  by (rule claude_prompt_verbatim [OF _ _ _ _ _ sample_prompt]) simp_all

text \<open>
  The screen for commands that are not Claude's looks at the first word of each segment only: an
  assignment, a reserved word or \<^verbatim>\<open>eval\<close> before an expansion lets it through.
\<close>

lemma screen_passes_expansions:
  "validate_command ''c=claude; x=1 $c'' = Inr ()"
  "validate_command ''eval $(printf cla)ude'' = Inr ()"
  "isl (validate_command ''c=claude; $c'')"
  by code_simp+

end
