(* ===== verification/Sandbox_Policy.thy ===== *)
theory Sandbox_Policy
  imports Sandbox
begin

text \<open>
  Who may be sandboxed and by what (\<^verbatim>\<open>crates/rtrt-cli/src/sandbox.rs\<close>): the checks of files and
  directories, the discovery of the project's boundary, and the ownership registry with the
  projects that were authorised. The file system is an argument: what \<^verbatim>\<open>symlink_metadata\<close>,
  \<^verbatim>\<open>metadata\<close> and \<^verbatim>\<open>canonicalize\<close> give for a path and what reading it gives. Registering a
  project with a tool path that is not UTF-8 panics (\<open>None\<close>); the executable, the backend and the
  configuration file of a new registry are taken to be UTF-8.
\<close>

section \<open>Files\<close>

record file_meta =
  fm_symlink :: bool
  fm_dir :: bool
  fm_file :: bool
  fm_mode :: nat
  fm_uid :: nat
  fm_len :: nat

record host_fs =
  hf_lstat :: "string \<Rightarrow> file_meta option"
  hf_stat :: "string \<Rightarrow> file_meta option"
  hf_canon :: "string \<Rightarrow> string option"
  hf_read :: "string \<Rightarrow> string option"

text \<open>The bits of \<^verbatim>\<open>0o022\<close>, \<^verbatim>\<open>0o111\<close> and \<^verbatim>\<open>0o077\<close>.\<close>

definition others_write :: "file_meta \<Rightarrow> bool" where
  "others_write m \<longleftrightarrow> bit (fm_mode m) 4 \<or> bit (fm_mode m) 1"

definition executable_mode :: "file_meta \<Rightarrow> bool" where
  "executable_mode m \<longleftrightarrow> bit (fm_mode m) 6 \<or> bit (fm_mode m) 3 \<or> bit (fm_mode m) 0"

definition owner_only :: "file_meta \<Rightarrow> bool" where
  "owner_only m \<longleftrightarrow> fm_mode m mod 64 = 0"

definition locate_backend_in :: "host_fs \<Rightarrow> string list \<Rightarrow> string + string" where
  "locate_backend_in fs candidates =
     (case List.find (\<lambda>c. case hf_lstat fs c of None \<Rightarrow> False
        | Some m \<Rightarrow> \<not> fm_symlink m \<and> fm_file m \<and> (case hf_canon fs c of None \<Rightarrow> False
          | Some p \<Rightarrow> (case hf_stat fs p of None \<Rightarrow> False
            | Some t \<Rightarrow> fm_uid t = 0 \<and> fm_file t \<and> executable_mode t \<and> \<not> others_write t))) candidates of
        Some c \<Rightarrow> Inr (the (hf_canon fs c))
      | None \<Rightarrow> Inl (''strict OpenCode sandbox unavailable: install a root-owned, executable, '' @
          ''non-group/world-writable bubblewrap at /usr/bin/bwrap or /bin/bwrap''))"

definition MAX_CONFIG_BYTES :: nat where "MAX_CONFIG_BYTES = 1024 * 1024"
definition MAX_REGISTRY_BYTES :: nat where "MAX_REGISTRY_BYTES = 256 * 1024"
definition MAX_PROJECTS :: nat where "MAX_PROJECTS = 128"

definition validate_config_file :: "host_fs \<Rightarrow> string \<Rightarrow> nat \<Rightarrow> string + unit" where
  "validate_config_file fs path uid =
     (if \<not> is_absolute path then Inl (''OpenCode config path is not absolute: '' @ path)
      else case hf_lstat fs path of None \<Rightarrow> Inl (''inspect OpenCode config '' @ path)
      | Some m \<Rightarrow>
          if fm_symlink m \<or> \<not> fm_file m then Inl (''OpenCode config is not a regular file: '' @ path)
          else if fm_uid m \<noteq> uid then Inl ''OpenCode config is not owned by the invoking user''
          else if others_write m then Inl (''OpenCode config is group/world-writable: '' @ path)
          else if MAX_CONFIG_BYTES < fm_len m then Inl (''OpenCode config exceeds '' @ nat_str MAX_CONFIG_BYTES @ '' bytes'')
          else Inr ())"

text \<open>An absolute path and the directories above it, up to the root.\<close>

definition ancestors :: "string \<Rightarrow> string list" where
  "ancestors p = rev (map (\<lambda>n. ''/'' @ join ''/'' (take n (path_parts p))) [0..<length (path_parts p) + 1])"

fun check_all :: "('a \<Rightarrow> string + unit) \<Rightarrow> 'a list \<Rightarrow> string + unit" where
  "check_all f [] = Inr ()"
| "check_all f (x # xs) = (case f x of Inl e \<Rightarrow> Inl e | Inr _ \<Rightarrow> check_all f xs)"

definition check_ancestor :: "host_fs \<Rightarrow> nat \<Rightarrow> bool \<Rightarrow> string \<Rightarrow> string \<Rightarrow> string + unit" where
  "check_ancestor fs uid reject_checkout exe a =
     (if reject_checkout \<and> hf_lstat fs (join_path a ''.git'') \<noteq> None then
        Inl (''OpenCode sandbox shell executable must not be installed inside a Git checkout: '' @ exe)
      else case hf_lstat fs a of None \<Rightarrow> Inl (''inspect sandbox shell executable ancestor '' @ a)
      | Some m \<Rightarrow>
          if fm_symlink m \<or> \<not> fm_dir m then
            Inl (''OpenCode sandbox shell executable ancestor must be a real directory, not a symlink: '' @ a)
          else if fm_uid m \<noteq> uid \<and> fm_uid m \<noteq> 0 then
            Inl (''OpenCode sandbox shell executable ancestor must be owned by the invoking user or root: '' @ a)
          else if others_write m then
            Inl (''OpenCode sandbox shell executable ancestor must not be group/world-writable: '' @ a)
          else Inr ())"

definition validate_shell_executable :: "host_fs \<Rightarrow> string option \<Rightarrow> string \<Rightarrow> nat \<Rightarrow> bool \<Rightarrow> string + unit" where
  "validate_shell_executable fs project_root exe uid reject_checkout =
     (if \<not> is_absolute exe then
        Inl (''OpenCode sandbox shell executable must be an absolute canonical path: '' @ exe)
      else if (case project_root of None \<Rightarrow> False | Some root \<Rightarrow> path_below exe root) then
        Inl (''OpenCode sandbox shell executable must be outside the writable authorized project root: '' @ exe)
      else case hf_lstat fs exe of None \<Rightarrow> Inl (''inspect sandbox shell executable '' @ exe)
      | Some m \<Rightarrow>
          if fm_symlink m \<or> \<not> fm_file m \<or> \<not> executable_mode m \<or> others_write m then
            Inl (''OpenCode sandbox shell executable must be a real executable file not writable by group or others: '' @ exe)
          else if fm_uid m \<noteq> uid \<and> fm_uid m \<noteq> 0 then
            Inl (''OpenCode sandbox shell executable must be owned by the invoking user or root: '' @ exe)
          else if path_parts exe = [] then Inl ''sandbox shell executable has no parent''
          else check_all (check_ancestor fs uid reject_checkout exe) (tl (ancestors exe)))"

definition validated_tool_paths :: "host_fs \<Rightarrow> string \<Rightarrow> nat \<Rightarrow> string list option" where
  "validated_tool_paths fs home uid =
     those (map (hf_canon fs) (filter (\<lambda>c. case hf_lstat fs c of None \<Rightarrow> False
        | Some m \<Rightarrow> \<not> (fm_symlink m \<or> fm_uid m \<noteq> uid \<or> others_write m \<or> \<not> fm_dir m \<and> \<not> fm_file m))
       (map (join_path home) [''.cargo/bin'', ''.cargo/registry'', ''.cargo/git'', ''.local/bin'', ''.rustup/toolchains'',
          ''.rustup/settings.toml''])))"

text \<open>\<open>missing\<close>: the path does not exist, as opposed to any other failure of looking at it.\<close>

definition validated_registry_child :: "host_fs \<Rightarrow> (string \<Rightarrow> bool) \<Rightarrow> nat \<Rightarrow> string \<Rightarrow> string + bool" where
  "validated_registry_child fs missing uid path = (case hf_lstat fs path of
     None \<Rightarrow> if missing path then Inr False else Inl (''inspect sandbox Cargo registry child '' @ path)
   | Some m \<Rightarrow> if fm_symlink m \<or> \<not> fm_dir m \<or> fm_uid m \<noteq> uid \<or> others_write m then
         Inl (''sandbox Cargo registry child is unsafe: '' @ path)
       else Inr True)"

section \<open>The boundary of a project\<close>

definition one_line :: "host_fs \<Rightarrow> string \<Rightarrow> string \<Rightarrow> string + string" where
  "one_line fs path pre = (case hf_read fs path of None \<Rightarrow> Inl (''read '' @ path)
     | Some raw \<Rightarrow> let ls = lines raw; line = (case ls of [] \<Rightarrow> [] | l # _ \<Rightarrow> l) in
         if 1 < length ls \<or> \<not> starts_with line pre \<or> CHR 0x00 \<in> set line then
           Inl (''invalid linked-worktree metadata: '' @ path)
         else if trim (drop (length pre) line) = [] then Inl (''empty linked-worktree metadata: '' @ path)
         else Inr (trim (drop (length pre) line)))"

text \<open>A step that may fail, then the rest.\<close>

definition or_fail :: "'a option \<Rightarrow> string \<Rightarrow> string + 'a" where
  "or_fail x e = (case x of None \<Rightarrow> Inl e | Some y \<Rightarrow> Inr y)"

definition and_then :: "string + 'a \<Rightarrow> ('a \<Rightarrow> string + 'b) \<Rightarrow> string + 'b" where
  "and_then r f = (case r of Inl e \<Rightarrow> Inl e | Inr x \<Rightarrow> f x)"

definition is_dir :: "host_fs \<Rightarrow> string \<Rightarrow> bool" where
  "is_dir fs p \<longleftrightarrow> (case hf_stat fs p of None \<Rightarrow> False | Some m \<Rightarrow> fm_dir m)"

definition linked_git_dirs :: "host_fs \<Rightarrow> string \<Rightarrow> string \<Rightarrow> string + string list" where
  "linked_git_dirs fs root git_file =
     and_then (one_line fs git_file ''gitdir:'') (\<lambda>line.
     and_then (or_fail (hf_canon fs (join_path root line)) ''canonicalize worktree Git admin directory'') (\<lambda>git_dir.
     if \<not> is_dir fs git_dir then Inl ''linked-worktree Git admin path is not a directory'' else
     and_then (one_line fs (join_path git_dir ''commondir'') []) (\<lambda>line.
     and_then (or_fail (hf_canon fs (join_path git_dir line)) ''canonicalize common Git directory'') (\<lambda>common.
     if path_name common \<noteq> Some ''.git'' \<or> \<not> is_dir fs common then
       Inl ''linked-worktree common directory is not a validated .git directory'' else
     and_then (or_fail (hf_canon fs (join_path common ''worktrees'')) ''canonicalize Git worktrees directory'') (\<lambda>worktrees.
     and_then (or_fail (strip_path git_dir worktrees) ''Git admin directory escapes common worktrees directory'') (\<lambda>relative.
     if length relative \<noteq> 1 then Inl ''Git admin directory is not a direct worktrees child'' else
     and_then (one_line fs (join_path git_dir ''gitdir'') []) (\<lambda>line.
     and_then (or_fail (hf_canon fs (join_path git_dir line)) ''canonicalize Git worktree backlink'') (\<lambda>backlink.
     and_then (or_fail (hf_canon fs git_file) ''canonicalize worktree .git file'') (\<lambda>own.
     if backlink \<noteq> own then Inl ''linked-worktree Git backlink mismatch'' else Inr [common, git_dir])))))))))"

text \<open>The nearest directory upwards that has a \<^verbatim>\<open>.git\<close> entry decides.\<close>

fun discover_from :: "host_fs \<Rightarrow> string \<Rightarrow> string list \<Rightarrow> string + project_boundary" where
  "discover_from fs cwd [] = Inl ''sandbox requires current directory inside a canonical Git worktree''"
| "discover_from fs cwd (a # as) = (case hf_lstat fs (join_path a ''.git'') of
     None \<Rightarrow> discover_from fs cwd as
   | Some m \<Rightarrow>
       if fm_symlink m then Inl (''sandbox refuses symlinked Git metadata: '' @ join_path a ''.git'')
       else and_then (or_fail (hf_canon fs a) ''canonicalize Git worktree'') (\<lambda>root.
         if root = ''/'' \<or> \<not> path_below cwd root then Inl ''sandbox worktree boundary is invalid''
         else and_then (if fm_dir m then Inr [] else if fm_file m then linked_git_dirs fs root (join_path a ''.git'')
           else Inl ''sandbox Git metadata is neither a directory nor a file'')
           (\<lambda>git. Inr \<lparr>pb_root = root, pb_cwd = cwd, pb_git_writable = git\<rparr>)))"

definition discover_project_from :: "host_fs \<Rightarrow> string \<Rightarrow> string + project_boundary" where
  "discover_project_from fs selected =
     and_then (or_fail (hf_canon fs selected) (''canonicalize selected project '' @ selected)) (\<lambda>cwd.
     if \<not> is_dir fs cwd then Inl (''selected project is not a directory: '' @ cwd)
     else if cwd = ''/'' then Inl ''sandbox refuses filesystem root as current directory''
     else discover_from fs cwd (ancestors cwd))"

section \<open>The registry\<close>

datatype json = J_null | J_num nat | J_str string | J_arr "json list" | J_obj "(string \<times> json) list" | J_other

fun j_get :: "string \<Rightarrow> json \<Rightarrow> json option" where
  "j_get k (J_obj fs) = map_of fs k"
| "j_get k _ = None"

fun j_str :: "json \<Rightarrow> string option" where
  "j_str (J_str s) = Some s"
| "j_str _ = None"

fun j_arr :: "json \<Rightarrow> json list option" where
  "j_arr (J_arr vs) = Some vs"
| "j_arr _ = None"

fun j_obj :: "json \<Rightarrow> (string \<times> json) list option" where
  "j_obj (J_obj fs) = Some fs"
| "j_obj _ = None"

text \<open>Writing a field that is there.\<close>

fun j_set :: "string \<Rightarrow> json \<Rightarrow> json \<Rightarrow> json" where
  "j_set k v (J_obj fs) = J_obj (map (\<lambda>(a, b). if a = k then (a, v) else (a, b)) fs)"
| "j_set k v j = j"

definition STATE_OWNER :: string where "STATE_OWNER = ''rtrt-opencode-linux-sandbox''"
definition STATE_VERSION :: nat where "STATE_VERSION = 2"

definition new_registry :: "string \<Rightarrow> string \<Rightarrow> string \<Rightarrow> json option \<Rightarrow> json" where
  "new_registry exe backend config prior_shell = J_obj
     [(''backend'', J_str backend), (''config_path'', J_str config), (''executable'', J_str exe), (''owned_shell'', J_str exe),
      (''owner'', J_str STATE_OWNER), (''prior_shell'', case prior_shell of None \<Rightarrow> J_null | Some v \<Rightarrow> v),
      (''projects'', J_obj []), (''version'', J_num STATE_VERSION)]"

definition project_entry :: "string \<Rightarrow> string list \<Rightarrow> json" where
  "project_entry root tools = J_obj [(''root'', J_str root), (''tool_paths'', J_arr (map J_str tools))]"

text \<open>The JSON of a path that is not UTF-8 panics.\<close>

definition authorize_project :: "project_boundary \<Rightarrow> string list \<Rightarrow> json \<Rightarrow> (string + json) option" where
  "authorize_project b tools registry = (case Option.bind (j_get ''projects'' registry) j_obj of
     None \<Rightarrow> Some (Inl ''sandbox registry projects is not an object'')
   | Some ps \<Rightarrow>
       if \<not> utf8_valid (pb_root b) then Some (Inl ''project path is not valid UTF-8'')
       else if map_of ps (pb_root b) = None \<and> MAX_PROJECTS \<le> length ps then
         Some (Inl (''sandbox registry project limit ('' @ nat_str MAX_PROJECTS @ '') reached''))
       else if \<not> list_all utf8_valid tools then None
       else Some (Inr (j_set ''projects'' (J_obj (bt_insert (pb_root b) (project_entry (pb_root b) tools) ps)) registry)))"

definition NOT_AUTHORIZED :: string where
  "NOT_AUTHORIZED = ''project is not authorized for strict sandboxing; '' @
     ''run `rtrt setup --agent opencode --sandbox --apply` here''"

definition deauthorize_project :: "project_boundary \<Rightarrow> json \<Rightarrow> string + bool \<times> json" where
  "deauthorize_project b registry = (case Option.bind (j_get ''projects'' registry) j_obj of
     None \<Rightarrow> Inl ''sandbox registry projects is not an object''
   | Some ps \<Rightarrow>
       if \<not> utf8_valid (pb_root b) then Inl ''project path is not valid UTF-8''
       else if map_of ps (pb_root b) = None then Inl NOT_AUTHORIZED
       else let rest = filter (\<lambda>(k, v). k \<noteq> pb_root b) ps in
         Inr (rest = [], j_set ''projects'' (J_obj rest) registry))"

definition check_entry :: "string \<Rightarrow> string \<times> json \<Rightarrow> string + unit" where
  "check_entry exe = (\<lambda>(root, entry).
     if Option.bind (j_get ''root'' entry) j_str \<noteq> Some root \<or> \<not> is_absolute root then
       Inl ''sandbox ownership registry contains invalid project root''
     else case Option.bind (j_get ''tool_paths'' entry) j_arr of
       None \<Rightarrow> Inl ''sandbox registry project has invalid tool paths''
     | Some tools \<Rightarrow>
         if 8 < length tools \<or> list_ex (\<lambda>t. j_str t = None) tools then
           Inl ''sandbox registry project tool paths exceed bounded policy''
         else if path_below exe root then Inl ''sandbox executable is inside an authorized project root''
         else Inr ())"

definition check_registry :: "string \<Rightarrow> json \<Rightarrow> string + unit" where
  "check_registry exe state =
     (if Option.bind (j_get ''owner'' state) j_str \<noteq> Some STATE_OWNER \<or> j_get ''version'' state \<noteq> Some (J_num STATE_VERSION) \<or>
        Option.bind (j_get ''executable'' state) j_str \<noteq> Some exe \<or> Option.bind (j_get ''backend'' state) j_str = None \<or>
        Option.bind (j_get ''config_path'' state) j_str = None \<or> Option.bind (j_get ''owned_shell'' state) j_str \<noteq> Some exe \<or>
        j_get ''prior_shell'' state = None \<or> Option.bind (j_get ''projects'' state) j_obj = None
      then Inl ''sandbox ownership registry does not match exact executable policy''
      else let ps = the (Option.bind (j_get ''projects'' state) j_obj) in
        if MAX_PROJECTS < length ps then Inl ''sandbox ownership registry exceeds bounded project limit''
        else check_all (check_entry exe) ps)"

definition load_registry_at :: "host_fs \<Rightarrow> (string \<Rightarrow> json option) \<Rightarrow> string \<Rightarrow> nat \<Rightarrow> string \<Rightarrow> string + json" where
  "load_registry_at fs parse path uid exe = (case hf_lstat fs path of
     None \<Rightarrow> Inl (''sandbox ownership registry missing: '' @ path @
       ''; run `rtrt setup --agent opencode --sandbox --apply` in this worktree'')
   | Some m \<Rightarrow>
       if fm_symlink m \<or> \<not> fm_file m then Inl (''sandbox ownership registry is not a regular file: '' @ path)
       else if MAX_REGISTRY_BYTES < fm_len m then
         Inl (''sandbox ownership registry exceeds '' @ nat_str MAX_REGISTRY_BYTES @ '' bytes'')
       else if \<not> owner_only m then Inl (''sandbox ownership registry is not private (expected mode 0600): '' @ path)
       else if fm_uid m \<noteq> uid then Inl ''sandbox ownership registry is not owned by the invoking user''
       else and_then (or_fail (Option.bind (hf_read fs path) parse) ''unreadable sandbox ownership registry'') (\<lambda>state.
         and_then (check_registry exe state) (\<lambda>_.
         and_then (validate_shell_executable fs None exe uid False) (\<lambda>_. Inr state))))"

definition project_tool_paths :: "json \<Rightarrow> project_boundary \<Rightarrow> string + string list" where
  "project_tool_paths registry b =
     (if \<not> utf8_valid (pb_root b) then Inl ''project path is not valid UTF-8''
      else case Option.bind (Option.bind (j_get ''projects'' registry) j_obj) (\<lambda>ps. map_of ps (pb_root b)) of
        None \<Rightarrow> Inl NOT_AUTHORIZED
      | Some entry \<Rightarrow>
          if Option.bind (j_get ''root'' entry) j_str \<noteq> Some (pb_root b) then
            Inl ''sandbox project registry entry has mismatched canonical root''
          else case Option.bind (j_get ''tool_paths'' entry) j_arr of
            None \<Rightarrow> Inl ''sandbox project registry entry has no tool paths''
          | Some tools \<Rightarrow> or_fail (those (map j_str tools)) ''sandbox registry contains invalid tool path'')"

text \<open>
  \<open>shell_check\<close>: the check of the shell entry of the configuration file, which belongs to the setup
  program.
\<close>

definition validate_launch_state ::
  "host_fs \<Rightarrow> (string \<Rightarrow> string \<Rightarrow> string + unit) \<Rightarrow> nat \<Rightarrow> json \<Rightarrow> project_boundary \<Rightarrow> string \<Rightarrow> string \<Rightarrow> string \<Rightarrow>
     string list \<Rightarrow> string + bool" where
  "validate_launch_state fs shell_check uid registry b exe backend config tools =
     (if Option.bind (j_get ''backend'' registry) j_str \<noteq> Some backend \<or>
        Option.bind (j_get ''config_path'' registry) j_str \<noteq> Some config \<or>
        Option.bind (j_get ''owned_shell'' registry) j_str \<noteq> Some exe
      then Inl ''sandbox registry config/executable/backend does not match one-time setup''
      else and_then (validate_config_file fs config uid) (\<lambda>_.
        and_then (shell_check config exe) (\<lambda>_.
        case project_tool_paths registry b of
          Inl _ \<Rightarrow> Inr False
        | Inr recorded \<Rightarrow>
            if recorded \<noteq> tools then Inl ''sandbox toolchain paths no longer match setup-managed policy'' else Inr True)))"

text \<open>
  \<open>initial\<close> and \<open>current\<close>: the registry as loaded first and as loaded again under the lock (another
  launcher may have written it in between). The result: was the project added, and the registry to
  write if so.
\<close>

definition authorize_project_at ::
  "host_fs \<Rightarrow> (string \<Rightarrow> string \<Rightarrow> string + unit) \<Rightarrow> nat \<Rightarrow> (string + json) option \<Rightarrow> string + json \<Rightarrow> project_boundary \<Rightarrow>
     string \<Rightarrow> string \<Rightarrow> string \<Rightarrow> string list \<Rightarrow> (string + json option) option" where
  "authorize_project_at fs shell_check uid initial current b exe backend config tools =
     (case (case initial of None \<Rightarrow> Inr False
        | Some loaded \<Rightarrow> and_then loaded (\<lambda>reg. validate_launch_state fs shell_check uid reg b exe backend config tools)) of
        Inl e \<Rightarrow> Some (Inl e)
      | Inr True \<Rightarrow> Some (Inr None)
      | Inr False \<Rightarrow>
          (case and_then current (\<lambda>reg. and_then (validate_launch_state fs shell_check uid reg b exe backend config tools)
              (\<lambda>known. Inr (reg, known))) of
             Inl e \<Rightarrow> Some (Inl e)
           | Inr (reg, True) \<Rightarrow> Some (Inr None)
           | Inr (reg, False) \<Rightarrow> map_option (\<lambda>r. and_then r (\<lambda>reg'. Inr (Some reg'))) (authorize_project b tools reg)))"

section \<open>What is authorised is accepted\<close>

lemma check_all_ok: "check_all f xs = Inr () \<longleftrightarrow> list_all (\<lambda>x. f x = Inr ()) xs"
  by (induction xs) (auto split: sum.splits)

lemma map_of_set_field: "map_of (map (\<lambda>(a, b). if a = k then (a, v) else (a, b)) fs) j =
    (if j = k \<and> map_of fs k \<noteq> None then Some v else map_of fs j)"
  by (induction fs) auto

lemma j_get_set: "j_get j (j_set k v r) = (if j = k \<and> j_get k r \<noteq> None then Some v else j_get j r)"
  by (cases r) (simp_all add: map_of_set_field)

lemma in_bt_insert: "p \<in> set (bt_insert k v m) \<Longrightarrow> p = (k, v) \<or> p \<in> set m"
  by (induction m) (auto split: if_splits)

lemma length_bt_insert: "bt_wf m \<Longrightarrow> length (bt_insert k v m) = (if bt_get m k = None then length m + 1 else length m)"
proof -
  assume wf: "bt_wf m"
  have "length (bt_insert k v m) = card (set (bt_keys (bt_insert k v m)))"
    using distinct_card [OF bt_wf_distinct [OF bt_wf_insert [OF wf]]] by simp
  also have "\<dots> = (if k \<in> set (bt_keys m) then card (set (bt_keys m)) else card (set (bt_keys m)) + 1)"
    unfolding set_bt_insert by (simp add: insert_absorb del: set_map)
  also have "card (set (bt_keys m)) = length m" using distinct_card [OF bt_wf_distinct [OF wf]] by simp
  finally show ?thesis unfolding bt_keys_get by simp
qed

lemma map_of_without: "map_of (filter (\<lambda>(k, v). k \<noteq> j) m) k = (if k = j then None else map_of m k)"
  by (induction m) auto

text \<open>A registry that the wrapper accepts, with its projects in the order of their paths.\<close>

definition registry_ok :: "string \<Rightarrow> json \<Rightarrow> bool" where
  "registry_ok exe reg \<longleftrightarrow> check_registry exe reg = Inr () \<and>
     (case Option.bind (j_get ''projects'' reg) j_obj of None \<Rightarrow> False | Some ps \<Rightarrow> bt_wf ps)"

text \<open>The parts of an accepted registry.\<close>

lemma registry_parts:
  assumes "registry_ok exe reg"
  obtains ps where "j_get ''projects'' reg = Some (J_obj ps)" "bt_wf ps" "length ps \<le> MAX_PROJECTS"
    "list_all (\<lambda>e. check_entry exe e = Inr ()) ps"
proof -
  from assms obtain v ps where v: "j_get ''projects'' reg = Some v" "j_obj v = Some ps" and ps: "bt_wf ps"
    by (auto simp: registry_ok_def Option.bind_eq_Some_conv split: option.splits)
  then have "j_get ''projects'' reg = Some (J_obj ps)" by (cases v) simp_all
  moreover from this have "length ps \<le> MAX_PROJECTS \<and> list_all (\<lambda>e. check_entry exe e = Inr ()) ps"
    using assms by (simp add: registry_ok_def check_registry_def check_all_ok Let_def split: if_splits)
  ultimately show ?thesis using ps that by blast
qed

lemma registry_with_projects:
  assumes "registry_ok exe reg" "bt_wf ps" "length ps \<le> MAX_PROJECTS" "list_all (\<lambda>e. check_entry exe e = Inr ()) ps"
  shows "registry_ok exe (j_set ''projects'' (J_obj ps) reg)"
proof -
  obtain qs where "j_get ''projects'' reg = Some (J_obj qs)" using registry_parts [OF assms(1)] by blast
  then have get: "j_get k (j_set ''projects'' (J_obj ps) reg) = (if k = ''projects'' then Some (J_obj ps) else j_get k reg)" for k
    by (simp add: j_get_set)
  have "check_all (check_entry exe) ps = Inr ()" using assms(4) check_all_ok by blast
  then show ?thesis using assms(1-3) unfolding registry_ok_def check_registry_def get
    by (simp add: Let_def split: if_splits)
qed

lemma those_strings: "those (map (j_str \<circ> J_str) xs) = Some xs"
  by (induction xs) simp_all

text \<open>
  C17 (registry_authorize): authorising a project whose root is absolute and does not hold the wrapper's own
  executable turns a registry that the wrapper accepts into one that it accepts: it holds at most
  128 projects, every entry names its own root; the project then has exactly the recorded tool
  paths, every other project keeps its entry, and taking the authorisation back leaves the project
  unknown and the others as they were.
\<close>

theorem registry_authorize:
  assumes "registry_ok exe reg" "authorize_project b tools reg = Some (Inr reg')"
    and "is_absolute (pb_root b)" "\<not> path_below exe (pb_root b)" "length tools \<le> 8" "pb_root other \<noteq> pb_root b"
  shows "registry_ok exe reg' \<and> project_tool_paths reg' b = Inr tools \<and>
    project_tool_paths reg' other = project_tool_paths reg other \<and>
    (\<exists>last reg''. deauthorize_project b reg' = Inr (last, reg'') \<and> registry_ok exe reg'' \<and>
      project_tool_paths reg'' b = Inl NOT_AUTHORIZED \<and> project_tool_paths reg'' other = project_tool_paths reg other)"
proof -
  obtain ps where ps: "j_get ''projects'' reg = Some (J_obj ps)" "bt_wf ps" "length ps \<le> MAX_PROJECTS"
    "list_all (\<lambda>e. check_entry exe e = Inr ()) ps" by (rule registry_parts [OF assms(1)])
  let ?new = "bt_insert (pb_root b) (project_entry (pb_root b) tools) ps"
  have utf: "utf8_valid (pb_root b)" and room: "map_of ps (pb_root b) = None \<Longrightarrow> length ps < MAX_PROJECTS"
    and reg': "reg' = j_set ''projects'' (J_obj ?new) reg"
    using assms(2) unfolding authorize_project_def ps(1) by (simp_all split: if_splits)
  have entry: "check_entry exe (pb_root b, project_entry (pb_root b) tools) = Inr ()"
    using assms(3-5) by (simp add: check_entry_def project_entry_def list_ex_iff)
  have entries: "list_all (\<lambda>e. check_entry exe e = Inr ()) ?new"
    unfolding list_all_iff
  proof
    fix e assume "e \<in> set ?new"
    then have "e = (pb_root b, project_entry (pb_root b) tools) \<or> e \<in> set ps" by (rule in_bt_insert)
    then show "check_entry exe e = Inr ()" using ps(4) entry by (auto simp: list_all_iff)
  qed
  have len: "length ?new \<le> MAX_PROJECTS"
    using room ps(3) length_bt_insert [OF ps(2)] by (cases "bt_get ps (pb_root b)") (auto simp: Suc_le_eq)
  have ok': "registry_ok exe reg'" unfolding reg'
    by (intro registry_with_projects [OF assms(1)] bt_wf_insert ps(2) entries len)
  have projects': "j_get ''projects'' reg' = Some (J_obj ?new)" unfolding reg' by (simp add: j_get_set ps(1))
  have own: "project_tool_paths reg' b = Inr tools"
    by (simp add: project_tool_paths_def utf projects' bt_get_insert [OF ps(2)] project_entry_def those_strings or_fail_def)
  have others: "project_tool_paths reg' other = project_tool_paths reg other"
    using assms(6) by (simp add: project_tool_paths_def projects' ps(1) bt_get_insert [OF ps(2)])
  let ?rest = "filter (\<lambda>(k, v). k \<noteq> pb_root b) ?new"
  let ?reg'' = "j_set ''projects'' (J_obj ?rest) reg'"
  have rest: "map_of ?rest k = (if k = pb_root b then None else map_of ?new k)" for k
    by (rule map_of_without)
  have wf_rest: "bt_wf ?rest" using bt_wf_insert [OF ps(2)]
    by (simp add: bt_wf_def sorted_wrt_map sorted_wrt_filter)
  have "registry_ok exe ?reg''"
  proof (rule registry_with_projects [OF ok' wf_rest])
    show "length ?rest \<le> MAX_PROJECTS" by (rule order_trans [OF length_filter_le len])
    show "list_all (\<lambda>e. check_entry exe e = Inr ()) ?rest" using entries by (simp add: list_all_iff)
  qed
  moreover have "deauthorize_project b reg' = Inr (?rest = [], ?reg'')"
    by (simp add: deauthorize_project_def projects' utf bt_get_insert [OF ps(2)] Let_def)
  moreover have "j_get ''projects'' ?reg'' = Some (J_obj ?rest)" by (simp add: j_get_set projects')
  ultimately show ?thesis using ok' own others utf assms(6) rest
    by (simp add: project_tool_paths_def projects' ps(1) bt_get_insert [OF ps(2)])
qed

definition sample_registry :: json where
  "sample_registry = new_registry ''/usr/bin/rtrt'' ''/usr/bin/bwrap'' ''/home/u/c'' None"

definition registered :: json where
  "registered = projr (the (authorize_project \<lparr>pb_root = ''/home/u/p'', pb_cwd = ''/home/u/p'', pb_git_writable = []\<rparr> [''/t''] sample_registry))"

lemma sample_registry_ok: "registry_ok ''/usr/bin/rtrt'' sample_registry"
  "authorize_project \<lparr>pb_root = ''/home/u/p'', pb_cwd = ''/home/u/p'', pb_git_writable = []\<rparr> [''/t''] sample_registry = Some (Inr registered)"
  by code_simp+

lemma registry_authorize_witness:
  "registry_ok ''/usr/bin/rtrt'' registered \<and>
    project_tool_paths registered \<lparr>pb_root = ''/home/u/p'', pb_cwd = ''/home/u/p'', pb_git_writable = []\<rparr> = Inr [''/t'']"
  using registry_authorize [OF sample_registry_ok, of "\<lparr>pb_root = ''/q'', pb_cwd = ''/q'', pb_git_writable = []\<rparr>"]
  by (simp add: is_absolute_def path_below_def path_parts_def)

text \<open>The boundary that is found holds the caller's directory and is not the root of the file system.\<close>

lemma discovered_boundary:
  assumes "discover_project_from fs selected = Inr b"
  shows "pb_root b \<noteq> ''/'' \<and> path_below (pb_cwd b) (pb_root b) \<and> hf_canon fs selected = Some (pb_cwd b)"
proof -
  have found: "discover_from fs cwd as = Inr b \<Longrightarrow> pb_root b \<noteq> ''/'' \<and> path_below (pb_cwd b) (pb_root b) \<and> pb_cwd b = cwd" for cwd as
  proof (induction as)
    case (Cons a as)
    then show ?case
      by (cases "hf_lstat fs (join_path a ''.git'')") (auto simp: and_then_def split: sum.splits if_splits)
  qed simp
  show ?thesis using assms found
    by (fastforce simp: discover_project_from_def and_then_def or_fail_def split: option.splits if_splits)
qed

end
