(* ===== verification/Files.thy ===== *)
theory Files
  imports Rust_Path Core_Error "HOL-Library.Word"
begin

unbundle bit_operations_syntax

text \<open>
  The part of \<^verbatim>\<open>std::fs\<close> that the templates use, on a tree of files with symbolic links. Places
  are named by the components of their absolute path. A path is looked up component by
  component: a link is followed, at most 40 of them, and \<^verbatim>\<open>..\<close> goes up. Operations that change
  the tree may fail as a schedule says (permissions, space, signals); when the schedule is used up
  they succeed unless the tree forbids it.
\<close>

section \<open>The tree\<close>

datatype node = Directory | Regular string "16 word" | Link string

type_synonym path = "string list"
type_synonym tree = "path \<Rightarrow> node option"

text \<open>
  \<open>seek n fs cur names\<close>: where the names lead from the place \<open>cur\<close>; the last one need not exist. The
  fuel bounds the links that are followed, as the kernel does.
\<close>

function seek :: "nat \<Rightarrow> tree \<Rightarrow> path \<Rightarrow> string list \<Rightarrow> path option" where
  "seek n fs cur names = (case names of
     [] \<Rightarrow> Some cur
   | x # xs \<Rightarrow>
       if fs cur \<noteq> Some Directory then None
       else if x = ''..'' then seek n fs (butlast cur) xs
       else (case fs (cur @ [x]) of
          None \<Rightarrow> if xs = [] then Some (cur @ [x]) else None
        | Some (Link t) \<Rightarrow>
            if n = 0 then None
            else seek (n - 1) fs (if is_absolute t then [] else cur) (path_parts t @ xs)
        | Some _ \<Rightarrow> seek n fs (cur @ [x]) xs))"
  by pat_completeness auto
termination
  by (relation "measures [\<lambda>(n, _, _, names). n, \<lambda>(n, _, _, names). length names]") auto

declare seek.simps [simp del]

definition MAX_LINKS :: nat where "MAX_LINKS = 40"

text \<open>Where a path leads, and where its last component stands when that is not followed.\<close>

definition place :: "tree \<Rightarrow> path \<Rightarrow> path option" where
  "place fs p = seek MAX_LINKS fs [] p"

definition entry_place :: "tree \<Rightarrow> path \<Rightarrow> path option" where
  "entry_place fs p =
     (if p = [] \<or> last p = ''..'' then place fs p
      else case place fs (butlast p) of
        None \<Rightarrow> None
      | Some d \<Rightarrow> if fs d = Some Directory then Some (d @ [last p]) else None)"

definition stat :: "tree \<Rightarrow> path \<Rightarrow> node option" where
  "stat fs p = Option.bind (place fs p) fs"

definition lstat :: "tree \<Rightarrow> path \<Rightarrow> node option" where
  "lstat fs p = Option.bind (entry_place fs p) fs"

definition exists_at :: "tree \<Rightarrow> path \<Rightarrow> bool" where
  "exists_at fs p \<longleftrightarrow> stat fs p \<noteq> None"

definition canonicalize :: "tree \<Rightarrow> path \<Rightarrow> path option" where
  "canonicalize fs p = (case place fs p of None \<Rightarrow> None | Some q \<Rightarrow> if fs q = None then None else Some q)"

definition is_link :: "node option \<Rightarrow> bool" where
  "is_link n \<longleftrightarrow> (case n of Some (Link _) \<Rightarrow> True | _ \<Rightarrow> False)"

definition is_regular :: "node option \<Rightarrow> bool" where
  "is_regular n \<longleftrightarrow> (case n of Some (Regular _ _) \<Rightarrow> True | _ \<Rightarrow> False)"

section \<open>Operations\<close>

datatype sys_error = Already_exists | Not_found | Other_error string

fun sys_text :: "sys_error \<Rightarrow> string" where
  "sys_text Already_exists = ''File exists (os error 17)''"
| "sys_text Not_found = ''No such file or directory (os error 2)''"
| "sys_text (Other_error m) = m"

text \<open>\<open>Fails n\<close>: the operation fails; a write fails after \<open>n\<close> bytes.\<close>

datatype disk_fate = Works | Fails nat

record disk =
  dk_tree :: tree
  dk_fates :: "disk_fate list"
  dk_mode :: "16 word"
  dk_sequence :: "64 word"

type_synonym 'a sys = "disk \<Rightarrow> (sys_error + 'a) \<times> disk"

definition sys_op :: "(nat \<Rightarrow> tree \<Rightarrow> tree) \<Rightarrow> (tree \<Rightarrow> sys_error + 'a \<times> tree) \<Rightarrow> 'a sys" where
  "sys_op broken f w =
     (let rest = w\<lparr>dk_fates := drop 1 (dk_fates w)\<rparr> in
      case dk_fates w of
        Fails n # _ \<Rightarrow> (Inl (Other_error ''Input/output error (os error 5)''), rest\<lparr>dk_tree := broken n (dk_tree w)\<rparr>)
      | _ \<Rightarrow> (case f (dk_tree w) of
          Inl e \<Rightarrow> (Inl e, rest)
        | Inr (x, fs) \<Rightarrow> (Inr x, rest\<lparr>dk_tree := fs\<rparr>)))"

definition untouched :: "nat \<Rightarrow> tree \<Rightarrow> tree" where
  "untouched n fs = fs"

text \<open>A new entry: its directory must exist, and nothing, not even a link, may stand there.\<close>

definition add_entry :: "path \<Rightarrow> node \<Rightarrow> tree \<Rightarrow> sys_error + path \<times> tree" where
  "add_entry p node fs = (case entry_place fs p of
     None \<Rightarrow> Inl Not_found
   | Some q \<Rightarrow> if fs q = None then Inr (q, fs(q \<mapsto> node)) else Inl Already_exists)"

definition create_dir :: "path \<Rightarrow> path sys" where
  "create_dir p = sys_op untouched (add_entry p Directory)"

text \<open>\<open>slash\<close>: the text of the path ends in a slash; no regular file is opened under such a name.\<close>

definition open_new :: "path \<Rightarrow> bool \<Rightarrow> path sys" where
  "open_new p slash w = sys_op untouched
     (if slash then (\<lambda>fs. Inl (if lstat fs p = None then Other_error ''Is a directory (os error 21)'' else Already_exists))
      else add_entry p (Regular [] (dk_mode w))) w"

text \<open>Through an open handle, which is the place of the file.\<close>

definition put :: "path \<Rightarrow> string \<Rightarrow> tree \<Rightarrow> tree" where
  "put q content fs = (case fs q of Some (Regular old m) \<Rightarrow> fs(q \<mapsto> Regular (old @ content) m) | _ \<Rightarrow> fs)"

definition write_all :: "path \<Rightarrow> string \<Rightarrow> unit sys" where
  "write_all q content = sys_op (\<lambda>n. put q (take n content)) (\<lambda>fs. Inr ((), put q content fs))"

definition change_mode :: "path \<Rightarrow> (16 word \<Rightarrow> 16 word) \<Rightarrow> tree \<Rightarrow> tree" where
  "change_mode q f fs = (case fs q of Some (Regular c m) \<Rightarrow> fs(q \<mapsto> Regular c (f m)) | _ \<Rightarrow> fs)"

definition set_permissions :: "path \<Rightarrow> (16 word \<Rightarrow> 16 word) \<Rightarrow> unit sys" where
  "set_permissions q f = sys_op untouched (\<lambda>fs. Inr ((), change_mode q f fs))"

text \<open>By name. \<open>rename\<close> is used on files only; what stands at the new name, unless a directory, is replaced.\<close>

definition is_directory :: "node option \<Rightarrow> bool" where
  "is_directory n \<longleftrightarrow> n = Some Directory"

definition remove_file :: "path \<Rightarrow> unit sys" where
  "remove_file p = sys_op untouched (\<lambda>fs. case entry_place fs p of
     None \<Rightarrow> Inl Not_found
   | Some q \<Rightarrow>
       if fs q = None then Inl Not_found
       else if is_directory (fs q) then Inl (Other_error ''Is a directory (os error 21)'')
       else Inr ((), fs(q := None)))"

definition rename :: "path \<Rightarrow> path \<Rightarrow> bool \<Rightarrow> unit sys" where
  "rename p p' slash = sys_op untouched (\<lambda>fs. case (entry_place fs p, entry_place fs p') of
     (Some q, Some q') \<Rightarrow>
       if fs q = None \<or> is_directory (fs q) then Inl Not_found
       else if slash then Inl (Other_error ''Not a directory (os error 20)'')
       else if is_directory (fs q') then Inl (Other_error ''Is a directory (os error 21)'')
       else if q = q' then Inr ((), fs)
       else Inr ((), (fs(q' := fs q))(q := None))
   | _ \<Rightarrow> Inl Not_found)"

text \<open>\<^verbatim>\<open>fs::write\<close> goes through links; a failure after \<open>n + 1\<close> leaves the first \<open>n\<close> bytes.\<close>

definition set_content :: "16 word \<Rightarrow> path \<Rightarrow> string \<Rightarrow> tree \<Rightarrow> tree" where
  "set_content mode q content fs = fs(q \<mapsto> Regular content (case fs q of Some (Regular _ m) \<Rightarrow> m | _ \<Rightarrow> mode))"

definition write_path :: "path \<Rightarrow> string \<Rightarrow> unit sys" where
  "write_path p content w = sys_op
     (\<lambda>n fs. case place fs p of
        Some q \<Rightarrow> if n = 0 \<or> is_directory (fs q) then fs else set_content (dk_mode w) q (take (n - 1) content) fs
      | None \<Rightarrow> fs)
     (\<lambda>fs. case place fs p of
        None \<Rightarrow> Inl Not_found
      | Some q \<Rightarrow> if is_directory (fs q) then Inl (Other_error ''Is a directory (os error 21)'')
          else Inr ((), set_content (dk_mode w) q content fs)) w"

definition read_path :: "tree \<Rightarrow> path \<Rightarrow> string option" where
  "read_path fs p = (case stat fs p of Some (Regular c _) \<Rightarrow> Some c | _ \<Rightarrow> None)"

section \<open>Computations\<close>

type_synonym 'a io = "disk \<Rightarrow> (error + 'a) \<times> disk"

definition io_ret :: "'a \<Rightarrow> 'a io" where
  "io_ret x w = (Inr x, w)"

definition io_err :: "error \<Rightarrow> 'a io" where
  "io_err e w = (Inl e, w)"

definition io_bind :: "'a io \<Rightarrow> ('a \<Rightarrow> 'b io) \<Rightarrow> 'b io" where
  "io_bind m f w = (case m w of (Inl e, w') \<Rightarrow> (Inl e, w') | (Inr x, w') \<Rightarrow> f x w')"

definition io_read :: "(tree \<Rightarrow> error + 'a) \<Rightarrow> 'a io" where
  "io_read f w = (f (dk_tree w), w)"

definition io_sys :: "(sys_error \<Rightarrow> error) \<Rightarrow> 'a sys \<Rightarrow> 'a io" where
  "io_sys g m w = (case m w of (Inl e, w') \<Rightarrow> (Inl (g e), w') | (Inr x, w') \<Rightarrow> (Inr x, w'))"

definition io_error :: "sys_error \<Rightarrow> error" where
  "io_error e = Io (sys_text e)"

fun io_each :: "('b \<Rightarrow> unit io) \<Rightarrow> 'b list \<Rightarrow> unit io" where
  "io_each f [] = io_ret ()"
| "io_each f (x # xs) = io_bind (f x) (\<lambda>_. io_each f xs)"

text \<open>\<^verbatim>\<open>fs::create_dir_all\<close>, on the reversed path.\<close>

fun create_dir_all :: "string list \<Rightarrow> unit io" where
  "create_dir_all [] = io_ret ()"
| "create_dir_all (x # up) = (\<lambda>w.
     let p = rev (x # up);
         settle = (\<lambda>r. case r of
           (Inr _, v) \<Rightarrow> (Inr (), v)
         | (Inl e, v) \<Rightarrow> if is_directory (stat (dk_tree v) p) then (Inr (), v) else (Inl (io_error e), v))
     in case create_dir p w of
       (Inl Not_found, w') \<Rightarrow> io_bind (create_dir_all up) (\<lambda>_ v. settle (create_dir p v)) w'
     | r \<Rightarrow> settle r)"

definition or_else :: "error \<Rightarrow> 'a option \<Rightarrow> error + 'a" where
  "or_else e r = (case r of None \<Rightarrow> Inl e | Some x \<Rightarrow> Inr x)"

definition show_path :: "path \<Rightarrow> string" where
  "show_path p = ''/'' @ join ''/'' p"

section \<open>Trees\<close>

text \<open>Everything but the root stands in a directory.\<close>

definition wf_tree :: "tree \<Rightarrow> bool" where
  "wf_tree fs \<longleftrightarrow> fs [] = Some Directory \<and> (\<forall>q x. fs (q @ [x]) \<noteq> None \<longrightarrow> fs q = Some Directory)"

lemma is_prefix_iff: "is_prefix xs ys \<longleftrightarrow> (\<exists>zs. ys = xs @ zs)"
  by (induction xs ys rule: is_prefix.induct) auto

lemma wf_tree_above: "wf_tree fs \<Longrightarrow> fs (q @ r) \<noteq> None \<Longrightarrow> r \<noteq> [] \<Longrightarrow> fs q = Some Directory"
proof (induction r rule: rev_induct)
  case (snoc x r)
  then have "fs (q @ r) = Some Directory" unfolding wf_tree_def by (metis append_assoc)
  then show ?case using snoc by (cases "r = []") auto
qed simp

text \<open>No link on the way: every place from the root down to the path itself.\<close>

definition linkfree :: "tree \<Rightarrow> path \<Rightarrow> bool" where
  "linkfree fs p \<longleftrightarrow> (\<forall>q. is_prefix q p \<longrightarrow> \<not> is_link (fs q))"

lemma linkfree_above: "linkfree fs (p @ q) \<Longrightarrow> linkfree fs p"
  by (auto simp: linkfree_def is_prefix_iff)

lemma linkfree_snoc: "linkfree fs (p @ [x]) \<longleftrightarrow> linkfree fs p \<and> \<not> is_link (fs (p @ [x]))"
proof -
  have "is_prefix q (p @ [x]) \<longleftrightarrow> is_prefix q p \<or> q = p @ [x]" for q
    unfolding is_prefix_iff by (metis append.right_neutral append_assoc rev_exhaust butlast_append butlast_snoc)
  then show ?thesis by (auto simp: linkfree_def)
qed

lemma seek_linkfree:
  assumes "wf_tree fs" "linkfree fs (cur @ names)" "''..'' \<notin> set names"
  shows "seek n fs cur names = (if names = [] \<or> fs (cur @ butlast names) = Some Directory then Some (cur @ names) else None)"
  using assms(2,3)
proof (induction names arbitrary: cur)
  case Nil
  then show ?case by (subst seek.simps) simp
next
  case (Cons x xs)
  let ?r = "fs (cur @ butlast (x # xs)) = Some Directory"
  have free: "linkfree fs ((cur @ [x]) @ xs)" using Cons.prems by simp
  then have nolink: "\<not> is_link (fs (cur @ [x]))" by (metis linkfree_above linkfree_snoc)
  have eq: "cur @ butlast (x # xs) = (if xs = [] then cur else (cur @ [x]) @ butlast xs)" by simp
  show ?case
  proof (cases "fs cur = Some Directory")
    case False
    then have "\<not> ?r" using wf_tree_above [OF assms(1), of cur "butlast (x # xs)"] by (cases "xs = []") auto
    then show ?thesis using False by (subst seek.simps) simp
  next
    case dir: True
    show ?thesis
    proof (cases "fs (cur @ [x])")
      case None
      then have "xs \<noteq> [] \<Longrightarrow> \<not> ?r" unfolding eq
        using wf_tree_above [OF assms(1), of "cur @ [x]" "butlast xs"] by (cases "butlast xs = []") auto
      then show ?thesis using None dir Cons.prems by (subst seek.simps) auto
    next
      case (Some nd)
      then have "\<forall>t. nd \<noteq> Link t" using nolink by (auto simp: is_link_def)
      then have "seek n fs cur (x # xs) = seek n fs (cur @ [x]) xs"
        using Some dir Cons.prems by (subst seek.simps) (auto split: node.splits)
      then show ?thesis using Cons.IH [OF free] Cons.prems dir unfolding eq by auto
    qed
  qed
qed

lemma place_linkfree:
  assumes "wf_tree fs" "linkfree fs p" "''..'' \<notin> set p"
  shows "place fs p = (if p = [] \<or> fs (butlast p) = Some Directory then Some p else None)"
  using seek_linkfree [of fs "[]" p] assms by (simp add: place_def)

lemma butlast_dir: "wf_tree fs \<Longrightarrow> fs p \<noteq> None \<Longrightarrow> p \<noteq> [] \<Longrightarrow> fs (butlast p) = Some Directory"
  using wf_tree_above [of fs "butlast p" "[last p]"] by simp

lemma stat_linkfree:
  assumes "wf_tree fs" "linkfree fs p" "''..'' \<notin> set p"
  shows "stat fs p = fs p" "canonicalize fs p = (if fs p = None then None else Some p)"
proof -
  have "place fs p = Some p \<or> place fs p = None \<and> fs p = None"
    using place_linkfree [OF assms] butlast_dir [OF assms(1), of p] by (cases "fs p") auto
  then show "stat fs p = fs p" "canonicalize fs p = (if fs p = None then None else Some p)"
    by (auto simp: stat_def canonicalize_def)
qed

text \<open>The name is looked up in the directory, whatever stands there.\<close>

lemma entry_linkfree:
  assumes "wf_tree fs" "linkfree fs d" "''..'' \<notin> set d" "x \<noteq> ''..''"
  shows "entry_place fs (d @ [x]) = (if fs d = Some Directory then Some (d @ [x]) else None)"
    "lstat fs (d @ [x]) = fs (d @ [x])"
proof -
  have "fs d = Some Directory \<Longrightarrow> place fs d = Some d"
    using place_linkfree [OF assms(1-3)] butlast_dir [OF assms(1), of d] by auto
  moreover have "place fs d = None \<or> place fs d = Some d" using place_linkfree [OF assms(1-3)] by auto
  ultimately show entry: "entry_place fs (d @ [x]) = (if fs d = Some Directory then Some (d @ [x]) else None)"
    using assms(4) by (auto simp: entry_place_def)
  show "lstat fs (d @ [x]) = fs (d @ [x])"
    using butlast_dir [OF assms(1), of "d @ [x]"] entry by (cases "fs (d @ [x])") (auto simp: lstat_def)
qed

text \<open>Changes that keep the tree well-formed.\<close>

lemma wf_tree_add:
  assumes "wf_tree fs" "fs d = Some Directory" "fs (d @ [x]) \<noteq> Some Directory"
  shows "wf_tree (fs(d @ [x] := node))"
proof -
  have "(fs(d @ [x] := node)) q = Some Directory" if "(fs(d @ [x] := node)) (q @ [y]) \<noteq> None" for q y
  proof (cases "q = d @ [x]")
    case True
    then show ?thesis using that assms wf_tree_above [OF assms(1), of "d @ [x]" "[y]"] by (auto split: if_splits)
  next
    case False
    then show ?thesis using that assms by (auto simp: wf_tree_def split: if_splits)
  qed
  then show ?thesis using assms(1) by (auto simp: wf_tree_def)
qed

text \<open>A place found through the tree is reached without links.\<close>

lemma seek_step:
  "fs cur = Some Directory \<Longrightarrow> x \<noteq> ''..'' \<Longrightarrow> seek n fs cur (x # xs) = (case fs (cur @ [x]) of
     None \<Rightarrow> if xs = [] then Some (cur @ [x]) else None
   | Some (Link t) \<Rightarrow> if n = 0 then None else seek (n - 1) fs (if is_absolute t then [] else cur) (path_parts t @ xs)
   | Some _ \<Rightarrow> seek n fs (cur @ [x]) xs)"
  by (subst seek.simps) simp

lemma seek_real:
  "seek n fs cur names = Some q \<Longrightarrow> linkfree fs cur \<Longrightarrow> ''..'' \<notin> set cur \<Longrightarrow> fs cur \<noteq> None \<Longrightarrow> wf_tree fs \<Longrightarrow>
    linkfree fs q \<and> ''..'' \<notin> set q \<and> (fs q = None \<longrightarrow> (\<exists>d x. q = d @ [x] \<and> fs d = Some Directory))"
proof (induction n fs cur names rule: seek.induct)
  case (1 n fs cur names)
  note wf = "1.prems"(5)
  have root: "fs [] = Some Directory" using wf unfolding wf_tree_def by (rule conjunct1)
  show ?case
  proof (cases names)
    case Nil
    then show ?thesis using "1.prems" by (auto simp: seek.simps [of n fs cur "[]"])
  next
    case (Cons x xs)
    have dir: "fs cur = Some Directory" using "1.prems"(1) unfolding Cons by (subst (asm) seek.simps) (simp split: if_splits)
    show ?thesis
    proof (cases "x = ''..''")
      case True
      have "seek n fs (butlast cur) xs = Some q" using "1.prems"(1) True dir unfolding Cons by (subst (asm) seek.simps) simp
      moreover have "linkfree fs (butlast cur)"
        using "1.prems"(2) by (metis append_butlast_last_id butlast.simps(1) linkfree_above)
      moreover have "''..'' \<notin> set (butlast cur)" using "1.prems"(3) by (auto dest: in_set_butlastD)
      moreover have "fs (butlast cur) \<noteq> None" using dir root butlast_dir [OF wf, of cur] by (cases "cur = []") simp_all
      ultimately show ?thesis using "1.IH"(1) [OF Cons _ True] dir wf by simp
    next
      case False
      note step = "1.prems"(1) [unfolded Cons seek_step [of fs cur x n xs, OF dir False]]
      show ?thesis
      proof (cases "fs (cur @ [x])")
        case None
        then have "q = cur @ [x]" using step by (simp split: if_splits)
        then show ?thesis using "1.prems"(2,3) None False dir by (auto simp: linkfree_snoc is_link_def)
      next
        case (Some nd)
        have next_at: "linkfree fs (cur @ [x]) \<and> ''..'' \<notin> set (cur @ [x])" if "\<not> is_link (Some nd)"
          using "1.prems"(2,3) False Some that by (simp add: linkfree_snoc)
        show ?thesis
        proof (cases nd)
          case (Link t)
          let ?base = "if is_absolute t then [] else cur"
          have "linkfree fs ?base" "''..'' \<notin> set ?base" "fs ?base \<noteq> None"
            using "1.prems"(2,3) dir root by (simp_all add: linkfree_def is_prefix_iff is_link_def)
          moreover have "n \<noteq> 0" "seek (n - 1) fs ?base (path_parts t @ xs) = Some q" using step Some Link by (simp_all split: if_splits)
          ultimately show ?thesis using "1.IH"(4) [OF Cons _ False Some Link] dir wf by simp
        next
          case Directory
          then have "seek n fs (cur @ [x]) xs = Some q" using step Some by simp
          then show ?thesis using "1.IH"(2) [OF Cons _ False Some Directory] next_at Directory dir wf Some by (simp add: is_link_def)
        next
          case (Regular c m)
          then have "seek n fs (cur @ [x]) xs = Some q" using step Some by simp
          then show ?thesis using "1.IH"(3) [OF Cons _ False Some Regular] next_at Regular dir wf Some by (simp add: is_link_def)
        qed
      qed
    qed
  qed
qed

end
