(* ===== verification/Scaffold.thy ===== *)
theory Scaffold
  imports Files Btree
begin

text \<open>
  Project templates (\<^verbatim>\<open>crates/rtrt-templates/src/lib.rs\<close>, \<^verbatim>\<open>render.rs\<close>): planning a scaffold
  and writing it. Handlebars is the argument \<open>render\<close>, the working directory \<open>cwd\<close>. Planned paths are
  the components of absolute paths; \<open>rf_slash\<close> keeps whether the text of the path ended in a slash.
\<close>

section \<open>Templates\<close>

datatype template_source = BuiltIn | Custom

datatype template_category = Development | Design | Planning

definition category_of :: "string \<Rightarrow> string + template_category" where
  "category_of raw = (let c = to_ascii_lowercase (trim raw) in
     if c \<in> {''development'', ''rust-cli'', ''rust-lib'', ''rust-axum'', ''node-typescript'', ''python-uv'', ''go-cli'', ''custom''}
     then Inr Development
     else if c = ''design'' then Inr Design
     else if c = ''planning'' then Inr Planning
     else Inl (''unknown template category: '' @ raw))"

fun category_str :: "template_category \<Rightarrow> string" where
  "category_str Development = ''development''"
| "category_str Design = ''design''"
| "category_str Planning = ''planning''"

record template_variable =
  tv_name :: string
  tv_description :: "string option"
  tv_default :: "string option"
  tv_required :: bool

record template_file =
  tf_path :: string
  tf_content :: string
  tf_executable :: bool

record template =
  tm_name :: string
  tm_description :: string
  tm_source :: template_source
  tm_category :: template_category
  tm_variables :: "template_variable list"
  tm_files :: "template_file list"
  tm_post_hooks :: "string list"

type_synonym vars = "(string \<times> string) list"

definition validate_vars :: "template \<Rightarrow> vars \<Rightarrow> error + unit" where
  "validate_vars t vars =
     (case List.find (\<lambda>v. tv_required v \<and> bt_get vars (tv_name v) = None \<and> tv_default v = None) (tm_variables t) of
        None \<Rightarrow> Inr ()
      | Some v \<Rightarrow> Inl (Config (''missing required variable: '' @ tv_name v)))"

definition resolve_one :: "vars \<Rightarrow> template_variable \<Rightarrow> vars \<Rightarrow> vars" where
  "resolve_one user v out = (case bt_get user (tv_name v) of
     Some val \<Rightarrow> bt_insert (tv_name v) val out
   | None \<Rightarrow> (case tv_default v of Some d \<Rightarrow> bt_insert (tv_name v) d out | None \<Rightarrow> out))"

definition resolve_vars :: "template \<Rightarrow> vars \<Rightarrow> vars" where
  "resolve_vars t user = fold (\<lambda>(k, v) out. if bt_get out k = None then bt_insert k v out else out) user
     (fold (resolve_one user) (tm_variables t) [])"

definition find_template :: "string \<Rightarrow> template list \<Rightarrow> (error + template list) \<Rightarrow> template option" where
  "find_template name builtin custom =
     List.find (\<lambda>t. tm_name t = name) (builtin @ (case custom of Inl _ \<Rightarrow> [] | Inr ts \<Rightarrow> ts))"

section \<open>Paths\<close>

definition and_also :: "error + 'a \<Rightarrow> ('a \<Rightarrow> error + 'b) \<Rightarrow> error + 'b" where
  "and_also r f = (case r of Inl e \<Rightarrow> Inl e | Inr x \<Rightarrow> f x)"

definition is_ascii_alphabetic :: "char \<Rightarrow> bool" where
  "is_ascii_alphabetic c \<longleftrightarrow> 65 \<le> byte c \<and> byte c \<le> 90 \<or> 97 \<le> byte c \<and> byte c \<le> 122"

definition validate_rendered_path :: "string \<Rightarrow> error + unit" where
  "validate_rendered_path p =
     (if p = [] \<or> CHR 0x00 \<in> set p \<or> CHR 0x5C \<in> set p \<or>
        1 < length p \<and> p ! 1 = CHR '':'' \<and> is_ascii_alphabetic (p ! 0) \<or>
        is_absolute p \<or> hd (split_char (CHR ''/'') p) = ''.'' \<or> ''..'' \<in> set (path_parts p)
      then Inl (Config (''rendered template path must be relative and stay inside the scaffold target: '' @ p))
      else Inr ())"

definition reject_symlink_components :: "tree \<Rightarrow> path \<Rightarrow> error + unit" where
  "reject_symlink_components fs p =
     (case List.find (\<lambda>k. is_link (lstat fs (take k p))) [0..<length p + 1] of
        None \<Rightarrow> Inr ()
      | Some k \<Rightarrow> Inl (Config (''symlink component is not allowed in scaffold path: '' @ show_path (take k p))))"

text \<open>Upwards to the nearest path that exists, with the names left behind, the last one first.\<close>

fun nearest_existing :: "tree \<Rightarrow> string list \<Rightarrow> (path \<times> string list) option" where
  "nearest_existing fs [] = (if exists_at fs [] then Some ([], []) else None)"
| "nearest_existing fs (x # up) =
     (if exists_at fs (rev (x # up)) then Some (rev (x # up), [])
      else map_option (\<lambda>(e, suffix). (e, x # suffix)) (nearest_existing fs up))"

definition secure_absolute :: "tree \<Rightarrow> string \<Rightarrow> path \<Rightarrow> error + path" where
  "secure_absolute fs text p =
     and_also (reject_symlink_components fs p) (\<lambda>_.
     case nearest_existing fs (rev p) of
       None \<Rightarrow> Inl (Config (''invalid scaffold target: '' @ text))
     | Some (existing, suffix) \<Rightarrow>
         and_also (reject_symlink_components fs existing) (\<lambda>_.
         and_also (or_else (io_error Not_found) (canonicalize fs existing)) (\<lambda>c.
         if c @ rev suffix = [] then Inl (Config ''filesystem root is not a scaffold target'')
         else Inr (c @ rev suffix))))"

definition secure_target_path :: "tree \<Rightarrow> error + path \<Rightarrow> string \<Rightarrow> error + path" where
  "secure_target_path fs cwd target =
     (if target = [] \<or> ''..'' \<in> set (path_parts target) then Inl (Config (''invalid scaffold target: '' @ target))
      else if is_absolute target then secure_absolute fs target (path_parts target)
      else and_also cwd (\<lambda>d. secure_absolute fs target (d @ path_parts target)))"

text \<open>The same on a path that was planned.\<close>

definition secure_planned :: "tree \<Rightarrow> path \<Rightarrow> error + path" where
  "secure_planned fs p =
     (if ''..'' \<in> set p then Inl (Config (''invalid scaffold target: '' @ show_path p))
      else secure_absolute fs (show_path p) p)"

section \<open>Planning\<close>

record rendered_file =
  rf_path :: path
  rf_slash :: bool
  rf_content :: string
  rf_executable :: bool

record render_plan =
  pn_root :: path
  pn_files :: "rendered_file list"
  pn_post_hooks :: "string list"

type_synonym renderer = "string \<Rightarrow> vars \<Rightarrow> string + string"

definition render_str :: "renderer \<Rightarrow> string \<Rightarrow> vars \<Rightarrow> error + string" where
  "render_str render text vars = (case render text vars of
     Inl e \<Rightarrow> Inl (Config (''handlebars: '' @ e)) | Inr s \<Rightarrow> Inr s)"

fun collect :: "('a \<Rightarrow> error + 'b) \<Rightarrow> 'a list \<Rightarrow> error + 'b list" where
  "collect f [] = Inr []"
| "collect f (x # xs) = and_also (f x) (\<lambda>y. and_also (collect f xs) (\<lambda>ys. Inr (y # ys)))"

definition plan_file :: "renderer \<Rightarrow> vars \<Rightarrow> path \<Rightarrow> template_file \<Rightarrow> error + rendered_file" where
  "plan_file render vars root f =
     and_also (render_str render (tf_path f) vars) (\<lambda>rendered.
     and_also (validate_rendered_path rendered) (\<lambda>_.
     and_also (render_str render (tf_content f) vars) (\<lambda>content.
     Inr \<lparr>rf_path = root @ path_parts rendered, rf_slash = last (split_char (CHR ''/'') rendered) \<in> {[], ''.''},
       rf_content = content, rf_executable = tf_executable f\<rparr>)))"

definition plan :: "renderer \<Rightarrow> tree \<Rightarrow> error + path \<Rightarrow> template \<Rightarrow> string \<Rightarrow> vars \<Rightarrow> error + render_plan" where
  "plan render fs cwd template target vars =
     and_also (validate_vars template vars) (\<lambda>_.
     let merged = resolve_vars template vars in
     and_also (secure_target_path fs cwd target) (\<lambda>root.
     and_also (collect (plan_file render merged root) (tm_files template)) (\<lambda>files.
     and_also (collect (\<lambda>h. render_str render h merged) (tm_post_hooks template)) (\<lambda>hooks.
     Inr \<lparr>pn_root = root, pn_files = files, pn_post_hooks = hooks\<rparr>))))"

section \<open>Writing\<close>

text \<open>The missing directories, the deepest first.\<close>

fun missing_dirs :: "tree \<Rightarrow> string list \<Rightarrow> (path \<times> path list) option" where
  "missing_dirs fs [] = (if exists_at fs [] then Some ([], []) else None)"
| "missing_dirs fs (x # up) =
     (if exists_at fs (rev (x # up)) then Some (rev (x # up), [])
      else map_option (\<lambda>(e, missing). (e, rev (x # up) # missing)) (missing_dirs fs up))"

definition make_dir :: "path \<Rightarrow> unit io" where
  "make_dir d = io_bind (io_sys io_error (create_dir d)) (\<lambda>_. io_read (\<lambda>fs.
     and_also (or_else (io_error Not_found) (lstat fs d)) (\<lambda>md.
     if md \<noteq> Directory then Inl (Config (''scaffold path component is not a directory: '' @ show_path d)) else Inr ())))"

definition create_secure_dir :: "path \<Rightarrow> unit io" where
  "create_secure_dir p =
     io_bind (io_read (\<lambda>fs. secure_planned fs p)) (\<lambda>expected.
     io_bind (io_read (\<lambda>fs. or_else (Config (''invalid scaffold directory: '' @ show_path p)) (missing_dirs fs (rev expected))))
       (\<lambda>(existing, missing).
     io_bind (io_read (\<lambda>fs. reject_symlink_components fs existing)) (\<lambda>_.
     io_bind (io_each make_dir (rev missing)) (\<lambda>_.
     io_read (\<lambda>fs. and_also (or_else (io_error Not_found) (canonicalize fs p)) (\<lambda>c.
       if c \<noteq> expected then Inl (Config (''scaffold directory escaped while being created: '' @ show_path p)) else Inr ()))))))"

text \<open>\<^verbatim>\<open>RemoveOnDrop\<close>: what was created is removed unless the steps after it succeed.\<close>

definition remove_on_failure :: "path \<Rightarrow> 'a io \<Rightarrow> 'a io" where
  "remove_on_failure p m w = (case m w of
     (Inl e, w') \<Rightarrow> (Inl e, snd (remove_file p w')) | (Inr x, w') \<Rightarrow> (Inr x, w'))"

definition EXEC_BITS :: "16 word" where "EXEC_BITS = 73"

definition write_open_file :: "path \<Rightarrow> string \<Rightarrow> bool \<Rightarrow> unit io" where
  "write_open_file q content executable =
     io_bind (io_sys io_error (write_all q content)) (\<lambda>_.
     if executable then io_sys io_error (set_permissions q (\<lambda>m. m OR EXEC_BITS)) else io_ret ())"

definition write_exclusive :: "path \<Rightarrow> bool \<Rightarrow> string \<Rightarrow> bool \<Rightarrow> unit io" where
  "write_exclusive p slash content executable =
     io_bind (io_sys (\<lambda>e. if e = Already_exists then Config (''refusing to overwrite existing file: '' @ show_path p) else io_error e)
       (open_new p slash)) (\<lambda>q.
     remove_on_failure p (write_open_file q content executable))"

definition temp_name :: "nat \<Rightarrow> 64 word \<Rightarrow> string \<Rightarrow> string" where
  "temp_name pid sequence name = ''.'' @ name @ ''.rtrt-tmp-'' @ nat_str pid @ ''-'' @ nat_str (unat sequence)"

function try_temp :: "nat \<Rightarrow> nat \<Rightarrow> path \<Rightarrow> (path \<times> path) io" where
  "try_temp n pid p w =
     (if n = 0 then (Inl (Config (''could not create private temporary file beside '' @ show_path p)), w)
      else let candidate = butlast p @ [temp_name pid (dk_sequence w) (last p)] in
        case open_new candidate False (w\<lparr>dk_sequence := dk_sequence w + 1\<rparr>) of
          (Inr q, w') \<Rightarrow> (Inr (candidate, q), w')
        | (Inl e, w') \<Rightarrow> if e = Already_exists then try_temp (n - 1) pid p w' else (Inl (io_error e), w'))"
  by pat_completeness auto
termination
  by (relation "measure (\<lambda>(n, _, _, _). n)") auto

declare try_temp.simps [simp del]

definition create_sibling_temp :: "nat \<Rightarrow> path \<Rightarrow> (path \<times> path) io" where
  "create_sibling_temp pid p =
     (if p = [] then io_err (Config (''rendered file has no parent: '' @ show_path p))
      else if last p = ''..'' then io_err (Config (''rendered file has no name: '' @ show_path p))
      else try_temp 128 pid p)"

definition write_replacing :: "nat \<Rightarrow> path \<Rightarrow> bool \<Rightarrow> string \<Rightarrow> bool \<Rightarrow> unit io" where
  "write_replacing pid p slash content executable =
     io_bind (create_sibling_temp pid p) (\<lambda>(temp, q).
     remove_on_failure temp
       (io_bind (io_read (\<lambda>fs. Inr (lstat fs p))) (\<lambda>md.
        io_bind (case md of
            Some (Regular _ m) \<Rightarrow> if slash then io_ret () else io_sys io_error (set_permissions q (\<lambda>_. m))
          | _ \<Rightarrow> io_ret ()) (\<lambda>_.
        io_bind (write_open_file q content executable) (\<lambda>_.
        io_sys io_error (rename temp p slash))))))"

definition replace_contents_no_follow :: "nat \<Rightarrow> path \<Rightarrow> string \<Rightarrow> unit io" where
  "replace_contents_no_follow pid p content = write_replacing pid p False content False"

definition write_rendered :: "nat \<Rightarrow> path \<Rightarrow> bool \<Rightarrow> rendered_file \<Rightarrow> unit io" where
  "write_rendered pid root overwrite f =
     (let p = rf_path f in
      if \<not> is_prefix root p then io_err (Config (''rendered file must stay inside scaffold target: '' @ show_path p))
      else io_bind (io_read (\<lambda>_. validate_rendered_path (join ''/'' (drop (length root) p)))) (\<lambda>_.
        io_bind (if p = [] then io_ret () else
          io_bind (create_secure_dir (butlast p)) (\<lambda>_.
          io_read (\<lambda>fs. and_also (or_else (io_error Not_found) (canonicalize fs (butlast p))) (\<lambda>c.
            if is_prefix root c then Inr ()
            else Inl (Config (''rendered file escapes scaffold target: '' @ show_path p)))))) (\<lambda>_.
        if overwrite then write_replacing pid p (rf_slash f) (rf_content f) (rf_executable f)
        else write_exclusive p (rf_slash f) (rf_content f) (rf_executable f))))"

definition write_plan :: "nat \<Rightarrow> render_plan \<Rightarrow> bool \<Rightarrow> unit io" where
  "write_plan pid p overwrite =
     io_bind (io_read (\<lambda>fs. secure_planned fs (pn_root p))) (\<lambda>planned.
     if planned \<noteq> pn_root p then io_err (Config ''scaffold target changed after planning'')
     else io_bind (create_secure_dir (pn_root p)) (\<lambda>_.
       io_bind (io_read (\<lambda>fs. or_else (io_error Not_found) (canonicalize fs (pn_root p)))) (\<lambda>c.
       if c \<noteq> pn_root p then io_err (Config ''scaffold target resolved outside its planned path'')
       else io_each (write_rendered pid c overwrite) (pn_files p))))"

section \<open>What planning promises\<close>

lemma and_also_Inr: "and_also r f = Inr y \<longleftrightarrow> (\<exists>x. r = Inr x \<and> f x = Inr y)"
  by (cases r) (simp_all add: and_also_def)

lemma or_else_Inr: "or_else e r = Inr x \<longleftrightarrow> r = Some x"
  by (cases r) (simp_all add: or_else_def)

lemma find_None: "List.find P xs = None \<longleftrightarrow> list_all (\<lambda>x. \<not> P x) xs"
  by (induction xs) simp_all

lemma take_prefix: "is_prefix q p \<longleftrightarrow> (\<exists>k \<le> length p. q = take k p)"
  unfolding is_prefix_iff by (metis append_eq_conv_conj append_take_drop_id length_append le_add1 nat_le_linear take_all)

lemma reject_linkfree:
  assumes wf: "wf_tree fs" and dots: "''..'' \<notin> set p"
  shows "reject_symlink_components fs p = Inr () \<longleftrightarrow> linkfree fs p"
proof -
  have eq: "reject_symlink_components fs p = Inr () \<longleftrightarrow> (\<forall>k \<le> length p. \<not> is_link (lstat fs (take k p)))"
  proof -
    have "reject_symlink_components fs p = Inr () \<longleftrightarrow> List.find (\<lambda>k. is_link (lstat fs (take k p))) [0..<length p + 1] = None"
      by (simp add: reject_symlink_components_def split: option.splits)
    then show ?thesis unfolding find_None list_all_iff by (auto simp: less_Suc_eq_le)
  qed
  have root: "lstat fs [] = fs []"
    using wf by (simp add: lstat_def entry_place_def place_def seek.simps [of _ _ _ "[]"])
  have same: "lstat fs (take (Suc k) p) = fs (take (Suc k) p)" if "linkfree fs (take k p)" "k < length p" for k
  proof -
    have "''..'' \<notin> set (take k p)" "p ! k \<noteq> ''..''" using dots that(2) by (auto dest: in_set_takeD nth_mem)
    then show ?thesis using entry_linkfree(2) [OF wf that(1), of "p ! k"] by (simp add: take_Suc_conv_app_nth that(2))
  qed
  have "(\<forall>j \<le> k. \<not> is_link (lstat fs (take j p))) \<longleftrightarrow> linkfree fs (take k p)" if "k \<le> length p" for k
    using that
  proof (induction k)
    case 0
    then show ?case using root by (simp add: linkfree_def is_prefix_iff)
  next
    case (Suc k)
    then have "linkfree fs (take (Suc k) p) \<longleftrightarrow> linkfree fs (take k p) \<and> \<not> is_link (fs (take (Suc k) p))"
      by (simp add: take_Suc_conv_app_nth linkfree_snoc)
    then show ?case using Suc same [of k] by (auto simp: le_Suc_eq)
  qed
  then show ?thesis using eq by (metis le_refl take_all)
qed

lemma nearest_exists:
  "nearest_existing fs r = Some (e, suffix) \<Longrightarrow> rev r = e @ rev suffix \<and> exists_at fs e"
  by (induction r arbitrary: e suffix) (auto split: if_splits)

lemma secure_absolute_keeps:
  assumes "wf_tree fs" "''..'' \<notin> set p" "secure_absolute fs text p = Inr r"
  shows "r = p \<and> linkfree fs p \<and> p \<noteq> []"
proof -
  obtain e suffix c where e: "reject_symlink_components fs p = Inr ()" "nearest_existing fs (rev p) = Some (e, suffix)"
    "canonicalize fs e = Some c" "r = c @ rev suffix" "r \<noteq> []"
    using assms(3) unfolding secure_absolute_def
    by (auto simp: and_also_Inr or_else_Inr split: option.splits if_splits)
  have p: "p = e @ rev suffix" using nearest_exists [OF e(2)] by simp
  have free: "linkfree fs p" using reject_linkfree [OF assms(1,2)] e(1) by simp
  then have "linkfree fs e" "''..'' \<notin> set e" using assms(2) unfolding p by (auto dest: linkfree_above)
  then have "c = e" using stat_linkfree(2) [OF assms(1)] e(3) by (auto split: if_splits)
  then show ?thesis using e(4,5) p free by simp
qed

lemma secure_planned_keeps:
  assumes "wf_tree fs" "secure_planned fs p = Inr r"
  shows "r = p \<and> linkfree fs p \<and> p \<noteq> [] \<and> ''..'' \<notin> set p"
  using assms secure_absolute_keeps [OF assms(1), of p] unfolding secure_planned_def by (auto split: if_splits)

lemma valid_rendered:
  assumes "validate_rendered_path s = Inr ()"
  shows "path_parts s \<noteq> []" "''..'' \<notin> set (path_parts s)"
proof -
  have s: "s \<noteq> []" "\<not> is_absolute s" "hd (split_char (CHR ''/'') s) \<noteq> ''.''" "''..'' \<notin> set (path_parts s)"
    using assms by (auto simp: validate_rendered_path_def split: if_splits)
  then obtain c r where c: "s = c # r" "c \<noteq> CHR ''/''" by (cases s) (auto simp: is_absolute_def)
  then have "hd (split_char (CHR ''/'') s) \<in> set (split_char (CHR ''/'') s) \<and> hd (split_char (CHR ''/'') s) \<noteq> []"
    by (auto split: list.splits)
  then have "hd (split_char (CHR ''/'') s) \<in> set (path_parts s)" using s(3) by (simp add: path_parts_def)
  then show "path_parts s \<noteq> []" by auto
  show "''..'' \<notin> set (path_parts s)" by (rule s(4))
qed

lemma collect_all: "collect f xs = Inr ys \<Longrightarrow> list_all2 (\<lambda>x y. f x = Inr y) xs ys"
  by (induction xs arbitrary: ys) (auto simp: and_also_Inr)

lemma planned_file:
  assumes "plan render fs cwd t target vars = Inr p" "f \<in> set (pn_files p)"
  shows "\<exists>rel. rf_path f = pn_root p @ rel \<and> rel \<noteq> [] \<and> ''..'' \<notin> set rel"
proof -
  obtain merged where "collect (plan_file render merged (pn_root p)) (tm_files t) = Inr (pn_files p)"
    using assms(1) unfolding plan_def Let_def and_also_Inr by auto
  then obtain g where "plan_file render merged (pn_root p) g = Inr f"
    using collect_all [of _ "tm_files t" "pn_files p"] assms(2) by (fastforce simp: list_all2_conv_all_nth in_set_conv_nth)
  then obtain x where "validate_rendered_path x = Inr ()" "rf_path f = pn_root p @ path_parts x"
    by (auto simp: plan_file_def and_also_Inr)
  then show ?thesis using valid_rendered by blast
qed

section \<open>What the operations change\<close>

lemma sys_op_cases:
  assumes "sys_op b f w = (r, w')"
  obtains (failed) n e where "r = Inl e" "dk_tree w' = b n (dk_tree w)" "dk_mode w' = dk_mode w"
  | (refused) e where "r = Inl e" "f (dk_tree w) = Inl e" "dk_tree w' = dk_tree w" "dk_mode w' = dk_mode w"
  | (success) x where "r = Inr x" "f (dk_tree w) = Inr (x, dk_tree w')" "dk_mode w' = dk_mode w"
  using assms unfolding sys_op_def Let_def
  by (auto split: list.splits disk_fate.splits sum.splits prod.splits)

lemma untouched [simp]: "untouched n fs = fs"
  by (simp add: untouched_def)

text \<open>Directories that were missing on the way to a path, and nothing else.\<close>

definition adds_dirs :: "path \<Rightarrow> tree \<Rightarrow> tree \<Rightarrow> bool" where
  "adds_dirs p fs fs' \<longleftrightarrow> wf_tree fs' \<and>
     (\<forall>q. fs' q \<noteq> fs q \<longrightarrow> fs q = None \<and> is_prefix q p \<and> fs' q = Some Directory)"

lemma adds_dirs_refl: "wf_tree fs \<Longrightarrow> adds_dirs p fs fs"
  by (simp add: adds_dirs_def)

lemma adds_dirs_trans: "adds_dirs p a b \<Longrightarrow> adds_dirs p b c \<Longrightarrow> adds_dirs p a c"
proof -
  assume ab: "adds_dirs p a b" and bc: "adds_dirs p b c"
  have "a q = None \<and> is_prefix q p \<and> c q = Some Directory" if "c q \<noteq> a q" for q
  proof -
    have "b q \<noteq> a q \<longrightarrow> a q = None \<and> is_prefix q p \<and> b q = Some Directory" using ab by (simp add: adds_dirs_def)
    moreover have "c q \<noteq> b q \<longrightarrow> b q = None \<and> is_prefix q p \<and> c q = Some Directory" using bc by (simp add: adds_dirs_def)
    ultimately show ?thesis using that by fastforce
  qed
  then show ?thesis using bc by (simp add: adds_dirs_def)
qed

lemma adds_dirs_linkfree:
  assumes "adds_dirs p fs fs'" "linkfree fs q"
  shows "linkfree fs' q"
proof -
  have "\<not> is_link (fs' u)" if "\<not> is_link (fs u)" for u
    using assms(1) that by (cases "fs' u = fs u") (auto simp: adds_dirs_def is_link_def)
  then show ?thesis using assms(2) by (simp add: linkfree_def)
qed

lemma make_dir_adds:
  assumes wf: "wf_tree (dk_tree w)" and free: "linkfree (dk_tree w) p" "''..'' \<notin> set p" and d: "is_prefix d p" "d \<noteq> []"
    and run: "make_dir d w = (r, w')"
  shows "adds_dirs p (dk_tree w) (dk_tree w')"
proof -
  obtain u x where dx: "d = u @ [x]" using d(2) by (metis rev_exhaust)
  then obtain z where z: "p = u @ x # z" using d(1) by (auto simp: is_prefix_iff)
  then have u: "linkfree (dk_tree w) u" "''..'' \<notin> set u" "x \<noteq> ''..''" using free by (auto dest: linkfree_above)
  obtain r1 w1 where c: "create_dir d w = (r1, w1)" by fastforce
  have same: "dk_tree w' = dk_tree w1"
    using run c by (auto simp: make_dir_def io_bind_def io_sys_def io_read_def split: sum.splits)
  from c [unfolded create_dir_def] show ?thesis
  proof (cases rule: sys_op_cases)
    case (success y)
    then have up: "dk_tree w u = Some Directory" "dk_tree w d = None" "dk_tree w1 = (dk_tree w)(d \<mapsto> Directory)"
      using entry_linkfree(1) [OF wf u] unfolding dx add_entry_def by (auto split: if_splits)
    then have "wf_tree (dk_tree w1)" using wf_tree_add [OF wf, of u x] by (simp add: dx)
    then show ?thesis using up d(1) unfolding same by (simp add: adds_dirs_def)
  qed (use wf same adds_dirs_refl in auto)
qed

lemma make_dirs_add:
  assumes "wf_tree (dk_tree w)" "linkfree (dk_tree w) p" "''..'' \<notin> set p" "list_all (\<lambda>d. is_prefix d p \<and> d \<noteq> []) ds"
    "io_each make_dir ds w = (r, w')"
  shows "adds_dirs p (dk_tree w) (dk_tree w')"
  using assms
proof (induction ds arbitrary: w)
  case Nil
  then show ?case by (simp add: io_ret_def adds_dirs_refl)
next
  case (Cons d ds)
  obtain r1 w1 where 1: "make_dir d w = (r1, w1)" by fastforce
  have a: "adds_dirs p (dk_tree w) (dk_tree w1)" using make_dir_adds [OF Cons.prems(1-3) _ _ 1] Cons.prems(4) by simp
  show ?case
  proof (cases r1)
    case (Inl e)
    then show ?thesis using Cons.prems(5) 1 a by (simp add: io_bind_def)
  next
    case (Inr x)
    then have "io_each make_dir ds w1 = (r, w')" using Cons.prems(5) 1 by (simp add: io_bind_def)
    moreover have "wf_tree (dk_tree w1)" "linkfree (dk_tree w1) p"
      using a Cons.prems(2) by (auto simp: adds_dirs_def dest: adds_dirs_linkfree [OF a])
    ultimately show ?thesis using Cons.IH [of w1] Cons.prems(3,4) adds_dirs_trans [OF a] by simp
  qed
qed

lemma missing_above:
  "missing_dirs fs r = Some (e, ms) \<Longrightarrow> list_all (\<lambda>d. is_prefix d (rev r) \<and> d \<noteq> []) ms"
proof (induction r arbitrary: e ms)
  case (Cons x up)
  then show ?case by (fastforce simp: list_all_iff is_prefix_iff split: if_splits)
qed (auto split: if_splits)

lemma create_secure_dir_adds:
  assumes wf: "wf_tree (dk_tree w)" and run: "create_secure_dir p w = (r, w')"
  shows "adds_dirs p (dk_tree w) (dk_tree w') \<and>
    (r = Inr () \<longrightarrow> linkfree (dk_tree w') p \<and> ''..'' \<notin> set p \<and> dk_tree w' p \<noteq> None)"
proof (cases "secure_planned (dk_tree w) p")
  case (Inl e)
  then show ?thesis using run wf adds_dirs_refl by (auto simp: create_secure_dir_def io_bind_def io_read_def)
next
  case (Inr ex)
  note p = secure_planned_keeps [OF wf Inr]
  show ?thesis
  proof (cases "missing_dirs (dk_tree w) (rev p)")
    case None
    then show ?thesis using run wf adds_dirs_refl Inr p by (auto simp: create_secure_dir_def io_bind_def io_read_def or_else_def)
  next
    case (Some em)
    obtain e ms where em: "em = (e, ms)" by fastforce
    show ?thesis
    proof (cases "reject_symlink_components (dk_tree w) e")
      case (Inl x)
      then show ?thesis using run wf adds_dirs_refl Inr p Some em by (auto simp: create_secure_dir_def io_bind_def io_read_def or_else_def)
    next
      case (Inr y)
      obtain r1 w1 where m: "io_each make_dir (rev ms) w = (r1, w1)" by fastforce
      have "list_all (\<lambda>d. is_prefix d p \<and> d \<noteq> []) (rev ms)" using missing_above Some em by (fastforce simp: list_all_iff)
      then have a: "adds_dirs p (dk_tree w) (dk_tree w1)" using make_dirs_add [OF wf _ _ _ m] p by blast
      have same: "w' = w1" and ok: "r = Inr () \<Longrightarrow> canonicalize (dk_tree w1) p = Some p"
        using run \<open>secure_planned (dk_tree w) p = Inr ex\<close> p Some em Inr m
        by (auto simp: create_secure_dir_def io_bind_def io_read_def or_else_def and_also_def split: sum.splits option.splits if_splits)
      have "linkfree (dk_tree w1) p" using a p adds_dirs_linkfree by blast
      moreover have "wf_tree (dk_tree w1)" using a by (simp add: adds_dirs_def)
      ultimately show ?thesis using a p same ok stat_linkfree(2) [of "dk_tree w1" p] by (auto split: if_splits)
    qed
  qed
qed

text \<open>A directory that is reached without a link, and a name in it.\<close>

definition real_dir :: "tree \<Rightarrow> path \<Rightarrow> bool" where
  "real_dir fs d \<longleftrightarrow> wf_tree fs \<and> linkfree fs d \<and> ''..'' \<notin> set d"

lemma real_dir_entry:
  assumes "real_dir fs d" "x \<noteq> ''..''"
  shows "entry_place fs (d @ [x]) = (if fs d = Some Directory then Some (d @ [x]) else None)" "lstat fs (d @ [x]) = fs (d @ [x])"
  using entry_linkfree [of fs d x] assms by (simp_all add: real_dir_def)

lemma real_dir_add:
  assumes "real_dir fs d" "fs d = Some Directory" "fs (d @ [y]) \<noteq> Some Directory"
  shows "real_dir (fs(d @ [y] := nd)) d"
proof -
  have "\<not> is_prefix (d @ [y]) d" by (auto simp: is_prefix_iff)
  then have "linkfree (fs(d @ [y] := nd)) d" using assms(1) by (auto simp: real_dir_def linkfree_def)
  then show ?thesis using wf_tree_add [of fs d y nd] assms by (simp add: real_dir_def)
qed

lemma io_sys_runs: "io_sys g m w = (r, w') \<Longrightarrow> \<exists>r1. m w = (r1, w') \<and> (\<forall>x. r = Inr x \<longleftrightarrow> r1 = Inr x)"
  by (auto simp: io_sys_def split: prod.splits sum.splits)

lemma io_bind_cases:
  assumes "io_bind m f w = (r, w')"
  obtains (stop) e where "m w = (Inl e, w')" "r = Inl e"
  | (go) x w1 where "m w = (Inr x, w1)" "f x w1 = (r, w')"
  using assms unfolding io_bind_def by (auto split: prod.splits sum.splits)

lemma set_permissions_runs:
  assumes "io_sys io_error (set_permissions q f) w = (r, w')" "dk_tree w = fs(q \<mapsto> Regular c m)"
  shows "dk_mode w' = dk_mode w \<and> (dk_tree w' = fs(q \<mapsto> Regular c (f m)) \<or> dk_tree w' = dk_tree w \<and> r \<noteq> Inr ())"
proof -
  obtain r1 where r1: "set_permissions q f w = (r1, w')" "r = Inr () \<longleftrightarrow> r1 = Inr ()" using io_sys_runs [OF assms(1)] by blast
  from r1(1) [unfolded set_permissions_def] show ?thesis
    by (cases rule: sys_op_cases) (use r1(2) assms(2) in \<open>simp_all add: change_mode_def\<close>)
qed

lemma write_open_file_runs:
  assumes "write_open_file q content ex w = (r, w')" "dk_tree w = fs(q \<mapsto> Regular [] m)"
  shows "\<exists>c m'. dk_tree w' = fs(q \<mapsto> Regular c m') \<and>
    (r = Inr () \<longrightarrow> c = content \<and> (ex \<longrightarrow> m' AND EXEC_BITS = EXEC_BITS))"
  using assms(1) [unfolded write_open_file_def]
proof (cases rule: io_bind_cases)
  case (stop e)
  then obtain r1 where "write_all q content w = (r1, w')" "r1 \<noteq> Inr ()" using io_sys_runs by blast
  then show ?thesis unfolding write_all_def
    by (cases rule: sys_op_cases) (use stop assms(2) in \<open>auto simp: put_def\<close>)
next
  case (go x w1)
  obtain r1 where "write_all q content w = (r1, w1)" "r1 = Inr ()" using io_sys_runs [OF go(1)] by auto
  then have w1: "dk_tree w1 = fs(q \<mapsto> Regular content m)"
    unfolding write_all_def by (cases rule: sys_op_cases) (use assms(2) in \<open>simp_all add: put_def\<close>)
  have bits: "(m OR EXEC_BITS) AND EXEC_BITS = EXEC_BITS" by (simp add: bit_eq_iff bit_simps)
  show ?thesis
  proof (cases ex)
    case False
    then show ?thesis using go(2) w1 by (auto simp: io_ret_def)
  next
    case True
    then have "io_sys io_error (set_permissions q (\<lambda>m. m OR EXEC_BITS)) w1 = (r, w')" using go(2) by simp
    from set_permissions_runs [OF this w1] show ?thesis
    proof (elim conjE disjE)
      assume "dk_tree w' = fs(q \<mapsto> Regular content (m OR EXEC_BITS))"
      then show ?thesis using bits by blast
    qed (use w1 in auto)
  qed
qed

lemma remove_file_runs:
  assumes "real_dir fs d" "fs d = Some Directory" "fs (d @ [x]) = None" "x \<noteq> ''..''"
    and "dk_tree w = fs(d @ [x] \<mapsto> Regular c m)" "remove_file (d @ [x]) w = (r, w')"
  shows "dk_tree w' = dk_tree w \<or> dk_tree w' = fs"
proof -
  have "real_dir (dk_tree w) d" using real_dir_add [OF assms(1,2), of x] assms(3,5) by simp
  then have e: "entry_place (dk_tree w) (d @ [x]) = Some (d @ [x])" using real_dir_entry(1) assms(2,4,5) by simp
  have "fs(d @ [x] := None) = fs" using assms(3) by auto
  from assms(6) [unfolded remove_file_def] show ?thesis
    by (cases rule: sys_op_cases) (use e assms(5) \<open>fs(d @ [x] := None) = fs\<close> in \<open>auto simp: is_directory_def\<close>)
qed

text \<open>
  What writing one file amounts to, however far it got: nothing, or one regular file in the
  directory, which is new unless it replaces the file that was asked for.
\<close>

definition wrote :: "path \<Rightarrow> string \<Rightarrow> bool \<Rightarrow> string \<Rightarrow> bool \<Rightarrow> tree \<Rightarrow> error + unit \<Rightarrow> tree \<Rightarrow> bool" where
  "wrote d x ow content ex fs r fs' \<longleftrightarrow> fs' = fs \<and> r \<noteq> Inr () \<or>
     fs d = Some Directory \<and> (\<exists>y c m. fs' = fs(d @ [y] \<mapsto> Regular c m) \<and>
       (fs (d @ [y]) = None \<or> ow \<and> y = x \<and> fs (d @ [x]) \<noteq> Some Directory) \<and>
       (r = Inr () \<longrightarrow> y = x \<and> c = content \<and> (ex \<longrightarrow> m AND EXEC_BITS = EXEC_BITS)))"

lemma wroteI:
  assumes "fs d = Some Directory" "fs' = fs(d @ [y] \<mapsto> Regular c m)"
    "fs (d @ [y]) = None \<or> ow \<and> y = x \<and> fs (d @ [x]) \<noteq> Some Directory"
    "r = Inr () \<longrightarrow> y = x \<and> c = content \<and> (ex \<longrightarrow> m AND EXEC_BITS = EXEC_BITS)"
  shows "wrote d x ow content ex fs r fs'"
  using assms unfolding wrote_def by blast

lemma open_new_runs:
  assumes "real_dir (dk_tree w) d" "x \<noteq> ''..''" "open_new (d @ [x]) slash w = (r, w')"
  shows "(\<exists>e. r = Inl e) \<and> dk_tree w' = dk_tree w \<or>
    r = Inr (d @ [x]) \<and> dk_tree w d = Some Directory \<and> dk_tree w (d @ [x]) = None \<and>
      dk_tree w' = (dk_tree w)(d @ [x] \<mapsto> Regular [] (dk_mode w))"
  using assms(3) [unfolded open_new_def]
  by (cases rule: sys_op_cases)
    (use real_dir_entry(1) [OF assms(1,2)] in \<open>auto simp: add_entry_def split: if_splits\<close>)

text \<open>Writing the open file and removing it if that fails.\<close>

lemma write_exclusive_wrote:
  assumes d: "real_dir (dk_tree w) d" "x \<noteq> ''..''" and run: "write_exclusive (d @ [x]) slash content ex w = (r, w')"
  shows "wrote d x False content ex (dk_tree w) r (dk_tree w')"
  using run [unfolded write_exclusive_def]
proof (cases rule: io_bind_cases)
  case (stop e)
  then obtain r1 where "open_new (d @ [x]) slash w = (r1, w')" "r1 \<noteq> Inr (d @ [x])" using io_sys_runs by fastforce
  then have "dk_tree w' = dk_tree w" using open_new_runs [OF d] by fastforce
  then show ?thesis using stop(2) by (simp add: wrote_def)
next
  case (go q w1)
  then have "open_new (d @ [x]) slash w = (Inr q, w1)" using io_sys_runs by fastforce
  then have o: "q = d @ [x]" "dk_tree w d = Some Directory" "dk_tree w (d @ [x]) = None"
    "dk_tree w1 = (dk_tree w)(d @ [x] \<mapsto> Regular [] (dk_mode w))" using open_new_runs [OF d] by fastforce+
  obtain r2 w2 where w2: "write_open_file q content ex w1 = (r2, w2)" by fastforce
  from write_open_file_runs [OF this] o obtain c m where t: "dk_tree w2 = (dk_tree w)(d @ [x] \<mapsto> Regular c m)"
    "r2 = Inr () \<longrightarrow> c = content \<and> (ex \<longrightarrow> m AND EXEC_BITS = EXEC_BITS)" by blast
  show ?thesis
  proof (cases r2)
    case (Inl e)
    then have "r = Inl e" "w' = snd (remove_file (d @ [x]) w2)" using go(2) w2 by (auto simp: remove_on_failure_def)
    then show ?thesis using remove_file_runs [OF d(1) o(2,3) d(2) t(1), of "fst (remove_file (d @ [x]) w2)" w'] t(1) o
      by (auto simp: wrote_def)
  next
    case (Inr u)
    then have "r = Inr ()" "w' = w2" using go(2) w2 by (auto simp: remove_on_failure_def)
    then show ?thesis using t o Inr by (intro wroteI) auto
  qed
qed

lemma temp_name_plain: "temp_name pid sequence name \<noteq> ''..''"
proof
  assume "temp_name pid sequence name = ''..''"
  then have "length (temp_name pid sequence name) = 2" by simp
  then show False by (simp add: temp_name_def)
qed

lemma try_temp_runs:
  assumes "real_dir (dk_tree w) d" "try_temp n pid (d @ [x]) w = (r, w')"
  shows "(\<exists>e. r = Inl e) \<and> dk_tree w' = dk_tree w \<or>
    (\<exists>t. t \<noteq> ''..'' \<and> r = Inr (d @ [t], d @ [t]) \<and> dk_tree w d = Some Directory \<and> dk_tree w (d @ [t]) = None \<and>
      dk_tree w' = (dk_tree w)(d @ [t] \<mapsto> Regular [] (dk_mode w)))"
  using assms
proof (induction n arbitrary: w)
  case 0
  then show ?case by (auto simp: try_temp.simps [of 0])
next
  case (Suc n)
  let ?t = "temp_name pid (dk_sequence w) x"
  let ?w = "w\<lparr>dk_sequence := dk_sequence w + 1\<rparr>"
  obtain r1 w1 where 1: "open_new (d @ [?t]) False ?w = (r1, w1)" by fastforce
  have "real_dir (dk_tree ?w) d" using Suc.prems(1) by simp
  from open_new_runs [OF this temp_name_plain 1]
  have o: "(\<exists>e. r1 = Inl e) \<and> dk_tree w1 = dk_tree w \<or>
    r1 = Inr (d @ [?t]) \<and> dk_tree w d = Some Directory \<and> dk_tree w (d @ [?t]) = None \<and>
      dk_tree w1 = (dk_tree w)(d @ [?t] \<mapsto> Regular [] (dk_mode w))" by simp
  from 1 [unfolded open_new_def] have mode: "dk_mode w1 = dk_mode w" by (cases rule: sys_op_cases) simp_all
  show ?case
  proof (cases r1)
    case (Inr q)
    then have "r = Inr (d @ [?t], q)" "w' = w1" using Suc.prems(2) 1 by (simp_all add: try_temp.simps [of "Suc n"])
    then show ?thesis using o Inr temp_name_plain [of pid "dk_sequence w" x] by auto
  next
    case (Inl e)
    then have t: "dk_tree w1 = dk_tree w" using o by auto
    show ?thesis
    proof (cases "e = Already_exists")
      case True
      then have "try_temp n pid (d @ [x]) w1 = (r, w')" using Suc.prems(2) 1 Inl by (simp add: try_temp.simps [of "Suc n"])
      then show ?thesis using Suc.IH [of w1] Suc.prems(1) t mode by simp
    next
      case False
      then show ?thesis using Suc.prems(2) 1 Inl t by (auto simp: try_temp.simps [of "Suc n"])
    qed
  qed
qed

text \<open>The steps between the temporary file and its new name.\<close>

lemma swap_runs:
  assumes d: "real_dir fs d" "fs d = Some Directory" "fs (d @ [t]) = None" "t \<noteq> ''..''" "x \<noteq> ''..''"
    and tree: "dk_tree w = fs(d @ [t] \<mapsto> Regular [] m)"
    and run: "io_bind (io_read (\<lambda>fs. Inr (lstat fs (d @ [x])))) (\<lambda>md.
        io_bind (case md of
            Some (Regular _ m) \<Rightarrow> if slash then io_ret () else io_sys io_error (set_permissions (d @ [t]) (\<lambda>_. m))
          | _ \<Rightarrow> io_ret ()) (\<lambda>_.
        io_bind (write_open_file (d @ [t]) content ex) (\<lambda>_.
        io_sys io_error (rename (d @ [t]) (d @ [x]) slash)))) w = (r, w')"
  shows "r \<noteq> Inr () \<and> (\<exists>c m'. dk_tree w' = fs(d @ [t] \<mapsto> Regular c m')) \<or>
    r = Inr () \<and> (fs (d @ [x]) \<noteq> Some Directory \<and>
      (\<exists>m'. dk_tree w' = fs(d @ [x] \<mapsto> Regular content m') \<and> (ex \<longrightarrow> m' AND EXEC_BITS = EXEC_BITS)))"
proof -
  let ?md = "lstat (dk_tree w) (d @ [x])"
  let ?perm = "case ?md of
            Some (Regular _ m) \<Rightarrow> if slash then io_ret () else io_sys io_error (set_permissions (d @ [t]) (\<lambda>_. m))
          | _ \<Rightarrow> io_ret ()"
  have 1: "io_bind ?perm (\<lambda>_. io_bind (write_open_file (d @ [t]) content ex) (\<lambda>_.
        io_sys io_error (rename (d @ [t]) (d @ [x]) slash))) w = (r, w')"
    using run by (simp add: io_bind_def io_read_def)
  have perm: "\<exists>m'. dk_tree w1 = fs(d @ [t] \<mapsto> Regular [] m')" if "?perm w = (r1, w1)" for r1 w1
  proof (cases "\<exists>c k. ?md = Some (Regular c k) \<and> \<not> slash")
    case True
    then obtain c k where "?md = Some (Regular c k)" "\<not> slash" by blast
    then have "io_sys io_error (set_permissions (d @ [t]) (\<lambda>_. k)) w = (r1, w1)" using that by simp
    then show ?thesis using set_permissions_runs [OF _ tree] tree by metis
  next
    case False
    then show ?thesis using that tree by (auto simp: io_ret_def split: option.splits node.splits if_splits)
  qed
  from 1 show ?thesis
  proof (cases rule: io_bind_cases)
    case (stop e)
    then show ?thesis using perm by auto
  next
    case (go u w1)
    then obtain m1 where w1: "dk_tree w1 = fs(d @ [t] \<mapsto> Regular [] m1)" using perm by blast
    from go(2) show ?thesis
    proof (cases rule: io_bind_cases)
      case (stop e)
      then show ?thesis using write_open_file_runs [OF _ w1] by blast
    next
      case (go v w2)
      then obtain m2 where w2: "dk_tree w2 = fs(d @ [t] \<mapsto> Regular content m2)" "ex \<longrightarrow> m2 AND EXEC_BITS = EXEC_BITS"
        using write_open_file_runs [OF go(1) w1] by auto
      have real: "real_dir (dk_tree w2) d" using real_dir_add [OF d(1,2), of t] d(3) w2(1) by simp
      have "dk_tree w2 d = Some Directory" using d(2) w2(1) by simp
      then have e: "entry_place (dk_tree w2) (d @ [x]) = Some (d @ [x])" "entry_place (dk_tree w2) (d @ [t]) = Some (d @ [t])"
        using real_dir_entry(1) [OF real] d(4,5) by simp_all
      have gone: "fs(d @ [t] := None) = fs" using d(3) by auto
      obtain r3 where r3: "rename (d @ [t]) (d @ [x]) slash w2 = (r3, w')" "r = Inr () \<longleftrightarrow> r3 = Inr ()"
        using io_sys_runs [OF go(2)] by blast
      from r3(1) [unfolded rename_def] show ?thesis
      proof (cases rule: sys_op_cases)
        case (success z)
        then have "fs (d @ [x]) \<noteq> Some Directory \<and> dk_tree w' = fs(d @ [x] \<mapsto> Regular content m2)"
          using e w2(1) gone d(3) by (auto simp: is_directory_def fun_upd_twist split: if_splits)
        then show ?thesis using success(1) r3(2) w2(2) by auto
      qed (use r3(2) w2(1) in auto)
    qed
  qed
qed

lemma write_replacing_wrote:
  assumes d: "real_dir (dk_tree w) d" "x \<noteq> ''..''" and run: "write_replacing pid (d @ [x]) slash content ex w = (r, w')"
  shows "wrote d x True content ex (dk_tree w) r (dk_tree w')"
  using run [unfolded write_replacing_def]
proof (cases rule: io_bind_cases)
  case (stop e)
  then have "try_temp 128 pid (d @ [x]) w = (Inl e, w')" using d(2) by (simp add: create_sibling_temp_def)
  from try_temp_runs [OF d(1) this] have "dk_tree w' = dk_tree w" by auto
  then show ?thesis using stop(2) by (simp add: wrote_def)
next
  case (go tq w1)
  then have "try_temp 128 pid (d @ [x]) w = (Inr tq, w1)" using d(2) by (simp add: create_sibling_temp_def)
  from try_temp_runs [OF d(1) this] obtain t where t: "t \<noteq> ''..''" "tq = (d @ [t], d @ [t])" "dk_tree w d = Some Directory" "dk_tree w (d @ [t]) = None"
    "dk_tree w1 = (dk_tree w)(d @ [t] \<mapsto> Regular [] (dk_mode w))" by auto
  let ?swap = "io_bind (io_read (\<lambda>fs. Inr (lstat fs (d @ [x])))) (\<lambda>md.
        io_bind (case md of
            Some (Regular _ m) \<Rightarrow> if slash then io_ret () else io_sys io_error (set_permissions (d @ [t]) (\<lambda>_. m))
          | _ \<Rightarrow> io_ret ()) (\<lambda>_.
        io_bind (write_open_file (d @ [t]) content ex) (\<lambda>_.
        io_sys io_error (rename (d @ [t]) (d @ [x]) slash))))"
  obtain r2 w2 where w2: "?swap w1 = (r2, w2)" by fastforce
  note s = swap_runs [OF d(1) t(3,4,1) d(2) t(5) w2]
  have run: "remove_on_failure (d @ [t]) ?swap w1 = (r, w')" using go(2) t(2) by simp
  show ?thesis
  proof (cases r2)
    case (Inl e)
    then obtain c m where c: "dk_tree w2 = (dk_tree w)(d @ [t] \<mapsto> Regular c m)" using s by auto
    have "r = Inl e" "w' = snd (remove_file (d @ [t]) w2)" using run w2 Inl by (auto simp: remove_on_failure_def)
    then show ?thesis using remove_file_runs [OF d(1) t(3,4,1) c, of "fst (remove_file (d @ [t]) w2)" w'] c t
      by (auto simp: wrote_def)
  next
    case (Inr u)
    then obtain m where "dk_tree w (d @ [x]) \<noteq> Some Directory" "dk_tree w2 = (dk_tree w)(d @ [x] \<mapsto> Regular content m)"
      "ex \<longrightarrow> m AND EXEC_BITS = EXEC_BITS" using s by auto
    moreover have "r = Inr ()" "w' = w2" using run w2 Inr by (auto simp: remove_on_failure_def)
    ultimately show ?thesis using t(3) by (intro wroteI) auto
  qed
qed

section \<open>A scaffold stays where it was planned\<close>

text \<open>
  What a run may change: new entries below the root, directories on the way to it, and the files
  \<open>M\<close> that may be replaced; nothing that existed goes away.
\<close>

definition confined_to :: "path \<Rightarrow> path set \<Rightarrow> tree \<Rightarrow> tree \<Rightarrow> bool" where
  "confined_to root M fs fs' \<longleftrightarrow> wf_tree fs' \<and>
     (\<forall>q. fs' q \<noteq> fs q \<longrightarrow>
       (if fs q = None then is_prefix root q \<and> q \<noteq> root \<or> is_prefix q root \<and> fs' q = Some Directory
        else q \<in> M \<and> fs' q \<noteq> None))"

lemma confined_refl: "wf_tree fs \<Longrightarrow> confined_to root M fs fs"
  by (simp add: confined_to_def)

lemma confined_trans:
  assumes ab: "confined_to root M a b" and bc: "confined_to root M b c" and M: "\<And>q. q \<in> M \<Longrightarrow> is_prefix root q \<and> q \<noteq> root"
  shows "confined_to root M a c"
proof -
  have "if a q = None then is_prefix root q \<and> q \<noteq> root \<or> is_prefix q root \<and> c q = Some Directory else q \<in> M \<and> c q \<noteq> None"
    if "c q \<noteq> a q" for q
  proof -
    have "b q \<noteq> a q \<longrightarrow> (if a q = None then is_prefix root q \<and> q \<noteq> root \<or> is_prefix q root \<and> b q = Some Directory
        else q \<in> M \<and> b q \<noteq> None)" using ab unfolding confined_to_def by blast
    moreover have "c q \<noteq> b q \<longrightarrow> (if b q = None then is_prefix root q \<and> q \<noteq> root \<or> is_prefix q root \<and> c q = Some Directory
        else q \<in> M \<and> c q \<noteq> None)" using bc unfolding confined_to_def by blast
    ultimately show ?thesis using that M [of q] by (cases "a q = None"; cases "b q = None"; cases "b q = c q") (auto split: if_splits)
  qed
  then show ?thesis using bc unfolding confined_to_def by blast
qed

lemma adds_dirs_confined:
  assumes "adds_dirs p fs fs'" "is_prefix root p"
  shows "confined_to root M fs fs'"
proof -
  have "is_prefix root q \<and> q \<noteq> root \<or> is_prefix q root" if "is_prefix q p" for q
    using that assms(2) unfolding is_prefix_iff by (metis append.right_neutral append_eq_append_conv2)
  then show ?thesis using assms(1) unfolding adds_dirs_def confined_to_def by (metis option.distinct(1))
qed

lemma wrote_confined:
  assumes "wf_tree fs" "wrote d x ow content ex fs r fs'" "is_prefix root d"
  shows "confined_to root (if ow then {d @ [x]} else {}) fs fs'"
proof (cases "fs' = fs")
  case False
  then obtain y c m where y: "fs' = fs(d @ [y] \<mapsto> Regular c m)" "fs d = Some Directory"
    "fs (d @ [y]) = None \<or> ow \<and> y = x \<and> fs (d @ [x]) \<noteq> Some Directory" using assms(2) unfolding wrote_def by blast
  then have "wf_tree fs'" using wf_tree_add [OF assms(1) y(2), of y] by auto
  moreover have "is_prefix root (d @ [y]) \<and> d @ [y] \<noteq> root" using assms(3) by (auto simp: is_prefix_iff)
  moreover have "q = d @ [y]" if "fs' q \<noteq> fs q" for q using that y(1) by (auto split: if_splits)
  ultimately show ?thesis using y(1,3) unfolding confined_to_def by (metis fun_upd_same insertI1 option.distinct(1))
qed (use assms(1) confined_refl in simp)

lemma confined_more: "confined_to root M fs fs' \<Longrightarrow> M \<subseteq> N \<Longrightarrow> confined_to root N fs fs'"
  unfolding confined_to_def by (metis subsetD)

text \<open>One file of a plan.\<close>

definition holds_file :: "tree \<Rightarrow> rendered_file \<Rightarrow> bool" where
  "holds_file fs f \<longleftrightarrow> (case fs (rf_path f) of
     Some (Regular c m) \<Rightarrow> c = rf_content f \<and> (rf_executable f \<longrightarrow> m AND EXEC_BITS = EXEC_BITS) | _ \<Rightarrow> False)"

lemma write_rendered_confined:
  assumes wf: "wf_tree (dk_tree w)" and f: "rf_path f = root @ rel" "rel \<noteq> []" "''..'' \<notin> set rel"
    and run: "write_rendered pid root ow f w = (r, w')"
  shows "confined_to root (if ow then {rf_path f} else {}) (dk_tree w) (dk_tree w') \<and> (r = Inr () \<longrightarrow> holds_file (dk_tree w') f)"
proof -
  let ?M = "if ow then {rf_path f} else {}"
  let ?d = "butlast (rf_path f)"
  obtain u x where rel: "rel = u @ [x]" using f(2) by (metis rev_exhaust)
  then have p: "rf_path f = ?d @ [x]" "?d = root @ u" "x \<noteq> ''..''" "rf_path f \<noteq> []" using f by (auto simp: butlast_append)
  have root: "is_prefix root (rf_path f)" "is_prefix root ?d" using f(1) p(2) by (auto simp: is_prefix_iff)
  have M: "\<And>q. q \<in> ?M \<Longrightarrow> is_prefix root q \<and> q \<noteq> root" using f root by (auto split: if_splits)
  let ?put = "if ow then write_replacing pid (rf_path f) (rf_slash f) (rf_content f) (rf_executable f)
        else write_exclusive (rf_path f) (rf_slash f) (rf_content f) (rf_executable f)"
  let ?check = "io_read (\<lambda>fs. and_also (or_else (io_error Not_found) (canonicalize fs ?d)) (\<lambda>c.
            if is_prefix root c then Inr ()
            else Inl (Config (''rendered file escapes scaffold target: '' @ show_path (rf_path f)))))"
  have keep: "\<And>s r s'. ?check s = (r, s') \<Longrightarrow> s' = s" by (simp add: io_read_def)
  from run root(1) p(4) have "io_bind (io_read (\<lambda>_. validate_rendered_path (join ''/'' (drop (length root) (rf_path f))))) (\<lambda>_.
        io_bind (io_bind (create_secure_dir ?d) (\<lambda>_. ?check)) (\<lambda>_. ?put)) w = (r, w')"
    unfolding write_rendered_def Let_def by simp
  then show ?thesis
  proof (cases rule: io_bind_cases)
    case (stop e)
    then show ?thesis using wf confined_refl by (auto simp: io_read_def)
  next
    case (go v w0)
    then have "io_bind (io_bind (create_secure_dir ?d) (\<lambda>_. ?check)) (\<lambda>_. ?put) w = (r, w')" by (simp add: io_read_def)
    then show ?thesis
    proof (cases rule: io_bind_cases)
      case (stop e)
      from stop(1) have "adds_dirs ?d (dk_tree w) (dk_tree w')"
      proof (cases rule: io_bind_cases)
        case (stop e)
        then show ?thesis using create_secure_dir_adds [OF wf] by blast
      next
        case (go v w1)
        then show ?thesis using create_secure_dir_adds [OF wf go(1)] keep by blast
      qed
      then show ?thesis using adds_dirs_confined root(2) stop(2) by blast
    next
      case (go v w1)
      from go(1) obtain v' where "create_secure_dir ?d w = (Inr v', w1)" by (cases rule: io_bind_cases) (use keep in auto)
      then have a: "adds_dirs ?d (dk_tree w) (dk_tree w1)" "linkfree (dk_tree w1) ?d" "''..'' \<notin> set ?d"
        using create_secure_dir_adds [OF wf] by auto
      then have wf1: "wf_tree (dk_tree w1)" and d: "real_dir (dk_tree w1) ?d" by (auto simp: adds_dirs_def real_dir_def)
      have wr: "wrote ?d x ow (rf_content f) (rf_executable f) (dk_tree w1) r (dk_tree w')"
        using go(2) write_replacing_wrote [OF d p(3), unfolded p(1) [symmetric]]
          write_exclusive_wrote [OF d p(3), unfolded p(1) [symmetric]] by (cases ow) simp_all
      have "confined_to root ?M (dk_tree w1) (dk_tree w')"
        using wrote_confined [OF wf1 wr root(2), unfolded p(1) [symmetric]] .
      moreover have "r = Inr () \<longrightarrow> holds_file (dk_tree w') f"
        using wr p(1) unfolding wrote_def holds_file_def by auto
      moreover note confined_trans [OF adds_dirs_confined [OF a(1) root(2)] _ M]
      ultimately show ?thesis by blast
    qed
  qed
qed
lemma holds_later:
  assumes "holds_file fs g" "confined_to root (if ow then {rf_path f} else {}) fs fs'" "ow \<Longrightarrow> rf_path g \<noteq> rf_path f"
  shows "holds_file fs' g"
proof -
  have "fs (rf_path g) \<noteq> None" using assms(1) by (auto simp: holds_file_def split: option.splits)
  then have "fs' (rf_path g) = fs (rf_path g)" using assms(2,3) unfolding confined_to_def by (metis empty_iff singletonD)
  then show ?thesis using assms(1) by (simp add: holds_file_def)
qed

lemma write_all_rendered:
  assumes "wf_tree (dk_tree w)" "list_all (\<lambda>f. \<exists>rel. rf_path f = root @ rel \<and> rel \<noteq> [] \<and> ''..'' \<notin> set rel) files"
    "io_each (write_rendered pid root ow) files w = (r, w')"
  shows "confined_to root (if ow then rf_path ` set files else {}) (dk_tree w) (dk_tree w') \<and>
    (r = Inr () \<longrightarrow> (ow \<longrightarrow> distinct (map rf_path files)) \<longrightarrow> list_all (holds_file (dk_tree w')) files) \<and>
    (\<forall>g. holds_file (dk_tree w) g \<and> (ow \<longrightarrow> rf_path g \<notin> rf_path ` set files) \<longrightarrow> holds_file (dk_tree w') g)"
  using assms
proof (induction files arbitrary: w)
  case Nil
  then show ?case by (simp add: io_ret_def confined_refl)
next
  case (Cons f files)
  let ?M = "if ow then rf_path ` set (f # files) else {}"
  have M: "\<And>q. q \<in> ?M \<Longrightarrow> is_prefix root q \<and> q \<noteq> root"
    using Cons.prems(2) by (auto simp: list_all_iff is_prefix_iff split: if_splits)
  obtain rel where rel: "rf_path f = root @ rel" "rel \<noteq> []" "''..'' \<notin> set rel" using Cons.prems(2) by auto
  have "io_bind (write_rendered pid root ow f) (\<lambda>_. io_each (write_rendered pid root ow) files) w = (r, w')"
    using Cons.prems(3) by simp
  then show ?case
  proof (cases rule: io_bind_cases)
    case (stop e)
    have c: "confined_to root (if ow then {rf_path f} else {}) (dk_tree w) (dk_tree w')"
      using write_rendered_confined [OF Cons.prems(1) rel stop(1)] by blast
    then have "confined_to root ?M (dk_tree w) (dk_tree w')" by (rule confined_more) auto
    moreover have "\<forall>g. holds_file (dk_tree w) g \<and> (ow \<longrightarrow> rf_path g \<notin> rf_path ` set (f # files)) \<longrightarrow> holds_file (dk_tree w') g"
      using holds_later [OF _ c] by auto
    ultimately show ?thesis using stop(2) by simp
  next
    case (go u w1)
    have c: "confined_to root (if ow then {rf_path f} else {}) (dk_tree w) (dk_tree w1)" and f: "holds_file (dk_tree w1) f"
      using write_rendered_confined [OF Cons.prems(1) rel go(1)] by auto
    then have "wf_tree (dk_tree w1)" by (simp add: confined_to_def)
    note rest = Cons.IH [OF this _ go(2)]
    have ih: "confined_to root (if ow then rf_path ` set files else {}) (dk_tree w1) (dk_tree w')"
      "r = Inr () \<Longrightarrow> ow \<longrightarrow> distinct (map rf_path files) \<Longrightarrow> list_all (holds_file (dk_tree w')) files"
      "\<And>g. holds_file (dk_tree w1) g \<Longrightarrow> (ow \<longrightarrow> rf_path g \<notin> rf_path ` set files) \<Longrightarrow> holds_file (dk_tree w') g"
      using rest Cons.prems(2) by auto
    have "confined_to root ?M (dk_tree w) (dk_tree w1)" by (rule confined_more [OF c]) auto
    moreover have "confined_to root ?M (dk_tree w1) (dk_tree w')" by (rule confined_more [OF ih(1)]) auto
    ultimately have "confined_to root ?M (dk_tree w) (dk_tree w')" using confined_trans M by blast
    moreover have "ow \<longrightarrow> distinct (map rf_path (f # files)) \<Longrightarrow> holds_file (dk_tree w') f" using ih(3) [OF f] by auto
    moreover have "\<forall>g. holds_file (dk_tree w) g \<and> (ow \<longrightarrow> rf_path g \<notin> rf_path ` set (f # files)) \<longrightarrow> holds_file (dk_tree w') g"
      using ih(3) holds_later [OF _ c] by auto
    ultimately show ?thesis using ih(2) by (simp del: image_insert list.set(2))
  qed
qed

lemma write_plan_confined:
  assumes "plan render fs0 cwd t target vars = Inr p" "wf_tree (dk_tree w)" "write_plan pid p ow w = (r, w')"
  shows "confined_to (pn_root p) (if ow then rf_path ` set (pn_files p) else {}) (dk_tree w) (dk_tree w') \<and>
    (r = Inr () \<longrightarrow> (ow \<longrightarrow> distinct (map rf_path (pn_files p))) \<longrightarrow> list_all (holds_file (dk_tree w')) (pn_files p))"
proof -
  let ?root = "pn_root p"
  let ?M = "if ow then rf_path ` set (pn_files p) else {}"
  have files: "list_all (\<lambda>f. \<exists>rel. rf_path f = ?root @ rel \<and> rel \<noteq> [] \<and> ''..'' \<notin> set rel) (pn_files p)"
    using planned_file [OF assms(1)] by (simp add: list_all_iff)
  show ?thesis
    using assms(3) [unfolded write_plan_def]
  proof (cases rule: io_bind_cases)
    case (stop e)
    then show ?thesis using assms(2) confined_refl by (auto simp: io_read_def)
  next
    case (go planned w0)
    then have rest: "w0 = w" by (simp add: io_read_def)
    show ?thesis
    proof (cases "planned = ?root")
      case False
      then show ?thesis using go(2) rest assms(2) confined_refl by (auto simp: io_err_def)
    next
      case True
      from True go(2) rest have "io_bind (create_secure_dir ?root) (\<lambda>_.
        io_bind (io_read (\<lambda>fs. or_else (io_error Not_found) (canonicalize fs ?root))) (\<lambda>c.
        if c \<noteq> ?root then io_err (Config ''scaffold target resolved outside its planned path'')
        else io_each (write_rendered pid c ow) (pn_files p))) w = (r, w')" by simp
      then show ?thesis
      proof (cases rule: io_bind_cases)
        case (stop e)
        then show ?thesis using create_secure_dir_adds [OF assms(2) stop(1)] adds_dirs_confined [of ?root _ _ ?root] is_prefix_iff by fastforce
      next
        case (go u w1)
        have c: "confined_to ?root ?M (dk_tree w) (dk_tree w1)"
          using create_secure_dir_adds [OF assms(2) go(1)] adds_dirs_confined [of ?root _ _ ?root] is_prefix_iff by fastforce
        from go(2) show ?thesis
        proof (cases rule: io_bind_cases)
          case (stop e)
          then show ?thesis using c by (simp add: io_read_def)
        next
          case (go c' w2)
          then have w2: "w2 = w1" by (simp add: io_read_def)
          show ?thesis
          proof (cases "c' = ?root")
            case False
            then show ?thesis using go(2) c w2 by (auto simp: io_err_def)
          next
            case True
            then have run: "io_each (write_rendered pid ?root ow) (pn_files p) w1 = (r, w')" using go(2) w2 by simp
            have "wf_tree (dk_tree w1)" using c by (simp add: confined_to_def)
            note all = write_all_rendered [OF this files run]
            have "\<And>q. q \<in> ?M \<Longrightarrow> is_prefix ?root q \<and> q \<noteq> ?root"
              using files by (auto simp: list_all_iff is_prefix_iff split: if_splits)
            then show ?thesis using confined_trans [OF c] all by blast
          qed
        qed
      qed
    qed
  qed
qed

text \<open>
  C18 (scaffold_contained): whatever fails while a planned scaffold is written, nothing outside its root
  changes, except that missing directories on the way to the root appear; nothing that existed goes
  away, and of what existed only planned files change, and those only when overwriting was asked for.
  In particular nothing is written through a symbolic link. When the run succeeds every planned
  file has its content and, if asked for, its executable bits (in overwriting runs for plans that name no path twice).
\<close>

theorem scaffold_contained:
  assumes "plan render fs0 cwd t target vars = Inr p" "wf_tree (dk_tree w)" "write_plan pid p ow w = (r, w')"
  shows "wf_tree (dk_tree w') \<and>
    (\<forall>q. dk_tree w' q \<noteq> dk_tree w q \<longrightarrow>
      (if dk_tree w q = None
       then is_prefix (pn_root p) q \<and> q \<noteq> pn_root p \<or> is_prefix q (pn_root p) \<and> dk_tree w' q = Some Directory
       else ow \<and> q \<in> rf_path ` set (pn_files p) \<and> dk_tree w' q \<noteq> None)) \<and>
    (r = Inr () \<longrightarrow> (ow \<longrightarrow> distinct (map rf_path (pn_files p))) \<longrightarrow> list_all (holds_file (dk_tree w')) (pn_files p))"
  using write_plan_confined [OF assms] unfolding confined_to_def by (cases ow) auto

definition sample_template :: template where
  "sample_template = \<lparr>tm_name = ''demo'', tm_description = [], tm_source = BuiltIn, tm_category = Development,
     tm_variables = [], tm_files = [\<lparr>tf_path = ''src/run.sh'', tf_content = ''exit'', tf_executable = True\<rparr>], tm_post_hooks = []\<rparr>"

definition sample_disk :: disk where
  "sample_disk = \<lparr>dk_tree = map_of [([], Directory), ([''home''], Directory)], dk_fates = [], dk_mode = 420, dk_sequence = 0\<rparr>"

definition sample_plan :: render_plan where
  "sample_plan = \<lparr>pn_root = [''home'', ''app''], pn_files =
     [\<lparr>rf_path = [''home'', ''app'', ''src'', ''run.sh''], rf_slash = False, rf_content = ''exit'', rf_executable = True\<rparr>],
     pn_post_hooks = []\<rparr>"

lemma sample_planned: "plan (\<lambda>s _. Inr s) (dk_tree sample_disk) (Inr []) sample_template ''/home/app'' [] = Inr sample_plan"
  by code_simp

lemma sample_written: "fst (write_plan 7 sample_plan True sample_disk) = Inr ()"
  by code_simp

lemma sample_tree: "wf_tree (dk_tree sample_disk)"
  by (auto simp: wf_tree_def sample_disk_def split: if_splits)

theorem scaffold_contained_witness:
  "list_all (holds_file (dk_tree (snd (write_plan 7 sample_plan True sample_disk)))) (pn_files sample_plan)"
  using scaffold_contained [OF sample_planned sample_tree, of 7 True "Inr ()" "snd (write_plan 7 sample_plan True sample_disk)"]
    sample_written by (simp add: prod_eq_iff sample_plan_def)

end
