(* ===== verification/Standard.thy ===== *)
theory Standard
  imports Scaffold Scan_Core
begin

text \<open>
  Keeping a project to its standard (\<^verbatim>\<open>crates/rtrt-templates/src/project.rs\<close>): what of the managed
  contract (\<^verbatim>\<open>CLAUDE.md\<close>) and of the managed agent files is there, the repair of what is missing,
  and the retirement of assets of an older version. The table of templates, the two retired texts
  and what \<^verbatim>\<open>read_dir\<close> lists are arguments.
\<close>

section \<open>Sections of a contract\<close>

definition CONTRACT_PATH :: string where "CONTRACT_PATH = ''CLAUDE.md''"
definition AGENTS_DIR :: path where "AGENTS_DIR = [''.claude'', ''agents'']"

record parsed_section =
  ps_number :: nat
  ps_title :: string
  ps_content :: string

text \<open>\<^verbatim>\<open>str::split_inclusive\<close> at line feeds.\<close>

fun split_inclusive :: "string \<Rightarrow> string list" where
  "split_inclusive [] = []"
| "split_inclusive (c # s) =
     (if c = NL then [c] # split_inclusive s
      else case split_inclusive s of [] \<Rightarrow> [[c]] | l # ls \<Rightarrow> (c # l) # ls)"

definition parse_section_heading :: "string \<Rightarrow> (nat \<times> string) option" where
  "parse_section_heading line =
     Option.bind (strip_prefix (trim_end line) ''## '') (\<lambda>rest.
     Option.bind (split_once (CHR ''.'') rest) (\<lambda>(number, title).
     map_option (\<lambda>n. (n, trim title)) (parse_uint 8 (trim number))))"

fun headings_from :: "nat \<Rightarrow> string list \<Rightarrow> (nat \<times> nat \<times> string) list" where
  "headings_from offset [] = []"
| "headings_from offset (l # ls) = (case parse_section_heading l of
     None \<Rightarrow> headings_from (offset + length l) ls
   | Some (n, t) \<Rightarrow> (offset, n, t) # headings_from (offset + length l) ls)"

fun cut_sections :: "string \<Rightarrow> (nat \<times> nat \<times> string) list \<Rightarrow> parsed_section list" where
  "cut_sections text [] = []"
| "cut_sections text ((start, n, t) # hs) =
     (let end_at = (case hs of [] \<Rightarrow> length text | (next, _, _) # _ \<Rightarrow> next) in
      \<lparr>ps_number = n, ps_title = t, ps_content = trim_end (take (end_at - start) (drop start text))\<rparr> # cut_sections text hs)"

definition parse_sections :: "string \<Rightarrow> parsed_section list" where
  "parse_sections text = cut_sections text (headings_from 0 (split_inclusive text))"

section \<open>The rendered standard\<close>

text \<open>\<^verbatim>\<open>Path::file_stem\<close> and \<^verbatim>\<open>Path::extension\<close> of a file name.\<close>

definition split_extension :: "string \<Rightarrow> string \<times> string option" where
  "split_extension name = (let ps = split_char (CHR ''.'') name; stem = join ''.'' (butlast ps) in
     if stem = [] then (name, None) else (stem, Some (last ps)))"

definition validate_at :: "tree \<Rightarrow> path \<Rightarrow> error + path" where
  "validate_at fs p = and_also (or_else (io_error Not_found) (canonicalize fs p)) (\<lambda>c.
     if fs c \<noteq> Some Directory then Inl (Config (''project path is not a directory: '' @ show_path c)) else Inr c)"

definition validate_project_path :: "tree \<Rightarrow> error + path \<Rightarrow> string \<Rightarrow> error + path" where
  "validate_project_path fs cwd text =
     (if text = [] then Inl (Config ''project path is empty'')
      else if ''..'' \<in> set (path_parts text) then Inl (Config (''project path must not contain '' @ [CHR 0x27] @ ''..'' @ [CHR 0x27] @ '': '' @ text))
      else and_also (if is_absolute text then Inr [] else cwd) (\<lambda>d. validate_at fs (d @ path_parts text)))"

definition standardization_template :: "template list \<Rightarrow> error + template" where
  "standardization_template builtin = or_else (Config ''built-in standardization template is unavailable'')
     (List.find (\<lambda>t. tm_name t = ''standardization'') builtin)"

definition contract_template :: "template list \<Rightarrow> string \<Rightarrow> error + template" where
  "contract_template templates name = or_else (Config (''unknown template: '' @ name)) (List.find (\<lambda>t. tm_name t = name) templates)"

definition default_vars :: "path \<Rightarrow> vars" where
  "default_vars root = bt_of_list
     [(''project_name'', if root = [] \<or> \<not> utf8_valid (last root) \<or> trim (last root) = [] then ''project'' else last root),
      (''license'', ''MIT''), (''language'', ''Rust''), (''framework'', []),
      (''target_platform'', ''Linux / macOS / Windows''), (''deployment'', ''GitHub Actions'')]"

record rendered_standard =
  rs_contract :: string
  rs_agents :: "(path \<times> string) list"

fun pick_files :: "path \<Rightarrow> rendered_file list \<Rightarrow> string option \<Rightarrow> (path \<times> string) list \<Rightarrow>
    error + string option \<times> (path \<times> string) list" where
  "pick_files root [] contract agents = Inr (contract, agents)"
| "pick_files root (f # fs) contract agents =
     (if \<not> is_prefix root (rf_path f) then Inl (Config (''template path escaped root: '' @ show_path (rf_path f)))
      else let rel = drop (length root) (rf_path f) in
        if ''..'' \<in> set rel then Inl (Config (''template path is not a safe relative path: '' @ join ''/'' rel))
        else if rel = [CONTRACT_PATH] then pick_files root fs (Some (rf_content f)) agents
        else if is_prefix AGENTS_DIR rel then pick_files root fs contract (agents @ [(rel, rf_content f)])
        else pick_files root fs contract agents)"

definition rendered_contract :: "renderer \<Rightarrow> tree \<Rightarrow> error + path \<Rightarrow> template \<Rightarrow> path \<Rightarrow> vars \<Rightarrow> error + rendered_standard" where
  "rendered_contract render fs cwd template root vars =
     and_also (plan render fs cwd template (show_path root) vars) (\<lambda>p.
     and_also (pick_files (pn_root p) (pn_files p) None []) (\<lambda>(contract, agents).
     and_also (or_else (Config ''standardization template lacks CLAUDE.md'') contract) (\<lambda>c.
     Inr \<lparr>rs_contract = c, rs_agents = agents\<rparr>)))"

text \<open>Everything an inspection reads besides the tree.\<close>

record project_env =
  pe_render :: renderer
  pe_cwd :: "error + path"
  pe_templates :: "template list"
  pe_list :: "path \<Rightarrow> error + string list"

definition rendered_contract_template :: "project_env \<Rightarrow> tree \<Rightarrow> path \<Rightarrow> string \<Rightarrow> vars \<Rightarrow> error + rendered_standard" where
  "rendered_contract_template env fs root name vars =
     and_also (contract_template (pe_templates env) name) (\<lambda>t.
     rendered_contract (pe_render env) fs (pe_cwd env) t root (fold (\<lambda>(k, v). bt_insert k v) vars (default_vars root)))"

definition expected_sections :: "project_env \<Rightarrow> tree \<Rightarrow> path \<Rightarrow> error + (nat \<times> string) list" where
  "expected_sections env fs root =
     and_also (standardization_template (pe_templates env)) (\<lambda>t.
     and_also (rendered_contract (pe_render env) fs (pe_cwd env) t root (default_vars root)) (\<lambda>r.
     Inr (map (\<lambda>s. (ps_number s, ps_title s)) (parse_sections (rs_contract r)))))"

definition agent_file_path :: "template_file \<Rightarrow> string option" where
  "agent_file_path f = (let ps = path_parts (tf_path f) in
     if \<not> is_absolute (tf_path f) \<and> is_prefix AGENTS_DIR ps \<and> snd (split_extension (last ps)) = Some ''md''
     then Some (tf_path f) else None)"

definition expected_agents :: "template list \<Rightarrow> error + string list" where
  "expected_agents builtin = and_also (standardization_template builtin) (\<lambda>t. Inr (List.map_filter agent_file_path (tm_files t)))"

definition agent_name :: "path \<Rightarrow> string" where
  "agent_name p = (if p = [] \<or> last p = ''..'' then ''unknown'' else fst (split_extension (last p)))"

definition present_agent_names :: "project_env \<Rightarrow> tree \<Rightarrow> path \<Rightarrow> error + string list" where
  "present_agent_names env fs root =
     (if \<not> exists_at fs (root @ AGENTS_DIR) then Inr []
      else and_also (pe_list env (root @ AGENTS_DIR)) (\<lambda>names.
        Inr (sort (map (fst \<circ> split_extension) (filter (\<lambda>n. snd (split_extension n) = Some ''md'') names)))))"

section \<open>Inspection\<close>

record section_status =
  ss_number :: nat
  ss_title :: string
  ss_present :: bool
  ss_stale :: bool

record agent_status =
  as_name :: string
  as_path :: path
  as_present :: bool

record project_inspection =
  pi_root :: path
  pi_contract_present :: bool
  pi_sections :: "section_status list"
  pi_managed_agents :: "agent_status list"
  pi_present_agents :: "string list"
  pi_extra_sections :: "nat list"
  pi_duplicate_sections :: "nat list"

definition section_status_of :: "parsed_section list \<Rightarrow> parsed_section \<Rightarrow> section_status" where
  "section_status_of found s = (case filter (\<lambda>f. ps_number f = ps_number s) found of
     [] \<Rightarrow> \<lparr>ss_number = ps_number s, ss_title = ps_title s, ss_present = False, ss_stale = False\<rparr>
   | f # _ \<Rightarrow> \<lparr>ss_number = ps_number s, ss_title = ps_title s, ss_present = True, ss_stale = ps_title f \<noteq> ps_title s\<rparr>)"

fun second_uses :: "nat list \<Rightarrow> nat list \<Rightarrow> nat list" where
  "second_uses seen [] = []"
| "second_uses seen (n # ns) = (if n \<in> set seen then n # second_uses seen ns else second_uses (n # seen) ns)"

definition inspect_at :: "project_env \<Rightarrow> tree \<Rightarrow> path \<Rightarrow> string \<Rightarrow> vars \<Rightarrow> error + project_inspection" where
  "inspect_at env fs root name vars =
     and_also (rendered_contract_template env fs root name vars) (\<lambda>rendered.
     let expected = parse_sections (rs_contract rendered); contract = root @ [CONTRACT_PATH] in
     and_also (if \<not> exists_at fs contract then Inr []
       else and_also (or_else (io_error (Other_error ''unreadable contract''))
           (Option.bind (read_path fs contract) (\<lambda>c. if utf8_valid c then Some c else None)))
         (\<lambda>raw. Inr (parse_sections raw))) (\<lambda>found.
     and_also (present_agent_names env fs root) (\<lambda>names.
     let managed = map ps_number expected; numbers = map ps_number found in
     Inr \<lparr>pi_root = root, pi_contract_present = exists_at fs contract,
       pi_sections = map (section_status_of found) expected,
       pi_managed_agents = map (\<lambda>(p, _). \<lparr>as_name = agent_name p, as_path = p, as_present = exists_at fs (root @ p)\<rparr>) (rs_agents rendered),
       pi_present_agents = names,
       pi_extra_sections = sort (remdups (filter (\<lambda>n. n \<notin> set managed) numbers)),
       pi_duplicate_sections = sort (remdups (second_uses [] (filter (\<lambda>n. n \<in> set managed) numbers)))\<rparr>)))"

definition inspect_project_with_vars :: "project_env \<Rightarrow> tree \<Rightarrow> string \<Rightarrow> string \<Rightarrow> vars \<Rightarrow> error + project_inspection" where
  "inspect_project_with_vars env fs text name vars =
     and_also (validate_project_path fs (pe_cwd env) text) (\<lambda>root. inspect_at env fs root name vars)"


section \<open>Repair\<close>

datatype repair_action =
    CreateContract path
  | AppendSection nat string
  | InstallAgent path

record project_repair_plan =
  rr_root :: path
  rr_actions :: "repair_action list"
  rr_contract_content :: string
  rr_missing_sections :: "parsed_section list"
  rr_missing_agents :: "(path \<times> string) list"

definition missing_sections_of :: "section_status list \<Rightarrow> parsed_section list \<Rightarrow> parsed_section list" where
  "missing_sections_of statuses expected =
     List.map_filter (\<lambda>s. List.find (\<lambda>e. ps_number e = ss_number s) expected) (filter (\<lambda>s. \<not> ss_present s) statuses)"

definition missing_agents_of :: "agent_status list \<Rightarrow> (path \<times> string) list \<Rightarrow> (path \<times> string) list" where
  "missing_agents_of statuses files =
     List.map_filter (\<lambda>s. List.find (\<lambda>(p, _). p = as_path s) files) (filter (\<lambda>s. \<not> as_present s) statuses)"

definition plan_repair_with_vars :: "project_env \<Rightarrow> tree \<Rightarrow> string \<Rightarrow> string \<Rightarrow> vars \<Rightarrow> error + project_repair_plan" where
  "plan_repair_with_vars env fs text name vars =
     and_also (validate_project_path fs (pe_cwd env) text) (\<lambda>root.
     and_also (rendered_contract_template env fs root name vars) (\<lambda>rendered.
     and_also (and_also (validate_at fs root) (\<lambda>r. inspect_at env fs r name vars)) (\<lambda>inspection.
     let missing = (if pi_contract_present inspection
           then missing_sections_of (pi_sections inspection) (parse_sections (rs_contract rendered)) else []);
         agents = missing_agents_of (pi_managed_agents inspection) (rs_agents rendered) in
     Inr \<lparr>rr_root = root,
       rr_actions = (if pi_contract_present inspection then map (\<lambda>s. AppendSection (ps_number s) (ps_title s)) missing
           else [CreateContract [CONTRACT_PATH]]) @ map (\<lambda>(p, _). InstallAgent p) agents,
       rr_contract_content = rs_contract rendered, rr_missing_sections = missing, rr_missing_agents = agents\<rparr>)))"

definition append_text :: "parsed_section list \<Rightarrow> string" where
  "append_text sections = fold (\<lambda>s text. (if text = [] then [] else text @ [NL]) @ trim_end (ps_content s) @ [NL]) sections []"

definition open_append :: "path \<Rightarrow> path sys" where
  "open_append p = sys_op untouched (\<lambda>fs. case place fs p of
     None \<Rightarrow> Inl Not_found
   | Some q \<Rightarrow> if fs q = None then Inl Not_found
       else if is_directory (fs q) then Inl (Other_error ''Is a directory (os error 21)'') else Inr (q, fs))"

definition materialize :: "path \<Rightarrow> unit io" where
  "materialize p = io_bind (io_read (\<lambda>fs. Inr (is_link (lstat fs p), case read_path fs p of
       Some c \<Rightarrow> if utf8_valid c then c else [] | None \<Rightarrow> []))) (\<lambda>(link, resolved).
     if link then io_bind (io_sys io_error (remove_file p)) (\<lambda>_. io_sys io_error (write_path p resolved))
     else io_ret ())"

definition mend_contract :: "project_repair_plan \<Rightarrow> path \<Rightarrow> unit io" where
  "mend_contract pr p = io_bind (io_read (\<lambda>fs. Inr (exists_at fs p))) (\<lambda>present.
     if \<not> present then io_sys io_error (write_path p (rr_contract_content pr))
     else if rr_missing_sections pr = [] then io_ret ()
     else io_bind (io_sys io_error (open_append p)) (\<lambda>q.
       io_bind (io_sys io_error (write_all q [NL])) (\<lambda>_.
       io_sys io_error (write_all q (append_text (rr_missing_sections pr))))))"

definition install_agent :: "path \<Rightarrow> path \<times> string \<Rightarrow> unit io" where
  "install_agent root = (\<lambda>(p, content).
     io_bind (io_read (\<lambda>fs. Inr (exists_at fs (root @ p)))) (\<lambda>present.
     if present then io_ret ()
     else io_bind (if root @ p = [] then io_ret () else create_dir_all (rev (butlast (root @ p)))) (\<lambda>_.
       io_sys io_error (write_path (root @ p) content))))"

definition apply_repair :: "project_repair_plan \<Rightarrow> unit io" where
  "apply_repair pr =
     (let contract = rr_root pr @ [CONTRACT_PATH] in
      io_bind (materialize contract) (\<lambda>_.
      io_bind (mend_contract pr contract) (\<lambda>_.
      io_each (install_agent (rr_root pr)) (rr_missing_agents pr))))"

section \<open>Retirement of older assets\<close>

text \<open>The two texts that were installed once: a section of the contract and an agent.\<close>

record legacy_texts =
  lt_section :: string
  lt_agent :: string

datatype retirement_action =
    RemoveContractSection path path
  | RemoveAgent path path

record retirement_file =
  re_path :: path
  re_backup :: path
  re_original :: string
  re_replacement :: "string option"

record retirement_plan =
  rt_actions :: "retirement_action list"
  rt_root :: path
  rt_files :: "retirement_file list"

text \<open>\<^verbatim>\<open>str::match_indices\<close>: the matches that do not overlap, from the left.\<close>

function match_indices :: "string \<Rightarrow> nat \<Rightarrow> string \<Rightarrow> nat list" where
  "match_indices p i s =
     (if p = [] \<or> s = [] then []
      else if starts_with s p then i # match_indices p (i + length p) (drop (length p) s)
      else match_indices p (i + 1) (drop 1 s))"
  by pat_completeness auto
termination
  by (relation "measure (\<lambda>(_, _, s). length s)") auto

declare match_indices.simps [simp del]

definition remove_exact_legacy_section :: "string \<Rightarrow> string \<Rightarrow> string option" where
  "remove_exact_legacy_section legacy original =
     (if \<not> utf8_valid original then None
      else case filter (\<lambda>i. (i = 0 \<or> original ! (i - 1) = NL) \<and>
          (let rest = drop (i + length legacy) original in rest = [] \<or> starts_with rest ([NL] @ ''## '')))
        (match_indices legacy 0 original) of
       [start] \<Rightarrow> Some (take start original @ drop (start + length legacy) original)
     | _ \<Rightarrow> None)"

fun read_below :: "tree \<Rightarrow> path \<Rightarrow> string list \<Rightarrow> string option" where
  "read_below fs cur [] = None"
| "read_below fs cur (n # ns) =
     (if n = ''..'' then None
      else case lstat fs (cur @ [n]) of
        Some (Regular _ _) \<Rightarrow> if ns = [] then read_path fs (cur @ [n]) else None
      | Some Directory \<Rightarrow> read_below fs (cur @ [n]) ns
      | _ \<Rightarrow> None)"

definition read_regular_file_without_symlinks :: "tree \<Rightarrow> path \<Rightarrow> path \<Rightarrow> error + string option" where
  "read_regular_file_without_symlinks fs root p =
     (if \<not> is_prefix root p then Inl (Config (''legacy asset escaped project root: '' @ show_path p))
      else Inr (read_below fs root (drop (length root) p)))"

definition validate_backup :: "tree \<Rightarrow> path \<Rightarrow> string \<Rightarrow> error + unit" where
  "validate_backup fs p original = (case lstat fs p of
     None \<Rightarrow> Inr ()
   | Some (Regular c _) \<Rightarrow>
       if c = original then Inr () else Inl (Config (''legacy orchestration backup conflicts with retirement: '' @ show_path p))
   | Some _ \<Rightarrow> Inl (Config (''legacy orchestration backup conflicts with retirement: '' @ show_path p)))"

definition backup_path :: "path \<Rightarrow> path" where
  "backup_path p = (case split_extension (last p) of
     (stem, None) \<Rightarrow> butlast p @ [stem @ ''.bak'']
   | (stem, Some e) \<Rightarrow> butlast p @ [stem @ ''.'' @ (if e = [] then ''bak'' else e @ ''.bak'')])"

definition retire_contract :: "legacy_texts \<Rightarrow> tree \<Rightarrow> path \<Rightarrow> error + retirement_file list" where
  "retire_contract lt fs root =
     (let p = root @ [CONTRACT_PATH]; backup = backup_path p in
      and_also (read_regular_file_without_symlinks fs root p) (\<lambda>found.
      case Option.bind found (\<lambda>original. map_option (Pair original) (remove_exact_legacy_section (lt_section lt) original)) of
        None \<Rightarrow> Inr []
      | Some (original, replacement) \<Rightarrow> and_also (validate_backup fs backup original) (\<lambda>_.
          Inr [\<lparr>re_path = p, re_backup = backup, re_original = original, re_replacement = Some replacement\<rparr>])))"

definition retire_agent :: "legacy_texts \<Rightarrow> tree \<Rightarrow> path \<Rightarrow> error + retirement_file list" where
  "retire_agent lt fs root =
     (let p = root @ AGENTS_DIR @ [''tech-lead.md'']; backup = backup_path p in
      and_also (read_regular_file_without_symlinks fs root p) (\<lambda>found.
      if found \<noteq> Some (lt_agent lt) then Inr []
      else and_also (validate_backup fs backup (lt_agent lt)) (\<lambda>_.
        Inr [\<lparr>re_path = p, re_backup = backup, re_original = lt_agent lt, re_replacement = None\<rparr>])))"

definition plan_legacy_orchestration_retirement :: "legacy_texts \<Rightarrow> tree \<Rightarrow> error + path \<Rightarrow> string \<Rightarrow> error + retirement_plan" where
  "plan_legacy_orchestration_retirement lt fs cwd text =
     and_also (validate_project_path fs cwd text) (\<lambda>root.
     and_also (retire_contract lt fs root) (\<lambda>cs.
     and_also (retire_agent lt fs root) (\<lambda>as.
     Inr \<lparr>rt_actions = map (\<lambda>f. RemoveContractSection (re_path f) (re_backup f)) cs @
         map (\<lambda>f. RemoveAgent (re_path f) (re_backup f)) as,
       rt_root = root, rt_files = cs @ as\<rparr>)))"

definition still_original :: "path \<Rightarrow> string \<Rightarrow> retirement_file \<Rightarrow> tree \<Rightarrow> error + unit" where
  "still_original root stage f fs =
     and_also (read_regular_file_without_symlinks fs root (re_path f)) (\<lambda>current.
     if current \<noteq> Some (re_original f) then Inl (Config (''legacy orchestration asset changed '' @ stage @ '': '' @ show_path (re_path f)))
     else validate_backup fs (re_backup f) (re_original f))"

definition stage_backup :: "retirement_file \<Rightarrow> unit io" where
  "stage_backup f w = (case open_new (re_backup f) False w of
     (Inr q, w') \<Rightarrow> io_sys io_error (write_all q (re_original f)) w'
   | (Inl e, w') \<Rightarrow>
       if e = Already_exists then (validate_backup (dk_tree w') (re_backup f) (re_original f), w') else (Inl (io_error e), w'))"

definition retire_one :: "nat \<Rightarrow> path \<Rightarrow> retirement_file \<Rightarrow> unit io" where
  "retire_one pid root f =
     io_bind (io_read (still_original root ''before retirement'' f)) (\<lambda>_.
     case re_replacement f of
       Some r \<Rightarrow> replace_contents_no_follow pid (re_path f) r
     | None \<Rightarrow> io_sys io_error (remove_file (re_path f)))"

text \<open>The hooks stand for what happens at two points in between; the planogram passes none.\<close>

definition apply_retirement_with_hooks :: "nat \<Rightarrow> retirement_plan \<Rightarrow> unit io \<Rightarrow> unit io \<Rightarrow> unit io" where
  "apply_retirement_with_hooks pid pr before_staging before_mutation =
     io_bind (io_each (\<lambda>f. io_read (still_original (rt_root pr) ''after preflight'' f)) (rt_files pr)) (\<lambda>_.
     io_bind before_staging (\<lambda>_.
     io_bind (io_each stage_backup (rt_files pr)) (\<lambda>_.
     io_bind (io_each (\<lambda>f. io_read (still_original (rt_root pr) ''after backup staging'' f)) (rt_files pr)) (\<lambda>_.
     io_bind before_mutation (\<lambda>_.
     io_each (retire_one pid (rt_root pr)) (rt_files pr))))))"

definition apply_legacy_orchestration_retirement :: "nat \<Rightarrow> retirement_plan \<Rightarrow> unit io" where
  "apply_legacy_orchestration_retirement pid pr = apply_retirement_with_hooks pid pr (io_ret ()) (io_ret ())"

section \<open>No retired text is lost\<close>

lemma canonicalize_real:
  assumes "wf_tree fs" "canonicalize fs p = Some q"
  shows "real_dir fs q \<and> fs q \<noteq> None"
proof -
  have "seek MAX_LINKS fs [] p = Some q" and q: "fs q \<noteq> None"
    using assms(2) by (auto simp: canonicalize_def place_def split: option.splits if_splits)
  moreover have "linkfree fs []" "fs [] \<noteq> None" using assms(1) by (auto simp: wf_tree_def linkfree_def is_prefix_iff is_link_def)
  ultimately show ?thesis using seek_real [of MAX_LINKS fs "[]" p q] assms(1) by (simp add: real_dir_def)
qed

lemma real_dir_step: "real_dir fs d \<Longrightarrow> \<not> is_link (fs (d @ [x])) \<Longrightarrow> x \<noteq> ''..'' \<Longrightarrow> real_dir fs (d @ [x])"
  by (simp add: real_dir_def linkfree_snoc)

lemma read_below_found:
  assumes "real_dir fs cur" "read_below fs cur ns = Some c"
  shows "real_dir fs (cur @ butlast ns) \<and> ns \<noteq> [] \<and> last ns \<noteq> ''..'' \<and> (\<exists>m. fs (cur @ ns) = Some (Regular c m))"
  using assms
proof (induction ns arbitrary: cur)
  case (Cons n ns)
  have n: "n \<noteq> ''..''" using Cons.prems(2) by (simp split: if_splits)
  have l: "lstat fs (cur @ [n]) = fs (cur @ [n])" using real_dir_entry(2) [OF Cons.prems(1) n] .
  show ?case
  proof (cases "fs (cur @ [n]) = Some Directory")
    case True
    then have real: "real_dir fs (cur @ [n])" using real_dir_step [OF Cons.prems(1) _ n] by (simp add: is_link_def)
    have "read_below fs (cur @ [n]) ns = Some c" using Cons.prems(2) n l True by simp
    then show ?thesis using Cons.IH [OF real] by auto
  next
    case False
    then obtain c' m where r: "fs (cur @ [n]) = Some (Regular c' m)" "ns = []" "read_path fs (cur @ [n]) = Some c"
      using Cons.prems(2) n l by (auto split: option.splits node.splits if_splits)
    then have "real_dir fs (cur @ [n])" using real_dir_step [OF Cons.prems(1) _ n] by (simp add: is_link_def)
    then have "stat fs (cur @ [n]) = fs (cur @ [n])" using stat_linkfree(1) by (simp add: real_dir_def)
    then have "c' = c" using r by (simp add: read_path_def)
    then show ?thesis using r n Cons.prems(1) by simp
  qed
qed simp

text \<open>The two names of a file and its copy stand in one directory below the root.\<close>

definition retirable :: "path \<Rightarrow> retirement_file \<Rightarrow> bool" where
  "retirable root f \<longleftrightarrow> is_prefix root (butlast (re_path f)) \<and> re_path f \<noteq> [] \<and>
     butlast (re_backup f) = butlast (re_path f) \<and> re_backup f \<noteq> [] \<and> last (re_backup f) \<noteq> ''..'' \<and> re_backup f \<noteq> re_path f"

lemma still_original_found:
  assumes "real_dir fs root" "retirable root f" "still_original root stage f fs = Inr ()"
  shows "real_dir fs (butlast (re_path f)) \<and> last (re_path f) \<noteq> ''..'' \<and> fs (butlast (re_path f)) = Some Directory \<and>
    (\<exists>m. fs (re_path f) = Some (Regular (re_original f) m))"
proof -
  obtain u where u: "butlast (re_path f) = root @ u" using assms(2) by (auto simp: retirable_def is_prefix_iff)
  let ?x = "last (re_path f)"
  have p: "re_path f = root @ (u @ [?x])" using u assms(2) unfolding retirable_def by (metis append_assoc append_butlast_last_id)
  then have "is_prefix root (re_path f)" "drop (length root) (re_path f) = u @ [?x]" by (metis is_prefix_iff, metis append_eq_conv_conj)
  then have "read_below fs root (u @ [?x]) = Some (re_original f)"
    using assms(3) by (auto simp: still_original_def read_regular_file_without_symlinks_def and_also_Inr split: if_splits)
  then obtain m where "real_dir fs (root @ u)" "?x \<noteq> ''..''" "fs (root @ (u @ [?x])) = Some (Regular (re_original f) m)"
    using read_below_found [OF assms(1)] by fastforce
  then show ?thesis using u p butlast_dir [of fs "re_path f"] by (metis append_is_Nil_conv not_Cons_self2 option.distinct(1) real_dir_def)
qed

text \<open>What exists stays as it is, but for the paths \<open>P\<close>.\<close>

definition keeps_but :: "path set \<Rightarrow> tree \<Rightarrow> tree \<Rightarrow> bool" where
  "keeps_but P fs fs' \<longleftrightarrow> wf_tree fs' \<and> (\<forall>q. fs q \<noteq> None \<longrightarrow> q \<notin> P \<longrightarrow> fs' q = fs q)"

lemma keeps_refl: "wf_tree fs \<Longrightarrow> keeps_but P fs fs"
  by (simp add: keeps_but_def)

lemma keeps_trans: "keeps_but P a b \<Longrightarrow> keeps_but Q b c \<Longrightarrow> P \<subseteq> R \<Longrightarrow> Q \<subseteq> R \<Longrightarrow> keeps_but R a c"
  unfolding keeps_but_def by (metis subsetD)

lemma keeps_real:
  assumes "real_dir fs d" "fs d = Some Directory" "keeps_but P fs fs'" "\<And>q. q \<in> P \<Longrightarrow> \<not> is_prefix q d"
  shows "real_dir fs' d \<and> fs' d = Some Directory"
proof -
  have same: "fs' q = fs q" if pre: "is_prefix q d" for q
  proof -
    obtain z where z: "d = q @ z" using pre unfolding is_prefix_iff by blast
    have wf: "wf_tree fs" using assms(1) by (simp add: real_dir_def)
    have "fs (q @ z) \<noteq> None" using assms(2) unfolding z by simp
    then have "fs q \<noteq> None" using wf_tree_above [OF wf, of q z] by (cases "z = []") simp_all
    then show ?thesis using assms(3,4) pre unfolding keeps_but_def by blast
  qed
  have "is_prefix d d" by (simp add: is_prefix_iff)
  then have "fs' d = Some Directory" using same assms(2) by simp
  then show ?thesis using assms(1,3) same unfolding real_dir_def linkfree_def keeps_but_def by simp
qed

lemma name_of_path: "p \<noteq> [] \<Longrightarrow> p = butlast p @ [last p]"
  by simp

lemma open_new_exists:
  assumes "real_dir (dk_tree w) d" "x \<noteq> ''..''" "open_new (d @ [x]) False w = (Inl Already_exists, w')"
  shows "dk_tree w (d @ [x]) \<noteq> None"
  using assms(3) [unfolded open_new_def sys_op_def] real_dir_entry(1) [OF assms(1,2)]
  by (auto simp: add_entry_def Let_def split: list.splits disk_fate.splits sum.splits option.splits prod.splits if_splits)

lemma stage_backup_runs:
  assumes f: "retirable root f" and d: "real_dir (dk_tree w) (butlast (re_path f))" and run: "stage_backup f w = (r, w')"
  shows "keeps_but {} (dk_tree w) (dk_tree w') \<and> (\<forall>q. dk_tree w' q \<noteq> dk_tree w q \<longrightarrow> q = re_backup f) \<and>
    (r = Inr () \<longrightarrow> (\<exists>m. dk_tree w' (re_backup f) = Some (Regular (re_original f) m)))"
proof -
  let ?d = "butlast (re_path f)" and ?b = "last (re_backup f)"
  have b: "re_backup f = ?d @ [?b]" "?b \<noteq> ''..''" using f by (auto simp: retirable_def dest: name_of_path)
  have wf: "wf_tree (dk_tree w)" using d by (simp add: real_dir_def)
  obtain r1 w1 where 1: "open_new (?d @ [?b]) False w = (r1, w1)" by fastforce
  note o = open_new_runs [OF d b(2) 1]
  show ?thesis
  proof (cases r1)
    case (Inl e)
    then have t: "dk_tree w1 = dk_tree w" using o by auto
    show ?thesis
    proof (cases "e = Already_exists")
      case True
      then have "w' = w1" "r = validate_backup (dk_tree w) (re_backup f) (re_original f)" using run 1 Inl b(1) t by (simp_all add: stage_backup_def)
      then show ?thesis using t wf open_new_exists [OF d b(2)] 1 Inl True keeps_refl real_dir_entry(2) [OF d b(2)] b(1) by (auto simp: validate_backup_def split: option.splits node.splits if_splits)
    next
      case False
      then show ?thesis using run 1 Inl b(1) t wf keeps_refl by (auto simp: stage_backup_def)
    qed
  next
    case (Inr q)
    then have new: "q = ?d @ [?b]" "dk_tree w ?d = Some Directory" "dk_tree w (?d @ [?b]) = None"
      "dk_tree w1 = (dk_tree w)(?d @ [?b] \<mapsto> Regular [] (dk_mode w))" using o by auto
    have "io_sys io_error (write_all q (re_original f)) w1 = (r, w')" using run 1 Inr b(1) by (simp add: stage_backup_def)
    then have "write_open_file q (re_original f) False w1 = (r, w')"
      unfolding write_open_file_def by (auto simp: io_bind_def io_ret_def split: sum.splits)
    from write_open_file_runs [OF this, of "dk_tree w"] new obtain c m where
      c: "dk_tree w' = (dk_tree w)(?d @ [?b] \<mapsto> Regular c m)" "r = Inr () \<longrightarrow> c = re_original f" by blast
    have "wf_tree (dk_tree w')" using wf_tree_add [OF wf new(2), of ?b] new(3) c(1) by simp
    then show ?thesis using c new(3) b(1) by (auto simp: keeps_but_def split: if_splits)
  qed
qed


lemma io_each_reads:
  "io_each (\<lambda>f. io_read (g f)) xs w = (r, w') \<Longrightarrow> w' = w \<and> (r = Inr () \<longrightarrow> list_all (\<lambda>f. g f (dk_tree w) = Inr ()) xs)"
  by (induction xs) (auto simp: io_ret_def io_bind_def io_read_def split: sum.splits)

definition in_place :: "path \<Rightarrow> tree \<Rightarrow> retirement_file \<Rightarrow> bool" where
  "in_place root fs f \<longleftrightarrow> retirable root f \<and> real_dir fs (butlast (re_path f)) \<and> fs (butlast (re_path f)) = Some Directory"

definition backed_up :: "tree \<Rightarrow> retirement_file \<Rightarrow> bool" where
  "backed_up fs f \<longleftrightarrow> (case fs (re_backup f) of Some (Regular c _) \<Rightarrow> c = re_original f | _ \<Rightarrow> False)"

lemma backed_up_iff: "backed_up fs f \<longleftrightarrow> (\<exists>m. fs (re_backup f) = Some (Regular (re_original f) m))"
  by (auto simp: backed_up_def split: option.splits node.splits)

lemma backed_up_keeps: "backed_up fs f \<Longrightarrow> keeps_but P fs fs' \<Longrightarrow> re_backup f \<notin> P \<Longrightarrow> backed_up fs' f"
  unfolding backed_up_iff keeps_but_def by (metis option.distinct(1))

lemma stage_all:
  assumes "list_all (in_place root (dk_tree w)) files" "io_each stage_backup files w = (r, w')" "wf_tree (dk_tree w)"
  shows "keeps_but {} (dk_tree w) (dk_tree w') \<and> (\<forall>q. dk_tree w' q \<noteq> dk_tree w q \<longrightarrow> q \<in> re_backup ` set files) \<and>
    (r = Inr () \<longrightarrow> list_all (backed_up (dk_tree w')) files)"
  using assms
proof (induction files arbitrary: w)
  case Nil
  then show ?case by (simp add: io_ret_def keeps_refl)
next
  case (Cons f files)
  from Cons.prems(2) have "io_bind (stage_backup f) (\<lambda>_. io_each stage_backup files) w = (r, w')" by simp
  then show ?case
  proof (cases rule: io_bind_cases)
    case (stop e)
    then show ?thesis using stage_backup_runs [OF _ _ stop(1)] Cons.prems(1) by (auto simp: in_place_def)
  next
    case (go u w1)
    have s: "keeps_but {} (dk_tree w) (dk_tree w1)" "\<And>q. dk_tree w1 q \<noteq> dk_tree w q \<Longrightarrow> q = re_backup f"
      "backed_up (dk_tree w1) f"
      using stage_backup_runs [OF _ _ go(1)] Cons.prems(1) by (auto simp: in_place_def backed_up_iff)
    have "list_all (in_place root (dk_tree w1)) files"
      using Cons.prems(1) keeps_real [OF _ _ s(1)] by (auto simp: in_place_def list_all_iff)
    moreover have "wf_tree (dk_tree w1)" using s(1) by (simp add: keeps_but_def)
    ultimately have ih: "keeps_but {} (dk_tree w1) (dk_tree w')"
      "\<And>q. dk_tree w' q \<noteq> dk_tree w1 q \<Longrightarrow> q \<in> re_backup ` set files"
      "r = Inr () \<Longrightarrow> list_all (backed_up (dk_tree w')) files" using Cons.IH [OF _ go(2)] by blast+
    have "keeps_but {} (dk_tree w) (dk_tree w')" using keeps_trans [OF s(1) ih(1)] by simp
    moreover have "q \<in> re_backup ` set (f # files)" if "dk_tree w' q \<noteq> dk_tree w q" for q
      using that s(2) [of q] ih(2) [of q] by (cases "dk_tree w1 q = dk_tree w q") auto
    moreover have "backed_up (dk_tree w') f" using backed_up_keeps [OF s(3) ih(1)] by simp
    ultimately show ?thesis using ih(3) by simp
  qed
qed

text \<open>What stands where a file was after it was retired.\<close>

definition retired :: "tree \<Rightarrow> retirement_file \<Rightarrow> bool" where
  "retired fs f \<longleftrightarrow> (case (re_replacement f, fs (re_path f)) of
     (Some s, Some (Regular c _)) \<Rightarrow> c = s | (None, None) \<Rightarrow> True | _ \<Rightarrow> False)"

lemma retire_one_runs:
  assumes f: "retirable root f" and root: "real_dir (dk_tree w) root" and run: "retire_one pid root f w = (r, w')"
  shows "keeps_but {re_path f} (dk_tree w) (dk_tree w') \<and> (r = Inr () \<longrightarrow> retired (dk_tree w') f)"
  using run [unfolded retire_one_def]
proof (cases rule: io_bind_cases)
  case (stop e)
  then show ?thesis using root by (simp add: io_read_def keeps_refl real_dir_def)
next
  case (go u w1)
  then have w1: "w1 = w" and "still_original root ''before retirement'' f (dk_tree w) = Inr ()" by (auto simp: io_read_def)
  from still_original_found [OF root f this(2)] obtain m where p: "real_dir (dk_tree w) (butlast (re_path f))"
    "last (re_path f) \<noteq> ''..''" "dk_tree w (butlast (re_path f)) = Some Directory"
    "dk_tree w (re_path f) = Some (Regular (re_original f) m)" by blast
  let ?d = "butlast (re_path f)" and ?x = "last (re_path f)"
  have dx: "re_path f = ?d @ [?x]" using f by (simp add: retirable_def)
  have wf: "wf_tree (dk_tree w)" using p(1) by (simp add: real_dir_def)
  show ?thesis
  proof (cases "re_replacement f")
    case (Some s)
    then have "write_replacing pid (?d @ [?x]) False s False w = (r, w')"
      using go(2) w1 dx by (simp add: replace_contents_no_follow_def)
    note wr = write_replacing_wrote [OF p(1,2) this]
    have "confined_to [] {?d @ [?x]} (dk_tree w) (dk_tree w')" using wrote_confined [OF wf wr, of "[]"] by simp
    then have "keeps_but {re_path f} (dk_tree w) (dk_tree w')" using dx unfolding confined_to_def keeps_but_def by (metis singletonI)
    moreover have "r = Inr () \<longrightarrow> retired (dk_tree w') f" using wr Some dx by (auto simp: wrote_def retired_def)
    ultimately show ?thesis by blast
  next
    case None
    then have "io_sys io_error (remove_file (re_path f)) w = (r, w')" using go(2) w1 by simp
    then obtain r1 where r1: "remove_file (re_path f) w = (r1, w')" "r = Inr () \<longleftrightarrow> r1 = Inr ()" using io_sys_runs by blast
    have e: "entry_place (dk_tree w) (re_path f) = Some (re_path f)" using real_dir_entry(1) [OF p(1,2)] p(3) dx by simp
    from r1(1) [unfolded remove_file_def] show ?thesis
    proof (cases rule: sys_op_cases)
      case (success y)
      then have t: "dk_tree w' = (dk_tree w)(re_path f := None)" using e p(4) by (auto simp: is_directory_def split: if_splits)
      then have "wf_tree (dk_tree w')" using wf_tree_add [OF wf p(3), of ?x None] p(4) dx by simp
      then show ?thesis using t None by (simp add: keeps_but_def retired_def)
    qed (use wf keeps_refl r1(2) in auto)
  qed
qed

lemma mutate_all:
  assumes "list_all (retirable root) files" "real_dir (dk_tree w) root" "dk_tree w root = Some Directory"
    "io_each (retire_one pid root) files w = (r, w')" "sorted_wrt (\<lambda>f g. re_replacement f \<noteq> None) files" "distinct (map re_path files)"
  shows "keeps_but (re_path ` set files) (dk_tree w) (dk_tree w') \<and> (r = Inr () \<longrightarrow> list_all (retired (dk_tree w')) files)"
  using assms
proof (induction files arbitrary: w)
  case Nil
  then show ?case by (simp add: io_ret_def keeps_refl real_dir_def)
next
  case (Cons f files)
  let ?P = "re_path ` set (f # files)"
  have f: "retirable root f" using Cons.prems(1) by simp
  then obtain u where u: "butlast (re_path f) = root @ u" "re_path f \<noteq> []" by (auto simp: retirable_def is_prefix_iff)
  then have "length (re_path f) = length (root @ u) + 1" by (metis Suc_eq_plus1 append_butlast_last_id length_append_singleton)
  then have below: "\<not> is_prefix (re_path f) root" by (auto simp: is_prefix_iff)
  from Cons.prems(4) have "io_bind (retire_one pid root f) (\<lambda>_. io_each (retire_one pid root) files) w = (r, w')" by simp
  then show ?case
  proof (cases rule: io_bind_cases)
    case (stop e)
    then show ?thesis using retire_one_runs [OF f Cons.prems(2) stop(1)] by (auto simp: keeps_but_def)
  next
    case (go u w1)
    have 1: "keeps_but {re_path f} (dk_tree w) (dk_tree w1)" "retired (dk_tree w1) f"
      using retire_one_runs [OF f Cons.prems(2) go(1)] by auto
    then have root: "real_dir (dk_tree w1) root" "dk_tree w1 root = Some Directory"
      using keeps_real [OF Cons.prems(2,3)] below by auto
    have ih: "keeps_but (re_path ` set files) (dk_tree w1) (dk_tree w')" "r = Inr () \<Longrightarrow> list_all (retired (dk_tree w')) files"
      using Cons.IH [OF _ root go(2)] Cons.prems(1,5,6) by auto
    have "keeps_but ?P (dk_tree w) (dk_tree w')" using keeps_trans [OF 1(1) ih(1), of ?P] by auto
    moreover have "retired (dk_tree w') f"
    proof (cases "files = []")
      case True
      then show ?thesis using go(2) 1(2) by (simp add: io_ret_def)
    next
      case False
      then obtain s where s: "re_replacement f = Some s" using Cons.prems(5) by (cases files) auto
      then have "dk_tree w1 (re_path f) \<noteq> None" using 1(2) by (auto simp: retired_def split: option.splits)
      then have "dk_tree w' (re_path f) = dk_tree w1 (re_path f)" using ih(1) Cons.prems(6) by (auto simp: keeps_but_def)
      then show ?thesis using 1(2) by (simp add: retired_def)
    qed
    ultimately show ?thesis using ih(2) by simp
  qed
qed

lemma match_indices_at:
  "j \<in> set (match_indices p i s) \<Longrightarrow> i \<le> j \<and> starts_with (drop (j - i) s) p"
proof (induction p i s rule: match_indices.induct)
  case (1 p i s)
  have mem: "j \<in> set (if p = [] \<or> s = [] then [] else if starts_with s p then i # match_indices p (i + length p) (drop (length p) s)
      else match_indices p (i + 1) (drop 1 s))" using "1.prems" by (subst (asm) match_indices.simps)
  show ?case
  proof (cases "p = [] \<or> s = []")
    case False
    show ?thesis
    proof (cases "starts_with s p")
      case True
      then have "j = i \<or> j \<in> set (match_indices p (i + length p) (drop (length p) s))" using mem False by simp
      then show ?thesis
      proof
        assume "j \<in> set (match_indices p (i + length p) (drop (length p) s))"
        from "1.IH"(1) [OF False True this] have j: "i + length p \<le> j"
          and at_j: "starts_with (drop (j - (i + length p)) (drop (length p) s)) p" by blast+
        from j have "j - (i + length p) + length p = j - i" by simp
        then show ?thesis using j at_j by (metis add_leD1 drop_drop)
      qed (use True in simp)
    next
      case no: False
      then have "j \<in> set (match_indices p (i + 1) (drop 1 s))" using mem False by simp
      from "1.IH"(2) [OF False no this] have j: "i + 1 \<le> j" and at_j: "starts_with (drop (j - (i + 1)) (drop 1 s)) p" by blast+
      from j have "j - (i + 1) + 1 = j - i" by simp
      then show ?thesis using j at_j by (metis add.commute add_leD1 drop_drop)
    qed
  qed (use mem in simp)
qed

lemma legacy_section_cut:
  assumes "remove_exact_legacy_section legacy original = Some s"
  shows "\<exists>a b. original = a @ legacy @ b \<and> s = a @ b"
proof -
  obtain i where i: "i \<in> set (match_indices legacy 0 original)"
    "s = take i original @ drop (i + length legacy) original"
    using assms by (auto simp: remove_exact_legacy_section_def filter_eq_Cons_iff split: if_splits list.splits)
  have "starts_with (drop i original) legacy" using match_indices_at [OF i(1)] by simp
  then obtain b where b: "drop i original = legacy @ b" by (auto simp: starts_with_iff)
  then have "original = take i original @ legacy @ b" by (metis append_take_drop_id)
  moreover have "drop (i + length legacy) original = b" using b by (metis add.commute append_eq_conv_conj drop_drop)
  ultimately show ?thesis using i(2) by blast
qed

lemma backup_names:
  "backup_path (root @ [CONTRACT_PATH]) = root @ [''CLAUDE.md.bak'']"
  "backup_path (root @ AGENTS_DIR @ [''tech-lead.md'']) = root @ AGENTS_DIR @ [''tech-lead.md.bak'']"
  by (simp_all add: backup_path_def CONTRACT_PATH_def AGENTS_DIR_def split_extension_def butlast_append)

definition contract_file :: "path \<Rightarrow> string \<Rightarrow> string \<Rightarrow> retirement_file" where
  "contract_file root original s =
     \<lparr>re_path = root @ [CONTRACT_PATH], re_backup = root @ [''CLAUDE.md.bak''], re_original = original, re_replacement = Some s\<rparr>"

definition agent_file :: "path \<Rightarrow> string \<Rightarrow> retirement_file" where
  "agent_file root original =
     \<lparr>re_path = root @ AGENTS_DIR @ [''tech-lead.md''], re_backup = root @ AGENTS_DIR @ [''tech-lead.md.bak''],
      re_original = original, re_replacement = None\<rparr>"

lemma planned_retirement:
  assumes "plan_legacy_orchestration_retirement lt fs cwd text = Inr pr"
  shows "\<exists>cs as. rt_files pr = cs @ as \<and>
    (cs = [] \<or> (\<exists>original s. cs = [contract_file (rt_root pr) original s] \<and>
      remove_exact_legacy_section (lt_section lt) original = Some s)) \<and>
    (as = [] \<or> as = [agent_file (rt_root pr) (lt_agent lt)])"
proof -
  obtain cs as where c: "retire_contract lt fs (rt_root pr) = Inr cs" and a: "retire_agent lt fs (rt_root pr) = Inr as"
    and pr: "rt_files pr = cs @ as"
    using assms unfolding plan_legacy_orchestration_retirement_def and_also_Inr by auto
  have "cs = [] \<or> (\<exists>original s. cs = [contract_file (rt_root pr) original s] \<and>
      remove_exact_legacy_section (lt_section lt) original = Some s)"
    using c unfolding retire_contract_def Let_def and_also_Inr backup_names
    by (auto simp: contract_file_def and_also_Inr Option.bind_eq_Some_conv split: option.splits)
  moreover have "as = [] \<or> as = [agent_file (rt_root pr) (lt_agent lt)]"
    using a unfolding retire_agent_def Let_def and_also_Inr backup_names
    by (auto simp: agent_file_def and_also_Inr split: if_splits)
  ultimately show ?thesis using pr by blast
qed

lemma planned_names: "retirable root (contract_file root original s)" "retirable root (agent_file root a)"
  by (auto simp: retirable_def contract_file_def agent_file_def butlast_append is_prefix_iff CONTRACT_PATH_def AGENTS_DIR_def)


lemma io_bind_ret [simp]: "io_bind (io_ret x) f = f x"
  by (rule ext) (simp add: io_bind_def io_ret_def)

lemma retirement_runs:
  assumes names: "list_all (retirable (rt_root pr)) (rt_files pr)"
    and order: "sorted_wrt (\<lambda>f g. re_replacement f \<noteq> None) (rt_files pr)" "distinct (map re_path (rt_files pr))"
    and apart: "list_all (\<lambda>f. re_backup f \<notin> re_path ` set (rt_files pr)) (rt_files pr)"
    and root: "real_dir (dk_tree w) (rt_root pr)"
    and run: "apply_legacy_orchestration_retirement pid pr w = (r, w')"
  shows "keeps_but (re_path ` set (rt_files pr)) (dk_tree w) (dk_tree w') \<and>
    list_all (\<lambda>f. dk_tree w' (re_path f) = dk_tree w (re_path f) \<or> backed_up (dk_tree w') f) (rt_files pr) \<and>
    (r = Inr () \<longrightarrow> list_all (\<lambda>f. retired (dk_tree w') f \<and> backed_up (dk_tree w') f) (rt_files pr))"
proof -
  let ?files = "rt_files pr" and ?check = "\<lambda>stage. io_each (\<lambda>f. io_read (still_original (rt_root pr) stage f)) (rt_files pr)"
  let ?P = "re_path ` set ?files"
  have wf: "wf_tree (dk_tree w)" using root by (simp add: real_dir_def)
  from run have "io_bind (?check ''after preflight'') (\<lambda>_. io_bind (io_each stage_backup ?files) (\<lambda>_.
     io_bind (?check ''after backup staging'') (\<lambda>_. io_each (retire_one pid (rt_root pr)) ?files))) w = (r, w')"
    unfolding apply_legacy_orchestration_retirement_def apply_retirement_with_hooks_def by simp
  then show ?thesis
  proof (cases rule: io_bind_cases)
    case (stop e)
    then show ?thesis using io_each_reads [OF stop(1)] wf by (simp add: keeps_refl list_all_iff)
  next
    case (go u w0)
    then have w0: "w0 = w" and ok: "list_all (\<lambda>f. still_original (rt_root pr) ''after preflight'' f (dk_tree w) = Inr ()) ?files"
      using io_each_reads [OF go(1)] by auto
    have placed: "list_all (in_place (rt_root pr) (dk_tree w)) ?files"
      using ok names still_original_found [OF root] unfolding list_all_iff in_place_def by blast
    have there: "dk_tree w (re_path f) \<noteq> None" if "f \<in> set ?files" for f
      using ok names still_original_found [OF root] that unfolding list_all_iff by (metis option.distinct(1))
    show ?thesis
    proof (cases "?files = []")
      case True
      then show ?thesis using go(2) w0 wf by (simp add: io_bind_def io_ret_def keeps_refl)
    next
      case False
      then obtain f where "f \<in> set ?files" by fastforce
      then have "is_prefix (rt_root pr) (butlast (re_path f))" "dk_tree w (butlast (re_path f)) = Some Directory"
        using placed by (auto simp: list_all_iff in_place_def retirable_def)
      then have here: "dk_tree w (rt_root pr) = Some Directory"
        using wf_tree_above [OF wf, of "rt_root pr"] by (auto simp: is_prefix_iff) (metis append_Nil2 option.distinct(1))
      from go(2) [unfolded w0] show ?thesis
      proof (cases rule: io_bind_cases)
        case (stop e)
        note s = stage_all [OF placed stop(1) wf]
        then have "dk_tree w' (re_path f) = dk_tree w (re_path f)" if "f \<in> set ?files" for f
          using there [OF that] unfolding keeps_but_def by blast
        then show ?thesis using s stop(2) unfolding keeps_but_def list_all_iff by simp
      next
        case (go v w1)
        have s: "keeps_but {} (dk_tree w) (dk_tree w1)" "list_all (backed_up (dk_tree w1)) ?files"
          using stage_all [OF placed go(1) wf] by auto
        then have same: "dk_tree w1 (re_path f) = dk_tree w (re_path f)" if "f \<in> set ?files" for f
          using there [OF that] unfolding keeps_but_def by blast
        from go(2) show ?thesis
        proof (cases rule: io_bind_cases)
          case (stop e)
          then have "w' = w1" using io_each_reads by blast
          then show ?thesis using s same stop(2) unfolding keeps_but_def list_all_iff by simp
        next
          case (go x w2)
          then have w2: "w2 = w1" using io_each_reads by blast
          have root1: "real_dir (dk_tree w1) (rt_root pr)" "dk_tree w1 (rt_root pr) = Some Directory"
            using keeps_real [OF root here s(1)] by auto
          have m: "keeps_but ?P (dk_tree w1) (dk_tree w')" "r = Inr () \<Longrightarrow> list_all (retired (dk_tree w')) ?files"
            using mutate_all [OF names root1 go(2) [unfolded w2] order] by auto
          have "list_all (backed_up (dk_tree w')) ?files"
            using s(2) apart backed_up_keeps [OF _ m(1)] unfolding list_all_iff by blast
          then show ?thesis using keeps_trans [OF s(1) m(1), of ?P] m(2) unfolding list_all_iff by simp
        qed
      qed
    qed
  qed
qed

text \<open>
  C19 (retirement_keeps_originals): retiring the assets that a plan lists, whatever fails on the way and
  however the tree changed since the plan was made, as long as the root is still reached without links:
  nothing else that exists changes; an asset either stays as it was or a copy of its planned text
  stands beside it; a contract loses exactly one occurrence of the retired section and an agent file
  goes only if it is the retired agent byte for byte; and a run that succeeds has done all of it.
\<close>

theorem retirement_keeps_originals:
  assumes "plan_legacy_orchestration_retirement lt fs cwd text = Inr pr" "real_dir (dk_tree w) (rt_root pr)"
    "apply_legacy_orchestration_retirement pid pr w = (r, w')"
  shows "(\<forall>q. dk_tree w q \<noteq> None \<longrightarrow> q \<notin> re_path ` set (rt_files pr) \<longrightarrow> dk_tree w' q = dk_tree w q) \<and>
    list_all (\<lambda>f. dk_tree w' (re_path f) = dk_tree w (re_path f) \<or> backed_up (dk_tree w') f) (rt_files pr) \<and>
    list_all (\<lambda>f. case re_replacement f of
        Some s \<Rightarrow> \<exists>a b. re_original f = a @ lt_section lt @ b \<and> s = a @ b
      | None \<Rightarrow> re_original f = lt_agent lt) (rt_files pr) \<and>
    (r = Inr () \<longrightarrow> list_all (\<lambda>f. retired (dk_tree w') f \<and> backed_up (dk_tree w') f) (rt_files pr))"
proof -
  let ?root = "rt_root pr" and ?P = "re_path ` set (rt_files pr)"
  obtain cs as where files: "rt_files pr = cs @ as" and cs: "cs = [] \<or> (\<exists>original s. cs = [contract_file ?root original s] \<and>
      remove_exact_legacy_section (lt_section lt) original = Some s)" and as: "as = [] \<or> as = [agent_file ?root (lt_agent lt)]"
    using planned_retirement [OF assms(1)] by blast
  have content: "list_all (\<lambda>f. case re_replacement f of
        Some s \<Rightarrow> \<exists>a b. re_original f = a @ lt_section lt @ b \<and> s = a @ b
      | None \<Rightarrow> re_original f = lt_agent lt) (rt_files pr)"
    using files cs as legacy_section_cut by (auto simp: contract_file_def agent_file_def)
  have names: "list_all (retirable ?root) (rt_files pr)" using files cs as planned_names by auto
  have order: "sorted_wrt (\<lambda>f g. re_replacement f \<noteq> None) (rt_files pr)" "distinct (map re_path (rt_files pr))"
    and apart: "list_all (\<lambda>f. re_backup f \<notin> ?P) (rt_files pr)"
    using files cs as by (auto simp: contract_file_def agent_file_def CONTRACT_PATH_def AGENTS_DIR_def)
  have "keeps_but ?P (dk_tree w) (dk_tree w') \<and>
    list_all (\<lambda>f. dk_tree w' (re_path f) = dk_tree w (re_path f) \<or> backed_up (dk_tree w') f) (rt_files pr) \<and>
    (r = Inr () \<longrightarrow> list_all (\<lambda>f. retired (dk_tree w') f \<and> backed_up (dk_tree w') f) (rt_files pr))"
    using retirement_runs [OF names order apart assms(2,3)] .
  then show ?thesis using content by (simp add: keeps_but_def)
qed

definition sample_legacy :: legacy_texts where
  "sample_legacy = \<lparr>lt_section = ''## 11. Teams'', lt_agent = ''lead''\<rparr>"

definition sample_project :: disk where
  "sample_project = \<lparr>dk_tree = map_of [([], Directory), ([''p''], Directory),
     ([''p'', ''CLAUDE.md''], Regular (''# P'' @ [NL] @ ''## 11. Teams'') 420)], dk_fates = [Works, Works, Works, Works, Works],
     dk_mode = 420, dk_sequence = 0\<rparr>"

definition sample_retirement :: retirement_plan where
  "sample_retirement = \<lparr>rt_actions = [RemoveContractSection [''p'', ''CLAUDE.md''] [''p'', ''CLAUDE.md.bak'']], rt_root = [''p''],
     rt_files = [\<lparr>re_path = [''p'', ''CLAUDE.md''], re_backup = [''p'', ''CLAUDE.md.bak''],
       re_original = ''# P'' @ [NL] @ ''## 11. Teams'', re_replacement = Some (''# P'' @ [NL])\<rparr>]\<rparr>"

lemma sample_retirement_planned:
  "plan_legacy_orchestration_retirement sample_legacy (dk_tree sample_project) (Inr []) ''/p'' = Inr sample_retirement"
  by code_simp

lemma sample_project_real: "real_dir (dk_tree sample_project) (rt_root sample_retirement)"
  by (auto simp: real_dir_def wf_tree_def linkfree_def is_link_def sample_project_def sample_retirement_def split: if_splits option.splits)

lemma sample_retirement_applied: "fst (apply_legacy_orchestration_retirement 7 sample_retirement sample_project) = Inr ()"
  by code_simp

theorem retirement_keeps_originals_witness:
  "list_all (\<lambda>f. retired (dk_tree (snd (apply_legacy_orchestration_retirement 7 sample_retirement sample_project))) f \<and>
    backed_up (dk_tree (snd (apply_legacy_orchestration_retirement 7 sample_retirement sample_project))) f) (rt_files sample_retirement)"
  using retirement_keeps_originals [OF sample_retirement_planned sample_project_real, of 7 "Inr ()"
      "snd (apply_legacy_orchestration_retirement 7 sample_retirement sample_project)"]
    sample_retirement_applied by (simp add: prod_eq_iff)

text \<open>
  The check before an asset is touched accepts a copy that is not there: when the copies are removed
  after they were staged, the run still succeeds and the text is gone.
\<close>

lemma vanished_backup_accepted:
  "(case apply_retirement_with_hooks 7 sample_retirement (io_ret ())
      (io_sys io_error (remove_file [''p'', ''CLAUDE.md.bak''])) sample_project of
     (r, w') \<Rightarrow> r = Inr () \<and> dk_tree w' [''p'', ''CLAUDE.md''] \<noteq> dk_tree sample_project [''p'', ''CLAUDE.md''] \<and>
       dk_tree w' [''p'', ''CLAUDE.md.bak''] = None)"
  by code_simp

section \<open>The headings of a text\<close>

definition heads :: "string \<Rightarrow> (nat \<times> string) list" where
  "heads text = List.map_filter parse_section_heading (split_inclusive text)"

lemma trim_end_newline [simp]: "trim_end (s @ [NL]) = trim_end s"
proof -
  have "ws_len_rev (NL # rev s) = 1" by (simp add: ws_len_rev_def ascii_ws_def)
  then have "trim_rev (NL # rev s) = trim_rev (rev s)" by (subst trim_rev.simps) simp
  then show ?thesis by (simp add: trim_end_def)
qed

lemma heading_newline [simp]: "parse_section_heading (l @ [NL]) = parse_section_heading l"
  by (simp add: parse_section_heading_def)

lemma no_heading [simp]: "parse_section_heading [] = None" "parse_section_heading [NL] = None"
  by code_simp+

lemma split_inclusive_line: "NL \<notin> set l \<Longrightarrow> split_inclusive (l @ NL # s) = (l @ [NL]) # split_inclusive s"
  by (induction l) auto

lemma split_inclusive_last: "NL \<notin> set l \<Longrightarrow> l \<noteq> [] \<Longrightarrow> split_inclusive l = [l]"
proof (induction l)
  case (Cons c l)
  then show ?case by (cases "l = []") auto
qed simp

definition heading :: "string \<Rightarrow> (nat \<times> string) list" where
  "heading l = (case parse_section_heading l of None \<Rightarrow> [] | Some h \<Rightarrow> [h])"

lemma heads_line:
  assumes "NL \<notin> set l"
  shows "heads (l @ NL # s) = heading l @ heads s" "heads l = heading l"
  using assms split_inclusive_last [of l]
  by (cases "l = []"; simp add: heads_def heading_def split_inclusive_line List.map_filter_simps split: option.splits)+

lemma heads_append: "heads (a @ NL # b) = heads a @ heads b"
proof (induction "length a" arbitrary: a rule: less_induct)
  case less
  show ?case
  proof (cases "NL \<in> set a")
    case False
    then show ?thesis using heads_line by simp
  next
    case True
    then obtain l a' where l: "a = l @ NL # a'" "NL \<notin> set l" by (meson split_list_first)
    then show ?thesis using less [of a'] heads_line(1) [OF l(2), of a'] heads_line(1) [OF l(2), of "a' @ NL # b"] by simp
  qed
qed

lemma heads_Nil [simp]: "heads [] = []"
  by (simp add: heads_def List.map_filter_simps)

text \<open>A section starts with its heading.\<close>

fun lines_ok :: "string list \<Rightarrow> bool" where
  "lines_ok [] = True"
| "lines_ok (l # ls) = ((\<exists>k. NL \<notin> set k \<and> (l = k @ [NL] \<or> l = k \<and> ls = [])) \<and> lines_ok ls)"

lemma split_inclusive_lines: "lines_ok (split_inclusive s) \<and> concat (split_inclusive s) = s"
proof (induction "length s" arbitrary: s rule: less_induct)
  case less
  show ?case
  proof (cases "NL \<in> set s")
    case False
    then show ?thesis using split_inclusive_last [of s] by (cases "s = []") auto
  next
    case True
    then obtain l s' where l: "s = l @ NL # s'" "NL \<notin> set l" by (meson split_list_first)
    then show ?thesis using less [of s'] split_inclusive_line [OF l(2)] by auto
  qed
qed

lemma heading_at_least: "(i, h) \<in> set (headings_from off ls) \<Longrightarrow> off \<le> i"
  by (induction off ls rule: headings_from.induct) (fastforce split: option.splits prod.splits)+

lemma cut_content:
  assumes "s \<in> set (cut_sections text (headings_from off ls))" "lines_ok ls" "text = pre @ concat ls" "length pre = off"
  shows "\<exists>k l z. NL \<notin> set k \<and> (l = k @ [NL] \<or> l = k \<and> z = []) \<and>
    parse_section_heading l = Some (ps_number s, ps_title s) \<and> ps_content s = trim_end (l @ z)"
  using assms
proof (induction off ls arbitrary: pre rule: headings_from.induct)
  case (2 off l ls)
  have rest: "text = (pre @ l) @ concat ls" "length (pre @ l) = off + length l" "lines_ok ls" using "2.prems"(2-4) by simp_all
  show ?case
  proof (cases "parse_section_heading l")
    case None
    then show ?thesis using "2.IH"(1) [OF None _ rest(3,1,2)] "2.prems"(1) by simp
  next
    case (Some h)
    obtain n t where h: "h = (n, t)" by fastforce
    let ?hs = "headings_from (off + length l) ls"
    let ?stop = "case ?hs of [] \<Rightarrow> length text | (next, _, _) # _ \<Rightarrow> next"
    have "s = \<lparr>ps_number = n, ps_title = t, ps_content = trim_end (take (?stop - off) (drop off text))\<rparr> \<or> s \<in> set (cut_sections text ?hs)"
      using "2.prems"(1) Some h by simp
    then show ?thesis
    proof
      assume s: "s = \<lparr>ps_number = n, ps_title = t, ps_content = trim_end (take (?stop - off) (drop off text))\<rparr>"
      have "off + length l \<le> ?stop"
      proof (cases ?hs)
        case Nil
        then show ?thesis using rest(1) "2.prems"(4) by simp
      next
        case (Cons x hs)
        then show ?thesis using heading_at_least [of "fst x" "snd x" "off + length l" ls] by (cases x) simp
      qed
      moreover have "drop off text = l @ concat ls" using "2.prems"(3,4) by simp
      ultimately have slice: "take (?stop - off) (drop off text) = l @ take (?stop - off - length l) (concat ls)" by simp
      from "2.prems"(2) obtain k where "NL \<notin> set k" "l = k @ [NL] \<or> l = k \<and> ls = []" by auto
      then show ?thesis using s slice Some h by (intro exI [of _ k] exI [of _ l] exI [of _ "take (?stop - off - length l) (concat ls)"]) auto
    next
      assume "s \<in> set (cut_sections text ?hs)"
      then show ?thesis using "2.IH"(2) [OF Some h [symmetric] _ rest(3,1,2)] by simp
    qed
  qed
qed simp

lemma no_ws_newline: "\<not> ws2 NL c" "\<not> ws3 a NL c" "\<not> ws3 NL b c"
  by (simp_all add: ws2_def ws3_def)

lemma ws_len_rev_line: "x \<noteq> [] \<Longrightarrow> ws_len_rev (x @ NL # y) = ws_len_rev x"
  by (cases x; cases "List.tl x"; cases "List.tl (List.tl x)"; cases y) (simp_all add: ws_len_rev_def no_ws_newline)

lemma trim_rev_line: "trim_rev (x @ NL # y) = (if trim_rev x = [] then trim_rev y else trim_rev x @ NL # y)"
proof (induction x rule: trim_rev.induct)
  case (1 x)
  show ?case
  proof (cases "x = []")
    case True
    have "ws_len_rev (NL # y) = 1" by (simp add: ws_len_rev_def ascii_ws_def)
    then have "trim_rev (NL # y) = trim_rev y" by (subst trim_rev.simps) simp
    moreover have "trim_rev [] = []" by (simp add: trim_rev_fix ws_len_rev_def)
    ultimately show ?thesis using True by simp
  next
    case False
    note len = ws_len_rev_line [OF False, of y]
    show ?thesis
    proof (cases "ws_len_rev x = 0")
      case True
      then show ?thesis using len False by (simp add: trim_rev_fix)
    next
      case pos: False
      have "trim_rev (x @ NL # y) = trim_rev (drop (ws_len_rev x) x @ NL # y)"
        using len pos ws_len_rev_le [of x] by (subst trim_rev.simps) simp
      moreover have "trim_rev x = trim_rev (drop (ws_len_rev x) x)" using pos by (subst trim_rev.simps) simp
      ultimately show ?thesis using "1.IH" [OF pos] by simp
    qed
  qed
qed

lemma trim_end_line: "trim_end (k @ NL # z) = (if trim_end z = [] then trim_end k else k @ NL # trim_end z)"
  by (simp add: trim_end_def trim_rev_line)

lemma trim_end_idem [simp]: "trim_end (trim_end s) = trim_end s"
  by (simp add: trim_end_def trim_rev_fix)

lemma trim_end_no_newline: "NL \<notin> set k \<Longrightarrow> NL \<notin> set (trim_end k)"
  using trim_end_prefix [of k] by (auto dest: in_set_takeD)

lemma heading_trim [simp]: "parse_section_heading (trim_end l) = parse_section_heading l"
  by (simp add: parse_section_heading_def)

lemma section_heads:
  assumes "s \<in> set (parse_sections text)"
  shows "(ps_number s, ps_title s) \<in> set (heads (trim_end (ps_content s)))"
proof -
  obtain k l z where k: "NL \<notin> set k" "l = k @ [NL] \<or> l = k \<and> z = []"
    and h: "parse_section_heading l = Some (ps_number s, ps_title s)" "ps_content s = trim_end (l @ z)"
    using cut_content [of s "text" 0 "split_inclusive text" "[]"] assms split_inclusive_lines [of "text"]
    by (auto simp: parse_sections_def)
  have kh: "parse_section_heading k = Some (ps_number s, ps_title s)" using h(1) k(2) by auto
  have alone: "(ps_number s, ps_title s) \<in> set (heads (trim_end k))"
    using heads_line(2) [OF trim_end_no_newline [OF k(1)]] kh by (simp add: heading_def)
  show ?thesis
  proof (cases "l = k")
    case True
    then show ?thesis using k h alone by auto
  next
    case False
    then have "ps_content s = trim_end (k @ NL # z)" using k(2) h(2) by simp
    then show ?thesis using alone heads_line(1) [OF k(1), of "trim_end z"] kh by (auto simp: trim_end_line heading_def)
  qed
qed

lemma cut_heads: "map (\<lambda>s. (ps_number s, ps_title s)) (cut_sections text hs) = map snd hs"
  by (induction "text" hs rule: cut_sections.induct) (simp_all add: Let_def)

lemma headings_heads: "map snd (headings_from off ls) = List.map_filter parse_section_heading ls"
  by (induction off ls rule: headings_from.induct) (auto simp: List.map_filter_simps split: option.splits)

lemma parse_heads: "map (\<lambda>s. (ps_number s, ps_title s)) (parse_sections text) = heads text"
  by (simp add: parse_sections_def cut_heads headings_heads heads_def)

text \<open>The appended text holds the headings of the sections it is made of.\<close>

lemma append_heads:
  "s \<in> set ss \<Longrightarrow> set (heads (trim_end (ps_content s))) \<subseteq> set (heads (append_text ss))"
proof (induction ss rule: rev_induct)
  case (snoc t ss)
  have "append_text (ss @ [t]) = (if append_text ss = [] then [] else append_text ss @ [NL]) @ trim_end (ps_content t) @ [NL]"
    by (simp add: append_text_def)
  then have "heads (append_text (ss @ [t])) = heads (append_text ss) @ heads (trim_end (ps_content t))"
    using heads_append [of "append_text ss" "trim_end (ps_content t) @ [NL]"] heads_append [of "trim_end (ps_content t)" "[]"] by simp
  then show ?case using snoc by auto
qed simp

section \<open>A repair adds what is missing\<close>

lemma create_dir_all_adds:
  assumes "real_dir (dk_tree w) (rev up)" "create_dir_all up w = (r, w')"
  shows "adds_dirs (rev up) (dk_tree w) (dk_tree w') \<and> (dk_tree w (rev up) = Some Directory \<longrightarrow> dk_tree w' = dk_tree w)"
  using assms
proof (induction up arbitrary: w r w')
  case Nil
  then show ?case by (simp add: io_ret_def adds_dirs_refl real_dir_def)
next
  case (Cons x up)
  have x: "x \<noteq> ''..''" and up: "real_dir (dk_tree w) (rev up)"
    using Cons.prems(1) by (auto simp: real_dir_def dest: linkfree_above)
  have one: "adds_dirs (rev (x # up)) (dk_tree v) (dk_tree v') \<and> (dk_tree v (rev (x # up)) = Some Directory \<longrightarrow> dk_tree v' = dk_tree v)"
    if "create_dir (rev (x # up)) v = (q, v')" "real_dir (dk_tree v) (rev up)" for v q v'
    using that(1) [unfolded create_dir_def]
  proof (cases rule: sys_op_cases)
    case (success y)
    have "entry_place (dk_tree v) (rev (x # up)) = (if dk_tree v (rev up) = Some Directory then Some (rev (x # up)) else None)"
      using real_dir_entry(1) [OF that(2) x] by simp
    then have "dk_tree v (rev up) = Some Directory" "dk_tree v (rev (x # up)) = None" "dk_tree v' = (dk_tree v)(rev (x # up) \<mapsto> Directory)"
      using success by (auto simp: add_entry_def split: if_splits)
    then show ?thesis using wf_tree_add [of "dk_tree v" "rev up" x "Some Directory"] that(2)
      by (simp add: adds_dirs_def real_dir_def is_prefix_iff)
  qed (use that(2) in \<open>auto simp: adds_dirs_refl real_dir_def\<close>)
  obtain q v where v: "create_dir (rev (x # up)) w = (q, v)" by fastforce
  show ?case
  proof (cases "q = Inl Not_found")
    case False
    then have "w' = v" using Cons.prems(2) v by (auto simp: Let_def split: sum.splits if_splits sys_error.splits)
    then show ?thesis using one [OF v up] by simp
  next
    case True
    have unchanged: "dk_tree v = dk_tree w"
      using v [unfolded create_dir_def] by (cases rule: sys_op_cases) (use True in auto)
    have nodir: "dk_tree w (rev (x # up)) \<noteq> Some Directory"
    proof
      assume "dk_tree w (rev (x # up)) = Some Directory"
      then have "dk_tree w (rev up) = Some Directory" using butlast_dir [of "dk_tree w" "rev (x # up)"] up by (simp add: real_dir_def)
      then have "entry_place (dk_tree w) (rev (x # up)) = Some (rev (x # up))" using real_dir_entry(1) [OF up x] by simp
      then show False using v True
        by (auto simp: create_dir_def sys_op_def add_entry_def Let_def split: list.splits disk_fate.splits if_splits)
    qed
    obtain q1 v1 where v1: "create_dir_all up v = (q1, v1)" by fastforce
    have a1: "adds_dirs (rev up) (dk_tree w) (dk_tree v1)" using Cons.IH [OF _ v1] up unchanged by simp
    then have more: "adds_dirs (rev (x # up)) (dk_tree w) (dk_tree v1)" by (auto simp: adds_dirs_def is_prefix_iff)
    show ?thesis
    proof (cases q1)
      case (Inl e)
      then have "w' = v1" using Cons.prems(2) v True v1 by (simp add: Let_def io_bind_def)
      then show ?thesis using more nodir by simp
    next
      case (Inr z)
      obtain q2 v2 where v2: "create_dir (rev (x # up)) v1 = (q2, v2)" by fastforce
      have "real_dir (dk_tree v1) (rev up)" using a1 up adds_dirs_linkfree [OF a1] by (auto simp: real_dir_def adds_dirs_def)
      then have "adds_dirs (rev (x # up)) (dk_tree v1) (dk_tree v2)" using one [OF v2] by simp
      moreover have "w' = v2" using Cons.prems(2) v True v1 v2 Inr
        by (auto simp: Let_def io_bind_def split: sum.splits if_splits)
      ultimately show ?thesis using adds_dirs_trans [OF more] nodir by simp
    qed
  qed
qed

text \<open>New entries only, and no link among them.\<close>

definition grows :: "tree \<Rightarrow> tree \<Rightarrow> bool" where
  "grows fs fs' \<longleftrightarrow> keeps_but {} fs fs' \<and> (\<forall>q. is_link (fs' q) \<longrightarrow> is_link (fs q))"

lemma grows_refl: "wf_tree fs \<Longrightarrow> grows fs fs"
  by (simp add: grows_def keeps_refl)

lemma grows_trans: "grows a b \<Longrightarrow> grows b c \<Longrightarrow> grows a c"
  using keeps_trans [of "{}" a b "{}" c "{}"] by (auto simp: grows_def)

lemma grows_real: "grows fs fs' \<Longrightarrow> real_dir fs p \<Longrightarrow> real_dir fs' p"
  by (auto simp: grows_def real_dir_def linkfree_def keeps_but_def)

lemma adds_dirs_grows: "adds_dirs p fs fs' \<Longrightarrow> grows fs fs'"
proof -
  assume a: "adds_dirs p fs fs'"
  have new: "fs q = None \<and> fs' q = Some Directory" if "fs' q \<noteq> fs q" for q using that a unfolding adds_dirs_def by blast
  have "fs' q = fs q" if "fs q \<noteq> None" for q using new [of q] that by auto
  moreover have "is_link (fs q)" if "is_link (fs' q)" for q
    using new [of q] that by (cases "fs' q = fs q") (auto simp: is_link_def)
  ultimately show ?thesis using a by (simp add: grows_def keeps_but_def adds_dirs_def)
qed

lemma write_path_runs:
  assumes p: "real_dir fs (d @ [x])" "fs (d @ [x]) = None" and tree: "dk_tree w = fs" and run: "write_path (d @ [x]) content w = (r, w')"
  shows "grows fs (dk_tree w') \<and> (r = Inr () \<longrightarrow> (\<exists>m. dk_tree w' (d @ [x]) = Some (Regular content m)))"
proof -
  have wf: "wf_tree fs" using p(1) by (simp add: real_dir_def)
  have place: "place fs (d @ [x]) = (if fs d = Some Directory then Some (d @ [x]) else None)"
    using place_linkfree [of fs "d @ [x]"] p(1) by (simp add: real_dir_def)
  have new: "grows fs (fs(d @ [x] \<mapsto> Regular c m))" if "fs d = Some Directory" for c m
    using wf_tree_add [OF wf that, of x] p(2) by (simp add: grows_def keeps_but_def is_link_def)
  from run [unfolded write_path_def] show ?thesis
  proof (cases rule: sys_op_cases)
    case (failed n e)
    then show ?thesis using tree place new p(2) grows_refl [OF wf] by (auto simp: set_content_def is_directory_def split: if_splits)
  next
    case (refused e)
    then show ?thesis using tree grows_refl [OF wf] by simp
  next
    case (success y)
    then have "fs d = Some Directory" "dk_tree w' = fs(d @ [x] \<mapsto> Regular content (dk_mode w))"
      using tree place p(2) by (auto simp: set_content_def is_directory_def split: if_splits)
    then show ?thesis using new by simp
  qed
qed

definition agent_open :: "tree \<Rightarrow> path \<Rightarrow> path \<times> string \<Rightarrow> bool" where
  "agent_open fs root = (\<lambda>(p, content). p \<noteq> [] \<and> real_dir fs (root @ p))"

lemma install_agent_runs:
  assumes a: "agent_open (dk_tree w) root (p, content)" and run: "install_agent root (p, content) w = (r, w')"
  shows "grows (dk_tree w) (dk_tree w') \<and> (r = Inr () \<longrightarrow> dk_tree w' (root @ p) \<noteq> None)"
proof -
  have real: "real_dir (dk_tree w) (root @ p)" using a by (simp add: agent_open_def)
  have wf: "wf_tree (dk_tree w)" using real by (simp add: real_dir_def)
  have "root @ p \<noteq> []" using a by (simp add: agent_open_def)
  then obtain d x where dx: "root @ p = d @ [x]" by (metis rev_exhaust)
  have d: "real_dir (dk_tree w) d" using real unfolding dx by (auto simp: real_dir_def dest: linkfree_above)
  have present: "exists_at (dk_tree w) (root @ p) \<longleftrightarrow> dk_tree w (root @ p) \<noteq> None"
    using stat_linkfree(1) [of "dk_tree w" "root @ p"] real by (simp add: exists_at_def real_dir_def)
  show ?thesis
  proof (cases "dk_tree w (root @ p) = None")
    case False
    then show ?thesis using run present grows_refl [OF wf] by (auto simp: install_agent_def io_bind_def io_read_def io_ret_def)
  next
    case True
    then have "io_bind (create_dir_all (rev d)) (\<lambda>_. io_sys io_error (write_path (d @ [x]) content)) w = (r, w')"
      using run present dx by (simp add: install_agent_def io_bind_def io_read_def)
    then show ?thesis
    proof (cases rule: io_bind_cases)
      case (stop e)
      then show ?thesis using create_dir_all_adds [of w "rev d"] d adds_dirs_grows by auto
    next
      case (go u w1)
      have a1: "adds_dirs d (dk_tree w) (dk_tree w1)" using create_dir_all_adds [of w "rev d"] d go(1) by simp
      have g1: "grows (dk_tree w) (dk_tree w1)" by (rule adds_dirs_grows [OF a1])
      have "dk_tree w1 (d @ [x]) = None"
        using a1 True unfolding dx adds_dirs_def by (metis (no_types, lifting) append_Nil2 append_assoc is_prefix_iff not_Cons_self2 same_append_eq append_is_Nil_conv)
      moreover have "real_dir (dk_tree w1) (d @ [x])" using grows_real [OF g1 real] dx by simp
      moreover obtain r1 where "write_path (d @ [x]) content w1 = (r1, w')" "r = Inr () \<longleftrightarrow> r1 = Inr ()" using io_sys_runs [OF go(2)] by blast
      ultimately show ?thesis using write_path_runs [of "dk_tree w1" d x w1 content r1 w'] grows_trans [OF g1] dx by auto
    qed
  qed
qed

lemma install_all:
  assumes "list_all (agent_open (dk_tree w) root) as" "io_each (install_agent root) as w = (r, w')" "wf_tree (dk_tree w)"
  shows "grows (dk_tree w) (dk_tree w') \<and> (r = Inr () \<longrightarrow> list_all (\<lambda>(p, _). dk_tree w' (root @ p) \<noteq> None) as)"
  using assms
proof (induction as arbitrary: w)
  case Nil
  then show ?case by (simp add: io_ret_def grows_refl)
next
  case (Cons a as)
  obtain p content where a: "a = (p, content)" by fastforce
  have open1: "agent_open (dk_tree w) root (p, content)" using Cons.prems(1) a by simp
  from Cons.prems(2) have "io_bind (install_agent root (p, content)) (\<lambda>_. io_each (install_agent root) as) w = (r, w')" using a by simp
  then show ?case
  proof (cases rule: io_bind_cases)
    case (stop e)
    then show ?thesis using install_agent_runs [OF open1 stop(1)] by simp
  next
    case (go u w1)
    have 1: "grows (dk_tree w) (dk_tree w1)" "dk_tree w1 (root @ p) \<noteq> None" using install_agent_runs [OF open1 go(1)] by auto
    have "list_all (agent_open (dk_tree w1) root) as"
      using Cons.prems(1) grows_real [OF 1(1)] by (auto simp: list_all_iff agent_open_def)
    moreover have "wf_tree (dk_tree w1)" using 1(1) by (simp add: grows_def keeps_but_def)
    ultimately have ih: "grows (dk_tree w1) (dk_tree w')" "r = Inr () \<Longrightarrow> list_all (\<lambda>(p, _). dk_tree w' (root @ p) \<noteq> None) as"
      using Cons.IH [OF _ go(2)] by auto
    have "dk_tree w' (root @ p) \<noteq> None" using ih(1) 1(2) by (auto simp: grows_def keeps_but_def)
    then show ?thesis using grows_trans [OF 1(1) ih(1)] ih(2) a by simp
  qed
qed

lemma mend_contract_runs:
  assumes p: "real_dir (dk_tree w) p" "p \<noteq> []" "dk_tree w p = Some (Regular c m)" and run: "mend_contract pr p w = (r, w')"
  shows "\<exists>z. dk_tree w' = (dk_tree w)(p \<mapsto> Regular (c @ z) m) \<and>
    (r = Inr () \<longrightarrow> z = (if rr_missing_sections pr = [] then [] else NL # append_text (rr_missing_sections pr)))"
proof -
  let ?fs = "dk_tree w"
  have wf: "wf_tree ?fs" using p(1) by (simp add: real_dir_def)
  have "?fs (butlast p) = Some Directory" using butlast_dir [OF wf] p(2,3) by simp
  then have place: "place ?fs p = Some p" using place_linkfree [of ?fs p] p(1) by (simp add: real_dir_def)
  then have there: "exists_at ?fs p" using p(3) by (simp add: exists_at_def stat_def)
  have same: "?fs(p \<mapsto> Regular c m) = ?fs" using p(3) by auto
  show ?thesis
  proof (cases "rr_missing_sections pr = []")
    case True
    then have "r = Inr ()" "w' = w" using run there by (simp_all add: mend_contract_def io_bind_def io_read_def io_ret_def)
    then show ?thesis using True same by (intro exI [of _ "[]"]) simp
  next
    case False
    let ?a = "append_text (rr_missing_sections pr)"
    have put: "\<exists>y. dk_tree v' = ?fs(p \<mapsto> Regular (b @ y) m) \<and> (q = Inr () \<longrightarrow> y = t)"
      if io: "io_sys io_error (write_all p t) v = (q, v')" and tr: "dk_tree v = ?fs(p \<mapsto> Regular b m)" for q v v' t b
    proof -
      obtain q1 where q1: "write_all p t v = (q1, v')" "q = Inr () \<longleftrightarrow> q1 = Inr ()" using io_sys_runs [OF io] by blast
      from q1(1) [unfolded write_all_def] show ?thesis
        by (cases rule: sys_op_cases) (use tr q1(2) in \<open>auto simp: put_def\<close>)
    qed
    have "io_bind (io_sys io_error (open_append p)) (\<lambda>q. io_bind (io_sys io_error (write_all q [NL])) (\<lambda>_.
       io_sys io_error (write_all q ?a))) w = (r, w')"
      using run there False by (simp add: mend_contract_def io_bind_def io_read_def)
    then show ?thesis
    proof (cases rule: io_bind_cases)
      case (stop e)
      then obtain r1 where "open_append p w = (r1, w')" using io_sys_runs by blast
      then have "dk_tree w' = ?fs" unfolding open_append_def
        by (cases rule: sys_op_cases) (use place p(3) in \<open>simp_all add: is_directory_def\<close>)
      then show ?thesis using stop(2) same by (intro exI [of _ "[]"]) simp
    next
      case (go q w1)
      obtain r1 where "open_append p w = (r1, w1)" "r1 = Inr q" using io_sys_runs [OF go(1)] by blast
      then have w1: "dk_tree w1 = ?fs" "q = p" unfolding open_append_def
        by (cases rule: sys_op_cases; use place p(3) in \<open>simp add: is_directory_def\<close>)+
      from go(2) [unfolded w1(2)] show ?thesis
      proof (cases rule: io_bind_cases)
        case (stop e)
        then show ?thesis using put [OF stop(1)] w1(1) same by auto
      next
        case (go u w2)
        then have "dk_tree w2 = ?fs(p \<mapsto> Regular (c @ [NL]) m)" using put [OF go(1)] w1(1) same by auto
        from put [OF go(2) this] show ?thesis using False by auto
      qed
    qed
  qed
qed

lemma validate_at_real:
  assumes "wf_tree fs" "validate_at fs p = Inr root"
  shows "real_dir fs root \<and> fs root = Some Directory"
  using assms canonicalize_real [OF assms(1)] by (auto simp: validate_at_def and_also_Inr or_else_Inr split: if_splits)

lemma validate_at_again: "real_dir fs root \<Longrightarrow> fs root = Some Directory \<Longrightarrow> validate_at fs root = Inr root"
  using stat_linkfree(2) [of fs root] by (simp add: validate_at_def real_dir_def or_else_def and_also_def)

lemma missing_in_order:
  assumes "e \<in> set expected" "ps_number e \<notin> ps_number ` set found"
  shows "\<exists>s \<in> set (missing_sections_of (map (section_status_of found) expected) expected). ps_number s = ps_number e"
proof -
  have none: "filter (\<lambda>f. ps_number f = ps_number e) found = []" using assms(2) by (metis (mono_tags, lifting) filter_False imageI)
  then have st: "\<not> ss_present (section_status_of found e)" "ss_number (section_status_of found e) = ps_number e"
    by (simp_all add: section_status_of_def)
  obtain s where s: "List.find (\<lambda>x. ps_number x = ps_number e) expected = Some s"
    using assms(1) by (cases "List.find (\<lambda>x. ps_number x = ps_number e) expected") (auto simp: find_None_iff)
  have "ps_number s = ps_number e" using s by (auto simp: find_Some_iff)
  moreover have "s \<in> set (missing_sections_of (map (section_status_of found) expected) expected)"
    unfolding missing_sections_of_def List.map_filter_def using assms(1) st s by force
  ultimately show ?thesis by blast
qed

lemma found_member: "List.find P xs = Some x \<Longrightarrow> x \<in> set xs"
  by (auto simp: find_Some_iff)

lemma missing_are_expected: "set (missing_sections_of statuses expected) \<subseteq> set expected"
  unfolding missing_sections_of_def List.map_filter_def by (auto dest: found_member)

text \<open>What a plan knows of the contract that is there.\<close>

lemma planned_repair:
  assumes "plan_repair_with_vars env fs tx name vars = Inr pr" "wf_tree fs"
    "fs (rr_root pr @ [CONTRACT_PATH]) = Some (Regular c m)"
  shows "real_dir fs (rr_root pr) \<and> rr_missing_sections pr =
    missing_sections_of (map (section_status_of (parse_sections c)) (parse_sections (rr_contract_content pr)))
      (parse_sections (rr_contract_content pr))"
proof -
  let ?p = "rr_root pr @ [CONTRACT_PATH]"
  obtain q rendered inspection where v: "validate_at fs q = Inr (rr_root pr)"
    and i: "and_also (validate_at fs (rr_root pr)) (\<lambda>r. inspect_at env fs r name vars) = Inr inspection"
    and rendered: "rendered_contract_template env fs (rr_root pr) name vars = Inr rendered"
    and pr: "rr_contract_content pr = rs_contract rendered" "rr_missing_sections pr = (if pi_contract_present inspection
           then missing_sections_of (pi_sections inspection) (parse_sections (rs_contract rendered)) else [])"
    using assms(1) unfolding plan_repair_with_vars_def validate_project_path_def and_also_Inr Let_def
    by (auto simp: and_also_Inr split: if_splits)
  have root: "real_dir fs (rr_root pr)" "fs (rr_root pr) = Some Directory" using validate_at_real [OF assms(2) v] by auto
  then have i: "inspect_at env fs (rr_root pr) name vars = Inr inspection" using i validate_at_again by (simp add: and_also_def)
  have "real_dir fs ?p" using real_dir_step [OF root(1), of CONTRACT_PATH] assms(3) by (simp add: is_link_def CONTRACT_PATH_def)
  then have "stat fs ?p = Some (Regular c m)" using stat_linkfree(1) [of fs ?p] assms(3) by (simp add: real_dir_def)
  then have "exists_at fs ?p" "read_path fs ?p = Some c" by (simp_all add: exists_at_def read_path_def)
  then have "pi_contract_present inspection" "pi_sections inspection = map (section_status_of (parse_sections c)) (parse_sections (rs_contract rendered))"
    using i rendered unfolding inspect_at_def and_also_Inr Let_def by (auto simp: and_also_Inr or_else_Inr split: if_splits)
  then show ?thesis using pr root by simp
qed

lemma repaired_sections:
  assumes missing: "ms = missing_sections_of (map (section_status_of (parse_sections c)) expected) expected"
    and expected: "expected = parse_sections t"
    and z: "z = (if ms = [] then [] else NL # append_text ms)"
  shows "list_all (\<lambda>e. ps_number e \<in> set (map ps_number (parse_sections (c @ z)))) expected"
proof -
  have fst_heads: "set (map ps_number (parse_sections b)) = fst ` set (heads b)" for b
    unfolding parse_heads [symmetric] by force
  have more: "set (heads c) \<subseteq> set (heads (c @ z))" using heads_append z by auto
  have "ps_number e \<in> set (map ps_number (parse_sections (c @ z)))" if e: "e \<in> set expected" for e
  proof (cases "ps_number e \<in> ps_number ` set (parse_sections c)")
    case True
    then show ?thesis using more fst_heads [of c] fst_heads [of "c @ z"] by auto
  next
    case False
    then obtain s where s: "s \<in> set ms" "ps_number s = ps_number e" using missing_in_order [OF e] missing by blast
    then have "z = NL # append_text ms" using z by auto
    moreover have "s \<in> set (parse_sections t)" using s(1) missing missing_are_expected expected by blast
    then have "(ps_number s, ps_title s) \<in> set (heads (append_text ms))" using section_heads append_heads [OF s(1)] by blast
    ultimately have "(ps_number s, ps_title s) \<in> set (heads (c @ z))" using heads_append by auto
    then have "ps_number s \<in> fst ` set (heads (c @ z))" by force
    then show ?thesis using fst_heads s(2) by simp
  qed
  then show ?thesis by (simp add: list_all_iff)
qed

text \<open>
  C20 (repair_only_adds): repairing a project whose contract is a file and whose missing agent files are reached
  without links, whatever fails on the way: every other thing that exists stays as it is, the text
  of the contract is kept and only extended, and when the repair succeeds a new inspection finds
  every section of the standard in the contract, and every agent file that was missing exists.
\<close>

theorem repair_only_adds:
  assumes "plan_repair_with_vars env (dk_tree w) tx name vars = Inr pr" "wf_tree (dk_tree w)"
    "dk_tree w (rr_root pr @ [CONTRACT_PATH]) = Some (Regular c m)"
    "list_all (agent_open (dk_tree w) (rr_root pr)) (rr_missing_agents pr)"
    "apply_repair pr w = (r, w')"
  shows "(\<forall>q. dk_tree w q \<noteq> None \<longrightarrow> q \<noteq> rr_root pr @ [CONTRACT_PATH] \<longrightarrow> dk_tree w' q = dk_tree w q) \<and>
    (\<exists>z. dk_tree w' (rr_root pr @ [CONTRACT_PATH]) = Some (Regular (c @ z) m) \<and>
      (r = Inr () \<longrightarrow> list_all (\<lambda>e. ps_number e \<in> set (map ps_number (parse_sections (c @ z)))) (parse_sections (rr_contract_content pr)))) \<and>
    (r = Inr () \<longrightarrow> list_all (\<lambda>(p, _). dk_tree w' (rr_root pr @ p) \<noteq> None) (rr_missing_agents pr))"
proof -
  let ?p = "rr_root pr @ [CONTRACT_PATH]" and ?fs = "dk_tree w"
  note pl = planned_repair [OF assms(1-3)]
  have real: "real_dir ?fs ?p" using real_dir_step [of ?fs "rr_root pr" CONTRACT_PATH] pl assms(3) by (simp add: is_link_def CONTRACT_PATH_def)
  have "lstat ?fs ?p = ?fs ?p" using real_dir_entry(2) [of ?fs "rr_root pr" CONTRACT_PATH] pl by (simp add: CONTRACT_PATH_def)
  then have "materialize ?p w = (Inr (), w)" using assms(3) by (simp add: materialize_def io_bind_def io_read_def io_ret_def is_link_def)
  then have "io_bind (mend_contract pr ?p) (\<lambda>_. io_each (install_agent (rr_root pr)) (rr_missing_agents pr)) w = (r, w')"
    using assms(5) by (simp add: apply_repair_def Let_def io_bind_def)
  then show ?thesis
  proof (cases rule: io_bind_cases)
    case (stop e)
    from mend_contract_runs [OF real _ assms(3) stop(1)] obtain z where "dk_tree w' = ?fs(?p \<mapsto> Regular (c @ z) m)" by auto
    then show ?thesis using stop(2) by auto
  next
    case (go u w1)
    from mend_contract_runs [OF real _ assms(3) go(1)] obtain z where z: "dk_tree w1 = ?fs(?p \<mapsto> Regular (c @ z) m)"
      "z = (if rr_missing_sections pr = [] then [] else NL # append_text (rr_missing_sections pr))" by auto
    have wf1: "wf_tree (dk_tree w1)" using z(1) wf_tree_add [OF assms(2), of "rr_root pr" CONTRACT_PATH] assms(3)
        butlast_dir [OF assms(2), of ?p] by simp
    have links: "\<not> is_link (?fs q) \<Longrightarrow> \<not> is_link (dk_tree w1 q)" for q using z(1) by (auto simp: is_link_def split: if_splits)
    have "agent_open (dk_tree w1) (rr_root pr) a" if "agent_open ?fs (rr_root pr) a" for a
      using that wf1 links unfolding agent_open_def real_dir_def linkfree_def by (cases a) simp
    then have "list_all (agent_open (dk_tree w1) (rr_root pr)) (rr_missing_agents pr)"
      using assms(4) by (simp add: list_all_iff)
    then have g: "grows (dk_tree w1) (dk_tree w')" "r = Inr () \<Longrightarrow> list_all (\<lambda>(p, _). dk_tree w' (rr_root pr @ p) \<noteq> None) (rr_missing_agents pr)"
      using install_all [OF _ go(2) wf1] by auto
    have keep: "dk_tree w' q = dk_tree w1 q" if "dk_tree w1 q \<noteq> None" for q using g(1) that by (simp add: grows_def keeps_but_def)
    have "dk_tree w' q = ?fs q" if "?fs q \<noteq> None" "q \<noteq> ?p" for q using keep [of q] z(1) that by simp
    moreover have "dk_tree w' ?p = Some (Regular (c @ z) m)" using keep [of ?p] z(1) by simp
    moreover have "list_all (\<lambda>e. ps_number e \<in> set (map ps_number (parse_sections (c @ z)))) (parse_sections (rr_contract_content pr))"
      using repaired_sections [OF _ refl z(2)] pl by blast
    ultimately show ?thesis using g(2) by blast
  qed
qed

definition sample_standard :: project_env where
  "sample_standard = \<lparr>pe_render = (\<lambda>s _. Inr s), pe_cwd = Inr [], pe_templates = [
     \<lparr>tm_name = ''standardization'', tm_description = [], tm_source = BuiltIn, tm_category = Planning, tm_variables = [],
       tm_files = [\<lparr>tf_path = ''CLAUDE.md'', tf_content = ''## 1. A'' @ [NL] @ ''## 2. B'', tf_executable = False\<rparr>,
         \<lparr>tf_path = ''.claude/agents/x.md'', tf_content = ''agent'', tf_executable = False\<rparr>], tm_post_hooks = []\<rparr>],
     pe_list = (\<lambda>_. Inr [])\<rparr>"

definition sample_repo :: disk where
  "sample_repo = \<lparr>dk_tree = map_of [([], Directory), ([''p''], Directory), ([''p'', ''CLAUDE.md''], Regular ''## 2. B'' 420)],
     dk_fates = [], dk_mode = 420, dk_sequence = 0\<rparr>"

definition sample_repair :: project_repair_plan where
  "sample_repair = \<lparr>rr_root = [''p''], rr_actions = [AppendSection 1 ''A'', InstallAgent [''.claude'', ''agents'', ''x.md'']],
     rr_contract_content = ''## 1. A'' @ [NL] @ ''## 2. B'',
     rr_missing_sections = [\<lparr>ps_number = 1, ps_title = ''A'', ps_content = ''## 1. A''\<rparr>],
     rr_missing_agents = [([''.claude'', ''agents'', ''x.md''], ''agent'')]\<rparr>"

lemma sample_repair_planned:
  "plan_repair_with_vars sample_standard (dk_tree sample_repo) ''/p'' ''standardization'' [] = Inr sample_repair"
  by code_simp

lemma sample_repair_applied: "fst (apply_repair sample_repair sample_repo) = Inr ()"
  by code_simp

lemma sample_repo_tree: "wf_tree (dk_tree sample_repo)"
  by (auto simp: wf_tree_def sample_repo_def split: if_splits)

lemma sample_repo_open: "list_all (agent_open (dk_tree sample_repo) (rr_root sample_repair)) (rr_missing_agents sample_repair)"
  using sample_repo_tree by (auto simp: agent_open_def real_dir_def linkfree_def is_link_def sample_repo_def sample_repair_def split: if_splits option.splits)

lemma sample_repo_contract: "dk_tree sample_repo (rr_root sample_repair @ [CONTRACT_PATH]) = Some (Regular ''## 2. B'' 420)"
  by code_simp

theorem repair_only_adds_witness:
  "\<exists>z. dk_tree (snd (apply_repair sample_repair sample_repo)) (rr_root sample_repair @ [CONTRACT_PATH]) = Some (Regular (''## 2. B'' @ z) 420) \<and>
    list_all (\<lambda>e. ps_number e \<in> set (map ps_number (parse_sections (''## 2. B'' @ z)))) (parse_sections (rr_contract_content sample_repair))"
  using repair_only_adds [OF sample_repair_planned sample_repo_tree sample_repo_contract sample_repo_open, of "Inr ()"
      "snd (apply_repair sample_repair sample_repo)"] sample_repair_applied by (fastforce simp: prod_eq_iff)

text \<open>
  Where a contract is a link that leads nowhere, the plan says that a contract will be created, and the repair
  leaves an empty file. An agent file whose directory is a link is written where the link leads.
\<close>

definition linked_repo :: "node \<Rightarrow> disk" where
  "linked_repo contract = \<lparr>dk_tree = map_of [([], Directory), ([''p''], Directory), ([''p'', ''CLAUDE.md''], contract),
     ([''else''], Directory), ([''p'', ''.claude''], Link ''/else'')], dk_fates = [], dk_mode = 420, dk_sequence = 0\<rparr>"

lemma dangling_contract_emptied:
  "(case plan_repair_with_vars sample_standard (dk_tree (linked_repo (Link ''gone''))) ''/p'' ''standardization'' [] of
     Inr pr \<Rightarrow> hd (rr_actions pr) = CreateContract [CONTRACT_PATH] \<and>
       (case apply_repair pr (linked_repo (Link ''gone'')) of (r, w') \<Rightarrow> r = Inr () \<and>
         dk_tree w' [''p'', ''CLAUDE.md''] = Some (Regular [] 420))
   | Inl _ \<Rightarrow> False)"
  by code_simp

lemma agent_written_through_link:
  "(case apply_repair sample_repair (linked_repo (Regular ''## 2. B'' 420)) of (r, w') \<Rightarrow>
     r = Inr () \<and> dk_tree w' [''else'', ''agents'', ''x.md''] = Some (Regular ''agent'' 420))"
  by code_simp

end
