(* ===== verification/Prompts.thy ===== *)
theory Prompts
  imports Standard Gateway
begin

text \<open>
  The registry of versioned prompts and prompt chains (\<^verbatim>\<open>crates/rtrt-templates/src/prompts.rs\<close>,
  \<^verbatim>\<open>chains.rs\<close>). The TOML library, what \<^verbatim>\<open>read_dir\<close> lists, the clock and the provider are
  arguments. Version numbers have 32 bits and wrap.
\<close>

section \<open>The registry\<close>

record prompt =
  pm_name :: string
  pm_version :: nat
  pm_body :: string
  pm_created_at :: int
  pm_parent_version :: "nat option"
  pm_metadata :: vars

record prompt_env =
  pr_root :: path
  pr_encode :: "prompt \<Rightarrow> string + string"
  pr_decode :: "string \<Rightarrow> string + prompt"
  pr_list :: "tree \<Rightarrow> path \<Rightarrow> string list"
  pr_now :: int

definition prompt_char :: "char \<Rightarrow> bool" where
  "prompt_char c \<longleftrightarrow> is_ascii_digit c \<or> is_ascii_alphabetic c \<or> c \<in> set ''-_.''"

text \<open>
  The Debug form of a string. What Rust shows as a Unicode escape (control characters and characters
  that are not printable) is left as it is.
\<close>

definition debug_char :: "char \<Rightarrow> string" where
  "debug_char c = (if c = CHR 0x22 \<or> c = CHR 0x5C then [CHR 0x5C, c] else if c = CHR 0x09 then CHR 0x5C # ''t''
     else if c = CHR 0x0A then CHR 0x5C # ''n'' else if c = CHR 0x0D then CHR 0x5C # ''r''
     else if c = CHR 0x00 then CHR 0x5C # ''0'' else [c])"

definition debug_str :: "string \<Rightarrow> string" where
  "debug_str s = [CHR 0x22] @ concat (map debug_char s) @ [CHR 0x22]"

definition validate_name :: "string \<Rightarrow> error + unit" where
  "validate_name name =
     (if name = [] \<or> 64 < length name \<or> \<not> list_all prompt_char name
      then Inl (Config (''invalid prompt name: '' @ debug_str name)) else Inr ())"

text \<open>\<^verbatim>\<open>root.join(name)\<close>; a name \<^verbatim>\<open>.\<close> adds no component.\<close>

definition prompt_dir :: "prompt_env \<Rightarrow> string \<Rightarrow> path" where
  "prompt_dir env name = pr_root env @ path_parts name"

definition pad4 :: "nat \<Rightarrow> string" where
  "pad4 n = replicate (4 - length (nat_str n)) (CHR ''0'') @ nat_str n"

definition version_path :: "prompt_env \<Rightarrow> string \<Rightarrow> nat \<Rightarrow> path" where
  "version_path env name version = prompt_dir env name @ [pad4 version @ ''.toml'']"

definition list_versions :: "prompt_env \<Rightarrow> tree \<Rightarrow> string \<Rightarrow> error + nat list" where
  "list_versions env fs name =
     and_also (validate_name name) (\<lambda>_.
     if stat fs (prompt_dir env name) = None then Inr []
     else if \<not> is_directory (stat fs (prompt_dir env name)) then Inl (Io ''Not a directory (os error 20)'')
     else Inr (sort (List.map_filter (\<lambda>n. parse_uint 32 (fst (split_extension n))) (pr_list env fs (prompt_dir env name)))))"

definition next_version :: "prompt_env \<Rightarrow> tree \<Rightarrow> string \<Rightarrow> error + nat" where
  "next_version env fs name = and_also (list_versions env fs name) (\<lambda>vs. Inr ((Max (insert 0 (set vs)) + 1) mod 2 ^ 32))"

definition open_registry :: "path \<Rightarrow> unit io" where
  "open_registry d = create_dir_all (rev d)"

definition save :: "prompt_env \<Rightarrow> string \<Rightarrow> string \<Rightarrow> vars \<Rightarrow> prompt io" where
  "save env name body metadata =
     io_bind (io_read (\<lambda>_. validate_name name)) (\<lambda>_.
     io_bind (create_dir_all (rev (prompt_dir env name))) (\<lambda>_.
     io_bind (io_read (\<lambda>fs. next_version env fs name)) (\<lambda>n.
     let p = \<lparr>pm_name = name, pm_version = n, pm_body = body, pm_created_at = pr_now env,
       pm_parent_version = (if 1 < n then Some (n - 1) else None), pm_metadata = metadata\<rparr> in
     io_bind (io_read (\<lambda>_. case pr_encode env p of Inl e \<Rightarrow> Inl (Config (''prompt serialize: '' @ e)) | Inr t \<Rightarrow> Inr t)) (\<lambda>t.
     io_bind (io_sys io_error (write_path (version_path env name n) t)) (\<lambda>_. io_ret p)))))"

definition get_prompt :: "prompt_env \<Rightarrow> tree \<Rightarrow> string \<Rightarrow> nat \<Rightarrow> error + prompt" where
  "get_prompt env fs name version =
     and_also (validate_name name) (\<lambda>_.
     let p = version_path env name version in
     if \<not> exists_at fs p then Inl (Config (''prompt '' @ name @ '' v'' @ nat_str version @ '' not found''))
     else and_also (Files.or_else (Io ''unreadable prompt'') (Option.bind (read_path fs p) (\<lambda>c. if utf8_valid c then Some c else None))) (\<lambda>raw.
       case pr_decode env raw of Inl e \<Rightarrow> Inl (Config (''prompt deserialize: '' @ e)) | Inr q \<Rightarrow> Inr q))"

definition latest :: "prompt_env \<Rightarrow> tree \<Rightarrow> string \<Rightarrow> error + prompt option" where
  "latest env fs name =
     and_also (validate_name name) (\<lambda>_.
     and_also (next_version env fs name) (\<lambda>n.
     if n - 1 = 0 then Inr None else and_also (get_prompt env fs name (n - 1)) (\<lambda>q. Inr (Some q))))"

definition list_names :: "prompt_env \<Rightarrow> tree \<Rightarrow> error + string list" where
  "list_names env fs =
     (if stat fs (pr_root env) = None then Inr []
      else if \<not> is_directory (stat fs (pr_root env)) then Inl (Io ''Not a directory (os error 20)'')
      else Inr (sort (filter (\<lambda>n. lstat fs (pr_root env @ [n]) = Some Directory \<and> validate_name n = Inr ())
        (pr_list env fs (pr_root env)))))"

section \<open>Chains\<close>

record prompt_step =
  st_name :: string
  st_system :: string
  st_user :: string
  st_max_tokens :: "32 word option"
  st_temperature_bits :: "32 word option"

record step_output =
  so_name :: string
  so_content :: string
  so_provider :: string
  so_model :: string
  so_input_tokens :: "64 word"
  so_output_tokens :: "64 word"

definition step_request :: "string \<Rightarrow> prompt_step \<Rightarrow> string \<Rightarrow> chat_request" where
  "step_request model s rendered = \<lparr>cq_model = model, cq_messages =
     (if st_system s = [] then [] else [\<lparr>cm_role = System, cm_content = st_system s\<rparr>]) @ [\<lparr>cm_role = User, cm_content = rendered\<rparr>],
     cq_max_tokens = st_max_tokens s, cq_temperature_bits = st_temperature_bits s\<rparr>"

definition step_output_of :: "prompt_step \<Rightarrow> chat_response \<Rightarrow> step_output" where
  "step_output_of s resp = \<lparr>so_name = st_name s, so_content = cr_content resp, so_provider = cr_provider resp, so_model = cr_model resp,
     so_input_tokens = us_input_tokens (cr_usage resp), so_output_tokens = us_output_tokens (cr_usage resp)\<rparr>"

definition render_step :: "renderer \<Rightarrow> vars \<Rightarrow> string \<Rightarrow> prompt_step \<Rightarrow> error + string" where
  "render_step render vars previous s = (case render (st_user s) (bt_insert ''previous'' previous vars) of
     Inl e \<Rightarrow> Inl (Config (''chain '' @ [CHR 0x27] @ st_name s @ [CHR 0x27] @ '': '' @ e)) | Inr t \<Rightarrow> Inr t)"

text \<open>\<open>answer n\<close> is what the provider answers to the n-th request of the chain.\<close>

fun run_steps :: "renderer \<Rightarrow> (nat \<Rightarrow> chat_request \<Rightarrow> error + chat_response) \<Rightarrow> string \<Rightarrow> vars \<Rightarrow> nat \<Rightarrow> string \<Rightarrow> prompt_step list \<Rightarrow>
    error + step_output list" where
  "run_steps render answer model vars n previous [] = Inr []"
| "run_steps render answer model vars n previous (s # ss) =
     and_also (render_step render vars previous s) (\<lambda>rendered.
     and_also (answer n (step_request model s rendered)) (\<lambda>resp.
     and_also (run_steps render answer model vars (Suc n) (cr_content resp) ss) (\<lambda>outs. Inr (step_output_of s resp # outs))))"

definition execute :: "renderer \<Rightarrow> (nat \<Rightarrow> chat_request \<Rightarrow> error + chat_response) \<Rightarrow> string \<Rightarrow> vars \<Rightarrow> prompt_step list \<Rightarrow>
    error + step_output list" where
  "execute render answer model vars steps = run_steps render answer model vars 0 [] steps"
section \<open>The latest version is the one that was saved\<close>

lemma version_text: "parse_uint 32 (pad4 n) = Some n" if "n < 2 ^ 32"
proof -
  have digits: "digits_val (replicate k (CHR ''0'') @ s) = digits_val s" for k s
    by (induction k) (simp_all add: digits_val_def digit_val_def)
  have "list_all is_ascii_digit (pad4 n)" "pad4 n \<noteq> []"
    using nat_str_digits [of n] by (auto simp: pad4_def list_all_iff is_ascii_digit_def)
  moreover have "digits_val (pad4 n) = n" by (simp add: pad4_def digits)
  moreover have "n \<le> u64_max" using that by (simp add: u64_max_def)
  ultimately have "parse_u64 (pad4 n) = Some n" by (simp add: parse_u64_digits)
  then show ?thesis using that by (simp add: parse_uint_def)
qed

lemma version_stem: "split_extension (pad4 n @ ''.toml'') = (pad4 n, Some ''toml'')"
proof -
  have "CHR ''.'' \<notin> set (pad4 n)" using nat_str_notin [of "CHR ''.''" n] by (auto simp: pad4_def)
  then have "split_char (CHR ''.'') (pad4 n @ CHR ''.'' # ''toml'') = [pad4 n, ''toml'']"
    by (simp add: split_char_append split_char_notin)
  moreover have "pad4 n \<noteq> []" by (simp add: pad4_def)
  ultimately show ?thesis by (simp add: split_extension_def)
qed

text \<open>\<^verbatim>\<open>read_dir\<close> lists the entries of a directory.\<close>

definition entries :: "tree \<Rightarrow> path \<Rightarrow> string set" where
  "entries fs d = {n. fs (d @ [n]) \<noteq> None}"

definition lists_entries :: "(tree \<Rightarrow> path \<Rightarrow> string list) \<Rightarrow> bool" where
  "lists_entries ls \<longleftrightarrow> (\<forall>fs d. real_dir fs d \<longrightarrow> fs d = Some Directory \<longrightarrow> finite (entries fs d) \<longrightarrow> set (ls fs d) = entries fs d)"

text \<open>What was written as TOML is read back.\<close>

definition toml_round_trip :: "prompt_env \<Rightarrow> bool" where
  "toml_round_trip env \<longleftrightarrow> (\<forall>p t. pr_encode env p = Inr t \<longrightarrow> utf8_valid t \<and> pr_decode env t = Inr p)"

definition versions_in :: "tree \<Rightarrow> path \<Rightarrow> nat set" where
  "versions_in fs d = {v. \<exists>n. fs (d @ [n]) \<noteq> None \<and> parse_uint 32 (fst (split_extension n)) = Some v}"

lemma parse_uint_lt: "parse_uint b s = Some v \<Longrightarrow> v < 2 ^ b"
  by (auto simp: parse_uint_def split: option.splits if_splits)

lemma list_versions_real:
  assumes "validate_name name = Inr ()" "real_dir fs (prompt_dir env name)" "lists_entries (pr_list env)"
    "finite (entries fs (prompt_dir env name))"
  shows "if fs (prompt_dir env name) = Some Directory
    then \<exists>vs. list_versions env fs name = Inr vs \<and> set vs = versions_in fs (prompt_dir env name)
    else fs (prompt_dir env name) = None \<longrightarrow> list_versions env fs name = Inr []"
proof -
  have st: "stat fs (prompt_dir env name) = fs (prompt_dir env name)" using stat_linkfree(1) assms(2) by (simp add: real_dir_def)
  show ?thesis
  proof (cases "fs (prompt_dir env name) = Some Directory")
    case True
    then have "set (pr_list env fs (prompt_dir env name)) = entries fs (prompt_dir env name)"
      using assms(2-4) by (simp add: lists_entries_def)
    then have "set (List.map_filter (\<lambda>n. parse_uint 32 (fst (split_extension n))) (pr_list env fs (prompt_dir env name))) =
        versions_in fs (prompt_dir env name)"
      unfolding versions_in_def entries_def by (auto simp: List.map_filter_def intro!: image_eqI)
    then show ?thesis using True st assms(1) by (simp add: list_versions_def and_also_def is_directory_def)
  qed (use st assms(1) in \<open>simp add: list_versions_def and_also_def\<close>)
qed

lemma finite_versions: "finite (versions_in fs d)"
  by (rule finite_subset [of _ "{..<2 ^ 32}"]) (auto simp: versions_in_def dest: parse_uint_lt)

text \<open>Writing a new file changes that place only.\<close>

lemma write_path_new:
  assumes p: "real_dir fs (d @ [x])" "fs (d @ [x]) = None" and tree: "dk_tree w = fs" and run: "write_path (d @ [x]) content w = (Inr u, w')"
  shows "fs d = Some Directory \<and> dk_tree w' = fs(d @ [x] \<mapsto> Regular content (dk_mode w))"
proof -
  have "place fs (d @ [x]) = (if fs d = Some Directory then Some (d @ [x]) else None)"
    using place_linkfree [of fs "d @ [x]"] p(1) by (simp add: real_dir_def)
  with run [unfolded write_path_def] show ?thesis
    by (cases rule: sys_op_cases) (use tree p(2) in \<open>auto simp: set_content_def is_directory_def split: if_splits\<close>)
qed

lemma prompt_dir_name:
  assumes "validate_name name = Inr ()" "name \<noteq> ''.''"
  shows "prompt_dir env name = pr_root env @ [name]"
proof -
  have n: "name \<noteq> []" "list_all prompt_char name" using assms(1) by (auto simp: validate_name_def split: if_splits)
  then have "CHR ''/'' \<notin> set name" by (auto simp: list_all_iff prompt_char_def is_ascii_digit_def is_ascii_alphabetic_def)
  then show ?thesis using n(1) assms(2) by (simp add: prompt_dir_def path_parts_def split_char_notin)
qed

lemma next_version_real:
  assumes "validate_name name = Inr ()" "real_dir fs d" "d = prompt_dir env name" "lists_entries (pr_list env)" "fs d = Some Directory"
    "\<forall>v \<in> versions_in fs d. v + 2 < 2 ^ 32" "finite (entries fs d)"
  shows "next_version env fs name = Inr (Max (insert 0 (versions_in fs d)) + 1)" "Max (insert 0 (versions_in fs d)) + 2 < 2 ^ 32"
proof -
  let ?V = "versions_in fs d"
  obtain vs where vs: "list_versions env fs name = Inr vs" "set vs = ?V"
    using list_versions_real [OF assms(1) _ assms(4), of fs] assms(2,3,5,7) by auto
  have "Max (insert 0 ?V) \<in> insert 0 ?V" by (rule Max_in) (use finite_versions in simp_all)
  then show room: "Max (insert 0 ?V) + 2 < 2 ^ 32" using assms(6) by auto
  then show "next_version env fs name = Inr (Max (insert 0 ?V) + 1)" using vs by (simp add: next_version_def and_also_def)
qed

lemma versions_add:
  assumes "fs (d @ [x]) = None" "parse_uint 32 (fst (split_extension x)) = Some n"
  shows "versions_in (fs(d @ [x] \<mapsto> nd)) d = insert n (versions_in fs d)"
proof (intro equalityI subsetI)
  fix v assume "v \<in> insert n (versions_in fs d)"
  then consider "v = n" | y where "fs (d @ [y]) \<noteq> None" "parse_uint 32 (fst (split_extension y)) = Some v"
    by (auto simp: versions_in_def)
  then show "v \<in> versions_in (fs(d @ [x] \<mapsto> nd)) d"
  proof cases
    case 1
    then show ?thesis using assms(2) unfolding versions_in_def by (intro CollectI exI [of _ x]) simp
  next
    case 2
    then show ?thesis unfolding versions_in_def by (intro CollectI exI [of _ y]) simp
  qed
qed (use assms(2) in \<open>auto simp: versions_in_def split: if_splits\<close>)

lemma saved_runs:
  assumes d: "real_dir (dk_tree w) (pr_root env @ [name])" and dot: "name \<noteq> ''.''" and ls: "lists_entries (pr_list env)"
    and room: "\<forall>v \<in> versions_in (dk_tree w) (pr_root env @ [name]). v + 2 < 2 ^ 32"
    and fin: "finite (entries (dk_tree w) (pr_root env @ [name]))"
    and run: "save env name body metadata w = (Inr p, w')"
  shows "\<exists>fs t m. let d = pr_root env @ [name]; n = Max (insert 0 (versions_in fs d)) + 1 in
    validate_name name = Inr () \<and> adds_dirs d (dk_tree w) fs \<and> fs d = Some Directory \<and> finite (entries fs d) \<and> versions_in fs d = versions_in (dk_tree w) d \<and>
    n + 1 < 2 ^ 32 \<and> fs (version_path env name n) = None \<and> pr_encode env p = Inr t \<and>
    dk_tree w' = fs(version_path env name n \<mapsto> Regular t m) \<and>
    p = \<lparr>pm_name = name, pm_version = n, pm_body = body, pm_created_at = pr_now env,
      pm_parent_version = (if 1 < n then Some (n - 1) else None), pm_metadata = metadata\<rparr>"
proof -
  let ?d = "pr_root env @ [name]"
  have ok: "validate_name name = Inr ()" using run by (auto simp: save_def io_bind_def io_read_def split: sum.splits)
  then have dir: "prompt_dir env name = ?d" by (rule prompt_dir_name [OF _ dot])
  obtain w1 where mk: "create_dir_all (rev ?d) w = (Inr (), w1)"
    using run ok dir by (auto simp: save_def io_bind_def io_read_def split: prod.splits sum.splits)
  have a: "adds_dirs ?d (dk_tree w) (dk_tree w1)" using create_dir_all_adds [OF _ mk] d by simp
  have real: "real_dir (dk_tree w1) ?d" using grows_real [OF adds_dirs_grows [OF a] d] .
  have unchanged: "dk_tree w1 (?d @ [n]) = dk_tree w (?d @ [n])" for n
  proof -
    have "\<not> is_prefix (?d @ [n]) ?d" by (simp only: is_prefix_iff) simp
    then show ?thesis using a unfolding adds_dirs_def by blast
  qed
  then have same: "versions_in (dk_tree w1) ?d = versions_in (dk_tree w) ?d" and fin1: "finite (entries (dk_tree w1) ?d)"
    using fin by (simp_all add: versions_in_def entries_def)
  obtain n t where nt: "next_version env (dk_tree w1) name = Inr n" "pr_encode env p = Inr t"
    "write_path (version_path env name n) t w1 = (Inr (), w')"
    "p = \<lparr>pm_name = name, pm_version = n, pm_body = body, pm_created_at = pr_now env,
      pm_parent_version = (if 1 < n then Some (n - 1) else None), pm_metadata = metadata\<rparr>"
    using run ok dir mk by (auto simp: save_def io_bind_def io_read_def io_sys_def io_ret_def Let_def split: prod.splits sum.splits)
  let ?x = "pad4 n @ ''.toml''"
  have fname: "version_path env name n = ?d @ [?x]" using dir by (simp add: version_path_def)
  have plain: "?x \<noteq> ''..''"
  proof
    assume "?x = ''..''"
    then have "length ?x = 2" by simp
    then show False by simp
  qed
  have absent: "dk_tree w1 (?d @ [?x]) = None"
  proof (cases "dk_tree w1 ?d = Some Directory")
    case False
    then show ?thesis using wf_tree_above [of "dk_tree w1" ?d "[?x]"] real unfolding real_dir_def by blast
  next
    case True
    note nv = next_version_real [OF ok real dir [symmetric] ls True]
    have n: "n = Max (insert 0 (versions_in (dk_tree w1) ?d)) + 1" "n + 1 < 2 ^ 32" using nv room same nt(1) fin1 by simp_all
    show ?thesis
    proof (rule ccontr)
      assume "dk_tree w1 (?d @ [?x]) \<noteq> None"
      then have "n \<in> versions_in (dk_tree w1) ?d"
        using n(2) version_text [of n] version_stem [of n] unfolding versions_in_def by (auto intro!: exI [of _ ?x])
      then have "n \<le> Max (insert 0 (versions_in (dk_tree w1) ?d))" by (intro Max_ge) (simp_all add: finite_versions)
      then show False using n(1) by simp
    qed
  qed
  have "real_dir (dk_tree w1) (?d @ [?x])" by (rule real_dir_step [OF real _ plain]) (use absent in \<open>simp add: is_link_def\<close>)
  note w = write_path_new [OF this absent refl nt(3) [unfolded fname]]
  note nv = next_version_real [OF ok real dir [symmetric] ls _]
  have n: "n = Max (insert 0 (versions_in (dk_tree w1) ?d)) + 1" "n + 1 < 2 ^ 32" using nv w room same nt(1) fin1 by simp_all
  show ?thesis unfolding Let_def
    by (rule exI [of _ "dk_tree w1"], rule exI [of _ t], rule exI [of _ "dk_mode w1"])
      (use ok a w same fin1 n absent nt(2,4) fname in simp)
qed

text \<open>
  C21 (latest_is_saved): saving a prompt gives it the number after the greatest one on disk, what is then
  read as the latest version is the prompt that was saved, and nothing that existed changes, so
  earlier versions are never overwritten. The directory is reached without links, is finite, numbers are left
  and the name is not a dot.
\<close>

theorem latest_is_saved:
  assumes "real_dir (dk_tree w) (pr_root env @ [name])" "name \<noteq> ''.''" "lists_entries (pr_list env)" "toml_round_trip env"
    "\<forall>v \<in> versions_in (dk_tree w) (pr_root env @ [name]). v + 2 < 2 ^ 32"
    "finite (entries (dk_tree w) (pr_root env @ [name]))"
    "save env name body metadata w = (Inr p, w')"
  shows "latest env (dk_tree w') name = Inr (Some p) \<and> pm_name p = name \<and> pm_body p = body \<and> pm_metadata p = metadata \<and>
    pm_version p = Max (insert 0 (versions_in (dk_tree w) (pr_root env @ [name]))) + 1 \<and>
    (\<forall>q. dk_tree w q \<noteq> None \<longrightarrow> dk_tree w' q = dk_tree w q)"
proof -
  let ?d = "pr_root env @ [name]"
  obtain fs t m where s: "validate_name name = Inr ()" "adds_dirs ?d (dk_tree w) fs" "fs ?d = Some Directory"
    "finite (entries fs ?d)" "versions_in fs ?d = versions_in (dk_tree w) ?d" and r: "let n = Max (insert 0 (versions_in fs ?d)) + 1 in
    n + 1 < 2 ^ 32 \<and> fs (version_path env name n) = None \<and> pr_encode env p = Inr t \<and>
    dk_tree w' = fs(version_path env name n \<mapsto> Regular t m) \<and>
    p = \<lparr>pm_name = name, pm_version = n, pm_body = body, pm_created_at = pr_now env,
      pm_parent_version = (if 1 < n then Some (n - 1) else None), pm_metadata = metadata\<rparr>"
    using saved_runs [OF assms(1-3,5-7)] unfolding Let_def by blast
  define n where "n = Max (insert 0 (versions_in fs ?d)) + 1"
  have "n + 1 < 2 ^ 32 \<and> fs (version_path env name n) = None \<and> pr_encode env p = Inr t \<and>
    dk_tree w' = fs(version_path env name n \<mapsto> Regular t m) \<and>
    p = \<lparr>pm_name = name, pm_version = n, pm_body = body, pm_created_at = pr_now env,
      pm_parent_version = (if 1 < n then Some (n - 1) else None), pm_metadata = metadata\<rparr>"
    using r unfolding Let_def n_def .
  then have n: "n + 1 < 2 ^ 32" "fs (version_path env name n) = None" "pr_encode env p = Inr t"
    "dk_tree w' = fs(version_path env name n \<mapsto> Regular t m)" "pm_version p = n" "pm_name p = name" "pm_body p = body" "pm_metadata p = metadata"
    by auto
  have dir: "prompt_dir env name = ?d" by (rule prompt_dir_name [OF s(1) assms(2)])
  let ?x = "pad4 n @ ''.toml''"
  have fname: "version_path env name n = ?d @ [?x]" using dir by (simp add: version_path_def)
  have real: "real_dir fs ?d" using grows_real [OF adds_dirs_grows [OF s(2)] assms(1)] .
  have after: "real_dir (dk_tree w') ?d" "dk_tree w' ?d = Some Directory"
    using real_dir_add [OF real s(3), of ?x "Some (Regular t m)"] s(3) n(2,4) fname by simp_all
  have "entries (dk_tree w') ?d \<subseteq> insert ?x (entries fs ?d)" using n(4) fname by (auto simp: entries_def)
  then have fin: "finite (entries (dk_tree w') ?d)" using s(4) finite_subset by blast
  have stem: "parse_uint 32 (fst (split_extension ?x)) = Some n" using version_text [of n] version_stem [of n] n(1) by simp
  have vs: "versions_in (dk_tree w') ?d = insert n (versions_in fs ?d)"
    using versions_add [OF _ stem, of fs ?d "Regular t m"] n(2,4) fname by simp
  have top: "Max (insert 0 (versions_in (dk_tree w') ?d)) = n"
  proof (rule Max_eqI)
    show "y \<le> n" if "y \<in> insert 0 (versions_in (dk_tree w') ?d)" for y
    proof -
      have "y = n \<or> y \<le> Max (insert 0 (versions_in fs ?d))"
        using that unfolding vs by (metis Max_ge finite.insertI finite_versions insert_iff)
      then show ?thesis unfolding n_def by linarith
    qed
  qed (simp_all add: vs finite_versions)
  obtain us where us: "list_versions env (dk_tree w') name = Inr us" "set us = versions_in (dk_tree w') ?d"
    using list_versions_real [OF s(1) _ assms(3), of "dk_tree w'"] after dir fin by auto
  then have "next_version env (dk_tree w') name = Inr (n + 1)" using top n(1) by (simp add: next_version_def and_also_def)
  moreover have "get_prompt env (dk_tree w') name n = Inr p"
  proof -
    have "real_dir (dk_tree w') (?d @ [?x])"
    proof (rule real_dir_step [OF after(1)])
      show "?x \<noteq> ''..''" using arg_cong [of ?x "''..''" length] by auto
    qed (simp add: n(4) fname is_link_def)
    then have "stat (dk_tree w') (?d @ [?x]) = Some (Regular t m)" using stat_linkfree(1) [of "dk_tree w'"] n(4) fname by (simp add: real_dir_def)
    then show ?thesis using assms(4) n(3) s(1) fname
      by (simp add: get_prompt_def and_also_def exists_at_def read_path_def Files.or_else_def toml_round_trip_def Let_def)
  qed
  ultimately have "latest env (dk_tree w') name = Inr (Some p)" using s(1) by (simp add: latest_def and_also_def n_def)
  moreover have "dk_tree w' q = dk_tree w q" if "dk_tree w q \<noteq> None" for q
  proof -
    have "fs q = dk_tree w q" using s(2) that unfolding adds_dirs_def by (metis option.distinct(1))
    then show ?thesis using n(2,4) that by auto
  qed
  ultimately show ?thesis using n s(5) by (simp add: n_def)
qed


section \<open>What a step of a chain sees\<close>

text \<open>The text that step i finds as \<^verbatim>\<open>previous\<close>.\<close>

definition seen_by :: "string \<Rightarrow> step_output list \<Rightarrow> nat \<Rightarrow> string" where
  "seen_by start outs i = (if i = 0 then start else so_content (outs ! (i - 1)))"

lemma run_steps_threads:
  "run_steps render answer model vars n previous ss = Inr outs \<Longrightarrow> length outs = length ss \<and>
    (\<forall>i < length ss. \<exists>t resp. render_step render vars (seen_by previous outs i) (ss ! i) = Inr t \<and>
      answer (n + i) (step_request model (ss ! i) t) = Inr resp \<and> outs ! i = step_output_of (ss ! i) resp)"
proof (induction ss arbitrary: n previous outs)
  case (Cons s ss)
  then obtain t resp rest where r: "render_step render vars previous s = Inr t" "answer n (step_request model s t) = Inr resp"
    "run_steps render answer model vars (Suc n) (cr_content resp) ss = Inr rest" "outs = step_output_of s resp # rest"
    by (auto simp: and_also_def split: sum.splits)
  note IH = Cons.IH [OF r(3)]
  have seen: "seen_by previous outs (Suc i) = seen_by (cr_content resp) rest i" for i
    by (cases i) (simp_all add: seen_by_def r(4) step_output_of_def)
  show ?case
  proof (intro conjI allI impI)
    fix i assume "i < length (s # ss)"
    then show "\<exists>t resp. render_step render vars (seen_by previous outs i) ((s # ss) ! i) = Inr t \<and>
      answer (n + i) (step_request model ((s # ss) ! i) t) = Inr resp \<and> outs ! i = step_output_of ((s # ss) ! i) resp"
      using r(1,2,4) IH seen by (cases i) (simp_all add: seen_by_def)
  qed (use r(4) IH in simp)
qed simp

text \<open>
  A chain that ends well has one output per step, in the order of the steps; the i-th request is
  the template of the i-th step rendered with the answer of the step above it.
\<close>

lemma chain_threads_answers:
  assumes "execute render answer model vars ss = Inr outs"
  shows "length outs = length ss \<and>
    (\<forall>i < length ss. \<exists>t resp. render_step render vars (seen_by [] outs i) (ss ! i) = Inr t \<and>
      answer i (step_request model (ss ! i) t) = Inr resp \<and> outs ! i = step_output_of (ss ! i) resp)"
  using run_steps_threads [OF assms [unfolded execute_def]] by simp

text \<open>The first step that fails ends the chain with its error, and no later step is asked.\<close>

lemma run_steps_stops:
  "run_steps render answer model vars n previous ss = run_steps render answer' model vars n previous ss"
  if "\<And>k. k < n + j \<Longrightarrow> answer k = answer' k" "run_steps render answer model vars n previous (take j ss) = Inl e"
  using that
proof (induction ss arbitrary: n previous j)
  case (Cons s ss)
  then obtain k where j: "j = Suc k" by (cases j) auto
  have same: "answer n = answer' n" using Cons.prems(1) [of n] j by simp
  show ?case
  proof (cases "render_step render vars previous s")
    case (Inr t)
    show ?thesis
    proof (cases "answer n (step_request model s t)")
      case (Inr resp)
      have "run_steps render answer model vars (Suc n) (cr_content resp) (take k ss) = Inl e"
        using Cons.prems(2) \<open>render_step render vars previous s = Inr t\<close> Inr j by (auto simp: and_also_def split: sum.splits)
      then have "run_steps render answer model vars (Suc n) (cr_content resp) ss = run_steps render answer' model vars (Suc n) (cr_content resp) ss"
        by (rule Cons.IH [rotated]) (use Cons.prems(1) j in simp)
      then show ?thesis using \<open>render_step render vars previous s = Inr t\<close> Inr same by (simp add: and_also_def)
    qed (use Inr same in \<open>simp add: and_also_def\<close>)
  qed (simp add: and_also_def)
qed simp

section \<open>Examples\<close>

definition sample_prompt :: prompt where
  "sample_prompt = \<lparr>pm_name = ''greet'', pm_version = 1, pm_body = ''hi'', pm_created_at = 5, pm_parent_version = None, pm_metadata = []\<rparr>"

text \<open>A registry that can store one prompt.\<close>

definition sample_prompts :: prompt_env where
  "sample_prompts = \<lparr>pr_root = [''r''], pr_encode = (\<lambda>p. if p = sample_prompt then Inr ''hi'' else Inl ''unsupported''),
     pr_decode = (\<lambda>t. if t = ''hi'' then Inr sample_prompt else Inl ''unsupported''),
     pr_list = (\<lambda>fs d. sorted_list_of_set (entries fs d)), pr_now = 5\<rparr>"

definition prompt_disk :: disk where
  "prompt_disk = \<lparr>dk_tree = map_of [([], Directory), ([''r''], Directory)], dk_fates = [], dk_mode = 420, dk_sequence = 0\<rparr>"

lemma sample_lists: "lists_entries (pr_list sample_prompts)"
  by (simp add: lists_entries_def sample_prompts_def)

lemma sample_toml: "toml_round_trip sample_prompts"
proof -
  have "utf8_valid ''hi''" by code_simp
  then show ?thesis by (auto simp: toml_round_trip_def sample_prompts_def split: if_splits)
qed

lemma prompt_disk_dir: "real_dir (dk_tree prompt_disk) (pr_root sample_prompts @ [''greet''])"
  by (auto simp: real_dir_def wf_tree_def linkfree_def is_link_def prompt_disk_def sample_prompts_def split: if_splits option.splits)

lemma prompt_disk_empty: "entries (dk_tree prompt_disk) (pr_root sample_prompts @ [''greet'']) = {}"
  by (auto simp: entries_def prompt_disk_def sample_prompts_def split: if_splits)

lemma prompt_disk_versions: "versions_in (dk_tree prompt_disk) (pr_root sample_prompts @ [''greet'']) = {}"
  using prompt_disk_empty by (simp add: versions_in_def entries_def)

lemma sample_saved: "\<exists>w'. save sample_prompts ''greet'' ''hi'' [] prompt_disk = (Inr sample_prompt, w')"
proof -
  let ?d = "pr_root sample_prompts @ [''greet'']"
  have valid: "validate_name ''greet'' = Inr ()" by code_simp
  then have dir: "prompt_dir sample_prompts ''greet'' = ?d" by (rule prompt_dir_name) simp
  obtain r w1 where mk: "create_dir_all (rev ?d) prompt_disk = (r, w1)" by fastforce
  have "fst (create_dir_all [''greet'', ''r''] prompt_disk) = Inr ()"
    "dk_tree (snd (create_dir_all [''greet'', ''r''] prompt_disk)) [''r'', ''greet''] = Some Directory"
    "fst (write_path [''r'', ''greet'', ''0001.toml''] ''hi'' (snd (create_dir_all [''greet'', ''r''] prompt_disk))) = Inr ()"
    by code_simp+
  then have r: "r = Inr ()" and d: "dk_tree w1 ?d = Some Directory" and
    wr: "fst (write_path [''r'', ''greet'', ''0001.toml''] ''hi'' w1) = Inr ()"
    using mk by (simp_all add: sample_prompts_def)
  have a: "adds_dirs ?d (dk_tree prompt_disk) (dk_tree w1)" using create_dir_all_adds [OF _ mk] prompt_disk_dir by simp
  have "\<not> is_prefix (?d @ [n]) ?d" for n by (simp only: is_prefix_iff) simp
  then have same: "dk_tree w1 (?d @ [n]) = dk_tree prompt_disk (?d @ [n])" for n using a unfolding adds_dirs_def by blast
  then have e: "entries (dk_tree w1) ?d = {}" using prompt_disk_empty by (simp only: entries_def)
  have v: "versions_in (dk_tree w1) ?d = {}" using prompt_disk_versions same by (simp only: versions_in_def)
  have real: "real_dir (dk_tree w1) ?d" using grows_real [OF adds_dirs_grows [OF a] prompt_disk_dir] .
  have "next_version sample_prompts (dk_tree w1) ''greet'' = Inr (Max (insert 0 (versions_in (dk_tree w1) ?d)) + 1)"
    by (rule next_version_real(1) [OF valid real _ sample_lists d]) (simp_all only: dir v e ball_empty finite.emptyI)
  then have nv: "next_version sample_prompts (dk_tree w1) ''greet'' = Inr 1" unfolding v by simp
  have "pad4 1 = ''0001''" by code_simp
  then have path: "version_path sample_prompts ''greet'' 1 = [''r'', ''greet'', ''0001.toml'']"
    unfolding version_path_def dir by (simp add: sample_prompts_def)
  have "rev (prompt_dir sample_prompts ''greet'') = rev ?d" using dir by simp
  then show ?thesis using valid mk r nv wr path
    by (auto simp: save_def io_bind_def io_read_def io_sys_def io_ret_def Let_def sample_prompts_def sample_prompt_def split: prod.splits sum.splits)
qed

theorem latest_is_saved_witness:
  "\<exists>w' :: disk. latest sample_prompts (dk_tree w') ''greet'' = Inr (Some sample_prompt)"
proof -
  obtain w' where w': "save sample_prompts ''greet'' ''hi'' [] prompt_disk = (Inr sample_prompt, w')" using sample_saved by blast
  have "latest sample_prompts (dk_tree w') ''greet'' = Inr (Some sample_prompt)"
    using latest_is_saved [OF prompt_disk_dir _ sample_lists sample_toml _ _ w'] prompt_disk_versions prompt_disk_empty by simp
  then show ?thesis by (rule exI [of _ w'])
qed

text \<open>Two dots pass the check of the name, and the prompt is written beside the registry.\<close>

definition bare_prompts :: prompt_env where
  "bare_prompts = \<lparr>pr_root = [''r'', ''prompts''], pr_encode = (\<lambda>p. Inr (pm_body p)), pr_decode = (\<lambda>t. Inl t),
     pr_list = (\<lambda>fs d. []), pr_now = 5\<rparr>"

definition registry_disk :: disk where
  "registry_disk = \<lparr>dk_tree = map_of [([], Directory), ([''r''], Directory), ([''r'', ''prompts''], Directory)],
     dk_fates = [], dk_mode = 420, dk_sequence = 0\<rparr>"

lemma prompt_escapes:
  "validate_name ''..'' = Inr () \<and>
   dk_tree registry_disk [''r'', ''0001.toml''] = None \<and>
   dk_tree (snd (save bare_prompts ''..'' ''hi'' [] registry_disk)) [''r'', ''0001.toml''] = Some (Regular ''hi'' 420)"
  by code_simp

text \<open>A chain of two steps.\<close>

lemma chain_sample:
  "map_sum id (map so_content) (execute (\<lambda>t vs. case map_of vs ''previous'' of None \<Rightarrow> Inl t | Some s \<Rightarrow> Inr (t @ s))
     (\<lambda>n q. Inr \<lparr>cr_provider = ''p'', cr_model = cq_model q, cr_content = concat (map cm_content (cq_messages q)) @ ''!'',
        cr_usage = usage_default\<rparr>) ''m'' []
     [\<lparr>st_name = ''a'', st_system = [], st_user = ''one'', st_max_tokens = None, st_temperature_bits = None\<rparr>,
      \<lparr>st_name = ''b'', st_system = ''sys '', st_user = ''two '', st_max_tokens = None, st_temperature_bits = None\<rparr>]) =
   Inr [''one!'', ''sys two one!!'']"
  by code_simp

end
