(* ===== verification/Spec2Isabelle.thy ===== *)
theory Spec2Isabelle
  imports Invoke Proxy_Git Memory_Graph Compress_Safe Compress_Ml Forwarding Scan Sandbox_Policy Standard Prompts
begin

text \<open>
  A verification development of rtrt, a Rust workspace that routes coding-agent work between
  local command-line tools and remote model providers, keeps a ledger of what each of them was
  asked to do, and shrinks the text that goes to the models.

  \<^bold>\<open>The parts of the program and how they interact.\<close> A request enters either through
  \<^verbatim>\<open>invoke.rs\<close> (a tool on this machine, by command line or by API) or through
  \<^verbatim>\<open>gateway.rs\<close> (HTTP providers only). The router (\<^verbatim>\<open>router.rs\<close>) chooses a tool, a
  mode and a model from the detected tools and a usage snapshot (\<^verbatim>\<open>usage.rs\<close>); the
  snapshot is built from configured limits (\<^verbatim>\<open>config.rs\<close>), token logs and the rolling
  windows of the usage ledger (\<^verbatim>\<open>usage_ledger.rs\<close>). Every invocation appends a row to the
  ledger and every provider response may append a rate-limit signal, so the next routing
  decision sees it. Quota is kept per pool (\<^verbatim>\<open>pool.rs\<close>): a target plus the prefix of the
  model name. \<^verbatim>\<open>rtrt-proxy\<close> filters the output of shell commands before a model reads it, and
  \<^verbatim>\<open>rtrt-compress\<close> shortens texts by rules over regular expressions or by dropping the tokens
  with the lowest scores. \<^verbatim>\<open>rtrt-memory\<close> keeps what the tools said: rows in a SQLite file with a
  full-text index, embeddings, edges between rows, linked entities and receipts of forwarded events;
  the events come from other machines, where \<^verbatim>\<open>forwarding.rs\<close> spools them to a directory and
  delivers them to a collector that authorises the sender and stores each event once.
  \<^verbatim>\<open>rtrt-security\<close> scans a project with five engines (patterns, secrets, dependencies,
  licenses, review rules) whose findings carry redacted evidence, and \<^verbatim>\<open>sandbox.rs\<close> starts a
  shell for a coding agent in a bubblewrap container that sees one authorised project.
  \<^verbatim>\<open>rtrt-templates\<close> writes new projects from templates and keeps existing ones to the standard.

  \<^bold>\<open>Theories.\<close>
  \<^item> \<open>Prelude\<close>: \<^verbatim>\<open>Ordering\<close>, stable \<^verbatim>\<open>sort_by\<close>, saturating u64 arithmetic;
    the insertion sort \<open>sort_by\<close> gives the result of the library's stable sort wherever the
    comparison is a total preorder, and for the one comparison of the router that is not
    transitive the library may order differently or panic;
    locales \<open>total_comparator\<close> (a comparison that is a total preorder; its sort is a sorted
    permutation) and \<open>refines_key\<close> (a comparison that agrees with an order on keys).
  \<^item> \<open>Rust_Str\<close>: the part of \<^verbatim>\<open>str\<close> that is used, on UTF-8 bytes: trimming, lines,
    splitting, number parsing and printing.
  \<^item> \<open>Btree\<close>: \<^verbatim>\<open>BTreeMap\<close> as a sorted association list; locale \<open>keyed_store\<close>.
  \<^item> \<open>F64\<close>: doubles as rationals with rounding to 53 bits after each operation.
  \<^item> \<open>Pool_Key\<close> (\<^verbatim>\<open>pool.rs\<close>, limits of \<^verbatim>\<open>config.rs\<close>): pool keys, their text form
    and the tables of caps. Printing and parsing are inverse; the order is total.
  \<^item> \<open>Ratelimit\<close> and \<open>Ledger\<close> (\<^verbatim>\<open>usage_ledger.rs\<close>): rate-limit headers and signals;
    ledger rows, windows, headroom, ranking and the recording path. What is appended is what is
    read back (locale \<open>tsv_log\<close>, for rows and for signals), aggregation by pool and by target
    agree, stale reports never count, the civil-date conversion counts days. An append and the
    rewrite that trims the file may fail before they begin or break off (\<open>write_fate\<close>); what a
    broken rewrite leaves is proved too. Files are taken to be UTF-8 text.
  \<^item> \<open>Usage\<close> (\<^verbatim>\<open>usage.rs\<close>): the routing snapshot; where no current provider report
    outranks the configured cap, it gives the same quota as the ledger.
  \<^item> \<open>Router\<close> (\<^verbatim>\<open>router.rs\<close>, records of \<^verbatim>\<open>detect.rs\<close>, \<^verbatim>\<open>error.rs\<close>): candidates per
    quota bucket, health scores, comparison chains, decision and alternatives. A spent bucket is
    not picked while another has room; an explicit target decides; the ranking is a permutation
    in key order where the keys are comparable, and a counterexample shows that the comparison
    itself is not transitive.
  \<^item> \<open>Gateway\<close> (\<^verbatim>\<open>gateway.rs\<close>, \<^verbatim>\<open>lib.rs\<close> and provider constants): model
    resolution, cache, budget, retries and fallback, metrics and summaries. The accounting
    invariant holds in every state reachable by chat calls; locale \<open>additive_counter\<close> carries
    each of the counters; with a cap on the spending, the total stays below the cap plus the price
    of one answer.
  \<^item> \<open>Invoke\<close> (\<^verbatim>\<open>invoke.rs\<close>, failover settings of \<^verbatim>\<open>config.rs\<close>): one invocation with
    its ledger row, output clean-up, failure classes, the failover walk. The walk ends, makes a
    bounded number of calls and leaves a row for each (locale \<open>counted_invoker\<close>).
  \<^item> \<open>Proxy\<close> and \<open>Proxy_Git\<close> (\<^verbatim>\<open>rtrt-proxy\<close>): every output filter. Noise filters keep
    all error lines up to carriage returns (locale \<open>noise_filter\<close>; two of them also drop the
    lines that they count as passing tests and checks), the errors-only pass is its specification, a
    condensed diff hides only counted context (relation \<open>condensed\<close>).
  \<^item> \<open>Core_Error\<close> (\<^verbatim>\<open>error.rs\<close>): the error type that all crates share.
  \<^item> \<open>Memory_Sql\<close> (the SQL of \<^verbatim>\<open>rtrt-memory/src/lib.rs\<close>): tables, the statements with the
    constraints of the schema, and computations \<open>'a db\<close> over a store whose statements fail as a
    schedule says. Locale \<open>run_logic\<close> states what a relation between states must satisfy for
    every composed operation to keep it; it is interpreted for all schedules (\<open>any\<close>) and for runs
    without failures (\<open>undisturbed\<close>).
  \<^item> \<open>Memory_Store\<close> (\<^verbatim>\<open>MemoryStore\<close>, \<^verbatim>\<open>role.rs\<close>, \<^verbatim>\<open>payload.rs\<close>, \<^verbatim>\<open>embed.rs\<close>):
    the operations. The integrity of the tables survives any failing statement, forwarded events
    are ingested once, compression keeps the original, the index follows the rows except where
    two operations are shown to break it.
  \<^item> \<open>Memory_Graph\<close>: breadth-first recall over the edges and the disjoint sets of the cluster
    views.
  \<^item> \<open>Regex\<close>: the pattern syntax that the sources use, its parser and a matcher that follows the
    documented leftmost-first semantics of the regex crate. What the compression theories rely on
    is the predicate \<open>follows_docs\<close>, which this matcher satisfies.
  \<^item> \<open>Compress\<close>, \<open>Compress_Safe\<close>, \<open>Compress_Ml\<close> (\<^verbatim>\<open>rtrt-compress\<close>): the rule
    tables, the stash and restore of protected spans, the pipeline of every level, and the
    compressor that ranks tokens in single precision. Code, URLs, quoted strings and paths survive
    every level (relation \<open>rewritten\<close>); a token that carries a fact is dropped only after all prose.
  \<^item> \<open>Spool\<close>, \<open>Collector\<close>, \<open>Forwarding\<close> (\<^verbatim>\<open>forwarding.rs\<close>,
    \<^verbatim>\<open>collector.rs\<close>): the spool directory and its flush, tokens, bindings and ingestion, and
    the two sides joined by a network that may lose requests and replies. However often a delivery
    is repeated, the collector ends with every accepted event once, and the spool drains as soon as
    the network is up.
  \<^item> \<open>Scan_Core\<close> (findings, profiles, the runner, the order of findings), \<open>Scan_Text\<close>
    (patterns and secrets), \<open>Scan_Deps\<close>, \<open>Scan_Licenses\<close>, \<open>Scan_Ai\<close> and \<open>Scan\<close>
    (\<^verbatim>\<open>rtrt-security\<close>): locale \<open>scan_engine\<close> says what the report relies on (every
    finding names its engine and a scanned file); each of the five engines interprets it. A report
    counts and orders exactly the findings of its engines, and no secret is shown in full.
  \<^item> \<open>Sandbox\<close>, \<open>Sandbox_Policy\<close> (\<^verbatim>\<open>sandbox.rs\<close>, the direct start of
    \<^verbatim>\<open>detect.rs\<close>): the screen of the command line, the arguments handed to bubblewrap, the
    checks on files, the project boundary and the registry of authorised projects. In any container that
    a bubblewrap as its manual page describes it (\<open>bwrap_documented\<close>) starts from the arguments, only
    the project and its Git directories are writable and the network is its own.
  \<^item> \<open>Rust_Path\<close> and \<open>Files\<close>: the used part of \<^verbatim>\<open>std::path\<close> and \<^verbatim>\<open>std::fs\<close>, a tree of
    files with symbolic links in which every changing operation may fail.
  \<^item> \<open>Scaffold\<close> (\<^verbatim>\<open>rtrt-templates\<close>: \<^verbatim>\<open>lib.rs\<close>, \<^verbatim>\<open>render.rs\<close>) and \<open>Standard\<close>
    (\<^verbatim>\<open>project.rs\<close>): planning and writing a scaffold, inspection and repair of a project, and
    the retirement of older assets. A scaffold changes nothing outside its root whatever fails
    (relation \<open>confined_to\<close>); a repair only adds (\<open>grows\<close>) and leaves nothing of the standard
    missing; no retired text is lost. Three lemmas show runs that do not do what was meant.
  \<^item> \<open>Prompts\<close> (\<^verbatim>\<open>prompts.rs\<close>, \<^verbatim>\<open>chains.rs\<close>): the registry of numbered prompts on the
    same tree, where the latest version is the one saved last and earlier ones stay, and prompt
    chains, in which every step sees the answer of the one above it.

  \<^bold>\<open>Correspondence.\<close> Structs are records, enums datatypes, functions keep their names (with a
  suffix where HOL has the name). Strings are byte lists. Counters that the source adds with
  \<^verbatim>\<open>+=\<close> are words and wrap; quantities it only combines with saturating operations are
  naturals with the bound written out. Errors are values (\<open>Inl\<close>); a Rust panic is
  \<^const>\<open>None\<close>. Loops are structural recursions or carry a termination proof; the search for a
  representative, which ends only on well-formed parents, is a partial function, and it is proved to
  return. Fuel appears in five places. The parser of patterns gets three times the length of the pattern
  and three more (at most three nested calls before a character is consumed), and a pattern that it
  does not read has no promise attached. A repetition in the matcher gets its lower
  bound plus the length of the rest of the text, since beyond the lower bound every round must
  advance. The pass over a text with a language pack (\<open>Compress\<close>) gets the length of the text, of
  which every round takes at least one character; \<open>Compress_Safe\<close> proves its claims for any
  fuel that large. The example codec of \<open>Forwarding\<close>
  decodes a list with the length of its text as fuel, proved to be enough. A path lookup
  in \<open>Files\<close> follows at most 40 links, the bound of the kernel. Code outside the repository is an argument: the
  regex engine, the language detector and the Unicode tables, the header map, the JSON, TOML and URL
  parsers, the outcomes of file system calls, of spawned processes, of the network and of provider
  calls, the hash behind the cache key, the embedder, the body hash, the binary logarithm of the
  entropy check, bubblewrap, the clock (one reading per operation) and what other connections commit between a
  transaction's begin and its first read. What is relied on is a named hypothesis
  (\<open>follows_docs\<close>, \<open>error_pattern_documented\<close>, \<open>serde_documented\<close>,
  \<open>bwrap_documented\<close>), shown to hold of a concrete argument. The forwarding
  and scanning theories take the file system as what it holds and a schedule of the operations that
  fail. SQL statements
  are functions on the tables, written from the statement text and the schema: they check its
  constraints, cascade its foreign keys and deliver rows in the order the statement asks for (a
  tie is broken by the row id). The full-text index is the list of documents it holds. The reads
  of one graph walk see one snapshot.

  \<^bold>\<open>Not modelled.\<close> Probing the machine for tools (\<^verbatim>\<open>detect.rs\<close> but for the records
  the router reads and the direct start of Claude), the other tables of \<^verbatim>\<open>config.rs\<close>, HTTP
  serving and streaming (\<^verbatim>\<open>gateway_server.rs\<close>, \<^verbatim>\<open>stream.rs\<close>), the command line
  (\<^verbatim>\<open>main.rs\<close>, \<^verbatim>\<open>setup.rs\<close>, \<^verbatim>\<open>opencode_sessions.rs\<close>), dashboard and MCP front
  ends: argument parsing, printing and I/O around the modelled libraries. Of the memory store: the
  ranking of full-text and vector recall, the cluster and concept views, JSONL import and export,
  schema migration. Of the compressor: the LLM backend, ONNX inference and the tree-sitter signature
  extractor. Of forwarding: the permission checks on the spool and on the credentials file. Of the
  sandbox: the lock and the writing of the registry file. Of the templates: the directory of custom
  templates and the texts of the built-in templates; the file
  system is not changed by others while an operation runs, but for the hooks of the retirement. Concurrency between processes that share
  the ledger file is modelled only as the outcome of taking the advisory lock.
\<close>

end
